(* ===== verification/Artery_Prelude.thy ===== *)
theory Artery_Prelude
  imports Complex_Main "HOL-Library.Word" "HOL-Library.Char_ord" "HOL-Library.List_Lexorder"
begin

text \<open>
  The vocabulary the components share: the C++ arithmetic the sources use (division that
  truncates, \<open>std::round\<close>, conversion of a double to an integer), simulation time, results that
  may be errors, \<open>std::map\<close> as an ordered association list, \<open>std::lower_bound\<close> as the binary
  search it is, and \<open>boost::circular_buffer\<close>.  The generic lemmas on them are declared here,
  once, and the locale \<open>keyed_store\<close> states what every keyed container of the program promises.
\<close>

unbundle bit_operations_syntax

section \<open>Collections of facts\<close>

named_theorems inv_intros \<open>operations that keep a component's invariant\<close>
named_theorems frame_simps \<open>fields an operation leaves alone\<close>

section \<open>Errors as values\<close>

text \<open>
  One constructor per way the modelled code stops: a \<open>cRuntimeError\<close>, the standard exceptions it
  throws or lets through, and a failed \<open>assert\<close>.
\<close>

datatype cerror =
    RuntimeError string
  | LogicError string
  | RangeError string
  | DomainError string
  | BadLexicalCast string
  | OversamplingError
  | UndersamplingError
  | AssertionFailed

type_synonym 'a result = "cerror + 'a"

fun rbind :: "'a result \<Rightarrow> ('a \<Rightarrow> 'b result) \<Rightarrow> 'b result" where
  "rbind (Inl e) f = Inl e"
| "rbind (Inr x) f = f x"

fun is_ok :: "'a result \<Rightarrow> bool" where
  "is_ok (Inl e) = False"
| "is_ok (Inr x) = True"

fun rmap :: "('a \<Rightarrow> 'b) \<Rightarrow> 'a result \<Rightarrow> 'b result" where
  "rmap f (Inl e) = Inl e"
| "rmap f (Inr x) = Inr (f x)"

text \<open>A loop over a range whose body may throw.\<close>

fun rfold :: "('a \<Rightarrow> 's \<Rightarrow> 's result) \<Rightarrow> 'a list \<Rightarrow> 's \<Rightarrow> 's result" where
  "rfold f [] s = Inr s"
| "rfold f (x # xs) s = rbind (f x s) (rfold f xs)"

section \<open>Numbers of the source\<close>

text \<open>Integer division of C++ and its remainder: the quotient is truncated towards zero.\<close>

definition cdiv :: "int \<Rightarrow> int \<Rightarrow> int" where
  "cdiv a b = sgn a * sgn b * (\<bar>a\<bar> div \<bar>b\<bar>)"

definition crem :: "int \<Rightarrow> int \<Rightarrow> int" where
  "crem a b = a - b * cdiv a b"

text \<open>\<open>std::round\<close>: to the nearest integer, halves away from zero.\<close>

definition std_round :: "real \<Rightarrow> int" where
  "std_round x = (if 0 \<le> x then \<lfloor>x + 1/2\<rfloor> else - \<lfloor>- x + 1/2\<rfloor>)"

text \<open>Assigning a double to an integer variable drops the fraction.\<close>

definition trunc_int :: "real \<Rightarrow> int" where
  "trunc_int x = (if 0 \<le> x then \<lfloor>x\<rfloor> else \<lceil>x\<rceil>)"

text \<open>
  \<open>omnetpp::SimTime\<close> counts ticks of the simulation resolution; the model uses its default of
  one picosecond.
\<close>

type_synonym simtime = int

definition simtime_us :: "int \<Rightarrow> simtime" where
  "simtime_us n = n * 1000000"

definition simtime_ms :: "int \<Rightarrow> simtime" where
  "simtime_ms n = n * 1000000000"

definition simtime_s :: "int \<Rightarrow> simtime" where
  "simtime_s n = n * 1000000000000"

definition in_us :: "simtime \<Rightarrow> int" where
  "in_us t = cdiv t 1000000"

definition in_ms :: "simtime \<Rightarrow> int" where
  "in_ms t = cdiv t 1000000000"

text \<open>\<open>SimTime::dbl\<close>: the time in seconds.\<close>

definition simtime_dbl :: "simtime \<Rightarrow> real" where
  "simtime_dbl t = real_of_int t / 1000000000000"

section \<open>Containers of the source\<close>

text \<open>
  \<open>std::map\<close>: the entries in the order of their keys, each key once.  \<open>omap_put\<close> is assignment
  through \<open>operator[]\<close> (an existing entry is overwritten), \<open>omap_del\<close> is \<open>erase\<close> by key and
  \<open>map_of\<close> is \<open>find\<close>.
\<close>

type_synonym ('k, 'v) omap = "('k \<times> 'v) list"

fun omap_put :: "'k::linorder \<Rightarrow> 'v \<Rightarrow> ('k, 'v) omap \<Rightarrow> ('k, 'v) omap" where
  "omap_put k v [] = [(k, v)]"
| "omap_put k v (e # es) =
     (if fst e < k then e # omap_put k v es
      else if fst e = k then (k, v) # es
      else (k, v) # e # es)"

definition omap_del :: "'k \<Rightarrow> ('k, 'v) omap \<Rightarrow> ('k, 'v) omap" where
  "omap_del k m = filter (\<lambda>e. fst e \<noteq> k) m"

definition omap_ok :: "('k::linorder, 'v) omap \<Rightarrow> bool" where
  "omap_ok m \<longleftrightarrow> sorted_wrt (<) (map fst m)"

text \<open>
  \<open>std::lower_bound\<close> on the positions \<open>lo\<close> to \<open>hi\<close>: it halves the range, moving right past the
  middle element when \<open>before\<close> holds of it.
\<close>

function lower_bound :: "('a \<Rightarrow> bool) \<Rightarrow> 'a list \<Rightarrow> nat \<Rightarrow> nat \<Rightarrow> nat" where
  "lower_bound before xs lo hi =
     (if lo < hi then
        (let mid = lo + (hi - lo) div 2
         in if before (xs ! mid) then lower_bound before xs (Suc mid) hi
            else lower_bound before xs lo mid)
      else lo)"
  by pat_completeness auto
termination
  by (relation "measure (\<lambda>(p, xs, lo, hi). hi - lo)") auto

declare lower_bound.simps [simp del]

text \<open>
  \<open>boost::circular_buffer\<close> as the list of its elements from the front: \<open>push_front\<close> overwrites the
  element at the back when the buffer is full and does nothing at capacity zero;
  \<open>set_capacity\<close> drops elements at the back.
\<close>

definition push_front :: "nat \<Rightarrow> 'a \<Rightarrow> 'a list \<Rightarrow> 'a list" where
  "push_front cap x xs = take cap (x # xs)"

definition set_capacity :: "nat \<Rightarrow> 'a list \<Rightarrow> 'a list" where
  "set_capacity cap xs = take cap xs"

text \<open>
  A configuration element is given by what its accessors answer: the tag, the attributes, the
  children under a tag and the first of them.
\<close>

datatype cXMLElement = XMLElement
  (getTagName: string)
  (getAttribute: "string \<Rightarrow> string option")
  (getChildrenByTagName: "string \<Rightarrow> cXMLElement list")
  (getFirstChildWithTag: "string \<Rightarrow> cXMLElement option")

section \<open>Lemmas on the shared vocabulary\<close>

lemma is_ok_iff: "is_ok r \<longleftrightarrow> (\<exists>x. r = Inr x)"
  by (cases r) auto

lemma rbind_ok_iff: "rbind r f = Inr y \<longleftrightarrow> (\<exists>x. r = Inr x \<and> f x = Inr y)"
  by (cases r) auto

lemma rbind_err_iff: "rbind r f = Inl e \<longleftrightarrow> r = Inl e \<or> (\<exists>x. r = Inr x \<and> f x = Inl e)"
  by (cases r) auto

lemma rmap_ok_iff: "rmap f r = Inr y \<longleftrightarrow> (\<exists>x. r = Inr x \<and> y = f x)"
  by (cases r) auto

lemma rfold_append: "rfold f (xs @ ys) s = rbind (rfold f xs s) (rfold f ys)"
proof (induction xs arbitrary: s)
  case (Cons x xs)
  then show ?case by (cases "f x s") simp_all
qed simp

text \<open>What each iteration keeps holds after the loop, and a loop whose iterations succeed succeeds.\<close>

lemma rfold_inv:
  assumes "rfold f xs s = Inr s'" and "P s" and "\<And>x s s'. x \<in> set xs \<Longrightarrow> P s \<Longrightarrow> f x s = Inr s' \<Longrightarrow> P s'"
  shows "P s'"
  using assms by (induction xs arbitrary: s) (auto simp: rbind_ok_iff)

lemma rfold_total:
  assumes "P [] s" and "\<And>ys x zs s. xs = ys @ x # zs \<Longrightarrow> P ys s \<Longrightarrow> \<exists>s'. f x s = Inr s' \<and> P (ys @ [x]) s'"
  shows "\<exists>s'. rfold f xs s = Inr s' \<and> P xs s'"
  using assms(2)
proof (induction xs rule: rev_induct)
  case Nil
  then show ?case using assms(1) by simp
next
  case (snoc x xs)
  have "\<exists>s'. rfold f xs s = Inr s' \<and> P xs s'" by (rule snoc.IH) (simp add: snoc.prems)
  then obtain s1 where s1: "rfold f xs s = Inr s1" "P xs s1" by blast
  with snoc.prems [of xs x "[]" s1] show ?case by (auto simp: rfold_append rbind_ok_iff)
qed

lemma cdiv_nonneg [simp]: "0 \<le> a \<Longrightarrow> 0 < b \<Longrightarrow> cdiv a b = a div b"
  by (cases "a = 0") (simp_all add: cdiv_def)

lemma crem_nonneg [simp]: "0 \<le> a \<Longrightarrow> 0 < b \<Longrightarrow> crem a b = a mod b"
  by (simp add: crem_def minus_mult_div_eq_mod)

lemma cdiv_mult [simp]: "0 < b \<Longrightarrow> cdiv (a * b) b = a"
  by (simp add: cdiv_def abs_mult sgn_mult mult_sgn_abs)

lemma in_us_simtime_us [simp]: "in_us (simtime_us n) = n"
  by (simp add: in_us_def simtime_us_def)

lemma std_round_int [simp]: "std_round (of_int n) = n"
proof (cases "0 \<le> n")
  case True
  then have "\<lfloor>real_of_int n + 1/2\<rfloor> = n" by linarith
  with True show ?thesis by (simp add: std_round_def)
next
  case False
  then have "\<lfloor>- real_of_int n + 1/2\<rfloor> = - n" by linarith
  with False show ?thesis by (simp add: std_round_def)
qed

lemma std_round_error: "\<bar>real_of_int (std_round x) - x\<bar> \<le> 1/2"
  unfolding std_round_def abs_le_iff by (cases "0 \<le> x") (simp, linarith)+

lemma std_round_mono: "x \<le> y \<Longrightarrow> std_round x \<le> std_round y"
proof -
  assume le: "x \<le> y"
  show ?thesis
  proof (cases "0 \<le> x \<or> y < 0")
    case True
    then show ?thesis using le by (auto simp: std_round_def intro!: floor_mono)
  next
    case False
    then have "0 \<le> \<lfloor>1/2 - x\<rfloor>" and "0 \<le> \<lfloor>y + 1/2\<rfloor>" by auto
    with False show ?thesis by (auto simp: std_round_def simp del: zero_le_floor)
  qed
qed

lemma std_round_minus: "std_round (- x) = - std_round x"
  by (cases "x = 0") (auto simp: std_round_def)

lemma trunc_int_bounds:
  assumes "real_of_int a \<le> x" and "x \<le> real_of_int b"
  shows "a \<le> trunc_int x" and "trunc_int x \<le> b"
  using assms unfolding trunc_int_def by (auto simp: le_floor_iff ceiling_le_iff) linarith+

lemma trunc_int_of_int [simp]: "trunc_int (of_int n) = n"
  by (simp add: trunc_int_def)

subsection \<open>Ordered maps\<close>

lemma omap_ok_simps [simp]:
  "omap_ok []"
  "omap_ok (e # es) \<longleftrightarrow> (\<forall>k \<in> fst ` set es. fst e < k) \<and> omap_ok es"
  by (auto simp: omap_ok_def)

lemma keys_omap_put: "fst ` set (omap_put k v m) = insert k (fst ` set m)"
  by (induction m) auto

lemma omap_ok_put [inv_intros]: "omap_ok m \<Longrightarrow> omap_ok (omap_put k v m)"
  by (induction m) (auto simp: keys_omap_put)

lemma omap_ok_filter [inv_intros]: "omap_ok m \<Longrightarrow> omap_ok (filter P m)"
  by (induction m) auto

lemma omap_ok_del [inv_intros]: "omap_ok m \<Longrightarrow> omap_ok (omap_del k m)"
  by (simp add: omap_del_def omap_ok_filter)

lemma map_of_omap_put: "omap_ok m \<Longrightarrow> map_of (omap_put k v m) = (map_of m)(k \<mapsto> v)"
proof (induction m)
  case (Cons e es)
  then show ?case by (cases e) (auto simp: fun_eq_iff)
qed auto

lemma map_of_omap_del: "map_of (omap_del k m) = (map_of m)(k := None)"
  by (induction m) (auto simp: omap_del_def fun_eq_iff)

lemma omap_ok_distinct: "omap_ok m \<Longrightarrow> distinct (map fst m)"
  by (induction m) force+

lemma map_of_omap_filter:
  assumes "omap_ok m"
  shows "map_of (filter P m) k =
    (case map_of m k of None \<Rightarrow> None | Some v \<Rightarrow> if P (k, v) then Some v else None)"
  using assms
proof (induction m)
  case (Cons e es)
  obtain a b where e: "e = (a, b)" by (cases e)
  have none: "map_of es a = None"
    using Cons.prems e by (auto simp: map_of_eq_None_iff)
  show ?case
    using Cons none e by (auto split: option.splits)
qed simp

lemma omap_put_same_keys: "k \<in> fst ` set m \<Longrightarrow> omap_ok m \<Longrightarrow> length (omap_put k v m) = length m"
  by (induction m) auto

lemma set_omap_put:
  "omap_ok m \<Longrightarrow> set (omap_put k v m) = insert (k, v) {e \<in> set m. fst e \<noteq> k}"
  by (induction m) auto

lemma length_filter_filter: "length (filter P (filter Q xs)) \<le> length (filter P xs)"
  by (induction xs) auto

subsection \<open>Binary search\<close>

text \<open>
  On a range that is partitioned (the elements that come before form a prefix) the search returns
  the boundary: exactly the prefix is below the position returned.
\<close>

lemma lower_bound_range: "lo \<le> hi \<Longrightarrow> lo \<le> lower_bound p xs lo hi \<and> lower_bound p xs lo hi \<le> hi"
proof (induction p xs lo hi rule: lower_bound.induct)
  case (1 p xs lo hi)
  show ?case
  proof (cases "lo < hi")
    case True
    define mid where "mid = lo + (hi - lo) div 2"
    have mid: "lo \<le> mid" "mid < hi" using True by (auto simp: mid_def)
    have step: "lower_bound p xs lo hi =
        (if p (xs ! mid) then lower_bound p xs (Suc mid) hi else lower_bound p xs lo mid)"
      using True by (simp add: lower_bound.simps [of p xs lo hi] mid_def Let_def)
    show ?thesis
      using "1.IH"(1) [OF True mid_def] "1.IH"(2) [OF True mid_def] mid step by (cases "p (xs ! mid)") auto
  next
    case False
    then show ?thesis using "1.prems" by (subst (1 2) lower_bound.simps) simp
  qed
qed

lemma lower_bound_boundary:
  assumes "lo \<le> b" "b \<le> hi"
    and "\<And>i. lo \<le> i \<Longrightarrow> i < hi \<Longrightarrow> p (xs ! i) \<longleftrightarrow> i < b"
  shows "lower_bound p xs lo hi = b"
  using assms
proof (induction p xs lo hi rule: lower_bound.induct)
  case (1 p xs lo hi)
  show ?case
  proof (cases "lo < hi")
    case True
    define mid where "mid = lo + (hi - lo) div 2"
    have mid: "lo \<le> mid" "mid < hi" using True by (auto simp: mid_def)
    have step: "lower_bound p xs lo hi =
        (if p (xs ! mid) then lower_bound p xs (Suc mid) hi else lower_bound p xs lo mid)"
      using True by (simp add: lower_bound.simps [of p xs lo hi] mid_def Let_def)
    show ?thesis
    proof (cases "p (xs ! mid)")
      case pm: True
      then have "mid < b" using "1.prems"(3) mid by blast
      then show ?thesis using "1.IH"(1) [OF True mid_def pm] "1.prems" mid step pm by auto
    next
      case pm: False
      then have "b \<le> mid" using "1.prems"(3) mid by (meson not_less)
      then show ?thesis using "1.IH"(2) [OF True mid_def pm] "1.prems" mid step pm by auto
    qed
  next
    case False
    then show ?thesis using "1.prems"(1,2) by (simp add: lower_bound.simps [of p xs lo hi])
  qed
qed

lemma lower_bound_takeWhile:
  assumes "\<And>i j. i < j \<Longrightarrow> j < length xs \<Longrightarrow> p (xs ! j) \<Longrightarrow> p (xs ! i)"
  shows "lower_bound p xs 0 (length xs) = length (takeWhile p xs)"
proof (rule lower_bound_boundary)
  fix i assume i: "0 \<le> i" "i < length xs"
  let ?b = "length (takeWhile p xs)"
  show "p (xs ! i) \<longleftrightarrow> i < ?b"
  proof
    assume "i < ?b"
    then show "p (xs ! i)" by (metis nth_mem set_takeWhileD takeWhile_nth)
  next
    assume pi: "p (xs ! i)"
    show "i < ?b"
    proof (rule ccontr)
      assume n: "\<not> i < ?b"
      then have b: "?b < length xs" using i by simp
      then have "\<not> p (xs ! ?b)" by (rule nth_length_takeWhile)
      moreover have "p (xs ! ?b)"
        using assms [of ?b i] pi n i by (cases "?b = i") auto
      ultimately show False by contradiction
    qed
  qed
qed (simp_all add: length_takeWhile_le)

subsection \<open>Circular buffers\<close>

lemma length_push_front: "length (push_front cap x xs) = min cap (Suc (length xs))"
  by (simp add: push_front_def)

lemma push_front_bounded [inv_intros]: "length (push_front cap x xs) \<le> cap"
  by (simp add: push_front_def)

lemma push_front_room: "length xs < cap \<Longrightarrow> push_front cap x xs = x # xs"
  by (simp add: push_front_def)

lemma hd_push_front: "0 < cap \<Longrightarrow> hd (push_front cap x xs) = x"
  by (cases cap) (simp_all add: push_front_def)

section \<open>The contract of a keyed container\<close>

text \<open>
  Several components keep one entry per key.  What their clients rely on: an entry that was stored
  is found, other keys are not affected, a removed key is gone, and both operations keep the
  container well formed.
\<close>

locale keyed_store =
  fixes store :: "'k \<Rightarrow> 'v \<Rightarrow> 's \<Rightarrow> 's"
    and remove :: "'k \<Rightarrow> 's \<Rightarrow> 's"
    and lookup :: "'s \<Rightarrow> 'k \<Rightarrow> 'v option"
    and wf :: "'s \<Rightarrow> bool"
  assumes lookup_store: "wf s \<Longrightarrow> lookup (store k v s) = (lookup s)(k \<mapsto> v)"
    and lookup_remove: "wf s \<Longrightarrow> lookup (remove k s) = (lookup s)(k := None)"
    and wf_store: "wf s \<Longrightarrow> wf (store k v s)"
    and wf_remove: "wf s \<Longrightarrow> wf (remove k s)"
begin

lemma found_after_store: "wf s \<Longrightarrow> lookup (store k v s) k = Some v"
  by (simp add: lookup_store)

lemma others_after_store: "wf s \<Longrightarrow> k' \<noteq> k \<Longrightarrow> lookup (store k v s) k' = lookup s k'"
  by (simp add: lookup_store)

lemma store_overwrites: "wf s \<Longrightarrow> lookup (store k v (store k w s)) = lookup (store k v s)"
  by (simp add: lookup_store wf_store)

lemma gone_after_remove: "wf s \<Longrightarrow> lookup (remove k s) k = None"
  by (simp add: lookup_remove)

lemma remove_after_store: "wf s \<Longrightarrow> lookup (remove k (store k v s)) = lookup (remove k s)"
  by (simp add: lookup_store lookup_remove wf_store)

lemma wf_fold_store: "wf s \<Longrightarrow> wf (fold (\<lambda>(k, v). store k v) kvs s)"
  by (induction kvs arbitrary: s) (auto simp: wf_store)

lemma lookup_fold_store:
  "wf s \<Longrightarrow> lookup (fold (\<lambda>(k, v). store k v) kvs s) = lookup s ++ map_of (rev kvs)"
proof (induction kvs arbitrary: s)
  case (Cons e kvs)
  obtain k v where e: "e = (k, v)" by (cases e)
  show ?case
    using Cons e by (simp add: wf_store lookup_store map_add_upd_left [symmetric] fun_eq_iff map_add_def
      split: option.splits)
qed simp

end

interpretation omap_store: keyed_store omap_put omap_del "\<lambda>m. map_of m" omap_ok
  by unfold_locales (auto intro: inv_intros simp: map_of_omap_put map_of_omap_del)

end
