(* ===== verification/VehicleData.thy ===== *)
theory VehicleData
  imports Artery_Prelude
begin

text \<open>
  \<open>artery/application/VehicleDataProvider\<close>: the kinematics a vehicle's services read, updated from the
  mobility of the simulated vehicle, and \<open>VehicleMiddleware::initializeStationType\<close>.  Quantities are
  exact real numbers in SI units (angles in radians); what the vehicle controller answers is the
  record \<open>VehicleController\<close>.
\<close>

datatype StationType =
    Unknown | Pedestrian | Cyclist | Moped | Motorcycle | Passenger_Car | Bus | Light_Truck
  | Heavy_Truck | Trailer | Special_Vehicle | Tram | RSU

record VehicleController =
  vc_position :: "real \<times> real"
  vc_geo_latitude :: real
  vc_geo_longitude :: real
  vc_heading :: real
  vc_speed :: real

record VehicleDataProvider =
  mStationId :: "32 word"
  mStationType :: StationType
  mPosition :: "real \<times> real"
  mLatitude :: real
  mLongitude :: real
  mSpeed :: real
  mAccel :: real
  mHeading :: real
  mYawRate :: real
  mCurvature :: real
  mConfidence :: real
  mLastUpdate :: simtime
  mCurvatureOutput :: "real list"
  mCurvatureConfidenceOutput :: "real list"
  mCurvatureConfidenceInput :: real

text \<open>\<open>distance\<close> of \<open>artery/utility/Geometry\<close>: the Euclidean distance of two positions.\<close>

definition position_distance :: "real \<times> real \<Rightarrow> real \<times> real \<Rightarrow> real" where
  "position_distance a b = sqrt ((fst a - fst b)\<^sup>2 + (snd a - snd b)\<^sup>2)"

definition degree :: real where
  "degree = pi / 180"

text \<open>The keys of the table in radians per square second; \<open>None\<close> is the infinite last key.\<close>

definition mConfidenceTable :: "(real option \<times> real) list" where
  "mConfidenceTable =
     [(Some 0, 1.0), (Some (0.5 * degree), 0.9), (Some (1.0 * degree), 0.8), (Some (1.5 * degree), 0.7),
      (Some (2.0 * degree), 0.6), (Some (2.5 * degree), 0.5), (Some (5.0 * degree), 0.4),
      (Some (10.0 * degree), 0.3), (Some (15.0 * degree), 0.2), (Some (20.0 * degree), 0.1),
      (Some (25.0 * degree), 0.0), (None, 0.0)]"

definition convertMobilityAngle :: "real \<Rightarrow> real result" where
  "convertMobilityAngle a =
     (let v = a * (- 1);
          v = v + 0.5 * pi;
          v = v - 2 * pi * of_int \<lfloor>v / (2 * pi)\<rfloor>
      in if v \<ge> 0 then (if v < 2 * pi then Inr v else Inl AssertionFailed) else Inl AssertionFailed)"

definition SimTime_getMaxTime :: simtime where
  "SimTime_getMaxTime = 2 ^ 63 - 1"

definition VehicleDataProvider_new :: "32 word \<Rightarrow> VehicleDataProvider" where
  "VehicleDataProvider_new sid =
     \<lparr>mStationId = sid, mStationType = Unknown, mPosition = (0, 0), mLatitude = 0, mLongitude = 0,
      mSpeed = 0, mAccel = 0, mHeading = 0, mYawRate = 0, mCurvature = 0, mConfidence = 0,
      mLastUpdate = SimTime_getMaxTime, mCurvatureOutput = [], mCurvatureConfidenceOutput = [0, 0],
      mCurvatureConfidenceInput = 0\<rparr>"

definition curvature_filter :: "real \<Rightarrow> real \<Rightarrow> real \<Rightarrow> real" where
  "curvature_filter out0 out1 c =
     (let omega = 2 * pi * 0.33; damping = 1; t_sample = 0.1
      in (- out1 + (2 + 2 * omega * damping * t_sample) * out0 + omega * omega * t_sample * t_sample * c)
         / (1 + 2 * omega * damping * t_sample + omega * omega * t_sample * t_sample))"

definition clamp_curvature :: "real \<Rightarrow> real" where
  "clamp_curvature c = (if \<bar>c\<bar> < 1 / 2500 then 0 else if \<bar>c\<bar> > 1 then 1 else c)"

definition VehicleDataProvider_calculateCurvature :: "VehicleDataProvider \<Rightarrow> VehicleDataProvider" where
  "VehicleDataProvider_calculateCurvature v =
     (if \<bar>mSpeed v\<bar> < 1 then v\<lparr>mCurvature := 0\<rparr>
      else
        (let c = mYawRate v / mSpeed v
         in case mCurvatureOutput v of
              [] \<Rightarrow> v\<lparr>mCurvatureOutput := push_front 2 c [], mCurvature := 0\<rparr>
            | [o1] \<Rightarrow> v\<lparr>mCurvatureOutput := push_front 2 c [o1], mCurvature := 0\<rparr>
            | out0 # out1 # rest \<Rightarrow>
                (let c = curvature_filter out0 out1 c
                 in v\<lparr>mCurvatureOutput := push_front 2 c (mCurvatureOutput v),
                      mCurvature := clamp_curvature c\<rparr>)))"

fun confidence_lookup :: "real \<Rightarrow> (real option \<times> real) list \<Rightarrow> real result" where
  "confidence_lookup x [] = Inl (DomainError ''input value is less than smallest entry in confidence table'')"
| "confidence_lookup x ((k, c) # es) =
     (if (case k of None \<Rightarrow> True | Some key \<Rightarrow> x \<le> key) then Inr c else confidence_lookup x es)"

definition VehicleDataProvider_mapOntoConfidence :: "real \<Rightarrow> real result" where
  "VehicleDataProvider_mapOntoConfidence x = confidence_lookup x mConfidenceTable"

definition confidence_filter :: "real \<Rightarrow> real \<Rightarrow> real \<Rightarrow> real \<Rightarrow> real" where
  "confidence_filter out0 out1 yaw input =
     (let omega = 2 * pi * 1; damping = 1; t_sample = 100
      in (- out1 + (2 + 2 * omega * damping * t_sample) * out0 + omega * omega * t_sample * yaw
          - omega * omega * t_sample * input)
         / (1 + 2 * omega * damping * t_sample + omega * omega * t_sample * t_sample))"

definition VehicleDataProvider_calculateCurvatureConfidence :: "VehicleDataProvider \<Rightarrow> VehicleDataProvider result" where
  "VehicleDataProvider_calculateCurvatureConfidence v =
     (case mCurvatureConfidenceOutput v of
        out0 # out1 # rest \<Rightarrow>
          (let filter = confidence_filter out0 out1 (mYawRate v) (mCurvatureConfidenceInput v)
           in rmap (\<lambda>conf. v\<lparr>mCurvatureConfidenceOutput := push_front 2 filter (mCurvatureConfidenceOutput v),
                              mCurvatureConfidenceInput := mYawRate v, mConfidence := conf\<rparr>)
                (VehicleDataProvider_mapOntoConfidence \<bar>filter\<bar>))
      | _ \<Rightarrow> Inl AssertionFailed)"

text \<open>The difference of two headings, brought into the half turn to either side.\<close>

definition normalise_diff :: "real \<Rightarrow> real" where
  "normalise_diff d = (if d > pi then d - 2 * pi else if d < - pi then d + 2 * pi else d)"

definition VehicleDataProvider_finish_update ::
    "simtime \<Rightarrow> VehicleController \<Rightarrow> VehicleDataProvider \<Rightarrow> VehicleDataProvider result" where
  "VehicleDataProvider_finish_update now c v =
     VehicleDataProvider_calculateCurvatureConfidence
       (VehicleDataProvider_calculateCurvature
         (v\<lparr>mPosition := vc_position c, mLatitude := vc_geo_latitude c, mLongitude := vc_geo_longitude c,
            mLastUpdate := now\<rparr>))"

definition VehicleDataProvider_update ::
    "simtime \<Rightarrow> VehicleController \<Rightarrow> VehicleDataProvider \<Rightarrow> VehicleDataProvider result" where
  "VehicleDataProvider_update now c v =
     (let delta = real_of_int (in_ms (now - mLastUpdate v)) / 1000
      in if delta > 0 then
           rbind (convertMobilityAngle (vc_heading c)) (\<lambda>new_heading.
             VehicleDataProvider_finish_update now c
               (v\<lparr>mAccel := (vc_speed c - mSpeed v) / delta,
                  mSpeed := vc_speed c,
                  mYawRate := normalise_diff (mHeading v - new_heading) / delta,
                  mHeading := new_heading\<rparr>))
         else if delta < 0 then
           rbind (convertMobilityAngle (vc_heading c)) (\<lambda>new_heading.
             VehicleDataProvider_finish_update now c (v\<lparr>mSpeed := vc_speed c, mHeading := new_heading\<rparr>))
         else Inr v)"

definition VehicleDataProvider_setStationType :: "StationType \<Rightarrow> VehicleDataProvider \<Rightarrow> VehicleDataProvider" where
  "VehicleDataProvider_setStationType ty v = v\<lparr>mStationType := ty\<rparr>"

definition VehicleMiddleware_stationType :: "string \<Rightarrow> StationType" where
  "VehicleMiddleware_stationType vclass =
     (if vclass = ''passenger'' \<or> vclass = ''private'' \<or> vclass = ''taxi'' then Passenger_Car
      else if vclass = ''coach'' \<or> vclass = ''delivery'' then Light_Truck
      else if vclass = ''truck'' then Heavy_Truck
      else if vclass = ''trailer'' then Trailer
      else if vclass = ''bus'' then Bus
      else if vclass = ''emergency'' \<or> vclass = ''authority'' then Special_Vehicle
      else if vclass = ''moped'' then Moped
      else if vclass = ''motorcycle'' then Motorcycle
      else if vclass = ''tram'' then Tram
      else if vclass = ''bicycle'' then Cyclist
      else if vclass = ''pedestrian'' then Pedestrian
      else Unknown)"

definition vdp_ok :: "VehicleDataProvider \<Rightarrow> bool" where
  "vdp_ok v \<longleftrightarrow> 0 \<le> mHeading v \<and> mHeading v < 2 * pi
     \<and> length (mCurvatureOutput v) \<le> 2 \<and> length (mCurvatureConfidenceOutput v) = 2
     \<and> \<bar>mCurvature v\<bar> \<le> 1 \<and> (mCurvature v = 0 \<or> 1 / 2500 \<le> \<bar>mCurvature v\<bar>)
     \<and> 0 \<le> mConfidence v \<and> mConfidence v \<le> 1"

section \<open>Angles\<close>

lemma convertMobilityAngle_value:
  "\<exists>v k. convertMobilityAngle a = Inr v \<and> 0 \<le> v \<and> v < 2 * pi \<and> v = pi / 2 - a + 2 * pi * of_int k"
proof -
  let ?v = "pi / 2 - a"
  let ?k = "\<lfloor>?v / (2 * pi)\<rfloor>"
  have q: "of_int ?k \<le> ?v / (2 * pi)" "?v / (2 * pi) < of_int ?k + 1" by linarith+
  have pos: "0 < 2 * pi" by simp
  have "of_int ?k * (2 * pi) \<le> ?v" using q(1) pos_le_divide_eq [OF pos] by blast
  moreover have "?v < (of_int ?k + 1) * (2 * pi)" using q(2) pos_divide_less_eq [OF pos] by blast
  ultimately have lo: "0 \<le> ?v - 2 * pi * of_int ?k" and hi: "?v - 2 * pi * of_int ?k < 2 * pi"
    by (simp_all add: algebra_simps)
  have "convertMobilityAngle a = Inr (?v - 2 * pi * of_int ?k)"
    using lo hi by (simp add: convertMobilityAngle_def Let_def)
  moreover have "?v - 2 * pi * of_int ?k = ?v + 2 * pi * of_int (- ?k)" by simp
  ultimately show ?thesis using lo hi by metis
qed

lemma normalise_diff_range:
  "- 2 * pi < d \<Longrightarrow> d < 2 * pi \<Longrightarrow> \<bar>normalise_diff d\<bar> \<le> pi"
  by (auto simp: normalise_diff_def)

lemma normalise_diff_congruent: "\<exists>k::int. normalise_diff d = d + 2 * pi * of_int k"
proof -
  have "normalise_diff d = d + 2 * pi * of_int (if d > pi then - 1 else if d < - pi then 1 else 0)"
    by (simp add: normalise_diff_def)
  then show ?thesis by blast
qed

section \<open>Confidence\<close>

lemma degree_pos: "0 < degree"
  by (simp add: degree_def)

lemma confidence_lookup_in: "confidence_lookup x es = Inr c \<Longrightarrow> c \<in> snd ` set es"
  by (induction x es rule: confidence_lookup.induct) (auto split: if_splits)

lemma confidence_lookup_total: "(None, w) \<in> set es \<Longrightarrow> \<exists>c. confidence_lookup x es = Inr c"
  by (induction x es rule: confidence_lookup.induct) auto

lemma mapOntoConfidence_range: "\<exists>c. VehicleDataProvider_mapOntoConfidence x = Inr c \<and> 0 \<le> c \<and> c \<le> 1"
proof -
  obtain c where c: "confidence_lookup x mConfidenceTable = Inr c"
    using confidence_lookup_total [of 0 mConfidenceTable x] by (auto simp: mConfidenceTable_def)
  have "\<forall>w \<in> snd ` set mConfidenceTable. 0 \<le> w \<and> w \<le> 1" by (simp add: mConfidenceTable_def)
  with confidence_lookup_in [OF c] c show ?thesis by (auto simp: VehicleDataProvider_mapOntoConfidence_def)
qed

section \<open>The invariant\<close>

lemma clamp_curvature_range:
  "\<bar>clamp_curvature c\<bar> \<le> 1" "clamp_curvature c = 0 \<or> 1 / 2500 \<le> \<bar>clamp_curvature c\<bar>"
  by (auto simp: clamp_curvature_def)

lemma calculateCurvature_ok [inv_intros]: "vdp_ok v \<Longrightarrow> vdp_ok (VehicleDataProvider_calculateCurvature v)"
  using clamp_curvature_range
  by (auto simp: VehicleDataProvider_calculateCurvature_def vdp_ok_def length_push_front Let_def
    split: list.splits)

lemma calculateCurvatureConfidence_ok:
  assumes "vdp_ok v"
  shows "\<exists>v'. VehicleDataProvider_calculateCurvatureConfidence v = Inr v' \<and> vdp_ok v'
    \<and> mHeading v' = mHeading v \<and> mCurvature v' = mCurvature v \<and> mYawRate v' = mYawRate v
    \<and> mSpeed v' = mSpeed v \<and> mAccel v' = mAccel v \<and> mLastUpdate v' = mLastUpdate v
    \<and> mPosition v' = mPosition v"
proof -
  obtain a b where out: "mCurvatureConfidenceOutput v = [a, b]"
    using assms by (auto simp: vdp_ok_def length_Suc_conv numeral_2_eq_2)
  let ?f = "confidence_filter a b (mYawRate v) (mCurvatureConfidenceInput v)"
  obtain c where "VehicleDataProvider_mapOntoConfidence \<bar>?f\<bar> = Inr c" "0 \<le> c" "c \<le> 1"
    using mapOntoConfidence_range by blast
  then show ?thesis
    using assms out by (auto simp: VehicleDataProvider_calculateCurvatureConfidence_def Let_def vdp_ok_def
      length_push_front)
qed

lemma calculateCurvature_frame [frame_simps]:
  "mHeading (VehicleDataProvider_calculateCurvature v) = mHeading v"
  "mYawRate (VehicleDataProvider_calculateCurvature v) = mYawRate v"
  "mSpeed (VehicleDataProvider_calculateCurvature v) = mSpeed v"
  "mAccel (VehicleDataProvider_calculateCurvature v) = mAccel v"
  "mLastUpdate (VehicleDataProvider_calculateCurvature v) = mLastUpdate v"
  "mPosition (VehicleDataProvider_calculateCurvature v) = mPosition v"
  by (auto simp: VehicleDataProvider_calculateCurvature_def Let_def split: list.splits)

lemma finish_update_ok:
  assumes "vdp_ok v"
  shows "\<exists>v'. VehicleDataProvider_finish_update now c v = Inr v' \<and> vdp_ok v'
    \<and> mHeading v' = mHeading v \<and> mYawRate v' = mYawRate v \<and> mSpeed v' = mSpeed v \<and> mAccel v' = mAccel v
    \<and> mLastUpdate v' = now \<and> mPosition v' = vc_position c"
proof -
  let ?v = "v\<lparr>mPosition := vc_position c, mLatitude := vc_geo_latitude c, mLongitude := vc_geo_longitude c,
    mLastUpdate := now\<rparr>"
  have "vdp_ok (VehicleDataProvider_calculateCurvature ?v)"
    using assms by (intro calculateCurvature_ok) (simp add: vdp_ok_def)
  from calculateCurvatureConfidence_ok [OF this] show ?thesis
    unfolding VehicleDataProvider_finish_update_def frame_simps by auto
qed

lemma vdp_ok_new [inv_intros]: "vdp_ok (VehicleDataProvider_new sid)"
  by (simp add: vdp_ok_def VehicleDataProvider_new_def)

section \<open>Properties\<close>

lemma update_correct:
  assumes "vdp_ok v"
  shows "\<exists>v'. VehicleDataProvider_update now c v = Inr v' \<and> vdp_ok v'
    \<and> (in_ms (now - mLastUpdate v) = 0 \<longrightarrow> v' = v)
    \<and> (in_ms (now - mLastUpdate v) > 0 \<longrightarrow>
        mLastUpdate v' = now \<and> mPosition v' = vc_position c \<and> mSpeed v' = vc_speed c
        \<and> mSpeed v + mAccel v' * (of_int (in_ms (now - mLastUpdate v)) / 1000) = vc_speed c
        \<and> \<bar>mYawRate v' * (of_int (in_ms (now - mLastUpdate v)) / 1000)\<bar> \<le> pi
        \<and> (\<exists>k::int. mYawRate v' * (of_int (in_ms (now - mLastUpdate v)) / 1000)
              = mHeading v - mHeading v' + 2 * pi * of_int k))"
proof -
  let ?d = "real_of_int (in_ms (now - mLastUpdate v)) / 1000"
  obtain h where h: "convertMobilityAngle (vc_heading c) = Inr h" "0 \<le> h" "h < 2 * pi"
    using convertMobilityAngle_value by blast
  consider "?d > 0" | "?d < 0" | "?d = 0" by linarith
  then show ?thesis
  proof cases
    case 1
    let ?v = "v\<lparr>mAccel := (vc_speed c - mSpeed v) / ?d, mSpeed := vc_speed c,
      mYawRate := normalise_diff (mHeading v - h) / ?d, mHeading := h\<rparr>"
    have "vdp_ok ?v" using assms h by (simp add: vdp_ok_def)
    from finish_update_ok [OF this, of now c] obtain v' where v':
      "VehicleDataProvider_finish_update now c ?v = Inr v'" "vdp_ok v'" "mHeading v' = h"
      "mYawRate v' = normalise_diff (mHeading v - h) / ?d" "mSpeed v' = vc_speed c"
      "mAccel v' = (vc_speed c - mSpeed v) / ?d" "mLastUpdate v' = now" "mPosition v' = vc_position c" by auto
    have "\<bar>normalise_diff (mHeading v - h)\<bar> \<le> pi"
      using assms h by (intro normalise_diff_range) (auto simp: vdp_ok_def)
    moreover have "mYawRate v' * ?d = normalise_diff (mHeading v - h)" using 1 by (simp add: v')
    moreover have "mSpeed v + mAccel v' * ?d = vc_speed c"
      unfolding v'(6) using nonzero_eq_divide_eq [of ?d "(vc_speed c - mSpeed v) / ?d" "vc_speed c - mSpeed v"] 1
      by linarith
    moreover have "VehicleDataProvider_update now c v = Inr v'"
      using 1 v'(1) h(1) by (simp add: VehicleDataProvider_update_def Let_def)
    ultimately show ?thesis using v' 1 normalise_diff_congruent [of "mHeading v - h"] by auto
  next
    case 2
    let ?v = "v\<lparr>mSpeed := vc_speed c, mHeading := h\<rparr>"
    have "vdp_ok ?v" using assms h by (simp add: vdp_ok_def)
    from finish_update_ok [OF this, of now c] obtain v' where v':
      "VehicleDataProvider_finish_update now c ?v = Inr v'" "vdp_ok v'" by blast
    moreover have "VehicleDataProvider_update now c v = Inr v'"
      using 2 v'(1) h(1) by (simp add: VehicleDataProvider_update_def Let_def)
    ultimately show ?thesis using 2 by auto
  next
    case 3
    then show ?thesis using assms by (simp add: VehicleDataProvider_update_def Let_def)
  qed
qed

text \<open>Updating from the mobility never fails and keeps the provider's invariant: the heading is in
  one full turn, the reported curvature is zero or between 1/2500 and 1 per metre, the confidence is
  between 0 and 1.  A later update (by at least a millisecond) takes over position and speed, derives
  the acceleration from the two speeds, and turns by at most half a circle; a repeated one changes
  nothing.\<close>

theorem VehicleDataProvider_update_correct:
  assumes "vdp_ok v"
  shows "\<exists>v'. VehicleDataProvider_update now c v = Inr v' \<and> vdp_ok v'
    \<and> (in_ms (now - mLastUpdate v) = 0 \<longrightarrow> v' = v)
    \<and> (in_ms (now - mLastUpdate v) > 0 \<longrightarrow>
        mLastUpdate v' = now \<and> mPosition v' = vc_position c \<and> mSpeed v' = vc_speed c
        \<and> mSpeed v + mAccel v' * (of_int (in_ms (now - mLastUpdate v)) / 1000) = vc_speed c
        \<and> \<bar>mYawRate v' * (of_int (in_ms (now - mLastUpdate v)) / 1000)\<bar> \<le> pi
        \<and> (\<exists>k::int. mYawRate v' * (of_int (in_ms (now - mLastUpdate v)) / 1000)
              = mHeading v - mHeading v' + 2 * pi * of_int k))"
  using assms by (rule update_correct)

theorem VehicleDataProvider_update_correct_witness:
  "\<exists>v'. VehicleDataProvider_update 0 \<lparr>vc_position = (1, 2), vc_geo_latitude = 48, vc_geo_longitude = 11,
      vc_heading = 0, vc_speed = 10\<rparr> (VehicleDataProvider_new 7) = Inr v' \<and> vdp_ok v'"
  using VehicleDataProvider_update_correct [OF vdp_ok_new, of 0 _ 7] by blast

text \<open>Mobility angles (counter-clockwise from east) become headings (clockwise from north) in one
  full turn; the conversion never fails its assertions.\<close>

theorem convertMobilityAngle_correct:
  "\<exists>v k. convertMobilityAngle a = Inr v \<and> 0 \<le> v \<and> v < 2 * pi \<and> v = pi / 2 - a + 2 * pi * of_int k"
  by (rule convertMobilityAngle_value)

text \<open>The clamp of the curvature loses the side of the turn: a right turn sharper than one metre
  radius (negative curvature) is reported as a left turn of one metre radius.\<close>

theorem clamp_curvature_flips_right_turns:
  assumes "c < - 1"
  shows "clamp_curvature c = 1"
  using assms by (simp add: clamp_curvature_def)

theorem clamp_curvature_flips_right_turns_witness: "clamp_curvature (- 2) = 1"
  using clamp_curvature_flips_right_turns [of "- 2"] by simp

text \<open>The confidence table answers for every value and never rises with the angular
  acceleration.\<close>

lemma confidence_lookup_antimono:
  assumes "sorted_wrt (\<lambda>e e'. snd e' \<le> snd e) es" and "x \<le> y" and "confidence_lookup x es = Inr c"
    and "confidence_lookup y es = Inr d"
  shows "d \<le> c"
  using assms
proof (induction es)
  case (Cons e es)
  obtain k w where e: "e = (k, w)" by (cases e)
  show ?case
    using Cons e confidence_lookup_in [of y es d] by (auto split: if_splits option.splits)
qed simp

theorem mapOntoConfidence_antimono:
  assumes "x \<le> y"
  shows "\<exists>c d. VehicleDataProvider_mapOntoConfidence x = Inr c \<and> VehicleDataProvider_mapOntoConfidence y = Inr d
    \<and> 0 \<le> d \<and> d \<le> c \<and> c \<le> 1"
proof -
  obtain c d where cd: "VehicleDataProvider_mapOntoConfidence x = Inr c" "c \<le> 1"
    "VehicleDataProvider_mapOntoConfidence y = Inr d" "0 \<le> d" using mapOntoConfidence_range by metis
  moreover have "d \<le> c"
    by (rule confidence_lookup_antimono [where es = mConfidenceTable, OF _ assms])
      (use cd in \<open>simp_all add: VehicleDataProvider_mapOntoConfidence_def\<close>, simp add: mConfidenceTable_def)
  ultimately show ?thesis by blast
qed

theorem mapOntoConfidence_antimono_witness:
  "\<exists>c d. VehicleDataProvider_mapOntoConfidence 0 = Inr c \<and> VehicleDataProvider_mapOntoConfidence 1 = Inr d \<and> d \<le> c"
  using mapOntoConfidence_antimono [of 0 1] by auto

lemma finish_update_inv:
  assumes "VehicleDataProvider_finish_update now c v = Inr v'"
  shows "vdp_ok v \<Longrightarrow> vdp_ok v'" and "mStationId v' = mStationId v"
proof -
  show "vdp_ok v \<Longrightarrow> vdp_ok v'" using finish_update_ok [of v now c] assms by auto
  have "mStationId (VehicleDataProvider_calculateCurvature w) = mStationId w" for w
    by (simp add: VehicleDataProvider_calculateCurvature_def Let_def split: list.split)
  moreover have "mStationId w' = mStationId w" if "VehicleDataProvider_calculateCurvatureConfidence w = Inr w'" for w w'
    using that by (auto simp: VehicleDataProvider_calculateCurvatureConfidence_def Let_def split: list.splits elim!: rmap.elims)
  ultimately show "mStationId v' = mStationId v"
    using assms by (simp add: VehicleDataProvider_finish_update_def)
qed

lemma VehicleDataProvider_update_total: "vdp_ok v \<Longrightarrow> \<exists>v'. VehicleDataProvider_update now c v = Inr v' \<and> vdp_ok v'"
  using update_correct [of v now c] by blast

lemma VehicleDataProvider_update_inv [inv_intros]:
  assumes "VehicleDataProvider_update now c v = Inr v'"
  shows "vdp_ok v \<Longrightarrow> vdp_ok v'" and "mStationId v' = mStationId v"
proof -
  obtain h where h: "convertMobilityAngle (vc_heading c) = Inr h" "0 \<le> h" "h < 2 * pi"
    using convertMobilityAngle_value by blast
  let ?d = "real_of_int (in_ms (now - mLastUpdate v)) / 1000"
  consider "?d > 0" | "?d < 0" | "?d = 0" by linarith
  then have "(vdp_ok v \<longrightarrow> vdp_ok v') \<and> mStationId v' = mStationId v"
  proof cases
    case 1
    let ?v = "v\<lparr>mAccel := (vc_speed c - mSpeed v) / ?d, mSpeed := vc_speed c,
      mYawRate := normalise_diff (mHeading v - h) / ?d, mHeading := h\<rparr>"
    have "VehicleDataProvider_finish_update now c ?v = Inr v'"
      using assms h(1) 1 by (simp add: VehicleDataProvider_update_def Let_def)
    moreover have "vdp_ok v \<longrightarrow> vdp_ok ?v" using h by (simp add: vdp_ok_def)
    ultimately show ?thesis using finish_update_inv by fastforce
  next
    case 2
    let ?v = "v\<lparr>mSpeed := vc_speed c, mHeading := h\<rparr>"
    have "VehicleDataProvider_finish_update now c ?v = Inr v'"
      using assms h(1) 2 by (simp add: VehicleDataProvider_update_def Let_def)
    moreover have "vdp_ok v \<longrightarrow> vdp_ok ?v" using h by (simp add: vdp_ok_def)
    ultimately show ?thesis using finish_update_inv by fastforce
  next
    case 3
    then show ?thesis using assms by (simp add: VehicleDataProvider_update_def Let_def)
  qed
  then show "vdp_ok v \<Longrightarrow> vdp_ok v'" and "mStationId v' = mStationId v" by blast+
qed

end
