(* ===== verification/Messages.thy ===== *)
theory Messages
  imports VehicleData
begin

text \<open>
  The messages the services exchange, with the fields their code sets and reads: CAM and DENM, the
  BTP-B transmission request, and the range constraints of the ASN.1 fields (\<open>vanetza/asn1/its\<close>).  An optional ASN.1 component is an \<open>option\<close>; an \<open>INTEGER_t\<close> is the number
  it encodes.
\<close>

section \<open>Transmission requests\<close>

datatype TransportType = SHB | GBC

datatype CommunicationProfile = Unspecified | ITS_G5

record Repetition =
  rep_interval :: real
  rep_maximum :: real

text \<open>The destination areas the services use are circles.\<close>

record Area =
  area_radius :: real
  area_latitude :: real
  area_longitude :: real

record DataRequestB =
  destination_port :: "16 word"
  its_aid :: "32 word"
  transport_type :: TransportType
  communication_profile :: CommunicationProfile
  maximum_lifetime_s :: "nat option"
  tc_id :: nat
  repetition :: "Repetition option"
  destination :: "Area option"
  maximum_hop_limit :: "nat option"

definition DataRequestB_new :: DataRequestB where
  "DataRequestB_new =
     \<lparr>destination_port = 0, its_aid = 0, transport_type = SHB, communication_profile = Unspecified,
      maximum_lifetime_s = None, tc_id = 0, repetition = None, destination = None, maximum_hop_limit = None\<rparr>"

definition port_CAM :: "16 word" where "port_CAM = 2001"
definition port_DENM :: "16 word" where "port_DENM = 2002"
definition aid_CA :: "32 word" where "aid_CA = 36"
definition aid_DEN :: "32 word" where "aid_DEN = 37"

section \<open>Cooperative awareness messages\<close>

datatype DriveDirection = DriveDirection_forward | DriveDirection_backward

record ReferencePosition =
  rp_latitude :: int
  rp_longitude :: int
  rp_altitudeValue :: int
  rp_altitudeConfidence :: int
  rp_semiMajorConfidence :: int
  rp_semiMinorConfidence :: int
  rp_semiMajorOrientation :: int

record BasicVehicleContainerHighFrequency =
  headingValue :: int
  headingConfidence :: int
  speedValue :: int
  speedConfidence :: int
  driveDirection :: DriveDirection
  vehicleLengthValue :: int
  vehicleLengthConfidenceIndication :: int
  vehicleWidth :: int
  longitudinalAccelerationValue :: int
  longitudinalAccelerationConfidence :: int
  curvatureValue :: int
  curvatureConfidence :: int
  curvatureCalculationMode :: int
  yawRateValue :: int

record BasicVehicleContainerLowFrequency =
  vehicleRole :: int
  exteriorLights :: "8 word"

text \<open>
  \<open>highFrequencyContainer\<close> is \<open>None\<close> when the choice holds another container than that of a basic
  vehicle.
\<close>

record Cam =
  cam_protocolVersion :: int
  cam_messageID :: int
  cam_stationID :: "32 word"
  generationDeltaTime :: "16 word"
  cam_stationType :: int
  referencePosition :: ReferencePosition
  highFrequencyContainer :: "BasicVehicleContainerHighFrequency option"
  lowFrequencyContainer :: "BasicVehicleContainerLowFrequency option"

section \<open>Range constraints\<close>

definition SpeedValue_constraint :: "int \<Rightarrow> bool" where
  "SpeedValue_constraint v \<longleftrightarrow> 0 \<le> v \<and> v \<le> 16383"

definition HeadingValue_constraint :: "int \<Rightarrow> bool" where
  "HeadingValue_constraint v \<longleftrightarrow> 0 \<le> v \<and> v \<le> 3601"

definition CurvatureValue_constraint :: "int \<Rightarrow> bool" where
  "CurvatureValue_constraint v \<longleftrightarrow> - 30000 \<le> v \<and> v \<le> 30001"

definition YawRateValue_constraint :: "int \<Rightarrow> bool" where
  "YawRateValue_constraint v \<longleftrightarrow> - 32766 \<le> v \<and> v \<le> 32767"

definition LongitudinalAccelerationValue_constraint :: "int \<Rightarrow> bool" where
  "LongitudinalAccelerationValue_constraint v \<longleftrightarrow> - 160 \<le> v \<and> v \<le> 161"

definition Longitude_constraint :: "int \<Rightarrow> bool" where
  "Longitude_constraint v \<longleftrightarrow> - 1800000000 \<le> v \<and> v \<le> 1800000001"

definition Latitude_constraint :: "int \<Rightarrow> bool" where
  "Latitude_constraint v \<longleftrightarrow> - 900000000 \<le> v \<and> v \<le> 900000001"

text \<open>The fields the code sets to constants have ranges as well.\<close>

definition octet_constraint :: "int \<Rightarrow> bool" where
  "octet_constraint v \<longleftrightarrow> 0 \<le> v \<and> v \<le> 255"

definition ReferencePosition_constraint :: "ReferencePosition \<Rightarrow> bool" where
  "ReferencePosition_constraint p \<longleftrightarrow>
     Longitude_constraint (rp_longitude p) \<and> Latitude_constraint (rp_latitude p)
     \<and> - 100000 \<le> rp_altitudeValue p \<and> rp_altitudeValue p \<le> 800001
     \<and> 0 \<le> rp_semiMajorConfidence p \<and> rp_semiMajorConfidence p \<le> 4095
     \<and> 0 \<le> rp_semiMinorConfidence p \<and> rp_semiMinorConfidence p \<le> 4095
     \<and> HeadingValue_constraint (rp_semiMajorOrientation p)"

definition BasicVehicleContainerHighFrequency_constraint :: "BasicVehicleContainerHighFrequency \<Rightarrow> bool" where
  "BasicVehicleContainerHighFrequency_constraint bvc \<longleftrightarrow>
     HeadingValue_constraint (headingValue bvc) \<and> 1 \<le> headingConfidence bvc \<and> headingConfidence bvc \<le> 127
     \<and> SpeedValue_constraint (speedValue bvc) \<and> 1 \<le> speedConfidence bvc \<and> speedConfidence bvc \<le> 127
     \<and> 1 \<le> vehicleLengthValue bvc \<and> vehicleLengthValue bvc \<le> 1023 \<and> 1 \<le> vehicleWidth bvc \<and> vehicleWidth bvc \<le> 62
     \<and> LongitudinalAccelerationValue_constraint (longitudinalAccelerationValue bvc)
     \<and> 0 \<le> longitudinalAccelerationConfidence bvc \<and> longitudinalAccelerationConfidence bvc \<le> 102
     \<and> CurvatureValue_constraint (curvatureValue bvc) \<and> YawRateValue_constraint (yawRateValue bvc)"

text \<open>Validation checks every field with a range; fields that are words have their range by type, enumerated fields have no constraint in the generated
  code.\<close>

definition Cam_validate :: "Cam \<Rightarrow> bool" where
  "Cam_validate m \<longleftrightarrow>
     octet_constraint (cam_protocolVersion m) \<and> octet_constraint (cam_messageID m) \<and> octet_constraint (cam_stationType m)
     \<and> ReferencePosition_constraint (referencePosition m)
     \<and> (case highFrequencyContainer m of None \<Rightarrow> True | Some bvc \<Rightarrow> BasicVehicleContainerHighFrequency_constraint bvc)"

lemmas constraint_defs = SpeedValue_constraint_def HeadingValue_constraint_def CurvatureValue_constraint_def
  YawRateValue_constraint_def LongitudinalAccelerationValue_constraint_def Longitude_constraint_def
  Latitude_constraint_def

section \<open>Decentralized environmental notification messages\<close>

datatype ActionID = ActionID (station_id: "32 word") (sequence_number: "16 word")

record SituationContainer =
  informationQuality :: int
  causeCode :: int
  subCauseCode :: int

record LocationContainer =
  loc_eventSpeedValue :: int
  loc_eventSpeedConfidence :: int
  loc_eventHeadingValue :: int
  loc_eventHeadingConfidence :: int
  loc_traces :: nat

datatype RequestResponseIndication = Indication_request | Indication_response

record ImpactReductionContainer =
  heightLonCarrLeft :: int
  heightLonCarrRight :: int
  posLonCarrLeft :: int
  posLonCarrRight :: int
  positionOfPillars :: "int list"
  posCentMass :: int
  wheelBaseVehicle :: int
  turningRadius :: int
  posFrontAx :: int
  positionOfOccupants :: "8 word list"
  vehicleMass :: int
  requestResponseIndication :: RequestResponseIndication

record AlacarteContainer =
  impactReduction :: "ImpactReductionContainer option"

record Denm =
  denm_protocolVersion :: int
  denm_messageID :: int
  denm_stationID :: "32 word"
  actionID :: ActionID
  detectionTime :: nat
  referenceTime :: nat
  eventPosition :: ReferencePosition
  relevanceDistance :: "int option"
  relevanceTrafficDirection :: "int option"
  validityDuration :: "int option"
  denm_stationType :: int
  situation :: "SituationContainer option"
  location :: "LocationContainer option"
  alacarte :: "AlacarteContainer option"

section \<open>Functions on message contents\<close>

definition full_circle :: real where
  "full_circle = 2 * pi"

text \<open>\<open>std::fmod\<close> of non-negative arguments.\<close>

definition fmod :: "real \<Rightarrow> real \<Rightarrow> real" where
  "fmod x y = x - y * of_int \<lfloor>x / y\<rfloor>"

definition similar_heading :: "real \<Rightarrow> real \<Rightarrow> real \<Rightarrow> bool" where
  "similar_heading a b limit =
     (let abs_diff = fmod \<bar>a - b\<bar> full_circle
      in abs_diff \<le> limit \<or> abs_diff \<ge> full_circle - limit)"

definition HeadingValue_unavailable :: int where "HeadingValue_unavailable = 3601"

definition similar_heading_value :: "int \<Rightarrow> real \<Rightarrow> real \<Rightarrow> bool" where
  "similar_heading_value a b limit =
     (if a \<noteq> HeadingValue_unavailable then similar_heading (of_int a / 10 * degree) b limit else False)"

definition position_available :: "ReferencePosition \<Rightarrow> bool" where
  "position_available p \<longleftrightarrow> rp_latitude p \<noteq> 900000001 \<and> rp_longitude p \<noteq> 1800000001"

text \<open>
  The distance of a reference position; \<open>None\<close> is the quiet NaN of an unavailable position.  The
  geodesic distance between two positions in degrees is the parameter \<open>geodesic\<close>.
\<close>

definition reference_distance ::
    "(real \<times> real \<Rightarrow> real \<times> real \<Rightarrow> real) \<Rightarrow> ReferencePosition \<Rightarrow> real \<Rightarrow> real \<Rightarrow> real option" where
  "reference_distance geodesic p lat lon =
     (if position_available p
      then Some (geodesic (of_int (cdiv (rp_latitude p) 10) / 1000000, of_int (cdiv (rp_longitude p) 10) / 1000000)
                          (lat, lon))
      else None)"

text \<open>A comparison with NaN is false.\<close>

definition nan_greater :: "real option \<Rightarrow> real \<Rightarrow> bool" where
  "nan_greater d limit = (case d of None \<Rightarrow> False | Some x \<Rightarrow> x > limit)"

section \<open>Facts about headings\<close>

lemma fmod_range: "0 < y \<Longrightarrow> 0 \<le> fmod x y \<and> fmod x y < y"
proof -
  assume y: "0 < y"
  have q: "of_int \<lfloor>x / y\<rfloor> \<le> x / y" "x / y < of_int \<lfloor>x / y\<rfloor> + 1" by linarith+
  have "of_int \<lfloor>x / y\<rfloor> * y \<le> x" using q(1) pos_le_divide_eq [OF y] by blast
  moreover have "x < (of_int \<lfloor>x / y\<rfloor> + 1) * y" using q(2) pos_divide_less_eq [OF y] by blast
  ultimately show ?thesis by (simp add: fmod_def algebra_simps)
qed

lemma fmod_small: "0 \<le> x \<Longrightarrow> x < y \<Longrightarrow> fmod x y = x"
  by (simp add: fmod_def floor_eq_iff)

lemma similar_heading_sym: "similar_heading a b limit = similar_heading b a limit"
  by (simp add: similar_heading_def abs_minus_commute)

lemma similar_heading_refl: "0 \<le> limit \<Longrightarrow> similar_heading a a limit"
  by (simp add: similar_heading_def fmod_small full_circle_def)

text \<open>
  Within one turn, headings are similar iff the shorter way round between them is within the limit.
\<close>

lemma similar_heading_turn:
  assumes "0 \<le> a" "a < full_circle" "0 \<le> b" "b < full_circle"
  shows "similar_heading a b limit \<longleftrightarrow> min \<bar>a - b\<bar> (full_circle - \<bar>a - b\<bar>) \<le> limit"
proof -
  have "fmod \<bar>a - b\<bar> full_circle = \<bar>a - b\<bar>" using assms by (intro fmod_small) auto
  then show ?thesis by (auto simp: similar_heading_def Let_def min_le_iff_disj)
qed

end
