(* ===== verification/Timers.thy ===== *)
theory Timers
  imports Artery_Prelude
begin

text \<open>
  \<open>artery/application/Timer.cc\<close>: the link between simulation time and TAI time points (microseconds
  since 2004 as \<open>vanetza::Clock\<close> counts them), and the reconstruction of a full time point from the
  16 bit millisecond stamp a message carries.  \<open>simTime()\<close> is the argument \<open>now\<close>; parsing the time
  base from a string is the parameter \<open>clock_at\<close>.
\<close>

type_synonym time_point = int

record Timer =
  mTimebase :: time_point

definition Timer_setTimebase :: "(string \<Rightarrow> time_point result) \<Rightarrow> string \<Rightarrow> Timer \<Rightarrow> Timer result" where
  "Timer_setTimebase clock_at datetime t = rmap (\<lambda>tb. t\<lparr>mTimebase := tb\<rparr>) (clock_at datetime)"

definition Timer_getTimeFor_sim :: "Timer \<Rightarrow> simtime \<Rightarrow> time_point" where
  "Timer_getTimeFor_sim t s = mTimebase t + in_us s"

definition Timer_getCurrentTime :: "Timer \<Rightarrow> simtime \<Rightarrow> time_point" where
  "Timer_getCurrentTime t now = Timer_getTimeFor_sim t now"

definition Timer_getTimeFor_tai :: "Timer \<Rightarrow> time_point \<Rightarrow> simtime" where
  "Timer_getTimeFor_tai t tai =
     (let diff = tai - mTimebase t in if diff < 0 then 0 else simtime_us diff)"

definition countTaiMilliseconds :: "time_point \<Rightarrow> 64 word" where
  "countTaiMilliseconds tp = word_of_int (cdiv tp 1000)"

text \<open>
  The two assertions of \<open>reconstructMilliseconds\<close> are the branches that end in
  \<open>AssertionFailed\<close>.  The result counts milliseconds as a signed 64 bit number.
\<close>

definition Timer_reconstructMilliseconds :: "Timer \<Rightarrow> simtime \<Rightarrow> 16 word \<Rightarrow> time_point result" where
  "Timer_reconstructMilliseconds t now ms16 =
     (let tai_now = countTaiMilliseconds (Timer_getCurrentTime t now);
          tai_now_msb = tai_now AND NOT 0xffff;
          tai_rec = tai_now_msb OR ucast ms16
      in if tai_now > tai_rec + 0x7fff then
           (let tai_rec = tai_rec + 0x10000
            in if tai_rec - tai_now \<le> 0x7fff then Inr (1000 * sint tai_rec) else Inl AssertionFailed)
         else if tai_now + 0x7fff < tai_rec then
           (let tai_rec = tai_rec - 0x10000
            in if tai_now - tai_rec \<le> 0x7fff then Inr (1000 * sint tai_rec) else Inl AssertionFailed)
         else Inr (1000 * sint tai_rec))"

section \<open>Simulation time and TAI\<close>

lemma getTimeFor_inverse_us: "0 \<le> n \<Longrightarrow>
    Timer_getTimeFor_tai t (Timer_getTimeFor_sim t (simtime_us n)) = simtime_us n"
  by (simp add: Timer_getTimeFor_tai_def Timer_getTimeFor_sim_def)

lemma getTimeFor_mono: "s \<le> s' \<Longrightarrow> 0 \<le> s \<Longrightarrow> Timer_getTimeFor_sim t s \<le> Timer_getTimeFor_sim t s'"
  by (simp add: Timer_getTimeFor_sim_def in_us_def zdiv_mono1)

lemma getTimeFor_tai_nonneg: "0 \<le> Timer_getTimeFor_tai t tai"
  by (simp add: Timer_getTimeFor_tai_def simtime_us_def Let_def)


section \<open>Reconstructing a time point from 16 bits\<close>

lemma mask16: "(0xffff :: 64 word) = mask 16"
  by (simp add: mask_eq_exp_minus_1)

lemma and_not_mask16: "w AND NOT 0xffff = w - take_bit 16 w" for w :: "64 word"
proof -
  have "w AND NOT (mask 16) = push_bit 16 (drop_bit 16 w)"
    by (rule bit_word_eqI) (auto simp: bit_simps)
  also have "\<dots> = w - take_bit 16 w" by (metis bits_ident add_diff_cancel_right')
  finally show ?thesis by (simp only: mask16)
qed

lemma unat_take_bit16: "unat (take_bit 16 w) = unat w mod 65536" for w :: "64 word"
  by (simp add: take_bit_eq_mod unat_mod)

lemma unat_msb: "unat (w - take_bit 16 w) = unat w - unat w mod 65536" for w :: "64 word"
  by (subst unat_sub) (simp_all add: unat_take_bit16 word_le_nat_alt)

lemma unat_msb_or_low:
  fixes w :: "64 word" and m :: "16 word"
  shows "unat ((w AND NOT 0xffff) OR ucast m) = unat w - unat w mod 65536 + unat m"
proof -
  have "((w AND NOT 0xffff) AND ucast m) = 0"
    using bit_imp_le_length [of m] unfolding mask16 by (intro bit_word_eqI) (auto simp: bit_simps)
  then have "(w AND NOT 0xffff) OR ucast m = (w - take_bit 16 w) + ucast m"
    unfolding and_not_mask16 by (simp only: disjunctive_add_eq_or)
  moreover have "unat w - unat w mod 65536 + unat m < 2 ^ 64"
  proof -
    have "unat w < 65536 * 2 ^ 48" using unsigned_less [of w, where 'a = nat] by simp
    then have "unat w div 65536 < 2 ^ 48" by (simp add: div_less_iff_less_mult)
    then have "unat w div 65536 * 65536 + 65536 \<le> 2 ^ 64" by simp
    moreover have "unat m < 65536" using unsigned_less [of m, where 'a = nat] by simp
    ultimately show ?thesis by (simp add: minus_mod_eq_div_mult)
  qed
  moreover have "unat (ucast m :: 64 word) = unat m"
    using unsigned_less [of m, where 'a = nat] by (simp add: unsigned_ucast_eq take_bit_nat_eq_self)
  ultimately show ?thesis by (simp add: unat_word_ariths unat_msb)
qed

lemma unat_plus_small: "unat a + k < 2 ^ 64 \<Longrightarrow> unat (a + of_nat k) = unat a + k" for a :: "64 word"
  by (simp add: unat_word_ariths unat_of_nat)

lemma sint_small: "unat w < 2 ^ 63 \<Longrightarrow> sint w = int (unat w)" for w :: "64 word"
proof -
  assume "unat w < 2 ^ 63"
  then have "int (unat w) < 2 ^ 63" by (metis of_nat_less_iff of_nat_numeral of_nat_power)
  then have "uint w < 2 ^ 63" by (simp only: uint_nat)
  then have "signed_take_bit 63 (uint w) = uint w"
    using uint_ge_0 [of w] by (intro signed_take_bit_int_eq_self) linarith+
  then show ?thesis by (simp add: sint_uint)
qed

text \<open>The three candidates of the reconstruction, on natural numbers.\<close>

lemma nearest_by_low_bits:
  fixes N g :: nat
  assumes near: "N \<le> g + 32767" "g \<le> N + 32767"
  defines "rec \<equiv> N - N mod 65536 + g mod 65536"
  shows "(rec = g \<or> (rec + 65536 = g \<and> N \<le> g \<and> N > rec + 32767))
    \<or> (rec = g + 65536 \<and> g \<le> N \<and> N + 32767 < rec)"
proof -
  have N: "N = 65536 * (N div 65536) + N mod 65536" and g: "g = 65536 * (g div 65536) + g mod 65536"
    by simp_all
  have lt: "N mod 65536 < 65536" "g mod 65536 < 65536" by simp_all
  have r: "rec = 65536 * (N div 65536) + g mod 65536"
    unfolding rec_def using N by linarith
  have "g div 65536 \<le> Suc (N div 65536)" and "N div 65536 \<le> Suc (g div 65536)"
    using near N g lt by linarith+
  then consider "g div 65536 = N div 65536" | "g div 65536 = Suc (N div 65536)"
    | "N div 65536 = Suc (g div 65536)" by linarith
  then show ?thesis
    by cases (use near N g r lt in linarith)+
qed

lemma reconstruct_nearest:
  assumes tai: "0 \<le> Timer_getCurrentTime t now"
    and N: "N = nat (Timer_getCurrentTime t now div 1000)"
    and near: "N \<le> g + 32767" "g \<le> N + 32767" and bounds: "N < 2 ^ 62" "g < 2 ^ 62"
  shows "Timer_reconstructMilliseconds t now (of_nat g) = Inr (1000 * int g)"
proof -
  define tai_now where "tai_now = countTaiMilliseconds (Timer_getCurrentTime t now)"
  have now: "unat tai_now = N"
    using tai N bounds(1) by (simp add: tai_now_def countTaiMilliseconds_def unat_eq_nat_uint uint_word_of_int)
  define rec where "rec = (tai_now AND NOT 0xffff) OR ucast (of_nat g :: 16 word)"
  have rec: "unat rec = N - N mod 65536 + g mod 65536"
    unfolding rec_def unat_msb_or_low now by (simp add: unat_of_nat)
  have cases: "(unat rec = g \<or> (unat rec + 65536 = g \<and> N \<le> g \<and> N > unat rec + 32767))
    \<or> (unat rec = g + 65536 \<and> g \<le> N \<and> N + 32767 < unat rec)"
    unfolding rec by (rule nearest_by_low_bits [OF near])
  have small: "unat rec < 2 ^ 62 + 65536" using cases bounds by linarith
  have p: "unat (rec + 0x7fff) = unat rec + 32767" "unat (rec + 0x10000) = unat rec + 65536"
    "unat (tai_now + 0x7fff) = N + 32767"
    using unat_plus_small [of rec 32767] unat_plus_small [of rec 65536] unat_plus_small [of tai_now 32767]
      small bounds now by simp_all
  have eq: "Timer_reconstructMilliseconds t now (of_nat g) =
      (if N > unat rec + 32767 then
         (if rec + 0x10000 - tai_now \<le> 0x7fff then Inr (1000 * sint (rec + 0x10000)) else Inl AssertionFailed)
       else if N + 32767 < unat rec then
         (if tai_now - (rec - 0x10000) \<le> 0x7fff then Inr (1000 * sint (rec - 0x10000)) else Inl AssertionFailed)
       else Inr (1000 * sint rec))"
    unfolding Timer_reconstructMilliseconds_def Let_def tai_now_def [symmetric] rec_def [symmetric]
    by (simp only: word_less_nat_alt p now)
  consider "unat rec = g" | "unat rec + 65536 = g" "N \<le> g" "N > unat rec + 32767"
    | "unat rec = g + 65536" "g \<le> N" "N + 32767 < unat rec" using cases by blast
  then show ?thesis
  proof cases
    case 1
    then show ?thesis using near bounds by (simp add: eq sint_small)
  next
    case 2
    then have g: "unat (rec + 0x10000) = g" by (simp add: p)
    then have "unat (rec + 0x10000 - tai_now) = g - N"
      using 2 by (subst unat_sub) (simp_all add: word_le_nat_alt now)
    then show ?thesis using 2 g near bounds by (simp add: eq sint_small word_le_nat_alt)
  next
    case 3
    then have g: "unat (rec - 0x10000) = g" by (subst unat_sub) (simp_all add: word_le_nat_alt)
    then have "unat (tai_now - (rec - 0x10000)) = N - g"
      using 3 by (subst unat_sub) (simp_all add: word_le_nat_alt now)
    then show ?thesis using 3 g near bounds by (simp add: eq sint_small word_le_nat_alt)
  qed
qed

text \<open>A stamp taken at a time point is the low half of its millisecond count.\<close>

lemma stamp_of_time_point:
  assumes "0 \<le> tp"
  shows "(ucast (countTaiMilliseconds tp) :: 16 word) = of_nat (nat (tp div 1000))"
proof -
  have "(of_nat (nat (tp div 1000)) :: 16 word) = word_of_int (tp div 1000)"
    using assms by (metis of_int_of_nat_eq of_nat_nat pos_imp_zdiv_nonneg_iff zero_less_numeral)
  moreover have "(ucast (word_of_int k :: 64 word) :: 16 word) = word_of_int k" for k
    by (rule bit_word_eqI) (auto simp: bit_simps)
  ultimately show ?thesis using assms by (simp add: countTaiMilliseconds_def)
qed

lemma reconstruct_stamp:
  assumes "0 \<le> tp" and "0 \<le> Timer_getCurrentTime t now"
    and "\<bar>tp div 1000 - Timer_getCurrentTime t now div 1000\<bar> \<le> 32767"
    and "tp < 2 ^ 62" and "Timer_getCurrentTime t now < 2 ^ 62"
  shows "Timer_reconstructMilliseconds t now (ucast (countTaiMilliseconds tp)) = Inr (1000 * (tp div 1000))"
proof -
  let ?g = "nat (tp div 1000)" and ?N = "nat (Timer_getCurrentTime t now div 1000)"
  have g: "int ?g = tp div 1000" and n: "int ?N = Timer_getCurrentTime t now div 1000"
    using assms(1,2) by simp_all
  have "?N \<le> ?g + 32767" "?g \<le> ?N + 32767" using assms(3) g n by linarith+
  moreover have "?N < 2 ^ 62" "?g < 2 ^ 62" using assms by (auto simp: nat_less_iff)
  ultimately have "Timer_reconstructMilliseconds t now (of_nat ?g) = Inr (1000 * int ?g)"
    using assms(2) by (intro reconstruct_nearest [where N = ?N]) simp_all
  then show ?thesis using assms(1) by (simp add: stamp_of_time_point g)
qed

section \<open>Properties\<close>

text \<open>C36: a message stamped with the low 16 bits of its generation time (in milliseconds) is dated
  correctly by every receiver whose clock is at most 32.767 seconds away: the reconstruction
  returns the generation time, truncated to milliseconds, whichever side of a 16 bit wrap-around
  either clock is on, and no assertion fails.\<close>

theorem reconstructMilliseconds_correct:
  assumes "0 \<le> tp" and "0 \<le> Timer_getCurrentTime t now"
    and "\<bar>tp div 1000 - Timer_getCurrentTime t now div 1000\<bar> \<le> 32767"
    and "tp < 2 ^ 62" and "Timer_getCurrentTime t now < 2 ^ 62"
  shows "Timer_reconstructMilliseconds t now (ucast (countTaiMilliseconds tp)) = Inr (1000 * (tp div 1000))"
  using assms by (rule reconstruct_stamp)

theorem reconstructMilliseconds_correct_witness:
  "Timer_reconstructMilliseconds \<lparr>mTimebase = 65530000\<rparr> (simtime_ms 10) (ucast (countTaiMilliseconds 65540000))
     = Inr 65540000"
proof -
  have "Timer_getCurrentTime \<lparr>mTimebase = 65530000\<rparr> (simtime_ms 10) = 65540000"
    by (simp add: Timer_getCurrentTime_def Timer_getTimeFor_sim_def in_us_def simtime_ms_def)
  then show ?thesis
    using reconstructMilliseconds_correct [of 65540000 "\<lparr>mTimebase = 65530000\<rparr>" "simtime_ms 10"] by simp
qed

text \<open>At a distance of exactly 32.768 seconds the reconstruction fails its own assertion in both
  directions: one millisecond past the range of the previous property, the corrected candidate is
  0x8000 away while the assertion allows 0x7fff.\<close>

theorem reconstructMilliseconds_halfway_asserts:
  "Timer_reconstructMilliseconds \<lparr>mTimebase = 32768000\<rparr> 0 0 = Inl AssertionFailed
   \<and> Timer_reconstructMilliseconds \<lparr>mTimebase = 65536000\<rparr> 0 0x8000 = Inl AssertionFailed"
  by (simp add: Timer_reconstructMilliseconds_def Timer_getCurrentTime_def Timer_getTimeFor_sim_def
    in_us_def countTaiMilliseconds_def)

text \<open>Simulation time and TAI agree: a simulation time that is a whole number of microseconds
  survives the conversion to TAI and back, the conversion is monotone, and a time point before the
  time base is simulation time zero.\<close>

theorem getTimeFor_roundtrip:
  assumes "0 \<le> n" and "0 \<le> s" and "s \<le> s'" and "tai < mTimebase t"
  shows "Timer_getTimeFor_tai t (Timer_getTimeFor_sim t (simtime_us n)) = simtime_us n
    \<and> Timer_getTimeFor_sim t s \<le> Timer_getTimeFor_sim t s'
    \<and> Timer_getTimeFor_tai t tai = 0"
  using assms by (simp add: getTimeFor_inverse_us getTimeFor_mono) (simp add: Timer_getTimeFor_tai_def)

theorem getTimeFor_roundtrip_witness:
  "Timer_getTimeFor_tai \<lparr>mTimebase = 100\<rparr> (Timer_getTimeFor_sim \<lparr>mTimebase = 100\<rparr> (simtime_us 5)) = simtime_us 5"
  using getTimeFor_roundtrip [of 5 0 1 0 "\<lparr>mTimebase = 100\<rparr>"] by simp

end
