(* ===== verification/LocalDynMap.thy ===== *)
theory LocalDynMap
  imports Messages Timers
begin

text \<open>
  \<open>artery/application/LocalDynamicMap\<close>: the awareness of other stations, one CAM per station with its
  expiry.  The map is the ordered map \<open>mCaMessages\<close>; \<open>now\<close> is \<open>simTime()\<close>.
\<close>

record AwarenessEntry =
  ae_expiry :: simtime
  ae_object :: Cam

type_synonym LocalDynamicMap = "(32 word, AwarenessEntry) omap"

definition ldm_lifetime :: simtime where
  "ldm_lifetime = simtime_ms 1100"

definition LocalDynamicMap_updateAwareness ::
    "Timer \<Rightarrow> simtime \<Rightarrow> Cam \<Rightarrow> LocalDynamicMap \<Rightarrow> LocalDynamicMap result" where
  "LocalDynamicMap_updateAwareness timer now msg m =
     rbind (Timer_reconstructMilliseconds timer now (generationDeltaTime msg)) (\<lambda>tai.
       let expiry = Timer_getTimeFor_tai timer tai + ldm_lifetime
       in if expiry < now \<or> expiry > now + 2 * ldm_lifetime then Inr m
          else Inr (omap_put (cam_stationID msg) \<lparr>ae_expiry = expiry, ae_object = msg\<rparr> m))"

definition LocalDynamicMap_dropExpired :: "simtime \<Rightarrow> LocalDynamicMap \<Rightarrow> LocalDynamicMap" where
  "LocalDynamicMap_dropExpired now m = filter (\<lambda>e. \<not> ae_expiry (snd e) < now) m"

definition LocalDynamicMap_count :: "(Cam \<Rightarrow> bool) \<Rightarrow> LocalDynamicMap \<Rightarrow> nat" where
  "LocalDynamicMap_count predicate m = length (filter (\<lambda>e. predicate (ae_object (snd e))) m)"

text \<open>
  Well-formedness at a time: stations in order, each entry holds a message of its station, and no
  entry expires later than twice the lifetime from that time.
\<close>

definition ldm_ok :: "simtime \<Rightarrow> LocalDynamicMap \<Rightarrow> bool" where
  "ldm_ok now m \<longleftrightarrow> omap_ok m
     \<and> (\<forall>(st, e) \<in> set m. cam_stationID (ae_object e) = st \<and> ae_expiry e \<le> now + 2 * ldm_lifetime)"

section \<open>Invariant\<close>

lemma ldm_ok_empty [inv_intros]: "ldm_ok now []"
  by (simp add: ldm_ok_def)

lemma updateAwareness_ok [inv_intros]:
  assumes "ldm_ok now m" and "LocalDynamicMap_updateAwareness timer now msg m = Inr m'"
  shows "ldm_ok now m'"
  using assms by (auto simp: LocalDynamicMap_updateAwareness_def rbind_ok_iff Let_def ldm_ok_def set_omap_put
    split: if_splits intro: omap_ok_put)

lemma dropExpired_ok [inv_intros]: "ldm_ok now m \<Longrightarrow> ldm_ok now (LocalDynamicMap_dropExpired now m)"
  by (auto simp: ldm_ok_def LocalDynamicMap_dropExpired_def intro: omap_ok_filter)

lemma ldm_ok_later: "ldm_ok now m \<Longrightarrow> now \<le> now' \<Longrightarrow> ldm_ok now' m"
  by (force simp: ldm_ok_def)

section \<open>Storing a message\<close>

text \<open>A message carries the milliseconds of its generation time only: the receiver dates it at the generation time truncated to a millisecond
  of TAI.\<close>

definition dated_at :: "Timer \<Rightarrow> simtime \<Rightarrow> simtime" where
  "dated_at t gen = Timer_getTimeFor_tai t (1000 * (Timer_getTimeFor_sim t gen div 1000))"

lemma dated_at_bounds:
  assumes "0 \<le> gen"
  shows "gen - simtime_ms 1 < dated_at t gen \<and> dated_at t gen \<le> gen"
proof -
  have "Timer_getTimeFor_sim t gen = mTimebase t + gen div 1000000" using assms by (simp add: Timer_getTimeFor_sim_def in_us_def)
  moreover have "x - 999 \<le> 1000 * (x div 1000) \<and> 1000 * (x div 1000) \<le> x" for x :: int by linarith
  ultimately have "gen div 1000000 - 999 \<le> 1000 * (Timer_getTimeFor_sim t gen div 1000) - mTimebase t"
    "1000 * (Timer_getTimeFor_sim t gen div 1000) - mTimebase t \<le> gen div 1000000" by (smt (verit))+
  then show ?thesis using assms by (simp add: dated_at_def Timer_getTimeFor_tai_def Let_def simtime_us_def simtime_ms_def) linarith
qed

lemma update_by_date:
  assumes "ldm_ok now m" and "0 \<le> mTimebase t" and "mTimebase t + in_us now < 2 ^ 60" and "0 \<le> now"
    and "0 \<le> gen" and "now \<le> gen + simtime_s 32" and "gen \<le> now + simtime_s 32"
    and "generationDeltaTime msg = ucast (countTaiMilliseconds (Timer_getTimeFor_sim t gen))"
  shows "\<exists>m'. LocalDynamicMap_updateAwareness t now msg m = Inr m' \<and> ldm_ok now m'
    \<and> (if now \<le> dated_at t gen + ldm_lifetime \<and> dated_at t gen \<le> now + ldm_lifetime
       then map_of m' = (map_of m)(cam_stationID msg \<mapsto> \<lparr>ae_expiry = dated_at t gen + ldm_lifetime, ae_object = msg\<rparr>) else m' = m)"
proof -
  let ?tp = "Timer_getTimeFor_sim t gen" and ?cur = "Timer_getCurrentTime t now"
  have tp: "?tp = mTimebase t + gen div 1000000" using assms(5) by (simp add: Timer_getTimeFor_sim_def in_us_def)
  have now_us: "in_us now = now div 1000000" using assms(4) by (simp add: in_us_def)
  have cur: "?cur = mTimebase t + now div 1000000"
    by (simp add: Timer_getCurrentTime_def Timer_getTimeFor_sim_def now_us)
  have close: "gen div 1000000 \<le> now div 1000000 + 32000000" "now div 1000000 \<le> gen div 1000000 + 32000000"
    using assms(6,7) by (simp_all add: simtime_s_def)
  have "\<bar>?tp div 1000 - ?cur div 1000\<bar> \<le> 32767" using tp cur close by linarith
  moreover have "?tp < 2 ^ 62" "?cur < 2 ^ 62" using tp cur close assms(3) now_us by simp_all
  moreover have "0 \<le> ?tp" "0 \<le> ?cur" using tp cur assms(2,4,5) by simp_all
  ultimately have rec: "Timer_reconstructMilliseconds t now (ucast (countTaiMilliseconds ?tp)) = Inr (1000 * (?tp div 1000))"
    by (intro reconstruct_stamp)
  let ?m' = "if now \<le> dated_at t gen + ldm_lifetime \<and> dated_at t gen \<le> now + ldm_lifetime
    then omap_put (cam_stationID msg) \<lparr>ae_expiry = dated_at t gen + ldm_lifetime, ae_object = msg\<rparr> m else m"
  have upd: "LocalDynamicMap_updateAwareness t now msg m = Inr ?m'"
    using assms(8) rec by (auto simp: LocalDynamicMap_updateAwareness_def dated_at_def Let_def)
  have "omap_ok m" using assms(1) by (simp add: ldm_ok_def)
  then show ?thesis
    using upd updateAwareness_ok [OF assms(1) upd] by (auto simp: omap_store.lookup_store)
qed

section \<open>Properties\<close>

definition example_cam :: Cam where
  "example_cam =
     \<lparr>cam_protocolVersion = 1, cam_messageID = 2, cam_stationID = 42, generationDeltaTime = 5500, cam_stationType = 5,
      referencePosition = \<lparr>rp_latitude = 0, rp_longitude = 0, rp_altitudeValue = 800001, rp_altitudeConfidence = 15,
        rp_semiMajorConfidence = 4095, rp_semiMinorConfidence = 4095, rp_semiMajorOrientation = 3601\<rparr>,
      highFrequencyContainer = None, lowFrequencyContainer = None\<rparr>"

text \<open>Dropping expired entries keeps exactly the entries that have not expired, so that right
  after it every entry's expiry lies between now and 2.2 seconds from now; the count of messages
  with a property never exceeds the number of stations known.\<close>

theorem dropExpired_correct:
  assumes "ldm_ok now m"
  shows "map_of (LocalDynamicMap_dropExpired now m) st =
      (case map_of m st of None \<Rightarrow> None | Some e \<Rightarrow> if now \<le> ae_expiry e then Some e else None)
    \<and> (\<forall>e \<in> snd ` set (LocalDynamicMap_dropExpired now m). now \<le> ae_expiry e \<and> ae_expiry e \<le> now + simtime_ms 2200)
    \<and> LocalDynamicMap_count P (LocalDynamicMap_dropExpired now m) \<le> LocalDynamicMap_count P m
    \<and> LocalDynamicMap_count P m \<le> card (dom (map_of m))"
proof -
  have ok: "omap_ok m" using assms by (simp add: ldm_ok_def)
  have "card (dom (map_of m)) = length m"
    using omap_ok_distinct [OF ok] by (metis distinct_card dom_map_of_conv_image_fst length_map set_map)
  then have "LocalDynamicMap_count P m \<le> card (dom (map_of m))" by (simp add: LocalDynamicMap_count_def)
  moreover have "LocalDynamicMap_count P (LocalDynamicMap_dropExpired now m) \<le> LocalDynamicMap_count P m"
    unfolding LocalDynamicMap_count_def LocalDynamicMap_dropExpired_def by (rule length_filter_filter)
  moreover have "\<forall>e \<in> snd ` set (LocalDynamicMap_dropExpired now m). now \<le> ae_expiry e \<and> ae_expiry e \<le> now + simtime_ms 2200"
    using assms by (auto simp: ldm_ok_def LocalDynamicMap_dropExpired_def ldm_lifetime_def simtime_ms_def)
  moreover have "map_of (LocalDynamicMap_dropExpired now m) st =
      (case map_of m st of None \<Rightarrow> None | Some e \<Rightarrow> if now \<le> ae_expiry e then Some e else None)"
    by (simp add: LocalDynamicMap_dropExpired_def map_of_omap_filter [OF ok] not_less split: option.split)
  ultimately show ?thesis by blast
qed

theorem dropExpired_correct_witness:
  "map_of (LocalDynamicMap_dropExpired 5 [(1, \<lparr>ae_expiry = 4, ae_object = example_cam\<lparr>cam_stationID := 1\<rparr>\<rparr>),
      (42, \<lparr>ae_expiry = 6, ae_object = example_cam\<rparr>)]) 1 = None"
  using dropExpired_correct [of 5 "[(1, \<lparr>ae_expiry = 4, ae_object = example_cam\<lparr>cam_stationID := 1\<rparr>\<rparr>),
      (42, \<lparr>ae_expiry = 6, ae_object = example_cam\<rparr>)]" 1]
  by (simp add: ldm_ok_def ldm_lifetime_def simtime_ms_def example_cam_def)

end
