(* ===== verification/Channels.thy ===== *)
theory Channels
  imports Artery_Prelude
begin

text \<open>
  ITS-G5 channels (\<open>artery/utility/Channel\<close>), the policy that maps an application identifier to the
  channels it is sent on (\<open>MultiChannelPolicy\<close>, \<open>XmlMultiChannelPolicy\<close>) and the table of network
  interfaces (\<open>NetworkInterfaceTable\<close>).  Reading an unsigned number from a string is
  \<open>boost::lexical_cast\<close>, the parameter \<open>lexical_cast\<close>.
\<close>

type_synonym ChannelNumber = "32 word"
type_synonym ItsAid = "32 word"

definition CCH :: ChannelNumber where "CCH = 180"
definition SCH1 :: ChannelNumber where "SCH1 = 176"
definition SCH2 :: ChannelNumber where "SCH2 = 178"
definition SCH3 :: ChannelNumber where "SCH3 = 174"
definition SCH4 :: ChannelNumber where "SCH4 = 172"
definition SCH5 :: ChannelNumber where "SCH5 = 182"
definition SCH6 :: ChannelNumber where "SCH6 = 184"

lemmas channel_defs = CCH_def SCH1_def SCH2_def SCH3_def SCH4_def SCH5_def SCH6_def

text \<open>The regular expression \<open>[0-9]+\<close>.\<close>

definition number_regex :: "string \<Rightarrow> bool" where
  "number_regex str \<longleftrightarrow> str \<noteq> [] \<and> list_all (\<lambda>c. CHR ''0'' \<le> c \<and> c \<le> CHR ''9'') str"

definition parseChannelNumber :: "(string \<Rightarrow> ChannelNumber result) \<Rightarrow> string \<Rightarrow> ChannelNumber result" where
  "parseChannelNumber lexical_cast str =
     (if number_regex str then lexical_cast str
      else if str = ''CCH'' \<or> str = ''SCH0'' then Inr CCH
      else if str = ''SCH1'' then Inr SCH1
      else if str = ''SCH2'' then Inr SCH2
      else if str = ''SCH3'' then Inr SCH3
      else if str = ''SCH4'' then Inr SCH4
      else if str = ''SCH5'' then Inr SCH5
      else if str = ''SCH6'' then Inr SCH6
      else Inr 0)"

definition getChannelRank :: "ChannelNumber \<Rightarrow> 32 word" where
  "getChannelRank ch =
     (if ch = CCH then 0
      else if ch = SCH1 then 1
      else if ch = SCH2 then 2
      else if ch = SCH3 then 3
      else if ch = SCH4 then 4
      else if ch = SCH5 then 5
      else if ch = SCH6 then 6
      else - 1)"

text \<open>\<open>std::sort\<close> by \<open>ChannelRankCompare\<close>; the virtual \<open>allChannels\<close> is the argument.\<close>

definition MultiChannelPolicy_primaryChannel :: "(ItsAid \<Rightarrow> ChannelNumber list) \<Rightarrow> ItsAid \<Rightarrow> ChannelNumber" where
  "MultiChannelPolicy_primaryChannel allChannels aid =
     (case sort_key getChannelRank (allChannels aid) of [] \<Rightarrow> 0 | ch # _ \<Rightarrow> ch)"

record XmlMultiChannelPolicy =
  mApplicationMapping :: "(ItsAid, ChannelNumber list) omap"
  mDefaultChannel :: ChannelNumber

definition mapped_channels :: "ItsAid \<Rightarrow> (ItsAid, ChannelNumber list) omap \<Rightarrow> ChannelNumber list" where
  "mapped_channels aid m = (case map_of m aid of None \<Rightarrow> [] | Some chs \<Rightarrow> chs)"

fun XmlMultiChannelPolicy_read_applications ::
    "(string \<Rightarrow> 32 word result) \<Rightarrow> cXMLElement list \<Rightarrow> (ItsAid, ChannelNumber list) omap \<Rightarrow>
     (ItsAid, ChannelNumber list) omap result" where
  "XmlMultiChannelPolicy_read_applications lexical_cast [] m = Inr m"
| "XmlMultiChannelPolicy_read_applications lexical_cast (app # apps) m =
     (case getAttribute app ''id'' of
        None \<Rightarrow> Inl (RuntimeError ''application tag without id attribute'')
      | Some id_attr \<Rightarrow>
         (case getAttribute app ''channel'' of
            None \<Rightarrow> Inl (RuntimeError ''application tag without channel attribute'')
          | Some ch_attr \<Rightarrow>
              rbind (lexical_cast id_attr) (\<lambda>aid.
              rbind (parseChannelNumber lexical_cast ch_attr) (\<lambda>channel.
                XmlMultiChannelPolicy_read_applications lexical_cast apps
                  (omap_put aid (insort_insert channel (mapped_channels aid m)) m)))))"

definition XmlMultiChannelPolicy_read ::
    "(string \<Rightarrow> 32 word result) \<Rightarrow> cXMLElement option \<Rightarrow> XmlMultiChannelPolicy result" where
  "XmlMultiChannelPolicy_read lexical_cast cfg =
     (case cfg of
        None \<Rightarrow> Inl (RuntimeError ''MCO configuration does not start with mco tag'')
      | Some c \<Rightarrow>
         (if getTagName c = ''mco'' then
            rbind (case getAttribute c ''default'' of
                     None \<Rightarrow> Inr 0
                   | Some attr \<Rightarrow> parseChannelNumber lexical_cast attr) (\<lambda>default.
            rmap (\<lambda>m. \<lparr>mApplicationMapping = m, mDefaultChannel = default\<rparr>)
              (XmlMultiChannelPolicy_read_applications lexical_cast
                (getChildrenByTagName c ''application'') []))
          else Inl (RuntimeError ''MCO configuration does not start with mco tag'')))"

definition XmlMultiChannelPolicy_allChannels :: "XmlMultiChannelPolicy \<Rightarrow> ItsAid \<Rightarrow> ChannelNumber list" where
  "XmlMultiChannelPolicy_allChannels p aid =
     (case map_of (mApplicationMapping p) aid of
        Some chs \<Rightarrow> chs
      | None \<Rightarrow> if mDefaultChannel p \<noteq> 0 then [mDefaultChannel p] else [])"

text \<open>
  A network interface is its address, the channel it currently serves and the modules behind it.
  The table is an \<open>unordered_set\<close>: the list is its order of iteration.
\<close>

record NetworkInterface =
  ni_ptr :: nat
  ni_channel :: ChannelNumber
  ni_router :: nat
  ni_dcc :: nat

definition NetworkInterface_new :: "nat \<Rightarrow> nat \<Rightarrow> nat \<Rightarrow> NetworkInterface" where
  "NetworkInterface_new ptr router dcc =
     \<lparr>ni_ptr = ptr, ni_channel = 0, ni_router = router, ni_dcc = dcc\<rparr>"

fun NetworkInterfaceTable_select :: "NetworkInterface list \<Rightarrow> ChannelNumber \<Rightarrow> NetworkInterface option" where
  "NetworkInterfaceTable_select [] ch = None"
| "NetworkInterfaceTable_select (ifc # ifcs) ch =
     (if ni_channel ifc = ch then Some ifc else NetworkInterfaceTable_select ifcs ch)"

definition NetworkInterfaceTable_insert :: "NetworkInterface \<Rightarrow> NetworkInterface list \<Rightarrow> NetworkInterface list" where
  "NetworkInterfaceTable_insert ifc ifcs =
     (if ni_ptr ifc \<in> ni_ptr ` set ifcs then ifcs else ifc # ifcs)"

definition policy_ok :: "XmlMultiChannelPolicy \<Rightarrow> bool" where
  "policy_ok p \<longleftrightarrow> omap_ok (mApplicationMapping p)
     \<and> (\<forall>chs \<in> snd ` set (mApplicationMapping p). sorted chs \<and> distinct chs \<and> chs \<noteq> [])"

section \<open>Ranks\<close>

lemma getChannelRank_CCH: "getChannelRank ch = 0 \<longleftrightarrow> ch = CCH"
  by (simp add: getChannelRank_def)

lemma getChannelRank_inj_known:
  assumes "getChannelRank a = getChannelRank b" and "getChannelRank a \<noteq> - 1"
  shows "a = b"
  using assms by (simp add: getChannelRank_def channel_defs split: if_splits)

section \<open>The policy interface\<close>

text \<open>
  What the middleware relies on from a channel policy: no channel is listed twice.  The primary
  channel is chosen among the listed ones by rank.
\<close>

locale channel_policy =
  fixes allChannels :: "'p \<Rightarrow> ItsAid \<Rightarrow> ChannelNumber list"
    and wf :: "'p \<Rightarrow> bool"
  assumes distinct_channels: "wf p \<Longrightarrow> distinct (allChannels p aid)"
begin

lemma primary_none: "allChannels p aid = [] \<Longrightarrow> MultiChannelPolicy_primaryChannel (allChannels p) aid = 0"
  by (simp add: MultiChannelPolicy_primaryChannel_def)

lemma primary_best:
  assumes "allChannels p aid \<noteq> []"
  shows "MultiChannelPolicy_primaryChannel (allChannels p) aid \<in> set (allChannels p aid)"
    and "ch \<in> set (allChannels p aid) \<Longrightarrow>
      getChannelRank (MultiChannelPolicy_primaryChannel (allChannels p) aid) \<le> getChannelRank ch"
proof -
  let ?s = "sort_key getChannelRank (allChannels p aid)"
  have ne: "?s \<noteq> []" using assms by (metis length_0_conv length_sort)
  then obtain c cs where s: "?s = c # cs" by (cases ?s) auto
  have prim: "MultiChannelPolicy_primaryChannel (allChannels p) aid = c"
    by (simp add: MultiChannelPolicy_primaryChannel_def s)
  have set: "set (allChannels p aid) = set (c # cs)" by (metis s set_sort)
  show "MultiChannelPolicy_primaryChannel (allChannels p) aid \<in> set (allChannels p aid)"
    by (simp add: prim set)
  have "sorted (map getChannelRank (c # cs))" by (metis s sorted_sort_key)
  then show "ch \<in> set (allChannels p aid) \<Longrightarrow>
      getChannelRank (MultiChannelPolicy_primaryChannel (allChannels p) aid) \<le> getChannelRank ch"
    by (auto simp: prim set)
qed

lemma primary_CCH: "CCH \<in> set (allChannels p aid) \<Longrightarrow> MultiChannelPolicy_primaryChannel (allChannels p) aid = CCH"
  using primary_best(2) [of p aid CCH] getChannelRank_CCH
  by (metis empty_iff list.set(1) word_le_0_iff)

end

section \<open>The XML policy\<close>

lemma mapped_channels_cases: "mapped_channels aid m \<in> insert [] (snd ` set m)"
  by (auto simp: mapped_channels_def split: option.splits dest!: map_of_SomeD) force

lemma policy_ok_step:
  assumes "policy_ok \<lparr>mApplicationMapping = m, mDefaultChannel = d\<rparr>"
  shows "policy_ok \<lparr>mApplicationMapping = omap_put aid (insort_insert ch (mapped_channels aid m)) m,
    mDefaultChannel = d'\<rparr>"
proof -
  have "sorted (mapped_channels aid m)" "distinct (mapped_channels aid m)"
    using assms mapped_channels_cases [of aid m] by (auto simp: policy_ok_def)
  then have "sorted (insort_insert ch (mapped_channels aid m))"
    "distinct (insort_insert ch (mapped_channels aid m))"
    "insort_insert ch (mapped_channels aid m) \<noteq> []"
    by (auto simp: sorted_insort insort_insert_key_def distinct_insort)
  with assms show ?thesis
    by (auto simp: policy_ok_def set_omap_put intro: omap_ok_put)
qed

lemma read_applications_ok:
  assumes "policy_ok \<lparr>mApplicationMapping = m, mDefaultChannel = d\<rparr>"
    and "XmlMultiChannelPolicy_read_applications lc apps m = Inr m'"
  shows "policy_ok \<lparr>mApplicationMapping = m', mDefaultChannel = d\<rparr>"
  using assms
proof (induction apps arbitrary: m)
  case (Cons app apps)
  then show ?case by (auto split: option.splits simp: rbind_ok_iff intro: policy_ok_step)
qed auto

lemma read_policy_ok:
  assumes "XmlMultiChannelPolicy_read lc cfg = Inr p"
  shows "policy_ok p"
proof -
  obtain m d c where "XmlMultiChannelPolicy_read_applications lc c [] = Inr m"
    "p = \<lparr>mApplicationMapping = m, mDefaultChannel = d\<rparr>"
    using assms
    by (auto simp: XmlMultiChannelPolicy_read_def rbind_ok_iff split: option.splits if_splits sum.splits
      elim!: rmap.elims)
  moreover have "policy_ok \<lparr>mApplicationMapping = [], mDefaultChannel = d\<rparr>" for d
    by (simp add: policy_ok_def)
  ultimately show ?thesis using read_applications_ok by blast
qed

interpretation xml_policy: channel_policy XmlMultiChannelPolicy_allChannels policy_ok
proof
  fix p aid assume "policy_ok p"
  then show "distinct (XmlMultiChannelPolicy_allChannels p aid)"
    by (auto simp: XmlMultiChannelPolicy_allChannels_def policy_ok_def split: option.splits
      dest!: map_of_SomeD)
qed

section \<open>The interface table\<close>

lemma select_Some: "NetworkInterfaceTable_select t ch = Some ifc \<Longrightarrow> ifc \<in> set t \<and> ni_channel ifc = ch"
  by (induction t) (auto split: if_splits)

lemma select_None: "NetworkInterfaceTable_select t ch = None \<longleftrightarrow> (\<forall>ifc \<in> set t. ni_channel ifc \<noteq> ch)"
  by (induction t) auto

section \<open>Properties\<close>

text \<open>The channels an XML configuration assigns to an application, read off its elements.\<close>

definition configured :: "(string \<Rightarrow> 32 word result) \<Rightarrow> cXMLElement list \<Rightarrow> ItsAid \<Rightarrow> ChannelNumber set" where
  "configured lc apps aid =
     {ch. \<exists>app \<in> set apps. \<exists>i c. getAttribute app ''id'' = Some i \<and> getAttribute app ''channel'' = Some c
        \<and> lc i = Inr aid \<and> parseChannelNumber lc c = Inr ch}"

lemma read_applications_configured:
  assumes "omap_ok m" and "XmlMultiChannelPolicy_read_applications lc apps m = Inr m'"
  shows "omap_ok m' \<and> set (mapped_channels aid m') = set (mapped_channels aid m) \<union> configured lc apps aid
    \<and> (map_of m' aid = None \<longleftrightarrow> map_of m aid = None \<and> configured lc apps aid = {})"
  using assms
proof (induction apps arbitrary: m)
  case Nil
  then show ?case by (simp add: configured_def)
next
  case (Cons app apps)
  obtain i c a ch where attrs: "getAttribute app ''id'' = Some i" "getAttribute app ''channel'' = Some c"
    "lc i = Inr a" "parseChannelNumber lc c = Inr ch"
    and rest: "XmlMultiChannelPolicy_read_applications lc apps
      (omap_put a (insort_insert ch (mapped_channels a m)) m) = Inr m'"
    using Cons.prems(2) by (auto simp: rbind_ok_iff split: option.splits)
  have conf: "configured lc (app # apps) aid = (if a = aid then {ch} else {}) \<union> configured lc apps aid"
    using attrs by (auto simp: configured_def)
  show ?case
    using Cons.IH [OF omap_ok_put [OF Cons.prems(1)] rest] Cons.prems(1)
    by (auto simp: conf mapped_channels_def map_of_omap_put set_insort_insert)
qed

text \<open>A policy read from XML sends an application on exactly the channels its elements name,
  each once, and falls back to the default channel (if there is one) only for applications that
  no element names.\<close>

theorem XmlMultiChannelPolicy_read_correct:
  assumes "XmlMultiChannelPolicy_read lc (Some cfg) = Inr p"
    and "conf = configured lc (getChildrenByTagName cfg ''application'') aid"
  shows "distinct (XmlMultiChannelPolicy_allChannels p aid)
    \<and> set (XmlMultiChannelPolicy_allChannels p aid) =
        (if conf \<noteq> {} then conf else if mDefaultChannel p \<noteq> 0 then {mDefaultChannel p} else {})"
proof -
  from assms(1) obtain m where m: "XmlMultiChannelPolicy_read_applications lc
      (getChildrenByTagName cfg ''application'') [] = Inr m" and p: "mApplicationMapping p = m"
    by (auto simp: XmlMultiChannelPolicy_read_def rbind_ok_iff split: if_splits elim!: rmap.elims)
  have "distinct (XmlMultiChannelPolicy_allChannels p aid)"
    using assms(1) by (blast intro: read_policy_ok xml_policy.distinct_channels)
  moreover have "set (mapped_channels aid m) = conf" "map_of m aid = None \<longleftrightarrow> conf = {}"
    using read_applications_configured [OF _ m, of aid] by (auto simp: assms(2) mapped_channels_def)
  ultimately show ?thesis
    by (auto simp: XmlMultiChannelPolicy_allChannels_def p mapped_channels_def split: option.splits)
qed

text \<open>The primary channel of an application is one of its channels, none of its channels has a
  better rank, it is the control channel whenever that is among them, and it is 0 exactly when the
  application has no channel (channel 0 itself never being assigned).\<close>

theorem primaryChannel_best:
  assumes "0 \<notin> set (XmlMultiChannelPolicy_allChannels p aid)"
    and "prim = MultiChannelPolicy_primaryChannel (XmlMultiChannelPolicy_allChannels p) aid"
  shows "(prim = 0 \<longleftrightarrow> XmlMultiChannelPolicy_allChannels p aid = [])
    \<and> (prim \<noteq> 0 \<longrightarrow> prim \<in> set (XmlMultiChannelPolicy_allChannels p aid))
    \<and> (\<forall>ch \<in> set (XmlMultiChannelPolicy_allChannels p aid). getChannelRank prim \<le> getChannelRank ch)
    \<and> (CCH \<in> set (XmlMultiChannelPolicy_allChannels p aid) \<longrightarrow> prim = CCH)"
proof (cases "XmlMultiChannelPolicy_allChannels p aid = []")
  case True
  then show ?thesis by (simp add: assms(2) xml_policy.primary_none)
next
  case False
  with xml_policy.primary_best(1) [OF False] assms(1) have "prim \<noteq> 0" by (auto simp: assms(2))
  then show ?thesis
    using False xml_policy.primary_best [OF False] xml_policy.primary_CCH by (simp add: assms(2))
qed

text \<open>The name of every channel parses to the number whose rank is the channel's index, digits go
  to the number parser, and any other text is channel 0.\<close>

theorem parseChannelNumber_names:
  "map (\<lambda>name. rmap getChannelRank (parseChannelNumber lc name))
     [''CCH'', ''SCH0'', ''SCH1'', ''SCH2'', ''SCH3'', ''SCH4'', ''SCH5'', ''SCH6'']
   = map Inr [0, 0, 1, 2, 3, 4, 5, 6]
   \<and> parseChannelNumber lc ''180'' = lc ''180'' \<and> parseChannelNumber lc ''cch'' = Inr 0
   \<and> parseChannelNumber lc [] = Inr 0"
  by (simp add: parseChannelNumber_def number_regex_def getChannelRank_def channel_defs)

text \<open>Evaluation at a small configuration.\<close>

definition example_mco :: cXMLElement where
  "example_mco =
     XMLElement ''mco'' (\<lambda>a. if a = ''default'' then Some ''SCH1'' else None)
       (\<lambda>t. if t = ''application'' then
              [XMLElement ''application'' (map_of [(''id'', ''36''), (''channel'', ''SCH2'')]) (\<lambda>_. []) (\<lambda>_. None),
               XMLElement ''application'' (map_of [(''id'', ''36''), (''channel'', ''CCH'')]) (\<lambda>_. []) (\<lambda>_. None)]
            else []) (\<lambda>_. None)"

definition example_lexical_cast :: "string \<Rightarrow> 32 word result" where
  "example_lexical_cast str = (if str = ''36'' then Inr 36 else Inl (BadLexicalCast str))"

lemma example_mco_read:
  "XmlMultiChannelPolicy_read example_lexical_cast (Some example_mco) =
     Inr \<lparr>mApplicationMapping = [(36, [178, 180])], mDefaultChannel = 176\<rparr>"
  by (simp add: XmlMultiChannelPolicy_read_def example_mco_def example_lexical_cast_def parseChannelNumber_def
    number_regex_def mapped_channels_def channel_defs insort_insert_key_def)

theorem XmlMultiChannelPolicy_read_correct_witness:
  "set (XmlMultiChannelPolicy_allChannels
      \<lparr>mApplicationMapping = [(36, [178, 180])], mDefaultChannel = 176\<rparr> 37) = {176}"
proof -
  have "configured example_lexical_cast (getChildrenByTagName example_mco ''application'') 37 = {}"
    by (auto simp: configured_def example_mco_def example_lexical_cast_def)
  then show ?thesis
    using XmlMultiChannelPolicy_read_correct [OF example_mco_read refl, of 37] by simp
qed

theorem primaryChannel_best_witness:
  "MultiChannelPolicy_primaryChannel (XmlMultiChannelPolicy_allChannels
     \<lparr>mApplicationMapping = [(36, [178, 180])], mDefaultChannel = 176\<rparr>) 36 = CCH"
  using primaryChannel_best [of "\<lparr>mApplicationMapping = [(36, [178, 180])], mDefaultChannel = 176\<rparr>" 36, OF _ refl]
  by (simp add: XmlMultiChannelPolicy_allChannels_def CCH_def)

end
