(* ===== verification/CaServices.thy ===== *)
theory CaServices
  imports LocalDynMap Channels
begin

text \<open>
  \<open>artery/application/CaService\<close>: generation of cooperative awareness messages by the rules of
  EN 302 637-2, and their reception into the local dynamic map.  One trigger of the middleware is
  \<open>CaService_trigger\<close>; what the code emits and passes to the middleware is returned as a list of
  transmissions.  The transmit rate throttle of an interface is the parameter \<open>env_trc\<close>: the delay in
  microseconds it answers, or \<open>None\<close> without a throttle.
\<close>

record CaService =
  mPrimaryChannel :: ChannelNumber
  mGenCamMin :: simtime
  mGenCamMax :: simtime
  mGenCam :: simtime
  mGenCamLowDynamicsCounter :: "32 word"
  mGenCamLowDynamicsLimit :: "32 word"
  mLastCamPosition :: "real \<times> real"
  mLastCamSpeed :: real
  mLastCamHeading :: real
  mLastCamTimestamp :: simtime
  mLastLowCamTimestamp :: simtime
  mHeadingDelta :: real
  mPositionDelta :: real
  mSpeedDelta :: real
  mDccRestriction :: bool
  mFixedRate :: bool

record CaParameters =
  par_minInterval :: simtime
  par_maxInterval :: simtime
  par_headingDelta :: real
  par_positionDelta :: real
  par_speedDelta :: real
  par_withDccRestriction :: bool
  par_fixedRate :: bool

record CaEnvironment =
  env_timer :: Timer
  env_vdp :: VehicleDataProvider
  env_interfaces :: "NetworkInterface list"
  env_trc :: "NetworkInterface \<Rightarrow> int option"

record CamTransmission =
  tx_request :: DataRequestB
  tx_cam :: Cam

definition scLowFrequencyContainerInterval :: simtime where
  "scLowFrequencyContainerInterval = simtime_ms 500"

definition CaService_new :: CaService where
  "CaService_new =
     \<lparr>mPrimaryChannel = CCH, mGenCamMin = simtime_ms 100, mGenCamMax = simtime_ms 1000, mGenCam = simtime_ms 1000,
      mGenCamLowDynamicsCounter = 0, mGenCamLowDynamicsLimit = 3, mLastCamPosition = (0, 0), mLastCamSpeed = 0,
      mLastCamHeading = 0, mLastCamTimestamp = 0, mLastLowCamTimestamp = 0, mHeadingDelta = 0, mPositionDelta = 0,
      mSpeedDelta = 0, mDccRestriction = False, mFixedRate = False\<rparr>"

text \<open>
  The last statement of \<open>initialize\<close> declares a local variable with the name of the member, so the
  policy's answer is dropped.
\<close>

definition CaService_initialize :: "(ItsAid \<Rightarrow> ChannelNumber) \<Rightarrow> CaParameters \<Rightarrow> simtime \<Rightarrow> CaService \<Rightarrow> CaService" where
  "CaService_initialize primaryChannel par now s =
     (let local_mPrimaryChannel = primaryChannel aid_CA
      in s\<lparr>mLastCamTimestamp := now,
           mLastLowCamTimestamp := now - scLowFrequencyContainerInterval,
           mGenCamMin := par_minInterval par,
           mGenCamMax := par_maxInterval par,
           mHeadingDelta := par_headingDelta par * degree,
           mPositionDelta := par_positionDelta par,
           mSpeedDelta := par_speedDelta par,
           mDccRestriction := par_withDccRestriction par,
           mFixedRate := par_fixedRate par\<rparr>)"

definition CaService_checkHeadingDelta :: "VehicleDataProvider \<Rightarrow> CaService \<Rightarrow> bool" where
  "CaService_checkHeadingDelta vdp s = (\<not> similar_heading (mLastCamHeading s) (mHeading vdp) (mHeadingDelta s))"

definition CaService_checkPositionDelta :: "VehicleDataProvider \<Rightarrow> CaService \<Rightarrow> bool" where
  "CaService_checkPositionDelta vdp s = (position_distance (mLastCamPosition s) (mPosition vdp) > mPositionDelta s)"

definition CaService_checkSpeedDelta :: "VehicleDataProvider \<Rightarrow> CaService \<Rightarrow> bool" where
  "CaService_checkSpeedDelta vdp s = (\<bar>mLastCamSpeed s - mSpeed vdp\<bar> > mSpeedDelta s)"

definition vehicle_container :: "VehicleDataProvider \<Rightarrow> BasicVehicleContainerHighFrequency" where
  "vehicle_container vdp =
     (let lonAccelValue = mAccel vdp;
          curvature = trunc_int (\<bar>mCurvature vdp\<bar> * 10000);
          yaw = std_round (mYawRate vdp / degree) * 100
      in \<lparr>headingValue = std_round (mHeading vdp / degree * 10),
          headingConfidence = 10,
          speedValue = std_round (mSpeed vdp * 100) * 1,
          speedConfidence = 1 * 3,
          driveDirection = (if mSpeed vdp \<ge> 0 then DriveDirection_forward else DriveDirection_backward),
          vehicleLengthValue = 1023,
          vehicleLengthConfidenceIndication = 0,
          vehicleWidth = 62,
          longitudinalAccelerationValue =
            (if lonAccelValue \<ge> - 160 \<and> lonAccelValue \<le> 161 then trunc_int (lonAccelValue * 1) else 161),
          longitudinalAccelerationConfidence = 102,
          curvatureValue = (if curvature \<ge> 1023 then 1023 else curvature),
          curvatureConfidence = 7,
          curvatureCalculationMode = 0,
          yawRateValue = (if \<bar>yaw\<bar> \<ge> 32767 then 32767 else yaw)\<rparr>)"

definition createCooperativeAwarenessMessage :: "VehicleDataProvider \<Rightarrow> 16 word \<Rightarrow> Cam result" where
  "createCooperativeAwarenessMessage vdp genDeltaTime =
     (let message =
        \<lparr>cam_protocolVersion = 1, cam_messageID = 2, cam_stationID = mStationId vdp,
         generationDeltaTime = genDeltaTime * 1,
         cam_stationType = 5,
         referencePosition =
           \<lparr>rp_latitude = std_round (mLatitude vdp * 1000000) * 10,
            rp_longitude = std_round (mLongitude vdp * 1000000) * 10,
            rp_altitudeValue = 800001, rp_altitudeConfidence = 15,
            rp_semiMajorConfidence = 4095, rp_semiMinorConfidence = 4095,
            rp_semiMajorOrientation = HeadingValue_unavailable\<rparr>,
         highFrequencyContainer = Some (vehicle_container vdp),
         lowFrequencyContainer = None\<rparr>
      in if Cam_validate message then Inr message
         else Inl (RuntimeError ''Invalid High Frequency CAM''))"

definition addLowFrequencyContainer :: "Cam \<Rightarrow> Cam result" where
  "addLowFrequencyContainer message =
     (let message = message\<lparr>lowFrequencyContainer :=
            Some \<lparr>vehicleRole = 0, exteriorLights = 0 OR push_bit (7 - 4) 1\<rparr>\<rparr>
      in if Cam_validate message then Inr message
         else Inl (RuntimeError ''Invalid Low Frequency CAM''))"

definition cam_request :: DataRequestB where
  "cam_request =
     DataRequestB_new\<lparr>destination_port := port_CAM, its_aid := aid_CA, transport_type := SHB,
       maximum_lifetime_s := Some 1, tc_id := 2, communication_profile := ITS_G5\<rparr>"

definition CaService_sendCam :: "CaEnvironment \<Rightarrow> simtime \<Rightarrow> CaService \<Rightarrow> (CaService \<times> CamTransmission list) result" where
  "CaService_sendCam env now s =
     (let vdp = env_vdp env;
          genDeltaTimeMod = ucast (countTaiMilliseconds (Timer_getTimeFor_sim (env_timer env) (mLastUpdate vdp)))
      in rbind (createCooperativeAwarenessMessage vdp genDeltaTimeMod) (\<lambda>cam.
           let s = s\<lparr>mLastCamPosition := mPosition vdp, mLastCamSpeed := mSpeed vdp,
                     mLastCamHeading := mHeading vdp, mLastCamTimestamp := now\<rparr>
           in if now - mLastLowCamTimestamp s \<ge> scLowFrequencyContainerInterval then
                rbind (addLowFrequencyContainer cam) (\<lambda>cam.
                  Inr (s\<lparr>mLastLowCamTimestamp := now\<rparr>, [\<lparr>tx_request = cam_request, tx_cam = cam\<rparr>]))
              else Inr (s, [\<lparr>tx_request = cam_request, tx_cam = cam\<rparr>])))"

definition CaService_genCamDcc :: "CaEnvironment \<Rightarrow> CaService \<Rightarrow> simtime result" where
  "CaService_genCamDcc env s =
     (case Option.bind (NetworkInterfaceTable_select (env_interfaces env) (mPrimaryChannel s)) (env_trc env) of
        None \<Rightarrow> Inl (RuntimeError ''No DCC TRC found for primary channel of CA'')
      | Some delay \<Rightarrow>
          (let dcc = simtime_ms (cdiv delay 1000) in Inr (min (mGenCamMax s) (max (mGenCamMin s) dcc))))"

definition CaService_checkTriggeringConditions ::
    "CaEnvironment \<Rightarrow> simtime \<Rightarrow> CaService \<Rightarrow> (CaService \<times> CamTransmission list) result" where
  "CaService_checkTriggeringConditions env now s =
     rbind (if mDccRestriction s then CaService_genCamDcc env s else Inr (mGenCamMin s)) (\<lambda>T_GenCamDcc.
       let T_elapsed = now - mLastCamTimestamp s; vdp = env_vdp env
       in if T_elapsed \<ge> T_GenCamDcc then
            (if mFixedRate s then CaService_sendCam env now s
             else if CaService_checkHeadingDelta vdp s \<or> CaService_checkPositionDelta vdp s
                  \<or> CaService_checkSpeedDelta vdp s then
               rmap (\<lambda>(s, tx). (s\<lparr>mGenCam := min T_elapsed (mGenCamMax s), mGenCamLowDynamicsCounter := 0\<rparr>, tx))
                 (CaService_sendCam env now s)
             else if T_elapsed \<ge> mGenCam s then
               rmap (\<lambda>(s, tx).
                   let s = s\<lparr>mGenCamLowDynamicsCounter := mGenCamLowDynamicsCounter s + 1\<rparr>
                   in (if mGenCamLowDynamicsCounter s \<ge> mGenCamLowDynamicsLimit s
                       then s\<lparr>mGenCam := mGenCamMax s\<rparr> else s, tx))
                 (CaService_sendCam env now s)
             else Inr (s, []))
          else Inr (s, []))"

definition CaService_trigger :: "CaEnvironment \<Rightarrow> simtime \<Rightarrow> CaService \<Rightarrow> (CaService \<times> CamTransmission list) result" where
  "CaService_trigger env now s = CaService_checkTriggeringConditions env now s"

text \<open>Reception: \<open>decoded\<close> is the CAM the packet holds, if it could be decoded.\<close>

definition CaService_indicate :: "Timer \<Rightarrow> simtime \<Rightarrow> Cam option \<Rightarrow> LocalDynamicMap \<Rightarrow> LocalDynamicMap result" where
  "CaService_indicate timer now decoded ldm =
     (case decoded of
        None \<Rightarrow> Inr ldm
      | Some cam \<Rightarrow> if Cam_validate cam then LocalDynamicMap_updateAwareness timer now cam ldm else Inr ldm)"

text \<open>A run of triggers: the environment at each trigger time, and the messages sent with their times.\<close>

fun ca_run :: "(simtime \<times> CaEnvironment) list \<Rightarrow> CaService \<Rightarrow> (CaService \<times> (simtime \<times> CamTransmission) list) result" where
  "ca_run [] s = Inr (s, [])"
| "ca_run (e # es) s =
     rbind (CaService_trigger (snd e) (fst e) s) (\<lambda>(s', tx).
       rmap (\<lambda>(s'', txs). (s'', map (\<lambda>x. (fst e, x)) tx @ txs)) (ca_run es s'))"

section \<open>Generating a message\<close>

lemma vehicle_container_ranges:
  "LongitudinalAccelerationValue_constraint (longitudinalAccelerationValue (vehicle_container vdp))"
  "CurvatureValue_constraint (curvatureValue (vehicle_container vdp))"
  "YawRateValue_constraint (yawRateValue (vehicle_container vdp))"
proof -
  have "- 160 \<le> trunc_int a \<and> trunc_int a \<le> 161" if "- 160 \<le> a" "a \<le> 161" for a
    using trunc_int_bounds [of "- 160" a 161] that by simp
  then show "LongitudinalAccelerationValue_constraint (longitudinalAccelerationValue (vehicle_container vdp))"
    by (simp add: vehicle_container_def constraint_defs Let_def)
  have "0 \<le> trunc_int (\<bar>c\<bar> * 10000)" for c by (simp add: trunc_int_def)
  then show "CurvatureValue_constraint (curvatureValue (vehicle_container vdp))"
    by (simp add: vehicle_container_def constraint_defs Let_def) (smt (verit))
  show "YawRateValue_constraint (yawRateValue (vehicle_container vdp))"
    by (auto simp: vehicle_container_def constraint_defs Let_def)
qed

lemma createCam_ok_iff:
  "is_ok (createCooperativeAwarenessMessage vdp g) \<longleftrightarrow>
     Longitude_constraint (std_round (mLongitude vdp * 1000000) * 10)
     \<and> Latitude_constraint (std_round (mLatitude vdp * 1000000) * 10)
     \<and> HeadingValue_constraint (std_round (mHeading vdp / degree * 10))
     \<and> SpeedValue_constraint (std_round (mSpeed vdp * 100))"
  using vehicle_container_ranges [of vdp]
  by (simp add: createCooperativeAwarenessMessage_def Cam_validate_def octet_constraint_def ReferencePosition_constraint_def
      BasicVehicleContainerHighFrequency_constraint_def HeadingValue_unavailable_def HeadingValue_constraint_def [of "3601"] Let_def)
    (simp add: vehicle_container_def Let_def, blast)

lemma addLowFrequencyContainer_ok: "Cam_validate m \<Longrightarrow> \<exists>m'. addLowFrequencyContainer m = Inr m'"
  by (simp add: addLowFrequencyContainer_def Cam_validate_def)

lemma createCam_validated: "createCooperativeAwarenessMessage vdp g = Inr m \<Longrightarrow> Cam_validate m"
  by (auto simp: createCooperativeAwarenessMessage_def Let_def split: if_splits)

lemma sendCam_cases:
  assumes "CaService_sendCam env now s = Inr (s', tx)"
  obtains cam lf where "tx = [\<lparr>tx_request = cam_request, tx_cam = cam\<rparr>]"
    and "lf \<longleftrightarrow> now - mLastLowCamTimestamp s \<ge> scLowFrequencyContainerInterval"
    and "lowFrequencyContainer cam \<noteq> None \<longleftrightarrow> lf"
    and "s' = s\<lparr>mLastCamPosition := mPosition (env_vdp env), mLastCamSpeed := mSpeed (env_vdp env),
           mLastCamHeading := mHeading (env_vdp env), mLastCamTimestamp := now,
           mLastLowCamTimestamp := (if lf then now else mLastLowCamTimestamp s)\<rparr>"
  using assms
  by (auto simp: CaService_sendCam_def Let_def rbind_ok_iff addLowFrequencyContainer_def
      createCooperativeAwarenessMessage_def split: if_splits)

lemma sendCam_total:
  assumes "is_ok (createCooperativeAwarenessMessage (env_vdp env) 0)"
  shows "is_ok (CaService_sendCam env now s)"
proof -
  let ?g = "ucast (countTaiMilliseconds (Timer_getTimeFor_sim (env_timer env) (mLastUpdate (env_vdp env))))"
  have "is_ok (createCooperativeAwarenessMessage (env_vdp env) ?g)"
    using assms by (simp only: createCam_ok_iff)
  then obtain cam where cam: "createCooperativeAwarenessMessage (env_vdp env) ?g = Inr cam" by (auto simp: is_ok_iff)
  obtain cam' where "addLowFrequencyContainer cam = Inr cam'"
    using addLowFrequencyContainer_ok [OF createCam_validated [OF cam]] by blast
  with cam show ?thesis by (simp add: CaService_sendCam_def Let_def)
qed

section \<open>One trigger\<close>

text \<open>
  The invariant of the generation rules: the two bounds are in order and the current interval does
  not exceed the upper one.
\<close>

definition ca_ok :: "CaService \<Rightarrow> bool" where
  "ca_ok s \<longleftrightarrow> mGenCamMin s \<le> mGenCamMax s \<and> mGenCam s \<le> mGenCamMax s"

lemma genCamDcc_bounds:
  "ca_ok s \<Longrightarrow> CaService_genCamDcc env s = Inr d \<Longrightarrow> mGenCamMin s \<le> d \<and> d \<le> mGenCamMax s"
  by (auto simp: CaService_genCamDcc_def ca_ok_def Let_def split: option.splits)

lemma trigger_sent:
  assumes "ca_ok s" and "CaService_trigger env now s = Inr (s', tx)"
  shows "(tx = [] \<and> s' = s) \<or>
    (\<exists>cam. tx = [\<lparr>tx_request = cam_request, tx_cam = cam\<rparr>]
       \<and> mLastCamTimestamp s + mGenCamMin s \<le> now \<and> mLastCamTimestamp s' = now
       \<and> (lowFrequencyContainer cam \<noteq> None \<longleftrightarrow> now - mLastLowCamTimestamp s \<ge> scLowFrequencyContainerInterval)
       \<and> mLastLowCamTimestamp s' = (if lowFrequencyContainer cam \<noteq> None then now else mLastLowCamTimestamp s))"
proof -
  obtain d where d: "(if mDccRestriction s then CaService_genCamDcc env s else Inr (mGenCamMin s)) = Inr d"
    using assms(2) by (auto simp: CaService_trigger_def CaService_checkTriggeringConditions_def rbind_ok_iff)
  have min: "mGenCamMin s \<le> d" using d genCamDcc_bounds [OF assms(1)] by (auto split: if_splits)
  show ?thesis
  proof (cases "tx = []")
    case True
    then show ?thesis
      using assms(2) d
      by (auto simp: CaService_trigger_def CaService_checkTriggeringConditions_def Let_def
          split: if_splits elim!: rmap.elims sendCam_cases)
  next
    case False
    then obtain s1 where s1: "CaService_sendCam env now s = Inr (s1, tx)" "now - mLastCamTimestamp s \<ge> d"
      "mLastCamTimestamp s' = mLastCamTimestamp s1" "mLastLowCamTimestamp s' = mLastLowCamTimestamp s1"
      using assms(2) d
      by (auto simp: CaService_trigger_def CaService_checkTriggeringConditions_def Let_def
          split: if_splits elim!: rmap.elims)
    from s1(1) show ?thesis
      by (rule sendCam_cases) (use s1 min in auto)
  qed
qed

lemma sendCam_frame:
  "CaService_sendCam env now s = Inr (s', tx) \<Longrightarrow>
     mGenCamMin s' = mGenCamMin s \<and> mGenCamMax s' = mGenCamMax s \<and> mGenCam s' = mGenCam s
     \<and> mDccRestriction s' = mDccRestriction s \<and> mFixedRate s' = mFixedRate s \<and> mPrimaryChannel s' = mPrimaryChannel s"
  by (auto elim!: sendCam_cases)


lemma trigger_ok [inv_intros]:
  assumes "ca_ok s" and "CaService_trigger env now s = Inr (s', tx)"
  shows "ca_ok s'"
  using assms
  by (auto simp: CaService_trigger_def CaService_checkTriggeringConditions_def rbind_ok_iff Let_def ca_ok_def
      split: if_splits elim!: rmap.elims dest!: sendCam_frame)

text \<open>When the time is up and messages can be created, a trigger sends one.\<close>

lemma trigger_sends:
  assumes "ca_ok s" and "mLastCamTimestamp s + mGenCamMax s \<le> now"
    and "is_ok (createCooperativeAwarenessMessage (env_vdp env) 0)"
    and "mDccRestriction s \<Longrightarrow> is_ok (CaService_genCamDcc env s)"
  shows "\<exists>s' tx. CaService_trigger env now s = Inr (s', [tx])"
proof -
  obtain d where d: "(if mDccRestriction s then CaService_genCamDcc env s else Inr (mGenCamMin s)) = Inr d"
    using assms(4) by (cases "mDccRestriction s") (auto simp: is_ok_iff)
  have max: "d \<le> mGenCamMax s"
    using d genCamDcc_bounds [OF assms(1)] assms(1) by (auto simp: ca_ok_def split: if_splits)
  obtain s1 tx where send: "CaService_sendCam env now s = Inr (s1, tx)"
    using sendCam_total [OF assms(3), of now s] by (auto simp: is_ok_iff)
  then obtain t where tx: "tx = [t]" by (auto elim: sendCam_cases)
  have "d \<le> now - mLastCamTimestamp s" "mGenCam s \<le> now - mLastCamTimestamp s"
    using assms(1,2) max by (auto simp: ca_ok_def)
  then show ?thesis
    using d send tx
    by (auto simp: CaService_trigger_def CaService_checkTriggeringConditions_def Let_def)
qed

section \<open>Runs\<close>

lemma ca_run_Cons:
  "ca_run (e # es) s = Inr (s2, txs) \<longleftrightarrow>
     (\<exists>s1 tx txs'. CaService_trigger (snd e) (fst e) s = Inr (s1, tx) \<and> ca_run es s1 = Inr (s2, txs')
        \<and> txs = map (\<lambda>x. (fst e, x)) tx @ txs')"
  by (cases "ca_run es (fst (projr (CaService_trigger (snd e) (fst e) s)))")
    (auto simp: rbind_ok_iff elim!: rmap.elims)


lemma ca_run_low_frequency:
  assumes "ca_ok s" and "ca_run es s = Inr (s', txs)"
  shows "successively (\<lambda>a b. a + scLowFrequencyContainerInterval \<le> b)
    (mLastLowCamTimestamp s # map fst (filter (\<lambda>x. lowFrequencyContainer (tx_cam (snd x)) \<noteq> None) txs))"
  using assms
proof (induction es arbitrary: s txs)
  case (Cons e es)
  then obtain s1 tx txs' where step: "CaService_trigger (snd e) (fst e) s = Inr (s1, tx)"
    "ca_run es s1 = Inr (s', txs')" "txs = map (\<lambda>x. (fst e, x)) tx @ txs'"
    by (auto simp only: ca_run_Cons)
  have IH: "successively (\<lambda>a b. a + scLowFrequencyContainerInterval \<le> b)
    (mLastLowCamTimestamp s1 # map fst (filter (\<lambda>x. lowFrequencyContainer (tx_cam (snd x)) \<noteq> None) txs'))"
    by (rule Cons.IH [OF trigger_ok [OF Cons.prems(1) step(1)] step(2)])
  show ?case
    using trigger_sent [OF Cons.prems(1) step(1)] IH step(3) by (auto split: if_splits)
qed simp

text \<open>Silence is bounded by a limit \<open>M\<close> that neither the current nor the maximum interval exceeds; the current interval starts with the
  constructor's value, whatever maximum is configured.\<close>

definition ca_within :: "simtime \<Rightarrow> CaService \<Rightarrow> bool" where
  "ca_within M s \<longleftrightarrow> mGenCamMin s \<le> mGenCamMax s \<and> mGenCamMax s \<le> M \<and> mGenCam s \<le> M"

lemma trigger_within:
  assumes "ca_within M s" and "is_ok (createCooperativeAwarenessMessage (env_vdp env) 0)"
    and "\<not> mDccRestriction s \<or> is_ok (CaService_genCamDcc env s)"
  obtains s' tx where "CaService_trigger env now s = Inr (s', tx)" and "ca_within M s'"
    and "mDccRestriction s' = mDccRestriction s" and "mPrimaryChannel s' = mPrimaryChannel s"
    and "(tx = [] \<and> s' = s \<and> now < mLastCamTimestamp s + M) \<or> (\<exists>x. tx = [x] \<and> mLastCamTimestamp s' = now)"
proof -
  obtain d where d: "(if mDccRestriction s then CaService_genCamDcc env s else Inr (mGenCamMin s)) = Inr d"
    using assms(3) by (cases "mDccRestriction s") (auto simp: is_ok_iff)
  then have "d \<le> M"
    using assms(1) by (auto simp: ca_within_def CaService_genCamDcc_def Let_def split: if_splits option.splits)
  moreover obtain s1 tx where send: "CaService_sendCam env now s = Inr (s1, tx)"
    using sendCam_total [OF assms(2), of now s] by (auto simp: is_ok_iff)
  ultimately show ?thesis using d assms(1)
    by (intro that [of "fst (projr (CaService_trigger env now s))" "snd (projr (CaService_trigger env now s))"])
      (auto simp: CaService_trigger_def CaService_checkTriggeringConditions_def Let_def ca_within_def elim!: sendCam_cases)
qed

lemma genCamDcc_frame: "mPrimaryChannel s' = mPrimaryChannel s \<Longrightarrow> is_ok (CaService_genCamDcc env s') = is_ok (CaService_genCamDcc env s)"
  by (auto simp: CaService_genCamDcc_def Let_def split: option.splits)

lemma ca_run_live:
  assumes "ca_within M s" and "0 < M" and "t0 < mLastCamTimestamp s + M" and "successively (\<lambda>a b. b \<le> a + p) (t0 # map fst es)"
    and "\<forall>(t, env) \<in> set es. is_ok (createCooperativeAwarenessMessage (env_vdp env) 0)
      \<and> (\<not> mDccRestriction s \<or> is_ok (CaService_genCamDcc env s))"
  shows "\<exists>s' txs. ca_run es s = Inr (s', txs) \<and> successively (\<lambda>a b. b < a + M + p) (mLastCamTimestamp s # map fst txs)
    \<and> last (t0 # map fst es) < last (mLastCamTimestamp s # map fst txs) + M"
  using assms(1,3-5)
proof (induction es arbitrary: s t0)
  case (Cons e es)
  obtain t env where e: "e = (t, env)" by (cases e)
  then have "is_ok (createCooperativeAwarenessMessage (env_vdp env) 0)" "\<not> mDccRestriction s \<or> is_ok (CaService_genCamDcc env s)"
    using Cons.prems(4) by auto
  from trigger_within [OF Cons.prems(1) this, of t] obtain s1 tx where step: "CaService_trigger env t s = Inr (s1, tx)" "ca_within M s1"
    "mDccRestriction s1 = mDccRestriction s" "mPrimaryChannel s1 = mPrimaryChannel s"
    "(tx = [] \<and> s1 = s \<and> t < mLastCamTimestamp s + M) \<or> (\<exists>x. tx = [x] \<and> mLastCamTimestamp s1 = t)" by metis
  have "t < mLastCamTimestamp s1 + M" using step(5) assms(2) by auto
  moreover have "successively (\<lambda>a b. b \<le> a + p) (t # map fst es)" "t \<le> t0 + p" using Cons.prems(3) e by simp_all
  moreover have "\<forall>(t, env) \<in> set es. is_ok (createCooperativeAwarenessMessage (env_vdp env) 0) \<and> (\<not> mDccRestriction s1 \<or> is_ok (CaService_genCamDcc env s1))"
    using Cons.prems(4) genCamDcc_frame [OF step(4)] step(3) by auto
  ultimately obtain s' txs where run: "ca_run es s1 = Inr (s', txs)" "successively (\<lambda>a b. b < a + M + p) (mLastCamTimestamp s1 # map fst txs)"
    "last (t # map fst es) < last (mLastCamTimestamp s1 # map fst txs) + M" using Cons.IH [OF step(2), of t] by blast
  then show ?case using step(1,5) Cons.prems(2) \<open>t \<le> t0 + p\<close> e by auto
qed simp

section \<open>Properties\<close>

text \<open>An environment for evaluation: a standing vehicle at the time base.\<close>

definition example_env :: CaEnvironment where
  "example_env =
     \<lparr>env_timer = \<lparr>mTimebase = 0\<rparr>, env_vdp = (VehicleDataProvider_new 7)\<lparr>mLastUpdate := 0\<rparr>,
      env_interfaces = [\<lparr>ni_ptr = 1, ni_channel = CCH, ni_router = 1, ni_dcc = 1\<rparr>], env_trc = (\<lambda>_. Some 200000)\<rparr>"

definition example_parameters :: CaParameters where
  "example_parameters =
     \<lparr>par_minInterval = simtime_ms 100, par_maxInterval = simtime_ms 1000, par_headingDelta = 4,
      par_positionDelta = 4, par_speedDelta = 0.5, par_withDccRestriction = True, par_fixedRate = False\<rparr>"

definition example_ca :: CaService where
  "example_ca = CaService_initialize (\<lambda>_. CCH) example_parameters 0 CaService_new"

lemma example_ca_ok: "ca_ok example_ca"
  by (simp add: ca_ok_def example_ca_def CaService_initialize_def CaService_new_def example_parameters_def simtime_ms_def)

lemma example_env_creates: "is_ok (createCooperativeAwarenessMessage (env_vdp example_env) 0)"
  by (simp add: createCam_ok_iff constraint_defs example_env_def VehicleDataProvider_new_def std_round_def)

lemma example_dcc: "is_ok (CaService_genCamDcc example_env example_ca)"
  by (simp add: CaService_genCamDcc_def example_env_def example_ca_def CaService_initialize_def CaService_new_def Let_def)



text \<open>C8: a service initialised with a minimum interval not above the maximum interval never falls silent, whatever the vehicle does: if messages
  can be created and the congestion control is reachable (where it is used) at every trigger, then no trigger fails, and with triggers at
  most \<open>p\<close> apart the time from one message to the next, and from the initialisation to the first, is less than M + p,
  where M is the configured maximum interval, or one second if that is longer (the current interval starts with the constructor's
  second, whatever is configured); at the last trigger, less than M has passed since the last message.\<close>

theorem cam_eventually_sent:
  assumes "s = CaService_initialize policy par start CaService_new" and "par_minInterval par \<le> par_maxInterval par"
    and "M = max (simtime_ms 1000) (par_maxInterval par)" and "successively (\<lambda>a b. b \<le> a + p) (start # map fst es)"
    and "\<forall>(t, env) \<in> set es. is_ok (createCooperativeAwarenessMessage (env_vdp env) 0)
      \<and> (\<not> par_withDccRestriction par \<or> is_ok (CaService_genCamDcc env s))"
  shows "\<exists>s' txs. ca_run es s = Inr (s', txs) \<and> successively (\<lambda>a b. b < a + M + p) (start # map fst txs)
    \<and> last (start # map fst es) < last (start # map fst txs) + M"
proof -
  have s: "ca_within M s" "mLastCamTimestamp s = start" "mDccRestriction s = par_withDccRestriction par"
    using assms(1-3) by (simp_all add: ca_within_def CaService_initialize_def CaService_new_def)
  have M: "0 < M" using assms(3) by (simp add: simtime_ms_def)
  from ca_run_live [OF s(1) M _ assms(4)] assms(5) s(2,3) M show ?thesis by simp
qed

theorem cam_eventually_sent_witness:
  "\<exists>s' txs. ca_run [(simtime_ms 600, example_env), (simtime_ms 1200, example_env)] example_ca = Inr (s', txs) \<and> txs \<noteq> []"
proof -
  let ?es = "[(simtime_ms 600, example_env), (simtime_ms 1200, example_env)]"
  have "successively (\<lambda>a b. b \<le> a + simtime_ms 600) (0 # map fst ?es)" by (simp add: simtime_ms_def)
  moreover have "\<forall>(t, env) \<in> set ?es. is_ok (createCooperativeAwarenessMessage (env_vdp env) 0)
      \<and> (\<not> par_withDccRestriction example_parameters \<or> is_ok (CaService_genCamDcc env example_ca))"
    using example_env_creates example_dcc by simp
  ultimately have "\<exists>s' txs. ca_run ?es example_ca = Inr (s', txs) \<and> successively (\<lambda>a b. b < a + simtime_ms 1000 + simtime_ms 600) (0 # map fst txs)
      \<and> last (0 # map fst ?es) < last (0 # map fst txs) + simtime_ms 1000"
    by (intro cam_eventually_sent [where par = example_parameters and policy = "\<lambda>_. CCH"])
      (simp_all add: example_ca_def example_parameters_def simtime_ms_def)
  then show ?thesis by (fastforce simp: simtime_ms_def)
qed

text \<open>The constructor's second is not replaced by a smaller configured maximum interval: until one second after the initialisation a calm vehicle sends
  nothing, even if the maximum interval is over.\<close>

theorem initial_interval_unconfigured:
  assumes "s = CaService_initialize policy par start CaService_new" and "\<not> par_fixedRate par" and "now < start + simtime_ms 1000"
    and "\<not> CaService_checkHeadingDelta (env_vdp env) s" and "\<not> CaService_checkPositionDelta (env_vdp env) s"
    and "\<not> CaService_checkSpeedDelta (env_vdp env) s" and "\<not> par_withDccRestriction par \<or> is_ok (CaService_genCamDcc env s)"
  shows "CaService_trigger env now s = Inr (s, [])"
proof -
  have s: "mGenCam s = simtime_ms 1000" "mLastCamTimestamp s = start" "mDccRestriction s = par_withDccRestriction par" "mFixedRate s = par_fixedRate par"
    by (simp_all add: assms(1) CaService_initialize_def CaService_new_def)
  obtain d where "(if mDccRestriction s then CaService_genCamDcc env s else Inr (mGenCamMin s)) = Inr d"
    using assms(7) s(3) by (cases "mDccRestriction s") (auto simp: is_ok_iff)
  then show ?thesis using assms(2-6) s by (simp add: CaService_trigger_def CaService_checkTriggeringConditions_def Let_def)
qed

text \<open>Low frequency containers are at least half a second apart over every run, and the first
  message after initialisation carries one.\<close>

theorem low_frequency_container_spacing:
  assumes "ca_ok s" and "ca_run es s = Inr (s', txs)"
    and "s = CaService_initialize policy par start s0" and "\<forall>e \<in> set es. start \<le> fst e"
  shows "successively (\<lambda>a b. a + simtime_ms 500 \<le> b)
      ((start - simtime_ms 500) # map fst (filter (\<lambda>x. lowFrequencyContainer (tx_cam (snd x)) \<noteq> None) txs))
    \<and> (txs \<noteq> [] \<longrightarrow> lowFrequencyContainer (tx_cam (snd (hd txs))) \<noteq> None)"
proof -
  have low: "mLastLowCamTimestamp s = start - simtime_ms 500"
    by (simp add: assms(3) CaService_initialize_def scLowFrequencyContainerInterval_def)
  have "lowFrequencyContainer (tx_cam (snd (hd txs))) \<noteq> None" if "txs \<noteq> []"
    using assms(1,2,4) low that
  proof (induction es arbitrary: s txs)
    case (Cons e es)
    then obtain s1 tx txs' where step: "CaService_trigger (snd e) (fst e) s = Inr (s1, tx)"
      "ca_run es s1 = Inr (s', txs')" "txs = map (\<lambda>x. (fst e, x)) tx @ txs'"
      by (auto simp only: ca_run_Cons)
    show ?case
    proof (cases "tx = []")
      case True
      then have "s1 = s" using trigger_sent [OF Cons.prems(1) step(1)] by auto
      then show ?thesis using Cons step True by auto
    next
      case False
      then show ?thesis
        using trigger_sent [OF Cons.prems(1) step(1)] Cons.prems step(3)
        by (auto simp: scLowFrequencyContainerInterval_def)
    qed
  qed simp
  then show ?thesis
    using ca_run_low_frequency [OF assms(1,2)] low by (simp add: scLowFrequencyContainerInterval_def)
qed

theorem low_frequency_container_spacing_witness:
  "\<exists>s' txs. ca_run [(simtime_ms 1000, example_env)] example_ca = Inr (s', txs) \<and> txs \<noteq> []
     \<and> lowFrequencyContainer (tx_cam (snd (hd txs))) \<noteq> None"
proof -
  have "mLastCamTimestamp example_ca + mGenCamMax example_ca \<le> simtime_ms 1000"
    by (simp add: example_ca_def CaService_initialize_def example_parameters_def Let_def)
  then obtain s1 t where t: "CaService_trigger example_env (simtime_ms 1000) example_ca = Inr (s1, [t])"
    using trigger_sends [OF example_ca_ok _ example_env_creates example_dcc] by blast
  then have run: "ca_run [(simtime_ms 1000, example_env)] example_ca = Inr (s1, [(simtime_ms 1000, t)])" by simp
  show ?thesis
    using low_frequency_container_spacing [OF example_ca_ok run example_ca_def] run by (auto simp: simtime_ms_def)
qed

lemma round_scaled: "\<bar>of_int (std_round (x * u)) - x * u\<bar> \<le> 1 / 2"
  by (rule std_round_error)

lemma std_round_between: "of_int a \<le> x \<Longrightarrow> x \<le> of_int b \<Longrightarrow> a \<le> std_round x \<and> std_round x \<le> b"
  using std_round_mono [of "of_int a" x] std_round_mono [of x "of_int b"] by simp

lemma heading_decidegree: "0 \<le> h \<Longrightarrow> h < 2 * pi \<Longrightarrow> 0 \<le> h / degree * 10 \<and> h / degree * 10 \<le> 3600"
  by (simp add: degree_def field_simps)

text \<open>A CAM can be created from every state of a vehicle that drives forward at up to 163.83 metres
  per second anywhere on earth, and it carries speed, heading and position rounded to their units.\<close>

theorem createCam_accurate:
  assumes "vdp_ok vdp" and "0 \<le> mSpeed vdp" and "mSpeed vdp \<le> 163.83"
    and "\<bar>mLatitude vdp\<bar> \<le> 90" and "\<bar>mLongitude vdp\<bar> \<le> 180"
  shows "\<exists>cam bvc. createCooperativeAwarenessMessage vdp g = Inr cam
    \<and> cam_stationID cam = mStationId vdp \<and> generationDeltaTime cam = g
    \<and> highFrequencyContainer cam = Some bvc
    \<and> \<bar>of_int (speedValue bvc) - mSpeed vdp * 100\<bar> \<le> 1 / 2
    \<and> \<bar>of_int (headingValue bvc) - mHeading vdp / degree * 10\<bar> \<le> 1 / 2
    \<and> \<bar>of_int (rp_latitude (referencePosition cam)) - mLatitude vdp * 10000000\<bar> \<le> 5
    \<and> \<bar>of_int (rp_longitude (referencePosition cam)) - mLongitude vdp * 10000000\<bar> \<le> 5
    \<and> driveDirection bvc = DriveDirection_forward \<and> headingValue bvc \<noteq> HeadingValue_unavailable"
proof -
  have h: "0 \<le> std_round (mHeading vdp / degree * 10) \<and> std_round (mHeading vdp / degree * 10) \<le> 3600"
    using heading_decidegree [of "mHeading vdp"] assms(1) std_round_between [of 0 "mHeading vdp / degree * 10" 3600]
    by (simp add: vdp_ok_def)
  have sp: "0 \<le> std_round (mSpeed vdp * 100) \<and> std_round (mSpeed vdp * 100) \<le> 16383"
    using assms(2,3) std_round_between [of 0 "mSpeed vdp * 100" 16383] by simp
  have la: "- 90000000 \<le> std_round (mLatitude vdp * 1000000) \<and> std_round (mLatitude vdp * 1000000) \<le> 90000000"
    using assms(4) std_round_between [of "- 90000000" "mLatitude vdp * 1000000" 90000000] by simp
  have lo: "- 180000000 \<le> std_round (mLongitude vdp * 1000000) \<and> std_round (mLongitude vdp * 1000000) \<le> 180000000"
    using assms(5) std_round_between [of "- 180000000" "mLongitude vdp * 1000000" 180000000] by simp
  have "is_ok (createCooperativeAwarenessMessage vdp g)"
    using h sp la lo by (simp add: createCam_ok_iff constraint_defs)
  then obtain cam where cam: "createCooperativeAwarenessMessage vdp g = Inr cam" by (auto simp: is_ok_iff)
  have fields: "cam_stationID cam = mStationId vdp" "generationDeltaTime cam = g"
    "highFrequencyContainer cam = Some (vehicle_container vdp)"
    "rp_latitude (referencePosition cam) = std_round (mLatitude vdp * 1000000) * 10"
    "rp_longitude (referencePosition cam) = std_round (mLongitude vdp * 1000000) * 10"
    using cam by (auto simp: createCooperativeAwarenessMessage_def Let_def split: if_splits)
  have bvc: "speedValue (vehicle_container vdp) = std_round (mSpeed vdp * 100)"
    "headingValue (vehicle_container vdp) = std_round (mHeading vdp / degree * 10)"
    "driveDirection (vehicle_container vdp) = DriveDirection_forward"
    using assms(2) by (simp_all add: vehicle_container_def Let_def)
  have "\<bar>of_int (std_round (y * 1000000) * 10) - y * 10000000\<bar> \<le> 5" for y :: real
    using round_scaled [of y 1000000] by (simp only: abs_le_iff of_int_mult of_int_numeral) linarith
  then show ?thesis
    using cam fields bvc h std_round_error by (simp add: HeadingValue_unavailable_def)
qed

theorem createCam_accurate_witness:
  "\<exists>cam. createCooperativeAwarenessMessage (VehicleDataProvider_new 7) 5 = Inr cam \<and> cam_stationID cam = 7"
  using createCam_accurate [OF vdp_ok_new, of 7 5] by (auto simp: VehicleDataProvider_new_def)

text \<open>A vehicle that moves backwards faster than half a centimetre per second cannot send: the
  speed is encoded with its sign, validation refuses it and the service stops with an error, so the
  drive direction never reports backward motion of that speed.\<close>

theorem createCam_backward_fails:
  assumes "mSpeed vdp < - 0.005"
  shows "createCooperativeAwarenessMessage vdp g = Inl (RuntimeError ''Invalid High Frequency CAM'')"
proof -
  have "std_round (mSpeed vdp * 100) \<noteq> 0 \<and> std_round (mSpeed vdp * 100) \<le> 0"
    using assms std_round_mono [of "mSpeed vdp * 100" 0] round_scaled [of "mSpeed vdp" 100] std_round_int [of 0] by auto
  then have "\<not> is_ok (createCooperativeAwarenessMessage vdp g)" by (simp add: createCam_ok_iff constraint_defs)
  then show ?thesis by (auto simp: createCooperativeAwarenessMessage_def Let_def split: if_splits)
qed

theorem createCam_backward_fails_witness:
  "createCooperativeAwarenessMessage ((VehicleDataProvider_new 7)\<lparr>mSpeed := - 1\<rparr>) 0 =
     Inl (RuntimeError ''Invalid High Frequency CAM'')"
  by (rule createCam_backward_fails) simp

text \<open>The primary channel the policy names for awareness messages never reaches the service: the
  congestion control of the control channel is asked whatever the configuration says.\<close>

theorem primaryChannel_shadowed:
  "mPrimaryChannel (CaService_initialize policy par now CaService_new) = CCH"
  by (simp add: CaService_initialize_def CaService_new_def)

end
