(* ===== verification/DenMemory.thy ===== *)
theory DenMemory
  imports Messages Timers
begin

text \<open>
  \<open>artery/application/den/Memory\<close>: the DENMs a station has received, one per action identifier.  The
  multi-index container is the ordered map of its unique index (by action identifier); the index by
  expiry is the stable sort of its elements.  A range error of a time stamp is an error value.
\<close>

section \<open>Identifiers and cause codes\<close>

datatype CauseCode =
    TrafficCondition | Accident | Roadworks | AdverseWeatherCondition_Adhesion
  | AdverseWeatherCondition_ExtremeWeather | AdverseWeatherCondition_Visibility
  | AdverseWeatherCondition_Precipitation | HazardousLocation_SurfaceCondition
  | HazardousLocation_ObstacleOnTheroad | HazardousLocation_AnimalOnTheRoad
  | HazardousLocation_DangerousCurve | HumanPresenceOnTheRoad | HumanProblem
  | RescueAndRecoveryWorkInProgress | EmergencyVehicleApproaching | DangerousEndOfQueue | SlowVehicle
  | StationaryVehicle | VehicleBreakdown | PostCrash | WrongWayDriving | SignalViolation
  | CollisionRisk | DangerousSituation

fun CauseCode_value :: "CauseCode \<Rightarrow> int" where
  "CauseCode_value TrafficCondition = 1"
| "CauseCode_value Accident = 2"
| "CauseCode_value Roadworks = 3"
| "CauseCode_value AdverseWeatherCondition_Adhesion = 6"
| "CauseCode_value AdverseWeatherCondition_ExtremeWeather = 17"
| "CauseCode_value AdverseWeatherCondition_Visibility = 18"
| "CauseCode_value AdverseWeatherCondition_Precipitation = 19"
| "CauseCode_value HazardousLocation_SurfaceCondition = 9"
| "CauseCode_value HazardousLocation_ObstacleOnTheroad = 10"
| "CauseCode_value HazardousLocation_AnimalOnTheRoad = 11"
| "CauseCode_value HazardousLocation_DangerousCurve = 96"
| "CauseCode_value HumanPresenceOnTheRoad = 12"
| "CauseCode_value HumanProblem = 93"
| "CauseCode_value RescueAndRecoveryWorkInProgress = 15"
| "CauseCode_value EmergencyVehicleApproaching = 95"
| "CauseCode_value DangerousEndOfQueue = 27"
| "CauseCode_value SlowVehicle = 26"
| "CauseCode_value StationaryVehicle = 94"
| "CauseCode_value VehicleBreakdown = 91"
| "CauseCode_value PostCrash = 92"
| "CauseCode_value WrongWayDriving = 14"
| "CauseCode_value SignalViolation = 98"
| "CauseCode_value CollisionRisk = 97"
| "CauseCode_value DangerousSituation = 99"

definition ActionID_less :: "ActionID \<Rightarrow> ActionID \<Rightarrow> bool" where
  "ActionID_less lhs rhs =
     (if station_id lhs = station_id rhs then sequence_number lhs < sequence_number rhs
      else station_id lhs < station_id rhs)"

instantiation ActionID :: linorder
begin

definition less_ActionID :: "ActionID \<Rightarrow> ActionID \<Rightarrow> bool" where
  "less_ActionID = ActionID_less"

definition less_eq_ActionID :: "ActionID \<Rightarrow> ActionID \<Rightarrow> bool" where
  "less_eq_ActionID a b \<longleftrightarrow> ActionID_less a b \<or> a = b"

instance
proof
  fix x y z :: ActionID
  show "x < y \<longleftrightarrow> x \<le> y \<and> \<not> y \<le> x"
    by (cases x; cases y) (auto simp: less_ActionID_def less_eq_ActionID_def ActionID_less_def split: if_splits)
  show "x \<le> x" by (simp add: less_eq_ActionID_def)
  show "x \<le> y \<Longrightarrow> y \<le> z \<Longrightarrow> x \<le> z"
    by (cases x; cases y; cases z) (auto simp: less_eq_ActionID_def ActionID_less_def split: if_splits)
  show "x \<le> y \<Longrightarrow> y \<le> x \<Longrightarrow> x = y"
    by (cases x; cases y) (auto simp: less_eq_ActionID_def ActionID_less_def split: if_splits)
  show "x \<le> y \<or> y \<le> x"
    by (cases x; cases y) (auto simp: less_eq_ActionID_def ActionID_less_def)
qed

end

section \<open>Receptions\<close>

record Reception =
  rec_timestamp :: simtime
  rec_message :: Denm

definition Reception_new :: "simtime \<Rightarrow> Denm \<Rightarrow> Reception" where
  "Reception_new now denm = \<lparr>rec_timestamp = now, rec_message = denm\<rparr>"

text \<open>\<open>asn_INTEGER2ulong\<close> and \<open>asn_INTEGER2long\<close> on a time stamp.\<close>

definition asn_INTEGER2ulong :: "nat \<Rightarrow> nat option" where
  "asn_INTEGER2ulong n = (if n < 2 ^ 64 then Some n else None)"

definition asn_INTEGER2long :: "nat \<Rightarrow> int option" where
  "asn_INTEGER2long n = (if n < 2 ^ 63 then Some (int n) else None)"

definition INTEGER_less :: "nat \<Rightarrow> nat \<Rightarrow> bool result" where
  "INTEGER_less lhs rhs =
     (case asn_INTEGER2long lhs of
        None \<Rightarrow> Inl (RangeError ''lhs value cannot be converted to long'')
      | Some lhs_value \<Rightarrow>
         (case asn_INTEGER2long rhs of
            None \<Rightarrow> Inl (RangeError ''rhs value cannot be converted to long'')
          | Some rhs_value \<Rightarrow> Inr (lhs_value < rhs_value)))"

definition Reception_expiry :: "Reception \<Rightarrow> time_point result" where
  "Reception_expiry r =
     (case asn_INTEGER2ulong (detectionTime (rec_message r)) of
        None \<Rightarrow> Inl (RangeError ''DENM detectionTime cannot be converted to unsigned long'')
      | Some raw \<Rightarrow>
         (let detection = int raw * 1000;
              validity = (case validityDuration (rec_message r) of
                            None \<Rightarrow> 600 * 1000000
                          | Some v \<Rightarrow> cdiv v 1 * 1000000)
          in Inr (detection + validity)))"

definition Reception_cause_code :: "Reception \<Rightarrow> int" where
  "Reception_cause_code r = (case situation (rec_message r) of None \<Rightarrow> 0 | Some sc \<Rightarrow> causeCode sc)"

type_synonym Memory = "(ActionID, Reception) omap"

text \<open>Inserting an element computes its keys, the expiry among them.\<close>

definition Memory_insert :: "Reception \<Rightarrow> Memory \<Rightarrow> Memory result" where
  "Memory_insert r m = rmap (\<lambda>_. omap_put (actionID (rec_message r)) r m) (Reception_expiry r)"

definition Memory_received :: "simtime \<Rightarrow> Denm \<Rightarrow> Memory \<Rightarrow> Memory result" where
  "Memory_received now denm m =
     (case map_of m (actionID denm) of
        None \<Rightarrow> Memory_insert (Reception_new now denm) m
      | Some found \<Rightarrow>
          rbind (INTEGER_less (referenceTime (rec_message found)) (referenceTime denm)) (\<lambda>less.
            if less then Memory_insert (Reception_new now denm) m else Inr m))"

definition expiry_of :: "Reception \<Rightarrow> time_point" where
  "expiry_of r = (case Reception_expiry r of Inl _ \<Rightarrow> 0 | Inr t \<Rightarrow> t)"

definition Memory_drop :: "Timer \<Rightarrow> simtime \<Rightarrow> Memory \<Rightarrow> Memory" where
  "Memory_drop timer now m =
     (let idx_expiry = sort_key expiry_of (map snd m);
          first_not_less =
            lower_bound (\<lambda>r. expiry_of r < Timer_getCurrentTime timer now) idx_expiry 0 (length idx_expiry);
          erased = set (map (\<lambda>r. actionID (rec_message r)) (take first_not_less idx_expiry))
      in filter (\<lambda>e. fst e \<notin> erased) m)"

definition Memory_count :: "CauseCode \<Rightarrow> Memory \<Rightarrow> nat" where
  "Memory_count cause m = length (filter (\<lambda>e. Reception_cause_code (snd e) = CauseCode_value cause) m)"

text \<open>\<open>operator&\<close> of \<open>DenmObject\<close>: the message has this cause.\<close>

definition DenmObject_has_cause :: "Denm \<Rightarrow> CauseCode \<Rightarrow> bool" where
  "DenmObject_has_cause denm cause =
     (case situation denm of None \<Rightarrow> False | Some sc \<Rightarrow> causeCode sc = CauseCode_value cause)"

definition memory_ok :: "Memory \<Rightarrow> bool" where
  "memory_ok m \<longleftrightarrow> omap_ok m
     \<and> (\<forall>(aid, r) \<in> set m. actionID (rec_message r) = aid \<and> is_ok (Reception_expiry r))"

fun receive_all :: "(simtime \<times> Denm) list \<Rightarrow> Memory \<Rightarrow> Memory result" where
  "receive_all [] m = Inr m"
| "receive_all (x # xs) m = rbind (Memory_received (fst x) (snd x) m) (receive_all xs)"

section \<open>The invariant\<close>

lemma memory_ok_insert:
  assumes "memory_ok m" and "Memory_insert r m = Inr m'"
  shows "memory_ok m' \<and> map_of m' = (map_of m)(actionID (rec_message r) \<mapsto> r)"
proof -
  have ok: "omap_ok m" using assms(1) by (simp add: memory_ok_def)
  obtain t where t: "Reception_expiry r = Inr t" "m' = omap_put (actionID (rec_message r)) r m"
    using assms(2) by (auto simp: Memory_insert_def elim!: rmap.elims)
  then show ?thesis
    using assms(1) ok by (auto simp: memory_ok_def set_omap_put map_of_omap_put intro: omap_ok_put)
qed

lemma memory_ok_received [inv_intros]:
  assumes "memory_ok m" and "Memory_received now denm m = Inr m'"
  shows "memory_ok m'"
  using assms memory_ok_insert [OF assms(1)]
  by (auto simp: Memory_received_def rbind_ok_iff split: option.splits if_splits)

lemma memory_ok_filter: "memory_ok m \<Longrightarrow> memory_ok (filter P m)"
  by (auto simp: memory_ok_def intro: omap_ok_filter)

lemma memory_ok_drop [inv_intros]: "memory_ok m \<Longrightarrow> memory_ok (Memory_drop timer now m)"
  by (simp add: Memory_drop_def Let_def memory_ok_filter)

lemma sorted_key_prefix:
  "sorted (map f xs) \<Longrightarrow> i < j \<Longrightarrow> j < length xs \<Longrightarrow> f (xs ! j) < (t::'a::linorder) \<Longrightarrow> f (xs ! i) < t"
  by (metis length_map less_imp_le_nat nth_map order_le_less_trans sorted_iff_nth_mono)

lemma takeWhile_sorted_below:
  "sorted (map f xs) \<Longrightarrow> set (takeWhile (\<lambda>x. f x < t) xs) = {x \<in> set xs. f x < (t::'a::linorder)}"
  by (induction xs) (auto intro: order_le_less_trans)

lemma erased_by_expiry:
  "set (take (lower_bound (\<lambda>r. expiry_of r < t) (sort_key expiry_of rs) 0 (length (sort_key expiry_of rs)))
          (sort_key expiry_of rs)) = {r \<in> set rs. expiry_of r < t}"
proof -
  let ?s = "sort_key expiry_of rs"
  have srt: "sorted (map expiry_of ?s)" by simp
  have "lower_bound (\<lambda>r. expiry_of r < t) ?s 0 (length ?s) = length (takeWhile (\<lambda>r. expiry_of r < t) ?s)"
    by (rule lower_bound_takeWhile) (rule sorted_key_prefix [OF srt])
  then show ?thesis
    using takeWhile_sorted_below [OF srt, of t] by (simp add: takeWhile_eq_take [symmetric])
qed

lemma Memory_drop_filter:
  assumes "memory_ok m"
  shows "Memory_drop timer now m = filter (\<lambda>e. Timer_getCurrentTime timer now \<le> expiry_of (snd e)) m"
proof -
  let ?t = "Timer_getCurrentTime timer now"
  have erased: "(\<lambda>r. actionID (rec_message r)) ` {r \<in> snd ` set m. expiry_of r < ?t} = fst ` {e \<in> set m. expiry_of (snd e) < ?t}"
    using assms by (force simp: memory_ok_def)
  have inj: "inj_on fst (set m)" using assms omap_ok_distinct by (auto simp: memory_ok_def distinct_map)
  have uniq: "e' = e" if "e' \<in> set m" "e \<in> set m" "fst e' = fst e" for e e'
    using inj that by (auto dest: inj_onD)
  have "fst e \<notin> fst ` {e \<in> set m. expiry_of (snd e) < ?t} \<longleftrightarrow> ?t \<le> expiry_of (snd e)" if "e \<in> set m" for e
  proof -
    have "fst e \<in> fst ` {e \<in> set m. expiry_of (snd e) < ?t} \<longleftrightarrow> expiry_of (snd e) < ?t"
    proof
      assume "fst e \<in> fst ` {e \<in> set m. expiry_of (snd e) < ?t}"
      then obtain e' where "e' \<in> set m" "expiry_of (snd e') < ?t" "fst e' = fst e" by force
      moreover from this have "e' = e" using uniq [OF _ that] by blast
      ultimately show "expiry_of (snd e) < ?t" by simp
    qed (use that in blast)
    then show ?thesis by (simp add: not_less)
  qed
  then have "filter (\<lambda>e. fst e \<notin> fst ` {e \<in> set m. expiry_of (snd e) < ?t}) m =
      filter (\<lambda>e. ?t \<le> expiry_of (snd e)) m" by (rule filter_cong [OF refl])
  then show ?thesis
    unfolding Memory_drop_def Let_def set_map erased_by_expiry by (simp only: erased)
qed

section \<open>Sequences of receptions\<close>

text \<open>
  What the memory holds for one action after a sequence of receptions: the first message with the
  latest reference time.
\<close>

fun latest :: "Denm option \<Rightarrow> Denm list \<Rightarrow> Denm option" where
  "latest cur [] = cur"
| "latest cur (d # ds) =
     (case cur of None \<Rightarrow> latest (Some d) ds
      | Some c \<Rightarrow> latest (Some (if referenceTime c < referenceTime d then d else c)) ds)"

definition timely :: "Denm \<Rightarrow> bool" where
  "timely d \<longleftrightarrow> referenceTime d < 2 ^ 63 \<and> detectionTime d < 2 ^ 64"

lemma expiry_ok: "detectionTime (rec_message r) < 2 ^ 64 \<Longrightarrow> is_ok (Reception_expiry r)"
  by (simp add: Reception_expiry_def asn_INTEGER2ulong_def Let_def)

lemma Memory_insert_ok: "timely (rec_message r) \<Longrightarrow>
    Memory_insert r m = Inr (omap_put (actionID (rec_message r)) r m)"
  using expiry_ok [of r] by (auto simp: Memory_insert_def timely_def is_ok_iff)

definition stored :: "Memory \<Rightarrow> ActionID \<Rightarrow> Denm option" where
  "stored m aid = map_option rec_message (map_of m aid)"

definition stored_timely :: "Memory \<Rightarrow> bool" where
  "stored_timely m \<longleftrightarrow> memory_ok m \<and> (\<forall>r \<in> snd ` set m. timely (rec_message r))"

lemma received_step:
  assumes "stored_timely m" and "timely d"
  shows "\<exists>m'. Memory_received now d m = Inr m' \<and> stored_timely m'
    \<and> stored m' = (\<lambda>aid. if aid = actionID d then latest (stored m aid) [d] else stored m aid)"
proof -
  let ?r = "Reception_new now d"
  have r: "rec_message ?r = d" by (simp add: Reception_new_def)
  have ok: "memory_ok m" "omap_ok m" using assms(1) by (auto simp: stored_timely_def memory_ok_def)
  have put: "Memory_insert ?r m = Inr (omap_put (actionID d) ?r m)"
    using Memory_insert_ok [of ?r m] assms(2) by (simp add: r)
  have put_timely: "stored_timely (omap_put (actionID d) ?r m)"
    using memory_ok_insert [OF ok(1) put] assms r ok(2) by (auto simp: stored_timely_def set_omap_put)
  have put_stored: "stored (omap_put (actionID d) ?r m) = (stored m)(actionID d \<mapsto> d)"
    using ok(2) by (auto simp: stored_def map_of_omap_put fun_eq_iff r)
  show ?thesis
  proof (cases "map_of m (actionID d)")
    case None
    then show ?thesis
      using put put_timely put_stored by (auto simp: Memory_received_def stored_def fun_eq_iff)
  next
    case (Some c)
    have "timely (rec_message c)"
      using assms(1) map_of_SomeD [OF Some] by (auto simp: stored_timely_def)
    then have "INTEGER_less (referenceTime (rec_message c)) (referenceTime d) =
        Inr (referenceTime (rec_message c) < referenceTime d)"
      using assms(2) by (simp add: INTEGER_less_def asn_INTEGER2long_def timely_def)
    then show ?thesis
      using Some put put_timely put_stored assms(1)
      by (auto simp: Memory_received_def stored_def fun_eq_iff)
  qed
qed

lemma receive_all_latest:
  assumes "stored_timely m" and "\<forall>x \<in> set xs. timely (snd x)"
  shows "\<exists>m'. receive_all xs m = Inr m' \<and> stored_timely m'
    \<and> (\<forall>aid. stored m' aid = latest (stored m aid) (filter (\<lambda>d. actionID d = aid) (map snd xs)))"
  using assms
proof (induction xs arbitrary: m)
  case (Cons x xs)
  then obtain m1 where m1: "Memory_received (fst x) (snd x) m = Inr m1" "stored_timely m1"
    "stored m1 = (\<lambda>aid. if aid = actionID (snd x) then latest (stored m aid) [snd x] else stored m aid)"
    using received_step [of m "snd x" "fst x"] by auto
  obtain m2 where m2: "receive_all xs m1 = Inr m2" "stored_timely m2"
    "\<forall>aid. stored m2 aid = latest (stored m1 aid) (filter (\<lambda>d. actionID d = aid) (map snd xs))"
    using Cons.IH [OF m1(2)] Cons.prems(2) by auto
  have "latest (latest cur [d]) ds = latest cur (d # ds)" for cur d ds by (cases cur) simp_all
  with m1 m2 show ?case by auto
qed simp

lemma latest_max:
  "latest cur ds = Some d \<Longrightarrow>
    d \<in> set_option cur \<union> set ds \<and> (\<forall>d' \<in> set_option cur \<union> set ds. referenceTime d' \<le> referenceTime d)"
proof (induction ds arbitrary: cur)
  case (Cons a ds)
  show ?case
  proof (cases cur)
    case None
    then show ?thesis using Cons.IH [of "Some a"] Cons.prems by simp
  next
    case (Some c)
    show ?thesis
    proof (cases "referenceTime c < referenceTime a")
      case True
      then show ?thesis using Cons.IH [of "Some a"] Cons.prems Some by auto
    next
      case False
      then show ?thesis using Cons.IH [of "Some c"] Cons.prems Some by auto
    qed
  qed
qed auto

lemma latest_None: "latest cur ds = None \<longleftrightarrow> cur = None \<and> ds = []"
  by (induction ds arbitrary: cur) (auto split: option.splits)

section \<open>Properties\<close>

text \<open>C37: after any sequence of received DENMs (with time stamps in the range of the conversions) the
  memory holds, for each action identifier, one of the messages received for it, and none received
  for it has a later reference time; actions never reported are not stored.\<close>

theorem Memory_keeps_latest:
  assumes "\<forall>x \<in> set xs. timely (snd x)"
  shows "\<exists>m. receive_all xs [] = Inr m \<and> memory_ok m
    \<and> (\<forall>aid. case stored m aid of
          None \<Rightarrow> \<forall>x \<in> set xs. actionID (snd x) \<noteq> aid
        | Some d \<Rightarrow> d \<in> snd ` set xs \<and> actionID d = aid
            \<and> (\<forall>x \<in> set xs. actionID (snd x) = aid \<longrightarrow> referenceTime (snd x) \<le> referenceTime d))"
proof -
  have "stored_timely []" by (simp add: stored_timely_def memory_ok_def)
  from receive_all_latest [OF this assms] obtain m where m: "receive_all xs [] = Inr m" "stored_timely m"
    and st: "\<And>aid. stored m aid = latest None (filter (\<lambda>d. actionID d = aid) (map snd xs))"
    by (auto simp: stored_def)
  have "case stored m aid of
          None \<Rightarrow> \<forall>x \<in> set xs. actionID (snd x) \<noteq> aid
        | Some d \<Rightarrow> d \<in> snd ` set xs \<and> actionID d = aid
            \<and> (\<forall>x \<in> set xs. actionID (snd x) = aid \<longrightarrow> referenceTime (snd x) \<le> referenceTime d)" for aid
  proof (cases "stored m aid")
    case None
    then show ?thesis using st [of aid] by (auto simp: latest_None filter_empty_conv)
  next
    case (Some d)
    then show ?thesis
      using st [of aid] latest_max [of None "filter (\<lambda>d. actionID d = aid) (map snd xs)" d] by auto
  qed
  then show ?thesis using m by (auto simp: stored_timely_def)
qed

definition example_denm :: Denm where
  "example_denm =
     \<lparr>denm_protocolVersion = 1, denm_messageID = 1, denm_stationID = 9, actionID = ActionID 9 1, detectionTime = 1000,
      referenceTime = 1000,
      eventPosition = \<lparr>rp_latitude = 0, rp_longitude = 0, rp_altitudeValue = 800001, rp_altitudeConfidence = 15,
        rp_semiMajorConfidence = 4095, rp_semiMinorConfidence = 4095, rp_semiMajorOrientation = 3601\<rparr>,
      relevanceDistance = None, relevanceTrafficDirection = None, validityDuration = Some 20, denm_stationType = 0,
      situation = Some \<lparr>informationQuality = 1, causeCode = 1, subCauseCode = 0\<rparr>, location = None, alacarte = None\<rparr>"

theorem Memory_keeps_latest_witness:
  "\<exists>m. receive_all [(0, example_denm\<lparr>referenceTime := 2000\<rparr>), (1, example_denm)] [] = Inr m \<and> memory_ok m"
  using Memory_keeps_latest [of "[(0, example_denm\<lparr>referenceTime := 2000\<rparr>), (1, example_denm)]"]
  by (auto simp: timely_def example_denm_def)

text \<open>Dropping removes exactly the messages whose validity has ended: what stays is every message
  with an expiry not before the current time, and counts per cause never grow.\<close>

theorem Memory_drop_correct:
  assumes "memory_ok m"
  shows "memory_ok (Memory_drop timer now m)
    \<and> map_of (Memory_drop timer now m) aid =
        (case map_of m aid of None \<Rightarrow> None
         | Some r \<Rightarrow> if Timer_getCurrentTime timer now \<le> expiry_of r then Some r else None)
    \<and> Memory_count cause (Memory_drop timer now m) \<le> Memory_count cause m"
proof -
  have "omap_ok m" using assms by (simp add: memory_ok_def)
  then have "map_of (Memory_drop timer now m) aid =
        (case map_of m aid of None \<Rightarrow> None
         | Some r \<Rightarrow> if Timer_getCurrentTime timer now \<le> expiry_of r then Some r else None)"
    by (simp add: Memory_drop_filter [OF assms] map_of_omap_filter split: option.split)
  moreover have "Memory_count cause (Memory_drop timer now m) \<le> Memory_count cause m"
    unfolding Memory_count_def Memory_drop_filter [OF assms] by (rule length_filter_filter)
  ultimately show ?thesis using memory_ok_drop [OF assms] by blast
qed

theorem Memory_drop_correct_witness:
  "map_of (Memory_drop \<lparr>mTimebase = 21000001\<rparr> 0 [(ActionID 9 1, Reception_new 0 example_denm)]) (ActionID 9 1) = None"
  using Memory_drop_correct [of "[(ActionID 9 1, Reception_new 0 example_denm)]" "\<lparr>mTimebase = 21000001\<rparr>" 0 "ActionID 9 1"]
  by (simp add: memory_ok_def Reception_new_def example_denm_def expiry_of_def Reception_expiry_def
    asn_INTEGER2ulong_def Timer_getCurrentTime_def Timer_getTimeFor_sim_def in_us_def cdiv_def)

end
