(* ===== verification/SampleBuffers.thy ===== *)
theory SampleBuffers
  imports Artery_Prelude
begin

text \<open>
  \<open>SampleBuffer.h\<close>, \<open>Sampling.h\<close> and \<open>SampleBufferAlgorithm.h\<close>: a circular buffer of time-stamped
  samples, newest first, the samplers that feed it and the algorithms over it.  A sampler and its
  buffer are one record; values are real numbers in the algorithms that compute with them.
\<close>

record 'v Sample =
  smp_value :: 'v
  smp_timestamp :: simtime

record 'v Sampler =
  m_buffer :: "'v Sample list"
  m_capacity :: nat
  m_interval :: simtime
  m_duration :: simtime

text \<open>A default-constructed sampler: empty buffer of capacity zero, zero interval and duration.\<close>

definition Sampler_new :: "'v Sampler" where
  "Sampler_new = \<lparr>m_buffer = [], m_capacity = 0, m_interval = 0, m_duration = 0\<rparr>"

definition SampleBuffer_insert :: "'v \<Rightarrow> simtime \<Rightarrow> 'v Sampler \<Rightarrow> 'v Sampler result" where
  "SampleBuffer_insert v t b =
     (if m_buffer b = [] \<or> smp_timestamp (hd (m_buffer b)) < t
      then Inr (b\<lparr>m_buffer := push_front (m_capacity b) \<lparr>smp_value = v, smp_timestamp = t\<rparr> (m_buffer b)\<rparr>)
      else Inl (LogicError ''chronological order of samples violated''))"

definition SampleBuffer_not_before :: "simtime \<Rightarrow> 'v Sample list \<Rightarrow> 'v Sample list" where
  "SampleBuffer_not_before limit b =
     take (lower_bound (\<lambda>s. smp_timestamp s > limit) b 0 (length b)) b"

definition SampleBuffer_duration :: "'v Sample list \<Rightarrow> simtime" where
  "SampleBuffer_duration r =
     (if length r \<ge> 2 then smp_timestamp (hd r) - smp_timestamp (last r) else 0)"

definition IntervalSampler_setCapacity :: "'v Sampler \<Rightarrow> 'v Sampler" where
  "IntervalSampler_setCapacity s =
     (let samples = (if m_interval s \<noteq> 0 then nat \<lceil>real_of_int (m_duration s) / real_of_int (m_interval s)\<rceil> else 0)
      in s\<lparr>m_capacity := samples, m_buffer := set_capacity samples (m_buffer s)\<rparr>)"

definition IntervalSampler_setDuration :: "simtime \<Rightarrow> 'v Sampler \<Rightarrow> 'v Sampler" where
  "IntervalSampler_setDuration d s = IntervalSampler_setCapacity (s\<lparr>m_duration := max d 0\<rparr>)"

definition IntervalSampler_setInterval :: "simtime \<Rightarrow> 'v Sampler \<Rightarrow> 'v Sampler" where
  "IntervalSampler_setInterval i s =
     (let s = (if m_interval s \<noteq> i then s\<lparr>m_buffer := []\<rparr> else s)
      in IntervalSampler_setCapacity (s\<lparr>m_interval := max i 0\<rparr>))"

definition IntervalSampler_offset :: "simtime \<Rightarrow> 'v Sampler \<Rightarrow> simtime" where
  "IntervalSampler_offset now s =
     (case m_buffer s of [] \<Rightarrow> 0 | x # _ \<Rightarrow> now - (smp_timestamp x + m_interval s))"

definition StrictSampler_feed :: "'v \<Rightarrow> simtime \<Rightarrow> 'v Sampler \<Rightarrow> 'v Sampler result" where
  "StrictSampler_feed v t s =
     (let offset = IntervalSampler_offset t s
      in if offset = 0 then SampleBuffer_insert v t s
         else if offset < 0 then Inl OversamplingError
         else Inl UndersamplingError)"

definition SkipEarlySampler_feed :: "'v \<Rightarrow> simtime \<Rightarrow> 'v Sampler \<Rightarrow> 'v Sampler result" where
  "SkipEarlySampler_feed v t s =
     (if IntervalSampler_offset t s \<ge> 0 then SampleBuffer_insert v t s else Inr s)"

definition sample_duration :: "'v Sample \<Rightarrow> 'v Sample \<Rightarrow> real" where
  "sample_duration from to = simtime_dbl (smp_timestamp to - smp_timestamp from)"

definition differentiate :: "real Sample \<Rightarrow> real Sample \<Rightarrow> real result" where
  "differentiate from to =
     (let d = sample_duration from to
      in if d \<noteq> 0 then Inr ((smp_value to - smp_value from) / d) else Inl AssertionFailed)"

definition average :: "real Sample list \<Rightarrow> real" where
  "average r = (if r \<noteq> [] then foldl (\<lambda>acc s. acc + smp_value s) 0 r / real (length r) else 0)"

text \<open>
  The invariant of a sampler: newest first with strictly decreasing time stamps, consecutive samples
  at least one interval apart, and never more samples than the capacity, which is what the duration
  and the interval ask for.
\<close>

definition spaced :: "simtime \<Rightarrow> 'v Sample list \<Rightarrow> bool" where
  "spaced i b \<longleftrightarrow> (\<forall>k. Suc k < length b \<longrightarrow> smp_timestamp (b ! Suc k) + i \<le> smp_timestamp (b ! k))"

definition sampler_ok :: "'v Sampler \<Rightarrow> bool" where
  "sampler_ok s \<longleftrightarrow> 0 \<le> m_interval s \<and> 0 \<le> m_duration s
     \<and> sorted_wrt (>) (map smp_timestamp (m_buffer s))
     \<and> spaced (m_interval s) (m_buffer s)
     \<and> length (m_buffer s) \<le> m_capacity s
     \<and> m_capacity s = (if m_interval s \<noteq> 0 then nat \<lceil>real_of_int (m_duration s) / real_of_int (m_interval s)\<rceil> else 0)"

fun feed_all :: "('v \<Rightarrow> simtime \<Rightarrow> 'v Sampler \<Rightarrow> 'v Sampler result) \<Rightarrow> ('v \<times> simtime) list \<Rightarrow>
    'v Sampler \<Rightarrow> 'v Sampler result" where
  "feed_all feed [] s = Inr s"
| "feed_all feed (x # xs) s = rbind (feed (fst x) (snd x) s) (feed_all feed xs)"

section \<open>The buffer\<close>

lemma sorted_take: "sorted_wrt R (map f xs) \<Longrightarrow> sorted_wrt R (map f (take n xs))"
  by (simp add: sorted_wrt_take take_map [symmetric])

lemma spaced_take: "spaced i b \<Longrightarrow> spaced i (take n b)"
  by (simp add: spaced_def)

lemma spaced_Cons:
  "spaced i (x # b) \<longleftrightarrow> (b \<noteq> [] \<longrightarrow> smp_timestamp (hd b) + i \<le> smp_timestamp x) \<and> spaced i b"
proof
  assume sp: "spaced i (x # b)"
  have "smp_timestamp (hd b) + i \<le> smp_timestamp x" if "b \<noteq> []"
    using sp that unfolding spaced_def by (auto simp: hd_conv_nth dest: spec [of _ 0])
  moreover have "spaced i b"
    using sp unfolding spaced_def by (metis Suc_less_eq length_Cons nth_Cons_Suc)
  ultimately show "(b \<noteq> [] \<longrightarrow> smp_timestamp (hd b) + i \<le> smp_timestamp x) \<and> spaced i b" by blast
next
  assume a: "(b \<noteq> [] \<longrightarrow> smp_timestamp (hd b) + i \<le> smp_timestamp x) \<and> spaced i b"
  show "spaced i (x # b)"
    unfolding spaced_def
  proof (intro allI impI)
    fix k assume "Suc k < length (x # b)"
    with a show "smp_timestamp ((x # b) ! Suc k) + i \<le> smp_timestamp ((x # b) ! k)"
      by (cases k) (auto simp: hd_conv_nth spaced_def)
  qed
qed

lemma timestamps_below_hd:
  assumes "sorted_wrt (>) (map smp_timestamp b)" and "b \<noteq> []" and "smp_timestamp (hd b) < t" and "s \<in> set b"
  shows "smp_timestamp s < t"
  using assms by (cases b) auto

lemma spaced_span:
  "spaced i b \<Longrightarrow> b \<noteq> [] \<Longrightarrow>
    smp_timestamp (last b) + int (length b - 1) * i \<le> smp_timestamp (hd b)"
proof (induction b)
  case (Cons x b)
  show ?case
  proof (cases "b = []")
    case False
    with Cons have "smp_timestamp (last b) + int (length b - 1) * i \<le> smp_timestamp (hd b)"
      and "smp_timestamp (hd b) + i \<le> smp_timestamp x" by (auto simp: spaced_Cons)
    moreover have "int (length (x # b) - 1) * i = int (length b - 1) * i + i"
      using False by (cases b) (simp_all add: algebra_simps)
    ultimately show ?thesis using False by simp
  qed simp
qed simp

lemma insert_err: "SampleBuffer_insert v t s = Inl e \<longleftrightarrow>
    m_buffer s \<noteq> [] \<and> t \<le> smp_timestamp (hd (m_buffer s)) \<and> e = LogicError ''chronological order of samples violated''"
  by (auto simp: SampleBuffer_insert_def)

lemma insert_ok [inv_intros]:
  assumes "sampler_ok s" and "m_buffer s \<noteq> [] \<Longrightarrow> smp_timestamp (hd (m_buffer s)) + m_interval s \<le> t"
    and "SampleBuffer_insert v t s = Inr s'"
  shows "sampler_ok s'"
proof -
  let ?x = "\<lparr>smp_value = v, smp_timestamp = t\<rparr>"
  have s': "s' = s\<lparr>m_buffer := push_front (m_capacity s) ?x (m_buffer s)\<rparr>"
    and later: "m_buffer s = [] \<or> smp_timestamp (hd (m_buffer s)) < t"
    using assms(3) by (auto simp: SampleBuffer_insert_def split: if_splits)
  have "sorted_wrt (>) (map smp_timestamp (?x # m_buffer s))"
    using assms(1) later timestamps_below_hd [of "m_buffer s" t]
    by (cases "m_buffer s = []") (auto simp: sampler_ok_def)
  moreover have "spaced (m_interval s) (?x # m_buffer s)"
    using assms(1,2) by (auto simp: spaced_Cons sampler_ok_def)
  ultimately show ?thesis
    using assms(1) by (simp only: sampler_ok_def s' push_front_def) (auto simp: spaced_take intro: sorted_take)
qed

lemma not_before_filter:
  assumes "sorted_wrt (>) (map smp_timestamp b)"
  shows "SampleBuffer_not_before limit b = filter (\<lambda>s. limit < smp_timestamp s) b"
proof -
  let ?p = "\<lambda>s. limit < smp_timestamp s"
  have mono: "?p (b ! i)" if "i < j" "j < length b" "?p (b ! j)" for i j
    using sorted_wrt_nth_less [OF assms that(1)] that by simp
  have "SampleBuffer_not_before limit b = takeWhile ?p b"
    by (simp add: SampleBuffer_not_before_def lower_bound_takeWhile [of b ?p, OF mono] takeWhile_eq_take [symmetric])
  also have "\<dots> = filter ?p b"
    using assms by (induction b) (auto simp: empty_filter_conv)
  finally show ?thesis .
qed

section \<open>Samplers\<close>

lemma sampler_ok_capacity: "sampler_ok s \<Longrightarrow> length (m_buffer s) \<le> m_capacity s"
  unfolding sampler_ok_def by blast

lemma setCapacity_ok:
  assumes "0 \<le> m_interval s" "0 \<le> m_duration s" "sorted_wrt (>) (map smp_timestamp (m_buffer s))"
    "spaced (m_interval s) (m_buffer s)"
  shows "sampler_ok (IntervalSampler_setCapacity s)"
  using assms by (simp add: sampler_ok_def IntervalSampler_setCapacity_def Let_def set_capacity_def spaced_take
    sorted_take)

lemma setDuration_ok [inv_intros]: "sampler_ok s \<Longrightarrow> sampler_ok (IntervalSampler_setDuration d s)"
  unfolding IntervalSampler_setDuration_def by (rule setCapacity_ok) (auto simp: sampler_ok_def)

lemma setInterval_ok [inv_intros]: "sampler_ok s \<Longrightarrow> sampler_ok (IntervalSampler_setInterval i s)"
  unfolding IntervalSampler_setInterval_def Let_def
  by (rule setCapacity_ok) (auto simp: sampler_ok_def spaced_def)

lemma Sampler_new_ok [inv_intros]: "sampler_ok Sampler_new"
  by (simp add: sampler_ok_def Sampler_new_def spaced_def)

text \<open>
  What every sampler promises about feeding: the invariant is kept, and the buffer either stays as
  it is or receives the fed sample at its front.  Sequences of feeds are proved once for both
  samplers.
\<close>

locale sampler_interface =
  fixes feed :: "'v \<Rightarrow> simtime \<Rightarrow> 'v Sampler \<Rightarrow> 'v Sampler result"
  assumes feed_ok: "sampler_ok s \<Longrightarrow> feed v t s = Inr s' \<Longrightarrow> sampler_ok s'"
    and feed_effect: "feed v t s = Inr s' \<Longrightarrow>
      s' = s \<or> s' = s\<lparr>m_buffer := push_front (m_capacity s) \<lparr>smp_value = v, smp_timestamp = t\<rparr> (m_buffer s)\<rparr>"
begin

lemma feed_all_ok: "sampler_ok s \<Longrightarrow> feed_all feed xs s = Inr s' \<Longrightarrow> sampler_ok s'"
proof (induction xs arbitrary: s)
  case (Cons x xs)
  then show ?case by (auto simp: rbind_ok_iff intro: feed_ok)
qed simp

lemma feed_frame:
  "feed v t s = Inr s' \<Longrightarrow> m_interval s' = m_interval s \<and> m_duration s' = m_duration s \<and> m_capacity s' = m_capacity s"
  by (drule feed_effect) auto

lemma feed_all_frame:
  "feed_all feed xs s = Inr s' \<Longrightarrow>
    m_interval s' = m_interval s \<and> m_duration s' = m_duration s \<and> m_capacity s' = m_capacity s"
proof (induction xs arbitrary: s)
  case (Cons x xs)
  then show ?case by (auto simp: rbind_ok_iff dest!: feed_frame)
qed simp

text \<open>Every sample in the buffer was fed (or was there before).\<close>

lemma feed_all_samples:
  "feed_all feed xs s = Inr s' \<Longrightarrow> x \<in> set (m_buffer s') \<Longrightarrow>
    x \<in> set (m_buffer s) \<or> (smp_value x, smp_timestamp x) \<in> set xs"
proof (induction xs arbitrary: s)
  case (Cons y ys)
  then obtain s1 where s1: "feed (fst y) (snd y) s = Inr s1" "feed_all feed ys s1 = Inr s'"
    by (auto simp: rbind_ok_iff)
  from Cons.IH [OF s1(2) Cons.prems(2)] feed_effect [OF s1(1)] show ?case
    by (auto simp: push_front_def dest!: in_set_takeD)
qed simp

end

lemma insert_effect: "SampleBuffer_insert v t s = Inr s' \<Longrightarrow>
    s' = s\<lparr>m_buffer := push_front (m_capacity s) \<lparr>smp_value = v, smp_timestamp = t\<rparr> (m_buffer s)\<rparr>"
  by (auto simp: SampleBuffer_insert_def split: if_splits)

lemma offset_spacing:
  "m_buffer s \<noteq> [] \<Longrightarrow> 0 \<le> IntervalSampler_offset t s \<Longrightarrow> smp_timestamp (hd (m_buffer s)) + m_interval s \<le> t"
  by (auto simp: IntervalSampler_offset_def split: list.splits)

interpretation strict: sampler_interface StrictSampler_feed
proof
  fix s s' :: "'v Sampler" and v t
  assume f: "StrictSampler_feed v t s = Inr s'"
  then have ins: "SampleBuffer_insert v t s = Inr s'" and off: "IntervalSampler_offset t s = 0"
    by (auto simp: StrictSampler_feed_def Let_def split: if_splits)
  show "s' = s \<or> s' = s\<lparr>m_buffer := push_front (m_capacity s) \<lparr>smp_value = v, smp_timestamp = t\<rparr> (m_buffer s)\<rparr>"
    using insert_effect [OF ins] by blast
  show "sampler_ok s'" if "sampler_ok s"
    using that offset_spacing [of s t] off by (auto intro: insert_ok [OF _ _ ins])
qed

interpretation skip_early: sampler_interface SkipEarlySampler_feed
proof
  fix s s' :: "'v Sampler" and v t
  assume f: "SkipEarlySampler_feed v t s = Inr s'"
  then have ins: "s' = s \<or> SampleBuffer_insert v t s = Inr s' \<and> 0 \<le> IntervalSampler_offset t s"
    by (auto simp: SkipEarlySampler_feed_def split: if_splits)
  then show "s' = s \<or> s' = s\<lparr>m_buffer := push_front (m_capacity s) \<lparr>smp_value = v, smp_timestamp = t\<rparr> (m_buffer s)\<rparr>"
    by (blast dest: insert_effect)
  show "sampler_ok s'" if "sampler_ok s"
    using that ins offset_spacing [of s t] by (auto intro: insert_ok)
qed

lemma skip_early_total:
  assumes "sampler_ok s"
  shows "\<exists>s'. SkipEarlySampler_feed v t s = Inr s'"
proof (cases "m_buffer s = [] \<or> IntervalSampler_offset t s < 0")
  case True
  then show ?thesis by (auto simp: SkipEarlySampler_feed_def SampleBuffer_insert_def)
next
  case False
  then have "0 < m_capacity s" using sampler_ok_capacity [OF assms] by (cases "m_buffer s") auto
  then have "0 < m_interval s" using assms by (auto simp: sampler_ok_def split: if_splits)
  then have "smp_timestamp (hd (m_buffer s)) < t"
    using False offset_spacing [of s t] by auto
  then show ?thesis using False by (auto simp: SkipEarlySampler_feed_def SampleBuffer_insert_def)
qed

lemma skip_early_all_total: "sampler_ok s \<Longrightarrow> \<exists>s'. feed_all SkipEarlySampler_feed xs s = Inr s'"
proof (induction xs arbitrary: s)
  case (Cons x xs)
  obtain s1 where s1: "SkipEarlySampler_feed (fst x) (snd x) s = Inr s1"
    using skip_early_total [OF Cons.prems] by blast
  have "sampler_ok s1" by (rule skip_early.feed_ok [OF Cons.prems s1])
  from Cons.IH [OF this] show ?case using s1 by simp
qed simp

section \<open>Properties\<close>

text \<open>A sampler that skips early samples accepts every sequence of inputs without an error, and
  whatever it is fed its buffer stays chronological, at least one interval between neighbours,
  within the capacity that duration and interval determine, and made of fed samples only.\<close>

theorem SkipEarlySampler_run:
  assumes "sampler_ok s" and "m_buffer s = []"
  shows "\<exists>s'. feed_all SkipEarlySampler_feed xs s = Inr s' \<and> sampler_ok s'
    \<and> m_interval s' = m_interval s \<and> m_capacity s' = m_capacity s
    \<and> (\<forall>x \<in> set (m_buffer s'). (smp_value x, smp_timestamp x) \<in> set xs)"
proof -
  obtain s' where s': "feed_all SkipEarlySampler_feed xs s = Inr s'"
    using skip_early_all_total [OF assms(1)] by blast
  with assms(2) show ?thesis
    using skip_early.feed_all_ok [OF assms(1) s'] skip_early.feed_all_frame [OF s']
      skip_early.feed_all_samples [OF s'] by auto
qed

definition example_sampler :: "real Sampler" where
  "example_sampler = IntervalSampler_setInterval (simtime_s 1) (IntervalSampler_setDuration (simtime_s 10) Sampler_new)"

lemma example_sampler_ok: "sampler_ok example_sampler" "m_buffer example_sampler = []"
  by (auto simp: example_sampler_def intro: inv_intros)
    (simp add: Sampler_new_def IntervalSampler_setInterval_def IntervalSampler_setDuration_def
      IntervalSampler_setCapacity_def set_capacity_def Let_def)

theorem SkipEarlySampler_run_witness:
  "\<exists>s'. feed_all SkipEarlySampler_feed [(20, 0), (21, simtime_s 1)] example_sampler = Inr s' \<and> sampler_ok s'"
  using SkipEarlySampler_run [OF example_sampler_ok, of "[(20, 0), (21, simtime_s 1)]"] by blast

text \<open>On a chronological buffer the binary search of \<open>not_before\<close> returns exactly the samples that
  are newer than the limit, in their order.  A sample stamped with the limit itself is left out.\<close>

theorem not_before_correct:
  assumes "sampler_ok s"
  shows "SampleBuffer_not_before limit (m_buffer s) = filter (\<lambda>x. limit < smp_timestamp x) (m_buffer s)"
  using assms by (simp add: sampler_ok_def not_before_filter)

definition example_filled :: "real Sampler" where
  "example_filled = \<lparr>m_buffer = [\<lparr>smp_value = 22, smp_timestamp = simtime_s 4\<rparr>, \<lparr>smp_value = 21, smp_timestamp = simtime_s 2\<rparr>,
     \<lparr>smp_value = 20, smp_timestamp = simtime_s 1\<rparr>], m_capacity = 10, m_interval = simtime_s 1, m_duration = simtime_s 10\<rparr>"

lemma example_filled_ok: "sampler_ok example_filled"
  by (simp add: sampler_ok_def example_filled_def spaced_Cons simtime_s_def) (simp add: spaced_def)

theorem not_before_correct_witness:
  "map smp_value (SampleBuffer_not_before (simtime_s 1) (m_buffer example_filled)) = [22, 21]"
  using not_before_correct [OF example_filled_ok, of "simtime_s 1"]
  by (simp add: example_filled_def simtime_s_def)

text \<open>A buffer that holds \<open>n\<close> samples spans at least \<open>n - 1\<close> intervals; its duration is never
  negative.\<close>

theorem buffer_span:
  assumes "sampler_ok s"
  shows "int (length (m_buffer s) - 1) * m_interval s \<le> SampleBuffer_duration (m_buffer s)
    \<and> 0 \<le> SampleBuffer_duration (m_buffer s)"
proof -
  have i: "0 \<le> m_interval s" and sp: "spaced (m_interval s) (m_buffer s)"
    using assms by (simp_all add: sampler_ok_def)
  show ?thesis
  proof (cases "length (m_buffer s) \<ge> 2")
    case True
    then have ne: "m_buffer s \<noteq> []" by auto
    have "0 \<le> int (length (m_buffer s) - 1) * m_interval s" using i by simp
    with spaced_span [OF sp ne] True show ?thesis by (simp add: SampleBuffer_duration_def)
  next
    case False
    then have "length (m_buffer s) - 1 = 0" by simp
    with False show ?thesis by (simp add: SampleBuffer_duration_def)
  qed
qed

theorem buffer_span_witness: "simtime_s 2 \<le> SampleBuffer_duration (m_buffer example_filled)"
  using buffer_span [OF example_filled_ok] by (simp add: example_filled_def simtime_s_def)

end
