(* ===== verification/DenServices.thy ===== *)
theory DenServices
  imports DenMemory LocalDynMap SampleBuffers
begin

text \<open>
  \<open>artery/application/DenService\<close> and the use cases under \<open>artery/application/den\<close>: detection of the end
  of a traffic jam and of a jam ahead, the exchange of impact reduction containers, and the service
  that owns them.  A use case calls back into its service (\<open>requestActionID\<close>, \<open>sendDenm\<close>), so its
  operations take and return the service; \<open>den_sent\<close> lists the calls of \<open>ItsG5BaseService::request\<close> in
  their order.
\<close>

section \<open>State\<close>

record SuspendableUseCase =
  mDetectionBlockingInterval :: simtime
  mDetectionBlockingSince :: "simtime option"

record TrafficJamEndOfQueue = SuspendableUseCase +
  eoq_mNonUrbanEnvironment :: bool
  eoq_mVelocitySampler :: "real Sampler"

record TrafficJamAhead = SuspendableUseCase +
  ahead_mNonUrbanEnvironment :: bool
  ahead_mUpdateCounter :: "32 word"
  ahead_mVelocitySampler :: "real Sampler"

record ImpactReductionContainerExchange =
  mPendingRequest :: bool

datatype UseCase =
    UseCase_EndOfQueue TrafficJamEndOfQueue
  | UseCase_Ahead TrafficJamAhead
  | UseCase_ImpactReduction ImpactReductionContainerExchange

record DenService =
  mSequenceNumber :: "16 word"
  mMemory :: Memory
  den_sent :: "(Denm \<times> DataRequestB) list"

text \<open>What the service reaches through its facilities, and the geodesic distance of the position library.\<close>

record DenEnvironment =
  den_now :: simtime
  den_timer :: Timer
  den_vdp :: VehicleDataProvider
  den_ldm :: LocalDynamicMap
  den_geodesic :: "real \<times> real \<Rightarrow> real \<times> real \<Rightarrow> real"

definition DenService_new :: DenService where
  "DenService_new = \<lparr>mSequenceNumber = 0, mMemory = [], den_sent = []\<rparr>"

section \<open>Services to use cases\<close>

definition DenService_requestActionID :: "DenEnvironment \<Rightarrow> DenService \<Rightarrow> ActionID \<times> DenService" where
  "DenService_requestActionID env s =
     (let s = s\<lparr>mSequenceNumber := mSequenceNumber s + 1\<rparr>
      in (ActionID (mStationId (den_vdp env)) (mSequenceNumber s), s))"

definition DenService_fillRequest :: "DataRequestB \<Rightarrow> DataRequestB" where
  "DenService_fillRequest request =
     request\<lparr>destination_port := port_DENM, its_aid := aid_DEN, transport_type := GBC,
       communication_profile := ITS_G5\<rparr>"

definition DenService_sendDenm :: "Denm \<Rightarrow> DataRequestB \<Rightarrow> DenService \<Rightarrow> DenService" where
  "DenService_sendDenm message request s =
     s\<lparr>den_sent := den_sent s @ [(message, DenService_fillRequest request)]\<rparr>"

text \<open>
  The optional fields the skeleton does not set are absent; the traces hold one empty path history.
  Time stamps are below \<open>2 ^ 63\<close>, where \<open>asn_long2INTEGER\<close> keeps the value.
\<close>

definition UseCase_createMessageSkeleton :: "DenEnvironment \<Rightarrow> DenService \<Rightarrow> Denm \<times> DenService" where
  "UseCase_createMessageSkeleton env s =
     (let vdp = den_vdp env;
          (action_id, s) = DenService_requestActionID env s;
          taiTime = countTaiMilliseconds (Timer_getTimeFor_sim (den_timer env) (mLastUpdate vdp))
      in (\<lparr>denm_protocolVersion = 1, denm_messageID = 1, denm_stationID = mStationId vdp,
           actionID = action_id, detectionTime = unat taiTime, referenceTime = unat taiTime,
           eventPosition =
             \<lparr>rp_latitude = std_round (mLatitude vdp * 1000000) * 10,
              rp_longitude = std_round (mLongitude vdp * 1000000) * 10,
              rp_altitudeValue = 800001, rp_altitudeConfidence = 15,
              rp_semiMajorConfidence = 4095, rp_semiMinorConfidence = 4095,
              rp_semiMajorOrientation = HeadingValue_unavailable\<rparr>,
           relevanceDistance = None, relevanceTrafficDirection = None, validityDuration = None,
           denm_stationType = 0, situation = None,
           location = Some
             \<lparr>loc_eventSpeedValue = \<bar>std_round (mSpeed vdp * 100)\<bar> * 1, loc_eventSpeedConfidence = 1 * 3,
              loc_eventHeadingValue = std_round (mHeading vdp / degree * 10), loc_eventHeadingConfidence = 10,
              loc_traces = 1\<rparr>,
           alacarte = None\<rparr>, s))"

section \<open>Suspension of a use case\<close>

definition SuspendableUseCase_setDetectionBlockingInterval ::
    "simtime \<Rightarrow> 'a SuspendableUseCase_scheme \<Rightarrow> 'a SuspendableUseCase_scheme" where
  "SuspendableUseCase_setDetectionBlockingInterval block u = u\<lparr>mDetectionBlockingInterval := max 0 block\<rparr>"

definition SuspendableUseCase_initialize ::
    "simtime \<Rightarrow> int \<Rightarrow> 'a SuspendableUseCase_scheme \<Rightarrow> 'a SuspendableUseCase_scheme" where
  "SuspendableUseCase_initialize par_detectionBlockingInterval stage u =
     (if stage = 0 then SuspendableUseCase_setDetectionBlockingInterval par_detectionBlockingInterval u else u)"

definition SuspendableUseCase_isDetectionBlocked ::
    "simtime \<Rightarrow> 'a SuspendableUseCase_scheme \<Rightarrow> bool \<times> 'a SuspendableUseCase_scheme" where
  "SuspendableUseCase_isDetectionBlocked now u =
     (case mDetectionBlockingSince u of
        Some since \<Rightarrow>
          (if since + mDetectionBlockingInterval u < now then (False, u\<lparr>mDetectionBlockingSince := None\<rparr>)
           else (True, u))
      | None \<Rightarrow> (False, u))"

definition SuspendableUseCase_blockDetection ::
    "simtime \<Rightarrow> 'a SuspendableUseCase_scheme \<Rightarrow> 'a SuspendableUseCase_scheme" where
  "SuspendableUseCase_blockDetection now u = u\<lparr>mDetectionBlockingSince := Some now\<rparr>"

section \<open>End of queue\<close>

definition kmh :: "real \<Rightarrow> real" where
  "kmh v = v * (1000 / 3600)"

definition TrafficJamEndOfQueue_new :: TrafficJamEndOfQueue where
  "TrafficJamEndOfQueue_new =
     \<lparr>mDetectionBlockingInterval = 0, mDetectionBlockingSince = None, eoq_mNonUrbanEnvironment = False,
      eoq_mVelocitySampler = Sampler_new\<rparr>"

record UseCaseParameters =
  par_nonUrbanEnvironment :: bool
  par_sampleDuration :: simtime
  par_sampleInterval :: simtime
  par_detectionBlockingInterval :: simtime

definition TrafficJamEndOfQueue_initialize ::
    "UseCaseParameters \<Rightarrow> int \<Rightarrow> TrafficJamEndOfQueue \<Rightarrow> TrafficJamEndOfQueue" where
  "TrafficJamEndOfQueue_initialize par stage u =
     (if stage = 0
      then u\<lparr>eoq_mNonUrbanEnvironment := par_nonUrbanEnvironment par,
             eoq_mVelocitySampler := IntervalSampler_setInterval (par_sampleInterval par)
               (IntervalSampler_setDuration (par_sampleDuration par) (eoq_mVelocitySampler u))\<rparr>
      else u)"

definition TrafficJamEndOfQueue_checkPreconditions :: "TrafficJamEndOfQueue \<Rightarrow> bool" where
  "TrafficJamEndOfQueue_checkPreconditions u = eoq_mNonUrbanEnvironment u"

definition TrafficJamEndOfQueue_checkEgoDeceleration :: "TrafficJamEndOfQueue \<Rightarrow> bool result" where
  "TrafficJamEndOfQueue_checkEgoDeceleration u =
     (let velocitySamples = m_buffer (eoq_mVelocitySampler u)
      in if velocitySamples \<noteq> [] \<and> smp_value (hd velocitySamples) \<le> kmh 30 then
           (case find (\<lambda>s. smp_value s \<ge> kmh 80) (tl velocitySamples) of
              Some initialVelocity \<Rightarrow>
                if sample_duration initialVelocity (hd velocitySamples) < 10
                then rmap (\<lambda>a. a < - 3.5) (differentiate initialVelocity (hd velocitySamples))
                else Inl AssertionFailed
            | None \<Rightarrow> Inr False)
         else Inr False)"

definition TrafficJamEndOfQueue_checkEndOfQueueReceived :: "Memory \<Rightarrow> bool" where
  "TrafficJamEndOfQueue_checkEndOfQueueReceived m \<longleftrightarrow> Memory_count DangerousEndOfQueue m \<ge> 1"

definition TrafficJamEndOfQueue_checkJamAheadReceived :: "Memory \<Rightarrow> bool" where
  "TrafficJamEndOfQueue_checkJamAheadReceived m \<longleftrightarrow> Memory_count TrafficCondition m \<ge> 5"

definition TrafficJamEndOfQueue_checkConditions :: "Memory \<Rightarrow> TrafficJamEndOfQueue \<Rightarrow> bool result" where
  "TrafficJamEndOfQueue_checkConditions m u =
     rmap (\<lambda>tc0. tc0 \<and> (TrafficJamEndOfQueue_checkEndOfQueueReceived m
                        \<or> TrafficJamEndOfQueue_checkJamAheadReceived m))
       (TrafficJamEndOfQueue_checkEgoDeceleration u)"

definition TrafficJamEndOfQueue_createMessage :: "DenEnvironment \<Rightarrow> DenService \<Rightarrow> Denm \<times> DenService" where
  "TrafficJamEndOfQueue_createMessage env s =
     (let (msg, s) = UseCase_createMessageSkeleton env s
      in (msg\<lparr>relevanceDistance := Some 4, relevanceTrafficDirection := Some 1, validityDuration := Some 20,
              denm_stationType := 0,
              situation := Some \<lparr>informationQuality = 1, causeCode = 27, subCauseCode = 0\<rparr>\<rparr>, s))"

definition TrafficJamEndOfQueue_createRequest :: "DenEnvironment \<Rightarrow> DataRequestB" where
  "TrafficJamEndOfQueue_createRequest env =
     DataRequestB_new\<lparr>tc_id := 1, repetition := Some \<lparr>rep_interval = 0.5, rep_maximum = 20\<rparr>,
       destination := Some \<lparr>area_radius = 1000, area_latitude = mLatitude (den_vdp env),
         area_longitude = mLongitude (den_vdp env)\<rparr>\<rparr>"

definition TrafficJamEndOfQueue_check ::
    "DenEnvironment \<Rightarrow> TrafficJamEndOfQueue \<Rightarrow> DenService \<Rightarrow> (TrafficJamEndOfQueue \<times> DenService) result" where
  "TrafficJamEndOfQueue_check env u s =
     rbind (SkipEarlySampler_feed (mSpeed (den_vdp env)) (mLastUpdate (den_vdp env)) (eoq_mVelocitySampler u)) (\<lambda>sampler.
       let u = u\<lparr>eoq_mVelocitySampler := sampler\<rparr>;
           (blocked, u) = SuspendableUseCase_isDetectionBlocked (den_now env) u
       in if \<not> blocked \<and> TrafficJamEndOfQueue_checkPreconditions u then
            rbind (TrafficJamEndOfQueue_checkConditions (mMemory s) u) (\<lambda>conditions.
              if conditions then
                (let u = SuspendableUseCase_blockDetection (den_now env) u;
                     (message, s) = TrafficJamEndOfQueue_createMessage env s;
                     request = TrafficJamEndOfQueue_createRequest env
                 in Inr (u, DenService_sendDenm message request s))
              else Inr (u, s))
          else Inr (u, s))"

section \<open>Traffic jam ahead\<close>

definition TrafficJamAhead_new :: TrafficJamAhead where
  "TrafficJamAhead_new =
     \<lparr>mDetectionBlockingInterval = 0, mDetectionBlockingSince = None, ahead_mNonUrbanEnvironment = False,
      ahead_mUpdateCounter = 0, ahead_mVelocitySampler = Sampler_new\<rparr>"

definition TrafficJamAhead_initialize :: "UseCaseParameters \<Rightarrow> int \<Rightarrow> TrafficJamAhead \<Rightarrow> TrafficJamAhead" where
  "TrafficJamAhead_initialize par stage u =
     (if stage = 0
      then u\<lparr>ahead_mNonUrbanEnvironment := par_nonUrbanEnvironment par,
             ahead_mVelocitySampler := IntervalSampler_setInterval (par_sampleInterval par)
               (IntervalSampler_setDuration (par_sampleDuration par) (ahead_mVelocitySampler u)),
             ahead_mUpdateCounter := 0\<rparr>
      else u)"

definition TrafficJamAhead_checkPreconditions :: "TrafficJamAhead \<Rightarrow> bool" where
  "TrafficJamAhead_checkPreconditions u = ahead_mNonUrbanEnvironment u"

definition TrafficJamAhead_checkLowAverageEgoVelocity :: "simtime \<Rightarrow> TrafficJamAhead \<Rightarrow> bool" where
  "TrafficJamAhead_checkLowAverageEgoVelocity now u =
     (let speedSamples = SampleBuffer_not_before (now - simtime_s 120) (m_buffer (ahead_mVelocitySampler u))
      in if SampleBuffer_duration speedSamples \<ge> simtime_s 10
         then (let speedAvg = average speedSamples in speedAvg \<le> kmh 30 \<and> speedAvg > kmh 0)
         else False)"

definition TrafficJamAhead_checkStationaryEgo :: "simtime \<Rightarrow> TrafficJamAhead \<Rightarrow> bool" where
  "TrafficJamAhead_checkStationaryEgo now u =
     (let speedSamples = SampleBuffer_not_before (now - simtime_s 30) (m_buffer (ahead_mVelocitySampler u))
      in if SampleBuffer_duration speedSamples \<ge> simtime_s 10 then average speedSamples \<le> kmh 0 else False)"

definition TrafficJamAhead_checkTrafficJamAheadReceived :: "Memory \<Rightarrow> bool" where
  "TrafficJamAhead_checkTrafficJamAheadReceived m \<longleftrightarrow> Memory_count TrafficCondition m \<ge> 1"

definition slowVehicles :: "DenEnvironment \<Rightarrow> Cam \<Rightarrow> bool" where
  "slowVehicles env msg =
     (case highFrequencyContainer msg of
        Some bvc \<Rightarrow>
          if speedValue bvc = 16383 \<or> speedValue bvc > 833 * 1 then False
          else if \<not> similar_heading_value (headingValue bvc) (mHeading (den_vdp env)) (10 * degree) then False
          else if nan_greater (reference_distance (den_geodesic env) (referencePosition msg)
                    (mLatitude (den_vdp env)) (mLongitude (den_vdp env))) 100 then False
          else True
      | None \<Rightarrow> False)"

definition TrafficJamAhead_checkSlowVehiclesAheadByV2X :: "DenEnvironment \<Rightarrow> bool" where
  "TrafficJamAhead_checkSlowVehiclesAheadByV2X env \<longleftrightarrow> LocalDynamicMap_count (slowVehicles env) (den_ldm env) \<ge> 5"

definition TrafficJamAhead_checkConditions :: "DenEnvironment \<Rightarrow> Memory \<Rightarrow> TrafficJamAhead \<Rightarrow> bool" where
  "TrafficJamAhead_checkConditions env m u \<longleftrightarrow>
     TrafficJamAhead_checkLowAverageEgoVelocity (den_now env) u
     \<or> (TrafficJamAhead_checkStationaryEgo (den_now env) u
        \<and> (TrafficJamAhead_checkTrafficJamAheadReceived m \<or> TrafficJamAhead_checkSlowVehiclesAheadByV2X env))"

definition TrafficJamAhead_createMessage :: "DenEnvironment \<Rightarrow> DenService \<Rightarrow> Denm \<times> DenService" where
  "TrafficJamAhead_createMessage env s =
     (let (msg, s) = UseCase_createMessageSkeleton env s
      in (msg\<lparr>relevanceDistance := Some 4, relevanceTrafficDirection := Some 1, validityDuration := Some 60,
              denm_stationType := 0,
              situation := Some \<lparr>informationQuality = 1, causeCode = 1, subCauseCode = 0\<rparr>\<rparr>, s))"

definition TrafficJamAhead_createRequest :: "DenEnvironment \<Rightarrow> DataRequestB" where
  "TrafficJamAhead_createRequest env =
     DataRequestB_new\<lparr>tc_id := 1, repetition := Some \<lparr>rep_interval = 1, rep_maximum = 60\<rparr>,
       destination := Some \<lparr>area_radius = 1000, area_latitude = mLatitude (den_vdp env),
         area_longitude = mLongitude (den_vdp env)\<rparr>\<rparr>"

definition TrafficJamAhead_check ::
    "DenEnvironment \<Rightarrow> TrafficJamAhead \<Rightarrow> DenService \<Rightarrow> (TrafficJamAhead \<times> DenService) result" where
  "TrafficJamAhead_check env u s =
     rbind (SkipEarlySampler_feed (mSpeed (den_vdp env)) (mLastUpdate (den_vdp env)) (ahead_mVelocitySampler u)) (\<lambda>sampler.
       let u = u\<lparr>ahead_mVelocitySampler := sampler\<rparr>;
           (blocked, u) = SuspendableUseCase_isDetectionBlocked (den_now env) u
       in if \<not> blocked \<and> TrafficJamAhead_checkPreconditions u \<and> TrafficJamAhead_checkConditions env (mMemory s) u then
            (let u = SuspendableUseCase_blockDetection (den_now env) u;
                 (message, s) = TrafficJamAhead_createMessage env s;
                 request = TrafficJamAhead_createRequest env
             in Inr (u, DenService_sendDenm message request s))
          else Inr (u, s))"

section \<open>Impact reduction\<close>

text \<open>The bits set in the occupants field, most significant bit first in each byte.\<close>

definition occupants_field :: "8 word list" where
  "occupants_field =
     [0 OR push_bit (7 - 0) 1, 0 OR push_bit (15 - 8) 1 OR push_bit (15 - 14) 1, 0 OR push_bit (23 - 19) 1]"

definition ImpactReductionContainerExchange_createMessage ::
    "RequestResponseIndication \<Rightarrow> DenEnvironment \<Rightarrow> DenService \<Rightarrow> Denm \<times> DenService" where
  "ImpactReductionContainerExchange_createMessage ind env s =
     (let (msg, s) = UseCase_createMessageSkeleton env s
      in (msg\<lparr>relevanceDistance := Some 1, relevanceTrafficDirection := Some 0, validityDuration := Some 2,
              denm_stationType := 0,
              situation := Some \<lparr>informationQuality = 1, causeCode = 97, subCauseCode = 0\<rparr>,
              alacarte := Some \<lparr>impactReduction = Some
                \<lparr>heightLonCarrLeft = 100, heightLonCarrRight = 100, posLonCarrLeft = 127, posLonCarrRight = 127,
                 positionOfPillars = [30], posCentMass = 63, wheelBaseVehicle = 127, turningRadius = 255,
                 posFrontAx = 20, positionOfOccupants = occupants_field, vehicleMass = 1024,
                 requestResponseIndication = ind\<rparr>\<rparr>\<rparr>, s))"

definition ImpactReductionContainerExchange_createRequest :: "DenEnvironment \<Rightarrow> DataRequestB" where
  "ImpactReductionContainerExchange_createRequest env =
     DataRequestB_new\<lparr>tc_id := 0, maximum_hop_limit := Some 1,
       repetition := Some \<lparr>rep_interval = 0.1, rep_maximum = 0.3\<rparr>,
       destination := Some \<lparr>area_radius = 100, area_latitude = mLatitude (den_vdp env),
         area_longitude = mLongitude (den_vdp env)\<rparr>\<rparr>"

definition ImpactReductionContainerExchange_transmitMessage ::
    "RequestResponseIndication \<Rightarrow> DenEnvironment \<Rightarrow> DenService \<Rightarrow> DenService" where
  "ImpactReductionContainerExchange_transmitMessage ind env s =
     (let (denm, s) = ImpactReductionContainerExchange_createMessage ind env s;
          request = ImpactReductionContainerExchange_createRequest env
      in DenService_sendDenm denm request s)"

definition ImpactReductionContainerExchange_check ::
    "DenEnvironment \<Rightarrow> ImpactReductionContainerExchange \<Rightarrow> DenService \<Rightarrow> ImpactReductionContainerExchange \<times> DenService" where
  "ImpactReductionContainerExchange_check env u s =
     (if mPendingRequest u
      then (u\<lparr>mPendingRequest := False\<rparr>, ImpactReductionContainerExchange_transmitMessage Indication_request env s)
      else (u, s))"

definition ImpactReductionContainerExchange_indicate :: "DenEnvironment \<Rightarrow> Denm \<Rightarrow> DenService \<Rightarrow> DenService" where
  "ImpactReductionContainerExchange_indicate env denm s =
     (if DenmObject_has_cause denm CollisionRisk then
        (case Option.bind (alacarte denm) impactReduction of
           Some irc \<Rightarrow>
             if requestResponseIndication irc = Indication_request
             then ImpactReductionContainerExchange_transmitMessage Indication_response env s
             else s
         | None \<Rightarrow> s)
      else s)"

definition ImpactReductionContainerExchange_handleStoryboardTrigger ::
    "string \<Rightarrow> ImpactReductionContainerExchange \<Rightarrow> ImpactReductionContainerExchange" where
  "ImpactReductionContainerExchange_handleStoryboardTrigger cause u =
     (if cause = ''irc'' then u\<lparr>mPendingRequest := True\<rparr> else u)"

section \<open>Dispatch to the use cases and the service\<close>

text \<open>The virtual functions of \<open>UseCase\<close>; both traffic jam cases ignore receptions and storyboard signals.\<close>

fun UseCase_check :: "DenEnvironment \<Rightarrow> UseCase \<Rightarrow> DenService \<Rightarrow> (UseCase \<times> DenService) result" where
  "UseCase_check env (UseCase_EndOfQueue u) s = rmap (apfst UseCase_EndOfQueue) (TrafficJamEndOfQueue_check env u s)"
| "UseCase_check env (UseCase_Ahead u) s = rmap (apfst UseCase_Ahead) (TrafficJamAhead_check env u s)"
| "UseCase_check env (UseCase_ImpactReduction u) s =
     Inr (apfst UseCase_ImpactReduction (ImpactReductionContainerExchange_check env u s))"

fun UseCase_indicate :: "DenEnvironment \<Rightarrow> Denm \<Rightarrow> UseCase \<Rightarrow> DenService \<Rightarrow> DenService" where
  "UseCase_indicate env denm (UseCase_ImpactReduction u) s = ImpactReductionContainerExchange_indicate env denm s"
| "UseCase_indicate env denm u s = s"

fun UseCase_handleStoryboardTrigger :: "string \<Rightarrow> UseCase \<Rightarrow> UseCase" where
  "UseCase_handleStoryboardTrigger cause (UseCase_ImpactReduction u) =
     UseCase_ImpactReduction (ImpactReductionContainerExchange_handleStoryboardTrigger cause u)"
| "UseCase_handleStoryboardTrigger cause u = u"

text \<open>The loop of \<open>trigger\<close> over \<open>mUseCases\<close>.\<close>

fun check_use_cases :: "DenEnvironment \<Rightarrow> UseCase list \<Rightarrow> DenService \<Rightarrow> (UseCase list \<times> DenService) result" where
  "check_use_cases env [] s = Inr ([], s)"
| "check_use_cases env (u # us) s =
     rbind (UseCase_check env u s) (\<lambda>(u', s').
       rmap (\<lambda>(us', s''). (u' # us', s'')) (check_use_cases env us s'))"

definition DenService_trigger :: "DenEnvironment \<Rightarrow> UseCase list \<Rightarrow> DenService \<Rightarrow> (UseCase list \<times> DenService) result" where
  "DenService_trigger env us s =
     check_use_cases env us (s\<lparr>mMemory := Memory_drop (den_timer env) (den_now env) (mMemory s)\<rparr>)"

definition DenService_indicate :: "DenEnvironment \<Rightarrow> Denm option \<Rightarrow> UseCase list \<Rightarrow> DenService \<Rightarrow> DenService result" where
  "DenService_indicate env decoded us s =
     (case decoded of
        Some denm \<Rightarrow>
          if denm_stationID denm \<noteq> mStationId (den_vdp env) then
            rmap (\<lambda>m. fold (UseCase_indicate env denm) us (s\<lparr>mMemory := m\<rparr>))
              (Memory_received (den_now env) denm (mMemory s))
          else Inr s
      | None \<Rightarrow> Inr s)"

definition DenService_receiveSignal :: "string \<Rightarrow> UseCase list \<Rightarrow> UseCase list" where
  "DenService_receiveSignal cause us = map (UseCase_handleStoryboardTrigger cause) us"

section \<open>What a use case does to its service\<close>

text \<open>
  \<open>sends sid s s'\<close>: from \<open>s\<close> to \<open>s'\<close> the service of station \<open>sid\<close> only sent DENMs of its own, each on the
  DENM port with the next sequence number.
\<close>

definition own_denm :: "32 word \<Rightarrow> 16 word \<Rightarrow> Denm \<times> DataRequestB \<Rightarrow> bool" where
  "own_denm sid n x \<longleftrightarrow> actionID (fst x) = ActionID sid n \<and> denm_stationID (fst x) = sid
     \<and> destination_port (snd x) = port_DENM \<and> its_aid (snd x) = aid_DEN \<and> transport_type (snd x) = GBC
     \<and> destination (snd x) \<noteq> None"

fun numbered :: "32 word \<Rightarrow> 16 word \<Rightarrow> (Denm \<times> DataRequestB) list \<Rightarrow> bool" where
  "numbered sid n [] = True"
| "numbered sid n (x # xs) \<longleftrightarrow> own_denm sid (n + 1) x \<and> numbered sid (n + 1) xs"

definition sends :: "32 word \<Rightarrow> DenService \<Rightarrow> DenService \<Rightarrow> bool" where
  "sends sid s s' \<longleftrightarrow> mMemory s' = mMemory s
     \<and> (\<exists>ms. den_sent s' = den_sent s @ ms \<and> numbered sid (mSequenceNumber s) ms
          \<and> mSequenceNumber s' = mSequenceNumber s + of_nat (length ms))"

lemma numbered_append:
  "numbered sid n (xs @ ys) \<longleftrightarrow> numbered sid n xs \<and> numbered sid (n + of_nat (length xs)) ys"
  by (induction xs arbitrary: n) (auto simp: add.assoc add.commute)

lemma numbered_nth:
  "numbered sid n xs \<Longrightarrow> i < length xs \<Longrightarrow> own_denm sid (n + of_nat (Suc i)) (xs ! i)"
proof (induction xs arbitrary: n i)
  case (Cons x xs)
  show ?case
  proof (cases i)
    case 0
    then show ?thesis using Cons.prems by (simp add: add.commute)
  next
    case (Suc j)
    have "own_denm sid ((n + 1) + of_nat (Suc j)) (xs ! j)"
      using Cons.prems Suc by (intro Cons.IH) auto
    then show ?thesis using Suc by (simp add: ac_simps)
  qed
qed simp

lemma sends_refl [inv_intros]: "sends sid s s"
  by (simp add: sends_def)

lemma sends_trans: "sends sid s s1 \<Longrightarrow> sends sid s1 s2 \<Longrightarrow> sends sid s s2"
  unfolding sends_def
proof (elim conjE exE)
  fix ms ns
  assume "mMemory s1 = mMemory s" "mMemory s2 = mMemory s1" "den_sent s1 = den_sent s @ ms"
    "den_sent s2 = den_sent s1 @ ns" "numbered sid (mSequenceNumber s) ms" "numbered sid (mSequenceNumber s1) ns"
    "mSequenceNumber s1 = mSequenceNumber s + of_nat (length ms)"
    "mSequenceNumber s2 = mSequenceNumber s1 + of_nat (length ns)"
  then show "mMemory s2 = mMemory s \<and> (\<exists>ms. den_sent s2 = den_sent s @ ms \<and> numbered sid (mSequenceNumber s) ms
      \<and> mSequenceNumber s2 = mSequenceNumber s + of_nat (length ms))"
    by (auto simp: numbered_append intro!: exI [of _ "ms @ ns"])
qed

lemmas createMessage_defs = TrafficJamEndOfQueue_createMessage_def TrafficJamAhead_createMessage_def
  ImpactReductionContainerExchange_createMessage_def UseCase_createMessageSkeleton_def
  DenService_requestActionID_def

lemmas createRequest_defs = TrafficJamEndOfQueue_createRequest_def TrafficJamAhead_createRequest_def
  ImpactReductionContainerExchange_createRequest_def DataRequestB_new_def DenService_fillRequest_def

lemma sends_one:
  assumes "mMemory s' = mMemory s" and "den_sent s' = den_sent s @ [x]"
    and "mSequenceNumber s' = mSequenceNumber s + 1" and "own_denm sid (mSequenceNumber s + 1) x"
  shows "sends sid s s'"
  using assms by (auto simp: sends_def intro!: exI [of _ "[x]"])

lemma sends_eoq:
  "TrafficJamEndOfQueue_createMessage env s = (msg, s1) \<Longrightarrow>
    sends (mStationId (den_vdp env)) s (DenService_sendDenm msg (TrafficJamEndOfQueue_createRequest env) s1)"
  by (rule sends_one)
    (auto simp: createMessage_defs createRequest_defs Let_def DenService_sendDenm_def own_denm_def)

lemma sends_ahead:
  "TrafficJamAhead_createMessage env s = (msg, s1) \<Longrightarrow>
    sends (mStationId (den_vdp env)) s (DenService_sendDenm msg (TrafficJamAhead_createRequest env) s1)"
  by (rule sends_one)
    (auto simp: createMessage_defs createRequest_defs Let_def DenService_sendDenm_def own_denm_def)

lemma sends_irc [inv_intros]:
  "sends (mStationId (den_vdp env)) s (ImpactReductionContainerExchange_transmitMessage ind env s)"
  by (rule sends_one)
    (auto simp: ImpactReductionContainerExchange_transmitMessage_def createMessage_defs createRequest_defs Let_def
      DenService_sendDenm_def own_denm_def)

section \<open>The contract of a use case\<close>

text \<open>
  What the service relies on when it checks a use case: the use case's own invariant is kept and the
  service only sends new DENMs.  A run of checks, one per middleware step, then numbers the messages
  of the whole run consecutively.
\<close>

fun check_run :: "(DenEnvironment \<Rightarrow> 'u \<Rightarrow> DenService \<Rightarrow> ('u \<times> DenService) result) \<Rightarrow> DenEnvironment list \<Rightarrow>
    'u \<Rightarrow> DenService \<Rightarrow> ('u \<times> DenService) result" where
  "check_run check [] u s = Inr (u, s)"
| "check_run check (env # envs) u s = rbind (check env u s) (\<lambda>(u', s'). check_run check envs u' s')"

locale use_case =
  fixes check :: "DenEnvironment \<Rightarrow> 'u \<Rightarrow> DenService \<Rightarrow> ('u \<times> DenService) result"
    and ok :: "'u \<Rightarrow> bool"
  assumes check_ok: "ok u \<Longrightarrow> check env u s = Inr (u', s') \<Longrightarrow> ok u'"
    and check_sends: "ok u \<Longrightarrow> check env u s = Inr (u', s') \<Longrightarrow> sends (mStationId (den_vdp env)) s s'"
begin

lemma run_ok: "ok u \<Longrightarrow> check_run check envs u s = Inr (u', s') \<Longrightarrow> ok u'"
proof (induction envs arbitrary: u s)
  case (Cons env envs)
  then show ?case by (auto simp: rbind_ok_iff split: prod.splits dest: check_ok)
qed simp

lemma run_sends:
  "ok u \<Longrightarrow> \<forall>env \<in> set envs. mStationId (den_vdp env) = sid \<Longrightarrow> check_run check envs u s = Inr (u', s') \<Longrightarrow>
    sends sid s s'"
proof (induction envs arbitrary: u s)
  case (Cons env envs)
  then obtain u1 s1 where 1: "check env u s = Inr (u1, s1)" "check_run check envs u1 s1 = Inr (u', s')"
    by (auto simp: rbind_ok_iff)
  have "sends sid s s1" using check_sends [OF Cons.prems(1) 1(1)] Cons.prems(2) by simp
  moreover have "sends sid s1 s'" using Cons.IH check_ok [OF Cons.prems(1) 1(1)] Cons.prems(2) 1(2) by simp
  ultimately show ?case by (rule sends_trans)
qed (simp add: sends_refl)

end

definition eoq_ok :: "TrafficJamEndOfQueue \<Rightarrow> bool" where
  "eoq_ok u \<longleftrightarrow> sampler_ok (eoq_mVelocitySampler u)"

definition ahead_ok :: "TrafficJamAhead \<Rightarrow> bool" where
  "ahead_ok u \<longleftrightarrow> sampler_ok (ahead_mVelocitySampler u)"

lemma blocked_frame [frame_simps]:
  "eoq_mVelocitySampler (snd (SuspendableUseCase_isDetectionBlocked now u)) = eoq_mVelocitySampler u"
  "eoq_mNonUrbanEnvironment (snd (SuspendableUseCase_isDetectionBlocked now u)) = eoq_mNonUrbanEnvironment u"
  "ahead_mVelocitySampler (snd (SuspendableUseCase_isDetectionBlocked now v)) = ahead_mVelocitySampler v"
  "ahead_mNonUrbanEnvironment (snd (SuspendableUseCase_isDetectionBlocked now v)) = ahead_mNonUrbanEnvironment v"
  "eoq_mVelocitySampler (SuspendableUseCase_blockDetection now u) = eoq_mVelocitySampler u"
  "ahead_mVelocitySampler (SuspendableUseCase_blockDetection now v) = ahead_mVelocitySampler v"
  by (auto simp: SuspendableUseCase_isDetectionBlocked_def SuspendableUseCase_blockDetection_def split: option.splits)

text \<open>A successful check of the end of queue: what was fed, and the two ways it ends.\<close>

lemma eoq_check_cases:
  assumes "TrafficJamEndOfQueue_check env u s = Inr (u', s')"
  obtains sampler u1 where
    "SkipEarlySampler_feed (mSpeed (den_vdp env)) (mLastUpdate (den_vdp env)) (eoq_mVelocitySampler u) = Inr sampler"
    "u1 = snd (SuspendableUseCase_isDetectionBlocked (den_now env) (u\<lparr>eoq_mVelocitySampler := sampler\<rparr>))"
    "u' = u1 \<and> s' = s \<or>
     u' = SuspendableUseCase_blockDetection (den_now env) u1 \<and>
     s' = DenService_sendDenm (fst (TrafficJamEndOfQueue_createMessage env s)) (TrafficJamEndOfQueue_createRequest env)
       (snd (TrafficJamEndOfQueue_createMessage env s))"
  using assms by (auto simp: TrafficJamEndOfQueue_check_def rbind_ok_iff Let_def case_prod_beta split: if_splits)

lemma ahead_check_cases:
  assumes "TrafficJamAhead_check env u s = Inr (u', s')"
  obtains sampler u1 where
    "SkipEarlySampler_feed (mSpeed (den_vdp env)) (mLastUpdate (den_vdp env)) (ahead_mVelocitySampler u) = Inr sampler"
    "u1 = snd (SuspendableUseCase_isDetectionBlocked (den_now env) (u\<lparr>ahead_mVelocitySampler := sampler\<rparr>))"
    "u' = u1 \<and> s' = s \<or>
     u' = SuspendableUseCase_blockDetection (den_now env) u1 \<and>
     s' = DenService_sendDenm (fst (TrafficJamAhead_createMessage env s)) (TrafficJamAhead_createRequest env)
       (snd (TrafficJamAhead_createMessage env s))"
  using assms by (auto simp: TrafficJamAhead_check_def rbind_ok_iff Let_def case_prod_beta split: if_splits)

interpretation eoq: use_case TrafficJamEndOfQueue_check eoq_ok
proof
  fix u env s u' s'
  assume ok: "eoq_ok u" and check: "TrafficJamEndOfQueue_check env u s = Inr (u', s')"
  from check show "eoq_ok u'"
    by (rule eoq_check_cases) (use ok in \<open>auto simp: eoq_ok_def frame_simps dest: skip_early.feed_ok\<close>)
  from check show "sends (mStationId (den_vdp env)) s s'"
    by (rule eoq_check_cases) (auto intro: sends_refl sends_eoq)
qed

interpretation ahead: use_case TrafficJamAhead_check ahead_ok
proof
  fix u env s u' s'
  assume ok: "ahead_ok u" and check: "TrafficJamAhead_check env u s = Inr (u', s')"
  from check show "ahead_ok u'"
    by (rule ahead_check_cases) (use ok in \<open>auto simp: ahead_ok_def frame_simps dest: skip_early.feed_ok\<close>)
  from check show "sends (mStationId (den_vdp env)) s s'"
    by (rule ahead_check_cases) (auto intro: sends_refl sends_ahead)
qed

interpretation irc: use_case "\<lambda>env u s. Inr (ImpactReductionContainerExchange_check env u s)" "\<lambda>u. True"
  by unfold_locales (auto simp: ImpactReductionContainerExchange_check_def sends_refl sends_irc split: if_splits)

fun use_case_ok :: "UseCase \<Rightarrow> bool" where
  "use_case_ok (UseCase_EndOfQueue u) = eoq_ok u"
| "use_case_ok (UseCase_Ahead u) = ahead_ok u"
| "use_case_ok (UseCase_ImpactReduction u) = True"

lemma irc_check_sends:
  "sends (mStationId (den_vdp env)) s (snd (ImpactReductionContainerExchange_check env u s))"
  using irc.check_sends [OF TrueI, of env u s "fst (ImpactReductionContainerExchange_check env u s)"] by simp

lemma apfst_eq: "apfst f p = (x, y) \<longleftrightarrow> x = f (fst p) \<and> y = snd p"
  by (cases p) auto

interpretation virtual: use_case UseCase_check use_case_ok
proof
  fix u env s u' s'
  assume ok: "use_case_ok u" and check: "UseCase_check env u s = Inr (u', s')"
  show "use_case_ok u'"
    using ok check by (cases u) (auto simp: rmap_ok_iff apfst_eq dest: eoq.check_ok ahead.check_ok)
  show "sends (mStationId (den_vdp env)) s s'"
    using ok check
    by (cases u) (auto simp: rmap_ok_iff apfst_eq irc_check_sends
      dest: eoq.check_sends ahead.check_sends)
qed

lemma check_use_cases_sends:
  "list_all use_case_ok us \<Longrightarrow> check_use_cases env us s = Inr (us', s') \<Longrightarrow>
    list_all use_case_ok us' \<and> length us' = length us \<and> sends (mStationId (den_vdp env)) s s'"
proof (induction us arbitrary: s us' s')
  case (Cons u us)
  then obtain u1 s1 us1 where 1: "UseCase_check env u s = Inr (u1, s1)"
    "check_use_cases env us s1 = Inr (us1, s')" "us' = u1 # us1"
    by (auto simp: rbind_ok_iff rmap_ok_iff)
  then show ?case
    using Cons.IH [OF _ 1(2)] Cons.prems(1) virtual.check_ok [OF _ 1(1)] virtual.check_sends [OF _ 1(1)]
    by (auto intro: sends_trans)
qed (simp add: sends_refl)

section \<open>Properties of the service\<close>

lemma sent_ids_distinct:
  assumes "numbered sid n ms" and "length ms < 2 ^ 16"
  shows "distinct (map (\<lambda>x. actionID (fst x)) ms)"
  unfolding distinct_conv_nth
proof (intro allI impI)
  fix i j assume ij: "i < length (map (\<lambda>x. actionID (fst x)) ms)" "j < length (map (\<lambda>x. actionID (fst x)) ms)" "i \<noteq> j"
  have "(of_nat (Suc i) :: 16 word) \<noteq> of_nat (Suc j)"
  proof
    assume "(of_nat (Suc i) :: 16 word) = of_nat (Suc j)"
    then have "unat (of_nat (Suc i) :: 16 word) = unat (of_nat (Suc j) :: 16 word)" by simp
    then show False using ij assms(2) by (simp add: unat_of_nat del: of_nat_Suc)
  qed
  then show "map (\<lambda>x. actionID (fst x)) ms ! i \<noteq> map (\<lambda>x. actionID (fst x)) ms ! j"
    using numbered_nth [OF assms(1), of i] numbered_nth [OF assms(1), of j] ij
    by (auto simp: own_denm_def simp del: of_nat_Suc)
qed

text \<open>A step of the DEN service that succeeds drops the expired messages and otherwise only appends
  new DENMs to what it has sent: they carry the own station identifier and the next sequence numbers
  in order, go to the DENM port by geo-broadcast to a destination area, and no two of fewer than
  65536 of them share an action identifier.\<close>

theorem DenService_trigger_sends:
  assumes "list_all use_case_ok us" and "DenService_trigger env us s = Inr (us', s')"
  shows "list_all use_case_ok us' \<and> length us' = length us
    \<and> mMemory s' = Memory_drop (den_timer env) (den_now env) (mMemory s)
    \<and> (\<exists>ms. den_sent s' = den_sent s @ ms
         \<and> (\<forall>i < length ms. own_denm (mStationId (den_vdp env)) (mSequenceNumber s + of_nat (Suc i)) (ms ! i))
         \<and> mSequenceNumber s' = mSequenceNumber s + of_nat (length ms)
         \<and> (length ms < 2 ^ 16 \<longrightarrow> distinct (map (\<lambda>x. actionID (fst x)) ms)))"
proof -
  let ?s = "s\<lparr>mMemory := Memory_drop (den_timer env) (den_now env) (mMemory s)\<rparr>"
  have run: "list_all use_case_ok us' \<and> length us' = length us \<and> sends (mStationId (den_vdp env)) ?s s'"
    using assms check_use_cases_sends by (simp add: DenService_trigger_def)
  then obtain ms where ms: "den_sent s' = den_sent s @ ms" "mMemory s' = mMemory ?s"
    "numbered (mStationId (den_vdp env)) (mSequenceNumber s) ms"
    "mSequenceNumber s' = mSequenceNumber s + of_nat (length ms)"
    by (auto simp: sends_def)
  show ?thesis
    using run ms(1,2,4) numbered_nth [OF ms(3)] sent_ids_distinct [OF ms(3)] by (intro conjI exI [of _ ms]) auto
qed

definition den_example_env :: DenEnvironment where
  "den_example_env = \<lparr>den_now = simtime_s 5, den_timer = \<lparr>mTimebase = 0\<rparr>,
     den_vdp = (VehicleDataProvider_new 7)\<lparr>mLastUpdate := simtime_s 5\<rparr>, den_ldm = [], den_geodesic = \<lambda>a b. 0\<rparr>"

definition pending_irc :: UseCase where
  "pending_irc = UseCase_ImpactReduction \<lparr>mPendingRequest = True\<rparr>"

theorem DenService_trigger_sends_witness:
  "\<exists>us s. DenService_trigger den_example_env [pending_irc, pending_irc] DenService_new = Inr (us, s)
     \<and> mSequenceNumber s = 2 \<and> length us = 2"
proof -
  obtain us s where t: "DenService_trigger den_example_env [pending_irc, pending_irc] DenService_new = Inr (us, s)"
    and sent: "length (den_sent s) = 2"
    by (auto simp: DenService_trigger_def pending_irc_def ImpactReductionContainerExchange_check_def apfst_def
      ImpactReductionContainerExchange_transmitMessage_def DenService_sendDenm_def createMessage_defs Let_def
      DenService_new_def)
  have "list_all use_case_ok [pending_irc, pending_irc]" by (simp add: pending_irc_def)
  from DenService_trigger_sends [OF this t] show ?thesis
    using t sent by (auto simp: DenService_new_def)
qed

text \<open>C38: the exchange of impact reduction containers ends: a station whose storyboard asked for it sends
  exactly one request at its next step; another station that receives it answers with exactly one
  response; and the station that receives the response sends nothing.\<close>

theorem impact_reduction_exchange_ends:
  assumes "mStationId (den_vdp envA) \<noteq> mStationId (den_vdp envB)"
    and "u = ImpactReductionContainerExchange_handleStoryboardTrigger ''irc'' \<lparr>mPendingRequest = p\<rparr>"
    and "ImpactReductionContainerExchange_check envA u sA = (u', sA')"
    and "DenService_indicate envB (Some (fst (last (den_sent sA')))) [UseCase_ImpactReduction v] sB = Inr sB'"
    and "DenService_indicate envA (Some (fst (last (den_sent sB')))) [UseCase_ImpactReduction u'] sA' = Inr sA''"
  shows "length (den_sent sA') = Suc (length (den_sent sA)) \<and> \<not> mPendingRequest u'
    \<and> length (den_sent sB') = Suc (length (den_sent sB))
    \<and> denm_stationID (fst (last (den_sent sB'))) = mStationId (den_vdp envB)
    \<and> den_sent sA'' = den_sent sA'"
proof -
  have A: "u' = \<lparr>mPendingRequest = False\<rparr>" "sA' = ImpactReductionContainerExchange_transmitMessage Indication_request envA sA"
    using assms(2,3) by (auto simp: ImpactReductionContainerExchange_check_def
      ImpactReductionContainerExchange_handleStoryboardTrigger_def)
  have B: "length (den_sent sB') = Suc (length (den_sent sB))
      \<and> last (den_sent sB') = last (den_sent (ImpactReductionContainerExchange_transmitMessage Indication_response envB sB))"
    using assms(1,4) A
    by (auto simp: DenService_indicate_def rmap_ok_iff ImpactReductionContainerExchange_indicate_def
      ImpactReductionContainerExchange_transmitMessage_def DenService_sendDenm_def createMessage_defs Let_def
      DenmObject_has_cause_def)
  then have "den_sent sA'' = den_sent sA'"
    using assms(1,5)
    by (auto simp: DenService_indicate_def rmap_ok_iff ImpactReductionContainerExchange_indicate_def
      ImpactReductionContainerExchange_transmitMessage_def DenService_sendDenm_def createMessage_defs Let_def
      DenmObject_has_cause_def)
  with A B show ?thesis
    by (auto simp: ImpactReductionContainerExchange_transmitMessage_def DenService_sendDenm_def createMessage_defs Let_def)
qed

definition other_env :: DenEnvironment where
  "other_env = den_example_env\<lparr>den_vdp := (VehicleDataProvider_new 8)\<lparr>mLastUpdate := simtime_s 5\<rparr>\<rparr>"

lemma transmit_denm:
  "den_sent (ImpactReductionContainerExchange_transmitMessage ind env s) =
     den_sent s @ [(fst (ImpactReductionContainerExchange_createMessage ind env s),
       DenService_fillRequest (ImpactReductionContainerExchange_createRequest env))]"
  "mMemory (ImpactReductionContainerExchange_transmitMessage ind env s) = mMemory s"
  "denm_stationID (fst (ImpactReductionContainerExchange_createMessage ind env s)) = mStationId (den_vdp env)"
  "detectionTime (fst (ImpactReductionContainerExchange_createMessage ind env s)) < 2 ^ 64"
  using unsigned_less [of "countTaiMilliseconds (Timer_getTimeFor_sim (den_timer env) (mLastUpdate (den_vdp env)))"]
  by (auto simp: ImpactReductionContainerExchange_transmitMessage_def DenService_sendDenm_def createMessage_defs Let_def)

lemma received_first:
  "detectionTime d < 2 ^ 64 \<Longrightarrow> \<exists>m. Memory_received now d [] = Inr m"
  by (auto simp: Memory_received_def Memory_insert_def Reception_expiry_def Reception_new_def asn_INTEGER2ulong_def Let_def)

theorem impact_reduction_exchange_ends_witness:
  "\<exists>u' sA' sB' sA''. ImpactReductionContainerExchange_check den_example_env
        (ImpactReductionContainerExchange_handleStoryboardTrigger ''irc'' \<lparr>mPendingRequest = False\<rparr>) DenService_new = (u', sA')
     \<and> DenService_indicate other_env (Some (fst (last (den_sent sA')))) [pending_irc] DenService_new = Inr sB'
     \<and> DenService_indicate den_example_env (Some (fst (last (den_sent sB')))) [UseCase_ImpactReduction u'] sA' = Inr sA''
     \<and> length (den_sent sB') = 1 \<and> length (den_sent sA'') = 1"
proof -
  let ?u = "ImpactReductionContainerExchange_handleStoryboardTrigger ''irc'' \<lparr>mPendingRequest = False\<rparr>"
  let ?sA = "ImpactReductionContainerExchange_transmitMessage Indication_request den_example_env DenService_new"
  let ?d = "fst (ImpactReductionContainerExchange_createMessage Indication_request den_example_env DenService_new)"
  let ?v = "\<lparr>mPendingRequest = True\<rparr>"
  have A: "ImpactReductionContainerExchange_check den_example_env ?u DenService_new = (?u\<lparr>mPendingRequest := False\<rparr>, ?sA)"
    by (simp add: ImpactReductionContainerExchange_check_def ImpactReductionContainerExchange_handleStoryboardTrigger_def)
  have ne: "mStationId (den_vdp den_example_env) \<noteq> mStationId (den_vdp other_env)"
    by (simp add: den_example_env_def other_env_def VehicleDataProvider_new_def)
  have d: "fst (last (den_sent ?sA)) = ?d" by (simp add: transmit_denm)
  obtain m where m: "Memory_received (den_now other_env) ?d [] = Inr m"
    using received_first transmit_denm(4) by blast
  define sB where "sB = ImpactReductionContainerExchange_indicate other_env ?d (DenService_new\<lparr>mMemory := m\<rparr>)"
  have B: "DenService_indicate other_env (Some (fst (last (den_sent ?sA)))) [UseCase_ImpactReduction ?v] DenService_new = Inr sB"
    unfolding d using ne m by (simp add: DenService_indicate_def transmit_denm sB_def) (simp add: DenService_new_def)
  have sB: "sB = ImpactReductionContainerExchange_transmitMessage Indication_response other_env (DenService_new\<lparr>mMemory := m\<rparr>)"
    by (simp add: sB_def ImpactReductionContainerExchange_indicate_def DenmObject_has_cause_def createMessage_defs Let_def)
  obtain m' where m': "Memory_received (den_now den_example_env) (fst (last (den_sent sB))) [] = Inr m'"
    using received_first transmit_denm(4) unfolding sB by (fastforce simp: transmit_denm(1))
  have "mMemory ?sA = []" by (simp add: transmit_denm) (simp add: DenService_new_def)
  then have "\<exists>sA''. DenService_indicate den_example_env (Some (fst (last (den_sent sB))))
      [UseCase_ImpactReduction (?u\<lparr>mPendingRequest := False\<rparr>)] ?sA = Inr sA''"
    using m' by (cases "denm_stationID (fst (last (den_sent sB))) = mStationId (den_vdp den_example_env)")
      (simp_all add: DenService_indicate_def)
  then obtain sA'' where C: "DenService_indicate den_example_env (Some (fst (last (den_sent sB))))
      [UseCase_ImpactReduction (?u\<lparr>mPendingRequest := False\<rparr>)] ?sA = Inr sA''" by blast
  from impact_reduction_exchange_ends [OF ne refl A B C] show ?thesis
    using A B C unfolding pending_irc_def by (intro exI) (auto simp: DenService_new_def)
qed

text \<open>The parameter \<open>detectionBlockingInterval\<close> has no effect on the traffic jam use cases.  Their
  \<open>initialize\<close> calls that of \<open>UseCase\<close> and not that of \<open>SuspendableUseCase\<close>, which reads the parameter, so
  the interval stays zero and a detection is blocked only until the clock moves.\<close>

theorem detection_blocking_ineffective:
  "mDetectionBlockingInterval (TrafficJamEndOfQueue_initialize par 0 TrafficJamEndOfQueue_new) = 0
   \<and> mDetectionBlockingInterval (TrafficJamAhead_initialize par 0 TrafficJamAhead_new) = 0
   \<and> fst (SuspendableUseCase_isDetectionBlocked now (SuspendableUseCase_blockDetection since
        (TrafficJamEndOfQueue_initialize par 0 TrafficJamEndOfQueue_new))) = (now \<le> since)
   \<and> fst (SuspendableUseCase_isDetectionBlocked now (SuspendableUseCase_blockDetection since
        (SuspendableUseCase_initialize block 0 (TrafficJamEndOfQueue_initialize par 0 TrafficJamEndOfQueue_new))))
      = (now \<le> since + max 0 block)"
  by (auto simp: TrafficJamEndOfQueue_initialize_def TrafficJamEndOfQueue_new_def TrafficJamAhead_initialize_def
    TrafficJamAhead_new_def SuspendableUseCase_isDetectionBlocked_def SuspendableUseCase_blockDetection_def
    SuspendableUseCase_initialize_def SuspendableUseCase_setDetectionBlockingInterval_def)

section \<open>Properties of the triggering conditions\<close>

lemma kmh_order: "kmh 30 < kmh 80" "0 < kmh 30" "kmh 0 = 0"
  by (simp_all add: kmh_def)

text \<open>Samples taken exactly at the interval never span the duration the sampler was set up for.\<close>

definition evenly_spaced :: "'v Sampler \<Rightarrow> bool" where
  "evenly_spaced s \<longleftrightarrow> (\<forall>k. Suc k < length (m_buffer s) \<longrightarrow>
     smp_timestamp (m_buffer s ! k) = smp_timestamp (m_buffer s ! Suc k) + m_interval s)"

lemma evenly_spaced_stamp:
  "evenly_spaced s \<Longrightarrow> k < length (m_buffer s) \<Longrightarrow>
    smp_timestamp (hd (m_buffer s)) = smp_timestamp (m_buffer s ! k) + int k * m_interval s"
proof (induction k)
  case 0
  then show ?case by (cases "m_buffer s") auto
next
  case (Suc k)
  then show ?case by (auto simp: evenly_spaced_def algebra_simps)
qed

lemma capacity_span:
  assumes "sampler_ok s" and "0 < m_interval s" and "k < length (m_buffer s)"
  shows "int k * m_interval s < m_duration s"
proof -
  have cap: "length (m_buffer s) \<le> nat \<lceil>real_of_int (m_duration s) / real_of_int (m_interval s)\<rceil>"
    using assms(1,2) by (simp add: sampler_ok_def)
  then have "real_of_int (int k) < real_of_int (m_duration s) / real_of_int (m_interval s)"
    using assms(3) by (simp add: nat_le_iff less_ceiling_iff [symmetric]) linarith
  then have "real_of_int (int k * m_interval s) < real_of_int (m_duration s)"
    using assms(2) by (simp add: pos_less_divide_eq)
  then show ?thesis by (simp only: of_int_less_iff)
qed

lemma find_tl_nth:
  assumes "find P (tl xs) = Some x"
  obtains k where "0 < k" "k < length xs" "xs ! k = x" "P x" "\<forall>j. 0 < j \<and> j < k \<longrightarrow> \<not> P (xs ! j)"
proof -
  obtain i where i: "i < length (tl xs)" "P (tl xs ! i)" "x = tl xs ! i" "\<forall>j < i. \<not> P (tl xs ! j)"
    using assms by (auto simp: find_Some_iff)
  have "\<not> P (xs ! j)" if "0 < j" "j < Suc i" for j
    using i(1,4) that by (cases j) (auto simp: nth_tl)
  then show ?thesis using i by (intro that [of "Suc i"]) (auto simp: nth_tl)
qed

text \<open>With a sampler set up for at most ten seconds and samples taken exactly at its interval, the
  deceleration check never fails its assertion, and it holds iff the vehicle now drives at most 30
  km/h and decelerated by more than 3.5 metres per square second since the newest earlier sample of
  at least 80 km/h.\<close>

theorem checkEgoDeceleration_correct:
  assumes "eoq_ok u" and "0 < m_interval (eoq_mVelocitySampler u)"
    and "m_duration (eoq_mVelocitySampler u) \<le> simtime_s 10" and "evenly_spaced (eoq_mVelocitySampler u)"
    and "b = m_buffer (eoq_mVelocitySampler u)"
  shows "TrafficJamEndOfQueue_checkEgoDeceleration u =
    Inr (b \<noteq> [] \<and> smp_value (b ! 0) \<le> kmh 30
      \<and> (\<exists>k. 0 < k \<and> k < length b \<and> smp_value (b ! k) \<ge> kmh 80 \<and> (\<forall>j. 0 < j \<and> j < k \<longrightarrow> smp_value (b ! j) < kmh 80)
           \<and> (smp_value (b ! 0) - smp_value (b ! k))
              / simtime_dbl (int k * m_interval (eoq_mVelocitySampler u)) < - 3.5))"
proof (cases "b \<noteq> [] \<and> smp_value (hd b) \<le> kmh 30")
  case True
  let ?i = "m_interval (eoq_mVelocitySampler u)" and ?P = "\<lambda>s. smp_value s \<ge> kmh 80"
  have hd: "hd b = b ! 0" using True by (simp add: hd_conv_nth)
  have stamp: "smp_timestamp (b ! 0) - smp_timestamp (b ! k) = int k * ?i" if "k < length b" for k
    using evenly_spaced_stamp [OF assms(4), folded assms(5), of k] that hd by simp
  have short: "simtime_dbl (int k * ?i) < 10" and pos: "0 < k \<Longrightarrow> 0 < simtime_dbl (int k * ?i)" if "k < length b" for k
  proof -
    have "int k * ?i < simtime_s 10"
      using capacity_span [of "eoq_mVelocitySampler u" k] assms that by (auto simp: eoq_ok_def)
    then have "real_of_int (int k * ?i) < real_of_int (simtime_s 10)" by (simp only: of_int_less_iff)
    then show "simtime_dbl (int k * ?i) < 10" by (simp add: simtime_dbl_def simtime_s_def)
    show "0 < k \<Longrightarrow> 0 < simtime_dbl (int k * ?i)" using assms(2) by (simp add: simtime_dbl_def)
  qed
  show ?thesis
  proof (cases "find ?P (tl b)")
    case None
    have "\<not> ?P (b ! k)" if "0 < k" "k < length b" for k
    proof -
      have "tl b ! (k - 1) \<in> set (tl b)" using that by (intro nth_mem) simp
      then have "b ! k \<in> set (tl b)" using that by (simp add: nth_tl)
      with None show ?thesis by (auto simp: find_None_iff)
    qed
    then show ?thesis using True None assms(5) by (auto simp: TrafficJamEndOfQueue_checkEgoDeceleration_def Let_def)
  next
    case (Some x)
    obtain k where k: "0 < k" "k < length b" "b ! k = x" "?P x" "\<forall>j. 0 < j \<and> j < k \<longrightarrow> \<not> ?P (b ! j)"
      by (rule find_tl_nth [OF Some])
    have unique: "k' = k" if "0 < k'" "k' < length b" "?P (b ! k')" "\<forall>j. 0 < j \<and> j < k' \<longrightarrow> smp_value (b ! j) < kmh 80" for k'
    proof (rule linorder_cases [of k' k])
      assume "k' < k" then show ?thesis using k(5) that by blast
    next
      assume "k < k'" then show ?thesis using k(1,3,4) that(4) by (metis not_less)
    qed
    let ?D = "\<lambda>k. (smp_value (b ! 0) - smp_value (b ! k)) / simtime_dbl (int k * ?i) < - 3.5"
    have eval: "TrafficJamEndOfQueue_checkEgoDeceleration u = Inr (?D k)"
      using True Some assms(5) stamp [OF k(2)] short [OF k(2)] pos [OF k(2,1)] k(3) hd
      by (simp add: TrafficJamEndOfQueue_checkEgoDeceleration_def sample_duration_def differentiate_def Let_def)
    have first: "?P (b ! k)" "\<forall>j. 0 < j \<and> j < k \<longrightarrow> smp_value (b ! j) < kmh 80" using k by (auto simp: not_le)
    have "(\<exists>k'. 0 < k' \<and> k' < length b \<and> ?P (b ! k') \<and> (\<forall>j. 0 < j \<and> j < k' \<longrightarrow> smp_value (b ! j) < kmh 80) \<and> ?D k') \<longleftrightarrow> ?D k"
      using unique first k(1,2) by blast
    then show ?thesis using eval True hd by simp
  qed
next
  case False
  then show ?thesis
    using assms(5) by (auto simp: TrafficJamEndOfQueue_checkEgoDeceleration_def hd_conv_nth)
qed

definition braking_case :: "simtime \<Rightarrow> TrafficJamEndOfQueue" where
  "braking_case gap =
     (TrafficJamEndOfQueue_initialize
        \<lparr>par_nonUrbanEnvironment = True, par_sampleDuration = simtime_s 10, par_sampleInterval = simtime_ms 100,
         par_detectionBlockingInterval = simtime_s 60\<rparr> 0 TrafficJamEndOfQueue_new)
     \<lparr>eoq_mVelocitySampler := \<lparr>m_buffer = [\<lparr>smp_value = 5, smp_timestamp = gap\<rparr>, \<lparr>smp_value = 25, smp_timestamp = 0\<rparr>],
        m_capacity = 100, m_interval = simtime_ms 100, m_duration = simtime_s 10\<rparr>\<rparr>"

lemma braking_case_ok: "simtime_ms 100 \<le> gap \<Longrightarrow> eoq_ok (braking_case gap)"
  by (auto simp: eoq_ok_def braking_case_def sampler_ok_def spaced_Cons simtime_s_def simtime_ms_def) (simp add: spaced_def)

theorem checkEgoDeceleration_correct_witness:
  "TrafficJamEndOfQueue_checkEgoDeceleration (braking_case (simtime_ms 100)) = Inr True"
proof -
  let ?u = "braking_case (simtime_ms 100)"
  have b: "m_buffer (eoq_mVelocitySampler ?u) =
      [\<lparr>smp_value = 5, smp_timestamp = simtime_ms 100\<rparr>, \<lparr>smp_value = 25, smp_timestamp = 0\<rparr>]"
    and i: "m_interval (eoq_mVelocitySampler ?u) = simtime_ms 100" and d: "m_duration (eoq_mVelocitySampler ?u) = simtime_s 10"
    by (simp_all add: braking_case_def)
  have even: "evenly_spaced (eoq_mVelocitySampler ?u)"
    by (auto simp: evenly_spaced_def b i less_Suc_eq)
  have "smp_value (m_buffer (eoq_mVelocitySampler ?u) ! 1) \<ge> kmh 80 \<and> smp_value (m_buffer (eoq_mVelocitySampler ?u) ! 0) \<le> kmh 30
      \<and> (smp_value (m_buffer (eoq_mVelocitySampler ?u) ! 0) - smp_value (m_buffer (eoq_mVelocitySampler ?u) ! 1))
        / simtime_dbl (int 1 * m_interval (eoq_mVelocitySampler ?u)) < - 3.5"
    unfolding b i by (simp add: kmh_def simtime_dbl_def simtime_ms_def)
  moreover have "m_buffer (eoq_mVelocitySampler ?u) \<noteq> []" "1 < length (m_buffer (eoq_mVelocitySampler ?u))"
    by (simp_all add: b)
  moreover have "0 < m_interval (eoq_mVelocitySampler ?u)" "m_duration (eoq_mVelocitySampler ?u) \<le> simtime_s 10"
    unfolding i d by (simp_all add: simtime_ms_def)
  ultimately show ?thesis
    using checkEgoDeceleration_correct [OF braking_case_ok [OF order_refl] _ _ even refl]
    by (auto intro!: exI [of _ 1])
qed

text \<open>The same check aborts on samples that came late: the sampler keeps the number of samples that
  fit its duration, not ten seconds of them, so a step ten seconds or more after a sample above 80
  km/h fails the assertion that the code says can never fail.\<close>

theorem checkEgoDeceleration_late_sample_asserts:
  assumes "simtime_s 10 \<le> gap"
  shows "eoq_ok (braking_case gap) \<and> TrafficJamEndOfQueue_checkEgoDeceleration (braking_case gap) = Inl AssertionFailed"
proof -
  have "10 \<le> simtime_dbl gap" using assms by (simp add: simtime_dbl_def simtime_s_def)
  then have "TrafficJamEndOfQueue_checkEgoDeceleration (braking_case gap) = Inl AssertionFailed"
    by (simp add: TrafficJamEndOfQueue_checkEgoDeceleration_def braking_case_def kmh_def sample_duration_def)
  then show ?thesis using assms by (auto intro!: braking_case_ok simp: simtime_s_def simtime_ms_def)
qed

theorem checkEgoDeceleration_late_sample_asserts_witness:
  "TrafficJamEndOfQueue_checkEgoDeceleration (braking_case (simtime_s 10)) = Inl AssertionFailed"
  using checkEgoDeceleration_late_sample_asserts [OF order_refl] by blast

lemma average_nonneg_zero:
  assumes "r \<noteq> []" and "\<forall>x \<in> set r. 0 \<le> smp_value x"
  shows "average r \<le> 0 \<longleftrightarrow> (\<forall>x \<in> set r. smp_value x = 0)"
proof -
  have "foldl (\<lambda>acc s. acc + smp_value s) a r = a + sum_list (map smp_value r)" for a
    by (induction r arbitrary: a) (auto simp: add.assoc)
  then have "average r = sum_list (map smp_value r) / real (length r)" using assms(1) by (simp add: average_def)
  moreover have "0 \<le> sum_list (map smp_value r)" using assms(2) by (intro sum_list_nonneg) auto
  moreover have "sum_list (map smp_value r) = 0 \<longleftrightarrow> (\<forall>x \<in> set r. smp_value x = 0)"
    using assms(2) by (subst sum_list_nonneg_eq_0_iff) auto
  ultimately show ?thesis
    using assms(1) by (smt (verit, best) divide_eq_0_iff divide_nonneg_nonneg length_0_conv of_nat_0_le_iff of_nat_eq_0_iff)
qed

text \<open>For a vehicle that never drives backward, the stationary condition holds iff the samples newer
  than 30 seconds span at least ten seconds and all of them are exactly zero.\<close>

theorem checkStationaryEgo_correct:
  assumes "ahead_ok u" and "\<forall>x \<in> set (m_buffer (ahead_mVelocitySampler u)). 0 \<le> smp_value x"
    and "r = filter (\<lambda>x. now - simtime_s 30 < smp_timestamp x) (m_buffer (ahead_mVelocitySampler u))"
  shows "TrafficJamAhead_checkStationaryEgo now u \<longleftrightarrow>
    simtime_s 10 \<le> SampleBuffer_duration r \<and> (\<forall>x \<in> set r. smp_value x = 0)"
proof -
  have "SampleBuffer_not_before (now - simtime_s 30) (m_buffer (ahead_mVelocitySampler u)) = r"
    using assms(1,3) by (simp add: ahead_ok_def sampler_ok_def not_before_filter)
  moreover have "r \<noteq> []" if "simtime_s 10 \<le> SampleBuffer_duration r"
    using that by (auto simp: SampleBuffer_duration_def simtime_s_def)
  ultimately show ?thesis
    using average_nonneg_zero [of r] assms(2,3)
    by (auto simp: TrafficJamAhead_checkStationaryEgo_def Let_def kmh_order(3))
qed

definition parked_case :: TrafficJamAhead where
  "parked_case = TrafficJamAhead_new\<lparr>ahead_mVelocitySampler :=
     \<lparr>m_buffer = [\<lparr>smp_value = 0, smp_timestamp = simtime_s 12\<rparr>, \<lparr>smp_value = 0, smp_timestamp = simtime_s 1\<rparr>],
      m_capacity = 120, m_interval = simtime_s 1, m_duration = simtime_s 120\<rparr>\<rparr>"

theorem checkStationaryEgo_correct_witness: "TrafficJamAhead_checkStationaryEgo (simtime_s 12) parked_case"
proof -
  have ok: "ahead_ok parked_case"
    by (simp add: ahead_ok_def parked_case_def sampler_ok_def spaced_Cons simtime_s_def) (simp add: spaced_def)
  have "\<forall>x \<in> set (m_buffer (ahead_mVelocitySampler parked_case)). 0 \<le> smp_value x"
    by (simp add: parked_case_def)
  from checkStationaryEgo_correct [OF ok this refl, of "simtime_s 12"] show ?thesis
    by (simp add: parked_case_def simtime_s_def SampleBuffer_duration_def)
qed

end
