(* ===== verification/Identities.thy ===== *)
theory Identities
  imports Artery_Prelude
begin

text \<open>
  \<open>artery/utility\<close>: the identity of a station, the registry of all identities and the filter rules
  that decide by identity and chance whether a station runs a service or a use case.  The random
  number generator is a state \<open>'r\<close> with the drawing function \<open>uniform\<close>; compiling a regular expression
  is the parameter \<open>regex\<close>, which gives a matcher or \<open>None\<close> for an ill-formed pattern; reading a double
  is \<open>lexical_cast\<close>.
\<close>

section \<open>Identity\<close>

text \<open>\<open>host\<close> is the full name of the host's module type, \<open>None\<close> the null pointer; interfaces are
  addresses.\<close>

record Identity =
  id_host :: "string option"
  id_traci :: string
  id_application :: "32 word"
  id_geonet :: "(nat, nat) omap"

definition ChangeTraCI :: "64 word" where "ChangeTraCI = 1"
definition ChangeStationId :: "64 word" where "ChangeStationId = 2"
definition ChangeGeoNetAddress :: "64 word" where "ChangeGeoNetAddress = 4"

lemmas change_defs = ChangeTraCI_def ChangeStationId_def ChangeGeoNetAddress_def

text \<open>\<open>std::map::insert\<close> of a range: a key that is there already keeps its value.\<close>

definition omap_insert :: "'k::linorder \<times> 'v \<Rightarrow> ('k, 'v) omap \<Rightarrow> ('k, 'v) omap" where
  "omap_insert e m = (if fst e \<in> fst ` set m then m else omap_put (fst e) (snd e) m)"

definition Identity_update :: "Identity \<Rightarrow> 64 word \<Rightarrow> Identity \<Rightarrow> bool \<times> Identity" where
  "Identity_update upd changes i =
     (let (changed, i) = (if changes AND ChangeTraCI \<noteq> 0 then (True, i\<lparr>id_traci := id_traci upd\<rparr>) else (False, i));
          (changed, i) = (if changes AND ChangeStationId \<noteq> 0 then (True, i\<lparr>id_application := id_application upd\<rparr>)
                          else (changed, i))
      in if changes AND ChangeGeoNetAddress \<noteq> 0
         then (True, i\<lparr>id_geonet := fold omap_insert (id_geonet upd) (id_geonet i)\<rparr>)
         else (changed, i))"

section \<open>Registry\<close>

text \<open>
  The two indices of the multi-index container: by TraCI identifier, unique, and by station
  identifier, not unique, as the sequence of its elements.  Inserting links an element behind those
  with an equal station identifier; replacing leaves it in place when the order still holds there.
\<close>

record IdentityRegistry =
  by_traci :: "(string, Identity) omap"
  by_application :: "(32 word \<times> string) list"

definition IdentityRegistry_new :: IdentityRegistry where
  "IdentityRegistry_new = \<lparr>by_traci = [], by_application = []\<rparr>"

definition link :: "32 word \<times> string \<Rightarrow> (32 word \<times> string) list \<Rightarrow> (32 word \<times> string) list" where
  "link e xs = takeWhile (\<lambda>x. fst x \<le> fst e) xs @ e # dropWhile (\<lambda>x. fst x \<le> fst e) xs"

definition in_place :: "32 word \<Rightarrow> (32 word \<times> string) list \<Rightarrow> (32 word \<times> string) list \<Rightarrow> bool" where
  "in_place app before after \<longleftrightarrow>
     (before = [] \<or> fst (last before) \<le> app) \<and> (after = [] \<or> app \<le> fst (hd after))"

definition relink :: "32 word \<times> string \<Rightarrow> (32 word \<times> string) list \<Rightarrow> (32 word \<times> string) list" where
  "relink e xs =
     (let before = takeWhile (\<lambda>x. snd x \<noteq> snd e) xs; after = tl (dropWhile (\<lambda>x. snd x \<noteq> snd e) xs)
      in if in_place (fst e) before after then before @ e # after else link e (before @ after))"

definition IdentityRegistry_update :: "Identity \<Rightarrow> IdentityRegistry \<Rightarrow> IdentityRegistry" where
  "IdentityRegistry_update i r =
     (case map_of (by_traci r) (id_traci i) of
        Some found \<Rightarrow> r\<lparr>by_traci := omap_put (id_traci i) i (by_traci r),
                       by_application := relink (id_application i, id_traci i) (by_application r)\<rparr>
      | None \<Rightarrow> r\<lparr>by_traci := omap_put (id_traci i) i (by_traci r),
                  by_application := link (id_application i, id_traci i) (by_application r)\<rparr>)"

definition IdentityRegistry_remove :: "Identity \<Rightarrow> IdentityRegistry \<Rightarrow> IdentityRegistry" where
  "IdentityRegistry_remove i r =
     r\<lparr>by_traci := omap_del (id_traci i) (by_traci r),
       by_application := filter (\<lambda>x. snd x \<noteq> id_traci i) (by_application r)\<rparr>"

text \<open>\<open>receiveSignal\<close>: a removal may come with another kind of object, which is then ignored.\<close>

datatype RegistrySignal = UpdateSignal Identity | RemoveSignal "Identity option" | OtherSignal

fun IdentityRegistry_receiveSignal :: "RegistrySignal \<Rightarrow> IdentityRegistry \<Rightarrow> IdentityRegistry" where
  "IdentityRegistry_receiveSignal (UpdateSignal i) r = IdentityRegistry_update i r"
| "IdentityRegistry_receiveSignal (RemoveSignal (Some i)) r = IdentityRegistry_remove i r"
| "IdentityRegistry_receiveSignal (RemoveSignal None) r = r"
| "IdentityRegistry_receiveSignal OtherSignal r = r"

definition IdentityRegistry_lookup_traci :: "IdentityRegistry \<Rightarrow> string \<Rightarrow> Identity option" where
  "IdentityRegistry_lookup_traci r t = map_of (by_traci r) t"

definition IdentityRegistry_lookup_application :: "IdentityRegistry \<Rightarrow> 32 word \<Rightarrow> Identity option" where
  "IdentityRegistry_lookup_application r app =
     Option.bind (map_of (by_application r) app) (map_of (by_traci r))"

definition registry_ok :: "IdentityRegistry \<Rightarrow> bool" where
  "registry_ok r \<longleftrightarrow> omap_ok (by_traci r)
     \<and> (\<forall>(t, i) \<in> set (by_traci r). id_traci i = t)
     \<and> sorted (map fst (by_application r))
     \<and> distinct (map snd (by_application r))
     \<and> set (by_application r) = (\<lambda>(t, i). (id_application i, t)) ` set (by_traci r)"

section \<open>Filter rules\<close>

text \<open>A filter closure is the values it captured.\<close>

datatype Filter =
    NameFilter "string \<Rightarrow> bool" bool
  | PenetrationFilter real
  | TypeFilter real "string \<Rightarrow> bool" bool

definition inverse_match :: "cXMLElement \<Rightarrow> bool" where
  "inverse_match cfg \<longleftrightarrow> getAttribute cfg ''match'' = Some ''inverse''"

definition FilterRules_createFilterNamePattern ::
    "(string \<Rightarrow> (string \<Rightarrow> bool) option) \<Rightarrow> cXMLElement \<Rightarrow> Filter result" where
  "FilterRules_createFilterNamePattern regex cfg =
     (case getAttribute cfg ''pattern'' of
        None \<Rightarrow> Inl (RuntimeError ''Required pattern attribute is missing for name filter'')
      | Some pat \<Rightarrow>
         (case regex pat of
            None \<Rightarrow> Inl (RuntimeError ''regex_error'')
          | Some re \<Rightarrow> Inr (NameFilter re (inverse_match cfg))))"

definition FilterRules_createFilterPenetrationRate :: "(string \<Rightarrow> real result) \<Rightarrow> cXMLElement \<Rightarrow> Filter result" where
  "FilterRules_createFilterPenetrationRate lexical_cast cfg =
     (case getAttribute cfg ''rate'' of
        None \<Rightarrow> Inl (RuntimeError ''Required rate attribute is missing for penetration filter'')
      | Some str \<Rightarrow>
         rbind (lexical_cast str) (\<lambda>penetration_rate.
           if penetration_rate > 1 \<or> penetration_rate < 0
           then Inl (RuntimeError ''Penetration rate is out of range [0.0, 1.0]'')
           else Inr (PenetrationFilter penetration_rate)))"

definition FilterRules_createFilterTypePattern ::
    "(string \<Rightarrow> (string \<Rightarrow> bool) option) \<Rightarrow> (string \<Rightarrow> real result) \<Rightarrow> cXMLElement \<Rightarrow> Filter result" where
  "FilterRules_createFilterTypePattern regex lexical_cast cfg =
     (case getAttribute cfg ''pattern'' of
        None \<Rightarrow> Inl (RuntimeError ''Required pattern attribute is missing for type filter'')
      | Some pat \<Rightarrow>
         rbind (case getAttribute cfg ''rate'' of None \<Rightarrow> Inr 1 | Some str \<Rightarrow> lexical_cast str) (\<lambda>type_rate.
           if type_rate > 1 \<or> type_rate < 0
           then Inl (RuntimeError ''Type penetration rate is out of range [0.0, 1.0]'')
           else (case regex pat of
                   None \<Rightarrow> Inl (RuntimeError ''regex_error'')
                 | Some re \<Rightarrow> Inr (TypeFilter type_rate re (inverse_match cfg)))))"

text \<open>Calling a filter: the generator moves on when the filter draws a number.\<close>

fun run_filter :: "('r \<Rightarrow> real \<times> 'r) \<Rightarrow> Identity \<Rightarrow> Filter \<Rightarrow> 'r \<Rightarrow> (bool \<times> 'r) result" where
  "run_filter uniform ident (NameFilter re invert) rng = Inr (re (id_traci ident) \<noteq> invert, rng)"
| "run_filter uniform ident (PenetrationFilter rate) rng =
     (let (u, rng) = uniform rng in Inr (rate \<ge> u, rng))"
| "run_filter uniform ident (TypeFilter rate re invert) rng =
     (let (u, rng) = uniform rng; rate_predicate = (rate \<ge> u)
      in case id_host ident of
           None \<Rightarrow> Inl (RuntimeError ''nullptr violation'')
         | Some type \<Rightarrow> Inr ((re type \<and> rate_predicate) \<noteq> invert, rng))"

text \<open>\<open>std::any_of\<close> and \<open>std::all_of\<close> stop at the first filter that decides.\<close>

fun any_filter :: "('r \<Rightarrow> real \<times> 'r) \<Rightarrow> Identity \<Rightarrow> Filter list \<Rightarrow> 'r \<Rightarrow> (bool \<times> 'r) result" where
  "any_filter uniform ident [] rng = Inr (False, rng)"
| "any_filter uniform ident (f # fs) rng =
     rbind (run_filter uniform ident f rng) (\<lambda>(b, rng).
       if b then Inr (True, rng) else any_filter uniform ident fs rng)"

fun all_filter :: "('r \<Rightarrow> real \<times> 'r) \<Rightarrow> Identity \<Rightarrow> Filter list \<Rightarrow> 'r \<Rightarrow> (bool \<times> 'r) result" where
  "all_filter uniform ident [] rng = Inr (True, rng)"
| "all_filter uniform ident (f # fs) rng =
     rbind (run_filter uniform ident f rng) (\<lambda>(b, rng).
       if b then all_filter uniform ident fs rng else Inr (False, rng))"

fun mapM_result :: "('a \<Rightarrow> 'b result) \<Rightarrow> 'a list \<Rightarrow> 'b list result" where
  "mapM_result f [] = Inr []"
| "mapM_result f (x # xs) = rbind (f x) (\<lambda>y. rmap (\<lambda>ys. y # ys) (mapM_result f xs))"

definition FilterRules_applyFilterConfig ::
    "(string \<Rightarrow> (string \<Rightarrow> bool) option) \<Rightarrow> (string \<Rightarrow> real result) \<Rightarrow> ('r \<Rightarrow> real \<times> 'r) \<Rightarrow> Identity \<Rightarrow>
     cXMLElement \<Rightarrow> 'r \<Rightarrow> (bool \<times> 'r) result" where
  "FilterRules_applyFilterConfig regex lexical_cast uniform ident cfg rng =
     rbind (mapM_result (FilterRules_createFilterNamePattern regex) (getChildrenByTagName cfg ''name'')) (\<lambda>names.
     rbind (case getFirstChildWithTag cfg ''penetration'' of
              None \<Rightarrow> Inr []
            | Some p \<Rightarrow> rmap (\<lambda>f. [f]) (FilterRules_createFilterPenetrationRate lexical_cast p)) (\<lambda>pens.
     rbind (mapM_result (FilterRules_createFilterTypePattern regex lexical_cast) (getChildrenByTagName cfg ''type'')) (\<lambda>types.
       let filters = names @ pens @ types
       in if filters \<noteq> [] then
            (let filter_operator = (case getAttribute cfg ''operator'' of None \<Rightarrow> ''or'' | Some op \<Rightarrow> op)
             in if filter_operator = ''or'' then any_filter uniform ident filters rng
                else if filter_operator = ''and'' then all_filter uniform ident filters rng
                else Inl (RuntimeError (''Unsupported filter operator: '' @ filter_operator)))
          else Inr (True, rng))))"
section \<open>The indices of the registry stay consistent\<close>

lemma set_link: "set (link e xs) = insert e (set xs)"
  unfolding link_def by (auto dest: set_takeWhileD set_dropWhileD) (metis Un_iff set_append takeWhile_dropWhile_id)

lemma distinct_insert_at:
  "distinct (map snd (xs @ ys)) \<Longrightarrow> snd e \<notin> snd ` set (xs @ ys) \<Longrightarrow> distinct (map snd (xs @ e # ys))"
  by auto

lemma distinct_link: "distinct (map snd xs) \<Longrightarrow> snd e \<notin> snd ` set xs \<Longrightarrow> distinct (map snd (link e xs))"
  unfolding link_def by (rule distinct_insert_at) simp_all

lemma sorted_link: "sorted (map fst xs) \<Longrightarrow> sorted (map fst (link e xs))"
  by (induction xs) (auto simp: link_def dest: set_takeWhileD set_dropWhileD)

lemma relink_split:
  assumes "snd e \<in> snd ` set xs" and "distinct (map snd xs)"
  obtains before x after where "xs = before @ x # after" "snd x = snd e" "\<forall>y \<in> set (before @ after). snd y \<noteq> snd e"
    "relink e xs = (if in_place (fst e) before after then before @ e # after else link e (before @ after))"
proof -
  have "\<exists>x \<in> set xs. snd x = snd e" using assms(1) by (auto simp: image_iff intro: bexI [rotated])
  from split_list_first_prop [OF this] obtain before x after where
    s: "xs = before @ x # after" "snd x = snd e" "\<forall>y \<in> set before. snd y \<noteq> snd e" by blast
  moreover have "takeWhile (\<lambda>x. snd x \<noteq> snd e) xs = before" "tl (dropWhile (\<lambda>x. snd x \<noteq> snd e) xs) = after"
    using s by (simp_all add: takeWhile_append2 dropWhile_append2)
  moreover have "\<forall>y \<in> set after. snd y \<noteq> snd e" using assms(2) s by (auto simp: image_iff)
  ultimately show ?thesis by (intro that [of before x after]) (auto simp: relink_def Let_def)
qed

lemma sorted_in_place:
  assumes "sorted (map fst (before @ x # after))" and "in_place (fst e) before after"
  shows "sorted (map fst (before @ e # after))"
proof -
  have b: "fst y \<le> fst e" if "y \<in> set before" for y
  proof -
    have "fst y \<le> fst (last before)" using assms(1) that by (cases before rule: rev_cases) (auto simp: sorted_append)
    then show ?thesis using assms(2) that by (auto simp: in_place_def)
  qed
  have a: "fst e \<le> fst y" if "y \<in> set after" for y
  proof -
    have "fst (hd after) \<le> fst y" using assms(1) that by (cases after) (auto simp: sorted_append)
    then show ?thesis using assms(2) that by (auto simp: in_place_def)
  qed
  show ?thesis using assms(1) a b by (auto simp: sorted_append)
qed

lemma relink_ok:
  assumes "snd e \<in> snd ` set xs" and "distinct (map snd xs)" and "sorted (map fst xs)"
  shows "set (relink e xs) = insert e {x \<in> set xs. snd x \<noteq> snd e}"
    and "distinct (map snd (relink e xs))" and "sorted (map fst (relink e xs))"
proof -
  obtain before x after where s: "xs = before @ x # after" "snd x = snd e" "\<forall>y \<in> set (before @ after). snd y \<noteq> snd e"
    and r: "relink e xs = (if in_place (fst e) before after then before @ e # after else link e (before @ after))"
    by (rule relink_split [OF assms(1,2)])
  have rest: "sorted (map fst (before @ after))" "distinct (map snd (before @ after))" "snd e \<notin> snd ` set (before @ after)"
    using assms(2,3) s by (auto simp: sorted_append)
  show "set (relink e xs) = insert e {x \<in> set xs. snd x \<noteq> snd e}"
  proof -
    have "set (relink e xs) = insert e (set (before @ after))" unfolding r by (auto simp: set_link)
    moreover have "{x \<in> set xs. snd x \<noteq> snd e} = set (before @ after)" using s by auto
    ultimately show ?thesis by simp
  qed
  show "distinct (map snd (relink e xs))" using rest by (auto simp: r distinct_link)
  show "sorted (map fst (relink e xs))"
    using sorted_in_place [OF assms(3) [unfolded s(1)], of e] sorted_link [OF rest(1), of e] unfolding r by simp
qed

lemma registry_snd: "registry_ok r \<Longrightarrow> snd ` set (by_application r) = fst ` set (by_traci r)"
  by (simp add: registry_ok_def image_image case_prod_beta)

lemma registry_ok_update [inv_intros]:
  assumes "registry_ok r"
  shows "registry_ok (IdentityRegistry_update i r)"
proof -
  have m: "omap_ok (by_traci r)" "\<forall>(t, i) \<in> set (by_traci r). id_traci i = t" using assms by (auto simp: registry_ok_def)
  have put: "set (omap_put (id_traci i) i (by_traci r)) = insert (id_traci i, i) {e \<in> set (by_traci r). fst e \<noteq> id_traci i}"
    by (rule set_omap_put [OF m(1)])
  have app: "set (by_application r) = (\<lambda>(t, i). (id_application i, t)) ` set (by_traci r)"
    "sorted (map fst (by_application r))" "distinct (map snd (by_application r))" using assms by (auto simp: registry_ok_def)
  show ?thesis
  proof (cases "map_of (by_traci r) (id_traci i)")
    case None
    then have n: "id_traci i \<notin> fst ` set (by_traci r)" by (simp add: map_of_eq_None_iff)
    have "{e \<in> set (by_traci r). fst e \<noteq> id_traci i} = set (by_traci r)" using n by force
    then show ?thesis
      using None n m app put registry_snd [OF assms]
      by (auto simp: registry_ok_def IdentityRegistry_update_def set_link sorted_link distinct_link omap_ok_put)
  next
    case (Some found)
    let ?e = "(id_application i, id_traci i)"
    have "snd ?e \<in> snd ` set (by_application r)"
      using registry_snd [OF assms] map_of_SomeD [OF Some] by (simp add: rev_image_eqI)
    note re = relink_ok [OF this app(3,2)]
    have "{x \<in> set (by_application r). snd x \<noteq> id_traci i} =
        (\<lambda>(t, i). (id_application i, t)) ` {e \<in> set (by_traci r). fst e \<noteq> id_traci i}"
      unfolding app(1) by auto
    then show ?thesis
      using Some m re put by (simp add: registry_ok_def IdentityRegistry_update_def omap_ok_put)
  qed
qed

lemma registry_ok_remove [inv_intros]:
  assumes "registry_ok r"
  shows "registry_ok (IdentityRegistry_remove i r)"
  using assms by (auto simp: registry_ok_def IdentityRegistry_remove_def omap_del_def omap_ok_filter sorted_filter
    distinct_map_filter)

lemma registry_ok_signal [inv_intros]:
  "registry_ok r \<Longrightarrow> registry_ok (IdentityRegistry_receiveSignal sig r)"
  by (cases "(sig, r)" rule: IdentityRegistry_receiveSignal.cases) (auto intro: inv_intros)

section \<open>Properties of the registry\<close>


lemma registry_ok_new [inv_intros]: "registry_ok IdentityRegistry_new"
  by (simp add: registry_ok_def IdentityRegistry_new_def)


lemma lookup_application_complete:
  assumes "registry_ok r" and "IdentityRegistry_lookup_application r app = None"
    and "IdentityRegistry_lookup_traci r t = Some i"
  shows "id_application i \<noteq> app"
proof
  assume "id_application i = app"
  then have "(app, t) \<in> set (by_application r)"
    using assms(1) map_of_SomeD [OF assms(3) [unfolded IdentityRegistry_lookup_traci_def]]
    by (force simp: registry_ok_def)
  then obtain t' where t': "map_of (by_application r) app = Some t'"
    by (metis map_of_eq_None_iff not_None_eq image_eqI fst_conv)
  have "t' \<in> fst ` set (by_traci r)"
    using map_of_SomeD [OF t'] registry_snd [OF assms(1)] by (metis image_eqI snd_conv)
  then have "map_of (by_traci r) t' \<noteq> None" by (simp add: map_of_eq_None_iff)
  then show False using assms(2) t' by (auto simp: IdentityRegistry_lookup_application_def)
qed


text \<open>An update makes exactly the given identity the one found under its TraCI identifier, and a
  removal makes that identifier unknown; all others are found as before.\<close>

theorem IdentityRegistry_lookup_after_signal:
  assumes "registry_ok r"
  shows "IdentityRegistry_lookup_traci (IdentityRegistry_receiveSignal (UpdateSignal i) r) =
      (IdentityRegistry_lookup_traci r)(id_traci i \<mapsto> i)
    \<and> IdentityRegistry_lookup_traci (IdentityRegistry_receiveSignal (RemoveSignal (Some i)) r) =
      (IdentityRegistry_lookup_traci r)(id_traci i := None)
    \<and> IdentityRegistry_lookup_application (IdentityRegistry_receiveSignal (UpdateSignal i) r) (id_application i) \<noteq> None"
proof -
  have m: "omap_ok (by_traci r)" using assms by (simp add: registry_ok_def)
  have traci: "IdentityRegistry_lookup_traci (IdentityRegistry_update i r) = (IdentityRegistry_lookup_traci r)(id_traci i \<mapsto> i)"
    using m by (auto simp: IdentityRegistry_lookup_traci_def IdentityRegistry_update_def omap_store.lookup_store
      split: option.split)
  moreover have "IdentityRegistry_lookup_application (IdentityRegistry_update i r) (id_application i) \<noteq> None"
    using lookup_application_complete [OF registry_ok_update [OF assms], where t = "id_traci i"] traci by fastforce
  moreover have "IdentityRegistry_lookup_traci (IdentityRegistry_remove i r) = (IdentityRegistry_lookup_traci r)(id_traci i := None)"
    using omap_store.lookup_remove [OF m] by (auto simp: IdentityRegistry_lookup_traci_def IdentityRegistry_remove_def)
  ultimately show ?thesis by simp
qed

definition example_identity :: Identity where
  "example_identity = \<lparr>id_host = Some ''Vehicle'', id_traci = ''flow0.1'', id_application = 42, id_geonet = [(1, 10)]\<rparr>"

theorem IdentityRegistry_lookup_after_signal_witness:
  "IdentityRegistry_lookup_traci (IdentityRegistry_receiveSignal (UpdateSignal example_identity) IdentityRegistry_new) ''flow0.1''
     = Some example_identity"
  using IdentityRegistry_lookup_after_signal [OF registry_ok_new, of example_identity]
  by (simp add: example_identity_def)

text \<open>An update of GeoNetworking addresses adds the addresses of interfaces not yet known but never
  changes the address of a known interface, although it reports a change.\<close>

theorem Identity_update_keeps_known_address:
  assumes "omap_ok (id_geonet i)" and "id_geonet upd = [(ifc, addr)]"
  shows "fst (Identity_update upd ChangeGeoNetAddress i)
    \<and> map_of (id_geonet (snd (Identity_update upd ChangeGeoNetAddress i))) ifc =
        (case map_of (id_geonet i) ifc of None \<Rightarrow> Some addr | Some old \<Rightarrow> Some old)"
  using assms map_of_eq_None_iff [of "id_geonet i" ifc]
  by (auto simp: Identity_update_def change_defs omap_insert_def map_of_omap_put split: option.split)

theorem Identity_update_keeps_known_address_witness:
  "map_of (id_geonet (snd (Identity_update (example_identity\<lparr>id_geonet := [(1, 99)]\<rparr>) ChangeGeoNetAddress example_identity))) 1
     = Some 10"
  using Identity_update_keeps_known_address [of example_identity "example_identity\<lparr>id_geonet := [(1, 99)]\<rparr>" 1 99]
  by (simp add: example_identity_def)

section \<open>Properties of the filter rules\<close>

lemma any_names: "any_filter uniform ident (map (\<lambda>(re, iv). NameFilter re iv) ps) rng =
    Inr (\<exists>(re, iv) \<in> set ps. re (id_traci ident) \<noteq> iv, rng)"
  by (induction ps) (auto split: prod.splits)

lemma all_names: "all_filter uniform ident (map (\<lambda>(re, iv). NameFilter re iv) ps) rng =
    Inr (\<forall>(re, iv) \<in> set ps. re (id_traci ident) \<noteq> iv, rng)"
  by (induction ps) (auto split: prod.splits)

lemma create_names:
  assumes "\<forall>c \<in> set cs. \<exists>pat. getAttribute c ''pattern'' = Some pat \<and> regex pat \<noteq> None"
  shows "mapM_result (FilterRules_createFilterNamePattern regex) cs =
    Inr (map (\<lambda>(re, iv). NameFilter re iv)
      (map (\<lambda>c. (the (regex (the (getAttribute c ''pattern''))), inverse_match c)) cs))"
  using assms by (induction cs) (auto simp: FilterRules_createFilterNamePattern_def)

text \<open>A filter configuration of name patterns alone draws no random number; by default and under
  \<open>or\<close> it applies to a station iff some pattern's match differs from its inversion, under \<open>and\<close> iff
  all do, and any other operator is an error.\<close>

theorem applyFilterConfig_names:
  assumes "getChildrenByTagName cfg ''name'' = c # cs"
    and "\<forall>d \<in> set (c # cs). \<exists>pat. getAttribute d ''pattern'' = Some pat \<and> regex pat \<noteq> None"
    and "getFirstChildWithTag cfg ''penetration'' = None" and "getChildrenByTagName cfg ''type'' = []"
    and "hit = (\<lambda>d. the (regex (the (getAttribute d ''pattern''))) (id_traci ident) \<noteq> inverse_match d)"
  shows "FilterRules_applyFilterConfig regex lexical_cast uniform ident cfg rng =
    (case getAttribute cfg ''operator'' of
       None \<Rightarrow> Inr (\<exists>d \<in> set (c # cs). hit d, rng)
     | Some op \<Rightarrow> if op = ''or'' then Inr (\<exists>d \<in> set (c # cs). hit d, rng)
                  else if op = ''and'' then Inr (\<forall>d \<in> set (c # cs). hit d, rng)
                  else Inl (RuntimeError (''Unsupported filter operator: '' @ op)))"
  unfolding FilterRules_applyFilterConfig_def assms(1,3,4) create_names [OF assms(2)]
  using any_names [of uniform ident _ rng] all_names [of uniform ident _ rng]
  by (auto simp del: map_map list.map simp: Let_def assms(5) split: option.split)

text \<open>A filter configuration with a penetration rate alone draws exactly one number and applies iff
  the number does not exceed the rate: at rate one always, when the numbers lie in the unit
  interval; a rate outside the unit interval is an error.\<close>

theorem applyFilterConfig_penetration:
  assumes "getChildrenByTagName cfg ''name'' = []" and "getChildrenByTagName cfg ''type'' = []"
    and "getFirstChildWithTag cfg ''penetration'' = Some p" and "getAttribute p ''rate'' = Some str"
    and "lexical_cast str = Inr rate" and "getAttribute cfg ''operator'' = None" and "uniform rng = (u, rng')"
    and "0 \<le> u" and "u \<le> 1"
  shows "FilterRules_applyFilterConfig regex lexical_cast uniform ident cfg rng =
    (if 0 \<le> rate \<and> rate \<le> 1 then Inr (u \<le> rate, rng')
     else Inl (RuntimeError ''Penetration rate is out of range [0.0, 1.0]''))
    \<and> (rate = 1 \<longrightarrow> FilterRules_applyFilterConfig regex lexical_cast uniform ident cfg rng = Inr (True, rng'))"
  using assms by (auto simp: FilterRules_applyFilterConfig_def FilterRules_createFilterPenetrationRate_def)

text \<open>A configuration with one name pattern, and one with a penetration rate.\<close>

definition leaf :: "(string \<Rightarrow> string option) \<Rightarrow> cXMLElement" where
  "leaf attr = XMLElement '''' attr (\<lambda>tag. []) (\<lambda>tag. None)"

definition name_config :: cXMLElement where
  "name_config = XMLElement ''filters'' Map.empty
     (\<lambda>tag. if tag = ''name'' then [leaf [''pattern'' \<mapsto> ''flow0.1'', ''match'' \<mapsto> ''inverse'']] else []) (\<lambda>tag. None)"

definition rate_config :: cXMLElement where
  "rate_config = XMLElement ''filters'' Map.empty (\<lambda>tag. [])
     (\<lambda>tag. if tag = ''penetration'' then Some (leaf [''rate'' \<mapsto> ''0.5'']) else None)"

theorem applyFilterConfig_names_witness:
  "FilterRules_applyFilterConfig (\<lambda>pat. Some (\<lambda>s. s = pat)) (\<lambda>s. Inr 1) (\<lambda>n. (0, Suc n)) example_identity name_config 0
     = Inr (False, 0)"
  using applyFilterConfig_names [of name_config "leaf [''pattern'' \<mapsto> ''flow0.1'', ''match'' \<mapsto> ''inverse'']" "[]"
    "\<lambda>pat. Some (\<lambda>s. s = pat)" _ example_identity "\<lambda>s. Inr 1" "\<lambda>n. (0, Suc n)" 0, OF _ _ _ _ refl]
  by (simp add: name_config_def leaf_def example_identity_def inverse_match_def)

theorem applyFilterConfig_penetration_witness:
  "FilterRules_applyFilterConfig (\<lambda>pat. None) (\<lambda>s. Inr (1 / 2)) (\<lambda>n. (3 / 4, Suc n)) example_identity rate_config 0
     = Inr (False, 1)"
  using applyFilterConfig_penetration [of rate_config "leaf [''rate'' \<mapsto> ''0.5'']" "''0.5''" "\<lambda>s. Inr (1 / 2)" "1 / 2"
    "\<lambda>n. (3 / 4, Suc n)" 0 "3 / 4" 1 "\<lambda>pat. None" example_identity]
  by (simp add: rate_config_def leaf_def)

end
