(* ===== verification/Middlewares.thy ===== *)
theory Middlewares
  imports Channels Identities LocalDynMap "HOL-Library.Product_Lexorder"
begin

text \<open>
  \<open>artery/application\<close>: the context objects of a station (\<open>Facilities\<close>), the dispatcher of received
  packets (\<open>TransportDispatcher\<close>), the base of all services (\<open>ItsG5BaseService\<close>) and the middleware
  that creates, triggers and connects them (\<open>Middleware\<close>).  Objects are their addresses; a packet
  held by a \<open>unique_ptr\<close> is an \<open>option\<close>, \<open>None\<close> once it was moved away; sets of pointers are sorted lists
  of addresses.  What virtual functions of a service do is an argument.
\<close>

type_synonym PortNumber = "16 word"
type_synonym TransportDescriptor = "ChannelNumber \<times> PortNumber"

section \<open>Facilities\<close>

text \<open>Objects are registered under their type.\<close>

record Facilities =
  m_mutable_objects :: "string \<rightharpoonup> nat"
  m_const_objects :: "string \<rightharpoonup> nat"

definition Facilities_new :: Facilities where
  "Facilities_new = \<lparr>m_mutable_objects = Map.empty, m_const_objects = Map.empty\<rparr>"

definition Facilities_get_mutable_ptr :: "string \<Rightarrow> Facilities \<Rightarrow> nat option" where
  "Facilities_get_mutable_ptr ty f = m_mutable_objects f ty"

definition Facilities_get_mutable :: "string \<Rightarrow> Facilities \<Rightarrow> nat result" where
  "Facilities_get_mutable ty f =
     (case Facilities_get_mutable_ptr ty f of
        None \<Rightarrow> Inl (RuntimeError ''no valid object of type registered'')
      | Some obj \<Rightarrow> Inr obj)"

definition Facilities_get_const_ptr :: "string \<Rightarrow> Facilities \<Rightarrow> nat option" where
  "Facilities_get_const_ptr ty f = m_const_objects f ty"

definition Facilities_get_const :: "string \<Rightarrow> Facilities \<Rightarrow> nat result" where
  "Facilities_get_const ty f =
     (case Facilities_get_const_ptr ty f of
        None \<Rightarrow> Inl (RuntimeError ''no valid object of type registered'')
      | Some obj \<Rightarrow> Inr obj)"

definition Facilities_register_const :: "string \<Rightarrow> nat option \<Rightarrow> Facilities \<Rightarrow> Facilities result" where
  "Facilities_register_const ty obj f =
     (case obj of
        None \<Rightarrow> Inl AssertionFailed
      | Some p \<Rightarrow> Inr (f\<lparr>m_const_objects := (m_const_objects f)(ty \<mapsto> p)\<rparr>))"

definition Facilities_register_mutable :: "string \<Rightarrow> nat option \<Rightarrow> Facilities \<Rightarrow> Facilities result" where
  "Facilities_register_mutable ty obj f =
     (case obj of
        None \<Rightarrow> Inl AssertionFailed
      | Some p \<Rightarrow> Facilities_register_const ty obj (f\<lparr>m_mutable_objects := (m_mutable_objects f)(ty \<mapsto> p)\<rparr>))"

section \<open>Transport dispatcher\<close>

record TransportDispatcher =
  mListeners :: "(TransportDescriptor, nat list) omap"
  mPromiscuousListeners :: "(ChannelNumber, nat list) omap"

definition TransportDispatcher_new :: TransportDispatcher where
  "TransportDispatcher_new = \<lparr>mListeners = [], mPromiscuousListeners = []\<rparr>"

text \<open>\<open>m[k].insert(x)\<close> on a map of sets, and the set found under a key.\<close>

definition listeners_at :: "'k \<Rightarrow> ('k, nat list) omap \<Rightarrow> nat list" where
  "listeners_at k m = (case map_of m k of None \<Rightarrow> [] | Some xs \<Rightarrow> xs)"

definition insert_at :: "'k::linorder \<Rightarrow> nat \<Rightarrow> ('k, nat list) omap \<Rightarrow> ('k, nat list) omap" where
  "insert_at k x m = omap_put k (insort_insert x (listeners_at k m)) m"

definition TransportDispatcher_addListener ::
    "nat option \<Rightarrow> TransportDescriptor \<Rightarrow> TransportDispatcher \<Rightarrow> TransportDispatcher" where
  "TransportDispatcher_addListener ifc td d =
     (case ifc of None \<Rightarrow> d | Some p \<Rightarrow> d\<lparr>mListeners := insert_at td p (mListeners d)\<rparr>)"

definition TransportDispatcher_addPromiscuousListener ::
    "nat option \<Rightarrow> ChannelNumber \<Rightarrow> TransportDispatcher \<Rightarrow> TransportDispatcher" where
  "TransportDispatcher_addPromiscuousListener ifc ch d =
     (case ifc of None \<Rightarrow> d | Some p \<Rightarrow> d\<lparr>mPromiscuousListeners := insert_at ch p (mPromiscuousListeners d)\<rparr>)"




section \<open>Base of the services\<close>

record ItsG5BaseService =
  m_listeners :: "TransportDescriptor list"

definition ItsG5BaseService_addTransportDescriptor :: "TransportDescriptor \<Rightarrow> ItsG5BaseService \<Rightarrow> ItsG5BaseService" where
  "ItsG5BaseService_addTransportDescriptor td s = s\<lparr>m_listeners := insort_insert td (m_listeners s)\<rparr>"

fun port_on_channel :: "ChannelNumber \<Rightarrow> TransportDescriptor list \<Rightarrow> PortNumber" where
  "port_on_channel ch [] = 0"
| "port_on_channel ch (td # tds) = (if fst td = ch then snd td else port_on_channel ch tds)"

definition ItsG5BaseService_getPortNumber :: "ChannelNumber \<Rightarrow> ItsG5BaseService \<Rightarrow> PortNumber" where
  "ItsG5BaseService_getPortNumber ch s = port_on_channel ch (m_listeners s)"

section \<open>Transmission\<close>

text \<open>What is handed to the router of an interface: the interface, the request and the packet.\<close>

type_synonym 'p Transmission = "NetworkInterface \<times> DataRequestB \<times> 'p"

definition Middleware_requestTransmission_on ::
    "DataRequestB \<Rightarrow> 'p \<Rightarrow> NetworkInterface \<Rightarrow> 'p Transmission list" where
  "Middleware_requestTransmission_on request packet netifc = [(netifc, request, packet)]"

fun transmit_channels ::
    "NetworkInterface list \<Rightarrow> DataRequestB \<Rightarrow> nat \<Rightarrow> nat \<Rightarrow> 'p option \<Rightarrow> ChannelNumber list \<Rightarrow> 'p Transmission list result" where
  "transmit_channels ifcs request n pass packet [] = Inr []"
| "transmit_channels ifcs request n pass packet (ch # chs) =
     (case NetworkInterfaceTable_select ifcs ch of
        None \<Rightarrow> transmit_channels ifcs request n pass packet chs
      | Some netifc \<Rightarrow>
          (case packet of
             None \<Rightarrow> Inl (LogicError ''packet was moved'')
           | Some p \<Rightarrow>
               rmap (\<lambda>ts. (netifc, request, p) # ts)
                 (if n > pass + 1 then transmit_channels ifcs request n (pass + 1) packet chs
                  else transmit_channels ifcs request n (pass + 1) None chs)))"

definition Middleware_requestTransmission ::
    "(ItsAid \<Rightarrow> ChannelNumber list) \<Rightarrow> NetworkInterface list \<Rightarrow> DataRequestB \<Rightarrow> 'p \<Rightarrow> 'p Transmission list result" where
  "Middleware_requestTransmission allChannels ifcs request packet =
     (let channels = allChannels (its_aid request)
      in transmit_channels ifcs request (length channels) 0 (Some packet) channels)"

definition ItsG5BaseService_request ::
    "(ItsAid \<Rightarrow> ChannelNumber list) \<Rightarrow> NetworkInterface list \<Rightarrow> DataRequestB \<Rightarrow> 'p \<Rightarrow> NetworkInterface option \<Rightarrow>
     'p Transmission list result" where
  "ItsG5BaseService_request allChannels ifcs req packet ifc =
     (case ifc of
        Some i \<Rightarrow> Inr (Middleware_requestTransmission_on req packet i)
      | None \<Rightarrow> Middleware_requestTransmission allChannels ifcs req packet)"

section \<open>Middleware\<close>

text \<open>A service module type, with what the dynamic casts and the virtual \<open>requiresListener\<close> answer.\<close>

record ServiceType =
  st_name :: string
  st_fullName :: string
  st_isBaseService :: bool
  st_isPromiscuous :: bool
  st_requiresListener :: bool

record 'r Middleware =
  mw_dispatcher :: TransportDispatcher
  mw_services :: "nat list"
  mw_descriptors :: "nat \<Rightarrow> ItsG5BaseService"
  mw_created :: "(string \<times> nat) list"
  mw_rng :: 'r

definition Middleware_new :: "'r \<Rightarrow> 'r Middleware" where
  "Middleware_new rng =
     \<lparr>mw_dispatcher = TransportDispatcher_new, mw_services = [], mw_descriptors = (\<lambda>_. \<lparr>m_listeners = []\<rparr>),
      mw_created = [], mw_rng = rng\<rparr>"

definition getChannel :: "(string \<Rightarrow> ChannelNumber result) \<Rightarrow> cXMLElement \<Rightarrow> ChannelNumber result" where
  "getChannel lexical_cast cfg =
     rmap (\<lambda>channel. if channel = 0 then CCH else channel)
       (case getAttribute cfg ''channel'' of None \<Rightarrow> Inr 0 | Some a \<Rightarrow> parseChannelNumber lexical_cast a)"

definition attach_listener :: "nat \<Rightarrow> TransportDescriptor \<Rightarrow> 'r Middleware \<Rightarrow> 'r Middleware" where
  "attach_listener service td m =
     m\<lparr>mw_dispatcher := TransportDispatcher_addListener (Some service) td (mw_dispatcher m),
       mw_descriptors := (mw_descriptors m)(service :=
         ItsG5BaseService_addTransportDescriptor td (mw_descriptors m service))\<rparr>"

definition attach_promiscuous :: "nat \<Rightarrow> ChannelNumber \<Rightarrow> 'r Middleware \<Rightarrow> 'r Middleware" where
  "attach_promiscuous service ch m =
     m\<lparr>mw_dispatcher := TransportDispatcher_addPromiscuousListener (Some service) ch (mw_dispatcher m)\<rparr>"

text \<open>The loop over the listener elements of a service counts ports and channels.\<close>

fun configure_listeners ::
    "(string \<Rightarrow> 32 word result) \<Rightarrow> (string \<Rightarrow> PortNumber result) \<Rightarrow> bool \<Rightarrow> nat \<Rightarrow> cXMLElement list \<Rightarrow>
     nat \<Rightarrow> nat \<Rightarrow> 'r Middleware \<Rightarrow> (nat \<times> nat \<times> 'r Middleware) result" where
  "configure_listeners cast32 cast16 promiscuous service [] ports channels m = Inr (ports, channels, m)"
| "configure_listeners cast32 cast16 promiscuous service (l # ls) ports channels m =
     (case getAttribute l ''port'' of
        Some a \<Rightarrow>
          rbind (cast16 a) (\<lambda>port. rbind (getChannel cast32 l) (\<lambda>ch.
            configure_listeners cast32 cast16 promiscuous service ls (ports + 1) channels
              (attach_listener service (ch, port) m)))
      | None \<Rightarrow>
          (if promiscuous \<and> getAttribute l ''channel'' \<noteq> None then
             rbind (getChannel cast32 l) (\<lambda>ch.
               configure_listeners cast32 cast16 promiscuous service ls ports (channels + 1)
                 (attach_promiscuous service ch m))
           else configure_listeners cast32 cast16 promiscuous service ls ports channels m))"

definition create_service ::
    "(string \<Rightarrow> 32 word result) \<Rightarrow> (string \<Rightarrow> PortNumber result) \<Rightarrow> ServiceType \<Rightarrow> cXMLElement \<Rightarrow> nat \<Rightarrow>
     'r Middleware \<Rightarrow> 'r Middleware result" where
  "create_service cast32 cast16 ty cfg service m =
     (let name = (case getAttribute cfg ''name'' of Some n \<Rightarrow> n | None \<Rightarrow> st_name ty);
          m = m\<lparr>mw_created := mw_created m @ [(name, service)]\<rparr>
      in if st_isBaseService ty then
           rbind (configure_listeners cast32 cast16 (st_isPromiscuous ty) service
                    (getChildrenByTagName cfg ''listener'') 0 0 m) (\<lambda>(ports, channels, m).
             if ports = 0 \<and> \<not> st_isPromiscuous ty \<and> st_requiresListener ty
             then Inl (RuntimeError ''Listening ports are required but none have been specified'')
             else
               (let m = (if st_isPromiscuous ty \<and> channels = 0 then attach_promiscuous service CCH m else m)
                in Inr (m\<lparr>mw_services := insort_insert service (mw_services m)\<rparr>)))
         else Inl (RuntimeError ''module is not of type ItsG5BaseService''))"



text \<open>The update cycle: the first update after a jitter below the interval, then one per interval.\<close>

definition Middleware_first_update :: "simtime \<Rightarrow> simtime \<Rightarrow> simtime \<Rightarrow> simtime" where
  "Middleware_first_update now jitter interval = now + jitter + interval"

fun trigger_services :: "(nat \<Rightarrow> 'w \<Rightarrow> 'w result) \<Rightarrow> nat list \<Rightarrow> 'w \<Rightarrow> 'w result" where
  "trigger_services trigger [] w = Inr w"
| "trigger_services trigger (s # ss) w = rbind (trigger s w) (trigger_services trigger ss)"

definition Middleware_updateServices ::
    "(LocalDynamicMap \<Rightarrow> nat \<Rightarrow> 'w \<Rightarrow> 'w result) \<Rightarrow> simtime \<Rightarrow> nat list \<Rightarrow> simtime \<Rightarrow> LocalDynamicMap \<times> 'w \<Rightarrow>
     ((LocalDynamicMap \<times> 'w) \<times> simtime) result" where
  "Middleware_updateServices trigger interval services now s =
     (let ldm = LocalDynamicMap_dropExpired now (fst s)
      in rmap (\<lambda>w. ((ldm, w), now + interval)) (trigger_services (trigger ldm) services (snd s)))"

text \<open>A change of identity is forwarded to the registry when something was updated.\<close>

definition Middleware_receiveSignal :: "Identity \<Rightarrow> 64 word \<Rightarrow> Identity \<Rightarrow> Identity \<times> RegistrySignal list" where
  "Middleware_receiveSignal upd changes ident =
     (let (changed, ident) = Identity_update upd changes ident
      in (ident, if changed then [UpdateSignal ident] else []))"

definition Middleware_finish :: "Identity \<Rightarrow> RegistrySignal list" where
  "Middleware_finish ident = [RemoveSignal (Some ident)]"

text \<open>\<open>VehicleMiddleware::initialize\<close> announces the identifiers of its vehicle.\<close>

definition VehicleMiddleware_announce :: "string \<Rightarrow> 32 word \<Rightarrow> Identity \<Rightarrow> Identity \<times> RegistrySignal list" where
  "VehicleMiddleware_announce vehicleId stationId ident =
     Middleware_receiveSignal
       \<lparr>id_host = None, id_traci = vehicleId, id_application = stationId, id_geonet = []\<rparr>
       (ChangeTraCI OR ChangeStationId) ident"

section \<open>The contract of a table of listeners\<close>

text \<open>
  The dispatcher keeps sets of listeners under keys.  What the middleware relies on: adding a listener
  adds it under its key and nowhere else, and no listener is listed twice.
\<close>

locale listener_table =
  fixes add :: "'k \<Rightarrow> nat \<Rightarrow> 'm \<Rightarrow> 'm"
    and entries :: "'k \<Rightarrow> 'm \<Rightarrow> nat list"
    and wf :: "'m \<Rightarrow> bool"
  assumes at_add: "wf m \<Longrightarrow> set (entries k' (add k x m)) = (if k' = k then insert x (set (entries k m)) else set (entries k' m))"
    and wf_add: "wf m \<Longrightarrow> wf (add k x m)"
    and distinct_entries: "wf m \<Longrightarrow> distinct (entries k m)"
begin

lemma add_all_wf: "wf m \<Longrightarrow> wf (fold (\<lambda>(k, x). add k x) kxs m)"
  by (induction kxs arbitrary: m) (auto simp: wf_add)

lemma at_add_all:
  "wf m \<Longrightarrow> set (entries k (fold (\<lambda>(k, x). add k x) kxs m)) = set (entries k m) \<union> {x. (k, x) \<in> set kxs}"
  by (induction kxs arbitrary: m) (auto simp: at_add wf_add split: if_splits)

lemma add_idempotent: "wf m \<Longrightarrow> x \<in> set (entries k m) \<Longrightarrow> set (entries k' (add k x m)) = set (entries k' m)"
  by (auto simp: at_add)

end

definition table_ok :: "('k::linorder, nat list) omap \<Rightarrow> bool" where
  "table_ok m \<longleftrightarrow> omap_ok m \<and> (\<forall>xs \<in> snd ` set m. sorted xs \<and> distinct xs)"

lemma listeners_at_ok: "table_ok m \<Longrightarrow> sorted (listeners_at k m) \<and> distinct (listeners_at k m)"
  by (cases "map_of m k") (force simp: table_ok_def listeners_at_def dest: map_of_SomeD)+

lemma set_insert_at:
  "table_ok m \<Longrightarrow> set (listeners_at k' (insert_at k x m)) =
    (if k' = k then insert x (set (listeners_at k m)) else set (listeners_at k' m))"
  by (cases "k' = k") (simp_all add: table_ok_def insert_at_def listeners_at_def map_of_omap_put set_insort_insert)

lemma table_ok_insert_at [inv_intros]: "table_ok m \<Longrightarrow> table_ok (insert_at k x m)"
  using listeners_at_ok [of m k]
  by (auto simp: table_ok_def insert_at_def set_omap_put sorted_insort_insert distinct_insort_insert intro: omap_ok_put)

interpretation ports: listener_table "insert_at :: TransportDescriptor \<Rightarrow> _" listeners_at table_ok
  by unfold_locales (simp_all add: set_insert_at table_ok_insert_at listeners_at_ok)

interpretation promiscuous: listener_table "insert_at :: ChannelNumber \<Rightarrow> _" listeners_at table_ok
  by unfold_locales (simp_all add: set_insert_at table_ok_insert_at listeners_at_ok)

section \<open>Delivery and transmission\<close>


lemma transmit_channels_all:
  "pass + length chs \<le> n \<Longrightarrow> transmit_channels ifcs req n pass (Some p) chs =
    Inr (List.map_filter (\<lambda>ch. map_option (\<lambda>i. (i, req, p)) (NetworkInterfaceTable_select ifcs ch)) chs)"
proof (induction chs arbitrary: pass)
  case (Cons ch chs)
  show ?case
  proof (cases "NetworkInterfaceTable_select ifcs ch")
    case None
    then show ?thesis using Cons by (simp add: List.map_filter_simps)
  next
    case (Some i)
    show ?thesis
    proof (cases "pass + 1 < n")
      case True
      then show ?thesis using Cons Some by (simp add: List.map_filter_simps)
    next
      case False
      then have "chs = []" using Cons.prems by (cases chs) auto
      then show ?thesis using Some False by (simp add: List.map_filter_simps)
    qed
  qed
qed (simp add: List.map_filter_simps)

lemma select_channel: "NetworkInterfaceTable_select ifcs ch = Some i \<Longrightarrow> i \<in> set ifcs \<and> ni_channel i = ch"
  by (induction ifcs) (auto split: if_splits)

section \<open>Service configuration\<close>

text \<open>
  The invariant of the middleware: the dispatcher's tables are well formed, a service is registered
  for a descriptor iff the descriptor is its own, and services are listed once.
\<close>

definition mw_ok :: "'r Middleware \<Rightarrow> bool" where
  "mw_ok m \<longleftrightarrow> table_ok (mListeners (mw_dispatcher m)) \<and> table_ok (mPromiscuousListeners (mw_dispatcher m))
     \<and> (\<forall>s td. s \<in> set (listeners_at td (mListeners (mw_dispatcher m))) \<longleftrightarrow> td \<in> set (m_listeners (mw_descriptors m s)))
     \<and> sorted (mw_services m) \<and> distinct (mw_services m)"

lemma mw_ok_new [inv_intros]: "mw_ok (Middleware_new rng)"
  by (simp add: mw_ok_def Middleware_new_def TransportDispatcher_new_def table_ok_def listeners_at_def)

lemma mw_ok_attach [inv_intros]: "mw_ok m \<Longrightarrow> mw_ok (attach_listener s td m)"
  by (auto simp: mw_ok_def attach_listener_def TransportDispatcher_addListener_def ports.at_add table_ok_insert_at
    ItsG5BaseService_addTransportDescriptor_def set_insort_insert split: if_splits)

lemma mw_ok_promiscuous [inv_intros]: "mw_ok m \<Longrightarrow> mw_ok (attach_promiscuous s ch m)"
  by (simp add: mw_ok_def attach_promiscuous_def TransportDispatcher_addPromiscuousListener_def table_ok_insert_at)

lemma attach_frame [frame_simps]:
  "mw_services (attach_listener s td m) = mw_services m"
  "mw_services (attach_promiscuous s ch m) = mw_services m"
  "mw_descriptors (attach_promiscuous s ch m) = mw_descriptors m"
  by (simp_all add: attach_listener_def attach_promiscuous_def)

lemma configure_listeners_ok:
  "configure_listeners c32 c16 prom s ls ports chans m = Inr (ports', chans', m') \<Longrightarrow> mw_ok m \<Longrightarrow>
    mw_ok m' \<and> mw_services m' = mw_services m \<and> ports \<le> ports'
    \<and> (ports < ports' \<longrightarrow> m_listeners (mw_descriptors m' s) \<noteq> [])
    \<and> (\<forall>s'. m_listeners (mw_descriptors m s') \<noteq> [] \<longrightarrow> m_listeners (mw_descriptors m' s') \<noteq> [])"
proof (induction ls arbitrary: ports chans m)
  case (Cons l ls)
  show ?case
  proof (cases "getAttribute l ''port''")
    case (Some a)
    then obtain port ch where pc: "c16 a = Inr port" "getChannel c32 l = Inr ch"
      "configure_listeners c32 c16 prom s ls (ports + 1) chans (attach_listener s (ch, port) m) = Inr (ports', chans', m')"
      using Cons.prems(1) by (auto simp: rbind_ok_iff)
    have own: "m_listeners (mw_descriptors (attach_listener s (ch, port) m) s) \<noteq> []"
      by (auto simp: attach_listener_def ItsG5BaseService_addTransportDescriptor_def insort_insert_key_def insort_not_Nil)
    have keep: "m_listeners (mw_descriptors (attach_listener s (ch, port) m) s') \<noteq> []"
      if "m_listeners (mw_descriptors m s') \<noteq> []" for s'
      using own that by (cases "s' = s") (auto simp: attach_listener_def)
    show ?thesis
      using Cons.IH [OF pc(3) mw_ok_attach [OF Cons.prems(2)]] own keep by (auto simp: frame_simps)
  next
    case None
    show ?thesis
    proof (cases "prom \<and> getAttribute l ''channel'' \<noteq> None")
      case True
      then obtain ch where "configure_listeners c32 c16 prom s ls ports (chans + 1) (attach_promiscuous s ch m) = Inr (ports', chans', m')"
        using Cons.prems(1) None by (auto simp: rbind_ok_iff)
      from Cons.IH [OF this mw_ok_promiscuous [OF Cons.prems(2)]] show ?thesis by (simp add: frame_simps)
    next
      case False
      then show ?thesis using Cons None by (auto split: if_splits)
    qed
  qed
qed auto

lemma create_service_ok:
  assumes "create_service c32 c16 ty cfg s m = Inr m'" and "mw_ok m"
  shows "mw_ok m' \<and> set (mw_services m') = insert s (set (mw_services m))
    \<and> (st_requiresListener ty \<and> \<not> st_isPromiscuous ty \<longrightarrow> m_listeners (mw_descriptors m' s) \<noteq> [])
    \<and> (\<forall>s'. m_listeners (mw_descriptors m s') \<noteq> [] \<longrightarrow> m_listeners (mw_descriptors m' s') \<noteq> [])"
proof -
  let ?m = "m\<lparr>mw_created := mw_created m @ [(case getAttribute cfg ''name'' of Some n \<Rightarrow> n | None \<Rightarrow> st_name ty, s)]\<rparr>"
  obtain ports chans m1 where c: "configure_listeners c32 c16 (st_isPromiscuous ty) s (getChildrenByTagName cfg ''listener'') 0 0 ?m
      = Inr (ports, chans, m1)"
    and p: "\<not> (ports = 0 \<and> \<not> st_isPromiscuous ty \<and> st_requiresListener ty)"
    and m': "m' = (let m = (if st_isPromiscuous ty \<and> chans = 0 then attach_promiscuous s CCH m1 else m1)
                   in m\<lparr>mw_services := insort_insert s (mw_services m)\<rparr>)"
    using assms(1) by (auto simp: create_service_def Let_def rbind_ok_iff split: if_splits)
  have "mw_ok ?m" using assms(2) by (simp add: mw_ok_def)
  from configure_listeners_ok [OF c this] have m1: "mw_ok m1" "mw_services m1 = mw_services m"
    "0 < ports \<longrightarrow> m_listeners (mw_descriptors m1 s) \<noteq> []"
    "\<forall>s'. m_listeners (mw_descriptors m s') \<noteq> [] \<longrightarrow> m_listeners (mw_descriptors m1 s') \<noteq> []" by auto
  let ?m2 = "if st_isPromiscuous ty \<and> chans = 0 then attach_promiscuous s CCH m1 else m1"
  have m2: "mw_ok ?m2" "mw_services ?m2 = mw_services m" "mw_descriptors ?m2 = mw_descriptors m1"
    using m1 by (auto simp: mw_ok_promiscuous frame_simps)
  then have "mw_ok m'"
    unfolding m' Let_def by (auto simp: mw_ok_def sorted_insort_insert distinct_insort_insert)
  then show ?thesis using m1 m2 p by (auto simp: m' Let_def set_insort_insert)
qed


section \<open>Properties\<close>

text \<open>A transmission request is handed to the router of one interface for each channel of its
  application on which an interface operates, in the order of the channels and with the packet
  intact on every call; the packet is never used after it was moved.\<close>

theorem requestTransmission_all_channels:
  "Middleware_requestTransmission allChannels ifcs request packet =
     Inr (List.map_filter (\<lambda>ch. map_option (\<lambda>i. (i, request, packet)) (NetworkInterfaceTable_select ifcs ch))
        (allChannels (its_aid request)))"
  by (simp add: Middleware_requestTransmission_def transmit_channels_all)



definition ca_type :: ServiceType where
  "ca_type = \<lparr>st_name = ''CaService'', st_fullName = ''artery.application.CaService'', st_isBaseService = True,
     st_isPromiscuous = False, st_requiresListener = True\<rparr>"




text \<open>A service that needs a listener is only accepted with at least one port: configuration without
  any is an error, and so is a module that is no service.\<close>

theorem create_service_requires_port:
  assumes "mw_ok m" and "create_service c32 c16 ty cfg s m = r"
  shows "(case r of
      Inr m' \<Rightarrow> st_isBaseService ty \<and> s \<in> set (mw_services m')
        \<and> (st_requiresListener ty \<and> \<not> st_isPromiscuous ty \<longrightarrow> m_listeners (mw_descriptors m' s) \<noteq> [])
    | Inl e \<Rightarrow> True)
    \<and> (getChildrenByTagName cfg ''listener'' = [] \<and> st_requiresListener ty \<and> \<not> st_isPromiscuous ty \<longrightarrow> \<not> is_ok r)"
proof -
  have base: "st_isBaseService ty" if "r = Inr m'" for m'
    using assms(2) that by (auto simp: create_service_def Let_def split: if_splits)
  have err: "\<not> is_ok r" if "getChildrenByTagName cfg ''listener'' = []" "st_requiresListener ty" "\<not> st_isPromiscuous ty"
    unfolding assms(2) [symmetric] using that by (simp add: create_service_def)
  show ?thesis
    using base err create_service_ok [OF _ assms(1), of c32 c16 ty cfg s] assms(2) by (auto split: sum.split)
qed

theorem create_service_requires_port_witness:
  "\<not> is_ok (create_service (\<lambda>_. Inr 0) (\<lambda>_. Inr 0) ca_type (leaf Map.empty) 3 (Middleware_new (0::nat)))"
  using create_service_requires_port [where m = "Middleware_new (0::nat)" and ?c32.0 = "\<lambda>_. Inr 0" and ?c16.0 = "\<lambda>_. Inr 0"
    and ty = ca_type and cfg = "leaf Map.empty" and s = 3, OF mw_ok_new refl]
  by (simp add: leaf_def ca_type_def)

text \<open>When a vehicle announces itself, the registry finds it by its TraCI identifier with the station
  identifier of its vehicle data, and after it finished the registry no longer knows it.\<close>

theorem announced_vehicle_is_registered:
  assumes "registry_ok r" and "VehicleMiddleware_announce vehicleId stationId ident = (ident', sigs)"
    and "r' = fold IdentityRegistry_receiveSignal sigs r"
  shows "IdentityRegistry_lookup_traci r' vehicleId = Some ident' \<and> id_application ident' = stationId
    \<and> IdentityRegistry_lookup_application r' stationId \<noteq> None
    \<and> IdentityRegistry_lookup_traci (fold IdentityRegistry_receiveSignal (Middleware_finish ident') r') vehicleId = None"
proof -
  have i: "ident' = ident\<lparr>id_traci := vehicleId, id_application := stationId\<rparr>" "sigs = [UpdateSignal ident']"
    using assms(2) by (auto simp: VehicleMiddleware_announce_def Middleware_receiveSignal_def Identity_update_def change_defs)
  have r': "r' = IdentityRegistry_update ident' r" using assms(3) i by simp
  have m: "omap_ok (by_traci r)" using assms(1) by (simp add: registry_ok_def)
  have ok: "registry_ok r'" unfolding r' by (rule registry_ok_update [OF assms(1)])
  have traci: "IdentityRegistry_lookup_traci r' vehicleId = Some ident'"
    using m i by (auto simp: r' IdentityRegistry_lookup_traci_def IdentityRegistry_update_def omap_store.lookup_store
      split: option.split)
  moreover have "IdentityRegistry_lookup_application r' stationId \<noteq> None"
    using lookup_application_complete [OF ok _ traci, of stationId] i by auto
  moreover have "IdentityRegistry_lookup_traci (IdentityRegistry_remove ident' r') vehicleId = None"
    using i by (simp add: IdentityRegistry_lookup_traci_def IdentityRegistry_remove_def map_of_omap_del)
  ultimately show ?thesis using i by (simp add: Middleware_finish_def)
qed

theorem announced_vehicle_is_registered_witness:
  "\<exists>i sigs. VehicleMiddleware_announce ''flow0.7'' 77 example_identity = (i, sigs)
     \<and> IdentityRegistry_lookup_traci (fold IdentityRegistry_receiveSignal sigs IdentityRegistry_new) ''flow0.7'' = Some i"
proof -
  obtain i sigs where "VehicleMiddleware_announce ''flow0.7'' 77 example_identity = (i, sigs)" by force
  with announced_vehicle_is_registered [OF registry_ok_new this refl] show ?thesis by blast
qed

end
