(* ===== verification/Storyboards.thy ===== *)
theory Storyboards
  imports VehicleData
begin

text \<open>
  \<open>artery/storyboard\<close>: stories made of a condition and effects.  At every step of the traffic simulation
  each story's condition is tested on each vehicle; when it becomes true the story's effects are
  stacked on the vehicle, when it no longer holds they are taken off.  Vehicles, stories and effects
  are identified by their addresses.  A limit condition counts vehicles across calls: its counter is
  an object in a store, so that stories may share it.  Containment in a polygon and intersection of
  two outlines belong to the geometry library and are parameters.
\<close>

section \<open>Vehicles and conditions\<close>

type_synonym Position = "real \<times> real"

record StoryVehicle =
  sv_ptr :: nat
  sv_controllerId :: string
  sv_controllerSpeed :: real
  sv_controllerPosition :: Position
  sv_length :: real
  sv_width :: real
  sv_vdpSpeed :: real
  sv_heading :: real
  sv_curvature :: real
  sv_yawRate :: real

type_synonym Vehicles = "(string, StoryVehicle) omap"

datatype ConditionResult = Result_bool bool | Result_set "nat list"

fun is_true :: "ConditionResult \<Rightarrow> bool" where
  "is_true (Result_bool b) = b"
| "is_true (Result_set s) = (s \<noteq> [])"

datatype Condition =
    AndCondition Condition Condition
  | OrCondition Condition Condition
  | CarSetCondition "string list"
  | LimitCondition nat nat
  | PolygonCondition "Position list"
  | SpeedConditionLess real
  | SpeedConditionGreater real
  | SpeedDifferenceConditionFaster real
  | SpeedDifferenceConditionSlower real
  | TimeCondition simtime simtime
  | TtcCondition real real

text \<open>The constructor of a polygon; \<open>correct\<close> is the library's correction of the ring.\<close>

definition PolygonCondition_new :: "(Position list \<Rightarrow> Position list) \<Rightarrow> Position list \<Rightarrow> Condition result" where
  "PolygonCondition_new correct vertices =
     (if hd vertices = last vertices
      then Inl (RuntimeError ''PolygonCondition vector must not contain the first point as end point'')
      else if length vertices \<le> 3
      then Inl (RuntimeError ''PolygonCondition vector must contain at least 3 points'')
      else Inr (PolygonCondition (correct vertices)))"

fun AndVisitor :: "ConditionResult \<Rightarrow> ConditionResult \<Rightarrow> ConditionResult" where
  "AndVisitor (Result_bool lhs) (Result_bool rhs) = Result_bool (lhs \<and> rhs)"
| "AndVisitor (Result_set lhs) (Result_bool rhs) = (if \<not> rhs then Result_bool False else Result_set lhs)"
| "AndVisitor (Result_bool lhs) (Result_set rhs) = (if \<not> lhs then Result_bool False else Result_set rhs)"
| "AndVisitor (Result_set lhs) (Result_set rhs) = Result_set (filter (\<lambda>v. v \<in> set rhs) lhs)"

fun OrVisitor :: "ConditionResult \<Rightarrow> ConditionResult \<Rightarrow> ConditionResult" where
  "OrVisitor (Result_bool lhs) (Result_bool rhs) = Result_bool (lhs \<or> rhs)"
| "OrVisitor (Result_set lhs) (Result_bool rhs) = (if lhs = [] then Result_bool rhs else Result_set lhs)"
| "OrVisitor (Result_bool lhs) (Result_set rhs) = (if rhs = [] then Result_bool lhs else Result_set rhs)"
| "OrVisitor (Result_set lhs) (Result_set rhs) = Result_set (fold insort_insert rhs lhs)"

section \<open>Time to collision\<close>

record CarShape =
  FrontRight :: Position
  RearRight :: Position
  RearLeft :: Position
  FrontLeft :: Position

definition TtcCondition_getShape :: "Position \<Rightarrow> real \<Rightarrow> real \<Rightarrow> real \<Rightarrow> CarShape" where
  "TtcCondition_getShape pos angle len width =
     (let halfLength = len * 0.5; halfWidth = width * 0.5;
          heading = pi / 2 - angle; sinH = sin heading; cosH = cos heading;
          fm = (cosH * halfLength + fst pos, - sinH * halfLength + snd pos);
          fl = (- sinH * halfWidth + fst fm, - cosH * halfWidth + snd fm);
          fr = (sinH * halfWidth + fst fm, cosH * halfWidth + snd fm);
          rm = (- cosH * halfLength + fst pos, sinH * halfLength + snd pos);
          rr = (sinH * halfWidth + fst rm, cosH * halfWidth + snd rm);
          rl = (- sinH * halfWidth + fst rm, - cosH * halfWidth + snd rm)
      in \<lparr>FrontRight = fr, RearRight = rr, RearLeft = rl, FrontLeft = fl\<rparr>)"

text \<open>The controller reports the middle of the front bumper.\<close>

definition car_center :: "StoryVehicle \<Rightarrow> Position" where
  "car_center v =
     (- cos (pi / 2 - sv_heading v) * sv_length v / 2 + fst (sv_controllerPosition v),
      sin (pi / 2 - sv_heading v) * sv_length v / 2 + snd (sv_controllerPosition v))"

fun curved_route :: "real \<Rightarrow> Position \<Rightarrow> real \<Rightarrow> real \<Rightarrow> real \<Rightarrow> nat \<Rightarrow> real \<Rightarrow> CarShape list" where
  "curved_route radius curveCenter angleG len width 0 carHeading = []"
| "curved_route radius curveCenter angleG len width (Suc n) carHeading =
     (let angleD = carHeading - angleG;
          nextPosition = (radius * cos angleD + fst curveCenter, radius * sin angleD + snd curveCenter);
          carHeading = carHeading - angleG
      in TtcCondition_getShape nextPosition carHeading len width
         # curved_route radius curveCenter angleG len width n carHeading)"

definition straight_position :: "StoryVehicle \<Rightarrow> real \<Rightarrow> nat \<Rightarrow> Position" where
  "straight_position v dt i =
     (let heading = pi / 2 - sv_heading v; distance = sv_vdpSpeed v * dt
      in (cos heading * real i * distance + fst (car_center v), - sin heading * real i * distance + snd (car_center v)))"

definition TtcCondition_calculateRoute :: "StoryVehicle \<Rightarrow> int \<Rightarrow> real \<Rightarrow> CarShape list" where
  "TtcCondition_calculateRoute v steps dt =
     (if \<bar>sv_curvature v\<bar> > 0 then
        (let radius = 1 / sv_curvature v;
             curveCenter = (- radius * cos (sv_heading v) + fst (car_center v),
                            - radius * sin (sv_heading v) + snd (car_center v))
         in curved_route radius curveCenter (sv_yawRate v * dt) (sv_length v) (sv_width v) (nat steps) (sv_heading v))
      else map (\<lambda>i. TtcCondition_getShape (straight_position v dt i) (sv_heading v) (sv_length v) (sv_width v))
             [1..<Suc (nat steps)])"

text \<open>\<open>None\<close> is the infinite time of a standing vehicle.\<close>

definition time_per_length :: "StoryVehicle \<Rightarrow> real option" where
  "time_per_length v = (if sv_vdpSpeed v = 0 then None else Some (sv_length v / sv_vdpSpeed v))"

fun min_time :: "real option \<Rightarrow> real option \<Rightarrow> real option" where
  "min_time None b = b"
| "min_time a None = a"
| "min_time (Some a) (Some b) = Some (min a b)"

definition TtcCondition_calculateTimeDelta :: "StoryVehicle \<Rightarrow> StoryVehicle \<Rightarrow> real option" where
  "TtcCondition_calculateTimeDelta car1 car2 = min_time (time_per_length car1) (time_per_length car2)"

definition TtcCondition_intersect ::
    "(CarShape \<Rightarrow> CarShape \<Rightarrow> bool) \<Rightarrow> real \<Rightarrow> real \<Rightarrow> StoryVehicle \<Rightarrow> StoryVehicle \<Rightarrow> bool" where
  "TtcCondition_intersect intersects ttc threshold car1 car2 =
     (if position_distance (sv_controllerPosition car1) (sv_controllerPosition car2) \<le> threshold then
        (let (steps, dt) = (case TtcCondition_calculateTimeDelta car1 car2 of
                              None \<Rightarrow> (0, 0)
                            | Some dt \<Rightarrow> (\<lceil>ttc / dt\<rceil>, dt));
             egoRoute = TtcCondition_calculateRoute car1 steps dt;
             otherRoute = TtcCondition_calculateRoute car2 steps dt;
             no_intersection = list_all2 (\<lambda>s1 s2. \<not> intersects s1 s2) egoRoute otherRoute
         in \<not> no_intersection)
      else False)"

section \<open>Testing conditions\<close>

record ConditionEnvironment =
  ce_now :: simtime
  ce_within :: "Position \<Rightarrow> Position list \<Rightarrow> bool"
  ce_intersects :: "CarShape \<Rightarrow> CarShape \<Rightarrow> bool"

type_synonym Limits = "nat \<Rightarrow> nat list"

text \<open>The addresses of the vehicles with a property, as the set of pointers they are collected in.\<close>

definition affected :: "(string \<times> StoryVehicle \<Rightarrow> bool) \<Rightarrow> Vehicles \<Rightarrow> nat list" where
  "affected P vs = sort (remdups (map (\<lambda>e. sv_ptr (snd e)) (filter P vs)))"

definition LimitCondition_testCondition :: "nat \<Rightarrow> nat \<Rightarrow> StoryVehicle \<Rightarrow> Limits \<Rightarrow> ConditionResult \<times> Limits" where
  "LimitCondition_testCondition limit oid car limits =
     (if sv_ptr car \<in> set (limits oid) then (Result_bool True, limits)
      else if length (limits oid) < limit
      then (Result_bool True, limits(oid := insort_insert (sv_ptr car) (limits oid)))
      else (Result_bool False, limits))"

text \<open>One definition per class; the operands of a conjunction and a disjunction are given by their tests.\<close>

definition AndCondition_testCondition ::
    "(Limits \<Rightarrow> ConditionResult \<times> Limits) \<Rightarrow> (Limits \<Rightarrow> ConditionResult \<times> Limits) \<Rightarrow> Limits \<Rightarrow> ConditionResult \<times> Limits" where
  "AndCondition_testCondition m_left m_right limits =
     (let (lhs, limits) = m_left limits
      in if is_true lhs then (let (rhs, limits) = m_right limits in (AndVisitor lhs rhs, limits))
         else (lhs, limits))"

definition OrCondition_testCondition ::
    "(Limits \<Rightarrow> ConditionResult \<times> Limits) \<Rightarrow> (Limits \<Rightarrow> ConditionResult \<times> Limits) \<Rightarrow> Limits \<Rightarrow> ConditionResult \<times> Limits" where
  "OrCondition_testCondition m_left m_right limits =
     (let (lhs, limits) = m_left limits
      in if \<not> is_true lhs then (let (rhs, limits) = m_right limits in (OrVisitor lhs rhs, limits))
         else (lhs, limits))"

definition CarSetCondition_testCondition :: "string list \<Rightarrow> StoryVehicle \<Rightarrow> ConditionResult" where
  "CarSetCondition_testCondition m_cars car = Result_bool (sv_controllerId car \<in> set m_cars)"

definition PolygonCondition_testCondition :: "ConditionEnvironment \<Rightarrow> Position list \<Rightarrow> StoryVehicle \<Rightarrow> ConditionResult" where
  "PolygonCondition_testCondition env m_vertices car = Result_bool (ce_within env (sv_controllerPosition car) m_vertices)"

definition SpeedCondition_testCondition :: "(real \<Rightarrow> real \<Rightarrow> bool) \<Rightarrow> real \<Rightarrow> StoryVehicle \<Rightarrow> ConditionResult" where
  "SpeedCondition_testCondition m_comp m_speed car = Result_bool (m_comp (sv_vdpSpeed car) m_speed)"

definition SpeedDifferenceConditionFaster_testCondition :: "Vehicles \<Rightarrow> real \<Rightarrow> StoryVehicle \<Rightarrow> ConditionResult" where
  "SpeedDifferenceConditionFaster_testCondition vs mSpeedDifference car =
     Result_set (affected (\<lambda>other. sv_controllerSpeed car - sv_controllerSpeed (snd other) > mSpeedDifference) vs)"

definition SpeedDifferenceConditionSlower_testCondition :: "Vehicles \<Rightarrow> real \<Rightarrow> StoryVehicle \<Rightarrow> ConditionResult" where
  "SpeedDifferenceConditionSlower_testCondition vs mSpeedDifference car =
     Result_set (affected (\<lambda>other. sv_controllerSpeed (snd other) - sv_controllerSpeed car > mSpeedDifference) vs)"

definition TimeCondition_testCondition :: "simtime \<Rightarrow> simtime \<Rightarrow> simtime \<Rightarrow> ConditionResult" where
  "TimeCondition_testCondition now m_begin m_end = Result_bool (now \<ge> m_begin \<and> now \<le> m_end)"

definition TtcCondition_testCondition ::
    "(CarShape \<Rightarrow> CarShape \<Rightarrow> bool) \<Rightarrow> Vehicles \<Rightarrow> real \<Rightarrow> real \<Rightarrow> StoryVehicle \<Rightarrow> ConditionResult" where
  "TtcCondition_testCondition intersects vs ttc threshold car =
     Result_set (affected (\<lambda>testCar. fst testCar \<noteq> sv_controllerId car
       \<and> TtcCondition_intersect intersects ttc threshold car (snd testCar)) vs)"

fun Condition_testCondition ::
    "ConditionEnvironment \<Rightarrow> Vehicles \<Rightarrow> StoryVehicle \<Rightarrow> Condition \<Rightarrow> Limits \<Rightarrow> ConditionResult \<times> Limits" where
  "Condition_testCondition env vs car (AndCondition l r) limits =
     AndCondition_testCondition (Condition_testCondition env vs car l) (Condition_testCondition env vs car r) limits"
| "Condition_testCondition env vs car (OrCondition l r) limits =
     OrCondition_testCondition (Condition_testCondition env vs car l) (Condition_testCondition env vs car r) limits"
| "Condition_testCondition env vs car (CarSetCondition cars) limits = (CarSetCondition_testCondition cars car, limits)"
| "Condition_testCondition env vs car (LimitCondition limit oid) limits = LimitCondition_testCondition limit oid car limits"
| "Condition_testCondition env vs car (PolygonCondition vertices) limits = (PolygonCondition_testCondition env vertices car, limits)"
| "Condition_testCondition env vs car (SpeedConditionLess speed) limits = (SpeedCondition_testCondition (<) speed car, limits)"
| "Condition_testCondition env vs car (SpeedConditionGreater speed) limits = (SpeedCondition_testCondition (>) speed car, limits)"
| "Condition_testCondition env vs car (SpeedDifferenceConditionFaster d) limits =
     (SpeedDifferenceConditionFaster_testCondition vs d car, limits)"
| "Condition_testCondition env vs car (SpeedDifferenceConditionSlower d) limits =
     (SpeedDifferenceConditionSlower_testCondition vs d car, limits)"
| "Condition_testCondition env vs car (TimeCondition t_begin t_end) limits =
     (TimeCondition_testCondition (ce_now env) t_begin t_end, limits)"
| "Condition_testCondition env vs car (TtcCondition ttc threshold) limits =
     (TtcCondition_testCondition (ce_intersects env) vs ttc threshold car, limits)"

lemmas condition_defs = AndCondition_testCondition_def OrCondition_testCondition_def CarSetCondition_testCondition_def
  PolygonCondition_testCondition_def SpeedCondition_testCondition_def SpeedDifferenceConditionFaster_testCondition_def
  SpeedDifferenceConditionSlower_testCondition_def TimeCondition_testCondition_def TtcCondition_testCondition_def

section \<open>Effects\<close>

datatype EffectKind =
    SpeedEffect real real
  | StopEffect
  | SignalEffect string ConditionResult

record Effect =
  eff_ptr :: nat
  eff_story :: nat
  eff_car :: nat
  eff_kind :: EffectKind

text \<open>What effects change: a vehicle's maximum speed and commanded speed, and the signals emitted.\<close>

record Controller =
  ctl_maxSpeed :: real
  ctl_speed :: real

record StoryboardSignal =
  sig_story :: nat
  sig_cause :: string
  sig_ego :: nat
  sig_others :: "nat list"

record StoryWorld =
  controllers :: "nat \<Rightarrow> Controller"
  signals :: "StoryboardSignal list"

definition setMaxSpeed :: "nat \<Rightarrow> real \<Rightarrow> StoryWorld \<Rightarrow> StoryWorld" where
  "setMaxSpeed car v w = w\<lparr>controllers := (controllers w)(car := (controllers w car)\<lparr>ctl_maxSpeed := v\<rparr>)\<rparr>"

definition setSpeed :: "nat \<Rightarrow> real \<Rightarrow> StoryWorld \<Rightarrow> StoryWorld" where
  "setSpeed car v w = w\<lparr>controllers := (controllers w)(car := (controllers w car)\<lparr>ctl_speed := v\<rparr>)\<rparr>"

fun other_vehicles :: "ConditionResult \<Rightarrow> nat list" where
  "other_vehicles (Result_bool b) = []"
| "other_vehicles (Result_set s) = s"

definition SpeedEffect_applyEffect :: "Effect \<Rightarrow> real \<Rightarrow> StoryWorld \<Rightarrow> Effect \<times> StoryWorld" where
  "SpeedEffect_applyEffect e m_speed w =
     (e\<lparr>eff_kind := SpeedEffect m_speed (ctl_maxSpeed (controllers w (eff_car e)))\<rparr>, setMaxSpeed (eff_car e) m_speed w)"

definition SpeedEffect_removeEffect :: "Effect \<Rightarrow> real \<Rightarrow> StoryWorld \<Rightarrow> StoryWorld" where
  "SpeedEffect_removeEffect e m_current w = setMaxSpeed (eff_car e) m_current w"

definition StopEffect_applyEffect :: "Effect \<Rightarrow> StoryWorld \<Rightarrow> StoryWorld" where
  "StopEffect_applyEffect e w = setSpeed (eff_car e) 0 w"

definition StopEffect_removeEffect :: "Effect \<Rightarrow> StoryWorld \<Rightarrow> StoryWorld" where
  "StopEffect_removeEffect e w = setSpeed (eff_car e) (- 1) w"

definition SignalEffect_applyEffect :: "Effect \<Rightarrow> string \<Rightarrow> ConditionResult \<Rightarrow> StoryWorld \<Rightarrow> StoryWorld" where
  "SignalEffect_applyEffect e mTriggerCause mResult w =
     w\<lparr>signals := signals w @ [\<lparr>sig_story = eff_story e, sig_cause = mTriggerCause, sig_ego = eff_car e,
         sig_others = other_vehicles mResult\<rparr>]\<rparr>"

text \<open>The virtual functions of \<open>Effect\<close>; a signal is neither removed nor emitted again.\<close>

definition Effect_applyEffect :: "Effect \<Rightarrow> StoryWorld \<Rightarrow> Effect \<times> StoryWorld" where
  "Effect_applyEffect e w =
     (case eff_kind e of
        SpeedEffect speed current \<Rightarrow> SpeedEffect_applyEffect e speed w
      | StopEffect \<Rightarrow> (e, StopEffect_applyEffect e w)
      | SignalEffect cause res \<Rightarrow> (e, SignalEffect_applyEffect e cause res w))"

definition Effect_removeEffect :: "Effect \<Rightarrow> StoryWorld \<Rightarrow> StoryWorld" where
  "Effect_removeEffect e w =
     (case eff_kind e of
        SpeedEffect speed current \<Rightarrow> SpeedEffect_removeEffect e current w
      | StopEffect \<Rightarrow> StopEffect_removeEffect e w
      | SignalEffect cause res \<Rightarrow> w)"

definition Effect_reapplyEffect :: "Effect \<Rightarrow> StoryWorld \<Rightarrow> Effect \<times> StoryWorld" where
  "Effect_reapplyEffect e w =
     (case eff_kind e of
        SpeedEffect speed current \<Rightarrow> SpeedEffect_applyEffect e speed w
      | StopEffect \<Rightarrow> (e, StopEffect_applyEffect e w)
      | SignalEffect cause res \<Rightarrow> (e, w))"

lemmas effect_defs = Effect_applyEffect_def Effect_removeEffect_def Effect_reapplyEffect_def
  SpeedEffect_applyEffect_def SpeedEffect_removeEffect_def StopEffect_applyEffect_def StopEffect_removeEffect_def
  SignalEffect_applyEffect_def setMaxSpeed_def setSpeed_def

section \<open>Effect stack\<close>

text \<open>\<open>m_effects\<close> from bottom to top.\<close>

definition EffectStack_addEffect :: "Effect \<Rightarrow> Effect list \<Rightarrow> StoryWorld \<Rightarrow> Effect list \<times> StoryWorld" where
  "EffectStack_addEffect e st w =
     (if eff_ptr e \<notin> eff_ptr ` set st
      then (let (e, w) = Effect_applyEffect e w in (st @ [e], w))
      else (st, w))"

text \<open>The loop from the top: it returns the remaining effects from the top and how many it removed before.\<close>

fun remove_down_to :: "nat \<Rightarrow> Effect list \<Rightarrow> StoryWorld \<Rightarrow> Effect list \<times> nat \<times> StoryWorld" where
  "remove_down_to target [] w = ([], 0, w)"
| "remove_down_to target (e # es) w =
     (let w = Effect_removeEffect e w
      in if eff_ptr e = target then (es, 0, w)
         else (let (es', n, w) = remove_down_to target es w in (e # es', n + 1, w)))"

fun reapply_all :: "Effect list \<Rightarrow> StoryWorld \<Rightarrow> Effect list \<times> StoryWorld" where
  "reapply_all [] w = ([], w)"
| "reapply_all (e # es) w =
     (let (e', w) = Effect_reapplyEffect e w; (es', w) = reapply_all es w in (e' # es', w))"

text \<open>\<open>effectCount\<close> is never advanced, so every effect is tested against zero.\<close>

definition EffectStack_removeFromMiddle :: "nat \<Rightarrow> Effect list \<Rightarrow> StoryWorld \<Rightarrow> Effect list \<times> StoryWorld" where
  "EffectStack_removeFromMiddle target st w =
     (let (rest, removedEffects, w) = remove_down_to target (rev st) w;
          st = rev rest; effectCount = 0
      in if effectCount \<ge> length st - removedEffects then reapply_all st w else (st, w))"

definition EffectStack_removeEffect :: "nat \<Rightarrow> Effect list \<Rightarrow> StoryWorld \<Rightarrow> Effect list \<times> StoryWorld" where
  "EffectStack_removeEffect target st w =
     (if st \<noteq> [] \<and> target = eff_ptr (last st)
      then (butlast st, Effect_removeEffect (last st) w)
      else EffectStack_removeFromMiddle target st w)"

fun remove_effects :: "nat list \<Rightarrow> Effect list \<Rightarrow> StoryWorld \<Rightarrow> Effect list \<times> StoryWorld" where
  "remove_effects [] st w = (st, w)"
| "remove_effects (t # ts) st w = (let (st, w) = EffectStack_removeEffect t st w in remove_effects ts st w)"

definition EffectStack_removeEffectsByStory :: "nat \<Rightarrow> Effect list \<Rightarrow> StoryWorld \<Rightarrow> Effect list \<times> StoryWorld" where
  "EffectStack_removeEffectsByStory story st w =
     remove_effects (map eff_ptr (filter (\<lambda>e. eff_story e = story) st)) st w"

definition EffectStack_isStoryOnStack :: "nat \<Rightarrow> Effect list \<Rightarrow> bool" where
  "EffectStack_isStoryOnStack story st \<longleftrightarrow> (\<exists>e \<in> set st. eff_story e = story)"

section \<open>Storyboard\<close>

datatype EffectFactory = SpeedEffectFactory real | StopEffectFactory | SignalEffectFactory string

record Story =
  story_ptr :: nat
  m_condition :: Condition
  m_factories :: "EffectFactory list"

record Storyboard =
  m_vehicles :: Vehicles
  m_stories :: "Story list"
  m_affectedCars :: "(nat, Effect list) omap"
  sb_limits :: Limits
  sb_world :: StoryWorld
  sb_next :: nat

fun EffectFactory_create :: "EffectFactory \<Rightarrow> nat \<Rightarrow> nat \<Rightarrow> nat \<Rightarrow> ConditionResult \<Rightarrow> Effect" where
  "EffectFactory_create (SpeedEffectFactory speed) ptr car story res =
     \<lparr>eff_ptr = ptr, eff_story = story, eff_car = car, eff_kind = SpeedEffect speed 0\<rparr>"
| "EffectFactory_create StopEffectFactory ptr car story res =
     \<lparr>eff_ptr = ptr, eff_story = story, eff_car = car, eff_kind = StopEffect\<rparr>"
| "EffectFactory_create (SignalEffectFactory cause) ptr car story res =
     \<lparr>eff_ptr = ptr, eff_story = story, eff_car = car, eff_kind = SignalEffect cause res\<rparr>"

text \<open>New effects take fresh addresses.\<close>

fun create_effects :: "EffectFactory list \<Rightarrow> nat \<Rightarrow> nat \<Rightarrow> nat \<Rightarrow> ConditionResult \<Rightarrow> Effect list" where
  "create_effects [] ptr car story res = []"
| "create_effects (f # fs) ptr car story res =
     EffectFactory_create f ptr car story res # create_effects fs (Suc ptr) car story res"

definition effect_stack :: "nat \<Rightarrow> Storyboard \<Rightarrow> Effect list" where
  "effect_stack car b = (case map_of (m_affectedCars b) car of None \<Rightarrow> [] | Some st \<Rightarrow> st)"

definition Storyboard_storyApplied :: "nat \<Rightarrow> nat \<Rightarrow> Storyboard \<Rightarrow> bool" where
  "Storyboard_storyApplied car story b =
     (case map_of (m_affectedCars b) car of
        None \<Rightarrow> False
      | Some st \<Rightarrow> EffectStack_isStoryOnStack story st)"

fun add_effects :: "Effect list \<Rightarrow> Effect list \<Rightarrow> StoryWorld \<Rightarrow> Effect list \<times> StoryWorld" where
  "add_effects [] st w = (st, w)"
| "add_effects (e # es) st w = (let (st, w) = EffectStack_addEffect e st w in add_effects es st w)"

definition Storyboard_addEffect :: "Effect list \<Rightarrow> Storyboard \<Rightarrow> Storyboard result" where
  "Storyboard_addEffect effects b =
     (case effects of
        [] \<Rightarrow> Inl (LogicError ''front of empty vector'')
      | e # _ \<Rightarrow>
          if map_of (m_affectedCars b) (eff_car e) = None
             \<or> \<not> EffectStack_isStoryOnStack (eff_story e) (effect_stack (eff_car e) b)
          then (let (st, w) = add_effects effects (effect_stack (eff_car e) b) (sb_world b)
                in Inr (b\<lparr>m_affectedCars := omap_put (eff_car e) st (m_affectedCars b), sb_world := w\<rparr>))
          else Inl (RuntimeError ''It's not allowed to add effects from a Story twice''))"

definition Storyboard_removeStory :: "nat \<Rightarrow> nat \<Rightarrow> Storyboard \<Rightarrow> Storyboard" where
  "Storyboard_removeStory car story b =
     (let (st, w) = EffectStack_removeEffectsByStory story (effect_stack car b) (sb_world b)
      in b\<lparr>m_affectedCars := omap_put car st (m_affectedCars b), sb_world := w\<rparr>)"

definition Storyboard_checkCar :: "nat \<Rightarrow> ConditionResult \<Rightarrow> Story \<Rightarrow> Storyboard \<Rightarrow> Storyboard result" where
  "Storyboard_checkCar car conditionResult story b =
     (if Storyboard_storyApplied car (story_ptr story) b then
        (if \<not> is_true conditionResult then Inr (Storyboard_removeStory car (story_ptr story) b) else Inr b)
      else if is_true conditionResult then
        (let effects = create_effects (m_factories story) (sb_next b) car (story_ptr story) conditionResult
         in Storyboard_addEffect effects (b\<lparr>sb_next := sb_next b + length effects\<rparr>))
      else Inr b)"

text \<open>\<open>updateStoryboard\<close>: for all cars in the order of their names, for all stories.\<close>

fun check_stories :: "ConditionEnvironment \<Rightarrow> StoryVehicle \<Rightarrow> Story list \<Rightarrow> Storyboard \<Rightarrow> Storyboard result" where
  "check_stories env car [] b = Inr b"
| "check_stories env car (s # ss) b =
     (let (res, limits) = Condition_testCondition env (m_vehicles b) car (m_condition s) (sb_limits b)
      in rbind (Storyboard_checkCar (sv_ptr car) res s (b\<lparr>sb_limits := limits\<rparr>)) (check_stories env car ss))"

fun check_cars :: "ConditionEnvironment \<Rightarrow> StoryVehicle list \<Rightarrow> Storyboard \<Rightarrow> Storyboard result" where
  "check_cars env [] b = Inr b"
| "check_cars env (c # cs) b = rbind (check_stories env c (m_stories b) b) (check_cars env cs)"

definition Storyboard_updateStoryboard :: "ConditionEnvironment \<Rightarrow> Storyboard \<Rightarrow> Storyboard result" where
  "Storyboard_updateStoryboard env b = check_cars env (map snd (m_vehicles b)) b"

definition Storyboard_registerStory :: "Story \<Rightarrow> Storyboard \<Rightarrow> Storyboard" where
  "Storyboard_registerStory s b = b\<lparr>m_stories := m_stories b @ [s]\<rparr>"

text \<open>
  Nodes appearing and leaving: a node with middleware is emplaced at the given address unless its
  name is known; a node that leaves is erased, its effect stack is not.
\<close>

definition Storyboard_addNode :: "string \<Rightarrow> StoryVehicle option \<Rightarrow> Storyboard \<Rightarrow> Storyboard" where
  "Storyboard_addNode nodeId v b =
     (case v of
        None \<Rightarrow> b
      | Some car \<Rightarrow> if map_of (m_vehicles b) nodeId = None
                    then b\<lparr>m_vehicles := omap_put nodeId car (m_vehicles b)\<rparr> else b)"

definition Storyboard_removeNode :: "string \<Rightarrow> Storyboard \<Rightarrow> Storyboard" where
  "Storyboard_removeNode nodeId b = b\<lparr>m_vehicles := omap_del nodeId (m_vehicles b)\<rparr>"

section \<open>Conditions\<close>

lemma is_true_Or: "is_true (OrVisitor l r) \<longleftrightarrow> is_true l \<or> is_true r"
proof (cases "(l, r)" rule: OrVisitor.cases)
  case (4 lhs rhs)
  have "set (fold insort_insert rhs lhs) = set rhs \<union> set lhs"
    by (induction rhs arbitrary: lhs) (auto simp: set_insort_insert)
  then have "fold insort_insert rhs lhs = [] \<longleftrightarrow> rhs = [] \<and> lhs = []" by (metis Un_empty set_empty)
  then show ?thesis using 4 by auto
qed auto

lemma is_true_And:
  "is_true (AndVisitor l r) \<longleftrightarrow> is_true l \<and> is_true r
     \<and> (case (l, r) of (Result_set a, Result_set b) \<Rightarrow> set a \<inter> set b \<noteq> {} | _ \<Rightarrow> True)"
  by (cases "(l, r)" rule: AndVisitor.cases) (auto simp: filter_empty_conv)

lemma set_affected: "set (affected P vs) = {sv_ptr v |n v. (n, v) \<in> set vs \<and> P (n, v)}"
  by (force simp: affected_def)

text \<open>A limit never counts more vehicles than its limit, and never forgets one.\<close>

definition limits_ok :: "nat \<Rightarrow> nat \<Rightarrow> Limits \<Rightarrow> bool" where
  "limits_ok oid n limits \<longleftrightarrow> length (limits oid) \<le> n \<and> sorted (limits oid) \<and> distinct (limits oid)"

fun limit_ids :: "Condition \<Rightarrow> (nat \<times> nat) set" where
  "limit_ids (AndCondition l r) = limit_ids l \<union> limit_ids r"
| "limit_ids (OrCondition l r) = limit_ids l \<union> limit_ids r"
| "limit_ids (LimitCondition limit oid) = {(oid, limit)}"
| "limit_ids _ = {}"

lemma limit_test_ok:
  assumes "limits_ok oid n limits" and "oid = oid' \<longrightarrow> limit = n"
  shows "limits_ok oid n (snd (LimitCondition_testCondition limit oid' car limits))
    \<and> set (limits oid) \<subseteq> set (snd (LimitCondition_testCondition limit oid' car limits) oid)"
  using assms
  by (auto simp: LimitCondition_testCondition_def limits_ok_def insort_insert_key_def sorted_insort distinct_insort
    set_insort_key)

lemma test_limits_ok:
  assumes "limits_ok oid n limits" and "\<forall>(o', n') \<in> limit_ids c. o' = oid \<longrightarrow> n' = n"
  shows "limits_ok oid n (snd (Condition_testCondition env vs car c limits))
    \<and> set (limits oid) \<subseteq> set (snd (Condition_testCondition env vs car c limits) oid)"
  using assms
proof (induction c arbitrary: limits)
  case (AndCondition l r)
  obtain lhs l1 where l: "Condition_testCondition env vs car l limits = (lhs, l1)" by force
  have 1: "limits_ok oid n l1 \<and> set (limits oid) \<subseteq> set (l1 oid)"
    using AndCondition.IH(1) [OF AndCondition.prems(1)] AndCondition.prems(2) l by auto
  then show ?case
    using AndCondition.IH(2) [of l1] AndCondition.prems(2) l by (auto simp: condition_defs case_prod_beta)
next
  case (OrCondition l r)
  obtain lhs l1 where l: "Condition_testCondition env vs car l limits = (lhs, l1)" by force
  have 1: "limits_ok oid n l1 \<and> set (limits oid) \<subseteq> set (l1 oid)"
    using OrCondition.IH(1) [OF OrCondition.prems(1)] OrCondition.prems(2) l by auto
  then show ?case
    using OrCondition.IH(2) [of l1] OrCondition.prems(2) l by (auto simp: condition_defs case_prod_beta)
next
  case (LimitCondition limit oid')
  then show ?case using limit_test_ok [of oid n limits oid' limit car] by auto
qed auto

section \<open>The stack of a vehicle\<close>

abbreviation key :: "Effect \<Rightarrow> nat \<times> nat \<times> nat" where
  "key e \<equiv> (eff_ptr e, eff_story e, eff_car e)"

abbreviation max_of :: "StoryWorld \<Rightarrow> nat \<Rightarrow> real" where
  "max_of w car \<equiv> ctl_maxSpeed (controllers w car)"

lemma apply_frame [frame_simps]:
  "key (fst (Effect_applyEffect e w)) = key e"
  "key (fst (Effect_reapplyEffect e w)) = key e"
  "car \<noteq> eff_car e \<Longrightarrow> controllers (snd (Effect_applyEffect e w)) car = controllers w car"
  "car \<noteq> eff_car e \<Longrightarrow> controllers (snd (Effect_reapplyEffect e w)) car = controllers w car"
  "car \<noteq> eff_car e \<Longrightarrow> controllers (Effect_removeEffect e w) car = controllers w car"
  "signals (Effect_removeEffect e w) = signals w"
  "signals (snd (Effect_reapplyEffect e w)) = signals w"
  by (auto simp: effect_defs split: EffectKind.splits)

text \<open>
  \<open>stacked v st u\<close>: the speed effects of \<open>st\<close> were applied one after the other, starting from the maximum
  speed \<open>v\<close> and ending at \<open>u\<close>; each remembers the speed it replaced.
\<close>

fun stacked :: "real \<Rightarrow> Effect list \<Rightarrow> real \<Rightarrow> bool" where
  "stacked v [] u \<longleftrightarrow> u = v"
| "stacked v (e # es) u \<longleftrightarrow>
     (case eff_kind e of SpeedEffect s cur \<Rightarrow> cur = v \<and> stacked s es u | _ \<Rightarrow> stacked v es u)"

lemma stacked_append: "stacked v (xs @ ys) u \<longleftrightarrow> (\<exists>m. stacked v xs m \<and> stacked m ys u)"
  by (induction xs arbitrary: v) (auto split: EffectKind.splits)

lemma stacked_apply: "stacked (max_of w (eff_car e)) [fst (Effect_applyEffect e w)] (max_of (snd (Effect_applyEffect e w)) (eff_car e))"
  by (auto simp: effect_defs split: EffectKind.splits)

lemma stacked_reapply: "stacked (max_of w (eff_car e)) [fst (Effect_reapplyEffect e w)] (max_of (snd (Effect_reapplyEffect e w)) (eff_car e))"
  by (auto simp: effect_defs split: EffectKind.splits)

lemma stacked_remove: "stacked v [e] (max_of w (eff_car e)) \<Longrightarrow> max_of (Effect_removeEffect e w) (eff_car e) = v"
  by (auto simp: effect_defs split: EffectKind.splits)

lemma reapply_all_stacked:
  assumes "\<forall>e \<in> set st. eff_car e = car" and "reapply_all st w = (st', w')"
  shows "map key st' = map key st \<and> stacked (max_of w car) st' (max_of w' car) \<and> signals w' = signals w
    \<and> (\<forall>c. c \<noteq> car \<longrightarrow> controllers w' c = controllers w c)"
  using assms
proof (induction st arbitrary: w st' w')
  case (Cons e es)
  obtain e1 w1 where e1: "Effect_reapplyEffect e w = (e1, w1)" by force
  obtain es1 w2 where es1: "reapply_all es w1 = (es1, w2)" by force
  have r: "st' = e1 # es1" "w' = w2" using Cons.prems(2) e1 es1 by simp_all
  have "key e1 = key e" "stacked (max_of w car) [e1] (max_of w1 car)" "signals w1 = signals w"
    "\<And>c. c \<noteq> car \<Longrightarrow> controllers w1 c = controllers w c"
    using apply_frame(2,7) [of e w] apply_frame(4) [of _ e w] stacked_reapply [of w e] Cons.prems(1) e1 by auto
  then show ?case
    using Cons.IH [OF _ es1] Cons.prems(1) stacked_append [of "max_of w car" "[e1]" es1 "max_of w2 car"] r by auto
qed simp

lemma remove_all_stacked:
  assumes "\<forall>e \<in> set (x # ys). eff_car e = car" and "eff_ptr x \<notin> eff_ptr ` set ys"
    and "stacked v (x # ys) (max_of w car)"
  shows "\<exists>w'. remove_down_to (eff_ptr x) (rev (x # ys)) w = (rev ys, length ys, w') \<and> max_of w' car = v
    \<and> signals w' = signals w \<and> (\<forall>c. c \<noteq> car \<longrightarrow> controllers w' c = controllers w c)"
  using assms
proof (induction ys arbitrary: w rule: rev_induct)
  case Nil
  then show ?case using stacked_remove [of v x w] by (simp add: frame_simps)
next
  case (snoc y ys)
  obtain m where m: "stacked v (x # ys) m" "stacked m [y] (max_of w car)"
    using snoc.prems(3) stacked_append [of v "x # ys" "[y]"] by auto
  let ?w = "Effect_removeEffect y w"
  have car: "eff_car y = car" using snoc.prems(1) by simp
  have "max_of ?w car = m" using m(2) stacked_remove [of m y w] car by simp
  then have "stacked v (x # ys) (max_of ?w car)" using m(1) by simp
  from snoc.IH [OF _ _ this] obtain w' where w': "remove_down_to (eff_ptr x) (rev (x # ys)) ?w = (rev ys, length ys, w')"
    "max_of w' car = v" "signals w' = signals ?w" "\<forall>c. c \<noteq> car \<longrightarrow> controllers w' c = controllers ?w c"
    using snoc.prems(1,2) by auto
  have "eff_ptr y \<noteq> eff_ptr x" using snoc.prems(2) by auto
  then show ?case using w' car by (auto simp: frame_simps)
qed

lemma remove_bottom:
  assumes "\<forall>e \<in> set (x # ys). eff_car e = car" and "eff_ptr x \<notin> eff_ptr ` set ys"
    and "stacked v (x # ys) (max_of w car)" and "EffectStack_removeEffect (eff_ptr x) (x # ys) w = (st', w')"
  shows "map key st' = map key ys \<and> stacked v st' (max_of w' car) \<and> signals w' = signals w
    \<and> (\<forall>c. c \<noteq> car \<longrightarrow> controllers w' c = controllers w c)"
proof (cases "ys = []")
  case True
  then show ?thesis
    using assms stacked_remove [of v x w] by (auto simp: EffectStack_removeEffect_def frame_simps)
next
  case False
  then have "eff_ptr x \<noteq> eff_ptr (last (x # ys))" using assms(2) by (auto simp: image_iff)
  moreover obtain w1 where w1: "remove_down_to (eff_ptr x) (rev (x # ys)) w = (rev ys, length ys, w1)" "max_of w1 car = v"
    "signals w1 = signals w" "\<forall>c. c \<noteq> car \<longrightarrow> controllers w1 c = controllers w c"
    using remove_all_stacked [OF assms(1,2,3)] by blast
  ultimately have "reapply_all ys w1 = (st', w')"
    using assms(4) by (simp add: EffectStack_removeEffect_def EffectStack_removeFromMiddle_def)
  from reapply_all_stacked [OF _ this, of car] show ?thesis using assms(1) w1 by auto
qed

lemma keys_ptrs: "map key xs = map key ys \<Longrightarrow> map eff_ptr xs = map eff_ptr ys \<and> map eff_car xs = map eff_car ys \<and> map eff_story xs = map eff_story ys"
proof -
  assume eq: "map key xs = map key ys"
  have "map f (map key xs) = map f (map key ys)" for f :: "nat \<times> nat \<times> nat \<Rightarrow> nat"
    by (rule arg_cong [OF eq])
  from this [of fst] this [of "\<lambda>k. snd (snd k)"] this [of "\<lambda>k. fst (snd k)"] show ?thesis by (simp add: o_def)
qed

lemma remove_whole_stack:
  assumes "\<forall>e \<in> set st. eff_car e = car" and "distinct (map eff_ptr st)" and "stacked v st (max_of w car)"
    and "remove_effects (map eff_ptr st) st w = (st', w')"
  shows "st' = [] \<and> max_of w' car = v \<and> signals w' = signals w \<and> (\<forall>c. c \<noteq> car \<longrightarrow> controllers w' c = controllers w c)"
  using assms
proof (induction "length st" arbitrary: st w)
  case (Suc n)
  then obtain x ys where st: "st = x # ys" "n = length ys" by (cases st) auto
  obtain st1 w1 where r: "EffectStack_removeEffect (eff_ptr x) (x # ys) w = (st1, w1)" by force
  have "eff_ptr x \<notin> eff_ptr ` set ys" using Suc.prems(2) st(1) by simp
  from remove_bottom [OF Suc.prems(1) [unfolded st(1)] this Suc.prems(3) [unfolded st(1)] r]
  have b: "map key st1 = map key ys" "stacked v st1 (max_of w1 car)" "signals w1 = signals w"
    "\<forall>c. c \<noteq> car \<longrightarrow> controllers w1 c = controllers w c" by blast+
  have len: "n = length st1" using map_eq_imp_length_eq [OF b(1)] st(2) by (rule trans [OF _ sym, rotated])
  have ptrs: "map eff_ptr st1 = map eff_ptr ys" "map eff_car st1 = map eff_car ys" using keys_ptrs [OF b(1)] by auto
  have "\<forall>e \<in> set st1. eff_car e = car"
  proof -
    have "set (map eff_car st1) \<subseteq> {car}" using ptrs(2) Suc.prems(1) st by auto
    then show ?thesis by auto
  qed
  moreover have "distinct (map eff_ptr st1)" using ptrs(1) Suc.prems(2) st by simp
  moreover have "remove_effects (map eff_ptr st1) st1 w1 = (st', w')" using Suc.prems(4) r ptrs(1) st by simp
  ultimately show ?case using Suc.hyps(1) [OF len] b(2,3,4) by auto
qed simp

lemma add_effects_stacked:
  assumes "\<forall>e \<in> set es. eff_car e = car" and "distinct (map eff_ptr (st @ es))" and "stacked v st (max_of w car)"
    and "add_effects es st w = (st', w')"
  shows "map key st' = map key (st @ es) \<and> stacked v st' (max_of w' car) \<and> (\<forall>c. c \<noteq> car \<longrightarrow> controllers w' c = controllers w c)"
  using assms
proof (induction es arbitrary: st w)
  case (Cons e es)
  obtain e1 w1 where e1: "Effect_applyEffect e w = (e1, w1)" by force
  have k: "key e1 = key e" "stacked (max_of w car) [e1] (max_of w1 car)" "\<And>c. c \<noteq> car \<Longrightarrow> controllers w1 c = controllers w c"
    using apply_frame(1) [of e w] apply_frame(3) [of _ e w] stacked_apply [of w e] Cons.prems(1) e1 by auto
  have add: "add_effects es (st @ [e1]) w1 = (st', w')"
    using Cons.prems(2,4) e1 by (auto simp: EffectStack_addEffect_def)
  have "stacked v (st @ [e1]) (max_of w1 car)" using stacked_append Cons.prems(3) k(2) by blast
  moreover have "distinct (map eff_ptr ((st @ [e1]) @ es))" using Cons.prems(2) k(1) by auto
  ultimately show ?case using Cons.IH [OF _ _ _ add] Cons.prems(1) k by auto
qed simp

section \<open>What is on the stack\<close>

lemma reapply_all_keys: "map key (fst (reapply_all st w)) = map key st"
proof (induction st arbitrary: w)
  case (Cons e es)
  then show ?case using apply_frame(2) [of e w] by (auto simp: case_prod_beta)
qed simp

lemma remove_down_to_keys:
  "distinct (map eff_ptr es) \<Longrightarrow> fst (remove_down_to t es w) = filter (\<lambda>e. eff_ptr e \<noteq> t) es"
proof (induction es arbitrary: w)
  case (Cons e es)
  show ?case
  proof (cases "eff_ptr e = t")
    case True
    then have "filter (\<lambda>e. eff_ptr e \<noteq> t) es = es" using Cons.prems by (auto simp: filter_id_conv image_iff)
    then show ?thesis using True by simp
  qed (use Cons in \<open>simp add: case_prod_beta Let_def\<close>)
qed simp

lemma map_key_filter: "map key (filter (\<lambda>e. P (key e)) st) = filter P (map key st)"
  by (simp add: filter_map o_def)

lemma removeEffect_keys:
  assumes "distinct (map eff_ptr st)"
  shows "map key (fst (EffectStack_removeEffect t st w)) = filter (\<lambda>k. fst k \<noteq> t) (map key st)"
proof (cases "st \<noteq> [] \<and> t = eff_ptr (last st)")
  case True
  then obtain b l where st: "st = b @ [l]" by (metis append_butlast_last_id)
  have "filter (\<lambda>k. fst k \<noteq> t) (map key b) = map key b"
    using True assms st by (auto simp: filter_id_conv image_iff)
  then show ?thesis using True st by (simp add: EffectStack_removeEffect_def)
next
  case False
  have "rev (fst (remove_down_to t (rev st) w)) = filter (\<lambda>e. eff_ptr e \<noteq> t) st"
    using remove_down_to_keys [of "rev st" t w] assms by (simp add: rev_map [symmetric] rev_filter)
  moreover have "map key (fst (EffectStack_removeFromMiddle t st w)) = map key (rev (fst (remove_down_to t (rev st) w)))"
    by (simp add: EffectStack_removeFromMiddle_def case_prod_beta Let_def reapply_all_keys)
  ultimately show ?thesis
    using False map_key_filter [of "\<lambda>k. fst k \<noteq> t" st] unfolding EffectStack_removeEffect_def if_not_P [OF False] by simp
qed

lemma remove_effects_keys:
  "distinct (map eff_ptr st) \<Longrightarrow> map key (fst (remove_effects ts st w)) = filter (\<lambda>k. fst k \<notin> set ts) (map key st)"
proof (induction ts arbitrary: st w)
  case (Cons t ts)
  obtain st1 w1 where r: "EffectStack_removeEffect t st w = (st1, w1)" by force
  have k: "map key st1 = filter (\<lambda>k. fst k \<noteq> t) (map key st)" using removeEffect_keys [OF Cons.prems, of t w] r by simp
  have "map eff_ptr st1 = map fst (map key st1)" by simp
  then have "distinct (map eff_ptr st1)" unfolding k using Cons.prems by (simp add: distinct_map_filter o_def)
  from Cons.IH [OF this] show ?case using r k by (simp add: conj_commute)
qed simp

lemma removeEffectsByStory_keys:
  assumes "distinct (map eff_ptr st)"
  shows "map key (fst (EffectStack_removeEffectsByStory story st w)) = filter (\<lambda>k. fst (snd k) \<noteq> story) (map key st)"
proof -
  have "fst k \<notin> eff_ptr ` {e \<in> set st. eff_story e = story} \<longleftrightarrow> fst (snd k) \<noteq> story" if "k \<in> set (map key st)" for k
    using that assms by (auto simp: distinct_map inj_on_def)
  then have "filter (\<lambda>k. fst k \<notin> eff_ptr ` {e \<in> set st. eff_story e = story}) (map key st)
      = filter (\<lambda>k. fst (snd k) \<noteq> story) (map key st)" by (rule filter_cong [OF refl])
  then show ?thesis
    by (simp add: EffectStack_removeEffectsByStory_def remove_effects_keys [OF assms])
qed

section \<open>The board\<close>

text \<open>Effect addresses are distinct per vehicle and older than the next fresh one.\<close>

definition board_ok :: "Storyboard \<Rightarrow> bool" where
  "board_ok b \<longleftrightarrow> omap_ok (m_affectedCars b)
     \<and> (\<forall>st \<in> snd ` set (m_affectedCars b). distinct (map eff_ptr st) \<and> (\<forall>e \<in> set st. eff_ptr e < sb_next b))"

lemma effect_stack_ok:
  "board_ok b \<Longrightarrow> distinct (map eff_ptr (effect_stack car b)) \<and> (\<forall>e \<in> set (effect_stack car b). eff_ptr e < sb_next b)"
  by (cases "map_of (m_affectedCars b) car") (force simp: board_ok_def effect_stack_def dest: map_of_SomeD)+

lemma storyApplied_stack: "Storyboard_storyApplied car story b \<longleftrightarrow> EffectStack_isStoryOnStack story (effect_stack car b)"
  by (auto simp: Storyboard_storyApplied_def effect_stack_def EffectStack_isStoryOnStack_def split: option.split)

lemma onStack_keys: "EffectStack_isStoryOnStack story st \<longleftrightarrow> story \<in> (\<lambda>k. fst (snd k)) ` set (map key st)"
  by (auto simp: EffectStack_isStoryOnStack_def image_image)

lemma board_put:
  assumes "board_ok b" and "distinct (map eff_ptr st)" and "\<forall>e \<in> set st. eff_ptr e < n" and "sb_next b \<le> n"
  shows "board_ok (b\<lparr>m_affectedCars := omap_put car st (m_affectedCars b), sb_world := w, sb_next := n\<rparr>)"
    and "effect_stack car' (b\<lparr>m_affectedCars := omap_put car st (m_affectedCars b), sb_world := w, sb_next := n\<rparr>) =
      (if car' = car then st else effect_stack car' b)"
proof -
  have ok: "omap_ok (m_affectedCars b)" using assms(1) by (simp add: board_ok_def)
  show "board_ok (b\<lparr>m_affectedCars := omap_put car st (m_affectedCars b), sb_world := w, sb_next := n\<rparr>)"
    using assms ok by (fastforce simp: board_ok_def set_omap_put omap_ok_put)
  show "effect_stack car' (b\<lparr>m_affectedCars := omap_put car st (m_affectedCars b), sb_world := w, sb_next := n\<rparr>) =
      (if car' = car then st else effect_stack car' b)"
    using ok by (simp add: effect_stack_def map_of_omap_put)
qed

lemma create_effects_keys:
  "map key (create_effects fs ptr car story res) = map (\<lambda>i. (ptr + i, story, car)) [0..<length fs]"
proof (induction fs arbitrary: ptr)
  case (Cons f fs)
  have "key (EffectFactory_create f ptr car story res) = (ptr, story, car)" by (cases f) auto
  then show ?case using Cons [of "Suc ptr"] by (simp add: upt_conv_Cons map_Suc_upt [symmetric] del: upt_Suc)
qed simp

lemma add_effects_keys:
  "distinct (map eff_ptr (st @ es)) \<Longrightarrow> map key (fst (add_effects es st w)) = map key (st @ es)"
proof (induction es arbitrary: st w)
  case (Cons e es)
  obtain e1 w1 where e1: "Effect_applyEffect e w = (e1, w1)" by force
  have k: "key e1 = key e" using apply_frame(1) [of e w] e1 by simp
  have "distinct (map eff_ptr ((st @ [e1]) @ es))" using Cons.prems k by auto
  from Cons.IH [OF this, of w1] show ?case
    using Cons.prems e1 k by (auto simp: EffectStack_addEffect_def)
qed simp

lemma ptr_bound:
  assumes "eff_ptr ` A \<subseteq> P" and "\<forall>p \<in> P. p < n"
  shows "\<forall>e \<in> A. eff_ptr e < n"
  using assms by (meson imageI subsetD)

text \<open>What one check of a vehicle against a story guarantees.\<close>

definition checked :: "nat \<Rightarrow> nat \<Rightarrow> bool \<Rightarrow> Storyboard \<Rightarrow> Storyboard \<Rightarrow> bool" where
  "checked car story holds b b' \<longleftrightarrow> board_ok b' \<and> m_vehicles b' = m_vehicles b
     \<and> m_stories b' = m_stories b \<and> sb_limits b' = sb_limits b
     \<and> (\<forall>car' st. Storyboard_storyApplied car' st b' \<longleftrightarrow>
          (if car' = car \<and> st = story then holds else Storyboard_storyApplied car' st b))"

lemma checkCar_remove:
  assumes "board_ok b" and "Storyboard_storyApplied car (story_ptr story) b" and "\<not> is_true res"
  shows "\<exists>b'. Storyboard_checkCar car res story b = Inr b' \<and> checked car (story_ptr story) False b b'"
proof -
  let ?s = "story_ptr story" and ?st = "effect_stack car b"
  let ?r = "EffectStack_removeEffectsByStory ?s ?st (sb_world b)"
  have sok: "distinct (map eff_ptr ?st)" "\<forall>e \<in> set ?st. eff_ptr e < sb_next b" using effect_stack_ok [OF assms(1)] by auto
  have k: "map key (fst ?r) = filter (\<lambda>k. fst (snd k) \<noteq> ?s) (map key ?st)" by (rule removeEffectsByStory_keys [OF sok(1)])
  have "map eff_ptr (fst ?r) = map fst (map key (fst ?r))" by simp
  then have d: "distinct (map eff_ptr (fst ?r))" unfolding k using sok(1) by (simp add: distinct_map_filter o_def)
  have "eff_ptr ` set (fst ?r) = fst ` set (map key (fst ?r))" by force
  also have "\<dots> \<subseteq> eff_ptr ` set ?st" unfolding k by auto
  finally have lt: "\<forall>e \<in> set (fst ?r). eff_ptr e < sb_next b" by (rule ptr_bound) (use sok(2) in simp)
  let ?b = "b\<lparr>m_affectedCars := omap_put car (fst ?r) (m_affectedCars b), sb_world := snd ?r, sb_next := sb_next b\<rparr>"
  have c: "Storyboard_checkCar car res story b = Inr ?b"
    using assms(2,3) by (simp add: Storyboard_checkCar_def Storyboard_removeStory_def case_prod_beta Let_def)
  have "EffectStack_isStoryOnStack st (fst ?r) \<longleftrightarrow> st \<noteq> ?s \<and> EffectStack_isStoryOnStack st ?st" for st
    unfolding onStack_keys k by auto
  then have "Storyboard_storyApplied car' st ?b \<longleftrightarrow>
      (if car' = car then st \<noteq> ?s \<and> Storyboard_storyApplied car st b else Storyboard_storyApplied car' st b)" for car' st
    unfolding storyApplied_stack board_put(2) [OF assms(1) d lt order_refl] by auto
  then have "checked car ?s False b ?b"
    using board_put(1) [OF assms(1) d lt order_refl] by (auto simp: checked_def)
  with c show ?thesis by blast
qed

lemma new_effects:
  assumes "board_ok b" and "es = create_effects fs (sb_next b) car story res" and "st = effect_stack car b"
  shows "distinct (map eff_ptr (st @ es))" and "\<forall>e \<in> set (st @ es). eff_ptr e < sb_next b + length fs"
    and "\<forall>e \<in> set es. eff_car e = car \<and> eff_story e = story" and "length es = length fs"
proof -
  have ks: "map key es = map (\<lambda>i. (sb_next b + i, story, car)) [0..<length fs]"
    unfolding assms(2) by (rule create_effects_keys)
  have "map eff_ptr es = map fst (map key es)" by simp
  then have ptrs: "map eff_ptr es = map (\<lambda>i. sb_next b + i) [0..<length fs]" unfolding ks by (simp add: o_def)
  have new: "eff_ptr ` set es = (\<lambda>i. sb_next b + i) ` {0..<length fs}"
    using arg_cong [OF ptrs, of set] by simp
  have old: "distinct (map eff_ptr st)" "\<forall>e \<in> set st. eff_ptr e < sb_next b"
    using effect_stack_ok [OF assms(1)] assms(3) by auto
  have "distinct (map eff_ptr es)" unfolding ptrs by (simp add: distinct_map)
  then show "distinct (map eff_ptr (st @ es))" using old new by fastforce
  show "\<forall>e \<in> set (st @ es). eff_ptr e < sb_next b + length fs"
  proof (rule ptr_bound [OF order_refl])
    show "\<forall>p \<in> eff_ptr ` set (st @ es). p < sb_next b + length fs"
      using old(2) unfolding set_append image_Un new by (auto simp: trans_less_add1)
  qed
  have same: "snd k = (story, car)" if "k \<in> set (map key es)" for k using that unfolding ks by auto
  show "\<forall>e \<in> set es. eff_car e = car \<and> eff_story e = story"
  proof
    fix e assume "e \<in> set es"
    then have "key e \<in> set (map key es)" by simp
    from same [OF this] show "eff_car e = car \<and> eff_story e = story" by simp
  qed
  show "length es = length fs" using map_eq_imp_length_eq [OF ks] by simp
qed

lemma checkCar_add:
  assumes "board_ok b" and "m_factories story \<noteq> []"
    and "\<not> Storyboard_storyApplied car (story_ptr story) b" and "is_true res"
  shows "\<exists>b'. Storyboard_checkCar car res story b = Inr b' \<and> checked car (story_ptr story) True b b'"
proof -
  let ?s = "story_ptr story" and ?st = "effect_stack car b" and ?n = "sb_next b + length (m_factories story)"
  define es where "es = create_effects (m_factories story) (sb_next b) car ?s res"
  note new = new_effects [OF assms(1) es_def refl]
  let ?r = "add_effects es ?st (sb_world b)"
  have k: "map key (fst ?r) = map key (?st @ es)" by (rule add_effects_keys [OF new(1)])
  have p: "map eff_ptr (fst ?r) = map eff_ptr (?st @ es)" using keys_ptrs [OF k] by blast
  have d: "distinct (map eff_ptr (fst ?r))" unfolding p by (rule new(1))
  have "eff_ptr ` set (fst ?r) = eff_ptr ` set (?st @ es)" using arg_cong [OF p, of set] by (simp add: image_Un)
  then have lt: "\<forall>e \<in> set (fst ?r). eff_ptr e < ?n"
    by (intro ptr_bound [OF eq_refl]) (use new(2) in auto)
  let ?b = "b\<lparr>m_affectedCars := omap_put car (fst ?r) (m_affectedCars b), sb_world := snd ?r, sb_next := ?n\<rparr>"
  obtain e es' where e: "es = e # es'" using assms(2) new(4) by (cases es) auto
  have front: "eff_car e = car" "eff_story e = ?s" using new(3) e by auto
  have c: "Storyboard_checkCar car res story b = Inr ?b"
    using assms(3,4) e front new(4) unfolding storyApplied_stack
    by (simp add: Storyboard_checkCar_def storyApplied_stack Storyboard_addEffect_def effect_stack_def case_prod_beta Let_def
      es_def [symmetric])
  have "EffectStack_isStoryOnStack st (fst ?r) \<longleftrightarrow> st = ?s \<or> EffectStack_isStoryOnStack st ?st" for st
    unfolding onStack_keys k using new(3) e by auto
  then have "Storyboard_storyApplied car' st ?b \<longleftrightarrow>
      (if car' = car then st = ?s \<or> Storyboard_storyApplied car st b else Storyboard_storyApplied car' st b)" for car' st
    unfolding storyApplied_stack board_put(2) [OF assms(1) d lt le_add1] by auto
  then have "checked car ?s True b ?b" using board_put(1) [OF assms(1) d lt le_add1] by (auto simp: checked_def)
  with c show ?thesis by blast
qed

lemma checkCar_effect:
  assumes "board_ok b" and "m_factories story \<noteq> []"
  shows "\<exists>b'. Storyboard_checkCar car res story b = Inr b' \<and> checked car (story_ptr story) (is_true res) b b'"
proof (cases "Storyboard_storyApplied car (story_ptr story) b = is_true res")
  case True
  then show ?thesis using assms by (auto simp: Storyboard_checkCar_def checked_def)
next
  case False
  then show ?thesis using checkCar_remove [OF assms(1)] checkCar_add [OF assms] by (cases "is_true res") auto
qed

section \<open>A step of the storyboard\<close>

lemma limit_free_result: "limit_ids c = {} \<Longrightarrow> \<exists>r. \<forall>ls. Condition_testCondition env vs car c ls = (r, ls)"
proof (induction c)
  case (AndCondition c1 c2)
  then obtain r1 r2 where "\<forall>ls. Condition_testCondition env vs car c1 ls = (r1, ls)"
    "\<forall>ls. Condition_testCondition env vs car c2 ls = (r2, ls)" by auto
  then show ?case by (auto simp: condition_defs)
next
  case (OrCondition c1 c2)
  then obtain r1 r2 where "\<forall>ls. Condition_testCondition env vs car c1 ls = (r1, ls)"
    "\<forall>ls. Condition_testCondition env vs car c2 ls = (r2, ls)" by auto
  then show ?case by (auto simp: condition_defs)
qed auto

lemma limit_free_test:
  "limit_ids c = {} \<Longrightarrow> fst (Condition_testCondition env vs car c ls) = fst (Condition_testCondition env vs car c ls')
    \<and> snd (Condition_testCondition env vs car c ls) = ls"
  using limit_free_result [of c env vs car] by auto

definition story_holds :: "ConditionEnvironment \<Rightarrow> Vehicles \<Rightarrow> StoryVehicle \<Rightarrow> Story \<Rightarrow> bool" where
  "story_holds env vs car s \<longleftrightarrow> is_true (fst (Condition_testCondition env vs car (m_condition s) (\<lambda>_. [])))"

text \<open>A step of the board is a sequence of tests, vehicle by vehicle and for each story by story; the counters of the limits pass from test to test.\<close>

definition check_pair :: "ConditionEnvironment \<Rightarrow> StoryVehicle \<times> Story \<Rightarrow> Storyboard \<Rightarrow> Storyboard result" where
  "check_pair env cs b =
     (let (res, limits) = Condition_testCondition env (m_vehicles b) (fst cs) (m_condition (snd cs)) (sb_limits b)
      in Storyboard_checkCar (sv_ptr (fst cs)) res (snd cs) (b\<lparr>sb_limits := limits\<rparr>))"

definition counted :: "ConditionEnvironment \<Rightarrow> Vehicles \<Rightarrow> StoryVehicle \<times> Story \<Rightarrow> Limits \<Rightarrow> Limits" where
  "counted env vs cs limits = snd (Condition_testCondition env vs (fst cs) (m_condition (snd cs)) limits)"

definition passes :: "ConditionEnvironment \<Rightarrow> Vehicles \<Rightarrow> StoryVehicle \<times> Story \<Rightarrow> Limits \<Rightarrow> bool" where
  "passes env vs cs limits \<longleftrightarrow> is_true (fst (Condition_testCondition env vs (fst cs) (m_condition (snd cs)) limits))"

lemma check_stories_pairs: "check_stories env car ss b = rfold (check_pair env) (map (Pair car) ss) b"
proof (induction ss arbitrary: b)
  case (Cons s ss)
  have "check_stories env car ss = rfold (check_pair env) (map (Pair car) ss)" by (rule ext) (rule Cons.IH)
  then show ?case by (simp add: check_pair_def [of env "(car, s)"] case_prod_beta)
qed simp

lemma check_pair_effect:
  assumes "board_ok b" and "m_factories (snd cs) \<noteq> []"
  shows "\<exists>b'. check_pair env cs b = Inr b' \<and> checked (sv_ptr (fst cs)) (story_ptr (snd cs)) (passes env (m_vehicles b) cs (sb_limits b))
    (b\<lparr>sb_limits := counted env (m_vehicles b) cs (sb_limits b)\<rparr>) b'"
proof -
  have "board_ok (b\<lparr>sb_limits := counted env (m_vehicles b) cs (sb_limits b)\<rparr>)" using assms(1) by (simp add: board_ok_def)
  from checkCar_effect [OF this assms(2)] show ?thesis by (simp add: check_pair_def passes_def counted_def case_prod_beta)
qed

lemma storyApplied_limits: "Storyboard_storyApplied c st (b\<lparr>sb_limits := l\<rparr>) = Storyboard_storyApplied c st b"
  by (simp add: Storyboard_storyApplied_def)

lemma check_pairs_effect:
  assumes "board_ok b" and "\<forall>p \<in> set ps. m_factories (snd p) \<noteq> []" and "distinct (map (\<lambda>p. (sv_ptr (fst p), story_ptr (snd p))) ps)"
  shows "\<exists>b'. rfold (check_pair env) ps b = Inr b' \<and> board_ok b' \<and> m_vehicles b' = m_vehicles b \<and> m_stories b' = m_stories b
    \<and> sb_limits b' = fold (counted env (m_vehicles b)) ps (sb_limits b)
    \<and> (\<forall>k < length ps. Storyboard_storyApplied (sv_ptr (fst (ps ! k))) (story_ptr (snd (ps ! k))) b' \<longleftrightarrow>
         passes env (m_vehicles b) (ps ! k) (fold (counted env (m_vehicles b)) (take k ps) (sb_limits b)))
    \<and> (\<forall>c st. (c, st) \<notin> (\<lambda>p. (sv_ptr (fst p), story_ptr (snd p))) ` set ps \<longrightarrow> Storyboard_storyApplied c st b' = Storyboard_storyApplied c st b)"
  using assms
proof (induction ps arbitrary: b)
  case (Cons p ps)
  obtain b1 where b1: "check_pair env p b = Inr b1" "checked (sv_ptr (fst p)) (story_ptr (snd p)) (passes env (m_vehicles b) p (sb_limits b))
      (b\<lparr>sb_limits := counted env (m_vehicles b) p (sb_limits b)\<rparr>) b1"
    using check_pair_effect [of b p env] Cons.prems(1,2) by auto
  then have f: "board_ok b1" "m_vehicles b1 = m_vehicles b" "m_stories b1 = m_stories b" "sb_limits b1 = counted env (m_vehicles b) p (sb_limits b)"
    and app: "\<And>c st. Storyboard_storyApplied c st b1 \<longleftrightarrow> (if c = sv_ptr (fst p) \<and> st = story_ptr (snd p)
        then passes env (m_vehicles b) p (sb_limits b) else Storyboard_storyApplied c st b)"
    by (simp_all add: checked_def storyApplied_limits)
  from Cons.IH [OF f(1)] Cons.prems(2,3) obtain b' where b': "rfold (check_pair env) ps b1 = Inr b'" "board_ok b'" "m_vehicles b' = m_vehicles b"
      "m_stories b' = m_stories b" "sb_limits b' = fold (counted env (m_vehicles b)) ps (sb_limits b1)"
    and each: "\<And>k. k < length ps \<Longrightarrow> Storyboard_storyApplied (sv_ptr (fst (ps ! k))) (story_ptr (snd (ps ! k))) b' \<longleftrightarrow>
         passes env (m_vehicles b) (ps ! k) (fold (counted env (m_vehicles b)) (take k ps) (sb_limits b1))"
    and others: "\<And>c st. (c, st) \<notin> (\<lambda>p. (sv_ptr (fst p), story_ptr (snd p))) ` set ps \<Longrightarrow> Storyboard_storyApplied c st b' = Storyboard_storyApplied c st b1"
    by (auto simp: f)
  have "(sv_ptr (fst p), story_ptr (snd p)) \<notin> (\<lambda>p. (sv_ptr (fst p), story_ptr (snd p))) ` set ps" using Cons.prems(3) by simp
  from others [OF this] app have first: "Storyboard_storyApplied (sv_ptr (fst p)) (story_ptr (snd p)) b' \<longleftrightarrow> passes env (m_vehicles b) p (sb_limits b)" by simp
  show ?case
  proof (intro exI [of _ b'] conjI allI impI)
    fix k assume "k < length (p # ps)"
    then show "Storyboard_storyApplied (sv_ptr (fst ((p # ps) ! k))) (story_ptr (snd ((p # ps) ! k))) b' \<longleftrightarrow>
         passes env (m_vehicles b) ((p # ps) ! k) (fold (counted env (m_vehicles b)) (take k (p # ps)) (sb_limits b))"
      using first each f(4) by (cases k) simp_all
  next
    fix c st assume "(c, st) \<notin> (\<lambda>p. (sv_ptr (fst p), story_ptr (snd p))) ` set (p # ps)"
    then show "Storyboard_storyApplied c st b' = Storyboard_storyApplied c st b" using others [of c st] app [of c st] by auto
  qed (use b1(1) b' f(4) in simp_all)
qed simp

lemma check_cars_pairs:
  assumes "board_ok b" and "\<forall>s \<in> set (m_stories b). m_factories s \<noteq> []" and "distinct (map story_ptr (m_stories b))"
  shows "check_cars env cs b = rfold (check_pair env) (List.product cs (m_stories b)) b"
  using assms
proof (induction cs arbitrary: b)
  case (Cons c cs)
  have "distinct (map (\<lambda>p. (sv_ptr (fst p), story_ptr (snd p))) (map (Pair c) (m_stories b)))"
    using Cons.prems(3) by (simp add: comp_def distinct_map inj_on_def)
  then obtain b1 where "rfold (check_pair env) (map (Pair c) (m_stories b)) b = Inr b1" "board_ok b1" "m_stories b1 = m_stories b"
    using check_pairs_effect [of b "map (Pair c) (m_stories b)" env] Cons.prems(1,2) by auto
  with Cons.IH [of b1] Cons.prems show ?case by (simp add: check_stories_pairs rfold_append)
qed simp

lemma counted_limits_ok:
  assumes "limits_ok oid n limits" and "\<forall>p \<in> set ps. \<forall>(o', n') \<in> limit_ids (m_condition (snd p)). o' = oid \<longrightarrow> n' = n"
  shows "limits_ok oid n (fold (counted env vs) ps limits)"
  using assms
proof (induction ps arbitrary: limits)
  case (Cons p ps)
  have "limits_ok oid n (counted env vs p limits)" using test_limits_ok [OF Cons.prems(1)] Cons.prems(2) by (simp add: counted_def)
  from Cons.IH [OF this] Cons.prems(2) show ?case by simp
qed simp

lemma product_keys:
  assumes "distinct (map sv_ptr cs)" and "distinct (map story_ptr ss)"
  shows "distinct (map (\<lambda>p. (sv_ptr (fst p), story_ptr (snd p))) (List.product cs ss))"
  using assms by (auto simp: distinct_map distinct_product inj_on_def)

section \<open>Properties\<close>

text \<open>C40: a step of the storyboard never fails, for stories that all have effects and distinct vehicles.  It tests every story for every vehicle, vehicles in the
  order of their names and stories in the order of their registration, with the counters of the limits as the earlier tests leave them, and
  afterwards a story is on a vehicle's stack iff its test passed.  For a story without a limit that is: iff its condition holds for the
  vehicle at that step, whatever limits other stories have.  A limit never counts more vehicles than it allows.\<close>

theorem updateStoryboard_correct:
  assumes "board_ok b" and "\<forall>s \<in> set (m_stories b). m_factories s \<noteq> []" and "distinct (map story_ptr (m_stories b))"
    and "distinct (map (\<lambda>e. sv_ptr (snd e)) (m_vehicles b))" and "tests = List.product (map snd (m_vehicles b)) (m_stories b)"
  shows "\<exists>b'. Storyboard_updateStoryboard env b = Inr b' \<and> board_ok b' \<and> m_vehicles b' = m_vehicles b
    \<and> (\<forall>k < length tests. Storyboard_storyApplied (sv_ptr (fst (tests ! k))) (story_ptr (snd (tests ! k))) b' \<longleftrightarrow>
         passes env (m_vehicles b) (tests ! k) (fold (counted env (m_vehicles b)) (take k tests) (sb_limits b)))
    \<and> (\<forall>(n, car) \<in> set (m_vehicles b). \<forall>s \<in> set (m_stories b). limit_ids (m_condition s) = {} \<longrightarrow>
         Storyboard_storyApplied (sv_ptr car) (story_ptr s) b' = story_holds env (m_vehicles b) car s)
    \<and> (\<forall>oid n. limits_ok oid n (sb_limits b) \<and> (\<forall>s \<in> set (m_stories b). \<forall>(o', n') \<in> limit_ids (m_condition s). o' = oid \<longrightarrow> n' = n) \<longrightarrow>
         limits_ok oid n (sb_limits b'))"
proof -
  have cars: "distinct (map sv_ptr (map snd (m_vehicles b)))" using assms(4) by (simp add: o_def)
  have fac: "\<forall>p \<in> set tests. m_factories (snd p) \<noteq> []" using assms(2,5) by auto
  from check_pairs_effect [OF assms(1) fac, of env] product_keys [OF cars assms(3)] assms(5) obtain b' where
    b': "rfold (check_pair env) tests b = Inr b'" "board_ok b'" "m_vehicles b' = m_vehicles b"
    "sb_limits b' = fold (counted env (m_vehicles b)) tests (sb_limits b)"
    and each: "\<And>k. k < length tests \<Longrightarrow> Storyboard_storyApplied (sv_ptr (fst (tests ! k))) (story_ptr (snd (tests ! k))) b' \<longleftrightarrow>
         passes env (m_vehicles b) (tests ! k) (fold (counted env (m_vehicles b)) (take k tests) (sb_limits b))"
    by auto
  have "Storyboard_updateStoryboard env b = Inr b'"
    using check_cars_pairs [OF assms(1-3)] b'(1) assms(5) by (simp add: Storyboard_updateStoryboard_def)
  moreover have "Storyboard_storyApplied (sv_ptr car) (story_ptr s) b' = story_holds env (m_vehicles b) car s"
    if "(n, car) \<in> set (m_vehicles b)" "s \<in> set (m_stories b)" "limit_ids (m_condition s) = {}" for n car s
  proof -
    have "(car, s) \<in> set tests" using that(1,2) assms(5) by force
    then obtain k where "k < length tests" "tests ! k = (car, s)" by (auto simp: in_set_conv_nth)
    moreover have "passes env (m_vehicles b) (car, s) limits = story_holds env (m_vehicles b) car s" for limits
      using limit_free_test [OF that(3), of env "m_vehicles b" car limits "\<lambda>_. []"] by (simp add: passes_def story_holds_def)
    ultimately show ?thesis using each [of k] by simp
  qed
  moreover have "limits_ok oid n (sb_limits b')"
    if "limits_ok oid n (sb_limits b)" "\<forall>s \<in> set (m_stories b). \<forall>(o', n') \<in> limit_ids (m_condition s). o' = oid \<longrightarrow> n' = n" for oid n
    unfolding b'(4) using that assms(5) by (intro counted_limits_ok) auto
  ultimately show ?thesis using b' each by (intro exI [of _ b']) auto
qed

definition story_car :: StoryVehicle where
  "story_car = \<lparr>sv_ptr = 1, sv_controllerId = ''car'', sv_controllerSpeed = 20, sv_controllerPosition = (0, 0), sv_length = 5,
     sv_width = 2, sv_vdpSpeed = 20, sv_heading = 0, sv_curvature = 0, sv_yawRate = 0\<rparr>"

definition example_board :: Storyboard where
  "example_board = \<lparr>m_vehicles = [(''car'', story_car)],
     m_stories = [\<lparr>story_ptr = 100, m_condition = AndCondition (SpeedConditionGreater 10) (TimeCondition 0 5),
       m_factories = [SpeedEffectFactory 8, SignalEffectFactory ''irc'']\<rparr>,
       \<lparr>story_ptr = 101, m_condition = LimitCondition 1 5, m_factories = [SpeedEffectFactory 7]\<rparr>],
     m_affectedCars = [], sb_limits = (\<lambda>_. []), sb_world = \<lparr>controllers = (\<lambda>_. \<lparr>ctl_maxSpeed = 30, ctl_speed = - 1\<rparr>), signals = []\<rparr>,
     sb_next = 1000\<rparr>"

definition storyboard_env :: "simtime \<Rightarrow> ConditionEnvironment" where
  "storyboard_env t = \<lparr>ce_now = t, ce_within = (\<lambda>p vs. False), ce_intersects = (\<lambda>a b. False)\<rparr>"

theorem updateStoryboard_correct_witness:
  "\<exists>b'. Storyboard_updateStoryboard (storyboard_env 3) example_board = Inr b' \<and> Storyboard_storyApplied 1 100 b' \<and> Storyboard_storyApplied 1 101 b'"
proof -
  let ?tests = "List.product (map snd (m_vehicles example_board)) (m_stories example_board)"
  have h: "board_ok example_board" "\<forall>s \<in> set (m_stories example_board). m_factories s \<noteq> []" "distinct (map story_ptr (m_stories example_board))"
    "distinct (map (\<lambda>e. sv_ptr (snd e)) (m_vehicles example_board))" by (simp_all add: board_ok_def example_board_def)
  from updateStoryboard_correct [OF h refl, of "storyboard_env 3"] obtain b' where b': "Storyboard_updateStoryboard (storyboard_env 3) example_board = Inr b'"
    "\<forall>k < length ?tests. Storyboard_storyApplied (sv_ptr (fst (?tests ! k))) (story_ptr (snd (?tests ! k))) b' \<longleftrightarrow>
       passes (storyboard_env 3) (m_vehicles example_board) (?tests ! k) (fold (counted (storyboard_env 3) (m_vehicles example_board)) (take k ?tests) (sb_limits example_board))"
    by blast
  from b'(2) [rule_format, of 0] b'(2) [rule_format, of 1] b'(1) show ?thesis
    by (auto simp: example_board_def passes_def counted_def storyboard_env_def story_car_def condition_defs LimitCondition_testCondition_def)
qed

text \<open>When the effects of a story are the only ones on a vehicle, taking the story off restores the
  maximum speed the vehicle had before, whatever effects the story has, empties the stack, emits no
  further signal and leaves all other vehicles alone.\<close>

theorem story_removal_restores_speed:
  assumes "\<forall>e \<in> set es. eff_car e = car \<and> eff_story e = story" and "distinct (map eff_ptr es)"
    and "add_effects es [] w = (st, w1)" and "EffectStack_removeEffectsByStory story st w1 = (st', w2)"
  shows "st' = [] \<and> ctl_maxSpeed (controllers w2 car) = ctl_maxSpeed (controllers w car) \<and> signals w2 = signals w1
    \<and> (\<forall>c. c \<noteq> car \<longrightarrow> controllers w2 c = controllers w c)"
proof -
  have a: "map key st = map key ([] @ es)" "stacked (max_of w car) st (max_of w1 car)" "\<forall>c. c \<noteq> car \<longrightarrow> controllers w1 c = controllers w c"
    using add_effects_stacked [of es car "[]" "max_of w car" w st w1] assms(1,2,3) by auto
  note ks = keys_ptrs [OF a(1)]
  have d: "distinct (map eff_ptr st)" using ks assms(2) by simp
  have "set (map eff_car st) \<subseteq> {car}" "set (map eff_story st) \<subseteq> {story}" using ks assms(1) by auto
  then have own: "\<forall>e \<in> set st. eff_car e = car" "filter (\<lambda>e. eff_story e = story) st = st"
    by (auto simp: filter_id_conv)
  have "remove_effects (map eff_ptr st) st w1 = (st', w2)"
    using assms(4) own(2) by (simp add: EffectStack_removeEffectsByStory_def)
  from remove_whole_stack [OF own(1) d a(2) this] show ?thesis using a(3) by auto
qed

definition speed_effect :: "nat \<Rightarrow> nat \<Rightarrow> real \<Rightarrow> Effect" where
  "speed_effect ptr story speed = \<lparr>eff_ptr = ptr, eff_story = story, eff_car = 1, eff_kind = SpeedEffect speed 0\<rparr>"

definition initial_world :: "real \<Rightarrow> StoryWorld" where
  "initial_world v = \<lparr>controllers = (\<lambda>_. \<lparr>ctl_maxSpeed = v, ctl_speed = - 1\<rparr>), signals = []\<rparr>"

theorem story_removal_restores_speed_witness:
  "\<exists>st w1 st' w2. add_effects [speed_effect 1 7 8, speed_effect 2 7 5] [] (initial_world 30) = (st, w1)
     \<and> EffectStack_removeEffectsByStory 7 st w1 = (st', w2) \<and> ctl_maxSpeed (controllers w1 1) = 5
     \<and> ctl_maxSpeed (controllers w2 1) = 30"
proof -
  obtain st w1 where a: "add_effects [speed_effect 1 7 8, speed_effect 2 7 5] [] (initial_world 30) = (st, w1)" by force
  obtain st' w2 where r: "EffectStack_removeEffectsByStory 7 st w1 = (st', w2)" by force
  have "\<forall>e \<in> set [speed_effect 1 7 8, speed_effect 2 7 5]. eff_car e = 1 \<and> eff_story e = 7"
    "distinct (map eff_ptr [speed_effect 1 7 8, speed_effect 2 7 5])" by (simp_all add: speed_effect_def)
  from story_removal_restores_speed [OF this a r] a r show ?thesis
    by (auto simp: EffectStack_addEffect_def effect_defs speed_effect_def initial_world_def)
qed

text \<open>With another story's effect below, taking off the middle one of three stacked speed effects
  loses the top one: it stays on the stack but its maximum speed is not set again, because the
  counter that selects the effects to reapply never advances.\<close>

theorem removeFromMiddle_loses_effect:
  "\<exists>st w1 st' w2. add_effects [speed_effect 1 101 a, speed_effect 2 102 b, speed_effect 3 103 c] [] (initial_world v) = (st, w1)
     \<and> ctl_maxSpeed (controllers w1 1) = c
     \<and> EffectStack_removeEffectsByStory 102 st w1 = (st', w2)
     \<and> map eff_story st' = [101, 103] \<and> ctl_maxSpeed (controllers w2 1) = a"
  by (simp add: EffectStack_addEffect_def effect_defs speed_effect_def initial_world_def
    EffectStack_removeEffectsByStory_def EffectStack_removeEffect_def EffectStack_removeFromMiddle_def)

fun limit_tests :: "nat \<Rightarrow> nat \<Rightarrow> StoryVehicle list \<Rightarrow> Limits \<Rightarrow> bool list \<times> Limits" where
  "limit_tests limit oid [] limits = ([], limits)"
| "limit_tests limit oid (v # vs) limits =
     (let (r, limits) = LimitCondition_testCondition limit oid v limits; (rs, limits) = limit_tests limit oid vs limits
      in (is_true r # rs, limits))"

lemma limit_tests_spec:
  assumes "limits_ok oid limit limits" and "limit_tests limit oid vs limits = (rs, limits')"
  shows "limits_ok oid limit limits' \<and> set (limits oid) \<subseteq> set (limits' oid) \<and> length rs = length vs
    \<and> (\<forall>i < length vs. rs ! i \<longrightarrow> sv_ptr (vs ! i) \<in> set (limits' oid))
    \<and> (\<forall>i < length vs. sv_ptr (vs ! i) \<in> set (limits oid) \<longrightarrow> rs ! i)"
  using assms
proof (induction vs arbitrary: limits rs)
  case (Cons v vs)
  obtain r l1 where t: "LimitCondition_testCondition limit oid v limits = (r, l1)" by force
  obtain rs1 l2 where ts: "limit_tests limit oid vs l1 = (rs1, l2)" by force
  have 1: "rs = is_true r # rs1" "limits' = l2" using Cons.prems(2) t ts by simp_all
  have l1: "limits_ok oid limit l1" "set (limits oid) \<subseteq> set (l1 oid)"
    using limit_test_ok [OF Cons.prems(1), of oid limit v] t by auto
  have hit: "is_true r \<longrightarrow> sv_ptr v \<in> set (l1 oid)" "sv_ptr v \<in> set (limits oid) \<longrightarrow> is_true r"
    using t by (auto simp: LimitCondition_testCondition_def insort_insert_key_def set_insort_key split: if_splits)
  note ih = Cons.IH [OF l1(1) ts [folded 1(2)]]
  have a: "sv_ptr ((v # vs) ! i) \<in> set (limits' oid)" if "i < length (v # vs)" "(is_true r # rs1) ! i" for i
    using that ih hit(1) by (cases i) auto
  have b: "(is_true r # rs1) ! i" if "i < length (v # vs)" "sv_ptr ((v # vs) ! i) \<in> set (limits oid)" for i
    using that ih hit(2) l1(2) by (cases i) auto
  show ?case using 1 ih l1(2) a b by auto
qed simp

text \<open>Over any sequence of tests a limit condition holds for at most as many different vehicles as its
  limit allows.\<close>

theorem limit_condition_bounded:
  assumes "limit_tests limit oid vs (\<lambda>_. []) = (rs, limits)"
  shows "card {sv_ptr (vs ! i) |i. i < length vs \<and> rs ! i} \<le> limit"
proof -
  have ok: "limits_ok oid limit (\<lambda>_. [])" by (simp add: limits_ok_def)
  note s = limit_tests_spec [OF ok assms]
  have "{sv_ptr (vs ! i) |i. i < length vs \<and> rs ! i} \<subseteq> set (limits oid)" using s by auto
  then have "card {sv_ptr (vs ! i) |i. i < length vs \<and> rs ! i} \<le> card (set (limits oid))" by (intro card_mono) auto
  also have "\<dots> \<le> length (limits oid)" by (rule card_length)
  also have "\<dots> \<le> limit" using s by (simp add: limits_ok_def)
  finally show ?thesis .
qed

theorem limit_condition_bounded_witness:
  "fst (limit_tests 1 5 [story_car, story_car\<lparr>sv_ptr := 2\<rparr>, story_car] (\<lambda>_. [])) = [True, False, True]
   \<and> card {sv_ptr ([story_car, story_car\<lparr>sv_ptr := 2\<rparr>, story_car] ! i) |i. i < length [story_car, story_car\<lparr>sv_ptr := 2\<rparr>, story_car]
       \<and> fst (limit_tests 1 5 [story_car, story_car\<lparr>sv_ptr := 2\<rparr>, story_car] (\<lambda>_. [])) ! i} \<le> 1"
proof
  show "fst (limit_tests 1 5 [story_car, story_car\<lparr>sv_ptr := 2\<rparr>, story_car] (\<lambda>_. [])) = [True, False, True]"
    by (simp add: LimitCondition_testCondition_def story_car_def insort_insert_key_def)
  show "card {sv_ptr ([story_car, story_car\<lparr>sv_ptr := 2\<rparr>, story_car] ! i) |i. i < length [story_car, story_car\<lparr>sv_ptr := 2\<rparr>, story_car]
       \<and> fst (limit_tests 1 5 [story_car, story_car\<lparr>sv_ptr := 2\<rparr>, story_car] (\<lambda>_. [])) ! i} \<le> 1"
    by (rule limit_condition_bounded [OF surjective_pairing])
qed

text \<open>Conjunction and disjunction of conditions: a disjunction holds iff one side does; a conjunction
  holds iff both sides do and, when both are sets of vehicles, they have a vehicle in common.\<close>

theorem and_or_truth:
  assumes "limit_ids l = {}" and "limit_ids r = {}"
    and "lhs = fst (Condition_testCondition env vs car l limits)" and "rhs = fst (Condition_testCondition env vs car r limits)"
  shows "is_true (fst (Condition_testCondition env vs car (OrCondition l r) limits)) = (is_true lhs \<or> is_true rhs)
    \<and> is_true (fst (Condition_testCondition env vs car (AndCondition l r) limits)) =
       (is_true lhs \<and> is_true rhs
        \<and> (case (lhs, rhs) of (Result_set a, Result_set b) \<Rightarrow> set a \<inter> set b \<noteq> {} | _ \<Rightarrow> True))"
proof -
  obtain a b where "\<forall>ls. Condition_testCondition env vs car l ls = (a, ls)" "\<forall>ls. Condition_testCondition env vs car r ls = (b, ls)"
    using limit_free_result [OF assms(1)] limit_free_result [OF assms(2)] by metis
  then show ?thesis using assms(3,4) by (auto simp: is_true_Or is_true_And condition_defs)
qed

theorem and_or_truth_witness:
  "is_true (fst (Condition_testCondition (storyboard_env 3) [] story_car (OrCondition (TimeCondition 5 9) (SpeedConditionGreater 10)) (\<lambda>_. [])))"
  using and_or_truth [of "TimeCondition 5 9" "SpeedConditionGreater 10" _ "storyboard_env 3" "[]" story_car "\<lambda>_. []", OF _ _ refl refl]
  by (simp add: story_car_def condition_defs)

text \<open>A vehicle that takes the address of one that left inherits its effect stack: a story applied to
  the old vehicle counts as applied to the new one, so its effects are not applied.\<close>

theorem stale_stack_after_removal:
  assumes "m_vehicles b = [(old, v)]" and "sv_ptr v' = sv_ptr v" and "is_true res"
    and "Storyboard_storyApplied (sv_ptr v) (story_ptr story) b"
    and "b' = Storyboard_addNode new (Some v') (Storyboard_removeNode old b)"
  shows "m_vehicles b' = [(new, v')] \<and> Storyboard_checkCar (sv_ptr v') res story b' = Inr b'"
  using assms by (auto simp: Storyboard_addNode_def Storyboard_removeNode_def omap_del_def Storyboard_checkCar_def
    Storyboard_storyApplied_def split: option.splits)

theorem stale_stack_after_removal_witness:
  "\<exists>b b'. Storyboard_updateStoryboard (storyboard_env 3) example_board = Inr b
     \<and> b' = Storyboard_addNode ''new'' (Some (story_car\<lparr>sv_controllerId := ''new''\<rparr>)) (Storyboard_removeNode ''car'' b)
     \<and> Storyboard_checkCar 1 (Result_bool True) (hd (m_stories example_board)) b' = Inr b'"
proof -
  obtain b where b: "Storyboard_updateStoryboard (storyboard_env 3) example_board = Inr b" "m_vehicles b = [(''car'', story_car)]"
    "Storyboard_storyApplied 1 100 b"
    by (simp add: Storyboard_updateStoryboard_def example_board_def Storyboard_checkCar_def Storyboard_storyApplied_def
      Storyboard_addEffect_def effect_stack_def storyboard_env_def story_car_def Let_def condition_defs EffectStack_isStoryOnStack_def
      EffectStack_addEffect_def effect_defs LimitCondition_testCondition_def)
  have "story_ptr (hd (m_stories example_board)) = 100" "sv_ptr story_car = 1" by (simp_all add: example_board_def story_car_def)
  then show ?thesis
    using stale_stack_after_removal [OF b(2), of "story_car\<lparr>sv_controllerId := ''new''\<rparr>" "Result_bool True"
      "hd (m_stories example_board)" _ "''new''", OF _ _ _ refl] b by auto
qed

lemma distance_along:
  assumes "s\<^sup>2 + c\<^sup>2 = (1::real)" and "0 \<le> l" and "fst a - fst b = s * l" and "snd a - snd b = c * l"
  shows "position_distance a b = l"
proof -
  have "(fst a - fst b)\<^sup>2 + (snd a - snd b)\<^sup>2 = (s\<^sup>2 + c\<^sup>2) * l\<^sup>2"
    unfolding assms(3,4) by (simp add: power_mult_distrib algebra_simps)
  then show ?thesis using assms(1,2) by (simp add: position_distance_def)
qed

text \<open>The outline computed for a vehicle is the rectangle of its length and width around the given
  centre, turned by its heading.\<close>

theorem getShape_rectangle:
  assumes "0 \<le> len" and "0 \<le> width" and "s = TtcCondition_getShape pos angle len width"
  shows "position_distance (FrontRight s) (FrontLeft s) = width \<and> position_distance (RearRight s) (RearLeft s) = width
    \<and> position_distance (FrontRight s) (RearRight s) = len \<and> position_distance (FrontLeft s) (RearLeft s) = len
    \<and> (fst (FrontRight s) + fst (RearLeft s)) / 2 = fst pos \<and> (snd (FrontRight s) + snd (RearLeft s)) / 2 = snd pos
    \<and> fst (FrontRight s) + fst (FrontLeft s) - fst (RearRight s) - fst (RearLeft s) = 2 * len * sin angle
    \<and> snd (FrontRight s) + snd (FrontLeft s) - snd (RearRight s) - snd (RearLeft s) = - 2 * len * cos angle"
proof -
  let ?h = "pi / 2 - angle"
  have sc: "(sin ?h)\<^sup>2 + (cos ?h)\<^sup>2 = 1" "(cos ?h)\<^sup>2 + (- sin ?h)\<^sup>2 = 1" by (simp_all add: add.commute)
  have corner: "FrontRight s = (sin ?h * (width * 0.5) + (cos ?h * (len * 0.5) + fst pos), cos ?h * (width * 0.5) + (- sin ?h * (len * 0.5) + snd pos))"
    "FrontLeft s = (- sin ?h * (width * 0.5) + (cos ?h * (len * 0.5) + fst pos), - cos ?h * (width * 0.5) + (- sin ?h * (len * 0.5) + snd pos))"
    "RearRight s = (sin ?h * (width * 0.5) + (- cos ?h * (len * 0.5) + fst pos), cos ?h * (width * 0.5) + (sin ?h * (len * 0.5) + snd pos))"
    "RearLeft s = (- sin ?h * (width * 0.5) + (- cos ?h * (len * 0.5) + fst pos), - cos ?h * (width * 0.5) + (sin ?h * (len * 0.5) + snd pos))"
    using assms(3) by (simp_all only: TtcCondition_getShape_def Let_def CarShape.select_convs fst_conv snd_conv)
  have "position_distance (FrontRight s) (FrontLeft s) = width" "position_distance (RearRight s) (RearLeft s) = width"
    by (rule distance_along [OF sc(1) assms(2)]; simp add: corner algebra_simps)+
  moreover have "position_distance (FrontRight s) (RearRight s) = len" "position_distance (FrontLeft s) (RearLeft s) = len"
    by (rule distance_along [OF sc(2) assms(1)]; simp add: corner algebra_simps)+
  moreover have "cos ?h = sin angle" "sin ?h = cos angle" by (simp_all add: cos_diff sin_diff)
  ultimately show ?thesis by (simp add: corner algebra_simps)
qed

theorem getShape_rectangle_witness:
  "position_distance (FrontRight (TtcCondition_getShape (0, 0) 1 5 2)) (RearRight (TtcCondition_getShape (0, 0) 1 5 2)) = 5"
  using getShape_rectangle [of 5 2 _ "(0, 0)" 1, OF _ _ refl] by simp

text \<open>Two standing vehicles are never found on a collision course, even when their outlines overlap.\<close>

theorem ttc_ignores_standing:
  assumes "sv_vdpSpeed a = 0" and "sv_vdpSpeed b = 0"
  shows "\<not> TtcCondition_intersect intersects ttc threshold a b"
  using assms by (simp add: TtcCondition_intersect_def TtcCondition_calculateTimeDelta_def time_per_length_def
    TtcCondition_calculateRoute_def Let_def)

theorem ttc_ignores_standing_witness:
  "\<not> TtcCondition_intersect (\<lambda>x y. True) 5 100 (story_car\<lparr>sv_vdpSpeed := 0\<rparr>) (story_car\<lparr>sv_vdpSpeed := 0\<rparr>)"
  by (rule ttc_ignores_standing) simp_all

end
