(* ===== verification/Stations.thy ===== *)
theory Stations
  imports CaServices DenServices Middlewares Storyboards
begin

text \<open>
  One equipped vehicle as a state machine: its middleware with the CA and the DEN service, driven by
  the events the simulator delivers.  The components are those of the other theories; a step is the
  handler the code runs for the event.
\<close>

section \<open>State and events\<close>

record Station =
  s_now :: simtime
  s_timer :: Timer
  s_vdp :: VehicleDataProvider
  s_ldm :: LocalDynamicMap
  s_ca :: CaService
  s_den :: DenService
  s_useCases :: "UseCase list"

record StationConfig =
  cfg_updateInterval :: simtime
  cfg_interfaces :: "NetworkInterface list"
  cfg_trc :: "NetworkInterface \<Rightarrow> int option"
  cfg_geodesic :: "real \<times> real \<Rightarrow> real \<times> real \<Rightarrow> real"

text \<open>\<open>VehicleMiddleware::receiveSignal\<close>: a change of the vehicle's mobility updates the vehicle data.\<close>

definition VehicleMiddleware_receiveSignal ::
    "simtime \<Rightarrow> VehicleController \<Rightarrow> VehicleDataProvider \<Rightarrow> VehicleDataProvider result" where
  "VehicleMiddleware_receiveSignal now c vdp = VehicleDataProvider_update now c vdp"

definition ca_environment :: "StationConfig \<Rightarrow> Station \<Rightarrow> CaEnvironment" where
  "ca_environment cfg s =
     \<lparr>env_timer = s_timer s, env_vdp = s_vdp s, env_interfaces = cfg_interfaces cfg, env_trc = cfg_trc cfg\<rparr>"

definition den_environment :: "StationConfig \<Rightarrow> simtime \<Rightarrow> LocalDynamicMap \<Rightarrow> Station \<Rightarrow> DenEnvironment" where
  "den_environment cfg now ldm s =
     \<lparr>den_now = now, den_timer = s_timer s, den_vdp = s_vdp s, den_ldm = ldm, den_geodesic = cfg_geodesic cfg\<rparr>"

text \<open>
  What the two services change in one update of the middleware: their states and the CAMs sent.  The
  service at address 0 is the CA service, that at address 1 the DEN service.
\<close>

record Services =
  w_ca :: CaService
  w_den :: DenService
  w_useCases :: "UseCase list"
  w_cams :: "CamTransmission list"

definition trigger_service ::
    "StationConfig \<Rightarrow> simtime \<Rightarrow> Station \<Rightarrow> LocalDynamicMap \<Rightarrow> nat \<Rightarrow> Services \<Rightarrow> Services result" where
  "trigger_service cfg now s ldm service w =
     (if service = 0 then
        rmap (\<lambda>(ca, tx). w\<lparr>w_ca := ca, w_cams := w_cams w @ tx\<rparr>) (CaService_trigger (ca_environment cfg s) now (w_ca w))
      else if service = 1 then
        rmap (\<lambda>(us, den). w\<lparr>w_useCases := us, w_den := den\<rparr>)
          (DenService_trigger (den_environment cfg now ldm s) (w_useCases w) (w_den w))
      else Inr w)"

definition station_update ::
    "StationConfig \<Rightarrow> simtime \<Rightarrow> Station \<Rightarrow> (Station \<times> CamTransmission list \<times> simtime) result" where
  "station_update cfg now s =
     rmap (\<lambda>((ldm, w), next_update).
         (s\<lparr>s_now := now, s_ldm := ldm, s_ca := w_ca w, s_den := w_den w, s_useCases := w_useCases w\<rparr>, w_cams w, next_update))
       (Middleware_updateServices (trigger_service cfg now s) (cfg_updateInterval cfg) [0, 1] now
          (s_ldm s, \<lparr>w_ca = s_ca s, w_den = s_den s, w_useCases = s_useCases s, w_cams = []\<rparr>))"

datatype Event =
    MobilityChanged VehicleController
  | MiddlewareUpdate
  | CamIndication "Cam option"
  | DenmIndication "Denm option"
  | StoryboardTrigger string

text \<open>A step handles an event at a time that is not before the previous one.\<close>

inductive station_step :: "StationConfig \<Rightarrow> Station \<Rightarrow> simtime \<Rightarrow> Event \<Rightarrow> Station \<Rightarrow> CamTransmission list \<Rightarrow> bool" for cfg where
  mobility: "s_now s \<le> t \<Longrightarrow> VehicleMiddleware_receiveSignal t c (s_vdp s) = Inr vdp \<Longrightarrow>
    station_step cfg s t (MobilityChanged c) (s\<lparr>s_now := t, s_vdp := vdp\<rparr>) []"
| update: "s_now s \<le> t \<Longrightarrow> station_update cfg t s = Inr (s', cams, n) \<Longrightarrow>
    station_step cfg s t MiddlewareUpdate s' cams"
| cam: "s_now s \<le> t \<Longrightarrow> CaService_indicate (s_timer s) t decoded (s_ldm s) = Inr ldm \<Longrightarrow>
    station_step cfg s t (CamIndication decoded) (s\<lparr>s_now := t, s_ldm := ldm\<rparr>) []"
| denm: "s_now s \<le> t \<Longrightarrow>
    DenService_indicate (den_environment cfg t (s_ldm s) s) decoded (s_useCases s) (s_den s) = Inr den \<Longrightarrow>
    station_step cfg s t (DenmIndication decoded) (s\<lparr>s_now := t, s_den := den\<rparr>) []"
| storyboard: "s_now s \<le> t \<Longrightarrow>
    station_step cfg s t (StoryboardTrigger cause)
      (s\<lparr>s_now := t, s_useCases := DenService_receiveSignal cause (s_useCases s)\<rparr>) []"

inductive_cases station_stepE: "station_step cfg s t e s' cams"

inductive station_run :: "StationConfig \<Rightarrow> Station \<Rightarrow> (simtime \<times> Event) list \<Rightarrow> Station \<Rightarrow> (simtime \<times> CamTransmission) list \<Rightarrow> bool"
  for cfg where
  finished: "station_run cfg s [] s []"
| step: "station_step cfg s t e s1 cams \<Longrightarrow> station_run cfg s1 es s2 txs \<Longrightarrow>
    station_run cfg s ((t, e) # es) s2 (map (\<lambda>x. (t, x)) cams @ txs)"

section \<open>The invariant of a station\<close>

definition station_ok :: "Station \<Rightarrow> bool" where
  "station_ok s \<longleftrightarrow> vdp_ok (s_vdp s) \<and> ldm_ok (s_now s) (s_ldm s) \<and> ca_ok (s_ca s) \<and> memory_ok (mMemory (s_den s))
     \<and> list_all use_case_ok (s_useCases s)"

lemma trigger_cam:
  assumes "CaService_trigger env now s = Inr (s', tx)" and "x \<in> set tx"
  shows "Cam_validate (tx_cam x) \<and> cam_stationID (tx_cam x) = mStationId (env_vdp env) \<and> tx_request x = cam_request
    \<and> generationDeltaTime (tx_cam x) = ucast (countTaiMilliseconds (Timer_getTimeFor_sim (env_timer env) (mLastUpdate (env_vdp env))))"
proof -
  obtain s1 where "CaService_sendCam env now s = Inr (s1, tx)"
    using assms by (auto simp: CaService_trigger_def CaService_checkTriggeringConditions_def rbind_ok_iff Let_def
      split: if_splits elim!: rmap.elims)
  then show ?thesis
    using assms(2)
    by (auto simp: CaService_sendCam_def Let_def rbind_ok_iff addLowFrequencyContainer_def
      createCooperativeAwarenessMessage_def split: if_splits)
qed

lemma handleStoryboard_ok [inv_intros]: "use_case_ok u \<Longrightarrow> use_case_ok (UseCase_handleStoryboardTrigger cause u)"
  by (cases u) auto

lemma indicate_use_cases_memory:
  "mMemory (fold (UseCase_indicate env denm) us s) = mMemory s"
proof (induction us arbitrary: s)
  case (Cons u us)
  have "mMemory (UseCase_indicate env denm u s) = mMemory s"
    by (cases u) (auto simp: ImpactReductionContainerExchange_indicate_def transmit_denm split: option.split)
  then show ?case using Cons by simp
qed simp

lemma den_indicate_ok [inv_intros]:
  assumes "memory_ok (mMemory s)" and "DenService_indicate env decoded us s = Inr s'"
  shows "memory_ok (mMemory s')"
  using assms by (auto simp: DenService_indicate_def rmap_ok_iff indicate_use_cases_memory intro: memory_ok_received
    split: option.splits if_splits)

text \<open>One update of the middleware: what the two services did.\<close>

lemma station_update_cases:
  assumes "station_update cfg now s = Inr (s', cams, n)"
  obtains ca us den where
    "CaService_trigger (ca_environment cfg s) now (s_ca s) = Inr (ca, cams)"
    "DenService_trigger (den_environment cfg now (LocalDynamicMap_dropExpired now (s_ldm s)) s) (s_useCases s) (s_den s) = Inr (us, den)"
    "s' = s\<lparr>s_now := now, s_ldm := LocalDynamicMap_dropExpired now (s_ldm s), s_ca := ca, s_den := den, s_useCases := us\<rparr>"
    "n = now + cfg_updateInterval cfg"
  using assms
  by (auto simp: station_update_def Middleware_updateServices_def rmap_ok_iff rbind_ok_iff trigger_service_def Let_def)

lemma station_update_intro:
  assumes "CaService_trigger (ca_environment cfg s) now (s_ca s) = Inr (ca, cams)"
    and "DenService_trigger (den_environment cfg now (LocalDynamicMap_dropExpired now (s_ldm s)) s) (s_useCases s) (s_den s) = Inr (us, den)"
  shows "station_update cfg now s =
    Inr (s\<lparr>s_now := now, s_ldm := LocalDynamicMap_dropExpired now (s_ldm s), s_ca := ca, s_den := den, s_useCases := us\<rparr>,
      cams, now + cfg_updateInterval cfg)"
  using assms by (simp add: station_update_def Middleware_updateServices_def trigger_service_def Let_def)

lemma station_update_ok:
  assumes "station_ok s" and "s_now s \<le> now" and "station_update cfg now s = Inr (s', cams, n)"
  shows "station_ok s'"
  using assms(3)
proof (rule station_update_cases)
  fix ca us den
  assume 1: "CaService_trigger (ca_environment cfg s) now (s_ca s) = Inr (ca, cams)"
    "DenService_trigger (den_environment cfg now (LocalDynamicMap_dropExpired now (s_ldm s)) s) (s_useCases s) (s_den s) = Inr (us, den)"
    "s' = s\<lparr>s_now := now, s_ldm := LocalDynamicMap_dropExpired now (s_ldm s), s_ca := ca, s_den := den, s_useCases := us\<rparr>"
  have "ldm_ok now (LocalDynamicMap_dropExpired now (s_ldm s))"
    using assms(1,2) by (auto simp: station_ok_def intro: dropExpired_ok ldm_ok_later)
  moreover have "ca_ok ca" using trigger_ok [OF _ 1(1)] assms(1) by (simp add: station_ok_def)
  moreover have "list_all use_case_ok us \<and> memory_ok (mMemory den)"
    using check_use_cases_sends [OF _ 1(2) [unfolded DenService_trigger_def]] assms(1)
    by (auto simp: station_ok_def sends_def memory_ok_drop)
  ultimately show "station_ok s'" using assms(1) 1(3) by (simp add: station_ok_def)
qed

lemma station_step_ok [inv_intros]:
  assumes "station_step cfg s t e s' cams" and "station_ok s"
  shows "station_ok s' \<and> s_now s \<le> s_now s' \<and> s_now s' = t"
  using assms
proof (cases rule: station_step.cases)
  case (mobility c vdp)
  then show ?thesis
    using assms(2) by (auto simp: station_ok_def VehicleMiddleware_receiveSignal_def intro: ldm_ok_later VehicleDataProvider_update_inv(1))
next
  case (update n)
  then show ?thesis using assms(2) station_update_ok by (auto elim: station_update_cases)
next
  case (cam decoded ldm)
  then show ?thesis
    using assms(2) by (auto simp: station_ok_def CaService_indicate_def intro: ldm_ok_later updateAwareness_ok
      split: option.splits if_splits)
next
  case (denm decoded den)
  then show ?thesis using assms(2) by (auto simp: station_ok_def intro: ldm_ok_later den_indicate_ok)
next
  case (storyboard cause)
  then show ?thesis
    using assms(2) by (auto simp: station_ok_def DenService_receiveSignal_def list_all_iff intro: ldm_ok_later handleStoryboard_ok)
qed

lemma station_run_ok: "station_run cfg s es s' txs \<Longrightarrow> station_ok s \<Longrightarrow> station_ok s'"
  by (induction rule: station_run.induct) (auto dest: station_step_ok)

section \<open>Runs of a station\<close>

lemma step_cams:
  assumes "station_step cfg s t e s' cams" and "x \<in> set cams"
  shows "Cam_validate (tx_cam x) \<and> cam_stationID (tx_cam x) = mStationId (s_vdp s)"
  using assms(1)
proof (cases rule: station_step.cases)
  case (update n)
  from update(3) show ?thesis
    by (rule station_update_cases) (use trigger_cam assms(2) in \<open>fastforce simp: ca_environment_def\<close>)
qed (use assms(2) in auto)

lemma step_station: "station_step cfg s t e s' cams \<Longrightarrow> mStationId (s_vdp s') = mStationId (s_vdp s)"
  by (cases rule: station_step.cases)
    (auto simp: VehicleMiddleware_receiveSignal_def elim: station_update_cases dest: VehicleDataProvider_update_inv(2))



section \<open>Properties\<close>

text \<open>C1: whatever events a station handles, in whatever order, its components keep their invariants,
  and every CAM it sends satisfies the range constraints of the message format and carries the
  station's own identifier.\<close>

theorem station_run_invariant:
  assumes "station_run cfg s es s' txs" and "station_ok s"
  shows "station_ok s' \<and> mStationId (s_vdp s') = mStationId (s_vdp s)
    \<and> (\<forall>x \<in> set txs. Cam_validate (tx_cam (snd x)) \<and> cam_stationID (tx_cam (snd x)) = mStationId (s_vdp s))"
  using assms
proof (induction rule: station_run.induct)
  case (step s t e s1 cams es s2 txs)
  have "station_ok s1" using station_step_ok [OF step.hyps(1) step.prems] by blast
  from step.IH [OF this] step_station [OF step.hyps(1)] step_cams [OF step.hyps(1)] show ?case by auto
qed simp


text \<open>C6: what becomes of a CAM that one station sends at every station with the same time base that receives it within 32 seconds of
  the sender's last position update.  The message carries that update's time truncated to a millisecond of TAI, less than one millisecond
  before the update.  If the message is received at most 1.1 seconds after that truncated time and the truncated time is not more than 1.1
  seconds ahead, it is stored under the sender's identifier with the expiry 1.1 seconds after the truncated time, and entries of
  other stations stay; otherwise the local dynamic map stays as it is.\<close>

theorem cam_reaches_local_dynamic_map:
  assumes "station_update cfg t a = Inr (a', cams, n)" and "x \<in> set cams"
    and "station_ok b" and "s_now b \<le> now" and "s_timer b = s_timer a"
    and "0 \<le> mTimebase (s_timer b)" and "mTimebase (s_timer b) + in_us now < 2 ^ 60" and "0 \<le> now"
    and "0 \<le> mLastUpdate (s_vdp a)" and "now \<le> mLastUpdate (s_vdp a) + simtime_s 32" and "mLastUpdate (s_vdp a) \<le> now + simtime_s 32"
  shows "\<exists>b' stamp. station_step cfg' b now (CamIndication (Some (tx_cam x))) b' []
    \<and> stamp = dated_at (s_timer b) (mLastUpdate (s_vdp a))
    \<and> mLastUpdate (s_vdp a) - simtime_ms 1 < stamp \<and> stamp \<le> mLastUpdate (s_vdp a)
    \<and> (if now \<le> stamp + ldm_lifetime \<and> stamp \<le> now + ldm_lifetime
       then map_of (s_ldm b') = (map_of (s_ldm b))(mStationId (s_vdp a) \<mapsto> \<lparr>ae_expiry = stamp + ldm_lifetime, ae_object = tx_cam x\<rparr>)
       else s_ldm b' = s_ldm b)"
proof -
  have c: "Cam_validate (tx_cam x)" "cam_stationID (tx_cam x) = mStationId (s_vdp a)"
    "generationDeltaTime (tx_cam x) = ucast (countTaiMilliseconds (Timer_getTimeFor_sim (s_timer b) (mLastUpdate (s_vdp a))))"
    using assms(1)
    by (rule station_update_cases, use trigger_cam assms(2,5) in \<open>fastforce simp: ca_environment_def\<close>)+
  have ldm: "ldm_ok now (s_ldm b)" using assms(3,4) ldm_ok_later by (auto simp: station_ok_def)
  from update_by_date [OF ldm assms(6-11) c(3)] obtain m' where
    m': "LocalDynamicMap_updateAwareness (s_timer b) now (tx_cam x) (s_ldm b) = Inr m'"
    "if now \<le> dated_at (s_timer b) (mLastUpdate (s_vdp a)) + ldm_lifetime \<and> dated_at (s_timer b) (mLastUpdate (s_vdp a)) \<le> now + ldm_lifetime
     then map_of m' = (map_of (s_ldm b))(mStationId (s_vdp a) \<mapsto>
       \<lparr>ae_expiry = dated_at (s_timer b) (mLastUpdate (s_vdp a)) + ldm_lifetime, ae_object = tx_cam x\<rparr>) else m' = s_ldm b"
    unfolding c(2) by blast
  have "CaService_indicate (s_timer b) now (Some (tx_cam x)) (s_ldm b) = Inr m'"
    using c(1) m'(1) by (simp add: CaService_indicate_def)
  from station_step.cam [OF assms(4) this] dated_at_bounds [OF assms(9)] show ?thesis using m'(2) by fastforce
qed

text \<open>A storyboard signal with the cause for impact reduction makes the station send exactly one more
  DENM per use case of that kind at its next update, a request with the cause collision risk.\<close>

theorem storyboard_signal_sends_request:
  assumes "s_useCases s = [UseCase_ImpactReduction u]"
    and "station_step cfg s t (StoryboardTrigger ''irc'') s1 c1" and "station_step cfg s1 t' MiddlewareUpdate s2 c2"
  shows "\<exists>d r. den_sent (s_den s2) = den_sent (s_den s) @ [(d, r)] \<and> DenmObject_has_cause d CollisionRisk
    \<and> (\<exists>irc. Option.bind (alacarte d) impactReduction = Some irc \<and> requestResponseIndication irc = Indication_request)
    \<and> s_useCases s2 = [UseCase_ImpactReduction \<lparr>mPendingRequest = False\<rparr>]"
proof -
  have s1: "s1 = s\<lparr>s_now := t, s_useCases := [UseCase_ImpactReduction (u\<lparr>mPendingRequest := True\<rparr>)]\<rparr>"
    using assms(2) by (cases rule: station_step.cases)
      (simp add: assms(1) DenService_receiveSignal_def ImpactReductionContainerExchange_handleStoryboardTrigger_def)
  from assms(3) obtain n where "station_update cfg t' s1 = Inr (s2, c2, n)" by (cases rule: station_step.cases) auto
  then show ?thesis
  proof (rule station_update_cases)
    fix ca us den
    assume den: "DenService_trigger (den_environment cfg t' (LocalDynamicMap_dropExpired t' (s_ldm s1)) s1) (s_useCases s1) (s_den s1) = Inr (us, den)"
      and s2: "s2 = s1\<lparr>s_now := t', s_ldm := LocalDynamicMap_dropExpired t' (s_ldm s1), s_ca := ca, s_den := den, s_useCases := us\<rparr>"
    show ?thesis
      using den unfolding s2 s1
      by (auto simp: DenService_trigger_def ImpactReductionContainerExchange_check_def apfst_eq transmit_denm
        createMessage_defs Let_def DenmObject_has_cause_def)
  qed
qed

section \<open>A station for evaluation\<close>

definition example_config :: StationConfig where
  "example_config = \<lparr>cfg_updateInterval = simtime_ms 100, cfg_interfaces = env_interfaces example_env,
     cfg_trc = env_trc example_env, cfg_geodesic = (\<lambda>a b. 0)\<rparr>"

definition example_station :: "simtime \<Rightarrow> bool \<Rightarrow> Station" where
  "example_station now pending = \<lparr>s_now = now, s_timer = env_timer example_env, s_vdp = env_vdp example_env, s_ldm = [],
     s_ca = example_ca, s_den = DenService_new, s_useCases = [UseCase_ImpactReduction \<lparr>mPendingRequest = pending\<rparr>]\<rparr>"

lemma example_station_ok: "station_ok (example_station now p)"
  using example_ca_ok
  by (simp add: station_ok_def example_station_def example_env_def vdp_ok_def VehicleDataProvider_new_def ldm_ok_empty
    memory_ok_def DenService_new_def)

lemma example_update:
  obtains s' x where "station_update example_config (simtime_ms 1000) (example_station now p) = Inr (s', [x], simtime_ms 1100)"
proof -
  have env: "ca_environment example_config (example_station now p) = example_env"
    by (simp add: ca_environment_def example_config_def example_station_def example_env_def)
  have "mLastCamTimestamp example_ca + mGenCamMax example_ca \<le> simtime_ms 1000"
    by (simp add: example_ca_def CaService_initialize_def example_parameters_def)
  from trigger_sends [OF example_ca_ok this example_env_creates example_dcc] obtain ca x where
    "CaService_trigger example_env (simtime_ms 1000) example_ca = Inr (ca, [x])" by blast
  then have ca: "CaService_trigger (ca_environment example_config (example_station now p)) (simtime_ms 1000)
      (s_ca (example_station now p)) = Inr (ca, [x])" unfolding env by (simp add: example_station_def)
  obtain us den where den: "DenService_trigger (den_environment example_config (simtime_ms 1000)
      (LocalDynamicMap_dropExpired (simtime_ms 1000) (s_ldm (example_station now p))) (example_station now p))
      (s_useCases (example_station now p)) (s_den (example_station now p)) = Inr (us, den)"
    by (simp add: example_station_def DenService_trigger_def case_prod_beta)
  have "simtime_ms 1000 + cfg_updateInterval example_config = simtime_ms 1100"
    by (simp add: example_config_def simtime_ms_def)
  then show ?thesis using station_update_intro [OF ca den] that by simp
qed

lemma example_run:
  assumes "now \<le> simtime_ms 1000"
  obtains s' x where "station_run example_config (example_station now p) [(simtime_ms 1000, MiddlewareUpdate)] s' [(simtime_ms 1000, x)]"
proof -
  obtain s' x where u: "station_update example_config (simtime_ms 1000) (example_station now p) = Inr (s', [x], simtime_ms 1100)"
    by (rule example_update)
  have "station_step example_config (example_station now p) (simtime_ms 1000) MiddlewareUpdate s' [x]"
    by (rule station_step.update [OF _ u]) (use assms in \<open>simp add: example_station_def\<close>)
  from station_run.step [OF this station_run.finished] show ?thesis using that by simp
qed

theorem station_run_invariant_witness:
  "\<exists>s' x. station_run example_config (example_station 0 False) [(simtime_ms 1000, MiddlewareUpdate)] s' [(simtime_ms 1000, x)]
     \<and> station_ok s' \<and> cam_stationID (tx_cam x) = 7"
proof -
  obtain s' x where r: "station_run example_config (example_station 0 False) [(simtime_ms 1000, MiddlewareUpdate)] s' [(simtime_ms 1000, x)]"
    by (rule example_run [of 0]) (simp_all add: simtime_ms_def)
  from station_run_invariant [OF r example_station_ok] r show ?thesis
    by (auto simp: example_station_def example_env_def VehicleDataProvider_new_def)
qed


theorem cam_reaches_local_dynamic_map_witness:
  "\<exists>a' x b'. station_update example_config (simtime_ms 1000) (example_station 0 False) = Inr (a', [x], simtime_ms 1100)
     \<and> station_step example_config (example_station 0 True) (simtime_ms 1000) (CamIndication (Some (tx_cam x))) b' []
     \<and> map_of (s_ldm b') 7 = Some \<lparr>ae_expiry = simtime_ms 1100, ae_object = tx_cam x\<rparr>"
proof -
  obtain a' x where u: "station_update example_config (simtime_ms 1000) (example_station 0 False) = Inr (a', [x], simtime_ms 1100)"
    by (rule example_update)
  let ?a = "example_station 0 False" and ?b = "example_station 0 True"
  have ex: "mStationId (s_vdp ?a) = 7" "mLastUpdate (s_vdp ?a) = 0" "s_timer ?b = s_timer ?a" "s_now ?b = 0" "0 \<le> mTimebase (s_timer ?b)"
    "mTimebase (s_timer ?b) + in_us (simtime_ms 1000) < 2 ^ 60"
    by (simp_all add: example_station_def example_env_def VehicleDataProvider_new_def simtime_ms_def in_us_def)
  have date: "dated_at (s_timer ?b) 0 = 0"
    by (simp add: dated_at_def Timer_getTimeFor_sim_def Timer_getTimeFor_tai_def Let_def simtime_us_def in_us_def example_station_def example_env_def)
  from cam_reaches_local_dynamic_map [OF u _ example_station_ok, of x 0 True "simtime_ms 1000" example_config] ex date u show ?thesis
    by (auto simp: simtime_ms_def simtime_s_def ldm_lifetime_def in_us_def)
qed

theorem storyboard_signal_sends_request_witness:
  "\<exists>s1 s2 c2. station_step example_config (example_station 0 False) 5 (StoryboardTrigger ''irc'') s1 []
     \<and> station_step example_config s1 (simtime_ms 1000) MiddlewareUpdate s2 c2 \<and> length (den_sent (s_den s2)) = 1"
proof -
  let ?s = "example_station 0 False"
  have s1: "?s\<lparr>s_now := 5, s_useCases := DenService_receiveSignal ''irc'' (s_useCases ?s)\<rparr> = example_station 5 True"
    by (simp add: example_station_def DenService_receiveSignal_def ImpactReductionContainerExchange_handleStoryboardTrigger_def)
  have st1: "station_step example_config ?s 5 (StoryboardTrigger ''irc'') (example_station 5 True) []"
    unfolding s1 [symmetric] by (rule station_step.storyboard) (simp add: example_station_def)
  obtain s2 x where u: "station_update example_config (simtime_ms 1000) (example_station 5 True) = Inr (s2, [x], simtime_ms 1100)"
    by (rule example_update)
  have st2: "station_step example_config (example_station 5 True) (simtime_ms 1000) MiddlewareUpdate s2 [x]"
    by (rule station_step.update [OF _ u]) (simp add: example_station_def simtime_ms_def)
  have uses: "s_useCases ?s = [UseCase_ImpactReduction \<lparr>mPendingRequest = False\<rparr>]" "den_sent (s_den ?s) = []"
    by (simp_all add: example_station_def DenService_new_def)
  from storyboard_signal_sends_request [OF uses(1) st1 st2] st1 st2 uses(2) show ?thesis by fastforce
qed

end
