(* ===== verification/TraciCaches.thy ===== *)
theory TraciCaches
  imports Artery_Prelude
begin

text \<open>
  \<open>src/traci\<close>, the side of the coupling to the traffic simulator SUMO that keeps data: conversion between the
  coordinate systems (\<open>Angle.cc\<close>, \<open>Position.cc\<close>, \<open>Boundary.h\<close>), the caches of variables (\<open>VariableCache\<close>,
  \<open>ValueUtils\<close>, \<open>VariableTraits.h\<close>) and the subscriptions (\<open>BasicSubscriptionManager\<close>).  What the TraCI
  server answers is the record \<open>LiteAPI\<close>; the subscribe commands sent to it are listed in their order.
\<close>

section \<open>Coordinates\<close>

record TraCIPosition =
  pos_x :: real
  pos_y :: real
  pos_z :: real

record Boundary =
  boundary_positions :: "TraCIPosition list"

definition Boundary_new :: "TraCIPosition list \<Rightarrow> Boundary result" where
  "Boundary_new pv =
     (if length pv \<noteq> 2 then Inl (RuntimeError ''TraCI boundary has to consist of exactly two positions'')
      else Inr \<lparr>boundary_positions = pv\<rparr>)"

definition lowerLeftPosition :: "Boundary \<Rightarrow> TraCIPosition" where
  "lowerLeftPosition b = boundary_positions b ! 0"

definition upperRightPosition :: "Boundary \<Rightarrow> TraCIPosition" where
  "upperRightPosition b = boundary_positions b ! 1"

text \<open>An \<open>artery::Position\<close> is a pair of metres, an \<open>artery::Angle\<close> a number of radians and a \<open>TraCIAngle\<close> a
  number of degrees.\<close>

definition position_cast_artery :: "Boundary \<Rightarrow> TraCIPosition \<Rightarrow> real \<times> real" where
  "position_cast_artery b pos = (pos_x pos - pos_x (lowerLeftPosition b), pos_y (upperRightPosition b) - pos_y pos)"

definition position_cast_traci :: "Boundary \<Rightarrow> real \<times> real \<Rightarrow> TraCIPosition" where
  "position_cast_traci b pos =
     \<lparr>pos_x = fst pos + pos_x (lowerLeftPosition b), pos_y = pos_y (upperRightPosition b) - snd pos, pos_z = 0\<rparr>"

definition angle_cast_artery :: "real \<Rightarrow> real" where
  "angle_cast_artery degree = (90 - degree) * (pi / 180)"

definition angle_cast_traci :: "real \<Rightarrow> real" where
  "angle_cast_traci opp = (1 / 2 * pi - opp) * (180 / pi)"

section \<open>Values and variables\<close>

datatype TraCIResult =
    TraCIInt int
  | TraCIDouble real
  | TraCIResultPosition TraCIPosition
  | TraCIString string
  | TraCIStringList "string list"

datatype ResultType = ResultInt | ResultDouble | ResultPosition | ResultString | ResultStringList

fun result_type :: "TraCIResult \<Rightarrow> ResultType" where
  "result_type (TraCIInt i) = ResultInt"
| "result_type (TraCIDouble d) = ResultDouble"
| "result_type (TraCIResultPosition p) = ResultPosition"
| "result_type (TraCIString s) = ResultString"
| "result_type (TraCIStringList ss) = ResultStringList"

text \<open>The variables with a trait, that is, those a cache can be asked for, with the codes of libsumo.\<close>

datatype TraCIVariable =
    VAR_SPEED | VAR_POSITION | VAR_ANGLE | VAR_MAXSPEED | VAR_TYPE | VAR_VEHICLECLASS | VAR_LENGTH | VAR_WIDTH
  | VAR_ARRIVED_VEHICLES_IDS | VAR_DEPARTED_VEHICLES_IDS | VAR_DELTA_T | VAR_TELEPORT_STARTING_VEHICLES_IDS
  | VAR_TIME | VAR_TIME_STEP | VAR_SIGNALS

fun var_code :: "TraCIVariable \<Rightarrow> int" where
  "var_code VAR_SPEED = 0x40"
| "var_code VAR_MAXSPEED = 0x41"
| "var_code VAR_POSITION = 0x42"
| "var_code VAR_ANGLE = 0x43"
| "var_code VAR_LENGTH = 0x44"
| "var_code VAR_VEHICLECLASS = 0x49"
| "var_code VAR_WIDTH = 0x4d"
| "var_code VAR_TYPE = 0x4f"
| "var_code VAR_SIGNALS = 0x5b"
| "var_code VAR_TIME = 0x66"
| "var_code VAR_TIME_STEP = 0x70"
| "var_code VAR_DEPARTED_VEHICLES_IDS = 0x74"
| "var_code VAR_TELEPORT_STARTING_VEHICLES_IDS = 0x76"
| "var_code VAR_ARRIVED_VEHICLES_IDS = 0x7a"
| "var_code VAR_DELTA_T = 0x7b"

fun VariableTrait :: "TraCIVariable \<Rightarrow> ResultType" where
  "VariableTrait VAR_SPEED = ResultDouble"
| "VariableTrait VAR_POSITION = ResultPosition"
| "VariableTrait VAR_ANGLE = ResultDouble"
| "VariableTrait VAR_MAXSPEED = ResultDouble"
| "VariableTrait VAR_TYPE = ResultString"
| "VariableTrait VAR_VEHICLECLASS = ResultString"
| "VariableTrait VAR_LENGTH = ResultDouble"
| "VariableTrait VAR_WIDTH = ResultDouble"
| "VariableTrait VAR_ARRIVED_VEHICLES_IDS = ResultStringList"
| "VariableTrait VAR_DEPARTED_VEHICLES_IDS = ResultStringList"
| "VariableTrait VAR_DELTA_T = ResultDouble"
| "VariableTrait VAR_TELEPORT_STARTING_VEHICLES_IDS = ResultStringList"
| "VariableTrait VAR_TIME = ResultDouble"
| "VariableTrait VAR_TIME_STEP = ResultInt"
| "VariableTrait VAR_SIGNALS = ResultInt"

section \<open>The server and the caches\<close>

type_synonym TraCIResults = "(int, TraCIResult) omap"

record LiteAPI =
  api_getDouble :: "int \<Rightarrow> int \<Rightarrow> string \<Rightarrow> real result"
  api_getPosition :: "int \<Rightarrow> int \<Rightarrow> string \<Rightarrow> TraCIPosition result"
  api_getString :: "int \<Rightarrow> int \<Rightarrow> string \<Rightarrow> string result"
  api_getStringVector :: "int \<Rightarrow> int \<Rightarrow> string \<Rightarrow> string list result"
  api_getInt :: "int \<Rightarrow> int \<Rightarrow> string \<Rightarrow> int result"
  api_getIDList :: "string list"
  api_simulationResults :: TraCIResults
  api_vehicleResults :: "string \<Rightarrow> TraCIResults"
  api_vehiclePosition :: "string \<Rightarrow> TraCIPosition result"
  api_vehicleAngle :: "string \<Rightarrow> real result"
  api_vehicleSpeed :: "string \<Rightarrow> real result"
  api_netBoundary :: "TraCIPosition list"

record VariableCache =
  vc_id :: string
  vc_command :: int
  m_values :: TraCIResults

definition SimulationCache_new :: VariableCache where
  "SimulationCache_new = \<lparr>vc_id = [], vc_command = 0xab, m_values = []\<rparr>"

definition VehicleCache_new :: "string \<Rightarrow> VariableCache" where
  "VehicleCache_new vehicleID = \<lparr>vc_id = vehicleID, vc_command = 0xa4, m_values = []\<rparr>"

definition VariableCache_reset :: "TraCIResults \<Rightarrow> VariableCache \<Rightarrow> VariableCache" where
  "VariableCache_reset values c = c\<lparr>m_values := values\<rparr>"

text \<open>\<open>retrieve\<close> of the variable's value type, wrapped by \<open>make_value\<close>.\<close>

definition VariableCache_retrieve :: "LiteAPI \<Rightarrow> TraCIVariable \<Rightarrow> VariableCache \<Rightarrow> TraCIResult result" where
  "VariableCache_retrieve api var c =
     (case VariableTrait var of
        ResultDouble \<Rightarrow> rmap TraCIDouble (api_getDouble api (vc_command c) (var_code var) (vc_id c))
      | ResultPosition \<Rightarrow> rmap TraCIResultPosition (api_getPosition api (vc_command c) (var_code var) (vc_id c))
      | ResultString \<Rightarrow> rmap TraCIString (api_getString api (vc_command c) (var_code var) (vc_id c))
      | ResultStringList \<Rightarrow> rmap TraCIStringList (api_getStringVector api (vc_command c) (var_code var) (vc_id c))
      | ResultInt \<Rightarrow> rmap TraCIInt (api_getInt api (vc_command c) (var_code var) (vc_id c)))"

definition dynamic_pointer_cast :: "ResultType \<Rightarrow> TraCIResult \<Rightarrow> TraCIResult option" where
  "dynamic_pointer_cast t r = (if result_type r = t then Some r else None)"

definition VariableCache_getPtr ::
    "LiteAPI \<Rightarrow> TraCIVariable \<Rightarrow> VariableCache \<Rightarrow> (TraCIResult option \<times> VariableCache) result" where
  "VariableCache_getPtr api var c =
     (case map_of (m_values c) (var_code var) of
        Some found \<Rightarrow> Inr (dynamic_pointer_cast (VariableTrait var) found, c)
      | None \<Rightarrow>
          rmap (\<lambda>r. (dynamic_pointer_cast (VariableTrait var) r, c\<lparr>m_values := omap_put (var_code var) r (m_values c)\<rparr>))
            (VariableCache_retrieve api var c))"

text \<open>\<open>get_value\<close> asserts that the pointer is not null.\<close>

definition VariableCache_get ::
    "LiteAPI \<Rightarrow> TraCIVariable \<Rightarrow> VariableCache \<Rightarrow> (TraCIResult \<times> VariableCache) result" where
  "VariableCache_get api var c =
     rbind (VariableCache_getPtr api var c) (\<lambda>(ptr, c').
       case ptr of None \<Rightarrow> Inl AssertionFailed | Some r \<Rightarrow> Inr (r, c'))"

fun get_value_double :: "TraCIResult \<Rightarrow> real result" where
  "get_value_double (TraCIDouble d) = Inr d"
| "get_value_double r = Inl AssertionFailed"

fun get_value_position :: "TraCIResult \<Rightarrow> TraCIPosition result" where
  "get_value_position (TraCIResultPosition p) = Inr p"
| "get_value_position r = Inl AssertionFailed"

fun get_value_strings :: "TraCIResult \<Rightarrow> string list result" where
  "get_value_strings (TraCIStringList ss) = Inr ss"
| "get_value_strings r = Inl AssertionFailed"

definition VariableCache_get_as ::
    "(TraCIResult \<Rightarrow> 'a result) \<Rightarrow> LiteAPI \<Rightarrow> TraCIVariable \<Rightarrow> VariableCache \<Rightarrow> ('a \<times> VariableCache) result" where
  "VariableCache_get_as get_value api var c =
     rbind (VariableCache_get api var c) (\<lambda>(r, c'). rmap (\<lambda>v. (v, c')) (get_value r))"

definition checkTimeSync :: "LiteAPI \<Rightarrow> VariableCache \<Rightarrow> simtime \<Rightarrow> (bool \<times> VariableCache) result" where
  "checkTimeSync api cache time =
     rbind (VariableCache_get_as get_value_double api VAR_TIME cache) (\<lambda>(t, cache).
       let deviation = t - simtime_dbl time
       in rbind (VariableCache_get_as get_value_double api VAR_DELTA_T cache) (\<lambda>(dt, cache).
            let threshold = 1 / 100 * dt
            in Inr (\<bar>deviation\<bar> < threshold, cache)))"


section \<open>Properties\<close>

lemma angle_roundtrip: "angle_cast_traci (angle_cast_artery a) = a" "angle_cast_artery (angle_cast_traci b) = b"
  by (simp_all add: angle_cast_traci_def angle_cast_artery_def field_simps)

text \<open>Converting a vehicle's position and heading between the coordinate systems of SUMO (origin at the
  lower left, degrees clockwise from north) and of the simulation (origin at the upper left, radians
  counter-clockwise from east) loses nothing but the height, in both directions; distances and the
  direction of a heading are kept, with the vertical axis turned around.\<close>

theorem coordinates_roundtrip:
  "position_cast_traci b (position_cast_artery b pos) = pos\<lparr>pos_z := 0\<rparr>
   \<and> position_cast_artery b (position_cast_traci b p) = p
   \<and> angle_cast_traci (angle_cast_artery a) = a \<and> angle_cast_artery (angle_cast_traci h) = h
   \<and> cos (angle_cast_artery a) = sin (a * pi / 180) \<and> sin (angle_cast_artery a) = cos (a * pi / 180)
   \<and> (fst (position_cast_artery b pos) - fst (position_cast_artery b pos'))\<^sup>2
       + (snd (position_cast_artery b pos) - snd (position_cast_artery b pos'))\<^sup>2
     = (pos_x pos - pos_x pos')\<^sup>2 + (pos_y pos - pos_y pos')\<^sup>2"
proof -
  have angle: "angle_cast_artery a = pi / 2 - a * pi / 180" by (simp add: angle_cast_artery_def field_simps)
  have "cos (angle_cast_artery a) = sin (a * pi / 180)" "sin (angle_cast_artery a) = cos (a * pi / 180)"
    unfolding angle by (simp_all add: sin_diff cos_diff)
  then show ?thesis
    by (simp add: position_cast_traci_def position_cast_artery_def angle_roundtrip power2_eq_square algebra_simps)
qed

text \<open>A cache answers what the server reported, as long as the variable was reported: it neither asks the
  server again nor changes.  A variable that was not reported is asked for once and then kept, so that
  a second read gives the same value without a request.\<close>

theorem VariableCache_get_twice:
  assumes "VariableCache_get api var c = Inr (r, c')" and "omap_ok (m_values c)"
  shows "VariableCache_get api' var c' = Inr (r, c') \<and> map_of (m_values c') = (map_of (m_values c))(var_code var \<mapsto> r)
    \<and> (map_of (m_values c) (var_code var) \<noteq> None \<longrightarrow> c' = c) \<and> result_type r = VariableTrait var"
proof (cases "map_of (m_values c) (var_code var)")
  case None
  then have "c' = c\<lparr>m_values := omap_put (var_code var) r (m_values c)\<rparr> \<and> result_type r = VariableTrait var"
    using assms(1)
    by (cases "VariableCache_retrieve api var c")
      (auto simp: VariableCache_get_def VariableCache_getPtr_def dynamic_pointer_cast_def split: if_splits)
  then show ?thesis
    using None assms(2)
    by (simp add: VariableCache_get_def VariableCache_getPtr_def dynamic_pointer_cast_def map_of_omap_put)
next
  case (Some found)
  then have "c' = c \<and> r = found \<and> result_type r = VariableTrait var"
    using assms(1) by (auto simp: VariableCache_get_def VariableCache_getPtr_def dynamic_pointer_cast_def split: if_splits)
  then show ?thesis
    using Some by (auto simp: VariableCache_get_def VariableCache_getPtr_def dynamic_pointer_cast_def map_upd_triv)
qed

theorem VariableCache_get_twice_witness:
  "VariableCache_get (undefined\<lparr>api_getDouble := \<lambda>cmd var v. Inr 13\<rparr>) VAR_SPEED (VehicleCache_new ''a'') =
     Inr (TraCIDouble 13, \<lparr>vc_id = ''a'', vc_command = 0xa4, m_values = [(0x40, TraCIDouble 13)]\<rparr>)
   \<and> VariableCache_get (undefined\<lparr>api_getDouble := \<lambda>cmd var v. Inr 20\<rparr>) VAR_SPEED \<lparr>vc_id = ''a'', vc_command = 0xa4, m_values = [(0x40, TraCIDouble 13)]\<rparr> =
     Inr (TraCIDouble 13, \<lparr>vc_id = ''a'', vc_command = 0xa4, m_values = [(0x40, TraCIDouble 13)]\<rparr>)"
proof -
  have g: "VariableCache_get (undefined\<lparr>api_getDouble := \<lambda>cmd var v. Inr 13\<rparr>) VAR_SPEED (VehicleCache_new ''a'') =
     Inr (TraCIDouble 13, \<lparr>vc_id = ''a'', vc_command = 0xa4, m_values = [(0x40, TraCIDouble 13)]\<rparr>)"
    by (simp add: VariableCache_get_def VariableCache_getPtr_def VariableCache_retrieve_def VehicleCache_new_def
      dynamic_pointer_cast_def)
  from VariableCache_get_twice [OF g, of "undefined\<lparr>api_getDouble := \<lambda>cmd var v. Inr 20\<rparr>"] g show ?thesis by (simp add: VehicleCache_new_def)
qed

end
