(* ===== verification/TraciSubscriptions.thy ===== *)
theory TraciSubscriptions
  imports TraciCaches
begin

text \<open>
  \<open>src/traci/BasicSubscriptionManager\<close>: which vehicles and which of their variables the TraCI server reports at
  every step, and the caches of what it reported.  The unordered set of subscribed vehicles is the
  sorted list of its elements; a cache shared by pointers is the entry of \<open>m_vehicle_caches\<close>.
\<close>

datatype SubscribeCommand =
    SubscribeVehicle string "int list"
  | SubscribeSimulation "int list"

record BasicSubscriptionManager =
  m_subscribed_vehicles :: "string list"
  m_vehicle_vars :: "int list"
  m_sim_vars :: "int list"
  m_vehicle_caches :: "(string, VariableCache) omap"
  m_sim_cache :: VariableCache
  bsm_sent :: "SubscribeCommand list"

definition BasicSubscriptionManager_new :: BasicSubscriptionManager where
  "BasicSubscriptionManager_new =
     \<lparr>m_subscribed_vehicles = [], m_vehicle_vars = [], m_sim_vars = [], m_vehicle_caches = [],
      m_sim_cache = SimulationCache_new, bsm_sent = []\<rparr>"

text \<open>\<open>std::set_union\<close> of two ordered ranges.\<close>

fun set_union :: "int list \<Rightarrow> int list \<Rightarrow> int list" where
  "set_union [] ys = ys"
| "set_union (x # xs) [] = x # xs"
| "set_union (x # xs) (y # ys) =
     (if x < y then x # set_union xs (y # ys)
      else if y < x then y # set_union (x # xs) ys
      else x # set_union xs ys)"

definition updateVehicleSubscription :: "string \<Rightarrow> int list \<Rightarrow> BasicSubscriptionManager \<Rightarrow> BasicSubscriptionManager" where
  "updateVehicleSubscription vid vars m = m\<lparr>bsm_sent := bsm_sent m @ [SubscribeVehicle vid vars]\<rparr>"

definition subscribeVehicle :: "string \<Rightarrow> BasicSubscriptionManager \<Rightarrow> BasicSubscriptionManager" where
  "subscribeVehicle vid m =
     (let m = (if m_vehicle_vars m \<noteq> [] then updateVehicleSubscription vid (m_vehicle_vars m) m else m)
      in m\<lparr>m_subscribed_vehicles := insort_insert vid (m_subscribed_vehicles m)\<rparr>)"

definition unsubscribeVehicle :: "string \<Rightarrow> bool \<Rightarrow> BasicSubscriptionManager \<Rightarrow> BasicSubscriptionManager" where
  "unsubscribeVehicle vid vehicle_exists m =
     (let m = (if vehicle_exists \<and> m_vehicle_vars m \<noteq> [] then updateVehicleSubscription vid [] m else m)
      in m\<lparr>m_subscribed_vehicles := filter (\<lambda>v. v \<noteq> vid) (m_subscribed_vehicles m)\<rparr>)"

definition subscribeVehicleVariables ::
    "int list \<Rightarrow> BasicSubscriptionManager \<Rightarrow> BasicSubscriptionManager result" where
  "subscribeVehicleVariables add_vars m =
     (let tmp_vars = m_vehicle_vars m;
          m = m\<lparr>m_vehicle_vars := set_union tmp_vars add_vars\<rparr>
      in if length (m_vehicle_vars m) \<ge> length tmp_vars then
           (if length (m_vehicle_vars m) \<noteq> length tmp_vars
            then Inr (fold (\<lambda>vehicle. updateVehicleSubscription vehicle (m_vehicle_vars m)) (m_subscribed_vehicles m) m)
            else Inr m)
         else Inl AssertionFailed)"

definition subscribeSimulationVariables ::
    "int list \<Rightarrow> BasicSubscriptionManager \<Rightarrow> BasicSubscriptionManager result" where
  "subscribeSimulationVariables add_vars m =
     (let tmp_vars = m_sim_vars m;
          m = m\<lparr>m_sim_vars := set_union tmp_vars add_vars\<rparr>
      in if length (m_sim_vars m) \<ge> length tmp_vars then
           (if length (m_sim_vars m) \<noteq> length tmp_vars
            then Inr (m\<lparr>bsm_sent := bsm_sent m @ [SubscribeSimulation (m_sim_vars m)]\<rparr>)
            else Inr m)
         else Inl AssertionFailed)"

definition traciInit_sim_vars :: "int list" where
  "traciInit_sim_vars =
     sort (map var_code [VAR_DEPARTED_VEHICLES_IDS, VAR_ARRIVED_VEHICLES_IDS, VAR_DELTA_T,
       VAR_TELEPORT_STARTING_VEHICLES_IDS, VAR_TIME])"

definition BasicSubscriptionManager_traciInit ::
    "LiteAPI \<Rightarrow> BasicSubscriptionManager \<Rightarrow> BasicSubscriptionManager result" where
  "BasicSubscriptionManager_traciInit api m =
     rmap (fold subscribeVehicle (api_getIDList api)) (subscribeSimulationVariables traciInit_sim_vars m)"

definition getVehicleCache :: "string \<Rightarrow> BasicSubscriptionManager \<Rightarrow> VariableCache \<times> BasicSubscriptionManager" where
  "getVehicleCache vid m =
     (case map_of (m_vehicle_caches m) vid of
        Some found \<Rightarrow> (found, m)
      | None \<Rightarrow> (VehicleCache_new vid, m\<lparr>m_vehicle_caches := omap_put vid (VehicleCache_new vid) (m_vehicle_caches m)\<rparr>))"

text \<open>A change of the cache behind a pointer is a change of its entry.\<close>

definition setVehicleCache :: "string \<Rightarrow> VariableCache \<Rightarrow> BasicSubscriptionManager \<Rightarrow> BasicSubscriptionManager" where
  "setVehicleCache vid c m = m\<lparr>m_vehicle_caches := omap_put vid c (m_vehicle_caches m)\<rparr>"

definition refresh_cache :: "LiteAPI \<Rightarrow> string \<Rightarrow> BasicSubscriptionManager \<Rightarrow> BasicSubscriptionManager" where
  "refresh_cache api vehicle m =
     (let vars = api_vehicleResults api vehicle; (cache, m) = getVehicleCache vehicle m
      in setVehicleCache vehicle (VariableCache_reset vars cache) m)"

definition BasicSubscriptionManager_step ::
    "LiteAPI \<Rightarrow> simtime \<Rightarrow> BasicSubscriptionManager \<Rightarrow> BasicSubscriptionManager result" where
  "BasicSubscriptionManager_step api now m =
     (let simvars = api_simulationResults api; cache = VariableCache_reset simvars (m_sim_cache m)
      in rbind (checkTimeSync api cache now) (\<lambda>(sync, cache).
         if \<not> sync then Inl AssertionFailed
         else rbind (VariableCache_get_as get_value_strings api VAR_ARRIVED_VEHICLES_IDS cache) (\<lambda>(arrivedVehicles, cache).
           let m = fold (\<lambda>vid. unsubscribeVehicle vid False) arrivedVehicles m
           in rbind (VariableCache_get_as get_value_strings api VAR_DEPARTED_VEHICLES_IDS cache) (\<lambda>(departedVehicles, cache).
             let m = fold subscribeVehicle departedVehicles (m\<lparr>m_sim_cache := cache\<rparr>)
             in Inr (fold (refresh_cache api) (m_subscribed_vehicles m) m)))))"


section \<open>Ordered ranges\<close>

lemma set_set_union: "set (set_union xs ys) = set xs \<union> set ys"
  by (induction xs ys rule: set_union.induct) auto

lemma sorted_set_union:
  "sorted_wrt (<) xs \<Longrightarrow> sorted_wrt (<) ys \<Longrightarrow> sorted_wrt (<) (set_union xs ys)"
  by (induction xs ys rule: set_union.induct) (auto simp: set_set_union)

lemma length_set_union: "length xs \<le> length (set_union xs ys)"
  by (induction xs ys rule: set_union.induct) auto

lemma set_union_eq:
  assumes "sorted_wrt (<) xs" and "sorted_wrt (<) ys" and "length (set_union xs ys) = length xs"
  shows "set_union xs ys = xs"
proof -
  have d: "distinct xs" "distinct (set_union xs ys)"
    using assms(1) sorted_set_union [OF assms(1,2)] by (simp_all add: strict_sorted_iff)
  then have "card (set (set_union xs ys)) = card (set xs)" using assms(3) by (simp add: distinct_card)
  then have "set (set_union xs ys) = set xs" using set_set_union [of xs ys] by (metis card_subset_eq finite_set sup_ge1)
  then show ?thesis using d assms(1) sorted_set_union [OF assms(1,2)] by (metis sorted_distinct_set_unique strict_sorted_iff)
qed

section \<open>What the server was asked for\<close>

fun vehicle_command :: "SubscribeCommand \<Rightarrow> (string \<times> int list) option" where
  "vehicle_command (SubscribeVehicle v vars) = Some (v, vars)"
| "vehicle_command (SubscribeSimulation vars) = None"

text \<open>A later subscription of a vehicle replaces an earlier one.\<close>

definition last_subscription :: "SubscribeCommand list \<Rightarrow> string \<Rightarrow> int list option" where
  "last_subscription cmds = map_of (rev (List.map_filter vehicle_command cmds))"

lemma last_subscription_simps [simp]:
  "last_subscription [] = Map.empty"
  "last_subscription (cmds @ [SubscribeVehicle v vars]) = (last_subscription cmds)(v \<mapsto> vars)"
  "last_subscription (cmds @ [SubscribeSimulation vars]) = last_subscription cmds"
  by (simp_all add: last_subscription_def List.map_filter_def)

definition bsm_ok :: "BasicSubscriptionManager \<Rightarrow> bool" where
  "bsm_ok m \<longleftrightarrow> sorted_wrt (<) (m_vehicle_vars m) \<and> sorted_wrt (<) (m_sim_vars m)
     \<and> sorted (m_subscribed_vehicles m) \<and> distinct (m_subscribed_vehicles m) \<and> omap_ok (m_vehicle_caches m)
     \<and> (\<forall>v c. map_of (m_vehicle_caches m) v = Some c \<longrightarrow> vc_id c = v \<and> vc_command c = 0xa4)
     \<and> (m_vehicle_vars m \<noteq> [] \<longrightarrow>
          (\<forall>v \<in> set (m_subscribed_vehicles m). last_subscription (bsm_sent m) v = Some (m_vehicle_vars m)))"

lemma bsm_ok_new [simp]: "bsm_ok BasicSubscriptionManager_new"
  by (simp add: bsm_ok_def BasicSubscriptionManager_new_def)

lemma subscribeVehicle_ok [inv_intros]: "bsm_ok m \<Longrightarrow> bsm_ok (subscribeVehicle v m)"
  by (auto simp: bsm_ok_def subscribeVehicle_def updateVehicleSubscription_def Let_def set_insort_insert
    sorted_insort_insert distinct_insort_insert)

lemma unsubscribeVehicle_ok [inv_intros]: "bsm_ok m \<Longrightarrow> bsm_ok (unsubscribeVehicle v e m)"
  by (auto simp: bsm_ok_def unsubscribeVehicle_def updateVehicleSubscription_def Let_def sorted_wrt_filter)

lemma fold_updateVehicleSubscription:
  "fold (\<lambda>v. updateVehicleSubscription v vars) vs m = m\<lparr>bsm_sent := bsm_sent m @ map (\<lambda>v. SubscribeVehicle v vars) vs\<rparr>"
  by (induction vs arbitrary: m) (simp_all add: updateVehicleSubscription_def)

lemma last_subscription_all:
  "last_subscription (cmds @ map (\<lambda>v. SubscribeVehicle v vars) vs) v =
     (if v \<in> set vs then Some vars else last_subscription cmds v)"
proof (induction vs rule: rev_induct)
  case (snoc w vs)
  have "cmds @ map (\<lambda>v. SubscribeVehicle v vars) (vs @ [w]) =
      (cmds @ map (\<lambda>v. SubscribeVehicle v vars) vs) @ [SubscribeVehicle w vars]" by simp
  with snoc show ?case by (simp only: last_subscription_simps) auto
qed simp

text \<open>The assertions of the subscription functions never fail.\<close>

lemma subscribeVehicleVariables_ok:
  assumes "bsm_ok m" and "sorted_wrt (<) vars"
  shows "\<exists>m'. subscribeVehicleVariables vars m = Inr m' \<and> bsm_ok m' \<and> m_vehicle_vars m' = set_union (m_vehicle_vars m) vars
    \<and> m_subscribed_vehicles m' = m_subscribed_vehicles m \<and> m_vehicle_caches m' = m_vehicle_caches m
    \<and> m_sim_cache m' = m_sim_cache m"
proof (cases "length (set_union (m_vehicle_vars m) vars) = length (m_vehicle_vars m)")
  case True
  have "set_union (m_vehicle_vars m) vars = m_vehicle_vars m"
    using set_union_eq True assms by (auto simp: bsm_ok_def)
  then show ?thesis using assms by (simp add: subscribeVehicleVariables_def)
next
  case False
  have "sorted_wrt (<) (set_union (m_vehicle_vars m) vars)"
    using assms by (simp add: bsm_ok_def sorted_set_union)
  then show ?thesis
    using assms False length_set_union [of "m_vehicle_vars m" vars]
    by (simp add: subscribeVehicleVariables_def Let_def fold_updateVehicleSubscription bsm_ok_def last_subscription_all)
qed

lemma subscribeSimulationVariables_ok:
  assumes "bsm_ok m" and "sorted_wrt (<) vars"
  shows "\<exists>m'. subscribeSimulationVariables vars m = Inr m' \<and> bsm_ok m' \<and> m_sim_vars m' = set_union (m_sim_vars m) vars
    \<and> m_vehicle_vars m' = m_vehicle_vars m \<and> m_subscribed_vehicles m' = m_subscribed_vehicles m
    \<and> m_vehicle_caches m' = m_vehicle_caches m \<and> m_sim_cache m' = m_sim_cache m"
  using assms length_set_union [of "m_sim_vars m" vars]
  by (auto simp: subscribeSimulationVariables_def bsm_ok_def sorted_set_union Let_def)


section \<open>Frames and invariants of the remaining operations\<close>

lemma subscribeVehicle_frame [frame_simps]:
  "set (m_subscribed_vehicles (subscribeVehicle v m)) = insert v (set (m_subscribed_vehicles m))"
  "m_vehicle_vars (subscribeVehicle v m) = m_vehicle_vars m" "m_sim_vars (subscribeVehicle v m) = m_sim_vars m"
  "m_vehicle_caches (subscribeVehicle v m) = m_vehicle_caches m" "m_sim_cache (subscribeVehicle v m) = m_sim_cache m"
  by (simp_all add: subscribeVehicle_def updateVehicleSubscription_def Let_def set_insort_insert)

lemma unsubscribeVehicle_frame [frame_simps]:
  "set (m_subscribed_vehicles (unsubscribeVehicle v e m)) = set (m_subscribed_vehicles m) - {v}"
  "m_vehicle_vars (unsubscribeVehicle v e m) = m_vehicle_vars m" "m_sim_vars (unsubscribeVehicle v e m) = m_sim_vars m"
  "m_vehicle_caches (unsubscribeVehicle v e m) = m_vehicle_caches m" "m_sim_cache (unsubscribeVehicle v e m) = m_sim_cache m"
  by (auto simp: unsubscribeVehicle_def updateVehicleSubscription_def Let_def)

lemma fold_subscribeVehicle [frame_simps]:
  "set (m_subscribed_vehicles (fold subscribeVehicle vs m)) = set (m_subscribed_vehicles m) \<union> set vs"
  "m_vehicle_vars (fold subscribeVehicle vs m) = m_vehicle_vars m" "m_sim_vars (fold subscribeVehicle vs m) = m_sim_vars m"
  "m_vehicle_caches (fold subscribeVehicle vs m) = m_vehicle_caches m" "m_sim_cache (fold subscribeVehicle vs m) = m_sim_cache m"
  by (induction vs arbitrary: m) (auto simp: frame_simps)

lemma fold_unsubscribeVehicle [frame_simps]:
  "set (m_subscribed_vehicles (fold (\<lambda>v. unsubscribeVehicle v e) vs m)) = set (m_subscribed_vehicles m) - set vs"
  "m_vehicle_vars (fold (\<lambda>v. unsubscribeVehicle v e) vs m) = m_vehicle_vars m"
  "m_sim_vars (fold (\<lambda>v. unsubscribeVehicle v e) vs m) = m_sim_vars m"
  "m_vehicle_caches (fold (\<lambda>v. unsubscribeVehicle v e) vs m) = m_vehicle_caches m"
  by (induction vs arbitrary: m) (auto simp: frame_simps)

lemma fold_ok:
  "bsm_ok m \<Longrightarrow> bsm_ok (fold subscribeVehicle vs m)"
  "bsm_ok m \<Longrightarrow> bsm_ok (fold (\<lambda>v. unsubscribeVehicle v e) vs m)"
  by (induction vs arbitrary: m) (auto intro: inv_intros)

lemma sim_cache_ok [simp]: "bsm_ok (m\<lparr>m_sim_cache := c\<rparr>) = bsm_ok m"
  by (simp add: bsm_ok_def)

lemma setVehicleCache_ok: "bsm_ok m \<Longrightarrow> vc_id c = v \<Longrightarrow> vc_command c = 0xa4 \<Longrightarrow> bsm_ok (setVehicleCache v c m)"
  by (auto simp: bsm_ok_def setVehicleCache_def map_of_omap_put omap_ok_put)

lemma getVehicleCache_ok:
  assumes "bsm_ok m" and "getVehicleCache v m = (c, m')"
  shows "bsm_ok m' \<and> vc_id c = v \<and> vc_command c = 0xa4 \<and> map_of (m_vehicle_caches m') v = Some c
    \<and> m' = m\<lparr>m_vehicle_caches := m_vehicle_caches m'\<rparr> \<and> (\<forall>w. w \<noteq> v \<longrightarrow> map_of (m_vehicle_caches m') w = map_of (m_vehicle_caches m) w)"
  using assms
  by (auto simp: bsm_ok_def getVehicleCache_def VehicleCache_new_def map_of_omap_put omap_ok_put
    split: option.splits if_splits)

lemma refresh_cache_simps:
  assumes "bsm_ok m"
  shows "bsm_ok (refresh_cache api v m)"
    "map_of (m_vehicle_caches (refresh_cache api v m)) =
       (map_of (m_vehicle_caches m))(v \<mapsto> \<lparr>vc_id = v, vc_command = 0xa4, m_values = api_vehicleResults api v\<rparr>)"
    "m_subscribed_vehicles (refresh_cache api v m) = m_subscribed_vehicles m"
    "m_vehicle_vars (refresh_cache api v m) = m_vehicle_vars m" "m_sim_cache (refresh_cache api v m) = m_sim_cache m"
proof -
  obtain c m' where g: "getVehicleCache v m = (c, m')" by fastforce
  note gv = getVehicleCache_ok [OF assms g]
  let ?c = "VariableCache_reset (api_vehicleResults api v) c"
  have r: "refresh_cache api v m = setVehicleCache v ?c m'" by (simp add: refresh_cache_def g)
  have c: "?c = \<lparr>vc_id = v, vc_command = 0xa4, m_values = api_vehicleResults api v\<rparr>"
    using gv by (simp add: VariableCache_reset_def)
  have ok: "omap_ok (m_vehicle_caches m')" using gv by (simp add: bsm_ok_def)
  show "bsm_ok (refresh_cache api v m)" unfolding r using gv c by (intro setVehicleCache_ok) simp_all
  show "map_of (m_vehicle_caches (refresh_cache api v m)) =
       (map_of (m_vehicle_caches m))(v \<mapsto> \<lparr>vc_id = v, vc_command = 0xa4, m_values = api_vehicleResults api v\<rparr>)"
    unfolding r c using gv ok by (auto simp: setVehicleCache_def map_of_omap_put fun_eq_iff)
  have "m' = m\<lparr>m_vehicle_caches := m_vehicle_caches m'\<rparr>" using gv by blast
  then have "m_subscribed_vehicles m' = m_subscribed_vehicles m" "m_vehicle_vars m' = m_vehicle_vars m"
    "m_sim_cache m' = m_sim_cache m" by (metis BasicSubscriptionManager.simps BasicSubscriptionManager.surjective)+
  then show "m_subscribed_vehicles (refresh_cache api v m) = m_subscribed_vehicles m"
    "m_vehicle_vars (refresh_cache api v m) = m_vehicle_vars m" "m_sim_cache (refresh_cache api v m) = m_sim_cache m"
    unfolding r by (simp_all add: setVehicleCache_def)
qed

lemma fold_refresh_cache:
  assumes "bsm_ok m"
  shows "bsm_ok (fold (refresh_cache api) vs m) \<and> m_subscribed_vehicles (fold (refresh_cache api) vs m) = m_subscribed_vehicles m
    \<and> m_vehicle_vars (fold (refresh_cache api) vs m) = m_vehicle_vars m \<and> m_sim_cache (fold (refresh_cache api) vs m) = m_sim_cache m
    \<and> (\<forall>v. map_of (m_vehicle_caches (fold (refresh_cache api) vs m)) v =
         (if v \<in> set vs then Some \<lparr>vc_id = v, vc_command = 0xa4, m_values = api_vehicleResults api v\<rparr>
          else map_of (m_vehicle_caches m) v))"
  using assms
proof (induction vs arbitrary: m)
  case (Cons v vs)
  from Cons.IH [OF refresh_cache_simps(1) [OF Cons.prems, of api v]] show ?case
    by (simp add: refresh_cache_simps [OF Cons.prems])
qed simp


section \<open>Steps and sequences of calls\<close>

lemma get_cached:
  assumes "map_of (m_values c) (var_code var) = Some r" and "result_type r = VariableTrait var"
  shows "VariableCache_get_as get_value api var c = rmap (\<lambda>v. (v, c)) (get_value r)"
  using assms by (simp add: VariableCache_get_as_def VariableCache_get_def VariableCache_getPtr_def dynamic_pointer_cast_def)

text \<open>What a step needs of the server: its clock agrees with the simulation and it reports the vehicles
  that arrived and departed.\<close>

definition step_report :: "LiteAPI \<Rightarrow> simtime \<Rightarrow> string list \<Rightarrow> string list \<Rightarrow> bool" where
  "step_report api now arrived departed \<longleftrightarrow>
     (\<exists>t dt. map_of (api_simulationResults api) (var_code VAR_TIME) = Some (TraCIDouble t)
        \<and> map_of (api_simulationResults api) (var_code VAR_DELTA_T) = Some (TraCIDouble dt)
        \<and> \<bar>t - simtime_dbl now\<bar> < dt / 100)
     \<and> map_of (api_simulationResults api) (var_code VAR_ARRIVED_VEHICLES_IDS) = Some (TraCIStringList arrived)
     \<and> map_of (api_simulationResults api) (var_code VAR_DEPARTED_VEHICLES_IDS) = Some (TraCIStringList departed)"

lemma checkTimeSync_report:
  assumes "step_report api now arrived departed" and "m_values c = api_simulationResults api"
  shows "checkTimeSync api c now = Inr (True, c)"
  using assms by (auto simp: checkTimeSync_def step_report_def get_cached)

lemma step_correct:
  assumes "bsm_ok m" and "step_report api now arrived departed"
  shows "\<exists>m'. BasicSubscriptionManager_step api now m = Inr m' \<and> bsm_ok m'
    \<and> set (m_subscribed_vehicles m') = (set (m_subscribed_vehicles m) - set arrived) \<union> set departed
    \<and> m_vehicle_vars m' = m_vehicle_vars m
    \<and> m_sim_cache m' = VariableCache_reset (api_simulationResults api) (m_sim_cache m)
    \<and> (\<forall>v. map_of (m_vehicle_caches m') v =
         (if v \<in> set (m_subscribed_vehicles m') then Some \<lparr>vc_id = v, vc_command = 0xa4, m_values = api_vehicleResults api v\<rparr>
          else map_of (m_vehicle_caches m) v))"
proof -
  let ?c = "VariableCache_reset (api_simulationResults api) (m_sim_cache m)"
  let ?m1 = "(fold (\<lambda>v. unsubscribeVehicle v False) arrived m)\<lparr>m_sim_cache := ?c\<rparr>"
  let ?m2 = "fold subscribeVehicle departed ?m1"
  have c: "m_values ?c = api_simulationResults api" by (simp add: VariableCache_reset_def)
  have "BasicSubscriptionManager_step api now m = Inr (fold (refresh_cache api) (m_subscribed_vehicles ?m2) ?m2)"
    using assms(2) checkTimeSync_report [OF assms(2) c]
    by (simp add: BasicSubscriptionManager_step_def Let_def step_report_def get_cached c)
  moreover have "bsm_ok ?m2" using assms(1) by (simp add: fold_ok)
  note fold_refresh_cache [OF this, of api "m_subscribed_vehicles ?m2"]
  ultimately show ?thesis by (simp add: frame_simps)
qed

text \<open>A step succeeds only by way of the operations above.\<close>

lemma step_ok:
  assumes "bsm_ok m" and "BasicSubscriptionManager_step api now m = Inr m'"
  shows "bsm_ok m' \<and> m_vehicle_vars m' = m_vehicle_vars m"
proof -
  obtain arrived departed c where
    m': "m' = (let m2 = fold subscribeVehicle departed ((fold (\<lambda>v. unsubscribeVehicle v False) arrived m)\<lparr>m_sim_cache := c\<rparr>)
      in fold (refresh_cache api) (m_subscribed_vehicles m2) m2)"
    using assms(2) by (auto simp: BasicSubscriptionManager_step_def Let_def rbind_ok_iff split: if_splits)
  have "bsm_ok (fold subscribeVehicle departed ((fold (\<lambda>v. unsubscribeVehicle v False) arrived m)\<lparr>m_sim_cache := c\<rparr>))"
    using assms(1) by (simp add: fold_ok)
  from fold_refresh_cache [OF this] show ?thesis unfolding m' Let_def by (simp add: frame_simps)
qed

datatype ManagerCall =
    Call_traciInit LiteAPI
  | Call_step LiteAPI simtime
  | Call_subscribeVehicleVariables "int list"
  | Call_subscribeSimulationVariables "int list"
  | Call_getVehicleCache string

fun manager_call :: "ManagerCall \<Rightarrow> BasicSubscriptionManager \<Rightarrow> BasicSubscriptionManager result" where
  "manager_call (Call_traciInit api) m = BasicSubscriptionManager_traciInit api m"
| "manager_call (Call_step api now) m = BasicSubscriptionManager_step api now m"
| "manager_call (Call_subscribeVehicleVariables vars) m = subscribeVehicleVariables vars m"
| "manager_call (Call_subscribeSimulationVariables vars) m = subscribeSimulationVariables vars m"
| "manager_call (Call_getVehicleCache v) m = Inr (snd (getVehicleCache v m))"

fun manager_calls :: "ManagerCall list \<Rightarrow> BasicSubscriptionManager \<Rightarrow> BasicSubscriptionManager result" where
  "manager_calls [] m = Inr m"
| "manager_calls (c # cs) m = rbind (manager_call c m) (manager_calls cs)"

text \<open>The argument of the subscribe calls is a \<open>std::set\<close>, hence ordered.\<close>

fun call_ok :: "ManagerCall \<Rightarrow> bool" where
  "call_ok (Call_subscribeVehicleVariables vars) = sorted_wrt (<) vars"
| "call_ok (Call_subscribeSimulationVariables vars) = sorted_wrt (<) vars"
| "call_ok c = True"

fun requested_vars :: "ManagerCall \<Rightarrow> int list" where
  "requested_vars (Call_subscribeVehicleVariables vars) = vars"
| "requested_vars c = []"

lemma sorted_traciInit_sim_vars: "sorted_wrt (<) traciInit_sim_vars"
  by (simp add: traciInit_sim_vars_def)

lemma traciInit_ok:
  assumes "bsm_ok m"
  shows "\<exists>m'. BasicSubscriptionManager_traciInit api m = Inr m' \<and> bsm_ok m' \<and> m_vehicle_vars m' = m_vehicle_vars m
    \<and> set (m_subscribed_vehicles m') = set (m_subscribed_vehicles m) \<union> set (api_getIDList api)"
  using subscribeSimulationVariables_ok [OF assms sorted_traciInit_sim_vars]
  by (auto simp: BasicSubscriptionManager_traciInit_def frame_simps fold_ok)

lemma manager_call_ok:
  assumes "manager_call c m = Inr m'" and "bsm_ok m" and "call_ok c"
  shows "bsm_ok m' \<and> set (m_vehicle_vars m') = set (m_vehicle_vars m) \<union> set (requested_vars c)"
proof (cases c)
  case (Call_traciInit api)
  then show ?thesis using assms traciInit_ok [OF assms(2), of api] by auto
next
  case (Call_step api now)
  then show ?thesis using assms step_ok [OF assms(2)] by auto
next
  case (Call_subscribeVehicleVariables vars)
  then show ?thesis using assms subscribeVehicleVariables_ok [OF assms(2), of vars] by (auto simp: set_set_union)
next
  case (Call_subscribeSimulationVariables vars)
  then show ?thesis using assms subscribeSimulationVariables_ok [OF assms(2), of vars] by auto
next
  case (Call_getVehicleCache v)
  obtain k m1 where g: "getVehicleCache v m = (k, m1)" by fastforce
  have "m_vehicle_vars m1 = m_vehicle_vars m" using g by (auto simp: getVehicleCache_def split: option.splits)
  then show ?thesis using Call_getVehicleCache assms getVehicleCache_ok [OF assms(2) g] g by simp
qed

lemma manager_calls_ok:
  assumes "manager_calls cs m = Inr m'" and "bsm_ok m" and "\<forall>c \<in> set cs. call_ok c"
  shows "bsm_ok m' \<and> set (m_vehicle_vars m') = set (m_vehicle_vars m) \<union> (\<Union>c \<in> set cs. set (requested_vars c))"
  using assms
proof (induction cs arbitrary: m)
  case (Cons c cs)
  then obtain m1 where m1: "manager_call c m = Inr m1" "manager_calls cs m1 = Inr m'" by (auto simp: rbind_ok_iff)
  have "bsm_ok m1 \<and> set (m_vehicle_vars m1) = set (m_vehicle_vars m) \<union> set (requested_vars c)"
    using manager_call_ok [OF m1(1)] Cons.prems by simp
  with Cons.IH [OF m1(2)] Cons.prems show ?case by auto
qed simp


section \<open>Properties\<close>

text \<open>C31: However calls to subscribe variables, steps of the simulation and reads of caches are interleaved, the
  latest subscription of every tracked vehicle names exactly the variables that were ever requested.\<close>

theorem subscriptions_complete:
  assumes "manager_calls cs BasicSubscriptionManager_new = Inr m" and "\<forall>c \<in> set cs. call_ok c"
    and "v \<in> set (m_subscribed_vehicles m)" and "(\<Union>c \<in> set cs. set (requested_vars c)) \<noteq> {}"
  shows "\<exists>vars. last_subscription (bsm_sent m) v = Some vars \<and> sorted_wrt (<) vars
    \<and> set vars = (\<Union>c \<in> set cs. set (requested_vars c))"
proof -
  have "bsm_ok m \<and> set (m_vehicle_vars m) = (\<Union>c \<in> set cs. set (requested_vars c))"
    using manager_calls_ok [OF assms(1) bsm_ok_new assms(2)] by (simp add: BasicSubscriptionManager_new_def)
  then show ?thesis using assms(3,4) by (auto simp: bsm_ok_def)
qed

text \<open>One step of the traffic simulation: no assertion fails, the vehicles tracked are those that did not
  arrive and those that departed, and the cache of each holds exactly what the server reported of it in
  this step; caches of other vehicles and the subscribed variables stay.\<close>

theorem subscription_step:
  assumes "bsm_ok m" and "step_report api now arrived departed"
  shows "\<exists>m'. BasicSubscriptionManager_step api now m = Inr m' \<and> bsm_ok m'
    \<and> set (m_subscribed_vehicles m') = (set (m_subscribed_vehicles m) - set arrived) \<union> set departed
    \<and> m_vehicle_vars m' = m_vehicle_vars m
    \<and> (\<forall>v. map_of (m_vehicle_caches m') v =
         (if v \<in> set (m_subscribed_vehicles m') then Some \<lparr>vc_id = v, vc_command = 0xa4, m_values = api_vehicleResults api v\<rparr>
          else map_of (m_vehicle_caches m) v))"
  using step_correct [OF assms] by blast

definition example_api :: LiteAPI where
  "example_api =
     \<lparr>api_getDouble = \<lambda>cmd var v. Inr 0, api_getPosition = \<lambda>cmd var v. Inr \<lparr>pos_x = 0, pos_y = 0, pos_z = 0\<rparr>,
      api_getString = \<lambda>cmd var v. Inr [], api_getStringVector = \<lambda>cmd var v. Inr [], api_getInt = \<lambda>cmd var v. Inr 0,
      api_getIDList = [''a''],
      api_simulationResults = [(0x66, TraCIDouble 1), (0x74, TraCIStringList [''b'']),
        (0x76, TraCIStringList []), (0x7a, TraCIStringList [''a'']), (0x7b, TraCIDouble 1)],
      api_vehicleResults = \<lambda>v. [(0x40, TraCIDouble 13), (0x42, TraCIResultPosition \<lparr>pos_x = 5, pos_y = 6, pos_z = 0\<rparr>),
        (0x43, TraCIDouble 90)],
      api_vehiclePosition = \<lambda>v. Inr \<lparr>pos_x = 5, pos_y = 6, pos_z = 0\<rparr>, api_vehicleAngle = \<lambda>v. Inr 90,
      api_vehicleSpeed = \<lambda>v. Inr 13,
      api_netBoundary = [\<lparr>pos_x = 0, pos_y = 0, pos_z = 0\<rparr>, \<lparr>pos_x = 100, pos_y = 100, pos_z = 0\<rparr>]\<rparr>"

lemma example_report: "step_report example_api (simtime_s 1) [''a''] [''b'']"
  by (simp add: step_report_def example_api_def simtime_dbl_def simtime_s_def)

theorem subscription_step_witness:
  "\<exists>m'. BasicSubscriptionManager_step example_api (simtime_s 1) BasicSubscriptionManager_new = Inr m'
     \<and> m_subscribed_vehicles m' = [''b''] \<and> map_of (m_vehicle_caches m') ''b'' =
        Some \<lparr>vc_id = ''b'', vc_command = 0xa4, m_values = api_vehicleResults example_api ''b''\<rparr>"
proof -
  from subscription_step [OF bsm_ok_new example_report] obtain m' where
    m': "BasicSubscriptionManager_step example_api (simtime_s 1) BasicSubscriptionManager_new = Inr m'" "bsm_ok m'"
    and sub: "set (m_subscribed_vehicles m') =
      (set (m_subscribed_vehicles BasicSubscriptionManager_new) - set [''a'']) \<union> set [''b'']"
    and caches: "\<forall>v. map_of (m_vehicle_caches m') v =
         (if v \<in> set (m_subscribed_vehicles m') then Some \<lparr>vc_id = v, vc_command = 0xa4, m_values = api_vehicleResults example_api v\<rparr>
          else map_of (m_vehicle_caches BasicSubscriptionManager_new) v)" by blast
  have set: "set (m_subscribed_vehicles m') = {''b''}" using sub by (simp add: BasicSubscriptionManager_new_def)
  have c: "map_of (m_vehicle_caches m') ''b'' =
        Some \<lparr>vc_id = ''b'', vc_command = 0xa4, m_values = api_vehicleResults example_api ''b''\<rparr>"
    by (subst caches [rule_format]) (simp only: set, simp)
  have "sorted (m_subscribed_vehicles m')" "distinct (m_subscribed_vehicles m')" using m'(2) by (auto simp: bsm_ok_def)
  then have "m_subscribed_vehicles m' = [''b'']" using set
    by (intro sorted_distinct_set_unique) auto
  with m' c show ?thesis by blast
qed

theorem subscriptions_complete_witness:
  "\<exists>m. manager_calls [Call_subscribeVehicleVariables [0x40], Call_traciInit example_api, Call_subscribeVehicleVariables [0x40, 0x42]]
      BasicSubscriptionManager_new = Inr m
    \<and> (\<exists>vars. last_subscription (bsm_sent m) ''a'' = Some vars \<and> set vars = {0x40, 0x42})"
proof -
  let ?cs = "[Call_subscribeVehicleVariables [0x40], Call_traciInit example_api, Call_subscribeVehicleVariables [0x40, 0x42]]"
  obtain m where m: "manager_calls ?cs BasicSubscriptionManager_new = Inr m" "''a'' \<in> set (m_subscribed_vehicles m)"
    by (simp add: subscribeVehicleVariables_def BasicSubscriptionManager_new_def BasicSubscriptionManager_traciInit_def
      subscribeSimulationVariables_def traciInit_sim_vars_def example_api_def subscribeVehicle_def
      updateVehicleSubscription_def Let_def insort_insert_key_def)
  have "\<forall>c \<in> set ?cs. call_ok c" by simp
  from subscriptions_complete [OF m(1) this m(2)] m(1) show ?thesis by auto
qed

text \<open>Arrivals are handled before departures, so a vehicle that departs and arrives within one step stays
  tracked although it is gone.\<close>

theorem arrived_vehicle_stays_subscribed:
  assumes "bsm_ok m" and "step_report api now arrived departed" and "v \<in> set arrived" and "v \<in> set departed"
  shows "\<exists>m'. BasicSubscriptionManager_step api now m = Inr m' \<and> v \<in> set (m_subscribed_vehicles m')"
  using step_correct [OF assms(1,2)] assms(4) by blast

theorem arrived_vehicle_stays_subscribed_witness:
  "\<exists>m'. BasicSubscriptionManager_step (example_api\<lparr>api_simulationResults := [(0x66, TraCIDouble 1),
      (0x74, TraCIStringList [''c'']), (0x7a, TraCIStringList [''c'']), (0x7b, TraCIDouble 1)]\<rparr>) (simtime_s 1)
      BasicSubscriptionManager_new = Inr m' \<and> ''c'' \<in> set (m_subscribed_vehicles m')"
  by (rule arrived_vehicle_stays_subscribed [OF bsm_ok_new, where arrived = "[''c'']" and departed = "[''c'']"])
    (simp_all add: step_report_def simtime_dbl_def simtime_s_def)

end
