(* ===== verification/TraciNodes.thy ===== *)
theory TraciNodes
  imports TraciSubscriptions
begin

text \<open>
  \<open>src/traci/BasicNodeManager\<close> and \<open>InsertionDelayNodeManager\<close>: creation, update and removal of the simulated
  vehicles as the traffic simulator reports them.  Nodes are OMNeT++ modules, given by their type and
  index; a vehicle sink is the address of a md.  The mapper that decides on a node's type draws random
  numbers, so it has a state \<open>'r\<close>.  Signals and calls of sinks are listed in \<open>nm_events\<close>.
\<close>

section \<open>State\<close>

record cModule =
  mod_type :: string
  mod_index :: "32 word"

datatype NodeEvent =
    AddVehicleSignal string
  | UpdateVehicleSignal string
  | RemoveVehicleSignal string
  | AddNodeSignal string cModule
  | RemoveNodeSignal string cModule
  | UpdateNodeSignal nat
  | SinkInitialize nat string TraCIPosition real real
  | SinkUpdate nat TraCIPosition real real

record 'r NodeContext =
  ctx_mapper :: "string \<Rightarrow> 'r \<Rightarrow> string option \<times> 'r"
  ctx_moduleByPath :: "cModule \<Rightarrow> string \<Rightarrow> nat option"
  ctx_isVehicleSink :: "nat \<Rightarrow> bool"

record 'r BasicNodeManager =
  m_boundary :: Boundary
  m_subscriptions :: BasicSubscriptionManager
  m_nodeIndex :: "32 word"
  m_nodes :: "(string, cModule) omap"
  m_vehicles :: "(string, nat option) omap"
  m_vehicle_sink_module :: string
  m_destroy_vehicles_on_crash :: bool
  m_mapper_state :: 'r
  nm_events :: "NodeEvent list"

section \<open>Operations of the basic node manager\<close>

definition nm_emit :: "NodeEvent \<Rightarrow> ('r, 'm) BasicNodeManager_scheme \<Rightarrow> ('r, 'm) BasicNodeManager_scheme" where
  "nm_emit e m = m\<lparr>nm_events := nm_events m @ [e]\<rparr>"

definition getNodeModule :: "string \<Rightarrow> ('r, 'm) BasicNodeManager_scheme \<Rightarrow> cModule option" where
  "getNodeModule vid m = map_of (m_nodes m) vid"

definition getNumberOfNodes :: "('r, 'm) BasicNodeManager_scheme \<Rightarrow> nat" where
  "getNumberOfNodes m = length (m_nodes m)"

definition getVehicleSink_module :: "'r NodeContext \<Rightarrow> cModule \<Rightarrow> ('r, 'm) BasicNodeManager_scheme \<Rightarrow> nat result" where
  "getVehicleSink_module ctx node m =
     (case ctx_moduleByPath ctx node (m_vehicle_sink_module m) of
        None \<Rightarrow> Inl (RuntimeError ''No module found'')
      | Some md \<Rightarrow> if ctx_isVehicleSink ctx md then Inr md else Inl (RuntimeError ''Module is not a VehicleSink''))"

definition getVehicleSink :: "string \<Rightarrow> ('r, 'm) BasicNodeManager_scheme \<Rightarrow> nat option" where
  "getVehicleSink vid m = (case map_of (m_vehicles m) vid of Some sink \<Rightarrow> sink | None \<Rightarrow> None)"

definition createModule :: "string \<Rightarrow> ('r, 'm) BasicNodeManager_scheme \<Rightarrow> cModule \<times> ('r, 'm) BasicNodeManager_scheme" where
  "createModule type m = (\<lparr>mod_type = type, mod_index = m_nodeIndex m\<rparr>, m\<lparr>m_nodeIndex := m_nodeIndex m + 1\<rparr>)"

definition addNodeModule ::
    "string \<Rightarrow> string \<Rightarrow> (cModule \<Rightarrow> ('r, 'm) BasicNodeManager_scheme \<Rightarrow> ('r, 'm) BasicNodeManager_scheme result) \<Rightarrow>
     ('r, 'm) BasicNodeManager_scheme \<Rightarrow> ('r, 'm) BasicNodeManager_scheme result" where
  "addNodeModule vid type init m =
     (let (md, m) = createModule type m; m = m\<lparr>m_nodes := omap_put vid md (m_nodes m)\<rparr>
      in rmap (nm_emit (AddNodeSignal vid md)) (init md m))"

text \<open>The initializer \<open>addVehicle\<close> passes to \<open>addNodeModule\<close>.\<close>

definition vehicle_initializer ::
    "'r NodeContext \<Rightarrow> LiteAPI \<Rightarrow> string \<Rightarrow> cModule \<Rightarrow> ('r, 'm) BasicNodeManager_scheme \<Rightarrow> ('r, 'm) BasicNodeManager_scheme result" where
  "vehicle_initializer ctx api vid md m =
     rbind (getVehicleSink_module ctx md m) (\<lambda>vehicle.
       let (cache, subs) = getVehicleCache vid (m_subscriptions m); m = m\<lparr>m_subscriptions := subs\<rparr>
       in rbind (api_vehiclePosition api vid) (\<lambda>pos.
          rbind (api_vehicleAngle api vid) (\<lambda>angle.
          rbind (api_vehicleSpeed api vid) (\<lambda>speed.
            let m = nm_emit (SinkInitialize vehicle vid pos angle speed) m
            in Inr (m\<lparr>m_vehicles := omap_put vid (Some vehicle) (m_vehicles m)\<rparr>)))))"

definition BasicNodeManager_addVehicle ::
    "'r NodeContext \<Rightarrow> LiteAPI \<Rightarrow> string \<Rightarrow> ('r, 'm) BasicNodeManager_scheme \<Rightarrow> ('r, 'm) BasicNodeManager_scheme result" where
  "BasicNodeManager_addVehicle ctx api vid m =
     (let m = nm_emit (AddVehicleSignal vid) m;
          (type, r) = ctx_mapper ctx vid (m_mapper_state m);
          m = m\<lparr>m_mapper_state := r\<rparr>
      in case type of
           Some type \<Rightarrow> addNodeModule vid type (vehicle_initializer ctx api vid) m
         | None \<Rightarrow> Inr (m\<lparr>m_vehicles := omap_put vid None (m_vehicles m)\<rparr>))"

definition removeNodeModule :: "string \<Rightarrow> ('r, 'm) BasicNodeManager_scheme \<Rightarrow> ('r, 'm) BasicNodeManager_scheme" where
  "removeNodeModule vid m =
     (case getNodeModule vid m of
        Some md \<Rightarrow> (nm_emit (RemoveNodeSignal vid md) m)\<lparr>m_nodes := omap_del vid (m_nodes m)\<rparr>
      | None \<Rightarrow> m)"

definition BasicNodeManager_removeVehicle ::
    "string \<Rightarrow> ('r, 'm) BasicNodeManager_scheme \<Rightarrow> ('r, 'm) BasicNodeManager_scheme" where
  "BasicNodeManager_removeVehicle vid m =
     (let m = removeNodeModule vid (nm_emit (RemoveVehicleSignal vid) m)
      in m\<lparr>m_vehicles := omap_del vid (m_vehicles m)\<rparr>)"

definition BasicNodeManager_updateVehicle ::
    "LiteAPI \<Rightarrow> string \<Rightarrow> nat option \<Rightarrow> ('r, 'm) BasicNodeManager_scheme \<Rightarrow> ('r, 'm) BasicNodeManager_scheme result" where
  "BasicNodeManager_updateVehicle api vid sink m =
     (let (vehicle, subs) = getVehicleCache vid (m_subscriptions m);
          m = nm_emit (UpdateVehicleSignal vid) (m\<lparr>m_subscriptions := subs\<rparr>)
      in case sink of
           None \<Rightarrow> Inr m
         | Some sink \<Rightarrow>
             rbind (VariableCache_get_as get_value_position api VAR_POSITION vehicle) (\<lambda>(pos, vehicle).
             rbind (VariableCache_get_as get_value_double api VAR_ANGLE vehicle) (\<lambda>(angle, vehicle).
             rbind (VariableCache_get_as get_value_double api VAR_SPEED vehicle) (\<lambda>(speed, vehicle).
               Inr (nm_emit (SinkUpdate sink pos angle speed)
                 (m\<lparr>m_subscriptions := setVehicleCache vid vehicle (m_subscriptions m)\<rparr>))))))"

text \<open>A read of the simulation's cache.\<close>

definition sim_cache_get ::
    "(TraCIResult \<Rightarrow> 'a result) \<Rightarrow> LiteAPI \<Rightarrow> TraCIVariable \<Rightarrow> ('r, 'm) BasicNodeManager_scheme \<Rightarrow>
     ('a \<times> ('r, 'm) BasicNodeManager_scheme) result" where
  "sim_cache_get get_value api var m =
     rmap (\<lambda>(v, c). (v, m\<lparr>m_subscriptions := (m_subscriptions m)\<lparr>m_sim_cache := c\<rparr>\<rparr>))
       (VariableCache_get_as get_value api var (m_sim_cache (m_subscriptions m)))"

definition sVehicleVariables :: "int list" where
  "sVehicleVariables = map var_code [VAR_SPEED, VAR_POSITION, VAR_ANGLE]"

definition sSimulationVariables :: "int list" where
  "sSimulationVariables =
     map var_code [VAR_TIME, VAR_DEPARTED_VEHICLES_IDS, VAR_TELEPORT_STARTING_VEHICLES_IDS, VAR_ARRIVED_VEHICLES_IDS]"

text \<open>\<open>traciInit\<close> and \<open>traciStep\<close> call \<open>addVehicle\<close>, \<open>removeVehicle\<close> and \<open>updateVehicle\<close> of the object's class.\<close>

definition BasicNodeManager_traciInit ::
    "(string \<Rightarrow> ('r, 'm) BasicNodeManager_scheme \<Rightarrow> ('r, 'm) BasicNodeManager_scheme result) \<Rightarrow>
     LiteAPI \<Rightarrow> ('r, 'm) BasicNodeManager_scheme \<Rightarrow> ('r, 'm) BasicNodeManager_scheme result" where
  "BasicNodeManager_traciInit addVehicle api m =
     rbind (Boundary_new (api_netBoundary api)) (\<lambda>boundary.
     rbind (subscribeSimulationVariables sSimulationVariables (m_subscriptions m)) (\<lambda>subs.
     rbind (subscribeVehicleVariables sVehicleVariables subs) (\<lambda>subs.
       rfold addVehicle (api_getIDList api) (m\<lparr>m_boundary := boundary, m_subscriptions := subs\<rparr>))))"

definition BasicNodeManager_traciStep ::
    "(string \<Rightarrow> ('r, 'm) BasicNodeManager_scheme \<Rightarrow> ('r, 'm) BasicNodeManager_scheme result) \<Rightarrow>
     (string \<Rightarrow> ('r, 'm) BasicNodeManager_scheme \<Rightarrow> ('r, 'm) BasicNodeManager_scheme result) \<Rightarrow>
     (string \<Rightarrow> nat option \<Rightarrow> ('r, 'm) BasicNodeManager_scheme \<Rightarrow> ('r, 'm) BasicNodeManager_scheme result) \<Rightarrow>
     LiteAPI \<Rightarrow> simtime \<Rightarrow> ('r, 'm) BasicNodeManager_scheme \<Rightarrow> ('r, 'm) BasicNodeManager_scheme result" where
  "BasicNodeManager_traciStep addVehicle removeVehicle updateVehicle api now m =
     rbind (checkTimeSync api (m_sim_cache (m_subscriptions m)) now) (\<lambda>(sync, cache).
     if \<not> sync then Inl AssertionFailed else
     rbind (sim_cache_get get_value_strings api VAR_DEPARTED_VEHICLES_IDS
         (m\<lparr>m_subscriptions := (m_subscriptions m)\<lparr>m_sim_cache := cache\<rparr>\<rparr>)) (\<lambda>(departed, m).
     rbind (rfold addVehicle departed m) (\<lambda>m.
     rbind (sim_cache_get get_value_strings api VAR_ARRIVED_VEHICLES_IDS m) (\<lambda>(arrived, m).
     rbind (rfold removeVehicle arrived m) (\<lambda>m.
     rbind (if m_destroy_vehicles_on_crash m
            then rbind (sim_cache_get get_value_strings api VAR_TELEPORT_STARTING_VEHICLES_IDS m) (\<lambda>(teleport, m).
              rfold removeVehicle teleport m)
            else Inr m) (\<lambda>m.
     rbind (rfold (\<lambda>(vid, sink). updateVehicle vid sink) (m_vehicles m) m) (\<lambda>m.
       Inr (nm_emit (UpdateNodeSignal (getNumberOfNodes m)) m))))))))"

fun close_nodes :: "nat \<Rightarrow> ('r, 'm) BasicNodeManager_scheme \<Rightarrow> ('r, 'm) BasicNodeManager_scheme" where
  "close_nodes 0 m = m"
| "close_nodes (Suc i) m = close_nodes i (removeNodeModule (fst (hd (m_nodes m))) m)"

definition BasicNodeManager_traciClose :: "('r, 'm) BasicNodeManager_scheme \<Rightarrow> ('r, 'm) BasicNodeManager_scheme" where
  "BasicNodeManager_traciClose m = close_nodes (length (m_nodes m)) m"

section \<open>Delayed insertion\<close>

text \<open>The queue is a bidirectional map from vehicles to times, ordered by time; a vehicle inserted at an equal
  time comes later.  \<open>m_insert_event\<close> is the time the event is scheduled at.\<close>

type_synonym InsertionQueue = "(string \<times> simtime) list"

record 'r InsertionDelayNodeManager = "'r BasicNodeManager" +
  m_insert_queue :: InsertionQueue
  m_insert_event :: "simtime option"

fun insert_upper :: "string \<times> simtime \<Rightarrow> InsertionQueue \<Rightarrow> InsertionQueue" where
  "insert_upper e [] = [e]"
| "insert_upper e (x # xs) = (if snd e < snd x then e # x # xs else x # insert_upper e xs)"

definition queue_insert :: "string \<Rightarrow> simtime \<Rightarrow> InsertionQueue \<Rightarrow> InsertionQueue" where
  "queue_insert vid when q = (if vid \<in> fst ` set q then q else insert_upper (vid, when) q)"

definition scheduleVehicleInsertion ::
    "simtime \<Rightarrow> ('r, 'm) InsertionDelayNodeManager_scheme \<Rightarrow> ('r, 'm) InsertionDelayNodeManager_scheme result" where
  "scheduleVehicleInsertion now m =
     (case m_insert_queue m of
        [] \<Rightarrow> Inr (m\<lparr>m_insert_event := None\<rparr>)
      | (vid, when) # q \<Rightarrow> if when \<ge> now then Inr (m\<lparr>m_insert_event := Some when\<rparr>) else Inl AssertionFailed)"

definition InsertionDelayNodeManager_addVehicle ::
    "simtime \<Rightarrow> simtime \<Rightarrow> string \<Rightarrow> ('r, 'm) InsertionDelayNodeManager_scheme \<Rightarrow> ('r, 'm) InsertionDelayNodeManager_scheme result" where
  "InsertionDelayNodeManager_addVehicle insertionDelay now vid m =
     (let when = now + insertionDelay
      in scheduleVehicleInsertion now (m\<lparr>m_insert_queue := queue_insert vid when (m_insert_queue m)\<rparr>))"

definition InsertionDelayNodeManager_updateVehicle ::
    "LiteAPI \<Rightarrow> string \<Rightarrow> nat option \<Rightarrow> ('r, 'm) InsertionDelayNodeManager_scheme \<Rightarrow> ('r, 'm) InsertionDelayNodeManager_scheme result" where
  "InsertionDelayNodeManager_updateVehicle api vid sink m =
     (if vid \<notin> fst ` set (m_insert_queue m) then BasicNodeManager_updateVehicle api vid sink m else Inr m)"

definition InsertionDelayNodeManager_removeVehicle ::
    "simtime \<Rightarrow> string \<Rightarrow> ('r, 'm) InsertionDelayNodeManager_scheme \<Rightarrow> ('r, 'm) InsertionDelayNodeManager_scheme result" where
  "InsertionDelayNodeManager_removeVehicle now vid m =
     (if vid \<notin> fst ` set (m_insert_queue m) then Inr (BasicNodeManager_removeVehicle vid m)
      else scheduleVehicleInsertion now (m\<lparr>m_insert_queue := filter (\<lambda>e. fst e \<noteq> vid) (m_insert_queue m)\<rparr>))"

text \<open>The handler of the insertion event.  The base class throws on any other message.\<close>

definition InsertionDelayNodeManager_handleMessage ::
    "'r NodeContext \<Rightarrow> LiteAPI \<Rightarrow> simtime \<Rightarrow> bool \<Rightarrow> ('r, 'm) InsertionDelayNodeManager_scheme \<Rightarrow>
     ('r, 'm) InsertionDelayNodeManager_scheme result" where
  "InsertionDelayNodeManager_handleMessage ctx api now is_insert_event m =
     (case m_insert_queue m of
        (vid, when) # q \<Rightarrow>
          if is_insert_event then
            (if when = now then
               rbind (BasicNodeManager_addVehicle ctx api vid m) (\<lambda>m.
               rbind (BasicNodeManager_updateVehicle api vid (getVehicleSink vid m) m) (\<lambda>m.
                 scheduleVehicleInsertion now (m\<lparr>m_insert_queue := q\<rparr>)))
             else Inl AssertionFailed)
          else Inl (RuntimeError ''Redefine handleMessage()'')
      | [] \<Rightarrow> Inl (RuntimeError ''Redefine handleMessage()''))"


section \<open>Invariant of the node manager\<close>

definition known :: "('r, 'm) BasicNodeManager_scheme \<Rightarrow> string set" where
  "known m = fst ` set (m_vehicles m)"

text \<open>Every sink that is called belongs to a node that was not removed, and every node to a known vehicle.\<close>

definition node_ok :: "'r NodeContext \<Rightarrow> ('r, 'm) BasicNodeManager_scheme \<Rightarrow> bool" where
  "node_ok ctx m \<longleftrightarrow> omap_ok (m_nodes m) \<and> omap_ok (m_vehicles m) \<and> bsm_ok (m_subscriptions m)
     \<and> fst ` set (m_nodes m) \<subseteq> known m
     \<and> (\<forall>v s. map_of (m_vehicles m) v = Some (Some s) \<longrightarrow>
          (\<exists>n. map_of (m_nodes m) v = Some n \<and> getVehicleSink_module ctx n m = Inr s))"

text \<open>What an operation on one vehicle leaves alone.\<close>

definition same_frame :: "('r, 'm) BasicNodeManager_scheme \<Rightarrow> ('r, 'm) BasicNodeManager_scheme \<Rightarrow> bool" where
  "same_frame m m' \<longleftrightarrow> m_sim_cache (m_subscriptions m') = m_sim_cache (m_subscriptions m)
     \<and> m_vehicle_vars (m_subscriptions m') = m_vehicle_vars (m_subscriptions m)
     \<and> m_subscribed_vehicles (m_subscriptions m') = m_subscribed_vehicles (m_subscriptions m)
     \<and> m_destroy_vehicles_on_crash m' = m_destroy_vehicles_on_crash m \<and> m_boundary m' = m_boundary m
     \<and> m_vehicle_sink_module m' = m_vehicle_sink_module m"

lemma same_frame_refl [simp]: "same_frame m m"
  by (simp add: same_frame_def)

lemma same_frame_trans: "same_frame a b \<Longrightarrow> same_frame b c \<Longrightarrow> same_frame a c"
  by (simp add: same_frame_def)

lemma nm_emit_simps [simp]:
  "m_nodes (nm_emit e m) = m_nodes m" "m_vehicles (nm_emit e m) = m_vehicles m"
  "m_subscriptions (nm_emit e m) = m_subscriptions m" "m_nodeIndex (nm_emit e m) = m_nodeIndex m"
  "m_boundary (nm_emit e m) = m_boundary m" "m_vehicle_sink_module (nm_emit e m) = m_vehicle_sink_module m"
  "m_destroy_vehicles_on_crash (nm_emit e m) = m_destroy_vehicles_on_crash m" "m_mapper_state (nm_emit e m) = m_mapper_state m"
  "nm_events (nm_emit e m) = nm_events m @ [e]"
  by (simp_all add: nm_emit_def)

lemma sink_module_cong: "m_vehicle_sink_module m' = m_vehicle_sink_module m \<Longrightarrow>
    getVehicleSink_module ctx n m' = getVehicleSink_module ctx n m"
  by (simp add: getVehicleSink_module_def)

lemma node_ok_emit [simp]: "node_ok ctx (nm_emit e m) = node_ok ctx m"
  by (simp add: node_ok_def known_def getVehicleSink_module_def)

lemma node_ok_sim_cache [simp]:
  "node_ok ctx (m\<lparr>m_subscriptions := (m_subscriptions m)\<lparr>m_sim_cache := c\<rparr>\<rparr>) = node_ok ctx m"
  by (simp add: node_ok_def known_def getVehicleSink_module_def)

lemma known_simps [simp]:
  "known (nm_emit e m) = known m" "known (m\<lparr>m_subscriptions := s\<rparr>) = known m" "known (m\<lparr>m_mapper_state := r\<rparr>) = known m"
  "known (m\<lparr>m_nodes := ns\<rparr>) = known m" "known (m\<lparr>m_nodeIndex := i\<rparr>) = known m"
  "known (m\<lparr>m_vehicles := omap_put v x (m_vehicles m)\<rparr>) = insert v (known m)"
  "known (m\<lparr>m_vehicles := omap_del v (m_vehicles m)\<rparr>) = known m - {v}"
  by (auto simp: known_def keys_omap_put omap_del_def)

lemma getVehicleCache_frame:
  assumes "bsm_ok s" and "getVehicleCache v s = (c, s')"
  shows "bsm_ok s' \<and> m_sim_cache s' = m_sim_cache s \<and> m_vehicle_vars s' = m_vehicle_vars s
    \<and> m_subscribed_vehicles s' = m_subscribed_vehicles s"
  using getVehicleCache_ok [OF assms] assms(2) by (auto simp: getVehicleCache_def split: option.splits)

lemma keys_map_of: "fst ` set m = dom (map_of m)"
  by (simp add: dom_map_of_conv_image_fst)

text \<open>Adding a vehicle.\<close>

lemma vehicle_initializer_ok:
  assumes "vehicle_initializer ctx api v md m = Inr m'" and "bsm_ok (m_subscriptions m)"
  shows "\<exists>s. getVehicleSink_module ctx md m = Inr s \<and> m_vehicles m' = omap_put v (Some s) (m_vehicles m)
    \<and> m_nodes m' = m_nodes m \<and> bsm_ok (m_subscriptions m') \<and> same_frame m m'
    \<and> m_vehicle_caches (m_subscriptions m') = m_vehicle_caches (snd (getVehicleCache v (m_subscriptions m)))"
proof -
  obtain c subs where g: "getVehicleCache v (m_subscriptions m) = (c, subs)" by fastforce
  show ?thesis
    using assms getVehicleCache_frame [OF assms(2) g]
    by (auto simp: vehicle_initializer_def g Let_def rbind_ok_iff same_frame_def)
qed

lemma BasicNodeManager_addVehicle_ok:
  assumes "node_ok ctx m" and "BasicNodeManager_addVehicle ctx api v m = Inr m'"
  shows "node_ok ctx m' \<and> known m' = insert v (known m) \<and> same_frame m m'"
proof -
  obtain type r where t: "ctx_mapper ctx v (m_mapper_state m) = (type, r)" by fastforce
  show ?thesis
  proof (cases type)
    case None
    then have m': "m' = (nm_emit (AddVehicleSignal v) m)\<lparr>m_mapper_state := r, m_vehicles := omap_put v None (m_vehicles m)\<rparr>"
      using assms(2) t by (simp add: BasicNodeManager_addVehicle_def Let_def)
    then have "known m' = insert v (known m)" by (simp add: known_def keys_omap_put)
    moreover have "node_ok ctx m'"
      using assms(1) \<open>known m' = insert v (known m)\<close> unfolding node_ok_def m'
      by (auto simp: omap_ok_put map_of_omap_put getVehicleSink_module_def)
    ultimately show ?thesis by (simp add: m' same_frame_def)
  next
    case (Some ty)
    let ?md = "\<lparr>mod_type = ty, mod_index = m_nodeIndex m\<rparr>"
    let ?m1 = "(nm_emit (AddVehicleSignal v) m)\<lparr>m_mapper_state := r, m_nodeIndex := m_nodeIndex m + 1,
      m_nodes := omap_put v ?md (m_nodes m)\<rparr>"
    obtain m2 where i: "vehicle_initializer ctx api v ?md ?m1 = Inr m2" and m': "m' = nm_emit (AddNodeSignal v ?md) m2"
      using assms(2) t Some
      by (auto simp: BasicNodeManager_addVehicle_def addNodeModule_def createModule_def Let_def rmap_ok_iff)
    have b: "bsm_ok (m_subscriptions ?m1)" using assms(1) by (simp add: node_ok_def)
    obtain s where s: "getVehicleSink_module ctx ?md ?m1 = Inr s" "m_vehicles m2 = omap_put v (Some s) (m_vehicles ?m1)"
      "m_nodes m2 = m_nodes ?m1" "bsm_ok (m_subscriptions m2)" "same_frame ?m1 m2"
      using vehicle_initializer_ok [OF i b] by blast
    have sm: "m_vehicle_sink_module m2 = m_vehicle_sink_module m" using s(5) by (simp add: same_frame_def)
    have k: "known m2 = insert v (known m)" by (simp add: known_def s(2) keys_omap_put)
    have "node_ok ctx m2"
      using assms(1) s(1,4) k unfolding node_ok_def s(2,3)
      by (auto simp: omap_ok_put map_of_omap_put keys_omap_put getVehicleSink_module_def sm)
    moreover have "same_frame m m2" using s(5) by (simp add: same_frame_def)
    ultimately show ?thesis using k by (simp add: m' same_frame_def)
  qed
qed

text \<open>Removing and updating a vehicle.\<close>

lemma omap_del_absent: "map_of m v = None \<Longrightarrow> omap_del v m = m"
  by (force simp: omap_del_def map_of_eq_None_iff intro!: filter_True)

lemma BasicNodeManager_removeVehicle_ok:
  assumes "node_ok ctx m"
  shows "node_ok ctx (BasicNodeManager_removeVehicle v m) \<and> known (BasicNodeManager_removeVehicle v m) = known m - {v}
    \<and> same_frame m (BasicNodeManager_removeVehicle v m)"
proof -
  let ?m = "BasicNodeManager_removeVehicle v m"
  have ns: "m_nodes ?m = omap_del v (m_nodes m)" and vs: "m_vehicles ?m = omap_del v (m_vehicles m)"
    and fr: "same_frame m ?m" and sub: "m_subscriptions ?m = m_subscriptions m"
    using omap_del_absent [of "m_nodes m" v]
    by (auto simp: BasicNodeManager_removeVehicle_def removeNodeModule_def getNodeModule_def Let_def same_frame_def
      split: option.splits)
  have k: "known ?m = known m - {v}" by (auto simp: known_def vs omap_del_def)
  have sm: "m_vehicle_sink_module ?m = m_vehicle_sink_module m" using fr by (simp add: same_frame_def)
  have sub2: "fst ` set (omap_del v (m_nodes m)) = fst ` set (m_nodes m) - {v}" by (auto simp: omap_del_def)
  have "node_ok ctx ?m"
    using assms k unfolding node_ok_def ns vs sub sub2
    by (auto simp: omap_ok_del map_of_omap_del sink_module_cong [OF sm])
  then show ?thesis using k fr by simp
qed

lemma getPtr_id:
  assumes "VariableCache_getPtr api var c = Inr (x, c')"
  shows "vc_id c' = vc_id c \<and> vc_command c' = vc_command c"
proof (cases "map_of (m_values c) (var_code var)")
  case None
  then show ?thesis
    using assms by (cases "VariableCache_retrieve api var c") (auto simp: VariableCache_getPtr_def)
qed (use assms in \<open>simp add: VariableCache_getPtr_def\<close>)

lemma get_as_id:
  assumes "VariableCache_get_as g api var c = Inr (x, c')"
  shows "vc_id c' = vc_id c \<and> vc_command c' = vc_command c"
proof -
  obtain r where "VariableCache_get api var c = Inr (r, c')"
    using assms by (auto simp: VariableCache_get_as_def rbind_ok_iff rmap_ok_iff)
  then obtain p where "VariableCache_getPtr api var c = Inr (p, c')"
    unfolding VariableCache_get_def rbind_ok_iff by (auto split: option.splits)
  then show ?thesis by (rule getPtr_id)
qed

lemma BasicNodeManager_updateVehicle_ok:
  assumes "node_ok ctx m" and "BasicNodeManager_updateVehicle api v sink m = Inr m'"
  shows "node_ok ctx m' \<and> m_vehicles m' = m_vehicles m \<and> m_nodes m' = m_nodes m \<and> same_frame m m'"
proof -
  obtain c subs where g: "getVehicleCache v (m_subscriptions m) = (c, subs)" by fastforce
  have b: "bsm_ok (m_subscriptions m)" using assms(1) by (simp add: node_ok_def)
  note gf = getVehicleCache_frame [OF b g] and go = getVehicleCache_ok [OF b g]
  have "m_vehicles m' = m_vehicles m \<and> m_nodes m' = m_nodes m \<and> same_frame m m' \<and> bsm_ok (m_subscriptions m')"
  proof (cases sink)
    case None
    then show ?thesis using assms(2) gf
      by (auto simp: BasicNodeManager_updateVehicle_def g same_frame_def)
  next
    case (Some s)
    obtain p c1 a c2 sp c3 where get: "VariableCache_get_as get_value_position api VAR_POSITION c = Inr (p, c1)"
      "VariableCache_get_as get_value_double api VAR_ANGLE c1 = Inr (a, c2)"
      "VariableCache_get_as get_value_double api VAR_SPEED c2 = Inr (sp, c3)"
      and m': "m' = nm_emit (SinkUpdate s p a sp) ((nm_emit (UpdateVehicleSignal v) (m\<lparr>m_subscriptions := subs\<rparr>))
        \<lparr>m_subscriptions := setVehicleCache v c3 subs\<rparr>)"
      using assms(2) Some by (auto simp: BasicNodeManager_updateVehicle_def g rbind_ok_iff)
    have "vc_id c3 = v" "vc_command c3 = 0xa4" using get_as_id [OF get(1)] get_as_id [OF get(2)] get_as_id [OF get(3)] go by auto
    then have "bsm_ok (setVehicleCache v c3 subs)" using gf by (simp add: setVehicleCache_ok)
    then show ?thesis using gf by (simp add: m' same_frame_def setVehicleCache_def)
  qed
  then show ?thesis using assms(1)
    by (auto simp: node_ok_def known_def same_frame_def getVehicleSink_module_def)
qed


section \<open>The contract of a node manager\<close>

text \<open>
  What \<open>traciStep\<close> relies on, whatever class the manager is of: its operations keep the manager well formed,
  change the set of vehicles it is responsible for as their names say and leave the rest alone.
\<close>

locale node_manager =
  fixes add :: "string \<Rightarrow> ('r, 'm) BasicNodeManager_scheme \<Rightarrow> ('r, 'm) BasicNodeManager_scheme result"
    and remove :: "string \<Rightarrow> ('r, 'm) BasicNodeManager_scheme \<Rightarrow> ('r, 'm) BasicNodeManager_scheme result"
    and upd :: "string \<Rightarrow> nat option \<Rightarrow> ('r, 'm) BasicNodeManager_scheme \<Rightarrow> ('r, 'm) BasicNodeManager_scheme result"
    and wf :: "('r, 'm) BasicNodeManager_scheme \<Rightarrow> bool"
    and managed :: "('r, 'm) BasicNodeManager_scheme \<Rightarrow> string set"
  assumes add_law: "wf m \<Longrightarrow> v \<notin> managed m \<Longrightarrow> add v m = Inr m' \<Longrightarrow>
      wf m' \<and> managed m' = insert v (managed m) \<and> same_frame m m'"
    and remove_law: "wf m \<Longrightarrow> remove v m = Inr m' \<Longrightarrow> wf m' \<and> managed m' = managed m - {v} \<and> same_frame m m'"
    and update_law: "wf m \<Longrightarrow> upd v s m = Inr m' \<Longrightarrow> wf m' \<and> managed m' = managed m \<and> same_frame m m'"
    and sim_cache_law: "wf (m\<lparr>m_subscriptions := (m_subscriptions m)\<lparr>m_sim_cache := c\<rparr>\<rparr>) = wf m"
      "managed (m\<lparr>m_subscriptions := (m_subscriptions m)\<lparr>m_sim_cache := c\<rparr>\<rparr>) = managed m"
    and emit_law: "wf (nm_emit e m) = wf m" "managed (nm_emit e m) = managed m"
begin

lemma adds:
  "rfold add vs m = Inr m' \<Longrightarrow> wf m \<Longrightarrow> distinct vs \<Longrightarrow> set vs \<inter> managed m = {} \<Longrightarrow>
     wf m' \<and> managed m' = managed m \<union> set vs \<and> same_frame m m'"
proof (induction vs arbitrary: m)
  case (Cons v vs)
  then obtain m1 where m1: "add v m = Inr m1" "rfold add vs m1 = Inr m'" by (auto simp: rbind_ok_iff)
  have a: "wf m1 \<and> managed m1 = insert v (managed m) \<and> same_frame m m1" using add_law [OF _ _ m1(1)] Cons.prems by simp
  then have "wf m' \<and> managed m' = managed m1 \<union> set vs \<and> same_frame m1 m'"
    using Cons.IH [OF m1(2)] Cons.prems by auto
  then show ?case using a same_frame_trans by auto
qed simp

lemma removes:
  "rfold remove vs m = Inr m' \<Longrightarrow> wf m \<Longrightarrow> wf m' \<and> managed m' = managed m - set vs \<and> same_frame m m'"
proof (induction vs arbitrary: m)
  case (Cons v vs)
  then obtain m1 where m1: "remove v m = Inr m1" "rfold remove vs m1 = Inr m'" by (auto simp: rbind_ok_iff)
  then show ?case using Cons.IH [OF m1(2)] remove_law [OF Cons.prems(2) m1(1)] same_frame_trans by auto
qed simp

lemma updates:
  assumes "rfold (\<lambda>(v, s). upd v s) vs m = Inr m'" and "wf m"
  shows "wf m' \<and> managed m' = managed m \<and> same_frame m m'"
proof -
  let ?P = "\<lambda>s. wf s \<and> managed s = managed m \<and> same_frame m s"
  show ?thesis
  proof (rule rfold_inv [OF assms(1), where P = ?P])
    fix x s s'
    assume "?P s" and u: "(case x of (v, k) \<Rightarrow> upd v k) s = Inr s'"
    obtain v k where x: "x = (v, k)" by (cases x)
    from update_law [of s v k s'] u x \<open>?P s\<close> show "?P s'" using same_frame_trans by auto
  qed (use assms(2) in simp)
qed

lemma traciStep:
  assumes "BasicNodeManager_traciStep add remove upd api now m = Inr m'" and "wf m"
    and "m_values (m_sim_cache (m_subscriptions m)) = api_simulationResults api"
    and "step_report api now arrived departed"
    and "map_of (api_simulationResults api) (var_code VAR_TELEPORT_STARTING_VEHICLES_IDS) = Some (TraCIStringList teleport)"
    and "distinct departed" and "set departed \<inter> managed m = {}"
  shows "wf m' \<and> managed m' = ((managed m \<union> set departed) - set arrived)
      - (if m_destroy_vehicles_on_crash m then set teleport else {}) \<and> same_frame m m'"
proof -
  let ?c = "m_sim_cache (m_subscriptions m)"
  have sync: "checkTimeSync api ?c now = Inr (True, ?c)" using checkTimeSync_report assms(3,4) by blast
  have get: "sim_cache_get get_value_strings api var s = Inr (x, s)"
    if "m_sim_cache (m_subscriptions s) = ?c" and "VariableTrait var = ResultStringList"
      and "map_of (api_simulationResults api) (var_code var) = Some (TraCIStringList x)" for s var x
    using that assms(3) by (simp add: sim_cache_get_def get_cached)
  have dep: "sim_cache_get get_value_strings api VAR_DEPARTED_VEHICLES_IDS m = Inr (departed, m)"
    by (rule get) (use assms(4) in \<open>simp_all add: step_report_def\<close>)
  obtain m1 where m1: "rfold add departed m = Inr m1"
    using assms(1) by (auto simp: BasicNodeManager_traciStep_def sync dep rbind_ok_iff)
  have a: "wf m1 \<and> managed m1 = managed m \<union> set departed \<and> same_frame m m1" using adds [OF m1 assms(2,6,7)] .
  have arr: "sim_cache_get get_value_strings api VAR_ARRIVED_VEHICLES_IDS m1 = Inr (arrived, m1)"
    by (rule get) (use assms(4) a in \<open>simp_all add: step_report_def same_frame_def\<close>)
  obtain m2 where m2: "rfold remove arrived m1 = Inr m2"
    using assms(1) by (auto simp: BasicNodeManager_traciStep_def sync dep m1 arr rbind_ok_iff)
  have r: "wf m2 \<and> managed m2 = managed m1 - set arrived \<and> same_frame m1 m2" using removes [OF m2] a by blast
  have tel: "sim_cache_get get_value_strings api VAR_TELEPORT_STARTING_VEHICLES_IDS m2 = Inr (teleport, m2)"
    by (rule get) (use assms(5) a r in \<open>simp_all add: same_frame_def\<close>)
  have crash: "m_destroy_vehicles_on_crash m2 = m_destroy_vehicles_on_crash m" using a r by (simp add: same_frame_def)
  obtain m3 where m3: "(if m_destroy_vehicles_on_crash m then rfold remove teleport m2 else Inr m2) = Inr m3"
    and m4: "rbind (rfold (\<lambda>(v, s). upd v s) (m_vehicles m3) m3) (\<lambda>m. Inr (nm_emit (UpdateNodeSignal (getNumberOfNodes m)) m)) = Inr m'"
    using assms(1) by (auto simp: BasicNodeManager_traciStep_def sync dep m1 arr m2 tel crash rbind_ok_iff split: if_splits)
  have t: "wf m3 \<and> managed m3 = managed m2 - (if m_destroy_vehicles_on_crash m then set teleport else {}) \<and> same_frame m2 m3"
    using m3 removes [of teleport m2 m3] r by (auto split: if_splits)
  obtain m5 where m5: "rfold (\<lambda>(v, s). upd v s) (m_vehicles m3) m3 = Inr m5" "m' = nm_emit (UpdateNodeSignal (getNumberOfNodes m5)) m5"
    using m4 by (auto simp: rbind_ok_iff)
  have "wf m5 \<and> managed m5 = managed m3 \<and> same_frame m3 m5" using updates [OF m5(1)] t by blast
  then show ?thesis using a r t by (auto simp: m5(2) emit_law same_frame_def)
qed

end

text \<open>The basic manager creates nodes at once.\<close>

interpretation basic: node_manager "BasicNodeManager_addVehicle ctx api" "\<lambda>v m. Inr (BasicNodeManager_removeVehicle v m)"
    "BasicNodeManager_updateVehicle api" "node_ok ctx" known
  for ctx :: "'r NodeContext" and api
proof unfold_locales
  fix m m' :: "('r, 'm) BasicNodeManager_scheme" and v s
  show "node_ok ctx m' \<and> known m' = insert v (known m) \<and> same_frame m m'"
    if "node_ok ctx m" "BasicNodeManager_addVehicle ctx api v m = Inr m'"
    using BasicNodeManager_addVehicle_ok that by blast
  show "node_ok ctx m' \<and> known m' = known m - {v} \<and> same_frame m m'"
    if "node_ok ctx m" "Inr (BasicNodeManager_removeVehicle v m) = Inr m'"
    using BasicNodeManager_removeVehicle_ok [OF that(1)] that(2) by auto
  show "node_ok ctx m' \<and> known m' = known m \<and> same_frame m m'"
    if "node_ok ctx m" "BasicNodeManager_updateVehicle api v s m = Inr m'"
    using BasicNodeManager_updateVehicle_ok [OF that] by (simp add: known_def)
qed simp_all


section \<open>Delayed insertion keeps the contract\<close>

lemma more_emit [simp]: "BasicNodeManager.more (nm_emit e m) = BasicNodeManager.more m"
  by (simp add: nm_emit_def)

lemma more_initializer: "vehicle_initializer ctx api v md m = Inr m' \<Longrightarrow> BasicNodeManager.more m' = BasicNodeManager.more m"
  by (auto simp: vehicle_initializer_def Let_def rbind_ok_iff case_prod_beta)

lemma more_add:
  assumes "BasicNodeManager_addVehicle ctx api v m = Inr m'"
  shows "BasicNodeManager.more m' = BasicNodeManager.more m"
  using assms
  by (auto simp: BasicNodeManager_addVehicle_def addNodeModule_def createModule_def Let_def rmap_ok_iff case_prod_beta
    dest: more_initializer split: option.splits)

lemma more_remove: "BasicNodeManager.more (BasicNodeManager_removeVehicle v m) = BasicNodeManager.more m"
  by (simp add: BasicNodeManager_removeVehicle_def removeNodeModule_def Let_def split: option.splits)

lemma more_update:
  assumes "BasicNodeManager_updateVehicle api v s m = Inr m'"
  shows "BasicNodeManager.more m' = BasicNodeManager.more m"
  using assms
  by (auto simp: BasicNodeManager_updateVehicle_def Let_def rbind_ok_iff case_prod_beta split: option.splits)

lemma queue_of_more:
  fixes m m' :: "('r, 'm) InsertionDelayNodeManager_scheme"
  assumes "BasicNodeManager.more m' = BasicNodeManager.more m"
  shows "m_insert_queue m' = m_insert_queue m \<and> m_insert_event m' = m_insert_event m"
  using assms by (cases m; cases m') simp

text \<open>The vehicles that wait are ordered by the time of their insertion, no vehicle waits twice or has been
  inserted already, and the event is scheduled at the time of the first.\<close>

definition queue_ok :: "simtime \<Rightarrow> ('r, 'm) InsertionDelayNodeManager_scheme \<Rightarrow> bool" where
  "queue_ok now m \<longleftrightarrow> sorted (map snd (m_insert_queue m)) \<and> distinct (map fst (m_insert_queue m))
     \<and> (\<forall>e \<in> set (m_insert_queue m). now \<le> snd e) \<and> fst ` set (m_insert_queue m) \<inter> known m = {}
     \<and> m_insert_event m = (case m_insert_queue m of [] \<Rightarrow> None | e # q \<Rightarrow> Some (snd e))"

definition waiting :: "('r, 'm) InsertionDelayNodeManager_scheme \<Rightarrow> string set" where
  "waiting m = fst ` set (m_insert_queue m)"

lemma set_insert_upper [simp]: "set (insert_upper e q) = insert e (set q)"
  by (induction q) auto

lemma sorted_insert_upper: "sorted (map snd q) \<Longrightarrow> sorted (map snd (insert_upper e q))"
  by (induction q) auto

lemma distinct_insert_upper: "distinct (map fst q) \<Longrightarrow> fst e \<notin> fst ` set q \<Longrightarrow> distinct (map fst (insert_upper e q))"
  by (induction q) auto

lemma schedule_ok:
  fixes m m' :: "('r, 'm) InsertionDelayNodeManager_scheme"
  assumes "scheduleVehicleInsertion now m = Inr m'" and "sorted (map snd (m_insert_queue m))"
    and "distinct (map fst (m_insert_queue m))" and "fst ` set (m_insert_queue m) \<inter> known m = {}" and "node_ok ctx m"
  shows "node_ok ctx m' \<and> queue_ok now m' \<and> m_insert_queue m' = m_insert_queue m \<and> m_vehicles m' = m_vehicles m
    \<and> m_nodes m' = m_nodes m \<and> same_frame m m'"
proof -
  obtain e where m': "m' = m\<lparr>m_insert_event := e\<rparr>" and e: "e = (case m_insert_queue m of [] \<Rightarrow> None | e # q \<Rightarrow> Some (snd e))"
    and le: "case m_insert_queue m of [] \<Rightarrow> True | e # q \<Rightarrow> now \<le> snd e"
    using assms(1) by (auto simp: scheduleVehicleInsertion_def split: list.splits if_splits)
  have "\<forall>e \<in> set (m_insert_queue m). now \<le> snd e" using le assms(2) by (cases "m_insert_queue m") auto
  then show ?thesis
    using assms(2-5) by (auto simp: m' e queue_ok_def node_ok_def known_def getVehicleSink_module_def same_frame_def)
qed

lemma schedule_total:
  assumes "\<forall>e \<in> set (m_insert_queue m). now \<le> snd e"
  shows "\<exists>m'. scheduleVehicleInsertion now m = Inr m'"
  using assms by (auto simp: scheduleVehicleInsertion_def split: list.splits)

lemma node_ok_queue [simp]:
  fixes m :: "('r, 'm) InsertionDelayNodeManager_scheme"
  shows "node_ok ctx (m\<lparr>m_insert_queue := q\<rparr>) = node_ok ctx m" "known (m\<lparr>m_insert_queue := q\<rparr>) = known m"
    "same_frame (m\<lparr>m_insert_queue := q\<rparr>) m' = same_frame m m'"
  by (simp_all add: node_ok_def known_def getVehicleSink_module_def same_frame_def)

lemma delayed_add_ok:
  fixes m m' :: "('r, 'm) InsertionDelayNodeManager_scheme"
  assumes "node_ok ctx m" and "queue_ok now m" and "v \<notin> known m" and "v \<notin> waiting m"
    and "InsertionDelayNodeManager_addVehicle delay now v m = Inr m'"
  shows "node_ok ctx m' \<and> queue_ok now m' \<and> m_insert_queue m' = insert_upper (v, now + delay) (m_insert_queue m)
    \<and> m_vehicles m' = m_vehicles m \<and> same_frame m m'"
proof -
  let ?q = "insert_upper (v, now + delay) (m_insert_queue m)"
  have s: "scheduleVehicleInsertion now (m\<lparr>m_insert_queue := ?q\<rparr>) = Inr m'"
    using assms(4,5) by (simp add: InsertionDelayNodeManager_addVehicle_def queue_insert_def waiting_def)
  have "fst ` set ?q \<inter> known (m\<lparr>m_insert_queue := ?q\<rparr>) = {}" using assms(2,3) by (auto simp: queue_ok_def)
  moreover have "sorted (map snd ?q)" "distinct (map fst ?q)"
    using assms(2,4) by (simp_all add: queue_ok_def waiting_def sorted_insert_upper distinct_insert_upper)
  ultimately show ?thesis using schedule_ok [OF s, of ctx] assms(1) by simp
qed

lemma delayed_remove_ok:
  fixes m m' :: "('r, 'm) InsertionDelayNodeManager_scheme"
  assumes "node_ok ctx m" and "queue_ok now m" and "InsertionDelayNodeManager_removeVehicle now v m = Inr m'"
  shows "node_ok ctx m' \<and> queue_ok now m' \<and> waiting m' = waiting m - {v} \<and> known m' = known m - {v} \<and> same_frame m m'"
proof (cases "v \<in> waiting m")
  case True
  let ?q = "filter (\<lambda>e. fst e \<noteq> v) (m_insert_queue m)"
  have s: "scheduleVehicleInsertion now (m\<lparr>m_insert_queue := ?q\<rparr>) = Inr m'"
    using assms(3) True by (simp add: InsertionDelayNodeManager_removeVehicle_def waiting_def)
  have "fst ` set ?q \<inter> known m = {}" "v \<notin> known m" using assms(2) True by (auto simp: queue_ok_def waiting_def)
  moreover have "known m' = known m \<and> waiting m' = fst ` set ?q"
    if "m_vehicles m' = m_vehicles m" "m_insert_queue m' = ?q" using that by (simp add: known_def waiting_def)
  moreover have "sorted (map snd ?q)" "distinct (map fst ?q)"
    using assms(2) by (simp_all add: queue_ok_def sorted_filter distinct_map_filter)
  ultimately show ?thesis
    using schedule_ok [OF s, of ctx] assms(1) by (auto simp: waiting_def)
next
  case False
  then have m': "m' = BasicNodeManager_removeVehicle v m"
    using assms(3) by (simp add: InsertionDelayNodeManager_removeVehicle_def waiting_def)
  note q = queue_of_more [OF more_remove [of v m]]
  show ?thesis
    using BasicNodeManager_removeVehicle_ok [OF assms(1), of v] assms(2) False q
    by (auto simp: m' queue_ok_def waiting_def)
qed

lemma delayed_update_ok:
  fixes m m' :: "('r, 'm) InsertionDelayNodeManager_scheme"
  assumes "node_ok ctx m" and "queue_ok now m" and "InsertionDelayNodeManager_updateVehicle api v s m = Inr m'"
  shows "node_ok ctx m' \<and> queue_ok now m' \<and> waiting m' = waiting m \<and> known m' = known m \<and> same_frame m m'"
proof (cases "v \<in> waiting m")
  case True
  then show ?thesis using assms by (simp add: InsertionDelayNodeManager_updateVehicle_def waiting_def)
next
  case False
  then have u: "BasicNodeManager_updateVehicle api v s m = Inr m'"
    using assms(3) by (simp add: InsertionDelayNodeManager_updateVehicle_def waiting_def)
  note q = queue_of_more [OF more_update [OF u]]
  show ?thesis
    using BasicNodeManager_updateVehicle_ok [OF assms(1) u] assms(2) q by (auto simp: queue_ok_def waiting_def known_def)
qed

interpretation delayed: node_manager "InsertionDelayNodeManager_addVehicle delay now" "InsertionDelayNodeManager_removeVehicle now"
    "InsertionDelayNodeManager_updateVehicle api" "\<lambda>m. node_ok ctx m \<and> queue_ok now m" "\<lambda>m. known m \<union> waiting m"
  for ctx :: "'r NodeContext" and api delay now
proof unfold_locales
  fix m m' :: "('r, 'm) InsertionDelayNodeManager_scheme" and v s c e
  show "(node_ok ctx m' \<and> queue_ok now m') \<and> known m' \<union> waiting m' = insert v (known m \<union> waiting m) \<and> same_frame m m'"
    if "node_ok ctx m \<and> queue_ok now m" "v \<notin> known m \<union> waiting m" "InsertionDelayNodeManager_addVehicle delay now v m = Inr m'"
    using delayed_add_ok [of ctx m now v delay m'] that by (auto simp: waiting_def known_def)
  show "(node_ok ctx m' \<and> queue_ok now m') \<and> known m' \<union> waiting m' = known m \<union> waiting m - {v} \<and> same_frame m m'"
    if "node_ok ctx m \<and> queue_ok now m" "InsertionDelayNodeManager_removeVehicle now v m = Inr m'"
    using delayed_remove_ok [of ctx m now v m'] that by auto
  show "(node_ok ctx m' \<and> queue_ok now m') \<and> known m' \<union> waiting m' = known m \<union> waiting m \<and> same_frame m m'"
    if "node_ok ctx m \<and> queue_ok now m" "InsertionDelayNodeManager_updateVehicle api v s m = Inr m'"
    using delayed_update_ok [of ctx m now api v s m'] that by auto
  let ?m = "m\<lparr>m_subscriptions := (m_subscriptions m)\<lparr>m_sim_cache := c\<rparr>\<rparr>"
  have "m_insert_queue ?m = m_insert_queue m \<and> m_insert_event ?m = m_insert_event m" by (rule queue_of_more) simp
  then show "(node_ok ctx ?m \<and> queue_ok now ?m) = (node_ok ctx m \<and> queue_ok now m)" "known ?m \<union> waiting ?m = known m \<union> waiting m"
    by (simp_all add: queue_ok_def waiting_def)
  have "m_insert_queue (nm_emit e m) = m_insert_queue m \<and> m_insert_event (nm_emit e m) = m_insert_event m"
    by (rule queue_of_more) simp
  then show "(node_ok ctx (nm_emit e m) \<and> queue_ok now (nm_emit e m)) = (node_ok ctx m \<and> queue_ok now m)"
    "known (nm_emit e m) \<union> waiting (nm_emit e m) = known m \<union> waiting m"
    by (simp_all add: queue_ok_def waiting_def)
qed


section \<open>When the operations succeed\<close>

lemma omap_put_same: "omap_ok m \<Longrightarrow> map_of m k = Some v \<Longrightarrow> omap_put k v m = m"
proof (induction m)
  case (Cons e es)
  show ?case
  proof (cases "fst e = k")
    case True
    then show ?thesis using Cons.prems by (cases e) simp
  next
    case False
    then have "map_of es k = Some v" using Cons.prems(2) by (cases e) auto
    moreover from this have "fst e < k" using Cons.prems(1) by (force dest: map_of_SomeD)
    ultimately show ?thesis using Cons False by simp
  qed
qed simp

text \<open>Every module of a node contains a vehicle sink, and the server answers for a vehicle.\<close>

definition sinks_exist :: "'r NodeContext \<Rightarrow> string \<Rightarrow> bool" where
  "sinks_exist ctx path \<longleftrightarrow>
     (\<forall>n. case ctx_moduleByPath ctx n path of None \<Rightarrow> False | Some md \<Rightarrow> ctx_isVehicleSink ctx md)"

definition server_knows :: "LiteAPI \<Rightarrow> string \<Rightarrow> bool" where
  "server_knows api v \<longleftrightarrow> is_ok (api_vehiclePosition api v) \<and> is_ok (api_vehicleAngle api v) \<and> is_ok (api_vehicleSpeed api v)"

lemma sinks_exist_ok: "sinks_exist ctx (m_vehicle_sink_module m) \<Longrightarrow> \<exists>s. getVehicleSink_module ctx n m = Inr s"
  by (auto simp: sinks_exist_def getVehicleSink_module_def split: option.splits dest: spec [of _ n])

lemma BasicNodeManager_addVehicle_total:
  assumes "sinks_exist ctx (m_vehicle_sink_module m)" and "server_knows api v"
  shows "\<exists>m'. BasicNodeManager_addVehicle ctx api v m = Inr m'"
proof -
  have "\<exists>m'. vehicle_initializer ctx api v n m1 = Inr m'"
    if m1: "m_vehicle_sink_module m1 = m_vehicle_sink_module m" for n and m1 :: "('a, 'b) BasicNodeManager_scheme"
  proof -
    obtain s where "getVehicleSink_module ctx n m1 = Inr s" using sinks_exist_ok [of ctx m1 n] assms(1) m1 by auto
    then show ?thesis
      using assms(2) by (auto simp: vehicle_initializer_def server_knows_def is_ok_iff Let_def case_prod_beta)
  qed
  then show ?thesis
    by (fastforce simp: BasicNodeManager_addVehicle_def addNodeModule_def createModule_def Let_def rmap_ok_iff case_prod_beta
      split: option.splits)
qed

lemma addVehicle_caches:
  assumes "BasicNodeManager_addVehicle ctx api v m = Inr m'" and "map_of (m_vehicle_caches (m_subscriptions m)) v = Some c"
  shows "m_subscriptions m' = m_subscriptions m"
proof -
  have g: "getVehicleCache v s = (c, s)" if "map_of (m_vehicle_caches s) v = Some c" for s
    using that by (simp add: getVehicleCache_def)
  have "m_subscriptions m2 = m_subscriptions m1"
    if "vehicle_initializer ctx api v n m1 = Inr m2" "m_subscriptions m1 = m_subscriptions m" for n and m1 m2 :: "('a, 'b) BasicNodeManager_scheme"
    using that assms(2) by (auto simp: vehicle_initializer_def g Let_def rbind_ok_iff)
  then show ?thesis
    using assms(1)
    by (fastforce simp: BasicNodeManager_addVehicle_def addNodeModule_def createModule_def Let_def rmap_ok_iff case_prod_beta
      split: option.splits)
qed

text \<open>The values of a vehicle that the server reports at each step.\<close>

definition reports :: "TraCIResults \<Rightarrow> TraCIPosition \<Rightarrow> real \<Rightarrow> real \<Rightarrow> bool" where
  "reports values pos angle speed \<longleftrightarrow> map_of values (var_code VAR_POSITION) = Some (TraCIResultPosition pos)
     \<and> map_of values (var_code VAR_ANGLE) = Some (TraCIDouble angle) \<and> map_of values (var_code VAR_SPEED) = Some (TraCIDouble speed)"

definition update_events :: "TraCIPosition \<Rightarrow> real \<Rightarrow> real \<Rightarrow> string \<Rightarrow> nat option \<Rightarrow> NodeEvent list" where
  "update_events pos angle speed v sink =
     UpdateVehicleSignal v # (case sink of None \<Rightarrow> [] | Some s \<Rightarrow> [SinkUpdate s pos angle speed])"

lemma update_reported:
  assumes "bsm_ok (m_subscriptions m)" and "map_of (m_vehicle_caches (m_subscriptions m)) v = Some c"
    and "reports (m_values c) pos angle speed"
  shows "BasicNodeManager_updateVehicle api v sink m = Inr (m\<lparr>nm_events := nm_events m @ update_events pos angle speed v sink\<rparr>)"
proof -
  have "omap_put v c (m_vehicle_caches (m_subscriptions m)) = m_vehicle_caches (m_subscriptions m)"
    using assms(1,2) by (intro omap_put_same) (auto simp: bsm_ok_def)
  then have same: "setVehicleCache v c (m_subscriptions m) = m_subscriptions m" by (simp add: setVehicleCache_def)
  have g: "getVehicleCache v (m_subscriptions m) = (c, m_subscriptions m)" using assms(2) by (simp add: getVehicleCache_def)
  show ?thesis
    using assms(3)
    by (cases sink) (simp_all add: BasicNodeManager_updateVehicle_def g reports_def get_cached same update_events_def nm_emit_def)
qed

lemma updates_reported:
  assumes "bsm_ok (m_subscriptions m)"
    and "\<And>v s. (v, s) \<in> set vs \<Longrightarrow> \<exists>c. map_of (m_vehicle_caches (m_subscriptions m)) v = Some c \<and> reports (m_values c) (pos v) (angle v) (speed v)"
  shows "rfold (\<lambda>(v, s). BasicNodeManager_updateVehicle api v s) vs m =
    Inr (m\<lparr>nm_events := nm_events m @ concat (map (\<lambda>(v, s). update_events (pos v) (angle v) (speed v) v s) vs)\<rparr>)"
  using assms
proof (induction vs arbitrary: m)
  case (Cons e vs)
  obtain v s where e: "e = (v, s)" by (cases e)
  obtain c where c: "map_of (m_vehicle_caches (m_subscriptions m)) v = Some c" "reports (m_values c) (pos v) (angle v) (speed v)"
    using Cons.prems(2) [of v s] e by auto
  let ?m = "m\<lparr>nm_events := nm_events m @ update_events (pos v) (angle v) (speed v) v s\<rparr>"
  have "rfold (\<lambda>(v, s). BasicNodeManager_updateVehicle api v s) vs ?m =
    Inr (?m\<lparr>nm_events := nm_events ?m @ concat (map (\<lambda>(v, s). update_events (pos v) (angle v) (speed v) v s) vs)\<rparr>)"
    by (rule Cons.IH) (use Cons.prems in \<open>auto simp: e\<close>)
  then show ?case using update_reported [OF Cons.prems(1) c, of api s] e by simp
qed simp


section \<open>Runs of delayed insertion\<close>

lemma handleMessage_ok:
  fixes m m' :: "('r, 'm) InsertionDelayNodeManager_scheme"
  assumes "node_ok ctx m" and "queue_ok t m" and "m_insert_queue m = (v, w) # q"
    and "InsertionDelayNodeManager_handleMessage ctx api t True m = Inr m'"
  shows "w = t \<and> node_ok ctx m' \<and> queue_ok t m' \<and> m_insert_queue m' = q \<and> known m' = insert v (known m)"
proof -
  obtain m1 m2 where w: "w = t" and m1: "BasicNodeManager_addVehicle ctx api v m = Inr m1"
    and m2: "BasicNodeManager_updateVehicle api v (getVehicleSink v m1) m1 = Inr m2"
    and s: "scheduleVehicleInsertion t (m2\<lparr>m_insert_queue := q\<rparr>) = Inr m'"
    using assms(3,4) by (auto simp: InsertionDelayNodeManager_handleMessage_def rbind_ok_iff split: if_splits)
  have a: "node_ok ctx m1 \<and> known m1 = insert v (known m)" using BasicNodeManager_addVehicle_ok [OF assms(1) m1] by blast
  have u: "node_ok ctx m2 \<and> known m2 = known m1" using BasicNodeManager_updateVehicle_ok [OF conjunct1 [OF a] m2] by (simp add: known_def)
  have "fst ` set q \<inter> known m2 = {}" using assms(2,3) a u by (auto simp: queue_ok_def)
  moreover have "sorted (map snd q)" "distinct (map fst q)" using assms(2,3) by (auto simp: queue_ok_def)
  moreover have "known m' = known m2" if "m_vehicles m' = m_vehicles (m2\<lparr>m_insert_queue := q\<rparr>)" using that by (simp add: known_def)
  ultimately show ?thesis using schedule_ok [OF s, of ctx] w a u by simp
qed

lemma queue_ok_later:
  assumes "queue_ok now m" and "now \<le> t" and "\<And>w. m_insert_event m = Some w \<Longrightarrow> t \<le> w"
  shows "queue_ok t m"
proof (cases "m_insert_queue m")
  case (Cons e q)
  then have "t \<le> snd e" using assms(1,3) by (simp add: queue_ok_def)
  then have "\<forall>e \<in> set (m_insert_queue m). t \<le> snd e" using assms(1) Cons by (auto simp: queue_ok_def)
  then show ?thesis using assms(1) by (simp add: queue_ok_def)
qed (use assms(1) in \<open>simp add: queue_ok_def\<close>)

datatype InsertionEvent = Departs string simtime | Arrives string | Inserts string

text \<open>The simulator handles events in the order of their times, so no event is handled after the time for which
  an insertion is scheduled while that insertion is still pending.\<close>

inductive insertion_step ::
    "'r NodeContext \<Rightarrow> simtime \<Rightarrow> 'r InsertionDelayNodeManager \<Rightarrow> simtime \<Rightarrow> InsertionEvent \<Rightarrow> 'r InsertionDelayNodeManager \<Rightarrow> bool"
  for ctx where
  departs: "now \<le> t \<Longrightarrow> (\<And>w. m_insert_event m = Some w \<Longrightarrow> t \<le> w) \<Longrightarrow> v \<notin> known m \<Longrightarrow> v \<notin> waiting m \<Longrightarrow>
    InsertionDelayNodeManager_addVehicle delay t v m = Inr m' \<Longrightarrow> insertion_step ctx now m t (Departs v delay) m'"
| arrives: "now \<le> t \<Longrightarrow> (\<And>w. m_insert_event m = Some w \<Longrightarrow> t \<le> w) \<Longrightarrow>
    InsertionDelayNodeManager_removeVehicle t v m = Inr m' \<Longrightarrow> insertion_step ctx now m t (Arrives v) m'"
| inserts: "m_insert_event m = Some t \<Longrightarrow> m_insert_queue m = (v, w) # q \<Longrightarrow>
    InsertionDelayNodeManager_handleMessage ctx api t True m = Inr m' \<Longrightarrow> insertion_step ctx now m t (Inserts v) m'"

inductive insertion_run ::
    "'r NodeContext \<Rightarrow> simtime \<Rightarrow> 'r InsertionDelayNodeManager \<Rightarrow> (simtime \<times> InsertionEvent) list \<Rightarrow> simtime \<Rightarrow>
     'r InsertionDelayNodeManager \<Rightarrow> bool" for ctx where
  finished: "insertion_run ctx now m [] now m"
| step: "insertion_step ctx now m t e m1 \<Longrightarrow> insertion_run ctx t m1 es t' m' \<Longrightarrow> insertion_run ctx now m ((t, e) # es) t' m'"

inductive_cases insertion_stepE: "insertion_step ctx now m t e m'"

lemma insertion_step_ok:
  assumes "insertion_step ctx now m t e m'" and "node_ok ctx m" and "queue_ok now m"
  shows "node_ok ctx m' \<and> queue_ok t m'"
  using assms(1)
proof cases
  case (departs v delay)
  have "queue_ok t m" using queue_ok_later assms(3) departs by blast
  then show ?thesis using delayed_add_ok [OF assms(2) _ departs(4,5,6)] by blast
next
  case (arrives v)
  have "queue_ok t m" using queue_ok_later assms(3) arrives by blast
  then show ?thesis using delayed_remove_ok [OF assms(2) _ arrives(4)] by blast
next
  case (inserts v w q api)
  have "now \<le> t" using inserts(2,3) assms(3) by (auto simp: queue_ok_def)
  from queue_ok_later [OF assms(3) this] have "queue_ok t m" using inserts(2) by simp
  then show ?thesis using handleMessage_ok [OF assms(2) _ inserts(3,4)] by blast
qed

text \<open>A vehicle that waits keeps its place until it arrives or is inserted, and it is inserted at its time.\<close>

lemma insertion_step_waiting:
  assumes "insertion_step ctx now m t e m'" and "node_ok ctx m" and "queue_ok now m" and "(v, w) \<in> set (m_insert_queue m)"
  shows "e = Arrives v \<or> (e = Inserts v \<and> t = w \<and> v \<in> known m') \<or> ((v, w) \<in> set (m_insert_queue m') \<and> t \<le> w)"
  using assms(1)
proof cases
  case (departs u delay)
  have q: "queue_ok t m" using queue_ok_later assms(3) departs by blast
  then have "t \<le> w" using assms(4) by (fastforce simp: queue_ok_def)
  then show ?thesis using delayed_add_ok [OF assms(2) q departs(4,5,6)] assms(4) by simp
next
  case (arrives u)
  have q: "queue_ok t m" using queue_ok_later assms(3) arrives by blast
  show ?thesis
  proof (cases "u = v")
    case False
    have "(v, w) \<in> set (m_insert_queue m')"
    proof (cases "u \<in> waiting m")
      case True
      then have "m_insert_queue m' = filter (\<lambda>e. fst e \<noteq> u) (m_insert_queue m)"
        using arrives(4) by (auto simp: InsertionDelayNodeManager_removeVehicle_def waiting_def scheduleVehicleInsertion_def
          split: list.splits if_splits)
      then show ?thesis using assms(4) False by auto
    next
      case False
      then have "m' = BasicNodeManager_removeVehicle u m"
        using arrives(4) by (simp add: InsertionDelayNodeManager_removeVehicle_def waiting_def)
      then show ?thesis using queue_of_more [OF more_remove [of u m]] assms(4) by simp
    qed
    moreover have "t \<le> w" using q assms(4) by (fastforce simp: queue_ok_def)
    ultimately show ?thesis by simp
  qed (use arrives in simp)
next
  case (inserts u k q api)
  have "now \<le> t" using inserts(2,3) assms(3) by (auto simp: queue_ok_def)
  from queue_ok_later [OF assms(3) this] have qk: "queue_ok t m" using inserts(2) by simp
  have h: "k = t" "queue_ok t m'" "m_insert_queue m' = q" "known m' = insert u (known m)"
    using handleMessage_ok [OF assms(2) qk inserts(3,4)] by blast+
  moreover have "t \<le> w" using qk assms(4) by (fastforce simp: queue_ok_def)
  ultimately show ?thesis using assms(4) inserts(1,3) by auto
qed

lemma insertion_run_ok: "insertion_run ctx now m es t' m' \<Longrightarrow> node_ok ctx m \<Longrightarrow> queue_ok now m \<Longrightarrow> node_ok ctx m' \<and> queue_ok t' m'"
  by (induction rule: insertion_run.induct) (auto dest: insertion_step_ok)

lemma insertion_run_waiting:
  "insertion_run ctx now m es t' m' \<Longrightarrow> node_ok ctx m \<Longrightarrow> queue_ok now m \<Longrightarrow> (v, w) \<in> set (m_insert_queue m) \<Longrightarrow>
     (\<exists>t. (t, Arrives v) \<in> set es) \<or> (w, Inserts v) \<in> set es \<or> ((v, w) \<in> set (m_insert_queue m') \<and> t' \<le> w)"
proof (induction rule: insertion_run.induct)
  case (finished now m)
  then show ?case by (fastforce simp: queue_ok_def)
next
  case (step now m t e m1 es t' m')
  have ok: "node_ok ctx m1" "queue_ok t m1" using insertion_step_ok [OF step.hyps(1) step.prems(1,2)] by auto
  from insertion_step_waiting [OF step.hyps(1) step.prems] step.IH [OF ok] show ?case by auto
qed


section \<open>Properties\<close>

text \<open>C32: With delayed insertion, whatever other vehicles depart, arrive or are inserted meanwhile, a vehicle that
  is due at time \<open>w\<close> arrives before it is inserted, or is inserted exactly at \<open>w\<close>, or still waits and \<open>w\<close> has
  not passed; and the manager stays well formed: no vehicle waits twice or after its insertion, the
  event is scheduled for the next insertion, and every sink belongs to a node that exists.\<close>

theorem insertion_on_time:
  assumes "insertion_run ctx now m es t' m'" and "node_ok ctx m" and "queue_ok now m" and "(v, w) \<in> set (m_insert_queue m)"
  shows "node_ok ctx m' \<and> queue_ok t' m'
    \<and> ((\<exists>t. (t, Arrives v) \<in> set es) \<or> (w, Inserts v) \<in> set es \<or> ((v, w) \<in> set (m_insert_queue m') \<and> t' \<le> w))"
  using insertion_run_ok [OF assms(1-3)] insertion_run_waiting [OF assms] by blast

text \<open>The insertion event: none of the handler's assertions fails and the vehicle that is due becomes known, with
  its node, and no longer waits, provided that the server answers for it and that nodes contain a sink.\<close>

theorem insertion_event_succeeds:
  fixes m :: "('r, 'm) InsertionDelayNodeManager_scheme"
  assumes "node_ok ctx m" and "queue_ok t m" and "m_insert_event m = Some t"
    and "sinks_exist ctx (m_vehicle_sink_module m)" and "\<And>v. v \<in> waiting m \<Longrightarrow> server_knows api v"
    and "\<And>v. v \<in> waiting m \<Longrightarrow> \<exists>c pos angle speed. map_of (m_vehicle_caches (m_subscriptions m)) v = Some c
      \<and> reports (m_values c) pos angle speed"
  shows "\<exists>v m'. InsertionDelayNodeManager_handleMessage ctx api t True m = Inr m' \<and> m_insert_queue m = (v, t) # m_insert_queue m'
    \<and> known m' = insert v (known m) \<and> node_ok ctx m' \<and> queue_ok t m'"
proof -
  obtain v q where q: "m_insert_queue m = (v, t) # q"
    using assms(2,3) by (auto simp: queue_ok_def split: list.splits)
  then have v: "v \<in> waiting m" by (simp add: waiting_def)
  obtain m1 where m1: "BasicNodeManager_addVehicle ctx api v m = Inr m1"
    using BasicNodeManager_addVehicle_total [OF assms(4) assms(5) [OF v]] by blast
  obtain c pos angle speed where c: "map_of (m_vehicle_caches (m_subscriptions m)) v = Some c" "reports (m_values c) pos angle speed"
    using assms(6) [OF v] by blast
  have sub: "m_subscriptions m1 = m_subscriptions m" using addVehicle_caches [OF m1 c(1)] .
  have "bsm_ok (m_subscriptions m1)" using assms(1) by (simp add: sub node_ok_def)
  note u = update_reported [OF this, of v c pos angle speed api "getVehicleSink v m1", unfolded sub, OF c]
  have "\<exists>m'. InsertionDelayNodeManager_handleMessage ctx api t True m = Inr m'"
    using assms(2) q by (auto simp: InsertionDelayNodeManager_handleMessage_def m1 u queue_ok_def intro!: schedule_total)
  then obtain m' where m': "InsertionDelayNodeManager_handleMessage ctx api t True m = Inr m'" by blast
  from handleMessage_ok [OF assms(1,2) q m'] m' q show ?thesis by auto
qed

text \<open>When the connection to the traffic simulator closes, every node is removed, in the order of the vehicles'
  identifiers, and announced exactly once.\<close>

lemma close_nodes_all:
  assumes "omap_ok (m_nodes m)"
  shows "close_nodes (length (m_nodes m)) m =
    m\<lparr>m_nodes := [], nm_events := nm_events m @ map (\<lambda>(v, n). RemoveNodeSignal v n) (m_nodes m)\<rparr>"
  using assms
proof (induction "m_nodes m" arbitrary: m)
  case Nil
  then show ?case by (metis (no_types, lifting) BasicNodeManager.surjective BasicNodeManager.update_convs(4,9) append_Nil2 close_nodes.simps(1) list.map(1) list.size(3))
next
  case (Cons e ns)
  obtain v n where e: "e = (v, n)" by (cases e)
  let ?m = "m\<lparr>m_nodes := ns, nm_events := nm_events m @ [RemoveNodeSignal v n]\<rparr>"
  have ns: "m_nodes m = (v, n) # ns" using Cons.hyps(2) e by simp
  have "omap_del v (m_nodes m) = ns"
    using Cons.prems ns by (auto simp: omap_del_def intro!: filter_True)
  then have r: "removeNodeModule v m = ?m" using ns by (simp add: removeNodeModule_def getNodeModule_def nm_emit_def)
  have "close_nodes (length (m_nodes ?m)) ?m =
    ?m\<lparr>m_nodes := [], nm_events := nm_events ?m @ map (\<lambda>(v, n). RemoveNodeSignal v n) (m_nodes ?m)\<rparr>"
    by (rule Cons.hyps(1)) (use Cons.prems ns in simp_all)
  then show ?case using ns r by simp
qed

theorem traciClose_removes_all:
  assumes "node_ok ctx m"
  shows "m_nodes (BasicNodeManager_traciClose m) = [] \<and> getNumberOfNodes (BasicNodeManager_traciClose m) = 0
    \<and> nm_events (BasicNodeManager_traciClose m) = nm_events m @ map (\<lambda>(v, n). RemoveNodeSignal v n) (m_nodes m)"
  using assms by (simp add: BasicNodeManager_traciClose_def node_ok_def close_nodes_all getNumberOfNodes_def)

section \<open>Examples\<close>

definition car_context :: "unit NodeContext" where
  "car_context = \<lparr>ctx_mapper = \<lambda>v r. (Some ''Car'', r), ctx_moduleByPath = \<lambda>n path. Some (unat (mod_index n)),
     ctx_isVehicleSink = \<lambda>s. True\<rparr>"

definition empty_manager :: "unit InsertionDelayNodeManager" where
  "empty_manager =
     \<lparr>m_boundary = \<lparr>boundary_positions = api_netBoundary example_api\<rparr>, m_subscriptions = BasicSubscriptionManager_new,
      m_nodeIndex = 0, m_nodes = [], m_vehicles = [], m_vehicle_sink_module = ''mobility'', m_destroy_vehicles_on_crash = False,
      m_mapper_state = (), nm_events = [], m_insert_queue = [(''b'', 15)], m_insert_event = Some 15\<rparr>"

lemma empty_manager_ok: "node_ok ctx empty_manager" "queue_ok 5 empty_manager" "queue_ok 15 empty_manager"
  by (simp_all add: node_ok_def queue_ok_def empty_manager_def known_def)

lemma example_insertion:
  obtains m' where "InsertionDelayNodeManager_handleMessage car_context example_api 15 True empty_manager = Inr m'"
  by (simp add: InsertionDelayNodeManager_handleMessage_def BasicNodeManager_addVehicle_def addNodeModule_def createModule_def
    vehicle_initializer_def getVehicleSink_module_def BasicNodeManager_updateVehicle_def getVehicleSink_def getVehicleCache_def
    setVehicleCache_def VariableCache_get_as_def VariableCache_get_def VariableCache_getPtr_def VariableCache_retrieve_def
    dynamic_pointer_cast_def VehicleCache_new_def scheduleVehicleInsertion_def nm_emit_def
    empty_manager_def car_context_def example_api_def BasicSubscriptionManager_new_def Let_def)

theorem insertion_on_time_witness:
  "\<exists>m'. insertion_run car_context 5 empty_manager [(15, Inserts ''b'')] 15 m' \<and> node_ok car_context m' \<and> queue_ok 15 m'"
proof -
  obtain m' where h: "InsertionDelayNodeManager_handleMessage car_context example_api 15 True empty_manager = Inr m'"
    by (rule example_insertion)
  have "insertion_step car_context 5 empty_manager 15 (Inserts ''b'') m'"
    by (rule insertion_step.inserts [OF _ _ h]) (simp_all add: empty_manager_def)
  from insertion_run.step [OF this insertion_run.finished]
  have r: "insertion_run car_context 5 empty_manager [(15, Inserts ''b'')] 15 m'" .
  have "(''b'', 15) \<in> set (m_insert_queue empty_manager)" by (simp add: empty_manager_def)
  from insertion_on_time [OF r empty_manager_ok(1,2) this] r show ?thesis by blast
qed

definition waiting_manager :: "unit InsertionDelayNodeManager" where
  "waiting_manager = empty_manager\<lparr>m_subscriptions := BasicSubscriptionManager_new\<lparr>m_vehicle_caches :=
     [(''b'', \<lparr>vc_id = ''b'', vc_command = 0xa4, m_values = api_vehicleResults example_api ''b''\<rparr>)]\<rparr>\<rparr>"

theorem insertion_event_succeeds_witness:
  "\<exists>v m'. InsertionDelayNodeManager_handleMessage car_context example_api 15 True waiting_manager = Inr m'
     \<and> m_insert_queue waiting_manager = (v, 15) # m_insert_queue m' \<and> known m' = insert v (known waiting_manager)"
proof -
  have "\<exists>v m'. InsertionDelayNodeManager_handleMessage car_context example_api 15 True waiting_manager = Inr m'
     \<and> m_insert_queue waiting_manager = (v, 15) # m_insert_queue m' \<and> known m' = insert v (known waiting_manager)
     \<and> node_ok car_context m' \<and> queue_ok 15 m'"
  proof (rule insertion_event_succeeds)
    show "node_ok car_context waiting_manager" "queue_ok 15 waiting_manager" "m_insert_event waiting_manager = Some 15"
      by (auto simp: node_ok_def queue_ok_def waiting_manager_def empty_manager_def known_def bsm_ok_def BasicSubscriptionManager_new_def
        split: if_splits)
    show "sinks_exist car_context (m_vehicle_sink_module waiting_manager)" by (simp add: sinks_exist_def car_context_def)
    fix v assume "v \<in> waiting waiting_manager"
    then have v: "v = ''b''" by (simp add: waiting_def waiting_manager_def empty_manager_def)
    show "server_knows example_api v" by (simp add: server_knows_def example_api_def)
    show "\<exists>c pos angle speed. map_of (m_vehicle_caches (m_subscriptions waiting_manager)) v = Some c \<and> reports (m_values c) pos angle speed"
      unfolding v by (simp add: waiting_manager_def reports_def example_api_def)
  qed
  then show ?thesis by blast
qed

definition closing_manager :: "unit BasicNodeManager" where
  "closing_manager =
     \<lparr>m_boundary = \<lparr>boundary_positions = []\<rparr>, m_subscriptions = BasicSubscriptionManager_new, m_nodeIndex = 1,
      m_nodes = [(''a'', \<lparr>mod_type = ''Car'', mod_index = 0\<rparr>)], m_vehicles = [(''a'', Some 0)],
      m_vehicle_sink_module = ''mobility'', m_destroy_vehicles_on_crash = False, m_mapper_state = (), nm_events = []\<rparr>"

theorem traciClose_removes_all_witness:
  "m_nodes (BasicNodeManager_traciClose closing_manager) = []
   \<and> nm_events (BasicNodeManager_traciClose closing_manager) = [RemoveNodeSignal ''a'' \<lparr>mod_type = ''Car'', mod_index = 0\<rparr>]"
proof -
  have "node_ok car_context closing_manager"
    by (simp add: node_ok_def closing_manager_def known_def getVehicleSink_module_def car_context_def)
  from traciClose_removes_all [OF this] show ?thesis by (simp add: closing_manager_def)
qed

end
