(* ===== verification/TraciCore.thy ===== *)
theory TraciCore
  imports TraciNodes
begin

text \<open>
  \<open>src/traci/Core\<close>, the connection \<open>API::connect\<close> and the module mappers (\<open>BasicModuleMapper\<close>,
  \<open>MultiTypeModuleMapper\<close>, \<open>TestbedModuleMapper\<close>): connecting to the server, checking its version, and one step
  of the traffic simulation through subscription manager and node manager.  The random number generator
  is a state with the function \<open>uniform\<close>; an attempt to connect succeeds or not as \<open>attempt\<close> says.
\<close>

section \<open>Module mappers\<close>

record BasicModuleMapper =
  bmm_type :: string
  m_penetration :: real

definition equipVehicle :: "(real \<Rightarrow> real \<Rightarrow> 'r \<Rightarrow> real \<times> 'r) \<Rightarrow> BasicModuleMapper \<Rightarrow> 'r \<Rightarrow> bool \<times> 'r" where
  "equipVehicle uniform p r = (let (dice, r) = uniform 0 1 r in (dice < m_penetration p, r))"

definition BasicModuleMapper_vehicle ::
    "(real \<Rightarrow> real \<Rightarrow> 'r \<Rightarrow> real \<times> 'r) \<Rightarrow> BasicModuleMapper \<Rightarrow> string \<Rightarrow> 'r \<Rightarrow> string option \<times> 'r" where
  "BasicModuleMapper_vehicle uniform p vid r =
     (let (equip, r) = equipVehicle uniform p r in (if equip then Some (bmm_type p) else None, r))"

definition TestbedModuleMapper_vehicle ::
    "string \<Rightarrow> string \<Rightarrow> (real \<Rightarrow> real \<Rightarrow> 'r \<Rightarrow> real \<times> 'r) \<Rightarrow> BasicModuleMapper \<Rightarrow> string \<Rightarrow> 'r \<Rightarrow> string option \<times> 'r" where
  "TestbedModuleMapper_vehicle twinId twinType uniform p vid r =
     (if twinId = vid then (Some twinType, r) else BasicModuleMapper_vehicle uniform p vid r)"

record MultiTypeModuleMapper =
  mCdfValue :: real
  mVehicleTypes :: "(string \<times> real) list"

fun parse_vehicle_tags ::
    "(string \<Rightarrow> string result) \<Rightarrow> (string \<Rightarrow> real result) \<Rightarrow> cXMLElement list \<Rightarrow> MultiTypeModuleMapper \<Rightarrow> MultiTypeModuleMapper result" where
  "parse_vehicle_tags get lexical_cast [] p = Inr p"
| "parse_vehicle_tags get lexical_cast (vehicleTag # tags) p =
     (case getAttribute vehicleTag ''type'' of
        None \<Rightarrow> Inl (RuntimeError ''missing 'type' attribute in 'vehicle' tag'')
      | Some typeString \<Rightarrow>
          rbind (get typeString) (\<lambda>type.
            case getAttribute vehicleTag ''rate'' of
              None \<Rightarrow> Inl (RuntimeError ''missing 'rate' attribute in 'vehicle' tag'')
            | Some rateAttribute \<Rightarrow>
                rbind (lexical_cast rateAttribute) (\<lambda>rate.
                  let cdf = mCdfValue p + rate
                  in parse_vehicle_tags get lexical_cast tags
                       (p\<lparr>mCdfValue := cdf, mVehicleTypes := mVehicleTypes p @ [(type, cdf)]\<rparr>))))"

definition parseVehicleTypes ::
    "(string \<Rightarrow> string result) \<Rightarrow> (string \<Rightarrow> real result) \<Rightarrow> cXMLElement \<Rightarrow> MultiTypeModuleMapper result" where
  "parseVehicleTypes get lexical_cast vehicleTypes =
     parse_vehicle_tags get lexical_cast (getChildrenByTagName vehicleTypes ''vehicle'') \<lparr>mCdfValue = 0, mVehicleTypes = []\<rparr>"

fun first_type :: "real \<Rightarrow> (string \<times> real) list \<Rightarrow> string option" where
  "first_type dice [] = None"
| "first_type dice ((type, cdf) # types) = (if dice < cdf then Some type else first_type dice types)"

definition MultiTypeModuleMapper_vehicle ::
    "(real \<Rightarrow> real \<Rightarrow> 'r \<Rightarrow> real \<times> 'r) \<Rightarrow> MultiTypeModuleMapper \<Rightarrow> string \<Rightarrow> 'r \<Rightarrow> string option \<times> 'r" where
  "MultiTypeModuleMapper_vehicle uniform p vid r =
     (let (dice, r) = uniform 0 (mCdfValue p) r in (first_type dice (mVehicleTypes p), r))"

section \<open>Connecting\<close>

text \<open>\<open>connect\<close> returns with the pauses in milliseconds it has made; after the last attempt the exception of
  the socket is thrown on.  \<open>attempt i\<close> is the outcome of attempt \<open>i\<close>, counted from 0.\<close>

function connect_loop :: "(nat \<Rightarrow> bool) \<Rightarrow> nat \<Rightarrow> nat \<Rightarrow> nat \<Rightarrow> nat list \<Rightarrow> nat list result" where
  "connect_loop attempt max_tries tries sleep slept =
     (if attempt tries then Inr slept
      else if Suc tries < max_tries then connect_loop attempt max_tries (Suc tries) (sleep * 2) (slept @ [sleep])
      else Inl (RuntimeError ''SocketException''))"
  by pat_completeness auto
termination
  by (relation "measure (\<lambda>(attempt, max_tries, tries, sleep, slept). max_tries - tries)") auto

declare connect_loop.simps [simp del]

definition API_connect :: "(nat \<Rightarrow> bool) \<Rightarrow> bool \<Rightarrow> nat list result" where
  "API_connect attempt retry = connect_loop attempt (if retry then 10 else 0) 0 500 []"

definition TRACI_VERSION :: int where "TRACI_VERSION = 20"

definition Core_checkVersion :: "int \<Rightarrow> int \<Rightarrow> unit result" where
  "Core_checkVersion version actual =
     (let expected = (if version = 0 then TRACI_VERSION else version)
      in if actual < 18 then Inl (RuntimeError ''Version of TraCI server is too old'')
         else if expected < 0 then Inr ()
         else if expected \<noteq> actual then Inl (RuntimeError ''TraCI server version mismatch'')
         else Inr ())"

text \<open>The time up to which the server is stepped before the first signal, if any.\<close>

definition Core_syncTime :: "simtime \<Rightarrow> real option" where
  "Core_syncTime now = (if now \<noteq> 0 then Some (simtime_dbl now) else None)"

section \<open>The core\<close>

record Core =
  core_connectEvent :: "simtime option"
  core_updateEvent :: "simtime option"
  core_updateInterval :: simtime
  core_stopping :: bool
  core_subscriptions :: bool

definition Core_initialize :: "simtime \<Rightarrow> bool \<Rightarrow> bool \<Rightarrow> Core" where
  "Core_initialize startTime selfStopping subscriptions =
     \<lparr>core_connectEvent = Some startTime, core_updateEvent = None, core_updateInterval = 0, core_stopping = selfStopping,
      core_subscriptions = subscriptions\<rparr>"


definition Core_handleConnect ::
    "(nat \<Rightarrow> bool) \<Rightarrow> bool \<Rightarrow> int \<Rightarrow> int \<Rightarrow> simtime \<Rightarrow> (('r, 'm) BasicNodeManager_scheme \<Rightarrow> ('r, 'm) BasicNodeManager_scheme result) \<Rightarrow>
     simtime \<Rightarrow> Core \<Rightarrow> ('r, 'm) BasicNodeManager_scheme \<Rightarrow> (Core \<times> ('r, 'm) BasicNodeManager_scheme) result" where
  "Core_handleConnect attempt retry version actual deltaT traciInit now core m =
     rbind (API_connect attempt retry) (\<lambda>slept.
     rbind (Core_checkVersion version actual) (\<lambda>u.
     rbind (traciInit m) (\<lambda>m.
       Inr (core\<lparr>core_connectEvent := None, core_updateInterval := deltaT, core_updateEvent := Some (now + deltaT)\<rparr>, m))))"


section \<open>Lemmas on the mappers and on connecting\<close>

lemma connect_loop_correct:
  assumes "tries < n" and "n = max max_tries (Suc tries)"
  shows "(case connect_loop attempt max_tries tries sleep slept of
      Inr pauses \<Rightarrow> (\<exists>k. tries + k < n \<and> attempt (tries + k) \<and> (\<forall>j < k. \<not> attempt (tries + j))
        \<and> pauses = slept @ map (\<lambda>j. sleep * 2 ^ j) [0..<k])
    | Inl e \<Rightarrow> e = RuntimeError ''SocketException'' \<and> (\<forall>i. tries \<le> i \<and> i < n \<longrightarrow> \<not> attempt i))"
  using assms
proof (induction attempt max_tries tries sleep slept rule: connect_loop.induct)
  case (1 attempt max_tries tries sleep slept)
  consider "attempt tries" | "\<not> attempt tries" "Suc tries < max_tries" | "\<not> attempt tries" "\<not> Suc tries < max_tries" by blast
  then show ?case
  proof cases
    case 1
    then show ?thesis using "1.prems" by (subst connect_loop.simps) (auto intro: exI [of _ 0])
  next
    case 2
    let ?r = "connect_loop attempt max_tries (Suc tries) (sleep * 2) (slept @ [sleep])"
    have step: "connect_loop attempt max_tries tries sleep slept = ?r" using 2 by (subst connect_loop.simps) simp
    have prem: "Suc tries < n" "n = max max_tries (Suc (Suc tries))" using 2 "1.prems" by auto
    note IH = "1.IH" [OF 2 prem]
    show ?thesis
    proof (cases ?r)
      case (Inl e)
      have "\<not> attempt i" if "tries \<le> i" "i < n" for i
        using IH Inl 2(1) that by (cases "i = tries") auto
      then show ?thesis using IH Inl step by auto
    next
      case (Inr pauses)
      obtain k where k: "Suc tries + k < n" "attempt (Suc tries + k)" "\<forall>j < k. \<not> attempt (Suc tries + j)"
        "pauses = (slept @ [sleep]) @ map (\<lambda>j. (sleep * 2) * 2 ^ j) [0..<k]" using IH Inr by auto
      have first: "\<forall>j < Suc k. \<not> attempt (tries + j)"
        using k(3) 2(1) by (auto simp: less_Suc_eq_0_disj)
      have "map (\<lambda>j. sleep * 2 ^ j) [0..<Suc k] = sleep # map (\<lambda>j. (sleep * 2) * 2 ^ j) [0..<k]"
        unfolding upt_conv_Cons [OF zero_less_Suc] map_Suc_upt [symmetric] by (simp add: mult.assoc)
      then have "pauses = slept @ map (\<lambda>j. sleep * 2 ^ j) [0..<Suc k]" using k(4) by (simp del: upt_Suc)
      then show ?thesis using k(1,2) first step Inr by (auto simp del: upt_Suc intro!: exI [of _ "Suc k"])
    qed
  next
    case 3
    then have "n = Suc tries" using "1.prems" by auto
    with 3 show ?thesis by (subst connect_loop.simps) (auto simp: less_Suc_eq)
  qed
qed

text \<open>A tag names a vehicle type and its rate.\<close>

definition vehicle_tag :: "(string \<Rightarrow> string result) \<Rightarrow> (string \<Rightarrow> real result) \<Rightarrow> cXMLElement \<Rightarrow> string \<times> real \<Rightarrow> bool" where
  "vehicle_tag get lexical_cast tag e \<longleftrightarrow>
     (\<exists>s a. getAttribute tag ''type'' = Some s \<and> get s = Inr (fst e) \<and> getAttribute tag ''rate'' = Some a \<and> lexical_cast a = Inr (snd e))"

fun cumulated :: "real \<Rightarrow> (string \<times> real) list \<Rightarrow> (string \<times> real) list" where
  "cumulated c [] = []"
| "cumulated c ((type, rate) # es) = (type, c + rate) # cumulated (c + rate) es"

lemma parse_vehicle_tags_correct:
  assumes "list_all2 (vehicle_tag get lexical_cast) tags es"
  shows "parse_vehicle_tags get lexical_cast tags p =
    Inr (p\<lparr>mCdfValue := mCdfValue p + sum_list (map snd es), mVehicleTypes := mVehicleTypes p @ cumulated (mCdfValue p) es\<rparr>)"
  using assms
proof (induction tags es arbitrary: p rule: list_all2_induct)
  case (Cons tag tags e es)
  then show ?case by (cases e) (auto simp: vehicle_tag_def Let_def add.assoc)
qed simp

lemma first_type_cumulated:
  assumes "i < length es" and "\<forall>e \<in> set es. 0 \<le> snd e"
    and "c + sum_list (map snd (take i es)) \<le> dice" and "dice < c + sum_list (map snd (take (Suc i) es))"
  shows "first_type dice (cumulated c es) = Some (fst (es ! i))"
  using assms
proof (induction es arbitrary: c i)
  case (Cons e es)
  obtain ty rate where e: "e = (ty, rate)" by (cases e)
  show ?case
  proof (cases i)
    case 0
    then show ?thesis using Cons.prems e by simp
  next
    case (Suc j)
    have "0 \<le> sum_list (map snd (take j es))" using Cons.prems(2) by (intro sum_list_nonneg) (auto dest: in_set_takeD)
    then have "\<not> dice < c + rate" using Cons.prems(3) Suc e by simp
    then show ?thesis using Cons.IH [of j "c + rate"] Cons.prems Suc e by (simp add: add.assoc)
  qed
qed simp

section \<open>Properties\<close>

text \<open>C33: Connecting always comes to an end: with retries it returns if one of the first ten attempts succeeds, after
  pauses of half a second that double each time, and otherwise throws the socket's exception; without
  retries there is a single attempt.\<close>

theorem API_connect_correct:
  "case API_connect attempt retry of
     Inr pauses \<Rightarrow> (\<exists>k. k < (if retry then 10 else 1) \<and> attempt k \<and> (\<forall>j < k. \<not> attempt j)
       \<and> pauses = map (\<lambda>j. 500 * 2 ^ j) [0..<k])
   | Inl e \<Rightarrow> e = RuntimeError ''SocketException'' \<and> (\<forall>i < (if retry then 10 else 1). \<not> attempt i)"
proof (cases retry)
  case True
  show ?thesis using connect_loop_correct [where tries = 0 and n = 10 and max_tries = 10 and attempt = attempt and sleep = 500 and slept = "[]"] True
    by (simp add: API_connect_def split: sum.splits)
next
  case False
  show ?thesis using connect_loop_correct [where tries = 0 and n = 1 and max_tries = 0 and attempt = attempt and sleep = 500 and slept = "[]"] False
    by (auto simp: API_connect_def split: sum.splits)
qed

theorem API_connect_correct_witness:
  "API_connect (\<lambda>i. i = 2) True = Inr [500, 1000]"
proof -
  have c: "case API_connect (\<lambda>i. i = 2) True of
     Inr pauses \<Rightarrow> (\<exists>k. k < (if True then 10 else 1) \<and> k = 2 \<and> (\<forall>j < k. \<not> j = 2) \<and> pauses = map (\<lambda>j. 500 * 2 ^ j) [0..<k])
   | Inl e \<Rightarrow> e = RuntimeError ''SocketException'' \<and> (\<forall>i < (if True then 10 else 1). \<not> i = (2 :: nat))"
    by (rule API_connect_correct)
  show ?thesis
  proof (cases "API_connect (\<lambda>i. i = 2) True")
    case (Inl e)
    then have "\<forall>i < 10. i \<noteq> (2 :: nat)" using c by simp
    then show ?thesis by (auto dest: spec [of _ 2])
  next
    case (Inr pauses)
    then show ?thesis using c by (auto simp: upt_rec)
  qed
qed

text \<open>The mapper of several vehicle types picks a type in proportion to its rate: a number drawn uniformly from
  zero to the sum of the rates falls into the interval of exactly that type.\<close>

theorem MultiTypeModuleMapper_proportional:
  assumes "list_all2 (vehicle_tag get lexical_cast) (getChildrenByTagName x ''vehicle'') es"
    and "\<forall>e \<in> set es. 0 \<le> snd e" and "i < length es" and "uniform 0 (sum_list (map snd es)) r = (dice, r')"
    and "sum_list (map snd (take i es)) \<le> dice" and "dice < sum_list (map snd (take (Suc i) es))"
  shows "\<exists>p. parseVehicleTypes get lexical_cast x = Inr p \<and> MultiTypeModuleMapper_vehicle uniform p v r = (Some (fst (es ! i)), r')"
  using parse_vehicle_tags_correct [OF assms(1)] first_type_cumulated [OF assms(3,2), of 0 dice] assms(4-6)
  by (simp add: parseVehicleTypes_def MultiTypeModuleMapper_vehicle_def)

definition vehicle_types_xml :: cXMLElement where
  "vehicle_types_xml =
     XMLElement ''vehicles'' (\<lambda>a. None)
       (\<lambda>t. if t = ''vehicle'' then
          [XMLElement ''vehicle'' ([''type'' \<mapsto> ''Car'', ''rate'' \<mapsto> ''3'']) (\<lambda>t. []) (\<lambda>t. None),
           XMLElement ''vehicle'' ([''type'' \<mapsto> ''Bus'', ''rate'' \<mapsto> ''1'']) (\<lambda>t. []) (\<lambda>t. None)] else []) (\<lambda>t. None)"

theorem MultiTypeModuleMapper_proportional_witness:
  "\<exists>p. parseVehicleTypes Inr (\<lambda>s. Inr (if s = ''3'' then 3 else 1)) vehicle_types_xml = Inr p
     \<and> MultiTypeModuleMapper_vehicle (\<lambda>a b r. ((a + b) * 7 / 8, r)) p ''v'' () = (Some ''Bus'', ())"
  using MultiTypeModuleMapper_proportional [of Inr "\<lambda>s. Inr (if s = ''3'' then 3 else 1)" vehicle_types_xml
      "[(''Car'', 3), (''Bus'', 1)]" 1 "\<lambda>a b r. ((a + b) * 7 / 8, r)" "()" "7 / 2" "()" "''v''"]
  by (simp add: vehicle_types_xml_def vehicle_tag_def)


section \<open>One step of the traffic simulation\<close>


text \<open>Events that do not call a sink's update.\<close>

fun is_sink_update :: "NodeEvent \<Rightarrow> bool" where
  "is_sink_update (SinkUpdate s p a sp) = True"
| "is_sink_update e = False"

definition quiet :: "('r, 'm) BasicNodeManager_scheme \<Rightarrow> ('r, 'm) BasicNodeManager_scheme \<Rightarrow> bool" where
  "quiet m m' \<longleftrightarrow> (\<exists>es. nm_events m' = nm_events m @ es \<and> \<not> list_ex is_sink_update es)"

lemma quiet_refl [simp]: "quiet m m"
  by (simp add: quiet_def)


lemma quiet_emit: "\<not> is_sink_update e \<Longrightarrow> quiet m (nm_emit e m)"
  by (simp add: quiet_def)

lemma quiet_cong: "nm_events m2 = nm_events m1 \<Longrightarrow> quiet m m1 \<Longrightarrow> quiet m m2"
  by (simp add: quiet_def)
















end
