(* ===== verification/EnvObjects.thy ===== *)
theory EnvObjects
  imports VehicleData "HOL-Library.Multiset"
begin

text \<open>
  \<open>artery/envmod\<close>, geometry: the objects of the environment model (\<open>EnvironmentModelObject\<close>) with their outline and
  the points where sensors are attached, sensor positions, and the cone a radar sensor covers
  (\<open>sensor/SensorConfiguration\<close>).  The transformers and predicates of the geometry library are the record
  \<open>Geometry\<close>; what the code relies on is \<open>geometry_laws\<close>.  A pointer is an address, the null pointer 0.
\<close>

section \<open>The geometry library\<close>

type_synonym Point = "real \<times> real"

record Geometry =
  g_scale :: "real \<Rightarrow> real \<Rightarrow> Point \<Rightarrow> Point"
  g_rotate :: "real \<Rightarrow> Point \<Rightarrow> Point"
  g_rotate_deg :: "real \<Rightarrow> Point \<Rightarrow> Point"
  g_translate :: "real \<Rightarrow> real \<Rightarrow> Point \<Rightarrow> Point"
  g_covered_by :: "Point \<Rightarrow> Point list \<Rightarrow> bool"
  g_crosses :: "Point \<times> Point \<Rightarrow> Point list \<Rightarrow> bool"
  g_line_intersects :: "Point \<times> Point \<Rightarrow> Point list \<Rightarrow> bool"
  g_intersects :: "Point list \<Rightarrow> Point list \<Rightarrow> bool"
  g_is_valid :: "Point list \<Rightarrow> bool"
  g_envelope :: "Point list \<Rightarrow> Point \<times> Point"
  g_box_intersects :: "Point \<times> Point \<Rightarrow> Point list \<Rightarrow> bool"
  g_rtree_query :: "((Point \<times> Point) \<times> string) list \<Rightarrow> Point list \<Rightarrow> ((Point \<times> Point) \<times> string) list"
  g_correct :: "Point list \<Rightarrow> Point list"

text \<open>Scaling and translation act on the coordinates; rotations about the origin keep distances and add up.\<close>

definition geometry_laws :: "Geometry \<Rightarrow> bool" where
  "geometry_laws g \<longleftrightarrow>
     (\<forall>sx sy p. g_scale g sx sy p = (sx * fst p, sy * snd p)) \<and> (\<forall>dx dy p. g_translate g dx dy p = (fst p + dx, snd p + dy))
     \<and> (\<forall>a p q. position_distance (g_rotate g a p) (g_rotate g a q) = position_distance p q)
     \<and> (\<forall>a p q. position_distance (g_rotate_deg g a p) (g_rotate_deg g a q) = position_distance p q)
     \<and> (\<forall>a. g_rotate g a (0, 0) = (0, 0)) \<and> (\<forall>a. g_rotate_deg g a (0, 0) = (0, 0))
     \<and> (\<forall>a b p. g_rotate_deg g a (g_rotate_deg g b p) = g_rotate_deg g (a + b) p)"

text \<open>A rotation is clockwise for axes to the right and up.  A query of an R-tree answers the entries whose boxes
  intersect the polygon, in an order of its own.\<close>

definition plane_rotation :: "real \<Rightarrow> Point \<Rightarrow> Point" where
  "plane_rotation a p = (fst p * cos a + snd p * sin a, - fst p * sin a + snd p * cos a)"

definition rotation_law :: "Geometry \<Rightarrow> bool" where
  "rotation_law g \<longleftrightarrow> (\<forall>a p. g_rotate g a p = plane_rotation a p) \<and> (\<forall>dx dy p. g_translate g dx dy p = (fst p + dx, snd p + dy))"

definition rtree_law :: "Geometry \<Rightarrow> bool" where
  "rtree_law g \<longleftrightarrow> (\<forall>t ps. mset (g_rtree_query g t ps) = mset (filter (\<lambda>e. g_box_intersects g (fst e) ps) t))"

section \<open>Sensor positions\<close>

datatype SensorPosition = VIRTUAL | FRONT | BACK | LEFT | RIGHT

text \<open>In degrees; \<open>None\<close> is the not-a-number of a virtual sensor.\<close>

fun relativeAngle :: "SensorPosition \<Rightarrow> real option" where
  "relativeAngle FRONT = Some 0"
| "relativeAngle BACK = Some 180"
| "relativeAngle LEFT = Some 90"
| "relativeAngle RIGHT = Some 270"
| "relativeAngle VIRTUAL = None"

section \<open>Objects\<close>

definition squareOutline :: "Point list" where
  "squareOutline = [(0, 1/2), (0, - (1/2)), (- 1, - (1/2)), (- 1, 1/2)]"

definition squareAttachmentPoints :: "Point list" where
  "squareAttachmentPoints = [(0, 0), (- (1/2), - (1/2)), (- 1, 0), (- (1/2), 1/2)]"

definition squareCentrePoint :: Point where
  "squareCentrePoint = (- (1/2), 0)"

definition transformVehicle :: "Geometry \<Rightarrow> real \<Rightarrow> real \<Rightarrow> Point \<Rightarrow> real \<Rightarrow> Point \<Rightarrow> Point" where
  "transformVehicle g len width pos alpha p =
     g_translate g (fst pos) (snd pos) (g_rotate g alpha (g_scale g len width p))"

record EnvironmentModelObject =
  eo_ptr :: nat
  eo_externalId :: string
  eo_vdp :: VehicleDataProvider
  eo_length :: real
  eo_width :: real
  eo_radius :: real
  eo_outline :: "Point list"
  eo_attachmentPoints :: "Point list"
  eo_centrePoint :: Point

definition EnvironmentModelObject_update ::
    "Geometry \<Rightarrow> simtime \<Rightarrow> VehicleController \<Rightarrow> EnvironmentModelObject \<Rightarrow> EnvironmentModelObject result" where
  "EnvironmentModelObject_update g now vehicle obj =
     rmap (\<lambda>vdp.
       let heading = - 1 * (mHeading vdp - 1/2 * pi);
           affine = transformVehicle g (eo_length obj) (eo_width obj) (mPosition vdp) heading
       in obj\<lparr>eo_vdp := vdp, eo_centrePoint := affine squareCentrePoint, eo_outline := map affine squareOutline,
              eo_attachmentPoints := map affine squareAttachmentPoints\<rparr>)
       (VehicleDataProvider_update now vehicle (eo_vdp obj))"

definition EnvironmentModelObject_new ::
    "Geometry \<Rightarrow> simtime \<Rightarrow> nat \<Rightarrow> string \<Rightarrow> real \<Rightarrow> real \<Rightarrow> VehicleController \<Rightarrow> 32 word \<Rightarrow> EnvironmentModelObject result" where
  "EnvironmentModelObject_new g now ptr vid len width vehicle sid =
     (let halfWidth = width * (1/2); halfLength = len * (1/2)
      in EnvironmentModelObject_update g now vehicle
           \<lparr>eo_ptr = ptr, eo_externalId = vid, eo_vdp = VehicleDataProvider_new sid, eo_length = len, eo_width = width,
            eo_radius = sqrt (halfWidth * halfWidth + halfLength * halfLength), eo_outline = [], eo_attachmentPoints = [],
            eo_centrePoint = (0, 0)\<rparr>)"

definition getAttachmentPoint :: "SensorPosition \<Rightarrow> EnvironmentModelObject \<Rightarrow> Point result" where
  "getAttachmentPoint pos obj =
     (if length (eo_attachmentPoints obj) = 4 then
        (case pos of
           FRONT \<Rightarrow> Inr (eo_attachmentPoints obj ! 0)
         | BACK \<Rightarrow> Inr (eo_attachmentPoints obj ! 2)
         | RIGHT \<Rightarrow> Inr (eo_attachmentPoints obj ! 1)
         | LEFT \<Rightarrow> Inr (eo_attachmentPoints obj ! 3)
         | VIRTUAL \<Rightarrow> Inl (RuntimeError ''Invalid sensor attachment point requested''))
      else Inl AssertionFailed)"

section \<open>Sensor cones\<close>

record SensorConfigRadar =
  egoID :: string
  sensorID :: "32 word"
  fov_range :: real
  fov_angle :: real
  sensorPosition :: SensorPosition
  numSegments :: "32 word"
  doLineOfSightCheck :: bool
  vis_linesOfSight :: bool

fun arc_points :: "(Point \<Rightarrow> Point) \<Rightarrow> nat \<Rightarrow> Point \<Rightarrow> Point list" where
  "arc_points rotateSegment 0 p = []"
| "arc_points rotateSegment (Suc n) p = rotateSegment p # arc_points rotateSegment n (rotateSegment p)"

text \<open>The cone of a virtual sensor is not a number; its attachment point throws before.\<close>

definition createSensorArc_at :: "Geometry \<Rightarrow> SensorConfigRadar \<Rightarrow> Point \<Rightarrow> real \<Rightarrow> Point list result" where
  "createSensorArc_at g config egoPos egoHeading =
     (let openingAngleDeg = fov_angle config;
          egoHeadingDeg = - 1 * (egoHeading / degree - 90);
          segments = max (numSegments config) 1;
          segmentAngle = openingAngleDeg / real (unat segments)
      in case relativeAngle (sensorPosition config) of
           None \<Rightarrow> Inl (LogicError ''not a number'')
         | Some sensorPositionDeg \<Rightarrow>
             (let sensorBoundary = g_rotate_deg g (sensorPositionDeg - 1/2 * openingAngleDeg + egoHeadingDeg) (fov_range config, 0);
                  points = (0, 0) # sensorBoundary # arc_points (g_rotate_deg g segmentAngle) (unat segments) sensorBoundary
              in Inr (map (g_translate g (fst egoPos) (snd egoPos)) points)))"

definition createSensorArc :: "Geometry \<Rightarrow> SensorConfigRadar \<Rightarrow> EnvironmentModelObject \<Rightarrow> Point list result" where
  "createSensorArc g config egoObj =
     rbind (getAttachmentPoint (sensorPosition config) egoObj) (\<lambda>sensorPos.
       createSensorArc_at g config sensorPos (mHeading (eo_vdp egoObj)))"

section \<open>Properties\<close>

lemma geometry_lawsD:
  assumes "geometry_laws g"
  shows "g_scale g sx sy p = (sx * fst p, sy * snd p)" "g_translate g dx dy p = (fst p + dx, snd p + dy)"
    "position_distance (g_rotate g a p) (g_rotate g a q) = position_distance p q"
    "position_distance (g_rotate_deg g a p) (g_rotate_deg g a q) = position_distance p q"
    "g_rotate g a (0, 0) = (0, 0)" "g_rotate_deg g a (0, 0) = (0, 0)"
    "g_rotate_deg g a (g_rotate_deg g b p) = g_rotate_deg g (a + b) p"
  using assms unfolding geometry_laws_def by blast+

lemma dist_translate:
  assumes "geometry_laws g"
  shows "position_distance (g_translate g dx dy p) (g_translate g dx dy q) = position_distance p q"
  by (simp add: geometry_lawsD [OF assms] position_distance_def)

lemma position_distance_commute: "position_distance p q = position_distance q p"
  by (simp add: position_distance_def power2_commute)

lemma dist_transformVehicle:
  assumes "geometry_laws g"
  shows "position_distance (transformVehicle g l w pos a p) (transformVehicle g l w pos a q) =
    position_distance (l * fst p, w * snd p) (l * fst q, w * snd q)"
  unfolding transformVehicle_def dist_translate [OF assms] by (simp add: geometry_lawsD [OF assms])

lemma update_length: "EnvironmentModelObject_update g now c obj = Inr obj' \<Longrightarrow>
    eo_length obj' = eo_length obj \<and> eo_width obj' = eo_width obj \<and> eo_radius obj' = eo_radius obj \<and> eo_ptr obj' = eo_ptr obj
    \<and> eo_externalId obj' = eo_externalId obj \<and> length (eo_outline obj') = 4 \<and> length (eo_attachmentPoints obj') = 4"
  by (auto simp: EnvironmentModelObject_update_def rmap_ok_iff Let_def squareOutline_def squareAttachmentPoints_def)

lemma attachmentPoints: "EnvironmentModelObject_update g now c obj = Inr obj' \<Longrightarrow> pos \<noteq> VIRTUAL \<Longrightarrow>
    \<exists>p. getAttachmentPoint pos obj' = Inr p \<and> p \<in> set (eo_attachmentPoints obj')"
  using update_length [of g now c obj obj'] by (cases pos) (simp_all add: getAttachmentPoint_def)

text \<open>An object lies in the circle around its centre point with its radius, as sensors assume when they
  preselect objects: all corners of the outline are on the circle and all attachment points within it, from its creation on and
  after every update, whatever the heading and the position.\<close>

theorem object_within_radius:
  assumes "geometry_laws g" and "EnvironmentModelObject_new g now0 ptr vid l w c0 sid = Inr obj0"
    and "obj = obj0 \<or> EnvironmentModelObject_update g now c obj0 = Inr obj"
  shows "(\<forall>p \<in> set (eo_outline obj). position_distance (eo_centrePoint obj) p = eo_radius obj)
    \<and> (\<forall>p \<in> set (eo_attachmentPoints obj). position_distance (eo_centrePoint obj) p \<le> eo_radius obj)"
proof -
  have r: "eo_radius obj = sqrt ((l / 2)\<^sup>2 + (w / 2)\<^sup>2)" "eo_length obj = l" "eo_width obj = w"
    using assms(2,3) update_length
    by (fastforce simp: EnvironmentModelObject_new_def Let_def power2_eq_square add.commute)+
  obtain pos a where obj: "eo_centrePoint obj = transformVehicle g l w pos a squareCentrePoint"
    "eo_outline obj = map (transformVehicle g l w pos a) squareOutline"
    "eo_attachmentPoints obj = map (transformVehicle g l w pos a) squareAttachmentPoints"
  proof -
    obtain now1 c1 obj1 where u: "EnvironmentModelObject_update g now1 c1 obj1 = Inr obj"
      using assms(2,3) by (auto simp: EnvironmentModelObject_new_def Let_def)
    then have lw: "eo_length obj1 = l" "eo_width obj1 = w" using update_length [OF u] r by simp_all
    obtain vdp where "obj = (let affine = transformVehicle g l w (mPosition vdp) (- 1 * (mHeading vdp - 1/2 * pi)) in
        obj1\<lparr>eo_vdp := vdp, eo_centrePoint := affine squareCentrePoint, eo_outline := map affine squareOutline,
          eo_attachmentPoints := map affine squareAttachmentPoints\<rparr>)"
      using u lw unfolding EnvironmentModelObject_update_def rmap_ok_iff Let_def by blast
    then show ?thesis by (intro that [of "mPosition vdp" "- 1 * (mHeading vdp - 1/2 * pi)"]) (simp_all add: Let_def)
  qed
  let ?T = "transformVehicle g l w pos a"
  have dist: "position_distance (?T squareCentrePoint) (?T p) = sqrt ((l * (1/2 + fst p))\<^sup>2 + (w * snd p)\<^sup>2)" for p
  proof -
    have "(l * - (1/2) - l * fst p)\<^sup>2 = (l * (1/2 + fst p))\<^sup>2" by (simp add: power2_eq_square algebra_simps)
    then show ?thesis unfolding dist_transformVehicle [OF assms(1)] by (simp add: position_distance_def squareCentrePoint_def)
  qed
  have "sqrt ((l * x)\<^sup>2 + (w * y)\<^sup>2) \<le> sqrt ((l / 2)\<^sup>2 + (w / 2)\<^sup>2)" if "\<bar>x\<bar> \<le> 1/2" "\<bar>y\<bar> \<le> 1/2" for x y
  proof -
    have "x\<^sup>2 \<le> (1/2)\<^sup>2" "y\<^sup>2 \<le> (1/2)\<^sup>2" using that by (simp_all only: abs_le_square_iff [symmetric] abs_divide abs_one abs_numeral)
    then have "l\<^sup>2 * x\<^sup>2 + w\<^sup>2 * y\<^sup>2 \<le> l\<^sup>2 * (1/2)\<^sup>2 + w\<^sup>2 * (1/2)\<^sup>2" by (intro add_mono mult_left_mono) simp_all
    then show ?thesis by (simp add: power_mult_distrib power_divide)
  qed
  note le = this
  have "\<forall>p \<in> set squareAttachmentPoints. position_distance (?T squareCentrePoint) (?T p) \<le> sqrt ((l / 2)\<^sup>2 + (w / 2)\<^sup>2)"
    unfolding dist by (intro ballI le) (auto simp: squareAttachmentPoints_def)
  moreover have "\<forall>p \<in> set squareOutline. position_distance (?T squareCentrePoint) (?T p) = sqrt ((l / 2)\<^sup>2 + (w / 2)\<^sup>2)"
    unfolding dist by (auto simp: squareOutline_def power_mult_distrib power_divide)
  ultimately show ?thesis unfolding obj r by simp
qed

text \<open>A sensor on the left is attached on the right of the vehicle and a sensor on the right on its left: with
  ordinates growing downwards and the driving direction \<open>(sin h, - cos h)\<close>, the right hand side is \<open>(cos h, sin h)\<close>.\<close>

theorem side_sensors_swapped:
  assumes "geometry_laws g" and "rotation_law g" and "EnvironmentModelObject_update g now c obj0 = Inr obj"
    and "h = mHeading (eo_vdp obj)" and "(x, y) = mPosition (eo_vdp obj)"
  shows "\<exists>l r. getAttachmentPoint LEFT obj = Inr l \<and> getAttachmentPoint RIGHT obj = Inr r
    \<and> (fst l - x) * cos h + (snd l - y) * sin h = eo_width obj / 2
    \<and> (fst r - x) * cos h + (snd r - y) * sin h = - (eo_width obj / 2)"
proof -
  let ?T = "transformVehicle g (eo_length obj) (eo_width obj) (mPosition (eo_vdp obj)) (- 1 * (h - 1/2 * pi))"
  from assms(3) have pts: "eo_attachmentPoints obj = map ?T squareAttachmentPoints"
    by (auto simp: EnvironmentModelObject_update_def rmap_ok_iff Let_def assms(4))
  have a: "cos (- 1 * (h - 1/2 * pi)) = sin h" "sin (- 1 * (h - 1/2 * pi)) = cos h" by (simp_all add: sin_diff cos_diff)
  have rot: "g_rotate g a p = plane_rotation a p" for a p using assms(2) unfolding rotation_law_def by blast
  have T: "?T (u, v) = (x + (eo_length obj * u * sin h + eo_width obj * v * cos h), y + (- (eo_length obj * u) * cos h + eo_width obj * v * sin h))" for u v
    unfolding transformVehicle_def rot plane_rotation_def a geometry_lawsD(1,2) [OF assms(1)] assms(5) [symmetric] by simp
  have side: "(fst (?T (u, v)) - x) * cos h + (snd (?T (u, v)) - y) * sin h = eo_width obj * v" for u v
  proof -
    have alg: "(lu * s + wv * c) * c + (- lu * c + wv * s) * s = wv * (s\<^sup>2 + c\<^sup>2)" for lu wv s c :: real
      by (simp add: power2_eq_square algebra_simps)
    show ?thesis unfolding T using alg [of "eo_length obj * u" "sin h" "eo_width obj * v" "cos h"] by simp
  qed
  have "getAttachmentPoint LEFT obj = Inr (?T (- (1/2), 1/2))" "getAttachmentPoint RIGHT obj = Inr (?T (- (1/2), - (1/2)))"
    unfolding getAttachmentPoint_def pts by (simp_all add: squareAttachmentPoints_def)
  then show ?thesis using side [of "- (1/2)" "1/2"] side [of "- (1/2)" "- (1/2)"] by simp
qed

lemma arc_points_nth:
  assumes "\<And>a b p. rot a (rot b p) = rot (a + b :: real) p"
  shows "i < n \<Longrightarrow> arc_points (rot seg) n (rot b p) ! i = rot (b + real (Suc i) * seg) p"
proof (induction n arbitrary: i b)
  case (Suc n)
  show ?case
  proof (cases i)
    case 0
    then show ?thesis using assms by (simp add: add.commute)
  next
    case (Suc j)
    then have "arc_points (rot seg) n (rot (seg + b) p) ! j = rot (seg + b + real (Suc j) * seg) p"
      using Suc.IH [of j "seg + b"] Suc.prems by simp
    then show ?thesis using Suc assms by (simp add: algebra_simps)
  qed
qed simp

lemma length_arc_points [simp]: "length (arc_points r n p) = n"
  by (induction n arbitrary: p) simp_all

text \<open>The cone of a radar sensor starts at the sensor's attachment point; its other points, one more than it has
  segments, lie on the circle with the sensor's range around it, at equal angles from the left to
  the right end of the opening angle, which is centred on the direction of the sensor.\<close>

theorem createSensorArc_geometry:
  assumes "geometry_laws g" and "relativeAngle (sensorPosition config) = Some dir" and "0 < fov_range config"
  shows "\<exists>points. createSensorArc_at g config pos heading = Inr points \<and> points ! 0 = pos
    \<and> length points = unat (max (numSegments config) 1) + 2
    \<and> (\<forall>i \<le> unat (max (numSegments config) 1).
         points ! Suc i = g_translate g (fst pos) (snd pos)
           (g_rotate_deg g (dir + (90 - heading / degree) - fov_angle config / 2
              + real i * (fov_angle config / real (unat (max (numSegments config) 1)))) (fov_range config, 0))
         \<and> position_distance pos (points ! Suc i) = fov_range config)"
proof -
  let ?n = "unat (max (numSegments config) 1)"
  let ?a = "dir - 1/2 * fov_angle config + - 1 * (heading / degree - 90)"
  let ?s = "fov_angle config / real ?n"
  let ?b = "g_rotate_deg g ?a (fov_range config, 0)"
  let ?ps = "(0, 0) # ?b # arc_points (g_rotate_deg g ?s) ?n ?b"
  let ?t = "g_translate g (fst pos) (snd pos)"
  have arc: "createSensorArc_at g config pos heading = Inr (map ?t ?ps)"
    by (simp add: createSensorArc_at_def assms(2) Let_def)
  have origin: "?t (0, 0) = pos" by (simp add: geometry_lawsD(2) [OF assms(1)])
  have nth: "?ps ! Suc i = g_rotate_deg g (dir + (90 - heading / degree) - fov_angle config / 2 + real i * ?s) (fov_range config, 0)"
    if "i \<le> ?n" for i
  proof (cases i)
    case 0
    then show ?thesis by (simp add: algebra_simps)
  next
    case (Suc j)
    then have "arc_points (g_rotate_deg g ?s) ?n ?b ! j = g_rotate_deg g (?a + real (Suc j) * ?s) (fov_range config, 0)"
      using that by (intro arc_points_nth geometry_lawsD(7) [OF assms(1)]) simp
    then show ?thesis using Suc by (simp add: algebra_simps)
  qed
  have "position_distance pos (?t (g_rotate_deg g a (fov_range config, 0))) = fov_range config" for a
  proof -
    have "position_distance (?t (0, 0)) (?t (g_rotate_deg g a (fov_range config, 0))) =
        position_distance (g_rotate_deg g a (0, 0)) (g_rotate_deg g a (fov_range config, 0))"
      by (simp only: dist_translate [OF assms(1)] geometry_lawsD(6) [OF assms(1)])
    also have "\<dots> = fov_range config"
      using assms(3) by (simp only: geometry_lawsD(4) [OF assms(1)]) (simp add: position_distance_def)
    finally show ?thesis by (simp only: origin)
  qed
  note dist = this
  have t: "map ?t ?ps ! Suc i = ?t (g_rotate_deg g (dir + (90 - heading / degree) - fov_angle config / 2 + real i * ?s) (fov_range config, 0))"
    if "i \<le> ?n" for i
    using nth [OF that] that by (simp only: nth_map length_Cons length_arc_points Suc_less_eq le_imp_less_Suc less_SucI)
  show ?thesis
  proof (intro exI conjI allI impI)
    show "createSensorArc_at g config pos heading = Inr (map ?t ?ps)" by (rule arc)
    show "map ?t ?ps ! 0 = pos" using origin by simp
    show "length (map ?t ?ps) = ?n + 2" by simp
    fix i assume i: "i \<le> ?n"
    show "map ?t ?ps ! Suc i = ?t (g_rotate_deg g (dir + (90 - heading / degree) - fov_angle config / 2 + real i * ?s) (fov_range config, 0))"
      by (rule t [OF i])
    show "position_distance pos (map ?t ?ps ! Suc i) = fov_range config" unfolding t [OF i] by (rule dist)
  qed
qed

section \<open>Examples\<close>

definition plane :: Geometry where
  "plane = \<lparr>g_scale = \<lambda>sx sy p. (sx * fst p, sy * snd p), g_rotate = plane_rotation,
     g_rotate_deg = \<lambda>a. plane_rotation (a * (pi / 180)), g_translate = \<lambda>dx dy p. (fst p + dx, snd p + dy),
     g_covered_by = \<lambda>p ps. True, g_crosses = \<lambda>l ps. False, g_line_intersects = \<lambda>l ps. False, g_intersects = \<lambda>a b. True,
     g_is_valid = \<lambda>ps. True, g_envelope = \<lambda>ps. ((0, 0), (0, 0)), g_box_intersects = \<lambda>b ps. True,
     g_rtree_query = \<lambda>t ps. t, g_correct = \<lambda>ps. ps\<rparr>"

lemma plane_rotation_laws:
  "position_distance (plane_rotation a p) (plane_rotation a q) = position_distance p q" "plane_rotation a (0, 0) = (0, 0)"
  "plane_rotation a (plane_rotation b p) = plane_rotation (a + b) p"
proof -
  have r: "(x * c + y * s)\<^sup>2 + (- x * s + y * c)\<^sup>2 = (x\<^sup>2 + y\<^sup>2) * (s\<^sup>2 + c\<^sup>2)" for x y c s :: real
    by (simp add: power2_eq_square algebra_simps)
  have "(fst (plane_rotation a p) - fst (plane_rotation a q))\<^sup>2 + (snd (plane_rotation a p) - snd (plane_rotation a q))\<^sup>2 =
      (fst p - fst q)\<^sup>2 + (snd p - snd q)\<^sup>2"
    using r [of "fst p - fst q" "cos a" "snd p - snd q" "sin a"] by (simp add: plane_rotation_def algebra_simps)
  then show "position_distance (plane_rotation a p) (plane_rotation a q) = position_distance p q"
    by (simp add: position_distance_def)
  show "plane_rotation a (0, 0) = (0, 0)" by (simp add: plane_rotation_def)
  show "plane_rotation a (plane_rotation b p) = plane_rotation (a + b) p"
    by (simp add: plane_rotation_def sin_add cos_add algebra_simps)
qed

lemma plane_laws: "geometry_laws plane"
  unfolding geometry_laws_def plane_def by (simp add: plane_rotation_laws add_divide_distrib algebra_simps)

definition front_config :: "string \<Rightarrow> SensorConfigRadar" where
  "front_config vid = \<lparr>egoID = vid, sensorID = 1, fov_range = 50, fov_angle = 60, sensorPosition = FRONT, numSegments = 3,
     doLineOfSightCheck = True, vis_linesOfSight = False\<rparr>"

theorem createSensorArc_geometry_witness:
  "\<exists>points. createSensorArc_at plane (front_config ''a'') (3, 4) (pi / 2) = Inr points \<and> points ! 0 = (3, 4) \<and> length points = 5
     \<and> position_distance (3, 4) (points ! 2) = 50"
proof -
  have "relativeAngle (sensorPosition (front_config ''a'')) = Some 0" "0 < fov_range (front_config ''a'')"
    by (simp_all add: front_config_def)
  from createSensorArc_geometry [OF plane_laws this, of "(3, 4)" "pi / 2"] obtain points where
    p: "createSensorArc_at plane (front_config ''a'') (3, 4) (pi / 2) = Inr points" "points ! 0 = (3, 4)"
    "length points = unat (max (numSegments (front_config ''a'')) 1) + 2"
    and d: "\<And>i. i \<le> unat (max (numSegments (front_config ''a'')) 1) \<Longrightarrow>
      position_distance (3, 4) (points ! Suc i) = fov_range (front_config ''a'')" by blast
  have n: "unat (max (numSegments (front_config ''a'')) 1) = 3" by (simp add: front_config_def max_def word_le_nat_alt)
  have "position_distance (3, 4) (points ! Suc 1) = fov_range (front_config ''a'')" by (rule d) (simp only: n)
  then show ?thesis using p n by (simp add: front_config_def numeral_2_eq_2)
qed

theorem object_within_radius_witness:
  "\<exists>obj. EnvironmentModelObject_new plane 0 1 ''a'' 4 2 \<lparr>vc_position = (1, 1), vc_geo_latitude = 0, vc_geo_longitude = 0,
      vc_heading = 0, vc_speed = 10\<rparr> 7 = Inr obj \<and> (\<forall>p \<in> set (eo_outline obj). position_distance (eo_centrePoint obj) p = eo_radius obj)"
proof -
  obtain vdp where "VehicleDataProvider_update 0 \<lparr>vc_position = (1, 1), vc_geo_latitude = 0, vc_geo_longitude = 0,
      vc_heading = 0, vc_speed = 10\<rparr> (VehicleDataProvider_new 7) = Inr vdp"
    using VehicleDataProvider_update_total [OF vdp_ok_new] by blast
  then obtain obj where "EnvironmentModelObject_new plane 0 1 ''a'' 4 2 \<lparr>vc_position = (1, 1), vc_geo_latitude = 0, vc_geo_longitude = 0,
      vc_heading = 0, vc_speed = 10\<rparr> 7 = Inr obj"
    by (simp add: EnvironmentModelObject_new_def EnvironmentModelObject_update_def Let_def)
  from this object_within_radius [OF plane_laws this, of obj] show ?thesis by auto
qed

lemma plane_rotation_law: "rotation_law plane"
  by (simp add: rotation_law_def plane_def)

theorem side_sensors_swapped_witness:
  "\<exists>obj l. EnvironmentModelObject_new plane 0 1 ''a'' 4 2 \<lparr>vc_position = (1, 1), vc_geo_latitude = 0, vc_geo_longitude = 0,
      vc_heading = 0, vc_speed = 10\<rparr> 7 = Inr obj \<and> getAttachmentPoint LEFT obj = Inr l
      \<and> (fst l - fst (mPosition (eo_vdp obj))) * cos (mHeading (eo_vdp obj)) + (snd l - snd (mPosition (eo_vdp obj))) * sin (mHeading (eo_vdp obj)) =
          eo_width obj / 2"
proof -
  obtain vdp where "VehicleDataProvider_update 0 \<lparr>vc_position = (1, 1), vc_geo_latitude = 0, vc_geo_longitude = 0,
      vc_heading = 0, vc_speed = 10\<rparr> (VehicleDataProvider_new 7) = Inr vdp"
    using VehicleDataProvider_update_total [OF vdp_ok_new] by blast
  then obtain obj where new: "EnvironmentModelObject_new plane 0 1 ''a'' 4 2 \<lparr>vc_position = (1, 1), vc_geo_latitude = 0, vc_geo_longitude = 0,
      vc_heading = 0, vc_speed = 10\<rparr> 7 = Inr obj"
    by (simp add: EnvironmentModelObject_new_def EnvironmentModelObject_update_def Let_def)
  then obtain obj0 where upd: "EnvironmentModelObject_update plane 0 \<lparr>vc_position = (1, 1), vc_geo_latitude = 0, vc_geo_longitude = 0,
      vc_heading = 0, vc_speed = 10\<rparr> obj0 = Inr obj"
    unfolding EnvironmentModelObject_new_def Let_def by blast
  have "(fst (mPosition (eo_vdp obj)), snd (mPosition (eo_vdp obj))) = mPosition (eo_vdp obj)" by simp
  from side_sensors_swapped [OF plane_laws plane_rotation_law upd refl this] new show ?thesis by blast
qed

end
