(* ===== verification/EnvPreselection.thy ===== *)
theory EnvPreselection
  imports EnvObjects
begin

text \<open>
  The preselection methods of \<open>artery/envmod\<close>: which objects may lie in the cone of a radar sensor.
  \<open>InterdistanceMatrix\<close> compares distances and angles it tabulated, \<open>PreselectionPolygon\<close> intersects outlines with
  the cone and \<open>PreselectionRtree\<close> queries a tree of bounding boxes.  The locale \<open>preselection\<close> is the interface
  \<open>PreselectionMethod\<close> with what the global environment model relies on; all three methods interpret it.
\<close>

type_synonym Box = "Point \<times> Point"
type_synonym ObjectDB = "(string, EnvironmentModelObject) omap"

section \<open>Angles between objects\<close>

text \<open>\<open>std::atan2\<close>.\<close>

definition atan2 :: "real \<Rightarrow> real \<Rightarrow> real" where
  "atan2 y x =
     (if 0 < x then arctan (y / x)
      else if x < 0 then (if 0 \<le> y then arctan (y / x) + pi else arctan (y / x) - pi)
      else if 0 < y then pi / 2 else if y < 0 then - (pi / 2) else 0)"

definition createAngle :: "Point \<Rightarrow> Point \<Rightarrow> Point \<Rightarrow> real" where
  "createAngle p1 p2 centre =
     (let p1 = (fst p1 - fst centre, snd p1 - snd centre);
          p2 = (fst p2 - fst centre, snd p2 - snd centre);
          angle1 = atan2 (fst p1) (snd p1);
          angle2 = atan2 (fst p2) (snd p2);
          radAngle = angle2 - angle1
      in if radAngle > pi then radAngle - 2 * pi else if radAngle < - pi then radAngle + 2 * pi else radAngle)"

text \<open>In degrees.\<close>

definition calcAngleEgoToX :: "Geometry \<Rightarrow> EnvironmentModelObject \<Rightarrow> EnvironmentModelObject \<Rightarrow> real" where
  "calcAngleEgoToX g objEgo objX =
     (let egoData = eo_vdp objEgo;
          reference = g_rotate g (- 1 * mHeading egoData) (0, - 1);
          reference = g_translate g (fst (mPosition egoData)) (snd (mPosition egoData)) reference
      in createAngle reference (mPosition (eo_vdp objX)) (mPosition egoData) * (180 / pi))"

section \<open>Interdistance matrix\<close>

record MatrixItem =
  distanceToY :: real
  angleToY :: real
  mi_radius :: real
  relX :: real
  relY :: real
  mi_name :: string

definition MatrixItem_new :: "real \<Rightarrow> real \<Rightarrow> MatrixItem" where
  "MatrixItem_new distance angle =
     \<lparr>distanceToY = distance, angleToY = angle, mi_radius = 0, relX = cos angle * distance, relY = sin angle * distance, mi_name = ''''\<rparr>"

type_synonym Matrix = "(string \<times> MatrixItem list) list"

definition matrix_item :: "Geometry \<Rightarrow> EnvironmentModelObject \<Rightarrow> EnvironmentModelObject \<Rightarrow> MatrixItem" where
  "matrix_item g objEgo objX =
     (let distance = position_distance (eo_centrePoint objEgo) (eo_centrePoint objX);
          angle = calcAngleEgoToX g objEgo objX;
          angle = (if angle < - 180 then angle + 360 else angle);
          angle = (if angle > 180 then angle - 360 else angle)
      in (MatrixItem_new distance angle)\<lparr>mi_name := eo_externalId objX, mi_radius := eo_radius objX\<rparr>)"

definition InterdistanceMatrix_update :: "Geometry \<Rightarrow> ObjectDB \<Rightarrow> Matrix" where
  "InterdistanceMatrix_update g objs =
     map (\<lambda>(k, objEgo). (eo_externalId objEgo,
           map (matrix_item g objEgo) (filter (\<lambda>objX. eo_externalId objEgo \<noteq> eo_externalId objX) (map snd objs)))) objs"

record ItemSelector =
  sel_left :: real
  sel_right :: real
  sel_range :: real

definition wrap_angle :: "real \<Rightarrow> real" where
  "wrap_angle a = (if a > 180 then a - 360 else if a < - 180 then a + 360 else a)"

text \<open>The comparisons of a virtual sensor are with not a number and select nothing; \<open>None\<close> is that selector.\<close>

definition buildItemSelector :: "SensorConfigRadar \<Rightarrow> ItemSelector option result" where
  "buildItemSelector config =
     (if egoID config = [] then Inl (RuntimeError ''Vehicle ID empty'')
      else if fov_range config = 0 then Inl (RuntimeError ''Sensor range is 0'')
      else if fov_angle config > 360 then Inl (RuntimeError ''Sensor opening angle greater than 360 degree'')
      else Inr (map_option (\<lambda>sensorPositionDeg.
             (let sensorDirection = (if sensorPositionDeg > 180 then - 360 + sensorPositionDeg else sensorPositionDeg);
                  halfOpeningAngleDegree = 1/2 * fov_angle config
              in \<lparr>sel_left = wrap_angle (sensorDirection - halfOpeningAngleDegree),
                  sel_right = wrap_angle (sensorDirection + halfOpeningAngleDegree), sel_range = fov_range config\<rparr>))
           (relativeAngle (sensorPosition config))))"

fun checkItemSelector :: "ItemSelector option \<Rightarrow> MatrixItem \<Rightarrow> bool" where
  "checkItemSelector (Some selector) item \<longleftrightarrow>
     distanceToY item \<le> sel_range selector + mi_radius item \<and> angleToY item < sel_right selector \<and> angleToY item > sel_left selector"
| "checkItemSelector None item \<longleftrightarrow> False"

definition InterdistanceMatrix_select :: "Matrix \<Rightarrow> EnvironmentModelObject \<Rightarrow> SensorConfigRadar \<Rightarrow> string list result" where
  "InterdistanceMatrix_select matrix ego config =
     (if eo_externalId ego \<noteq> egoID config then Inl AssertionFailed
      else rbind (buildItemSelector config) (\<lambda>selector.
        case map_of matrix (egoID config) of
          Some items \<Rightarrow> Inr (map mi_name (filter (checkItemSelector selector) items))
        | None \<Rightarrow> Inl (RuntimeError (''No entry found for '' @ egoID config))))"

section \<open>Polygons and the R-tree\<close>

definition PreselectionPolygon_select ::
    "Geometry \<Rightarrow> ObjectDB \<Rightarrow> EnvironmentModelObject \<Rightarrow> SensorConfigRadar \<Rightarrow> string list result" where
  "PreselectionPolygon_select g objs ego config =
     rbind (createSensorArc g config ego) (\<lambda>sensorCone.
       if \<not> g_is_valid g sensorCone then Inl (RuntimeError ''polygon of sensor cone is invalid'')
       else Inr (map eo_externalId (filter (\<lambda>object. eo_externalId object \<noteq> eo_externalId ego \<and> g_intersects g (eo_outline object) sensorCone)
              (map snd objs))))"

type_synonym Rtree = "(Box \<times> string) list"

definition PreselectionRtree_update :: "Geometry \<Rightarrow> ObjectDB \<Rightarrow> Rtree" where
  "PreselectionRtree_update g objs = map (\<lambda>(k, object). (g_envelope g (eo_outline object), eo_externalId object)) objs"

definition PreselectionRtree_select ::
    "Geometry \<Rightarrow> Rtree \<Rightarrow> EnvironmentModelObject \<Rightarrow> SensorConfigRadar \<Rightarrow> string list result" where
  "PreselectionRtree_select g rtree ego config =
     rbind (createSensorArc g config ego) (\<lambda>cone.
       if \<not> g_is_valid g cone then Inl (RuntimeError ''polygon of sensor cone is invalid'')
       else Inr (filter (\<lambda>i. i \<noteq> eo_externalId ego) (map snd (g_rtree_query g rtree cone))))"

section \<open>The interface\<close>

datatype Preselector = PreMatrix Matrix | PrePolygon | PreRtree Rtree

text \<open>\<open>preselectionMethod\<close> of \<open>initialize\<close>.\<close>

definition Preselector_new :: "int \<Rightarrow> Preselector result" where
  "Preselector_new preselectionMethod =
     (if preselectionMethod = 1 then Inr (PreMatrix [])
      else if preselectionMethod = 2 then Inr PrePolygon
      else if preselectionMethod = 3 then Inr (PreRtree [])
      else Inl (RuntimeError ''Unknown preselection method''))"

fun Preselector_update :: "Geometry \<Rightarrow> ObjectDB \<Rightarrow> Preselector \<Rightarrow> Preselector" where
  "Preselector_update g objs (PreMatrix m) = PreMatrix (InterdistanceMatrix_update g objs)"
| "Preselector_update g objs PrePolygon = PrePolygon"
| "Preselector_update g objs (PreRtree t) = PreRtree (PreselectionRtree_update g objs)"

fun Preselector_select ::
    "Geometry \<Rightarrow> ObjectDB \<Rightarrow> Preselector \<Rightarrow> EnvironmentModelObject \<Rightarrow> SensorConfigRadar \<Rightarrow> string list result" where
  "Preselector_select g objs (PreMatrix m) ego config = InterdistanceMatrix_select m ego config"
| "Preselector_select g objs PrePolygon ego config = PreselectionPolygon_select g objs ego config"
| "Preselector_select g objs (PreRtree t) ego config = PreselectionRtree_select g t ego config"

text \<open>The database: ordered by identifier, every object under its own, at an address of its own.\<close>

definition db_ok :: "ObjectDB \<Rightarrow> bool" where
  "db_ok objs \<longleftrightarrow> omap_ok objs \<and> (\<forall>(k, object) \<in> set objs. eo_externalId object = k) \<and> distinct (map (\<lambda>e. eo_ptr (snd e)) objs)"

text \<open>After an update with the current objects, a selection answers identifiers of other objects, each once.\<close>

locale preselection =
  fixes upd :: "Geometry \<Rightarrow> ObjectDB \<Rightarrow> 'p \<Rightarrow> 'p"
    and sel :: "Geometry \<Rightarrow> ObjectDB \<Rightarrow> 'p \<Rightarrow> EnvironmentModelObject \<Rightarrow> SensorConfigRadar \<Rightarrow> string list result"
  assumes sel_known: "rtree_law g \<Longrightarrow> db_ok objs \<Longrightarrow> sel g objs (upd g objs p) ego config = Inr ids \<Longrightarrow>
    set ids \<subseteq> fst ` set objs - {eo_externalId ego}"
    and sel_distinct: "rtree_law g \<Longrightarrow> db_ok objs \<Longrightarrow> sel g objs (upd g objs p) ego config = Inr ids \<Longrightarrow> distinct ids"
begin

text \<open>The client can fetch every selected object; they are different from each other and from the ego object.\<close>

lemma selected_objects:
  assumes "rtree_law g" and "db_ok objs" and "sel g objs (upd g objs p) ego config = Inr ids"
  shows "\<exists>selected. map (map_of objs) ids = map Some selected \<and> map eo_externalId selected = ids
    \<and> distinct (map eo_ptr selected) \<and> eo_externalId ego \<notin> set ids"
proof -
  have ids: "set ids \<subseteq> fst ` set objs - {eo_externalId ego}" "distinct ids" using sel_known [OF assms] sel_distinct [OF assms] .
  have ex: "\<exists>ob. map_of objs i = Some ob" if "i \<in> set ids" for i using ids(1) that weak_map_of_SomeI by fastforce
  define selected where "selected = map (\<lambda>i. the (map_of objs i)) ids"
  have key: "eo_externalId (the (map_of objs i)) = i" "(i, the (map_of objs i)) \<in> set objs" if "i \<in> set ids" for i
    using ex [OF that] assms(2) by (fastforce simp: db_ok_def dest: map_of_SomeD)+
  have names: "map eo_externalId selected = ids" unfolding selected_def map_map comp_def using key(1) by (simp add: map_idI)
  have inj: "inj_on (\<lambda>e. eo_ptr (snd e)) (set objs)" using assms(2) by (simp add: db_ok_def distinct_map)
  have "distinct (map eo_ptr selected)"
    unfolding selected_def map_map comp_def distinct_map
  proof (intro conjI ids(2) inj_onI)
    fix i j assume ij: "i \<in> set ids" "j \<in> set ids" and eq: "eo_ptr (the (map_of objs i)) = eo_ptr (the (map_of objs j))"
    from inj_onD [OF inj, OF _ key(2) [OF ij(1)] key(2) [OF ij(2)]] eq show "i = j" by simp
  qed
  moreover have "map (map_of objs) ids = map Some selected" unfolding selected_def using ex by fastforce
  ultimately show ?thesis using names ids(1) by blast
qed

end

lemma db_okD: "db_ok objs \<Longrightarrow> (k, ob) \<in> set objs \<Longrightarrow> eo_externalId ob = k" "db_ok objs \<Longrightarrow> distinct (map fst objs)"
  by (auto simp: db_ok_def omap_ok_distinct)

lemma db_names: "db_ok objs \<Longrightarrow> map (\<lambda>e. eo_externalId (snd e)) objs = map fst objs"
  by (auto simp: db_ok_def)

lemma db_names_filtered:
  assumes "db_ok objs"
  shows "distinct (map eo_externalId (filter P (map snd objs)))"
    "set (map eo_externalId (filter P (map snd objs))) \<subseteq> fst ` set objs"
proof -
  have "map eo_externalId (map snd objs) = map fst objs" using db_names [OF assms] by simp
  then have "distinct (map eo_externalId (map snd objs))" by (simp only: db_okD(2) [OF assms])
  then show "distinct (map eo_externalId (filter P (map snd objs)))" by (rule distinct_map_filter)
  show "set (map eo_externalId (filter P (map snd objs))) \<subseteq> fst ` set objs" using db_okD(1) [OF assms] by force
qed

lemma matrix_row:
  assumes "db_ok objs"
  shows "map_of (InterdistanceMatrix_update g objs) i =
    map_option (\<lambda>objEgo. map (matrix_item g objEgo) (filter (\<lambda>objX. i \<noteq> eo_externalId objX) (map snd objs))) (map_of objs i)"
proof -
  have "InterdistanceMatrix_update g objs = map (\<lambda>(k, objEgo). (k,
      map (matrix_item g objEgo) (filter (\<lambda>objX. eo_externalId objEgo \<noteq> eo_externalId objX) (map snd objs)))) objs"
    unfolding InterdistanceMatrix_update_def using db_okD(1) [OF assms] by auto
  then have "map_of (InterdistanceMatrix_update g objs) i =
      map_option (\<lambda>objEgo. map (matrix_item g objEgo) (filter (\<lambda>objX. eo_externalId objEgo \<noteq> eo_externalId objX) (map snd objs))) (map_of objs i)"
    by (simp only: map_of_map comp_apply)
  then show ?thesis using db_okD(1) [OF assms] by (cases "map_of objs i") (auto dest: map_of_SomeD)
qed

lemma name_matrix_item [simp]: "mi_name (matrix_item g a b) = eo_externalId b"
  by (simp add: matrix_item_def Let_def)

lemma matrix_selected:
  assumes "db_ok objs" and "InterdistanceMatrix_select (InterdistanceMatrix_update g objs) ego config = Inr ids"
  shows "\<exists>P. ids = map eo_externalId (filter P (map snd objs)) \<and> (\<forall>x. P x \<longrightarrow> eo_externalId x \<noteq> eo_externalId ego)"
proof -
  from assms obtain s me where s: "eo_externalId ego = egoID config" "map_of objs (egoID config) = Some me"
    "ids = map mi_name (filter (checkItemSelector s) (map (matrix_item g me) (filter (\<lambda>objX. egoID config \<noteq> eo_externalId objX) (map snd objs))))"
    by (auto simp: InterdistanceMatrix_select_def rbind_ok_iff matrix_row split: if_splits option.splits)
  then have "ids = map eo_externalId (filter (\<lambda>x. egoID config \<noteq> eo_externalId x \<and> checkItemSelector s (matrix_item g me x)) (map snd objs))"
    by (simp add: filter_map comp_def)
  then show ?thesis using s(1) by (intro exI [of _ "\<lambda>x. egoID config \<noteq> eo_externalId x \<and> checkItemSelector s (matrix_item g me x)"]) auto
qed

interpretation matrix: preselection "\<lambda>g objs m. InterdistanceMatrix_update g objs" "\<lambda>g objs. InterdistanceMatrix_select"
proof unfold_locales
  fix g objs ego config ids
  assume ok: "db_ok objs" and sel: "InterdistanceMatrix_select (InterdistanceMatrix_update g objs) ego config = Inr ids"
  from matrix_selected [OF this] obtain P where P: "ids = map eo_externalId (filter P (map snd objs))"
    "\<And>x. P x \<Longrightarrow> eo_externalId x \<noteq> eo_externalId ego" by blast
  show "distinct ids" unfolding P(1) by (rule db_names_filtered(1) [OF ok])
  show "set ids \<subseteq> fst ` set objs - {eo_externalId ego}" using db_names_filtered(2) [OF ok, of P] P(2) unfolding P(1) by auto
qed

interpretation polygon: preselection "\<lambda>g objs u. u" "\<lambda>g objs (u :: unit). PreselectionPolygon_select g objs"
proof unfold_locales
  fix g objs ego config ids
  assume ok: "db_ok objs" and sel: "PreselectionPolygon_select g objs ego config = Inr ids"
  then obtain cone where ids: "ids = map eo_externalId (filter (\<lambda>object. eo_externalId object \<noteq> eo_externalId ego \<and> g_intersects g (eo_outline object) cone)
      (map snd objs))" by (auto simp: PreselectionPolygon_select_def rbind_ok_iff split: if_splits)
  show "distinct ids" unfolding ids by (rule db_names_filtered(1) [OF ok])
  show "set ids \<subseteq> fst ` set objs - {eo_externalId ego}" unfolding ids using db_okD(1) [OF ok] by force
qed

interpretation rtree: preselection "\<lambda>g objs t. PreselectionRtree_update g objs" "\<lambda>g objs. PreselectionRtree_select g"
proof unfold_locales
  fix g objs ego config ids
  assume law: "rtree_law g" and ok: "db_ok objs" and sel: "PreselectionRtree_select g (PreselectionRtree_update g objs) ego config = Inr ids"
  then obtain cone where ids: "ids = filter (\<lambda>i. i \<noteq> eo_externalId ego) (map snd (g_rtree_query g (PreselectionRtree_update g objs) cone))"
    by (auto simp: PreselectionRtree_select_def rbind_ok_iff split: if_splits)
  have names: "map snd (PreselectionRtree_update g objs) = map fst objs"
    using db_names [OF ok] by (simp add: PreselectionRtree_update_def comp_def case_prod_beta)
  have q: "mset (g_rtree_query g (PreselectionRtree_update g objs) cone) =
      mset (filter (\<lambda>e. g_box_intersects g (fst e) cone) (PreselectionRtree_update g objs))" using law by (simp add: rtree_law_def)
  have "distinct (map snd (filter (\<lambda>e. g_box_intersects g (fst e) cone) (PreselectionRtree_update g objs)))"
    by (rule distinct_map_filter) (simp only: names db_okD(2) [OF ok])
  moreover have "mset (map snd (g_rtree_query g (PreselectionRtree_update g objs) cone)) =
      mset (map snd (filter (\<lambda>e. g_box_intersects g (fst e) cone) (PreselectionRtree_update g objs)))" by (simp only: mset_map q)
  ultimately have "distinct (map snd (g_rtree_query g (PreselectionRtree_update g objs) cone))" using mset_eq_imp_distinct_iff by blast
  then show "distinct ids" unfolding ids by (rule distinct_filter)
  have "set (g_rtree_query g (PreselectionRtree_update g objs) cone) \<subseteq> set (PreselectionRtree_update g objs)"
    using mset_eq_setD [OF q] by auto
  moreover have "set (map snd (PreselectionRtree_update g objs)) = fst ` set objs" by (simp only: names set_map)
  ultimately show "set ids \<subseteq> fst ` set objs - {eo_externalId ego}" unfolding ids by auto
qed

interpretation preselector: preselection Preselector_update Preselector_select
proof unfold_locales
  fix g objs p ego config ids
  assume a: "rtree_law g" "db_ok objs" "Preselector_select g objs (Preselector_update g objs p) ego config = Inr ids"
  show "set ids \<subseteq> fst ` set objs - {eo_externalId ego}"
    using a by (cases p) (auto dest: matrix.sel_known polygon.sel_known rtree.sel_known)
  show "distinct ids"
    using a by (cases p) (auto dest: matrix.sel_distinct polygon.sel_distinct rtree.sel_distinct)
qed

section \<open>Bearings\<close>

lemma atan2_polar:
  assumes "0 < r" and "- pi < t" and "t \<le> pi"
  shows "atan2 (r * sin t) (r * cos t) = t"
proof -
  have quot: "(r * sin t) / (r * cos t) = tan t" using assms(1) by (simp add: tan_def)
  have shift: "tan (t - pi) = tan t" "tan (t + pi) = tan t" by (simp_all add: tan_def sin_diff cos_diff)
  consider "\<bar>t\<bar> < pi / 2" | "t = pi / 2" | "t = - (pi / 2)" | "pi / 2 < t" | "t < - (pi / 2)" by linarith
  then show ?thesis
  proof cases
    case 1
    then have "0 < cos t" by (intro cos_gt_zero_pi) auto
    then show ?thesis using assms(1) 1 quot by (simp add: atan2_def arctan_tan)
  next
    case 2
    show ?thesis unfolding 2 using assms(1) by (simp add: atan2_def)
  next
    case 3
    show ?thesis unfolding 3 using assms(1) by (simp add: atan2_def)
  next
    case 4
    have "0 < cos (t - pi)" using 4 assms by (intro cos_gt_zero_pi) auto
    then have c: "r * cos t < 0" using assms(1) by (simp add: cos_diff mult_pos_neg)
    have "0 \<le> r * sin t" using 4 assms by (intro mult_nonneg_nonneg sin_ge_zero) auto
    moreover have "arctan (tan (t - pi)) = t - pi" using 4 assms by (intro arctan_tan) auto
    ultimately show ?thesis using c quot shift by (simp add: atan2_def)
  next
    case 5
    have "0 < cos (t + pi)" using 5 assms by (intro cos_gt_zero_pi) auto
    then have c: "r * cos t < 0" using assms(1) by (simp add: mult_pos_neg)
    have "0 < sin (t + pi)" using 5 assms by (intro sin_gt_zero) auto
    then have "r * sin t < 0" using assms(1) by (simp add: mult_pos_neg)
    moreover have "arctan (tan (t + pi)) = t + pi" using 5 assms by (intro arctan_tan) auto
    ultimately show ?thesis using c quot shift by (simp add: atan2_def)
  qed
qed

lemma atan2_any:
  assumes "0 < r"
  shows "\<exists>k::int. atan2 (r * sin t) (r * cos t) = t - 2 * pi * of_int k \<and> - pi < t - 2 * pi * of_int k \<and> t - 2 * pi * of_int k \<le> pi"
proof -
  define k where "k = \<lceil>(t - pi) / (2 * pi)\<rceil>"
  have "(t - pi) / (2 * pi) \<le> of_int k" "of_int k < (t - pi) / (2 * pi) + 1" unfolding k_def by linarith+
  then have range: "- pi < t - 2 * pi * of_int k" "t - 2 * pi * of_int k \<le> pi" by (simp_all add: field_simps)
  have "sin (t - 2 * pi * of_int k) = sin t" "cos (t - 2 * pi * of_int k) = cos t" by (simp_all add: sin_diff cos_diff)
  with atan2_polar [OF assms range] range show ?thesis by metis
qed

lemma unique_multiple:
  fixes c :: real
  assumes "a - b = c + 2 * pi * of_int k" and "- pi < a" "a \<le> pi" "- pi < b" "b \<le> pi" "- pi < c" "c < pi"
  shows "(if a - b > pi then a - b - 2 * pi else if a - b < - pi then a - b + 2 * pi else a - b) = c"
proof -
  have "2 * pi * of_int k < 2 * pi * 2" "2 * pi * (- 2) < 2 * pi * of_int k" using assms by linarith+
  then have "of_int k < (2 :: real)" "(- 2 :: real) < of_int k" by (simp_all only: mult_less_cancel_left_pos [of "2 * pi"] pi_gt_zero zero_less_mult_iff zero_less_numeral simp_thms)
  then have "k = -1 \<or> k = 0 \<or> k = 1" by linarith
  then show ?thesis using assms by auto
qed

text \<open>The angle to an object is its bearing to the left of the driving direction, in degrees.\<close>

lemma calcAngle_bearing:
  assumes "rotation_law g" and "0 < d" and "- pi < b" and "b < pi"
    and "mPosition (eo_vdp objX) = (fst (mPosition (eo_vdp ego)) + d * sin (mHeading (eo_vdp ego) + b),
           snd (mPosition (eo_vdp ego)) - d * cos (mHeading (eo_vdp ego) + b))"
  shows "calcAngleEgoToX g ego objX = - b * (180 / pi)"
proof -
  let ?h = "mHeading (eo_vdp ego)"
  have trig: "sin (pi - x) = sin x" "cos (pi - x) = - cos x" for x :: real by (simp_all add: sin_diff cos_diff)
  obtain k where k: "atan2 (sin ?h) (- cos ?h) = pi - ?h - 2 * pi * of_int k"
    "- pi < pi - ?h - 2 * pi * of_int k" "pi - ?h - 2 * pi * of_int k \<le> pi"
    using atan2_any [of 1 "pi - ?h"] by (auto simp: trig)
  obtain j where j: "atan2 (d * sin (?h + b)) (- (d * cos (?h + b))) = pi - (?h + b) - 2 * pi * of_int j"
    "- pi < pi - (?h + b) - 2 * pi * of_int j" "pi - (?h + b) - 2 * pi * of_int j \<le> pi"
    using atan2_any [OF assms(2), of "pi - (?h + b)"] by (auto simp: trig)
  have cancel_diff: "x - y - x = - y" for x y :: real by simp
  have eq: "(pi - (?h + b) - 2 * pi * of_int j) - (pi - ?h - 2 * pi * of_int k) = - b + 2 * pi * of_int (k - j)"
    by (simp add: algebra_simps)
  have range: "- pi < - b" "- b < pi" using assms(3,4) by simp_all
  note angle = unique_multiple [OF eq j(2,3) k(2,3) range]
  have "calcAngleEgoToX g ego objX = createAngle (fst (mPosition (eo_vdp ego)) + sin ?h, snd (mPosition (eo_vdp ego)) - cos ?h)
      (mPosition (eo_vdp objX)) (mPosition (eo_vdp ego)) * (180 / pi)"
    using assms(1) by (simp add: calcAngleEgoToX_def Let_def rotation_law_def plane_rotation_def add.commute)
  also have "createAngle (fst (mPosition (eo_vdp ego)) + sin ?h, snd (mPosition (eo_vdp ego)) - cos ?h)
      (mPosition (eo_vdp objX)) (mPosition (eo_vdp ego)) = - b"
    unfolding createAngle_def assms(5) Let_def fst_conv snd_conv add_diff_cancel_left' cancel_diff k(1) j(1) by (rule angle)
  finally show ?thesis .
qed

section \<open>Properties\<close>

text \<open>The direction a sensor looks at, to the left of the driving direction and in (-180, 180].\<close>

definition sensor_direction :: "SensorPosition \<Rightarrow> real" where
  "sensor_direction pos = (case pos of FRONT \<Rightarrow> 0 | BACK \<Rightarrow> 180 | LEFT \<Rightarrow> 90 | RIGHT \<Rightarrow> - 90 | VIRTUAL \<Rightarrow> 0)"

lemma wrap_id: "- 180 \<le> a \<Longrightarrow> a \<le> 180 \<Longrightarrow> wrap_angle a = a"
  by (simp add: wrap_angle_def)

lemma selector_built:
  assumes "egoID config \<noteq> []" and "fov_range config \<noteq> 0" and "fov_angle config \<le> 360" and "sensorPosition config \<noteq> VIRTUAL"
  shows "buildItemSelector config = Inr (Some \<lparr>sel_left = wrap_angle (sensor_direction (sensorPosition config) - fov_angle config / 2),
     sel_right = wrap_angle (sensor_direction (sensorPosition config) + fov_angle config / 2), sel_range = fov_range config\<rparr>)"
  using assms by (cases "sensorPosition config") (simp_all add: buildItemSelector_def sensor_direction_def Let_def)

lemma matrix_select_filter:
  assumes "db_ok objs" and "map_of objs (egoID config) = Some ego" and "buildItemSelector config = Inr s"
  shows "InterdistanceMatrix_select (InterdistanceMatrix_update g objs) ego config =
    Inr (map eo_externalId (filter (\<lambda>x. egoID config \<noteq> eo_externalId x \<and> checkItemSelector s (matrix_item g ego x)) (map snd objs)))"
proof -
  have "eo_externalId ego = egoID config" using assms(1,2) by (auto simp: db_ok_def dest: map_of_SomeD)
  then show ?thesis using assms by (simp add: InterdistanceMatrix_select_def matrix_row filter_map comp_def)
qed

text \<open>The interdistance matrix selects for a sensor whose cone does not reach across the rear exactly the
  objects whose centre is within range plus radius and whose bearing from the driving direction lies strictly inside
  the opening angle around the direction the sensor looks at.  (A bearing \<open>b\<close> is measured clockwise, as headings are.)\<close>

theorem matrix_selects_cone:
  assumes "rotation_law g" and "db_ok objs" and "map_of objs (egoID config) = Some ego" and "egoID config \<noteq> []"
    and "0 < fov_range config \<and> 0 \<le> fov_angle config" and "sensorPosition config \<noteq> VIRTUAL"
    and "- 180 \<le> sensor_direction (sensorPosition config) - fov_angle config / 2"
    and "sensor_direction (sensorPosition config) + fov_angle config / 2 \<le> 180"
    and "map_of objs i = Some objX" and "i \<noteq> egoID config" and "0 < d" and "- pi < b" and "b < pi"
    and "mPosition (eo_vdp objX) = (fst (mPosition (eo_vdp ego)) + d * sin (mHeading (eo_vdp ego) + b),
           snd (mPosition (eo_vdp ego)) - d * cos (mHeading (eo_vdp ego) + b))"
  shows "\<exists>ids. InterdistanceMatrix_select (InterdistanceMatrix_update g objs) ego config = Inr ids
    \<and> (i \<in> set ids \<longleftrightarrow> position_distance (eo_centrePoint ego) (eo_centrePoint objX) \<le> fov_range config + eo_radius objX
         \<and> \<bar>- b * (180 / pi) - sensor_direction (sensorPosition config)\<bar> < fov_angle config / 2)"
proof -
  let ?dir = "sensor_direction (sensorPosition config)"
  let ?s = "\<lparr>sel_left = wrap_angle (?dir - fov_angle config / 2), sel_right = wrap_angle (?dir + fov_angle config / 2), sel_range = fov_range config\<rparr>"
  have "fov_angle config \<le> 360" using assms(7,8) by linarith
  then have s: "buildItemSelector config = Inr (Some ?s)" using assms(4-6) by (intro selector_built) auto
  have wrap: "wrap_angle (?dir - fov_angle config / 2) < a \<and> a < wrap_angle (?dir + fov_angle config / 2) \<longleftrightarrow> \<bar>a - ?dir\<bar> < fov_angle config / 2" for a
  proof -
    have "wrap_angle (?dir - fov_angle config / 2) = ?dir - fov_angle config / 2" "wrap_angle (?dir + fov_angle config / 2) = ?dir + fov_angle config / 2"
      using assms(5,7,8) by (auto intro!: wrap_id)
    then show ?thesis unfolding abs_less_iff by auto
  qed
  have "- b * (180 / pi) < 180" "- 180 < - b * (180 / pi)" using assms(12,13) by (simp_all add: field_simps)
  then have item: "angleToY (matrix_item g ego objX) = - b * (180 / pi)"
    "distanceToY (matrix_item g ego objX) = position_distance (eo_centrePoint ego) (eo_centrePoint objX)" "mi_radius (matrix_item g ego objX) = eo_radius objX"
    using calcAngle_bearing [OF assms(1) assms(11-14)] by (simp_all add: matrix_item_def Let_def MatrixItem_new_def)
  have x: "(i, objX) \<in> set objs" "eo_externalId objX = i" using map_of_SomeD [OF assms(9)] db_okD(1) [OF assms(2)] by auto
  have inj: "y = objX" if "(k, y) \<in> set objs" "eo_externalId y = i" for k y
    using that db_okD(1) [OF assms(2) that(1)] assms(9) map_of_is_SomeI [OF db_okD(2) [OF assms(2)] that(1)] by simp
  have "i \<in> set (map eo_externalId (filter (\<lambda>x. egoID config \<noteq> eo_externalId x \<and> checkItemSelector (Some ?s) (matrix_item g ego x)) (map snd objs)))
      \<longleftrightarrow> checkItemSelector (Some ?s) (matrix_item g ego objX)"
    (is "?in \<longleftrightarrow> ?chk")
  proof
    assume ?in
    then show ?chk using inj by auto
  next
    assume ?chk
    then have "objX \<in> set (filter (\<lambda>x. egoID config \<noteq> eo_externalId x \<and> checkItemSelector (Some ?s) (matrix_item g ego x)) (map snd objs))"
      using x assms(10) by (auto intro!: rev_image_eqI [OF x(1)])
    from imageI [OF this, of eo_externalId] show ?in unfolding x(2) set_map .
  qed
  also have "\<dots> \<longleftrightarrow> position_distance (eo_centrePoint ego) (eo_centrePoint objX) \<le> fov_range config + eo_radius objX
         \<and> \<bar>- b * (180 / pi) - ?dir\<bar> < fov_angle config / 2"
    using wrap [of "- b * (180 / pi)"] by (simp only: checkItemSelector.simps item ItemSelector.simps) blast
  finally show ?thesis using matrix_select_filter [OF assms(2,3) s, of g] by blast
qed

text \<open>With the interdistance matrix a rear radar never detects anything: the right end of its opening angle wraps around to
  the far side of the left end, whatever the opening angle and wherever the other objects are.\<close>

theorem rear_radar_blind:
  assumes "db_ok objs" and "map_of objs (egoID config) = Some ego" and "egoID config \<noteq> []" and "fov_range config \<noteq> 0"
    and "sensorPosition config = BACK" and "0 \<le> fov_angle config" and "fov_angle config \<le> 360"
  shows "InterdistanceMatrix_select (InterdistanceMatrix_update g objs) ego config = Inr []"
proof -
  have s: "buildItemSelector config = Inr (Some \<lparr>sel_left = wrap_angle (180 - fov_angle config / 2),
     sel_right = wrap_angle (180 + fov_angle config / 2), sel_range = fov_range config\<rparr>)"
    using selector_built [of config] assms by (simp add: sensor_direction_def)
  have left: "wrap_angle (180 - fov_angle config / 2) = 180 - fov_angle config / 2" using assms(6,7) by (simp add: wrap_angle_def)
  have right: "wrap_angle (180 + fov_angle config / 2) = (if fov_angle config = 0 then 180 else fov_angle config / 2 - 180)"
    using assms(6,7) by (simp add: wrap_angle_def)
  have "\<not> (wrap_angle (180 - fov_angle config / 2) < a \<and> a < wrap_angle (180 + fov_angle config / 2))" for a
    using assms(7) unfolding left right by (cases "fov_angle config = 0") (simp_all add: field_simps)
  then have "filter (\<lambda>x. egoID config \<noteq> eo_externalId x \<and> checkItemSelector (Some \<lparr>sel_left = wrap_angle (180 - fov_angle config / 2),
     sel_right = wrap_angle (180 + fov_angle config / 2), sel_range = fov_range config\<rparr>) (matrix_item g ego x)) (map snd objs) = []"
    by (auto simp: filter_empty_conv)
  then show ?thesis using matrix_select_filter [OF assms(1,2) s, of g] by simp
qed

text \<open>Bounding boxes are a conservative filter: whatever the polygon method selects, the R-tree method selects too, given that the
  envelope of an outline meets every polygon the outline meets.\<close>

theorem rtree_covers_polygon:
  assumes "rtree_law g" and "\<And>outline cone. g_intersects g outline cone \<Longrightarrow> g_box_intersects g (g_envelope g outline) cone"
    and "PreselectionPolygon_select g objs ego config = Inr ids"
  shows "\<exists>ids'. PreselectionRtree_select g (PreselectionRtree_update g objs) ego config = Inr ids' \<and> set ids \<subseteq> set ids'"
proof -
  from assms(3) obtain cone where cone: "createSensorArc g config ego = Inr cone" "g_is_valid g cone"
    and ids: "ids = map eo_externalId (filter (\<lambda>object. eo_externalId object \<noteq> eo_externalId ego \<and> g_intersects g (eo_outline object) cone) (map snd objs))"
    by (auto simp: PreselectionPolygon_select_def rbind_ok_iff split: if_splits)
  have "mset (g_rtree_query g t cone) = mset (filter (\<lambda>e. g_box_intersects g (fst e) cone) t)" for t
    using assms(1) by (simp add: rtree_law_def)
  then have "set (g_rtree_query g t cone) = set (filter (\<lambda>e. g_box_intersects g (fst e) cone) t)" for t by (rule mset_eq_setD)
  note q = this [of "PreselectionRtree_update g objs"]
  have "set ids \<subseteq> set (filter (\<lambda>i. i \<noteq> eo_externalId ego) (map snd (g_rtree_query g (PreselectionRtree_update g objs) cone)))"
  proof
    fix i assume "i \<in> set ids"
    then obtain k object where ob: "(k, object) \<in> set objs" "i = eo_externalId object" "i \<noteq> eo_externalId ego" "g_intersects g (eo_outline object) cone"
      by (auto simp: ids)
    then have "(g_envelope g (eo_outline object), i) \<in> set (g_rtree_query g (PreselectionRtree_update g objs) cone)"
      unfolding q using assms(2) [OF ob(4)] by (force simp: PreselectionRtree_update_def)
    then show "i \<in> set (filter (\<lambda>i. i \<noteq> eo_externalId ego) (map snd (g_rtree_query g (PreselectionRtree_update g objs) cone)))"
      using ob(3) by force
  qed
  with cone show ?thesis by (simp add: PreselectionRtree_select_def)
qed

section \<open>Examples\<close>

text \<open>Two vehicles of radius 2 driving north (towards smaller ordinates), the second 10 metres ahead of the first.\<close>

definition example_object :: "nat \<Rightarrow> string \<Rightarrow> Point \<Rightarrow> EnvironmentModelObject" where
  "example_object ptr vid pos =
     \<lparr>eo_ptr = ptr, eo_externalId = vid, eo_vdp = (VehicleDataProvider_new 1)\<lparr>mPosition := pos, mHeading := 0\<rparr>, eo_length = 4, eo_width = 2,
      eo_radius = 2, eo_outline = [(fst pos, snd pos)], eo_attachmentPoints = [pos, pos, pos, pos], eo_centrePoint = pos\<rparr>"

definition example_objects :: ObjectDB where
  "example_objects = [(''a'', example_object 1 ''a'' (0, 0)), (''b'', example_object 2 ''b'' (0, - 10))]"

lemma example_objects_ok: "db_ok example_objects"
  by (simp add: db_ok_def example_objects_def example_object_def)

lemma plane_more_laws: "rotation_law plane" "rtree_law plane"
  using plane_rotation_law by (simp_all add: rtree_law_def plane_def)

theorem matrix_selects_cone_witness:
  "\<exists>ids. InterdistanceMatrix_select (InterdistanceMatrix_update plane example_objects) (example_object 1 ''a'' (0, 0)) (front_config ''a'') = Inr ids
     \<and> ''b'' \<in> set ids"
proof -
  have "\<exists>ids. InterdistanceMatrix_select (InterdistanceMatrix_update plane example_objects) (example_object 1 ''a'' (0, 0)) (front_config ''a'') = Inr ids
    \<and> (''b'' \<in> set ids \<longleftrightarrow> position_distance (eo_centrePoint (example_object 1 ''a'' (0, 0))) (eo_centrePoint (example_object 2 ''b'' (0, - 10)))
           \<le> fov_range (front_config ''a'') + eo_radius (example_object 2 ''b'' (0, - 10))
         \<and> \<bar>- 0 * (180 / pi) - sensor_direction (sensorPosition (front_config ''a''))\<bar> < fov_angle (front_config ''a'') / 2)"
    by (rule matrix_selects_cone [OF plane_more_laws(1) example_objects_ok, where d = 10])
      (simp_all add: example_objects_def example_object_def front_config_def sensor_direction_def)
  then show ?thesis by (simp add: example_object_def front_config_def sensor_direction_def position_distance_def)
qed

theorem rear_radar_blind_witness:
  "InterdistanceMatrix_select (InterdistanceMatrix_update plane example_objects) (example_object 2 ''b'' (0, - 10))
     ((front_config ''b'')\<lparr>sensorPosition := BACK\<rparr>) = Inr []"
  by (rule rear_radar_blind [OF example_objects_ok]) (simp_all add: example_objects_def front_config_def)

theorem rtree_covers_polygon_witness:
  "\<exists>ids'. PreselectionRtree_select plane (PreselectionRtree_update plane example_objects) (example_object 1 ''a'' (0, 0)) (front_config ''a'') = Inr ids'
     \<and> {''b''} \<subseteq> set ids'"
proof -
  obtain cone where "createSensorArc_at plane (front_config ''a'') (0, 0) 0 = Inr cone"
    by (simp add: createSensorArc_at_def front_config_def Let_def)
  then have "PreselectionPolygon_select plane example_objects (example_object 1 ''a'' (0, 0)) (front_config ''a'') = Inr [''b'']"
    by (simp add: PreselectionPolygon_select_def createSensorArc_def getAttachmentPoint_def example_objects_def example_object_def plane_def front_config_def)
  from rtree_covers_polygon [OF plane_more_laws(2) _ this] show ?thesis by (simp add: plane_def)
qed

end
