(* ===== verification/EnvTracking.thy ===== *)
theory EnvTracking
  imports Artery_Prelude
begin

text \<open>
  \<open>artery/envmod/LocalEnvironmentModel\<close>: the objects a vehicle's sensors currently see.  Objects (by weak pointers)
  and sensors are addresses; whether an object still exists is the argument \<open>alive\<close> (\<open>EnvGlobal\<close>
  computes it from the global model and the detections the radars hold), a sensor's validity period and category are
  arguments as well.  The abstract view of the model is the time at which a
  sensor saw an object last.
\<close>

section \<open>Tracking\<close>

record TrackingTime =
  mFirst :: simtime
  mLast :: simtime

definition TrackingTime_new :: "simtime \<Rightarrow> TrackingTime" where
  "TrackingTime_new now = \<lparr>mFirst = now, mLast = now\<rparr>"

definition TrackingTime_tap :: "simtime \<Rightarrow> TrackingTime \<Rightarrow> TrackingTime" where
  "TrackingTime_tap now t = t\<lparr>mLast := now\<rparr>"

type_synonym Tracking = "(nat, TrackingTime) omap"

definition Tracking_new :: "simtime \<Rightarrow> nat \<Rightarrow> Tracking" where
  "Tracking_new now sensor = [(sensor, TrackingTime_new now)]"

definition Tracking_expired :: "Tracking \<Rightarrow> bool" where
  "Tracking_expired t \<longleftrightarrow> t = []"

definition Tracking_update :: "(nat \<Rightarrow> simtime) \<Rightarrow> simtime \<Rightarrow> Tracking \<Rightarrow> Tracking" where
  "Tracking_update getValidityPeriod now t =
     filter (\<lambda>(sensor, tracking). \<not> mLast tracking + getValidityPeriod sensor < now) t"

definition Tracking_tap :: "simtime \<Rightarrow> nat \<Rightarrow> Tracking \<Rightarrow> Tracking" where
  "Tracking_tap now sensor t =
     (case map_of t sensor of
        Some tracking \<Rightarrow> omap_put sensor (TrackingTime_tap now tracking) t
      | None \<Rightarrow> omap_put sensor (TrackingTime_new now) t)"

section \<open>The local environment model\<close>

type_synonym TrackedObjects = "(nat, Tracking) omap"

definition complement_object :: "simtime \<Rightarrow> nat \<Rightarrow> nat \<Rightarrow> TrackedObjects \<Rightarrow> TrackedObjects" where
  "complement_object now sensor detectedObject m =
     (case map_of m detectedObject of
        Some tracking \<Rightarrow> omap_put detectedObject (Tracking_tap now sensor tracking) m
      | None \<Rightarrow> omap_put detectedObject (Tracking_new now sensor) m)"

definition complementObjects :: "simtime \<Rightarrow> nat list \<Rightarrow> nat \<Rightarrow> TrackedObjects \<Rightarrow> TrackedObjects" where
  "complementObjects now objects sensor m = fold (complement_object now sensor) objects m"

text \<open>\<open>update\<close> erases while it iterates.\<close>

fun LocalEnvironmentModel_update ::
    "(nat \<Rightarrow> simtime) \<Rightarrow> (nat \<Rightarrow> bool) \<Rightarrow> simtime \<Rightarrow> TrackedObjects \<Rightarrow> TrackedObjects" where
  "LocalEnvironmentModel_update getValidityPeriod alive now [] = []"
| "LocalEnvironmentModel_update getValidityPeriod alive now ((object, tracking) # m) =
     (let tracking = Tracking_update getValidityPeriod now tracking
      in if \<not> alive object \<or> Tracking_expired tracking
         then LocalEnvironmentModel_update getValidityPeriod alive now m
         else (object, tracking) # LocalEnvironmentModel_update getValidityPeriod alive now m)"

text \<open>On the refresh signal every sensor measures; the objects sensor \<open>s\<close> detects are \<open>detect s\<close>.\<close>

definition LocalEnvironmentModel_receiveSignal ::
    "(nat \<Rightarrow> simtime) \<Rightarrow> (nat \<Rightarrow> bool) \<Rightarrow> (nat \<Rightarrow> nat list) \<Rightarrow> nat list \<Rightarrow> simtime \<Rightarrow> TrackedObjects \<Rightarrow> TrackedObjects" where
  "LocalEnvironmentModel_receiveSignal getValidityPeriod alive detect sensors now m =
     LocalEnvironmentModel_update getValidityPeriod alive now (fold (\<lambda>s. complementObjects now (detect s) s) sensors m)"

definition filterBySensorCategory :: "(nat \<Rightarrow> string) \<Rightarrow> TrackedObjects \<Rightarrow> string \<Rightarrow> TrackedObjects" where
  "filterBySensorCategory getSensorCategory all category =
     filter (\<lambda>(object, detections). list_ex (\<lambda>(sensor, t). getSensorCategory sensor = category) detections) all"

definition CamSensor_validity :: simtime where "CamSensor_validity = simtime_ms 1100"
definition RadarSensor_validity :: simtime where "RadarSensor_validity = simtime_ms 200"

section \<open>Abstract view and invariant\<close>

text \<open>When a sensor saw an object last, as far as that is remembered.\<close>

definition last_seen :: "TrackedObjects \<Rightarrow> nat \<Rightarrow> nat \<Rightarrow> simtime option" where
  "last_seen m object sensor =
     (case map_of m object of None \<Rightarrow> None | Some t \<Rightarrow> map_option mLast (map_of t sensor))"

definition tracked_ok :: "TrackedObjects \<Rightarrow> bool" where
  "tracked_ok m \<longleftrightarrow> omap_ok m \<and> (\<forall>(object, t) \<in> set m. omap_ok t \<and> t \<noteq> [])"

definition spec_see :: "simtime \<Rightarrow> nat set \<Rightarrow> nat \<Rightarrow> (nat \<Rightarrow> nat \<Rightarrow> simtime option) \<Rightarrow> nat \<Rightarrow> nat \<Rightarrow> simtime option" where
  "spec_see now objects sensor seen = (\<lambda>ob s. if ob \<in> objects \<and> s = sensor then Some now else seen ob s)"

definition spec_expire ::
    "(nat \<Rightarrow> simtime) \<Rightarrow> (nat \<Rightarrow> bool) \<Rightarrow> simtime \<Rightarrow> (nat \<Rightarrow> nat \<Rightarrow> simtime option) \<Rightarrow> nat \<Rightarrow> nat \<Rightarrow> simtime option" where
  "spec_expire validity alive now seen =
     (\<lambda>ob s. case seen ob s of Some t \<Rightarrow> if alive ob \<and> now \<le> t + validity s then Some t else None | None \<Rightarrow> None)"

lemma tracked_okD: "tracked_ok m \<Longrightarrow> map_of m ob = Some t \<Longrightarrow> omap_ok t \<and> t \<noteq> []"
  by (auto simp: tracked_ok_def dest: map_of_SomeD)

lemma tracked_ok_put: "tracked_ok m \<Longrightarrow> omap_ok t \<Longrightarrow> t \<noteq> [] \<Longrightarrow> tracked_ok (omap_put ob t m)"
  by (auto simp: tracked_ok_def omap_ok_put set_omap_put)

lemma omap_put_not_Nil [simp]: "omap_put k v m \<noteq> []"
  by (cases m) auto

lemma Tracking_tap_ok:
  assumes "omap_ok t"
  shows "omap_ok (Tracking_tap now s t) \<and> Tracking_tap now s t \<noteq> []"
    "map_option mLast (map_of (Tracking_tap now s t) k) = (if k = s then Some now else map_option mLast (map_of t k))"
  using assms
  by (auto simp: Tracking_tap_def omap_ok_put map_of_omap_put TrackingTime_tap_def TrackingTime_new_def split: option.splits)

lemma complement_one:
  assumes "tracked_ok m"
  shows "tracked_ok (complement_object now s ob m) \<and> last_seen (complement_object now s ob m) = spec_see now {ob} s (last_seen m)"
proof -
  have ok: "omap_ok m" using assms(1) by (simp add: tracked_ok_def)
  show ?thesis
  proof (cases "map_of m ob")
    case None
    then show ?thesis using assms ok
      by (auto simp: complement_object_def tracked_ok_put Tracking_new_def last_seen_def spec_see_def map_of_omap_put TrackingTime_new_def fun_eq_iff
        split: option.splits)
  next
    case (Some t)
    then have "omap_ok t" using tracked_okD [OF assms(1)] by blast
    then show ?thesis using assms ok Some
      by (auto simp: complement_object_def tracked_ok_put Tracking_tap_ok last_seen_def spec_see_def map_of_omap_put fun_eq_iff split: option.splits)
  qed
qed

lemma complementObjects_refines:
  assumes "tracked_ok m"
  shows "tracked_ok (complementObjects now objects s m)
    \<and> last_seen (complementObjects now objects s m) = spec_see now (set objects) s (last_seen m)"
  using assms
proof (induction objects arbitrary: m)
  case (Cons ob objects)
  from Cons.IH [of "complement_object now s ob m"] complement_one [OF Cons.prems, of now s ob] show ?case
    by (auto simp: complementObjects_def spec_see_def fun_eq_iff)
qed (simp add: complementObjects_def spec_see_def)

lemma update_eq:
  "LocalEnvironmentModel_update validity alive now m =
     filter (\<lambda>(ob, t). alive ob \<and> t \<noteq> []) (map (\<lambda>(ob, t). (ob, Tracking_update validity now t)) m)"
  by (induction m) (auto simp: Tracking_expired_def Let_def split: if_splits)

lemma omap_ok_map: "omap_ok (map (\<lambda>(k, v). (k, f v)) m) = omap_ok m"
  by (simp add: omap_ok_def case_prod_beta comp_def)

lemma update_refines:
  assumes "tracked_ok m"
  shows "tracked_ok (LocalEnvironmentModel_update validity alive now m)
    \<and> last_seen (LocalEnvironmentModel_update validity alive now m) = spec_expire validity alive now (last_seen m)"
proof -
  let ?f = "map (\<lambda>(ob, t). (ob, Tracking_update validity now t)) m"
  have ok: "omap_ok ?f" using assms by (simp add: tracked_ok_def omap_ok_map)
  have mo: "map_of ?f ob = map_option (Tracking_update validity now) (map_of m ob)" for ob by (simp add: map_of_map)
  have seen: "map_of (Tracking_update validity now t) s =
      (case map_of t s of None \<Rightarrow> None | Some k \<Rightarrow> if now \<le> mLast k + validity s then Some k else None)" if "omap_ok t" for t s
    using map_of_omap_filter [OF that] by (auto simp: Tracking_update_def not_less split: option.splits)
  have "last_seen (LocalEnvironmentModel_update validity alive now m) ob s = spec_expire validity alive now (last_seen m) ob s" for ob s
  proof (cases "map_of m ob")
    case None
    then show ?thesis by (simp add: last_seen_def update_eq map_of_omap_filter [OF ok] mo spec_expire_def)
  next
    case (Some t)
    then have "omap_ok t" using tracked_okD [OF assms] by blast
    note st = seen [OF this, of s]
    show ?thesis
    proof (cases "Tracking_update validity now t = []")
      case True
      then have "map_of (Tracking_update validity now t) s = None" by simp
      then show ?thesis using True Some st
        by (auto simp: last_seen_def update_eq map_of_omap_filter [OF ok] mo spec_expire_def split: option.splits if_splits)
    next
      case False
      then show ?thesis using Some st
        by (auto simp: last_seen_def update_eq map_of_omap_filter [OF ok] mo spec_expire_def split: option.splits)
    qed
  qed
  moreover have "tracked_ok (LocalEnvironmentModel_update validity alive now m)"
    using assms ok omap_ok_filter [OF ok] by (auto simp: tracked_ok_def update_eq Tracking_update_def intro: omap_ok_filter)
  ultimately show ?thesis by blast
qed

text \<open>An object is tracked if and only if some sensor is remembered to have seen it.\<close>

lemma tracked_iff_seen:
  assumes "tracked_ok m"
  shows "ob \<in> fst ` set m \<longleftrightarrow> (\<exists>s. last_seen m ob s \<noteq> None)"
proof
  assume "ob \<in> fst ` set m"
  then obtain t where t: "map_of m ob = Some t" by (metis map_of_eq_None_iff not_None_eq)
  then have "t \<noteq> []" using tracked_okD [OF assms] by blast
  then obtain s k l where "t = (s, k) # l" by (cases t) auto
  then have "last_seen m ob s \<noteq> None" using t by (simp add: last_seen_def)
  then show "\<exists>s. last_seen m ob s \<noteq> None" ..
next
  assume "\<exists>s. last_seen m ob s \<noteq> None"
  then have "map_of m ob \<noteq> None" by (cases "map_of m ob") (auto simp: last_seen_def)
  then show "ob \<in> fst ` set m" by (simp add: map_of_eq_None_iff)
qed


section \<open>Properties\<close>

definition spec_measure ::
    "simtime \<Rightarrow> (nat \<Rightarrow> nat list) \<Rightarrow> nat list \<Rightarrow> (nat \<Rightarrow> nat \<Rightarrow> simtime option) \<Rightarrow> nat \<Rightarrow> nat \<Rightarrow> simtime option" where
  "spec_measure now detect sensors seen =
     (\<lambda>ob s. if s \<in> set sensors \<and> ob \<in> set (detect s) then Some now else seen ob s)"

lemma measurements_refine:
  assumes "tracked_ok m"
  shows "tracked_ok (fold (\<lambda>s. complementObjects now (detect s) s) sensors m)
    \<and> last_seen (fold (\<lambda>s. complementObjects now (detect s) s) sensors m) = spec_measure now detect sensors (last_seen m)"
  using assms
proof (induction sensors arbitrary: m)
  case (Cons s sensors)
  from Cons.IH [of "complementObjects now (detect s) s m"] complementObjects_refines [OF Cons.prems, of now "detect s" s] show ?case
    by (auto simp: spec_measure_def spec_see_def fun_eq_iff)
qed (simp add: spec_measure_def)

lemma refresh_refines:
  assumes "tracked_ok m"
  shows "tracked_ok (LocalEnvironmentModel_receiveSignal validity alive detect sensors now m)
    \<and> last_seen (LocalEnvironmentModel_receiveSignal validity alive detect sensors now m) =
        spec_expire validity alive now (spec_measure now detect sensors (last_seen m))"
proof -
  note mr = measurements_refine [OF assms, of now detect sensors]
  from update_refines [OF conjunct1 [OF mr], of validity alive now] mr show ?thesis
    by (simp add: LocalEnvironmentModel_receiveSignal_def)
qed

text \<open>C30: A refresh of the local environment model implements its specification: the time a sensor saw an object last is now
  for what the sensor detects, is kept for the rest and is forgotten once the sensor's validity period has
  passed or the object no longer exists; the objects tracked afterwards are exactly the existing ones that
  some sensor saw within its validity period.\<close>

theorem local_model_refresh:
  assumes "tracked_ok m" and "\<And>s. 0 \<le> validity s"
  shows "tracked_ok (LocalEnvironmentModel_receiveSignal validity alive detect sensors now m)
    \<and> last_seen (LocalEnvironmentModel_receiveSignal validity alive detect sensors now m) =
        spec_expire validity alive now (spec_measure now detect sensors (last_seen m))
    \<and> fst ` set (LocalEnvironmentModel_receiveSignal validity alive detect sensors now m) =
        {ob. alive ob \<and> (\<exists>s. (s \<in> set sensors \<and> ob \<in> set (detect s)) \<or> (\<exists>t. last_seen m ob s = Some t \<and> now \<le> t + validity s))}"
proof -
  let ?m = "LocalEnvironmentModel_receiveSignal validity alive detect sensors now m"
  note r = refresh_refines [OF assms(1), of validity alive detect sensors now]
  have "ob \<in> fst ` set ?m \<longleftrightarrow>
      alive ob \<and> (\<exists>s. (s \<in> set sensors \<and> ob \<in> set (detect s)) \<or> (\<exists>t. last_seen m ob s = Some t \<and> now \<le> t + validity s))" for ob
  proof -
    have "ob \<in> fst ` set ?m \<longleftrightarrow> (\<exists>s. spec_expire validity alive now (spec_measure now detect sensors (last_seen m)) ob s \<noteq> None)"
      using tracked_iff_seen [OF conjunct1 [OF r], of ob] r by simp
    moreover have "spec_expire validity alive now (spec_measure now detect sensors (last_seen m)) ob s \<noteq> None \<longleftrightarrow>
        alive ob \<and> ((s \<in> set sensors \<and> ob \<in> set (detect s)) \<or> (\<exists>t. last_seen m ob s = Some t \<and> now \<le> t + validity s))" for s
      using assms(2) [of s] by (cases "s \<in> set sensors \<and> ob \<in> set (detect s)"; cases "last_seen m ob s") (auto simp: spec_expire_def spec_measure_def)
    ultimately show ?thesis by simp
  qed
  then show ?thesis using r by blast
qed

theorem local_model_refresh_witness:
  "fst ` set (LocalEnvironmentModel_receiveSignal (\<lambda>s. RadarSensor_validity) (\<lambda>ob. ob \<noteq> 3) (\<lambda>s. [1, 3]) [7] (simtime_ms 1000)
     [(2, [(7, TrackingTime_new (simtime_ms 900))]), (4, [(7, TrackingTime_new (simtime_ms 700))])]) = {1, 2}"
proof -
  let ?m = "[(2, [(7, TrackingTime_new (simtime_ms 900))]), (4, [(7, TrackingTime_new (simtime_ms 700))])]"
  have ok: "tracked_ok ?m" by (simp add: tracked_ok_def)
  have v: "\<And>s::nat. 0 \<le> RadarSensor_validity" by (simp add: RadarSensor_validity_def simtime_ms_def)
  have seen: "last_seen ?m ob s = Some t \<longleftrightarrow> s = 7 \<and> (ob = 2 \<and> t = simtime_ms 900 \<or> ob = 4 \<and> t = simtime_ms 700)" for ob s t
    by (auto simp: last_seen_def TrackingTime_new_def)
  have ms: "\<not> simtime_ms 1000 \<le> simtime_ms 700 + RadarSensor_validity" "simtime_ms 1000 \<le> simtime_ms 900 + RadarSensor_validity"
    by (simp_all add: RadarSensor_validity_def simtime_ms_def)
  note r = local_model_refresh [OF ok v, of "\<lambda>ob. ob \<noteq> 3" "\<lambda>s. [1, 3]" "[7]" "simtime_ms 1000"]
  show ?thesis unfolding conjunct2 [OF conjunct2 [OF r]] seen using ms by auto
qed

end
