(* ===== verification/EnvGlobal.thy ===== *)
theory EnvGlobal
  imports EnvPreselection EnvTracking Identities TraciCaches
begin

text \<open>
  \<open>artery/envmod/GlobalEnvironmentModel\<close>: the objects and obstacles of the whole simulation, kept up to date by signals of the TraCI
  module, and the detection of objects by radar sensors, with line of sight checks.  The sensors of a vehicle
  (\<open>sensor/RadarSensor\<close>, \<open>sensor/CamSensor\<close>) feed what they detect into its local environment model.  The vehicle
  controllers' answers are the argument \<open>ctrl\<close>; dereferencing a null pointer is an error of its own.
\<close>

section \<open>State\<close>

record EnvironmentModelObstacle =
  eb_id :: string
  eb_outline :: "Point list"

record GlobalEnvironmentModel =
  gem_objects :: ObjectDB
  gem_obstacles :: "(string, EnvironmentModelObstacle) omap"
  gem_rtree :: Rtree
  gem_preselector :: "Preselector option"
  gem_tainted :: bool

definition null_pointer :: cerror where "null_pointer = LogicError ''null pointer''"

record SensorDetection =
  det_cone :: "Point list"
  det_objects :: "EnvironmentModelObject option list"
  det_obstacles :: "EnvironmentModelObstacle list"
  det_visiblePoints :: "Point list"

section \<open>Objects and obstacles\<close>

definition getObject :: "string \<Rightarrow> GlobalEnvironmentModel \<Rightarrow> EnvironmentModelObject option" where
  "getObject objId gem = map_of (gem_objects gem) objId"

definition update_objects :: "Geometry \<Rightarrow> simtime \<Rightarrow> (string \<Rightarrow> VehicleController) \<Rightarrow> ObjectDB \<Rightarrow> ObjectDB result" where
  "update_objects g now ctrl objs =
     rfold (\<lambda>(k, object) updated. rmap (\<lambda>object. updated @ [(k, object)]) (EnvironmentModelObject_update g now (ctrl k) object)) objs []"

definition Preselector_deref_update :: "Geometry \<Rightarrow> GlobalEnvironmentModel \<Rightarrow> GlobalEnvironmentModel result" where
  "Preselector_deref_update g gem =
     (case gem_preselector gem of
        None \<Rightarrow> Inl null_pointer
      | Some p \<Rightarrow> Inr (gem\<lparr>gem_preselector := Some (Preselector_update g (gem_objects gem) p)\<rparr>))"

definition GlobalEnvironmentModel_refresh ::
    "Geometry \<Rightarrow> simtime \<Rightarrow> (string \<Rightarrow> VehicleController) \<Rightarrow> GlobalEnvironmentModel \<Rightarrow> GlobalEnvironmentModel result" where
  "GlobalEnvironmentModel_refresh g now ctrl gem =
     rbind (update_objects g now ctrl (gem_objects gem)) (\<lambda>objs.
       rmap (gem_tainted_update (\<lambda>_. False)) (Preselector_deref_update g (gem\<lparr>gem_objects := objs\<rparr>)))"

text \<open>The new object's address is \<open>ptr\<close>; a registry need not be there.\<close>

definition GlobalEnvironmentModel_addVehicle ::
    "Geometry \<Rightarrow> IdentityRegistry option \<Rightarrow> simtime \<Rightarrow> nat \<Rightarrow> string \<Rightarrow> real \<Rightarrow> real \<Rightarrow> VehicleController \<Rightarrow> GlobalEnvironmentModel
     \<Rightarrow> (bool \<times> GlobalEnvironmentModel) result" where
  "GlobalEnvironmentModel_addVehicle g registry now ptr vid len width vehicle gem =
     (let sid = (case registry of
                   None \<Rightarrow> 0
                 | Some r \<Rightarrow> (case IdentityRegistry_lookup_traci r vid of None \<Rightarrow> 0 | Some identity \<Rightarrow> id_application identity))
      in rmap (\<lambda>object.
           let inserted = (map_of (gem_objects gem) (eo_externalId object) = None);
               gem = (if inserted then gem\<lparr>gem_objects := omap_put (eo_externalId object) object (gem_objects gem)\<rparr> else gem)
           in (inserted, gem\<lparr>gem_tainted := gem_tainted gem \<or> inserted\<rparr>))
         (EnvironmentModelObject_new g now ptr vid len width vehicle sid))"

definition GlobalEnvironmentModel_addObstacle ::
    "Geometry \<Rightarrow> string \<Rightarrow> Point list \<Rightarrow> GlobalEnvironmentModel \<Rightarrow> bool \<times> GlobalEnvironmentModel" where
  "GlobalEnvironmentModel_addObstacle g obstacle_id outline gem =
     (let outline = g_correct g outline
      in if map_of (gem_obstacles gem) obstacle_id = None
         then (True, gem\<lparr>gem_obstacles := omap_put obstacle_id \<lparr>eb_id = obstacle_id, eb_outline = outline\<rparr> (gem_obstacles gem)\<rparr>)
         else (False, gem))"

definition GlobalEnvironmentModel_buildObstacleRtree :: "Geometry \<Rightarrow> GlobalEnvironmentModel \<Rightarrow> GlobalEnvironmentModel result" where
  "GlobalEnvironmentModel_buildObstacleRtree g gem =
     rfold (\<lambda>(k, obstacle) gem.
       if g_is_valid g (eb_outline obstacle)
       then Inr (gem\<lparr>gem_rtree := gem_rtree gem @ [(g_envelope g (eb_outline obstacle), eb_id obstacle)]\<rparr>)
       else Inl (RuntimeError (''invalid obstacle polygon #'' @ eb_id obstacle))) (gem_obstacles gem) gem"

text \<open>The statement after the return is never reached.\<close>

definition GlobalEnvironmentModel_removeVehicle :: "string \<Rightarrow> GlobalEnvironmentModel \<Rightarrow> bool \<times> GlobalEnvironmentModel" where
  "GlobalEnvironmentModel_removeVehicle objID gem =
     (map_of (gem_objects gem) objID \<noteq> None, gem\<lparr>gem_objects := omap_del objID (gem_objects gem)\<rparr>)"

definition GlobalEnvironmentModel_removeVehicles :: "Geometry \<Rightarrow> GlobalEnvironmentModel \<Rightarrow> GlobalEnvironmentModel result" where
  "GlobalEnvironmentModel_removeVehicles g gem =
     rmap (gem_tainted_update (\<lambda>_. False)) (Preselector_deref_update g (gem\<lparr>gem_objects := []\<rparr>))"

definition GlobalEnvironmentModel_clear :: "Geometry \<Rightarrow> GlobalEnvironmentModel \<Rightarrow> GlobalEnvironmentModel result" where
  "GlobalEnvironmentModel_clear g gem =
     rmap (\<lambda>gem. gem\<lparr>gem_obstacles := [], gem_rtree := []\<rparr>) (GlobalEnvironmentModel_removeVehicles g gem)"

text \<open>The polygons of the server with their shapes, in the order of its list of identifiers.\<close>

definition GlobalEnvironmentModel_fetchObstacles ::
    "Geometry \<Rightarrow> LiteAPI \<Rightarrow> (string \<times> TraCIPosition list) list \<Rightarrow> GlobalEnvironmentModel \<Rightarrow> GlobalEnvironmentModel result" where
  "GlobalEnvironmentModel_fetchObstacles g api polygons gem =
     rbind (Boundary_new (api_netBoundary api)) (\<lambda>boundary.
       GlobalEnvironmentModel_buildObstacleRtree g
         (fold (\<lambda>(polygon_id, shape) gem. snd (GlobalEnvironmentModel_addObstacle g polygon_id (map (position_cast_artery boundary) shape) gem))
            polygons gem))"

section \<open>Detection\<close>

text \<open>\<open>std::none_of\<close> with a predicate that may fail.\<close>

fun rnone_of :: "('a \<Rightarrow> bool result) \<Rightarrow> 'a list \<Rightarrow> bool result" where
  "rnone_of f [] = Inr True"
| "rnone_of f (x # xs) = rbind (f x) (\<lambda>b. if b then Inr False else rnone_of f xs)"

definition vehicle_crosses :: "Geometry \<Rightarrow> GlobalEnvironmentModel \<Rightarrow> Point \<times> Point \<Rightarrow> string \<Rightarrow> bool result" where
  "vehicle_crosses g gem lineOfSight objectId =
     (case getObject objectId gem of
        None \<Rightarrow> Inl null_pointer
      | Some object \<Rightarrow> Inr (g_crosses g lineOfSight (eo_outline object)))"

definition obstacle_intersects :: "Geometry \<Rightarrow> GlobalEnvironmentModel \<Rightarrow> Point \<times> Point \<Rightarrow> Box \<times> string \<Rightarrow> bool result" where
  "obstacle_intersects g gem lineOfSight entry =
     (case map_of (gem_obstacles gem) (snd entry) of
        None \<Rightarrow> Inl (RangeError ''map::at'')
      | Some obstacle \<Rightarrow> Inr (g_line_intersects g lineOfSight (eb_outline obstacle)))"

definition push_object :: "EnvironmentModelObject \<Rightarrow> SensorDetection \<Rightarrow> SensorDetection" where
  "push_object object detection =
     (if det_objects detection = [] \<or> map_option eo_ptr (last (det_objects detection)) \<noteq> Some (eo_ptr object)
      then detection\<lparr>det_objects := det_objects detection @ [Some object]\<rparr> else detection)"

text \<open>The loop over the points of an object's outline.\<close>

fun detect_points ::
    "Geometry \<Rightarrow> GlobalEnvironmentModel \<Rightarrow> bool \<Rightarrow> string list \<Rightarrow> Rtree \<Rightarrow> Point \<Rightarrow> EnvironmentModelObject \<Rightarrow> Point list
     \<Rightarrow> SensorDetection \<Rightarrow> SensorDetection result" where
  "detect_points g gem linesOfSight presel obstacleIntersections ego object [] detection = Inr detection"
| "detect_points g gem linesOfSight presel obstacleIntersections ego object (objectPoint # points) detection =
     (if \<not> g_covered_by g objectPoint (det_cone detection)
      then detect_points g gem linesOfSight presel obstacleIntersections ego object points detection
      else rbind (rnone_of (vehicle_crosses g gem (ego, objectPoint)) presel) (\<lambda>noVehicleOccultation.
        rbind (rnone_of (obstacle_intersects g gem (ego, objectPoint)) obstacleIntersections) (\<lambda>noObstacleOccultation.
          if noVehicleOccultation \<and> noObstacleOccultation then
            (let detection = push_object object detection
             in if linesOfSight
                then detect_points g gem linesOfSight presel obstacleIntersections ego object points
                       (detection\<lparr>det_visiblePoints := det_visiblePoints detection @ [objectPoint]\<rparr>)
                else Inr detection)
          else detect_points g gem linesOfSight presel obstacleIntersections ego object points detection)))"

definition detect_visible ::
    "Geometry \<Rightarrow> GlobalEnvironmentModel \<Rightarrow> bool \<Rightarrow> string list \<Rightarrow> Rtree \<Rightarrow> Point \<Rightarrow> string \<Rightarrow> SensorDetection \<Rightarrow> SensorDetection result" where
  "detect_visible g gem linesOfSight presel obstacleIntersections ego objectId detection =
     (case getObject objectId gem of
        None \<Rightarrow> Inl null_pointer
      | Some object \<Rightarrow> detect_points g gem linesOfSight presel obstacleIntersections ego object (eo_outline object) detection)"

definition detectObjects :: "Geometry \<Rightarrow> SensorConfigRadar \<Rightarrow> GlobalEnvironmentModel \<Rightarrow> SensorDetection result" where
  "detectObjects g config gem =
     (if gem_tainted gem then Inl AssertionFailed
      else if fov_range config \<le> 0 then Inl (RuntimeError ''sensor range is 0 meter or less'')
      else if fov_angle config > 360 then Inl (RuntimeError ''sensor opening angle exceeds 360 degree'')
      else case getObject (egoID config) gem of
        None \<Rightarrow> Inl (RuntimeError (''no object found for ID '' @ egoID config))
      | Some egoObj \<Rightarrow>
          rbind (createSensorArc g config egoObj) (\<lambda>sensorCone.
          case gem_preselector gem of
            None \<Rightarrow> Inl AssertionFailed
          | Some preselector \<Rightarrow>
              rbind (Preselector_select g (gem_objects gem) preselector egoObj config) (\<lambda>presel.
              rbind (getAttachmentPoint (sensorPosition config) egoObj) (\<lambda>egoPointPosition.
                let detection = \<lparr>det_cone = sensorCone, det_objects = [], det_obstacles = [], det_visiblePoints = []\<rparr>;
                    obstacleIntersections = g_rtree_query g (gem_rtree gem) sensorCone
                in if doLineOfSightCheck config
                   then rfold (detect_visible g gem (vis_linesOfSight config) presel obstacleIntersections egoPointPosition) presel detection
                   else Inr (detection\<lparr>det_objects := map (\<lambda>objectId. getObject objectId gem) presel\<rparr>)))))"

section \<open>Life cycle\<close>

definition GlobalEnvironmentModel_initialize ::
    "int \<Rightarrow> bool \<Rightarrow> GlobalEnvironmentModel \<Rightarrow> GlobalEnvironmentModel result" where
  "GlobalEnvironmentModel_initialize preselectionMethod traci gem =
     rbind (Preselector_new preselectionMethod) (\<lambda>p.
       if traci then Inr (gem\<lparr>gem_preselector := Some p, gem_tainted := False\<rparr>)
       else Inl (RuntimeError ''No TraCI module found for signal subscription''))"

text \<open>A new model; \<open>gem_tainted\<close> has whatever value its memory has.\<close>

definition GlobalEnvironmentModel_new :: "bool \<Rightarrow> GlobalEnvironmentModel" where
  "GlobalEnvironmentModel_new tainted =
     \<lparr>gem_objects = [], gem_obstacles = [], gem_rtree = [], gem_preselector = None, gem_tainted = tainted\<rparr>"

text \<open>The signals it listens to.  A node that is added comes with its vehicle controller, if it has one: address of the
  object to create, identifier, length, width and the controller's answers.\<close>

datatype EnvSignal =
    TraciInit LiteAPI "(string \<times> TraCIPosition list) list"
  | TraciClose
  | NodeAdd "(nat \<times> string \<times> real \<times> real \<times> VehicleController) option"
  | NodeRemove string
  | NodeUpdate "string \<Rightarrow> VehicleController"

fun GlobalEnvironmentModel_receiveSignal ::
    "Geometry \<Rightarrow> IdentityRegistry option \<Rightarrow> simtime \<Rightarrow> EnvSignal \<Rightarrow> GlobalEnvironmentModel \<Rightarrow> GlobalEnvironmentModel result" where
  "GlobalEnvironmentModel_receiveSignal g registry now (TraciInit api polygons) gem = GlobalEnvironmentModel_fetchObstacles g api polygons gem"
| "GlobalEnvironmentModel_receiveSignal g registry now TraciClose gem = GlobalEnvironmentModel_clear g gem"
| "GlobalEnvironmentModel_receiveSignal g registry now (NodeAdd None) gem = Inr gem"
| "GlobalEnvironmentModel_receiveSignal g registry now (NodeAdd (Some (ptr, vid, len, width, vehicle))) gem =
     rmap snd (GlobalEnvironmentModel_addVehicle g registry now ptr vid len width vehicle gem)"
| "GlobalEnvironmentModel_receiveSignal g registry now (NodeRemove vid) gem = Inr (snd (GlobalEnvironmentModel_removeVehicle vid gem))"
| "GlobalEnvironmentModel_receiveSignal g registry now (NodeUpdate ctrl) gem = GlobalEnvironmentModel_refresh g now ctrl gem"

section \<open>Sensors\<close>

text \<open>\<open>measurement\<close> of a camera of messages does nothing; that of a radar detects.  \<open>complementObjects\<close> takes addresses, the null
  pointer is 0.  A radar keeps its last detection, and with it the objects detected: \<open>held\<close> lists, for the radars of all vehicles, the
  addresses of these objects.\<close>

datatype Sensor = CamSensor | RadarSensor SensorConfigRadar

type_synonym LastDetections = "(nat, nat list) omap"

definition object_ptr :: "EnvironmentModelObject option \<Rightarrow> nat" where
  "object_ptr object = (case object of None \<Rightarrow> 0 | Some object \<Rightarrow> eo_ptr object)"

fun Sensor_measurement ::
    "Geometry \<Rightarrow> GlobalEnvironmentModel \<Rightarrow> simtime \<Rightarrow> nat \<times> Sensor \<Rightarrow> TrackedObjects \<times> LastDetections
     \<Rightarrow> (TrackedObjects \<times> LastDetections) result" where
  "Sensor_measurement g gem now (s, CamSensor) (m, held) = Inr (m, held)"
| "Sensor_measurement g gem now (s, RadarSensor config) (m, held) =
     rmap (\<lambda>detection. (complementObjects now (map object_ptr (det_objects detection)) s m,
                        omap_put s (map object_ptr (det_objects detection)) held)) (detectObjects g config gem)"

fun getValidityPeriod :: "Sensor \<Rightarrow> simtime" where
  "getValidityPeriod CamSensor = CamSensor_validity"
| "getValidityPeriod (RadarSensor config) = RadarSensor_validity"

definition sensor_validity :: "(nat \<times> Sensor) list \<Rightarrow> nat \<Rightarrow> simtime" where
  "sensor_validity sensors s = (case map_of sensors s of None \<Rightarrow> 0 | Some sensor \<Rightarrow> getValidityPeriod sensor)"

text \<open>The shared pointers to an object are those of the global model and of the radars' last detections: a weak pointer of a local model
  has not expired as long as one of them is left.\<close>

definition known_object :: "GlobalEnvironmentModel \<Rightarrow> nat \<Rightarrow> bool" where
  "known_object gem ptr \<longleftrightarrow> list_ex (\<lambda>e. eo_ptr (snd e) = ptr) (gem_objects gem)"

definition object_alive :: "GlobalEnvironmentModel \<Rightarrow> LastDetections \<Rightarrow> nat \<Rightarrow> bool" where
  "object_alive gem held ptr \<longleftrightarrow> known_object gem ptr \<or> ptr \<noteq> 0 \<and> list_ex (\<lambda>(s, ptrs). ptr \<in> set ptrs) held"

definition LocalEnvironmentModel_refreshed ::
    "Geometry \<Rightarrow> GlobalEnvironmentModel \<Rightarrow> (nat \<times> Sensor) list \<Rightarrow> simtime \<Rightarrow> TrackedObjects \<times> LastDetections
     \<Rightarrow> (TrackedObjects \<times> LastDetections) result" where
  "LocalEnvironmentModel_refreshed g gem sensors now mh =
     rmap (\<lambda>(m, held). (LocalEnvironmentModel_update (sensor_validity sensors) (object_alive gem held) now m, held))
       (rfold (Sensor_measurement g gem now) sensors mh)"

text \<open>The refresh signal reaches the local models of the vehicles one after the other.\<close>

fun refresh_locals ::
    "Geometry \<Rightarrow> GlobalEnvironmentModel \<Rightarrow> simtime \<Rightarrow> ((nat \<times> Sensor) list \<times> TrackedObjects) list \<Rightarrow> LastDetections
     \<Rightarrow> (((nat \<times> Sensor) list \<times> TrackedObjects) list \<times> LastDetections) result" where
  "refresh_locals g gem now [] held = Inr ([], held)"
| "refresh_locals g gem now ((sensors, m) # locals) held =
     rbind (LocalEnvironmentModel_refreshed g gem sensors now (m, held)) (\<lambda>(m, held).
       rmap (\<lambda>(locals, held). ((sensors, m) # locals, held)) (refresh_locals g gem now locals held))"

text \<open>\<open>initialize\<close> of the radars: the cone from the parameters, position and identifiers by the kind of radar.\<close>

definition RadarSensor_initialize :: "real \<Rightarrow> real \<Rightarrow> 32 word \<Rightarrow> SensorConfigRadar \<Rightarrow> SensorConfigRadar" where
  "RadarSensor_initialize fovRange fovAngle segments config = config\<lparr>fov_range := fovRange, fov_angle := fovAngle, numSegments := segments\<rparr>"

definition FrontRadar_initialize :: "real \<Rightarrow> real \<Rightarrow> 32 word \<Rightarrow> string \<Rightarrow> 32 word \<Rightarrow> SensorConfigRadar \<Rightarrow> SensorConfigRadar" where
  "FrontRadar_initialize fovRange fovAngle segments ego sid config =
     (RadarSensor_initialize fovRange fovAngle segments config)\<lparr>sensorPosition := FRONT, egoID := ego, sensorID := sid\<rparr>"

definition RearRadar_initialize :: "real \<Rightarrow> real \<Rightarrow> 32 word \<Rightarrow> string \<Rightarrow> 32 word \<Rightarrow> SensorConfigRadar \<Rightarrow> SensorConfigRadar" where
  "RearRadar_initialize fovRange fovAngle segments ego sid config =
     (RadarSensor_initialize fovRange fovAngle segments config)\<lparr>sensorPosition := BACK, egoID := ego, sensorID := sid\<rparr>"

text \<open>A received message from a known station makes its object seen, at whatever address \<open>getObject\<close> answers.\<close>

definition CamSensor_receiveSignal ::
    "GlobalEnvironmentModel \<Rightarrow> IdentityRegistry \<Rightarrow> simtime \<Rightarrow> nat \<Rightarrow> 32 word option \<Rightarrow> TrackedObjects \<Rightarrow> TrackedObjects" where
  "CamSensor_receiveSignal gem registry now sensor cam m =
     (case cam of
        None \<Rightarrow> m
      | Some stationID \<Rightarrow>
         (case IdentityRegistry_lookup_application registry stationID of
            None \<Rightarrow> m
          | Some identity \<Rightarrow> complementObjects now [object_ptr (getObject (id_traci identity) gem)] sensor m))"

text \<open>The visualisation flags of a sensor; the constructor from a configuration starts from the uninitialised members \<open>undef\<close>.
  An element without the attribute is a null pointer given to \<open>strcmp\<close>.\<close>

record SensorVisualizationConfig =
  svc_sensorCone :: bool
  svc_obstacles :: bool
  svc_objects :: bool
  svc_linesOfSight :: bool

definition SensorVisualizationConfig_new :: SensorVisualizationConfig where
  "SensorVisualizationConfig_new = \<lparr>svc_sensorCone = False, svc_obstacles = False, svc_objects = False, svc_linesOfSight = False\<rparr>"

definition attr_enabler :: "cXMLElement \<Rightarrow> string \<Rightarrow> bool \<Rightarrow> bool result" where
  "attr_enabler vis name field =
     (case getFirstChildWithTag vis name of
        None \<Rightarrow> Inr field
      | Some elem \<Rightarrow> (case getAttribute elem ''value'' of None \<Rightarrow> Inl null_pointer | Some v \<Rightarrow> Inr (v = ''true'')))"

definition SensorVisualizationConfig_of :: "SensorVisualizationConfig \<Rightarrow> cXMLElement option \<Rightarrow> SensorVisualizationConfig result" where
  "SensorVisualizationConfig_of undef vis =
     (case vis of
        None \<Rightarrow> Inr undef
      | Some vis \<Rightarrow>
          rbind (attr_enabler vis ''showObjectsInSensorRange'' (svc_objects undef)) (\<lambda>objects.
          rbind (attr_enabler vis ''showObstaclesInSensorRange'' (svc_obstacles undef)) (\<lambda>obstacles.
          rbind (attr_enabler vis ''showSensorCone'' (svc_sensorCone undef)) (\<lambda>cone.
          rbind (attr_enabler vis ''showLineOfSight'' (svc_linesOfSight undef)) (\<lambda>los.
            Inr \<lparr>svc_sensorCone = cone, svc_obstacles = obstacles, svc_objects = objects, svc_linesOfSight = los\<rparr>)))))"

section \<open>Sensors of a vehicle\<close>

text \<open>\<open>initializeSensors\<close> of the local model: filters, then the module type \<open>module_type\<close> finds, with its name and whether its modules are sensors; the
  result lists name and visualisation of the sensors created.  \<open>filter_config\<close> applies filter rules; \<open>undef\<close> is uninitialised memory.\<close>

record SensorType =
  sty_name :: string
  sty_isSensor :: bool

fun initialize_sensors ::
    "(cXMLElement \<Rightarrow> 'r \<Rightarrow> (bool \<times> 'r) result) \<Rightarrow> (string option \<Rightarrow> SensorType result) \<Rightarrow> SensorVisualizationConfig \<Rightarrow> cXMLElement list \<Rightarrow> 'r
     \<Rightarrow> ((string \<times> SensorVisualizationConfig) list \<times> 'r) result" where
  "initialize_sensors filter_config module_type undef [] rng = Inr ([], rng)"
| "initialize_sensors filter_config module_type undef (cfg # cfgs) rng =
     rbind (case getFirstChildWithTag cfg ''filters'' of
              None \<Rightarrow> Inr (True, rng)
            | Some f \<Rightarrow> filter_config f rng) (\<lambda>(applicable, rng).
       if applicable then
         rbind (module_type (getAttribute cfg ''type'')) (\<lambda>ty.
           let name = (case getAttribute cfg ''name'' of None \<Rightarrow> sty_name ty | Some n \<Rightarrow> if n = [] then sty_name ty else n)
           in if sty_isSensor ty then
                rbind (SensorVisualizationConfig_of undef (getFirstChildWithTag cfg ''visualization'')) (\<lambda>vis.
                  rmap (\<lambda>(sensors, rng). ((name, vis) # sensors, rng)) (initialize_sensors filter_config module_type undef cfgs rng))
              else Inl (RuntimeError (sty_name ty @ '' is not of type Sensor'')))
       else initialize_sensors filter_config module_type undef cfgs rng)"

definition LocalEnvironmentModel_initializeSensors ::
    "(string \<Rightarrow> (string \<Rightarrow> bool) option) \<Rightarrow> (string \<Rightarrow> real result) \<Rightarrow> ('r \<Rightarrow> real \<times> 'r) \<Rightarrow> Identity \<Rightarrow> (string option \<Rightarrow> SensorType result)
     \<Rightarrow> SensorVisualizationConfig \<Rightarrow> cXMLElement \<Rightarrow> 'r \<Rightarrow> ((string \<times> SensorVisualizationConfig) list \<times> 'r) result" where
  "LocalEnvironmentModel_initializeSensors regex lexical_cast uniform ident module_type undef config rng =
     initialize_sensors (FilterRules_applyFilterConfig regex lexical_cast uniform ident) module_type undef (getChildrenByTagName config ''sensor'') rng"

section \<open>Invariant\<close>

text \<open>Objects are kept under their identifiers with the four attachment points and consistent vehicle data; the tree of obstacles mentions
  only obstacles that are there.\<close>

definition object_ok :: "EnvironmentModelObject \<Rightarrow> bool" where
  "object_ok ob \<longleftrightarrow> length (eo_attachmentPoints ob) = 4 \<and> eo_ptr ob \<noteq> 0 \<and> vdp_ok (eo_vdp ob)"

definition gem_ok :: "GlobalEnvironmentModel \<Rightarrow> bool" where
  "gem_ok gem \<longleftrightarrow> db_ok (gem_objects gem) \<and> (\<forall>e \<in> set (gem_objects gem). object_ok (snd e))
     \<and> omap_ok (gem_obstacles gem) \<and> (\<forall>e \<in> set (gem_obstacles gem). eb_id (snd e) = fst e)
     \<and> snd ` set (gem_rtree gem) \<subseteq> fst ` set (gem_obstacles gem)"

lemma gem_ok_tainted [simp]: "gem_ok (gem_tainted_update f gem) = gem_ok gem"
  by (simp add: gem_ok_def)

lemma object_update_total:
  assumes "object_ok ob"
  shows "\<exists>ob'. EnvironmentModelObject_update g now c ob = Inr ob' \<and> object_ok ob' \<and> eo_ptr ob' = eo_ptr ob \<and> eo_externalId ob' = eo_externalId ob"
proof -
  have "vdp_ok (eo_vdp ob)" using assms by (simp add: object_ok_def)
  from VehicleDataProvider_update_total [OF this, of now c] show ?thesis
    using assms by (auto simp: EnvironmentModelObject_update_def Let_def object_ok_def squareAttachmentPoints_def)
qed

lemma update_objects_total:
  assumes "\<forall>e \<in> set objs. object_ok (snd e)"
  shows "\<exists>objs'. update_objects g now ctrl objs = Inr objs'
    \<and> list_all2 (\<lambda>(k, ob) (k', ob'). k' = k \<and> object_ok ob' \<and> eo_ptr ob' = eo_ptr ob \<and> eo_externalId ob' = eo_externalId ob) objs objs'"
  unfolding update_objects_def
proof (rule rfold_total, goal_cases)
  case (2 ys x zs s)
  obtain k ob where x: "x = (k, ob)" by (cases x)
  then have "object_ok ob" using 2(1) assms by auto
  from object_update_total [OF this, of g now "ctrl k"] show ?case using 2(2) x by (auto intro!: list_all2_appendI)
qed simp

lemma refreshed_db:
  assumes "db_ok objs"
    and "list_all2 (\<lambda>(k, ob) (k', ob'). k' = k \<and> object_ok ob' \<and> eo_ptr ob' = eo_ptr ob \<and> eo_externalId ob' = eo_externalId ob) objs objs'"
  shows "db_ok objs' \<and> (\<forall>e \<in> set objs'. object_ok (snd e)) \<and> map fst objs' = map fst objs"
proof -
  from assms(2) have "map fst objs' = map fst objs \<and> map (\<lambda>e. eo_ptr (snd e)) objs' = map (\<lambda>e. eo_ptr (snd e)) objs
    \<and> map (\<lambda>e. eo_externalId (snd e)) objs' = map (\<lambda>e. eo_externalId (snd e)) objs \<and> (\<forall>e \<in> set objs'. object_ok (snd e))"
    by (induction rule: list_all2_induct) auto
  moreover have "db_ok m \<longleftrightarrow> sorted_wrt (<) (map fst m) \<and> map (\<lambda>e. eo_externalId (snd e)) m = map fst m \<and> distinct (map (\<lambda>e. eo_ptr (snd e)) m)" for m
    by (auto simp: db_ok_def omap_ok_def)
  ultimately show ?thesis using assms(1) by (simp del: map_eq_conv)
qed

text \<open>A refresh of an initialised model succeeds.\<close>

lemma refresh_total:
  assumes "gem_ok gem" and "gem_preselector gem = Some p"
  shows "\<exists>objs. GlobalEnvironmentModel_refresh g now ctrl gem =
        Inr (gem\<lparr>gem_objects := objs, gem_preselector := Some (Preselector_update g objs p), gem_tainted := False\<rparr>)
    \<and> db_ok objs \<and> (\<forall>e \<in> set objs. object_ok (snd e)) \<and> map fst objs = map fst (gem_objects gem)"
proof -
  have "\<forall>e \<in> set (gem_objects gem). object_ok (snd e)" "db_ok (gem_objects gem)" using assms(1) by (simp_all add: gem_ok_def)
  from update_objects_total [OF this(1), of g now ctrl] refreshed_db [OF this(2)] obtain objs where
    "update_objects g now ctrl (gem_objects gem) = Inr objs" "db_ok objs" "\<forall>e \<in> set objs. object_ok (snd e)" "map fst objs = map fst (gem_objects gem)"
    by blast
  then show ?thesis
    using assms(2) by (intro exI [of _ objs]) (simp add: GlobalEnvironmentModel_refresh_def Preselector_deref_update_def)
qed

lemma db_ok_put:
  assumes "db_ok objs" and "map_of objs (eo_externalId ob) = None" and "eo_ptr ob \<notin> (\<lambda>e. eo_ptr (snd e)) ` set objs"
  shows "db_ok (omap_put (eo_externalId ob) ob objs)"
proof -
  have "inj_on (\<lambda>e. eo_ptr (snd e)) (insert (eo_externalId ob, ob) (set objs))"
    using assms by (auto simp: db_ok_def distinct_map)
  moreover have "set (omap_put (eo_externalId ob) ob objs) = insert (eo_externalId ob, ob) (set objs)"
    using assms(1,2) by (force simp: db_ok_def set_omap_put map_of_eq_None_iff)
  moreover have ok: "omap_ok (omap_put (eo_externalId ob) ob objs)" using assms(1) by (auto simp: db_ok_def intro: inv_intros)
  moreover have "distinct (omap_put (eo_externalId ob) ob objs)" using omap_ok_distinct [OF ok] by (simp add: distinct_map)
  ultimately show ?thesis using assms(1) by (auto simp: db_ok_def distinct_map)
qed

lemma addVehicle_keeps:
  assumes "gem_ok gem" and "GlobalEnvironmentModel_addVehicle g registry now ptr vid len width c gem = Inr (b, gem')"
    and "ptr \<noteq> 0" and "ptr \<notin> (\<lambda>e. eo_ptr (snd e)) ` set (gem_objects gem)"
  shows "gem_ok gem'"
proof -
  from assms(2) obtain sid ob where ob: "EnvironmentModelObject_new g now ptr vid len width c sid = Inr ob"
    and b: "b = (map_of (gem_objects gem) (eo_externalId ob) = None)"
    and gem': "gem' = (if b then gem\<lparr>gem_objects := omap_put (eo_externalId ob) ob (gem_objects gem)\<rparr> else gem)\<lparr>gem_tainted := gem_tainted gem \<or> b\<rparr>"
    by (auto simp: GlobalEnvironmentModel_addVehicle_def Let_def rmap_ok_iff)
  then obtain v v' where "VehicleDataProvider_update now c (VehicleDataProvider_new sid) = Inr v'" "eo_vdp ob = v'" "eo_ptr ob = ptr"
      "length (eo_attachmentPoints ob) = 4"
    by (auto simp: EnvironmentModelObject_new_def EnvironmentModelObject_update_def Let_def rmap_ok_iff squareAttachmentPoints_def)
  then have ok: "object_ok ob" "eo_ptr ob = ptr"
    using VehicleDataProvider_update_inv(1) [OF _ vdp_ok_new] assms(3) by (auto simp: object_ok_def)
  have "gem_ok (gem\<lparr>gem_objects := omap_put (eo_externalId ob) ob (gem_objects gem)\<rparr>)" if b
    using assms(1,4) ok that b db_ok_put [of "gem_objects gem" ob] by (auto simp: gem_ok_def db_ok_def set_omap_put)
  then show ?thesis using gem' assms(1) by (cases b) simp_all
qed

lemma addObstacle_keeps: "gem_ok gem \<Longrightarrow> gem_ok (snd (GlobalEnvironmentModel_addObstacle g i outline gem))"
  by (auto simp: GlobalEnvironmentModel_addObstacle_def Let_def gem_ok_def set_omap_put keys_omap_put intro: omap_ok_put)

lemma buildObstacleRtree_keeps:
  assumes "gem_ok gem" and "GlobalEnvironmentModel_buildObstacleRtree g gem = Inr gem'"
  shows "gem_ok gem'"
proof -
  have "gem_ok gem' \<and> gem_obstacles gem' = gem_obstacles gem"
  proof (rule rfold_inv [OF assms(2) [unfolded GlobalEnvironmentModel_buildObstacleRtree_def], where P = "\<lambda>s. gem_ok s \<and> gem_obstacles s = gem_obstacles gem"])
    show "gem_ok gem \<and> gem_obstacles gem = gem_obstacles gem" using assms(1) by simp
  next
    fix x s s' assume x: "x \<in> set (gem_obstacles gem)" and s: "gem_ok s \<and> gem_obstacles s = gem_obstacles gem"
      and step: "(case x of (k, obstacle) \<Rightarrow> \<lambda>gem. if g_is_valid g (eb_outline obstacle)
        then Inr (gem\<lparr>gem_rtree := gem_rtree gem @ [(g_envelope g (eb_outline obstacle), eb_id obstacle)]\<rparr>)
        else Inl (RuntimeError (''invalid obstacle polygon #'' @ eb_id obstacle))) s = Inr s'"
    obtain k ob where k: "x = (k, ob)" by (cases x)
    have s': "s' = s\<lparr>gem_rtree := gem_rtree s @ [(g_envelope g (eb_outline ob), eb_id ob)]\<rparr>" using step k by (simp split: if_splits)
    have "eb_id ob = k" using s x k by (force simp: gem_ok_def)
    then have "eb_id ob \<in> fst ` set (gem_obstacles gem)" using x k by force
    then show "gem_ok s' \<and> gem_obstacles s' = gem_obstacles gem" using conjunct1 [OF s] unfolding s' gem_ok_def by (simp add: conjunct2 [OF s])
  qed
  then show ?thesis ..
qed

lemma fold_keeps: "P s \<Longrightarrow> (\<And>x s. P s \<Longrightarrow> P (f x s)) \<Longrightarrow> P (fold f xs s)"
  by (induction xs arbitrary: s) auto

lemma fetchObstacles_keeps:
  assumes "gem_ok gem" and "GlobalEnvironmentModel_fetchObstacles g api polygons gem = Inr gem'"
  shows "gem_ok gem'"
proof -
  from assms(2) obtain boundary where "GlobalEnvironmentModel_buildObstacleRtree g
      (fold (\<lambda>(i, shape) gem. snd (GlobalEnvironmentModel_addObstacle g i (map (position_cast_artery boundary) shape) gem)) polygons gem) = Inr gem'"
    by (auto simp: GlobalEnvironmentModel_fetchObstacles_def rbind_ok_iff)
  moreover have "gem_ok (fold (\<lambda>(i, shape) gem. snd (GlobalEnvironmentModel_addObstacle g i (map (position_cast_artery boundary) shape) gem)) polygons gem)"
    by (rule fold_keeps [of gem_ok, OF assms(1)]) (simp add: addObstacle_keeps split: prod.splits)
  ultimately show ?thesis using buildObstacleRtree_keeps by blast
qed

lemma removeVehicle_keeps: "gem_ok gem \<Longrightarrow> gem_ok (snd (GlobalEnvironmentModel_removeVehicle i gem))"
  by (auto simp: GlobalEnvironmentModel_removeVehicle_def gem_ok_def db_ok_def omap_del_def omap_ok_filter distinct_map_filter)

lemma clear_result: "GlobalEnvironmentModel_clear g gem =
    (case gem_preselector gem of None \<Rightarrow> Inl null_pointer
     | Some p \<Rightarrow> Inr \<lparr>gem_objects = [], gem_obstacles = [], gem_rtree = [], gem_preselector = Some (Preselector_update g [] p), gem_tainted = False\<rparr>)"
  by (auto simp: GlobalEnvironmentModel_clear_def GlobalEnvironmentModel_removeVehicles_def Preselector_deref_update_def split: option.splits)

section \<open>Line of sight\<close>

definition in_sight ::
    "Geometry \<Rightarrow> GlobalEnvironmentModel \<Rightarrow> Point list \<Rightarrow> Point \<Rightarrow> EnvironmentModelObject list \<Rightarrow> Point \<Rightarrow> bool" where
  "in_sight g gem cone ego selected p \<longleftrightarrow> g_covered_by g p cone
     \<and> (\<forall>ob \<in> set selected. \<not> g_crosses g (ego, p) (eo_outline ob))
     \<and> (\<forall>e \<in> set (g_rtree_query g (gem_rtree gem) cone). \<forall>obstacle.
          map_of (gem_obstacles gem) (snd e) = Some obstacle \<longrightarrow> \<not> g_line_intersects g (ego, p) (eb_outline obstacle))"

lemma rnone_of_total:
  assumes "\<And>x. x \<in> set xs \<Longrightarrow> f x = Inr (h x)"
  shows "rnone_of f xs = Inr (\<forall>x \<in> set xs. \<not> h x)"
  using assms by (induction xs) auto

lemma detect_points_spec:
  assumes "\<And>p. rnone_of (vehicle_crosses g gem (ego, p)) presel = Inr (nv p)" and "\<And>p. rnone_of (obstacle_intersects g gem (ego, p)) obst = Inr (no p)"
  shows "\<exists>d'. detect_points g gem los presel obst ego object points d = Inr d' \<and> det_cone d' = det_cone d \<and> det_obstacles d' = det_obstacles d
    \<and> det_objects d' = det_objects (if \<exists>p \<in> set points. g_covered_by g p (det_cone d) \<and> nv p \<and> no p then push_object object d else d)
    \<and> det_visiblePoints d' = det_visiblePoints d @ (if los then filter (\<lambda>p. g_covered_by g p (det_cone d) \<and> nv p \<and> no p) points else [])"
proof (induction points arbitrary: d)
  case (Cons p points)
  have push: "det_cone (push_object object d) = det_cone d" "det_obstacles (push_object object d) = det_obstacles d"
    "det_visiblePoints (push_object object d) = det_visiblePoints d" by (simp_all add: push_object_def)
  show ?case
  proof (cases "g_covered_by g p (det_cone d) \<and> nv p \<and> no p")
    case False
    then show ?thesis using Cons.IH [of d] assms by auto
  next
    case True
    show ?thesis
    proof (cases los)
      case False
      then show ?thesis using True assms push by simp
    next
      case los: True
      have "det_objects (push_object object ((push_object object d)\<lparr>det_visiblePoints := v\<rparr>)) = det_objects (push_object object d)" for v
        by (simp add: push_object_def)
      then show ?thesis using True los assms push Cons.IH [of "(push_object object d)\<lparr>det_visiblePoints := det_visiblePoints d @ [p]\<rparr>"]
        by auto
    qed
  qed
qed simp

lemma push_object_new:
  assumes "Some (eo_ptr ob) \<notin> map_option eo_ptr ` set (det_objects d)"
  shows "det_objects (push_object ob d) = det_objects d @ [Some ob]"
proof -
  have "map_option eo_ptr (last (det_objects d)) \<noteq> Some (eo_ptr ob)" if "det_objects d \<noteq> []"
    using assms imageI [OF last_in_set [OF that], of "map_option eo_ptr"] by auto
  then show ?thesis by (auto simp: push_object_def)
qed

text \<open>The loop over the preselected objects keeps those that have a point in sight.\<close>

lemma detect_visible_spec:
  assumes nv: "\<And>p. rnone_of (vehicle_crosses g gem (ego, p)) presel = Inr (nv p)"
    and no: "\<And>p. rnone_of (obstacle_intersects g gem (ego, p)) obst = Inr (no p)"
    and "map (\<lambda>i. getObject i gem) ids = map Some selected" and "distinct (map eo_ptr selected)"
    and "\<forall>ob \<in> set selected. Some (eo_ptr ob) \<notin> map_option eo_ptr ` set (det_objects d)"
  shows "\<exists>d'. rfold (detect_visible g gem los presel obst ego) ids d = Inr d' \<and> det_cone d' = det_cone d \<and> det_obstacles d' = det_obstacles d
    \<and> det_objects d' = det_objects d @
        map Some (filter (\<lambda>ob. \<exists>p \<in> set (eo_outline ob). g_covered_by g p (det_cone d) \<and> nv p \<and> no p) selected)"
  using assms(3-)
proof (induction ids arbitrary: selected d)
  case (Cons i ids)
  obtain ob rest where sel: "selected = ob # rest" and i: "getObject i gem = Some ob" and rest: "map (\<lambda>i. getObject i gem) ids = map Some rest"
    using Cons.prems(1) by (cases selected) auto
  define vis where "vis \<longleftrightarrow> (\<exists>p \<in> set (eo_outline ob). g_covered_by g p (det_cone d) \<and> nv p \<and> no p)"
  from detect_points_spec [OF nv no, of los object points d for object points] obtain d1 where d1:
    "detect_visible g gem los presel obst ego i d = Inr d1" "det_cone d1 = det_cone d" "det_obstacles d1 = det_obstacles d"
    "det_objects d1 = det_objects (if vis then push_object ob d else d)" unfolding detect_visible_def i vis_def by fastforce
  have new: "det_objects d1 = det_objects d @ (if vis then [Some ob] else [])"
    using d1(4) push_object_new [of ob d] Cons.prems(3) sel by simp
  have "\<forall>x \<in> set rest. Some (eo_ptr x) \<notin> map_option eo_ptr ` set (det_objects d1)"
  proof
    fix x assume x: "x \<in> set rest"
    have "eo_ptr ob \<notin> eo_ptr ` set rest" using Cons.prems(2) by (simp add: sel)
    with imageI [OF x, of eo_ptr] have "eo_ptr x \<noteq> eo_ptr ob" by metis
    then show "Some (eo_ptr x) \<notin> map_option eo_ptr ` set (det_objects d1)" using Cons.prems(3) x unfolding sel new by (cases vis) simp_all
  qed
  from Cons.IH [OF rest _ this] Cons.prems(2) obtain d2 where "rfold (detect_visible g gem los presel obst ego) ids d1 = Inr d2"
    "det_cone d2 = det_cone d1" "det_obstacles d2 = det_obstacles d1"
    "det_objects d2 = det_objects d1 @ map Some (filter (\<lambda>ob. \<exists>p \<in> set (eo_outline ob). g_covered_by g p (det_cone d1) \<and> nv p \<and> no p) rest)"
    unfolding sel by auto
  then show ?case using d1(1-3) new unfolding sel filter.simps vis_def [symmetric] by (cases vis) simp_all
qed simp

lemma vehicle_crosses_total:
  assumes "map (\<lambda>i. getObject i gem) ids = map Some selected"
  shows "rnone_of (vehicle_crosses g gem l) ids = Inr (\<forall>ob \<in> set selected. \<not> g_crosses g l (eo_outline ob))"
  using assms
proof (induction ids arbitrary: selected)
  case (Cons i ids)
  then obtain ob rest where "selected = ob # rest" "getObject i gem = Some ob" "map (\<lambda>i. getObject i gem) ids = map Some rest"
    by (cases selected) auto
  then show ?case using Cons.IH [of rest] by (simp add: vehicle_crosses_def)
qed simp

lemma obstacle_intersects_total:
  assumes "gem_ok gem" and "rtree_law g"
  shows "rnone_of (obstacle_intersects g gem l) (g_rtree_query g (gem_rtree gem) cone) =
    Inr (\<forall>e \<in> set (g_rtree_query g (gem_rtree gem) cone). \<forall>obstacle.
      map_of (gem_obstacles gem) (snd e) = Some obstacle \<longrightarrow> \<not> g_line_intersects g l (eb_outline obstacle))"
proof -
  let ?h = "\<lambda>e. \<exists>obstacle. map_of (gem_obstacles gem) (snd e) = Some obstacle \<and> g_line_intersects g l (eb_outline obstacle)"
  have "rnone_of (obstacle_intersects g gem l) (g_rtree_query g (gem_rtree gem) cone) =
      Inr (\<forall>e \<in> set (g_rtree_query g (gem_rtree gem) cone). \<not> ?h e)"
  proof (rule rnone_of_total)
    fix e assume "e \<in> set (g_rtree_query g (gem_rtree gem) cone)"
    moreover have "set (g_rtree_query g (gem_rtree gem) cone) = set (filter (\<lambda>e. g_box_intersects g (fst e) cone) (gem_rtree gem))"
      using assms(2) by (intro mset_eq_setD) (simp add: rtree_law_def)
    ultimately have "snd e \<in> fst ` set (gem_obstacles gem)" using assms(1) by (auto simp: gem_ok_def)
    then have "map_of (gem_obstacles gem) (snd e) \<noteq> None" by (simp add: map_of_eq_None_iff)
    then show "obstacle_intersects g gem l e = Inr (?h e)" by (auto simp: obstacle_intersects_def)
  qed
  then show ?thesis by simp
qed

lemma preselector_select_ok:
  assumes "db_ok objs" and "map_of objs (egoID config) = Some ego" and "egoID config \<noteq> []" and "0 < fov_range config" and "fov_angle config \<le> 360"
    and "createSensorArc g config ego = Inr cone" and "g_is_valid g cone"
  shows "\<exists>ids. Preselector_select g objs (Preselector_update g objs p) ego config = Inr ids"
proof (cases p)
  case (PreMatrix m)
  have "sensorPosition config \<noteq> VIRTUAL"
    using assms(6) by (auto simp: createSensorArc_def getAttachmentPoint_def rbind_ok_iff split: if_splits)
  then show ?thesis using PreMatrix matrix_select_filter [OF assms(1,2) selector_built] assms(3-5) by simp
qed (use assms(6,7) in \<open>simp_all add: PreselectionPolygon_select_def PreselectionRtree_select_def\<close>)

section \<open>Properties\<close>

lemma detection_correct:
  assumes "rtree_law g" and "gem_ok gem" and "GlobalEnvironmentModel_refresh g now ctrl gem = Inr gem'"
    and "getObject (egoID config) gem' = Some ego" and "egoID config \<noteq> []" and "0 < fov_range config" and "fov_angle config \<le> 360"
    and "createSensorArc g config ego = Inr cone" and "g_is_valid g cone"
  shows "\<exists>p ids selected d pos. gem_preselector gem' = Some p \<and> Preselector_select g (gem_objects gem') p ego config = Inr ids
    \<and> map (\<lambda>i. getObject i gem') ids = map Some selected \<and> distinct (map eo_ptr selected) \<and> egoID config \<notin> set ids
    \<and> getAttachmentPoint (sensorPosition config) ego = Inr pos
    \<and> detectObjects g config gem' = Inr d \<and> det_cone d = cone
    \<and> det_objects d = map Some (filter (\<lambda>ob. doLineOfSightCheck config \<longrightarrow> (\<exists>c \<in> set (eo_outline ob). in_sight g gem' cone pos selected c)) selected)"
proof -
  obtain p where p: "gem_preselector gem = Some p"
    using assms(3) by (auto simp: GlobalEnvironmentModel_refresh_def Preselector_deref_update_def rbind_ok_iff split: option.splits)
  obtain objs where gem': "gem' = gem\<lparr>gem_objects := objs, gem_preselector := Some (Preselector_update g objs p), gem_tainted := False\<rparr>"
    and objs: "db_ok objs" "\<forall>e \<in> set objs. object_ok (snd e)" using refresh_total [OF assms(2) p, of g now ctrl] assms(3) by auto
  have ok: "gem_ok gem'" using assms(2) objs unfolding gem' by (simp add: gem_ok_def)
  have ego: "map_of objs (egoID config) = Some ego" using assms(4) unfolding gem' by (simp add: getObject_def)
  then have id: "eo_externalId ego = egoID config" using objs(1) by (auto simp: db_ok_def dest: map_of_SomeD)
  obtain ids where ids: "Preselector_select g objs (Preselector_update g objs p) ego config = Inr ids"
    using preselector_select_ok [OF objs(1) ego assms(5-9)] by blast
  from preselector.selected_objects [OF assms(1) objs(1) ids] obtain selected where
    sel: "map (map_of objs) ids = map Some selected" "distinct (map eo_ptr selected)" "eo_externalId ego \<notin> set ids" by blast
  then have fetched: "map (\<lambda>i. getObject i gem') ids = map Some selected" unfolding gem' getObject_def by simp
  obtain pos where pos: "getAttachmentPoint (sensorPosition config) ego = Inr pos"
    using assms(8) by (auto simp: createSensorArc_def rbind_ok_iff)
  let ?d = "\<lparr>det_cone = cone, det_objects = [], det_obstacles = [], det_visiblePoints = []\<rparr> :: SensorDetection"
  have run: "detectObjects g config gem' = (if doLineOfSightCheck config
      then rfold (detect_visible g gem' (vis_linesOfSight config) ids (g_rtree_query g (gem_rtree gem') cone) pos) ids ?d
      else Inr (?d\<lparr>det_objects := map (\<lambda>i. getObject i gem') ids\<rparr>))"
    using assms(4,6-8) ids pos by (simp add: detectObjects_def gem' Let_def)
  have "\<exists>d. detectObjects g config gem' = Inr d \<and> det_cone d = cone
      \<and> det_objects d = map Some (filter (\<lambda>ob. doLineOfSightCheck config \<longrightarrow> (\<exists>c \<in> set (eo_outline ob). in_sight g gem' cone pos selected c)) selected)"
  proof (cases "doLineOfSightCheck config")
    case True
    note spec = detect_visible_spec [where d = ?d and los = "vis_linesOfSight config",
        OF vehicle_crosses_total [OF fetched, of g "(pos, c)" for c] obstacle_intersects_total [OF ok assms(1), of "(pos, c)" cone for c] fetched sel(2)]
    from spec obtain d where "rfold (detect_visible g gem' (vis_linesOfSight config) ids (g_rtree_query g (gem_rtree gem') cone) pos) ids ?d = Inr d"
      "det_cone d = cone" "det_objects d = map Some (filter (\<lambda>ob. \<exists>c \<in> set (eo_outline ob). in_sight g gem' cone pos selected c) selected)"
      unfolding in_sight_def by fastforce
    then show ?thesis unfolding run using True by simp
  next
    case False
    then show ?thesis unfolding run fetched by simp
  qed
  then show ?thesis using ids fetched sel pos id unfolding gem' by auto
qed

text \<open>C5: A detection right after a refresh succeeds for every sensor with a valid cone on a known vehicle, whatever
  the preselection method: it never dereferences a null pointer, it detects other vehicles only, each once, and with
  the line of sight check exactly those preselected ones that have a corner in the cone to which the line from the sensor crosses
  neither a preselected vehicle nor an obstacle.\<close>

theorem detection_after_refresh:
  assumes "rtree_law g" and "gem_ok gem" and "GlobalEnvironmentModel_refresh g now ctrl gem = Inr gem'"
    and "getObject (egoID config) gem' = Some ego" and "egoID config \<noteq> []" and "0 < fov_range config" and "fov_angle config \<le> 360"
    and "createSensorArc g config ego = Inr cone" and "g_is_valid g cone"
  shows "\<exists>p ids selected d pos. gem_preselector gem' = Some p \<and> Preselector_select g (gem_objects gem') p ego config = Inr ids
    \<and> map (\<lambda>i. getObject i gem') ids = map Some selected \<and> distinct (map eo_ptr selected) \<and> egoID config \<notin> set ids
    \<and> getAttachmentPoint (sensorPosition config) ego = Inr pos
    \<and> detectObjects g config gem' = Inr d \<and> det_cone d = cone
    \<and> det_objects d = map Some (filter (\<lambda>ob. doLineOfSightCheck config \<longrightarrow> (\<exists>c \<in> set (eo_outline ob). in_sight g gem' cone pos selected c)) selected)"
  by (rule detection_correct [OF assms])

text \<open>A vehicle that has been added makes the model refuse detections until the next refresh; an identifier that is known
  already changes nothing.\<close>

theorem addVehicle_taints:
  assumes "gem_ok gem" and "GlobalEnvironmentModel_addVehicle g registry now ptr vid len width c gem = Inr (inserted, gem')"
  shows "inserted = (getObject vid gem = None) \<and> (\<not> inserted \<longrightarrow> gem' = gem)
    \<and> (inserted \<longrightarrow> (\<exists>ob. getObject vid gem' = Some ob \<and> eo_ptr ob = ptr) \<and> detectObjects g config gem' = Inl AssertionFailed)"
proof -
  from assms(2) obtain sid ob where ob: "EnvironmentModelObject_new g now ptr vid len width c sid = Inr ob"
    and b: "inserted = (map_of (gem_objects gem) (eo_externalId ob) = None)"
    and gem': "gem' = (if inserted then gem\<lparr>gem_objects := omap_put (eo_externalId ob) ob (gem_objects gem)\<rparr> else gem)\<lparr>gem_tainted := gem_tainted gem \<or> inserted\<rparr>"
    by (auto simp: GlobalEnvironmentModel_addVehicle_def Let_def rmap_ok_iff)
  have "eo_externalId ob = vid" "eo_ptr ob = ptr" using ob update_length by (fastforce simp: EnvironmentModelObject_new_def Let_def)+
  moreover have "omap_ok (gem_objects gem)" using assms(1) by (simp add: gem_ok_def db_ok_def)
  ultimately show ?thesis using b gem' by (cases inserted) (auto simp: getObject_def map_of_omap_put detectObjects_def)
qed

text \<open>Every signal keeps the invariant of the global environment model, given that a new object has an address of its own.\<close>

theorem global_signals_invariant:
  assumes "gem_ok gem" and "GlobalEnvironmentModel_receiveSignal g registry now signal gem = Inr gem'"
    and "\<And>ptr vid len width c. signal = NodeAdd (Some (ptr, vid, len, width, c)) \<Longrightarrow>
      ptr \<noteq> 0 \<and> ptr \<notin> (\<lambda>e. eo_ptr (snd e)) ` set (gem_objects gem)"
  shows "gem_ok gem'"
proof (cases signal)
  case (TraciInit api polygons)
  then show ?thesis using assms(2) fetchObstacles_keeps [OF assms(1)] by simp
next
  case TraciClose
  then show ?thesis using assms(2) by (auto simp: clear_result gem_ok_def db_ok_def split: option.splits)
next
  case (NodeAdd v)
  show ?thesis
  proof (cases v)
    case None
    then show ?thesis using NodeAdd assms(1,2) by simp
  next
    case (Some a)
    obtain ptr vid len width c where a: "a = (ptr, vid, len, width, c)" by (cases a)
    have "\<exists>b. GlobalEnvironmentModel_addVehicle g registry now ptr vid len width c gem = Inr (b, gem')"
      using assms(2) NodeAdd Some a by (auto simp: rmap_ok_iff)
    then show ?thesis using addVehicle_keeps [OF assms(1)] assms(3) [of ptr vid len width c] NodeAdd Some a by blast
  qed
next
  case (NodeRemove i)
  then show ?thesis using assms(1,2) removeVehicle_keeps by auto
next
  case (NodeUpdate ctrl)
  then have r: "GlobalEnvironmentModel_refresh g now ctrl gem = Inr gem'" using assms(2) by simp
  then obtain p where "gem_preselector gem = Some p"
    by (auto simp: GlobalEnvironmentModel_refresh_def Preselector_deref_update_def rbind_ok_iff split: option.splits)
  from refresh_total [OF assms(1) this, of g now ctrl] r obtain objs p where
    "gem' = gem\<lparr>gem_objects := objs, gem_preselector := p, gem_tainted := False\<rparr>" "db_ok objs" "\<forall>e \<in> set objs. object_ok (snd e)" by auto
  then show ?thesis using assms(1) by (simp add: gem_ok_def)
qed

text \<open>Code that fails in one way at most.\<close>

definition fails_only :: "cerror \<Rightarrow> 'a result \<Rightarrow> bool" where
  "fails_only e r \<longleftrightarrow> (\<forall>e'. r = Inl e' \<longrightarrow> e' = e)"

lemma fails_only_simps [simp]: "fails_only e (Inr x)" "fails_only e (Inl e') \<longleftrightarrow> e' = e"
  by (simp_all add: fails_only_def)

lemma fails_only_rbind: "fails_only e r \<Longrightarrow> (\<And>x. fails_only e (f x)) \<Longrightarrow> fails_only e (rbind r f)"
  by (cases r) auto

lemma rfold_fails:
  assumes "x \<in> set xs" and "\<And>s. f x s = Inl e" and "\<And>y s. fails_only e (f y s)"
  shows "rfold f xs s = Inl e"
  using assms(1)
proof (induction xs arbitrary: s)
  case (Cons y ys)
  show ?case
  proof (cases "f y s")
    case (Inl e')
    then show ?thesis using assms(3) [of y s] by simp
  next
    case (Inr s')
    then have "y \<noteq> x" using assms(2) [of s] by auto
    then show ?thesis using Cons Inr by simp
  qed
qed simp

lemma fails_only_rnone_of: "(\<And>x. fails_only e (f x)) \<Longrightarrow> fails_only e (rnone_of f xs)"
  by (induction xs) (auto intro!: fails_only_rbind)

lemma detect_points_fails_only:
  assumes "\<And>p. fails_only null_pointer (rnone_of (obstacle_intersects g gem (ego, p)) obst)"
  shows "fails_only null_pointer (detect_points g gem los presel obst ego ob points d)"
proof (induction points arbitrary: d)
  case (Cons p points)
  have "fails_only null_pointer (rnone_of (vehicle_crosses g gem (ego, p)) presel)"
    by (rule fails_only_rnone_of) (simp add: vehicle_crosses_def split: option.splits)
  with assms [of p] Cons.IH show ?case by (auto simp: Let_def intro!: fails_only_rbind)
qed simp

text \<open>Removing a vehicle does not taint the model: between the removal and the next refresh a tabulating preselector still answers the
  vehicle, and a detection that preselects it dereferences the null pointer \<open>getObject\<close> answers.\<close>

theorem removed_vehicle_null_pointer:
  assumes "rtree_law g" and "gem_ok gem" and "\<not> gem_tainted gem" and "gem_preselector gem = Some p" and "p \<noteq> PrePolygon"
    and "getObject (egoID config) gem = Some ego" and "i \<noteq> egoID config"
    and "0 < fov_range config" and "fov_angle config \<le> 360" and "doLineOfSightCheck config"
    and "createSensorArc g config ego = Inr cone"
    and "Preselector_select g (gem_objects gem) p ego config = Inr ids" and "i \<in> set ids"
  shows "detectObjects g config (snd (GlobalEnvironmentModel_removeVehicle i gem)) = Inl null_pointer"
proof -
  let ?gem = "snd (GlobalEnvironmentModel_removeVehicle i gem)"
  have gem: "gem_preselector ?gem = Some p" "gem_tainted ?gem = gem_tainted gem" "getObject i ?gem = None" "getObject (egoID config) ?gem = Some ego"
    using assms(4,6,7) by (simp_all add: GlobalEnvironmentModel_removeVehicle_def getObject_def map_of_omap_del)
  have sel: "Preselector_select g (gem_objects ?gem) p ego config = Inr ids" using assms(5,12) by (cases p) simp_all
  obtain pos where pos: "getAttachmentPoint (sensorPosition config) ego = Inr pos" using assms(11) by (auto simp: createSensorArc_def rbind_ok_iff)
  have ok: "gem_ok ?gem" by (rule removeVehicle_keeps [OF assms(2)])
  have "rfold (detect_visible g ?gem los ids (g_rtree_query g (gem_rtree ?gem) cone) pos) ids d = Inl null_pointer" for los d
  proof (rule rfold_fails [OF assms(13)])
    show "detect_visible g ?gem los ids (g_rtree_query g (gem_rtree ?gem) cone) pos i s = Inl null_pointer" for s
      by (simp add: detect_visible_def gem)
    have "fails_only null_pointer (rnone_of (obstacle_intersects g ?gem (pos, c)) (g_rtree_query g (gem_rtree ?gem) cone))" for c
      by (simp add: obstacle_intersects_total [OF ok assms(1)])
    from detect_points_fails_only [OF this]
    show "fails_only null_pointer (detect_visible g ?gem los ids (g_rtree_query g (gem_rtree ?gem) cone) pos y s)" for y s
      by (simp add: detect_visible_def split: option.splits)
  qed
  then show ?thesis using gem assms(3,8-11) sel pos by (simp add: detectObjects_def Let_def)
qed

text \<open>What the sensors of a vehicle see: the detections of its radars, by address.\<close>

fun sees :: "Geometry \<Rightarrow> GlobalEnvironmentModel \<Rightarrow> Sensor \<Rightarrow> nat list" where
  "sees g gem CamSensor = []"
| "sees g gem (RadarSensor config) = (case detectObjects g config gem of Inl e \<Rightarrow> [] | Inr d \<Rightarrow> map object_ptr (det_objects d))"

fun sensor_fails :: "Geometry \<Rightarrow> GlobalEnvironmentModel \<Rightarrow> Sensor \<Rightarrow> bool" where
  "sensor_fails g gem CamSensor \<longleftrightarrow> False"
| "sensor_fails g gem (RadarSensor config) \<longleftrightarrow> \<not> is_ok (detectObjects g config gem)"

text \<open>The detections the radars hold after they have measured.\<close>

fun hold :: "Geometry \<Rightarrow> GlobalEnvironmentModel \<Rightarrow> nat \<times> Sensor \<Rightarrow> LastDetections \<Rightarrow> LastDetections" where
  "hold g gem (s, CamSensor) held = held"
| "hold g gem (s, RadarSensor config) held = omap_put s (sees g gem (RadarSensor config)) held"

definition radar_ids :: "(nat \<times> Sensor) list \<Rightarrow> nat set" where
  "radar_ids sensors = {s. \<exists>config. (s, RadarSensor config) \<in> set sensors}"

lemma measurement_sees:
  assumes "\<not> sensor_fails g gem sensor"
  shows "Sensor_measurement g gem now (s, sensor) (m, held) = Inr (complementObjects now (sees g gem sensor) s m, hold g gem (s, sensor) held)"
proof (cases sensor)
  case (RadarSensor config)
  with assms obtain d where "detectObjects g config gem = Inr d" by (cases "detectObjects g config gem") auto
  then show ?thesis using RadarSensor by simp
qed (simp add: complementObjects_def)

lemma measurements_eq:
  assumes "\<forall>(s, sensor) \<in> set sensors. \<not> sensor_fails g gem sensor"
    and "\<forall>(s, sensor) \<in> set sensors. detect s = sees g gem sensor"
  shows "rfold (Sensor_measurement g gem now) sensors (m, held) =
    Inr (fold (\<lambda>s. complementObjects now (detect s) s) (map fst sensors) m, fold (hold g gem) sensors held)"
  using assms by (induction sensors arbitrary: m held) (auto simp: measurement_sees)

lemma radar_ids_Cons:
  "radar_ids ((s, sensor) # sensors) = (case sensor of CamSensor \<Rightarrow> {} | RadarSensor config \<Rightarrow> {s}) \<union> radar_ids sensors"
  by (auto simp: radar_ids_def split: Sensor.splits)

lemma holds_only:
  assumes "omap_ok held"
  shows "omap_ok (fold (hold g gem) sensors held)
    \<and> (\<forall>(s, ptrs) \<in> set (fold (hold g gem) sensors held).
         if s \<in> radar_ids sensors then \<exists>config. (s, RadarSensor config) \<in> set sensors \<and> ptrs = sees g gem (RadarSensor config)
         else (s, ptrs) \<in> set held)"
  using assms
proof (induction sensors arbitrary: held)
  case (Cons e sensors)
  obtain s sensor where e: "e = (s, sensor)" by (cases e)
  show ?case
  proof (cases sensor)
    case CamSensor
    then show ?thesis using Cons.IH [OF Cons.prems] e by (fastforce simp: radar_ids_Cons split: if_splits)
  next
    case (RadarSensor config)
    have "omap_ok (omap_put s (sees g gem (RadarSensor config)) held)" by (rule omap_ok_put [OF Cons.prems])
    from Cons.IH [OF this] RadarSensor e show ?thesis
      by (fastforce simp: radar_ids_Cons set_omap_put [OF Cons.prems] simp del: sees.simps split: if_splits)
  qed
qed (simp add: radar_ids_def case_prod_beta)

text \<open>Conversely, what a radar holds that does not measure stays held.\<close>

lemma holds_others:
  assumes "omap_ok held" and "(s, ptrs) \<in> set held" and "s \<notin> radar_ids sensors"
  shows "(s, ptrs) \<in> set (fold (hold g gem) sensors held)"
  using assms
proof (induction sensors arbitrary: held)
  case (Cons e sensors)
  obtain k sensor where e: "e = (k, sensor)" by (cases e)
  then show ?case using Cons.IH [of "hold g gem e held"] Cons.prems
    by (cases sensor) (auto simp: radar_ids_Cons omap_ok_put set_omap_put simp del: sees.simps)
qed simp

text \<open>The measuring loop over a vehicle's sensors is the refresh of the local environment model whose detections are the radars'
  (see \<open>local_model_refresh\<close>), where the objects that are left are those of the global model and those held by a radar, and it fails
  only if a radar's detection fails.\<close>

lemma local_refresh_equivalent:
  assumes "distinct (map fst sensors)" and "\<forall>(s, sensor) \<in> set sensors. \<not> sensor_fails g gem sensor"
  shows "LocalEnvironmentModel_refreshed g gem sensors now (m, held) =
    Inr (LocalEnvironmentModel_receiveSignal (sensor_validity sensors) (object_alive gem (fold (hold g gem) sensors held))
      (\<lambda>s. case map_of sensors s of None \<Rightarrow> [] | Some sensor \<Rightarrow> sees g gem sensor) (map fst sensors) now m, fold (hold g gem) sensors held)"
proof -
  have "\<forall>(s, sensor) \<in> set sensors. (case map_of sensors s of None \<Rightarrow> [] | Some sensor \<Rightarrow> sees g gem sensor) = sees g gem sensor"
    using map_of_is_SomeI [OF assms(1)] by auto
  from measurements_eq [OF assms(2) this] show ?thesis
    by (simp add: LocalEnvironmentModel_refreshed_def LocalEnvironmentModel_receiveSignal_def)
qed

lemma sees_known:
  assumes "rtree_law g" and "gem_ok gem" and "GlobalEnvironmentModel_refresh g now ctrl gem = Inr gem'"
    and "getObject (egoID config) gem' = Some ego" and "egoID config \<noteq> []" and "0 < fov_range config" and "fov_angle config \<le> 360"
    and "createSensorArc g config ego = Inr cone" and "g_is_valid g cone"
  shows "\<not> sensor_fails g gem' (RadarSensor config)
    \<and> set (sees g gem' (RadarSensor config)) \<subseteq> {ptr. \<exists>i ob. i \<noteq> egoID config \<and> getObject i gem' = Some ob \<and> eo_ptr ob = ptr}"
proof -
  from detection_correct [OF assms] obtain ids selected d P where d: "map (\<lambda>i. getObject i gem') ids = map Some selected" "egoID config \<notin> set ids"
    "detectObjects g config gem' = Inr d" "det_objects d = map Some (filter P selected)" by blast
  have "\<exists>i \<in> set ids. getObject i gem' = Some ob" if "ob \<in> set selected" for ob
  proof -
    have "Some ob \<in> set (map (\<lambda>i. getObject i gem') ids)" using that unfolding d(1) by simp
    then show ?thesis by auto
  qed
  then have "\<exists>i ob'. i \<noteq> egoID config \<and> getObject i gem' = Some ob' \<and> eo_ptr ob' = eo_ptr ob" if "ob \<in> set selected" for ob
    using that d(2) by metis
  then show ?thesis using d(3,4) by (auto simp: object_ptr_def)
qed

lemma sensor_validity_nonneg: "0 \<le> sensor_validity sensors s"
proof (cases "map_of sensors s")
  case (Some sensor)
  then show ?thesis by (cases sensor) (simp_all add: sensor_validity_def CamSensor_validity_def RadarSensor_validity_def simtime_ms_def)
qed (simp add: sensor_validity_def)

text \<open>The parameters of a radar that lets its detection succeed: a named ego vehicle that is there, a range and an opening angle, and a cone
  that the geometry library accepts.\<close>

definition radar_ok :: "Geometry \<Rightarrow> GlobalEnvironmentModel \<Rightarrow> SensorConfigRadar \<Rightarrow> bool" where
  "radar_ok g gem config \<longleftrightarrow> egoID config \<noteq> [] \<and> 0 < fov_range config \<and> fov_angle config \<le> 360
     \<and> (case getObject (egoID config) gem of None \<Rightarrow> False | Some ego \<Rightarrow>
         (case createSensorArc g config ego of Inl e \<Rightarrow> False | Inr cone \<Rightarrow> g_is_valid g cone))"

lemma getObject_known: "getObject i gem = Some ob \<Longrightarrow> known_object gem (eo_ptr ob)"
  by (force simp: getObject_def known_object_def list_ex_iff dest!: map_of_SomeD)

lemma sees_existing:
  assumes "rtree_law g" and "gem_ok gem" and "GlobalEnvironmentModel_refresh g now ctrl gem = Inr gem'" and "radar_ok g gem' config"
  shows "\<not> sensor_fails g gem' (RadarSensor config) \<and> (\<forall>ptr \<in> set (sees g gem' (RadarSensor config)). known_object gem' ptr)"
proof -
  from assms(4) obtain ego cone where "getObject (egoID config) gem' = Some ego" "egoID config \<noteq> []" "0 < fov_range config"
    "fov_angle config \<le> 360" "createSensorArc g config ego = Inr cone" "g_is_valid g cone"
    by (auto simp: radar_ok_def split: option.splits sum.splits)
  from sees_known [OF assms(1-3) this] show ?thesis using getObject_known by blast
qed

text \<open>The refresh of one vehicle's local model: what it tracks afterwards, and what its radars hold.\<close>

lemma local_refresh_step:
  assumes "rtree_law g" and "gem_ok gem" and "GlobalEnvironmentModel_refresh g now ctrl gem = Inr gem'"
    and "tracked_ok m" and "distinct (map fst sensors)" and "omap_ok held"
    and "\<forall>(s, sensor) \<in> set sensors. case sensor of CamSensor \<Rightarrow> True | RadarSensor config \<Rightarrow> radar_ok g gem' config"
  shows "\<exists>m' held'. LocalEnvironmentModel_refreshed g gem' sensors now (m, held) = Inr (m', held') \<and> tracked_ok m' \<and> omap_ok held'
    \<and> (\<forall>s config d ob. (s, RadarSensor config) \<in> set sensors \<and> detectObjects g config gem' = Inr d \<and> Some ob \<in> set (det_objects d) \<longrightarrow>
         eo_ptr ob \<in> fst ` set m' \<and> last_seen m' (eo_ptr ob) s = Some now)
    \<and> (\<forall>ptr \<in> fst ` set m'. known_object gem' ptr \<or> (\<exists>(s, ptrs) \<in> set held. ptr \<in> set ptrs \<and> s \<notin> radar_ids sensors))
    \<and> (\<forall>(s, ptrs) \<in> set held'. if s \<in> radar_ids sensors then \<forall>ptr \<in> set ptrs. known_object gem' ptr else (s, ptrs) \<in> set held)"
proof -
  let ?detect = "\<lambda>s. case map_of sensors s of None \<Rightarrow> [] | Some sensor \<Rightarrow> sees g gem' sensor"
  let ?held = "fold (hold g gem') sensors held"
  let ?m = "LocalEnvironmentModel_receiveSignal (sensor_validity sensors) (object_alive gem' ?held) ?detect (map fst sensors) now m"
  have ok: "\<not> sensor_fails g gem' sensor \<and> (\<forall>ptr \<in> set (sees g gem' sensor). known_object gem' ptr)" if "(s, sensor) \<in> set sensors" for s sensor
    using bspec [OF assms(7) that] sees_existing [OF assms(1-3)] by (cases sensor) (simp_all del: sees.simps sensor_fails.simps(2), simp)
  have eq: "LocalEnvironmentModel_refreshed g gem' sensors now (m, held) = Inr (?m, ?held)"
    using ok by (intro local_refresh_equivalent [OF assms(5)]) auto
  note r = refresh_refines [OF assms(4), of "sensor_validity sensors" "object_alive gem' ?held" ?detect "map fst sensors" now]
  have held: "\<forall>(s, ptrs) \<in> set ?held. if s \<in> radar_ids sensors then \<forall>ptr \<in> set ptrs. known_object gem' ptr else (s, ptrs) \<in> set held"
    using conjunct2 [OF holds_only [OF assms(6), of g gem' sensors]] ok by (fastforce split: if_splits)
  have tracked: "known_object gem' ptr \<or> (\<exists>(s, ptrs) \<in> set held. ptr \<in> set ptrs \<and> s \<notin> radar_ids sensors)" if p: "ptr \<in> fst ` set ?m" for ptr
  proof -
    obtain s where "last_seen ?m ptr s \<noteq> None" using iffD1 [OF tracked_iff_seen [OF conjunct1 [OF r]] p] by (elim exE)
    then have "object_alive gem' ?held ptr" unfolding conjunct2 [OF r] by (auto simp: spec_expire_def split: option.splits if_splits)
    then show ?thesis using held by (fastforce simp: object_alive_def list_ex_iff split: if_splits)
  qed
  have seen: "eo_ptr ob \<in> fst ` set ?m \<and> last_seen ?m (eo_ptr ob) s = Some now"
    if s: "(s, RadarSensor config) \<in> set sensors" and d: "detectObjects g config gem' = Inr d" "Some ob \<in> set (det_objects d)" for s config d ob
  proof -
    have "object_ptr (Some ob) \<in> set (sees g gem' (RadarSensor config))" using d by simp
    then have mem: "eo_ptr ob \<in> set (sees g gem' (RadarSensor config))" by (simp add: object_ptr_def)
    have see: "eo_ptr ob \<in> set (?detect s)" "s \<in> set (map fst sensors)" "object_alive gem' ?held (eo_ptr ob)"
      using mem map_of_is_SomeI [OF assms(5) s] ok [OF s] imageI [OF s, of fst] by (simp_all add: object_alive_def del: sees.simps)
    then have "last_seen ?m (eo_ptr ob) s = Some now" unfolding conjunct2 [OF r]
      using sensor_validity_nonneg [of sensors s] by (simp add: spec_expire_def spec_measure_def)
    then show ?thesis using tracked_iff_seen [OF conjunct1 [OF r], of "eo_ptr ob"] by auto
  qed
  show ?thesis using eq conjunct1 [OF r] conjunct1 [OF holds_only [OF assms(6), of g gem' sensors]] seen tracked held by blast
qed

text \<open>C4: One refresh of the whole environment: after the vehicles' data and the preselector have been updated, the local models of all vehicles
  are refreshed one after the other.  With radars that are set up (an existing ego vehicle, a range, an opening angle and a valid cone) no
  measurement fails, and every local model keeps its invariant and tracks each object one of its radars detects, as seen now.  An object that
  a vehicle tracks is one of the global model, or one that a radar held which has not measured yet in this refresh (a radar of
  a vehicle later in the order, or one that measures no more); once all have measured, the radars' detections keep objects of the global
  model only.\<close>

theorem environment_refresh:
  assumes "rtree_law g" and "gem_ok gem" and "GlobalEnvironmentModel_refresh g now ctrl gem = Inr gem'"
    and "\<forall>(sensors, m) \<in> set locals. tracked_ok m \<and> distinct (map fst sensors)" and "omap_ok held"
    and "\<forall>(s, sensor) \<in> set (concat (map fst locals)). case sensor of CamSensor \<Rightarrow> True | RadarSensor config \<Rightarrow> radar_ok g gem' config"
  shows "\<exists>locals' held'. refresh_locals g gem' now locals held = Inr (locals', held') \<and> map fst locals' = map fst locals
    \<and> (\<forall>i < length locals. tracked_ok (snd (locals' ! i))
        \<and> (\<forall>s config d ob. (s, RadarSensor config) \<in> set (fst (locals ! i)) \<and> detectObjects g config gem' = Inr d \<and> Some ob \<in> set (det_objects d) \<longrightarrow>
            eo_ptr ob \<in> fst ` set (snd (locals' ! i)) \<and> last_seen (snd (locals' ! i)) (eo_ptr ob) s = Some now)
        \<and> (\<forall>ptr \<in> fst ` set (snd (locals' ! i)). known_object gem' ptr
             \<or> (\<exists>(s, ptrs) \<in> set held. ptr \<in> set ptrs \<and> s \<notin> radar_ids (concat (map fst (take (Suc i) locals))))))
    \<and> (\<forall>(s, ptrs) \<in> set held'. if s \<in> radar_ids (concat (map fst locals)) then \<forall>ptr \<in> set ptrs. known_object gem' ptr else (s, ptrs) \<in> set held)"
  using assms(4-6)
proof (induction locals arbitrary: held)
  case Nil
  then show ?case by (simp add: radar_ids_def case_prod_beta)
next
  case (Cons l locals)
  obtain sensors m where l: "l = (sensors, m)" by (cases l)
  have ids: "radar_ids (xs @ ys) = radar_ids xs \<union> radar_ids ys" for xs ys by (auto simp: radar_ids_def)
  from local_refresh_step [OF assms(1-3), of m sensors held] Cons.prems l obtain m' held1 where
    step: "LocalEnvironmentModel_refreshed g gem' sensors now (m, held) = Inr (m', held1)" "tracked_ok m'" "omap_ok held1"
    and seen: "\<forall>s config d ob. (s, RadarSensor config) \<in> set sensors \<and> detectObjects g config gem' = Inr d \<and> Some ob \<in> set (det_objects d) \<longrightarrow>
         eo_ptr ob \<in> fst ` set m' \<and> last_seen m' (eo_ptr ob) s = Some now"
    and tracked: "\<forall>ptr \<in> fst ` set m'. known_object gem' ptr \<or> (\<exists>(s, ptrs) \<in> set held. ptr \<in> set ptrs \<and> s \<notin> radar_ids sensors)"
    and held1: "\<forall>(s, ptrs) \<in> set held1. if s \<in> radar_ids sensors then \<forall>ptr \<in> set ptrs. known_object gem' ptr else (s, ptrs) \<in> set held"
    by auto
  from Cons.IH [of held1] Cons.prems step(3) obtain locals' held' where
    rest: "refresh_locals g gem' now locals held1 = Inr (locals', held')" "map fst locals' = map fst locals"
    and each: "\<And>i. i < length locals \<Longrightarrow> tracked_ok (snd (locals' ! i))
        \<and> (\<forall>s config d ob. (s, RadarSensor config) \<in> set (fst (locals ! i)) \<and> detectObjects g config gem' = Inr d \<and> Some ob \<in> set (det_objects d) \<longrightarrow>
            eo_ptr ob \<in> fst ` set (snd (locals' ! i)) \<and> last_seen (snd (locals' ! i)) (eo_ptr ob) s = Some now)
        \<and> (\<forall>ptr \<in> fst ` set (snd (locals' ! i)). known_object gem' ptr
             \<or> (\<exists>(s, ptrs) \<in> set held1. ptr \<in> set ptrs \<and> s \<notin> radar_ids (concat (map fst (take (Suc i) locals)))))"
    and held': "\<forall>(s, ptrs) \<in> set held'. if s \<in> radar_ids (concat (map fst locals)) then \<forall>ptr \<in> set ptrs. known_object gem' ptr else (s, ptrs) \<in> set held1"
    by auto
  show ?case
  proof (intro exI [of _ "(sensors, m') # locals'"] exI [of _ held'] conjI allI impI)
    fix i assume i: "i < length (l # locals)"
    show "tracked_ok (snd (((sensors, m') # locals') ! i))" using i step(2) each by (cases i) auto
    show "eo_ptr ob \<in> fst ` set (snd (((sensors, m') # locals') ! i))" "last_seen (snd (((sensors, m') # locals') ! i)) (eo_ptr ob) s = Some now"
      if "(s, RadarSensor config) \<in> set (fst ((l # locals) ! i)) \<and> detectObjects g config gem' = Inr d \<and> Some ob \<in> set (det_objects d)" for s config d ob
      using i seen each that l by (cases i; simp; blast)+
    show "\<forall>ptr \<in> fst ` set (snd (((sensors, m') # locals') ! i)). known_object gem' ptr
        \<or> (\<exists>(s, ptrs) \<in> set held. ptr \<in> set ptrs \<and> s \<notin> radar_ids (concat (map fst (take (Suc i) (l # locals)))))"
    proof (cases i)
      case 0
      then show ?thesis using tracked l by simp
    next
      case (Suc j)
      then have "j < length locals" using i by simp
      from each [OF this] Suc l held1 show ?thesis by (fastforce simp: ids split: if_splits)
    qed
  next
    show "\<forall>(s, ptrs) \<in> set held'. if s \<in> radar_ids (concat (map fst (l # locals))) then \<forall>ptr \<in> set ptrs. known_object gem' ptr else (s, ptrs) \<in> set held"
      using held' held1 l by (fastforce simp: ids split: if_splits)
  qed (use step rest l in simp_all)
qed

text \<open>Conversely, an object stays tracked although its vehicle has left the global model, as long as the sensor that saw it last is within its
  validity period and the radar of another vehicle holds the object.\<close>

theorem removed_object_stays_tracked:
  assumes "tracked_ok m" and "distinct (map fst sensors)" and "\<forall>(s, sensor) \<in> set sensors. \<not> sensor_fails g gem sensor"
    and "omap_ok held" and "(s, ptrs) \<in> set held" and "s \<notin> radar_ids sensors" and "ptr \<in> set ptrs" and "ptr \<noteq> 0"
    and "last_seen m ptr k = Some t" and "now \<le> t + sensor_validity sensors k"
  shows "\<exists>m' held'. LocalEnvironmentModel_refreshed g gem sensors now (m, held) = Inr (m', held') \<and> ptr \<in> fst ` set m'"
proof -
  let ?detect = "\<lambda>s. case map_of sensors s of None \<Rightarrow> [] | Some sensor \<Rightarrow> sees g gem sensor"
  let ?held = "fold (hold g gem) sensors held"
  let ?m = "LocalEnvironmentModel_receiveSignal (sensor_validity sensors) (object_alive gem ?held) ?detect (map fst sensors) now m"
  note r = refresh_refines [OF assms(1), of "sensor_validity sensors" "object_alive gem ?held" ?detect "map fst sensors" now]
  have "object_alive gem ?held ptr"
    using holds_others [OF assms(4-6), of g gem] assms(7,8) by (auto simp: object_alive_def list_ex_iff)
  then have "last_seen ?m ptr k \<noteq> None" unfolding conjunct2 [OF r]
    using assms(9,10) sensor_validity_nonneg [of sensors k] by (auto simp: spec_expire_def spec_measure_def)
  then have "ptr \<in> fst ` set ?m" using tracked_iff_seen [OF conjunct1 [OF r], of ptr] by auto
  with local_refresh_equivalent [OF assms(2,3), of now m held] show ?thesis by blast
qed

text \<open>A sensor configured without a visualisation element gets the uninitialised members of the configuration object, whatever they are; the
  defaults the constructor means to start from (all flags off) are not used.\<close>

theorem visualization_uninitialised:
  assumes "getFirstChildWithTag cfg ''filters'' = None" and "getFirstChildWithTag cfg ''visualization'' = None"
    and "module_type (getAttribute cfg ''type'') = Inr ty" and "sty_isSensor ty" and "getChildrenByTagName config ''sensor'' = [cfg]"
  shows "\<exists>name. LocalEnvironmentModel_initializeSensors regex lexical_cast uniform ident module_type undef config rng = Inr ([(name, undef)], rng)"
  using assms by (simp add: LocalEnvironmentModel_initializeSensors_def SensorVisualizationConfig_of_def Let_def)

section \<open>Examples\<close>

definition example_gem :: "Preselector \<Rightarrow> GlobalEnvironmentModel" where
  "example_gem p = \<lparr>gem_objects = example_objects, gem_obstacles = [], gem_rtree = [],
     gem_preselector = Some (Preselector_update plane example_objects p), gem_tainted = False\<rparr>"

definition standing :: VehicleController where
  "standing = \<lparr>vc_position = (0, 0), vc_geo_latitude = 0, vc_geo_longitude = 0, vc_heading = 0, vc_speed = 0\<rparr>"

lemma example_gem_ok: "gem_ok (example_gem p)"
  using example_objects_ok
  by (simp add: gem_ok_def example_gem_def) (simp add: example_objects_def example_object_def object_ok_def vdp_ok_def VehicleDataProvider_new_def)

lemma createSensorArc_ok:
  assumes "object_ok ob" and "sensorPosition config \<noteq> VIRTUAL"
  shows "\<exists>cone. createSensorArc g config ob = Inr cone"
  using assms by (cases "sensorPosition config") (auto simp: createSensorArc_def getAttachmentPoint_def object_ok_def createSensorArc_at_def Let_def)

lemma example_refresh:
  "\<exists>gem' ego cone. GlobalEnvironmentModel_refresh plane 0 (\<lambda>i. standing) (example_gem p) = Inr gem' \<and> getObject ''a'' gem' = Some ego
     \<and> createSensorArc plane (front_config ''a'') ego = Inr cone \<and> g_is_valid plane cone"
proof -
  have "gem_preselector (example_gem p) = Some (Preselector_update plane example_objects p)" by (simp add: example_gem_def)
  from refresh_total [OF example_gem_ok this, of plane 0 "\<lambda>i. standing"] obtain objs p' where
    r: "GlobalEnvironmentModel_refresh plane 0 (\<lambda>i. standing) (example_gem p) = Inr ((example_gem p)\<lparr>gem_objects := objs, gem_preselector := p', gem_tainted := False\<rparr>)"
    and objs: "\<forall>e \<in> set objs. object_ok (snd e)" "map fst objs = [''a'', ''b'']"
    by (auto simp: example_gem_def example_objects_def)
  then obtain ego b where "objs = [(''a'', ego), (''b'', b)]" by (cases objs; cases "tl objs") auto
  then have "object_ok ego" "getObject ''a'' ((example_gem p)\<lparr>gem_objects := objs, gem_preselector := p', gem_tainted := False\<rparr>) = Some ego"
    using objs(1) by (simp_all add: getObject_def)
  with r createSensorArc_ok [of ego "front_config ''a''" plane] show ?thesis by (auto simp: front_config_def plane_def)
qed

theorem detection_after_refresh_witness:
  "\<exists>gem' d. GlobalEnvironmentModel_refresh plane 0 (\<lambda>i. standing) (example_gem (PreMatrix [])) = Inr gem'
     \<and> detectObjects plane (front_config ''a'') gem' = Inr d \<and> None \<notin> set (det_objects d)"
proof -
  obtain gem' ego cone where r: "GlobalEnvironmentModel_refresh plane 0 (\<lambda>i. standing) (example_gem (PreMatrix [])) = Inr gem'"
    and e: "getObject (egoID (front_config ''a'')) gem' = Some ego" and c: "createSensorArc plane (front_config ''a'') ego = Inr cone" "g_is_valid plane cone"
    using example_refresh [of "PreMatrix []"] by (auto simp: front_config_def)
  have "egoID (front_config ''a'') \<noteq> []" "0 < fov_range (front_config ''a'')" "fov_angle (front_config ''a'') \<le> 360" by (simp_all add: front_config_def)
  from detection_after_refresh [OF plane_more_laws(2) example_gem_ok r e this c] r show ?thesis by fastforce
qed

theorem addVehicle_taints_witness:
  "\<exists>gem'. GlobalEnvironmentModel_addVehicle plane None 0 3 ''c'' 4 2 standing (example_gem PrePolygon) = Inr (True, gem')
     \<and> detectObjects plane (front_config ''a'') gem' = Inl AssertionFailed"
proof -
  obtain ob where "EnvironmentModelObject_new plane 0 3 ''c'' 4 2 standing 0 = Inr ob"
    using VehicleDataProvider_update_total [OF vdp_ok_new, of 0 standing 0]
    by (auto simp: EnvironmentModelObject_new_def EnvironmentModelObject_update_def Let_def)
  then obtain b gem' where a: "GlobalEnvironmentModel_addVehicle plane None 0 3 ''c'' 4 2 standing (example_gem PrePolygon) = Inr (b, gem')"
    by (simp add: GlobalEnvironmentModel_addVehicle_def Let_def)
  from addVehicle_taints [OF example_gem_ok this, of "front_config ''a''"] a show ?thesis
    by (auto simp: getObject_def example_gem_def example_objects_def)
qed

theorem global_signals_invariant_witness:
  "gem_ok (snd (GlobalEnvironmentModel_removeVehicle ''b'' (example_gem PrePolygon)))"
proof -
  have "GlobalEnvironmentModel_receiveSignal plane None 0 (NodeRemove ''b'') (example_gem PrePolygon) =
      Inr (snd (GlobalEnvironmentModel_removeVehicle ''b'' (example_gem PrePolygon)))" by simp
  from global_signals_invariant [OF example_gem_ok this] show ?thesis by simp
qed

lemma example_cone: "\<exists>cone. createSensorArc plane (front_config ''a'') (example_object 1 ''a'' (0, 0)) = Inr cone"
  by (simp add: createSensorArc_def getAttachmentPoint_def createSensorArc_at_def Let_def front_config_def example_object_def)

theorem removed_vehicle_null_pointer_witness:
  "detectObjects plane (front_config ''a'') (snd (GlobalEnvironmentModel_removeVehicle ''b'' (example_gem (PreRtree [])))) = Inl null_pointer"
proof -
  obtain cone where cone: "createSensorArc plane (front_config ''a'') (example_object 1 ''a'' (0, 0)) = Inr cone" using example_cone by blast
  then have "PreselectionRtree_select plane (PreselectionRtree_update plane example_objects) (example_object 1 ''a'' (0, 0)) (front_config ''a'') = Inr [''b'']"
    by (simp add: PreselectionRtree_select_def PreselectionRtree_update_def example_objects_def plane_def example_object_def)
  then show ?thesis
    by (intro removed_vehicle_null_pointer [OF plane_more_laws(2) example_gem_ok, where ego = "example_object 1 ''a'' (0, 0)" and ids = "[''b'']" and cone = cone
          and p = "PreRtree (PreselectionRtree_update plane example_objects)"])
      (simp_all add: example_gem_def cone getObject_def del: One_nat_def, simp_all add: example_objects_def front_config_def)
qed

theorem environment_refresh_witness:
  "\<exists>gem' m' held'. GlobalEnvironmentModel_refresh plane 0 (\<lambda>i. standing) (example_gem (PreMatrix [])) = Inr gem'
     \<and> refresh_locals plane gem' 0 [([(7, RadarSensor (front_config ''a''))], [])] [(7, [3])] = Inr ([([(7, RadarSensor (front_config ''a''))], m')], held')
     \<and> tracked_ok m' \<and> (\<forall>ptr \<in> fst ` set m'. known_object gem' ptr)"
proof -
  obtain gem' ego cone where r: "GlobalEnvironmentModel_refresh plane 0 (\<lambda>i. standing) (example_gem (PreMatrix [])) = Inr gem'"
    and e: "getObject ''a'' gem' = Some ego" and c: "createSensorArc plane (front_config ''a'') ego = Inr cone" "g_is_valid plane cone"
    using example_refresh by blast
  let ?locals = "[([(7 :: nat, RadarSensor (front_config ''a''))], [] :: TrackedObjects)]"
  have "egoID (front_config ''a'') = ''a''" by (simp add: front_config_def)
  then have "radar_ok plane gem' (front_config ''a'')" using e c by (simp add: radar_ok_def) (simp add: front_config_def)
  then have h: "\<forall>(sensors, m) \<in> set ?locals. tracked_ok m \<and> distinct (map fst sensors)" "omap_ok [(7 :: nat, [3 :: nat])]"
    "\<forall>(s, sensor) \<in> set (concat (map fst ?locals)). case sensor of CamSensor \<Rightarrow> True | RadarSensor config \<Rightarrow> radar_ok plane gem' config"
    by (simp_all add: tracked_ok_def)
  from environment_refresh [OF plane_more_laws(2) example_gem_ok r h] obtain locals' held' where
    l: "refresh_locals plane gem' 0 ?locals [(7, [3])] = Inr (locals', held')" "map fst locals' = map fst ?locals" "tracked_ok (snd (locals' ! 0))"
    "\<forall>ptr \<in> fst ` set (snd (locals' ! 0)). known_object gem' ptr" by (auto simp: radar_ids_def)
  then obtain m' where "locals' = [([(7, RadarSensor (front_config ''a''))], m')]" by (cases locals') auto
  with l r show ?thesis by auto
qed

theorem visualization_uninitialised_witness:
  "\<exists>name. LocalEnvironmentModel_initializeSensors (\<lambda>p. None) (\<lambda>s. Inl AssertionFailed) (\<lambda>r. (0, r))
     \<lparr>id_host = None, id_traci = ''a'', id_application = 1, id_geonet = []\<rparr> (\<lambda>t. Inr \<lparr>sty_name = ''FrontRadar'', sty_isSensor = True\<rparr>)
     (SensorVisualizationConfig_new\<lparr>svc_sensorCone := True\<rparr>)
     (XMLElement ''sensors'' (\<lambda>a. None) (\<lambda>t. [XMLElement ''sensor'' (\<lambda>a. None) (\<lambda>t. []) (\<lambda>t. None)]) (\<lambda>t. None)) (0 :: nat) =
     Inr ([(name, SensorVisualizationConfig_new\<lparr>svc_sensorCone := True\<rparr>)], 0)"
  by (rule visualization_uninitialised [where cfg = "XMLElement ''sensor'' (\<lambda>a. None) (\<lambda>t. []) (\<lambda>t. None)" and ty = "\<lparr>sty_name = ''FrontRadar'', sty_isSensor = True\<rparr>"]) simp_all

end
