(* ===== verification/Gemv2Index.thy ===== *)
theory Gemv2Index
  imports EnvObjects TraciCaches
begin

text \<open>
  \<open>artery/inet/gemv2\<close>, the indices behind the radio propagation model GEMV2: vehicles (\<open>VehicleIndex\<close>), buildings and
  foliage (\<open>ObstacleIndex\<close>), and the classification of a radio link by what blocks it (\<open>LinkClassifier\<close>).  An iterator into the table of
  vehicles is the address of the table's node; using it after the node was erased is an error of its own.
  What the server answers for a vehicle's type is the argument \<open>shape\<close>.
\<close>

section \<open>The geometry library\<close>

type_synonym Box = "Point \<times> Point"
type_synonym IndexTree = "(Box \<times> nat) list"

record RadioGeometry = Geometry +
  rg_cutting :: "Point list \<Rightarrow> Point list \<Rightarrow> bool"
  rg_string_intersects :: "Point list \<Rightarrow> Point list \<Rightarrow> bool"
  rg_within :: "Point \<Rightarrow> Point list \<Rightarrow> bool"
  rg_centroid :: "Point list \<Rightarrow> Point"
  rg_area :: "Point list \<Rightarrow> real"
  rg_box_line :: "Box \<Rightarrow> Point \<times> Point \<Rightarrow> bool"
  rg_query_line :: "IndexTree \<Rightarrow> Point \<times> Point \<Rightarrow> IndexTree"
  rg_query_box :: "IndexTree \<Rightarrow> Box \<Rightarrow> IndexTree"
  rg_intersection :: "Point \<times> Point \<Rightarrow> Point \<times> Point option \<Rightarrow> Point list"
  rg_clip :: "Point \<times> Point \<Rightarrow> Point list \<Rightarrow> Point list list"
  rg_length :: "Point list \<Rightarrow> real"

definition boxes_overlap :: "Box \<Rightarrow> Box \<Rightarrow> bool" where
  "boxes_overlap a b \<longleftrightarrow> fst (fst a) \<le> fst (snd b) \<and> fst (fst b) \<le> fst (snd a)
     \<and> snd (fst a) \<le> snd (snd b) \<and> snd (fst b) \<le> snd (snd a)"

text \<open>Queries answer the entries that meet the line or box, in an order of their own; what a line cuts or crosses meets the line with its
  envelope.\<close>

definition radio_laws :: "RadioGeometry \<Rightarrow> bool" where
  "radio_laws g \<longleftrightarrow>
     (\<forall>t l. mset (rg_query_line g t l) = mset (filter (\<lambda>e. rg_box_line g (fst e) l) t))
     \<and> (\<forall>t b. mset (rg_query_box g t b) = mset (filter (\<lambda>e. boxes_overlap (fst e) b) t))
     \<and> (\<forall>a b p. rg_cutting g [a, b] p \<longrightarrow> rg_box_line g (g_envelope g p) (a, b))
     \<and> (\<forall>a b p. g_crosses g (a, b) p \<longrightarrow> rg_box_line g (g_envelope g p) (a, b))"

text \<open>\<open>std::any_of\<close> with a predicate that may fail.\<close>

fun rany_of :: "('a \<Rightarrow> bool result) \<Rightarrow> 'a list \<Rightarrow> bool result" where
  "rany_of f [] = Inr False"
| "rany_of f (x # xs) = rbind (f x) (\<lambda>b. if b then Inr True else rany_of f xs)"

section \<open>Vehicles\<close>

record GVehicle =
  gv_boundary :: Boundary
  gv_height :: real
  gv_heading :: real
  gv_position :: Point
  gv_localMidpoint :: Point
  gv_worldMidpoint :: Point
  gv_localOutline :: "Point list"
  gv_worldOutline :: "Point list"

definition createLocalOutline :: "real \<Rightarrow> real \<Rightarrow> real \<Rightarrow> GVehicle \<Rightarrow> GVehicle" where
  "createLocalOutline width len margin v =
     v\<lparr>gv_localOutline := [(margin, 1/2 * width + margin), (margin, - (1/2 * width + margin)),
          (- (len + margin), - (1/2 * width + margin)), (- (len + margin), 1/2 * width + margin)],
       gv_localMidpoint := (- (1/2) * len, 0)\<rparr>"

definition calculateWorldOutline :: "RadioGeometry \<Rightarrow> GVehicle \<Rightarrow> GVehicle result" where
  "calculateWorldOutline g v =
     (let place = (\<lambda>p. g_translate g (fst (gv_position v)) (snd (gv_position v)) (g_rotate g (gv_heading v) p));
          v = v\<lparr>gv_worldOutline := map place (gv_localOutline v), gv_worldMidpoint := place (gv_localMidpoint v)\<rparr>
      in if length (gv_worldOutline v) = length (gv_localOutline v) \<and> g_is_valid g (gv_worldOutline v) then Inr v else Inl AssertionFailed)"

definition Vehicle_update :: "RadioGeometry \<Rightarrow> TraCIPosition \<Rightarrow> real \<Rightarrow> GVehicle \<Rightarrow> GVehicle result" where
  "Vehicle_update g pos heading v =
     calculateWorldOutline g (v\<lparr>gv_position := position_cast_artery (gv_boundary v) pos, gv_heading := angle_cast_artery heading\<rparr>)"

text \<open>\<open>shape id\<close> answers height, width and length of the vehicle's type.\<close>

definition Vehicle_new ::
    "RadioGeometry \<Rightarrow> LiteAPI \<Rightarrow> (string \<Rightarrow> (real \<times> real \<times> real) result) \<Rightarrow> string \<Rightarrow> real \<Rightarrow> GVehicle result" where
  "Vehicle_new g api shape vid margin =
     rbind (Boundary_new (api_netBoundary api)) (\<lambda>boundary.
     rbind (shape vid) (\<lambda>(height, width, len).
     rbind (api_vehiclePosition api vid) (\<lambda>pos.
     rbind (api_vehicleAngle api vid) (\<lambda>angle.
       Vehicle_update g pos angle (createLocalOutline width len margin
         \<lparr>gv_boundary = boundary, gv_height = height, gv_heading = 0, gv_position = (0, 0), gv_localMidpoint = (0, 0),
          gv_worldMidpoint = (0, 0), gv_localOutline = [], gv_worldOutline = []\<rparr>)))))"

record VehicleIndex =
  vi_vehicles :: "(string, nat \<times> GVehicle) omap"
  vi_rtree :: IndexTree
  vi_rtreeTainted :: bool
  vi_margin :: real

definition VehicleIndex_initialize :: "bool \<Rightarrow> real \<Rightarrow> VehicleIndex result" where
  "VehicleIndex_initialize traci vehicleMargin =
     (if traci then Inr \<lparr>vi_vehicles = [], vi_rtree = [], vi_rtreeTainted = False, vi_margin = \<bar>vehicleMargin\<bar>\<rparr>
      else Inl (RuntimeError ''No TraCI module found for signal subscription''))"

definition VehicleIndex_updateNode :: "RadioGeometry \<Rightarrow> VehicleIndex \<Rightarrow> VehicleIndex" where
  "VehicleIndex_updateNode g vi =
     vi\<lparr>vi_rtree := map (\<lambda>(vid, node, v). (g_envelope g (gv_worldOutline v), node)) (vi_vehicles vi), vi_rtreeTainted := False\<rparr>"

text \<open>The signals of the node manager; a vehicle that is added gets a node at the address given.  The handler ends with setting a
  local variable named like the member \<open>mRtreeTainted\<close>.\<close>

datatype VehicleSignal =
    AddVehicle LiteAPI string nat
  | UpdateVehicle string TraCIPosition real
  | RemoveVehicle string
  | OtherVehicleSignal

fun VehicleIndex_receiveSignal ::
    "RadioGeometry \<Rightarrow> (string \<Rightarrow> (real \<times> real \<times> real) result) \<Rightarrow> VehicleSignal \<Rightarrow> VehicleIndex \<Rightarrow> VehicleIndex result" where
  "VehicleIndex_receiveSignal g shape (AddVehicle api vid node) vi =
     rmap (\<lambda>v. if map_of (vi_vehicles vi) vid = None then vi\<lparr>vi_vehicles := omap_put vid (node, v) (vi_vehicles vi)\<rparr> else vi)
       (Vehicle_new g api shape vid (vi_margin vi))"
| "VehicleIndex_receiveSignal g shape (UpdateVehicle vid pos heading) vi =
     (case map_of (vi_vehicles vi) vid of
        None \<Rightarrow> Inl (RangeError ''map::at'')
      | Some (node, v) \<Rightarrow> rmap (\<lambda>v. vi\<lparr>vi_vehicles := omap_put vid (node, v) (vi_vehicles vi)\<rparr>) (Vehicle_update g pos heading v))"
| "VehicleIndex_receiveSignal g shape (RemoveVehicle vid) vi = Inr (vi\<lparr>vi_vehicles := omap_del vid (vi_vehicles vi)\<rparr>)"
| "VehicleIndex_receiveSignal g shape OtherVehicleSignal vi = Inr vi"

definition dangling :: cerror where "dangling = LogicError ''dangling iterator''"

definition vehicle_at :: "VehicleIndex \<Rightarrow> nat \<Rightarrow> GVehicle result" where
  "vehicle_at vi node =
     (case map_of (map snd (vi_vehicles vi)) node of None \<Rightarrow> Inl dangling | Some v \<Rightarrow> Inr v)"

definition VehicleIndex_anyBlockage :: "RadioGeometry \<Rightarrow> Point \<Rightarrow> Point \<Rightarrow> VehicleIndex \<Rightarrow> bool result" where
  "VehicleIndex_anyBlockage g a b vi =
     (if vi_rtreeTainted vi then Inl AssertionFailed
      else rany_of (\<lambda>candidate. rmap (\<lambda>v. rg_cutting g [a, b] (gv_worldOutline v)) (vehicle_at vi (snd candidate)))
             (rg_query_line g (vi_rtree vi) (a, b)))"

definition VehicleIndex_anyBlockage_height :: "RadioGeometry \<Rightarrow> Point \<Rightarrow> Point \<Rightarrow> real \<Rightarrow> VehicleIndex \<Rightarrow> bool result" where
  "VehicleIndex_anyBlockage_height g a b height vi =
     (if vi_rtreeTainted vi then Inl AssertionFailed
      else rany_of (\<lambda>candidate. rmap (\<lambda>v. gv_height v > height \<and> rg_cutting g [a, b] (gv_worldOutline v)) (vehicle_at vi (snd candidate)))
             (rg_query_line g (vi_rtree vi) (a, b)))"

definition getObstructingVehicles :: "RadioGeometry \<Rightarrow> Point \<Rightarrow> Point \<Rightarrow> VehicleIndex \<Rightarrow> GVehicle list result" where
  "getObstructingVehicles g a b vi =
     rfold (\<lambda>candidate result. rmap (\<lambda>v. if rg_cutting g [a, b] (gv_worldOutline v) then result @ [v] else result) (vehicle_at vi (snd candidate)))
       (rg_query_line g (vi_rtree vi) (a, b)) []"

text \<open>The box around the ellipse with foci \<open>a\<close> and \<open>b\<close>.\<close>

definition ellipse_box :: "Point \<Rightarrow> Point \<Rightarrow> real \<Rightarrow> Box" where
  "ellipse_box a b k = ((min (fst a) (fst b) - k, min (snd a) (snd b) - k), (max (fst a) (fst b) + k, max (snd a) (snd b) + k))"

definition vehiclesEllipse :: "RadioGeometry \<Rightarrow> Point \<Rightarrow> Point \<Rightarrow> real \<Rightarrow> VehicleIndex \<Rightarrow> GVehicle list result" where
  "vehiclesEllipse g a b r vi =
     (let d = position_distance a b; k = 1/2 * (r - d)
      in if k \<ge> 0 then
           rfold (\<lambda>candidate vehicles. rmap (\<lambda>v.
               let c = gv_worldMidpoint v
               in if position_distance a c + position_distance b c \<le> r then vehicles @ [v] else vehicles) (vehicle_at vi (snd candidate)))
             (rg_query_box g (vi_rtree vi) (ellipse_box a b k)) []
         else Inr [])"

section \<open>Obstacles\<close>

record GObstacle =
  go_outline :: "Point list"
  go_centroid :: Point
  go_area :: real

definition Obstacle_new :: "RadioGeometry \<Rightarrow> Point list \<Rightarrow> GObstacle" where
  "Obstacle_new g outline = \<lparr>go_outline = outline, go_centroid = rg_centroid g outline, go_area = rg_area g outline\<rparr>"

record ObstacleIndex =
  oi_filterTypes :: "string list"
  oi_obstacles :: "GObstacle list"
  oi_rtree :: IndexTree

text \<open>\<open>boost::split\<close> at blanks: a token per gap, also before the first and after the last blank.\<close>

fun split_blanks :: "string \<Rightarrow> string list" where
  "split_blanks [] = [[]]"
| "split_blanks (c # cs) =
     (if c = CHR '' '' then [] # split_blanks cs
      else case split_blanks cs of [] \<Rightarrow> [[c]] | token # tokens \<Rightarrow> (c # token) # tokens)"

definition ObstacleIndex_initialize :: "bool \<Rightarrow> string \<Rightarrow> ObstacleIndex result" where
  "ObstacleIndex_initialize traci filterTypes =
     (if traci then Inr \<lparr>oi_filterTypes = split_blanks filterTypes, oi_obstacles = [], oi_rtree = []\<rparr>
      else Inl (RuntimeError ''No TraCI module found for signal subscription''))"

text \<open>Type and shape of the server's polygons.\<close>

definition obstacle_shape :: "RadioGeometry \<Rightarrow> Boundary \<Rightarrow> string list \<Rightarrow> string \<times> TraCIPosition list \<Rightarrow> Point list option" where
  "obstacle_shape g boundary filterTypes polygon =
     (if filterTypes \<noteq> [] \<and> fst polygon \<notin> set filterTypes then None
      else (let shape = g_correct g (map (position_cast_artery boundary) (snd polygon))
            in if g_is_valid g shape then Some shape else None))"

definition ObstacleIndex_fetchObstacles ::
    "RadioGeometry \<Rightarrow> LiteAPI \<Rightarrow> (string \<times> TraCIPosition list) list \<Rightarrow> ObstacleIndex \<Rightarrow> ObstacleIndex result" where
  "ObstacleIndex_fetchObstacles g api polygons oi =
     rbind (Boundary_new (api_netBoundary api)) (\<lambda>boundary.
       let obstacles = oi_obstacles oi @ map (Obstacle_new g) (List.map_filter (obstacle_shape g boundary (oi_filterTypes oi)) polygons)
       in Inr (oi\<lparr>oi_obstacles := obstacles,
                  oi_rtree := map (\<lambda>i. (g_envelope g (go_outline (obstacles ! i)), i)) [0..<length obstacles]\<rparr>))"

definition obstacle_at :: "ObstacleIndex \<Rightarrow> nat \<Rightarrow> GObstacle result" where
  "obstacle_at oi i = (if i < length (oi_obstacles oi) then Inr (oi_obstacles oi ! i) else Inl (RangeError ''vector index''))"

definition ObstacleIndex_anyBlockage :: "RadioGeometry \<Rightarrow> Point \<Rightarrow> Point \<Rightarrow> ObstacleIndex \<Rightarrow> bool result" where
  "ObstacleIndex_anyBlockage g a b oi =
     rany_of (\<lambda>candidate. rmap (\<lambda>ob. g_crosses g (a, b) (go_outline ob)) (obstacle_at oi (snd candidate))) (rg_query_line g (oi_rtree oi) (a, b))"

definition getObstructingObstacles :: "RadioGeometry \<Rightarrow> Point \<Rightarrow> Point \<Rightarrow> ObstacleIndex \<Rightarrow> GObstacle list result" where
  "getObstructingObstacles g a b oi =
     rfold (\<lambda>candidate result. rmap (\<lambda>ob. if g_crosses g (a, b) (go_outline ob) then result @ [ob] else result) (obstacle_at oi (snd candidate)))
       (rg_query_line g (oi_rtree oi) (a, b)) []"

definition obstaclesEllipse :: "RadioGeometry \<Rightarrow> Point \<Rightarrow> Point \<Rightarrow> real \<Rightarrow> ObstacleIndex \<Rightarrow> GObstacle list result" where
  "obstaclesEllipse g a b r oi =
     (let d = position_distance a b; k = 1/2 * (r - d)
      in if k \<ge> 0 then
           rfold (\<lambda>candidate obstacles. rmap (\<lambda>ob.
               let c = go_centroid ob
               in if position_distance a c + position_distance b c \<le> r then obstacles @ [ob] else obstacles) (obstacle_at oi (snd candidate)))
             (rg_query_box g (oi_rtree oi) (ellipse_box a b k)) []
         else Inr [])"

section \<open>Classification of links\<close>

datatype LinkClass = LOS | NLOSb | NLOSf | NLOSv

record LinkClassifier =
  mCountLOS :: "32 word"
  mCountNLOSb :: "32 word"
  mCountNLOSf :: "32 word"
  mCountNLOSv :: "32 word"

definition classifyLink ::
    "RadioGeometry \<Rightarrow> ObstacleIndex \<Rightarrow> ObstacleIndex \<Rightarrow> VehicleIndex \<Rightarrow> Point \<Rightarrow> Point \<Rightarrow> LinkClassifier
     \<Rightarrow> (LinkClass \<times> LinkClassifier) result" where
  "classifyLink g mObstacleIndex mFoliageIndex mVehicleIndex tx rx c =
     rbind (ObstacleIndex_anyBlockage g tx rx mObstacleIndex) (\<lambda>building.
       if building then Inr (NLOSb, c\<lparr>mCountNLOSb := mCountNLOSb c + 1\<rparr>)
       else rbind (ObstacleIndex_anyBlockage g tx rx mFoliageIndex) (\<lambda>foliage.
         if foliage then Inr (NLOSf, c\<lparr>mCountNLOSf := mCountNLOSf c + 1\<rparr>)
         else rbind (VehicleIndex_anyBlockage g tx rx mVehicleIndex) (\<lambda>vehicle.
           if vehicle then Inr (NLOSv, c\<lparr>mCountNLOSv := mCountNLOSv c + 1\<rparr>)
           else Inr (LOS, c\<lparr>mCountLOS := mCountLOS c + 1\<rparr>))))"

section \<open>Invariants\<close>

definition vi_ok :: "VehicleIndex \<Rightarrow> bool" where
  "vi_ok vi \<longleftrightarrow> omap_ok (vi_vehicles vi) \<and> distinct (map (\<lambda>e. fst (snd e)) (vi_vehicles vi)) \<and> \<not> vi_rtreeTainted vi"

text \<open>The tree matches the table.\<close>

definition vi_synced :: "RadioGeometry \<Rightarrow> VehicleIndex \<Rightarrow> bool" where
  "vi_synced g vi \<longleftrightarrow> vi_rtree vi = map (\<lambda>(vid, node, v). (g_envelope g (gv_worldOutline v), node)) (vi_vehicles vi)"

definition oi_ok :: "RadioGeometry \<Rightarrow> ObstacleIndex \<Rightarrow> bool" where
  "oi_ok g oi \<longleftrightarrow> oi_rtree oi = map (\<lambda>i. (g_envelope g (go_outline (oi_obstacles oi ! i)), i)) [0..<length (oi_obstacles oi)]"

lemma vi_ok_updateNode: "vi_ok vi \<Longrightarrow> vi_ok (VehicleIndex_updateNode g vi) \<and> vi_synced g (VehicleIndex_updateNode g vi)"
  by (simp add: vi_ok_def vi_synced_def VehicleIndex_updateNode_def)

lemma vehicle_at_ok:
  assumes "vi_ok vi" and "(vid, node, v) \<in> set (vi_vehicles vi)"
  shows "vehicle_at vi node = Inr v"
proof -
  have "map fst (map snd (vi_vehicles vi)) = map (\<lambda>e. fst (snd e)) (vi_vehicles vi)"
    by simp
  then have "distinct (map fst (map snd (vi_vehicles vi)))" using assms(1) by (simp only: vi_ok_def)
  moreover have "(node, v) \<in> set (map snd (vi_vehicles vi))" using assms(2) by force
  ultimately have "map_of (map snd (vi_vehicles vi)) node = Some v" by (rule map_of_is_SomeI)
  then show ?thesis by (simp add: vehicle_at_def)
qed

lemma rany_of_total: "(\<And>x. x \<in> set xs \<Longrightarrow> f x = Inr (h x)) \<Longrightarrow> rany_of f xs = Inr (\<exists>x \<in> set xs. h x)"
  by (induction xs) auto

text \<open>A loop that collects what it finds.\<close>

lemma rfold_collect:
  assumes "\<And>x. x \<in> set xs \<Longrightarrow> f x = Inr (h x)"
  shows "rfold (\<lambda>x acc. rmap (\<lambda>v. if P v then acc @ [v] else acc) (f x)) xs acc = Inr (acc @ filter P (map h xs))"
  using assms by (induction xs arbitrary: acc) auto

lemma radio_lawsD:
  assumes "radio_laws g"
  shows "mset (rg_query_line g t l) = mset (filter (\<lambda>e. rg_box_line g (fst e) l) t)"
    "mset (rg_query_box g t bx) = mset (filter (\<lambda>e. boxes_overlap (fst e) bx) t)"
    "rg_cutting g [a, b] p \<Longrightarrow> rg_box_line g (g_envelope g p) (a, b)" "g_crosses g (a, b) p \<Longrightarrow> rg_box_line g (g_envelope g p) (a, b)"
  using assms unfolding radio_laws_def by blast+

lemma query_sets:
  assumes "radio_laws g"
  shows "set (rg_query_line g t l) = {e \<in> set t. rg_box_line g (fst e) l}" "set (rg_query_box g t b) = {e \<in> set t. boxes_overlap (fst e) b}"
  using mset_eq_setD [OF radio_lawsD(1) [OF assms, of t l]] mset_eq_setD [OF radio_lawsD(2) [OF assms, of t b]] by simp_all

text \<open>In a synchronised index every entry of the tree is the node of a vehicle.\<close>

lemma synced_entry:
  assumes "vi_ok vi" and "vi_synced g vi" and "e \<in> set (vi_rtree vi)"
  shows "\<exists>vid v. (vid, snd e, v) \<in> set (vi_vehicles vi) \<and> fst e = g_envelope g (gv_worldOutline v) \<and> vehicle_at vi (snd e) = Inr v"
  using assms(2,3) vehicle_at_ok [OF assms(1)] by (fastforce simp: vi_synced_def)

definition node_vehicle :: "VehicleIndex \<Rightarrow> Box \<times> nat \<Rightarrow> GVehicle" where
  "node_vehicle vi e = (case vehicle_at vi (snd e) of Inl err \<Rightarrow> undefined | Inr v \<Rightarrow> v)"

lemma synced_node:
  assumes "vi_ok vi" and "vi_synced g vi" and "e \<in> set (vi_rtree vi)"
  shows "vehicle_at vi (snd e) = Inr (node_vehicle vi e)" "\<exists>vid. (vid, snd e, node_vehicle vi e) \<in> set (vi_vehicles vi)"
  using synced_entry [OF assms] by (auto simp: node_vehicle_def)

definition cut_vehicles :: "RadioGeometry \<Rightarrow> Point \<Rightarrow> Point \<Rightarrow> VehicleIndex \<Rightarrow> GVehicle set" where
  "cut_vehicles g a b vi = {v. \<exists>vid node. (vid, node, v) \<in> set (vi_vehicles vi) \<and> rg_cutting g [a, b] (gv_worldOutline v)}"

text \<open>The candidates of a query that are cut are all vehicles that are cut.\<close>

lemma cut_candidates:
  assumes "radio_laws g" and "vi_ok vi" and "vi_synced g vi"
  shows "{v \<in> node_vehicle vi ` set (rg_query_line g (vi_rtree vi) (a, b)). rg_cutting g [a, b] (gv_worldOutline v)} = cut_vehicles g a b vi" (is "?l = ?r")
proof (intro set_eqI iffI)
  fix v assume "v \<in> ?l"
  then obtain e where e: "e \<in> set (vi_rtree vi)" "v = node_vehicle vi e" "rg_cutting g [a, b] (gv_worldOutline v)" using query_sets(1) [OF assms(1)] by auto
  from synced_node(2) [OF assms(2,3) e(1)] e(2,3) show "v \<in> ?r" unfolding cut_vehicles_def by blast
next
  fix v assume "v \<in> ?r"
  then obtain vid node where v: "(vid, node, v) \<in> set (vi_vehicles vi)" "rg_cutting g [a, b] (gv_worldOutline v)" by (auto simp: cut_vehicles_def)
  let ?e = "(g_envelope g (gv_worldOutline v), node)"
  have "?e \<in> set (vi_rtree vi)" using v(1) assms(3) by (force simp: vi_synced_def)
  moreover have "rg_box_line g (fst ?e) (a, b)" using radio_lawsD(3) [OF assms(1) v(2)] by simp
  moreover have "node_vehicle vi ?e = v" using vehicle_at_ok [OF assms(2) v(1)] by (simp add: node_vehicle_def)
  ultimately have "v \<in> node_vehicle vi ` set (rg_query_line g (vi_rtree vi) (a, b))"
    unfolding query_sets(1) [OF assms(1)] by (intro image_eqI [of _ _ ?e]) auto
  then show "v \<in> ?l" using v(2) by simp
qed

lemma blockage_synced:
  assumes "radio_laws g" and "vi_ok vi" and "vi_synced g vi"
  shows "VehicleIndex_anyBlockage g a b vi = Inr (cut_vehicles g a b vi \<noteq> {})"
proof -
  have "rany_of (\<lambda>candidate. rmap (\<lambda>v. rg_cutting g [a, b] (gv_worldOutline v)) (vehicle_at vi (snd candidate))) (rg_query_line g (vi_rtree vi) (a, b)) =
      Inr (\<exists>e \<in> set (rg_query_line g (vi_rtree vi) (a, b)). rg_cutting g [a, b] (gv_worldOutline (node_vehicle vi e)))"
    by (rule rany_of_total) (use query_sets(1) [OF assms(1)] synced_node(1) [OF assms(2,3)] in auto)
  also have "\<dots> = Inr (cut_vehicles g a b vi \<noteq> {})" unfolding cut_candidates [OF assms, symmetric] by blast
  finally show ?thesis using assms(2) by (simp add: VehicleIndex_anyBlockage_def vi_ok_def)
qed

lemma obstructing_synced:
  assumes "radio_laws g" and "vi_ok vi" and "vi_synced g vi"
  shows "\<exists>vs. getObstructingVehicles g a b vi = Inr vs \<and> set vs = cut_vehicles g a b vi"
proof -
  let ?vs = "filter (\<lambda>v. rg_cutting g [a, b] (gv_worldOutline v)) (map (node_vehicle vi) (rg_query_line g (vi_rtree vi) (a, b)))"
  have "getObstructingVehicles g a b vi = Inr ([] @ ?vs)"
    unfolding getObstructingVehicles_def
    by (rule rfold_collect) (use query_sets(1) [OF assms(1)] synced_node(1) [OF assms(2,3)] in auto)
  then show ?thesis using cut_candidates [OF assms, of a b] by auto
qed

lemma oi_entry: "oi_ok g oi \<Longrightarrow> e \<in> set (oi_rtree oi) \<Longrightarrow> obstacle_at oi (snd e) = Inr (oi_obstacles oi ! snd e) \<and> snd e < length (oi_obstacles oi)"
  by (auto simp: oi_ok_def obstacle_at_def)

lemma obstacle_blockage:
  assumes "radio_laws g" and "oi_ok g oi"
  shows "ObstacleIndex_anyBlockage g a b oi = Inr (\<exists>ob \<in> set (oi_obstacles oi). g_crosses g (a, b) (go_outline ob))"
proof -
  have q: "set (rg_query_line g (oi_rtree oi) (a, b)) = {e \<in> set (oi_rtree oi). rg_box_line g (fst e) (a, b)}" by (rule query_sets [OF assms(1)])
  have "ObstacleIndex_anyBlockage g a b oi =
      Inr (\<exists>e \<in> set (rg_query_line g (oi_rtree oi) (a, b)). g_crosses g (a, b) (go_outline (oi_obstacles oi ! snd e)))"
    unfolding ObstacleIndex_anyBlockage_def by (rule rany_of_total) (use q oi_entry [OF assms(2)] in auto)
  also have "(\<exists>e \<in> set (rg_query_line g (oi_rtree oi) (a, b)). g_crosses g (a, b) (go_outline (oi_obstacles oi ! snd e))) \<longleftrightarrow>
      (\<exists>ob \<in> set (oi_obstacles oi). g_crosses g (a, b) (go_outline ob))" (is "?l \<longleftrightarrow> ?r")
  proof
    assume ?l
    then show ?r using q oi_entry [OF assms(2)] nth_mem by blast
  next
    assume ?r
    then obtain i where i: "i < length (oi_obstacles oi)" "g_crosses g (a, b) (go_outline (oi_obstacles oi ! i))" by (auto simp: in_set_conv_nth)
    let ?e = "(g_envelope g (go_outline (oi_obstacles oi ! i)), i)"
    have "?e \<in> set (oi_rtree oi)" using i(1) assms(2) by (simp add: oi_ok_def)
    moreover have "rg_box_line g (fst ?e) (a, b)" using radio_lawsD(4) [OF assms(1) i(2)] by simp
    ultimately show ?l using q i(2) by (intro bexI [of _ ?e]) auto
  qed
  finally show ?thesis .
qed

lemma oi_ok_fetch: "ObstacleIndex_fetchObstacles g api polygons oi = Inr oi' \<Longrightarrow> oi_ok g oi'"
  by (auto simp: ObstacleIndex_fetchObstacles_def rbind_ok_iff Let_def oi_ok_def)

section \<open>Properties\<close>

text \<open>A radio link is classified by what blocks it, buildings before foliage before vehicles, as soon as the indices are
  built and synchronised, and exactly one of the four (wrapping) counters goes up.\<close>

theorem link_class_correct:
  assumes "radio_laws g" and "oi_ok g obstacles" and "oi_ok g foliage" and "vi_ok vi" and "vi_synced g vi"
  shows "\<exists>link c'. classifyLink g obstacles foliage vi tx rx c = Inr (link, c')
    \<and> link = (if \<exists>ob \<in> set (oi_obstacles obstacles). g_crosses g (tx, rx) (go_outline ob) then NLOSb
        else if \<exists>ob \<in> set (oi_obstacles foliage). g_crosses g (tx, rx) (go_outline ob) then NLOSf
        else if cut_vehicles g tx rx vi \<noteq> {} then NLOSv else LOS)
    \<and> mCountLOS c' + mCountNLOSb c' + mCountNLOSf c' + mCountNLOSv c' = mCountLOS c + mCountNLOSb c + mCountNLOSf c + mCountNLOSv c + 1"
  unfolding classifyLink_def obstacle_blockage [OF assms(1,2)] obstacle_blockage [OF assms(1,3)] blockage_synced [OF assms(1,4,5)]
  by simp

lemma rany_of_error:
  assumes "x \<in> set xs" and "f x = Inl e" and "\<And>y. y \<in> set xs \<Longrightarrow> f y = Inl e \<or> f y = Inr False"
  shows "rany_of f xs = Inl e"
  using assms
proof (induction xs)
  case (Cons y ys)
  show ?case
  proof (cases "f y = Inl e")
    case False
    then have "f y = Inr False" "x \<in> set ys" using Cons.prems(3) [of y] Cons.prems(1,2) by auto
    then show ?thesis using Cons.IH Cons.prems(2,3) by simp
  qed simp
qed simp

lemma vehicle_at_removed:
  assumes "vi_ok vi" and "(vid, node, v) \<in> set (vi_vehicles vi)"
  shows "vehicle_at (vi\<lparr>vi_vehicles := omap_del vid (vi_vehicles vi)\<rparr>) node' =
    (if node' = node then Inl dangling else vehicle_at vi node')"
proof -
  have inj: "e = e'" if "e \<in> set (vi_vehicles vi)" "e' \<in> set (vi_vehicles vi)" "fst (snd e) = fst (snd e')" for e e'
    using assms(1) that by (auto simp: vi_ok_def distinct_map dest: inj_onD)
  have key: "e = (vid, node, v)" if "e \<in> set (vi_vehicles vi)" "fst e = vid" for e
    using omap_ok_distinct [of "vi_vehicles vi"] assms that eq_key_imp_eq_value [of "vi_vehicles vi" vid] by (cases e) (auto simp: vi_ok_def)
  have same: "fst e \<noteq> vid \<longleftrightarrow> fst (snd e) \<noteq> node" if "e \<in> set (vi_vehicles vi)" for e
    using inj [OF that assms(2)] key [OF that] by (cases e) auto
  have "omap_del vid (vi_vehicles vi) = filter (\<lambda>e. fst (snd e) \<noteq> node) (vi_vehicles vi)"
    unfolding omap_del_def using same by (intro filter_cong) auto
  moreover have "map_of (map snd (filter (\<lambda>e. fst (snd e) \<noteq> node) es)) node' =
      (if node' = node then None else map_of (map snd es) node')" for es :: "(string \<times> nat \<times> GVehicle) list"
    by (induction es) auto
  ultimately show ?thesis by (simp add: vehicle_at_def)
qed

text \<open>Removing a vehicle does not taint the index, because the handler sets a local variable: the next test of a line that
  meets the removed vehicle's box, and that no other vehicle blocks, uses the iterator of the erased vehicle instead of
  failing the assertion.\<close>

theorem removed_vehicle_dangling:
  assumes "radio_laws g" and "vi_ok vi" and "vi_synced g vi" and "(vid, node, v) \<in> set (vi_vehicles vi)"
    and "rg_box_line g (g_envelope g (gv_worldOutline v)) (a, b)"
    and "\<And>vid' node' v'. (vid', node', v') \<in> set (vi_vehicles vi) \<Longrightarrow> vid' \<noteq> vid \<Longrightarrow> \<not> rg_cutting g [a, b] (gv_worldOutline v')"
  shows "\<exists>vi'. VehicleIndex_receiveSignal g shape (RemoveVehicle vid) vi = Inr vi' \<and> vi_ok vi'
    \<and> VehicleIndex_anyBlockage g a b vi' = Inl dangling"
proof -
  let ?vi = "vi\<lparr>vi_vehicles := omap_del vid (vi_vehicles vi)\<rparr>"
  let ?e = "(g_envelope g (gv_worldOutline v), node)"
  have ok: "vi_ok ?vi" using assms(2) by (auto simp: vi_ok_def omap_del_def omap_ok_filter distinct_map_filter)
  have e: "?e \<in> set (rg_query_line g (vi_rtree vi) (a, b))"
    unfolding query_sets(1) [OF assms(1)] using assms(3-5) by (force simp: vi_synced_def)
  have "rany_of (\<lambda>candidate. rmap (\<lambda>v. rg_cutting g [a, b] (gv_worldOutline v)) (vehicle_at ?vi (snd candidate))) (rg_query_line g (vi_rtree vi) (a, b)) = Inl dangling"
  proof (rule rany_of_error [OF e])
    show "rmap (\<lambda>v. rg_cutting g [a, b] (gv_worldOutline v)) (vehicle_at ?vi (snd ?e)) = Inl dangling"
      by (simp add: vehicle_at_removed [OF assms(2,4)])
    fix y assume "y \<in> set (rg_query_line g (vi_rtree vi) (a, b))"
    then have y: "y \<in> set (vi_rtree vi)" unfolding query_sets(1) [OF assms(1)] by blast
    obtain vid' where v': "(vid', snd y, node_vehicle vi y) \<in> set (vi_vehicles vi)" using synced_node(2) [OF assms(2,3) y] by blast
    have "vid' \<noteq> vid" if "snd y \<noteq> node"
    proof
      assume "vid' = vid"
      then have "(snd y, node_vehicle vi y) = (node, v)" using v' assms(2,4) omap_ok_distinct eq_key_imp_eq_value unfolding vi_ok_def by metis
      then show False using that by simp
    qed
    then show "rmap (\<lambda>v. rg_cutting g [a, b] (gv_worldOutline v)) (vehicle_at ?vi (snd y)) = Inl dangling
        \<or> rmap (\<lambda>v. rg_cutting g [a, b] (gv_worldOutline v)) (vehicle_at ?vi (snd y)) = Inr False"
      using assms(6) [OF v'] synced_node(1) [OF assms(2,3) y] by (auto simp: vehicle_at_removed [OF assms(2,4)])
  qed
  then show ?thesis using ok assms(2) by (simp add: VehicleIndex_anyBlockage_def vi_ok_def)
qed

lemma split_blanks_token: "\<forall>c \<in> set s. c \<noteq> CHR '' '' \<Longrightarrow> split_blanks s = [s]"
  by (induction s) auto

text \<open>The obstacles of an index are the valid polygons of the server whose type is one of the configured types; with nothing configured
  the set of types is not empty, as its use expects, but holds the empty string, so every polygon that has a type is ignored.\<close>

theorem fetchObstacles_filter:
  assumes "length (api_netBoundary api) = 2"
  shows "\<exists>oi oi' boundary. ObstacleIndex_initialize True filterTypes = Inr oi \<and> ObstacleIndex_fetchObstacles g api polygons oi = Inr oi'
    \<and> Boundary_new (api_netBoundary api) = Inr boundary \<and> oi_ok g oi'
    \<and> map go_outline (oi_obstacles oi') = filter (g_is_valid g) (map (\<lambda>p. g_correct g (map (position_cast_artery boundary) (snd p)))
        (filter (\<lambda>p. fst p \<in> set (split_blanks filterTypes)) polygons))
    \<and> (filterTypes = [] \<and> (\<forall>p \<in> set polygons. fst p \<noteq> []) \<longrightarrow> oi_obstacles oi' = [])"
proof -
  obtain boundary where b: "Boundary_new (api_netBoundary api) = Inr boundary" using assms by (simp add: Boundary_new_def)
  let ?oi = "\<lparr>oi_filterTypes = split_blanks filterTypes, oi_obstacles = [], oi_rtree = []\<rparr> :: ObstacleIndex"
  have ne: "split_blanks filterTypes \<noteq> []" by (cases filterTypes) (auto split: list.splits)
  obtain oi' where f: "ObstacleIndex_fetchObstacles g api polygons ?oi = Inr oi'"
    and obs: "oi_obstacles oi' = map (Obstacle_new g) (List.map_filter (obstacle_shape g boundary (split_blanks filterTypes)) polygons)"
    by (simp add: ObstacleIndex_fetchObstacles_def b Let_def)
  have "List.map_filter (obstacle_shape g boundary (split_blanks filterTypes)) ps =
      filter (g_is_valid g) (map (\<lambda>p. g_correct g (map (position_cast_artery boundary) (snd p))) (filter (\<lambda>p. fst p \<in> set (split_blanks filterTypes)) ps))" for ps
    using ne by (induction ps) (auto simp: List.map_filter_def obstacle_shape_def Let_def)
  then have "map go_outline (oi_obstacles oi') = filter (g_is_valid g) (map (\<lambda>p. g_correct g (map (position_cast_artery boundary) (snd p)))
        (filter (\<lambda>p. fst p \<in> set (split_blanks filterTypes)) polygons))" by (simp add: obs Obstacle_new_def comp_def)
  moreover from this have "oi_obstacles oi' = []" if "filterTypes = []" "\<forall>p \<in> set polygons. fst p \<noteq> []"
  proof -
    have "filter (\<lambda>p. fst p \<in> set (split_blanks filterTypes)) polygons = []" using that by (auto simp: filter_empty_conv)
    then show ?thesis using \<open>map go_outline (oi_obstacles oi') = _\<close> by simp
  qed
  ultimately show ?thesis using f b oi_ok_fetch [OF f] by (simp add: ObstacleIndex_initialize_def)
qed

text \<open>The box taken for an ellipse covers it along its axis only: an obstacle whose centre lies in the ellipse is missed when it is further
  off the axis than half of what the range exceeds the distance by.\<close>

theorem ellipse_misses_obstacle:
  assumes "radio_laws g" and "oi_ok g oi" and "oi_obstacles oi = [ob]" and "go_centroid ob = (150, 100)"
    and "50 < snd (fst (g_envelope g (go_outline ob)))"
  shows "position_distance (0, 0) (go_centroid ob) + position_distance (300, 0) (go_centroid ob) \<le> 400
    \<and> obstaclesEllipse g (0, 0) (300, 0) 400 oi = Inr []"
proof
  have "sqrt 32500 \<le> 200" by (rule real_le_lsqrt) simp_all
  then show "position_distance (0, 0) (go_centroid ob) + position_distance (300, 0) (go_centroid ob) \<le> 400"
    by (simp add: position_distance_def assms(4))
  have d: "position_distance (0, 0) (300, 0) = 300" by (simp add: position_distance_def)
  have "oi_rtree oi = [(g_envelope g (go_outline ob), 0)]" using assms(2,3) by (simp add: oi_ok_def)
  moreover have "\<not> boxes_overlap (g_envelope g (go_outline ob)) (ellipse_box (0, 0) (300, 0) 50)"
    using assms(5) by (simp add: boxes_overlap_def ellipse_box_def)
  ultimately have "set (rg_query_box g (oi_rtree oi) (ellipse_box (0, 0) (300, 0) 50)) = {}"
    unfolding query_sets(2) [OF assms(1)] by auto
  then show "obstaclesEllipse g (0, 0) (300, 0) 400 oi = Inr []" by (simp add: obstaclesEllipse_def d Let_def)
qed

section \<open>Examples\<close>

definition radio_plane :: RadioGeometry where
  "radio_plane = \<lparr>g_scale = \<lambda>sx sy p. (sx * fst p, sy * snd p), g_rotate = plane_rotation,
     g_rotate_deg = \<lambda>a. plane_rotation (a * (pi / 180)), g_translate = \<lambda>dx dy p. (fst p + dx, snd p + dy),
     g_covered_by = \<lambda>p ps. True, g_crosses = \<lambda>l ps. False, g_line_intersects = \<lambda>l ps. False, g_intersects = \<lambda>a b. True,
     g_is_valid = \<lambda>ps. True, g_envelope = \<lambda>ps. (hd ps, hd ps), g_box_intersects = \<lambda>b ps. True,
     g_rtree_query = \<lambda>t ps. t, g_correct = \<lambda>ps. ps,
     rg_cutting = \<lambda>l ps. ps \<noteq> [], rg_string_intersects = \<lambda>l ps. False, rg_within = \<lambda>p ps. False, rg_centroid = hd,
     rg_area = \<lambda>ps. 0, rg_box_line = \<lambda>b l. True, rg_query_line = \<lambda>t l. t, rg_query_box = \<lambda>t b. filter (\<lambda>e. boxes_overlap (fst e) b) t,
     rg_intersection = \<lambda>a b. [], rg_clip = \<lambda>l ps. [], rg_length = \<lambda>ps. 0\<rparr>"

lemma radio_plane_laws: "radio_laws radio_plane"
  by (simp add: radio_laws_def radio_plane_def)

definition parked :: "Point \<Rightarrow> GVehicle" where
  "parked p = \<lparr>gv_boundary = \<lparr>boundary_positions = []\<rparr>, gv_height = 2, gv_heading = 0, gv_position = p, gv_localMidpoint = (0, 0),
     gv_worldMidpoint = p, gv_localOutline = [(0, 0)], gv_worldOutline = [p]\<rparr>"

definition example_vehicles :: VehicleIndex where
  "example_vehicles = \<lparr>vi_vehicles = [(''a'', 1, parked (3, 4))], vi_rtree = [(((3, 4), (3, 4)), 1)], vi_rtreeTainted = False, vi_margin = 0\<rparr>"

lemma example_vehicles_ok: "vi_ok example_vehicles" "vi_synced radio_plane example_vehicles"
  by (simp_all add: vi_ok_def vi_synced_def example_vehicles_def parked_def radio_plane_def)

definition no_obstacles :: ObstacleIndex where
  "no_obstacles = \<lparr>oi_filterTypes = [''building''], oi_obstacles = [], oi_rtree = []\<rparr>"

theorem link_class_correct_witness:
  "\<exists>c'. classifyLink radio_plane no_obstacles no_obstacles example_vehicles (0, 0) (9, 9)
     \<lparr>mCountLOS = 0, mCountNLOSb = 0, mCountNLOSf = 0, mCountNLOSv = 0\<rparr> = Inr (NLOSv, c')"
proof -
  have "oi_ok radio_plane no_obstacles" by (simp add: oi_ok_def no_obstacles_def)
  from link_class_correct [OF radio_plane_laws this this example_vehicles_ok, of "(0, 0)" "(9, 9)"
      "\<lparr>mCountLOS = 0, mCountNLOSb = 0, mCountNLOSf = 0, mCountNLOSv = 0\<rparr>"]
  show ?thesis by (auto simp: no_obstacles_def cut_vehicles_def example_vehicles_def radio_plane_def parked_def)
qed

theorem removed_vehicle_dangling_witness:
  "\<exists>vi'. VehicleIndex_receiveSignal radio_plane (\<lambda>v. Inr (2, 2, 4)) (RemoveVehicle ''a'') example_vehicles = Inr vi'
     \<and> VehicleIndex_anyBlockage radio_plane (0, 0) (9, 9) vi' = Inl dangling"
proof -
  have m: "(''a'', 1, parked (3, 4)) \<in> set (vi_vehicles example_vehicles)" by (simp add: example_vehicles_def)
  have b: "rg_box_line radio_plane (g_envelope radio_plane (gv_worldOutline (parked (3, 4)))) ((0, 0), (9, 9))" by (simp add: radio_plane_def)
  from removed_vehicle_dangling [OF radio_plane_laws example_vehicles_ok m b, of "\<lambda>v. Inr (2, 2, 4)"] show ?thesis
    by (auto simp: example_vehicles_def)
qed

theorem fetchObstacles_filter_witness:
  "\<exists>oi'. ObstacleIndex_fetchObstacles radio_plane (undefined\<lparr>api_netBoundary := [\<lparr>pos_x = 0, pos_y = 0, pos_z = 0\<rparr>, \<lparr>pos_x = 9, pos_y = 9, pos_z = 0\<rparr>]\<rparr>)
     [(''building'', [])] \<lparr>oi_filterTypes = [[]], oi_obstacles = [], oi_rtree = []\<rparr> = Inr oi' \<and> oi_obstacles oi' = []"
proof -
  let ?api = "undefined\<lparr>api_netBoundary := [\<lparr>pos_x = 0, pos_y = 0, pos_z = 0\<rparr>, \<lparr>pos_x = 9, pos_y = 9, pos_z = 0\<rparr>]\<rparr> :: LiteAPI"
  have "length (api_netBoundary ?api) = 2" by simp
  from fetchObstacles_filter [OF this, of "[]" radio_plane "[(''building'', [])]"] show ?thesis by (auto simp: ObstacleIndex_initialize_def)
qed

theorem ellipse_misses_obstacle_witness:
  "obstaclesEllipse radio_plane (0, 0) (300, 0) 400
     \<lparr>oi_filterTypes = [], oi_obstacles = [Obstacle_new radio_plane [(150, 100)]], oi_rtree = [(((150, 100), (150, 100)), 0)]\<rparr> = Inr []"
proof -
  let ?ob = "Obstacle_new radio_plane [(150, 100)]"
  have "oi_ok radio_plane \<lparr>oi_filterTypes = [], oi_obstacles = [?ob], oi_rtree = [(((150, 100), (150, 100)), 0)]\<rparr>"
    by (simp add: oi_ok_def Obstacle_new_def radio_plane_def)
  moreover have "go_centroid ?ob = (150, 100)" "50 < snd (fst (g_envelope radio_plane (go_outline ?ob)))"
    by (simp_all add: Obstacle_new_def radio_plane_def)
  ultimately show ?thesis using ellipse_misses_obstacle [OF radio_plane_laws, of _ ?ob] by simp
qed

end
