(* ===== verification/Gemv2Vehicles.thy ===== *)
theory Gemv2Vehicles
  imports Gemv2Index
begin

text \<open>
  \<open>artery/inet/gemv2/NLOSv\<close>: the attenuation of a radio link by vehicles, as diffraction over the vehicles' roofs and around both of their
  sides.  Doubles are real numbers and lengths are in metres; an iterator into a list of obstacles is the rest of the list from
  there on, the end iterator the empty list.  Quotients of doubles that are infinite or not a number are not modelled here: they need an
  obstacle at the distance of an antenna or two obstacles at one distance, which the theorems about a path rule out by their hypotheses.
\<close>

section \<open>Knife edges\<close>

record DiffractionObstacle =
  do_d :: real
  do_h :: real

record DiffractionPath =
  dp_attenuation :: real
  dp_d :: real

abbreviation squared :: "real \<Rightarrow> real" where "squared x \<equiv> x * x"

definition dB2fraction :: "real \<Rightarrow> real" where
  "dB2fraction x = 10 powr (x / 10)"

text \<open>The approximation of the Fresnel-Kirchhoff loss, in dB.\<close>

definition knife_edge_dB :: "real \<Rightarrow> real" where
  "knife_edge_dB v = (if v > - (78/100) then 69/10 + 20 * log 10 (sqrt (squared (v - 1/10) + 1) + v - 1/10) else 0)"

definition NLOSv_computeSimpleKnifeEdge :: "real \<Rightarrow> real \<Rightarrow> real \<Rightarrow> real \<Rightarrow> real \<Rightarrow> real \<Rightarrow> real" where
  "NLOSv_computeSimpleKnifeEdge heightTx heightRx heightObs distTxRx distTxObs lambda =
     (let distRxObs = distTxRx - distTxObs;
          obsHeightTxRxLine = (heightRx - heightTx) / distTxRx * distTxObs + heightTx;
          h = heightObs - obsHeightTxRxLine;
          r = sqrt (lambda * distTxObs * distRxObs / distTxRx);
          v = sqrt 2 * (h / r)
      in knife_edge_dB v)"

section \<open>Main and secondary obstacles\<close>

fun main_scan :: "DiffractionObstacle \<Rightarrow> DiffractionObstacle list \<Rightarrow> (DiffractionObstacle list \<times> real) option \<Rightarrow> DiffractionObstacle list" where
  "main_scan b [] best = (case best of None \<Rightarrow> [] | Some (mainIterator, mainAngle) \<Rightarrow> mainIterator)"
| "main_scan b (x # xs) best =
     (let angle = (do_h x - do_h b) / (do_d x - do_d b)
      in main_scan b xs (case best of
           None \<Rightarrow> Some (x # xs, angle)
         | Some (mainIterator, mainAngle) \<Rightarrow> if angle > mainAngle then Some (x # xs, angle) else best))"

fun findMainObstacle :: "DiffractionObstacle list \<Rightarrow> DiffractionObstacle list" where
  "findMainObstacle [] = []"
| "findMainObstacle (b # xs) = main_scan b xs None"

fun sec_scan ::
    "(DiffractionObstacle \<Rightarrow> real) \<Rightarrow> DiffractionObstacle list \<Rightarrow> (DiffractionObstacle \<times> real) option \<Rightarrow> DiffractionObstacle option" where
  "sec_scan heightGap [] best = map_option fst best"
| "sec_scan heightGap (x # xs) best =
     sec_scan heightGap xs (case best of
         None \<Rightarrow> Some (x, heightGap x)
       | Some (secIterator, secHeightGap) \<Rightarrow> if heightGap x < secHeightGap then Some (x, heightGap x) else best)"

text \<open>\<open>between\<close> are the obstacles from the one after \<open>fst_ob\<close> up to the one before \<open>lst_ob\<close>.\<close>

definition findSecondaryObstacle ::
    "DiffractionObstacle \<Rightarrow> DiffractionObstacle list \<Rightarrow> DiffractionObstacle \<Rightarrow> DiffractionObstacle result" where
  "findSecondaryObstacle fst_ob between lst_ob =
     (let distFirstLast = do_d lst_ob - do_d fst_ob;
          heightFirstLast = do_h lst_ob - do_h fst_ob;
          offset = do_h fst_ob * do_d lst_ob - do_d fst_ob * do_h lst_ob
      in if Suc (length between) > 2
         then (case sec_scan (\<lambda>x. (do_d x * heightFirstLast + offset) / distFirstLast - do_h x) between None of
                 None \<Rightarrow> Inr lst_ob
               | Some x \<Rightarrow> Inr x)
         else Inl AssertionFailed)"

lemma main_scan_suffix:
  assumes "best = None \<or> (\<exists>it a. best = Some (it, a) \<and> it \<noteq> [] \<and> length it \<le> n)" and "length xs \<le> n"
  shows "length (main_scan b xs best) \<le> n"
  using assms
proof (induction xs arbitrary: best)
  case (Cons x xs)
  then show ?case by (auto simp: Let_def split: option.splits if_splits)
qed auto

lemma findMainObstacle_shorter: "xs \<noteq> [] \<Longrightarrow> length (findMainObstacle xs) < length xs"
  by (cases xs) (auto intro!: le_imp_less_Suc main_scan_suffix)

text \<open>The loop that determines the main obstacles, without the transmitter it starts from.\<close>

function main_iterators :: "DiffractionObstacle list \<Rightarrow> DiffractionObstacle list list" where
  "main_iterators it =
     (if it = [] then []
      else (let it' = findMainObstacle it in if it' = [] then [] else it' # main_iterators it'))"
  by pat_completeness auto
termination
  by (relation "measure length") (auto intro: findMainObstacle_shorter)

declare main_iterators.simps [simp del]

section \<open>Multiple knife edges\<close>

text \<open>The loop over consecutive main obstacles: distances, length of the path and the secondary obstacles with their neighbours.\<close>

fun knife_segments ::
    "DiffractionObstacle list list \<Rightarrow> (real list \<times> real \<times> (DiffractionObstacle \<times> DiffractionObstacle \<times> DiffractionObstacle) list) result" where
  "knife_segments (mi # mj # ms) =
     (let d = do_d (hd mj) - do_d (hd mi);
          step = sqrt (squared d + squared (do_h (hd mj) - do_h (hd mi)));
          delta = length mi - length mj
      in rbind (if delta = 2 then Inr [(hd mi, hd (tl mi), hd mj)]
                else if delta > 2 then
                  rmap (\<lambda>sec. [(hd mi, sec, hd mj)]) (findSecondaryObstacle (hd mi) (take (delta - 1) (tl mi)) (hd mj))
                else Inr []) (\<lambda>sec.
         rmap (\<lambda>(ds, len, secs). (d # ds, step + len, sec @ secs)) (knife_segments (mj # ms))))"
| "knife_segments ms = Inr ([], 0, [])"

fun main_attenuation :: "real \<Rightarrow> DiffractionObstacle list \<Rightarrow> real list \<Rightarrow> real" where
  "main_attenuation lambda (a # b # c # ms) (d1 # d2 # ds) =
     NLOSv_computeSimpleKnifeEdge (do_h a) (do_h c) (do_h b) (d1 + d2) d1 lambda + main_attenuation lambda (b # c # ms) (d2 # ds)"
| "main_attenuation lambda ms ds = 0"

definition secondary_attenuation :: "real \<Rightarrow> (DiffractionObstacle \<times> DiffractionObstacle \<times> DiffractionObstacle) list \<Rightarrow> real" where
  "secondary_attenuation lambda secs =
     (\<Sum>(tx, x, rx) \<leftarrow> secs. NLOSv_computeSimpleKnifeEdge (do_h tx) (do_h rx) (do_h x) (do_d rx - do_d tx) (do_d x - do_d tx) lambda)"

fun pairwise_product :: "real list \<Rightarrow> real" where
  "pairwise_product (d1 # d2 # ds) = (d1 + d2) * pairwise_product (d2 # ds)"
| "pairwise_product ds = 1"

definition correction_factor :: "real \<Rightarrow> real list \<Rightarrow> real" where
  "correction_factor len ds = len * prod_list ds / (hd ds * last ds * pairwise_product ds)"

definition computeMultipleKnifeEdge :: "DiffractionObstacle list \<Rightarrow> real \<Rightarrow> DiffractionPath result" where
  "computeMultipleKnifeEdge obs lambda =
     (if length obs > 2 then
        (let mainObs = obs # main_iterators obs
         in if length mainObs \<le> length obs then
              rbind (knife_segments mainObs) (\<lambda>(ds, len, secs).
                let attMainObs = main_attenuation lambda (map hd mainObs) ds;
                    attSecObs = secondary_attenuation lambda secs;
                    C = correction_factor (do_d (hd (last mainObs)) - do_d (hd (hd mainObs))) ds;
                    attenuation = dB2fraction (attMainObs + attSecObs) / C
                in if attenuation \<ge> 1 then Inr \<lparr>dp_attenuation = attenuation, dp_d = len\<rparr> else Inl AssertionFailed)
            else Inl AssertionFailed)
      else Inl AssertionFailed)"

section \<open>Obstacles of a link\<close>

type_synonym Coord = "real \<times> real \<times> real"

text \<open>Where the foot of the perpendicular from a point lies on the link, 0 at the transmitter and 1 at the receiver.\<close>

definition foot :: "Coord \<Rightarrow> Coord \<Rightarrow> Point \<Rightarrow> real" where
  "foot tx rx p =
     (let vx = fst rx - fst tx; vy = fst (snd rx) - fst (snd tx)
      in (fst p * vx - vy * fst (snd tx) + vy * snd p - fst tx * vx) / (squared vx + squared vy))"

definition ground_distance :: "Coord \<Rightarrow> Coord \<Rightarrow> real" where
  "ground_distance tx rx = sqrt (squared (fst rx - fst tx) + squared (fst (snd rx) - fst (snd tx)))"

definition buildTopObstacles :: "GVehicle list \<Rightarrow> Coord \<Rightarrow> Coord \<Rightarrow> DiffractionObstacle list" where
  "buildTopObstacles vehicles tx rx =
     sort_key do_d (map (\<lambda>v. \<lparr>do_d = foot tx rx (gv_worldMidpoint v) * ground_distance tx rx, do_h = gv_height v\<rparr>)
       (filter (\<lambda>v. \<not> (foot tx rx (gv_worldMidpoint v) < 0 \<or> foot tx rx (gv_worldMidpoint v) > 1)) vehicles))"

text \<open>The extreme points of an outline on both sides, \<open>None\<close> as long as there is none.\<close>

type_synonym Extremes = "(real \<times> real) option \<times> (real \<times> real) option"

definition left_of :: "real \<times> real \<Rightarrow> (real \<times> real) option \<Rightarrow> (real \<times> real) option" where
  "left_of current leftmost = (case leftmost of None \<Rightarrow> Some current | Some (k, l) \<Rightarrow> if l < snd current then Some current else leftmost)"

definition right_of :: "real \<times> real \<Rightarrow> (real \<times> real) option \<Rightarrow> (real \<times> real) option" where
  "right_of current rightmost = (case rightmost of None \<Rightarrow> Some current | Some (k, l) \<Rightarrow> if l > snd current then Some current else rightmost)"

definition outline_point :: "Coord \<Rightarrow> Coord \<Rightarrow> Point \<Rightarrow> Extremes \<Rightarrow> Extremes result" where
  "outline_point tx rx p e =
     (let vx = fst rx - fst tx; vy = fst (snd rx) - fst (snd tx); k = foot tx rx p
      in rbind (if vx \<noteq> 0 then Inr ((fst (snd tx) + k * vy - snd p) / vx)
                else if vy \<noteq> 0 then Inr ((fst tx + k * vx - fst p) / - vy)
                else Inl (RuntimeError ''vx and vy are zero'')) (\<lambda>l.
           if k < 0 \<or> k > 1 then Inr e
           else if l > 0 then Inr (left_of (k, l) (fst e), snd e)
           else if l < 0 then Inr (fst e, right_of (k, l) (snd e))
           else Inr (left_of (k, l) (fst e), right_of (k, l) (snd e))))"

definition buildSideObstacles :: "GVehicle list \<Rightarrow> Coord \<Rightarrow> Coord \<Rightarrow> (DiffractionObstacle list \<times> DiffractionObstacle list) result" where
  "buildSideObstacles vehicles tx rx =
     (let vl = ground_distance tx rx
      in rmap (\<lambda>(left, right). (sort_key do_d left, sort_key do_d right))
           (rfold (\<lambda>v (left, right).
             rmap (\<lambda>(leftmost, rightmost).
               (left @ (case leftmost of None \<Rightarrow> [] | Some (k, l) \<Rightarrow> [\<lparr>do_d = k * vl, do_h = l * vl\<rparr>]),
                right @ (case rightmost of None \<Rightarrow> [] | Some (k, l) \<Rightarrow> [\<lparr>do_d = k * vl, do_h = - l * vl\<rparr>])))
             (rfold (outline_point tx rx) (gv_worldOutline v) (None, None))) vehicles ([], [])))"

definition combineDiffractionLoss :: "DiffractionPath \<Rightarrow> DiffractionPath \<Rightarrow> DiffractionPath \<Rightarrow> real" where
  "combineDiffractionLoss a b c =
     (let ref = (if dp_attenuation b < dp_attenuation a then b else a);
          ref = (if dp_attenuation c < dp_attenuation ref then c else ref)
      in 1 / dp_attenuation ref)"

definition computeVehiclePathLoss :: "RadioGeometry \<Rightarrow> VehicleIndex \<Rightarrow> Coord \<Rightarrow> Coord \<Rightarrow> real \<Rightarrow> real result" where
  "computeVehiclePathLoss g vi tx rx lambda =
     rbind (getObstructingVehicles g (fst tx, fst (snd tx)) (fst rx, fst (snd rx)) vi) (\<lambda>vehicles.
       let distTxRx = ground_distance tx rx;
           obsTop = \<lparr>do_d = 0, do_h = snd (snd tx)\<rparr> # buildTopObstacles vehicles tx rx @ [\<lparr>do_d = distTxRx, do_h = snd (snd rx)\<rparr>];
           side = (\<lambda>obs. \<lparr>do_d = 0, do_h = 0\<rparr> # obs @ [\<lparr>do_d = distTxRx, do_h = 0\<rparr>])
       in rbind (buildSideObstacles vehicles tx rx) (\<lambda>(left, right).
          rbind (computeMultipleKnifeEdge obsTop lambda) (\<lambda>top.
          rbind (computeMultipleKnifeEdge (side left) lambda) (\<lambda>left.
          rbind (computeMultipleKnifeEdge (side right) lambda) (\<lambda>right.
            Inr (combineDiffractionLoss top left right))))))"

definition coord_distance :: "Coord \<Rightarrow> Coord \<Rightarrow> real" where
  "coord_distance a b = sqrt (squared (fst a - fst b) + squared (fst (snd a) - fst (snd b)) + squared (snd (snd a) - snd (snd b)))"

definition NLOSv_computePathLoss :: "RadioGeometry \<Rightarrow> VehicleIndex \<Rightarrow> Coord \<Rightarrow> Coord \<Rightarrow> real \<Rightarrow> real result" where
  "NLOSv_computePathLoss g vi tx rx waveLength =
     (let distance = coord_distance tx rx
      in rbind (if distance \<noteq> 0
                then rmap (\<lambda>att. squared waveLength / (16 * squared pi * squared distance) * att) (computeVehiclePathLoss g vi tx rx waveLength)
                else Inr 1) (\<lambda>loss.
           if loss \<ge> 0 \<and> loss \<le> 1 then Inr loss else Inl AssertionFailed))"

section \<open>The main obstacles\<close>

definition slope :: "DiffractionObstacle \<Rightarrow> DiffractionObstacle \<Rightarrow> real" where
  "slope b x = (do_h x - do_h b) / (do_d x - do_d b)"

lemma main_scan_Some:
  "main_scan b xs (Some (it, a)) = (if \<forall>x \<in> set xs. slope b x \<le> a then it else main_scan b xs None)"
proof (induction xs arbitrary: it a)
  case (Cons x xs)
  show ?case
  proof (cases "slope b x > a")
    case True
    then show ?thesis by (auto simp: Let_def slope_def)
  next
    case False
    then have "main_scan b (x # xs) (Some (it, a)) = main_scan b xs (Some (it, a))" by (simp add: Let_def slope_def)
    moreover have "main_scan b (x # xs) None = main_scan b xs (Some (x # xs, slope b x))" by (simp add: Let_def slope_def)
    ultimately show ?thesis using False Cons.IH [of it a] Cons.IH [of "x # xs" "slope b x"] by fastforce
  qed
qed simp

text \<open>The main obstacle seen from \<open>b\<close> is the first one under the steepest angle.\<close>

lemma main_scan_None:
  "xs \<noteq> [] \<Longrightarrow> \<exists>pre y ys. xs = pre @ y # ys \<and> main_scan b xs None = y # ys \<and> (\<forall>x \<in> set pre. slope b x < slope b y) \<and> (\<forall>x \<in> set ys. slope b x \<le> slope b y)"
proof (induction xs)
  case (Cons x xs)
  have step: "main_scan b (x # xs) None = main_scan b xs (Some (x # xs, slope b x))" by (simp add: Let_def slope_def)
  show ?case
  proof (cases "\<forall>z \<in> set xs. slope b z \<le> slope b x")
    case True
    then show ?thesis using step main_scan_Some by (intro exI [of _ "[]"] exI [of _ x] exI [of _ xs]) simp
  next
    case False
    then obtain z where z: "z \<in> set xs" "slope b z > slope b x" by auto
    then obtain pre y ys where IH: "xs = pre @ y # ys" "main_scan b xs None = y # ys"
      "\<forall>x \<in> set pre. slope b x < slope b y" "\<forall>x \<in> set ys. slope b x \<le> slope b y" using Cons.IH by force
    have "slope b z \<le> slope b y" using z(1) IH by auto
    then have "\<forall>w \<in> set (x # pre). slope b w < slope b y" using z(2) IH(3) by auto
    moreover have "main_scan b (x # xs) None = y # ys" unfolding step main_scan_Some using False IH(2) by (simp only: if_False)
    ultimately show ?thesis using IH(1,4) by (intro exI [of _ "x # pre"] exI [of _ y] exI [of _ ys]) simp
  qed
qed simp

text \<open>A stretched string over the obstacles: from each main obstacle to the next, the obstacles between are strictly below.\<close>

fun stretched :: "DiffractionObstacle list list \<Rightarrow> bool" where
  "stretched (mi # mj # ms) \<longleftrightarrow> mj \<noteq> [] \<and> (\<exists>pre. mi = hd mi # pre @ mj \<and> (\<forall>x \<in> set pre. slope (hd mi) x < slope (hd mi) (hd mj))) \<and> stretched (mj # ms)"
| "stretched [m] \<longleftrightarrow> length m = 1"
| "stretched [] \<longleftrightarrow> False"

lemma main_iterators_stretched: "it \<noteq> [] \<Longrightarrow> stretched (it # main_iterators it)"
proof (induction it rule: main_iterators.induct)
  case (1 it)
  then obtain b xs where it: "it = b # xs" by (cases it) auto
  show ?case
  proof (cases "xs = []")
    case True
    then show ?thesis by (simp add: it main_iterators.simps [of "[b]"])
  next
    case False
    from main_scan_None [OF this, of b] obtain pre y ys where s: "xs = pre @ y # ys" "main_scan b xs None = y # ys"
      "\<forall>x \<in> set pre. slope b x < slope b y" by blast
    have "main_iterators it = (y # ys) # main_iterators (y # ys)" unfolding it using s(2) by (subst main_iterators.simps) (simp add: Let_def)
    moreover have "stretched ((y # ys) # main_iterators (y # ys))" using "1.IH" [of "y # ys"] "1.prems" s(2) it by simp
    ultimately show ?thesis using s it by auto
  qed
qed

lemma main_iterators_length: "it \<noteq> [] \<Longrightarrow> Suc (length (main_iterators it)) \<le> length it"
proof (induction it rule: main_iterators.induct)
  case (1 it)
  have unfold: "main_iterators it = (if findMainObstacle it = [] then [] else findMainObstacle it # main_iterators (findMainObstacle it))"
    using "1.prems" by (subst main_iterators.simps) (simp add: Let_def)
  show ?case
  proof (cases "findMainObstacle it = []")
    case True
    then show ?thesis using "1.prems" unfold by (cases it) simp_all
  next
    case False
    then have "Suc (length (main_iterators (findMainObstacle it))) \<le> length (findMainObstacle it)" using "1.IH" "1.prems" by blast
    then show ?thesis using False unfold findMainObstacle_shorter [OF "1.prems"] by simp
  qed
qed

section \<open>Bounds\<close>

lemma knife_edge_nonneg: "0 \<le> knife_edge_dB v"
proof (cases "v > - (78/100)")
  case True
  define u where "u = v - 1/10"
  have u: "- (88/100) < u" using True by (simp add: u_def)
  have "452/1000 - u \<le> sqrt (u * u + 1)"
  proof (rule real_le_rsqrt)
    show "(452/1000 - u)\<^sup>2 \<le> u * u + 1" using u by (simp add: power2_eq_square algebra_simps)
  qed
  then have arg: "452/1000 \<le> sqrt (u * u + 1) + u" by simp
  have "(10 powr (- (345/1000))) ^ 200 = (10 :: real) powr (- 69)" by (simp add: powr_power)
  also have "(10 :: real) powr (- 69) = 1 / 10 ^ 69" by (simp add: powr_minus_divide)
  also have "\<dots> \<le> (452/1000) ^ 200" by (simp add: power_divide field_simps)
  finally have "(10 powr (- (345/1000))) ^ 200 \<le> (452/1000 :: real) ^ 200" .
  then have "10 powr (- (345/1000)) \<le> (452/1000 :: real)" by (rule power_le_imp_le_base [of _ 199, simplified]) simp
  with arg have "10 powr (- (345/1000)) \<le> sqrt (u * u + 1) + u" by simp
  then have "- (345/1000) \<le> log 10 (sqrt (u * u + 1) + u)" using arg by (subst le_log_iff) auto
  moreover have "sqrt (u * u + 1) + u = sqrt (squared (v - 1/10) + 1) + v - 1/10" by (simp add: u_def)
  ultimately have "- (345/1000) \<le> log 10 (sqrt (squared (v - 1/10) + 1) + v - 1/10)" by (simp only:)
  then show ?thesis using True unfolding knife_edge_dB_def by simp
qed (simp add: knife_edge_dB_def)

lemma simple_knife_edge_nonneg: "0 \<le> NLOSv_computeSimpleKnifeEdge a b c d e f"
  by (simp add: NLOSv_computeSimpleKnifeEdge_def Let_def knife_edge_nonneg)

lemma main_attenuation_nonneg: "0 \<le> main_attenuation lambda ms ds"
  by (induction lambda ms ds rule: main_attenuation.induct) (auto intro!: add_nonneg_nonneg simple_knife_edge_nonneg)

lemma secondary_attenuation_nonneg: "0 \<le> secondary_attenuation lambda secs"
  unfolding secondary_attenuation_def by (intro sum_list_nonneg) (auto simp: simple_knife_edge_nonneg)

lemma pairwise_product_pos: "\<forall>d \<in> set ds. 0 < d \<Longrightarrow> 0 < pairwise_product ds"
  by (induction ds rule: pairwise_product.induct) (auto intro!: mult_pos_pos)

lemma prod_list_pos: "\<forall>d \<in> set ds. 0 < (d :: real) \<Longrightarrow> 0 < prod_list ds"
  by (induction ds) auto

text \<open>The correction factor never exceeds one.\<close>

lemma correction_bound:
  assumes "ds \<noteq> []" and "\<forall>d \<in> set ds. 0 < d"
  shows "sum_list ds * prod_list ds \<le> hd ds * last ds * pairwise_product ds"
  using assms
proof (induction ds rule: pairwise_product.induct)
  case (1 d1 d2 ds)
  let ?r = "d2 # ds"
  have pos: "0 < d1" "0 < d2" "0 < prod_list ?r" "0 \<le> sum_list ds" using "1.prems" prod_list_pos [of ?r] by (auto intro!: sum_list_nonneg)
  have IH: "sum_list ?r * prod_list ?r \<le> d2 * last ?r * pairwise_product ?r" using 1 by simp
  have "d2 * ((d1 + sum_list ?r) * prod_list ?r) \<le> (d1 + d2) * (sum_list ?r * prod_list ?r)"
  proof -
    have "d2 * (d1 + sum_list ?r) \<le> (d1 + d2) * sum_list ?r" using pos by (simp add: algebra_simps)
    then show ?thesis using pos(3) by (simp only: mult.assoc [symmetric] mult_right_mono less_imp_le)
  qed
  also have "\<dots> \<le> (d1 + d2) * (d2 * last ?r * pairwise_product ?r)" using IH pos by (intro mult_left_mono) auto
  also have "\<dots> = d2 * (last ?r * ((d1 + d2) * pairwise_product ?r))" by (simp only: mult_ac)
  finally have "(d1 + sum_list ?r) * prod_list ?r \<le> last ?r * ((d1 + d2) * pairwise_product ?r)" using pos(2) by (simp only: mult_le_cancel_left_pos)
  then have "d1 * ((d1 + sum_list ?r) * prod_list ?r) \<le> d1 * (last ?r * ((d1 + d2) * pairwise_product ?r))" using pos(1) by (simp only: mult_le_cancel_left_pos)
  then show ?case by (simp add: mult_ac)
qed simp_all

lemma correction_factor_range:
  assumes "ds \<noteq> []" and "\<forall>d \<in> set ds. 0 < d"
  shows "0 < correction_factor (sum_list ds) ds \<and> correction_factor (sum_list ds) ds \<le> 1"
proof -
  have "0 < hd ds * last ds * pairwise_product ds" using assms pairwise_product_pos [OF assms(2)] by (intro mult_pos_pos) auto
  moreover have "0 < sum_list ds * prod_list ds"
    using assms prod_list_pos [OF assms(2)] by (intro mult_pos_pos) (cases ds, auto intro!: add_pos_nonneg sum_list_nonneg)
  ultimately show ?thesis using correction_bound [OF assms] by (simp add: correction_factor_def)
qed

text \<open>The segments of a stretched string over obstacles at increasing distances.\<close>

lemma findSecondaryObstacle_total:
  assumes "1 < length between"
  shows "\<exists>x. findSecondaryObstacle a between c = Inr x"
  using assms by (auto simp: findSecondaryObstacle_def Let_def split: option.split)

lemma knife_segments_total:
  assumes "stretched ms" and "sorted_wrt (<) (map do_d (hd ms))"
  shows "\<exists>ds len secs. knife_segments ms = Inr (ds, len, secs) \<and> length ds = length ms - 1 \<and> (\<forall>d \<in> set ds. 0 < d)
    \<and> sum_list ds = do_d (hd (last ms)) - do_d (hd (hd ms)) \<and> sum_list ds \<le> len"
  using assms
proof (induction ms rule: stretched.induct)
  case (1 mi mj ms)
  then obtain pre where mi: "mi = hd mi # pre @ mj" "mj \<noteq> []" by auto
  have "sorted_wrt (<) (map do_d (hd mi # pre @ mj))" using "1.prems"(2) mi(1) by simp
  then have srt: "sorted_wrt (<) (map do_d mj)" "do_d (hd mi) < do_d (hd mj)" using mi(2) by (auto simp: sorted_wrt_append)
  have "stretched (mj # ms)" using "1.prems"(1) by simp
  then obtain ds len secs where IH: "knife_segments (mj # ms) = Inr (ds, len, secs)" "length ds = length ms" "\<forall>d \<in> set ds. 0 < d"
    "sum_list ds = do_d (hd (last (mj # ms))) - do_d (hd mj)" "sum_list ds \<le> len" using "1.IH" srt(1) by auto
  have delta: "length mi - length mj = Suc (length pre)" by (subst mi(1)) simp
  have "length (take (Suc (length pre) - 1) (tl mi)) = length pre" by (subst mi(1)) simp
  then have "\<exists>sec. (if Suc (length pre) = 2 then Inr [(hd mi, hd (tl mi), hd mj)] else if Suc (length pre) > 2 then
      rmap (\<lambda>sec. [(hd mi, sec, hd mj)]) (findSecondaryObstacle (hd mi) (take (Suc (length pre) - 1) (tl mi)) (hd mj)) else Inr []) = Inr sec"
    using findSecondaryObstacle_total [of "take (Suc (length pre) - 1) (tl mi)" "hd mi" "hd mj"] by auto
  then obtain sec where sec: "(if length mi - length mj = 2 then Inr [(hd mi, hd (tl mi), hd mj)] else if length mi - length mj > 2 then
      rmap (\<lambda>sec. [(hd mi, sec, hd mj)]) (findSecondaryObstacle (hd mi) (take (length mi - length mj - 1) (tl mi)) (hd mj)) else Inr []) = Inr sec"
    unfolding delta by blast
  let ?d = "do_d (hd mj) - do_d (hd mi)"
  let ?s = "sqrt (squared ?d + squared (do_h (hd mj) - do_h (hd mi)))"
  have run: "knife_segments (mi # mj # ms) = Inr (?d # ds, ?s + len, sec @ secs)" using IH(1) by (simp add: Let_def sec)
  have "?d \<le> ?s" by (rule real_le_rsqrt) (simp add: power2_eq_square)
  then have len: "sum_list (?d # ds) \<le> ?s + len" unfolding sum_list.Cons using IH(5) by (rule add_mono)
  have total: "sum_list (?d # ds) = do_d (hd (last (mi # mj # ms))) - do_d (hd (hd (mi # mj # ms)))" using IH(4) by simp
  show ?case by (intro exI conjI, rule run, simp add: IH(2), simp add: IH(3) srt(2), rule total, rule len)
qed auto

lemma last_stretched: "stretched ms \<Longrightarrow> last (hd ms) = hd (last ms) \<and> last ms \<noteq> []"
proof (induction ms rule: stretched.induct)
  case (1 mi mj ms)
  then obtain pre where mi: "mi = hd mi # pre @ mj" "mj \<noteq> []" by auto
  then have "last mi = last mj" by (metis last_ConsR last_append append_is_Nil_conv)
  then show ?case using 1 by simp
next
  case (2 m)
  then show ?case by (cases m) auto
qed simp

lemma multiple_knife_edge:
  assumes "2 < length obs" and "sorted_wrt (<) (map do_d obs)"
  shows "\<exists>path. computeMultipleKnifeEdge obs lambda = Inr path \<and> 1 \<le> dp_attenuation path \<and> do_d (last obs) - do_d (hd obs) \<le> dp_d path"
proof -
  let ?ms = "obs # main_iterators obs"
  have ne: "obs \<noteq> []" using assms(1) by auto
  note st = main_iterators_stretched [OF ne]
  have last: "last obs = hd (last ?ms)" using last_stretched [OF st] by simp
  obtain ds len secs where seg: "knife_segments ?ms = Inr (ds, len, secs)" "length ds = length ?ms - 1" "\<forall>d \<in> set ds. 0 < d"
    "sum_list ds = do_d (hd (last ?ms)) - do_d (hd (hd ?ms))" "sum_list ds \<le> len"
    using knife_segments_total [OF st] assms(2) by auto
  have "length ?ms \<noteq> 1" using st assms(1) by (cases "main_iterators obs") auto
  then have "ds \<noteq> []" using seg(2) by (cases ds) auto
  from correction_factor_range [OF this seg(3)]
  have C: "0 < correction_factor (do_d (hd (last ?ms)) - do_d (hd (hd ?ms))) ds" "correction_factor (do_d (hd (last ?ms)) - do_d (hd (hd ?ms))) ds \<le> 1"
    unfolding seg(4) by auto
  let ?att = "main_attenuation lambda (map hd ?ms) ds + secondary_attenuation lambda secs"
  have "0 \<le> ?att" using main_attenuation_nonneg secondary_attenuation_nonneg by (intro add_nonneg_nonneg)
  then have "1 \<le> dB2fraction ?att" by (simp add: dB2fraction_def ge_one_powr_ge_zero)
  then have "1 \<le> dB2fraction ?att / correction_factor (do_d (hd (last ?ms)) - do_d (hd (hd ?ms))) ds" using C by (simp add: le_divide_eq)
  moreover have "length ?ms \<le> length obs" using main_iterators_length [OF ne] by simp
  ultimately show ?thesis using assms(1) seg(1,4,5) last by (simp add: computeMultipleKnifeEdge_def Let_def)
qed

section \<open>Properties\<close>

text \<open>The main obstacles form a stretched string over all obstacles from transmitter to receiver: they start at the transmitter and
  end at the receiver, and every obstacle between two consecutive ones lies strictly below the line that joins them.\<close>

theorem main_obstacles_stretched:
  assumes "obs \<noteq> []" and "sorted_wrt (<) (map do_d obs)" and "mainObs = obs # main_iterators obs"
  shows "hd mainObs = obs \<and> hd (last mainObs) = last obs \<and> length mainObs \<le> length obs
    \<and> (\<forall>i. Suc i < length mainObs \<longrightarrow> (\<exists>pre. mainObs ! i = hd (mainObs ! i) # pre @ mainObs ! Suc i
         \<and> (\<forall>x \<in> set pre. do_h x < do_h (hd (mainObs ! i)) + slope (hd (mainObs ! i)) (hd (mainObs ! Suc i)) * (do_d x - do_d (hd (mainObs ! i))))))"
proof -
  have st: "stretched mainObs" unfolding assms(3) by (rule main_iterators_stretched [OF assms(1)])
  have srt: "sorted_wrt (<) (map do_d (hd mainObs))" using assms(2,3) by simp
  have "\<exists>pre. ms ! i = hd (ms ! i) # pre @ ms ! Suc i
      \<and> (\<forall>x \<in> set pre. do_h x < do_h (hd (ms ! i)) + slope (hd (ms ! i)) (hd (ms ! Suc i)) * (do_d x - do_d (hd (ms ! i))))"
    if "stretched ms" "sorted_wrt (<) (map do_d (hd ms))" "Suc i < length ms" for ms i
    using that
  proof (induction ms arbitrary: i rule: stretched.induct)
    case (1 mi mj ms)
    then obtain pre where mi: "mi = hd mi # pre @ mj" "\<forall>x \<in> set pre. slope (hd mi) x < slope (hd mi) (hd mj)" by auto
    have s: "sorted_wrt (<) (map do_d (hd mi # pre @ mj))" using "1.prems"(2) mi(1) by simp
    show ?case
    proof (cases i)
      case 0
      have "do_h x < do_h (hd mi) + slope (hd mi) (hd mj) * (do_d x - do_d (hd mi))" if "x \<in> set pre" for x
      proof -
        have "0 < do_d x - do_d (hd mi)" using s that by auto
        moreover have "slope (hd mi) x < slope (hd mi) (hd mj)" using mi(2) that by blast
        ultimately have "do_h x - do_h (hd mi) < slope (hd mi) (hd mj) * (do_d x - do_d (hd mi))"
          unfolding slope_def [of "hd mi" x] by (simp only: pos_divide_less_eq)
        then show ?thesis by simp
      qed
      then show ?thesis using 0 mi(1) by auto
    next
      case (Suc j)
      have "sorted_wrt (<) (map do_d mj)" using s by (simp add: sorted_wrt_append)
      then show ?thesis using Suc "1.IH" [of j] "1.prems" by simp
    qed
  qed auto
  from this [OF st srt] show ?thesis using last_stretched [OF st] main_iterators_length [OF assms(1)] assms(3) by simp
qed

text \<open>C35: Diffraction over obstacles at increasing distances: none of the assertions fails, the attenuation is at
  least one (the loss in dB is never negative and the correction factor never exceeds one) and the path is at least as long as the ground.\<close>

theorem multiple_knife_edge_total:
  assumes "2 < length obs" and "sorted_wrt (<) (map do_d obs)"
  shows "\<exists>path. computeMultipleKnifeEdge obs lambda = Inr path \<and> 1 \<le> dp_attenuation path \<and> do_d (last obs) - do_d (hd obs) \<le> dp_d path"
  by (rule multiple_knife_edge [OF assms])

section \<open>Sides\<close>

definition apart :: "Coord \<Rightarrow> Coord \<Rightarrow> bool" where
  "apart tx rx \<longleftrightarrow> (fst tx, fst (snd tx)) \<noteq> (fst rx, fst (snd rx))"

definition lateral :: "Coord \<Rightarrow> Coord \<Rightarrow> Point \<Rightarrow> real" where
  "lateral tx rx p =
     (let vx = fst rx - fst tx; vy = fst (snd rx) - fst (snd tx); k = foot tx rx p
      in if vx \<noteq> 0 then (fst (snd tx) + k * vy - snd p) / vx else (fst tx + k * vx - fst p) / - vy)"

lemma apart_pos: "apart tx rx \<Longrightarrow> 0 < squared (fst rx - fst tx) + squared (fst (snd rx) - fst (snd tx))"
  by (auto simp: apart_def sum_squares_gt_zero_iff)

text \<open>Foot and lateral offset are the coordinates of a point along the link and across it.\<close>

lemma link_coordinates:
  assumes "apart tx rx"
  shows "fst p = fst tx + foot tx rx p * (fst rx - fst tx) + lateral tx rx p * (fst (snd rx) - fst (snd tx))"
    "snd p = fst (snd tx) + foot tx rx p * (fst (snd rx) - fst (snd tx)) - lateral tx rx p * (fst rx - fst tx)"
proof -
  define vx vy k l where v: "vx = fst rx - fst tx" "vy = fst (snd rx) - fst (snd tx)" "k = foot tx rx p" "l = lateral tx rx p"
  define px py where p: "px = fst p - fst tx" "py = snd p - fst (snd tx)"
  have "0 < vx * vx + vy * vy" using apart_pos [OF assms] by (simp add: v)
  moreover have "k = (px * vx + py * vy) / (vx * vx + vy * vy)" by (simp add: v p foot_def Let_def algebra_simps)
  ultimately have k: "k * (vx * vx + vy * vy) = px * vx + py * vy" by simp
  have "px = k * vx + l * vy \<and> py = k * vy - l * vx"
  proof (cases "vx = 0")
    case False
    have "l = (k * vy - py) / vx" using False by (simp add: v p lateral_def Let_def algebra_simps)
    then have l: "l * vx = k * vy - py" using False by simp
    have "vx * (k * vx + l * vy) = k * (vx * vx + vy * vy) - py * vy" using l by algebra
    then have "vx * (k * vx + l * vy) = vx * px" using k by simp
    then show ?thesis using l False by simp
  next
    case True
    then have vy: "vy \<noteq> 0" using \<open>0 < vx * vx + vy * vy\<close> by auto
    have "l = (k * vx - px) / - vy" using True by (simp add: v p lateral_def Let_def algebra_simps)
    then have "l * vy = px" using True vy by simp
    moreover have "vy * (k * vy) = vy * py" using k True by (simp add: algebra_simps)
    ultimately show ?thesis using True vy by simp
  qed
  then show "fst p = fst tx + foot tx rx p * (fst rx - fst tx) + lateral tx rx p * (fst (snd rx) - fst (snd tx))"
    "snd p = fst (snd tx) + foot tx rx p * (fst (snd rx) - fst (snd tx)) - lateral tx rx p * (fst rx - fst tx)"
    by (simp_all add: v p)
qed

lemma outline_point_apart:
  assumes "apart tx rx"
  shows "outline_point tx rx p e =
    Inr (if foot tx rx p < 0 \<or> foot tx rx p > 1 then e
         else (if lateral tx rx p \<ge> 0 then left_of (foot tx rx p, lateral tx rx p) (fst e) else fst e,
               if lateral tx rx p \<le> 0 then right_of (foot tx rx p, lateral tx rx p) (snd e) else snd e))"
proof -
  have "fst (snd rx) - fst (snd tx) \<noteq> 0" if "fst rx - fst tx = 0" using assms that by (auto simp: apart_def)
  then show ?thesis by (cases e) (auto simp: outline_point_def lateral_def Let_def)
qed

text \<open>What the extreme on one side is after some points.\<close>

definition is_extreme :: "(real \<Rightarrow> real \<Rightarrow> bool) \<Rightarrow> (real \<times> real) set \<Rightarrow> (real \<times> real) option \<Rightarrow> bool" where
  "is_extreme le S e \<longleftrightarrow> (case e of None \<Rightarrow> S = {} | Some (k, l) \<Rightarrow> (k, l) \<in> S \<and> (\<forall>(k', l') \<in> S. le l' l))"

lemma left_of_extreme: "is_extreme (\<le>) S e \<Longrightarrow> is_extreme (\<le>) (insert c S) (left_of c e)"
  by (cases c) (fastforce simp: is_extreme_def left_of_def split: option.splits if_splits)

lemma right_of_extreme: "is_extreme (\<ge>) S e \<Longrightarrow> is_extreme (\<ge>) (insert c S) (right_of c e)"
  by (cases c) (fastforce simp: is_extreme_def right_of_def split: option.splits if_splits)

text \<open>The points of an outline beside the link.\<close>

definition beside :: "Coord \<Rightarrow> Coord \<Rightarrow> Point list \<Rightarrow> (real \<times> real) set" where
  "beside tx rx ps = (\<lambda>p. (foot tx rx p, lateral tx rx p)) ` {p \<in> set ps. 0 \<le> foot tx rx p \<and> foot tx rx p \<le> 1}"

lemma beside_snoc: "beside tx rx (ps @ [p]) =
    (if 0 \<le> foot tx rx p \<and> foot tx rx p \<le> 1 then insert (foot tx rx p, lateral tx rx p) (beside tx rx ps) else beside tx rx ps)"
  by (auto simp: beside_def)

lemma outline_extremes:
  assumes "apart tx rx"
  shows "\<exists>l r. rfold (outline_point tx rx) ps (None, None) = Inr (l, r)
    \<and> is_extreme (\<le>) {c \<in> beside tx rx ps. snd c \<ge> 0} l \<and> is_extreme (\<ge>) {c \<in> beside tx rx ps. snd c \<le> 0} r"
proof (induction ps rule: rev_induct)
  case Nil
  then show ?case by (simp add: beside_def is_extreme_def)
next
  case (snoc p ps)
  then obtain l r where IH: "rfold (outline_point tx rx) ps (None, None) = Inr (l, r)"
    "is_extreme (\<le>) {c \<in> beside tx rx ps. snd c \<ge> 0} l" "is_extreme (\<ge>) {c \<in> beside tx rx ps. snd c \<le> 0} r" by blast
  let ?c = "(foot tx rx p, lateral tx rx p)"
  have ins: "{c \<in> insert ?c S. Q (snd c)} = (if Q (lateral tx rx p) then insert ?c {c \<in> S. Q (snd c)} else {c \<in> S. Q (snd c)})" for Q S by auto
  have run: "rfold (outline_point tx rx) (ps @ [p]) (None, None) = outline_point tx rx p (l, r)"
    using IH(1) by (simp add: rfold_append) (cases "outline_point tx rx p (l, r)"; simp)
  let ?in = "0 \<le> foot tx rx p \<and> foot tx rx p \<le> 1"
  have "is_extreme (\<le>) {c \<in> beside tx rx (ps @ [p]). 0 \<le> snd c} (if ?in \<and> 0 \<le> lateral tx rx p then left_of ?c l else l)"
    using IH(2) left_of_extreme [OF IH(2), of ?c] ins [where Q = "\<lambda>x. 0 \<le> x" and S = "beside tx rx ps"] unfolding beside_snoc by (cases ?in) simp_all
  moreover have "is_extreme (\<ge>) {c \<in> beside tx rx (ps @ [p]). snd c \<le> 0} (if ?in \<and> lateral tx rx p \<le> 0 then right_of ?c r else r)"
    using IH(3) right_of_extreme [OF IH(3), of ?c] ins [where Q = "\<lambda>x. x \<le> 0" and S = "beside tx rx ps"] unfolding beside_snoc by (cases ?in) simp_all
  moreover have "outline_point tx rx p (l, r) =
      Inr (if ?in \<and> 0 \<le> lateral tx rx p then left_of ?c l else l, if ?in \<and> lateral tx rx p \<le> 0 then right_of ?c r else r)"
    by (subst outline_point_apart [OF assms]) auto
  ultimately show ?case using run by (intro exI conjI) (erule trans, assumption, assumption)
qed

lemma buildSideObstacles_total:
  assumes "apart tx rx"
  shows "\<exists>left right. buildSideObstacles vehicles tx rx = Inr (left, right)"
proof -
  let ?f = "\<lambda>v (left, right). rmap (\<lambda>(leftmost, rightmost).
               (left @ (case leftmost of None \<Rightarrow> [] | Some (k, l) \<Rightarrow> [\<lparr>do_d = k * ground_distance tx rx, do_h = l * ground_distance tx rx\<rparr>]),
                right @ (case rightmost of None \<Rightarrow> [] | Some (k, l) \<Rightarrow> [\<lparr>do_d = k * ground_distance tx rx, do_h = - l * ground_distance tx rx\<rparr>])))
             (rfold (outline_point tx rx) (gv_worldOutline v) (None, None))"
  have "\<exists>s. rfold ?f vehicles ([], []) = Inr s \<and> True"
  proof (rule rfold_total, simp)
    fix ys x zs s
    show "\<exists>s'. ?f x s = Inr s' \<and> True" using outline_extremes [OF assms, of "gv_worldOutline x"] by (cases s) auto
  qed
  then show ?thesis by (auto simp: buildSideObstacles_def Let_def)
qed

text \<open>The outline of a vehicle beside a link: the extreme points found on both sides are points of the outline whose foot lies on the link, none reaches
  further to that side, and none is found only if there is none.\<close>

theorem side_extremes_correct:
  assumes "apart tx rx"
  shows "\<exists>l r. rfold (outline_point tx rx) ps (None, None) = Inr (l, r)
    \<and> (case l of None \<Rightarrow> \<forall>p \<in> set ps. 0 \<le> foot tx rx p \<and> foot tx rx p \<le> 1 \<longrightarrow> lateral tx rx p < 0
        | Some (k, h) \<Rightarrow> (\<exists>p \<in> set ps. k = foot tx rx p \<and> h = lateral tx rx p \<and> 0 \<le> k \<and> k \<le> 1 \<and> 0 \<le> h)
            \<and> (\<forall>p \<in> set ps. 0 \<le> foot tx rx p \<and> foot tx rx p \<le> 1 \<longrightarrow> lateral tx rx p \<le> h))
    \<and> (case r of None \<Rightarrow> \<forall>p \<in> set ps. 0 \<le> foot tx rx p \<and> foot tx rx p \<le> 1 \<longrightarrow> 0 < lateral tx rx p
        | Some (k, h) \<Rightarrow> (\<exists>p \<in> set ps. k = foot tx rx p \<and> h = lateral tx rx p \<and> 0 \<le> k \<and> k \<le> 1 \<and> h \<le> 0)
            \<and> (\<forall>p \<in> set ps. 0 \<le> foot tx rx p \<and> foot tx rx p \<le> 1 \<longrightarrow> h \<le> lateral tx rx p))"
proof -
  obtain l r where run: "rfold (outline_point tx rx) ps (None, None) = Inr (l, r)"
    and l: "is_extreme (\<le>) {c \<in> beside tx rx ps. snd c \<ge> 0} l" and r: "is_extreme (\<ge>) {c \<in> beside tx rx ps. snd c \<le> 0} r"
    using outline_extremes [OF assms] by blast
  have b: "(foot tx rx p, lateral tx rx p) \<in> beside tx rx ps" if "p \<in> set ps" "0 \<le> foot tx rx p \<and> foot tx rx p \<le> 1" for p
    using that by (auto simp: beside_def)
  have "case l of None \<Rightarrow> \<forall>p \<in> set ps. 0 \<le> foot tx rx p \<and> foot tx rx p \<le> 1 \<longrightarrow> lateral tx rx p < 0
        | Some (k, h) \<Rightarrow> (\<exists>p \<in> set ps. k = foot tx rx p \<and> h = lateral tx rx p \<and> 0 \<le> k \<and> k \<le> 1 \<and> 0 \<le> h)
            \<and> (\<forall>p \<in> set ps. 0 \<le> foot tx rx p \<and> foot tx rx p \<le> 1 \<longrightarrow> lateral tx rx p \<le> h)"
  proof (cases l)
    case None
    then show ?thesis using l b by (fastforce simp: is_extreme_def)
  next
    case (Some c)
    then have c: "c \<in> beside tx rx ps" "0 \<le> snd c" "\<forall>c' \<in> beside tx rx ps. 0 \<le> snd c' \<longrightarrow> snd c' \<le> snd c" using l by (auto simp: is_extreme_def)
    have "\<exists>p \<in> set ps. fst c = foot tx rx p \<and> snd c = lateral tx rx p \<and> 0 \<le> fst c \<and> fst c \<le> 1" using c(1) by (auto simp: beside_def)
    moreover have "lateral tx rx p \<le> snd c" if "p \<in> set ps" "0 \<le> foot tx rx p \<and> foot tx rx p \<le> 1" for p
      using b [OF that] c(2,3) by (cases "0 \<le> lateral tx rx p") auto
    ultimately show ?thesis using Some c(2) by (cases c) auto
  qed
  moreover have "case r of None \<Rightarrow> \<forall>p \<in> set ps. 0 \<le> foot tx rx p \<and> foot tx rx p \<le> 1 \<longrightarrow> 0 < lateral tx rx p
        | Some (k, h) \<Rightarrow> (\<exists>p \<in> set ps. k = foot tx rx p \<and> h = lateral tx rx p \<and> 0 \<le> k \<and> k \<le> 1 \<and> h \<le> 0)
            \<and> (\<forall>p \<in> set ps. 0 \<le> foot tx rx p \<and> foot tx rx p \<le> 1 \<longrightarrow> h \<le> lateral tx rx p)"
  proof (cases r)
    case None
    then show ?thesis using r b by (fastforce simp: is_extreme_def)
  next
    case (Some c)
    then have c: "c \<in> beside tx rx ps" "snd c \<le> 0" "\<forall>c' \<in> beside tx rx ps. snd c' \<le> 0 \<longrightarrow> snd c \<le> snd c'" using r by (auto simp: is_extreme_def)
    have "\<exists>p \<in> set ps. fst c = foot tx rx p \<and> snd c = lateral tx rx p \<and> 0 \<le> fst c \<and> fst c \<le> 1" using c(1) by (auto simp: beside_def)
    moreover have "snd c \<le> lateral tx rx p" if "p \<in> set ps" "0 \<le> foot tx rx p \<and> foot tx rx p \<le> 1" for p
      using b [OF that] c(2,3) by (cases "lateral tx rx p \<le> 0") auto
    ultimately show ?thesis using Some c(2) by (cases c) auto
  qed
  ultimately show ?thesis using run by blast
qed

definition strictly_between :: "real \<Rightarrow> DiffractionObstacle list \<Rightarrow> bool" where
  "strictly_between d obs \<longleftrightarrow> obs \<noteq> [] \<and> sorted_wrt (<) (map do_d obs) \<and> (\<forall>x \<in> set obs. 0 < do_d x \<and> do_d x < d)"

lemma between_knife_edge:
  assumes "strictly_between d obs"
  shows "\<exists>path. computeMultipleKnifeEdge (\<lparr>do_d = 0, do_h = h1\<rparr> # obs @ [\<lparr>do_d = d, do_h = h2\<rparr>]) lambda = Inr path \<and> 1 \<le> dp_attenuation path"
proof -
  have "0 < d" using assms by (cases obs) (auto simp: strictly_between_def)
  then have "sorted_wrt (<) (map do_d (\<lparr>do_d = 0, do_h = h1\<rparr> # obs @ [\<lparr>do_d = d, do_h = h2\<rparr>]))"
    using assms by (auto simp: strictly_between_def sorted_wrt_append)
  moreover have "2 < length (\<lparr>do_d = 0, do_h = h1\<rparr> # obs @ [\<lparr>do_d = d, do_h = h2\<rparr>])" using assms by (cases obs) (auto simp: strictly_between_def)
  ultimately show ?thesis using multiple_knife_edge by blast
qed

lemma combine_range:
  assumes "1 \<le> dp_attenuation a" "1 \<le> dp_attenuation b" "1 \<le> dp_attenuation c"
  shows "0 < combineDiffractionLoss a b c \<and> combineDiffractionLoss a b c \<le> 1"
  using assms by (auto simp: combineDiffractionLoss_def Let_def)

text \<open>The path loss of a link blocked by vehicles that are strictly between its ends, on all three paths, at different distances: no assertion
  fails and the loss is a fraction, at most the free space loss, provided that the antennas are at least an eighth of the wave
  length apart.\<close>

theorem NLOSv_loss_range:
  assumes "apart tx rx" and "getObstructingVehicles g (fst tx, fst (snd tx)) (fst rx, fst (snd rx)) vi = Inr vehicles"
    and "buildSideObstacles vehicles tx rx = Inr (left, right)"
    and "strictly_between (ground_distance tx rx) (buildTopObstacles vehicles tx rx)"
    and "strictly_between (ground_distance tx rx) left" and "strictly_between (ground_distance tx rx) right"
    and "0 < waveLength" and "waveLength \<le> 8 * coord_distance tx rx"
  shows "\<exists>loss. NLOSv_computePathLoss g vi tx rx waveLength = Inr loss \<and> 0 < loss
    \<and> loss \<le> squared waveLength / (16 * squared pi * squared (coord_distance tx rx)) \<and> loss \<le> 1"
proof -
  let ?d = "coord_distance tx rx"
  have pos: "0 < ?d" using assms(7,8) by simp
  obtain top l r where paths: "computeMultipleKnifeEdge (\<lparr>do_d = 0, do_h = snd (snd tx)\<rparr> # buildTopObstacles vehicles tx rx @ [\<lparr>do_d = ground_distance tx rx, do_h = snd (snd rx)\<rparr>]) waveLength = Inr top"
    "computeMultipleKnifeEdge (\<lparr>do_d = 0, do_h = 0\<rparr> # left @ [\<lparr>do_d = ground_distance tx rx, do_h = 0\<rparr>]) waveLength = Inr l"
    "computeMultipleKnifeEdge (\<lparr>do_d = 0, do_h = 0\<rparr> # right @ [\<lparr>do_d = ground_distance tx rx, do_h = 0\<rparr>]) waveLength = Inr r"
    and ge: "1 \<le> dp_attenuation top" "1 \<le> dp_attenuation l" "1 \<le> dp_attenuation r"
    using between_knife_edge [OF assms(4)] between_knife_edge [OF assms(5)] between_knife_edge [OF assms(6)] by blast
  let ?att = "combineDiffractionLoss top l r"
  let ?free = "squared waveLength / (16 * squared pi * squared ?d)"
  have att: "0 < ?att" "?att \<le> 1" using combine_range [OF ge] by auto
  have run: "computeVehiclePathLoss g vi tx rx waveLength = Inr ?att" using assms(2,3) paths by (simp add: computeVehiclePathLoss_def Let_def)
  have free: "0 < ?free" using assms(7) pos by (intro divide_pos_pos mult_pos_pos) auto
  have "8 * ?d \<le> 4 * pi * ?d" using pos pi_ge_two by (intro mult_right_mono) auto
  then have "waveLength \<le> 4 * pi * ?d" using assms(8) by simp
  then have "squared waveLength \<le> squared (4 * pi * ?d)" using assms(7) pos by (intro mult_mono) auto
  then have one: "?free \<le> 1" using pos by (simp add: algebra_simps)
  have prod: "0 < ?free * ?att" by (rule mult_pos_pos [OF free att(1)])
  have less: "?free * ?att \<le> ?free" by (rule mult_left_le [OF att(2)]) (rule less_imp_le [OF free])
  note prod less order_trans [OF less one]
  moreover have "NLOSv_computePathLoss g vi tx rx waveLength = Inr (?free * ?att)"
    using pos run prod order_trans [OF less one] by (simp add: NLOSv_computePathLoss_def Let_def)
  ultimately show ?thesis by blast
qed

text \<open>A vehicle blocks a link as soon as its outline is cut, but counts as an obstacle for the path over the roof only if the foot of its
  midpoint lies on the link: when that is so for none of the blocking vehicles, the path loss fails an assertion.\<close>

theorem corner_cut_asserts:
  assumes "apart tx rx" and "getObstructingVehicles g (fst tx, fst (snd tx)) (fst rx, fst (snd rx)) vi = Inr vehicles"
    and "\<forall>v \<in> set vehicles. foot tx rx (gv_worldMidpoint v) < 0 \<or> foot tx rx (gv_worldMidpoint v) > 1"
  shows "NLOSv_computePathLoss g vi tx rx waveLength = Inl AssertionFailed"
proof -
  obtain left right where side: "buildSideObstacles vehicles tx rx = Inr (left, right)" using buildSideObstacles_total [OF assms(1)] by blast
  have "filter (\<lambda>v. \<not> (foot tx rx (gv_worldMidpoint v) < 0 \<or> foot tx rx (gv_worldMidpoint v) > 1)) vehicles = []" using assms(3) by (simp add: filter_empty_conv)
  then have "buildTopObstacles vehicles tx rx = []" unfolding buildTopObstacles_def by simp
  then have "computeVehiclePathLoss g vi tx rx waveLength = Inl AssertionFailed"
    using assms(2) side by (simp add: computeVehiclePathLoss_def Let_def computeMultipleKnifeEdge_def)
  moreover have "coord_distance tx rx \<noteq> 0"
  proof -
    have "0 < squared (fst tx - fst rx) + squared (fst (snd tx) - fst (snd rx)) + squared (snd (snd tx) - snd (snd rx))"
    proof (rule add_pos_nonneg)
      have "squared (a - b) = squared (b - a)" for a b by (simp add: algebra_simps)
      then show "0 < squared (fst tx - fst rx) + squared (fst (snd tx) - fst (snd rx))" using apart_pos [OF assms(1)] by simp
    qed simp
    then show ?thesis by (simp add: coord_distance_def)
  qed
  ultimately show ?thesis by (simp add: NLOSv_computePathLoss_def Let_def)
qed

section \<open>Examples\<close>

definition example_edges :: "DiffractionObstacle list" where
  "example_edges = [\<lparr>do_d = 0, do_h = 1\<rparr>, \<lparr>do_d = 10, do_h = 3\<rparr>, \<lparr>do_d = 20, do_h = 2\<rparr>, \<lparr>do_d = 30, do_h = 1\<rparr>]"

theorem main_obstacles_stretched_witness:
  "hd (last (example_edges # main_iterators example_edges)) = \<lparr>do_d = 30, do_h = 1\<rparr>"
proof -
  have "example_edges \<noteq> []" "sorted_wrt (<) (map do_d example_edges)" by (simp_all add: example_edges_def)
  from main_obstacles_stretched [OF this refl] show ?thesis by (simp add: example_edges_def)
qed

theorem multiple_knife_edge_total_witness:
  "\<exists>path. computeMultipleKnifeEdge example_edges (1/20) = Inr path \<and> 1 \<le> dp_attenuation path \<and> 30 \<le> dp_d path"
proof -
  have "2 < length example_edges" "sorted_wrt (<) (map do_d example_edges)" by (simp_all add: example_edges_def)
  from multiple_knife_edge_total [OF this, of "1/20"] show ?thesis by (simp add: example_edges_def)
qed

theorem side_extremes_correct_witness:
  "\<exists>l r. rfold (outline_point (0, 0, 1) (10, 0, 1)) [(3, 2), (5, - 1), (20, 9)] (None, None) = Inr (l, r)"
proof -
  have "apart (0, 0, 1) (10, 0, 1)" by (simp add: apart_def)
  from side_extremes_correct [OF this, of "[(3, 2), (5, - 1), (20, 9)]"] show ?thesis by blast
qed

text \<open>A lorry across the road: its midpoint is in the middle of the link, its corners on both sides.\<close>

definition lorry :: GVehicle where
  "lorry = (parked (5, 0))\<lparr>gv_worldMidpoint := (5, 0), gv_worldOutline := [(4, 3), (6, - 3)]\<rparr>"

definition lorry_index :: VehicleIndex where
  "lorry_index = \<lparr>vi_vehicles = [(''l'', 1, lorry)], vi_rtree = [(((4, 3), (4, 3)), 1)], vi_rtreeTainted = False, vi_margin = 0\<rparr>"

lemma lorry_obstructs: "getObstructingVehicles radio_plane a b lorry_index = Inr [lorry]"
  by (simp add: getObstructingVehicles_def lorry_index_def radio_plane_def vehicle_at_def lorry_def)

theorem NLOSv_loss_range_witness:
  "\<exists>loss. NLOSv_computePathLoss radio_plane lorry_index (0, 0, 1) (10, 0, 1) (1/20) = Inr loss \<and> 0 < loss \<and> loss \<le> 1"
proof -
  have g: "ground_distance (0, 0, 1) (10, 0, 1) = 10" by (simp add: ground_distance_def)
  have c: "coord_distance (0, 0, 1) (10, 0, 1) = 10" by (simp add: coord_distance_def)
  have a: "apart (0, 0, 1) (10, 0, 1)" by (simp add: apart_def)
  have o: "getObstructingVehicles radio_plane (fst (0, 0, 1), fst (snd (0 :: real, 0, 1 :: real))) (fst (10, 0, 1), fst (snd (10 :: real, 0, 1 :: real))) lorry_index = Inr [lorry]"
    by (rule lorry_obstructs)
  have s: "buildSideObstacles [lorry] (0, 0, 1) (10, 0, 1) = Inr ([\<lparr>do_d = 6, do_h = 3\<rparr>], [\<lparr>do_d = 4, do_h = 3\<rparr>])"
    by (simp add: buildSideObstacles_def Let_def g lorry_def parked_def outline_point_def foot_def left_of_def right_of_def)
  have t: "strictly_between (ground_distance (0, 0, 1) (10, 0, 1)) (buildTopObstacles [lorry] (0, 0, 1) (10, 0, 1))"
    unfolding g by (simp add: strictly_between_def buildTopObstacles_def g foot_def lorry_def)
  have lr: "strictly_between (ground_distance (0, 0, 1) (10, 0, 1)) [\<lparr>do_d = 6, do_h = 3\<rparr>]"
    "strictly_between (ground_distance (0, 0, 1) (10, 0, 1)) [\<lparr>do_d = 4, do_h = 3\<rparr>]" unfolding g by (simp_all add: strictly_between_def)
  from NLOSv_loss_range [OF a o s t lr, of "1/20"] c show ?thesis by auto
qed

theorem corner_cut_asserts_witness:
  "NLOSv_computePathLoss radio_plane lorry_index (0, 0, 1) (1, 0, 1) (1/20) = Inl AssertionFailed"
proof (rule corner_cut_asserts)
  show "apart (0, 0, 1) (1, 0, 1)" by (simp add: apart_def)
  show "getObstructingVehicles radio_plane (fst (0, 0, 1), fst (snd (0 :: real, 0, 1 :: real))) (fst (1, 0, 1), fst (snd (1 :: real, 0, 1 :: real))) lorry_index = Inr [lorry]"
    by (rule lorry_obstructs)
  show "\<forall>v \<in> set [lorry]. foot (0, 0, 1) (1, 0, 1) (gv_worldMidpoint v) < 0 \<or> foot (0, 0, 1) (1, 0, 1) (gv_worldMidpoint v) > 1"
    by (simp add: foot_def lorry_def)
qed

end
