(* ===== verification/Gemv2Buildings.thy ===== *)
theory Gemv2Buildings
  imports Gemv2Vehicles
begin

text \<open>
  \<open>artery/inet/gemv2/NLOSb\<close>: the loss of a radio link blocked by buildings, as the superposition of single reflections at buildings and
  vehicles and of single diffractions at corners of the blocking buildings.  Doubles are real numbers, with the two values of the source
  that are no real number written out: an infinite attenuation is \<open>None\<close>, and so is a mirror point whose coordinates are not a number.
\<close>

section \<open>Mirror points\<close>

definition squaredLength :: "Point \<Rightarrow> Point \<Rightarrow> real" where
  "squaredLength a b = squared (fst a - fst b) + squared (snd a - snd b)"

definition reflectPoint :: "Point \<Rightarrow> Point \<times> Point \<Rightarrow> Point option" where
  "reflectPoint p line =
     (let dx = fst (snd line) - fst (fst line); dy = snd (snd line) - snd (fst line);
          a = (dx * dx - dy * dy) / (dx * dx + dy * dy); b = 2 * dx * dy / (dx * dx + dy * dy)
      in if dx * dx + dy * dy = 0 then None
         else Some (a * (fst p - fst (fst line)) + b * (snd p - snd (fst line)) + fst (fst line),
                    b * (fst p - fst (fst line)) - a * (snd p - snd (fst line)) + snd (fst line)))"

section \<open>The module and its environment\<close>

record NLOSb =
  nb_maxRange :: real
  nb_pathLossExponent :: real
  nb_vehReflRelPerm :: real
  nb_obsReflRelPerm :: real
  nb_polarization :: char

definition NLOSb_initialize :: "real \<Rightarrow> real \<Rightarrow> real \<Rightarrow> real \<Rightarrow> string \<Rightarrow> NLOSb result" where
  "NLOSb_initialize maxRange pathLossExponent vehReflRelPerm obsReflRelPerm polarization =
     (let m = (\<lambda>c. \<lparr>nb_maxRange = maxRange, nb_pathLossExponent = pathLossExponent, nb_vehReflRelPerm = vehReflRelPerm,
                     nb_obsReflRelPerm = obsReflRelPerm, nb_polarization = c\<rparr>)
      in if polarization = ''horizontal'' then Inr (m CHR ''h'')
         else if polarization = ''vertical'' then Inr (m CHR ''v'')
         else Inl (RuntimeError (''Invalid antenna polarization '' @ polarization)))"

record NEnv =
  en_tx :: Point
  en_rx :: Point
  en_txHeight :: real
  en_rxHeight :: real
  en_obstacles :: "GObstacle list"
  en_vehicles :: "GVehicle list"
  en_lambda :: real

definition Environment_new :: "RadioGeometry \<Rightarrow> ObstacleIndex \<Rightarrow> VehicleIndex \<Rightarrow> NLOSb \<Rightarrow> Coord \<Rightarrow> Coord \<Rightarrow> real \<Rightarrow> NEnv result" where
  "Environment_new g oi vi m itx irx lambda =
     (let tx = (fst itx, fst (snd itx)); rx = (fst irx, fst (snd irx))
      in rbind (obstaclesEllipse g tx rx (nb_maxRange m) oi) (\<lambda>obstacles.
         rbind (vehiclesEllipse g tx rx (nb_maxRange m) vi) (\<lambda>vehicles.
           Inr \<lparr>en_tx = tx, en_rx = rx, en_txHeight = snd (snd itx), en_rxHeight = snd (snd irx),
                en_obstacles = obstacles, en_vehicles = vehicles, en_lambda = lambda\<rparr>)))"

record Attenuation =
  at_length :: real
  at_fraction :: "real option"

definition Attenuation_new :: "real \<Rightarrow> real option \<Rightarrow> Attenuation result" where
  "Attenuation_new len att =
     (case att of
        Some f \<Rightarrow> if f > 1 then Inr \<lparr>at_length = len, at_fraction = att\<rparr> else Inl AssertionFailed
      | None \<Rightarrow> Inr \<lparr>at_length = len, at_fraction = att\<rparr>)"

section \<open>Rays\<close>

definition isRayObstructed :: "RadioGeometry \<Rightarrow> Point \<Rightarrow> NEnv \<Rightarrow> bool" where
  "isRayObstructed g point env =
     (let ls = [en_tx env, point, en_rx env]
      in (\<exists>obstacle \<in> set (en_obstacles env). rg_string_intersects g ls (go_outline obstacle))
         \<or> (\<exists>vehicle \<in> set (en_vehicles env). rg_cutting g ls (gv_worldOutline vehicle)))"

text \<open>The edges of an outline, which is an open ring: the view closes it.\<close>

definition edges :: "Point list \<Rightarrow> (Point \<times> Point) list" where
  "edges outline = zip outline (tl outline @ [hd outline])"

text \<open>What one edge reflects.\<close>

definition segment_reflection :: "RadioGeometry \<Rightarrow> NEnv \<Rightarrow> Point \<times> Point \<Rightarrow> Point list" where
  "segment_reflection g env segment =
     (let rx_m = reflectPoint (en_rx env) segment;
          skip = (case rx_m of None \<Rightarrow> False | Some q \<Rightarrow> squaredLength (en_tx env) (en_rx env) > squaredLength (en_tx env) q);
          intersections = rg_intersection g segment (en_tx env, rx_m)
      in if skip then []
         else if length intersections = 1 \<and> \<not> isRayObstructed g (hd intersections) env then [hd intersections] else [])"

definition computeReflectionRaysFromBuildings :: "RadioGeometry \<Rightarrow> NEnv \<Rightarrow> Point list" where
  "computeReflectionRaysFromBuildings g env =
     concat (map (\<lambda>obstacle.
       if length (go_outline obstacle) < 2 then []
       else concat (map (segment_reflection g env) (edges (go_outline obstacle)))) (en_obstacles env))"

definition computeReflectionRaysFromVehicles :: "RadioGeometry \<Rightarrow> NEnv \<Rightarrow> Point list" where
  "computeReflectionRaysFromVehicles g env =
     concat (map (\<lambda>vehicle.
       if length (gv_worldOutline vehicle) < 2 then []
       else if rg_within g (en_tx env) (gv_worldOutline vehicle) \<or> rg_within g (en_rx env) (gv_worldOutline vehicle) then []
       else concat (map (segment_reflection g env) (edges (gv_worldOutline vehicle)))) (en_vehicles env))"

definition diffraction_corner :: "RadioGeometry \<Rightarrow> ObstacleIndex \<Rightarrow> VehicleIndex \<Rightarrow> NEnv \<Rightarrow> Point \<Rightarrow> bool result" where
  "diffraction_corner g oi vi env corner =
     (let minVehicleHeight = min (en_txHeight env) (en_rxHeight env)
      in rbind (ObstacleIndex_anyBlockage g (en_tx env) corner oi) (\<lambda>blocked. if blocked then Inr False
         else rbind (ObstacleIndex_anyBlockage g corner (en_rx env) oi) (\<lambda>blocked. if blocked then Inr False
         else rbind (VehicleIndex_anyBlockage_height g (en_tx env) corner minVehicleHeight vi) (\<lambda>blocked. if blocked then Inr False
         else rmap Not (VehicleIndex_anyBlockage_height g corner (en_rx env) minVehicleHeight vi)))))"

definition computeDiffractionRays :: "RadioGeometry \<Rightarrow> ObstacleIndex \<Rightarrow> VehicleIndex \<Rightarrow> NEnv \<Rightarrow> Point list result" where
  "computeDiffractionRays g oi vi env =
     rbind (getObstructingObstacles g (en_tx env) (en_rx env) oi) (\<lambda>obstacles.
       rfold (\<lambda>obstacle. rfold (\<lambda>corner corners.
           rmap (\<lambda>keep. if keep then corners @ [corner] else corners) (diffraction_corner g oi vi env corner)) (go_outline obstacle))
         obstacles [])"

section \<open>Losses along a ray\<close>

definition computeFreeSpaceLoss :: "real \<Rightarrow> real \<Rightarrow> real" where
  "computeFreeSpaceLoss pathlen lambda = (if pathlen > 0 then squared lambda / squared (4 * pi * pathlen) else 1)"

definition computeLogDistanceLoss :: "NLOSb \<Rightarrow> real \<Rightarrow> real \<Rightarrow> real" where
  "computeLogDistanceLoss m pathlen lambda =
     (if pathlen > 0 then squared lambda / (squared (4 * pi) * pathlen powr nb_pathLossExponent m) else 1)"

definition computeAngleBetween :: "Point \<Rightarrow> Point \<Rightarrow> Point \<Rightarrow> real" where
  "computeAngleBetween nadir a b =
     (let ax = fst a - fst nadir; ay = snd a - snd nadir; bx = fst b - fst nadir; by' = snd b - snd nadir;
          dot_product = ax * bx + ay * by';
          alen = sqrt (squared ax + squared ay); blen = sqrt (squared bx + squared by')
      in if blen > 0 \<and> alen > 0 then arccos (dot_product / (alen * blen)) else 0)"

text \<open>The root of a negative number and a quotient by zero are no numbers of absolute value at most one: the assertion fails.\<close>

definition computeReflectionCoefficient :: "NLOSb \<Rightarrow> real \<Rightarrow> real \<Rightarrow> real result" where
  "computeReflectionCoefficient m theta permittivity =
     (if nb_polarization m \<noteq> CHR ''v'' \<and> nb_polarization m \<noteq> CHR ''h'' then Inl (RuntimeError ''Unknown antenna polarization'')
      else (let radicand = permittivity - squared (cos theta); sqrt_term = sqrt radicand; sin_theta = sin theta;
                num = (if nb_polarization m = CHR ''v'' then sin_theta - sqrt_term else - permittivity * sin_theta + sqrt_term);
                den = (if nb_polarization m = CHR ''v'' then sin_theta + sqrt_term else permittivity * sin_theta + sqrt_term)
            in if radicand < 0 \<or> den = 0 then Inl AssertionFailed
               else if \<bar>num / den\<bar> \<le> 1 then Inr (num / den) else Inl AssertionFailed))"

text \<open>The attenuation of a knife edge, for different ends of the link.  At an end the Fresnel radius vanishes: an edge beside the link
  attenuates infinitely there, and an edge on it not at all.\<close>

definition NLOSb_computeSimpleKnifeEdge :: "real \<Rightarrow> real \<Rightarrow> real \<Rightarrow> real \<Rightarrow> real option" where
  "NLOSb_computeSimpleKnifeEdge h distTxObs distTxRx lambda =
     (let distRxObs = distTxRx - distTxObs;
          r = sqrt (lambda * distTxObs * distRxObs / distTxRx)
      in if r = 0 then (if h > 0 then None else Some 1)
         else Some (dB2fraction (knife_edge_dB (sqrt 2 * (h / r)))))"

text \<open>Without a distance on the ground every quotient is not a number, and the edge does not attenuate.\<close>

definition corner_attenuation :: "NEnv \<Rightarrow> real \<Rightarrow> Point \<Rightarrow> Attenuation option result" where
  "corner_attenuation env limit corner =
     (let vx = fst (en_rx env) - fst (en_tx env); vy = snd (en_rx env) - snd (en_tx env);
          vlen_squared = squared vx + squared vy; vlen = sqrt vlen_squared;
          freeSpaceLoss = computeFreeSpaceLoss vlen (en_lambda env);
          pathlen = sqrt (squared (position_distance (en_tx env) corner + position_distance (en_rx env) corner)
                       + squared (en_txHeight env - en_rxHeight env))
      in if pathlen > limit then Inr None
         else if vlen_squared = 0 then rmap Some (Attenuation_new pathlen (Some (1 / freeSpaceLoss)))
         else (let k = (fst corner * vx - vy * snd (en_tx env) + vy * snd corner - fst (en_tx env) * vx) / vlen_squared;
                   l = (fst corner * vy - vy * fst (en_tx env) - vx * snd corner + snd (en_tx env) * vx) / vlen_squared
               in if k < 0 \<or> k > 1 then Inr None
                  else rmap Some (Attenuation_new pathlen
                         (map_option (\<lambda>f. f / freeSpaceLoss) (NLOSb_computeSimpleKnifeEdge (\<bar>l\<bar> * vlen) (\<bar>k\<bar> * vlen) vlen (en_lambda env))))))"

definition computeDiffractionAttenuation :: "Point list \<Rightarrow> real \<Rightarrow> NEnv \<Rightarrow> Attenuation list result" where
  "computeDiffractionAttenuation corners limit env =
     rfold (\<lambda>corner atts. rmap (\<lambda>a. case a of None \<Rightarrow> atts | Some att \<Rightarrow> atts @ [att]) (corner_attenuation env limit corner)) corners []"

text \<open>A surface that reflects nothing gives a loss of zero, hence an infinite attenuation.\<close>

definition point_attenuation :: "NLOSb \<Rightarrow> real \<Rightarrow> NEnv \<Rightarrow> Point \<Rightarrow> Attenuation result" where
  "point_attenuation m permittivity env point =
     (let theta = (pi - computeAngleBetween point (en_tx env) (en_rx env)) / 2
      in rbind (computeReflectionCoefficient m theta permittivity) (\<lambda>gamma.
           let pathlen = sqrt (squared (position_distance (en_tx env) point + position_distance (en_rx env) point)
                            + squared (en_txHeight env - en_rxHeight env));
               loss = squared gamma * computeFreeSpaceLoss pathlen (en_lambda env)
           in Attenuation_new pathlen (if loss = 0 then None else Some (1 / loss))))"

definition computeReflectionAttenuation :: "NLOSb \<Rightarrow> Point list \<Rightarrow> real \<Rightarrow> NEnv \<Rightarrow> Attenuation list result" where
  "computeReflectionAttenuation m points permittivity env =
     rfold (\<lambda>point atts. rmap (\<lambda>att. atts @ [att]) (point_attenuation m permittivity env point)) points []"

section \<open>The loss of the link\<close>

fun fraction_less :: "real option \<Rightarrow> real option \<Rightarrow> bool" where
  "fraction_less (Some a) (Some b) = (a < b)"
| "fraction_less (Some a) None = True"
| "fraction_less None b = False"

text \<open>\<open>std::min_element\<close>: the first of the smallest.\<close>

fun min_attenuation :: "Attenuation \<Rightarrow> Attenuation list \<Rightarrow> Attenuation" where
  "min_attenuation best [] = best"
| "min_attenuation best (a # as) = min_attenuation (if fraction_less (at_fraction a) (at_fraction best) then a else best) as"

definition inverse_fraction :: "Attenuation \<Rightarrow> real" where
  "inverse_fraction a = (case at_fraction a of None \<Rightarrow> 0 | Some f \<Rightarrow> 1 / f)"

definition combineAttenuations :: "Attenuation list \<Rightarrow> real \<Rightarrow> real result" where
  "combineAttenuations atts lambda =
     (let loss = (if length atts > 1 then
             (let refDist = at_length (min_attenuation (hd atts) (tl atts))
              in squared (sum_list (map (\<lambda>att. sqrt (inverse_fraction att) * cos (2 * pi * (refDist - at_length att) / lambda)) atts)))
           else if atts \<noteq> [] then inverse_fraction (hd atts) else 0)
      in if loss \<ge> 0 \<and> loss \<le> 1 then Inr loss else Inl AssertionFailed)"

definition shorter :: "Attenuation list \<Rightarrow> real \<Rightarrow> real" where
  "shorter atts limit = fold (\<lambda>att limit. if at_length att < limit then at_length att else limit) atts limit"

definition NLOSb_computePathLoss :: "RadioGeometry \<Rightarrow> ObstacleIndex \<Rightarrow> VehicleIndex \<Rightarrow> NLOSb \<Rightarrow> Coord \<Rightarrow> Coord \<Rightarrow> real \<Rightarrow> real result" where
  "NLOSb_computePathLoss g oi vi m tx rx waveLength =
     rbind (Environment_new g oi vi m tx rx waveLength) (\<lambda>env.
     rbind (computeReflectionAttenuation m (computeReflectionRaysFromBuildings g env) (nb_obsReflRelPerm m) env) (\<lambda>attReflBuildings.
     rbind (computeReflectionAttenuation m (computeReflectionRaysFromVehicles g env) (nb_vehReflRelPerm m) env) (\<lambda>attReflVehicles.
       let limit = shorter attReflVehicles (shorter attReflBuildings (nb_maxRange m))
       in rbind (computeDiffractionRays g oi vi env) (\<lambda>diffractions.
          rbind (computeDiffractionAttenuation diffractions limit env) (\<lambda>attenuations.
          rmap (\<lambda>refldif. max refldif (computeLogDistanceLoss m (coord_distance tx rx) waveLength))
            (combineAttenuations (attenuations @ attReflBuildings @ attReflVehicles) (en_lambda env)))))))"

section \<open>Mirror images\<close>

lemma distance_cmod: "position_distance p q = cmod (Complex (fst p) (snd p) - Complex (fst q) (snd q))"
  by (simp add: position_distance_def cmod_def)

lemma distance_triangle: "position_distance p q \<le> position_distance p c + position_distance c q"
proof -
  have "cmod (Complex (fst p) (snd p) - Complex (fst q) (snd q))
      = cmod ((Complex (fst p) (snd p) - Complex (fst c) (snd c)) + (Complex (fst c) (snd c) - Complex (fst q) (snd q)))" by simp
  then show ?thesis unfolding distance_cmod by (metis norm_triangle_ineq)
qed

lemma distance_squared: "position_distance p q = sqrt (squaredLength p q)"
  by (simp add: position_distance_def squaredLength_def power2_eq_square)

text \<open>The point at the parameter \<open>t\<close> of the line through two points.\<close>

definition on_line :: "Point \<times> Point \<Rightarrow> real \<Rightarrow> Point" where
  "on_line l t = (fst (fst l) + t * (fst (snd l) - fst (fst l)), snd (fst l) + t * (snd (snd l) - snd (fst l)))"

text \<open>The side of a line a point is on, by the sign.\<close>

definition side_of :: "Point \<times> Point \<Rightarrow> Point \<Rightarrow> real" where
  "side_of l p = (fst (snd l) - fst (fst l)) * (snd p - snd (fst l)) - (snd (snd l) - snd (fst l)) * (fst p - fst (fst l))"

lemma reflect_matrix:
  assumes "fst l \<noteq> snd l"
  obtains a b n where "a * a + b * b = 1" and "0 < n" and "n = squaredLength (snd l) (fst l)"
    and "a * n = squared (fst (snd l) - fst (fst l)) - squared (snd (snd l) - snd (fst l))"
    and "b * n = 2 * (fst (snd l) - fst (fst l)) * (snd (snd l) - snd (fst l))"
    and "\<And>p. reflectPoint p l = Some (a * (fst p - fst (fst l)) + b * (snd p - snd (fst l)) + fst (fst l),
      b * (fst p - fst (fst l)) - a * (snd p - snd (fst l)) + snd (fst l))"
proof -
  define dx dy where d: "dx = fst (snd l) - fst (fst l)" "dy = snd (snd l) - snd (fst l)"
  have "dx \<noteq> 0 \<or> dy \<noteq> 0" using assms by (auto simp: d prod_eq_iff)
  then have pos: "0 < dx * dx + dy * dy" by (simp add: sum_squares_gt_zero_iff)
  define n where n: "n = dx * dx + dy * dy"
  define a b where ab: "a = (dx * dx - dy * dy) / n" "b = 2 * dx * dy / n"
  have nz: "n \<noteq> 0" using pos unfolding n by (rule less_imp_neq [THEN not_sym])
  have an: "a * n = dx * dx - dy * dy" "b * n = 2 * dx * dy" using nz by (simp_all add: ab)
  have "(a * a + b * b) * (n * n) = squared (a * n) + squared (b * n)" by (simp add: algebra_simps)
  also have "\<dots> = n * n" unfolding an by (simp add: n algebra_simps)
  finally have "a * a + b * b = 1" using nz by simp
  then show thesis using pos an nz by (intro that [of a b n]) (auto simp: squaredLength_def reflectPoint_def Let_def d ab n)
qed

lemma reflect_keeps_line:
  assumes "reflectPoint p l = Some q"
  shows "squaredLength (on_line l t) q = squaredLength (on_line l t) p"
proof -
  have "fst l \<noteq> snd l" using assms by (auto simp: reflectPoint_def Let_def)
  then obtain a b n where m: "a * a + b * b = 1" "0 < n" "n = squaredLength (snd l) (fst l)"
      "a * n = squared (fst (snd l) - fst (fst l)) - squared (snd (snd l) - snd (fst l))"
      "b * n = 2 * (fst (snd l) - fst (fst l)) * (snd (snd l) - snd (fst l))"
    and r: "\<And>p. reflectPoint p l = Some (a * (fst p - fst (fst l)) + b * (snd p - snd (fst l)) + fst (fst l),
      b * (fst p - fst (fst l)) - a * (snd p - snd (fst l)) + snd (fst l))"
    using reflect_matrix by metis
  define dx dy u v where d: "dx = fst (snd l) - fst (fst l)" "dy = snd (snd l) - snd (fst l)" "u = fst p - fst (fst l)" "v = snd p - snd (fst l)"
  have q: "fst q = a * u + b * v + fst (fst l)" "snd q = b * u - a * v + snd (fst l)" using assms r [of p] by (auto simp: d)
  have n: "n = dx * dx + dy * dy" "a * n = dx * dx - dy * dy" "b * n = 2 * dx * dy" using m by (simp_all add: squaredLength_def d)
  have "n * (a * dx + b * dy) = n * dx" "n * (b * dx - a * dy) = n * dy"
  proof -
    have "n * (a * dx + b * dy) = (a * n) * dx + (b * n) * dy" by (simp add: algebra_simps)
    then show "n * (a * dx + b * dy) = n * dx" unfolding n(2,3) by (simp add: n(1) algebra_simps)
    have "n * (b * dx - a * dy) = (b * n) * dx - (a * n) * dy" by (simp add: algebra_simps)
    then show "n * (b * dx - a * dy) = n * dy" unfolding n(2,3) by (simp add: n(1) algebra_simps)
  qed
  then have fix_dir: "a * dx + b * dy = dx" "b * dx - a * dy = dy" using m(2) by auto
  have "squaredLength (on_line l t) q = squared (t * dx - (a * u + b * v)) + squared (t * dy - (b * u - a * v))"
  proof -
    have "fst (on_line l t) - fst q = t * dx - (a * u + b * v)" "snd (on_line l t) - snd q = t * dy - (b * u - a * v)"
      by (simp_all add: on_line_def q d)
    then show ?thesis by (simp only: squaredLength_def)
  qed
  also have "\<dots> = squared t * (dx * dx + dy * dy) - 2 * t * (u * (a * dx + b * dy) + v * (b * dx - a * dy)) + (a * a + b * b) * (u * u + v * v)"
    by (simp add: algebra_simps)
  also have "\<dots> = squared (t * dx - u) + squared (t * dy - v)" unfolding fix_dir m(1) by (simp add: algebra_simps)
  finally show ?thesis by (simp add: squaredLength_def on_line_def d algebra_simps)
qed

lemma reflect_sides:
  assumes "reflectPoint p l = Some q"
  shows "squaredLength (snd l) (fst l) * (squaredLength tx q - squaredLength tx p) = 4 * side_of l tx * side_of l p"
    and "0 < squaredLength (snd l) (fst l)"
proof -
  have "fst l \<noteq> snd l" using assms by (auto simp: reflectPoint_def Let_def)
  then obtain a b n where m: "a * a + b * b = 1" "0 < n" "n = squaredLength (snd l) (fst l)"
      "a * n = squared (fst (snd l) - fst (fst l)) - squared (snd (snd l) - snd (fst l))"
      "b * n = 2 * (fst (snd l) - fst (fst l)) * (snd (snd l) - snd (fst l))"
    and r: "\<And>p. reflectPoint p l = Some (a * (fst p - fst (fst l)) + b * (snd p - snd (fst l)) + fst (fst l),
      b * (fst p - fst (fst l)) - a * (snd p - snd (fst l)) + snd (fst l))"
    using reflect_matrix by metis
  define dx dy u v x y where d: "dx = fst (snd l) - fst (fst l)" "dy = snd (snd l) - snd (fst l)" "u = fst p - fst (fst l)" "v = snd p - snd (fst l)"
    "x = fst tx - fst (fst l)" "y = snd tx - snd (fst l)"
  have q: "fst q = a * u + b * v + fst (fst l)" "snd q = b * u - a * v + snd (fst l)" using assms r [of p] by (auto simp: d)
  have n: "n = dx * dx + dy * dy" "a * n = dx * dx - dy * dy" "b * n = 2 * dx * dy" using m by (simp_all add: squaredLength_def d)
  have "squaredLength tx q - squaredLength tx p = (squared (x - (a * u + b * v)) + squared (y - (b * u - a * v))) - (squared (x - u) + squared (y - v))"
  proof -
    have "fst tx - fst q = x - (a * u + b * v)" "snd tx - snd q = y - (b * u - a * v)" "fst tx - fst p = x - u" "snd tx - snd p = y - v"
      by (simp_all add: q d)
    then show ?thesis by (simp only: squaredLength_def)
  qed
  also have "\<dots> = (a * a + b * b) * (u * u + v * v) - (u * u + v * v) + 2 * (x * u + y * v) - 2 * (a * (x * u - y * v) + b * (x * v + y * u))"
    by (simp add: algebra_simps)
  also have "\<dots> = 2 * (x * u + y * v) - 2 * (a * (x * u - y * v) + b * (x * v + y * u))" by (simp add: m(1))
  finally have gap: "squaredLength tx q - squaredLength tx p = 2 * (x * u + y * v) - 2 * (a * (x * u - y * v) + b * (x * v + y * u))" .
  have "n * (squaredLength tx q - squaredLength tx p) = 2 * n * (x * u + y * v) - 2 * ((a * n) * (x * u - y * v) + (b * n) * (x * v + y * u))"
    unfolding gap by (simp add: algebra_simps)
  also have "\<dots> = 4 * (dx * y - dy * x) * (dx * v - dy * u)" unfolding n(2,3) by (simp add: n(1) algebra_simps)
  finally show "squaredLength (snd l) (fst l) * (squaredLength tx q - squaredLength tx p) = 4 * side_of l tx * side_of l p"
    using m(3) by (simp add: side_of_def d)
  show "0 < squaredLength (snd l) (fst l)" using m(2,3) by simp
qed


text \<open>An edge is skipped exactly when the antennas are on different sides of it.\<close>

lemma reflect_skip:
  assumes "reflectPoint rx l = Some q"
  shows "squaredLength tx rx > squaredLength tx q \<longleftrightarrow> side_of l tx * side_of l rx < 0"
proof -
  let ?gap = "squaredLength tx q - squaredLength tx rx"
  have "?gap < 0 \<longleftrightarrow> squaredLength (snd l) (fst l) * ?gap < 0" using reflect_sides(2) [OF assms] by (simp add: mult_less_0_iff)
  then show ?thesis unfolding reflect_sides(1) [OF assms] by (simp add: mult_less_0_iff)
qed

text \<open>What the library's intersection answers lies on both segments.\<close>

definition intersection_law :: "RadioGeometry \<Rightarrow> bool" where
  "intersection_law g \<longleftrightarrow> (\<forall>l a q p. p \<in> set (rg_intersection g l (a, Some q)) \<longrightarrow>
     (\<exists>t s. 0 \<le> t \<and> t \<le> 1 \<and> 0 \<le> s \<and> s \<le> 1 \<and> p = on_line l t \<and> p = on_line (a, q) s))"

lemma on_segment_distance:
  assumes "0 \<le> s" and "s \<le> 1"
  shows "position_distance a (on_line (a, q) s) + position_distance q (on_line (a, q) s) = position_distance a q"
proof -
  have scaled: "sqrt (squared (k * x) + squared (k * y)) = k * sqrt (squared x + squared y)" if "0 \<le> k" for k x y :: real
  proof -
    have "squared (k * x) + squared (k * y) = squared k * (squared x + squared y)" by (simp add: algebra_simps)
    then show ?thesis using that by (simp add: real_sqrt_mult)
  qed
  let ?x = "fst a - fst q" and ?y = "snd a - snd q"
  have "squaredLength a (on_line (a, q) s) = squared (s * ?x) + squared (s * ?y)"
    by (simp add: squaredLength_def on_line_def algebra_simps)
  moreover have "squaredLength q (on_line (a, q) s) = squared ((1 - s) * ?x) + squared ((1 - s) * ?y)"
    by (simp add: squaredLength_def on_line_def algebra_simps)
  ultimately have "position_distance a (on_line (a, q) s) + position_distance q (on_line (a, q) s)
      = s * sqrt (squared ?x + squared ?y) + (1 - s) * sqrt (squared ?x + squared ?y)"
    using assms by (simp only: distance_squared scaled diff_ge_0_iff_ge)
  then show ?thesis by (simp add: distance_squared squaredLength_def algebra_simps)
qed

text \<open>A ray over the wall line is never shorter than the ray at the reflection point.\<close>

lemma reflection_minimal:
  assumes "reflectPoint rx l = Some q" and "p = on_line l t" and "p = on_line (tx, q) s" and "0 \<le> s" and "s \<le> 1"
  shows "position_distance tx p + position_distance rx p \<le> position_distance tx (on_line l k) + position_distance rx (on_line l k)"
proof -
  have mirror: "position_distance q (on_line l k) = position_distance rx (on_line l k)" for k
    using reflect_keeps_line [OF assms(1), of k] by (metis distance_squared position_distance_commute)
  have "position_distance tx p + position_distance rx p = position_distance tx q"
    using on_segment_distance [OF assms(4,5), of tx q] mirror [of t] assms(2,3) by simp
  also have "\<dots> \<le> position_distance tx (on_line l k) + position_distance (on_line l k) q" by (rule distance_triangle)
  finally show ?thesis using mirror [of k] by (simp add: position_distance_commute)
qed

definition good_reflection :: "RadioGeometry \<Rightarrow> NEnv \<Rightarrow> Point \<times> Point \<Rightarrow> Point \<Rightarrow> bool" where
  "good_reflection g env l p \<longleftrightarrow> (\<exists>t. 0 \<le> t \<and> t \<le> 1 \<and> p = on_line l t) \<and> \<not> isRayObstructed g p env
     \<and> side_of l (en_tx env) * side_of l (en_rx env) \<ge> 0
     \<and> (\<forall>k. position_distance (en_tx env) p + position_distance (en_rx env) p
          \<le> position_distance (en_tx env) (on_line l k) + position_distance (en_rx env) (on_line l k))"

lemma segment_reflection_good:
  assumes "intersection_law g" and "fst l \<noteq> snd l" and "p \<in> set (segment_reflection g env l)"
  shows "good_reflection g env l p"
proof -
  obtain q where q: "reflectPoint (en_rx env) l = Some q" using reflect_matrix [OF assms(2)] by metis
  have r: "\<not> squaredLength (en_tx env) (en_rx env) > squaredLength (en_tx env) q" "\<not> isRayObstructed g p env"
    "rg_intersection g l (en_tx env, Some q) = [p]"
    using assms(3) q by (auto simp: segment_reflection_def Let_def length_Suc_conv split: if_splits)
  then have "p \<in> set (rg_intersection g l (en_tx env, Some q))" by simp
  then obtain t s where ts: "0 \<le> t" "t \<le> 1" "0 \<le> s" "s \<le> 1" "p = on_line l t" "p = on_line (en_tx env, q) s"
    using assms(1) unfolding intersection_law_def by blast
  then have "\<exists>t. 0 \<le> t \<and> t \<le> 1 \<and> p = on_line l t" by blast
  then show ?thesis unfolding good_reflection_def
    using r reflect_skip [OF q, of "en_tx env"] reflection_minimal [OF q ts(5,6,3,4)] by (simp add: not_less)
qed

text \<open>C34: Every reflection ray from vehicles is reflected at an edge of a vehicle near the link whose outline contains neither antenna: the reflection point
  is on the edge, the ray is not obstructed by a building or a vehicle, both antennas are on the same side of the edge, and among all rays over
  the line of the edge it is the shortest, which is the law of reflection.  This is in exact arithmetic, for outlines whose edges are no
  points, with the library's intersections on both segments.\<close>

theorem vehicle_reflection_rays_sound:
  assumes "intersection_law g" and "\<forall>v \<in> set (en_vehicles env). \<forall>l \<in> set (edges (gv_worldOutline v)). fst l \<noteq> snd l"
    and "p \<in> set (computeReflectionRaysFromVehicles g env)"
  shows "\<exists>v \<in> set (en_vehicles env). \<not> rg_within g (en_tx env) (gv_worldOutline v) \<and> \<not> rg_within g (en_rx env) (gv_worldOutline v)
    \<and> (\<exists>l \<in> set (edges (gv_worldOutline v)). good_reflection g env l p)"
proof -
  from assms(3) obtain v l where v: "v \<in> set (en_vehicles env)" "l \<in> set (edges (gv_worldOutline v))" "p \<in> set (segment_reflection g env l)"
      "\<not> rg_within g (en_tx env) (gv_worldOutline v)" "\<not> rg_within g (en_rx env) (gv_worldOutline v)"
    by (auto simp: computeReflectionRaysFromVehicles_def split: if_splits)
  with segment_reflection_good [OF assms(1) _ v(3)] assms(2) show ?thesis by blast
qed

text \<open>No building reflects a ray: \<open>bg::intersects\<close> is true of geometries that touch, the reflection point is on the outline of the building
  itself, and so every such ray is obstructed by the building that reflects it.\<close>

definition touching_law :: "RadioGeometry \<Rightarrow> bool" where
  "touching_law g \<longleftrightarrow> (\<forall>ls outline l t. on_line l t \<in> set ls \<and> l \<in> set (edges outline) \<and> 0 \<le> t \<and> t \<le> 1 \<longrightarrow> rg_string_intersects g ls outline)"

theorem buildings_reflect_nothing:
  assumes "intersection_law g" and "touching_law g" and "\<forall>ob \<in> set (en_obstacles env). \<forall>l \<in> set (edges (go_outline ob)). fst l \<noteq> snd l"
  shows "computeReflectionRaysFromBuildings g env = []"
proof -
  have "segment_reflection g env l = []" if ob: "ob \<in> set (en_obstacles env)" "l \<in> set (edges (go_outline ob))" for ob l
  proof (rule ccontr)
    assume "segment_reflection g env l \<noteq> []"
    then obtain p where "p \<in> set (segment_reflection g env l)" by (cases "segment_reflection g env l") auto
    with segment_reflection_good [OF assms(1)] assms(3) ob have "good_reflection g env l p" by blast
    then obtain t where t: "0 \<le> t" "t \<le> 1" "p = on_line l t" and free: "\<not> isRayObstructed g p env" by (auto simp: good_reflection_def)
    have "rg_string_intersects g [en_tx env, p, en_rx env] (go_outline ob)" 
      using assms(2) [unfolded touching_law_def, rule_format, of l t "[en_tx env, p, en_rx env]" "go_outline ob"] t ob(2) by simp
    then show False using free ob(1) by (auto simp: isRayObstructed_def Let_def)
  qed
  then show ?thesis by (auto simp: computeReflectionRaysFromBuildings_def)
qed

section \<open>Attenuations\<close>

lemma angle_range: "0 \<le> computeAngleBetween n a b" "computeAngleBetween n a b \<le> pi"
proof -
  define ax ay bx b' where d: "ax = fst a - fst n" "ay = snd a - snd n" "bx = fst b - fst n" "b' = snd b - snd n"
  let ?dot = "ax * bx + ay * b'" and ?len = "sqrt (squared ax + squared ay) * sqrt (squared bx + squared b')"
  have "squared ?dot + squared (ax * b' - ay * bx) = (squared ax + squared ay) * (squared bx + squared b')" by (simp add: algebra_simps)
  then have "squared ?dot \<le> (squared ax + squared ay) * (squared bx + squared b')" by (metis le_add_same_cancel1 zero_le_square)
  then have "sqrt (squared ?dot) \<le> ?len" by (simp only: real_sqrt_le_mono flip: real_sqrt_mult)
  then have "\<bar>?dot\<bar> \<le> ?len" by simp
  then have "- 1 \<le> ?dot / ?len" "?dot / ?len \<le> 1" if "0 < ?len" using that by (simp_all add: divide_le_eq le_divide_eq abs_le_iff)
  note bounds = arccos_bounded [OF this]
  show "0 \<le> computeAngleBetween n a b" "computeAngleBetween n a b \<le> pi"
    unfolding computeAngleBetween_def Let_def d [symmetric] using bounds by (auto simp: pi_ge_zero)
qed

lemma coefficient_total:
  assumes "nb_polarization m = CHR ''v'' \<or> nb_polarization m = CHR ''h''" and "1 < permittivity" and "0 \<le> theta" and "theta \<le> pi"
  shows "\<exists>gamma. computeReflectionCoefficient m theta permittivity = Inr gamma \<and> \<bar>gamma\<bar> \<le> 1"
proof -
  let ?t = "sqrt (permittivity - squared (cos theta))"
  have "squared (cos theta) \<le> 1" using sin_cos_squared_add3 [of theta] by (smt (verit) zero_le_square)
  then have pos: "0 < permittivity - squared (cos theta)" using assms(2) by simp
  then have t: "0 < ?t" by simp
  have s: "0 \<le> sin theta" using assms(3,4) by (rule sin_ge_zero)
  have ratio: "\<bar>(x - y) / (x + y)\<bar> \<le> 1" if "0 \<le> x" "0 < y" for x y :: real
    using that by (simp add: abs_divide)
  have v: "\<bar>(sin theta - ?t) / (sin theta + ?t)\<bar> \<le> 1" using ratio [OF s t] .
  have ps: "0 \<le> permittivity * sin theta" using assms(2) s by simp
  have "(- permittivity * sin theta + ?t) / (permittivity * sin theta + ?t) = - ((permittivity * sin theta - ?t) / (permittivity * sin theta + ?t))"
    by (simp add: minus_divide_left)
  then have h: "\<bar>(- permittivity * sin theta + ?t) / (permittivity * sin theta + ?t)\<bar> \<le> 1" using ratio [OF ps t] by simp
  have den: "sin theta + ?t \<noteq> 0" "permittivity * sin theta + ?t \<noteq> 0" using s ps t by linarith+
  from assms(1) show ?thesis
  proof
    assume "nb_polarization m = CHR ''v''"
    with pos den v show ?thesis by (simp add: computeReflectionCoefficient_def Let_def)
  next
    assume "nb_polarization m = CHR ''h''"
    with pos den h show ?thesis by (simp add: computeReflectionCoefficient_def Let_def)
  qed
qed

text \<open>An attenuation at least that of free space over the distance on the ground.\<close>

definition link_length :: "NEnv \<Rightarrow> real" where
  "link_length env = position_distance (en_tx env) (en_rx env)"

definition weakening :: "NEnv \<Rightarrow> Attenuation \<Rightarrow> bool" where
  "weakening env att \<longleftrightarrow> 0 \<le> inverse_fraction att \<and> inverse_fraction att \<le> squared (en_lambda env / (4 * pi * link_length env))"

definition far_field :: "NEnv \<Rightarrow> bool" where
  "far_field env \<longleftrightarrow> 0 < en_lambda env \<and> en_lambda env < 4 * pi * link_length env"

lemma far_field_pos: "far_field env \<Longrightarrow> 0 < link_length env"
  by (smt (verit) far_field_def mult_nonneg_nonpos pi_gt_zero)

lemma far_field_less: "far_field env \<Longrightarrow> squared (en_lambda env / (4 * pi * link_length env)) < 1"
proof -
  assume env: "far_field env"
  then have "0 < 4 * pi * link_length env" using far_field_pos by simp
  then have "0 < en_lambda env / (4 * pi * link_length env)" "en_lambda env / (4 * pi * link_length env) < 1"
    using env by (auto simp: far_field_def)
  then show ?thesis by (metis less_eq_real_def mult_strict_mono zero_less_one mult_1)
qed

lemma freespace_longer:
  assumes "far_field env" and "link_length env \<le> d"
  shows "0 < computeFreeSpaceLoss d (en_lambda env)"
    and "computeFreeSpaceLoss d (en_lambda env) \<le> squared (en_lambda env / (4 * pi * link_length env))"
proof -
  have l: "0 < en_lambda env" "0 < link_length env" "0 < d" using assms far_field_pos [of env] by (auto simp: far_field_def)
  then show "0 < computeFreeSpaceLoss d (en_lambda env)" by (simp add: computeFreeSpaceLoss_def)
  have "en_lambda env / (4 * pi * d) \<le> en_lambda env / (4 * pi * link_length env)" using l assms(2) by (intro divide_left_mono) auto
  then have "squared (en_lambda env / (4 * pi * d)) \<le> squared (en_lambda env / (4 * pi * link_length env))" using l by (intro mult_mono) auto
  then show "computeFreeSpaceLoss d (en_lambda env) \<le> squared (en_lambda env / (4 * pi * link_length env))"
    using l by (simp add: computeFreeSpaceLoss_def)
qed

lemma detour: "link_length env \<le> sqrt (squared (position_distance (en_tx env) p + position_distance (en_rx env) p) + squared h)"
proof -
  have t: "link_length env \<le> position_distance (en_tx env) p + position_distance (en_rx env) p"
    using distance_triangle [of "en_tx env" "en_rx env" p] by (simp add: link_length_def position_distance_commute)
  moreover have "0 \<le> link_length env" by (simp add: link_length_def position_distance_def)
  ultimately show ?thesis by (intro real_le_rsqrt) (simp add: power2_eq_square add_increasing2 mult_mono)
qed

lemma Attenuation_weakening:
  assumes "far_field env" and "0 \<le> loss" and "loss \<le> squared (en_lambda env / (4 * pi * link_length env))"
  shows "\<exists>att. Attenuation_new d (if loss = 0 then None else Some (1 / loss)) = Inr att \<and> weakening env att"
proof (cases "loss = 0")
  case False
  moreover have "loss < 1" using far_field_less [OF assms(1)] assms(3) by simp
  ultimately show ?thesis using assms(2,3) by (auto simp: Attenuation_new_def weakening_def inverse_fraction_def)
qed (auto simp: Attenuation_new_def weakening_def inverse_fraction_def)

lemma point_attenuation_total:
  assumes "far_field env" and "nb_polarization m = CHR ''v'' \<or> nb_polarization m = CHR ''h''" and "1 < permittivity"
  shows "\<exists>att. point_attenuation m permittivity env p = Inr att \<and> weakening env att"
proof -
  let ?theta = "(pi - computeAngleBetween p (en_tx env) (en_rx env)) / 2"
  have range: "0 \<le> ?theta" "?theta \<le> pi" using angle_range [of p "en_tx env" "en_rx env"] by simp_all
  obtain gamma where gamma: "computeReflectionCoefficient m ?theta permittivity = Inr gamma" "\<bar>gamma\<bar> \<le> 1"
    using coefficient_total [OF assms(2,3) range] by blast
  let ?d = "sqrt (squared (position_distance (en_tx env) p + position_distance (en_rx env) p) + squared (en_txHeight env - en_rxHeight env))"
  let ?loss = "squared gamma * computeFreeSpaceLoss ?d (en_lambda env)"
  note free = freespace_longer [OF assms(1) detour [of env p "en_txHeight env - en_rxHeight env"]]
  have "squared gamma \<le> 1" using gamma(2) by (metis abs_ge_zero abs_mult_self_eq mult_le_one)
  then have "?loss \<le> computeFreeSpaceLoss ?d (en_lambda env)" using free(1) by (simp add: mult_left_le_one_le)
  then have "?loss \<le> squared (en_lambda env / (4 * pi * link_length env))" using free(2) by simp
  moreover have "0 \<le> ?loss" using free(1) by simp
  ultimately have "\<exists>att. Attenuation_new ?d (if ?loss = 0 then None else Some (1 / ?loss)) = Inr att \<and> weakening env att"
    by (intro Attenuation_weakening [OF assms(1)])
  then show ?thesis unfolding point_attenuation_def Let_def gamma(1) rbind.simps .
qed

lemma collect_total:
  assumes "\<And>x. x \<in> set xs \<Longrightarrow> \<exists>a. f x = Inr a \<and> P a"
  shows "\<exists>as. rfold (\<lambda>x acc. rmap (\<lambda>a. acc @ [a]) (f x)) xs acc = Inr (acc @ as) \<and> length as = length xs \<and> list_all P as"
  using assms
proof (induction xs arbitrary: acc)
  case (Cons x xs)
  then obtain a where a: "f x = Inr a" "P a" by auto
  from Cons.IH [OF Cons.prems, of "acc @ [a]"] obtain as where
    "rfold (\<lambda>x acc. rmap (\<lambda>a. acc @ [a]) (f x)) xs (acc @ [a]) = Inr ((acc @ [a]) @ as)" "length as = length xs" "list_all P as" by auto
  with a show ?case by (intro exI [of _ "a # as"]) simp
qed simp

lemma collect_some_total:
  assumes "\<And>x. x \<in> set xs \<Longrightarrow> \<exists>a. f x = Inr a \<and> (\<forall>y. a = Some y \<longrightarrow> P y)"
  shows "\<exists>as. rfold (\<lambda>x acc. rmap (\<lambda>a. case a of None \<Rightarrow> acc | Some y \<Rightarrow> acc @ [y]) (f x)) xs acc = Inr (acc @ as)
    \<and> length as \<le> length xs \<and> list_all P as"
  using assms
proof (induction xs arbitrary: acc)
  case (Cons x xs)
  from Cons.prems [of x] obtain a where a: "f x = Inr a" "\<forall>y. a = Some y \<longrightarrow> P y" by auto
  let ?acc = "case a of None \<Rightarrow> acc | Some y \<Rightarrow> acc @ [y]"
  from Cons.IH [OF Cons.prems, of ?acc] obtain as where as: "rfold (\<lambda>x acc. rmap (\<lambda>a. case a of None \<Rightarrow> acc | Some y \<Rightarrow> acc @ [y]) (f x)) xs ?acc = Inr (?acc @ as)"
    "length as \<le> length xs" "list_all P as" by auto
  show ?case
  proof (cases a)
    case None
    with a as show ?thesis by (intro exI [of _ as]) simp
  next
    case (Some y)
    with a as show ?thesis by (intro exI [of _ "y # as"]) simp
  qed
qed simp

lemma reflection_attenuation_total:
  assumes "far_field env" and "nb_polarization m = CHR ''v'' \<or> nb_polarization m = CHR ''h''" and "1 < permittivity"
  shows "\<exists>atts. computeReflectionAttenuation m points permittivity env = Inr atts \<and> length atts = length points \<and> list_all (weakening env) atts"
  unfolding computeReflectionAttenuation_def
  using collect_total [of points "point_attenuation m permittivity env" "weakening env" "[]"] point_attenuation_total [OF assms] by simp

lemma knife_edge_fraction:
  "NLOSb_computeSimpleKnifeEdge h d e lambda = Some f \<Longrightarrow> 1 \<le> f"
  by (auto simp: NLOSb_computeSimpleKnifeEdge_def Let_def dB2fraction_def knife_edge_nonneg ge_one_powr_ge_zero split: if_splits)

lemma corner_attenuation_total:
  assumes "far_field env"
  shows "\<exists>a. corner_attenuation env limit corner = Inr a \<and> (\<forall>y. a = Some y \<longrightarrow> weakening env y)"
proof -
  define vx vy where v: "vx = fst (en_rx env) - fst (en_tx env)" "vy = snd (en_rx env) - snd (en_tx env)"
  have len: "sqrt (squared vx + squared vy) = link_length env"
    by (simp add: v link_length_def position_distance_def power2_eq_square algebra_simps)
  have nz: "squared vx + squared vy \<noteq> 0" using far_field_pos [OF assms] len by force
  let ?free = "computeFreeSpaceLoss (link_length env) (en_lambda env)"
  note free = freespace_longer [OF assms order_refl]
  have att: "\<exists>att. Attenuation_new d (map_option (\<lambda>f. f / ?free) k) = Inr att \<and> weakening env att" if k: "\<And>f. k = Some f \<Longrightarrow> 1 \<le> f" for k d
  proof (cases k)
    case None
    then show ?thesis using Attenuation_weakening [OF assms, of 0 d] by simp
  next
    case (Some f)
    have f: "1 \<le> f" using k [OF Some] .
    then have "?free / f \<le> ?free" using free(1) by (simp add: divide_le_eq mult_le_cancel_left1)
    then have "?free / f \<le> squared (en_lambda env / (4 * pi * link_length env))" using free(2) by simp
    with f free(1) show ?thesis using Attenuation_weakening [OF assms, of "?free / f" d] by (simp add: Some)
  qed
  have some: "\<exists>a. rmap Some (Attenuation_new d (map_option (\<lambda>f. f / ?free) (NLOSb_computeSimpleKnifeEdge h e l w))) = Inr a
      \<and> (\<forall>y. a = Some y \<longrightarrow> weakening env y)" for d h e l w
    using att [of "NLOSb_computeSimpleKnifeEdge h e l w" d, OF knife_edge_fraction] by force
  show ?thesis unfolding corner_attenuation_def Let_def v [symmetric] len
    using nz some by (simp del: sum_squares_eq_zero_iff)
qed


lemma diffraction_attenuation_total:
  assumes "far_field env"
  shows "\<exists>atts. computeDiffractionAttenuation corners limit env = Inr atts \<and> length atts \<le> length corners \<and> list_all (weakening env) atts"
  unfolding computeDiffractionAttenuation_def
  using collect_some_total [of corners "corner_attenuation env limit" "weakening env" "[]"] corner_attenuation_total [OF assms] by simp

section \<open>The superposition\<close>

lemma interference_bound:
  assumes "list_all (weakening env) atts" and "0 \<le> en_lambda env / (4 * pi * link_length env)"
  shows "\<bar>sum_list (map (\<lambda>att. sqrt (inverse_fraction att) * cos (phase att)) atts)\<bar> \<le> real (length atts) * (en_lambda env / (4 * pi * link_length env))"
  using assms(1)
proof (induction atts)
  case (Cons a atts)
  let ?s = "en_lambda env / (4 * pi * link_length env)"
  have a: "0 \<le> inverse_fraction a" "inverse_fraction a \<le> squared ?s" using Cons.prems by (auto simp: weakening_def)
  have "sqrt (inverse_fraction a) \<le> sqrt (squared ?s)" using a(2) by (rule real_sqrt_le_mono)
  then have r: "sqrt (inverse_fraction a) \<le> ?s" using assms(2) by (simp only: real_sqrt_abs2 abs_of_nonneg)
  have "\<bar>sqrt (inverse_fraction a) * cos (phase a)\<bar> \<le> sqrt (inverse_fraction a) * 1"
    unfolding abs_mult using a(1) by (intro mult_mono) auto
  with r have "\<bar>sqrt (inverse_fraction a) * cos (phase a)\<bar> \<le> ?s" by simp
  moreover have "real (length (a # atts)) * ?s = ?s + real (length atts) * ?s" by (simp add: distrib_right add_divide_distrib)
  moreover have "\<bar>sum_list (map (\<lambda>att. sqrt (inverse_fraction att) * cos (phase att)) atts)\<bar> \<le> real (length atts) * ?s"
    using Cons by simp
  ultimately show ?case unfolding list.map sum_list.Cons by linarith
qed simp

text \<open>Rays that are weak enough for their number superpose to a loss the assertion accepts.\<close>

lemma combine_total:
  assumes "far_field env" and "list_all (weakening env) atts" and "real n * en_lambda env \<le> 4 * pi * link_length env" and "length atts \<le> n"
  shows "\<exists>loss. combineAttenuations atts lambda = Inr loss \<and> 0 \<le> loss \<and> loss \<le> squared (real n * (en_lambda env / (4 * pi * link_length env)))"
proof -
  let ?s = "en_lambda env / (4 * pi * link_length env)"
  have pos: "0 < 4 * pi * link_length env" "0 < en_lambda env" using far_field_pos [OF assms(1)] assms(1) by (auto simp: far_field_def)
  then have s: "0 \<le> ?s" by simp
  have "real n * ?s = real n * en_lambda env / (4 * pi * link_length env)" by simp
  also have "\<dots> \<le> 1" using assms(3) pos(1) by (simp only: divide_le_eq_1_pos)
  finally have ns: "real n * ?s \<le> 1" "0 \<le> real n * ?s" using mult_nonneg_nonneg [OF of_nat_0_le_iff s, of n] by simp_all
  have accept: "loss \<le> 1" if "loss \<le> squared (real n * ?s)" for loss using that mult_le_one [OF ns(1) ns(2) ns(1)] by linarith
  consider "length atts > 1" | a where "atts = [a]" | "atts = []" by (metis One_nat_def length_0_conv length_Suc_conv linorder_neqE_nat less_one)
  then show ?thesis
  proof cases
    case 1
    define phase where "phase att = 2 * pi * (at_length (min_attenuation (hd atts) (tl atts)) - at_length att) / lambda" for att :: Attenuation
    let ?sum = "sum_list (map (\<lambda>att. sqrt (inverse_fraction att) * cos (phase att)) atts)"
    have "\<bar>?sum\<bar> \<le> real (length atts) * ?s" by (rule interference_bound [OF assms(2) s])
    also have "\<dots> \<le> real n * ?s" using assms(4) s by (intro mult_right_mono) auto
    finally have "squared \<bar>?sum\<bar> \<le> squared (real n * ?s)" by (intro mult_mono) (use ns in auto)
    then have le: "squared ?sum \<le> squared (real n * ?s)" by (simp only: abs_mult_self_eq)
    have "combineAttenuations atts lambda = (if squared ?sum \<ge> 0 \<and> squared ?sum \<le> 1 then Inr (squared ?sum) else Inl AssertionFailed)"
      using 1 by (simp only: combineAttenuations_def Let_def phase_def if_True)
    then show ?thesis using le accept [OF le] by (intro exI [of _ "squared ?sum"]) (simp only: zero_le_square simp_thms if_True)
  next
    case 2
    have a: "0 \<le> inverse_fraction a" "inverse_fraction a \<le> squared ?s" using assms(2) 2 by (simp_all add: weakening_def)
    have "1 \<le> real n" using assms(4) 2 by simp
    then have "?s \<le> real n * ?s" using s by (metis mult_1 mult_right_mono)
    then have "squared ?s \<le> squared (real n * ?s)" using s by (intro mult_mono) auto
    then have le: "inverse_fraction a \<le> squared (real n * ?s)" using a(2) by linarith
    then show ?thesis using 2 a(1) le accept [OF le] by (simp only: combineAttenuations_def Let_def) auto
  next
    case 3
    then show ?thesis by (simp add: combineAttenuations_def)
  qed
qed


text \<open>The path loss of a link over buildings: with surfaces denser than air and a link long against the wave length, for the number of rays
  found, no assertion fails.  The result is at least the log-distance loss, and the rays add at most what as many unattenuated rays over the
  ground distance would.\<close>

theorem NLOSb_loss_range:
  assumes "Environment_new g oi vi m tx rx waveLength = Inr env" and "computeDiffractionRays g oi vi env = Inr corners"
    and "nb_polarization m = CHR ''v'' \<or> nb_polarization m = CHR ''h''" and "1 < nb_obsReflRelPerm m" and "1 < nb_vehReflRelPerm m"
    and "0 < waveLength" and "waveLength < 4 * pi * ground_distance tx rx"
    and "n = length (computeReflectionRaysFromBuildings g env) + length (computeReflectionRaysFromVehicles g env) + length corners"
    and "real n * waveLength \<le> 4 * pi * ground_distance tx rx"
  shows "\<exists>loss. NLOSb_computePathLoss g oi vi m tx rx waveLength = Inr loss
    \<and> computeLogDistanceLoss m (coord_distance tx rx) waveLength \<le> loss
    \<and> loss \<le> max (squared (real n * (waveLength / (4 * pi * ground_distance tx rx)))) (computeLogDistanceLoss m (coord_distance tx rx) waveLength)"
proof -
  have env: "en_lambda env = waveLength" "link_length env = ground_distance tx rx"
    using assms(1) by (auto simp: Environment_new_def Let_def rbind_ok_iff link_length_def ground_distance_def position_distance_def power2_eq_square algebra_simps)
  have far: "far_field env" using assms(6,7) env by (simp add: far_field_def)
  obtain bs where bs: "computeReflectionAttenuation m (computeReflectionRaysFromBuildings g env) (nb_obsReflRelPerm m) env = Inr bs"
      "length bs = length (computeReflectionRaysFromBuildings g env)" "list_all (weakening env) bs"
    using reflection_attenuation_total [OF far assms(3,4)] by blast
  obtain vs where vs: "computeReflectionAttenuation m (computeReflectionRaysFromVehicles g env) (nb_vehReflRelPerm m) env = Inr vs"
      "length vs = length (computeReflectionRaysFromVehicles g env)" "list_all (weakening env) vs"
    using reflection_attenuation_total [OF far assms(3,5)] by blast
  obtain ds where ds: "computeDiffractionAttenuation corners (shorter vs (shorter bs (nb_maxRange m))) env = Inr ds"
      "length ds \<le> length corners" "list_all (weakening env) ds"
    using diffraction_attenuation_total [OF far] by blast
  have "length (ds @ bs @ vs) \<le> n" "list_all (weakening env) (ds @ bs @ vs)" using bs(2,3) vs(2,3) ds(2,3) assms(8) by simp_all
  from combine_total [OF far this(2) _ this(1), of waveLength] assms(9) obtain loss where loss: "combineAttenuations (ds @ bs @ vs) waveLength = Inr loss"
      "loss \<le> squared (real n * (waveLength / (4 * pi * ground_distance tx rx)))" unfolding env by blast
  have "NLOSb_computePathLoss g oi vi m tx rx waveLength = Inr (max loss (computeLogDistanceLoss m (coord_distance tx rx) waveLength))"
    using assms(1,2) bs(1) vs(1) ds(1) loss(1) by (simp add: NLOSb_computePathLoss_def Let_def env(1))
  with loss(2) show ?thesis by (intro exI conjI) (auto intro: max.mono)
qed

section \<open>Examples\<close>

text \<open>The side of a van along the x axis reflects between two antennas above it; a ray that only touches an outline does not cut it.\<close>

definition mirror_plane :: RadioGeometry where
  "mirror_plane = radio_plane\<lparr>rg_cutting := \<lambda>l ps. False,
     rg_intersection := \<lambda>l r. if l = ((0, 0), (4, 0)) \<and> r = ((1, 1), Some (3, - 1)) then [(2, 0)] else []\<rparr>"

lemma mirror_plane_law: "intersection_law mirror_plane"
proof -
  have "\<exists>t s. 0 \<le> t \<and> t \<le> 1 \<and> 0 \<le> s \<and> s \<le> 1 \<and> (2, 0) = on_line ((0, 0), (4, 0)) t \<and> (2, 0) = on_line ((1, 1), (3, - 1)) s"
    by (intro exI [of _ "1/2"]) (simp add: on_line_def)
  then show ?thesis by (auto simp: intersection_law_def mirror_plane_def)
qed

definition mirror_van :: GVehicle where
  "mirror_van = (parked (0, 0))\<lparr>gv_worldOutline := [(0, 0), (4, 0), (4, - 2), (0, - 2)]\<rparr>"

definition mirror_env :: NEnv where
  "mirror_env = \<lparr>en_tx = (1, 1), en_rx = (3, 1), en_txHeight = 1, en_rxHeight = 1, en_obstacles = [], en_vehicles = [mirror_van], en_lambda = 1/20\<rparr>"

theorem vehicle_reflection_rays_sound_witness:
  "computeReflectionRaysFromVehicles mirror_plane mirror_env = [(2, 0)]
   \<and> (\<exists>l \<in> set (edges (gv_worldOutline mirror_van)). good_reflection mirror_plane mirror_env l (2, 0))"
proof -
  have ray: "computeReflectionRaysFromVehicles mirror_plane mirror_env = [(2, 0)]"
    by (simp add: computeReflectionRaysFromVehicles_def mirror_env_def mirror_van_def edges_def segment_reflection_def reflectPoint_def Let_def squaredLength_def
        mirror_plane_def isRayObstructed_def radio_plane_def)
  moreover have "\<forall>v \<in> set (en_vehicles mirror_env). \<forall>l \<in> set (edges (gv_worldOutline v)). fst l \<noteq> snd l" by (simp add: mirror_env_def mirror_van_def edges_def)
  from vehicle_reflection_rays_sound [OF mirror_plane_law this, of "(2, 0)"] ray
  have "\<exists>v \<in> set (en_vehicles mirror_env). \<exists>l \<in> set (edges (gv_worldOutline v)). good_reflection mirror_plane mirror_env l (2, 0)" by auto
  ultimately show ?thesis by (simp add: mirror_env_def)
qed

theorem NLOSb_loss_range_witness:
  "\<exists>loss m. NLOSb_initialize 100 (29/10) 6 (9/2) ''vertical'' = Inr m
     \<and> NLOSb_computePathLoss radio_plane no_obstacles \<lparr>vi_vehicles = [], vi_rtree = [], vi_rtreeTainted = False, vi_margin = 0\<rparr> m (0, 0, 1) (10, 0, 1) (1/20) = Inr loss
     \<and> computeLogDistanceLoss m 10 (1/20) \<le> loss"
proof -
  let ?vi = "\<lparr>vi_vehicles = [], vi_rtree = [], vi_rtreeTainted = False, vi_margin = 0\<rparr> :: VehicleIndex"
  let ?m = "\<lparr>nb_maxRange = 100, nb_pathLossExponent = 29/10, nb_vehReflRelPerm = 6, nb_obsReflRelPerm = 9/2, nb_polarization = CHR ''v''\<rparr>"
  let ?env = "\<lparr>en_tx = (0, 0), en_rx = (10, 0), en_txHeight = 1, en_rxHeight = 1, en_obstacles = [], en_vehicles = [], en_lambda = 1/20\<rparr>"
  have g: "ground_distance (0, 0, 1) (10, 0, 1) = 10" by (simp add: ground_distance_def)
  have c: "coord_distance (0, 0, 1) (10, 0, 1) = 10" by (simp add: coord_distance_def)
  have e: "Environment_new radio_plane no_obstacles ?vi ?m (0, 0, 1) (10, 0, 1) (1/20) = Inr ?env"
    by (simp add: Environment_new_def obstaclesEllipse_def vehiclesEllipse_def no_obstacles_def radio_plane_def Let_def)
  have r: "computeDiffractionRays radio_plane no_obstacles ?vi ?env = Inr []"
    by (simp add: computeDiffractionRays_def getObstructingObstacles_def no_obstacles_def radio_plane_def)
  have p: "(1/20 :: real) < 4 * pi * 10" using pi_ge_two by linarith
  have n: "0 = length (computeReflectionRaysFromBuildings radio_plane ?env) + length (computeReflectionRaysFromVehicles radio_plane ?env) + length ([] :: Point list)"
    by (simp add: computeReflectionRaysFromBuildings_def computeReflectionRaysFromVehicles_def)
  have "\<exists>loss. NLOSb_computePathLoss radio_plane no_obstacles ?vi ?m (0, 0, 1) (10, 0, 1) (1/20) = Inr loss
      \<and> computeLogDistanceLoss ?m (coord_distance (0, 0, 1) (10, 0, 1)) (1/20) \<le> loss"
    using NLOSb_loss_range [OF e r _ _ _ _ _ n] p unfolding g by simp blast
  then show ?thesis unfolding c by (auto simp: NLOSb_initialize_def)
qed


end
