(* ===== verification/Gemv2PathLoss.thy ===== *)
theory Gemv2PathLoss
  imports Gemv2Buildings
begin

text \<open>
  The rest of \<open>artery/inet/gemv2\<close>: the loss through foliage (\<open>NLOSf\<close>, on top of INET's \<open>FreeSpacePathLoss\<close>), the small scale
  variation (\<open>SmallScaleVariation\<close>), and \<open>PathLoss\<close>, which classifies a link and asks the model of its class.  Random
  numbers are the argument \<open>normal\<close>, from mean and deviation to the number drawn.
\<close>

section \<open>Foliage\<close>

record OrderedLineString =
  ol_line :: "Point list"
  ol_indexStart :: real
  ol_indexStop :: real

definition OrderedLineString_new :: "Point list \<Rightarrow> real \<Rightarrow> real \<Rightarrow> OrderedLineString result" where
  "OrderedLineString_new line idxStart idxStop =
     (if idxStart \<le> idxStop then Inr \<lparr>ol_line = line, ol_indexStart = idxStart, ol_indexStop = idxStop\<rparr> else Inl AssertionFailed)"

definition calculateIndex :: "Point \<Rightarrow> Point \<Rightarrow> real" where
  "calculateIndex ref pos = squared (fst pos - fst ref) + squared (snd pos - snd ref)"

text \<open>The index entries of the lines with two points; the others are erased.  A line that leads towards the reference point is
  reversed.\<close>

definition order_line :: "Point \<Rightarrow> Point list \<Rightarrow> OrderedLineString list \<Rightarrow> OrderedLineString list result" where
  "order_line ref line ordered =
     (if length line \<noteq> 2 then Inr ordered
      else (let index1 = calculateIndex ref (line ! 0); index2 = calculateIndex ref (line ! 1)
            in rmap (\<lambda>entry. ordered @ [entry])
                 (if index1 < index2 then OrderedLineString_new line index1 index2 else OrderedLineString_new (rev line) index2 index1)))"

definition interval_length :: "OrderedLineString \<Rightarrow> real" where
  "interval_length ol = sqrt (ol_indexStop ol) - sqrt (ol_indexStart ol)"

text \<open>The loop that merges overlapping intervals, with the lines it leaves.\<close>

fun merge_loop :: "OrderedLineString \<Rightarrow> OrderedLineString list \<Rightarrow> real \<Rightarrow> real \<times> Point list list" where
  "merge_loop current [] acc = (acc + interval_length current, [ol_line current])"
| "merge_loop current (it # its) acc =
     (if ol_indexStop current < ol_indexStart it then apsnd ((#) (ol_line current)) (merge_loop it its (acc + interval_length current))
      else if ol_indexStop current < ol_indexStop it then
        merge_loop (current\<lparr>ol_line := butlast (ol_line current) @ [last (ol_line it)], ol_indexStop := ol_indexStop it\<rparr>) its acc
      else merge_loop current its acc)"

text \<open>Without an entry the code dereferences the end of the list.\<close>

definition mergeIntervals :: "RadioGeometry \<Rightarrow> Point list list \<Rightarrow> Point \<Rightarrow> (real \<times> Point list list) result" where
  "mergeIntervals g lines ref =
     (if lines = [] then Inr (0, [])
      else if length lines = 1 then Inr (rg_length g (hd lines), lines)
      else rbind (rfold (order_line ref) lines []) (\<lambda>ordered.
        case sort_key ol_indexStart ordered of
          [] \<Rightarrow> Inl dangling
        | current # its \<Rightarrow> Inr (merge_loop current its 0)))"

definition computeDistanceThroughFoliage :: "RadioGeometry \<Rightarrow> ObstacleIndex \<Rightarrow> Coord \<Rightarrow> Coord \<Rightarrow> real result" where
  "computeDistanceThroughFoliage g mFoliageIndex tx rx =
     (let start = (fst tx, fst (snd tx)); stop = (fst rx, fst (snd rx))
      in rbind (getObstructingObstacles g start stop mFoliageIndex) (\<lambda>plants.
         rmap fst (mergeIntervals g (concat (map (\<lambda>plant. rg_clip g (start, stop) (go_outline plant)) plants)) start)))"

record FreeSpacePathLoss =
  fs_alpha :: real
  fs_systemLoss :: real

definition computeFreeSpacePathLoss :: "real \<Rightarrow> real \<Rightarrow> real \<Rightarrow> real \<Rightarrow> real" where
  "computeFreeSpacePathLoss waveLength distance alpha systemLoss =
     (if distance = 0 then 1 else waveLength * waveLength / (16 * pi * pi * systemLoss * distance powr alpha))"

definition FreeSpacePathLoss_computePathLoss :: "FreeSpacePathLoss \<Rightarrow> real \<Rightarrow> real \<Rightarrow> real \<Rightarrow> real" where
  "FreeSpacePathLoss_computePathLoss fs propagationSpeed frequency distance =
     computeFreeSpacePathLoss (propagationSpeed / frequency) distance (fs_alpha fs) (fs_systemLoss fs)"

definition FreeSpacePathLoss_computeRange :: "FreeSpacePathLoss \<Rightarrow> real \<Rightarrow> real \<Rightarrow> real \<Rightarrow> real" where
  "FreeSpacePathLoss_computeRange fs propagationSpeed frequency loss =
     (let waveLength = propagationSpeed / frequency
      in (waveLength * waveLength / (16 * pi * pi * fs_systemLoss fs * loss)) powr (1 / fs_alpha fs))"

text \<open>The frequency is in hertz, the attenuation per metre takes it in gigahertz.\<close>

definition NLOSf_computePathLoss :: "RadioGeometry \<Rightarrow> ObstacleIndex \<Rightarrow> FreeSpacePathLoss \<Rightarrow> real \<Rightarrow> real \<Rightarrow> Coord \<Rightarrow> Coord \<Rightarrow> real result" where
  "NLOSf_computePathLoss g mFoliageIndex fs propagationSpeed carrierFrequency tx rx =
     (let waveLength = propagationSpeed / carrierFrequency;
          attenuationPerMeter_dB = 79/100 * (carrierFrequency / 1000000000) powr (61/100)
      in rmap (\<lambda>foliageDist.
           computeFreeSpacePathLoss waveLength (coord_distance tx rx) (fs_alpha fs) (fs_systemLoss fs)
             / dB2fraction (attenuationPerMeter_dB * foliageDist)) (computeDistanceThroughFoliage g mFoliageIndex tx rx))"

section \<open>Small scale variation\<close>

text \<open>The densities observed start with minus infinity, which is \<open>None\<close>.\<close>

record SmallScaleVariation =
  ss_MaxVehicleDensity :: real
  ss_MaxObstacleDensity :: real
  ss_MaxObservedVehicleDensity :: "real option"
  ss_MaxObservedObstacleDensity :: "real option"
  ss_MinStdDevLOS :: real
  ss_MinStdDevNLOSv :: real
  ss_MinStdDevNLOSb :: real
  ss_MaxStdDevLOS :: real
  ss_MaxStdDevNLOSv :: real
  ss_MaxStdDevNLOSb :: real

definition SmallScaleVariation_initialize ::
    "real \<times> real \<Rightarrow> real \<times> real \<Rightarrow> real \<times> real \<Rightarrow> real \<Rightarrow> real \<Rightarrow> SmallScaleVariation" where
  "SmallScaleVariation_initialize los nlosv nlosb maxVehicleDensity maxObstacleDensity =
     \<lparr>ss_MaxVehicleDensity = maxVehicleDensity, ss_MaxObstacleDensity = maxObstacleDensity,
      ss_MaxObservedVehicleDensity = None, ss_MaxObservedObstacleDensity = None,
      ss_MinStdDevLOS = fst los, ss_MinStdDevNLOSv = fst nlosv, ss_MinStdDevNLOSb = fst nlosb,
      ss_MaxStdDevLOS = snd los, ss_MaxStdDevNLOSv = snd nlosv, ss_MaxStdDevNLOSb = snd nlosb\<rparr>"

definition observe :: "real \<Rightarrow> real option \<Rightarrow> real option" where
  "observe density seen = (case seen of None \<Rightarrow> Some density | Some m \<Rightarrow> if density > m then Some density else Some m)"

text \<open>\<open>std::min(1.0, sqrt(density / maximum))\<close>: a quotient by zero is infinite or not a number, the root of a negative number is not a number,
  and of one and such a value \<open>std::min\<close> answers one.\<close>

definition density_coefficient :: "real \<Rightarrow> real \<Rightarrow> real" where
  "density_coefficient density maximum = (if maximum = 0 \<or> density / maximum < 0 then 1 else min 1 (sqrt (density / maximum)))"

definition deviation_range :: "SmallScaleVariation \<Rightarrow> LinkClass \<Rightarrow> real \<times> real" where
  "deviation_range ss link =
     (case link of
        LOS \<Rightarrow> (ss_MinStdDevLOS ss, ss_MaxStdDevLOS ss)
      | NLOSv \<Rightarrow> (ss_MinStdDevNLOSv ss, ss_MaxStdDevNLOSv ss)
      | NLOSb \<Rightarrow> (ss_MinStdDevNLOSb ss, ss_MaxStdDevNLOSb ss)
      | NLOSf \<Rightarrow> (0, 0))"

definition variation_deviation :: "SmallScaleVariation \<Rightarrow> real \<Rightarrow> real \<Rightarrow> real \<Rightarrow> real \<Rightarrow> real" where
  "variation_deviation ss relVehDensity relObsDensity minDev maxDev =
     minDev + 1/2 * (maxDev - minDev) * (density_coefficient relVehDensity (ss_MaxVehicleDensity ss)
       + density_coefficient relObsDensity (ss_MaxObstacleDensity ss))"

text \<open>For positive ranges.\<close>

definition computeVariation ::
    "RadioGeometry \<Rightarrow> ObstacleIndex \<Rightarrow> VehicleIndex \<Rightarrow> (real \<Rightarrow> real \<Rightarrow> real) \<Rightarrow> Point \<Rightarrow> Point \<Rightarrow> real \<Rightarrow> LinkClass
     \<Rightarrow> SmallScaleVariation \<Rightarrow> (real \<times> SmallScaleVariation) result" where
  "computeVariation g oi vi normal a b reach link ss =
     (let (minDev, maxDev) = deviation_range ss link
      in rbind (obstaclesEllipse g a b reach oi) (\<lambda>obstacles.
         rbind (vehiclesEllipse g a b reach vi) (\<lambda>vehicles.
           let relVehDensity = real (length vehicles) / squared reach;
               ss1 = ss\<lparr>ss_MaxObservedVehicleDensity := observe relVehDensity (ss_MaxObservedVehicleDensity ss)\<rparr>;
               relObsDensity = sum_list (map go_area obstacles) / squared reach;
               ss2 = ss1\<lparr>ss_MaxObservedObstacleDensity := observe relObsDensity (ss_MaxObservedObstacleDensity ss1)\<rparr>
           in Inr (dB2fraction (normal 0 (variation_deviation ss2 relVehDensity relObsDensity minDev maxDev)), ss2))))"

section \<open>The path loss\<close>

text \<open>The module's submodules and ranges; \<open>classifier\<close> and \<open>small_scale\<close> are the state of two of them.\<close>

record PathLossModule =
  m_los :: "Coord \<Rightarrow> Coord \<Rightarrow> real result"
  m_nlos_b :: "Coord \<Rightarrow> Coord \<Rightarrow> real result"
  m_nlos_f :: "Coord \<Rightarrow> Coord \<Rightarrow> real result"
  m_nlos_v :: "Coord \<Rightarrow> Coord \<Rightarrow> real result"
  m_classifier :: LinkClassifier
  m_small_scale :: "SmallScaleVariation option"
  m_range_los :: real
  m_range_nlos_b :: real
  m_range_nlos_f :: real
  m_range_nlos_v :: real

text \<open>The submodules as the network description chooses them, with the ranges of the four classes.\<close>

definition PathLoss_initialize ::
    "(Coord \<Rightarrow> Coord \<Rightarrow> real result) \<times> real \<Rightarrow> (Coord \<Rightarrow> Coord \<Rightarrow> real result) \<times> real \<Rightarrow> (Coord \<Rightarrow> Coord \<Rightarrow> real result) \<times> real
     \<Rightarrow> (Coord \<Rightarrow> Coord \<Rightarrow> real result) \<times> real \<Rightarrow> LinkClassifier \<Rightarrow> SmallScaleVariation option \<Rightarrow> PathLossModule" where
  "PathLoss_initialize los nlosb nlosf nlosv classifier smallScale =
     \<lparr>m_los = fst los, m_nlos_b = fst nlosb, m_nlos_f = fst nlosf, m_nlos_v = fst nlosv, m_classifier = classifier, m_small_scale = smallScale,
      m_range_los = snd los, m_range_nlos_b = snd nlosb, m_range_nlos_f = snd nlosf, m_range_nlos_v = snd nlosv\<rparr>"

definition class_model :: "PathLossModule \<Rightarrow> LinkClass \<Rightarrow> (Coord \<Rightarrow> Coord \<Rightarrow> real result) \<times> real" where
  "class_model m link =
     (case link of
        LOS \<Rightarrow> (m_los m, m_range_los m)
      | NLOSb \<Rightarrow> (m_nlos_b m, m_range_nlos_b m)
      | NLOSf \<Rightarrow> (m_nlos_f m, m_range_nlos_f m)
      | NLOSv \<Rightarrow> (m_nlos_v m, m_range_nlos_v m))"

definition PathLoss_computePathLoss ::
    "RadioGeometry \<Rightarrow> ObstacleIndex \<Rightarrow> ObstacleIndex \<Rightarrow> VehicleIndex \<Rightarrow> (real \<Rightarrow> real \<Rightarrow> real) \<Rightarrow> Coord \<Rightarrow> Coord \<Rightarrow> PathLossModule
     \<Rightarrow> (real \<times> PathLossModule) result" where
  "PathLoss_computePathLoss g oi fi vi normal tx rx m =
     (let a = (fst tx, fst (snd tx)); b = (fst rx, fst (snd rx))
      in rbind (classifyLink g oi fi vi a b (m_classifier m)) (\<lambda>(link, classifier).
         let m = m\<lparr>m_classifier := classifier\<rparr>; (model, reach) = class_model m link
         in if coord_distance tx rx > reach then Inr (0, m)
            else rbind (model tx rx) (\<lambda>loss.
              case m_small_scale m of
                None \<Rightarrow> Inr (loss, m)
              | Some ss \<Rightarrow> rmap (\<lambda>(variation, ss). (loss * variation, m\<lparr>m_small_scale := Some ss\<rparr>))
                              (computeVariation g oi vi normal a b reach link ss))))"

definition PathLoss_computePathLoss_distance :: "PathLossModule \<Rightarrow> real \<Rightarrow> real \<Rightarrow> real \<Rightarrow> real result" where
  "PathLoss_computePathLoss_distance m speed frequency distance = Inl (RuntimeError ''Incompatible usage of GEMV2 path loss model'')"

definition PathLoss_computeRange :: "PathLossModule \<Rightarrow> real \<Rightarrow> real" where
  "PathLoss_computeRange m loss = max (m_range_los m) (max (m_range_nlos_b m) (m_range_nlos_v m))"

section \<open>Merged intervals\<close>

definition line_interval :: "Point \<Rightarrow> Point list \<Rightarrow> real \<times> real" where
  "line_interval ref line = (calculateIndex ref (hd line), calculateIndex ref (last line))"

definition entry_ok :: "Point \<Rightarrow> OrderedLineString \<Rightarrow> bool" where
  "entry_ok ref ol \<longleftrightarrow> length (ol_line ol) = 2 \<and> line_interval ref (ol_line ol) = (ol_indexStart ol, ol_indexStop ol) \<and> ol_indexStart ol \<le> ol_indexStop ol"

definition entry_interval :: "OrderedLineString \<Rightarrow> real set" where
  "entry_interval ol = {ol_indexStart ol .. ol_indexStop ol}"

definition separated :: "(real \<times> real) list \<Rightarrow> bool" where
  "separated is \<longleftrightarrow> sorted_wrt (\<lambda>i j. snd i < fst j) is \<and> (\<forall>i \<in> set is. fst i \<le> snd i)"

definition covered :: "(real \<times> real) list \<Rightarrow> real set" where
  "covered is = (\<Union>i \<in> set is. {fst i .. snd i})"

definition total_length :: "(real \<times> real) list \<Rightarrow> real" where
  "total_length is = sum_list (map (\<lambda>i. sqrt (snd i) - sqrt (fst i)) is)"

lemma entry_extend:
  assumes "entry_ok ref cur" and "entry_ok ref it" and "ol_indexStop cur < ol_indexStop it"
  shows "entry_ok ref (cur\<lparr>ol_line := butlast (ol_line cur) @ [last (ol_line it)], ol_indexStop := ol_indexStop it\<rparr>)"
proof -
  obtain a b where "ol_line cur = [a, b]" using assms(1) by (auto simp: entry_ok_def length_Suc_conv numeral_2_eq_2)
  then show ?thesis using assms by (auto simp: entry_ok_def line_interval_def)
qed

text \<open>The loop leaves separate intervals, covers what its entries cover and adds up their lengths.\<close>

lemma merge_loop_intervals:
  assumes "entry_ok ref cur" and "\<forall>it \<in> set its. entry_ok ref it" and "sorted (map ol_indexStart (cur # its))"
    and "merge_loop cur its acc = (d, out)"
  shows "separated (map (line_interval ref) out) \<and> covered (map (line_interval ref) out) = (\<Union>ol \<in> set (cur # its). entry_interval ol)
    \<and> d = acc + total_length (map (line_interval ref) out) \<and> (\<forall>i \<in> set (map (line_interval ref) out). ol_indexStart cur \<le> fst i)"
  using assms
proof (induction cur its acc arbitrary: d out rule: merge_loop.induct)
  case (1 cur acc)
  then show ?case by (auto simp: separated_def covered_def total_length_def entry_ok_def entry_interval_def interval_length_def)
next
  case (2 cur it its acc)
  have it: "entry_ok ref it" "\<forall>it \<in> set its. entry_ok ref it" "sorted (map ol_indexStart (it # its))" "sorted (map ol_indexStart (cur # its))"
    "ol_indexStart cur \<le> ol_indexStart it" using 2(5,6) by auto
  consider "ol_indexStop cur < ol_indexStart it"
    | "\<not> ol_indexStop cur < ol_indexStart it" "ol_indexStop cur < ol_indexStop it"
    | "\<not> ol_indexStop cur < ol_indexStart it" "\<not> ol_indexStop cur < ol_indexStop it" by blast
  then show ?case
  proof cases
    case 1
    then obtain out' where out: "out = ol_line cur # out'" "merge_loop it its (acc + interval_length cur) = (d, out')"
      using 2(7) by (cases "merge_loop it its (acc + interval_length cur)") auto
    from 2(1) [OF 1 it(1,2,3) out(2)] 1 2(4) it(5) show ?thesis
      by (force simp: out(1) separated_def covered_def total_length_def entry_ok_def entry_interval_def interval_length_def)
  next
    case b: 2
    let ?cur = "cur\<lparr>ol_line := butlast (ol_line cur) @ [last (ol_line it)], ol_indexStop := ol_indexStop it\<rparr>"
    have "sorted (map ol_indexStart (?cur # its))" "merge_loop ?cur its acc = (d, out)" using it(4) 2(7) b by simp_all
    note ih = 2(2) [OF b entry_extend [OF 2(4) it(1) b(2)] it(2) this]
    moreover have "entry_interval ?cur = entry_interval cur \<union> entry_interval it"
      using b it(5) by (auto simp: entry_interval_def)
    ultimately show ?thesis by auto
  next
    case b: 3
    have "merge_loop cur its acc = (d, out)" using 2(7) b by simp
    note ih = 2(3) [OF b 2(4) it(2,4) this]
    moreover have "entry_interval it \<subseteq> entry_interval cur" using b it(5) by (auto simp: entry_interval_def)
    ultimately show ?thesis by auto
  qed
qed

definition line_range :: "Point \<Rightarrow> Point list \<Rightarrow> real set" where
  "line_range ref line = {min (calculateIndex ref (hd line)) (calculateIndex ref (last line)) .. max (calculateIndex ref (hd line)) (calculateIndex ref (last line))}"

lemma order_lines:
  assumes "\<forall>l \<in> set lines. length l = 2"
  shows "\<exists>new. rfold (order_line ref) lines ordered = Inr (ordered @ new) \<and> length new = length lines
    \<and> (\<forall>ol \<in> set new. entry_ok ref ol) \<and> (\<Union>ol \<in> set new. entry_interval ol) = (\<Union>l \<in> set lines. line_range ref l)"
  using assms
proof (induction lines arbitrary: ordered)
  case (Cons l lines)
  obtain a b where l: "l = [a, b]" using Cons.prems by (auto simp: length_Suc_conv numeral_2_eq_2)
  obtain e where e: "order_line ref l ordered = Inr (ordered @ [e])" "entry_ok ref e" "entry_interval e = line_range ref l"
    by (cases "calculateIndex ref a < calculateIndex ref b")
      (auto simp: l order_line_def OrderedLineString_new_def entry_ok_def line_interval_def entry_interval_def line_range_def)
  from Cons.IH [of "ordered @ [e]"] Cons.prems obtain new where "rfold (order_line ref) lines (ordered @ [e]) = Inr ((ordered @ [e]) @ new)"
    "length new = length lines" "\<forall>ol \<in> set new. entry_ok ref ol" "(\<Union>ol \<in> set new. entry_interval ol) = (\<Union>l \<in> set lines. line_range ref l)" by auto
  with e show ?case by (intro exI [of _ "e # new"]) auto
qed simp

text \<open>Two or more sections of a ray through plants are merged: what is left are separate intervals of squared distances that
  cover exactly the sections, and the result is the sum of their lengths; a stretch covered by several plants counts once.\<close>

theorem foliage_intervals_merged:
  assumes "2 \<le> length lines" and "\<forall>l \<in> set lines. length l = 2"
  shows "\<exists>d out. mergeIntervals g lines ref = Inr (d, out) \<and> separated (map (line_interval ref) out)
    \<and> covered (map (line_interval ref) out) = (\<Union>l \<in> set lines. line_range ref l) \<and> d = total_length (map (line_interval ref) out)"
proof -
  obtain new where new: "rfold (order_line ref) lines [] = Inr new" "length new = length lines" "\<forall>ol \<in> set new. entry_ok ref ol"
    "(\<Union>ol \<in> set new. entry_interval ol) = (\<Union>l \<in> set lines. line_range ref l)" using order_lines [OF assms(2), of ref "[]"] by auto
  have "length (sort_key ol_indexStart new) \<noteq> 0" using new(2) assms(1) by auto
  then obtain cur its where s: "sort_key ol_indexStart new = cur # its" by (cases "sort_key ol_indexStart new") auto
  have sets: "set (cur # its) = set new" by (metis s set_sort)
  obtain d out where out: "merge_loop cur its 0 = (d, out)" by (cases "merge_loop cur its 0")
  have "mergeIntervals g lines ref = Inr (d, out)" using assms(1) new(1) s out by (auto simp: mergeIntervals_def)
  moreover have "sorted (map ol_indexStart (cur # its))" by (metis s sorted_sort_key)
  moreover have "entry_ok ref cur" "\<forall>it \<in> set its. entry_ok ref it" using new(3) sets by auto
  ultimately show ?thesis using merge_loop_intervals [OF _ _ _ out, of ref] unfolding sets new(4) by auto
qed


lemma total_length_nonneg: "separated is \<Longrightarrow> 0 \<le> total_length is"
  by (fastforce simp: separated_def total_length_def intro!: sum_list_nonneg)

text \<open>A link through several plants loses at least what it loses in free space.\<close>

theorem foliage_loss_range:
  assumes "getObstructingObstacles g (fst tx, fst (snd tx)) (fst rx, fst (snd rx)) fi = Inr plants"
    and "lines = concat (map (\<lambda>plant. rg_clip g ((fst tx, fst (snd tx)), (fst rx, fst (snd rx))) (go_outline plant)) plants)"
    and "2 \<le> length lines" and "\<forall>l \<in> set lines. length l = 2"
    and "0 < speed" and "0 < frequency" and "0 < fs_systemLoss fs"
  shows "\<exists>loss. NLOSf_computePathLoss g fi fs speed frequency tx rx = Inr loss \<and> 0 < loss
    \<and> loss \<le> computeFreeSpacePathLoss (speed / frequency) (coord_distance tx rx) (fs_alpha fs) (fs_systemLoss fs)"
proof -
  obtain d out where d: "mergeIntervals g lines (fst tx, fst (snd tx)) = Inr (d, out)" "separated (map (line_interval (fst tx, fst (snd tx))) out)"
    "d = total_length (map (line_interval (fst tx, fst (snd tx))) out)" using foliage_intervals_merged [OF assms(3,4)] by blast
  have nonneg: "0 \<le> d" using d(2,3) total_length_nonneg by simp
  let ?free = "computeFreeSpacePathLoss (speed / frequency) (coord_distance tx rx) (fs_alpha fs) (fs_systemLoss fs)"
  let ?att = "dB2fraction (79/100 * (frequency / 1000000000) powr (61/100) * d)"
  have free: "0 < ?free"
  proof (cases "coord_distance tx rx = 0")
    case False
    moreover have "0 \<le> coord_distance tx rx" by (simp add: coord_distance_def)
    ultimately show ?thesis using assms(5-7) by (simp add: computeFreeSpacePathLoss_def)
  qed (simp add: computeFreeSpacePathLoss_def)
  have att: "1 \<le> ?att" using nonneg by (simp add: dB2fraction_def ge_one_powr_ge_zero)
  have "NLOSf_computePathLoss g fi fs speed frequency tx rx = Inr (?free / ?att)"
    using assms(1,2) d(1) by (simp add: NLOSf_computePathLoss_def computeDistanceThroughFoliage_def Let_def)
  moreover have "0 < ?free / ?att" "?free / ?att \<le> ?free" using free att by (simp_all add: divide_le_eq mult_le_cancel_left1)
  ultimately show ?thesis by blast
qed

section \<open>Deviations\<close>

lemma coefficient_range: "0 \<le> density_coefficient a b" "density_coefficient a b \<le> 1"
  by (simp_all add: density_coefficient_def)

lemma observe_max: "observe d seen = Some (case seen of None \<Rightarrow> d | Some m \<Rightarrow> max d m)"
  by (simp add: observe_def split: option.splits)

text \<open>The variation is drawn with a deviation between the minimum and the maximum of the link's class, whatever the density of vehicles and
  obstacles, and the observed densities never fall.\<close>

theorem variation_deviation_range:
  assumes "computeVariation g oi vi normal a b reach link ss = Inr (variation, ss')" and "deviation_range ss link = (minDev, maxDev)" and "minDev \<le> maxDev"
  shows "(\<exists>deviation. variation = dB2fraction (normal 0 deviation) \<and> minDev \<le> deviation \<and> deviation \<le> maxDev \<and> 0 < variation)
    \<and> (\<forall>d. ss_MaxObservedVehicleDensity ss = Some d \<longrightarrow> (\<exists>d'. ss_MaxObservedVehicleDensity ss' = Some d' \<and> d \<le> d'))
    \<and> (\<forall>d. ss_MaxObservedObstacleDensity ss = Some d \<longrightarrow> (\<exists>d'. ss_MaxObservedObstacleDensity ss' = Some d' \<and> d \<le> d'))"
proof (intro conjI)
  have range: "minDev \<le> variation_deviation s v w minDev maxDev" "variation_deviation s v w minDev maxDev \<le> maxDev" for s v w
  proof -
    let ?c = "density_coefficient v (ss_MaxVehicleDensity s) + density_coefficient w (ss_MaxObstacleDensity s)"
    have c: "0 \<le> ?c" "?c \<le> 2" using coefficient_range [of v "ss_MaxVehicleDensity s"] coefficient_range [of w "ss_MaxObstacleDensity s"] by linarith+
    have "0 \<le> (maxDev - minDev) * ?c" "(maxDev - minDev) * ?c \<le> (maxDev - minDev) * 2"
      using assms(3) c by (simp, intro mult_left_mono) auto
    then show "minDev \<le> variation_deviation s v w minDev maxDev" "variation_deviation s v w minDev maxDev \<le> maxDev"
      by (simp_all add: variation_deviation_def)
  qed
  from assms(1,2) show "\<exists>deviation. variation = dB2fraction (normal 0 deviation) \<and> minDev \<le> deviation \<and> deviation \<le> maxDev \<and> 0 < variation"
    using range by (fastforce simp: computeVariation_def Let_def rbind_ok_iff dB2fraction_def)
  from assms(1,2) show "\<forall>d. ss_MaxObservedVehicleDensity ss = Some d \<longrightarrow> (\<exists>d'. ss_MaxObservedVehicleDensity ss' = Some d' \<and> d \<le> d')"
    and "\<forall>d. ss_MaxObservedObstacleDensity ss = Some d \<longrightarrow> (\<exists>d'. ss_MaxObservedObstacleDensity ss' = Some d' \<and> d \<le> d')"
    by (auto simp: computeVariation_def Let_def rbind_ok_iff observe_max)
qed

section \<open>Ranges\<close>

text \<open>Beyond the range of its class a link loses all power, whatever its model says.\<close>

theorem beyond_class_range:
  assumes "classifyLink g oi fi vi (fst tx, fst (snd tx)) (fst rx, fst (snd rx)) (m_classifier m) = Inr (link, c)"
    and "snd (class_model m link) < coord_distance tx rx"
  shows "PathLoss_computePathLoss g oi fi vi normal tx rx m = Inr (0, m\<lparr>m_classifier := c\<rparr>)"
  using assms by (cases link) (simp_all add: PathLoss_computePathLoss_def class_model_def Let_def)

text \<open>The range that the module reports leaves out the class of foliage: a link through foliage that is longer than the reported range
  gets the loss of its model.\<close>

theorem range_omits_foliage:
  assumes "classifyLink g oi fi vi (fst tx, fst (snd tx)) (fst rx, fst (snd rx)) (m_classifier m) = Inr (NLOSf, c)"
    and "coord_distance tx rx \<le> m_range_nlos_f m" and "PathLoss_computeRange m loss < coord_distance tx rx"
    and "m_nlos_f m tx rx = Inr l" and "0 < l" and "m_small_scale m = None"
  shows "PathLoss_computePathLoss g oi fi vi normal tx rx m = Inr (l, m\<lparr>m_classifier := c\<rparr>) \<and> l \<noteq> 0"
  using assms by (simp_all add: PathLoss_computePathLoss_def class_model_def Let_def)

text \<open>Links through foliage get no deviation: the variation of the class is drawn with deviation zero.\<close>

theorem foliage_without_variation:
  assumes "computeVariation g oi vi normal a b reach NLOSf ss = Inr (variation, ss')"
  shows "variation = dB2fraction (normal 0 0)"
  using assms by (auto simp: computeVariation_def deviation_range_def variation_deviation_def Let_def rbind_ok_iff)


text \<open>The composed model: a link that only vehicles block, within its class's range, gets the loss the vehicles cause, with the
  classifier's counter one up.\<close>

theorem vehicle_link_composed:
  assumes "radio_laws g" and "oi_ok g oi" and "oi_ok g fi" and "vi_ok vi" and "vi_synced g vi"
    and "\<forall>ob \<in> set (oi_obstacles oi) \<union> set (oi_obstacles fi). \<not> g_crosses g ((fst tx, fst (snd tx)), (fst rx, fst (snd rx))) (go_outline ob)"
    and "cut_vehicles g (fst tx, fst (snd tx)) (fst rx, fst (snd rx)) vi \<noteq> {}"
    and "coord_distance tx rx \<le> reach"
    and "NLOSv_computePathLoss g vi tx rx waveLength = Inr loss"
  shows "PathLoss_computePathLoss g oi fi vi normal tx rx
      (PathLoss_initialize los nlosb nlosf (\<lambda>tx rx. NLOSv_computePathLoss g vi tx rx waveLength, reach) c None)
    = Inr (loss, PathLoss_initialize los nlosb nlosf (\<lambda>tx rx. NLOSv_computePathLoss g vi tx rx waveLength, reach) (c\<lparr>mCountNLOSv := mCountNLOSv c + 1\<rparr>) None)"
proof -
  let ?a = "(fst tx, fst (snd tx))" and ?b = "(fst rx, fst (snd rx))"
  have "ObstacleIndex_anyBlockage g ?a ?b oi = Inr False" "ObstacleIndex_anyBlockage g ?a ?b fi = Inr False"
    using obstacle_blockage [OF assms(1,2), of ?a ?b] obstacle_blockage [OF assms(1,3), of ?a ?b] assms(6) by auto
  moreover have "VehicleIndex_anyBlockage g ?a ?b vi = Inr True" using blockage_synced [OF assms(1,4,5), of ?a ?b] assms(7) by simp
  ultimately have "classifyLink g oi fi vi ?a ?b c = Inr (NLOSv, c\<lparr>mCountNLOSv := mCountNLOSv c + 1\<rparr>)" by (simp add: classifyLink_def)
  then show ?thesis using assms(8,9) by (simp add: PathLoss_computePathLoss_def PathLoss_initialize_def class_model_def Let_def)
qed

section \<open>Examples\<close>

definition hedges :: "Point list list" where
  "hedges = [[(1, 0), (3, 0)], [(4, 0), (2, 0)], [(6, 0), (7, 0)]]"

theorem foliage_intervals_merged_witness:
  "\<exists>d out. mergeIntervals radio_plane hedges (0, 0) = Inr (d, out) \<and> d = total_length (map (line_interval (0, 0)) out)"
proof -
  have "2 \<le> length hedges" "\<forall>l \<in> set hedges. length l = 2" by (simp_all add: hedges_def)
  from foliage_intervals_merged [OF this] show ?thesis by blast
qed

definition leafy_plane :: RadioGeometry where
  "leafy_plane = radio_plane\<lparr>g_crosses := \<lambda>l ps. True, rg_clip := \<lambda>l ps. hedges\<rparr>"

definition hedge_index :: ObstacleIndex where
  "hedge_index = \<lparr>oi_filterTypes = [], oi_obstacles = [\<lparr>go_outline = [(1, 1)], go_centroid = (1, 1), go_area = 1\<rparr>], oi_rtree = [(((1, 1), (1, 1)), 0)]\<rparr>"

lemma hedge_obstructs: "getObstructingObstacles leafy_plane a b hedge_index = Inr [\<lparr>go_outline = [(1, 1)], go_centroid = (1, 1), go_area = 1\<rparr>]"
  by (simp add: getObstructingObstacles_def hedge_index_def leafy_plane_def radio_plane_def obstacle_at_def)

theorem foliage_loss_range_witness:
  "\<exists>loss. NLOSf_computePathLoss leafy_plane hedge_index \<lparr>fs_alpha = 2, fs_systemLoss = 1\<rparr> 300000000 5900000000 (0, 0, 1) (10, 0, 1) = Inr loss \<and> 0 < loss"
proof -
  let ?plant = "\<lparr>go_outline = [(1, 1)], go_centroid = (1, 1), go_area = 1\<rparr> :: GObstacle"
  have "hedges = concat (map (\<lambda>plant. rg_clip leafy_plane ((0, 0), (10, 0)) (go_outline plant)) [?plant])" by (simp add: leafy_plane_def)
  moreover have "2 \<le> length hedges" "\<forall>l \<in> set hedges. length l = 2" by (simp_all add: hedges_def)
  ultimately show ?thesis
    using foliage_loss_range [OF hedge_obstructs, of hedges "(0, 0, 1)" "(10, 0, 1)" 300000000 5900000000 "\<lparr>fs_alpha = 2, fs_systemLoss = 1\<rparr>"] by auto
qed

definition example_variation :: SmallScaleVariation where
  "example_variation = SmallScaleVariation_initialize (33/10, 52/10) (38/10, 53/10) (0, 68/10) (1/1000) (1/10)"

lemma variation_empty:
  "\<exists>variation ss'. computeVariation radio_plane no_obstacles example_vehicles (\<lambda>m d. m + d) (0, 0) (9, 0) 500 link example_variation = Inr (variation, ss')"
  by (cases "deviation_range example_variation link")
    (simp add: computeVariation_def obstaclesEllipse_def vehiclesEllipse_def no_obstacles_def example_vehicles_def radio_plane_def vehicle_at_def Let_def)

theorem variation_deviation_range_witness:
  "\<exists>variation ss' deviation. computeVariation radio_plane no_obstacles example_vehicles (\<lambda>m d. m + d) (0, 0) (9, 0) 500 LOS example_variation = Inr (variation, ss')
     \<and> variation = dB2fraction deviation \<and> 33/10 \<le> deviation \<and> deviation \<le> 52/10"
proof -
  obtain variation ss' where run: "computeVariation radio_plane no_obstacles example_vehicles (\<lambda>m d. m + d) (0, 0) (9, 0) 500 LOS example_variation = Inr (variation, ss')"
    using variation_empty by blast
  have "deviation_range example_variation LOS = (33/10, 52/10)" by (simp add: deviation_range_def example_variation_def SmallScaleVariation_initialize_def)
  from variation_deviation_range [OF run this] run show ?thesis by auto
qed

theorem foliage_without_variation_witness:
  "\<exists>ss'. computeVariation radio_plane no_obstacles example_vehicles (\<lambda>m d. m + d) (0, 0) (9, 0) 500 NLOSf example_variation = Inr (1, ss')"
proof -
  obtain variation ss' where run: "computeVariation radio_plane no_obstacles example_vehicles (\<lambda>m d. m + d) (0, 0) (9, 0) 500 NLOSf example_variation = Inr (variation, ss')"
    using variation_empty by blast
  from foliage_without_variation [OF run] run show ?thesis by (simp add: dB2fraction_def)
qed

definition fixed_loss :: "Coord \<Rightarrow> Coord \<Rightarrow> real result" where "fixed_loss tx rx = Inr (1/100)"

definition no_links :: LinkClassifier where "no_links = \<lparr>mCountLOS = 0, mCountNLOSb = 0, mCountNLOSf = 0, mCountNLOSv = 0\<rparr>"

definition foliage_module :: PathLossModule where
  "foliage_module = PathLoss_initialize (fixed_loss, 5) (fixed_loss, 5) (fixed_loss, 50) (fixed_loss, 5) no_links None"

lemma hedge_class: "classifyLink leafy_plane no_obstacles hedge_index example_vehicles a b no_links = Inr (NLOSf, no_links\<lparr>mCountNLOSf := 1\<rparr>)"
  by (simp add: classifyLink_def ObstacleIndex_anyBlockage_def no_obstacles_def hedge_index_def leafy_plane_def radio_plane_def obstacle_at_def no_links_def)

lemma ten_metres: "coord_distance (0, 0, 1) (10, 0, 1) = 10"
  by (simp add: coord_distance_def)

theorem range_omits_foliage_witness:
  "PathLoss_computeRange foliage_module (1/2) = 5
   \<and> PathLoss_computePathLoss leafy_plane no_obstacles hedge_index example_vehicles (\<lambda>m d. m) (0, 0, 1) (10, 0, 1) foliage_module
     = Inr (1/100, foliage_module\<lparr>m_classifier := no_links\<lparr>mCountNLOSf := 1\<rparr>\<rparr>)"
proof -
  have c: "classifyLink leafy_plane no_obstacles hedge_index example_vehicles (fst (0 :: real, 0 :: real, 1 :: real), fst (snd (0 :: real, 0 :: real, 1 :: real)))
      (fst (10 :: real, 0 :: real, 1 :: real), fst (snd (10 :: real, 0 :: real, 1 :: real))) (m_classifier foliage_module) = Inr (NLOSf, no_links\<lparr>mCountNLOSf := 1\<rparr>)"
    using hedge_class by (simp add: foliage_module_def PathLoss_initialize_def)
  have r: "PathLoss_computeRange foliage_module (1/2) = 5" by (simp add: PathLoss_computeRange_def foliage_module_def PathLoss_initialize_def)
  from range_omits_foliage [OF c, of "1/2" "1/100" "\<lambda>m d. m"] r show ?thesis
    by (simp add: ten_metres foliage_module_def PathLoss_initialize_def fixed_loss_def)
qed

theorem beyond_class_range_witness:
  "PathLoss_computePathLoss leafy_plane no_obstacles hedge_index example_vehicles (\<lambda>m d. m) (0, 0, 1) (10, 0, 1) (foliage_module\<lparr>m_range_nlos_f := 9\<rparr>)
     = Inr (0, foliage_module\<lparr>m_range_nlos_f := 9, m_classifier := no_links\<lparr>mCountNLOSf := 1\<rparr>\<rparr>)"
proof -
  let ?m = "foliage_module\<lparr>m_range_nlos_f := 9\<rparr>"
  have "m_classifier ?m = no_links" by (simp add: foliage_module_def PathLoss_initialize_def)
  then have "classifyLink leafy_plane no_obstacles hedge_index example_vehicles (0, 0) (10, 0) (m_classifier ?m) = Inr (NLOSf, no_links\<lparr>mCountNLOSf := 1\<rparr>)"
    using hedge_class by simp
  then show ?thesis
    using beyond_class_range [of leafy_plane no_obstacles hedge_index example_vehicles "(0, 0, 1)" "(10, 0, 1)" ?m NLOSf _ "\<lambda>m d. m"]
    by (simp add: class_model_def ten_metres)
qed


theorem vehicle_link_composed_witness:
  "PathLoss_computePathLoss radio_plane no_obstacles no_obstacles example_vehicles (\<lambda>m d. m) (1, 1, 1) (1, 1, 1)
     (PathLoss_initialize (fixed_loss, 5) (fixed_loss, 5) (fixed_loss, 5) (\<lambda>tx rx. NLOSv_computePathLoss radio_plane example_vehicles tx rx (1/20), 5) no_links None)
   = Inr (1, PathLoss_initialize (fixed_loss, 5) (fixed_loss, 5) (fixed_loss, 5) (\<lambda>tx rx. NLOSv_computePathLoss radio_plane example_vehicles tx rx (1/20), 5)
       (no_links\<lparr>mCountNLOSv := 1\<rparr>) None)"
proof -
  have ok: "oi_ok radio_plane no_obstacles" by (simp add: oi_ok_def no_obstacles_def)
  have cut: "cut_vehicles radio_plane (1, 1) (1, 1) example_vehicles \<noteq> {}" by (simp add: cut_vehicles_def example_vehicles_def radio_plane_def parked_def)
  have "coord_distance (1, 1, 1) (1, 1, 1) = 0" by (simp add: coord_distance_def)
  then have "NLOSv_computePathLoss radio_plane example_vehicles (1, 1, 1) (1, 1, 1) (1/20) = Inr 1" "coord_distance (1, 1, 1) (1, 1, 1) \<le> 5"
    by (simp_all add: NLOSv_computePathLoss_def)
  with vehicle_link_composed [OF radio_plane_laws ok ok example_vehicles_ok, of "(1, 1, 1)" "(1, 1, 1)" 5 "1/20" 1 "\<lambda>m d. m" "(fixed_loss, 5)" "(fixed_loss, 5)" "(fixed_loss, 5)" no_links] cut
  show ?thesis by (simp add: no_obstacles_def no_links_def)
qed


end
