(* ===== verification/ChannelLoads.thy ===== *)
theory ChannelLoads
  imports Artery_Prelude
begin

text \<open>
  Measuring how busy the radio channel is: INET's reception process \<open>Rx\<close> with \<open>artery/inet/VanetRx\<close> on top, which keeps busy and free periods
  run-length encoded, and \<open>artery/nic/ChannelLoadMeasurements\<close>, which keeps single samples for the Veins radio.  A sample is a symbol period
  of 8 microseconds, and a measurement covers the last 12500 samples.
\<close>

section \<open>The medium\<close>

datatype ReceptionState = RECEPTION_STATE_UNDEFINED | RECEPTION_STATE_IDLE | RECEPTION_STATE_BUSY | RECEPTION_STATE_RECEIVING

datatype TransmissionState = TRANSMISSION_STATE_UNDEFINED | TRANSMISSION_STATE_IDLE | TRANSMISSION_STATE_TRANSMITTING

datatype SignalPart = SIGNAL_PART_NONE | SIGNAL_PART_WHOLE | SIGNAL_PART_PREAMBLE | SIGNAL_PART_HEADER | SIGNAL_PART_DATA

text \<open>The timer of the network allocation vector is scheduled for a time or not; of a contention the model keeps whether it was last told
  that the medium is free, and how often it was told of a corrupted frame.  The last five fields are those of \<open>VanetRx\<close>.\<close>

record VanetRx =
  rx_receptionState :: ReceptionState
  rx_transmissionState :: TransmissionState
  rx_receivedPart :: SignalPart
  rx_endNav :: "simtime option"
  rx_mediumFree :: bool
  rx_contentions :: "(bool \<times> nat) list"
  rx_channelReport :: simtime
  rx_channelLoadLastUpdate :: simtime
  rx_channelLoadSamples :: "(32 word \<times> bool) list"
  rx_channelBusyRatio :: real

definition cbrIntervalSamples :: nat where "cbrIntervalSamples = 12500"

definition symbolPeriod :: simtime where "symbolPeriod = simtime_us 8"

definition medium_free :: "VanetRx \<Rightarrow> bool" where
  "medium_free rx \<longleftrightarrow> rx_receptionState rx = RECEPTION_STATE_IDLE \<and> rx_transmissionState rx = TRANSMISSION_STATE_UNDEFINED \<and> rx_endNav rx = None"

definition Rx_recomputeMediumFree :: "VanetRx \<Rightarrow> VanetRx" where
  "Rx_recomputeMediumFree rx =
     (let free = medium_free rx
      in if free \<noteq> rx_mediumFree rx then rx\<lparr>rx_mediumFree := free, rx_contentions := map (\<lambda>c. (free, snd c)) (rx_contentions rx)\<rparr>
         else rx)"

text \<open>A number of samples is converted to an unsigned integer of 32 bits.\<close>

definition VanetRx_recomputeMediumFree :: "simtime \<Rightarrow> VanetRx \<Rightarrow> VanetRx" where
  "VanetRx_recomputeMediumFree now rx =
     (let updateDelta = now - rx_channelLoadLastUpdate rx
      in Rx_recomputeMediumFree
           (if updateDelta \<ge> symbolPeriod
            then rx\<lparr>rx_channelLoadSamples := (word_of_int (updateDelta div symbolPeriod), \<not> rx_mediumFree rx) # rx_channelLoadSamples rx,
                    rx_channelLoadLastUpdate := now\<rparr>
            else rx))"

definition setOrExtendNav :: "simtime \<Rightarrow> simtime \<Rightarrow> VanetRx \<Rightarrow> VanetRx result" where
  "setOrExtendNav now navInterval rx =
     (if navInterval < 0 then Inl AssertionFailed
      else if navInterval > 0 then
        (let endNav = now + navInterval
         in case rx_endNav rx of
              Some oldEndNav \<Rightarrow> if endNav < oldEndNav then Inr rx else Inr (VanetRx_recomputeMediumFree now (rx\<lparr>rx_endNav := Some endNav\<rparr>))
            | None \<Rightarrow> Inr (VanetRx_recomputeMediumFree now (rx\<lparr>rx_endNav := Some endNav\<rparr>)))
      else Inr rx)"

definition isReceptionInProgress :: "VanetRx \<Rightarrow> bool" where
  "isReceptionInProgress rx \<longleftrightarrow> rx_receptionState rx = RECEPTION_STATE_RECEIVING
     \<and> (rx_receivedPart rx = SIGNAL_PART_WHOLE \<or> rx_receivedPart rx = SIGNAL_PART_DATA)"

section \<open>The report\<close>

text \<open>The loop over the recorded periods, the most recent first; it answers the busy samples and the periods that stay.\<close>

fun report_loop :: "(32 word \<times> bool) list \<Rightarrow> 32 word \<Rightarrow> 32 word \<Rightarrow> 32 word \<times> (32 word \<times> bool) list" where
  "report_loop [] samples busy = (busy, [])"
| "report_loop ((sampleLength, mediumBusy) # it) samples busy =
     (let samples = samples + sampleLength
      in if samples < of_nat cbrIntervalSamples
         then apsnd ((#) (sampleLength, mediumBusy)) (report_loop it samples (if mediumBusy then busy + sampleLength else busy))
         else (if mediumBusy then busy + (sampleLength - (samples - of_nat cbrIntervalSamples)) else busy, []))"

definition reportChannelLoad :: "VanetRx \<Rightarrow> VanetRx \<times> real" where
  "reportChannelLoad rx =
     (let (busy, kept) = report_loop (rx_channelLoadSamples rx) 0 0;
          ratio = real (unat busy) / real cbrIntervalSamples
      in (rx\<lparr>rx_channelLoadSamples := kept, rx_channelBusyRatio := ratio\<rparr>, ratio))"

text \<open>What happens to the module, with the load it reports if it reports.  The timer of the network allocation vector is not scheduled
  any more when its message is handled.\<close>

datatype RxEvent =
    ReceptionStateChanged ReceptionState
  | TransmissionStateChanged TransmissionState
  | ReceivedSignalPartChanged SignalPart
  | EndNav
  | FrameTransmitted simtime
  | LowerFrameReceived bool bool simtime
  | RegisterContention
  | ChannelReport

definition channelReportInterval :: simtime where "channelReportInterval = simtime_ms 100"

fun VanetRx_handle :: "simtime \<Rightarrow> RxEvent \<Rightarrow> VanetRx \<Rightarrow> (VanetRx \<times> real option) result" where
  "VanetRx_handle now (ReceptionStateChanged s) rx = Inr (VanetRx_recomputeMediumFree now (rx\<lparr>rx_receptionState := s\<rparr>), None)"
| "VanetRx_handle now (TransmissionStateChanged s) rx = Inr (VanetRx_recomputeMediumFree now (rx\<lparr>rx_transmissionState := s\<rparr>), None)"
| "VanetRx_handle now (ReceivedSignalPartChanged p) rx = Inr (VanetRx_recomputeMediumFree now (rx\<lparr>rx_receivedPart := p\<rparr>), None)"
| "VanetRx_handle now EndNav rx = Inr (VanetRx_recomputeMediumFree now (rx\<lparr>rx_endNav := None\<rparr>), None)"
| "VanetRx_handle now (FrameTransmitted duration) rx = rmap (\<lambda>rx. (rx, None)) (setOrExtendNav now duration rx)"
| "VanetRx_handle now (LowerFrameReceived ok own duration) rx =
     (if ok then rmap (\<lambda>rx. (rx, None)) (if \<not> own then setOrExtendNav now duration rx else Inr rx)
      else Inr (rx\<lparr>rx_contentions := map (apsnd Suc) (rx_contentions rx)\<rparr>, None))"
| "VanetRx_handle now RegisterContention rx = Inr (rx\<lparr>rx_contentions := rx_contentions rx @ [(rx_mediumFree rx, 0)]\<rparr>, None)"
| "VanetRx_handle now ChannelReport rx =
     (let (rx, load) = reportChannelLoad rx in Inr (rx\<lparr>rx_channelReport := now + channelReportInterval\<rparr>, Some load))"

text \<open>After the initialisation stages.\<close>

definition VanetRx_initialize :: "simtime \<Rightarrow> VanetRx" where
  "VanetRx_initialize now =
     VanetRx_recomputeMediumFree now
       \<lparr>rx_receptionState = RECEPTION_STATE_UNDEFINED, rx_transmissionState = TRANSMISSION_STATE_UNDEFINED, rx_receivedPart = SIGNAL_PART_NONE,
        rx_endNav = None, rx_mediumFree = True, rx_contentions = [], rx_channelReport = now + channelReportInterval,
        rx_channelLoadLastUpdate = now, rx_channelLoadSamples = [(of_nat cbrIntervalSamples, False)], rx_channelBusyRatio = 0\<rparr>"

section \<open>Samples of the Veins radio\<close>

text \<open>The circular buffer from its front, with its capacity of 12500 samples; \<open>push_back\<close> overwrites the front when the buffer is full.\<close>

record ChannelLoadMeasurements =
  cl_samples :: "bool list"
  cl_last_update :: simtime
  cl_busy :: bool

definition push_back :: "nat \<Rightarrow> 'a \<Rightarrow> 'a list \<Rightarrow> 'a list" where
  "push_back cap x xs = drop (Suc (length xs) - cap) (xs @ [x])"

definition ChannelLoadMeasurements_reset :: "simtime \<Rightarrow> ChannelLoadMeasurements \<Rightarrow> ChannelLoadMeasurements" where
  "ChannelLoadMeasurements_reset now m = m\<lparr>cl_samples := [], cl_last_update := now, cl_busy := False\<rparr>"

definition ChannelLoadMeasurements_fill :: "simtime \<Rightarrow> bool \<Rightarrow> ChannelLoadMeasurements \<Rightarrow> ChannelLoadMeasurements" where
  "ChannelLoadMeasurements_fill now busy m =
     (let duration = now - cl_last_update m; samples = nat (duration div simtime_us 8)
      in m\<lparr>cl_samples := (push_back cbrIntervalSamples (cl_busy m) ^^ samples) (cl_samples m), cl_busy := busy, cl_last_update := now\<rparr>)"

definition channel_load :: "simtime \<Rightarrow> ChannelLoadMeasurements \<Rightarrow> ChannelLoadMeasurements \<times> real" where
  "channel_load now m =
     (let m = ChannelLoadMeasurements_fill now (cl_busy m) m
      in (m, real (length (filter id (cl_samples m))) / real cbrIntervalSamples))"

section \<open>The report against single samples\<close>

text \<open>The samples a run-length encoding stands for, the most recent first, and the busy ones among those of the measurement interval.\<close>

definition expand :: "(32 word \<times> bool) list \<Rightarrow> bool list" where
  "expand periods = concat (map (\<lambda>(n, b). replicate (unat n) b) periods)"

definition busy_samples :: "nat \<Rightarrow> bool list \<Rightarrow> nat" where
  "busy_samples n samples = length (filter id (take n samples))"

definition periods_short :: "(32 word \<times> bool) list \<Rightarrow> bool" where
  "periods_short periods \<longleftrightarrow> (\<forall>p \<in> set periods. unat (fst p) < 2 ^ 32 - cbrIntervalSamples)"

lemma busy_samples_replicate: "busy_samples n (replicate k b @ xs) = (if b then min n k else 0) + busy_samples (n - k) xs"
  by (simp add: busy_samples_def)

lemma busy_samples_zero [simp]: "busy_samples 0 xs = 0"
  by (simp add: busy_samples_def)

lemma busy_samples_le: "busy_samples n xs \<le> n"
  unfolding busy_samples_def by (rule order_trans [OF length_filter_le]) simp

lemma report_loop_busy:
  assumes "periods_short periods" and "unat samples < cbrIntervalSamples" and "unat busy \<le> unat samples"
  shows "unat (fst (report_loop periods samples busy)) = unat busy + busy_samples (cbrIntervalSamples - unat samples) (expand periods)"
  using assms
proof (induction periods samples busy rule: report_loop.induct)
  case (1 samples busy)
  then show ?case by (simp add: expand_def busy_samples_def)
next
  case (2 n b it samples busy)
  have n: "unat n < 2 ^ 32 - cbrIntervalSamples" using 2(2) by (simp add: periods_short_def)
  have sum: "unat (samples + n) = unat samples + unat n" using n 2(3) by (intro unat_add_lem [THEN iffD1]) (simp add: cbrIntervalSamples_def)
  have lim: "unat (of_nat cbrIntervalSamples :: 32 word) = cbrIntervalSamples" by (simp add: cbrIntervalSamples_def)
  have ex: "expand ((n, b) # it) = replicate (unat n) b @ expand it" by (simp add: expand_def)
  show ?case
  proof (cases "samples + n < of_nat cbrIntervalSamples")
    case True
    then have less: "unat samples + unat n < cbrIntervalSamples" unfolding word_less_nat_alt sum lim .
    have busy: "unat (busy + n) = unat busy + unat n" using less 2(4) by (intro unat_add_lem [THEN iffD1]) (simp add: cbrIntervalSamples_def)
    have ih: "unat (fst (report_loop it (samples + n) (if b then busy + n else busy)))
        = unat (if b then busy + n else busy) + busy_samples (cbrIntervalSamples - unat (samples + n)) (expand it)"
      using 2(1) [OF refl True] 2(2,4) less busy sum by (simp add: periods_short_def)
    show ?thesis using True less by (simp add: Let_def ex busy_samples_replicate ih busy sum)
  next
    case False
    then have ge: "cbrIntervalSamples \<le> unat samples + unat n" unfolding word_less_nat_alt sum lim by simp
    have rest: "unat (n - (samples + n - of_nat cbrIntervalSamples)) = cbrIntervalSamples - unat samples"
    proof -
      have "n - (samples + n - of_nat cbrIntervalSamples) = of_nat cbrIntervalSamples - samples" by simp
      moreover have "samples \<le> of_nat cbrIntervalSamples" unfolding word_le_nat_alt lim using 2(3) by simp
      ultimately show ?thesis by (simp add: unat_sub lim)
    qed
    have "unat busy + unat (n - (samples + n - of_nat cbrIntervalSamples)) < 2 ^ LENGTH(32)"
      using 2(3,4) unfolding rest by (simp add: cbrIntervalSamples_def)
    from unat_add_lem [THEN iffD1, OF this]
    have "unat (busy + (n - (samples + n - of_nat cbrIntervalSamples))) = unat busy + (cbrIntervalSamples - unat samples)"
      unfolding rest .
    with False ge 2(3) show ?thesis by (simp add: Let_def ex busy_samples_replicate)
  qed
qed

lemma report_ratio:
  "snd (reportChannelLoad rx) = real (unat (fst (report_loop (rx_channelLoadSamples rx) 0 0))) / real cbrIntervalSamples"
  by (simp add: reportChannelLoad_def Let_def case_prod_beta del: of_nat_unat)

lemma report_busy:
  assumes "periods_short (rx_channelLoadSamples rx)"
  shows "snd (reportChannelLoad rx) = real (busy_samples cbrIntervalSamples (expand (rx_channelLoadSamples rx))) / real cbrIntervalSamples"
proof -
  have "unat (fst (report_loop (rx_channelLoadSamples rx) 0 0)) = busy_samples cbrIntervalSamples (expand (rx_channelLoadSamples rx))"
    using report_loop_busy [OF assms, of 0 0] by (simp add: cbrIntervalSamples_def)
  then show ?thesis by (simp only: report_ratio)
qed

lemma report_loop_kept:
  assumes "periods_short periods" and "unat samples < cbrIntervalSamples"
  shows "\<exists>k. snd (report_loop periods samples busy) = take k periods \<and> k \<le> length periods
    \<and> unat samples + length (expand (take k periods)) < cbrIntervalSamples
    \<and> (k < length periods \<longrightarrow> cbrIntervalSamples \<le> unat samples + length (expand (take (Suc k) periods)))"
  using assms
proof (induction periods samples busy rule: report_loop.induct)
  case (1 samples busy)
  then show ?case by (simp add: expand_def)
next
  case (2 n b it samples busy)
  have n: "unat n < 2 ^ 32 - cbrIntervalSamples" using 2(2) by (simp add: periods_short_def)
  have sum: "unat (samples + n) = unat samples + unat n" using n 2(3) by (intro unat_add_lem [THEN iffD1]) (simp add: cbrIntervalSamples_def)
  have lim: "unat (of_nat cbrIntervalSamples :: 32 word) = cbrIntervalSamples" by (simp add: cbrIntervalSamples_def)
  show ?case
  proof (cases "samples + n < of_nat cbrIntervalSamples")
    case True
    then have less: "unat (samples + n) < cbrIntervalSamples" unfolding word_less_nat_alt lim .
    have "periods_short it" using 2(2) by (simp add: periods_short_def)
    from 2(1) [OF refl True this less] obtain k where "snd (report_loop it (samples + n) (if b then busy + n else busy)) = take k it" "k \<le> length it"
      "unat (samples + n) + length (expand (take k it)) < cbrIntervalSamples"
      "k < length it \<longrightarrow> cbrIntervalSamples \<le> unat (samples + n) + length (expand (take (Suc k) it))" by blast
    with True sum show ?thesis by (intro exI [of _ "Suc k"]) (auto simp: Let_def expand_def add.assoc)
  next
    case False
    then have "cbrIntervalSamples \<le> unat samples + unat n" unfolding word_less_nat_alt sum lim by simp
    with False 2(3) show ?thesis by (intro exI [of _ 0]) (simp add: Let_def expand_def)
  qed
qed

text \<open>C21: What a report of the channel load counts and what it forgets.  The periods recorded are those that have ended (the ongoing one is recorded only when
  the medium is next recomputed and does not count yet); provided none is longer than 2^32 - 12500 samples (more than nine hours), the
  reported load is the number of busy samples among the most recent 12500 samples of the recorded periods, counted one by one and divided
  by 12500.  The report keeps the most recent periods that together have fewer than 12500 samples, and erases the period in which
  the 12500th sample lies as a whole, with all older ones.\<close>

theorem channel_load_counts_samples:
  assumes "periods_short (rx_channelLoadSamples rx)"
  shows "\<exists>k load. reportChannelLoad rx = (rx\<lparr>rx_channelLoadSamples := take k (rx_channelLoadSamples rx), rx_channelBusyRatio := load\<rparr>, load)
    \<and> load = real (busy_samples cbrIntervalSamples (expand (rx_channelLoadSamples rx))) / real cbrIntervalSamples
    \<and> length (expand (take k (rx_channelLoadSamples rx))) < cbrIntervalSamples
    \<and> (if k < length (rx_channelLoadSamples rx) then cbrIntervalSamples \<le> length (expand (take (Suc k) (rx_channelLoadSamples rx)))
       else k = length (rx_channelLoadSamples rx))"
proof -
  obtain k where k: "snd (report_loop (rx_channelLoadSamples rx) 0 0) = take k (rx_channelLoadSamples rx)" "k \<le> length (rx_channelLoadSamples rx)"
    "length (expand (take k (rx_channelLoadSamples rx))) < cbrIntervalSamples"
    "k < length (rx_channelLoadSamples rx) \<longrightarrow> cbrIntervalSamples \<le> length (expand (take (Suc k) (rx_channelLoadSamples rx)))"
    using report_loop_kept [OF assms, of 0 0] by (auto simp: cbrIntervalSamples_def)
  have "fst (reportChannelLoad rx) = rx\<lparr>rx_channelLoadSamples := take k (rx_channelLoadSamples rx), rx_channelBusyRatio := snd (reportChannelLoad rx)\<rparr>"
    by (simp add: reportChannelLoad_def Let_def case_prod_beta k(1))
  then show ?thesis using report_busy [OF assms] k(2-4)
    by (intro exI [of _ k] exI [of _ "snd (reportChannelLoad rx)"]) (auto simp: prod_eq_iff)
qed

lemma load_in_range:
  assumes "periods_short (rx_channelLoadSamples rx)"
  shows "0 \<le> snd (reportChannelLoad rx) \<and> snd (reportChannelLoad rx) \<le> 1"
proof -
  have "unat (fst (report_loop (rx_channelLoadSamples rx) 0 0)) \<le> cbrIntervalSamples"
    using report_loop_busy [OF assms, of 0 0] busy_samples_le by (simp add: cbrIntervalSamples_def)
  then show ?thesis unfolding report_ratio by (simp add: cbrIntervalSamples_def del: of_nat_unat)
qed

text \<open>A period across the end of the interval is erased as a whole although a part of it belongs to the next interval as well: without a
  change of the medium in between, the next report of a busy medium is zero.\<close>

theorem report_forgets_long_period:
  assumes "rx_channelLoadSamples rx = [(n, True)]" and "cbrIntervalSamples \<le> unat n" and "unat n < 2 ^ 32 - cbrIntervalSamples"
  shows "snd (reportChannelLoad rx) = 1 \<and> snd (reportChannelLoad (fst (reportChannelLoad rx))) = 0"
proof -
  have "\<not> n < 12500" using assms(2) by (simp add: word_less_nat_alt cbrIntervalSamples_def)
  moreover have "snd (reportChannelLoad rx) = 1"
    using report_busy [of rx] assms by (simp add: periods_short_def expand_def busy_samples_def cbrIntervalSamples_def)
  ultimately show ?thesis using assms(1) by (simp add: reportChannelLoad_def cbrIntervalSamples_def)
qed

section \<open>The reception process as a whole\<close>

text \<open>The cached state of the medium is the computed one, all contentions know it, periods do not overflow, and the last update is not in
  the future.\<close>

definition rx_ok :: "simtime \<Rightarrow> VanetRx \<Rightarrow> bool" where
  "rx_ok now rx \<longleftrightarrow> rx_mediumFree rx = medium_free rx \<and> (\<forall>c \<in> set (rx_contentions rx). fst c = rx_mediumFree rx)
     \<and> periods_short (rx_channelLoadSamples rx) \<and> 0 \<le> rx_channelLoadLastUpdate rx \<and> rx_channelLoadLastUpdate rx \<le> now"

text \<open>A run of 34000 seconds stays clear of the overflow of a period's length.\<close>

definition run_limit :: simtime where "run_limit = simtime_s 34000"

lemma fill_short:
  assumes "0 \<le> upd" and "upd \<le> now" and "now < run_limit"
  shows "unat (word_of_int ((now - upd) div symbolPeriod) :: 32 word) < 2 ^ 32 - cbrIntervalSamples"
proof -
  let ?n = "(now - upd) div symbolPeriod"
  have "?n \<le> run_limit div symbolPeriod" using assms by (intro zdiv_mono1) (simp_all add: symbolPeriod_def simtime_us_def)
  then have n: "0 \<le> ?n" "?n \<le> 4250000000" using assms(2) by (simp_all add: run_limit_def symbolPeriod_def simtime_us_def simtime_s_def)
  then have "uint (word_of_int ?n :: 32 word) = ?n" by (simp add: uint_word_of_int_eq take_bit_int_eq_self)
  then have "unat (word_of_int ?n :: 32 word) = nat ?n" by (simp only: unat_eq_nat_uint)
  moreover have "nat ?n < 2 ^ 32 - cbrIntervalSamples" using n by (simp add: nat_less_iff cbrIntervalSamples_def)
  ultimately show ?thesis by simp
qed

lemma recompute_ok:
  assumes "\<forall>c \<in> set (rx_contentions rx). fst c = rx_mediumFree rx" and "periods_short (rx_channelLoadSamples rx)"
    and "0 \<le> rx_channelLoadLastUpdate rx" and "rx_channelLoadLastUpdate rx \<le> now" and "now < run_limit"
  shows "rx_ok now (VanetRx_recomputeMediumFree now rx)"
  using assms fill_short [OF assms(3,4,5)]
  by (auto simp: rx_ok_def VanetRx_recomputeMediumFree_def Rx_recomputeMediumFree_def Let_def medium_free_def periods_short_def)

lemma recompute_changed:
  assumes "rx_ok now rx" and "now < run_limit" and "rx_contentions rx' = rx_contentions rx" and "rx_mediumFree rx' = rx_mediumFree rx"
    and "rx_channelLoadSamples rx' = rx_channelLoadSamples rx" and "rx_channelLoadLastUpdate rx' = rx_channelLoadLastUpdate rx"
  shows "rx_ok now (VanetRx_recomputeMediumFree now rx')"
  by (rule recompute_ok) (use assms in \<open>simp_all add: rx_ok_def\<close>)

lemma report_keeps_short: "periods_short periods \<Longrightarrow> periods_short (snd (report_loop periods samples busy))"
  by (induction periods samples busy rule: report_loop.induct) (auto simp: periods_short_def Let_def)

lemma rx_ok_frame: "rx_ok now rx \<Longrightarrow> now \<le> now' \<Longrightarrow> rx_ok now' rx"
  by (auto simp: rx_ok_def)

lemma setOrExtendNav_ok:
  assumes "rx_ok now rx" and "now < run_limit" and "setOrExtendNav now d rx = Inr rx'"
  shows "rx_ok now rx'"
proof -
  have "rx_ok now (VanetRx_recomputeMediumFree now (rx\<lparr>rx_endNav := Some (now + d)\<rparr>))" by (rule recompute_changed [OF assms(1,2)]) simp_all
  then show ?thesis using assms(1,3) by (auto simp: setOrExtendNav_def Let_def split: if_splits option.splits)
qed

lemma handle_ok:
  assumes "rx_ok now rx" and "now < run_limit" and "VanetRx_handle now ev rx = Inr (rx', load)"
  shows "rx_ok now rx' \<and> (\<forall>l. load = Some l \<longrightarrow> 0 \<le> l \<and> l \<le> 1)"
proof (cases ev)
  case (FrameTransmitted d)
  then show ?thesis using assms setOrExtendNav_ok by (auto simp: rmap_ok_iff)
next
  case (LowerFrameReceived ok own d)
  have "rx_ok now (rx\<lparr>rx_contentions := map (apsnd Suc) (rx_contentions rx)\<rparr>)" using assms(1) by (simp add: rx_ok_def medium_free_def)
  with LowerFrameReceived assms setOrExtendNav_ok [OF assms(1,2)] show ?thesis by (auto simp: rmap_ok_iff split: if_splits)
next
  case RegisterContention
  then show ?thesis using assms by (auto simp: rx_ok_def medium_free_def)
next
  case ChannelReport
  have "0 \<le> snd (reportChannelLoad rx) \<and> snd (reportChannelLoad rx) \<le> 1" using assms(1) by (intro load_in_range) (simp add: rx_ok_def)
  moreover have "rx_ok now ((fst (reportChannelLoad rx))\<lparr>rx_channelReport := t\<rparr>)" for t
    using assms(1) report_keeps_short [of "rx_channelLoadSamples rx" 0 0]
    by (simp add: rx_ok_def reportChannelLoad_def medium_free_def Let_def case_prod_beta)
  ultimately show ?thesis using assms(3) ChannelReport by (auto simp: Let_def split: prod.splits)
qed (use assms(3) recompute_changed [OF assms(1,2)] in auto)


text \<open>A run: events at times, with the loads reported.\<close>

fun rx_run :: "(simtime \<times> RxEvent) list \<Rightarrow> VanetRx \<Rightarrow> (VanetRx \<times> real list) result" where
  "rx_run [] rx = Inr (rx, [])"
| "rx_run ((now, ev) # evs) rx =
     rbind (VanetRx_handle now ev rx) (\<lambda>(rx, load). rmap (\<lambda>(rx, loads). (rx, (case load of None \<Rightarrow> loads | Some l \<Rightarrow> l # loads))) (rx_run evs rx))"

lemma rx_run_ok:
  assumes "rx_run evs rx = Inr (rx', loads)" and "rx_ok t rx" and "sorted (t # map fst evs)" and "\<forall>e \<in> set evs. fst e < run_limit"
  shows "(\<exists>t'. rx_ok t' rx') \<and> (\<forall>l \<in> set loads. 0 \<le> l \<and> l \<le> 1)"
  using assms
proof (induction evs arbitrary: rx loads t)
  case (Cons e evs)
  obtain now ev where e: "e = (now, ev)" by (cases e)
  obtain rx1 load loads1 where step: "VanetRx_handle now ev rx = Inr (rx1, load)" "rx_run evs rx1 = Inr (rx', loads1)"
    "loads = (case load of None \<Rightarrow> loads1 | Some l \<Rightarrow> l # loads1)"
    using Cons.prems(1) unfolding e by (auto simp: rbind_ok_iff rmap_ok_iff)
  have "rx_ok now rx" using rx_ok_frame [OF Cons.prems(2)] Cons.prems(3) e by simp
  from handle_ok [OF this _ step(1)] Cons.prems(4) e have h: "rx_ok now rx1" "\<forall>l. load = Some l \<longrightarrow> 0 \<le> l \<and> l \<le> 1" by auto
  from Cons.IH [OF step(2) h(1)] Cons.prems(3,4) e have "(\<exists>t'. rx_ok t' rx') \<and> (\<forall>l \<in> set loads1. 0 \<le> l \<and> l \<le> 1)" by simp
  with h(2) step(3) show ?case by (auto split: option.splits)
qed auto

lemma initialize_ok:
  assumes "0 \<le> t" and "t < run_limit"
  shows "rx_ok t (VanetRx_initialize t)"
  unfolding VanetRx_initialize_def by (rule recompute_ok) (use assms in \<open>simp_all add: periods_short_def cbrIntervalSamples_def\<close>)

text \<open>In every run of at most 34000 seconds from the start of the module, whatever the radio does, all reported loads are between zero and
  one, the cached state of the medium is the computed one and all contentions know it.\<close>

theorem reported_loads_in_range:
  assumes "rx_run evs (VanetRx_initialize t) = Inr (rx, loads)" and "0 \<le> t" and "sorted (t # map fst evs)" and "\<forall>e \<in> set evs. fst e < run_limit" and "t < run_limit"
  shows "(\<forall>l \<in> set loads. 0 \<le> l \<and> l \<le> 1) \<and> rx_mediumFree rx = medium_free rx \<and> (\<forall>c \<in> set (rx_contentions rx). fst c = rx_mediumFree rx)"
  using rx_run_ok [OF assms(1) initialize_ok [OF assms(2,5)] assms(3,4)] by (auto simp: rx_ok_def)

section \<open>Single samples\<close>

lemma push_back_length: "length xs \<le> cap \<Longrightarrow> length (push_back cap x xs) \<le> cap"
  by (auto simp: push_back_def)

lemma push_back_power:
  assumes "length xs \<le> cap"
  shows "(push_back cap x ^^ n) xs = drop (length xs + n - cap) (xs @ replicate n x)"
  using assms
proof (induction n)
  case (Suc n)
  let ?ys = "xs @ replicate n x" and ?k = "length xs + n - cap"
  have "push_back cap x (drop ?k ?ys) = drop (Suc (length (drop ?k ?ys)) - cap) (drop ?k ?ys @ [x])" by (simp add: push_back_def)
  also have "drop ?k ?ys @ [x] = drop ?k (?ys @ [x])" by simp
  also have "drop (Suc (length (drop ?k ?ys)) - cap) (drop ?k (?ys @ [x])) = drop (length xs + Suc n - cap) (?ys @ [x])"
  proof -
    have "Suc (length (drop ?k ?ys)) - cap + ?k = length xs + Suc n - cap" by simp
    then show ?thesis by (simp only: drop_drop)
  qed
  finally show ?case using Suc by (simp add: replicate_append_same)
qed simp

text \<open>The buffer keeps the most recent samples, and the load is the share of busy ones: it is between zero and one.\<close>

theorem measurements_keep_recent:
  assumes "length (cl_samples m) \<le> cbrIntervalSamples"
  shows "cl_samples (ChannelLoadMeasurements_fill now busy m)
      = (let all = cl_samples m @ replicate (nat ((now - cl_last_update m) div simtime_us 8)) (cl_busy m)
         in drop (length all - cbrIntervalSamples) all)
    \<and> 0 \<le> snd (channel_load now m) \<and> snd (channel_load now m) \<le> 1"
proof -
  have fill: "cl_samples (ChannelLoadMeasurements_fill now b m)
      = (let all = cl_samples m @ replicate (nat ((now - cl_last_update m) div simtime_us 8)) (cl_busy m)
         in drop (length all - cbrIntervalSamples) all)" for b
    using push_back_power [OF assms] by (simp add: ChannelLoadMeasurements_fill_def Let_def)
  have "length (filter id (cl_samples (ChannelLoadMeasurements_fill now (cl_busy m) m))) \<le> cbrIntervalSamples"
    by (rule order_trans [OF length_filter_le]) (simp add: fill Let_def)
  then show ?thesis using fill by (simp add: channel_load_def Let_def cbrIntervalSamples_def)
qed

text \<open>Every signal restarts the count of a symbol period: busy and free periods that are shorter than a symbol period leave no sample at
  all, however many there are.\<close>

theorem short_periods_leave_no_sample:
  assumes "sorted_wrt (\<lambda>a b. a \<le> b) (cl_last_update m # map fst signals)"
    and "\<forall>i < length signals. fst (signals ! i) - (cl_last_update m # map fst signals) ! i < simtime_us 8"
  shows "cl_samples (fold (\<lambda>(now, busy). ChannelLoadMeasurements_fill now busy) signals m) = cl_samples m"
  using assms
proof (induction signals arbitrary: m)
  case (Cons s signals)
  obtain now busy where s: "s = (now, busy)" by (cases s)
  let ?m = "ChannelLoadMeasurements_fill now busy m"
  have "(now - cl_last_update m) div simtime_us 8 = 0"
    using Cons.prems(1) Cons.prems(2) [rule_format, of 0] by (simp add: s simtime_us_def div_pos_pos_trivial)
  then have m: "cl_samples ?m = cl_samples m" "cl_last_update ?m = now" by (simp_all add: ChannelLoadMeasurements_fill_def Let_def)
  have "\<forall>i < length signals. fst (signals ! i) - (cl_last_update ?m # map fst signals) ! i < simtime_us 8"
  proof (intro allI impI)
    fix i assume "i < length signals"
    then show "fst (signals ! i) - (cl_last_update ?m # map fst signals) ! i < simtime_us 8"
      using Cons.prems(2) [rule_format, of "Suc i"] by (simp add: s m(2))
  qed
  with Cons.IH [of ?m] Cons.prems(1) show ?case by (simp add: s m)
qed simp


section \<open>Examples\<close>

definition busy_rx :: VanetRx where
  "busy_rx = (VanetRx_initialize 0)\<lparr>rx_channelLoadSamples := [(2500, True), (12500, False)]\<rparr>"

theorem channel_load_counts_samples_witness: "snd (reportChannelLoad busy_rx) = 1/5"
proof -
  have "periods_short (rx_channelLoadSamples busy_rx)" by (simp add: busy_rx_def periods_short_def cbrIntervalSamples_def)
  from channel_load_counts_samples [OF this]
  have "snd (reportChannelLoad busy_rx) = real (busy_samples cbrIntervalSamples (expand (rx_channelLoadSamples busy_rx))) / real cbrIntervalSamples"
    by (metis snd_conv)
  also have "\<dots> = 1/5" by (simp add: busy_rx_def expand_def busy_samples_def cbrIntervalSamples_def)
  finally show ?thesis .
qed

theorem report_forgets_long_period_witness:
  "snd (reportChannelLoad (busy_rx\<lparr>rx_channelLoadSamples := [(25000, True)]\<rparr>)) = 1
   \<and> snd (reportChannelLoad (fst (reportChannelLoad (busy_rx\<lparr>rx_channelLoadSamples := [(25000, True)]\<rparr>)))) = 0"
  by (rule report_forgets_long_period [of _ 25000]) (simp_all add: cbrIntervalSamples_def)

theorem reported_loads_in_range_witness:
  "\<exists>rx loads. rx_run [(simtime_us 80, ReceptionStateChanged RECEPTION_STATE_IDLE), (simtime_ms 100, ChannelReport)] (VanetRx_initialize 0) = Inr (rx, loads)
     \<and> (\<forall>l \<in> set loads. l \<le> 1)"
proof -
  let ?evs = "[(simtime_us 80, ReceptionStateChanged RECEPTION_STATE_IDLE), (simtime_ms 100, ChannelReport)]"
  obtain rx loads where run: "rx_run ?evs (VanetRx_initialize 0) = Inr (rx, loads)" by (simp add: case_prod_beta)
  have "sorted (0 # map fst ?evs)" "\<forall>e \<in> set ?evs. fst e < run_limit" "0 < run_limit"
    by (simp_all add: simtime_us_def simtime_ms_def run_limit_def simtime_s_def)
  from reported_loads_in_range [OF run _ this] run show ?thesis by auto
qed

definition veins_example :: ChannelLoadMeasurements where
  "veins_example = \<lparr>cl_samples = [False, False], cl_last_update = 0, cl_busy = True\<rparr>"

theorem measurements_keep_recent_witness:
  "cl_samples (ChannelLoadMeasurements_fill (simtime_us 30) False veins_example) = [False, False, True, True, True] \<and> snd (channel_load (simtime_us 30) veins_example) \<le> 1"
proof -
  have "length (cl_samples veins_example) \<le> cbrIntervalSamples" by (simp add: veins_example_def cbrIntervalSamples_def)
  from measurements_keep_recent [OF this, of "simtime_us 30" False] show ?thesis
    by (simp add: veins_example_def simtime_us_def cbrIntervalSamples_def numeral_3_eq_3)
qed

theorem short_periods_leave_no_sample_witness:
  "cl_samples (fold (\<lambda>(now, busy). ChannelLoadMeasurements_fill now busy)
     [(simtime_us 7, False), (simtime_us 14, True), (simtime_us 21, False), (simtime_us 28, True)] veins_example) = [False, False]"
proof -
  let ?signals = "[(simtime_us 7, False), (simtime_us 14, True), (simtime_us 21, False), (simtime_us 28, True)]"
  have "sorted_wrt (\<lambda>a b. a \<le> b) (cl_last_update veins_example # map fst ?signals)" by (simp add: veins_example_def simtime_us_def)
  moreover have "\<forall>i < length ?signals. fst (?signals ! i) - (cl_last_update veins_example # map fst ?signals) ! i < simtime_us 8"
    by (simp add: veins_example_def simtime_us_def All_less_Suc nth_Cons')
  ultimately show ?thesis using short_periods_leave_no_sample [of veins_example ?signals] by (simp add: veins_example_def)
qed


end
