(* ===== verification/DccMachines.thy ===== *)
theory DccMachines
  imports ChannelLoads
begin

text \<open>
  Decentralised congestion control, \<open>vanetza/dcc\<close>: numbers of the unit interval, the two reactive state machines, the smoothing of the
  measured channel load, and the adaptive algorithm LIMERIC.  Durations and time points count microseconds.
\<close>

section \<open>Numbers of the unit interval\<close>

text \<open>A \<open>UnitInterval\<close> is the real number it holds.\<close>

definition unit_clamp :: "real \<Rightarrow> real" where
  "unit_clamp v = (if v > 1 then 1 else if v < 0 then 0 else v)"

definition unit_mean :: "real \<Rightarrow> real \<Rightarrow> real" where
  "unit_mean lhs rhs = unit_clamp (1/2 * (lhs + rhs))"

definition unit_mean_range :: "real list \<Rightarrow> real" where
  "unit_mean_range xs = unit_clamp (if length xs > 1 then sum_list xs / real (length xs) else sum_list xs)"

definition unit_complement :: "real \<Rightarrow> real" where "unit_complement v = 1 - v"

lemma unit_clamp_range [simp]: "0 \<le> unit_clamp v" "unit_clamp v \<le> 1"
  by (simp_all add: unit_clamp_def)

lemma unit_clamp_id: "0 \<le> v \<Longrightarrow> v \<le> 1 \<Longrightarrow> unit_clamp v = v"
  by (simp add: unit_clamp_def)

lemma unit_clamp_le: "0 \<le> b \<Longrightarrow> v \<le> b \<Longrightarrow> unit_clamp v \<le> b"
  by (simp add: unit_clamp_def)

abbreviation in_unit :: "real \<Rightarrow> bool" where "in_unit v \<equiv> 0 \<le> v \<and> v \<le> 1"

section \<open>The fully meshed state machine\<close>

definition msec :: "int \<Rightarrow> int" where "msec n = 1000 * n"

definition N_samples_up :: nat where "N_samples_up = 10"

definition N_samples_down :: nat where "N_samples_down = 50"

definition NDL_minChannelLoad :: real where "NDL_minChannelLoad = 19/100"

definition NDL_maxChannelLoad :: real where "NDL_maxChannelLoad = 59/100"

datatype FmState = Relaxed | Active | Restrictive

record FullyMeshedStateMachine =
  fm_state :: FmState
  fm_substate :: nat
  fm_channel_loads :: "real list"

definition active_loads :: "real list" where "active_loads = [27/100, 35/100, 43/100, 51/100, 59/100]"

text \<open>\<open>std::upper_bound\<close> moves right past the elements that are not greater.\<close>

definition upper_bound :: "real \<Rightarrow> real list \<Rightarrow> nat" where
  "upper_bound v xs = lower_bound (\<lambda>x. \<not> v < x) xs 0 (length xs)"

definition Active_update :: "real \<Rightarrow> real \<Rightarrow> nat result" where
  "Active_update min_cl max_cl =
     (if min_cl \<le> max_cl then
        (let state_up = upper_bound min_cl active_loads; state_down = upper_bound max_cl active_loads
         in Inr (min 4 (max state_up state_down)))
      else Inl AssertionFailed)"

definition Active_transmission_interval :: "nat \<Rightarrow> int" where
  "Active_transmission_interval substate = [msec 100, msec 180, msec 260, msec 340, msec 420] ! min 4 substate"

text \<open>The smallest of the most recent loads, beginning with infinity.\<close>

definition min_channel_load :: "FullyMeshedStateMachine \<Rightarrow> real" where
  "min_channel_load m =
     (case fold (\<lambda>sample min_cl. case min_cl of None \<Rightarrow> Some sample | Some v \<Rightarrow> if sample < v then Some sample else Some v)
        (take N_samples_up (fm_channel_loads m)) None of None \<Rightarrow> 0 | Some v \<Rightarrow> v)"

definition max_channel_load :: "FullyMeshedStateMachine \<Rightarrow> real" where
  "max_channel_load m = fold (\<lambda>sample max_cl. if sample > max_cl then sample else max_cl) (take N_samples_down (fm_channel_loads m)) 0"

definition FullyMeshedStateMachine_new :: FullyMeshedStateMachine where
  "FullyMeshedStateMachine_new = \<lparr>fm_state = Relaxed, fm_substate = 0, fm_channel_loads = []\<rparr>"

definition fm_activate :: "FullyMeshedStateMachine \<Rightarrow> FullyMeshedStateMachine result" where
  "fm_activate m = rmap (\<lambda>substate. m\<lparr>fm_state := Active, fm_substate := substate\<rparr>) (Active_update (min_channel_load m) (max_channel_load m))"

definition FullyMeshedStateMachine_update :: "real \<Rightarrow> FullyMeshedStateMachine \<Rightarrow> FullyMeshedStateMachine result" where
  "FullyMeshedStateMachine_update cl m0 =
     (let m = m0\<lparr>fm_channel_loads := push_front (max N_samples_up N_samples_down) cl (fm_channel_loads m0)\<rparr>
      in case fm_state m of
           Relaxed \<Rightarrow> if min_channel_load m \<ge> NDL_minChannelLoad then fm_activate m else Inr m
         | Restrictive \<Rightarrow> if max_channel_load m < NDL_maxChannelLoad then fm_activate m else Inr m
         | Active \<Rightarrow>
             if max_channel_load m < NDL_minChannelLoad then Inr (m\<lparr>fm_state := Relaxed\<rparr>)
             else if min_channel_load m \<ge> NDL_maxChannelLoad then Inr (m\<lparr>fm_state := Restrictive\<rparr>)
             else fm_activate m)"

definition fm_transmission_interval :: "FullyMeshedStateMachine \<Rightarrow> int" where
  "fm_transmission_interval m =
     (case fm_state m of Relaxed \<Rightarrow> msec 60 | Active \<Rightarrow> Active_transmission_interval (fm_substate m) | Restrictive \<Rightarrow> msec 460)"

definition fm_message_rate :: "FullyMeshedStateMachine \<Rightarrow> real" where
  "fm_message_rate m = 1000000 / real_of_int (fm_transmission_interval m)"

section \<open>The gradual state machine\<close>

text \<open>A state has a lower limit and an off time; the container is ordered by the limits, and the current state is a position in it.\<close>

record GradualStateMachine =
  gs_states :: "(real, int) omap"
  gs_current :: nat

definition etsiStates1ms :: "(real, int) omap" where
  "etsiStates1ms = [(0, msec 100), (3/10, msec 200), (4/10, msec 400), (5/10, msec 500), (6/10, msec 1000)]"

definition etsiStates500us :: "(real, int) omap" where
  "etsiStates500us = [(0, msec 50), (3/10, msec 100), (4/10, msec 200), (5/10, msec 250), (65/100, msec 1000)]"

definition GradualStateMachine_new :: "(real, int) omap \<Rightarrow> GradualStateMachine" where
  "GradualStateMachine_new states = \<lparr>gs_states = (if states = [] then [(0, 0)] else states), gs_current = 0\<rparr>"

definition GradualStateMachine_update :: "real \<Rightarrow> GradualStateMachine \<Rightarrow> GradualStateMachine" where
  "GradualStateMachine_update cbr m =
     (if cbr < fst (gs_states m ! gs_current m) then (if gs_current m \<noteq> 0 then m\<lparr>gs_current := gs_current m - 1\<rparr> else m)
      else (let up = Suc (gs_current m)
            in if up \<noteq> length (gs_states m) \<and> cbr \<ge> fst (gs_states m ! up) then m\<lparr>gs_current := up\<rparr> else m))"

definition gs_transmission_interval :: "GradualStateMachine \<Rightarrow> int" where
  "gs_transmission_interval m = snd (gs_states m ! gs_current m)"

text \<open>The number of an active state is written in decimal by the argument.\<close>

definition gs_state :: "(nat \<Rightarrow> string) \<Rightarrow> GradualStateMachine \<Rightarrow> string" where
  "gs_state decimal m =
     (if gs_current m = 0 then ''Relaxed''
      else if gs_current m = length (gs_states m) - 1 then ''Restrictive''
      else ''Active '' @ decimal (gs_current m))"

section \<open>Smoothing\<close>

text \<open>A processor without smoothing hands on the load it gets; \<open>scp_alpha\<close> is the influence of a new load.\<close>

record SmoothingChannelProbeProcessor =
  scp_alpha :: real
  scp_channel_load :: real

definition SmoothingChannelProbeProcessor_indicate :: "real \<Rightarrow> SmoothingChannelProbeProcessor \<Rightarrow> SmoothingChannelProbeProcessor \<times> real" where
  "SmoothingChannelProbeProcessor_indicate cl p =
     (let load = unit_clamp (scp_alpha p * cl + unit_complement (scp_alpha p) * scp_channel_load p)
      in (p\<lparr>scp_channel_load := load\<rparr>, load))"

section \<open>LIMERIC\<close>

record LimericParameters =
  lp_alpha :: real
  lp_beta :: real
  lp_delta_max :: real
  lp_delta_min :: real
  lp_g_plus_max :: real
  lp_g_minus_max :: real
  lp_cbr_target :: real
  lp_cbr_interval :: int

definition limericDefaultParams :: LimericParameters where
  "limericDefaultParams = \<lparr>lp_alpha = 16/1000, lp_beta = 12/10000, lp_delta_max = 3/100, lp_delta_min = 6/10000, lp_g_plus_max = 5/10000,
     lp_g_minus_max = - (25/100000), lp_cbr_target = 68/100, lp_cbr_interval = msec 100\<rparr>"

text \<open>The buffer of loads has room for two; \<open>li_scheduled\<close> is the time the next calculation is scheduled for.\<close>

record Limeric =
  li_params :: LimericParameters
  li_channel_load :: real
  li_duty_cycle :: real
  li_cbr :: "real list"
  li_scheduled :: int

definition limeric_time :: "LimericParameters \<Rightarrow> int \<Rightarrow> int" where
  "limeric_time params now =
     (let scheduling_interval = 2 * lp_cbr_interval params;
          tp = now + scheduling_interval;
          scheduling_bias = crem tp scheduling_interval
      in if scheduling_bias > lp_cbr_interval params then tp + (scheduling_interval - scheduling_bias)
         else if scheduling_bias > 0 then tp - scheduling_bias
         else tp)"

definition Limeric_schedule :: "int \<Rightarrow> Limeric \<Rightarrow> Limeric" where
  "Limeric_schedule now l = l\<lparr>li_scheduled := limeric_time (li_params l) now\<rparr>"

definition Limeric_new :: "int \<Rightarrow> LimericParameters \<Rightarrow> Limeric" where
  "Limeric_new now params =
     Limeric_schedule now \<lparr>li_params = params, li_channel_load = 0, li_duty_cycle = unit_mean (lp_delta_max params) (lp_delta_min params),
       li_cbr = [], li_scheduled = 0\<rparr>"

definition Limeric_average_cbr :: "Limeric \<Rightarrow> real" where
  "Limeric_average_cbr l =
     (if length (li_cbr l) = 2 then unit_clamp (unit_clamp (unit_mean_range (li_cbr l) * (1/2)) + unit_clamp (li_channel_load l * (1/2)))
      else li_channel_load l)"

definition Limeric_update_cbr :: "real \<Rightarrow> Limeric \<Rightarrow> Limeric" where
  "Limeric_update_cbr cbr l =
     (let full = (length (li_cbr l) = 2); l = l\<lparr>li_cbr := push_back 2 cbr (li_cbr l)\<rparr>
      in if \<not> full then l\<lparr>li_channel_load := unit_mean_range (li_cbr l)\<rparr> else l)"

definition Limeric_calculate_duty_cycle :: "Limeric \<Rightarrow> real" where
  "Limeric_calculate_duty_cycle l =
     (let p = li_params l;
          cbr_delta = lp_cbr_target p - li_channel_load l;
          delta_offset = (if cbr_delta > 0 then min (lp_beta p * cbr_delta) (lp_g_plus_max p) else max (lp_beta p * cbr_delta) (lp_g_minus_max p));
          delta = unit_clamp (unit_complement (lp_alpha p) * li_duty_cycle l + delta_offset)
      in min (max delta (lp_delta_min p)) (lp_delta_max p))"

text \<open>A calculation ends with telling the listener the new duty cycle and scheduling the next one.\<close>

definition Limeric_calculate :: "int \<Rightarrow> Limeric \<Rightarrow> Limeric" where
  "Limeric_calculate now l =
     (let l1 = l\<lparr>li_channel_load := Limeric_average_cbr l\<rparr>; l2 = l1\<lparr>li_duty_cycle := Limeric_calculate_duty_cycle l1\<rparr>
      in Limeric_schedule now l2)"

section \<open>Lemmas on the fully meshed machine\<close>

lemma fold_min_Some:
  "fold (\<lambda>sample min_cl. case min_cl of None \<Rightarrow> Some sample | Some v \<Rightarrow> if sample < v then Some sample else Some v) xs (Some v)
   = Some (Min (insert (v :: real) (set xs)))"
proof (induction xs arbitrary: v)
  case (Cons x xs)
  have "(if x < v then Some x else Some v) = Some (min v x)" by simp
  then show ?case using Cons.IH [of "min v x"] by (cases "xs = []") (simp_all add: Min_insert insert_commute min.assoc)
qed simp

lemma min_channel_load_ge:
  "c \<le> min_channel_load m \<longleftrightarrow> (if take N_samples_up (fm_channel_loads m) = [] then c \<le> 0 else \<forall>x \<in> set (take N_samples_up (fm_channel_loads m)). c \<le> x)"
  by (cases "fm_channel_loads m") (simp_all add: min_channel_load_def fold_min_Some N_samples_up_def)

lemma fold_max: "fold (\<lambda>sample max_cl. if sample > max_cl then sample else max_cl) xs (v :: real) = Max (insert v (set xs))"
proof (induction xs arbitrary: v)
  case (Cons x xs)
  have "(if x > v then x else v) = max v x" by simp
  then show ?case using Cons.IH [of "max v x"] by (cases "xs = []") (simp_all add: Max_insert insert_commute max.assoc)
qed simp

lemma max_channel_load_less: "0 < c \<Longrightarrow> max_channel_load m < c \<longleftrightarrow> (\<forall>x \<in> set (take N_samples_down (fm_channel_loads m)). x < c)"
  by (simp add: max_channel_load_def fold_max)

lemma max_channel_load_ge: "x \<in> set (take N_samples_down (fm_channel_loads m)) \<Longrightarrow> x \<le> max_channel_load m" "0 \<le> max_channel_load m"
  by (simp_all add: max_channel_load_def fold_max)

definition fm_ok :: "FullyMeshedStateMachine \<Rightarrow> bool" where
  "fm_ok m \<longleftrightarrow> length (fm_channel_loads m) \<le> N_samples_down \<and> (\<forall>x \<in> set (fm_channel_loads m). in_unit x) \<and> fm_substate m < 5"

text \<open>The assertion of the active state: the minimum of the last second is not above the maximum of the last five.\<close>

lemma min_le_max: "min_channel_load m \<le> max_channel_load m"
proof (cases "fm_channel_loads m")
  case (Cons x xs)
  have x: "x \<in> set (take N_samples_up (fm_channel_loads m))" "x \<in> set (take N_samples_down (fm_channel_loads m))"
    by (simp_all add: Cons N_samples_up_def N_samples_down_def)
  then have "min_channel_load m \<le> x" using min_channel_load_ge [of "min_channel_load m" m] by (auto split: if_splits)
  also have "x \<le> max_channel_load m" by (rule max_channel_load_ge(1) [OF x(2)])
  finally show ?thesis .
qed (simp add: min_channel_load_def max_channel_load_ge(2))

lemma fm_activate_total: "\<exists>s < 5. fm_activate m = Inr (m\<lparr>fm_state := Active, fm_substate := s\<rparr>)"
  by (intro exI [of _ "min 4 (max (upper_bound (min_channel_load m) active_loads) (upper_bound (max_channel_load m) active_loads))"])
    (simp add: fm_activate_def Active_update_def min_le_max Let_def)

definition pushed :: "real \<Rightarrow> FullyMeshedStateMachine \<Rightarrow> real list" where
  "pushed cl m = take 50 (cl # fm_channel_loads m)"

definition all_recent :: "nat \<Rightarrow> (real \<Rightarrow> bool) \<Rightarrow> real list \<Rightarrow> bool" where
  "all_recent n P loads \<longleftrightarrow> (\<forall>x \<in> set (take n loads). P x)"

lemma NDL_order: "0 < NDL_minChannelLoad" "0 < NDL_maxChannelLoad" "NDL_minChannelLoad < NDL_maxChannelLoad" "NDL_maxChannelLoad < 1"
  by (simp_all add: NDL_minChannelLoad_def NDL_maxChannelLoad_def)

lemma fm_update_transitions_aux:
  assumes "fm_ok m" and "in_unit cl"
  shows "\<exists>m'. FullyMeshedStateMachine_update cl m = Inr m' \<and> fm_ok m' \<and> fm_channel_loads m' = pushed cl m
    \<and> fm_state m' = (case fm_state m of
        Relaxed \<Rightarrow> if all_recent 10 (\<lambda>x. NDL_minChannelLoad \<le> x) (pushed cl m) then Active else Relaxed
      | Restrictive \<Rightarrow> if all_recent 50 (\<lambda>x. x < NDL_maxChannelLoad) (pushed cl m) then Active else Restrictive
      | Active \<Rightarrow> if all_recent 50 (\<lambda>x. x < NDL_minChannelLoad) (pushed cl m) then Relaxed
                  else if all_recent 10 (\<lambda>x. NDL_maxChannelLoad \<le> x) (pushed cl m) then Restrictive else Active)"
proof -
  let ?m = "m\<lparr>fm_channel_loads := pushed cl m\<rparr>"
  have push: "push_front (max N_samples_up N_samples_down) cl (fm_channel_loads m) = pushed cl m"
    by (simp add: push_front_def pushed_def N_samples_up_def N_samples_down_def)
  have "pushed cl m \<noteq> []" by (simp add: pushed_def)
  then have ge: "c \<le> min_channel_load ?m \<longleftrightarrow> all_recent 10 (\<lambda>x. c \<le> x) (pushed cl m)" for c
    unfolding min_channel_load_ge by (simp add: all_recent_def N_samples_up_def)
  have "0 < c \<Longrightarrow> max_channel_load ?m < c \<longleftrightarrow> all_recent 50 (\<lambda>x. x < c) (pushed cl m)" for c
    by (simp add: max_channel_load_less all_recent_def N_samples_down_def)
  from this [OF NDL_order(1)] this [OF NDL_order(2)] have less: "max_channel_load ?m < NDL_minChannelLoad \<longleftrightarrow> all_recent 50 (\<lambda>x. x < NDL_minChannelLoad) (pushed cl m)"
    "max_channel_load ?m < NDL_maxChannelLoad \<longleftrightarrow> all_recent 50 (\<lambda>x. x < NDL_maxChannelLoad) (pushed cl m)" .
  have ok: "fm_ok (?m\<lparr>fm_state := s, fm_substate := k\<rparr>)" if "k < 5" for s k
    using assms that set_take_subset [of 50 "cl # fm_channel_loads m"] by (auto simp: fm_ok_def pushed_def N_samples_down_def)
  have okm: "fm_ok (?m\<lparr>fm_state := s\<rparr>)" "fm_ok ?m" for s
    using ok [of "fm_substate m" s] ok [of "fm_substate m" "fm_state m"] assms(1) by (simp_all add: fm_ok_def)
  obtain s where act: "fm_activate ?m = Inr (?m\<lparr>fm_state := Active, fm_substate := s\<rparr>)" "s < 5" using fm_activate_total by blast
  show ?thesis
    unfolding FullyMeshedStateMachine_update_def push Let_def ge less
    using ok [OF act(2)] okm act by (cases "fm_state m") simp_all
qed


text \<open>Whatever the loads, the interval between messages is between 60 and 460 milliseconds.\<close>

lemma fm_interval_range: "msec 60 \<le> fm_transmission_interval m \<and> fm_transmission_interval m \<le> msec 460"
proof -
  have "k < 5 \<Longrightarrow> [msec 100, msec 180, msec 260, msec 340, msec 420] ! k \<in> {msec 100 .. msec 420}" for k
    by (auto simp: msec_def less_Suc_eq numeral_eq_Suc)
  then have "[msec 100, msec 180, msec 260, msec 340, msec 420] ! min 4 (fm_substate m) \<in> {msec 100 .. msec 420}" by simp
  then show ?thesis
    by (cases "fm_state m") (auto simp: fm_transmission_interval_def Active_transmission_interval_def msec_def)
qed

lemma take_all_recent: "all_recent n P xs \<Longrightarrow> k \<le> n \<Longrightarrow> all_recent k P xs"
  by (metis all_recent_def set_take_subset_set_take subsetD)

text \<open>A step with a load below 19 percent, after 49 such loads.\<close>

lemma quiet_step:
  assumes "fm_ok m" and "0 \<le> cl" and "cl < NDL_minChannelLoad" and "all_recent 49 (\<lambda>x. x < NDL_minChannelLoad) (fm_channel_loads m)"
  shows "\<exists>m'. FullyMeshedStateMachine_update cl m = Inr m' \<and> fm_ok m' \<and> all_recent 50 (\<lambda>x. x < NDL_minChannelLoad) (fm_channel_loads m')
    \<and> fm_state m' = (if fm_state m = Restrictive then Active else Relaxed)"
proof -
  have recent: "all_recent 50 (\<lambda>x. x < NDL_minChannelLoad) (pushed cl m)" using assms(3,4) by (simp add: all_recent_def pushed_def)
  then have "all_recent 50 (\<lambda>x. x < NDL_maxChannelLoad) (pushed cl m)" using NDL_order(3) by (fastforce simp: all_recent_def)
  moreover have "\<not> all_recent 10 (\<lambda>x. NDL_minChannelLoad \<le> x) (pushed cl m)" using assms(3) by (simp add: all_recent_def pushed_def)
  ultimately show ?thesis using fm_update_transitions_aux [OF assms(1), of cl] assms(2,3) recent NDL_order by (cases "fm_state m") auto
qed

lemma busy_step:
  assumes "fm_ok m" and "NDL_maxChannelLoad \<le> cl" and "cl \<le> 1" and "all_recent 9 (\<lambda>x. NDL_maxChannelLoad \<le> x) (fm_channel_loads m)"
  shows "\<exists>m'. FullyMeshedStateMachine_update cl m = Inr m' \<and> fm_ok m' \<and> all_recent 10 (\<lambda>x. NDL_maxChannelLoad \<le> x) (fm_channel_loads m')
    \<and> fm_state m' = (if fm_state m = Relaxed then Active else Restrictive)"
proof -
  have recent: "all_recent 10 (\<lambda>x. NDL_maxChannelLoad \<le> x) (pushed cl m)" using assms(2,4) by (simp add: all_recent_def pushed_def)
  then have "all_recent 10 (\<lambda>x. NDL_minChannelLoad \<le> x) (pushed cl m)" using NDL_order(3) by (fastforce simp: all_recent_def)
  moreover have "\<not> all_recent 50 (\<lambda>x. x < NDL_maxChannelLoad) (pushed cl m)" "\<not> all_recent 50 (\<lambda>x. x < NDL_minChannelLoad) (pushed cl m)"
    using assms(2) NDL_order(3) by (simp_all add: all_recent_def pushed_def)
  ultimately show ?thesis using fm_update_transitions_aux [OF assms(1), of cl] assms(2,3) recent NDL_order by (cases "fm_state m") auto
qed

text \<open>A run of loads with one property fills the most recent loads.\<close>

lemma fm_fill:
  assumes "fm_ok m" and "\<forall>x \<in> set cls. in_unit x \<and> P x" and "length cls \<le> 50"
  shows "\<exists>m'. rfold FullyMeshedStateMachine_update cls m = Inr m' \<and> fm_ok m' \<and> all_recent (length cls) P (fm_channel_loads m')"
proof -
  have "\<exists>m'. rfold FullyMeshedStateMachine_update cls m = Inr m' \<and> fm_ok m' \<and> all_recent (length cls) P (fm_channel_loads m')"
  proof (rule rfold_total [where P = "\<lambda>ys m'. fm_ok m' \<and> all_recent (length ys) P (fm_channel_loads m')"])
    show "fm_ok m \<and> all_recent (length []) P (fm_channel_loads m)" using assms(1) by (simp add: all_recent_def)
  next
    fix ys x zs m1 assume split: "cls = ys @ x # zs" and m1: "fm_ok m1 \<and> all_recent (length ys) P (fm_channel_loads m1)"
    have x: "in_unit x" "P x" using assms(2) split by auto
    obtain m2 where m2: "FullyMeshedStateMachine_update x m1 = Inr m2" "fm_ok m2" "fm_channel_loads m2 = pushed x m1"
      using fm_update_transitions_aux [OF _ x(1)] m1 by blast
    have "all_recent (Suc (length ys)) P (pushed x m1)" using m1 x(2) assms(3) split by (simp add: all_recent_def pushed_def min_absorb1)
    with m2 show "\<exists>s'. FullyMeshedStateMachine_update x m1 = Inr s' \<and> fm_ok s' \<and> all_recent (length (ys @ [x])) P (fm_channel_loads s')" by simp
  qed
  then show ?thesis .
qed


text \<open>An update never fails an assertion.  It records the load; the relaxed state is left when all loads of the last second are at least 19
  percent, the restrictive one when all of the last five seconds are below 59 percent, and the active one for the relaxed state when all of the
  last five seconds are below 19 percent, and otherwise for the restrictive state when all of the last second are at least 59
  percent.\<close>

theorem fm_update_transitions:
  assumes "fm_ok m" and "in_unit cl"
  shows "\<exists>m'. FullyMeshedStateMachine_update cl m = Inr m' \<and> fm_ok m' \<and> fm_channel_loads m' = pushed cl m
    \<and> fm_state m' = (case fm_state m of
        Relaxed \<Rightarrow> if all_recent 10 (\<lambda>x. NDL_minChannelLoad \<le> x) (pushed cl m) then Active else Relaxed
      | Restrictive \<Rightarrow> if all_recent 50 (\<lambda>x. x < NDL_maxChannelLoad) (pushed cl m) then Active else Restrictive
      | Active \<Rightarrow> if all_recent 50 (\<lambda>x. x < NDL_minChannelLoad) (pushed cl m) then Relaxed
                  else if all_recent 10 (\<lambda>x. NDL_maxChannelLoad \<le> x) (pushed cl m) then Restrictive else Active)"
  using assms by (rule fm_update_transitions_aux)

lemma last_two:
  assumes "length xs = n + 2"
  shows "\<exists>ys a b. xs = ys @ [a, b] \<and> length ys = n"
proof -
  have "length (drop n xs) = 2" using assms by simp
  then obtain a b where "drop n xs = [a, b]" by (metis (no_types) length_0_conv length_Suc_conv numeral_2_eq_2)
  then have "xs = take n xs @ [a, b]" by (metis append_take_drop_id)
  then show ?thesis using assms by (metis length_append length_Cons list.size(3) add_right_cancel One_nat_def Suc_1)
qed

text \<open>C19: On a quiet channel the machine relaxes: after 51 loads below the lower limit, that is 5.1 seconds, it is relaxed from every
  state.  On a crowded channel it restricts: after 11 loads of at least the upper limit, 1.1 seconds, it is restrictive.\<close>

theorem fm_settles:
  assumes "fm_ok m" and "\<forall>x \<in> set cls. in_unit x"
  shows "(length cls = 51 \<and> (\<forall>x \<in> set cls. x < NDL_minChannelLoad) \<longrightarrow>
      (\<exists>m'. rfold FullyMeshedStateMachine_update cls m = Inr m' \<and> fm_state m' = Relaxed \<and> fm_transmission_interval m' = msec 60))
    \<and> (length cls = 11 \<and> (\<forall>x \<in> set cls. NDL_maxChannelLoad \<le> x) \<longrightarrow>
      (\<exists>m'. rfold FullyMeshedStateMachine_update cls m = Inr m' \<and> fm_state m' = Restrictive \<and> fm_transmission_interval m' = msec 460))"
proof (intro conjI impI; elim conjE)
  assume len: "length cls = 51" and low: "\<forall>x \<in> set cls. x < NDL_minChannelLoad"
  then obtain xs a b where cls: "cls = xs @ [a, b]" "length xs = 49" using last_two [of cls 49] by auto
  have in_cls: "in_unit a" "in_unit b" "a < NDL_minChannelLoad" "b < NDL_minChannelLoad" using assms(2) low cls(1) by auto
  obtain m1 where m1: "rfold FullyMeshedStateMachine_update xs m = Inr m1" "fm_ok m1" "all_recent 49 (\<lambda>x. x < NDL_minChannelLoad) (fm_channel_loads m1)"
    using fm_fill [OF assms(1), of xs "\<lambda>x. x < NDL_minChannelLoad"] assms(2) low cls by auto
  obtain m2 where m2: "FullyMeshedStateMachine_update a m1 = Inr m2" "fm_ok m2" "all_recent 50 (\<lambda>x. x < NDL_minChannelLoad) (fm_channel_loads m2)"
    "fm_state m2 \<noteq> Restrictive" using quiet_step [OF m1(2) _ in_cls(3) m1(3)] in_cls(1) by (auto split: if_splits)
  obtain m3 where "FullyMeshedStateMachine_update b m2 = Inr m3" "fm_state m3 = Relaxed"
    using quiet_step [OF m2(2) _ in_cls(4) take_all_recent [OF m2(3)]] in_cls(2) m2(4) by auto
  then show "\<exists>m'. rfold FullyMeshedStateMachine_update cls m = Inr m' \<and> fm_state m' = Relaxed \<and> fm_transmission_interval m' = msec 60"
    using m1(1) m2(1) by (simp add: cls(1) rfold_append fm_transmission_interval_def)
next
  assume len: "length cls = 11" and high: "\<forall>x \<in> set cls. NDL_maxChannelLoad \<le> x"
  then obtain xs a b where cls: "cls = xs @ [a, b]" "length xs = 9" using last_two [of cls 9] by auto
  have in_cls: "in_unit a" "in_unit b" "NDL_maxChannelLoad \<le> a" "NDL_maxChannelLoad \<le> b" using assms(2) high cls(1) by auto
  obtain m1 where m1: "rfold FullyMeshedStateMachine_update xs m = Inr m1" "fm_ok m1" "all_recent 9 (\<lambda>x. NDL_maxChannelLoad \<le> x) (fm_channel_loads m1)"
    using fm_fill [OF assms(1), of xs "\<lambda>x. NDL_maxChannelLoad \<le> x"] assms(2) high cls by auto
  obtain m2 where m2: "FullyMeshedStateMachine_update a m1 = Inr m2" "fm_ok m2" "all_recent 10 (\<lambda>x. NDL_maxChannelLoad \<le> x) (fm_channel_loads m2)"
    "fm_state m2 \<noteq> Relaxed" using busy_step [OF m1(2) in_cls(3) _ m1(3)] in_cls(1) by (auto split: if_splits)
  obtain m3 where "FullyMeshedStateMachine_update b m2 = Inr m3" "fm_state m3 = Restrictive"
    using busy_step [OF m2(2) in_cls(4) _ take_all_recent [OF m2(3)]] in_cls(2) m2(4) by auto
  then show "\<exists>m'. rfold FullyMeshedStateMachine_update cls m = Inr m' \<and> fm_state m' = Restrictive \<and> fm_transmission_interval m' = msec 460"
    using m1(1) m2(1) by (simp add: cls(1) rfold_append fm_transmission_interval_def)
qed

section \<open>The gradual machine\<close>

definition gs_ok :: "GradualStateMachine \<Rightarrow> bool" where
  "gs_ok m \<longleftrightarrow> omap_ok (gs_states m) \<and> gs_current m < length (gs_states m) \<and> (\<exists>t. hd (gs_states m) = (0, t))"

text \<open>The position of the state a load belongs to: the last one whose limit it reaches.\<close>

definition gs_target :: "(real, int) omap \<Rightarrow> real \<Rightarrow> nat" where
  "gs_target states cbr = length (takeWhile (\<lambda>s. fst s \<le> cbr) states) - 1"

lemma gs_limits:
  assumes "omap_ok states" and "i < length states"
  shows "fst (states ! i) \<le> cbr \<longleftrightarrow> i < length (takeWhile (\<lambda>s. fst s \<le> cbr) states)"
  using assms
proof (induction states arbitrary: i)
  case (Cons s states)
  show ?case
  proof (cases i)
    case (Suc j)
    have later: "fst s < fst (states ! j)" using Cons.prems Suc by auto
    show ?thesis
    proof (cases "fst s \<le> cbr")
      case True
      then show ?thesis using Cons.IH [of j] Cons.prems Suc by auto
    next
      case False
      then have "\<not> fst (states ! j) \<le> cbr" using later less_imp_le order_trans by blast
      then show ?thesis using False Suc by simp
    qed
  qed auto
qed simp

lemma gs_step:
  assumes "gs_ok m" and "0 \<le> cbr"
  defines "t \<equiv> gs_target (gs_states m) cbr"
  shows "GradualStateMachine_update cbr m = m\<lparr>gs_current := (if t < gs_current m then gs_current m - 1 else if gs_current m < t then Suc (gs_current m) else gs_current m)\<rparr>"
    and "t < length (gs_states m)"
proof -
  obtain z zs where st: "gs_states m = z # zs" "fst z = 0" using assms(1) by (cases "gs_states m") (auto simp: gs_ok_def)
  define n where "n = length (takeWhile (\<lambda>s. fst s \<le> cbr) (gs_states m))"
  have n: "0 < n" "n \<le> length (gs_states m)" using assms(2) st length_takeWhile_le unfolding n_def by auto
  have t: "t = n - 1" by (simp add: t_def gs_target_def n_def)
  show "t < length (gs_states m)" using n t by simp
  have ok: "omap_ok (gs_states m)" "gs_current m < length (gs_states m)" using assms(1) by (auto simp: gs_ok_def)
  note lim = gs_limits [OF ok(1), of _ cbr, folded n_def]
  show "GradualStateMachine_update cbr m = m\<lparr>gs_current := (if t < gs_current m then gs_current m - 1 else if gs_current m < t then Suc (gs_current m) else gs_current m)\<rparr>"
  proof (cases "cbr < fst (gs_states m ! gs_current m)")
    case True
    then have "n \<le> gs_current m" using lim [OF ok(2)] by simp
    then show ?thesis using True n t by (simp add: GradualStateMachine_update_def)
  next
    case False
    then have c: "gs_current m < n" using lim [OF ok(2)] by simp
    show ?thesis
    proof (cases "Suc (gs_current m) < n")
      case True
      then have "Suc (gs_current m) < length (gs_states m)" using n by simp
      with lim [OF this] True False t show ?thesis by (simp add: GradualStateMachine_update_def)
    next
      case stay: False
      then have "\<not> (Suc (gs_current m) \<noteq> length (gs_states m) \<and> cbr \<ge> fst (gs_states m ! Suc (gs_current m)))"
        using lim [of "Suc (gs_current m)"] ok(2) by auto
      then show ?thesis using False c stay t by (auto simp: GradualStateMachine_update_def Let_def)
    qed
  qed
qed

lemma gs_update_ok: "gs_ok m \<Longrightarrow> 0 \<le> cbr \<Longrightarrow> gs_ok (GradualStateMachine_update cbr m) \<and> gs_states (GradualStateMachine_update cbr m) = gs_states m"
  using gs_step [of m cbr] by (auto simp: gs_ok_def)


text \<open>Under a constant load the gradual machine moves to the state of that load, one state at a time, and stays there: as many updates as
  there are states are enough from every state.\<close>

theorem gs_settles:
  assumes "gs_ok m" and "0 \<le> cbr" and "length (gs_states m) \<le> n"
  defines "m' \<equiv> (GradualStateMachine_update cbr ^^ n) m"
  shows "gs_current m' = gs_target (gs_states m) cbr \<and> gs_states m' = gs_states m
    \<and> fst (gs_states m ! gs_current m') \<le> cbr \<and> (Suc (gs_current m') < length (gs_states m) \<longrightarrow> cbr < fst (gs_states m ! Suc (gs_current m')))"
proof -
  let ?t = "gs_target (gs_states m) cbr"
  have run: "gs_ok ((GradualStateMachine_update cbr ^^ k) m) \<and> gs_states ((GradualStateMachine_update cbr ^^ k) m) = gs_states m
      \<and> (let c = gs_current ((GradualStateMachine_update cbr ^^ k) m)
         in (gs_current m \<le> ?t \<longrightarrow> c = min ?t (gs_current m + k)) \<and> (?t \<le> gs_current m \<longrightarrow> c = max ?t (gs_current m - k)))" for k
  proof (induction k)
    case (Suc k)
    let ?m = "(GradualStateMachine_update cbr ^^ k) m"
    have ok: "gs_ok ?m" "gs_states ?m = gs_states m" using Suc by auto
    have "gs_current (GradualStateMachine_update cbr ?m) = (if ?t < gs_current ?m then gs_current ?m - 1 else if gs_current ?m < ?t then Suc (gs_current ?m) else gs_current ?m)"
      using gs_step(1) [OF ok(1) assms(2)] ok(2) by simp
    then show ?case using Suc gs_update_ok [OF ok(1) assms(2)] ok(2) by (auto simp: Let_def)
  qed (use assms(1) in auto)
  have t: "?t < length (gs_states m)" by (rule gs_step(2) [OF assms(1,2)])
  have "gs_current m < length (gs_states m)" using assms(1) by (simp add: gs_ok_def)
  then have c: "gs_current m' = ?t" using run [of n] t assms(3) unfolding m'_def by (auto simp: Let_def)
  have ok: "omap_ok (gs_states m)" using assms(1) by (simp add: gs_ok_def)
  obtain z zs where st: "gs_states m = z # zs" "fst z = 0" using assms(1) by (cases "gs_states m") (auto simp: gs_ok_def)
  have "0 < length (takeWhile (\<lambda>s. fst s \<le> cbr) (gs_states m))" using st assms(2) by simp
  then have "fst (gs_states m ! ?t) \<le> cbr" "Suc ?t < length (gs_states m) \<longrightarrow> cbr < fst (gs_states m ! Suc ?t)"
    using gs_limits [OF ok t, of cbr] gs_limits [OF ok, of "Suc ?t" cbr] by (auto simp: gs_target_def not_le)
  with c run [of n] show ?thesis unfolding m'_def by simp
qed

section \<open>LIMERIC's duty cycle\<close>

definition limeric_params_ok :: "LimericParameters \<Rightarrow> bool" where
  "limeric_params_ok p \<longleftrightarrow> in_unit (lp_alpha p) \<and> 0 \<le> lp_beta p \<and> 0 < lp_delta_min p \<and> lp_delta_min p \<le> lp_delta_max p \<and> lp_delta_max p \<le> 1
     \<and> 0 \<le> lp_g_plus_max p \<and> lp_g_minus_max p \<le> 0 \<and> 0 < lp_cbr_interval p"

definition limeric_ok :: "Limeric \<Rightarrow> bool" where
  "limeric_ok l \<longleftrightarrow> limeric_params_ok (li_params l) \<and> lp_delta_min (li_params l) \<le> li_duty_cycle l \<and> li_duty_cycle l \<le> lp_delta_max (li_params l)
     \<and> in_unit (li_channel_load l) \<and> length (li_cbr l) \<le> 2 \<and> (\<forall>x \<in> set (li_cbr l). in_unit x)"

lemma limeric_new_ok: "limeric_params_ok p \<Longrightarrow> limeric_ok (Limeric_new now p)"
  by (auto simp: limeric_ok_def limeric_params_ok_def Limeric_new_def Limeric_schedule_def unit_mean_def unit_clamp_def)

lemma limeric_average_unit: "limeric_ok l \<Longrightarrow> in_unit (Limeric_average_cbr l)"
  by (simp add: Limeric_average_cbr_def limeric_ok_def)

lemma limeric_calculate_ok: "limeric_ok l \<Longrightarrow> limeric_ok (Limeric_calculate now l)"
  using limeric_average_unit [of l]
  by (auto simp: limeric_ok_def Limeric_calculate_def Limeric_calculate_duty_cycle_def Limeric_schedule_def Let_def limeric_params_ok_def)

lemma limeric_update_ok: "limeric_ok l \<Longrightarrow> in_unit cbr \<Longrightarrow> limeric_ok (Limeric_update_cbr cbr l)"
  using set_drop_subset [of "Suc (length (li_cbr l)) - 2" "li_cbr l @ [cbr]"]
  by (auto simp: limeric_ok_def Limeric_update_cbr_def Let_def push_back_def unit_mean_range_def)

datatype LimericEvent = CbrMeasured real | CalculationDue int

fun limeric_event :: "LimericEvent \<Rightarrow> Limeric \<Rightarrow> Limeric" where
  "limeric_event (CbrMeasured cbr) l = Limeric_update_cbr (unit_clamp cbr) l"
| "limeric_event (CalculationDue now) l = Limeric_calculate now l"

text \<open>C20: Whatever is measured and however often it calculates, LIMERIC's duty cycle stays between the bounds of its parameters.\<close>

theorem limeric_duty_cycle_bounded:
  assumes "limeric_params_ok p"
  shows "lp_delta_min p \<le> li_duty_cycle (fold limeric_event evs (Limeric_new now p)) \<and> li_duty_cycle (fold limeric_event evs (Limeric_new now p)) \<le> lp_delta_max p"
proof -
  have params: "li_params (limeric_event ev l) = li_params l" for ev l
    by (cases ev) (simp_all add: Limeric_update_cbr_def Limeric_calculate_def Limeric_schedule_def Let_def)
  have "limeric_ok (fold limeric_event evs l) \<and> li_params (fold limeric_event evs l) = li_params l" if "limeric_ok l" for l
    using that
  proof (induction evs arbitrary: l)
    case (Cons ev evs)
    have "limeric_ok (limeric_event ev l)" using Cons.prems by (cases ev) (simp_all add: limeric_update_ok limeric_calculate_ok)
    with Cons.IH params show ?case by simp
  qed simp
  from this [OF limeric_new_ok [OF assms]] have "limeric_ok (fold limeric_event evs (Limeric_new now p))"
    "li_params (fold limeric_event evs (Limeric_new now p)) = p" by (simp_all add: Limeric_new_def Limeric_schedule_def)
  then show ?thesis by (simp add: limeric_ok_def)
qed

text \<open>Above the target load the duty cycle never grows.\<close>

theorem limeric_backs_off:
  assumes "limeric_ok l" and "lp_cbr_target (li_params l) \<le> Limeric_average_cbr l"
  shows "li_duty_cycle (Limeric_calculate now l) \<le> li_duty_cycle l"
proof -
  let ?p = "li_params l" and ?x = "Limeric_average_cbr l"
  have p: "limeric_params_ok ?p" "lp_delta_min ?p \<le> li_duty_cycle l" "li_duty_cycle l \<le> lp_delta_max ?p" using assms(1) by (auto simp: limeric_ok_def)
  then have pos: "0 < li_duty_cycle l" "in_unit (lp_alpha ?p)" "0 \<le> lp_beta ?p" "lp_g_minus_max ?p \<le> 0" by (auto simp: limeric_params_ok_def)
  have "lp_beta ?p * (lp_cbr_target ?p - ?x) \<le> 0" using pos(3) assms(2) by (simp add: mult_nonneg_nonpos)
  moreover have "unit_complement (lp_alpha ?p) * li_duty_cycle l \<le> li_duty_cycle l" using pos by (simp add: unit_complement_def mult_left_le_one_le)
  ultimately have "unit_clamp (unit_complement (lp_alpha ?p) * li_duty_cycle l + max (lp_beta ?p * (lp_cbr_target ?p - ?x)) (lp_g_minus_max ?p)) \<le> li_duty_cycle l"
    using pos(1,4) by (intro unit_clamp_le) linarith+
  with p assms(2) show ?thesis by (simp add: Limeric_calculate_def Limeric_calculate_duty_cycle_def Limeric_schedule_def Let_def)
qed

text \<open>Calculations happen at the multiples of twice the measurement interval, the one nearest to two intervals from now.\<close>

theorem limeric_schedule_aligned:
  assumes "0 < lp_cbr_interval p" and "0 \<le> now"
  shows "limeric_time p now mod (2 * lp_cbr_interval p) = 0 \<and> now + lp_cbr_interval p \<le> limeric_time p now \<and> limeric_time p now < now + 3 * lp_cbr_interval p"
proof -
  define s where "s = 2 * lp_cbr_interval p"
  define tp where "tp = now + s"
  have b: "0 \<le> tp mod s" "tp mod s < s" using assms by (simp_all add: s_def)
  have up: "(tp + (s - tp mod s)) mod s = 0" by (metis add_diff_eq minus_mod_eq_mult_div mod_add_self2 mod_mult_self1_is_0 add_diff_cancel_right' diff_add_eq)
  have down: "(tp - tp mod s) mod s = 0" by (simp add: mod_diff_right_eq)
  have "limeric_time p now = (if tp mod s > lp_cbr_interval p then tp + (s - tp mod s) else if tp mod s > 0 then tp - tp mod s else tp)"
    using assms by (simp add: limeric_time_def Let_def s_def tp_def)
  moreover have "s = 2 * lp_cbr_interval p" "tp = now + s" by (simp_all only: s_def tp_def)
  moreover have "\<not> 0 < tp mod s \<Longrightarrow> tp mod s = 0" using b(1) by linarith
  ultimately have "limeric_time p now mod s = 0 \<and> now + lp_cbr_interval p \<le> limeric_time p now \<and> limeric_time p now < now + 3 * lp_cbr_interval p"
    using b up down assms by (smt (verit))
  then show ?thesis by (simp only: s_def)
qed


text \<open>The smoothed load is a weighted mean: it stays in the unit interval, between the new load and the previous one.\<close>

theorem smoothing_between:
  assumes "in_unit (scp_alpha p)" and "in_unit (scp_channel_load p)" and "in_unit cl"
  shows "min cl (scp_channel_load p) \<le> snd (SmoothingChannelProbeProcessor_indicate cl p)
    \<and> snd (SmoothingChannelProbeProcessor_indicate cl p) \<le> max cl (scp_channel_load p)
    \<and> scp_channel_load (fst (SmoothingChannelProbeProcessor_indicate cl p)) = snd (SmoothingChannelProbeProcessor_indicate cl p)"
proof -
  let ?a = "scp_alpha p" and ?x = "scp_channel_load p"
  let ?v = "?a * cl + (1 - ?a) * ?x"
  have lower: "min cl ?x \<le> ?v"
  proof -
    have "?a * min cl ?x + (1 - ?a) * min cl ?x \<le> ?v" using assms(1) by (intro add_mono mult_left_mono) auto
    then show ?thesis by (simp add: algebra_simps)
  qed
  have upper: "?v \<le> max cl ?x"
  proof -
    have "?v \<le> ?a * max cl ?x + (1 - ?a) * max cl ?x" using assms(1) by (intro add_mono mult_left_mono) auto
    then show ?thesis by (simp add: algebra_simps)
  qed
  have "unit_clamp ?v = ?v" using lower upper assms(2,3) by (intro unit_clamp_id) auto
  then show ?thesis using lower upper by (simp add: SmoothingChannelProbeProcessor_indicate_def Let_def unit_complement_def)
qed

section \<open>Examples\<close>

theorem fm_update_transitions_witness:
  "\<exists>m'. FullyMeshedStateMachine_update (1/2) FullyMeshedStateMachine_new = Inr m' \<and> fm_state m' = Active"
proof -
  have "fm_ok FullyMeshedStateMachine_new" by (simp add: fm_ok_def FullyMeshedStateMachine_new_def)
  from fm_update_transitions [OF this, of "1/2"] show ?thesis
    by (auto simp: FullyMeshedStateMachine_new_def pushed_def all_recent_def NDL_minChannelLoad_def)
qed

theorem fm_settles_witness:
  "\<exists>m'. rfold FullyMeshedStateMachine_update (replicate 11 (7/10)) FullyMeshedStateMachine_new = Inr m' \<and> fm_transmission_interval m' = msec 460"
proof -
  have "fm_ok FullyMeshedStateMachine_new" by (simp add: fm_ok_def FullyMeshedStateMachine_new_def)
  from fm_settles [OF this, of "replicate 11 (7/10)"] show ?thesis by (auto simp: NDL_maxChannelLoad_def)
qed

theorem gs_settles_witness:
  "gs_transmission_interval ((GradualStateMachine_update (45/100) ^^ 5) (GradualStateMachine_new etsiStates1ms)) = msec 400"
proof -
  let ?m = "GradualStateMachine_new etsiStates1ms"
  have "gs_ok ?m" by (simp add: gs_ok_def GradualStateMachine_new_def etsiStates1ms_def)
  from gs_settles [OF this, of "45/100" 5] show ?thesis
    by (simp add: gs_transmission_interval_def gs_target_def GradualStateMachine_new_def etsiStates1ms_def)
qed

lemma limeric_default_ok: "limeric_params_ok limericDefaultParams"
  by (simp add: limeric_params_ok_def limericDefaultParams_def msec_def)

theorem limeric_duty_cycle_bounded_witness:
  "li_duty_cycle (fold limeric_event [CbrMeasured (9/10), CbrMeasured 1, CalculationDue 200000] (Limeric_new 0 limericDefaultParams)) \<le> 3/100"
  using limeric_duty_cycle_bounded [OF limeric_default_ok, of "[CbrMeasured (9/10), CbrMeasured 1, CalculationDue 200000]" 0]
  by (simp add: limericDefaultParams_def)

theorem limeric_backs_off_witness:
  "li_duty_cycle (Limeric_calculate 200000 ((Limeric_new 0 limericDefaultParams)\<lparr>li_channel_load := 1\<rparr>)) \<le> li_duty_cycle (Limeric_new 0 limericDefaultParams)"
proof -
  let ?l = "(Limeric_new 0 limericDefaultParams)\<lparr>li_channel_load := 1\<rparr>"
  have "limeric_ok ?l" using limeric_new_ok [OF limeric_default_ok, of 0] by (simp add: limeric_ok_def)
  moreover have "lp_cbr_target (li_params ?l) \<le> Limeric_average_cbr ?l"
    by (simp add: Limeric_average_cbr_def Limeric_new_def Limeric_schedule_def limericDefaultParams_def)
  ultimately show ?thesis using limeric_backs_off [of ?l 200000] by simp
qed

theorem limeric_schedule_aligned_witness: "limeric_time limericDefaultParams 123456 mod 200000 = 0 \<and> limeric_time limericDefaultParams 123456 < 423456"
  using limeric_schedule_aligned [of limericDefaultParams 123456] by (simp add: limericDefaultParams_def msec_def)

theorem smoothing_between_witness:
  "snd (SmoothingChannelProbeProcessor_indicate (8/10) \<lparr>scp_alpha = 1/2, scp_channel_load = 2/10\<rparr>) \<le> 8/10"
  using smoothing_between [of "\<lparr>scp_alpha = 1/2, scp_channel_load = 2/10\<rparr>" "8/10"] by simp


end
