(* ===== verification/DccRates.thy ===== *)
theory DccRates
  imports DccMachines
begin

text \<open>
  Transmit rate control, \<open>vanetza/dcc\<close>: how long a transmission occupies the channel, the budgets that say how long the next one has to wait,
  and the rate controls built from them, with \<open>artery/networking/NoRateControlDccEntity\<close>'s one that never delays.  The locale
  \<open>transmit_rate_control\<close> states what the flow control relies on; every rate control of the program is an interpretation of it.
\<close>

section \<open>Profiles and access categories\<close>

datatype Profile = DP0 | DP1 | DP2 | DP3

datatype AccessCategory = BK | BE | VI | VO

primrec ac_value :: "AccessCategory \<Rightarrow> nat" where
  "ac_value BK = 0"
| "ac_value BE = 1"
| "ac_value VI = 2"
| "ac_value VO = 3"

lemma ac_value_inj: "ac_value a = ac_value b \<longleftrightarrow> a = b"
  by (cases a; cases b) simp_all

text \<open>Access categories compare as the numbers of the enumeration.\<close>

instantiation AccessCategory :: linorder
begin

definition less_eq_AccessCategory :: "AccessCategory \<Rightarrow> AccessCategory \<Rightarrow> bool" where
  "less_eq_AccessCategory a b \<longleftrightarrow> ac_value a \<le> ac_value b"

definition less_AccessCategory :: "AccessCategory \<Rightarrow> AccessCategory \<Rightarrow> bool" where
  "less_AccessCategory a b \<longleftrightarrow> ac_value a < ac_value b"

instance
  by standard (auto simp: less_eq_AccessCategory_def less_AccessCategory_def ac_value_inj)

end

primrec map_profile_onto_ac :: "Profile \<Rightarrow> AccessCategory" where
  "map_profile_onto_ac DP0 = VO"
| "map_profile_onto_ac DP1 = VI"
| "map_profile_onto_ac DP2 = BE"
| "map_profile_onto_ac DP3 = BK"

section \<open>Occupancy of the channel\<close>

record DataRateG5 =
  dr_bytes_per_second :: nat
  dr_coded_bits_per_symbol :: "32 word"

definition DataRateG5_new :: "nat \<Rightarrow> 32 word \<Rightarrow> DataRateG5" where
  "DataRateG5_new kbps cbits = \<lparr>dr_bytes_per_second = kbps * 1000 div 8, dr_coded_bits_per_symbol = cbits\<rparr>"

definition G5_6Mbps :: DataRateG5 where "G5_6Mbps = DataRateG5_new 6000 96"

text \<open>The length in bits is an unsigned integer of 32 bits.\<close>

definition data_length :: "nat \<Rightarrow> DataRateG5 \<Rightarrow> nat result" where
  "data_length psdu rate =
     (let body = of_nat (16 + 6 + psdu * 8) :: 32 word;
          rest = body mod dr_coded_bits_per_symbol rate;
          padding = (if rest > 0 then dr_coded_bits_per_symbol rate - rest else rest)
      in if (body + padding) mod 8 = 0 then Inr (unat ((body + padding) div 8)) else Inl AssertionFailed)"

record Transmission =
  tx_profile :: Profile
  tx_data_rate :: "DataRateG5 option"
  tx_body_length :: nat

definition channel_occupancy :: "Transmission \<Rightarrow> int result" where
  "channel_occupancy tx =
     (let rate = (case tx_data_rate tx of Some rate \<Rightarrow> rate | None \<Rightarrow> G5_6Mbps)
      in rmap (\<lambda>bytes. 32 + 8 + trunc_int (1000000 * (real bytes * (1 / real (dr_bytes_per_second rate)))))
           (data_length (tx_body_length tx + 2 + 34) rate))"

section \<open>Budgets\<close>

text \<open>The burst budget keeps the times of the latest messages in a buffer of \<open>bb_capacity\<close>, from its front.\<close>

record BurstBudget =
  bb_messages :: "int list"
  bb_capacity :: nat
  bb_burst_duration :: int
  bb_burst_period :: int

definition T_Burst :: int where "T_Burst = msec 1000"

definition T_BurstPeriod :: int where "T_BurstPeriod = msec 10000"

definition N_Burst :: nat where "N_Burst = 20"

definition BurstBudget_new :: BurstBudget where
  "BurstBudget_new = \<lparr>bb_messages = [], bb_capacity = N_Burst, bb_burst_duration = T_Burst, bb_burst_period = T_BurstPeriod\<rparr>"

definition BurstBudget_delay :: "int \<Rightarrow> BurstBudget \<Rightarrow> (int \<times> BurstBudget) result" where
  "BurstBudget_delay now b =
     (if bb_burst_duration b < bb_burst_period b then
        Inr (case bb_messages b of
               [] \<Rightarrow> (0, b)
             | front # _ \<Rightarrow>
                 if front + bb_burst_duration b > now \<and> length (bb_messages b) \<noteq> bb_capacity b then (0, b)
                 else if front + bb_burst_period b < now then (0, b\<lparr>bb_messages := []\<rparr>)
                 else (front + bb_burst_period b - now, b))
      else Inl AssertionFailed)"

definition BurstBudget_notify :: "int \<Rightarrow> BurstBudget \<Rightarrow> BurstBudget" where
  "BurstBudget_notify now b = b\<lparr>bb_messages := push_back (bb_capacity b) now (bb_messages b)\<rparr>"

text \<open>\<open>circular_buffer::resize\<close> drops elements at the back or appends default ones, the epoch, and enlarges the capacity when they do not fit.\<close>

definition burst_messages :: "nat \<Rightarrow> BurstBudget \<Rightarrow> BurstBudget" where
  "burst_messages n b =
     b\<lparr>bb_messages := take n (bb_messages b) @ replicate (n - length (bb_messages b)) 0, bb_capacity := max n (bb_capacity b)\<rparr>"

definition burst_duration :: "int \<Rightarrow> BurstBudget \<Rightarrow> BurstBudget result" where
  "burst_duration d b = (if d > 0 then Inr (b\<lparr>bb_burst_duration := d\<rparr>) else Inl AssertionFailed)"

definition burst_period :: "int \<Rightarrow> BurstBudget \<Rightarrow> BurstBudget result" where
  "burst_period p b = (if p > 0 then Inr (b\<lparr>bb_burst_period := p\<rparr>) else Inl AssertionFailed)"

text \<open>The two state machines behind one interface.\<close>

datatype StateMachine = FullyMeshed FullyMeshedStateMachine | Gradual GradualStateMachine

fun StateMachine_update :: "real \<Rightarrow> StateMachine \<Rightarrow> StateMachine result" where
  "StateMachine_update cbr (FullyMeshed m) = rmap FullyMeshed (FullyMeshedStateMachine_update cbr m)"
| "StateMachine_update cbr (Gradual m) = Inr (Gradual (GradualStateMachine_update cbr m))"

fun transmission_interval :: "StateMachine \<Rightarrow> int" where
  "transmission_interval (FullyMeshed m) = fm_transmission_interval m"
| "transmission_interval (Gradual m) = gs_transmission_interval m"

definition StateMachineBudget_delay :: "int \<Rightarrow> StateMachine \<Rightarrow> int option \<Rightarrow> int" where
  "StateMachineBudget_delay now fsm last_tx =
     (case last_tx of
        Some last_tx \<Rightarrow>
          (let tx_interval = transmission_interval fsm
           in if last_tx + tx_interval < now then 0 else last_tx + tx_interval - now)
      | None \<Rightarrow> 0)"

text \<open>
  The budget of LIMERIC.  The constructor sets the start of the last transmission to the smallest time point and leaves the interval and the
  duration of the transmission uninitialised; with them \<open>update\<close> reads values the program never wrote and overflows, so what it computes before
  the first transmission is the argument \<open>unset\<close>.
\<close>

record LimericBudget =
  lb_interval :: int
  lb_tx_start :: "int option"
  lb_tx_on :: int

definition clamp_interval :: "int \<Rightarrow> int" where
  "clamp_interval interval = min (max interval (msec 25)) (msec 1000)"

definition LimericBudget_new :: "int \<Rightarrow> LimericBudget" where
  "LimericBudget_new unset = \<lparr>lb_interval = clamp_interval unset, lb_tx_start = None, lb_tx_on = unset\<rparr>"

definition LimericBudget_delay :: "int \<Rightarrow> LimericBudget \<Rightarrow> int" where
  "LimericBudget_delay now b =
     (case lb_tx_start b of
        None \<Rightarrow> 0
      | Some tx_start \<Rightarrow> if now \<ge> tx_start + lb_interval b then 0 else tx_start + lb_interval b - now)"

definition LimericBudget_notify :: "int \<Rightarrow> real \<Rightarrow> int \<Rightarrow> LimericBudget \<Rightarrow> LimericBudget" where
  "LimericBudget_notify now duty_cycle tx_on b =
     b\<lparr>lb_tx_start := Some now, lb_tx_on := tx_on, lb_interval := clamp_interval (trunc_int (real_of_int tx_on / duty_cycle))\<rparr>"

definition LimericBudget_update :: "int \<Rightarrow> int \<Rightarrow> real \<Rightarrow> LimericBudget \<Rightarrow> LimericBudget" where
  "LimericBudget_update unset now duty_cycle b =
     (case lb_tx_start b of
        None \<Rightarrow> b\<lparr>lb_interval := clamp_interval unset\<rparr>
      | Some tx_start \<Rightarrow>
          (let delay = tx_start + lb_interval b - now;
               interval = (real_of_int (lb_tx_on b) / duty_cycle) * (real_of_int delay / real_of_int (lb_interval b))
           in b\<lparr>lb_interval := clamp_interval (trunc_int interval + now - tx_start)\<rparr>))"

section \<open>Transmit rate controls\<close>

text \<open>The interface: how long a transmission has to wait (asking may tidy up the control), the current interval, and a notification of a
  transmission.\<close>

record 's TransmitRateControl =
  trc_delay :: "int \<Rightarrow> Transmission \<Rightarrow> 's \<Rightarrow> (int \<times> 's) result"
  trc_interval :: "Transmission \<Rightarrow> 's \<Rightarrow> int"
  trc_notify :: "int \<Rightarrow> Transmission \<Rightarrow> 's \<Rightarrow> 's result"

definition NoopTransmitRateControl :: "unit TransmitRateControl" where
  "NoopTransmitRateControl = \<lparr>trc_delay = \<lambda>now tx s. Inr (0, s), trc_interval = \<lambda>tx s. 0, trc_notify = \<lambda>now tx s. Inr s\<rparr>"

record Reactive =
  rc_fsm :: StateMachine
  rc_last_tx :: "int option"

definition SingleReactiveTransmitRateControl :: "Reactive TransmitRateControl" where
  "SingleReactiveTransmitRateControl =
     \<lparr>trc_delay = \<lambda>now tx s. Inr (StateMachineBudget_delay now (rc_fsm s) (rc_last_tx s), s),
      trc_interval = \<lambda>tx s. transmission_interval (rc_fsm s),
      trc_notify = \<lambda>now tx s. Inr (s\<lparr>rc_last_tx := Some now\<rparr>)\<rparr>"

record Bursty =
  bu_burst_budget :: BurstBudget
  bu_fsm :: StateMachine
  bu_last_tx :: "int option"

definition Bursty_delay :: "int \<Rightarrow> Transmission \<Rightarrow> Bursty \<Rightarrow> (int \<times> Bursty) result" where
  "Bursty_delay now tx s =
     (case tx_profile tx of
        DP0 \<Rightarrow> rmap (\<lambda>(delay, b). (delay, s\<lparr>bu_burst_budget := b\<rparr>)) (BurstBudget_delay now (bu_burst_budget s))
      | _ \<Rightarrow> Inr (StateMachineBudget_delay now (bu_fsm s) (bu_last_tx s), s))"

definition BurstyTransmitRateControl :: "Bursty TransmitRateControl" where
  "BurstyTransmitRateControl =
     \<lparr>trc_delay = Bursty_delay,
      trc_interval = \<lambda>tx s. case tx_profile tx of DP0 \<Rightarrow> bb_burst_period (bu_burst_budget s) | _ \<Rightarrow> transmission_interval (bu_fsm s),
      trc_notify = \<lambda>now tx s. Inr (case tx_profile tx of
          DP0 \<Rightarrow> s\<lparr>bu_burst_budget := BurstBudget_notify now (bu_burst_budget s)\<rparr>
        | _ \<Rightarrow> s\<lparr>bu_last_tx := Some now\<rparr>)\<rparr>"

record Adaptive =
  ad_limeric :: Limeric
  ad_budget :: LimericBudget

definition LimericTransmitRateControl :: "Adaptive TransmitRateControl" where
  "LimericTransmitRateControl =
     \<lparr>trc_delay = \<lambda>now tx s. Inr (LimericBudget_delay now (ad_budget s), s),
      trc_interval = \<lambda>tx s. lb_interval (ad_budget s),
      trc_notify = \<lambda>now tx s.
        rmap (\<lambda>tx_on. s\<lparr>ad_budget := LimericBudget_notify now (li_duty_cycle (ad_limeric s)) tx_on (ad_budget s)\<rparr>) (channel_occupancy tx)\<rparr>"

definition LimericTransmitRateControl_update :: "int \<Rightarrow> int \<Rightarrow> Adaptive \<Rightarrow> Adaptive" where
  "LimericTransmitRateControl_update unset now s =
     s\<lparr>ad_budget := LimericBudget_update unset now (li_duty_cycle (ad_limeric s)) (ad_budget s)\<rparr>"

section \<open>Lemmas on the occupancy\<close>

definition rate_ok :: "DataRateG5 \<Rightarrow> bool" where
  "rate_ok rate \<longleftrightarrow> 0 < dr_coded_bits_per_symbol rate \<and> unat (dr_coded_bits_per_symbol rate) mod 8 = 0"

definition tx_ok :: "Transmission \<Rightarrow> bool" where
  "tx_ok tx \<longleftrightarrow> (case tx_data_rate tx of Some rate \<Rightarrow> rate_ok rate | None \<Rightarrow> True)"

lemma rate_ok_G5_6Mbps [simp]: "rate_ok G5_6Mbps"
  by (simp add: rate_ok_def G5_6Mbps_def DataRateG5_new_def)

lemma padded_dvd:
  assumes "0 < (k :: nat)"
  shows "k dvd n + (if n mod k > 0 then k - n mod k else 0)"
proof (cases "n mod k > 0")
  case True
  have "n + (k - n mod k) = k * (n div k) + k" using mult_div_mod_eq [of k n] mod_less_divisor [OF assms, of n] by linarith
  then show ?thesis using True by simp
qed (simp add: mod_eq_0_iff_dvd)

text \<open>Adding the padding reaches a multiple of the symbol length, up to the wrap-around, whose modulus is a multiple of eight as well.\<close>

lemma padded_mod8:
  fixes body bits :: "32 word"
  assumes "0 < bits" and "unat bits mod 8 = 0"
  shows "(body + (if body mod bits > 0 then bits - body mod bits else body mod bits)) mod 8 = 0"
proof -
  let ?pad = "if body mod bits > 0 then bits - body mod bits else body mod bits"
  have bits: "0 < unat bits" using assms(1) by (simp add: word_less_nat_alt)
  have r: "unat (body mod bits) = unat body mod unat bits" by (simp add: unat_mod)
  have le: "body mod bits \<le> bits" using r bits by (simp add: word_le_nat_alt less_imp_le)
  have pad: "unat ?pad = (if unat body mod unat bits > 0 then unat bits - unat body mod unat bits else 0)"
    using r unat_sub [OF le] by (simp add: word_less_nat_alt)
  have "unat bits dvd unat body + unat ?pad" unfolding pad by (rule padded_dvd [OF bits])
  moreover have "8 dvd unat bits" using assms(2) by auto
  ultimately have "8 dvd unat body + unat ?pad" by (rule dvd_trans [rotated])
  moreover have "(8::nat) dvd 2 ^ 32" by simp
  ultimately have "8 dvd (unat body + unat ?pad) mod 2 ^ 32" using dvd_mod by blast
  then have "unat (body + ?pad) mod 8 = 0" by (simp add: unat_word_ariths(1) mod_eq_0_iff_dvd)
  then have "unat ((body + ?pad) mod 8) = 0" by (simp add: unat_mod)
  then show ?thesis by (simp only: unat_eq_zero)
qed

lemma data_length_total: "rate_ok rate \<Longrightarrow> \<exists>n. data_length psdu rate = Inr n"
  unfolding data_length_def Let_def rate_ok_def by (simp only: padded_mod8 refl if_True) blast

lemma trunc_int_nonneg: "0 \<le> x \<Longrightarrow> 0 \<le> trunc_int x"
  by (simp add: trunc_int_def)

lemma channel_occupancy_total: "tx_ok tx \<Longrightarrow> \<exists>d. channel_occupancy tx = Inr d \<and> 40 \<le> d"
proof -
  assume ok: "tx_ok tx"
  define rate where "rate = (case tx_data_rate tx of Some rate \<Rightarrow> rate | None \<Rightarrow> G5_6Mbps)"
  have "rate_ok rate" using ok by (simp add: rate_def tx_ok_def split: option.splits)
  then obtain n where "data_length (tx_body_length tx + 2 + 34) rate = Inr n" using data_length_total by blast
  then show ?thesis
    by (simp add: channel_occupancy_def rate_def [symmetric] Let_def trunc_int_nonneg)
qed

section \<open>What a rate control promises\<close>

definition duration_max :: int where "duration_max = 2 ^ 63 - 1"

text \<open>No rate control of the program delays a transmission by more than the period of the bursts.\<close>

definition max_delay :: int where "max_delay = msec 10000"

definition trc_wait :: "'s TransmitRateControl \<Rightarrow> int \<Rightarrow> Transmission \<Rightarrow> 's \<Rightarrow> int" where
  "trc_wait trc now tx s = (case trc_delay trc now tx s of Inr (delay, _) \<Rightarrow> delay | Inl _ \<Rightarrow> 0)"

text \<open>
  A control that is in order at a time answers a delay between zero and \<open>max_delay\<close>; asking does not change what it would
  answer at that time for any transmission; after exactly this delay there is nothing to wait for; and a notification keeps the control in order.
\<close>

locale transmit_rate_control =
  fixes trc :: "'s TransmitRateControl"
    and ok :: "int \<Rightarrow> 's \<Rightarrow> bool"
  assumes delay_total: "ok now s \<Longrightarrow> \<exists>delay s'. trc_delay trc now tx s = Inr (delay, s') \<and> 0 \<le> delay \<and> delay \<le> max_delay \<and> ok now s'"
    and delay_stable: "ok now s \<Longrightarrow> trc_delay trc now tx s = Inr (delay, s') \<Longrightarrow> trc_wait trc now tx' s' = trc_wait trc now tx' s"
    and delay_elapses: "ok now s \<Longrightarrow> trc_delay trc now tx s = Inr (delay, s') \<Longrightarrow> trc_wait trc (now + delay) tx s' = 0"
    and notify_total: "ok now s \<Longrightarrow> tx_ok tx \<Longrightarrow> \<exists>s'. trc_notify trc now tx s = Inr s' \<and> ok now s'"
    and ok_later: "ok now s \<Longrightarrow> now \<le> later \<Longrightarrow> ok later s"
begin

lemma delay_wait: "ok now s \<Longrightarrow> trc_delay trc now tx s = Inr (delay, s') \<Longrightarrow> delay = trc_wait trc now tx s"
  by (simp add: trc_wait_def)

lemma wait_range: "ok now s \<Longrightarrow> 0 \<le> trc_wait trc now tx s \<and> trc_wait trc now tx s \<le> max_delay"
  using delay_total [of now s tx] by (auto simp: trc_wait_def)

lemma wait_finite: "ok now s \<Longrightarrow> trc_wait trc now tx s < duration_max"
  using wait_range [of now s tx] by (simp add: max_delay_def duration_max_def msec_def)

end

subsection \<open>The controls keep the promise\<close>

definition fsm_ok :: "StateMachine \<Rightarrow> bool" where
  "fsm_ok fsm \<longleftrightarrow> 0 \<le> transmission_interval fsm \<and> transmission_interval fsm \<le> max_delay"

definition last_tx_ok :: "int \<Rightarrow> int option \<Rightarrow> bool" where
  "last_tx_ok now last_tx \<longleftrightarrow> (case last_tx of Some t \<Rightarrow> t \<le> now | None \<Rightarrow> True)"

definition reactive_ok :: "int \<Rightarrow> Reactive \<Rightarrow> bool" where
  "reactive_ok now s \<longleftrightarrow> fsm_ok (rc_fsm s) \<and> last_tx_ok now (rc_last_tx s)"

definition burst_ok :: "int \<Rightarrow> BurstBudget \<Rightarrow> bool" where
  "burst_ok now b \<longleftrightarrow> (\<forall>t \<in> set (bb_messages b). t \<le> now) \<and> bb_burst_duration b < bb_burst_period b \<and> 0 \<le> bb_burst_period b
     \<and> bb_burst_period b \<le> max_delay"

definition bursty_ok :: "int \<Rightarrow> Bursty \<Rightarrow> bool" where
  "bursty_ok now s \<longleftrightarrow> burst_ok now (bu_burst_budget s) \<and> fsm_ok (bu_fsm s) \<and> last_tx_ok now (bu_last_tx s)"

definition adaptive_ok :: "int \<Rightarrow> Adaptive \<Rightarrow> bool" where
  "adaptive_ok now s \<longleftrightarrow> limeric_ok (ad_limeric s) \<and> msec 25 \<le> lb_interval (ad_budget s) \<and> lb_interval (ad_budget s) \<le> msec 1000
     \<and> last_tx_ok now (lb_tx_start (ad_budget s))"

lemma last_tx_ok_later: "last_tx_ok now l \<Longrightarrow> now \<le> later \<Longrightarrow> last_tx_ok later l"
  by (auto simp: last_tx_ok_def split: option.splits)

lemma fsm_delay_range:
  "fsm_ok fsm \<Longrightarrow> last_tx_ok now l \<Longrightarrow> 0 \<le> StateMachineBudget_delay now fsm l \<and> StateMachineBudget_delay now fsm l \<le> max_delay"
  by (auto simp: StateMachineBudget_delay_def fsm_ok_def last_tx_ok_def max_delay_def msec_def Let_def split: option.splits)

lemma fsm_delay_elapses: "StateMachineBudget_delay (now + StateMachineBudget_delay now fsm l) fsm l = 0"
  by (auto simp: StateMachineBudget_delay_def Let_def split: option.splits if_splits)

interpretation noop: transmit_rate_control NoopTransmitRateControl "\<lambda>now s. True"
  by unfold_locales (auto simp: NoopTransmitRateControl_def trc_wait_def max_delay_def msec_def)

interpretation reactive: transmit_rate_control SingleReactiveTransmitRateControl reactive_ok
proof unfold_locales
  fix now later :: int and s s' :: Reactive and tx tx' :: Transmission and delay :: int
  assume ok: "reactive_ok now s"
  then show "\<exists>delay s'. trc_delay SingleReactiveTransmitRateControl now tx s = Inr (delay, s') \<and> 0 \<le> delay \<and> delay \<le> max_delay \<and> reactive_ok now s'"
    by (simp add: SingleReactiveTransmitRateControl_def reactive_ok_def fsm_delay_range)
  show "\<exists>s'. trc_notify SingleReactiveTransmitRateControl now tx s = Inr s' \<and> reactive_ok now s'"
    using ok by (simp add: SingleReactiveTransmitRateControl_def reactive_ok_def last_tx_ok_def)
  show "now \<le> later \<Longrightarrow> reactive_ok later s" using ok last_tx_ok_later by (auto simp: reactive_ok_def)
  assume d: "trc_delay SingleReactiveTransmitRateControl now tx s = Inr (delay, s')"
  then show "trc_wait SingleReactiveTransmitRateControl now tx' s' = trc_wait SingleReactiveTransmitRateControl now tx' s"
    by (simp add: SingleReactiveTransmitRateControl_def)
  show "trc_wait SingleReactiveTransmitRateControl (now + delay) tx s' = 0"
    using d by (auto simp: SingleReactiveTransmitRateControl_def trc_wait_def fsm_delay_elapses)
qed

lemma burst_delay_cases:
  assumes ok: "burst_ok now b"
  obtains delay b' where "BurstBudget_delay now b = Inr (delay, b')" "0 \<le> delay" "delay \<le> max_delay" "burst_ok now b'"
    "\<And>d' b''. BurstBudget_delay now b' = Inr (d', b'') \<Longrightarrow> d' = delay"
    "rmap fst (BurstBudget_delay (now + delay) b') = Inr 0"
proof (cases "bb_messages b")
  case Nil
  then show thesis using ok by (intro that [of 0 b]) (simp_all add: BurstBudget_delay_def burst_ok_def max_delay_def msec_def)
next
  case (Cons front ms)
  have dur: "bb_burst_duration b < bb_burst_period b" "0 \<le> bb_burst_period b" "bb_burst_period b \<le> max_delay" "front \<le> now"
    using ok Cons by (simp_all add: burst_ok_def)
  consider (burst) "front + bb_burst_duration b > now" "length (bb_messages b) \<noteq> bb_capacity b"
    | (over) "\<not> (front + bb_burst_duration b > now \<and> length (bb_messages b) \<noteq> bb_capacity b)" "front + bb_burst_period b < now"
    | (wait) "\<not> (front + bb_burst_duration b > now \<and> length (bb_messages b) \<noteq> bb_capacity b)" "\<not> front + bb_burst_period b < now"
    by blast
  then show thesis
  proof cases
    case burst
    then show thesis using ok dur Cons by (intro that [of 0 b]) (auto simp: BurstBudget_delay_def max_delay_def msec_def)
  next
    case over
    then show thesis using ok dur Cons
      by (intro that [of 0 "b\<lparr>bb_messages := []\<rparr>"]) (auto simp: BurstBudget_delay_def max_delay_def msec_def burst_ok_def)
  next
    case wait
    then have "BurstBudget_delay now b = Inr (front + bb_burst_period b - now, b)" using dur(1) Cons by (auto simp: BurstBudget_delay_def)
    moreover have "rmap fst (BurstBudget_delay (front + bb_burst_period b) b) = Inr 0" using dur(1) Cons by (auto simp: BurstBudget_delay_def)
    ultimately show thesis using ok dur wait by (intro that [of "front + bb_burst_period b - now" b]) auto
  qed
qed

lemma burst_notify_ok: "burst_ok now b \<Longrightarrow> burst_ok now (BurstBudget_notify now b)"
  by (auto simp: burst_ok_def BurstBudget_notify_def push_back_def dest: in_set_dropD)

interpretation bursty: transmit_rate_control BurstyTransmitRateControl bursty_ok
proof unfold_locales
  fix now later :: int and s s' :: Bursty and tx tx' :: Transmission and delay :: int
  assume ok: "bursty_ok now s"
  then have b: "burst_ok now (bu_burst_budget s)" and f: "fsm_ok (bu_fsm s)" "last_tx_ok now (bu_last_tx s)" by (simp_all add: bursty_ok_def)
  obtain d b' where burst: "BurstBudget_delay now (bu_burst_budget s) = Inr (d, b')" "0 \<le> d" "d \<le> max_delay" "burst_ok now b'"
    "\<And>d' b''. BurstBudget_delay now b' = Inr (d', b'') \<Longrightarrow> d' = d"
    "rmap fst (BurstBudget_delay (now + d) b') = Inr 0"
    using burst_delay_cases [OF b] by metis
  show "\<exists>delay s'. trc_delay BurstyTransmitRateControl now tx s = Inr (delay, s') \<and> 0 \<le> delay \<and> delay \<le> max_delay \<and> bursty_ok now s'"
    using ok burst(1-4) fsm_delay_range [OF f] by (cases "tx_profile tx") (simp_all add: BurstyTransmitRateControl_def Bursty_delay_def bursty_ok_def)
  show "\<exists>s'. trc_notify BurstyTransmitRateControl now tx s = Inr s' \<and> bursty_ok now s'"
    using ok burst_notify_ok by (cases "tx_profile tx") (simp_all add: BurstyTransmitRateControl_def bursty_ok_def last_tx_ok_def)
  show "now \<le> later \<Longrightarrow> bursty_ok later s" using ok last_tx_ok_later by (auto simp: bursty_ok_def burst_ok_def)
  assume t: "trc_delay BurstyTransmitRateControl now tx s = Inr (delay, s')"
  obtain d2 b2 where "BurstBudget_delay now b' = Inr (d2, b2)" using burst_delay_cases [OF burst(4)] by metis
  with burst(5) have again: "BurstBudget_delay now b' = Inr (d, b2)" by blast
  show "trc_wait BurstyTransmitRateControl now tx' s' = trc_wait BurstyTransmitRateControl now tx' s"
    using t burst(1) again
    by (cases "tx_profile tx"; cases "tx_profile tx'") (auto simp: BurstyTransmitRateControl_def Bursty_delay_def trc_wait_def)
  show "trc_wait BurstyTransmitRateControl (now + delay) tx s' = 0"
    using t burst(1,6)
    by (cases "tx_profile tx")
      (auto simp: BurstyTransmitRateControl_def Bursty_delay_def trc_wait_def fsm_delay_elapses rmap_ok_iff split: sum.splits)
qed

lemma clamp_interval_range [simp]: "msec 25 \<le> clamp_interval i" "clamp_interval i \<le> msec 1000"
  by (simp_all add: clamp_interval_def msec_def)

interpretation adaptive: transmit_rate_control LimericTransmitRateControl adaptive_ok
proof unfold_locales
  fix now later :: int and s s' :: Adaptive and tx tx' :: Transmission and delay :: int
  assume ok: "adaptive_ok now s"
  then show "\<exists>delay s'. trc_delay LimericTransmitRateControl now tx s = Inr (delay, s') \<and> 0 \<le> delay \<and> delay \<le> max_delay \<and> adaptive_ok now s'"
    by (auto simp: LimericTransmitRateControl_def adaptive_ok_def LimericBudget_delay_def last_tx_ok_def max_delay_def msec_def split: option.splits)
  show "tx_ok tx \<Longrightarrow> \<exists>s'. trc_notify LimericTransmitRateControl now tx s = Inr s' \<and> adaptive_ok now s'"
    using ok channel_occupancy_total [of tx]
    by (auto simp: LimericTransmitRateControl_def adaptive_ok_def LimericBudget_notify_def last_tx_ok_def)
  show "now \<le> later \<Longrightarrow> adaptive_ok later s" using ok last_tx_ok_later by (auto simp: adaptive_ok_def)
  assume d: "trc_delay LimericTransmitRateControl now tx s = Inr (delay, s')"
  then show "trc_wait LimericTransmitRateControl now tx' s' = trc_wait LimericTransmitRateControl now tx' s"
    by (simp add: LimericTransmitRateControl_def)
  show "trc_wait LimericTransmitRateControl (now + delay) tx s' = 0"
    using d by (auto simp: LimericTransmitRateControl_def trc_wait_def LimericBudget_delay_def split: option.splits if_splits)
qed


section \<open>Properties of the rate controls\<close>

text \<open>The length of the data on air is the smallest number of whole symbols that holds service, tail and payload bits, in bytes.\<close>

theorem data_length_correct:
  assumes "rate_ok rate" and "22 + psdu * 8 + unat (dr_coded_bits_per_symbol rate) < 2 ^ 32"
  shows "\<exists>n. data_length psdu rate = Inr n \<and> unat (dr_coded_bits_per_symbol rate) dvd 8 * n \<and> 22 + psdu * 8 \<le> 8 * n
    \<and> 8 * n < 22 + psdu * 8 + unat (dr_coded_bits_per_symbol rate)"
proof -
  define bits where "bits = dr_coded_bits_per_symbol rate"
  define body where "body = (of_nat (16 + 6 + psdu * 8) :: 32 word)"
  let ?B = "22 + psdu * 8" and ?k = "unat bits"
  let ?pad = "if body mod bits > 0 then bits - body mod bits else body mod bits"
  have k: "0 < ?k" "8 dvd ?k" using assms(1) by (auto simp: rate_ok_def bits_def word_less_nat_alt)
  have B: "unat body = ?B" unfolding body_def by (subst unat_of_nat) (use assms(2) in simp)
  have r: "unat (body mod bits) = ?B mod ?k" by (simp add: unat_mod B)
  have le: "body mod bits \<le> bits" using r k by (simp add: word_le_nat_alt less_imp_le)
  have pad: "unat ?pad = (if ?B mod ?k > 0 then ?k - ?B mod ?k else 0)" using r unat_sub [OF le] by (simp add: word_less_nat_alt)
  have lt: "?B mod ?k < ?k" using k by simp
  have sum: "unat (body + ?pad) = ?B + unat ?pad"
    using B pad lt assms(2) by (simp add: unat_word_ariths(1) bits_def)
  have dvd: "?k dvd ?B + unat ?pad" unfolding pad by (rule padded_dvd [OF k(1)])
  then have "8 dvd ?B + unat ?pad" using k(2) dvd_trans by blast
  then have n: "8 * unat ((body + ?pad) div 8) = ?B + unat ?pad" by (simp add: unat_div sum)
  have "data_length psdu rate = Inr (unat ((body + ?pad) div 8))"
    unfolding data_length_def Let_def bits_def [symmetric] body_def [symmetric]
    using padded_mod8 [of bits body] assms(1) by (simp add: rate_ok_def bits_def)
  moreover have "unat ?pad < ?k" using pad lt k(1) by auto
  ultimately show ?thesis using n dvd bits_def by auto
qed

text \<open>A control driven by a state machine: who sends when there is nothing to wait for keeps the interval of the machine's current state to the
  previous transmission, and may send again exactly one interval later.\<close>

theorem reactive_spacing:
  assumes "reactive_ok now s" and "trc_notify SingleReactiveTransmitRateControl now tx s = Inr s1" and "now \<le> later"
  shows "trc_delay SingleReactiveTransmitRateControl later tx' s1 = Inr (max 0 (now + transmission_interval (rc_fsm s) - later), s1)"
  using assms by (auto simp: SingleReactiveTransmitRateControl_def StateMachineBudget_delay_def Let_def)

text \<open>The budget of LIMERIC.  The interval after a transmission lies between 25 milliseconds and a second, and unless it is the whole second the
  share of time on air does not exceed the permitted duty cycle (up to the microsecond that is cut off).  Before the first transmission nothing has
  to be waited for, whatever the uninitialised members held.\<close>

theorem limeric_budget_duty:
  assumes "0 < duty" and "0 \<le> tx_on"
  shows "let b = LimericBudget_notify now duty tx_on b0
    in msec 25 \<le> lb_interval b \<and> lb_interval b \<le> msec 1000
      \<and> (lb_interval b = msec 1000 \<or> real_of_int tx_on < duty * (real_of_int (lb_interval b) + 1))
      \<and> (\<forall>later. now \<le> later \<longrightarrow> LimericBudget_delay later b = max 0 (now + lb_interval b - later))"
proof -
  let ?i = "trunc_int (real_of_int tx_on / duty)"
  have q: "0 \<le> real_of_int tx_on / duty" using assms by simp
  then have "real_of_int tx_on / duty < real_of_int ?i + 1" by (simp add: trunc_int_def)
  then have *: "real_of_int tx_on < duty * (real_of_int ?i + 1)" using assms(1) by (simp add: pos_divide_less_eq mult.commute)
  have "real_of_int tx_on < duty * (real_of_int (clamp_interval ?i) + 1)" if "clamp_interval ?i \<noteq> msec 1000"
  proof -
    have "?i \<le> clamp_interval ?i" using that by (auto simp: clamp_interval_def)
    then have "duty * (real_of_int ?i + 1) \<le> duty * (real_of_int (clamp_interval ?i) + 1)" using assms(1) by simp
    with * show ?thesis by linarith
  qed
  then show ?thesis by (auto simp: LimericBudget_notify_def LimericBudget_delay_def)
qed

theorem limeric_budget_first: "fold (\<lambda>(unset, now, duty). LimericBudget_update unset now duty) us (LimericBudget_new unset0) = b \<Longrightarrow> LimericBudget_delay now b = 0"
proof -
  assume b: "fold (\<lambda>(unset, now, duty). LimericBudget_update unset now duty) us (LimericBudget_new unset0) = b"
  have "lb_tx_start (fold (\<lambda>(unset, now, duty). LimericBudget_update unset now duty) us b0) = None" if "lb_tx_start b0 = None" for b0
    using that by (induction us arbitrary: b0) (auto simp: LimericBudget_update_def)
  from this [of "LimericBudget_new unset0"] b show ?thesis by (simp add: LimericBudget_new_def LimericBudget_delay_def)
qed


subsection \<open>Bursts\<close>

text \<open>A sender of urgent messages that sends at each of the given times when there is nothing to wait for.\<close>

definition burst_attempt :: "int \<Rightarrow> int list \<times> BurstBudget \<Rightarrow> int list \<times> BurstBudget" where
  "burst_attempt now = (\<lambda>(sent, b).
     case BurstBudget_delay now b of
       Inr (delay, b') \<Rightarrow> if delay = 0 then (sent @ [now], BurstBudget_notify now b') else (sent, b')
     | Inl _ \<Rightarrow> (sent, b))"

definition burst_run :: "int list \<Rightarrow> int list" where
  "burst_run ts = fst (fold burst_attempt ts ([], BurstBudget_new))"

definition bursts_ok :: "int list list \<Rightarrow> bool" where
  "bursts_ok gs \<longleftrightarrow> (\<forall>g \<in> set gs. g \<noteq> [] \<and> length g \<le> N_Burst \<and> (\<forall>t \<in> set g. t < hd g + T_Burst))
     \<and> sorted_wrt (\<lambda>g h. hd g + T_BurstPeriod < hd h) gs"

definition burst_inv :: "int list \<Rightarrow> int list list \<Rightarrow> int list \<times> BurstBudget \<Rightarrow> bool" where
  "burst_inv ts gs = (\<lambda>(sent, b). sent = concat gs \<and> bursts_ok gs \<and> set sent \<subseteq> set ts
     \<and> b = BurstBudget_new\<lparr>bb_messages := (if gs = [] then [] else last gs)\<rparr>)"

lemma bursts_ok_snoc:
  "bursts_ok (gs @ [g]) \<longleftrightarrow> bursts_ok gs \<and> g \<noteq> [] \<and> length g \<le> N_Burst \<and> (\<forall>t \<in> set g. t < hd g + T_Burst)
     \<and> (\<forall>h \<in> set gs. hd h + T_BurstPeriod < hd g)"
  by (auto simp: bursts_ok_def sorted_wrt_append)

lemma burst_step:
  assumes inv: "burst_inv ts gs st" and past: "\<forall>t \<in> set ts. t \<le> now \<and> now \<noteq> t + T_BurstPeriod"
  shows "\<exists>gs'. burst_inv (ts @ [now]) gs' (burst_attempt now st)"
proof (cases gs rule: rev_cases)
  case Nil
  then have "burst_attempt now st = ([now], BurstBudget_new\<lparr>bb_messages := [now]\<rparr>)"
    using inv by (cases st) (simp add: burst_inv_def burst_attempt_def BurstBudget_delay_def BurstBudget_notify_def BurstBudget_new_def push_back_def
      N_Burst_def T_Burst_def T_BurstPeriod_def msec_def)
  then have "burst_inv (ts @ [now]) [[now]] (burst_attempt now st)"
    by (simp add: burst_inv_def bursts_ok_def N_Burst_def T_Burst_def msec_def)
  then show ?thesis ..
next
  case (snoc ps g)
  obtain b where st: "st = (concat gs, b)" using inv by (cases st) (simp add: burst_inv_def)
  have g: "g \<noteq> []" "length g \<le> N_Burst" "\<forall>h \<in> set ps. hd h + T_BurstPeriod < hd g" "\<forall>t \<in> set g. t < hd g + T_Burst" and ps: "bursts_ok ps"
    and b: "b = BurstBudget_new\<lparr>bb_messages := g\<rparr>" and sub: "set (concat gs) \<subseteq> set ts"
    using inv snoc st by (auto simp: burst_inv_def bursts_ok_snoc)
  have "hd g \<in> set ts" using g(1) sub snoc by (auto simp: subset_iff)
  then have now: "now \<noteq> hd g + T_BurstPeriod" using past by blast
  have dur: "bb_burst_duration b < bb_burst_period b" "bb_burst_period b = T_BurstPeriod" "bb_burst_duration b = T_Burst" "bb_capacity b = N_Burst"
    "bb_messages b = g" "T_Burst < T_BurstPeriod" by (simp_all add: b BurstBudget_new_def T_Burst_def T_BurstPeriod_def msec_def)
  have cap: "bb_capacity BurstBudget_new = N_Burst" by (simp add: BurstBudget_new_def)
  have delay: "BurstBudget_delay now b = Inr (if hd g + T_Burst > now \<and> length g \<noteq> N_Burst then (0, b)
      else if hd g + T_BurstPeriod < now then (0, b\<lparr>bb_messages := []\<rparr>) else (hd g + T_BurstPeriod - now, b))"
    using g(1) dur(6) by (cases g) (simp_all add: BurstBudget_delay_def dur(2-5))
  consider (grow) "hd g + T_Burst > now" "length g < N_Burst"
    | (fresh) "\<not> (hd g + T_Burst > now \<and> length g \<noteq> N_Burst)" "hd g + T_BurstPeriod < now"
    | (wait) "\<not> (hd g + T_Burst > now \<and> length g \<noteq> N_Burst)" "now < hd g + T_BurstPeriod"
    using now g(2) by linarith
  then show ?thesis
  proof cases
    case grow
    then have "burst_attempt now st = (concat (ps @ [g @ [now]]), BurstBudget_new\<lparr>bb_messages := g @ [now]\<rparr>)"
      using delay by (simp add: burst_attempt_def st snoc BurstBudget_notify_def dur push_back_def b cap)
    then have "burst_inv (ts @ [now]) (ps @ [g @ [now]]) (burst_attempt now st)"
      using g ps sub grow snoc by (auto simp: burst_inv_def bursts_ok_snoc)
    then show ?thesis ..
  next
    case fresh
    then have "burst_attempt now st = (concat (gs @ [[now]]), BurstBudget_new\<lparr>bb_messages := [now]\<rparr>)"
      using delay [unfolded if_not_P [OF fresh(1)] if_P [OF fresh(2)]]
      by (simp add: burst_attempt_def st BurstBudget_notify_def push_back_def b cap N_Burst_def)
    moreover have "0 < T_BurstPeriod" by (simp add: T_BurstPeriod_def msec_def)
    then have "\<forall>h \<in> set gs. hd h + T_BurstPeriod < now" using g(3) fresh(2) snoc by force
    then have "bursts_ok (gs @ [[now]])"
      using g ps snoc bursts_ok_snoc [of gs "[now]"] bursts_ok_snoc [of ps g] by (simp add: N_Burst_def T_Burst_def msec_def)
    ultimately have "burst_inv (ts @ [now]) (gs @ [[now]]) (burst_attempt now st)" using sub by (auto simp: burst_inv_def)
    then show ?thesis ..
  next
    case wait
    then have "burst_attempt now st = st" using delay by (auto simp: burst_attempt_def st)
    then have "burst_inv (ts @ [now]) gs (burst_attempt now st)" using inv by (auto simp: burst_inv_def)
    then show ?thesis ..
  qed
qed

text \<open>C18: When no two attempts are exactly one burst period apart, the messages sent form bursts of at most twenty messages, each shorter than a second,
  which begin more than ten seconds apart.\<close>

theorem bursts_limited:
  assumes "sorted_wrt (\<lambda>s t. s \<le> t \<and> t \<noteq> s + T_BurstPeriod) ts"
  shows "\<exists>gs. burst_run ts = concat gs \<and> (\<forall>g \<in> set gs. g \<noteq> [] \<and> length g \<le> N_Burst \<and> (\<forall>t \<in> set g. t < hd g + T_Burst))
    \<and> sorted_wrt (\<lambda>g h. hd g + T_BurstPeriod < hd h) gs"
proof -
  have "\<exists>gs. burst_inv ts gs (fold burst_attempt ts ([], BurstBudget_new))"
    using assms
  proof (induction ts rule: rev_induct)
    case Nil
    have "burst_inv [] [] ([], BurstBudget_new)" by (simp add: burst_inv_def bursts_ok_def BurstBudget_new_def)
    then show ?case by auto
  next
    case (snoc now ts)
    then obtain gs where "burst_inv ts gs (fold burst_attempt ts ([], BurstBudget_new))" by (auto simp: sorted_wrt_append)
    from burst_step [OF this] snoc.prems show ?case by (auto simp: sorted_wrt_append)
  qed
  then show ?thesis by (auto simp: burst_inv_def burst_run_def bursts_ok_def)
qed

text \<open>A message sent exactly ten seconds after the first of a burst is counted for the old burst, which is forgotten a microsecond later: then
  thirty-nine messages go out within a millisecond.\<close>

theorem burst_limit_exceeded: "burst_run (0 # replicate 19 (msec 10000) @ replicate 20 (msec 10000 + 1)) = 0 # replicate 19 (msec 10000) @ replicate 20 (msec 10000 + 1)"
  by code_simp

text \<open>Setting the length of a burst does not set it: a budget for five messages, set on a fresh budget, still grants twenty.\<close>

theorem burst_messages_ineffective:
  "bb_capacity (burst_messages 5 BurstBudget_new) = 20 \<and> bb_messages (burst_messages 5 BurstBudget_new) = [0, 0, 0, 0, 0]"
  by (simp add: burst_messages_def BurstBudget_new_def N_Burst_def numeral_eq_Suc)


section \<open>Witnesses\<close>

theorem data_length_correct_witness: "data_length 100 G5_6Mbps = Inr 108 \<and> rate_ok G5_6Mbps"
proof -
  have "\<exists>n. data_length 100 G5_6Mbps = Inr n \<and> 96 dvd 8 * n \<and> 822 \<le> 8 * n \<and> 8 * n < 918"
    using data_length_correct [of G5_6Mbps 100] by (simp add: G5_6Mbps_def DataRateG5_new_def rate_ok_def)
  then obtain n where n: "data_length 100 G5_6Mbps = Inr n" "96 dvd 8 * n" "822 \<le> 8 * n" "8 * n < 918" by blast
  from n(2) obtain k where "8 * n = 96 * k" by (auto elim: dvdE)
  with n(3,4) have "n = 108" by presburger
  with n(1) show ?thesis by simp
qed

definition gradual_start :: Reactive where
  "gradual_start = \<lparr>rc_fsm = Gradual (GradualStateMachine_new etsiStates1ms), rc_last_tx = None\<rparr>"

lemma gradual_start_ok: "reactive_ok now gradual_start"
  by (simp add: reactive_ok_def gradual_start_def fsm_ok_def gs_transmission_interval_def GradualStateMachine_new_def etsiStates1ms_def msec_def
      max_delay_def msec_def last_tx_ok_def)

theorem reactive_spacing_witness:
  "trc_delay SingleReactiveTransmitRateControl 1030000 \<lparr>tx_profile = DP2, tx_data_rate = None, tx_body_length = 100\<rparr>
     (gradual_start\<lparr>rc_last_tx := Some 1000000\<rparr>) = Inr (70000, gradual_start\<lparr>rc_last_tx := Some 1000000\<rparr>)"
  using reactive_spacing [OF gradual_start_ok, of 1000000 "\<lparr>tx_profile = DP2, tx_data_rate = None, tx_body_length = 100\<rparr>"
      "gradual_start\<lparr>rc_last_tx := Some 1000000\<rparr>" 1030000 "\<lparr>tx_profile = DP2, tx_data_rate = None, tx_body_length = 100\<rparr>"]
  by (simp add: SingleReactiveTransmitRateControl_def gradual_start_def gs_transmission_interval_def GradualStateMachine_new_def etsiStates1ms_def msec_def)

theorem limeric_budget_duty_witness:
  "lb_interval (LimericBudget_notify 0 (1/100) 500 (LimericBudget_new 0)) = 50000
    \<and> LimericBudget_delay 20000 (LimericBudget_notify 0 (1/100) 500 (LimericBudget_new 0)) = 30000"
proof -
  have i: "lb_interval (LimericBudget_notify 0 (1/100) 500 (LimericBudget_new 0)) = 50000"
    by (simp add: LimericBudget_notify_def clamp_interval_def msec_def trunc_int_def)
  show ?thesis using limeric_budget_duty [of "1/100" 500 0 "LimericBudget_new 0"] i by (simp add: Let_def)
qed

theorem limeric_budget_first_witness: "LimericBudget_delay 200000 (LimericBudget_update 7 100000 (1/100) (LimericBudget_new 42)) = 0"
  using limeric_budget_first [of "[(7, 100000, 1/100)]" 42 "LimericBudget_update 7 100000 (1/100) (LimericBudget_new 42)" 200000] by simp

theorem bursts_limited_witness: "\<exists>gs. burst_run (replicate 25 0 @ [11000000]) = concat gs \<and> (\<forall>g \<in> set gs. length g \<le> N_Burst)"
proof -
  have "sorted_wrt (\<lambda>s t. s \<le> t \<and> t \<noteq> s + T_BurstPeriod) (replicate 25 0 @ [11000000])"
    by (simp add: sorted_wrt_append numeral_eq_Suc T_BurstPeriod_def msec_def)
  from bursts_limited [OF this] show ?thesis by blast
qed


end
