(* ===== verification/DccFlow.thy ===== *)
theory DccFlow
  imports DccRates "HOL-Library.Sublist"
begin

text \<open>
  \<open>vanetza/dcc/flow_control\<close>: the gatekeeper above the access layer.  It sends a packet at once when the rate control has nothing against it and
  no packet of the same or a higher priority waits; other packets wait in a queue per access category for a trigger of the runtime.  The proofs
  are done once for every rate control that keeps the promises of \<open>transmit_rate_control\<close>.
\<close>

section \<open>The flow control\<close>

type_synonym MacAddress = "8 word list"

text \<open>A packet counts here by its bytes.\<close>

type_synonym ChunkPacket = "8 word list"

record DccDataRequest =
  dq_ether_type :: "16 word"
  dq_source :: MacAddress
  dq_destination :: MacAddress
  dq_dcc_profile :: Profile
  dq_lifetime :: int

record AccessRequest =
  aq_ether_type :: "16 word"
  aq_source_addr :: MacAddress
  aq_destination_addr :: MacAddress
  aq_access_category :: AccessCategory

record PendingTransmission =
  pt_expiry :: int
  pt_request :: DccDataRequest
  pt_packet :: ChunkPacket

definition pending_tx :: "PendingTransmission \<Rightarrow> Transmission" where
  "pending_tx p = \<lparr>tx_profile = dq_dcc_profile (pt_request p), tx_data_rate = Some G5_6Mbps, tx_body_length = length (pt_packet p)\<rparr>"

text \<open>The map of the queues is ordered by decreasing access category.  \<open>fc_triggers\<close> are the times for which the runtime holds a trigger,
  \<open>fc_sent\<close> and \<open>fc_dropped\<close> what the access layer and the hook for dropped packets were told.\<close>

type_synonym Queues = "(AccessCategory \<times> PendingTransmission list) list"

record 's FlowControl =
  fc_trc :: 's
  fc_queues :: Queues
  fc_queue_length :: nat
  fc_triggers :: "int list"
  fc_sent :: "(int \<times> AccessRequest \<times> ChunkPacket) list"
  fc_dropped :: "AccessCategory list"

definition FlowControl_new :: "'s \<Rightarrow> nat \<Rightarrow> 's FlowControl" where
  "FlowControl_new s len = \<lparr>fc_trc = s, fc_queues = [], fc_queue_length = len, fc_triggers = [], fc_sent = [], fc_dropped = []\<rparr>"

definition queue_at :: "AccessCategory \<Rightarrow> Queues \<Rightarrow> PendingTransmission list" where
  "queue_at ac qs = (case map_of qs ac of Some q \<Rightarrow> q | None \<Rightarrow> [])"

text \<open>A queue is changed through \<open>operator[]\<close>, which creates it when it is missing.\<close>

fun queue_upd :: "AccessCategory \<Rightarrow> (PendingTransmission list \<Rightarrow> PendingTransmission list) \<Rightarrow> Queues \<Rightarrow> Queues" where
  "queue_upd ac f [] = [(ac, f [])]"
| "queue_upd ac f ((k, q) # qs) =
     (if ac < k then (k, q) # queue_upd ac f qs else if k = ac then (k, f q) # qs else (ac, f []) # (k, q) # qs)"

definition drop_expired :: "int \<Rightarrow> 's FlowControl \<Rightarrow> 's FlowControl" where
  "drop_expired now fc =
     fc\<lparr>fc_queues := map (\<lambda>(ac, q). (ac, filter (\<lambda>p. \<not> pt_expiry p < now) q)) (fc_queues fc),
        fc_dropped := fc_dropped fc @ concat (map (\<lambda>(ac, q). map (\<lambda>p. ac) (filter (\<lambda>p. pt_expiry p < now) q)) (fc_queues fc))\<rparr>"

definition fc_empty :: "'s FlowControl \<Rightarrow> bool" where
  "fc_empty fc \<longleftrightarrow> (\<forall>(ac, q) \<in> set (fc_queues fc). q = [])"

fun next_queue_loop :: "'s TransmitRateControl \<Rightarrow> int \<Rightarrow> Queues \<Rightarrow> int \<Rightarrow> AccessCategory option \<Rightarrow> 's \<Rightarrow> (AccessCategory option \<times> 's) result" where
  "next_queue_loop trc now [] min_delay best s = Inr (best, s)"
| "next_queue_loop trc now ((ac, []) # qs) min_delay best s = next_queue_loop trc now qs min_delay best s"
| "next_queue_loop trc now ((ac, p # q) # qs) min_delay best s =
     rbind (trc_delay trc now (pending_tx p) s) (\<lambda>(delay, s').
       if delay < min_delay then next_queue_loop trc now qs delay (Some ac) s'
       else next_queue_loop trc now qs min_delay best s')"

definition next_queue :: "'s TransmitRateControl \<Rightarrow> int \<Rightarrow> 's FlowControl \<Rightarrow> (AccessCategory option \<times> 's FlowControl) result" where
  "next_queue trc now fc = rmap (\<lambda>(best, s). (best, fc\<lparr>fc_trc := s\<rparr>)) (next_queue_loop trc now (fc_queues fc) duration_max None (fc_trc fc))"

definition next_transmission :: "'s TransmitRateControl \<Rightarrow> int \<Rightarrow> 's FlowControl \<Rightarrow> (PendingTransmission option \<times> 's FlowControl) result" where
  "next_transmission trc now fc =
     rmap (\<lambda>(best, fc). (case best of Some ac \<Rightarrow> Some (hd (queue_at ac (fc_queues fc))) | None \<Rightarrow> None, fc)) (next_queue trc now fc)"

definition dequeue :: "'s TransmitRateControl \<Rightarrow> int \<Rightarrow> 's FlowControl \<Rightarrow> (PendingTransmission option \<times> 's FlowControl) result" where
  "dequeue trc now fc =
     rmap (\<lambda>(best, fc). case best of
         Some ac \<Rightarrow> (Some (hd (queue_at ac (fc_queues fc))), fc\<lparr>fc_queues := queue_upd ac tl (fc_queues fc)\<rparr>)
       | None \<Rightarrow> (None, fc)) (next_queue trc now fc)"

definition transmit_immediately :: "'s TransmitRateControl \<Rightarrow> int \<Rightarrow> Transmission \<Rightarrow> 's FlowControl \<Rightarrow> (bool \<times> 's FlowControl) result" where
  "transmit_immediately trc now tx fc =
     (if list_ex (\<lambda>(ac, q). ac \<ge> map_profile_onto_ac (tx_profile tx) \<and> q \<noteq> []) (fc_queues fc) then Inr (False, fc)
      else rmap (\<lambda>(delay, s). (delay = 0, fc\<lparr>fc_trc := s\<rparr>)) (trc_delay trc now tx (fc_trc fc)))"

definition access_request :: "DccDataRequest \<Rightarrow> AccessRequest" where
  "access_request request =
     \<lparr>aq_ether_type = dq_ether_type request, aq_source_addr = dq_source request, aq_destination_addr = dq_destination request,
      aq_access_category = map_profile_onto_ac (dq_dcc_profile request)\<rparr>"

definition transmit :: "int \<Rightarrow> DccDataRequest \<Rightarrow> ChunkPacket \<Rightarrow> 's FlowControl \<Rightarrow> 's FlowControl" where
  "transmit now request packet fc = fc\<lparr>fc_sent := fc_sent fc @ [(now, access_request request, packet)]\<rparr>"

text \<open>The trigger is scheduled as the last action of every operation that schedules one: when its delay is zero the runtime runs it before it
  returns, which is the order of running it right after the operation.\<close>

definition schedule_trigger :: "'s TransmitRateControl \<Rightarrow> int \<Rightarrow> Transmission \<Rightarrow> 's FlowControl \<Rightarrow> 's FlowControl result" where
  "schedule_trigger trc now tx fc =
     rmap (\<lambda>(callback_delay, s). fc\<lparr>fc_trc := s, fc_triggers := fc_triggers fc @ [now + callback_delay]\<rparr>) (trc_delay trc now tx (fc_trc fc))"

text \<open>The loop that makes room in a queue; it answers what stays and how many packets were dropped.\<close>

fun make_room :: "nat \<Rightarrow> 'a list \<Rightarrow> 'a list \<times> nat" where
  "make_room len [] = ([], 0)"
| "make_room len (p # q) = (if len > 0 \<and> length (p # q) \<ge> len then apsnd Suc (make_room len q) else (p # q, 0))"

definition enqueue :: "'s TransmitRateControl \<Rightarrow> int \<Rightarrow> DccDataRequest \<Rightarrow> ChunkPacket \<Rightarrow> 's FlowControl \<Rightarrow> 's FlowControl result" where
  "enqueue trc now request packet fc =
     (let first_packet = fc_empty fc;
          ac = map_profile_onto_ac (dq_dcc_profile request);
          pending = \<lparr>pt_expiry = now + dq_lifetime request, pt_request = request, pt_packet = packet\<rparr>;
          (kept, drops) = make_room (fc_queue_length fc) (queue_at ac (fc_queues fc));
          fc = fc\<lparr>fc_queues := queue_upd ac (\<lambda>q. kept @ [pending]) (fc_queues fc), fc_dropped := fc_dropped fc @ replicate drops ac\<rparr>
      in if first_packet then schedule_trigger trc now (pending_tx pending) fc else Inr fc)"

definition FlowControl_request :: "'s TransmitRateControl \<Rightarrow> int \<Rightarrow> DccDataRequest \<Rightarrow> ChunkPacket \<Rightarrow> 's FlowControl \<Rightarrow> 's FlowControl result" where
  "FlowControl_request trc now request packet fc =
     (let transmission = \<lparr>tx_profile = dq_dcc_profile request, tx_data_rate = None, tx_body_length = length packet\<rparr>
      in rbind (transmit_immediately trc now transmission (drop_expired now fc)) (\<lambda>(immediately, fc).
           if immediately then rmap (\<lambda>s. transmit now request packet (fc\<lparr>fc_trc := s\<rparr>)) (trc_notify trc now transmission (fc_trc fc))
           else enqueue trc now request packet fc))"

definition send_pending :: "'s TransmitRateControl \<Rightarrow> int \<Rightarrow> PendingTransmission option \<times> 's FlowControl \<Rightarrow> 's FlowControl result" where
  "send_pending trc now = (\<lambda>(transmission, fc). case transmission of
     Some p \<Rightarrow> rmap (\<lambda>s. transmit now (pt_request p) (pt_packet p) (fc\<lparr>fc_trc := s\<rparr>)) (trc_notify trc now (pending_tx p) (fc_trc fc))
   | None \<Rightarrow> Inr fc)"

definition schedule_next :: "'s TransmitRateControl \<Rightarrow> int \<Rightarrow> 's FlowControl \<Rightarrow> 's FlowControl result" where
  "schedule_next trc now fc =
     rbind (next_transmission trc now fc) (\<lambda>(next, fc). case next of Some p \<Rightarrow> schedule_trigger trc now (pending_tx p) fc | None \<Rightarrow> Inr fc)"

definition FlowControl_trigger :: "'s TransmitRateControl \<Rightarrow> int \<Rightarrow> 's FlowControl \<Rightarrow> 's FlowControl result" where
  "FlowControl_trigger trc now fc =
     rbind (rbind (dequeue trc now (drop_expired now fc)) (send_pending trc now)) (schedule_next trc now)"

definition FlowControl_reschedule :: "'s TransmitRateControl \<Rightarrow> int \<Rightarrow> 's FlowControl \<Rightarrow> 's FlowControl result" where
  "FlowControl_reschedule trc now fc =
     rbind (next_transmission trc now fc) (\<lambda>(next, fc).
       case next of Some p \<Rightarrow> schedule_trigger trc now (pending_tx p) (fc\<lparr>fc_triggers := []\<rparr>) | None \<Rightarrow> Inr fc)"

text \<open>What happens to a flow control: a request, a trigger of the runtime (the earliest one, when it is due), or a new scheduling.\<close>

datatype FlowEvent = FlowRequest DccDataRequest ChunkPacket | FlowTrigger | FlowReschedule

fun flow_event :: "'s TransmitRateControl \<Rightarrow> int \<times> FlowEvent \<Rightarrow> 's FlowControl \<Rightarrow> 's FlowControl result" where
  "flow_event trc (now, FlowRequest request packet) fc = FlowControl_request trc now request packet fc"
| "flow_event trc (now, FlowTrigger) fc =
     (case sort (fc_triggers fc) of
        [] \<Rightarrow> Inr fc
      | t # _ \<Rightarrow> if t \<le> now then FlowControl_trigger trc now (fc\<lparr>fc_triggers := remove1 t (fc_triggers fc)\<rparr>) else Inr fc)"
| "flow_event trc (now, FlowReschedule) fc = FlowControl_reschedule trc now fc"

definition flow_run :: "'s TransmitRateControl \<Rightarrow> (int \<times> FlowEvent) list \<Rightarrow> 's FlowControl \<Rightarrow> 's FlowControl result" where
  "flow_run trc = rfold (flow_event trc)"

section \<open>Lemmas on the queues\<close>

definition queues_ok :: "Queues \<Rightarrow> bool" where
  "queues_ok qs \<longleftrightarrow> sorted_wrt (\<lambda>a b. fst b < fst a) qs
     \<and> (\<forall>(ac, q) \<in> set qs. \<forall>p \<in> set q. map_profile_onto_ac (dq_dcc_profile (pt_request p)) = ac)"

definition fc_wf :: "'s FlowControl \<Rightarrow> bool" where
  "fc_wf fc \<longleftrightarrow> queues_ok (fc_queues fc) \<and> (fc_queue_length fc > 0 \<longrightarrow> (\<forall>ac. length (queue_at ac (fc_queues fc)) \<le> fc_queue_length fc))"

definition fc_ok :: "'s FlowControl \<Rightarrow> bool" where
  "fc_ok fc \<longleftrightarrow> fc_wf fc \<and> (fc_empty fc \<or> fc_triggers fc \<noteq> [])"

lemma queue_at_simps [simp]:
  "queue_at ac [] = []"
  "queue_at ac ((k, q) # qs) = (if ac = k then q else queue_at ac qs)"
  by (simp_all add: queue_at_def)

lemma queues_ok_Nil [simp]: "queues_ok []"
  by (simp add: queues_ok_def)

lemma queues_ok_Cons: "queues_ok ((k, q) # qs) \<longleftrightarrow> (\<forall>e \<in> set qs. fst e < k)
    \<and> (\<forall>p \<in> set q. map_profile_onto_ac (dq_dcc_profile (pt_request p)) = k) \<and> queues_ok qs"
  by (auto simp: queues_ok_def)

lemma queue_at_notin: "k \<notin> fst ` set qs \<Longrightarrow> queue_at k qs = []"
  by (induction qs) auto

lemma keys_queue_upd: "fst ` set (queue_upd ac f qs) = insert ac (fst ` set qs)"
  by (induction ac f qs rule: queue_upd.induct) auto

lemma queue_at_upd: "queues_ok qs \<Longrightarrow> queue_at k (queue_upd ac f qs) = (if k = ac then f (queue_at ac qs) else queue_at k qs)"
proof (induction ac f qs rule: queue_upd.induct)
  case (2 ac f k' q qs)
  have "queue_at ac qs = []" if "k' < ac" using 2(2) that by (intro queue_at_notin) (force simp: queues_ok_Cons)
  then show ?case using 2 by (auto simp: queues_ok_Cons not_less)
qed simp

lemma queues_ok_upd:
  "queues_ok qs \<Longrightarrow> \<forall>p \<in> set (f (queue_at ac qs)). map_profile_onto_ac (dq_dcc_profile (pt_request p)) = ac \<Longrightarrow> queues_ok (queue_upd ac f qs)"
proof (induction ac f qs rule: queue_upd.induct)
  case (2 ac f k q qs)
  have keys: "\<forall>e \<in> set (queue_upd ac f qs). fst e < k" if "ac < k"
    using 2(2) that keys_queue_upd [of ac f qs] by (force simp: queues_ok_Cons)
  have "queue_at ac qs = []" if "k < ac" using 2(2) that by (intro queue_at_notin) (force simp: queues_ok_Cons)
  then show ?case using 2 keys by (auto simp: queues_ok_Cons not_less)
qed (simp add: queues_ok_def)

lemma queue_at_filter: "queue_at ac (map (\<lambda>(ac, q). (ac, filter P q)) qs) = filter P (queue_at ac qs)"
  by (induction qs) auto

lemma queue_at_ok: "queues_ok qs \<Longrightarrow> p \<in> set (queue_at ac qs) \<Longrightarrow> map_profile_onto_ac (dq_dcc_profile (pt_request p)) = ac"
  by (induction qs) (auto simp: queues_ok_Cons split: if_splits)

lemma queues_ok_filter: "queues_ok qs \<Longrightarrow> queues_ok (map (\<lambda>(ac, q). (ac, filter P q)) qs)"
  by (induction qs) (force simp: queues_ok_Cons)+

lemma fc_empty_iff: "queues_ok (fc_queues fc) \<Longrightarrow> fc_empty fc \<longleftrightarrow> (\<forall>ac. queue_at ac (fc_queues fc) = [])"
proof -
  have "queues_ok qs \<Longrightarrow> (\<forall>(ac, q) \<in> set qs. q = []) \<longleftrightarrow> (\<forall>ac. queue_at ac qs = [])" for qs
  proof (induction qs)
    case (Cons e qs)
    obtain k q where e: "e = (k, q)" by (cases e)
    have "queue_at k qs = []" using Cons.prems e by (intro queue_at_notin) (force simp: queues_ok_Cons)
    then show ?case using Cons e by (auto simp: queues_ok_Cons)
  qed simp
  then show "queues_ok (fc_queues fc) \<Longrightarrow> ?thesis" by (simp add: fc_empty_def)
qed

lemma list_ex_queues:
  "queues_ok qs \<Longrightarrow> list_ex (\<lambda>(k, q). ac \<le> k \<and> q \<noteq> []) qs \<longleftrightarrow> (\<exists>k \<ge> ac. queue_at k qs \<noteq> [])"
proof (induction qs)
  case (Cons e qs)
  obtain k q where e: "e = (k, q)" by (cases e)
  have "queue_at k qs = []" using Cons.prems e by (intro queue_at_notin) (force simp: queues_ok_Cons)
  then show ?case using Cons e by (auto simp: queues_ok_Cons)
qed simp

lemma count_drops:
  "queues_ok qs \<Longrightarrow> count_list (concat (map (\<lambda>(ac, q). map (\<lambda>p. ac) (filter P q)) qs)) ac = length (filter P (queue_at ac qs))"
proof (induction qs)
  case (Cons e qs)
  obtain k q where e: "e = (k, q)" by (cases e)
  have none: "queue_at k qs = []" using Cons.prems e by (intro queue_at_notin) (force simp: queues_ok_Cons)
  have "count_list (map (\<lambda>p. k) xs) ac = (if ac = k then length xs else 0)" for xs :: "PendingTransmission list" by (induction xs) auto
  then show ?case using Cons e none by (auto simp: queues_ok_Cons)
qed simp

lemma make_room_append: "\<exists>ps. q = ps @ fst (make_room len q) \<and> length ps = snd (make_room len q)"
proof (induction len q rule: make_room.induct)
  case (2 len p q)
  then show ?case by (auto split: if_splits) (metis append_Cons length_Cons)
qed simp

lemma make_room_length: "len > 0 \<Longrightarrow> length (fst (make_room len q)) < len"
  by (induction len q rule: make_room.induct) auto

lemma make_room_unlimited: "make_room 0 q = (q, 0)"
  by (cases q) simp_all

section \<open>The next queue\<close>

text \<open>The queue whose first packet has the shortest time to wait; of several such queues the one with the highest access category.\<close>

definition front_wait :: "'s TransmitRateControl \<Rightarrow> int \<Rightarrow> 's \<Rightarrow> PendingTransmission list \<Rightarrow> int" where
  "front_wait trc now s q = trc_wait trc now (pending_tx (hd q)) s"

definition is_next :: "'s TransmitRateControl \<Rightarrow> int \<Rightarrow> 's \<Rightarrow> Queues \<Rightarrow> AccessCategory \<Rightarrow> bool" where
  "is_next trc now s qs ac \<longleftrightarrow> queue_at ac qs \<noteq> []
     \<and> (\<forall>k. queue_at k qs \<noteq> [] \<longrightarrow> front_wait trc now s (queue_at ac qs) \<le> front_wait trc now s (queue_at k qs)
           \<and> (front_wait trc now s (queue_at k qs) = front_wait trc now s (queue_at ac qs) \<longrightarrow> k \<le> ac))"

lemma is_next_cong:
  "(\<And>tx. trc_wait trc now tx s' = trc_wait trc now tx s) \<Longrightarrow> is_next trc now s' qs ac \<longleftrightarrow> is_next trc now s qs ac"
  by (simp add: is_next_def front_wait_def)

lemma is_next_Cons_empty: "queues_ok ((k, []) # qs) \<Longrightarrow> is_next trc now s ((k, []) # qs) ac \<longleftrightarrow> is_next trc now s qs ac"
proof -
  assume "queues_ok ((k, []) # qs)"
  then have "queue_at k qs = []" by (intro queue_at_notin) (force simp: queues_ok_Cons)
  then have "queue_at a ((k, []) # qs) = queue_at a qs" for a by simp
  then show ?thesis by (simp only: is_next_def)
qed

definition none_shorter :: "'s TransmitRateControl \<Rightarrow> int \<Rightarrow> 's \<Rightarrow> Queues \<Rightarrow> int \<Rightarrow> bool" where
  "none_shorter trc now s qs min_delay \<longleftrightarrow> (\<forall>k. queue_at k qs \<noteq> [] \<longrightarrow> min_delay \<le> front_wait trc now s (queue_at k qs))"

lemma is_next_Cons:
  assumes ok: "queues_ok ((k, q) # qs)" and "q \<noteq> []"
  shows "none_shorter trc now s qs (front_wait trc now s q) \<Longrightarrow> is_next trc now s ((k, q) # qs) k"
    and "is_next trc now s qs ac \<Longrightarrow> front_wait trc now s (queue_at ac qs) < front_wait trc now s q \<Longrightarrow> is_next trc now s ((k, q) # qs) ac"
proof -
  have none: "queue_at k qs = []" using ok by (intro queue_at_notin) (force simp: queues_ok_Cons)
  have less: "a < k" if "queue_at a qs \<noteq> []" for a
    using ok queue_at_notin [of a qs] that by (force simp: queues_ok_Cons)
  show "none_shorter trc now s qs (front_wait trc now s q) \<Longrightarrow> is_next trc now s ((k, q) # qs) k"
    using assms(2) less by (auto simp: is_next_def none_shorter_def less_imp_le)
  show "is_next trc now s qs ac \<Longrightarrow> front_wait trc now s (queue_at ac qs) < front_wait trc now s q \<Longrightarrow> is_next trc now s ((k, q) # qs) ac"
    using none by (auto simp: is_next_def)
qed

context transmit_rate_control
begin

lemma next_queue_loop_spec:
  assumes "queues_ok qs" and "ok now s"
  shows "\<exists>best' s'. next_queue_loop trc now qs min_delay best s = Inr (best', s') \<and> ok now s' \<and> (\<forall>tx. trc_wait trc now tx s' = trc_wait trc now tx s)
    \<and> (none_shorter trc now s qs min_delay \<and> best' = best
       \<or> (\<exists>ac. best' = Some ac \<and> is_next trc now s qs ac \<and> front_wait trc now s (queue_at ac qs) < min_delay))"
  using assms
proof (induction qs arbitrary: min_delay best s)
  case (Cons e qs)
  obtain k q where e: "e = (k, q)" by (cases e)
  have qs: "queues_ok qs" using Cons.prems(1) by (simp add: e queues_ok_Cons)
  show ?case
  proof (cases q)
    case Nil
    have "queue_at k qs = []" using Cons.prems(1) by (intro queue_at_notin) (force simp: e queues_ok_Cons)
    then have "none_shorter trc now s ((k, []) # qs) min_delay \<longleftrightarrow> none_shorter trc now s qs min_delay" and at: "queue_at a ((k, []) # qs) = queue_at a qs" for a
      by (auto simp: none_shorter_def)
    then show ?thesis using Cons.IH [OF qs Cons.prems(2), of min_delay best] Cons.prems(1)
      by (simp add: e Nil is_next_Cons_empty del: queue_at_simps)
  next
    case (Cons p q')
    let ?w = "front_wait trc now s q"
    obtain s1 where s1: "trc_delay trc now (pending_tx p) s = Inr (?w, s1)" "ok now s1"
      using delay_total [OF Cons.prems(2), of "pending_tx p"] Cons delay_wait [OF Cons.prems(2)] by (auto simp: front_wait_def)
    have same: "trc_wait trc now tx s1 = trc_wait trc now tx s" for tx using delay_stable [OF Cons.prems(2) s1(1)] .
    note ok = Cons.prems(1) [unfolded e]
    have nonempty: "q \<noteq> []" using Cons by simp
    note next_eq = is_next_cong [where trc = trc and now = now, OF same]
    have front_eq: "front_wait trc now s1 r = front_wait trc now s r" for r using same by (simp add: front_wait_def)
    have shorter_eq: "none_shorter trc now s1 r d = none_shorter trc now s r d" for r d by (simp add: none_shorter_def front_eq)
    have none: "queue_at k qs = []" using ok by (intro queue_at_notin) (force simp: queues_ok_Cons)
    then have away: "ac \<noteq> k" if "is_next trc now s qs ac" for ac using that by (auto simp: is_next_def)
    show ?thesis
    proof (cases "?w < min_delay")
      case True
      have "next_queue_loop trc now (e # qs) min_delay best s = next_queue_loop trc now qs ?w (Some k) s1" using True s1(1) by (simp add: e Cons)
      moreover obtain best' s' where r: "next_queue_loop trc now qs ?w (Some k) s1 = Inr (best', s')" "ok now s'" "\<forall>tx. trc_wait trc now tx s' = trc_wait trc now tx s"
        "none_shorter trc now s qs ?w \<and> best' = Some k \<or> (\<exists>ac. best' = Some ac \<and> is_next trc now s qs ac \<and> front_wait trc now s (queue_at ac qs) < ?w)"
        using Cons.IH [OF qs s1(2), of ?w "Some k"] by (auto simp: next_eq front_eq shorter_eq same)
      moreover have "\<exists>ac. best' = Some ac \<and> is_next trc now s (e # qs) ac \<and> front_wait trc now s (queue_at ac (e # qs)) < min_delay"
        using r(4) True is_next_Cons [OF ok nonempty, of trc now s] away by (auto simp: e dest: less_trans)
      ultimately show ?thesis by auto
    next
      case False
      have "next_queue_loop trc now (e # qs) min_delay best s = next_queue_loop trc now qs min_delay best s1" using False s1(1) by (simp add: e Cons)
      moreover obtain best' s' where r: "next_queue_loop trc now qs min_delay best s1 = Inr (best', s')" "ok now s'" "\<forall>tx. trc_wait trc now tx s' = trc_wait trc now tx s"
        "none_shorter trc now s qs min_delay \<and> best' = best
          \<or> (\<exists>ac. best' = Some ac \<and> is_next trc now s qs ac \<and> front_wait trc now s (queue_at ac qs) < min_delay)"
        using Cons.IH [OF qs s1(2), of min_delay best] by (auto simp: next_eq front_eq shorter_eq same)
      moreover have "none_shorter trc now s (e # qs) min_delay" if "none_shorter trc now s qs min_delay"
        using that False by (simp add: e none_shorter_def)
      moreover have "is_next trc now s (e # qs) ac \<and> front_wait trc now s (queue_at ac (e # qs)) < min_delay"
        if "is_next trc now s qs ac" "front_wait trc now s (queue_at ac qs) < min_delay" for ac
        using that False is_next_Cons(2) [OF ok nonempty, of trc now s ac] away [OF that(1)] by (simp add: e)
      ultimately show ?thesis by (intro exI [of _ best'] exI [of _ s']) auto
    qed
  qed
qed (simp add: none_shorter_def)

lemma next_queue_spec:
  assumes "queues_ok (fc_queues fc)" and "ok now (fc_trc fc)"
  shows "\<exists>best s'. next_queue trc now fc = Inr (best, fc\<lparr>fc_trc := s'\<rparr>) \<and> ok now s' \<and> (\<forall>tx. trc_wait trc now tx s' = trc_wait trc now tx (fc_trc fc))
    \<and> (case best of None \<Rightarrow> fc_empty fc | Some ac \<Rightarrow> is_next trc now (fc_trc fc) (fc_queues fc) ac)"
proof -
  have "fc_empty fc" if "none_shorter trc now (fc_trc fc) (fc_queues fc) duration_max"
    using that wait_finite [OF assms(2)] unfolding fc_empty_iff [OF assms(1)] none_shorter_def front_wait_def by (meson not_le)
  with next_queue_loop_spec [OF assms, of duration_max None] show ?thesis by (fastforce simp: next_queue_def split: option.splits)
qed

end


section \<open>What becomes of the packets\<close>

type_synonym Item = "AccessRequest \<times> ChunkPacket"

definition item :: "PendingTransmission \<Rightarrow> Item" where
  "item p = (access_request (pt_request p), pt_packet p)"

definition sent_of :: "AccessCategory \<Rightarrow> 's FlowControl \<Rightarrow> Item list" where
  "sent_of ac fc = map snd (filter (\<lambda>(t, a, packet). aq_access_category a = ac) (fc_sent fc))"

definition queued_of :: "AccessCategory \<Rightarrow> 's FlowControl \<Rightarrow> Item list" where
  "queued_of ac fc = map item (queue_at ac (fc_queues fc))"

definition requested_item :: "AccessCategory \<Rightarrow> DccDataRequest \<Rightarrow> ChunkPacket \<Rightarrow> Item list" where
  "requested_item ac request packet = (if map_profile_onto_ac (dq_dcc_profile request) = ac then [(access_request request, packet)] else [])"

definition requested_of :: "AccessCategory \<Rightarrow> (int \<times> FlowEvent) list \<Rightarrow> Item list" where
  "requested_of ac evs = concat (map (\<lambda>(now, ev). case ev of FlowRequest request packet \<Rightarrow> requested_item ac request packet | _ \<Rightarrow> []) evs)"

text \<open>A step from one state to another in which the packets \<open>new\<close> arrive: per access category nothing is reordered or invented, and what neither
  was sent nor waits was counted as dropped.\<close>

definition advances :: "(AccessCategory \<Rightarrow> Item list) \<Rightarrow> 's FlowControl \<Rightarrow> 's FlowControl \<Rightarrow> bool" where
  "advances new fc fc' \<longleftrightarrow> fc_queue_length fc' = fc_queue_length fc
     \<and> (\<forall>ac. subseq (sent_of ac fc' @ queued_of ac fc') (sent_of ac fc @ queued_of ac fc @ new ac)
           \<and> length (sent_of ac fc') + length (queued_of ac fc') + count_list (fc_dropped fc') ac
             = length (sent_of ac fc) + length (queued_of ac fc) + length (new ac) + count_list (fc_dropped fc) ac)"

lemma advances_count:
  "advances new fc fc' \<Longrightarrow> length (sent_of ac fc') + length (queued_of ac fc') + count_list (fc_dropped fc') ac
     = length (sent_of ac fc) + length (queued_of ac fc) + length (new ac) + count_list (fc_dropped fc) ac"
  by (simp add: advances_def)

lemma advances_append:
  assumes a: "advances new fc fc1" and b: "advances new' fc1 fc2"
  shows "advances (\<lambda>ac. new ac @ new' ac) fc fc2"
proof -
  have "subseq (sent_of ac fc2 @ queued_of ac fc2) (sent_of ac fc @ queued_of ac fc @ new ac @ new' ac)" for ac
  proof -
    have "subseq ((sent_of ac fc1 @ queued_of ac fc1) @ new' ac) ((sent_of ac fc @ queued_of ac fc @ new ac) @ new' ac)"
      by (rule list_emb_append_mono) (use a in \<open>simp_all add: advances_def\<close>)
    moreover have "subseq (sent_of ac fc2 @ queued_of ac fc2) ((sent_of ac fc1 @ queued_of ac fc1) @ new' ac)" using b by (simp add: advances_def)
    ultimately show ?thesis using subseq_order.trans by fastforce
  qed
  moreover have "length (sent_of ac fc2) + length (queued_of ac fc2) + count_list (fc_dropped fc2) ac
      = length (sent_of ac fc) + length (queued_of ac fc) + length (new ac @ new' ac) + count_list (fc_dropped fc) ac" for ac
    using advances_count [OF a, of ac] advances_count [OF b, of ac] by simp
  ultimately show ?thesis using a b by (simp add: advances_def)
qed

lemma advances_trans: "advances (\<lambda>ac. []) fc fc1 \<Longrightarrow> advances new fc1 fc2 \<Longrightarrow> advances new fc fc2"
  using advances_append [of "\<lambda>ac. []" fc fc1 new fc2] by simp

lemma queue_fields [simp]:
  "sent_of ac (fc\<lparr>fc_trc := s\<rparr>) = sent_of ac fc" "queued_of ac (fc\<lparr>fc_trc := s\<rparr>) = queued_of ac fc" "fc_wf (fc\<lparr>fc_trc := s\<rparr>) = fc_wf fc"
  "sent_of ac (fc\<lparr>fc_triggers := ts\<rparr>) = sent_of ac fc" "queued_of ac (fc\<lparr>fc_triggers := ts\<rparr>) = queued_of ac fc" "fc_wf (fc\<lparr>fc_triggers := ts\<rparr>) = fc_wf fc"
  "fc_empty (fc\<lparr>fc_trc := s\<rparr>) = fc_empty fc" "fc_empty (fc\<lparr>fc_triggers := ts\<rparr>) = fc_empty fc" "fc_ok (fc\<lparr>fc_trc := s\<rparr>) = fc_ok fc"
  by (simp_all add: sent_of_def queued_of_def fc_wf_def fc_empty_def fc_ok_def)

lemma advances_fields [simp]:
  "advances (\<lambda>ac. []) fc fc" "advances new (fc\<lparr>fc_trc := s\<rparr>) fc' = advances new fc fc'" "advances new fc (fc'\<lparr>fc_trc := s\<rparr>) = advances new fc fc'"
  "advances new (fc\<lparr>fc_triggers := ts\<rparr>) fc' = advances new fc fc'" "advances new fc (fc'\<lparr>fc_triggers := ts\<rparr>) = advances new fc fc'"
  by (simp_all add: advances_def)

lemma transmit_fields [simp]:
  "fc_queues (transmit now r p fc) = fc_queues fc" "fc_triggers (transmit now r p fc) = fc_triggers fc" "fc_trc (transmit now r p fc) = fc_trc fc"
  "fc_dropped (transmit now r p fc) = fc_dropped fc" "fc_queue_length (transmit now r p fc) = fc_queue_length fc"
  "fc_wf (transmit now r p fc) = fc_wf fc" "fc_empty (transmit now r p fc) = fc_empty fc" "queued_of ac (transmit now r p fc) = queued_of ac fc"
  "fc_sent (transmit now r p fc) = fc_sent fc @ [(now, access_request r, p)]"
  by (simp_all add: transmit_def fc_wf_def fc_empty_def queued_of_def)

lemma sent_of_transmit: "sent_of ac (transmit now r p fc) = sent_of ac fc @ requested_item ac r p"
  by (simp add: sent_of_def transmit_def requested_item_def access_request_def)

lemma drop_expired_fields [simp]:
  "fc_trc (drop_expired now fc) = fc_trc fc" "fc_triggers (drop_expired now fc) = fc_triggers fc" "fc_queue_length (drop_expired now fc) = fc_queue_length fc"
  "sent_of ac (drop_expired now fc) = sent_of ac fc" "fc_sent (drop_expired now fc) = fc_sent fc"
  "queue_at ac (fc_queues (drop_expired now fc)) = filter (\<lambda>p. \<not> pt_expiry p < now) (queue_at ac (fc_queues fc))"
  by (simp_all add: drop_expired_def sent_of_def queue_at_filter)

lemma drop_expired_wf: "fc_wf fc \<Longrightarrow> fc_wf (drop_expired now fc)"
  using queues_ok_filter [of "fc_queues fc"] by (auto simp: fc_wf_def drop_expired_def queue_at_filter intro: le_trans [OF length_filter_le])

lemma drop_expired_advances: "fc_wf fc \<Longrightarrow> advances (\<lambda>ac. []) fc (drop_expired now fc)"
proof -
  assume wf: "fc_wf fc"
  have "count_list (fc_dropped (drop_expired now fc)) ac
      = count_list (fc_dropped fc) ac + length (filter (\<lambda>p. pt_expiry p < now) (queue_at ac (fc_queues fc)))" for ac
    using wf count_drops [of "fc_queues fc"] by (simp add: drop_expired_def fc_wf_def)
  moreover have "length (queued_of ac (drop_expired now fc)) + length (filter (\<lambda>p. pt_expiry p < now) (queue_at ac (fc_queues fc)))
      = length (queued_of ac fc)" for ac
    using sum_length_filter_compl [of "\<lambda>p. pt_expiry p < now" "queue_at ac (fc_queues fc)"] by (simp add: queued_of_def)
  moreover have "subseq (sent_of ac fc @ queued_of ac (drop_expired now fc)) (sent_of ac fc @ queued_of ac fc)" for ac
    by (intro list_emb_append_mono) (simp_all add: queued_of_def subseq_map)
  ultimately show ?thesis by (simp add: advances_def)
qed

lemma drop_expired_ok: "fc_ok fc \<Longrightarrow> fc_ok (drop_expired now fc)"
  using drop_expired_wf [of fc now] by (auto simp: fc_ok_def fc_empty_iff fc_wf_def)


section \<open>The operations\<close>

lemma no_contention: "queues_ok qs \<Longrightarrow> \<not> list_ex (\<lambda>(k, q). k \<ge> ac \<and> q \<noteq> []) qs \<Longrightarrow> queue_at ac qs = []"
  using list_ex_queues [of qs ac] by auto

lemma enqueue_queue:
  assumes wf: "fc_wf fc" and mr: "make_room (fc_queue_length fc) (queue_at ac (fc_queues fc)) = (kept, drops)"
    and ac: "ac = map_profile_onto_ac (dq_dcc_profile (pt_request p))"
  defines "fc' \<equiv> fc\<lparr>fc_queues := queue_upd ac (\<lambda>q. kept @ [p]) (fc_queues fc), fc_dropped := fc_dropped fc @ replicate drops ac\<rparr>"
  shows "fc_wf fc' \<and> \<not> fc_empty fc' \<and> advances (\<lambda>k. requested_item k (pt_request p) (pt_packet p)) fc fc'"
proof -
  obtain ps where ps: "queue_at ac (fc_queues fc) = ps @ kept" "length ps = drops"
    using make_room_append [of "queue_at ac (fc_queues fc)" "fc_queue_length fc"] mr by auto
  have qok: "queues_ok (fc_queues fc)" using wf by (simp add: fc_wf_def)
  have kept: "\<forall>x \<in> set (kept @ [p]). map_profile_onto_ac (dq_dcc_profile (pt_request x)) = ac"
    using queue_at_ok [OF qok, of _ ac] ps(1) ac by auto
  have at: "queue_at k (fc_queues fc') = (if k = ac then kept @ [p] else queue_at k (fc_queues fc))" for k
    by (simp add: fc'_def queue_at_upd [OF qok])
  have ok': "queues_ok (fc_queues fc')" using queues_ok_upd [OF qok, of "\<lambda>q. kept @ [p]" ac] kept by (simp add: fc'_def)
  have "fc_queue_length fc > 0 \<Longrightarrow> length kept < fc_queue_length fc"
    using make_room_length [of "fc_queue_length fc" "queue_at ac (fc_queues fc)"] mr by simp
  then have wf': "fc_wf fc'" using wf ok' at by (auto simp: fc_wf_def) (simp_all add: fc'_def Suc_leI)
  have "\<not> fc_empty fc'" unfolding fc_empty_iff [OF ok'] at by auto
  moreover have "subseq (sent_of k fc' @ queued_of k fc') (sent_of k fc @ queued_of k fc @ requested_item k (pt_request p) (pt_packet p))" for k
  proof -
    have "subseq (queued_of k fc') (queued_of k fc @ requested_item k (pt_request p) (pt_packet p))"
      using ps(1) by (cases "k = ac") (simp_all add: queued_of_def at requested_item_def ac [symmetric] item_def list_emb_append2)
    moreover have "sent_of k fc' = sent_of k fc" by (simp add: fc'_def sent_of_def)
    ultimately show ?thesis by (simp add: list_emb_append_mono)
  qed
  moreover have "length (sent_of k fc') + length (queued_of k fc') + count_list (fc_dropped fc') k
      = length (sent_of k fc) + length (queued_of k fc) + length (requested_item k (pt_request p) (pt_packet p)) + count_list (fc_dropped fc) k" for k
  proof -
    have "count_list (replicate drops ac) k = (if k = ac then drops else 0)" by (induction drops) auto
    then have "count_list (fc_dropped fc') k = count_list (fc_dropped fc) k + (if k = ac then drops else 0)" "sent_of k fc' = sent_of k fc"
      by (simp_all add: fc'_def sent_of_def)
    then show ?thesis using ps by (cases "k = ac") (simp_all add: queued_of_def at requested_item_def ac [symmetric])
  qed
  ultimately show ?thesis using wf' by (simp add: advances_def) (simp add: fc'_def)
qed

lemma dequeue_queue:
  assumes wf: "fc_wf fc" and "queue_at ac (fc_queues fc) \<noteq> []"
  defines "p \<equiv> hd (queue_at ac (fc_queues fc))" and "fc1 \<equiv> fc\<lparr>fc_queues := queue_upd ac tl (fc_queues fc)\<rparr>"
  shows "fc_wf fc1 \<and> advances (\<lambda>ac. []) fc (transmit now (pt_request p) (pt_packet p) fc1)
    \<and> (\<Sum>k \<in> {BK, BE, VI, VO}. length (queue_at k (fc_queues fc1))) + 1 = (\<Sum>k \<in> {BK, BE, VI, VO}. length (queue_at k (fc_queues fc)))"
proof -
  obtain q where q: "queue_at ac (fc_queues fc) = p # q" using assms(2) by (cases "queue_at ac (fc_queues fc)") (auto simp: p_def)
  have qok: "queues_ok (fc_queues fc)" using wf by (simp add: fc_wf_def)
  have at: "queue_at k (fc_queues fc1) = (if k = ac then q else queue_at k (fc_queues fc))" for k by (simp add: fc1_def queue_at_upd [OF qok] q)
  have "queues_ok (fc_queues fc1)" unfolding fc1_def using queues_ok_upd [OF qok, of tl ac] queue_at_ok [OF qok, of _ ac] q by auto
  moreover have "fc_queue_length fc1 > 0 \<longrightarrow> (\<forall>k. length (queue_at k (fc_queues fc1)) \<le> fc_queue_length fc1)"
  proof (intro impI allI)
    fix k assume "fc_queue_length fc1 > 0"
    then have "length (queue_at j (fc_queues fc)) \<le> fc_queue_length fc" for j using wf by (simp add: fc_wf_def fc1_def)
    from this [of k] this [of ac] show "length (queue_at k (fc_queues fc1)) \<le> fc_queue_length fc1" unfolding at by (simp add: q) (simp add: fc1_def)
  qed
  ultimately have "fc_wf fc1" by (simp add: fc_wf_def)
  moreover have ac: "map_profile_onto_ac (dq_dcc_profile (pt_request p)) = ac" using queue_at_ok [OF qok, of p ac] q by simp
  have "sent_of k (transmit now (pt_request p) (pt_packet p) fc1) @ queued_of k (transmit now (pt_request p) (pt_packet p) fc1) = sent_of k fc @ queued_of k fc" for k
  proof -
    have "sent_of k fc1 = sent_of k fc" by (simp add: fc1_def sent_of_def)
    then show ?thesis by (cases "k = ac") (simp_all add: sent_of_transmit queued_of_def at requested_item_def ac q item_def)
  qed
  then have "advances (\<lambda>ac. []) fc (transmit now (pt_request p) (pt_packet p) fc1)"
    unfolding advances_def by (simp add: length_append [symmetric] del: length_append) (simp add: fc1_def)
  moreover have "(\<Sum>k \<in> {BK, BE, VI, VO}. length (queue_at k (fc_queues fc1))) + 1 = (\<Sum>k \<in> {BK, BE, VI, VO}. length (queue_at k (fc_queues fc)))"
    using q by (cases ac) (simp_all add: at)
  ultimately show ?thesis by blast
qed


definition queued_total :: "'s FlowControl \<Rightarrow> nat" where
  "queued_total fc = (\<Sum>k \<in> {BK, BE, VI, VO}. length (queue_at k (fc_queues fc)))"

lemma queued_total_fields [simp]:
  "queued_total (fc\<lparr>fc_trc := s\<rparr>) = queued_total fc" "queued_total (fc\<lparr>fc_triggers := ts\<rparr>) = queued_total fc"
  "queued_total (transmit now r p fc) = queued_total fc"
  by (simp_all add: queued_total_def)

lemma queued_total_zero: "fc_wf fc \<Longrightarrow> queued_total fc = 0 \<longleftrightarrow> fc_empty fc"
proof -
  assume wf: "fc_wf fc"
  have "(\<forall>ac. queue_at ac (fc_queues fc) = []) \<longleftrightarrow> (\<forall>ac \<in> {BK, BE, VI, VO}. queue_at ac (fc_queues fc) = [])"
  proof (intro iffI allI)
    fix ac assume "\<forall>ac \<in> {BK, BE, VI, VO}. queue_at ac (fc_queues fc) = []"
    then show "queue_at ac (fc_queues fc) = []" by (cases ac) simp_all
  qed simp
  with wf show ?thesis unfolding queued_total_def by (simp add: fc_empty_iff fc_wf_def)
qed

lemma queued_total_drop: "queued_total (drop_expired now fc) \<le> queued_total fc"
  unfolding queued_total_def by (rule sum_mono) (simp add: length_filter_le)

context transmit_rate_control
begin

lemma schedule_trigger_spec:
  assumes "ok now (fc_trc fc)"
  shows "\<exists>s'. schedule_trigger trc now tx fc = Inr (fc\<lparr>fc_trc := s', fc_triggers := fc_triggers fc @ [now + trc_wait trc now tx (fc_trc fc)]\<rparr>) \<and> ok now s'"
  using delay_total [OF assms, of tx] delay_wait [OF assms] by (auto simp: schedule_trigger_def)

lemma next_transmission_spec:
  assumes "fc_wf fc" and "ok now (fc_trc fc)"
  shows "\<exists>best s'. next_transmission trc now fc = Inr (map_option (\<lambda>ac. hd (queue_at ac (fc_queues fc))) best, fc\<lparr>fc_trc := s'\<rparr>) \<and> ok now s'
    \<and> (\<forall>tx. trc_wait trc now tx s' = trc_wait trc now tx (fc_trc fc))
    \<and> (case best of None \<Rightarrow> fc_empty fc | Some ac \<Rightarrow> is_next trc now (fc_trc fc) (fc_queues fc) ac)"
proof -
  obtain best s' where b: "next_queue trc now fc = Inr (best, fc\<lparr>fc_trc := s'\<rparr>)" "ok now s'"
    "\<forall>tx. trc_wait trc now tx s' = trc_wait trc now tx (fc_trc fc)"
    "case best of None \<Rightarrow> fc_empty fc | Some ac \<Rightarrow> is_next trc now (fc_trc fc) (fc_queues fc) ac"
    using next_queue_spec [of fc now] assms by (auto simp: fc_wf_def)
  then have "next_transmission trc now fc = Inr (map_option (\<lambda>ac. hd (queue_at ac (fc_queues fc))) best, fc\<lparr>fc_trc := s'\<rparr>)"
    by (simp add: next_transmission_def split: option.splits)
  with b(2-4) show ?thesis by blast
qed

lemma schedule_next_spec:
  assumes "fc_wf fc" and "ok now (fc_trc fc)"
  shows "\<exists>s' ts. schedule_next trc now fc = Inr (fc\<lparr>fc_trc := s', fc_triggers := fc_triggers fc @ ts\<rparr>) \<and> ok now s'
    \<and> (if fc_empty fc then ts = [] else \<exists>ac. is_next trc now (fc_trc fc) (fc_queues fc) ac \<and> ts = [now + front_wait trc now (fc_trc fc) (queue_at ac (fc_queues fc))])"
proof -
  obtain best s' where b: "next_transmission trc now fc = Inr (map_option (\<lambda>ac. hd (queue_at ac (fc_queues fc))) best, fc\<lparr>fc_trc := s'\<rparr>)" "ok now s'"
    "\<forall>tx. trc_wait trc now tx s' = trc_wait trc now tx (fc_trc fc)"
    "case best of None \<Rightarrow> fc_empty fc | Some ac \<Rightarrow> is_next trc now (fc_trc fc) (fc_queues fc) ac"
    using next_transmission_spec [OF assms] by blast
  show ?thesis
  proof (cases best)
    case None
    with b have "schedule_next trc now fc = Inr (fc\<lparr>fc_trc := s', fc_triggers := fc_triggers fc @ []\<rparr>)" by (simp add: schedule_next_def)
    with b None show ?thesis by (intro exI [of _ s'] exI [of _ "[]"]) simp
  next
    case (Some ac)
    let ?p = "hd (queue_at ac (fc_queues fc))"
    obtain s2 where "schedule_trigger trc now (pending_tx ?p) (fc\<lparr>fc_trc := s'\<rparr>)
        = Inr (fc\<lparr>fc_trc := s2, fc_triggers := fc_triggers fc @ [now + trc_wait trc now (pending_tx ?p) s']\<rparr>)" "ok now s2"
      using schedule_trigger_spec [of now "fc\<lparr>fc_trc := s'\<rparr>" "pending_tx ?p"] b(2) by auto
    moreover have "\<not> fc_empty fc" using b(4) Some assms(1) by (auto simp: is_next_def fc_empty_iff fc_wf_def)
    ultimately show ?thesis using b Some
      by (intro exI [of _ s2] exI [of _ "[now + trc_wait trc now (pending_tx ?p) s']"]) (auto simp: schedule_next_def front_wait_def)
  qed
qed

lemma dequeue_send_spec:
  assumes "fc_wf fc" and "ok now (fc_trc fc)"
  shows "\<exists>fc'. rbind (dequeue trc now fc) (send_pending trc now) = Inr fc' \<and> fc_wf fc' \<and> ok now (fc_trc fc') \<and> advances (\<lambda>ac. []) fc fc'
    \<and> fc_triggers fc' = fc_triggers fc \<and> queued_total fc' = queued_total fc - 1
    \<and> (if fc_empty fc then fc_sent fc' = fc_sent fc
       else \<exists>ac. is_next trc now (fc_trc fc) (fc_queues fc) ac
          \<and> fc_sent fc' = fc_sent fc @ [(now, item (hd (queue_at ac (fc_queues fc))))])"
proof -
  obtain best s' where b: "next_queue trc now fc = Inr (best, fc\<lparr>fc_trc := s'\<rparr>)" "ok now s'"
    "case best of None \<Rightarrow> fc_empty fc | Some ac \<Rightarrow> is_next trc now (fc_trc fc) (fc_queues fc) ac"
    using next_queue_spec [of fc now] assms by (auto simp: fc_wf_def)
  show ?thesis
  proof (cases best)
    case None
    with b have "rbind (dequeue trc now fc) (send_pending trc now) = Inr (fc\<lparr>fc_trc := s'\<rparr>)" by (simp add: dequeue_def send_pending_def)
    moreover have "queued_total fc = 0" "fc_empty fc" using b(3) None queued_total_zero [OF assms(1)] by simp_all
    ultimately show ?thesis using assms(1) b(2) by simp
  next
    case (Some ac)
    let ?p = "hd (queue_at ac (fc_queues fc))"
    let ?fc1 = "fc\<lparr>fc_queues := queue_upd ac tl (fc_queues fc)\<rparr>"
    obtain s2 where s2: "trc_notify trc now (pending_tx ?p) s' = Inr s2" "ok now s2"
      using notify_total [OF b(2), of "pending_tx ?p"] by (auto simp: tx_ok_def pending_tx_def)
    have nx: "is_next trc now (fc_trc fc) (fc_queues fc) ac" using b(3) Some by simp
    then have ne: "queue_at ac (fc_queues fc) \<noteq> []" by (simp add: is_next_def)
    then have "\<not> fc_empty fc" using assms(1) by (auto simp: fc_empty_iff fc_wf_def)
    moreover have "rbind (dequeue trc now fc) (send_pending trc now) = Inr ((transmit now (pt_request ?p) (pt_packet ?p) ?fc1)\<lparr>fc_trc := s2\<rparr>)"
      using b(1) Some s2(1) by (simp add: dequeue_def send_pending_def transmit_def)
    moreover have d: "fc_wf ?fc1" "advances (\<lambda>ac. []) fc (transmit now (pt_request ?p) (pt_packet ?p) ?fc1)" "queued_total ?fc1 + 1 = queued_total fc"
      using dequeue_queue [OF assms(1) ne, of now] by (simp_all only: queued_total_def)
    moreover have "fc_sent (transmit now (pt_request ?p) (pt_packet ?p) ?fc1) = fc_sent fc @ [(now, item ?p)]" by (simp add: transmit_def item_def)
    ultimately show ?thesis using s2(2) nx
      by (intro exI [of _ "(transmit now (pt_request ?p) (pt_packet ?p) ?fc1)\<lparr>fc_trc := s2\<rparr>"]) auto
  qed
qed

lemma trigger_spec:
  assumes "fc_wf fc" and "ok now (fc_trc fc)"
  defines "fc1 \<equiv> drop_expired now fc"
  shows "\<exists>fc'. FlowControl_trigger trc now fc = Inr fc' \<and> fc_ok fc' \<and> ok now (fc_trc fc') \<and> advances (\<lambda>ac. []) fc fc' \<and> queued_total fc' = queued_total fc1 - 1
    \<and> (if fc_empty fc1 then fc_sent fc' = fc_sent fc
       else \<exists>ac. is_next trc now (fc_trc fc) (fc_queues fc1) ac \<and> fc_sent fc' = fc_sent fc @ [(now, item (hd (queue_at ac (fc_queues fc1))))])"
proof -
  have fc1: "fc_wf fc1" "ok now (fc_trc fc1)" using assms drop_expired_wf by simp_all
  obtain fc2 where fc2: "rbind (dequeue trc now fc1) (send_pending trc now) = Inr fc2" "fc_wf fc2" "ok now (fc_trc fc2)" "advances (\<lambda>ac. []) fc1 fc2"
      "queued_total fc2 = queued_total fc1 - 1"
    and sent: "if fc_empty fc1 then fc_sent fc2 = fc_sent fc1
       else \<exists>ac. is_next trc now (fc_trc fc1) (fc_queues fc1) ac \<and> fc_sent fc2 = fc_sent fc1 @ [(now, item (hd (queue_at ac (fc_queues fc1))))]"
    using dequeue_send_spec [OF fc1] by blast
  obtain s' ts where s': "schedule_next trc now fc2 = Inr (fc2\<lparr>fc_trc := s', fc_triggers := fc_triggers fc2 @ ts\<rparr>)" "ok now s'" "fc_empty fc2 \<or> ts \<noteq> []"
    using schedule_next_spec [OF fc2(2,3)] by (metis list.distinct(1))
  let ?fc' = "fc2\<lparr>fc_trc := s', fc_triggers := fc_triggers fc2 @ ts\<rparr>"
  have "FlowControl_trigger trc now fc = Inr ?fc'" using fc2(1) s'(1) by (simp add: FlowControl_trigger_def fc1_def)
  moreover have "advances (\<lambda>ac. []) fc ?fc'" using advances_trans [OF drop_expired_advances [OF assms(1)]] fc2(4) by (simp add: fc1_def)
  moreover have "fc_ok ?fc'" using fc2(2) s'(3) by (auto simp: fc_ok_def)
  moreover have "fc_trc fc1 = fc_trc fc" "fc_sent fc1 = fc_sent fc" by (simp_all add: fc1_def)
  ultimately show ?thesis using s'(2) fc2(5) sent by (intro exI [of _ ?fc']) (auto simp del: drop_expired_fields)
qed

end


context transmit_rate_control
begin

lemma enqueue_spec:
  assumes "fc_ok fc" and "ok now (fc_trc fc)"
  shows "\<exists>fc'. enqueue trc now r packet fc = Inr fc' \<and> fc_ok fc' \<and> ok now (fc_trc fc') \<and> advances (\<lambda>k. requested_item k r packet) fc fc'
    \<and> fc_sent fc' = fc_sent fc"
proof -
  define ac where "ac = map_profile_onto_ac (dq_dcc_profile r)"
  define p where "p = \<lparr>pt_expiry = now + dq_lifetime r, pt_request = r, pt_packet = packet\<rparr>"
  obtain kept drops where mr: "make_room (fc_queue_length fc) (queue_at ac (fc_queues fc)) = (kept, drops)" by fastforce
  define fc1 where "fc1 = fc\<lparr>fc_queues := queue_upd ac (\<lambda>q. kept @ [p]) (fc_queues fc), fc_dropped := fc_dropped fc @ replicate drops ac\<rparr>"
  have e: "enqueue trc now r packet fc = (if fc_empty fc then schedule_trigger trc now (pending_tx p) fc1 else Inr fc1)"
    by (simp add: enqueue_def Let_def ac_def [symmetric] p_def [symmetric] mr fc1_def)
  have fc1: "fc_wf fc1" "advances (\<lambda>k. requested_item k r packet) fc fc1"
    using enqueue_queue [of fc ac kept drops p] assms(1) mr by (simp_all add: fc_ok_def ac_def p_def fc1_def)
  have same: "fc_trc fc1 = fc_trc fc" "fc_triggers fc1 = fc_triggers fc" "fc_sent fc1 = fc_sent fc" by (simp_all add: fc1_def)
  show ?thesis
  proof (cases "fc_empty fc")
    case True
    obtain s' where "schedule_trigger trc now (pending_tx p) fc1
        = Inr (fc1\<lparr>fc_trc := s', fc_triggers := fc_triggers fc1 @ [now + trc_wait trc now (pending_tx p) (fc_trc fc1)]\<rparr>)" "ok now s'"
      using schedule_trigger_spec [of now fc1] assms(2) same by auto
    then show ?thesis using e True fc1 same by (simp add: fc_ok_def)
  next
    case False
    then show ?thesis using e fc1 same assms by (simp add: fc_ok_def)
  qed
qed

lemma request_spec:
  fixes r :: DccDataRequest and packet :: ChunkPacket
  assumes "fc_ok fc" and "ok now (fc_trc fc)"
  defines "fc1 \<equiv> drop_expired now fc" and "tx \<equiv> \<lparr>tx_profile = dq_dcc_profile r, tx_data_rate = None, tx_body_length = length packet\<rparr>"
  shows "\<exists>fc'. FlowControl_request trc now r packet fc = Inr fc' \<and> fc_ok fc' \<and> ok now (fc_trc fc') \<and> advances (\<lambda>k. requested_item k r packet) fc fc'
    \<and> fc_sent fc' = fc_sent fc @ (if (\<forall>k \<ge> map_profile_onto_ac (dq_dcc_profile r). queue_at k (fc_queues fc1) = []) \<and> trc_wait trc now tx (fc_trc fc) = 0
        then [(now, access_request r, packet)] else [])"
proof -
  have fc1: "fc_ok fc1" "ok now (fc_trc fc1)" "fc_sent fc1 = fc_sent fc" "fc_trc fc1 = fc_trc fc" using assms drop_expired_ok by simp_all
  have wf: "fc_wf fc" "fc_wf fc1" "queues_ok (fc_queues fc1)" using assms(1) fc1(1) by (simp_all add: fc_ok_def fc_wf_def)
  let ?ac = "map_profile_onto_ac (dq_dcc_profile r)"
  let ?c = "list_ex (\<lambda>(ac, q). ac \<ge> ?ac \<and> q \<noteq> []) (fc_queues fc1)"
  have c: "?c \<longleftrightarrow> \<not> (\<forall>k \<ge> ?ac. queue_at k (fc_queues fc1) = [])" using list_ex_queues [OF wf(3)] by simp
  have adv: "advances (\<lambda>k. requested_item k r packet) fc fc'" if "advances (\<lambda>k. requested_item k r packet) fc1 fc'" for fc'
    using advances_trans [OF drop_expired_advances [OF wf(1)]] that by (simp add: fc1_def)
  obtain s1 where s1: "trc_delay trc now tx (fc_trc fc) = Inr (trc_wait trc now tx (fc_trc fc), s1)" "ok now s1"
    using delay_total [OF assms(2), of tx] delay_wait [OF assms(2)] by auto
  have t: "transmit_immediately trc now tx fc1 = (if ?c then Inr (False, fc1) else Inr (trc_wait trc now tx (fc_trc fc) = 0, fc1\<lparr>fc_trc := s1\<rparr>))"
    using s1(1) fc1(4) by (simp add: transmit_immediately_def tx_def)
  have req: "FlowControl_request trc now r packet fc = rbind (transmit_immediately trc now tx fc1) (\<lambda>(immediately, fc).
       if immediately then rmap (\<lambda>s. transmit now r packet (fc\<lparr>fc_trc := s\<rparr>)) (trc_notify trc now tx (fc_trc fc)) else enqueue trc now r packet fc)"
    unfolding FlowControl_request_def Let_def tx_def fc1_def ..
  consider (contention) "?c" | (send) "\<not> ?c" "trc_wait trc now tx (fc_trc fc) = 0" | (wait) "\<not> ?c" "trc_wait trc now tx (fc_trc fc) \<noteq> 0" by blast
  then show ?thesis
  proof cases
    case contention
    obtain fc' where "enqueue trc now r packet fc1 = Inr fc'" "fc_ok fc'" "ok now (fc_trc fc')" "advances (\<lambda>k. requested_item k r packet) fc1 fc'"
      "fc_sent fc' = fc_sent fc1" using enqueue_spec [OF fc1(1,2), of r packet] by blast
    then show ?thesis using contention req t c adv fc1(3) by (intro exI [of _ fc']) auto
  next
    case send
    obtain s2 where s2: "trc_notify trc now tx s1 = Inr s2" "ok now s2" using notify_total [OF s1(2), of tx] by (auto simp: tx_ok_def tx_def)
    let ?fc' = "transmit now r packet (fc1\<lparr>fc_trc := s2\<rparr>)"
    have "queue_at ?ac (fc_queues fc1) = []" using c send(1) by blast
    then have "queued_of k fc1 @ requested_item k r packet = requested_item k r packet @ queued_of k fc1" for k
      by (cases "k = ?ac") (simp_all add: queued_of_def requested_item_def)
    then have "advances (\<lambda>k. requested_item k r packet) fc1 ?fc'" by (simp add: advances_def sent_of_transmit)
    then show ?thesis using send req t c adv fc1 s2 by (intro exI [of _ ?fc']) (auto simp: fc_ok_def)
  next
    case wait
    obtain fc' where "enqueue trc now r packet (fc1\<lparr>fc_trc := s1\<rparr>) = Inr fc'" "fc_ok fc'" "ok now (fc_trc fc')" "advances (\<lambda>k. requested_item k r packet) fc1 fc'"
      "fc_sent fc' = fc_sent fc1" using enqueue_spec [of "fc1\<lparr>fc_trc := s1\<rparr>" now r packet] fc1 s1(2) by auto
    then show ?thesis using wait req t c adv fc1(3) by (intro exI [of _ fc']) auto
  qed
qed

lemma reschedule_spec:
  assumes "fc_ok fc" and "ok now (fc_trc fc)"
  shows "\<exists>fc'. FlowControl_reschedule trc now fc = Inr fc' \<and> fc_ok fc' \<and> ok now (fc_trc fc') \<and> advances (\<lambda>ac. []) fc fc' \<and> fc_sent fc' = fc_sent fc"
proof -
  have wf: "fc_wf fc" using assms(1) by (simp add: fc_ok_def)
  obtain best s' where b: "next_transmission trc now fc = Inr (map_option (\<lambda>ac. hd (queue_at ac (fc_queues fc))) best, fc\<lparr>fc_trc := s'\<rparr>)" "ok now s'"
    using next_transmission_spec [OF wf assms(2)] by blast
  show ?thesis
  proof (cases best)
    case None
    then show ?thesis using b assms(1) by (simp add: FlowControl_reschedule_def)
  next
    case (Some ac)
    let ?p = "hd (queue_at ac (fc_queues fc))" and ?fc1 = "fc\<lparr>fc_trc := s', fc_triggers := []\<rparr>"
    obtain s2 where "schedule_trigger trc now (pending_tx ?p) ?fc1
        = Inr (?fc1\<lparr>fc_trc := s2, fc_triggers := fc_triggers ?fc1 @ [now + trc_wait trc now (pending_tx ?p) (fc_trc ?fc1)]\<rparr>)" "ok now s2"
      using schedule_trigger_spec [of now ?fc1 "pending_tx ?p"] b(2) by auto
    then show ?thesis using b Some wf by (auto simp: FlowControl_reschedule_def fc_ok_def)
  qed
qed

lemma event_spec:
  assumes "fc_ok fc" and "ok now (fc_trc fc)"
  shows "\<exists>fc'. flow_event trc (now, ev) fc = Inr fc' \<and> fc_ok fc' \<and> ok now (fc_trc fc')
    \<and> advances (\<lambda>k. case ev of FlowRequest r packet \<Rightarrow> requested_item k r packet | _ \<Rightarrow> []) fc fc'"
proof (cases ev)
  case (FlowRequest r packet)
  then show ?thesis using request_spec [OF assms, of r packet] by auto
next
  case FlowReschedule
  then show ?thesis using reschedule_spec [OF assms] by auto
next
  case FlowTrigger
  show ?thesis
  proof (cases "sort (fc_triggers fc)")
    case Nil
    then show ?thesis using assms FlowTrigger by simp
  next
    case (Cons t ts)
    have "fc_wf (fc\<lparr>fc_triggers := remove1 t (fc_triggers fc)\<rparr>)" using assms(1) by (simp add: fc_ok_def)
    from trigger_spec [OF this, of now] assms(2) show ?thesis using assms FlowTrigger Cons by auto
  qed
qed

lemma run_spec:
  assumes "fc_ok fc" and "ok start (fc_trc fc)" and "sorted (start # map fst evs)"
  shows "\<exists>fc' stop. flow_run trc evs fc = Inr fc' \<and> fc_ok fc' \<and> ok stop (fc_trc fc') \<and> advances (\<lambda>ac. requested_of ac evs) fc fc'"
  using assms
proof (induction evs arbitrary: fc start)
  case Nil
  then show ?case by (auto simp: flow_run_def requested_of_def)
next
  case (Cons e evs)
  obtain now ev where e: "e = (now, ev)" by (cases e)
  have "ok now (fc_trc fc)" using ok_later [OF Cons.prems(2)] Cons.prems(3) e by simp
  then obtain fc1 where fc1: "flow_event trc e fc = Inr fc1" "fc_ok fc1" "ok now (fc_trc fc1)"
    "advances (\<lambda>k. case ev of FlowRequest r packet \<Rightarrow> requested_item k r packet | _ \<Rightarrow> []) fc fc1" using event_spec [OF Cons.prems(1), of now ev] e by auto
  have "sorted (now # map fst evs)" using Cons.prems(3) e by simp
  then obtain fc' stop where fc': "flow_run trc evs fc1 = Inr fc'" "fc_ok fc'" "ok stop (fc_trc fc')" "advances (\<lambda>ac. requested_of ac evs) fc1 fc'"
    using Cons.IH [OF fc1(2,3)] by blast
  have "advances (\<lambda>ac. requested_of ac (e # evs)) fc fc'"
    using advances_append [OF fc1(4) fc'(4)] by (simp add: requested_of_def e)
  with fc1(1) fc' show ?case by (auto simp: flow_run_def)
qed

end


text \<open>Only triggers happen from now on, each when it is due.\<close>

fun run_triggers :: "'s TransmitRateControl \<Rightarrow> nat \<Rightarrow> int \<Rightarrow> 's FlowControl \<Rightarrow> 's FlowControl result" where
  "run_triggers trc 0 now fc = Inr fc"
| "run_triggers trc (Suc n) now fc =
     (case sort (fc_triggers fc) of
        [] \<Rightarrow> Inr fc
      | t # _ \<Rightarrow> rbind (flow_event trc (max now t, FlowTrigger) fc) (run_triggers trc n (max now t)))"

context transmit_rate_control
begin

lemma run_triggers_spec:
  assumes "fc_ok fc" and "ok now (fc_trc fc)" and "queued_total fc \<le> n"
  shows "\<exists>fc'. run_triggers trc n now fc = Inr fc' \<and> fc_empty fc' \<and> advances (\<lambda>ac. []) fc fc'"
  using assms
proof (induction n arbitrary: fc now)
  case 0
  then show ?case using queued_total_zero [of fc] by (simp add: fc_ok_def)
next
  case (Suc n)
  show ?case
  proof (cases "sort (fc_triggers fc)")
    case Nil
    then show ?thesis using Suc.prems(1) by (simp add: fc_ok_def) (metis set_empty set_sort)
  next
    case (Cons t ts)
    let ?now = "max now t" and ?fc0 = "fc\<lparr>fc_triggers := remove1 t (fc_triggers fc)\<rparr>"
    have "fc_wf ?fc0" "ok ?now (fc_trc ?fc0)" using Suc.prems(1,2) ok_later [of now "fc_trc fc" ?now] by (simp_all add: fc_ok_def)
    from trigger_spec [OF this] obtain fc1 where fc1: "FlowControl_trigger trc ?now ?fc0 = Inr fc1" "fc_ok fc1" "ok ?now (fc_trc fc1)" "advances (\<lambda>ac. []) fc fc1"
      "queued_total fc1 = queued_total (drop_expired ?now ?fc0) - 1" by auto
    have "queued_total fc1 \<le> n" using fc1(5) queued_total_drop [of ?now ?fc0] Suc.prems(3) by simp
    from Suc.IH [OF fc1(2,3) this] obtain fc' where "run_triggers trc n ?now fc1 = Inr fc'" "fc_empty fc'" "advances (\<lambda>ac. []) fc1 fc'" by blast
    with fc1 Cons show ?thesis using advances_trans [OF fc1(4)] by auto
  qed
qed

end

section \<open>Properties of the flow control\<close>

lemma new_ok: "fc_ok (FlowControl_new s len)"
  by (simp add: fc_ok_def fc_wf_def FlowControl_new_def fc_empty_def)

text \<open>C15: Whatever is requested of a flow control, with any rate control that keeps its promises, every operation succeeds; per access category packets
  leave in the order of their requests and none twice, every request is sent, waiting or counted as dropped, a trigger is pending as long as
  packets wait, and no queue exceeds its length.\<close>

theorem flow_control_run:
  assumes "transmit_rate_control trc ok" and "ok start s" and "sorted (start # map fst evs)"
  shows "\<exists>fc. flow_run trc evs (FlowControl_new s len) = Inr fc
    \<and> (\<forall>ac. subseq (sent_of ac fc @ queued_of ac fc) (requested_of ac evs)
        \<and> length (sent_of ac fc) + length (queued_of ac fc) + count_list (fc_dropped fc) ac = length (requested_of ac evs)
        \<and> (queued_of ac fc \<noteq> [] \<longrightarrow> fc_triggers fc \<noteq> []) \<and> (0 < len \<longrightarrow> length (queued_of ac fc) \<le> len))"
proof -
  obtain fc stop where fc: "flow_run trc evs (FlowControl_new s len) = Inr fc" "fc_ok fc" "advances (\<lambda>ac. requested_of ac evs) (FlowControl_new s len) fc"
    using transmit_rate_control.run_spec [OF assms(1) new_ok, of start s len evs] assms(2,3) by (auto simp: FlowControl_new_def)
  have new: "sent_of ac (FlowControl_new s len) = []" "queued_of ac (FlowControl_new s len) = []" "fc_dropped (FlowControl_new s len) = []"
    "fc_queue_length (FlowControl_new s len) = len" for ac by (simp_all add: sent_of_def queued_of_def FlowControl_new_def)
  have "subseq (sent_of ac fc @ queued_of ac fc) (requested_of ac evs)
    \<and> length (sent_of ac fc) + length (queued_of ac fc) + count_list (fc_dropped fc) ac = length (requested_of ac evs)" for ac
    using fc(3) by (simp add: advances_def new)
  moreover have "queued_of ac fc \<noteq> [] \<longrightarrow> fc_triggers fc \<noteq> []" for ac
    using fc(2) by (auto simp: fc_ok_def queued_of_def fc_empty_iff fc_wf_def)
  moreover have "0 < len \<longrightarrow> length (queued_of ac fc) \<le> len" for ac
    using fc(2,3) by (auto simp: fc_ok_def fc_wf_def advances_def new queued_of_def)
  ultimately show ?thesis using fc(1) by blast
qed

text \<open>A packet is sent at once exactly when no unexpired packet of the same or a higher priority waits and the rate control has nothing against it.\<close>

theorem request_sends_iff:
  assumes "transmit_rate_control trc ok" and "fc_ok fc" and "ok now (fc_trc fc)"
  shows "\<exists>fc'. FlowControl_request trc now r packet fc = Inr fc' \<and> fc_sent fc' = fc_sent fc @
    (if (\<forall>k \<ge> map_profile_onto_ac (dq_dcc_profile r). \<forall>p \<in> set (queue_at k (fc_queues fc)). pt_expiry p < now)
        \<and> trc_wait trc now \<lparr>tx_profile = dq_dcc_profile r, tx_data_rate = None, tx_body_length = length packet\<rparr> (fc_trc fc) = 0
     then [(now, access_request r, packet)] else [])"
proof -
  show ?thesis using transmit_rate_control.request_spec [OF assms, of r packet] by (auto simp: filter_empty_conv)
qed

text \<open>C17: A trigger sends the first unexpired packet of the queue that has to wait the shortest time, of several such queues of the one with the highest
  access category; it sends nothing only when every packet has expired, and never a packet that has expired.\<close>

theorem trigger_sends_next:
  assumes "transmit_rate_control trc ok" and "fc_wf fc" and "ok now (fc_trc fc)"
  shows "\<exists>fc'. FlowControl_trigger trc now fc = Inr fc' \<and> fc_ok fc' \<and>
    (if \<forall>ac. \<forall>p \<in> set (queue_at ac (fc_queues fc)). pt_expiry p < now then fc_sent fc' = fc_sent fc
     else \<exists>ac p. fc_sent fc' = fc_sent fc @ [(now, item p)] \<and> is_next trc now (fc_trc fc) (fc_queues (drop_expired now fc)) ac
            \<and> p = hd (filter (\<lambda>p. \<not> pt_expiry p < now) (queue_at ac (fc_queues fc))) \<and> now \<le> pt_expiry p)"
proof -
  have wf: "queues_ok (fc_queues (drop_expired now fc))" using drop_expired_wf [OF assms(2)] by (simp add: fc_wf_def)
  have e: "fc_empty (drop_expired now fc) \<longleftrightarrow> (\<forall>ac. \<forall>p \<in> set (queue_at ac (fc_queues fc)). pt_expiry p < now)"
    by (simp add: fc_empty_iff [OF wf] filter_empty_conv)
  have alive: "now \<le> pt_expiry (hd (filter (\<lambda>p. \<not> pt_expiry p < now) (queue_at ac (fc_queues fc))))"
    if "is_next trc now (fc_trc fc) (fc_queues (drop_expired now fc)) ac" for ac
  proof -
    have "filter (\<lambda>p. \<not> pt_expiry p < now) (queue_at ac (fc_queues fc)) \<noteq> []" using that by (simp add: is_next_def)
    from hd_in_set [OF this] show ?thesis by simp
  qed
  obtain fc' where fc': "FlowControl_trigger trc now fc = Inr fc'" "fc_ok fc'"
    "if fc_empty (drop_expired now fc) then fc_sent fc' = fc_sent fc
     else \<exists>ac. is_next trc now (fc_trc fc) (fc_queues (drop_expired now fc)) ac
        \<and> fc_sent fc' = fc_sent fc @ [(now, item (hd (queue_at ac (fc_queues (drop_expired now fc)))))]"
    using transmit_rate_control.trigger_spec [OF assms] by blast
  show ?thesis
  proof (cases "fc_empty (drop_expired now fc)")
    case True
    then show ?thesis using fc' e by auto
  next
    case False
    then obtain ac where ac: "is_next trc now (fc_trc fc) (fc_queues (drop_expired now fc)) ac"
      "fc_sent fc' = fc_sent fc @ [(now, item (hd (filter (\<lambda>p. \<not> pt_expiry p < now) (queue_at ac (fc_queues fc)))))]" using fc'(3) by auto
    let ?p = "hd (filter (\<lambda>p. \<not> pt_expiry p < now) (queue_at ac (fc_queues fc)))"
    have "\<exists>ac p. fc_sent fc' = fc_sent fc @ [(now, item p)] \<and> is_next trc now (fc_trc fc) (fc_queues (drop_expired now fc)) ac
        \<and> p = hd (filter (\<lambda>p. \<not> pt_expiry p < now) (queue_at ac (fc_queues fc))) \<and> now \<le> pt_expiry p"
      by (rule exI [of _ ac], rule exI [of _ ?p], intro conjI ac refl alive [OF ac(1)])
    with False fc'(1,2) show ?thesis unfolding e by (intro exI [of _ fc']) (simp only: if_False simp_thms)
  qed
qed

text \<open>C16: Once nothing more is requested, as many triggers as packets wait empty the queues: every packet is sent or counted as dropped.\<close>

theorem flow_control_drains:
  assumes "transmit_rate_control trc ok" and "fc_ok fc" and "ok now (fc_trc fc)"
  shows "\<exists>fc'. run_triggers trc (queued_total fc) now fc = Inr fc' \<and> fc_empty fc'
    \<and> (\<forall>ac. length (sent_of ac fc') + count_list (fc_dropped fc') ac = length (sent_of ac fc) + length (queued_of ac fc) + count_list (fc_dropped fc) ac)"
proof -
  obtain fc' where fc': "run_triggers trc (queued_total fc) now fc = Inr fc'" "fc_empty fc'" "advances (\<lambda>ac. []) fc fc'"
    using transmit_rate_control.run_triggers_spec [OF assms order_refl] by blast
  have "\<forall>(ac, q) \<in> set qs. q = [] \<Longrightarrow> queue_at ac qs = []" for ac and qs :: Queues by (induction qs) auto
  then have "queue_at ac (fc_queues fc') = []" for ac using fc'(2) by (simp add: fc_empty_def)
  then have "length (queued_of ac fc') = 0" for ac by (simp add: queued_of_def)
  with fc' advances_count [OF fc'(3)] show ?thesis by (metis add_0_right list.size(3))
qed


definition sample_request :: "Profile \<Rightarrow> DccDataRequest" where
  "sample_request dp = \<lparr>dq_ether_type = 0x8947, dq_source = replicate 6 1, dq_destination = replicate 6 255, dq_dcc_profile = dp, dq_lifetime = msec 1000\<rparr>"

text \<open>Two requests of low priority, then an urgent one at the time for which the trigger of the second was scheduled.\<close>

definition sample_events :: "(int \<times> FlowEvent) list" where
  "sample_events = [(0, FlowRequest (sample_request DP2) [1]), (msec 10, FlowRequest (sample_request DP2) [2]),
     (msec 100, FlowRequest (sample_request DP0) [3]), (msec 100, FlowTrigger)]"

text \<open>A trigger does not ask the rate control again: when another packet was sent just before it, the next one follows at once, although the control
  demands an interval of 100 milliseconds.\<close>

theorem trigger_ignores_delay:
  "\<exists>fc. flow_run SingleReactiveTransmitRateControl sample_events (FlowControl_new gradual_start 0) = Inr fc
     \<and> map (\<lambda>(t, a, packet). (t, packet)) (fc_sent fc) = [(0, [1]), (msec 100, [3]), (msec 100, [2])]"
  by (simp add: flow_run_def sample_events_def FlowControl_new_def FlowControl_request_def transmit_immediately_def drop_expired_def Let_def
      SingleReactiveTransmitRateControl_def gradual_start_def StateMachineBudget_delay_def transmit_def sample_request_def enqueue_def fc_empty_def
      schedule_trigger_def gs_transmission_interval_def GradualStateMachine_new_def etsiStates1ms_def msec_def FlowControl_trigger_def dequeue_def
      next_queue_def duration_max_def pending_tx_def send_pending_def schedule_next_def next_transmission_def queue_at_def less_eq_AccessCategory_def
      less_AccessCategory_def)

section \<open>Witnesses\<close>

theorem flow_control_run_witness:
  "\<exists>fc. flow_run SingleReactiveTransmitRateControl sample_events (FlowControl_new gradual_start 0) = Inr fc
     \<and> subseq (sent_of BE fc @ queued_of BE fc) (requested_of BE sample_events)"
proof -
  have "sorted (0 # map fst sample_events)" by (simp add: sample_events_def msec_def)
  from flow_control_run [OF reactive.transmit_rate_control_axioms gradual_start_ok this, of 0] show ?thesis by blast
qed

theorem request_sends_iff_witness:
  "\<exists>fc'. FlowControl_request SingleReactiveTransmitRateControl 0 (sample_request DP2) [1] (FlowControl_new gradual_start 0) = Inr fc'
     \<and> fc_sent fc' = [(0, access_request (sample_request DP2), [1])]"
  using request_sends_iff [OF reactive.transmit_rate_control_axioms new_ok [of gradual_start 0], of 0 "sample_request DP2" "[1]"] gradual_start_ok [of 0]
  by (simp add: FlowControl_new_def trc_wait_def SingleReactiveTransmitRateControl_def StateMachineBudget_delay_def gradual_start_def)

theorem trigger_sends_next_witness:
  "\<exists>fc'. FlowControl_trigger SingleReactiveTransmitRateControl 0 (FlowControl_new gradual_start 0) = Inr fc' \<and> fc_sent fc' = []"
  using trigger_sends_next [OF reactive.transmit_rate_control_axioms, of "FlowControl_new gradual_start 0" 0] gradual_start_ok [of 0]
    new_ok [of gradual_start 0]
  by (auto simp: FlowControl_new_def fc_ok_def)

definition sample_waiting :: "Reactive FlowControl" where
  "sample_waiting = (FlowControl_new (gradual_start\<lparr>rc_last_tx := Some 0\<rparr>) 0)
     \<lparr>fc_queues := [(BE, [\<lparr>pt_expiry = msec 1000, pt_request = sample_request DP2, pt_packet = [2]\<rparr>])], fc_triggers := [msec 100]\<rparr>"

theorem flow_control_drains_witness:
  "\<exists>fc'. run_triggers SingleReactiveTransmitRateControl 1 0 sample_waiting = Inr fc' \<and> fc_empty fc' \<and> length (sent_of BE fc') + count_list (fc_dropped fc') BE = 1"
proof -
  have "fc_ok sample_waiting"
    by (simp add: fc_ok_def fc_wf_def sample_waiting_def FlowControl_new_def queues_ok_def sample_request_def)
  moreover have "reactive_ok 0 (fc_trc sample_waiting)"
    using gradual_start_ok [of 0] by (simp add: sample_waiting_def FlowControl_new_def reactive_ok_def last_tx_ok_def)
  moreover have "queued_total sample_waiting = 1" "sent_of BE sample_waiting = []" "length (queued_of BE sample_waiting) = 1" "fc_dropped sample_waiting = []"
    by (simp_all add: queued_total_def sample_waiting_def FlowControl_new_def sent_of_def queued_of_def)
  ultimately show ?thesis using flow_control_drains [OF reactive.transmit_rate_control_axioms, of sample_waiting 0] by auto
qed


end
