(* ===== verification/GnCodec.thy ===== *)
theory GnCodec
  imports DccFlow
begin

text \<open>
  Data of GeoNetworking, \<open>vanetza/geonet\<close>: time stamps, sequence numbers and lifetimes, addresses and traffic classes, position vectors and the
  headers, with their octets on the wire.  An output archive is the list of octets written; reading gives the value and the octets left,
  or \<open>None\<close> for the exception of an incomplete read.  The locale \<open>codec\<close> states what writing and reading promise each other.
\<close>

section \<open>Archives\<close>

type_synonym octets = "8 word list"

type_synonym 'a reader = "octets \<Rightarrow> ('a \<times> octets) option"

definition rd_return :: "'a \<Rightarrow> 'a reader" where
  "rd_return x bs = Some (x, bs)"

definition rd_bind :: "'a reader \<Rightarrow> ('a \<Rightarrow> 'b reader) \<Rightarrow> 'b reader" where
  "rd_bind g k bs = (case g bs of None \<Rightarrow> None | Some (x, rest) \<Rightarrow> k x rest)"

fun get8 :: "8 word reader" where
  "get8 [] = None"
| "get8 (b # bs) = Some (b, bs)"

text \<open>Integers are written in network byte order, whatever the order of the host.\<close>

definition put16 :: "16 word \<Rightarrow> octets" where
  "put16 w = [ucast (drop_bit 8 w), ucast w]"

definition get16 :: "16 word reader" where
  "get16 = rd_bind get8 (\<lambda>hi. rd_bind get8 (\<lambda>lo. rd_return (push_bit 8 (ucast hi) OR ucast lo)))"

definition put32 :: "32 word \<Rightarrow> octets" where
  "put32 w = put16 (ucast (drop_bit 16 w)) @ put16 (ucast w)"

definition get32 :: "32 word reader" where
  "get32 = rd_bind get16 (\<lambda>hi. rd_bind get16 (\<lambda>lo. rd_return (push_bit 16 (ucast hi) OR ucast lo)))"

section \<open>Time stamps\<close>

text \<open>Milliseconds since 2004 modulo \<open>2 ^ 32\<close>; they are compared around the circle.\<close>

type_synonym Timestamp = "32 word"

definition Timestamp_of :: "int \<Rightarrow> Timestamp" where
  "Timestamp_of tp = word_of_int (cdiv tp 1000)"

definition ts_is_greater :: "Timestamp \<Rightarrow> Timestamp \<Rightarrow> bool" where
  "ts_is_greater lhs rhs \<longleftrightarrow> (lhs > rhs \<and> lhs - rhs \<le> (- 1) div 2) \<or> (rhs > lhs \<and> rhs - lhs > (- 1) div 2)"

definition ts_less :: "Timestamp \<Rightarrow> Timestamp \<Rightarrow> bool" where
  "ts_less lhs rhs \<longleftrightarrow> \<not> ts_is_greater lhs rhs \<and> lhs \<noteq> rhs"

section \<open>Sequence numbers\<close>

type_synonym SequenceNumber = "16 word"

definition sn_less :: "SequenceNumber \<Rightarrow> SequenceNumber \<Rightarrow> bool" where
  "sn_less sn other \<longleftrightarrow> (other > sn \<and> unat (other - sn) \<le> 32767) \<or> (sn > other \<and> unat (sn - other) > 32767)"

datatype ByteOrder = BigEndian | LittleEndian

definition ntoh16 :: "ByteOrder \<Rightarrow> 16 word \<Rightarrow> 16 word" where
  "ntoh16 host w = (case host of BigEndian \<Rightarrow> w | LittleEndian \<Rightarrow> push_bit 8 w OR drop_bit 8 w)"

definition put_sequence_number :: "SequenceNumber \<Rightarrow> octets" where
  "put_sequence_number sn = put16 sn"

text \<open>The number that was read in host order already is converted once more.\<close>

definition get_sequence_number :: "ByteOrder \<Rightarrow> SequenceNumber reader" where
  "get_sequence_number host = rd_bind get16 (\<lambda>tmp. rd_return (ntoh16 host tmp))"

section \<open>Lifetimes\<close>

type_synonym Lifetime = "8 word"

datatype LifetimeBase = Fifty_Milliseconds | One_Second | Ten_Seconds | Hundred_Seconds

primrec base_value :: "LifetimeBase \<Rightarrow> 8 word" where
  "base_value Fifty_Milliseconds = 0"
| "base_value One_Second = 1"
| "base_value Ten_Seconds = 2"
| "base_value Hundred_Seconds = 3"

primrec base_unit :: "LifetimeBase \<Rightarrow> real" where
  "base_unit Fifty_Milliseconds = 50/1000"
| "base_unit One_Second = 1"
| "base_unit Ten_Seconds = 10"
| "base_unit Hundred_Seconds = 100"

definition Lifetime_set :: "LifetimeBase \<Rightarrow> 6 word \<Rightarrow> Lifetime" where
  "Lifetime_set base multiplier = push_bit 2 (ucast multiplier) OR (base_value base AND 0x03)"

text \<open>The rounded multiplier becomes an octet and then a number of six bits.\<close>

definition lround_multiplier :: "real \<Rightarrow> 6 word" where
  "lround_multiplier x = ucast (word_of_int (std_round x) :: 8 word)"

definition Lifetime_encode :: "real \<Rightarrow> Lifetime" where
  "Lifetime_encode seconds =
     (if seconds \<ge> 630 then Lifetime_set Hundred_Seconds (lround_multiplier (seconds / 100))
      else if seconds \<ge> 63 then Lifetime_set Ten_Seconds (lround_multiplier (seconds / 10))
      else if seconds \<ge> 315/100 then Lifetime_set One_Second (lround_multiplier seconds)
      else Lifetime_set Fifty_Milliseconds (lround_multiplier (seconds / (50/1000))))"

definition lifetime_base :: "8 word \<Rightarrow> LifetimeBase" where
  "lifetime_base raw = (let b = raw AND 0x03 in if b = 0 then Fifty_Milliseconds else if b = 1 then One_Second else if b = 2 then Ten_Seconds else Hundred_Seconds)"

definition Lifetime_decode :: "Lifetime \<Rightarrow> real" where
  "Lifetime_decode raw = real (unat (drop_bit 2 (raw AND 0xFC))) * base_unit (lifetime_base raw)"

section \<open>Addresses\<close>

text \<open>A station type is the value of its enumerator, since reading casts any value.\<close>

record Address =
  ga_manually_configured :: bool
  ga_station_type :: "16 word"
  ga_country_code :: "10 word"
  ga_mid :: MacAddress

definition put_mac :: "MacAddress \<Rightarrow> octets" where
  "put_mac mac = mac"

fun get_octets :: "nat \<Rightarrow> octets reader" where
  "get_octets 0 bs = Some ([], bs)"
| "get_octets (Suc n) bs = rd_bind get8 (\<lambda>b. rd_bind (get_octets n) (\<lambda>rest. rd_return (b # rest))) bs"

definition get_mac :: "MacAddress reader" where
  "get_mac = get_octets 6"

definition put_address :: "Address \<Rightarrow> octets" where
  "put_address a =
     (let w = ucast (ga_country_code a);
          w = w OR (push_bit 10 (ga_station_type a) AND 0x7c00);
          w = w OR (if ga_manually_configured a then 0x8000 else 0)
      in put16 w @ put_mac (ga_mid a))"

definition get_address :: "Address reader" where
  "get_address = rd_bind get16 (\<lambda>tmp. rd_bind get_mac (\<lambda>mid.
     rd_return \<lparr>ga_manually_configured = tmp AND 0x8000 \<noteq> 0, ga_station_type = drop_bit 10 (tmp AND 0x7c00),
       ga_country_code = ucast (tmp AND 0x03ff), ga_mid = mid\<rparr>))"

section \<open>Traffic classes\<close>

type_synonym TrafficClass = "8 word"

definition store_carry_forward :: "TrafficClass \<Rightarrow> bool" where "store_carry_forward tc \<longleftrightarrow> tc AND 0x80 \<noteq> 0"

definition set_store_carry_forward :: "bool \<Rightarrow> TrafficClass \<Rightarrow> TrafficClass" where
  "set_store_carry_forward flag tc = (if flag then tc OR 0x80 else tc AND NOT 0x80)"

definition channel_offload :: "TrafficClass \<Rightarrow> bool" where "channel_offload tc \<longleftrightarrow> tc AND 0x40 \<noteq> 0"

definition set_channel_offload :: "bool \<Rightarrow> TrafficClass \<Rightarrow> TrafficClass" where
  "set_channel_offload flag tc = (if flag then tc OR 0x40 else tc AND NOT 0x40)"

definition tc_id :: "TrafficClass \<Rightarrow> 6 word" where "tc_id tc = ucast (tc AND 0x3f)"

definition set_tc_id :: "6 word \<Rightarrow> TrafficClass \<Rightarrow> TrafficClass" where
  "set_tc_id i tc = (tc AND NOT 0x3f) OR (ucast i AND 0x3f)"

definition TrafficClass_new :: "bool \<Rightarrow> bool \<Rightarrow> 6 word \<Rightarrow> TrafficClass" where
  "TrafficClass_new scf ch_offload i = set_tc_id i (set_channel_offload ch_offload (set_store_carry_forward scf 0))"

definition map_tc_onto_profile :: "TrafficClass \<Rightarrow> Profile" where
  "map_tc_onto_profile tc = (if tc_id tc = 0 then DP0 else if tc_id tc = 1 then DP1 else if tc_id tc = 2 then DP2 else DP3)"

section \<open>Position vectors\<close>

text \<open>Latitude and longitude are signed numbers of a tenth of a microdegree in 32 bits, the speed has 15 bits.\<close>

record LongPositionVector =
  pv_gn_addr :: Address
  pv_timestamp :: Timestamp
  pv_latitude :: "32 word"
  pv_longitude :: "32 word"
  pv_position_accuracy_indicator :: bool
  pv_speed :: "15 word"
  pv_heading :: "16 word"

definition put_lpv :: "LongPositionVector \<Rightarrow> octets" where
  "put_lpv v = put_address (pv_gn_addr v) @ put32 (pv_timestamp v) @ put32 (pv_latitude v) @ put32 (pv_longitude v)
     @ put16 (ucast (pv_speed v) OR (if pv_position_accuracy_indicator v then 0x8000 else 0)) @ put16 (pv_heading v)"

definition get_lpv :: "LongPositionVector reader" where
  "get_lpv = rd_bind get_address (\<lambda>addr. rd_bind get32 (\<lambda>ts. rd_bind get32 (\<lambda>lat. rd_bind get32 (\<lambda>lon. rd_bind get16 (\<lambda>paiAndSpeed. rd_bind get16 (\<lambda>heading.
     rd_return \<lparr>pv_gn_addr = addr, pv_timestamp = ts, pv_latitude = lat, pv_longitude = lon, pv_position_accuracy_indicator = paiAndSpeed AND 0x8000 \<noteq> 0,
       pv_speed = ucast paiAndSpeed, pv_heading = heading\<rparr>))))))"

section \<open>The DCC field\<close>

record DccMcoField =
  mco_cbr_l0_hop :: "8 word"
  mco_cbr_l1_hop :: "8 word"
  mco_output_power :: "5 word"

definition DccMcoField_of :: "32 word \<Rightarrow> DccMcoField" where
  "DccMcoField_of field = \<lparr>mco_cbr_l0_hop = ucast (drop_bit 24 field), mco_cbr_l1_hop = ucast (drop_bit 16 field), mco_output_power = ucast (drop_bit 11 field)\<rparr>"

definition DccMcoField_raw :: "DccMcoField \<Rightarrow> 32 word" where
  "DccMcoField_raw m =
     (let field = ucast (mco_cbr_l0_hop m);
          field = push_bit 8 field OR ucast (mco_cbr_l1_hop m);
          field = push_bit 5 field OR ucast (mco_output_power m)
      in push_bit 11 field)"

definition set_local_cbr :: "real \<Rightarrow> DccMcoField \<Rightarrow> DccMcoField" where
  "set_local_cbr cbr m = m\<lparr>mco_cbr_l0_hop := word_of_int \<lfloor>cbr * 255\<rfloor>\<rparr>"

definition local_cbr :: "DccMcoField \<Rightarrow> real" where
  "local_cbr m = unit_clamp (real (unat (mco_cbr_l0_hop m)) / 255)"

definition set_neighbour_cbr :: "real \<Rightarrow> DccMcoField \<Rightarrow> DccMcoField" where
  "set_neighbour_cbr cbr m = m\<lparr>mco_cbr_l1_hop := word_of_int \<lfloor>cbr * 255\<rfloor>\<rparr>"

definition neighbour_cbr :: "DccMcoField \<Rightarrow> real" where
  "neighbour_cbr m = unit_clamp (real (unat (mco_cbr_l1_hop m)) / 255)"

definition set_output_power :: "nat \<Rightarrow> DccMcoField \<Rightarrow> DccMcoField" where
  "set_output_power dbm m = m\<lparr>mco_output_power := of_nat (min dbm 31)\<rparr>"

datatype DccField = DccRaw "32 word" | DccMco DccMcoField

fun dcc_raw :: "DccField \<Rightarrow> 32 word" where
  "dcc_raw (DccMco m) = DccMcoField_raw m"
| "dcc_raw (DccRaw raw) = raw"

fun get_dcc_mco :: "DccField \<Rightarrow> DccMcoField" where
  "get_dcc_mco (DccMco m) = m"
| "get_dcc_mco (DccRaw raw) = DccMcoField_of raw"

definition put_dcc :: "DccField \<Rightarrow> octets" where "put_dcc field = put32 (dcc_raw field)"

definition get_dcc :: "DccField reader" where "get_dcc = rd_bind get32 (\<lambda>raw. rd_return (DccRaw raw))"

section \<open>Headers\<close>

record BasicHeader =
  bh_version :: "4 word"
  bh_next_header :: "8 word"
  bh_reserved :: "8 word"
  bh_lifetime :: Lifetime
  bh_hop_limit :: "8 word"

definition put_basic :: "BasicHeader \<Rightarrow> octets" where
  "put_basic h = [push_bit 4 (ucast (bh_version h)) OR (bh_next_header h AND 0x0f), bh_reserved h, bh_lifetime h, bh_hop_limit h]"

definition get_basic :: "BasicHeader reader" where
  "get_basic = rd_bind get8 (\<lambda>b. rd_bind get8 (\<lambda>reserved. rd_bind get8 (\<lambda>lifetime. rd_bind get8 (\<lambda>hop_limit.
     rd_return \<lparr>bh_version = ucast (drop_bit 4 b), bh_next_header = b AND 0x0f, bh_reserved = reserved, bh_lifetime = lifetime, bh_hop_limit = hop_limit\<rparr>))))"

record CommonHeader =
  ch_next_header :: "8 word"
  ch_reserved1 :: "4 word"
  ch_header_type :: "8 word"
  ch_traffic_class :: TrafficClass
  ch_flags :: "8 word"
  ch_payload :: "16 word"
  ch_maximum_hop_limit :: "8 word"
  ch_reserved2 :: "8 word"

definition put_common :: "CommonHeader \<Rightarrow> octets" where
  "put_common h = [push_bit 4 (ch_next_header h) OR ucast (ch_reserved1 h), ch_header_type h, ch_traffic_class h, ch_flags h]
     @ put16 (ch_payload h) @ [ch_maximum_hop_limit h, ch_reserved2 h]"

definition get_common :: "CommonHeader reader" where
  "get_common = rd_bind get8 (\<lambda>b. rd_bind get8 (\<lambda>ht. rd_bind get8 (\<lambda>tc. rd_bind get8 (\<lambda>flags. rd_bind get16 (\<lambda>payload. rd_bind get8 (\<lambda>mhl. rd_bind get8 (\<lambda>reserved2.
     rd_return \<lparr>ch_next_header = drop_bit 4 b, ch_reserved1 = ucast (b AND 0x0f), ch_header_type = ht, ch_traffic_class = tc, ch_flags = flags,
       ch_payload = payload, ch_maximum_hop_limit = mhl, ch_reserved2 = reserved2\<rparr>)))))))"

record ShbHeader =
  shb_source_position :: LongPositionVector
  shb_dcc :: DccField

definition put_shb :: "ShbHeader \<Rightarrow> octets" where "put_shb h = put_lpv (shb_source_position h) @ put_dcc (shb_dcc h)"

definition get_shb :: "ShbHeader reader" where
  "get_shb = rd_bind get_lpv (\<lambda>pv. rd_bind get_dcc (\<lambda>dcc. rd_return \<lparr>shb_source_position = pv, shb_dcc = dcc\<rparr>))"

definition put_beacon :: "LongPositionVector \<Rightarrow> octets" where "put_beacon pv = put_lpv pv"

definition get_beacon :: "LongPositionVector reader" where "get_beacon = get_lpv"

record GbcGacHeader =
  gbc_sequence_number :: SequenceNumber
  gbc_reserved1 :: "16 word"
  gbc_source_position :: LongPositionVector
  gbc_geo_area_pos_latitude :: "32 word"
  gbc_geo_area_pos_longitude :: "32 word"
  gbc_distance_a :: "16 word"
  gbc_distance_b :: "16 word"
  gbc_angle :: "16 word"
  gbc_reserved2 :: "16 word"

definition put_gbc :: "GbcGacHeader \<Rightarrow> octets" where
  "put_gbc h = put_sequence_number (gbc_sequence_number h) @ put16 (gbc_reserved1 h) @ put_lpv (gbc_source_position h) @ put32 (gbc_geo_area_pos_latitude h)
     @ put32 (gbc_geo_area_pos_longitude h) @ put16 (gbc_distance_a h) @ put16 (gbc_distance_b h) @ put16 (gbc_angle h) @ put16 (gbc_reserved2 h)"

definition get_gbc :: "ByteOrder \<Rightarrow> GbcGacHeader reader" where
  "get_gbc host = rd_bind (get_sequence_number host) (\<lambda>sn. rd_bind get16 (\<lambda>reserved1. rd_bind get_lpv (\<lambda>pv. rd_bind get32 (\<lambda>lat. rd_bind get32 (\<lambda>lon.
     rd_bind get16 (\<lambda>a. rd_bind get16 (\<lambda>b. rd_bind get16 (\<lambda>angle. rd_bind get16 (\<lambda>reserved2.
     rd_return \<lparr>gbc_sequence_number = sn, gbc_reserved1 = reserved1, gbc_source_position = pv, gbc_geo_area_pos_latitude = lat, gbc_geo_area_pos_longitude = lon,
       gbc_distance_a = a, gbc_distance_b = b, gbc_angle = angle, gbc_reserved2 = reserved2\<rparr>)))))))))"

section \<open>What writing and reading promise\<close>

text \<open>A well-formed value is read back from its octets, which have a fixed number, and what is read is well-formed and writes the octets that were
  read.\<close>

locale codec =
  fixes put :: "'a \<Rightarrow> octets"
    and get :: "'a reader"
    and wf :: "'a \<Rightarrow> bool"
    and len :: nat
  assumes get_put: "wf x \<Longrightarrow> get (put x @ bs) = Some (x, bs)"
    and length_put: "wf x \<Longrightarrow> length (put x) = len"
    and put_get: "get bs = Some (x, rest) \<Longrightarrow> wf x \<and> bs = put x @ rest"
begin

lemma get_short: "length bs < len \<Longrightarrow> get bs = None"
proof (rule ccontr)
  assume "length bs < len" and "get bs \<noteq> None"
  then obtain x rest where "get bs = Some (x, rest)" by (cases "get bs") auto
  with put_get length_put have "length bs = len + length rest" by fastforce
  with \<open>length bs < len\<close> show False by simp
qed

lemma put_inj: "wf x \<Longrightarrow> wf y \<Longrightarrow> put x = put y \<Longrightarrow> x = y"
  using get_put [of x "[]"] get_put [of y "[]"] by simp

lemma get_put_sequence: "\<forall>x \<in> set xs. wf x \<Longrightarrow> length (concat (map put xs)) = len * length xs"
  by (induction xs) (auto simp: length_put)

end

lemma rd_bind_Some: "rd_bind g k bs = Some r \<longleftrightarrow> (\<exists>x rest. g bs = Some (x, rest) \<and> k x rest = Some r)"
  by (auto simp: rd_bind_def split: option.splits)

lemma rd_return_Some: "rd_return x bs = Some (y, rest) \<longleftrightarrow> y = x \<and> rest = bs"
  by (auto simp: rd_return_def)

lemmas reader_simps = rd_bind_def rd_return_def

lemma get8_Some: "get8 bs = Some (b, rest) \<longleftrightarrow> bs = b # rest"
  by (cases bs) auto

lemma halves16: "push_bit 8 (ucast (ucast (drop_bit 8 w) :: 8 word)) OR ucast (ucast w :: 8 word) = w" for w :: "16 word"
  by (rule bit_word_eqI) (auto simp: bit_simps not_less)

lemma halves32: "push_bit 16 (ucast (ucast (drop_bit 16 w) :: 16 word)) OR ucast (ucast w :: 16 word) = w" for w :: "32 word"
  by (rule bit_word_eqI) (auto simp: bit_simps not_less)

lemma join16_hi: "ucast (drop_bit 8 (push_bit 8 (ucast hi) OR ucast lo :: 16 word)) = hi" for hi lo :: "8 word"
  by (rule bit_word_eqI) (auto simp: bit_simps dest: bit_imp_le_length)

lemma join16_lo: "ucast (push_bit 8 (ucast hi) OR ucast lo :: 16 word) = lo" for hi lo :: "8 word"
  by (rule bit_word_eqI) (auto simp: bit_simps)

lemma join32_hi: "ucast (drop_bit 16 (push_bit 16 (ucast hi) OR ucast lo :: 32 word)) = hi" for hi lo :: "16 word"
  by (rule bit_word_eqI) (auto simp: bit_simps dest: bit_imp_le_length)

lemma join32_lo: "ucast (push_bit 16 (ucast hi) OR ucast lo :: 32 word) = lo" for hi lo :: "16 word"
  by (rule bit_word_eqI) (auto simp: bit_simps)

interpretation u8: codec "\<lambda>b. [b]" get8 "\<lambda>b. True" 1
  by unfold_locales (auto simp: get8_Some)

interpretation u16: codec put16 get16 "\<lambda>w. True" 2
proof unfold_locales
  fix w :: "16 word" and bs rest :: octets
  show "get16 (put16 w @ bs) = Some (w, bs)" by (simp add: put16_def get16_def reader_simps halves16)
  show "length (put16 w) = 2" by (simp add: put16_def)
  assume "get16 bs = Some (w, rest)"
  then obtain hi lo where "bs = hi # lo # rest" "w = push_bit 8 (ucast hi) OR ucast lo"
    by (auto simp: get16_def rd_bind_Some rd_return_Some get8_Some)
  then show "True \<and> bs = put16 w @ rest" by (simp only: put16_def join16_hi join16_lo) simp
qed

interpretation u32: codec put32 get32 "\<lambda>w. True" 4
proof unfold_locales
  fix w :: "32 word" and bs rest :: octets
  show "get32 (put32 w @ bs) = Some (w, bs)" using u16.get_put by (simp add: put32_def get32_def reader_simps halves32)
  show "length (put32 w) = 4" using u16.length_put by (simp add: put32_def)
  assume "get32 bs = Some (w, rest)"
  then obtain hi lo mid where "get16 bs = Some (hi, mid)" "get16 mid = Some (lo, rest)" "w = push_bit 16 (ucast hi) OR ucast lo"
    by (auto simp: get32_def rd_bind_Some rd_return_Some)
  then show "True \<and> bs = put32 w @ rest" using u16.put_get [of bs] u16.put_get [of mid] by (simp only: put32_def join32_hi join32_lo) simp
qed

lemma get_octets_append: "length os = n \<Longrightarrow> get_octets n (os @ bs) = Some (os, bs)"
  by (induction n arbitrary: os) (auto simp: length_Suc_conv reader_simps)

lemma get_octets_Some: "get_octets n bs = Some (os, rest) \<Longrightarrow> length os = n \<and> bs = os @ rest"
  by (induction n arbitrary: os bs) (auto simp: rd_bind_Some rd_return_Some get8_Some)

interpretation mac: codec put_mac get_mac "\<lambda>m. length m = 6" 6
  by unfold_locales (auto simp: put_mac_def get_mac_def get_octets_append dest: get_octets_Some)

definition address_ok :: "Address \<Rightarrow> bool" where
  "address_ok a \<longleftrightarrow> ga_station_type a < 32 \<and> length (ga_mid a) = 6"

definition address_word :: "Address \<Rightarrow> 16 word" where
  "address_word a = (ucast (ga_country_code a) OR (push_bit 10 (ga_station_type a) AND 0x7c00)) OR (if ga_manually_configured a then 0x8000 else 0)"

lemma bit_masks16:
  "bit (0x7c00 :: 16 word) n \<longleftrightarrow> 10 \<le> n \<and> n < 15" "bit (0x8000 :: 16 word) n \<longleftrightarrow> n = 15" "bit (0x03ff :: 16 word) n \<longleftrightarrow> n < 10"
  "bit (31 :: 16 word) n \<longleftrightarrow> n < 5"
proof -
  have *: "(0x7c00 :: 16 word) = push_bit 10 (mask 5)" "(0x8000 :: 16 word) = 2 ^ 15" "(0x03ff :: 16 word) = mask 10" "(31 :: 16 word) = mask 5"
    by (simp_all add: mask_eq_exp_minus_1)
  show "bit (0x7c00 :: 16 word) n \<longleftrightarrow> 10 \<le> n \<and> n < 15" unfolding *(1) by (simp only: bit_push_bit_iff bit_mask_iff) auto
  show "bit (0x8000 :: 16 word) n \<longleftrightarrow> n = 15" unfolding *(2) by (simp only: bit_exp_iff) auto
  show "bit (0x03ff :: 16 word) n \<longleftrightarrow> n < 10" unfolding *(3) by (simp only: bit_mask_iff) auto
  show "bit (31 :: 16 word) n \<longleftrightarrow> n < 5" unfolding *(4) by (simp only: bit_mask_iff) auto
qed

declare bit_numeral_word_iff [simp del]

lemma small_word: "w < 32 \<longleftrightarrow> take_bit 5 w = w" for w :: "16 word"
proof -
  have "unat (take_bit 5 w) = unat w mod 32" by (simp add: take_bit_eq_mod unat_mod)
  then have "take_bit 5 w = w \<longleftrightarrow> unat w mod 32 = unat w" by (simp only: word_unat_eq_iff)
  also have "\<dots> \<longleftrightarrow> unat w < 32" by (metis mod_less mod_less_divisor zero_less_numeral)
  also have "\<dots> \<longleftrightarrow> w < 32" by (simp add: word_less_nat_alt)
  finally show ?thesis by simp
qed

lemma small_bits: "w < 32 \<Longrightarrow> bit (w :: 16 word) n \<Longrightarrow> n < 5"
proof -
  assume "w < 32" and "bit w n"
  then have "take_bit 5 w = w" by (simp add: small_word)
  then show ?thesis using \<open>bit w n\<close> by (metis bit_take_bit_iff)
qed

lemma flag_bit: "(w AND 0x8000 \<noteq> 0) = bit (w :: 16 word) 15"
proof -
  have "w AND 0x8000 = (if bit w 15 then 0x8000 else 0)" by (rule bit_word_eqI) (auto simp: bit_and_iff bit_masks16)
  then show ?thesis by simp
qed

lemma address_parts:
  assumes "ga_station_type a < 32"
  shows "(address_word a AND 0x8000 \<noteq> 0) = ga_manually_configured a" "drop_bit 10 (address_word a AND 0x7c00) = ga_station_type a"
    "ucast (address_word a AND 0x03ff) = ga_country_code a"
proof -
  have c: "\<not> bit (ga_country_code a) n" if "10 \<le> n" for n using that bit_imp_le_length [of "ga_country_code a" n] by auto
  have s: "\<not> bit (ga_station_type a) n" if "5 \<le> n" for n using that small_bits [OF assms, of n] by auto
  show "(address_word a AND 0x8000 \<noteq> 0) = ga_manually_configured a"
    unfolding flag_bit address_word_def by (simp add: bit_simps bit_masks16 c)
  show "drop_bit 10 (address_word a AND 0x7c00) = ga_station_type a"
    by (rule bit_word_eqI) (auto simp: address_word_def bit_simps bit_masks16 c dest: small_bits [OF assms])
  show "ucast (address_word a AND 0x03ff) = ga_country_code a"
    by (rule bit_word_eqI) (auto simp: address_word_def bit_simps bit_masks16)
qed

lemma address_join:
  "address_word \<lparr>ga_manually_configured = tmp AND 0x8000 \<noteq> 0, ga_station_type = drop_bit 10 (tmp AND 0x7c00), ga_country_code = ucast (tmp AND 0x03ff), ga_mid = m\<rparr> = tmp"
proof (rule bit_word_eqI)
  fix n assume "n < LENGTH(16)"
  then consider "n < 10" | "10 \<le> n" "n < 15" | "n = 15" by force
  then show "bit (address_word \<lparr>ga_manually_configured = tmp AND 0x8000 \<noteq> 0, ga_station_type = drop_bit 10 (tmp AND 0x7c00), ga_country_code = ucast (tmp AND 0x03ff),
      ga_mid = m\<rparr>) n = bit tmp n"
    by cases (simp_all add: address_word_def flag_bit bit_simps bit_masks16)
qed

lemma station_type_small: "drop_bit 10 (tmp AND 0x7c00) < (32 :: 16 word)"
proof -
  have "take_bit 5 (drop_bit 10 (tmp AND 0x7c00)) = drop_bit 10 (tmp AND (0x7c00 :: 16 word))"
    by (rule bit_word_eqI) (auto simp: bit_simps bit_masks16)
  then show ?thesis by (simp only: small_word)
qed

interpretation address: codec put_address get_address address_ok 8
proof unfold_locales
  fix a :: Address and bs rest :: octets
  have put: "put_address a = put16 (address_word a) @ put_mac (ga_mid a)" by (simp add: put_address_def address_word_def Let_def)
  show "length (put_address a) = 8" if "address_ok a" using that u16.length_put mac.length_put by (simp add: put address_ok_def)
  show "get_address (put_address a @ bs) = Some (a, bs)" if "address_ok a"
    using that u16.get_put mac.get_put address_parts [of a] by (simp add: put get_address_def reader_simps address_ok_def)
  assume "get_address bs = Some (a, rest)"
  then obtain tmp mid m where g: "get16 bs = Some (tmp, mid)" "get_mac mid = Some (m, rest)"
    "a = \<lparr>ga_manually_configured = tmp AND 0x8000 \<noteq> 0, ga_station_type = drop_bit 10 (tmp AND 0x7c00), ga_country_code = ucast (tmp AND 0x03ff), ga_mid = m\<rparr>"
    by (auto simp: get_address_def rd_bind_Some rd_return_Some)
  show "address_ok a \<and> bs = put_address a @ rest"
    using u16.put_get [OF g(1)] mac.put_get [OF g(2)] station_type_small [of tmp] address_join [of tmp m]
    by (simp add: put) (simp add: g(3) address_ok_def)
qed


definition lpv_ok :: "LongPositionVector \<Rightarrow> bool" where
  "lpv_ok v \<longleftrightarrow> address_ok (pv_gn_addr v)"

definition speed_word :: "15 word \<Rightarrow> bool \<Rightarrow> 16 word" where
  "speed_word speed pai = ucast speed OR (if pai then 0x8000 else 0)"

lemma speed_parts: "(speed_word speed pai AND 0x8000 \<noteq> 0) = pai" "ucast (speed_word speed pai) = speed"
proof -
  have s: "\<not> bit speed 15" using bit_imp_le_length [of speed 15] by auto
  show "(speed_word speed pai AND 0x8000 \<noteq> 0) = pai" unfolding flag_bit by (simp add: speed_word_def bit_simps bit_masks16 s)
  show "ucast (speed_word speed pai) = speed" by (rule bit_word_eqI) (auto simp: speed_word_def bit_simps bit_masks16)
qed

lemma speed_join: "speed_word (ucast w) (w AND 0x8000 \<noteq> 0) = w"
proof (rule bit_word_eqI)
  fix n assume "n < LENGTH(16)"
  then consider "n < 15" | "n = 15" by force
  then show "bit (speed_word (ucast w) (w AND 0x8000 \<noteq> 0)) n = bit w n"
    by cases (simp_all add: speed_word_def flag_bit bit_simps bit_masks16)
qed

lemma put_lpv_alt: "put_lpv v = put_address (pv_gn_addr v) @ put32 (pv_timestamp v) @ put32 (pv_latitude v) @ put32 (pv_longitude v)
     @ put16 (speed_word (pv_speed v) (pv_position_accuracy_indicator v)) @ put16 (pv_heading v)"
  by (simp add: put_lpv_def speed_word_def)

interpretation lpv: codec put_lpv get_lpv lpv_ok 24
proof unfold_locales
  fix v :: LongPositionVector and bs rest :: octets
  show "length (put_lpv v) = 24" if "lpv_ok v" using that address.length_put u16.length_put u32.length_put by (simp add: put_lpv_alt lpv_ok_def)
  show "get_lpv (put_lpv v @ bs) = Some (v, bs)" if "lpv_ok v"
    using that address.get_put u16.get_put u32.get_put speed_parts [of "pv_speed v" "pv_position_accuracy_indicator v"]
    by (simp add: put_lpv_alt get_lpv_def reader_simps lpv_ok_def)
  assume "get_lpv bs = Some (v, rest)"
  then obtain addr r1 ts r2 lat r3 lon r4 w r5 h where g: "get_address bs = Some (addr, r1)" "get32 r1 = Some (ts, r2)" "get32 r2 = Some (lat, r3)"
    "get32 r3 = Some (lon, r4)" "get16 r4 = Some (w, r5)" "get16 r5 = Some (h, rest)"
    "v = \<lparr>pv_gn_addr = addr, pv_timestamp = ts, pv_latitude = lat, pv_longitude = lon, pv_position_accuracy_indicator = w AND 0x8000 \<noteq> 0,
       pv_speed = ucast w, pv_heading = h\<rparr>" by (auto simp: get_lpv_def rd_bind_Some rd_return_Some)
  then show "lpv_ok v \<and> bs = put_lpv v @ rest"
    using address.put_get [OF g(1)] u32.put_get [OF g(2)] u32.put_get [OF g(3)] u32.put_get [OF g(4)] u16.put_get [OF g(5)] u16.put_get [OF g(6)] speed_join [of w]
    by (simp add: put_lpv_alt lpv_ok_def)
qed

lemma bit_0f: "bit (0x0f :: 8 word) n \<longleftrightarrow> n < 4"
proof -
  have *: "(0x0f :: 8 word) = mask 4" by (simp add: mask_eq_exp_minus_1)
  show ?thesis unfolding * by (simp only: bit_mask_iff) auto
qed

lemma nibble_bits: "w \<le> 0x0f \<Longrightarrow> bit (w :: 8 word) n \<Longrightarrow> n < 4"
proof -
  assume "w \<le> 0x0f" and b: "bit w n"
  then have "unat w < 16" by (simp add: word_le_nat_alt)
  then have "unat (take_bit 4 w) = unat w" by (simp add: take_bit_eq_mod unat_mod)
  then have "take_bit 4 w = w" by (simp only: word_unat_eq_iff)
  with b show ?thesis by (metis bit_take_bit_iff)
qed

lemma nibble_le: "w AND 0x0f \<le> (0x0f :: 8 word)" "drop_bit 4 w \<le> (0x0f :: 8 word)"
proof -
  have "unat (drop_bit 4 w) = unat w div 16" by (simp add: drop_bit_eq_div unat_div)
  moreover have "unat w < 256" using unsigned_less [of w] by simp
  ultimately show "drop_bit 4 w \<le> 0x0f" by (simp add: word_le_nat_alt)
qed (rule word_and_le1)

definition nibbles :: "4 word \<Rightarrow> 8 word \<Rightarrow> 8 word" where
  "nibbles hi lo = push_bit 4 (ucast hi) OR (lo AND 0x0f)"

lemma nibbles_parts: "ucast (drop_bit 4 (nibbles hi lo)) = hi" "lo \<le> 0x0f \<Longrightarrow> nibbles hi lo AND 0x0f = lo"
proof -
  show "ucast (drop_bit 4 (nibbles hi lo)) = hi"
    by (rule bit_word_eqI) (auto simp: nibbles_def bit_simps bit_0f simp del: drop_bit_or)
  show "nibbles hi lo AND 0x0f = lo" if "lo \<le> 0x0f"
    by (rule bit_word_eqI) (auto simp: nibbles_def bit_simps bit_0f dest: nibble_bits [OF that])
qed

lemma nibbles_join: "nibbles (ucast (drop_bit 4 b)) (b AND 0x0f) = b"
proof (rule bit_word_eqI)
  fix n assume "n < LENGTH(8)"
  then consider "n < 4" | "4 \<le> n" "n < 8" by force
  then show "bit (nibbles (ucast (drop_bit 4 b)) (b AND 0x0f)) n = bit b n"
    by cases (auto simp: nibbles_def bit_simps bit_0f)
qed

definition basic_ok :: "BasicHeader \<Rightarrow> bool" where "basic_ok h \<longleftrightarrow> bh_next_header h \<le> 0x0f"

lemma put_basic_alt: "put_basic h = [nibbles (bh_version h) (bh_next_header h), bh_reserved h, bh_lifetime h, bh_hop_limit h]"
  by (simp add: put_basic_def nibbles_def)

interpretation basic: codec put_basic get_basic basic_ok 4
proof unfold_locales
  fix h :: BasicHeader and bs rest :: octets
  show "length (put_basic h) = 4" by (simp add: put_basic_alt)
  show "get_basic (put_basic h @ bs) = Some (h, bs)" if "basic_ok h"
    using that nibbles_parts [where hi = "bh_version h" and lo = "bh_next_header h"] by (simp add: put_basic_alt get_basic_def reader_simps basic_ok_def)
  assume "get_basic bs = Some (h, rest)"
  then obtain b r l hl where "bs = b # r # l # hl # rest"
    "h = \<lparr>bh_version = ucast (drop_bit 4 b), bh_next_header = b AND 0x0f, bh_reserved = r, bh_lifetime = l, bh_hop_limit = hl\<rparr>"
    by (auto simp: get_basic_def rd_bind_Some rd_return_Some get8_Some)
  then show "basic_ok h \<and> bs = put_basic h @ rest" using nibbles_join [of b] nibble_le [of b] by (simp add: put_basic_alt basic_ok_def)
qed

definition common_ok :: "CommonHeader \<Rightarrow> bool" where "common_ok h \<longleftrightarrow> ch_next_header h \<le> 0x0f"

definition nibbles' :: "8 word \<Rightarrow> 4 word \<Rightarrow> 8 word" where
  "nibbles' hi lo = push_bit 4 hi OR ucast lo"

lemma nibbles'_parts: "hi \<le> 0x0f \<Longrightarrow> drop_bit 4 (nibbles' hi lo) = hi" "ucast (nibbles' hi lo AND 0x0f) = lo"
proof -
  have l: "\<not> bit lo n" if "4 \<le> n" for n using that bit_imp_le_length [of lo n] by auto
  show "drop_bit 4 (nibbles' hi lo) = hi" if "hi \<le> 0x0f"
    by (rule bit_word_eqI) (auto simp: nibbles'_def bit_simps l dest: nibble_bits [OF that] simp del: drop_bit_or)
  show "ucast (nibbles' hi lo AND 0x0f) = lo" by (rule bit_word_eqI) (auto simp: nibbles'_def bit_simps bit_0f)
qed

lemma nibbles'_join: "nibbles' (drop_bit 4 b) (ucast (b AND 0x0f)) = b"
proof (rule bit_word_eqI)
  fix n assume "n < LENGTH(8)"
  then consider "n < 4" | "4 \<le> n" "n < 8" by force
  then show "bit (nibbles' (drop_bit 4 b) (ucast (b AND 0x0f))) n = bit b n"
    by cases (auto simp: nibbles'_def bit_simps bit_0f)
qed

lemma put_common_alt: "put_common h = nibbles' (ch_next_header h) (ch_reserved1 h) # ch_header_type h # ch_traffic_class h # ch_flags h
     # put16 (ch_payload h) @ [ch_maximum_hop_limit h, ch_reserved2 h]"
  by (simp add: put_common_def nibbles'_def)

interpretation common: codec put_common get_common common_ok 8
proof unfold_locales
  fix h :: CommonHeader and bs rest :: octets
  show "length (put_common h) = 8" using u16.length_put by (simp add: put_common_alt)
  show "get_common (put_common h @ bs) = Some (h, bs)" if "common_ok h"
    using that nibbles'_parts [where hi = "ch_next_header h" and lo = "ch_reserved1 h"] u16.get_put by (simp add: put_common_alt get_common_def reader_simps common_ok_def)
  assume "get_common bs = Some (h, rest)"
  then obtain b ht tc f p r1 mhl r2 where g: "bs = b # ht # tc # f # r1" "get16 r1 = Some (p, mhl # r2 # rest)"
    "h = \<lparr>ch_next_header = drop_bit 4 b, ch_reserved1 = ucast (b AND 0x0f), ch_header_type = ht, ch_traffic_class = tc, ch_flags = f,
       ch_payload = p, ch_maximum_hop_limit = mhl, ch_reserved2 = r2\<rparr>"
    by (auto simp: get_common_def rd_bind_Some rd_return_Some get8_Some)
  then show "common_ok h \<and> bs = put_common h @ rest" using u16.put_get [OF g(2)] nibbles'_join [of b] nibble_le [of b] by (simp add: put_common_alt common_ok_def)
qed

definition shb_ok :: "ShbHeader \<Rightarrow> bool" where
  "shb_ok h \<longleftrightarrow> lpv_ok (shb_source_position h) \<and> (\<exists>raw. shb_dcc h = DccRaw raw)"

interpretation shb: codec put_shb get_shb shb_ok 28
proof unfold_locales
  fix h :: ShbHeader and bs rest :: octets
  show "length (put_shb h) = 28" if "shb_ok h" using that lpv.length_put u32.length_put by (auto simp: put_shb_def put_dcc_def shb_ok_def)
  show "get_shb (put_shb h @ bs) = Some (h, bs)" if "shb_ok h"
    using that lpv.get_put u32.get_put by (cases h) (auto simp: put_shb_def get_shb_def put_dcc_def get_dcc_def reader_simps shb_ok_def)
  assume "get_shb bs = Some (h, rest)"
  then obtain v r1 raw where g: "get_lpv bs = Some (v, r1)" "get32 r1 = Some (raw, rest)" "h = \<lparr>shb_source_position = v, shb_dcc = DccRaw raw\<rparr>"
    by (auto simp: get_shb_def get_dcc_def rd_bind_Some rd_return_Some)
  then show "shb_ok h \<and> bs = put_shb h @ rest" using lpv.put_get [OF g(1)] u32.put_get [OF g(2)] by (auto simp: put_shb_def put_dcc_def shb_ok_def)
qed

interpretation beacon: codec put_beacon get_beacon lpv_ok 24
  using lpv.get_put lpv.length_put lpv.put_get by unfold_locales (auto simp: put_beacon_def get_beacon_def)

definition gbc_ok :: "GbcGacHeader \<Rightarrow> bool" where "gbc_ok h \<longleftrightarrow> lpv_ok (gbc_source_position h)"

text \<open>On a host that uses network byte order the second conversion of the sequence number does nothing.\<close>

interpretation gbc: codec put_gbc "get_gbc BigEndian" gbc_ok 44
proof unfold_locales
  fix h :: GbcGacHeader and bs rest :: octets
  show "length (put_gbc h) = 44" if "gbc_ok h" using that lpv.length_put u16.length_put u32.length_put
    by (simp add: put_gbc_def put_sequence_number_def gbc_ok_def)
  show "get_gbc BigEndian (put_gbc h @ bs) = Some (h, bs)" if "gbc_ok h"
    using that lpv.get_put u16.get_put u32.get_put
    by (cases h) (simp add: put_gbc_def get_gbc_def put_sequence_number_def get_sequence_number_def ntoh16_def reader_simps gbc_ok_def)
  assume "get_gbc BigEndian bs = Some (h, rest)"
  then obtain sn r1 re r2 v r3 lat r4 lon r5 a r6 b r7 c r8 d where g: "get16 bs = Some (sn, r1)" "get16 r1 = Some (re, r2)" "get_lpv r2 = Some (v, r3)"
    "get32 r3 = Some (lat, r4)" "get32 r4 = Some (lon, r5)" "get16 r5 = Some (a, r6)" "get16 r6 = Some (b, r7)" "get16 r7 = Some (c, r8)" "get16 r8 = Some (d, rest)"
    "h = \<lparr>gbc_sequence_number = sn, gbc_reserved1 = re, gbc_source_position = v, gbc_geo_area_pos_latitude = lat, gbc_geo_area_pos_longitude = lon,
       gbc_distance_a = a, gbc_distance_b = b, gbc_angle = c, gbc_reserved2 = d\<rparr>"
    by (auto simp: get_gbc_def get_sequence_number_def ntoh16_def rd_bind_Some rd_return_Some)
  then show "gbc_ok h \<and> bs = put_gbc h @ rest"
    using u16.put_get [OF g(1)] u16.put_get [OF g(2)] lpv.put_get [OF g(3)] u32.put_get [OF g(4)] u32.put_get [OF g(5)] u16.put_get [OF g(6)]
      u16.put_get [OF g(7)] u16.put_get [OF g(8)] u16.put_get [OF g(9)] by (simp add: put_gbc_def put_sequence_number_def gbc_ok_def)
qed


section \<open>The parser\<close>

text \<open>What is left of the buffer and how many octets the headers took.  A read that is not complete has consumed the rest of the buffer.\<close>

record Parser =
  pa_rest :: octets
  pa_read_bytes :: nat

definition Parser_new :: "octets \<Rightarrow> Parser" where "Parser_new bs = \<lparr>pa_rest = bs, pa_read_bytes = 0\<rparr>"

definition parse_with :: "'a reader \<Rightarrow> nat \<Rightarrow> Parser \<Rightarrow> nat \<times> 'a option \<times> Parser" where
  "parse_with g len p =
     (case g (pa_rest p) of
        Some (h, rest) \<Rightarrow> (len, Some h, \<lparr>pa_rest = rest, pa_read_bytes = pa_read_bytes p + len\<rparr>)
      | None \<Rightarrow> (0, None, p\<lparr>pa_rest := []\<rparr>))"

definition parse_basic :: "Parser \<Rightarrow> nat \<times> BasicHeader option \<times> Parser" where "parse_basic = parse_with get_basic 4"

definition parse_common :: "Parser \<Rightarrow> nat \<times> CommonHeader option \<times> Parser" where "parse_common = parse_with get_common 8"

datatype HeaderVariant = ShbVariant ShbHeader | GbcVariant GbcGacHeader | BeaconVariant LongPositionVector

definition HT_Beacon :: "8 word" where "HT_Beacon = 0x10"

definition HT_GeoBroadcast :: "8 word list" where "HT_GeoBroadcast = [0x40, 0x41, 0x42]"

definition HT_TSB_Single_Hop :: "8 word" where "HT_TSB_Single_Hop = 0x50"

definition rd_map :: "('a \<Rightarrow> 'b) \<Rightarrow> 'a reader \<Rightarrow> 'b reader" where
  "rd_map f g = rd_bind g (\<lambda>x. rd_return (f x))"

definition parse_extended :: "ByteOrder \<Rightarrow> 8 word \<Rightarrow> Parser \<Rightarrow> nat \<times> HeaderVariant option \<times> Parser" where
  "parse_extended host ht p =
     (if ht = HT_TSB_Single_Hop then parse_with (rd_map ShbVariant get_shb) 28 p
      else if ht \<in> set HT_GeoBroadcast then parse_with (rd_map GbcVariant (get_gbc host)) 44 p
      else if ht = HT_Beacon then parse_with (rd_map BeaconVariant get_beacon) 24 p
      else (0, None, p))"

fun put_extended :: "HeaderVariant \<Rightarrow> octets" where
  "put_extended (ShbVariant h) = put_shb h"
| "put_extended (GbcVariant h) = put_gbc h"
| "put_extended (BeaconVariant h) = put_beacon h"

fun extended_length :: "HeaderVariant \<Rightarrow> nat" where
  "extended_length (ShbVariant h) = 28"
| "extended_length (GbcVariant h) = 44"
| "extended_length (BeaconVariant h) = 24"

text \<open>What the receiver gets for a header that was sent: the sequence number passes the second conversion, and the DCC field is 32 bits, whose
  meaning only the reader of the field decides.\<close>

definition as_received :: "ByteOrder \<Rightarrow> HeaderVariant \<Rightarrow> HeaderVariant" where
  "as_received host v =
     (case v of GbcVariant h \<Rightarrow> GbcVariant (h\<lparr>gbc_sequence_number := ntoh16 host (gbc_sequence_number h)\<rparr>)
      | ShbVariant h \<Rightarrow> ShbVariant (h\<lparr>shb_dcc := DccRaw (dcc_raw (shb_dcc h))\<rparr>) | _ \<Rightarrow> v)"

fun extended_ok :: "8 word \<Rightarrow> HeaderVariant \<Rightarrow> bool" where
  "extended_ok ht (ShbVariant h) \<longleftrightarrow> ht = HT_TSB_Single_Hop \<and> shb_ok h"
| "extended_ok ht (GbcVariant h) \<longleftrightarrow> ht \<in> set HT_GeoBroadcast \<and> gbc_ok h"
| "extended_ok ht (BeaconVariant h) \<longleftrightarrow> ht = HT_Beacon \<and> lpv_ok h"

text \<open>A header to be sent may carry a DCC field of either kind.\<close>

fun sent_ok :: "8 word \<Rightarrow> HeaderVariant \<Rightarrow> bool" where
  "sent_ok ht (ShbVariant h) \<longleftrightarrow> ht = HT_TSB_Single_Hop \<and> lpv_ok (shb_source_position h)"
| "sent_ok ht v \<longleftrightarrow> extended_ok ht v"

lemma mco_roundtrip: "DccMcoField_of (DccMcoField_raw m) = m"
proof -
  have raw: "bit (DccMcoField_raw m) n \<longleftrightarrow> n < 32 \<and> (if 24 \<le> n then bit (mco_cbr_l0_hop m) (n - 24)
      else if 16 \<le> n then bit (mco_cbr_l1_hop m) (n - 16) else 11 \<le> n \<and> bit (mco_output_power m) (n - 11))" for n
    by (auto simp: DccMcoField_raw_def Let_def bit_simps dest: bit_imp_le_length)
  have "ucast (drop_bit 24 (DccMcoField_raw m)) = mco_cbr_l0_hop m" by (rule bit_word_eqI) (simp add: bit_simps raw)
  moreover have "ucast (drop_bit 16 (DccMcoField_raw m)) = mco_cbr_l1_hop m" by (rule bit_word_eqI) (simp add: bit_simps raw)
  moreover have "ucast (drop_bit 11 (DccMcoField_raw m)) = mco_output_power m" by (rule bit_word_eqI) (simp add: bit_simps raw)
  ultimately show ?thesis by (simp add: DccMcoField_of_def)
qed

lemma get_shb_put: "lpv_ok (shb_source_position h) \<Longrightarrow> get_shb (put_shb h @ bs) = Some (h\<lparr>shb_dcc := DccRaw (dcc_raw (shb_dcc h))\<rparr>, bs)"
  using shb.get_put [of "h\<lparr>shb_dcc := DccRaw (dcc_raw (shb_dcc h))\<rparr>" bs] by (simp add: shb_ok_def put_shb_def put_dcc_def)

lemma get_gbc_put: "gbc_ok h \<Longrightarrow> get_gbc host (put_gbc h @ bs) = Some (h\<lparr>gbc_sequence_number := ntoh16 host (gbc_sequence_number h)\<rparr>, bs)"
  using lpv.get_put u16.get_put u32.get_put
  by (cases h) (simp add: put_gbc_def get_gbc_def put_sequence_number_def get_sequence_number_def reader_simps gbc_ok_def)

lemma parse_extended_put:
  "sent_ok ht v \<Longrightarrow> pa_rest p = put_extended v @ bs \<Longrightarrow>
    parse_extended host ht p = (extended_length v, Some (as_received host v), \<lparr>pa_rest = bs, pa_read_bytes = pa_read_bytes p + extended_length v\<rparr>)"
  using get_shb_put beacon.get_put get_gbc_put
  by (cases v) (auto simp: parse_extended_def parse_with_def rd_map_def reader_simps as_received_def HT_TSB_Single_Hop_def HT_GeoBroadcast_def HT_Beacon_def)

section \<open>Properties of the octets\<close>

text \<open>C10: A packet's headers, with fields that fit their widths and an extended header of the announced type: what was written is parsed, every
  header with its length, and the payload is what remains.  There are two exceptions:
  the sequence number of a GeoBroadcast header passes a second conversion of the byte order, and the DCC field of a single-hop broadcast
  arrives as 32 bits, from which the receiver reads the same channel loads and output power that the sender put in.\<close>

theorem packet_headers_parsed:
  assumes "basic_ok basic" and "common_ok common" and "sent_ok (ch_header_type common) ext"
  shows "\<exists>p1 p2 p3. parse_basic (Parser_new (put_basic basic @ put_common common @ put_extended ext @ payload)) = (4, Some basic, p1)
    \<and> parse_common p1 = (8, Some common, p2)
    \<and> parse_extended host (ch_header_type common) p2 = (extended_length ext, Some (as_received host ext), p3)
    \<and> pa_rest p3 = payload \<and> pa_read_bytes p3 = 12 + extended_length ext
    \<and> (case ext of ShbVariant h \<Rightarrow> \<exists>h'. as_received host ext = ShbVariant h' \<and> shb_source_position h' = shb_source_position h
         \<and> get_dcc_mco (shb_dcc h') = get_dcc_mco (shb_dcc h) | _ \<Rightarrow> True)"
proof -
  have "get_dcc_mco (DccRaw (dcc_raw field)) = get_dcc_mco field" for field by (cases field) (simp_all add: mco_roundtrip)
  then have "case ext of ShbVariant h \<Rightarrow> \<exists>h'. as_received host ext = ShbVariant h' \<and> shb_source_position h' = shb_source_position h
      \<and> get_dcc_mco (shb_dcc h') = get_dcc_mco (shb_dcc h) | _ \<Rightarrow> True" by (cases ext) (simp_all add: as_received_def)
  with assms basic.get_put common.get_put parse_extended_put [OF assms(3)] show ?thesis
    by (simp add: parse_basic_def parse_common_def Parser_new_def parse_with_def)
qed

lemma get_gbc_host: "get_gbc host bs = map_option (\<lambda>(h, rest). (h\<lparr>gbc_sequence_number := ntoh16 host (gbc_sequence_number h)\<rparr>, rest)) (get_gbc BigEndian bs)"
proof (cases "get16 bs")
  case None
  then show ?thesis by (simp add: get_gbc_def get_sequence_number_def reader_simps)
next
  case (Some r)
  then show ?thesis by (cases r; cases host) (simp_all add: get_gbc_def get_sequence_number_def reader_simps ntoh16_def split: option.splits prod.splits)
qed

text \<open>C23: Whatever octets arrive, a header that the parser reports is well-formed and of the announced type, it is what some sender wrote, and its octets are
  the ones that were consumed and counted.\<close>

theorem parsed_header_wellformed:
  assumes "parse_extended host ht p = (n, Some received, p')"
  shows "\<exists>sent. received = as_received host sent \<and> extended_ok ht sent \<and> pa_rest p = put_extended sent @ pa_rest p'
    \<and> n = extended_length sent \<and> length (put_extended sent) = n \<and> pa_read_bytes p' = pa_read_bytes p + n"
proof -
  have g: "\<exists>h0. h = h0\<lparr>gbc_sequence_number := ntoh16 host (gbc_sequence_number h0)\<rparr> \<and> get_gbc BigEndian bs = Some (h0, rest)"
    if "get_gbc host bs = Some (h, rest)" for bs h rest
    using that by (subst (asm) get_gbc_host) auto
  consider (shb) "ht = HT_TSB_Single_Hop" | (gbc) "ht \<noteq> HT_TSB_Single_Hop" "ht \<in> set HT_GeoBroadcast"
    | (beacon) "ht \<noteq> HT_TSB_Single_Hop" "ht \<notin> set HT_GeoBroadcast" "ht = HT_Beacon"
    using assms by (auto simp: parse_extended_def split: if_splits)
  then show ?thesis
  proof cases
    case shb
    then obtain h where h: "get_shb (pa_rest p) = Some (h, pa_rest p')" "received = ShbVariant h" "n = 28" "pa_read_bytes p' = pa_read_bytes p + 28"
      using assms by (auto simp: parse_extended_def parse_with_def rd_map_def reader_simps split: option.splits)
    then show ?thesis using shb shb.put_get [OF h(1)] shb.length_put [of h]
      by (intro exI [of _ "ShbVariant h"]) (auto simp: as_received_def shb_ok_def)
  next
    case gbc
    then obtain h where h: "get_gbc host (pa_rest p) = Some (h, pa_rest p')" "received = GbcVariant h" "n = 44" "pa_read_bytes p' = pa_read_bytes p + 44"
      using assms by (auto simp: parse_extended_def parse_with_def rd_map_def reader_simps split: option.splits)
    then obtain h0 where h0: "h = h0\<lparr>gbc_sequence_number := ntoh16 host (gbc_sequence_number h0)\<rparr>" "get_gbc BigEndian (pa_rest p) = Some (h0, pa_rest p')"
      using g by blast
    then show ?thesis using gbc h gbc.put_get [OF h0(2)] gbc.length_put [of h0] by (intro exI [of _ "GbcVariant h0"]) (simp add: as_received_def)
  next
    case beacon
    then obtain h where h: "get_beacon (pa_rest p) = Some (h, pa_rest p')" "received = BeaconVariant h" "n = 24" "pa_read_bytes p' = pa_read_bytes p + 24"
      using assms by (auto simp: parse_extended_def parse_with_def rd_map_def reader_simps split: option.splits)
    then show ?thesis using beacon beacon.put_get [OF h(1)] beacon.length_put [of h] by (intro exI [of _ "BeaconVariant h"]) (simp add: as_received_def)
  qed
qed

text \<open>A reader that takes exactly \<open>n\<close> octets and fails only when there are fewer.\<close>

definition takes :: "nat \<Rightarrow> 'a reader \<Rightarrow> bool" where
  "takes n g \<longleftrightarrow> (\<forall>bs. if n \<le> length bs then \<exists>x. g bs = Some (x, drop n bs) else g bs = None)"

lemma takes_return: "takes 0 (rd_return x)"
  by (simp add: takes_def rd_return_def)

lemma takes_bind:
  assumes "takes m g" and "\<And>x. takes n (k x)"
  shows "takes (m + n) (rd_bind g k)"
  unfolding takes_def
proof
  fix bs
  show "if m + n \<le> length bs then \<exists>x. rd_bind g k bs = Some (x, drop (m + n) bs) else rd_bind g k bs = None"
  proof (cases "m \<le> length bs")
    case True
    then obtain x where "g bs = Some (x, drop m bs)" using assms(1) unfolding takes_def by meson
    moreover have "if n \<le> length (drop m bs) then \<exists>y. k x (drop m bs) = Some (y, drop n (drop m bs)) else k x (drop m bs) = None"
      using assms(2) unfolding takes_def by blast
    ultimately show ?thesis using True by (auto simp: rd_bind_def le_diff_conv2 add.commute)
  next
    case False
    then have "g bs = None" using assms(1) unfolding takes_def by meson
    with False show ?thesis by (simp add: rd_bind_def)
  qed
qed

lemma takes_8: "takes 1 get8"
  unfolding takes_def
proof
  show "if 1 \<le> length bs then \<exists>x. get8 bs = Some (x, drop 1 bs) else get8 bs = None" for bs by (cases bs) (simp_all add: reader_simps)
qed

lemma takes_16: "takes 2 get16"
proof -
  have "takes (1 + (1 + 0)) get16" unfolding get16_def by (intro takes_bind takes_8 takes_return)
  then show ?thesis by (simp add: numeral_2_eq_2)
qed

lemma takes_32: "takes 4 get32"
proof -
  have "takes (2 + (2 + 0)) get32" unfolding get32_def by (intro takes_bind takes_16 takes_return)
  then show ?thesis by simp
qed

lemma takes_octets: "takes n (get_octets n)"
proof (induction n)
  case 0
  then show ?case by (simp add: takes_def)
next
  case (Suc n)
  have "get_octets (Suc n) = rd_bind get8 (\<lambda>b. rd_bind (get_octets n) (\<lambda>rest. rd_return (b # rest)))" by (rule ext) simp
  moreover have "takes (1 + (n + 0)) (rd_bind get8 (\<lambda>b. rd_bind (get_octets n) (\<lambda>rest. rd_return (b # rest))))"
    by (intro takes_bind takes_8 Suc.IH takes_return)
  ultimately show ?case by simp
qed

lemma takes_lpv: "takes 24 get_lpv"
proof -
  have "takes (2 + (6 + 0)) get_address" unfolding get_address_def get_mac_def by (intro takes_bind takes_16 takes_octets takes_return)
  then have "takes ((2 + (6 + 0)) + (4 + (4 + (4 + (2 + (2 + 0)))))) get_lpv"
    unfolding get_lpv_def by (intro takes_bind takes_32 takes_16 takes_return)
  then show ?thesis by simp
qed

lemma takes_shb: "takes 28 get_shb"
proof -
  have "takes (4 + 0) get_dcc" unfolding get_dcc_def by (intro takes_bind takes_32 takes_return)
  then have "takes (24 + ((4 + 0) + 0)) get_shb" unfolding get_shb_def by (intro takes_bind takes_lpv takes_return)
  then show ?thesis by simp
qed

lemma takes_gbc: "takes 44 (get_gbc host)"
proof -
  have "takes (2 + 0) (get_sequence_number host)" unfolding get_sequence_number_def by (intro takes_bind takes_16 takes_return)
  then have "takes ((2 + 0) + (2 + (24 + (4 + (4 + (2 + (2 + (2 + (2 + 0))))))))) (get_gbc host)"
    unfolding get_gbc_def by (intro takes_bind takes_32 takes_16 takes_lpv takes_return)
  then show ?thesis by simp
qed

definition header_length :: "8 word \<Rightarrow> nat option" where
  "header_length ht = (if ht = HT_TSB_Single_Hop then Some 28 else if ht \<in> set HT_GeoBroadcast then Some 44 else if ht = HT_Beacon then Some 24 else None)"

lemma parse_with_takes:
  assumes "takes n g"
  shows "if n \<le> length (pa_rest p) then \<exists>h. parse_with (rd_map f g) n p = (n, Some h, \<lparr>pa_rest = drop n (pa_rest p), pa_read_bytes = pa_read_bytes p + n\<rparr>)
    else parse_with (rd_map f g) n p = (0, None, p\<lparr>pa_rest := []\<rparr>)"
proof -
  have "if n \<le> length (pa_rest p) then \<exists>x. g (pa_rest p) = Some (x, drop n (pa_rest p)) else g (pa_rest p) = None" using assms unfolding takes_def by blast
  then show ?thesis by (cases "n \<le> length (pa_rest p)") (auto simp: parse_with_def rd_map_def reader_simps)
qed

text \<open>C22: Which octets are accepted as an extended header: for a known header type a header is reported exactly when the buffer holds the octets of that type (28
  for a single-hop broadcast, 44 for a GeoBroadcast, 24 for a beacon), whatever they are, and exactly these are consumed and counted.  A
  truncated header is not reported and nothing is counted; for any other header type nothing is read at all.\<close>

theorem truncated_header_rejected:
  "case header_length ht of
     None \<Rightarrow> parse_extended host ht p = (0, None, p)
   | Some n \<Rightarrow>
       if n \<le> length (pa_rest p)
       then \<exists>h. parse_extended host ht p = (n, Some h, \<lparr>pa_rest = drop n (pa_rest p), pa_read_bytes = pa_read_bytes p + n\<rparr>)
       else parse_extended host ht p = (0, None, p\<lparr>pa_rest := []\<rparr>)"
proof -
  note takes = parse_with_takes [OF takes_shb, of p ShbVariant] parse_with_takes [OF takes_gbc, of p GbcVariant host]
    parse_with_takes [OF takes_lpv, of p BeaconVariant]
  consider "ht = HT_TSB_Single_Hop" | "ht \<noteq> HT_TSB_Single_Hop" "ht \<in> set HT_GeoBroadcast"
    | "ht \<noteq> HT_TSB_Single_Hop" "ht \<notin> set HT_GeoBroadcast" "ht = HT_Beacon"
    | "ht \<noteq> HT_TSB_Single_Hop" "ht \<notin> set HT_GeoBroadcast" "ht \<noteq> HT_Beacon" by blast
  then show ?thesis by cases (use takes in \<open>simp_all add: header_length_def parse_extended_def get_beacon_def\<close>)
qed

text \<open>Reading a sequence number converts it from network order twice: on a little-endian host its octets arrive swapped.\<close>

theorem sequence_number_swapped:
  "get_sequence_number LittleEndian (put_sequence_number 1 @ bs) = Some (256, bs) \<and> get_sequence_number BigEndian (put_sequence_number 1 @ bs) = Some (1, bs)"
  using u16.get_put by (simp add: put_sequence_number_def get_sequence_number_def reader_simps ntoh16_def)

lemma circle_less:
  fixes a b :: int
  assumes "\<bar>a - b\<bar> < 2 ^ (n - 1)" and "0 < n"
  defines "x \<equiv> a mod 2 ^ n" and "y \<equiv> b mod 2 ^ n"
  shows "(x > y \<and> x - y < 2 ^ (n - 1)) \<or> (y > x \<and> y - x \<ge> 2 ^ (n - 1)) \<longleftrightarrow> a > b"
proof -
  define H :: int where "H = 2 ^ (n - 1)"
  have N: "(2 :: int) ^ n = 2 * H" using assms(2) by (cases n) (simp_all add: H_def)
  have H: "0 < H" by (simp add: H_def)
  define p q where "p = a div (2 * H)" and "q = b div (2 * H)"
  have a: "a = 2 * H * p + x" and b: "b = 2 * H * q + y" by (simp_all add: p_def q_def x_def y_def N)
  have r: "0 \<le> x" "x < 2 * H" "0 \<le> y" "y < 2 * H" using H by (simp_all add: x_def y_def N)
  have d: "a - b = 2 * H * (p - q) + (x - y)" using a b by (simp add: algebra_simps)
  have ab: "- H < a - b" "a - b < H" using assms(1) by (simp_all add: H_def abs_less_iff)
  have "p - q < 2" proof (rule ccontr) assume "\<not> p - q < 2" then have "2 * H * 2 \<le> 2 * H * (p - q)" using H by (intro mult_left_mono) auto
    then show False using d r ab by linarith qed
  moreover have "- 2 < p - q" proof (rule ccontr) assume "\<not> - 2 < p - q" then have "2 * H * (p - q) \<le> 2 * H * (- 2)" using H by (intro mult_left_mono) auto
    then show False using d r ab by linarith qed
  ultimately consider "p - q = -1" | "p - q = 0" | "p - q = 1" by linarith
  then show ?thesis using d r ab unfolding H_def [symmetric] by cases auto
qed

lemma ts_less_order:
  assumes "\<bar>a - b\<bar> < 2 ^ 31"
  shows "ts_less (word_of_int a) (word_of_int b) \<longleftrightarrow> a < b"
proof -
  let ?x = "a mod 2 ^ 32" and ?y = "b mod 2 ^ 32"
  have u: "uint (word_of_int a :: 32 word) = ?x" "uint (word_of_int b :: 32 word) = ?y" by (simp_all add: uint_word_of_int)
  have half: "uint ((- 1 :: 32 word) div 2) = 2 ^ 31 - 1" by (simp add: uint_div)
  have s: "uint (v - w) = uint v - uint w" if "w \<le> v" for v w :: "32 word" using that uint_minus_simple_alt by blast
  have g: "ts_is_greater v w \<longleftrightarrow> (uint v > uint w \<and> uint v - uint w < 2 ^ 31) \<or> (uint w > uint v \<and> uint w - uint v \<ge> 2 ^ 31)" for v w :: "32 word"
    using s [of v w] s [of w v] half by (auto simp: ts_is_greater_def word_less_def word_le_def)
  have gr: "ts_is_greater (word_of_int a) (word_of_int b) \<longleftrightarrow> a > b" unfolding g u using circle_less [of a b 32] assms by simp
  have "(word_of_int a :: 32 word) = word_of_int b \<longleftrightarrow> a = b"
  proof
    assume "(word_of_int a :: 32 word) = word_of_int b"
    then have "?x = ?y" using u by metis
    then have "2 ^ 32 dvd a - b" by (simp add: mod_eq_dvd_iff)
    then show "a = b" using assms zdvd_not_zless [of "\<bar>a - b\<bar>" "2 ^ 32"] by (cases "a = b") auto
  qed simp
  with gr show ?thesis by (auto simp: ts_less_def)
qed

text \<open>Time stamps compare as the times they stand for, also across the wrap-around, as long as these are less than half the circle apart.\<close>

theorem timestamp_order:
  assumes "\<bar>a - b\<bar> < 2 ^ 31"
  shows "ts_less (word_of_int a) (word_of_int b) \<longleftrightarrow> a < b"
  using assms by (rule ts_less_order)

text \<open>Sequence numbers compare as the running numbers they stand for, as long as these are less than half the circle apart.\<close>

theorem sequence_number_order:
  assumes "\<bar>a - b\<bar> < 2 ^ 15"
  shows "sn_less (word_of_int a) (word_of_int b) \<longleftrightarrow> a < b"
proof -
  have u: "uint (word_of_int a :: 16 word) = a mod 2 ^ 16" "uint (word_of_int b :: 16 word) = b mod 2 ^ 16" by (simp_all add: uint_word_of_int)
  have s: "unat (v - w) = nat (uint v - uint w)" if "w < v" for v w :: "16 word"
    using that uint_minus_simple_alt [of w v] by (simp add: less_imp_le unat_eq_nat_uint)
  have g: "sn_less v w \<longleftrightarrow> (uint w > uint v \<and> uint w - uint v < 2 ^ 15) \<or> (uint v > uint w \<and> uint v - uint w \<ge> 2 ^ 15)" for v w :: "16 word"
    using s [of v w] s [of w v] by (cases "uint v" "uint w" rule: linorder_cases) (auto simp: sn_less_def word_less_def)
  show ?thesis unfolding g u using circle_less [of b a 16] assms by (simp add: abs_minus_commute)
qed

text \<open>The order goes around the circle: it is total, but not transitive.\<close>

theorem timestamp_order_not_transitive: "ts_less 0 0x7fffffff \<and> ts_less 0x7fffffff 0xfffffffe \<and> \<not> ts_less 0 0xfffffffe"
  by (simp add: ts_less_def ts_is_greater_def)

lemma multiplier_range: "0 \<le> x \<Longrightarrow> x < 127/2 \<Longrightarrow> real (unat (lround_multiplier x)) = real_of_int (std_round x)"
proof -
  assume "0 \<le> x" and "x < 127/2"
  then have r: "0 \<le> std_round x" "std_round x < 64"
    by (simp_all add: std_round_def)
  have "unat (lround_multiplier x) = nat (std_round x) mod 256 mod 64"
    using r by (simp add: lround_multiplier_def unsigned_ucast_eq take_bit_eq_mod unat_eq_nat_uint uint_word_of_int nat_mod_distrib)
  also have "\<dots> = nat (std_round x)" using r by simp
  finally show ?thesis using r by simp
qed

lemma Lifetime_set_decode: "Lifetime_decode (Lifetime_set base m) = real (unat m) * base_unit base"
proof -
  have b: "bit (0x03 :: 8 word) n \<longleftrightarrow> n < 2" "bit (0xFC :: 8 word) n \<longleftrightarrow> 2 \<le> n \<and> n < 8" for n
  proof -
    have *: "(0x03 :: 8 word) = mask 2" "(0xFC :: 8 word) = push_bit 2 (mask 6)" by (simp_all add: mask_eq_exp_minus_1)
    show "bit (0x03 :: 8 word) n \<longleftrightarrow> n < 2" unfolding *(1) by (simp only: bit_mask_iff) auto
    show "bit (0xFC :: 8 word) n \<longleftrightarrow> 2 \<le> n \<and> n < 8" unfolding *(2) by (simp only: bit_push_bit_iff bit_mask_iff) auto
  qed
  have v: "\<not> bit (base_value base AND 0x03) n" if "2 \<le> n" for n using that by (simp add: bit_and_iff b)
  have "drop_bit 2 (Lifetime_set base m AND 0xFC) = ucast m"
    by (rule bit_word_eqI) (auto simp: Lifetime_set_def bit_simps b v dest: bit_imp_le_length simp del: drop_bit_and drop_bit_or)
  moreover have "Lifetime_set base m AND 0x03 = base_value base AND 0x03"
    by (rule bit_word_eqI) (auto simp: Lifetime_set_def bit_simps b)
  then have "lifetime_base (Lifetime_set base m) = base" by (cases base) (simp_all add: lifetime_base_def)
  moreover have "unat (ucast m :: 8 word) = unat m"
    using unsigned_less [of m, where 'a = nat] by (simp add: unsigned_ucast_eq take_bit_nat_eq_self)
  ultimately show ?thesis by (simp add: Lifetime_decode_def del: drop_bit_and)
qed

text \<open>Encoding a lifetime rounds it to the nearest multiple of the unit of its range, for lifetimes below 6350 seconds.\<close>

definition lifetime_step :: "real \<Rightarrow> real" where
  "lifetime_step seconds = (if seconds \<ge> 630 then 100 else if seconds \<ge> 63 then 10 else if seconds \<ge> 315/100 then 1 else 50/1000)"

theorem lifetime_rounded:
  assumes "0 \<le> seconds" and "seconds < 6350"
  shows "\<bar>Lifetime_decode (Lifetime_encode seconds) - seconds\<bar> \<le> lifetime_step seconds / 2"
proof -
  have *: "\<bar>real_of_int (std_round (seconds / u)) * u - seconds\<bar> \<le> u / 2" if "0 < u" for u
  proof -
    have "\<bar>(real_of_int (std_round (seconds / u)) - seconds / u) * u\<bar> \<le> 1/2 * u"
      using std_round_error [of "seconds / u"] that unfolding abs_mult by (intro mult_mono) auto
    then show ?thesis using that by (simp add: left_diff_distrib)
  qed
  have r: "real (unat (lround_multiplier (seconds / u))) = real_of_int (std_round (seconds / u))" if "0 < u" "seconds < 127/2 * u" for u
    using that assms(1) by (intro multiplier_range) (simp_all add: pos_divide_less_eq)
  consider "seconds \<ge> 630" | "63 \<le> seconds" "seconds < 630" | "315/100 \<le> seconds" "seconds < 63" | "seconds < 315/100" by linarith
  then show ?thesis
    using *[of 100] *[of 10] *[of 1] *[of "50/1000"] r[of 100] r[of 10] r[of 1] r[of "50/1000"] assms
    by cases (simp_all add: Lifetime_encode_def Lifetime_set_decode lifetime_step_def)
qed

lemma Lifetime_decode_le: "Lifetime_decode lt \<le> 6300"
proof -
  have "unat (drop_bit 2 (lt AND 0xFC)) = unat (lt AND 0xFC) div 4" by (simp only: drop_bit_eq_div) (simp add: unat_div_distrib)
  moreover have "unat (lt AND 0xFC) < 256" using unsigned_less [of "lt AND 0xFC", where 'a = nat] by simp
  ultimately have "unat (drop_bit 2 (lt AND 0xFC)) \<le> 63" by linarith
  then have "real (unat (drop_bit 2 (lt AND 0xFC))) \<le> real 63" by (simp only: of_nat_le_iff)
  moreover have "0 \<le> base_unit (lifetime_base lt) \<and> base_unit (lifetime_base lt) \<le> 100" by (cases "lifetime_base lt") simp_all
  ultimately have "real (unat (drop_bit 2 (lt AND 0xFC))) * base_unit (lifetime_base lt) \<le> real 63 * 100"
    by (intro mult_mono) (assumption, simp_all)
  then show ?thesis by (simp add: Lifetime_decode_def)
qed

text \<open>A longer lifetime wraps around: a packet meant to live for 6400 seconds has no lifetime at all.\<close>

theorem lifetime_wraps: "Lifetime_decode (Lifetime_encode 6400) = 0"
  by (simp add: Lifetime_encode_def Lifetime_set_decode lround_multiplier_def std_round_def)

text \<open>The channel load a neighbour reads from the DCC field is the one that was written, rounded down to the next 255th.\<close>

theorem channel_load_transmitted:
  assumes "in_unit cbr"
  shows "let seen = local_cbr (DccMcoField_of (DccMcoField_raw (set_local_cbr cbr m))) in seen \<le> cbr \<and> cbr < seen + 1/255"
proof -
  have f: "0 \<le> \<lfloor>cbr * 255\<rfloor>" "\<lfloor>cbr * 255\<rfloor> \<le> 255" using assms by (simp_all add: floor_le_iff)
  have "unat (word_of_int \<lfloor>cbr * 255\<rfloor> :: 8 word) = nat \<lfloor>cbr * 255\<rfloor>"
    using f by (simp add: unat_eq_nat_uint uint_word_of_int)
  then have n: "(unsigned (word_of_int \<lfloor>cbr * 255\<rfloor> :: 8 word) :: real) = real_of_int \<lfloor>cbr * 255\<rfloor>"
    using f(1) by (metis of_nat_nat of_nat_unat of_int_of_nat_eq)
  have "real_of_int \<lfloor>cbr * 255\<rfloor> / 255 \<le> 1" using f by simp
  then show ?thesis using f(1) by (simp add: mco_roundtrip local_cbr_def set_local_cbr_def n unit_clamp_id Let_def) linarith
qed

section \<open>Witnesses\<close>

definition example_vector :: LongPositionVector where
  "example_vector = \<lparr>pv_gn_addr = \<lparr>ga_manually_configured = True, ga_station_type = 5, ga_country_code = 49, ga_mid = [2, 0, 0, 0, 0, 7]\<rparr>, pv_timestamp = 1000,
     pv_latitude = 488000000, pv_longitude = 114000000, pv_position_accuracy_indicator = True, pv_speed = 1389, pv_heading = 900\<rparr>"

definition example_basic :: BasicHeader where
  "example_basic = \<lparr>bh_version = 1, bh_next_header = 1, bh_reserved = 0, bh_lifetime = 0x1a, bh_hop_limit = 1\<rparr>"

definition example_common :: CommonHeader where
  "example_common = \<lparr>ch_next_header = 2, ch_reserved1 = 0, ch_header_type = 0x50, ch_traffic_class = 2, ch_flags = 0x80, ch_payload = 2, ch_maximum_hop_limit = 1, ch_reserved2 = 0\<rparr>"

definition example_mco :: DccMcoField where
  "example_mco = \<lparr>mco_cbr_l0_hop = 128, mco_cbr_l1_hop = 64, mco_output_power = 23\<rparr>"

theorem packet_headers_parsed_witness:
  "\<exists>p1 p2 p3 h'. parse_basic (Parser_new (put_basic example_basic @ put_common example_common
      @ put_extended (ShbVariant \<lparr>shb_source_position = example_vector, shb_dcc = DccMco example_mco\<rparr>) @ [7, 9])) = (4, Some example_basic, p1)
    \<and> parse_common p1 = (8, Some example_common, p2) \<and> parse_extended LittleEndian 0x50 p2 = (28, Some (ShbVariant h'), p3)
    \<and> shb_source_position h' = example_vector \<and> get_dcc_mco (shb_dcc h') = example_mco \<and> pa_rest p3 = [7, 9] \<and> pa_read_bytes p3 = 40"
proof -
  have ok: "basic_ok example_basic" "common_ok example_common" "ch_header_type example_common = 0x50"
    "sent_ok (ch_header_type example_common) (ShbVariant \<lparr>shb_source_position = example_vector, shb_dcc = DccMco example_mco\<rparr>)"
    by (simp_all add: basic_ok_def common_ok_def lpv_ok_def address_ok_def example_basic_def example_common_def example_vector_def HT_TSB_Single_Hop_def)
  from packet_headers_parsed [OF ok(1,2,4), of "[7, 9]" LittleEndian] ok(3) show ?thesis by fastforce
qed

theorem timestamp_order_witness: "ts_less (word_of_int 4294967290) (word_of_int 4294967306)"
  using timestamp_order [of 4294967290 4294967306] by simp

theorem sequence_number_order_witness: "sn_less (word_of_int 65535) (word_of_int 65536)"
  using sequence_number_order [of 65535 65536] by simp

theorem lifetime_rounded_witness: "\<bar>Lifetime_decode (Lifetime_encode 58) - 58\<bar> \<le> 1/2"
  using lifetime_rounded [of 58] by (simp add: lifetime_step_def)

theorem channel_load_transmitted_witness:
  "let seen = local_cbr (DccMcoField_of (DccMcoField_raw (set_local_cbr (1/2) \<lparr>mco_cbr_l0_hop = 0, mco_cbr_l1_hop = 0, mco_output_power = 0\<rparr>)))
   in seen \<le> 1/2 \<and> 1/2 < seen + 1/255"
  using channel_load_transmitted [of "1/2" "\<lparr>mco_cbr_l0_hop = 0, mco_cbr_l1_hop = 0, mco_output_power = 0\<rparr>"] by simp

theorem parsed_header_wellformed_witness:
  "\<exists>sent. BeaconVariant example_vector = as_received LittleEndian sent \<and> extended_ok 0x10 sent \<and> put_beacon example_vector @ [5] = put_extended sent @ [5]"
proof -
  have "lpv_ok example_vector" by (simp add: lpv_ok_def address_ok_def example_vector_def)
  then have "parse_extended LittleEndian 0x10 (Parser_new (put_beacon example_vector @ [5])) = (24, Some (BeaconVariant example_vector), \<lparr>pa_rest = [5], pa_read_bytes = 24\<rparr>)"
    using beacon.get_put [of example_vector "[5]"]
    by (simp add: parse_extended_def parse_with_def rd_map_def reader_simps Parser_new_def HT_TSB_Single_Hop_def HT_GeoBroadcast_def HT_Beacon_def)
  from parsed_header_wellformed [OF this] show ?thesis by (auto simp: Parser_new_def)
qed

end
