(* ===== verification/Runtimes.thy ===== *)
theory Runtimes
  imports Timers
begin

text \<open>
  \<open>vanetza/common/manual_runtime\<close>, the queue of scheduled callbacks, and \<open>artery/networking/Runtime\<close>, which drives it by an event of the simulation.
  What a callback does, with the runtime and with the components behind it, is the argument \<open>exec\<close>.  Time points and durations count
  microseconds, the simulation time ticks of its resolution.
\<close>

section \<open>The queue of callbacks\<close>

definition time_point_max :: time_point where "time_point_max = 2 ^ 63 - 1"

record 'c ScheduledCallback =
  sc_deadline :: time_point
  sc_callback :: 'c
  sc_scope :: "nat option"

text \<open>The container is ordered by deadline, equal deadlines by insertion.\<close>

record 'c ManualRuntime =
  mr_now :: time_point
  mr_queue :: "'c ScheduledCallback list"

fun emplace :: "'c ScheduledCallback \<Rightarrow> 'c ScheduledCallback list \<Rightarrow> 'c ScheduledCallback list" where
  "emplace e [] = [e]"
| "emplace e (x # xs) = (if sc_deadline x \<le> sc_deadline e then x # emplace e xs else e # x # xs)"

definition ManualRuntime_schedule :: "time_point \<Rightarrow> 'c \<Rightarrow> nat option \<Rightarrow> 'c ManualRuntime \<Rightarrow> 'c ManualRuntime" where
  "ManualRuntime_schedule tp cb scope rt = rt\<lparr>mr_queue := emplace \<lparr>sc_deadline = tp, sc_callback = cb, sc_scope = scope\<rparr> (mr_queue rt)\<rparr>"

definition ManualRuntime_schedule_in :: "int \<Rightarrow> 'c \<Rightarrow> nat option \<Rightarrow> 'c ManualRuntime \<Rightarrow> 'c ManualRuntime" where
  "ManualRuntime_schedule_in d cb scope rt = ManualRuntime_schedule (mr_now rt + d) cb scope rt"

definition ManualRuntime_cancel :: "nat option \<Rightarrow> 'c ManualRuntime \<Rightarrow> 'c ManualRuntime" where
  "ManualRuntime_cancel scope rt = (case scope of Some s \<Rightarrow> rt\<lparr>mr_queue := filter (\<lambda>e. sc_scope e \<noteq> Some s) (mr_queue rt)\<rparr> | None \<Rightarrow> rt)"

definition ManualRuntime_next :: "'c ManualRuntime \<Rightarrow> time_point" where
  "ManualRuntime_next rt = (case mr_queue rt of e # _ \<Rightarrow> sc_deadline e | [] \<Rightarrow> time_point_max)"

section \<open>The runtime of a station\<close>

text \<open>\<open>rn_update\<close> is the time for which the update event is scheduled, if it is, and \<open>rn_client\<close> the state of the components whose callbacks
  the runtime holds.\<close>

record ('c, 's) Runtime =
  rn_timer :: Timer
  rn_runtime :: "'c ManualRuntime"
  rn_update :: "simtime option"
  rn_last :: simtime
  rn_client :: 's

type_synonym ('c, 's) exec = "simtime \<Rightarrow> 'c \<Rightarrow> time_point \<Rightarrow> ('c, 's) Runtime \<Rightarrow> ('c, 's) Runtime"

text \<open>The loop over the expired callbacks; a callback is removed before it is called, since it may change the queue.  The loop does not end when
  callbacks keep scheduling expired ones.\<close>

partial_function (option) trigger_loop :: "('c, 's) exec \<Rightarrow> simtime \<Rightarrow> ('c, 's) Runtime \<Rightarrow> ('c, 's) Runtime option" where
  "trigger_loop exec sim r =
     (case mr_queue (rn_runtime r) of
        [] \<Rightarrow> Some r
      | entry # queue \<Rightarrow>
          if sc_deadline entry \<le> mr_now (rn_runtime r)
          then trigger_loop exec sim (exec sim (sc_callback entry) (sc_deadline entry) (r\<lparr>rn_runtime := (rn_runtime r)\<lparr>mr_queue := queue\<rparr>\<rparr>))
          else Some r)"

definition ManualRuntime_trigger :: "('c, 's) exec \<Rightarrow> simtime \<Rightarrow> time_point \<Rightarrow> ('c, 's) Runtime \<Rightarrow> ('c, 's) Runtime result option" where
  "ManualRuntime_trigger exec sim tp r =
     (if tp \<ge> mr_now (rn_runtime r) then map_option Inr (trigger_loop exec sim (r\<lparr>rn_runtime := (rn_runtime r)\<lparr>mr_now := tp\<rparr>\<rparr>))
      else Some (Inl AssertionFailed))"

text \<open>A reset calls every callback once; what they schedule goes to the emptied queue.\<close>

definition ManualRuntime_reset :: "('c, 's) exec \<Rightarrow> simtime \<Rightarrow> time_point \<Rightarrow> ('c, 's) Runtime \<Rightarrow> ('c, 's) Runtime" where
  "ManualRuntime_reset exec sim tp r =
     fold (\<lambda>e. exec sim (sc_callback e) (sc_deadline e)) (mr_queue (rn_runtime r)) (r\<lparr>rn_runtime := \<lparr>mr_now = tp, mr_queue = []\<rparr>\<rparr>)"

definition convertSimTime :: "simtime \<Rightarrow> ('c, 's) Runtime \<Rightarrow> time_point \<Rightarrow> simtime" where
  "convertSimTime sim r tp = simtime_us (in_us sim + (tp - mr_now (rn_runtime r)))"

text \<open>\<open>schedule()\<close>: expired callbacks run at once, then the update event is set to the next deadline.\<close>

partial_function (option) Runtime_schedule_update :: "('c, 's) exec \<Rightarrow> simtime \<Rightarrow> ('c, 's) Runtime \<Rightarrow> ('c, 's) Runtime option" where
  "Runtime_schedule_update exec sim r =
     (let next_event = ManualRuntime_next (rn_runtime r)
      in if next_event < time_point_max then
           if next_event > mr_now (rn_runtime r) then Some (r\<lparr>rn_update := Some (convertSimTime sim r next_event)\<rparr>)
           else (case trigger_loop exec sim r of Some r' \<Rightarrow> Runtime_schedule_update exec sim r' | None \<Rightarrow> None)
         else Some r)"

definition Runtime_schedule :: "('c, 's) exec \<Rightarrow> simtime \<Rightarrow> time_point \<Rightarrow> 'c \<Rightarrow> nat option \<Rightarrow> ('c, 's) Runtime \<Rightarrow> ('c, 's) Runtime option" where
  "Runtime_schedule exec sim tp cb scope r = Runtime_schedule_update exec sim (r\<lparr>rn_runtime := ManualRuntime_schedule tp cb scope (rn_runtime r)\<rparr>)"

definition Runtime_schedule_in :: "('c, 's) exec \<Rightarrow> simtime \<Rightarrow> int \<Rightarrow> 'c \<Rightarrow> nat option \<Rightarrow> ('c, 's) Runtime \<Rightarrow> ('c, 's) Runtime option" where
  "Runtime_schedule_in exec sim d cb scope r = Runtime_schedule_update exec sim (r\<lparr>rn_runtime := ManualRuntime_schedule_in d cb scope (rn_runtime r)\<rparr>)"

definition Runtime_cancel :: "('c, 's) exec \<Rightarrow> simtime \<Rightarrow> nat option \<Rightarrow> ('c, 's) Runtime \<Rightarrow> ('c, 's) Runtime option" where
  "Runtime_cancel exec sim scope r = Runtime_schedule_update exec sim (r\<lparr>rn_runtime := ManualRuntime_cancel scope (rn_runtime r)\<rparr>)"

definition Runtime_update :: "('c, 's) exec \<Rightarrow> simtime \<Rightarrow> ('c, 's) Runtime \<Rightarrow> ('c, 's) Runtime result option" where
  "Runtime_update exec sim r = ManualRuntime_trigger exec sim (Timer_getCurrentTime (rn_timer r) sim) (r\<lparr>rn_last := sim\<rparr>)"

definition Runtime_now :: "('c, 's) exec \<Rightarrow> simtime \<Rightarrow> ('c, 's) Runtime \<Rightarrow> (time_point \<times> ('c, 's) Runtime) result option" where
  "Runtime_now exec sim r =
     (if rn_last r \<noteq> sim then
        if convertSimTime sim r (ManualRuntime_next (rn_runtime r)) > sim
        then map_option (rmap (\<lambda>r. (mr_now (rn_runtime r), r))) (Runtime_update exec sim r)
        else Some (Inl AssertionFailed)
      else Some (Inr (mr_now (rn_runtime r), r)))"

text \<open>The update event arrives: it is not scheduled any more.\<close>

definition Runtime_handleMessage :: "('c, 's) exec \<Rightarrow> simtime \<Rightarrow> ('c, 's) Runtime \<Rightarrow> ('c, 's) Runtime result option" where
  "Runtime_handleMessage exec sim r =
     (case Runtime_update exec sim (r\<lparr>rn_update := None\<rparr>) of
        Some (Inr r) \<Rightarrow> map_option Inr (Runtime_schedule_update exec sim r)
      | Some (Inl e) \<Rightarrow> Some (Inl e)
      | None \<Rightarrow> None)"

definition Runtime_initialize :: "Timer \<Rightarrow> simtime \<Rightarrow> 's \<Rightarrow> ('c, 's) Runtime" where
  "Runtime_initialize timer sim client =
     \<lparr>rn_timer = timer, rn_runtime = \<lparr>mr_now = Timer_getCurrentTime timer sim, mr_queue = []\<rparr>, rn_update = None, rn_last = sim, rn_client = client\<rparr>"

section \<open>Lemmas on the queue\<close>

definition queue_sorted :: "'c ScheduledCallback list \<Rightarrow> bool" where
  "queue_sorted es \<longleftrightarrow> sorted (map sc_deadline es)"

lemma set_emplace: "set (emplace e es) = insert e (set es)"
  by (induction e es rule: emplace.induct) auto

lemma emplace_sorted: "queue_sorted es \<Longrightarrow> queue_sorted (emplace e es)"
  by (induction e es rule: emplace.induct) (auto simp: queue_sorted_def set_emplace)

lemma emplace_stable: "queue_sorted es \<Longrightarrow> emplace e es = filter (\<lambda>x. sc_deadline x \<le> sc_deadline e) es @ e # filter (\<lambda>x. \<not> sc_deadline x \<le> sc_deadline e) es"
proof (induction e es rule: emplace.induct)
  case (2 e x xs)
  show ?case
  proof (cases "sc_deadline x \<le> sc_deadline e")
    case True
    then show ?thesis using 2 by (simp add: queue_sorted_def)
  next
    case False
    then have "\<forall>y \<in> set xs. \<not> sc_deadline y \<le> sc_deadline e" using 2(2) by (auto simp: queue_sorted_def)
    then have "filter (\<lambda>x. sc_deadline x \<le> sc_deadline e) xs = []" "filter (\<lambda>x. \<not> sc_deadline x \<le> sc_deadline e) xs = xs" by (auto simp: filter_empty_conv filter_id_conv)
    then show ?thesis using False by simp
  qed
qed simp

lemma queue_sorted_filter: "queue_sorted es \<Longrightarrow> queue_sorted (filter P es)"
  by (simp add: queue_sorted_def sorted_filter)

definition due :: "('c, 's) Runtime \<Rightarrow> nat" where
  "due r = length (filter (\<lambda>e. sc_deadline e \<le> mr_now (rn_runtime r)) (mr_queue (rn_runtime r)))"

definition runtime_wf :: "('c, 's) Runtime \<Rightarrow> bool" where
  "runtime_wf r \<longleftrightarrow> queue_sorted (mr_queue (rn_runtime r)) \<and> (\<forall>e \<in> set (mr_queue (rn_runtime r)). sc_deadline e < time_point_max)"

text \<open>What the callbacks have to keep: an invariant \<open>ok\<close> of the runtime with its clients, the clock, and a potential.  The potential counts how many more
  expired callbacks the clients may schedule before they are done, so that the loops over the expired callbacks end.  The
  clock may advance up to \<open>horizon\<close>.\<close>

locale callbacks =
  fixes exec :: "('c, 's) exec"
    and ok :: "('c, 's) Runtime \<Rightarrow> bool"
    and potential :: "'s \<Rightarrow> nat"
    and horizon :: time_point
  assumes ok_wf: "ok r \<Longrightarrow> runtime_wf r"
    and ok_pop: "ok r \<Longrightarrow> mr_queue (rn_runtime r) = entry # queue \<Longrightarrow> ok (r\<lparr>rn_runtime := (rn_runtime r)\<lparr>mr_queue := queue\<rparr>\<rparr>)"
    and ok_update: "ok (r\<lparr>rn_update := u\<rparr>) = ok r"
    and ok_last: "ok (r\<lparr>rn_last := l\<rparr>) = ok r"
    and ok_later: "ok r \<Longrightarrow> mr_now (rn_runtime r) \<le> tp \<Longrightarrow> tp \<le> horizon \<Longrightarrow> ok (r\<lparr>rn_runtime := (rn_runtime r)\<lparr>mr_now := tp\<rparr>\<rparr>)"
    and exec_ok: "ok r \<Longrightarrow> ok (exec sim cb tp r)"
    and exec_clock: "ok r \<Longrightarrow> mr_now (rn_runtime (exec sim cb tp r)) = mr_now (rn_runtime r)
          \<and> rn_timer (exec sim cb tp r) = rn_timer r \<and> rn_last (exec sim cb tp r) = rn_last r"
    and exec_potential: "ok r \<Longrightarrow> due (exec sim cb tp r) + potential (rn_client (exec sim cb tp r)) \<le> due r + potential (rn_client r)"
begin

lemma trigger_loop_total:
  "ok r \<Longrightarrow> \<exists>r'. trigger_loop exec sim r = Some r' \<and> ok r' \<and> due r' = 0 \<and> mr_now (rn_runtime r') = mr_now (rn_runtime r)
     \<and> rn_timer r' = rn_timer r \<and> rn_last r' = rn_last r"
proof (induction "due r + potential (rn_client r)" arbitrary: r rule: less_induct)
  case less
  show ?case
  proof (cases "mr_queue (rn_runtime r)")
    case Nil
    then show ?thesis using less.prems by (simp add: trigger_loop.simps due_def)
  next
    case (Cons entry queue)
    show ?thesis
    proof (cases "sc_deadline entry \<le> mr_now (rn_runtime r)")
      case True
      define r1 where "r1 = r\<lparr>rn_runtime := (rn_runtime r)\<lparr>mr_queue := queue\<rparr>\<rparr>"
      define r2 where "r2 = exec sim (sc_callback entry) (sc_deadline entry) r1"
      have ok1: "ok r1" using ok_pop [OF less.prems Cons] by (simp add: r1_def)
      have "due r1 + potential (rn_client r1) < due r + potential (rn_client r)" using Cons True by (simp add: due_def r1_def)
      then have "due r2 + potential (rn_client r2) < due r + potential (rn_client r)" using exec_potential [OF ok1] r2_def by (metis le_less_trans)
      moreover have "ok r2" using exec_ok [OF ok1] by (simp add: r2_def)
      ultimately obtain r' where "trigger_loop exec sim r2 = Some r'" "ok r'" "due r' = 0" "mr_now (rn_runtime r') = mr_now (rn_runtime r2)"
        "rn_timer r' = rn_timer r2" "rn_last r' = rn_last r2" using less.hyps by blast
      moreover have "trigger_loop exec sim r = trigger_loop exec sim r2"
        using Cons True by (subst trigger_loop.simps) (simp add: r1_def r2_def)
      ultimately show ?thesis using exec_clock [OF ok1] by (auto simp: r1_def r2_def)
    next
      case False
      have "\<forall>e \<in> set queue. sc_deadline entry \<le> sc_deadline e" using ok_wf [OF less.prems] Cons by (simp add: runtime_wf_def queue_sorted_def)
      then have "due r = 0" using Cons False by (auto simp: due_def filter_empty_conv)
      moreover have "trigger_loop exec sim r = Some r" using Cons False by (subst trigger_loop.simps) simp
      ultimately show ?thesis using less.prems by simp
    qed
  qed
qed

text \<open>The update event is set to the next deadline as the current time of the runtime sees it.\<close>

lemma schedule_update_quiet:
  assumes "ok r" and "due r = 0"
  shows "\<exists>r'. Runtime_schedule_update exec sim r = Some r' \<and> ok r' \<and> due r' = 0 \<and> mr_now (rn_runtime r') = mr_now (rn_runtime r)
     \<and> rn_timer r' = rn_timer r \<and> rn_last r' = rn_last r
     \<and> (mr_queue (rn_runtime r') \<noteq> [] \<longrightarrow> rn_update r' = Some (convertSimTime sim r' (ManualRuntime_next (rn_runtime r'))))"
proof (cases "mr_queue (rn_runtime r)")
  case Nil
  then show ?thesis using assms by (subst Runtime_schedule_update.simps) (simp add: ManualRuntime_next_def)
next
  case (Cons entry queue)
  then have "sc_deadline entry < time_point_max" "\<not> sc_deadline entry \<le> mr_now (rn_runtime r)"
    using assms(2) ok_wf [OF assms(1)] by (auto simp: runtime_wf_def due_def split: if_splits)
  then show ?thesis using assms Cons
    by (subst Runtime_schedule_update.simps) (simp add: ManualRuntime_next_def due_def convertSimTime_def ok_update)
qed

lemma schedule_update_total:
  assumes "ok r"
  shows "\<exists>r'. Runtime_schedule_update exec sim r = Some r' \<and> ok r' \<and> due r' = 0 \<and> mr_now (rn_runtime r') = mr_now (rn_runtime r)
     \<and> rn_timer r' = rn_timer r \<and> rn_last r' = rn_last r
     \<and> (mr_queue (rn_runtime r') \<noteq> [] \<longrightarrow> rn_update r' = Some (convertSimTime sim r' (ManualRuntime_next (rn_runtime r'))))"
proof (cases "due r = 0")
  case True
  then show ?thesis using schedule_update_quiet assms by blast
next
  case False
  note wf = ok_wf [OF assms]
  obtain r1 where r1: "trigger_loop exec sim r = Some r1" "ok r1" "due r1 = 0" "mr_now (rn_runtime r1) = mr_now (rn_runtime r)" "rn_timer r1 = rn_timer r"
    "rn_last r1 = rn_last r" using trigger_loop_total [OF assms] by blast
  obtain entry queue where q: "mr_queue (rn_runtime r) = entry # queue" using False by (cases "mr_queue (rn_runtime r)") (auto simp: due_def)
  then have "sc_deadline entry < time_point_max" using wf by (simp add: runtime_wf_def)
  moreover have "sc_deadline entry \<le> mr_now (rn_runtime r)"
  proof (rule ccontr)
    assume "\<not> sc_deadline entry \<le> mr_now (rn_runtime r)"
    moreover have "\<forall>e \<in> set queue. sc_deadline entry \<le> sc_deadline e" using wf q by (simp add: runtime_wf_def queue_sorted_def)
    ultimately have "due r = 0" using q by (auto simp: due_def filter_empty_conv)
    with False show False by simp
  qed
  ultimately have "Runtime_schedule_update exec sim r = Runtime_schedule_update exec sim r1"
    using r1(1) q by (subst Runtime_schedule_update.simps) (simp add: ManualRuntime_next_def)
  then show ?thesis using schedule_update_quiet [OF r1(2,3), of sim] r1 by auto
qed

end

section \<open>Punctuality\<close>

text \<open>The runtime's clock shows the time of the simulation, no callback is overdue, and the update event is set to the next deadline.\<close>

definition runtime_synced :: "simtime \<Rightarrow> ('c, 's) Runtime \<Rightarrow> bool" where
  "runtime_synced sim r \<longleftrightarrow> mr_now (rn_runtime r) = Timer_getCurrentTime (rn_timer r) sim \<and> due r = 0
     \<and> (mr_queue (rn_runtime r) \<noteq> [] \<longrightarrow> rn_update r = Some (convertSimTime sim r (ManualRuntime_next (rn_runtime r))))"

lemma convert_punctual:
  "mr_now (rn_runtime r) = Timer_getCurrentTime (rn_timer r) sim \<Longrightarrow> Timer_getCurrentTime (rn_timer r) (convertSimTime sim r tp) = tp"
  by (simp add: convertSimTime_def Timer_getCurrentTime_def Timer_getTimeFor_sim_def)

lemma convert_later: "0 \<le> sim \<Longrightarrow> mr_now (rn_runtime r) < tp \<Longrightarrow> sim < convertSimTime sim r tp"
proof -
  assume "0 \<le> sim" and "mr_now (rn_runtime r) < tp"
  then have "in_us sim + 1 \<le> in_us sim + (tp - mr_now (rn_runtime r))" by simp
  moreover have "sim < simtime_us (in_us sim + 1)"
    using \<open>0 \<le> sim\<close> by (simp add: in_us_def simtime_us_def)
  ultimately show ?thesis unfolding convertSimTime_def simtime_us_def by (smt (verit) mult_right_mono)
qed

context callbacks
begin

lemma update_total:
  assumes "ok r" and "mr_now (rn_runtime r) \<le> Timer_getCurrentTime (rn_timer r) sim" and "Timer_getCurrentTime (rn_timer r) sim \<le> horizon"
  shows "\<exists>r'. Runtime_update exec sim r = Some (Inr r') \<and> ok r' \<and> due r' = 0 \<and> mr_now (rn_runtime r') = Timer_getCurrentTime (rn_timer r) sim
    \<and> rn_timer r' = rn_timer r \<and> rn_last r' = sim"
proof -
  let ?tp = "Timer_getCurrentTime (rn_timer r) sim"
  let ?r1 = "r\<lparr>rn_last := sim, rn_runtime := (rn_runtime r)\<lparr>mr_now := ?tp\<rparr>\<rparr>"
  have "ok ?r1" using ok_later [of "r\<lparr>rn_last := sim\<rparr>" ?tp] assms by (simp add: ok_last)
  from trigger_loop_total [OF this, of sim] show ?thesis
    using assms(2) by (auto simp: Runtime_update_def ManualRuntime_trigger_def)
qed

lemma schedule_update_synced:
  assumes "ok r" and "mr_now (rn_runtime r) = Timer_getCurrentTime (rn_timer r) sim"
  shows "\<exists>r'. Runtime_schedule_update exec sim r = Some r' \<and> ok r' \<and> runtime_synced sim r'"
  using schedule_update_total [OF assms(1), of sim] assms(2) by (auto simp: runtime_synced_def)

lemma handle_synced:
  assumes "ok r" and "runtime_synced sim r" and "0 \<le> sim" and "mr_queue (rn_runtime r) \<noteq> []" and "ManualRuntime_next (rn_runtime r) \<le> horizon"
  shows "\<exists>sim' r'. rn_update r = Some sim' \<and> sim < sim' \<and> Timer_getCurrentTime (rn_timer r) sim' = ManualRuntime_next (rn_runtime r)
    \<and> Runtime_handleMessage exec sim' r = Some (Inr r') \<and> ok r' \<and> runtime_synced sim' r'"
proof -
  let ?next = "ManualRuntime_next (rn_runtime r)"
  let ?sim' = "convertSimTime sim r ?next"
  have up: "rn_update r = Some ?sim'" and now: "mr_now (rn_runtime r) = Timer_getCurrentTime (rn_timer r) sim"
    using assms(2,4) by (simp_all add: runtime_synced_def)
  have later: "mr_now (rn_runtime r) < ?next"
    using assms(2,4) by (cases "mr_queue (rn_runtime r)") (auto simp: runtime_synced_def due_def ManualRuntime_next_def split: if_splits)
  have tp: "Timer_getCurrentTime (rn_timer r) ?sim' = ?next" by (rule convert_punctual [OF now])
  have "\<exists>r1. Runtime_update exec ?sim' (r\<lparr>rn_update := None\<rparr>) = Some (Inr r1) \<and> ok r1 \<and> mr_now (rn_runtime r1) = Timer_getCurrentTime (rn_timer r1) ?sim'"
    using update_total [of "r\<lparr>rn_update := None\<rparr>" ?sim'] assms(1,5) later tp by (auto simp: ok_update)
  then obtain r1 where r1: "Runtime_update exec ?sim' (r\<lparr>rn_update := None\<rparr>) = Some (Inr r1)" "ok r1"
    "mr_now (rn_runtime r1) = Timer_getCurrentTime (rn_timer r1) ?sim'" by blast
  obtain r' where "Runtime_schedule_update exec ?sim' r1 = Some r'" "ok r'" "runtime_synced ?sim' r'"
    using schedule_update_synced [OF r1(2,3)] by blast
  with r1(1) up tp convert_later [OF assms(3) later] show ?thesis by (auto simp: Runtime_handleMessage_def)
qed

end

text \<open>A client that records the callbacks it gets.\<close>

definition log_exec :: "('c, (time_point \<times> 'c) list) exec" where
  "log_exec sim cb tp r = r\<lparr>rn_client := rn_client r @ [(tp, cb)]\<rparr>"

text \<open>Expired callbacks are called in the order of their deadlines, those with equal deadlines in the order of their scheduling; the others stay.\<close>

theorem expired_in_order:
  assumes "queue_sorted (mr_queue (rn_runtime r))"
  shows "\<exists>r'. trigger_loop log_exec sim r = Some r'
    \<and> rn_client r' = rn_client r @ map (\<lambda>e. (sc_deadline e, sc_callback e)) (filter (\<lambda>e. sc_deadline e \<le> mr_now (rn_runtime r)) (mr_queue (rn_runtime r)))
    \<and> mr_queue (rn_runtime r') = filter (\<lambda>e. \<not> sc_deadline e \<le> mr_now (rn_runtime r)) (mr_queue (rn_runtime r))"
  using assms
proof (induction "mr_queue (rn_runtime r)" arbitrary: r)
  case Nil
  then show ?case by (subst trigger_loop.simps) (simp split: list.splits)
next
  case (Cons entry queue)
  note q = Cons.hyps(2) [symmetric]
  show ?case
  proof (cases "sc_deadline entry \<le> mr_now (rn_runtime r)")
    case True
    let ?r1 = "log_exec sim (sc_callback entry) (sc_deadline entry) (r\<lparr>rn_runtime := (rn_runtime r)\<lparr>mr_queue := queue\<rparr>\<rparr>)"
    have "trigger_loop log_exec sim r = trigger_loop log_exec sim ?r1" using q True by (subst trigger_loop.simps) simp
    then show ?thesis using Cons.hyps(1) [of ?r1] Cons.prems q True by (simp add: log_exec_def queue_sorted_def)
  next
    case False
    then have "\<forall>e \<in> set queue. \<not> sc_deadline e \<le> mr_now (rn_runtime r)" using Cons.prems q by (auto simp: queue_sorted_def)
    then have "filter (\<lambda>e. sc_deadline e \<le> mr_now (rn_runtime r)) queue = []" "filter (\<lambda>e. \<not> sc_deadline e \<le> mr_now (rn_runtime r)) queue = queue"
      by (auto simp: filter_empty_conv filter_id_conv)
    then show ?thesis using q False by (subst trigger_loop.simps) (simp del: not_le)
  qed
qed

text \<open>The runtime of a station that scheduled two callbacks at the start, for 100 and for 200 milliseconds.\<close>

definition two_callbacks :: "(string, (time_point \<times> string) list) Runtime" where
  "two_callbacks = \<lparr>rn_timer = \<lparr>mTimebase = 0\<rparr>, rn_runtime = \<lparr>mr_now = 0, mr_queue =
     [\<lparr>sc_deadline = 100000, sc_callback = ''first'', sc_scope = Some 1\<rparr>, \<lparr>sc_deadline = 200000, sc_callback = ''second'', sc_scope = Some 2\<rparr>]\<rparr>,
     rn_update = Some (simtime_ms 100), rn_last = 0, rn_client = []\<rparr>"

text \<open>Cancelling does not bring the clock up to date first: the next deadline is converted from the old clock reading, so cancelling one callback after
  50 milliseconds puts off the other one by those 50 milliseconds.\<close>

theorem cancel_delays_callbacks:
  "runtime_synced 0 two_callbacks \<and> map_option rn_update (Runtime_cancel log_exec (simtime_ms 50) (Some 2) two_callbacks) = Some (Some (simtime_ms 150))"
proof
  show "runtime_synced 0 two_callbacks"
    by (simp add: runtime_synced_def two_callbacks_def due_def convertSimTime_def ManualRuntime_next_def Timer_getCurrentTime_def Timer_getTimeFor_sim_def
        in_us_def simtime_us_def simtime_ms_def)
  show "map_option rn_update (Runtime_cancel log_exec (simtime_ms 50) (Some 2) two_callbacks) = Some (Some (simtime_ms 150))"
    unfolding Runtime_cancel_def
    by (subst Runtime_schedule_update.simps)
      (simp add: two_callbacks_def ManualRuntime_cancel_def ManualRuntime_next_def time_point_max_def convertSimTime_def in_us_def simtime_us_def simtime_ms_def)
qed

theorem expired_in_order_witness:
  "\<exists>r'. trigger_loop log_exec 0 (two_callbacks\<lparr>rn_runtime := (rn_runtime two_callbacks)\<lparr>mr_now := 100000\<rparr>\<rparr>) = Some r' \<and> rn_client r' = [(100000, ''first'')]"
  using expired_in_order [of "two_callbacks\<lparr>rn_runtime := (rn_runtime two_callbacks)\<lparr>mr_now := 100000\<rparr>\<rparr>" 0]
  by (auto simp: two_callbacks_def queue_sorted_def)

end
