(* ===== verification/SoftStates.thy ===== *)
theory SoftStates
  imports GnCodec Runtimes
begin

text \<open>
  Containers of GeoNetworking whose entries fade: \<open>vanetza/geonet/soft_state_map\<close>, a map with expiring entries, and \<open>duplicate_packet_list\<close>, the last
  sequence numbers of a source.  The map stores a handle to the node of a heap with every value; the refinement shows it to be a plain map to values with
  expiry times.  Which of several earliest nodes the heap has on top is a parameter.
\<close>

section \<open>The map\<close>

record 'k ExpiryWithKey =
  ew_expiry :: time_point
  ew_key :: 'k

record 'v ValueWithHandle =
  vh_handle :: nat
  vh_value :: 'v

text \<open>\<open>ss_fresh\<close> is the next handle of the heap; the order of \<open>ss_map\<close> is the order in which the hash map is visited.\<close>

record ('k, 'v) SoftStateMap =
  ss_lifetime :: int
  ss_heap :: "(nat \<times> 'k ExpiryWithKey) list"
  ss_fresh :: nat
  ss_map :: "('k \<times> 'v ValueWithHandle) list"

definition SoftStateMap_new :: "int \<Rightarrow> ('k, 'v) SoftStateMap" where
  "SoftStateMap_new lifetime = \<lparr>ss_lifetime = lifetime, ss_heap = [], ss_fresh = 0, ss_map = []\<rparr>"

definition get_data_ptr :: "'k \<Rightarrow> ('k, 'v) SoftStateMap \<Rightarrow> 'v ValueWithHandle option" where
  "get_data_ptr key m = map_of (ss_map m) key"

definition is_expired :: "time_point \<Rightarrow> 'k ExpiryWithKey \<Rightarrow> bool" where
  "is_expired now expiry \<longleftrightarrow> now > ew_expiry expiry"

text \<open>Dereferencing a handle; by the invariant below every handle of the map has a node.\<close>

definition handle_expired :: "time_point \<Rightarrow> nat \<Rightarrow> ('k, 'v) SoftStateMap \<Rightarrow> bool" where
  "handle_expired now h m = (case map_of (ss_heap m) h of Some e \<Rightarrow> is_expired now e | None \<Rightarrow> False)"

definition refresh_handle :: "time_point \<Rightarrow> nat \<Rightarrow> ('k, 'v) SoftStateMap \<Rightarrow> ('k, 'v) SoftStateMap" where
  "refresh_handle now h m = m\<lparr>ss_heap := map (\<lambda>(h', e). (h', if h' = h then e\<lparr>ew_expiry := now + ss_lifetime m\<rparr> else e)) (ss_heap m)\<rparr>"

definition create_data :: "time_point \<Rightarrow> 'v \<Rightarrow> 'k \<Rightarrow> ('k, 'v) SoftStateMap \<Rightarrow> ('k, 'v) SoftStateMap" where
  "create_data now created key m = m\<lparr>ss_map := (key, \<lparr>vh_handle = ss_fresh m, vh_value = created\<rparr>) # ss_map m,
     ss_heap := (ss_fresh m, \<lparr>ew_expiry = now + ss_lifetime m, ew_key = key\<rparr>) # ss_heap m, ss_fresh := ss_fresh m + 1\<rparr>"

definition get_data :: "time_point \<Rightarrow> 'v \<Rightarrow> 'k \<Rightarrow> ('k, 'v) SoftStateMap \<Rightarrow> ('k, 'v) SoftStateMap" where
  "get_data now created key m =
     (case get_data_ptr key m of
        None \<Rightarrow> create_data now created key m
      | Some data \<Rightarrow> if handle_expired now (vh_handle data) m then refresh_handle now (vh_handle data) m else m)"

definition get_value_ptr :: "time_point \<Rightarrow> 'k \<Rightarrow> ('k, 'v) SoftStateMap \<Rightarrow> 'v option" where
  "get_value_ptr now key m =
     (case get_data_ptr key m of Some data \<Rightarrow> if \<not> handle_expired now (vh_handle data) m then Some (vh_value data) else None | None \<Rightarrow> None)"

definition has_value :: "time_point \<Rightarrow> 'k \<Rightarrow> ('k, 'v) SoftStateMap \<Rightarrow> bool" where
  "has_value now key m \<longleftrightarrow> get_value_ptr now key m \<noteq> None"

definition ss_refresh :: "time_point \<Rightarrow> 'v \<Rightarrow> 'k \<Rightarrow> ('k, 'v) SoftStateMap \<Rightarrow> ('k, 'v) SoftStateMap" where
  "ss_refresh now created key m =
     (case get_data_ptr key m of Some data \<Rightarrow> refresh_handle now (vh_handle data) m | None \<Rightarrow> get_data now created key m)"

text \<open>A value is changed through the reference the operations return.\<close>

definition ss_modify :: "('v \<Rightarrow> 'v) \<Rightarrow> 'k \<Rightarrow> ('k, 'v) SoftStateMap \<Rightarrow> ('k, 'v) SoftStateMap" where
  "ss_modify f key m = m\<lparr>ss_map := map (\<lambda>(k, d). (k, if k = key then d\<lparr>vh_value := f (vh_value d)\<rparr> else d)) (ss_map m)\<rparr>"

text \<open>The value behind a reference to an entry that exists, expired or not.\<close>

definition ss_value :: "'k \<Rightarrow> ('k, 'v) SoftStateMap \<Rightarrow> 'v option" where
  "ss_value key m = map_option vh_value (get_data_ptr key m)"

type_synonym 'k heap_top = "(nat \<times> 'k ExpiryWithKey) list \<Rightarrow> nat \<times> 'k ExpiryWithKey"

partial_function (option) ss_drop_expired :: "'k heap_top \<Rightarrow> time_point \<Rightarrow> ('k, 'v) SoftStateMap \<Rightarrow> ('k, 'v) SoftStateMap option" where
  "ss_drop_expired heap_top now m =
     (if ss_heap m = [] then Some m
      else let top = heap_top (ss_heap m)
           in if is_expired now (snd top)
              then ss_drop_expired heap_top now (m\<lparr>ss_map := filter (\<lambda>(k, d). k \<noteq> ew_key (snd top)) (ss_map m),
                     ss_heap := filter (\<lambda>(h, e). h \<noteq> fst top) (ss_heap m)\<rparr>)
              else Some m)"

definition map_range :: "time_point \<Rightarrow> ('k, 'v) SoftStateMap \<Rightarrow> ('k \<times> 'v) list" where
  "map_range now m = map (\<lambda>(k, d). (k, vh_value d)) (filter (\<lambda>(k, d). \<not> handle_expired now (vh_handle d) m) (ss_map m))"

section \<open>Duplicate packet lists\<close>

record ListElement =
  dp_sequence_number :: SequenceNumber
  dp_counter :: "32 word"

record DuplicatePacketList =
  dp_capacity :: nat
  dp_elements :: "ListElement list"

definition DuplicatePacketList_new :: "nat \<Rightarrow> DuplicatePacketList" where
  "DuplicatePacketList_new elements = \<lparr>dp_capacity = elements, dp_elements = []\<rparr>"

fun dp_find :: "SequenceNumber \<Rightarrow> ListElement list \<Rightarrow> ListElement option" where
  "dp_find sn [] = None"
| "dp_find sn (e # es) = (if dp_sequence_number e = sn then Some e else dp_find sn es)"

fun dp_increment :: "SequenceNumber \<Rightarrow> ListElement list \<Rightarrow> ListElement list" where
  "dp_increment sn [] = []"
| "dp_increment sn (e # es) = (if dp_sequence_number e = sn then e\<lparr>dp_counter := dp_counter e + 1\<rparr> # es else e # dp_increment sn es)"

text \<open>A full circular buffer drops its oldest element, one without capacity stays empty.\<close>

definition circular_push_back :: "nat \<Rightarrow> 'a \<Rightarrow> 'a list \<Rightarrow> 'a list" where
  "circular_push_back capacity x xs = (if capacity = 0 then xs else if length xs < capacity then xs @ [x] else tl xs @ [x])"

definition dp_check :: "SequenceNumber \<Rightarrow> DuplicatePacketList \<Rightarrow> bool \<times> DuplicatePacketList" where
  "dp_check sn l =
     (case dp_find sn (dp_elements l) of
        Some _ \<Rightarrow> (True, l\<lparr>dp_elements := dp_increment sn (dp_elements l)\<rparr>)
      | None \<Rightarrow> (False, l\<lparr>dp_elements := circular_push_back (dp_capacity l) \<lparr>dp_sequence_number = sn, dp_counter = 1\<rparr> (dp_elements l)\<rparr>))"

definition dp_counter_of :: "SequenceNumber \<Rightarrow> DuplicatePacketList \<Rightarrow> 32 word" where
  "dp_counter_of sn l = (case dp_find sn (dp_elements l) of Some e \<Rightarrow> dp_counter e | None \<Rightarrow> 0)"

section \<open>The invariant of the map\<close>

text \<open>Keys and handles are unique, and the nodes of the heap correspond to the entries of the map.\<close>

definition ss_inv :: "('k, 'v) SoftStateMap \<Rightarrow> bool" where
  "ss_inv m \<longleftrightarrow> distinct (map fst (ss_map m)) \<and> distinct (map fst (ss_heap m)) \<and> (\<forall>h \<in> fst ` set (ss_heap m). h < ss_fresh m)
     \<and> (\<forall>(k, d) \<in> set (ss_map m). \<exists>e. map_of (ss_heap m) (vh_handle d) = Some e \<and> ew_key e = k)
     \<and> (\<forall>(h, e) \<in> set (ss_heap m). \<exists>d. map_of (ss_map m) (ew_key e) = Some d \<and> vh_handle d = h)"

text \<open>The abstract map: expiry time and value of a key.\<close>

definition ss_abs :: "('k, 'v) SoftStateMap \<Rightarrow> 'k \<Rightarrow> (time_point \<times> 'v) option" where
  "ss_abs m k = (case map_of (ss_map m) k of Some d \<Rightarrow> map_option (\<lambda>e. (ew_expiry e, vh_value d)) (map_of (ss_heap m) (vh_handle d)) | None \<Rightarrow> None)"

definition top_minimal :: "'k heap_top \<Rightarrow> bool" where
  "top_minimal heap_top \<longleftrightarrow> (\<forall>es. es \<noteq> [] \<longrightarrow> heap_top es \<in> set es \<and> (\<forall>e \<in> set es. ew_expiry (snd (heap_top es)) \<le> ew_expiry (snd e)))"

lemma ss_invI:
  assumes "distinct (map fst (ss_map m))" and "distinct (map fst (ss_heap m))" and "\<And>h. h \<in> fst ` set (ss_heap m) \<Longrightarrow> h < ss_fresh m"
    and "\<And>k d. (k, d) \<in> set (ss_map m) \<Longrightarrow> \<exists>e. map_of (ss_heap m) (vh_handle d) = Some e \<and> ew_key e = k"
    and "\<And>h e. (h, e) \<in> set (ss_heap m) \<Longrightarrow> \<exists>d. map_of (ss_map m) (ew_key e) = Some d \<and> vh_handle d = h"
  shows "ss_inv m"
  using assms by (auto simp: ss_inv_def)

lemma ss_invD:
  assumes "ss_inv m"
  shows "distinct (map fst (ss_map m))" and "distinct (map fst (ss_heap m))" and "h \<in> fst ` set (ss_heap m) \<Longrightarrow> h < ss_fresh m"
    and "(k, d) \<in> set (ss_map m) \<Longrightarrow> \<exists>e. map_of (ss_heap m) (vh_handle d) = Some e \<and> ew_key e = k"
    and "(h, e) \<in> set (ss_heap m) \<Longrightarrow> \<exists>d. map_of (ss_map m) (ew_key e) = Some d \<and> vh_handle d = h"
  using assms by (auto simp: ss_inv_def)

lemma ss_abs_map: "ss_inv m \<Longrightarrow> map_of (ss_map m) k = Some d \<Longrightarrow> \<exists>e. map_of (ss_heap m) (vh_handle d) = Some e \<and> ew_key e = k \<and> ss_abs m k = Some (ew_expiry e, vh_value d)"
  by (fastforce simp: ss_inv_def ss_abs_def dest: map_of_SomeD)

lemma ss_abs_none: "ss_inv m \<Longrightarrow> ss_abs m k = None \<longleftrightarrow> map_of (ss_map m) k = None"
  using ss_abs_map [of m k] by (cases "map_of (ss_map m) k") (auto simp: ss_abs_def)

lemma handle_expired_abs: "ss_inv m \<Longrightarrow> map_of (ss_map m) k = Some d \<Longrightarrow> handle_expired now (vh_handle d) m \<longleftrightarrow> fst (the (ss_abs m k)) < now"
  using ss_abs_map [of m k d] by (auto simp: handle_expired_def is_expired_def)

lemma handles_unique:
  "ss_inv m \<Longrightarrow> map_of (ss_map m) k = Some d \<Longrightarrow> map_of (ss_map m) k' = Some d' \<Longrightarrow> vh_handle d = vh_handle d' \<Longrightarrow> k = k'"
  using ss_abs_map [of m k d] ss_abs_map [of m k' d'] by auto

lemma map_of_map_vals: "map_of (map (\<lambda>(k, v). (k, g k v)) xs) x = map_option (g x) (map_of xs x)"
  by (induction xs) auto

lemma map_fst_map_vals: "map fst (map (\<lambda>(k, v). (k, g k v)) xs) = map fst xs"
  by (simp add: case_prod_unfold comp_def)

lemma refresh_handle_heap:
  "map_of (ss_heap (refresh_handle now h m)) x = map_option (\<lambda>e. if x = h then e\<lparr>ew_expiry := now + ss_lifetime m\<rparr> else e) (map_of (ss_heap m) x)"
  unfolding refresh_handle_def by (simp add: map_of_map_vals [where g = "\<lambda>h' e. if h' = h then e\<lparr>ew_expiry := now + ss_lifetime m\<rparr> else e"])

lemma refresh_handle_keeps:
  "ss_map (refresh_handle now h m) = ss_map m" "ss_lifetime (refresh_handle now h m) = ss_lifetime m" "ss_fresh (refresh_handle now h m) = ss_fresh m"
  "map fst (ss_heap (refresh_handle now h m)) = map fst (ss_heap m)"
  using map_fst_map_vals [of "\<lambda>h' e. if h' = h then e\<lparr>ew_expiry := now + ss_lifetime m\<rparr> else e" "ss_heap m"] by (simp_all add: refresh_handle_def)

lemma refresh_handle_inv:
  assumes "ss_inv m"
  shows "ss_inv (refresh_handle now h m)"
proof (rule ss_invI)
  note keeps = refresh_handle_keeps [where m = m and now = now and h = h]
  show "distinct (map fst (ss_map (refresh_handle now h m)))" "distinct (map fst (ss_heap (refresh_handle now h m)))"
    using ss_invD(1,2) [OF assms] by (simp_all only: keeps)
  have f: "fst ` set (ss_heap (refresh_handle now h m)) = fst ` set (ss_heap m)" using keeps(4) by (metis list.set_map)
  show "x < ss_fresh (refresh_handle now h m)" if "x \<in> fst ` set (ss_heap (refresh_handle now h m))" for x
    using that ss_invD(3) [OF assms, of x] unfolding f keeps by simp
  show "\<exists>e. map_of (ss_heap (refresh_handle now h m)) (vh_handle d) = Some e \<and> ew_key e = k" if "(k, d) \<in> set (ss_map (refresh_handle now h m))" for k d
  proof -
    have "(k, d) \<in> set (ss_map m)" using that by (simp only: keeps)
    then obtain e where "map_of (ss_heap m) (vh_handle d) = Some e" "ew_key e = k" using ss_invD(4) [OF assms] by blast
    then show ?thesis unfolding refresh_handle_heap by simp
  qed
  show "\<exists>d. map_of (ss_map (refresh_handle now h m)) (ew_key e) = Some d \<and> vh_handle d = x" if "(x, e) \<in> set (ss_heap (refresh_handle now h m))" for x e
  proof -
    have "\<exists>e'. (x, e') \<in> set (ss_heap m) \<and> ew_key e' = ew_key e" using that by (auto simp: refresh_handle_def split: if_splits)
    then obtain e' where "(x, e') \<in> set (ss_heap m)" "ew_key e' = ew_key e" by blast
    then show ?thesis using ss_invD(5) [OF assms, of x e'] by (simp add: keeps)
  qed
qed

lemma refresh_handle_abs:
  assumes "ss_inv m" and "map_of (ss_map m) k = Some d"
  shows "ss_abs (refresh_handle now (vh_handle d) m) = (ss_abs m)(k \<mapsto> (now + ss_lifetime m, vh_value d))"
proof
  fix k'
  show "ss_abs (refresh_handle now (vh_handle d) m) k' = ((ss_abs m)(k \<mapsto> (now + ss_lifetime m, vh_value d))) k'"
  proof (cases "map_of (ss_map m) k'")
    case None
    then show ?thesis using assms(2) by (auto simp: ss_abs_def refresh_handle_keeps)
  next
    case (Some d')
    have "vh_handle d' = vh_handle d \<longleftrightarrow> k' = k" using handles_unique [OF assms(1) Some assms(2)] Some assms(2) by auto
    then show ?thesis using ss_abs_map [OF assms(1) Some] Some assms(2)
      by (cases "k' = k") (auto simp: ss_abs_def refresh_handle_keeps refresh_handle_heap)
  qed
qed

lemma create_data_inv:
  assumes "ss_inv m" and "map_of (ss_map m) k = None"
  shows "ss_inv (create_data now c k m)"
proof (rule ss_invI)
  have fresh: "ss_fresh m \<notin> fst ` set (ss_heap m)" using ss_invD(3) [OF assms(1)] by blast
  show "distinct (map fst (ss_map (create_data now c k m)))" "distinct (map fst (ss_heap (create_data now c k m)))"
    using ss_invD(1,2) [OF assms(1)] fresh assms(2) by (simp_all add: create_data_def map_of_eq_None_iff)
  show "h < ss_fresh (create_data now c k m)" if "h \<in> fst ` set (ss_heap (create_data now c k m))" for h
    using that ss_invD(3) [OF assms(1), of h] by (auto simp: create_data_def less_Suc_eq image_iff)
  show "\<exists>e. map_of (ss_heap (create_data now c k m)) (vh_handle d) = Some e \<and> ew_key e = k'" if "(k', d) \<in> set (ss_map (create_data now c k m))" for k' d
  proof (cases "(k', d) \<in> set (ss_map m)")
    case True
    then obtain e where e: "map_of (ss_heap m) (vh_handle d) = Some e" "ew_key e = k'" using ss_invD(4) [OF assms(1)] by blast
    then have "vh_handle d \<noteq> ss_fresh m" using fresh by (metis image_eqI fst_conv map_of_SomeD)
    then show ?thesis using e by (simp add: create_data_def)
  next
    case False
    then show ?thesis using that by (simp add: create_data_def)
  qed
  show "\<exists>d. map_of (ss_map (create_data now c k m)) (ew_key e) = Some d \<and> vh_handle d = h" if "(h, e) \<in> set (ss_heap (create_data now c k m))" for h e
  proof (cases "(h, e) \<in> set (ss_heap m)")
    case True
    then obtain d where d: "map_of (ss_map m) (ew_key e) = Some d" "vh_handle d = h" using ss_invD(5) [OF assms(1)] by blast
    then have "ew_key e \<noteq> k" using assms(2) by auto
    then show ?thesis using d by (simp add: create_data_def)
  next
    case False
    then show ?thesis using that by (simp add: create_data_def)
  qed
qed

lemma create_data_abs:
  assumes "ss_inv m" and "map_of (ss_map m) k = None"
  shows "ss_abs (create_data now c k m) = (ss_abs m)(k \<mapsto> (now + ss_lifetime m, c))"
proof
  fix k'
  have "vh_handle d \<noteq> ss_fresh m" if "map_of (ss_map m) k' = Some d" for d
    using ss_abs_map [OF assms(1) that] assms(1) by (fastforce simp: ss_inv_def dest: map_of_SomeD)
  then show "ss_abs (create_data now c k m) k' = ((ss_abs m)(k \<mapsto> (now + ss_lifetime m, c))) k'"
    by (auto simp: ss_abs_def create_data_def split: option.splits)
qed


lemma modify_map: "map_of (ss_map (ss_modify f key m)) k = map_option (\<lambda>d. if k = key then d\<lparr>vh_value := f (vh_value d)\<rparr> else d) (map_of (ss_map m) k)"
  unfolding ss_modify_def by (simp add: map_of_map_vals [where g = "\<lambda>k d. if k = key then d\<lparr>vh_value := f (vh_value d)\<rparr> else d"])

lemma modify_keeps:
  "ss_heap (ss_modify f key m) = ss_heap m" "ss_lifetime (ss_modify f key m) = ss_lifetime m" "ss_fresh (ss_modify f key m) = ss_fresh m"
  "map fst (ss_map (ss_modify f key m)) = map fst (ss_map m)"
  using map_fst_map_vals [of "\<lambda>k d. if k = key then d\<lparr>vh_value := f (vh_value d)\<rparr> else d" "ss_map m"] by (simp_all add: ss_modify_def)

lemma modify_inv:
  assumes "ss_inv m"
  shows "ss_inv (ss_modify f key m)"
proof (rule ss_invI)
  note keeps = modify_keeps [where f = f and key = key and m = m]
  show "distinct (map fst (ss_map (ss_modify f key m)))" "distinct (map fst (ss_heap (ss_modify f key m)))"
    using ss_invD(1,2) [OF assms] by (simp_all only: keeps)
  show "h < ss_fresh (ss_modify f key m)" if "h \<in> fst ` set (ss_heap (ss_modify f key m))" for h
    using that ss_invD(3) [OF assms, of h] by (simp only: keeps)
  show "\<exists>e. map_of (ss_heap (ss_modify f key m)) (vh_handle d) = Some e \<and> ew_key e = k" if "(k, d) \<in> set (ss_map (ss_modify f key m))" for k d
  proof -
    have "\<exists>d'. (k, d') \<in> set (ss_map m) \<and> vh_handle d' = vh_handle d" using that by (auto simp: ss_modify_def split: if_splits)
    then obtain d' where "(k, d') \<in> set (ss_map m)" "vh_handle d' = vh_handle d" by blast
    then show ?thesis using ss_invD(4) [OF assms, of k d'] by (simp add: keeps)
  qed
  show "\<exists>d. map_of (ss_map (ss_modify f key m)) (ew_key e) = Some d \<and> vh_handle d = h" if "(h, e) \<in> set (ss_heap (ss_modify f key m))" for h e
  proof -
    have "(h, e) \<in> set (ss_heap m)" using that by (simp only: keeps)
    then obtain d where "map_of (ss_map m) (ew_key e) = Some d" "vh_handle d = h" using ss_invD(5) [OF assms] by blast
    then show ?thesis unfolding modify_map by simp
  qed
qed

lemma modify_abs: "ss_abs (ss_modify f key m) k = map_option (\<lambda>(e, v). (e, if k = key then f v else v)) (ss_abs m k)"
  by (auto simp: ss_abs_def modify_map modify_keeps option.map_comp comp_def split: option.splits)

lemma get_data_correct:
  assumes "ss_inv m"
  shows "ss_inv (get_data now c k m) \<and> ss_lifetime (get_data now c k m) = ss_lifetime m
    \<and> ss_abs (get_data now c k m) = (ss_abs m)(k \<mapsto> (case ss_abs m k of None \<Rightarrow> (now + ss_lifetime m, c) | Some (e, v) \<Rightarrow> (if now > e then now + ss_lifetime m else e, v)))"
proof (cases "map_of (ss_map m) k")
  case None
  then show ?thesis using create_data_inv [OF assms None] create_data_abs [OF assms None] ss_abs_none [OF assms, of k]
    by (simp add: get_data_def get_data_ptr_def) (simp add: create_data_def)
next
  case (Some d)
  obtain e where "map_of (ss_heap m) (vh_handle d) = Some e" and e: "ss_abs m k = Some (ew_expiry e, vh_value d)" using ss_abs_map [OF assms Some] by blast
  then have x: "handle_expired now (vh_handle d) m \<longleftrightarrow> ew_expiry e < now" using handle_expired_abs [OF assms Some] by simp
  show ?thesis
  proof (cases "ew_expiry e < now")
    case True
    then show ?thesis using Some e x refresh_handle_inv [OF assms] refresh_handle_abs [OF assms Some, of now]
      by (simp add: get_data_def get_data_ptr_def refresh_handle_keeps)
  next
    case False
    then show ?thesis using Some e x assms by (auto simp: get_data_def get_data_ptr_def)
  qed
qed

lemma refresh_correct:
  assumes "ss_inv m"
  shows "ss_inv (ss_refresh now c k m) \<and> ss_lifetime (ss_refresh now c k m) = ss_lifetime m
    \<and> ss_abs (ss_refresh now c k m) = (ss_abs m)(k \<mapsto> (now + ss_lifetime m, case ss_abs m k of None \<Rightarrow> c | Some (e, v) \<Rightarrow> v))"
proof (cases "map_of (ss_map m) k")
  case None
  then show ?thesis using get_data_correct [OF assms, of now c k] ss_abs_none [OF assms, of k] by (simp add: ss_refresh_def get_data_ptr_def)
next
  case (Some d)
  then show ?thesis using ss_abs_map [OF assms Some] refresh_handle_inv [OF assms] refresh_handle_abs [OF assms Some, of now]
    by (auto simp: ss_refresh_def get_data_ptr_def refresh_handle_keeps)
qed

lemma get_value_ptr_abs: "ss_inv m \<Longrightarrow> get_value_ptr now k m = (case ss_abs m k of Some (e, v) \<Rightarrow> if now > e then None else Some v | None \<Rightarrow> None)"
  using ss_abs_map [of m k] ss_abs_none [of m k] handle_expired_abs [of m k]
  by (cases "map_of (ss_map m) k") (auto simp: get_value_ptr_def get_data_ptr_def)


definition drop_node :: "nat \<times> 'k ExpiryWithKey \<Rightarrow> ('k, 'v) SoftStateMap \<Rightarrow> ('k, 'v) SoftStateMap" where
  "drop_node node m = m\<lparr>ss_map := filter (\<lambda>(k, d). k \<noteq> ew_key (snd node)) (ss_map m), ss_heap := filter (\<lambda>(h, e). h \<noteq> fst node) (ss_heap m)\<rparr>"

lemma map_of_filter_fst: "map_of (filter (\<lambda>(k, v). k \<noteq> x) xs) y = (if y = x then None else map_of xs y)"
  by (induction xs) auto

lemma distinct_filter_fst: "distinct (map fst xs) \<Longrightarrow> distinct (map fst (filter P xs))"
  by (induction xs) auto

lemma drop_node_correct:
  assumes "ss_inv m" and "(h, e) \<in> set (ss_heap m)"
  shows "ss_inv (drop_node (h, e) m)" and "ss_abs (drop_node (h, e) m) = (ss_abs m)(ew_key e := None)"
proof -
  obtain d where d: "map_of (ss_map m) (ew_key e) = Some d" "vh_handle d = h" using ss_invD(5) [OF assms] by blast
  have other: "vh_handle d' \<noteq> h" if "map_of (ss_map m) k = Some d'" "k \<noteq> ew_key e" for k d'
    using handles_unique [OF assms(1) that(1) d(1)] that(2) d(2) by auto
  show "ss_inv (drop_node (h, e) m)"
  proof (rule ss_invI)
    show "distinct (map fst (ss_map (drop_node (h, e) m)))" "distinct (map fst (ss_heap (drop_node (h, e) m)))"
      using ss_invD(1,2) [OF assms(1)] by (simp_all add: drop_node_def distinct_filter_fst)
    show "x < ss_fresh (drop_node (h, e) m)" if "x \<in> fst ` set (ss_heap (drop_node (h, e) m))" for x
    proof -
      have "x \<in> fst ` set (ss_heap m)" using that by (auto simp: drop_node_def)
      then show ?thesis using ss_invD(3) [OF assms(1)] by (simp add: drop_node_def)
    qed
    show "\<exists>e'. map_of (ss_heap (drop_node (h, e) m)) (vh_handle d') = Some e' \<and> ew_key e' = k" if "(k, d') \<in> set (ss_map (drop_node (h, e) m))" for k d'
    proof -
      have k: "(k, d') \<in> set (ss_map m)" "k \<noteq> ew_key e" using that by (auto simp: drop_node_def)
      then have "map_of (ss_map m) k = Some d'" using ss_invD(1) [OF assms(1)] by simp
      then show ?thesis using ss_invD(4) [OF assms(1) k(1)] other [of k d'] k(2) by (simp add: drop_node_def map_of_filter_fst)
    qed
    show "\<exists>d'. map_of (ss_map (drop_node (h, e) m)) (ew_key e') = Some d' \<and> vh_handle d' = x" if "(x, e') \<in> set (ss_heap (drop_node (h, e) m))" for x e'
    proof -
      have x: "(x, e') \<in> set (ss_heap m)" "x \<noteq> h" using that by (auto simp: drop_node_def)
      then obtain d' where d': "map_of (ss_map m) (ew_key e') = Some d'" "vh_handle d' = x" using ss_invD(5) [OF assms(1)] by blast
      then have "ew_key e' \<noteq> ew_key e" using d x(2) by auto
      then show ?thesis using d' by (simp add: drop_node_def map_of_filter_fst)
    qed
  qed
  show "ss_abs (drop_node (h, e) m) = (ss_abs m)(ew_key e := None)"
  proof
    fix k
    show "ss_abs (drop_node (h, e) m) k = ((ss_abs m)(ew_key e := None)) k"
      using other [of k] by (cases "map_of (ss_map m) k") (auto simp: ss_abs_def drop_node_def map_of_filter_fst)
  qed
qed

definition unexpired :: "time_point \<Rightarrow> ('k \<Rightarrow> (time_point \<times> 'v) option) \<Rightarrow> 'k \<Rightarrow> (time_point \<times> 'v) option" where
  "unexpired now f k = (case f k of Some (e, v) \<Rightarrow> if now > e then None else Some (e, v) | None \<Rightarrow> None)"

lemma node_of_abs:
  assumes "ss_inv m" and "(h, e) \<in> set (ss_heap m)"
  shows "\<exists>v. ss_abs m (ew_key e) = Some (ew_expiry e, v)"
proof -
  obtain d where d: "map_of (ss_map m) (ew_key e) = Some d" "vh_handle d = h" using ss_invD(5) [OF assms] by blast
  moreover have "map_of (ss_heap m) h = Some e" using assms(2) ss_invD(2) [OF assms(1)] by simp
  ultimately show ?thesis using ss_abs_map [OF assms(1) d(1)] by auto
qed

lemma unexpired_id:
  assumes "ss_inv m" and "\<forall>(h, e) \<in> set (ss_heap m). \<not> ew_expiry e < now"
  shows "unexpired now (ss_abs m) = ss_abs m"
proof
  fix k
  show "unexpired now (ss_abs m) k = ss_abs m k"
  proof (cases "map_of (ss_map m) k")
    case (Some d)
    then show ?thesis using ss_abs_map [OF assms(1) Some] assms(2) by (fastforce simp: unexpired_def dest: map_of_SomeD)
  qed (simp add: unexpired_def ss_abs_def)
qed

lemma drop_expired_correct:
  assumes "top_minimal heap_top" and "ss_inv m"
  shows "\<exists>m'. ss_drop_expired heap_top now m = Some m' \<and> ss_inv m' \<and> ss_lifetime m' = ss_lifetime m \<and> ss_abs m' = unexpired now (ss_abs m)"
  using assms(2)
proof (induction "length (ss_heap m)" arbitrary: m rule: less_induct)
  case less
  show ?case
  proof (cases "ss_heap m = []")
    case True
    then show ?thesis using less.prems unexpired_id [OF less.prems, of now] by (subst ss_drop_expired.simps) simp
  next
    case False
    obtain h e where top: "heap_top (ss_heap m) = (h, e)" by fastforce
    have he: "(h, e) \<in> set (ss_heap m)" and least: "\<And>x. x \<in> set (ss_heap m) \<Longrightarrow> ew_expiry e \<le> ew_expiry (snd x)"
      using assms(1) [unfolded top_minimal_def, rule_format, OF False] by (auto simp: top)
    show ?thesis
    proof (cases "ew_expiry e < now")
      case True
      let ?m = "drop_node (h, e) m"
      have "ss_drop_expired heap_top now m = ss_drop_expired heap_top now ?m"
        using False top True by (subst ss_drop_expired.simps) (simp add: is_expired_def drop_node_def)
      moreover have "length (ss_heap ?m) < length (ss_heap m)"
        using he length_filter_less [of "(h, e)" "ss_heap m" "\<lambda>(x, _). x \<noteq> h"] by (simp add: drop_node_def)
      then obtain m' where m': "ss_drop_expired heap_top now ?m = Some m'" "ss_inv m'" "ss_lifetime m' = ss_lifetime ?m" "ss_abs m' = unexpired now (ss_abs ?m)"
        using less.hyps drop_node_correct(1) [OF less.prems he] by blast
      moreover have "unexpired now ((ss_abs m)(ew_key e := None)) = unexpired now (ss_abs m)"
        using node_of_abs [OF less.prems he] True unfolding unexpired_def fun_eq_iff by auto
      ultimately show ?thesis using drop_node_correct(2) [OF less.prems he] by (simp add: drop_node_def)
    next
      case False': False
      then have "\<forall>(h, e) \<in> set (ss_heap m). \<not> ew_expiry e < now" using least by fastforce
      then show ?thesis using unexpired_id [OF less.prems, of now] less.prems False False' top by (subst ss_drop_expired.simps) (simp add: is_expired_def)
    qed
  qed
qed


section \<open>The interface of the map\<close>

text \<open>What the users of a soft state map rely on: every operation acts on the abstract map.\<close>

locale soft_state =
  fixes inv :: "'m \<Rightarrow> bool"
    and abs :: "'m \<Rightarrow> 'k \<Rightarrow> (time_point \<times> 'v) option"
    and life :: "'m \<Rightarrow> int"
    and lookup :: "time_point \<Rightarrow> 'k \<Rightarrow> 'm \<Rightarrow> 'v option"
    and refresh :: "time_point \<Rightarrow> 'v \<Rightarrow> 'k \<Rightarrow> 'm \<Rightarrow> 'm"
    and get :: "time_point \<Rightarrow> 'v \<Rightarrow> 'k \<Rightarrow> 'm \<Rightarrow> 'm"
    and modify :: "('v \<Rightarrow> 'v) \<Rightarrow> 'k \<Rightarrow> 'm \<Rightarrow> 'm"
  assumes lookup_abs: "inv m \<Longrightarrow> lookup now k m = (case abs m k of Some (e, v) \<Rightarrow> if now > e then None else Some v | None \<Rightarrow> None)"
    and refresh_inv: "inv m \<Longrightarrow> inv (refresh now c k m) \<and> life (refresh now c k m) = life m"
    and refresh_abs: "inv m \<Longrightarrow> abs (refresh now c k m) = (abs m)(k \<mapsto> (now + life m, case abs m k of None \<Rightarrow> c | Some (e, v) \<Rightarrow> v))"
    and get_inv: "inv m \<Longrightarrow> inv (get now c k m) \<and> life (get now c k m) = life m"
    and get_abs: "inv m \<Longrightarrow> abs (get now c k m) = (abs m)(k \<mapsto> (case abs m k of None \<Rightarrow> (now + life m, c) | Some (e, v) \<Rightarrow> (if now > e then now + life m else e, v)))"
    and modify_inv: "inv m \<Longrightarrow> inv (modify f k m) \<and> life (modify f k m) = life m"
    and modify_abs: "inv m \<Longrightarrow> abs (modify f k m) k' = map_option (\<lambda>(e, v). (e, if k' = k then f v else v)) (abs m k')"
begin

lemma lookup_refresh:
  "inv m \<Longrightarrow> lookup now' k' (refresh now c k m) =
    (if k' = k then if now' > now + life m then None else Some (case abs m k of None \<Rightarrow> c | Some (e, v) \<Rightarrow> v) else lookup now' k' m)"
  by (simp add: lookup_abs refresh_inv refresh_abs)

lemma lookup_get: "inv m \<Longrightarrow> 0 \<le> life m \<Longrightarrow> lookup now k (get now c k m) = Some (case abs m k of None \<Rightarrow> c | Some (e, v) \<Rightarrow> v)"
  by (auto simp: lookup_abs get_inv get_abs split: option.splits)

lemma lookup_get_other: "inv m \<Longrightarrow> k' \<noteq> k \<Longrightarrow> lookup now' k' (get now c k m) = lookup now' k' m"
  by (simp add: lookup_abs get_inv get_abs)

lemma lookup_modify: "inv m \<Longrightarrow> lookup now k' (modify f k m) = map_option (\<lambda>v. if k' = k then f v else v) (lookup now k' m)"
  by (auto simp: lookup_abs modify_inv modify_abs split: option.splits)

text \<open>An entry that is not touched any more stays visible until its expiry and not longer.\<close>

lemma lookup_later: "inv m \<Longrightarrow> now \<le> now' \<Longrightarrow> lookup now' k m = Some v \<Longrightarrow> lookup now k m = Some v"
  by (auto simp: lookup_abs split: option.splits if_splits)

end

interpretation ssm: soft_state ss_inv ss_abs ss_lifetime get_value_ptr ss_refresh get_data ss_modify
  by unfold_locales (simp_all add: get_value_ptr_abs refresh_correct get_data_correct modify_inv modify_abs modify_keeps)

section \<open>Properties of the map\<close>

text \<open>The reachable maps: any sequence of operations from the empty map, at times that may only advance.\<close>

datatype ('k, 'v) ss_op = SsRefresh 'k | SsGet 'k | SsModify "'v \<Rightarrow> 'v" 'k | SsDrop

definition ss_step :: "'k heap_top \<Rightarrow> 'v \<Rightarrow> time_point \<times> ('k, 'v) ss_op \<Rightarrow> ('k, 'v) SoftStateMap \<Rightarrow> ('k, 'v) SoftStateMap option" where
  "ss_step heap_top created op m =
     (case snd op of
        SsRefresh k \<Rightarrow> Some (ss_refresh (fst op) created k m)
      | SsGet k \<Rightarrow> Some (get_data (fst op) created k m)
      | SsModify f k \<Rightarrow> Some (ss_modify f k m)
      | SsDrop \<Rightarrow> ss_drop_expired heap_top (fst op) m)"

text \<open>The specification: a map from keys to values with their expiry times.\<close>

definition spec_step :: "int \<Rightarrow> 'v \<Rightarrow> time_point \<times> ('k, 'v) ss_op \<Rightarrow> ('k \<Rightarrow> (time_point \<times> 'v) option) \<Rightarrow> 'k \<Rightarrow> (time_point \<times> 'v) option" where
  "spec_step lifetime created op f =
     (case snd op of
        SsRefresh k \<Rightarrow> f(k \<mapsto> (fst op + lifetime, case f k of None \<Rightarrow> created | Some (e, v) \<Rightarrow> v))
      | SsGet k \<Rightarrow> f(k \<mapsto> (case f k of None \<Rightarrow> (fst op + lifetime, created) | Some (e, v) \<Rightarrow> (if fst op > e then fst op + lifetime else e, v)))
      | SsModify g k \<Rightarrow> (\<lambda>k'. map_option (\<lambda>(e, v). (e, if k' = k then g v else v)) (f k'))
      | SsDrop \<Rightarrow> unexpired (fst op) f)"

fun ss_run :: "'k heap_top \<Rightarrow> 'v \<Rightarrow> (time_point \<times> ('k, 'v) ss_op) list \<Rightarrow> ('k, 'v) SoftStateMap \<Rightarrow> ('k, 'v) SoftStateMap option" where
  "ss_run heap_top created [] m = Some m"
| "ss_run heap_top created (op # ops) m = (case ss_step heap_top created op m of Some m' \<Rightarrow> ss_run heap_top created ops m' | None \<Rightarrow> None)"

lemma ss_step_refines:
  assumes "top_minimal heap_top" and "ss_inv m"
  shows "\<exists>m'. ss_step heap_top created op m = Some m' \<and> ss_inv m' \<and> ss_lifetime m' = ss_lifetime m \<and> ss_abs m' = spec_step (ss_lifetime m) created op (ss_abs m)"
  using assms(2) drop_expired_correct [OF assms, of "fst op"] ssm.modify_abs [OF assms(2)]
  by (cases "snd op") (auto simp: ss_step_def spec_step_def refresh_correct get_data_correct modify_inv modify_keeps fun_eq_iff)

text \<open>C13: The soft state map implements a map with expiry times: every sequence of operations ends, keeps the correspondence between heap and hash map,
  and has the effect the specification gives; a value is found exactly until its expiry.\<close>

theorem soft_state_refines:
  fixes heap_top :: "'k heap_top" and created :: 'v
  assumes "top_minimal heap_top"
  shows "\<exists>m. ss_run heap_top created ops (SoftStateMap_new lifetime) = Some m \<and> ss_inv m \<and> ss_abs m = fold (spec_step lifetime created) ops Map.empty
    \<and> (\<forall>now k. get_value_ptr now k m = map_option snd (unexpired now (fold (spec_step lifetime created) ops Map.empty) k))"
proof -
  have *: "ss_inv m \<Longrightarrow> \<exists>m'. ss_run heap_top created ops m = Some m' \<and> ss_inv m' \<and> ss_abs m' = fold (spec_step (ss_lifetime m) created) ops (ss_abs m)" for m
  proof (induction ops arbitrary: m)
    case (Cons op ops)
    obtain m1 where m1: "ss_step heap_top created op m = Some m1" "ss_inv m1" "ss_lifetime m1 = ss_lifetime m" "ss_abs m1 = spec_step (ss_lifetime m) created op (ss_abs m)"
      using ss_step_refines [OF assms Cons.prems] by blast
    then show ?case using Cons.IH [OF m1(2)] by simp
  qed simp
  have new: "ss_inv (SoftStateMap_new lifetime :: ('k, 'v) SoftStateMap)" "ss_lifetime (SoftStateMap_new lifetime :: ('k, 'v) SoftStateMap) = lifetime"
    "ss_abs (SoftStateMap_new lifetime :: ('k, 'v) SoftStateMap) = Map.empty"
    by (simp_all add: ss_inv_def SoftStateMap_new_def ss_abs_def fun_eq_iff)
  then obtain m where m: "ss_run heap_top created ops (SoftStateMap_new lifetime) = Some m" "ss_inv m" "ss_abs m = fold (spec_step lifetime created) ops Map.empty"
    using * [OF new(1)] by auto
  then have "get_value_ptr now k m = map_option snd (unexpired now (fold (spec_step lifetime created) ops Map.empty) k)" for now k
    using get_value_ptr_abs [OF m(2), of now k] by (auto simp: unexpired_def split: option.splits)
  with m show ?thesis by blast
qed


text \<open>An entry that expired but was not dropped yet comes back with its old value when its key is asked for; the created value is not used.\<close>

theorem expired_value_resurrected:
  assumes "ss_inv m" and "ss_abs m k = Some (e, old)" and "e < now" and "0 \<le> ss_lifetime m"
  shows "get_value_ptr now k m = None \<and> get_value_ptr now k (get_data now created k m) = Some old"
  using assms ssm.lookup_get [OF assms(1,4), of now k created] by (simp add: ssm.lookup_abs)

section \<open>Properties of duplicate packet lists\<close>

lemma dp_find_iff: "dp_find sn es \<noteq> None \<longleftrightarrow> sn \<in> dp_sequence_number ` set es"
  by (induction es) auto

lemma dp_increment_numbers: "map dp_sequence_number (dp_increment sn es) = map dp_sequence_number es"
  by (induction es) auto

abbreviation dp_numbers :: "DuplicatePacketList \<Rightarrow> SequenceNumber list" where "dp_numbers l \<equiv> map dp_sequence_number (dp_elements l)"

lemma dp_check_numbers:
  "fst (dp_check sn l) \<longleftrightarrow> sn \<in> set (dp_numbers l)"
  "dp_numbers (snd (dp_check sn l)) = (if sn \<in> set (dp_numbers l) then dp_numbers l else circular_push_back (dp_capacity l) sn (dp_numbers l))"
  "dp_capacity (snd (dp_check sn l)) = dp_capacity l"
  using dp_find_iff [of sn "dp_elements l"]
  by (auto simp: dp_check_def dp_increment_numbers circular_push_back_def map_tl split: option.splits)

text \<open>A sequence of checks, with the answers.\<close>

fun dp_run :: "SequenceNumber list \<Rightarrow> DuplicatePacketList \<Rightarrow> bool list \<times> DuplicatePacketList" where
  "dp_run [] l = ([], l)"
| "dp_run (sn # sns) l = (let (dup, l1) = dp_check sn l; (dups, l2) = dp_run sns l1 in (dup # dups, l2))"

lemma dp_run_capacity: "dp_capacity (snd (dp_run sns l)) = dp_capacity l"
  using dp_check_numbers(3) by (induction sns l rule: dp_run.induct) (auto simp: Let_def split: prod.splits, metis snd_conv)

lemma dp_run_numbers: "set (dp_numbers (snd (dp_run sns l))) \<subseteq> set (dp_numbers l) \<union> set sns"
proof (induction sns arbitrary: l)
  case (Cons sn sns)
  have "set (dp_numbers (snd (dp_check sn l))) \<subseteq> insert sn (set (dp_numbers l))"
    by (auto simp: dp_check_numbers(2) circular_push_back_def dest: list.set_sel(2) [rotated])
  then show ?case using Cons.IH [of "snd (dp_check sn l)"] by (simp add: Let_def split_beta) blast
qed simp

lemma dp_number_stays:
  assumes "dp_numbers l = xs @ sn # ys" and "length (dp_numbers l) \<le> dp_capacity l"
    and "length ys + length (filter Not (fst (dp_run sns l))) < dp_capacity l"
  shows "sn \<in> set (dp_numbers (snd (dp_run sns l)))"
  using assms
proof (induction sns arbitrary: l xs ys)
  case (Cons s sns)
  obtain dup l1 where c: "dp_check s l = (dup, l1)" by fastforce
  obtain dups l2 where r: "dp_run sns l1 = (dups, l2)" by fastforce
  note n = dp_check_numbers [of s l, unfolded c fst_conv snd_conv]
  show ?case
  proof (cases dup)
    case True
    then show ?thesis using Cons.IH [of l1 xs ys] Cons.prems n c r by simp
  next
    case False
    then have l1: "dp_numbers l1 = circular_push_back (dp_capacity l) s (dp_numbers l)" using n by simp
    show ?thesis
    proof (cases "length (dp_numbers l) < dp_capacity l")
      case True
      then have "dp_numbers l1 = xs @ sn # (ys @ [s])" using l1 Cons.prems(1) by (simp add: circular_push_back_def)
      then show ?thesis using Cons.IH [of l1 xs "ys @ [s]"] Cons.prems True False n c r by simp
    next
      case full: False
      then obtain x xs' where xs: "xs = x # xs'" using Cons.prems False c r by (cases xs) auto
      have "dp_numbers l1 = xs' @ sn # (ys @ [s])" using l1 Cons.prems full xs by (auto simp: circular_push_back_def)
      then show ?thesis using Cons.IH [of l1 xs' "ys @ [s]"] Cons.prems full False n(3) c r xs by simp
    qed
  qed
qed simp


lemma dp_run_bounded: "length (dp_numbers l) \<le> dp_capacity l \<Longrightarrow> length (dp_numbers (snd (dp_run sns l))) \<le> dp_capacity l"
proof (induction sns arbitrary: l)
  case (Cons s sns)
  have "length (dp_numbers (snd (dp_check s l))) \<le> dp_capacity l" using Cons.prems by (auto simp: dp_check_numbers circular_push_back_def)
  then show ?case using Cons.IH [of "snd (dp_check s l)"] dp_check_numbers(3) [of s l] by (simp add: Let_def split_beta)
qed simp

text \<open>C27: Duplicates are detected as long as fewer new numbers than the list has places were checked since the number came first, and only numbers that were
  checked before are taken for duplicates.\<close>

theorem duplicates_detected:
  assumes "dp_run earlier (DuplicatePacketList_new n) = (answers, l)" and "dp_check sn l = (False, l1)" and "dp_run later l1 = (answers', l')"
    and "length (filter Not answers') < n"
  shows "fst (dp_check sn l') \<and> (fst (dp_check x l') \<longrightarrow> x \<in> set earlier \<union> {sn} \<union> set later)"
proof
  have cap: "dp_capacity l = n" "length (dp_numbers l) \<le> n"
    using assms(1) dp_run_capacity [of earlier "DuplicatePacketList_new n"] dp_run_bounded [of "DuplicatePacketList_new n" earlier]
    by (simp_all add: DuplicatePacketList_new_def)
  note n = dp_check_numbers [of sn l, unfolded assms(2) fst_conv snd_conv]
  have l1: "dp_numbers l1 = circular_push_back n sn (dp_numbers l)" "dp_capacity l1 = n" using n cap(1) by simp_all
  have "0 < n" using assms(4) by simp
  then have len: "length (dp_numbers l1) \<le> dp_capacity l1" and "\<exists>xs. dp_numbers l1 = xs @ sn # []"
    using l1 cap(2) by (simp_all add: circular_push_back_def del: length_map)
  then obtain xs where "dp_numbers l1 = xs @ sn # []" by blast
  from dp_number_stays [OF this len, of later] have "sn \<in> set (dp_numbers l')" using assms(3,4) l1(2) by simp
  then show "fst (dp_check sn l')" by (simp add: dp_check_numbers(1))
  have "set (dp_numbers l) \<subseteq> set earlier" using dp_run_numbers [of earlier "DuplicatePacketList_new n"] assms(1) by (simp add: DuplicatePacketList_new_def)
  moreover have "set (dp_numbers l1) \<subseteq> insert sn (set (dp_numbers l))" using dp_run_numbers [of "[sn]" l] assms(2) by simp
  moreover have "set (dp_numbers l') \<subseteq> set (dp_numbers l1) \<union> set later" using dp_run_numbers [of later l1] assms(3) by simp
  ultimately show "fst (dp_check x l') \<longrightarrow> x \<in> set earlier \<union> {sn} \<union> set later" unfolding dp_check_numbers(1) by blast
qed

section \<open>Witnesses\<close>

fun min_node :: "'k \<Rightarrow> 'k heap_top" where
  "min_node k [] = (0, \<lparr>ew_expiry = 0, ew_key = k\<rparr>)"
| "min_node k [x] = x"
| "min_node k (x # y # zs) = (let z = min_node k (y # zs) in if ew_expiry (snd x) \<le> ew_expiry (snd z) then x else z)"

lemma min_node_minimal: "top_minimal (min_node k)"
proof -
  have "es \<noteq> [] \<longrightarrow> min_node k es \<in> set es \<and> (\<forall>e \<in> set es. ew_expiry (snd (min_node k es)) \<le> ew_expiry (snd e))" for es
  proof (induction k es rule: min_node.induct)
    case (3 k x y zs)
    then show ?case by (fastforce simp: Let_def)
  qed simp_all
  then show ?thesis by (simp add: top_minimal_def)
qed

theorem soft_state_refines_witness:
  "\<exists>m. ss_run (min_node 0) (0 :: nat) [(0, SsRefresh (7 :: nat)), (5, SsModify Suc 7), (10, SsRefresh 8), (25, SsDrop)] (SoftStateMap_new 20) = Some m
    \<and> get_value_ptr 25 7 m = None \<and> get_value_ptr 25 8 m = Some 0"
proof -
  have "unexpired 25 (fold (spec_step 20 0) [(0, SsRefresh (7 :: nat)), (5, SsModify Suc 7), (10, SsRefresh 8), (25, SsDrop)] Map.empty) 7 = None"
    "unexpired 25 (fold (spec_step 20 (0 :: nat)) [(0, SsRefresh (7 :: nat)), (5, SsModify Suc 7), (10, SsRefresh 8), (25, SsDrop)] Map.empty) 8 = Some (30, 0)"
    by (simp_all add: spec_step_def unexpired_def)
  then show ?thesis
    using soft_state_refines [OF min_node_minimal [of 0], of "0 :: nat" "[(0, SsRefresh (7 :: nat)), (5, SsModify Suc 7), (10, SsRefresh 8), (25, SsDrop)]" 20]
    by auto
qed

theorem expired_value_resurrected_witness:
  "get_value_ptr 25 (7 :: nat) (get_data 0 (1 :: nat) 7 (SoftStateMap_new 20)) = None
    \<and> get_value_ptr 25 (7 :: nat) (get_data 25 0 7 (get_data 0 (1 :: nat) 7 (SoftStateMap_new 20))) = Some 1"
  using expired_value_resurrected [of "get_data 0 (1 :: nat) (7 :: nat) (SoftStateMap_new 20)" 7 20 1 25 0]
  by (simp add: ss_inv_def ss_abs_def get_data_def get_data_ptr_def create_data_def SoftStateMap_new_def)

theorem duplicates_detected_witness:
  "\<exists>l'. dp_run [2] (snd (dp_check 1 (DuplicatePacketList_new 2))) = ([False], l') \<and> fst (dp_check 1 l')"
  using duplicates_detected [of "[]" 2 "[]" "DuplicatePacketList_new 2" 1 "snd (dp_check 1 (DuplicatePacketList_new 2))" "[2]" "[False]"
      "snd (dp_check 2 (snd (dp_check 1 (DuplicatePacketList_new 2))))" 1]
  by (simp add: dp_check_def DuplicatePacketList_new_def circular_push_back_def)

end
