(* ===== verification/LocationTables.thy ===== *)
theory LocationTables
  imports SoftStates "HOL-Library.Multiset"
begin

text \<open>
  \<open>vanetza/geonet/location_table\<close>, what a station knows of others, with \<open>cbr_aggregator\<close> and \<open>dcc_information_sharing\<close>, which condense the channel
  loads that neighbours report.  The runtime's current time is an argument; a packet data rate that is not a number is \<open>None\<close>.
\<close>

section \<open>Entries\<close>

record LocTEX_G5 =
  lx_local_update :: Timestamp
  lx_source_update :: Timestamp
  lx_dcc_mco :: DccMcoField

text \<open>The extensions an entry may carry: the one for ITS-G5 and the list of duplicate packets.\<close>

record LocationTableEntry =
  le_is_neighbour :: bool
  le_position_vector :: "LongPositionVector option"
  le_pdr :: "real option"
  le_pdr_time :: time_point
  le_loctex :: "LocTEX_G5 option"
  le_dpl :: "DuplicatePacketList option"

definition LocationTableEntry_new :: "time_point \<Rightarrow> LocationTableEntry" where
  "LocationTableEntry_new now = \<lparr>le_is_neighbour = False, le_position_vector = None, le_pdr = None, le_pdr_time = now, le_loctex = None, le_dpl = None\<rparr>"

definition update_pdr :: "time_point \<Rightarrow> nat \<Rightarrow> real \<Rightarrow> LocationTableEntry \<Rightarrow> LocationTableEntry" where
  "update_pdr now packet_size beta e =
     (case le_pdr e of
        None \<Rightarrow> e\<lparr>le_pdr := Some 0, le_pdr_time := now\<rparr>
      | Some pdr \<Rightarrow>
          if beta > 0 \<and> beta < 1 then
            let time_period = real_of_int (now - le_pdr_time e) / 1000000
            in if time_period > 0 then e\<lparr>le_pdr := Some (pdr * beta + (1 - beta) * (real packet_size / time_period)), le_pdr_time := now\<rparr> else e
          else e)"

definition set_position_vector :: "LongPositionVector \<Rightarrow> LocationTableEntry \<Rightarrow> LocationTableEntry" where
  "set_position_vector pv e = e\<lparr>le_position_vector := Some pv\<rparr>"

definition update_position_vector :: "LongPositionVector \<Rightarrow> LocationTableEntry \<Rightarrow> bool \<times> LocationTableEntry" where
  "update_position_vector lpv e =
     (case le_position_vector e of
        Some pv \<Rightarrow> if ts_less (pv_timestamp pv) (pv_timestamp lpv) then (True, set_position_vector lpv e) else (False, e)
      | None \<Rightarrow> (True, set_position_vector lpv e))"

definition set_neighbour :: "bool \<Rightarrow> LocationTableEntry \<Rightarrow> LocationTableEntry" where
  "set_neighbour flag e = e\<lparr>le_is_neighbour := flag\<rparr>"

section \<open>The table\<close>

type_synonym LocationTable = "(MacAddress, LocationTableEntry) SoftStateMap"

definition LocationTable_new :: "int \<Rightarrow> LocationTable" where
  "LocationTable_new seconds = SoftStateMap_new (seconds * 1000000)"

abbreviation mid_of :: "LongPositionVector \<Rightarrow> MacAddress" where "mid_of lpv \<equiv> ga_mid (pv_gn_addr lpv)"

definition has_entry :: "time_point \<Rightarrow> Address \<Rightarrow> LocationTable \<Rightarrow> bool" where
  "has_entry now addr lt = has_value now (ga_mid addr) lt"

definition lt_filter :: "time_point \<Rightarrow> (MacAddress \<Rightarrow> LocationTableEntry \<Rightarrow> bool) \<Rightarrow> LocationTable \<Rightarrow> LocationTableEntry list" where
  "lt_filter now predicate lt = map snd (filter (\<lambda>(mac, e). predicate mac e) (map_range now lt))"

definition neighbours :: "time_point \<Rightarrow> LocationTable \<Rightarrow> LocationTableEntry list" where
  "neighbours now lt = lt_filter now (\<lambda>mac e. le_is_neighbour e) lt"

definition has_neighbours :: "time_point \<Rightarrow> LocationTable \<Rightarrow> bool" where
  "has_neighbours now lt \<longleftrightarrow> list_ex (\<lambda>(mac, e). le_is_neighbour e) (map_range now lt)"

text \<open>\<open>update\<close>: an entry is refreshed when the vector is newer than the stored one or when no visible entry has one.\<close>

definition LocationTable_update :: "time_point \<Rightarrow> LongPositionVector \<Rightarrow> LocationTable \<Rightarrow> LocationTable" where
  "LocationTable_update now lpv lt =
     (let mid = mid_of lpv; fresh = LocationTableEntry_new now
      in case get_value_ptr now mid lt of
           Some e \<Rightarrow>
             if le_position_vector e \<noteq> None then
               let lt1 = ss_modify (snd \<circ> update_position_vector lpv) mid lt
               in if fst (update_position_vector lpv e) then ss_refresh now fresh mid lt1 else lt1
             else ss_modify (snd \<circ> update_position_vector lpv) mid (ss_refresh now fresh mid lt)
         | None \<Rightarrow> ss_modify (snd \<circ> update_position_vector lpv) mid (ss_refresh now fresh mid lt))"

definition get_or_create_entry :: "time_point \<Rightarrow> MacAddress \<Rightarrow> LocationTable \<Rightarrow> LocationTable" where
  "get_or_create_entry now mac lt = get_data now (LocationTableEntry_new now) mac lt"

definition get_entry :: "time_point \<Rightarrow> MacAddress \<Rightarrow> LocationTable \<Rightarrow> LocationTableEntry option" where
  "get_entry now mac lt = get_value_ptr now mac lt"

definition get_position :: "time_point \<Rightarrow> MacAddress \<Rightarrow> LocationTable \<Rightarrow> LongPositionVector option" where
  "get_position now mac lt = (case get_value_ptr now mac lt of Some e \<Rightarrow> le_position_vector e | None \<Rightarrow> None)"

section \<open>Aggregation of channel loads\<close>

record CbrAggregatorUnit =
  au_n :: nat
  au_average :: real
  au_maximum0 :: real
  au_maximum1 :: real

definition CbrAggregatorUnit_new :: CbrAggregatorUnit where
  "CbrAggregatorUnit_new = \<lparr>au_n = 0, au_average = 0, au_maximum0 = 0, au_maximum1 = 0\<rparr>"

definition unit_add :: "real \<Rightarrow> CbrAggregatorUnit \<Rightarrow> CbrAggregatorUnit" where
  "unit_add cbr u =
     (let u = u\<lparr>au_average := unit_clamp ((au_average u * real (au_n u) + cbr) / real (au_n u + 1)), au_n := au_n u + 1\<rparr>
      in if cbr \<ge> au_maximum0 u then u\<lparr>au_maximum1 := au_maximum0 u, au_maximum0 := cbr\<rparr>
         else if cbr > au_maximum1 u then u\<lparr>au_maximum1 := cbr\<rparr> else u)"

definition unit_result :: "real \<Rightarrow> CbrAggregatorUnit \<Rightarrow> real" where
  "unit_result target u = (if au_average u > target then au_maximum0 u else au_maximum1 u)"

record CbrAggregator =
  ca_local_cbr0 :: real
  ca_local_cbr1 :: real
  ca_one_hop_cbr :: real
  ca_two_hop_cbr :: real
  ca_global_cbr :: real

definition CbrAggregator_new :: CbrAggregator where
  "CbrAggregator_new = \<lparr>ca_local_cbr0 = 0, ca_local_cbr1 = 0, ca_one_hop_cbr = 0, ca_two_hop_cbr = 0, ca_global_cbr = 0\<rparr>"

text \<open>The time stamps compare by \<open>>=\<close>, the negation of \<open><\<close>.\<close>

definition aggregate_entry :: "Timestamp \<Rightarrow> MacAddress \<times> LocationTableEntry \<Rightarrow> CbrAggregatorUnit \<times> CbrAggregatorUnit \<Rightarrow> CbrAggregatorUnit \<times> CbrAggregatorUnit" where
  "aggregate_entry lifetime = (\<lambda>(mac, entry) (one_hop, two_hop).
     case le_loctex entry of
       Some loctex \<Rightarrow>
         if \<not> ts_less (lx_local_update loctex) lifetime
         then (unit_add (local_cbr (lx_dcc_mco loctex)) one_hop, unit_add (neighbour_cbr (lx_dcc_mco loctex)) two_hop)
         else (one_hop, two_hop)
     | None \<Rightarrow> (one_hop, two_hop))"

definition aggregate :: "time_point \<Rightarrow> real \<Rightarrow> LocationTable \<Rightarrow> Timestamp \<Rightarrow> real \<Rightarrow> CbrAggregator \<Rightarrow> CbrAggregator" where
  "aggregate now local_load lt lifetime target a =
     (let (one_hop, two_hop) = fold (aggregate_entry lifetime) (map_range now lt) (CbrAggregatorUnit_new, CbrAggregatorUnit_new);
          local1 = ca_local_cbr0 a; one = unit_result target one_hop; two = unit_result target two_hop
      in \<lparr>ca_local_cbr0 = local_load, ca_local_cbr1 = local1, ca_one_hop_cbr = one, ca_two_hop_cbr = two, ca_global_cbr = max local1 (max one two)\<rparr>)"

section \<open>Information sharing\<close>

record DccInformationSharing =
  ds_cbr_target :: real
  ds_cbr_local :: real
  ds_aggregator :: CbrAggregator
  ds_last_aggregation :: Timestamp

definition ds_trigger_interval :: int where "ds_trigger_interval = msec 100"

text \<open>The delay factor is converted to the integer type of durations before the multiplication.  The answer is the delay of the first trigger.\<close>

definition DccInformationSharing_new :: "time_point \<Rightarrow> real \<Rightarrow> real \<Rightarrow> DccInformationSharing \<times> int" where
  "DccInformationSharing_new now target delay =
     (\<lparr>ds_cbr_target = target, ds_cbr_local = 0, ds_aggregator = CbrAggregator_new, ds_last_aggregation = Timestamp_of now\<rparr>,
      ds_trigger_interval * trunc_int delay)"

definition generate_dcc_field :: "DccInformationSharing \<Rightarrow> DccField" where
  "generate_dcc_field s =
     DccMco (set_neighbour_cbr (ca_one_hop_cbr (ds_aggregator s)) (set_local_cbr (ca_local_cbr0 (ds_aggregator s))
       \<lparr>mco_cbr_l0_hop = 0, mco_cbr_l1_hop = 0, mco_output_power = 0\<rparr>))"

definition update_local_cbr :: "real \<Rightarrow> DccInformationSharing \<Rightarrow> DccInformationSharing" where
  "update_local_cbr cbr s = s\<lparr>ds_cbr_local := cbr\<rparr>"

text \<open>A trigger aggregates, hands the global load to the hook, and schedules the next trigger; the answer is the global load.\<close>

definition DccInformationSharing_trigger :: "time_point \<Rightarrow> LocationTable \<Rightarrow> DccInformationSharing \<Rightarrow> DccInformationSharing \<times> real" where
  "DccInformationSharing_trigger now lt s =
     (let a = aggregate now (ds_cbr_local s) lt (ds_last_aggregation s) (ds_cbr_target s) (ds_aggregator s)
      in (s\<lparr>ds_aggregator := a, ds_last_aggregation := Timestamp_of now\<rparr>, ca_global_cbr a))"

section \<open>Lemmas on the table\<close>

definition lt_ok :: "LocationTable \<Rightarrow> bool" where "lt_ok lt \<longleftrightarrow> ss_inv lt \<and> 0 \<le> ss_lifetime lt"

text \<open>The stored entry of a station, visible or not, with its expiry.\<close>

abbreviation lt_abs :: "LocationTable \<Rightarrow> MacAddress \<Rightarrow> (time_point \<times> LocationTableEntry) option" where "lt_abs \<equiv> ss_abs"

lemma lt_ok_ops:
  "lt_ok lt \<Longrightarrow> lt_ok (ss_refresh now c k lt)" "lt_ok lt \<Longrightarrow> lt_ok (get_data now c k lt)" "lt_ok lt \<Longrightarrow> lt_ok (ss_modify f k lt)"
  "lt_ok lt \<Longrightarrow> lt_ok (LocationTable_update now lpv lt)"
  by (auto simp: lt_ok_def ssm.refresh_inv ssm.get_inv ssm.modify_inv LocationTable_update_def Let_def split: option.splits)

text \<open>The vector that is stored after an update, and the expiry.\<close>

definition newer :: "LongPositionVector \<Rightarrow> LongPositionVector option \<Rightarrow> bool" where
  "newer lpv old \<longleftrightarrow> (case old of Some pv \<Rightarrow> ts_less (pv_timestamp pv) (pv_timestamp lpv) | None \<Rightarrow> True)"

lemma update_position_vector_newer:
  "fst (update_position_vector lpv e) = newer lpv (le_position_vector e)"
  "snd (update_position_vector lpv e) = (if newer lpv (le_position_vector e) then e\<lparr>le_position_vector := Some lpv\<rparr> else e)"
  by (auto simp: update_position_vector_def newer_def set_position_vector_def split: option.splits)

lemma LocationTable_update_abs:
  assumes "lt_ok lt"
  shows "lt_abs (LocationTable_update now lpv lt) = (lt_abs lt)(mid_of lpv \<mapsto>
    (case lt_abs lt (mid_of lpv) of
       None \<Rightarrow> (now + ss_lifetime lt, (LocationTableEntry_new now)\<lparr>le_position_vector := Some lpv\<rparr>)
     | Some (e, entry) \<Rightarrow>
         (if now \<le> e \<and> \<not> newer lpv (le_position_vector entry) then e else now + ss_lifetime lt,
          if newer lpv (le_position_vector entry) then entry\<lparr>le_position_vector := Some lpv\<rparr> else entry)))"
proof -
  have inv: "ss_inv lt" using assms by (simp add: lt_ok_def)
  note facts = ssm.lookup_abs [OF inv] ssm.refresh_abs [OF inv] ssm.modify_abs [OF inv] ssm.refresh_inv [OF inv] ssm.modify_inv [OF inv]
  show ?thesis
  proof (cases "lt_abs lt (mid_of lpv)")
    case None
    then show ?thesis
      by (auto simp: LocationTable_update_def Let_def facts ssm.modify_abs fun_eq_iff update_position_vector_newer newer_def LocationTableEntry_new_def option.map_id split: option.splits)
  next
    case (Some en)
    obtain e entry where en: "en = (e, entry)" by fastforce
    show ?thesis
    proof (cases "le_position_vector entry")
      case None
      then show ?thesis using Some en
        by (auto simp: LocationTable_update_def Let_def facts ssm.modify_abs fun_eq_iff update_position_vector_newer newer_def option.map_id split: option.splits)
    next
      case (Some pv)
      then show ?thesis using \<open>lt_abs lt (mid_of lpv) = Some en\<close> en
        by (auto simp: LocationTable_update_def Let_def facts ssm.modify_abs ssm.refresh_abs fun_eq_iff update_position_vector_newer newer_def option.map_id split: option.splits)
    qed
  qed
qed


lemma get_position_abs:
  "lt_ok lt \<Longrightarrow> get_position now k lt = (case lt_abs lt k of Some (e, entry) \<Rightarrow> if now > e then None else le_position_vector entry | None \<Rightarrow> None)"
  by (auto simp: get_position_def lt_ok_def ssm.lookup_abs split: option.splits)

lemma update_lifetime: "lt_ok lt \<Longrightarrow> ss_lifetime (LocationTable_update now lpv lt) = ss_lifetime lt"
  by (auto simp: lt_ok_def ssm.refresh_inv ssm.modify_inv LocationTable_update_def Let_def split: option.splits)

lemma location_table_run:
  assumes "us \<noteq> []" and "\<forall>(now, t, lpv) \<in> set us. mid_of lpv = k \<and> pv_timestamp lpv = word_of_int t"
    and "\<forall>(now, t, lpv) \<in> set us. \<forall>(now', t', lpv') \<in> set us. \<bar>t - t'\<bar> < 2 ^ 31" and "lt_ok lt" and "lt_abs lt k = None"
    and "sorted (map fst us)"
  shows "let lt' = fold (\<lambda>(now, t, lpv). LocationTable_update now lpv) us lt
    in lt_ok lt' \<and> ss_lifetime lt' = ss_lifetime lt \<and> (\<exists>now t lpv e entry. (now, t, lpv) \<in> set us \<and> (\<forall>(now', t', lpv') \<in> set us. t' \<le> t)
      \<and> lt_abs lt' k = Some (e, entry) \<and> le_position_vector entry = Some lpv \<and> now + ss_lifetime lt \<le> e)"
  using assms(1,2,3,6)
proof (induction us rule: rev_nonempty_induct)
  case (single u)
  obtain now t lpv where u: "u = (now, t, lpv)" by (cases u) auto
  then show ?case using assms(4,5) single.prems by (auto simp: LocationTable_update_abs update_lifetime lt_ok_ops)
next
  case (snoc u us)
  obtain now2 t2 lpv2 where u: "u = (now2, t2, lpv2)" by (cases u) auto
  define lt1 where "lt1 = fold (\<lambda>(now, t, lpv). LocationTable_update now lpv) us lt"
  have prems: "\<forall>(now, t, lpv) \<in> set us. mid_of lpv = k \<and> pv_timestamp lpv = word_of_int t"
    "\<forall>(now, t, lpv) \<in> set us. \<forall>(now', t', lpv') \<in> set us. \<bar>t - t'\<bar> < 2 ^ 31" "sorted (map fst us)"
    using snoc.prems by (auto simp: sorted_append)
  have "lt_ok lt1 \<and> ss_lifetime lt1 = ss_lifetime lt \<and> (\<exists>now t lpv e entry. (now, t, lpv) \<in> set us \<and> (\<forall>(now', t', lpv') \<in> set us. t' \<le> t)
      \<and> lt_abs lt1 k = Some (e, entry) \<and> le_position_vector entry = Some lpv \<and> now + ss_lifetime lt \<le> e)"
    using snoc.IH [OF prems] by (simp add: Let_def lt1_def)
  then obtain now t lpv e entry where ok: "lt_ok lt1" "ss_lifetime lt1 = ss_lifetime lt" and m: "(now, t, lpv) \<in> set us"
    and mx: "\<forall>(now', t', lpv') \<in> set us. t' \<le> t" and e: "lt_abs lt1 k = Some (e, entry)" "le_position_vector entry = Some lpv" "now + ss_lifetime lt \<le> e" by blast
  have ts: "pv_timestamp lpv = word_of_int t" "mid_of lpv2 = k" "pv_timestamp lpv2 = word_of_int t2" "\<bar>t - t2\<bar> < 2 ^ 31" "now \<le> now2"
    using snoc.prems m u by (fastforce simp: sorted_append)+
  have nw: "newer lpv2 (le_position_vector entry) \<longleftrightarrow> t < t2" using ts_less_order [OF ts(4)] e(2) ts by (simp add: newer_def)
  have ab: "lt_abs (LocationTable_update now2 lpv2 lt1) k = Some (if now2 \<le> e \<and> \<not> t < t2 then e else now2 + ss_lifetime lt,
      if t < t2 then entry\<lparr>le_position_vector := Some lpv2\<rparr> else entry)"
    using e ok ts(2) nw by (simp add: LocationTable_update_abs)
  have fin: "fold (\<lambda>(now, t, lpv). LocationTable_update now lpv) (us @ [u]) lt = LocationTable_update now2 lpv2 lt1" by (simp add: u lt1_def)
  have ok2: "lt_ok (LocationTable_update now2 lpv2 lt1)" "ss_lifetime (LocationTable_update now2 lpv2 lt1) = ss_lifetime lt"
    using ok by (simp_all add: lt_ok_ops update_lifetime)
  show ?case
  proof (cases "t < t2")
    case True
    have "\<forall>(now', t', lpv') \<in> set (us @ [u]). t' \<le> t2" using mx True u by fastforce
    then show ?thesis unfolding fin Let_def using ab ok2 True u
      by (intro conjI, simp, simp) (rule exI [of _ now2], rule exI [of _ t2], rule exI [of _ lpv2], auto)
  next
    case False
    have "\<forall>(now', t', lpv') \<in> set (us @ [u]). t' \<le> t" using mx False u by fastforce
    then show ?thesis unfolding fin Let_def using ab ok2 False m e(2,3) ts(5)
      by (intro conjI, simp, simp) (rule exI [of _ now], rule exI [of _ t], rule exI [of _ lpv], auto)
  qed
qed

text \<open>C14: The location table answers the newest position vector of a station, in whatever order its vectors arrive, for the lifetime of an entry.\<close>

theorem location_table_newest:
  assumes "us \<noteq> []" and "\<forall>(now, t, lpv) \<in> set us. mid_of lpv = k \<and> pv_timestamp lpv = word_of_int t"
    and "\<forall>(now, t, lpv) \<in> set us. \<forall>(now', t', lpv') \<in> set us. \<bar>t - t'\<bar> < 2 ^ 31" and "sorted (map fst us)" and "0 \<le> lifetime"
  shows "\<exists>(now, t, lpv) \<in> set us. (\<forall>(now', t', lpv') \<in> set us. t' \<le> t)
    \<and> (\<forall>now'. now' \<le> now + lifetime * 1000000 \<longrightarrow>
         get_position now' k (fold (\<lambda>(now, t, lpv). LocationTable_update now lpv) us (LocationTable_new lifetime)) = Some lpv)"
proof -
  have new: "lt_ok (LocationTable_new lifetime)" "lt_abs (LocationTable_new lifetime) k = None" "ss_lifetime (LocationTable_new lifetime) = lifetime * 1000000"
    using assms(5) by (simp_all add: lt_ok_def LocationTable_new_def SoftStateMap_new_def ss_inv_def ss_abs_def)
  let ?lt = "fold (\<lambda>(now, t, lpv). LocationTable_update now lpv) us (LocationTable_new lifetime)"
  have "lt_ok ?lt \<and> (\<exists>now t lpv e entry. (now, t, lpv) \<in> set us \<and> (\<forall>(now', t', lpv') \<in> set us. t' \<le> t)
      \<and> lt_abs ?lt k = Some (e, entry) \<and> le_position_vector entry = Some lpv \<and> now + lifetime * 1000000 \<le> e)"
    using location_table_run [OF assms(1-3) new(1,2) assms(4)] by (simp add: Let_def new(3))
  then obtain now t lpv e entry where ok: "lt_ok ?lt" and m: "(now, t, lpv) \<in> set us" "\<forall>(now', t', lpv') \<in> set us. t' \<le> t"
    and e: "lt_abs ?lt k = Some (e, entry)" "le_position_vector entry = Some lpv" "now + lifetime * 1000000 \<le> e" by blast
  have "get_position now' k ?lt = Some lpv" if "now' \<le> now + lifetime * 1000000" for now'
    using that e by (simp add: get_position_abs [OF ok])
  with m show ?thesis by (intro bexI [OF _ m(1)]) auto
qed


section \<open>Properties of the aggregation\<close>

definition largest :: "real list \<Rightarrow> real" where "largest xs = Max (insert 0 (set xs))"

definition second_largest :: "real list \<Rightarrow> real" where "second_largest xs = largest (remove1 (largest xs) xs)"

lemma largest_snoc: "largest (xs @ [c]) = max (largest xs) c"
proof -
  have "insert 0 (set (xs @ [c])) = insert c (insert 0 (set xs))" by auto
  then show ?thesis by (simp only: largest_def) (simp add: max.commute)
qed

lemma largest_in: "0 \<le> largest xs" "largest xs \<noteq> 0 \<Longrightarrow> largest xs \<in> set xs" "x \<in> set xs \<Longrightarrow> x \<le> largest xs"
  using Max_in [of "insert 0 (set xs)"] by (auto simp: largest_def)

lemma second_largest_snoc:
  assumes "0 \<le> c"
  shows "second_largest (xs @ [c]) = (if largest xs \<le> c then largest xs else max (second_largest xs) c)"
proof (cases "largest xs \<le> c")
  case True
  then have l: "largest (xs @ [c]) = c" by (simp add: largest_snoc)
  show ?thesis
  proof (cases "c \<in> set xs")
    case c: True
    then have "largest xs = c" using True largest_in(3) [of c xs] by simp
    moreover have "largest (remove1 c xs) \<le> c" using \<open>largest xs = c\<close> assms largest_in(3) [of _ xs]
      by (auto simp: largest_def dest: notin_set_remove1)
    ultimately show ?thesis using True c l by (simp add: second_largest_def remove1_append largest_snoc)
  next
    case False
    then show ?thesis using True l by (simp add: second_largest_def remove1_append)
  qed
next
  case False
  then have "largest (xs @ [c]) = largest xs" "largest xs \<noteq> 0" using assms by (simp_all add: largest_snoc)
  moreover have "largest xs \<in> set xs" using largest_in(2) calculation(2) by blast
  ultimately show ?thesis using False by (simp add: second_largest_def remove1_append largest_snoc)
qed

text \<open>Adding loads to a unit computes their mean and their two largest values.\<close>

lemma unit_fold:
  assumes "\<forall>x \<in> set xs. in_unit x"
  shows "fold unit_add xs CbrAggregatorUnit_new = \<lparr>au_n = length xs, au_average = sum_list xs / real (length xs), au_maximum0 = largest xs, au_maximum1 = second_largest xs\<rparr>"
  using assms
proof (induction xs rule: rev_induct)
  case Nil
  then show ?case by (simp add: CbrAggregatorUnit_new_def largest_def second_largest_def)
next
  case (snoc c xs)
  have sum: "0 \<le> sum_list (xs @ [c])" "sum_list (xs @ [c]) \<le> real (length (xs @ [c]))"
    using snoc.prems sum_list_nonneg [of "xs @ [c]"] sum_list_mono [of "xs @ [c]" "\<lambda>x. x" "\<lambda>x. 1"] by (auto simp: sum_list_triv add.commute)
  then have "unit_clamp (sum_list (xs @ [c]) / real (length (xs @ [c]))) = sum_list (xs @ [c]) / real (length (xs @ [c]))"
    by (intro unit_clamp_id) (simp_all add: divide_le_eq)
  moreover have "sum_list xs / real (length xs) * real (length xs) = sum_list xs" by (cases "xs = []") simp_all
  moreover have "0 \<le> c" using snoc.prems by simp
  ultimately show ?case using snoc by (auto simp: unit_add_def Let_def largest_snoc second_largest_snoc add.commute max_def)
qed

lemma remove1_mset_set: "mset xs = mset ys \<Longrightarrow> set (remove1 a xs) = set (remove1 a ys)"
  by (metis mset_remove1 set_mset_mset)

lemma unit_perm:
  assumes "mset xs = mset ys" and "\<forall>x \<in> set xs. in_unit x"
  shows "fold unit_add xs CbrAggregatorUnit_new = fold unit_add ys CbrAggregatorUnit_new"
proof -
  have s: "set xs = set ys" "length xs = length ys" "sum_list xs = sum_list ys" using assms(1) by (metis set_mset_mset, metis size_mset, metis sum_mset_sum_list)
  then have "largest xs = largest ys" by (simp add: largest_def)
  moreover have "second_largest xs = second_largest ys" using remove1_mset_set [OF assms(1)] calculation by (simp add: second_largest_def largest_def)
  ultimately show ?thesis using s assms(2) by (simp add: unit_fold)
qed

text \<open>The loads a table contributes: those of the visible entries that were updated since the given time.\<close>

definition recent_fields :: "Timestamp \<Rightarrow> (MacAddress \<times> LocationTableEntry) list \<Rightarrow> DccMcoField list" where
  "recent_fields lifetime es =
     concat (map (\<lambda>(mac, e). case le_loctex e of Some l \<Rightarrow> if \<not> ts_less (lx_local_update l) lifetime then [lx_dcc_mco l] else [] | None \<Rightarrow> []) es)"

lemma aggregate_fold:
  "fold (aggregate_entry lifetime) es (one, two) = (fold unit_add (map local_cbr (recent_fields lifetime es)) one, fold unit_add (map neighbour_cbr (recent_fields lifetime es)) two)"
  by (induction es arbitrary: one two) (auto simp: aggregate_entry_def recent_fields_def split: option.splits)

lemma cbr_in_unit: "in_unit (local_cbr m)" "in_unit (neighbour_cbr m)"
  by (simp_all add: local_cbr_def neighbour_cbr_def)

text \<open>Global load: the maximum of the previous local load and, for the loads neighbours measured and for the loads they heard of, the largest one
  when the mean exceeds the target and the second largest one otherwise.\<close>

definition hop_load :: "real \<Rightarrow> real list \<Rightarrow> real" where
  "hop_load target xs = (if sum_list xs / real (length xs) > target then largest xs else second_largest xs)"

theorem aggregate_correct:
  "let fields = recent_fields lifetime (map_range now lt)
   in aggregate now local_load lt lifetime target a =
     \<lparr>ca_local_cbr0 = local_load, ca_local_cbr1 = ca_local_cbr0 a, ca_one_hop_cbr = hop_load target (map local_cbr fields),
      ca_two_hop_cbr = hop_load target (map neighbour_cbr fields),
      ca_global_cbr = max (ca_local_cbr0 a) (max (hop_load target (map local_cbr fields)) (hop_load target (map neighbour_cbr fields)))\<rparr>"
  by (simp add: aggregate_def aggregate_fold Let_def unit_result_def hop_load_def unit_fold cbr_in_unit)

text \<open>The order in which the hash map visits its entries does not matter.\<close>

theorem aggregate_order_irrelevant:
  assumes "mset (map_range now lt) = mset (map_range now lt')"
  shows "aggregate now local_load lt lifetime target a = aggregate now local_load lt' lifetime target a"
proof -
  have m: "mset (recent_fields lifetime es) = (\<Sum>e \<in># mset es. mset (recent_fields lifetime [e]))" for es
    by (induction es) (simp_all add: recent_fields_def)
  have "mset (recent_fields lifetime (map_range now lt)) = mset (recent_fields lifetime (map_range now lt'))"
    by (subst (1 2) m) (simp only: assms)
  then have "fold unit_add (map f (recent_fields lifetime (map_range now lt))) CbrAggregatorUnit_new
      = fold unit_add (map f (recent_fields lifetime (map_range now lt'))) CbrAggregatorUnit_new" if "\<And>m. in_unit (f m)" for f
    using that by (intro unit_perm) auto
  then show ?thesis using cbr_in_unit by (simp add: aggregate_def aggregate_fold)
qed

text \<open>The random delay that should spread the first update cycles of stations created together has no effect: it is zero for every factor below one.\<close>

theorem initial_delay_vanishes: "0 \<le> delay \<Longrightarrow> delay < 1 \<Longrightarrow> snd (DccInformationSharing_new now target delay) = 0"
  by (simp add: DccInformationSharing_new_def trunc_int_def floor_eq_iff)


section \<open>Witnesses\<close>

definition example_later :: LongPositionVector where "example_later = example_vector\<lparr>pv_timestamp := 1100, pv_speed := 1400\<rparr>"

theorem location_table_newest_witness:
  "get_position 5000000 [2, 0, 0, 0, 0, 7] (fold (\<lambda>(now, t, lpv). LocationTable_update now lpv) [(0, 1100, example_later), (7, 1000, example_vector)] (LocationTable_new 20))
    = Some example_later"
  using location_table_newest [of "[(0, 1100, example_later), (7, 1000, example_vector)]" "[2, 0, 0, 0, 0, 7]" 20]
  by (auto simp: example_later_def example_vector_def)

definition example_entry :: "8 word \<Rightarrow> LocationTableEntry" where
  "example_entry load = (LocationTableEntry_new 0)\<lparr>le_loctex := Some \<lparr>lx_local_update = 5, lx_source_update = 0,
     lx_dcc_mco = \<lparr>mco_cbr_l0_hop = load, mco_cbr_l1_hop = 0, mco_output_power = 0\<rparr>\<rparr>\<rparr>"

definition example_table :: "(MacAddress \<times> LocationTableEntry) list \<Rightarrow> LocationTable" where
  "example_table es = fold (\<lambda>(k, e) lt. ss_modify (\<lambda>_. e) k (get_data 0 (LocationTableEntry_new 0) k lt)) es (LocationTable_new 20)"

theorem aggregate_order_irrelevant_witness:
  "aggregate 1 (1/2) (example_table [([1], example_entry 51), ([2], example_entry 102)]) 0 (6/10) CbrAggregator_new
    = aggregate 1 (1/2) (example_table [([2], example_entry 102), ([1], example_entry 51)]) 0 (6/10) CbrAggregator_new"
  using aggregate_order_irrelevant [of 1 "example_table [([1], example_entry 51), ([2], example_entry 102)]"
      "example_table [([2], example_entry 102), ([1], example_entry 51)]"]
  by (simp add: example_table_def map_range_def get_data_def get_data_ptr_def create_data_def ss_modify_def LocationTable_new_def SoftStateMap_new_def
      handle_expired_def is_expired_def add.commute)

theorem initial_delay_vanishes_witness: "snd (DccInformationSharing_new 0 (68/100) (99/100)) = 0"
  using initial_delay_vanishes [of "99/100" 0 "68/100"] by simp


end
