(* ===== verification/DccEntities.thy ===== *)
theory DccEntities
  imports LocationTables ChannelLoads
begin

text \<open>
  The DCC entities of a station, \<open>artery/networking/DccEntityBase\<close> with \<open>FsmDccEntity\<close>, \<open>LimericDccEntity\<close> and \<open>NoRateControlDccEntity\<close>: they wire the channel
  load of the radio through a probe processor, and possibly the information sharing among neighbours, to the rate control behind the
  flow control.  The callbacks they schedule run on the runtime of \<open>Runtimes\<close>; that composition discharges the laws of \<open>callbacks\<close>.
\<close>

section \<open>The rate controls behind one interface\<close>

datatype RateState = RateNone | RateReactive Reactive | RateBursty Bursty | RateLimeric Adaptive

fun rate_delay :: "int \<Rightarrow> Transmission \<Rightarrow> RateState \<Rightarrow> (int \<times> RateState) result" where
  "rate_delay now tx RateNone = rmap (\<lambda>(d, s). (d, RateNone)) (trc_delay NoopTransmitRateControl now tx ())"
| "rate_delay now tx (RateReactive s) = rmap (map_prod id RateReactive) (trc_delay SingleReactiveTransmitRateControl now tx s)"
| "rate_delay now tx (RateBursty s) = rmap (map_prod id RateBursty) (trc_delay BurstyTransmitRateControl now tx s)"
| "rate_delay now tx (RateLimeric s) = rmap (map_prod id RateLimeric) (trc_delay LimericTransmitRateControl now tx s)"

fun rate_interval :: "Transmission \<Rightarrow> RateState \<Rightarrow> int" where
  "rate_interval tx RateNone = trc_interval NoopTransmitRateControl tx ()"
| "rate_interval tx (RateReactive s) = trc_interval SingleReactiveTransmitRateControl tx s"
| "rate_interval tx (RateBursty s) = trc_interval BurstyTransmitRateControl tx s"
| "rate_interval tx (RateLimeric s) = trc_interval LimericTransmitRateControl tx s"

fun rate_notify :: "int \<Rightarrow> Transmission \<Rightarrow> RateState \<Rightarrow> RateState result" where
  "rate_notify now tx RateNone = rmap (\<lambda>s. RateNone) (trc_notify NoopTransmitRateControl now tx ())"
| "rate_notify now tx (RateReactive s) = rmap RateReactive (trc_notify SingleReactiveTransmitRateControl now tx s)"
| "rate_notify now tx (RateBursty s) = rmap RateBursty (trc_notify BurstyTransmitRateControl now tx s)"
| "rate_notify now tx (RateLimeric s) = rmap RateLimeric (trc_notify LimericTransmitRateControl now tx s)"

definition rate_control :: "RateState TransmitRateControl" where
  "rate_control = \<lparr>trc_delay = rate_delay, trc_interval = rate_interval, trc_notify = rate_notify\<rparr>"

section \<open>The entity\<close>

datatype ChannelProbeProcessor = HookedProcessor | SmoothingProcessor SmoothingChannelProbeProcessor

text \<open>\<open>de_error\<close> holds the error that a callback ran into.\<close>

record DccEntity =
  de_target_cbr :: real
  de_processor :: ChannelProbeProcessor
  de_sharing :: "DccInformationSharing option"
  de_flow :: "RateState FlowControl"
  de_error :: "cerror option"

datatype DccCallback = FlowTriggerCallback | SharingCallback | LimericCallback

fun ChannelProbeProcessor_indicate :: "real \<Rightarrow> ChannelProbeProcessor \<Rightarrow> ChannelProbeProcessor \<times> real" where
  "ChannelProbeProcessor_indicate cl HookedProcessor = (HookedProcessor, cl)"
| "ChannelProbeProcessor_indicate cl (SmoothingProcessor p) = apfst SmoothingProcessor (SmoothingChannelProbeProcessor_indicate cl p)"

definition initializeChannelProbeProcessor :: "string \<Rightarrow> ChannelProbeProcessor result" where
  "initializeChannelProbeProcessor name =
     (if name = ''Local'' then Inr HookedProcessor
      else if name = ''SmoothingLocal'' then Inr (SmoothingProcessor \<lparr>scp_alpha = 1/2, scp_channel_load = 0\<rparr>)
      else Inl (RuntimeError ''Unknown DCC channel probe processor''))"

text \<open>The random delay is an argument; the answer holds what is scheduled on the runtime.\<close>

definition initializeNetworkEntity :: "time_point \<Rightarrow> real \<Rightarrow> real \<Rightarrow> string \<Rightarrow> (DccInformationSharing option \<times> (time_point \<times> DccCallback) list) result" where
  "initializeNetworkEntity now target uniform name =
     (if name = [] \<or> name = ''Null'' then Inr (None, [])
      else if name = ''TwoHopChannelLoad'' then
        (let (sharing, delay) = DccInformationSharing_new now target (unit_clamp uniform) in Inr (Some sharing, [(now + delay, SharingCallback)]))
      else Inl (RuntimeError ''Unknown DCC network entity''))"

definition initializeStateMachine :: "string \<Rightarrow> StateMachine result" where
  "initializeStateMachine name =
     (if name = ''FullyMeshed'' then Inr (FullyMeshed FullyMeshedStateMachine_new)
      else if name = ''Gradual 500us'' then Inr (Gradual (GradualStateMachine_new etsiStates500us))
      else if name = ''Gradual 1ms'' then Inr (Gradual (GradualStateMachine_new etsiStates1ms))
      else Inl (RuntimeError ''Unknown DCC state machine''))"

definition fsm_initializeTransmitRateControl :: "StateMachine \<Rightarrow> string \<Rightarrow> RateState result" where
  "fsm_initializeTransmitRateControl fsm name =
     (if name = ''Bursty'' then Inr (RateBursty \<lparr>bu_burst_budget = BurstBudget_new, bu_fsm = fsm, bu_last_tx = None\<rparr>)
      else if name = ''StateMachine'' then Inr (RateReactive \<lparr>rc_fsm = fsm, rc_last_tx = None\<rparr>)
      else Inl (RuntimeError ''Unknown DCC Transmit Rate Control''))"

text \<open>Which entity a station has, with its parameters; for LIMERIC also what its budget's memory holds before it is set.\<close>

datatype DccEntityKind = FsmDccEntity string string | LimericDccEntity int | NoRateControlDccEntity

fun initializeTransmitRateControl :: "time_point \<Rightarrow> real \<Rightarrow> DccEntityKind \<Rightarrow> (RateState \<times> (time_point \<times> DccCallback) list) result" where
  "initializeTransmitRateControl now target (FsmDccEntity fsm trc) =
     rmap (\<lambda>s. (s, [])) (rbind (initializeStateMachine fsm) (\<lambda>m. fsm_initializeTransmitRateControl m trc))"
| "initializeTransmitRateControl now target (LimericDccEntity unset) =
     (let l = Limeric_new now (limericDefaultParams\<lparr>lp_cbr_target := target\<rparr>)
      in Inr (RateLimeric \<lparr>ad_limeric = l, ad_budget = LimericBudget_new unset\<rparr>, [(li_scheduled l, LimericCallback)]))"
| "initializeTransmitRateControl now target NoRateControlDccEntity = Inr (RateNone, [])"

definition DccEntity_initialize ::
  "time_point \<Rightarrow> real \<Rightarrow> string \<Rightarrow> real \<Rightarrow> string \<Rightarrow> DccEntityKind \<Rightarrow> nat \<Rightarrow> (DccEntity \<times> (time_point \<times> DccCallback) list) result" where
  "DccEntity_initialize now targetCbr processor uniform network kind queueLength =
     (let target = unit_clamp targetCbr
      in rbind (initializeChannelProbeProcessor processor) (\<lambda>p.
         rbind (initializeNetworkEntity now target uniform network) (\<lambda>(sharing, cbs1).
         rmap (\<lambda>(rate, cbs2). (\<lparr>de_target_cbr = target, de_processor = p, de_sharing = sharing, de_flow = FlowControl_new rate queueLength, de_error = None\<rparr>, cbs1 @ cbs2))
           (initializeTransmitRateControl now target kind))))"

fun rate_onGlobalCbr :: "real \<Rightarrow> RateState \<Rightarrow> RateState result" where
  "rate_onGlobalCbr cbr RateNone = Inr RateNone"
| "rate_onGlobalCbr cbr (RateReactive s) = rmap (\<lambda>m. RateReactive (s\<lparr>rc_fsm := m\<rparr>)) (StateMachine_update cbr (rc_fsm s))"
| "rate_onGlobalCbr cbr (RateBursty s) = rmap (\<lambda>m. RateBursty (s\<lparr>bu_fsm := m\<rparr>)) (StateMachine_update cbr (bu_fsm s))"
| "rate_onGlobalCbr cbr (RateLimeric s) = Inr (RateLimeric (s\<lparr>ad_limeric := Limeric_update_cbr cbr (ad_limeric s)\<rparr>))"

definition onGlobalCbr :: "real \<Rightarrow> DccEntity \<Rightarrow> DccEntity result" where
  "onGlobalCbr cbr e = rmap (\<lambda>s. e\<lparr>de_flow := (de_flow e)\<lparr>fc_trc := s\<rparr>\<rparr>) (rate_onGlobalCbr cbr (fc_trc (de_flow e)))"

definition onLocalCbr :: "real \<Rightarrow> DccEntity \<Rightarrow> DccEntity result" where
  "onLocalCbr cbr e = (case de_sharing e of Some s \<Rightarrow> Inr (e\<lparr>de_sharing := Some (update_local_cbr cbr s)\<rparr>) | None \<Rightarrow> onGlobalCbr cbr e)"

definition reportLocalChannelLoad :: "real \<Rightarrow> DccEntity \<Rightarrow> DccEntity result" where
  "reportLocalChannelLoad cbr e = (let (p, load) = ChannelProbeProcessor_indicate cbr (de_processor e) in onLocalCbr load (e\<lparr>de_processor := p\<rparr>))"

definition DccEntity_receiveSignal :: "real \<Rightarrow> DccEntity \<Rightarrow> DccEntity result" where
  "DccEntity_receiveSignal value e = (if value \<ge> 0 \<and> value \<le> 1 then reportLocalChannelLoad (unit_clamp value) e else Inl AssertionFailed)"

section \<open>Its callbacks\<close>

text \<open>The client of the runtime: the entity, and the location table of the router that the information sharing reads.\<close>

record DccClient =
  dc_entity :: DccEntity
  dc_table :: LocationTable

type_synonym DccRuntime = "(DccCallback, DccClient) Runtime"

text \<open>Operations on the entity answer the callbacks to schedule; the triggers of the flow control are handed over to the runtime.\<close>

definition hand_over :: "DccEntity \<Rightarrow> DccEntity \<times> (time_point \<times> DccCallback) list" where
  "hand_over e = (e\<lparr>de_flow := (de_flow e)\<lparr>fc_triggers := []\<rparr>\<rparr>, map (\<lambda>t. (t, FlowTriggerCallback)) (fc_triggers (de_flow e)))"

definition run_flow_trigger :: "time_point \<Rightarrow> DccEntity \<Rightarrow> (DccEntity \<times> (time_point \<times> DccCallback) list) result" where
  "run_flow_trigger now e = rmap (\<lambda>fc. hand_over (e\<lparr>de_flow := fc\<rparr>)) (FlowControl_trigger rate_control now (de_flow e))"

definition run_sharing :: "time_point \<Rightarrow> LocationTable \<Rightarrow> DccEntity \<Rightarrow> (DccEntity \<times> (time_point \<times> DccCallback) list) result" where
  "run_sharing now lt e =
     (case de_sharing e of
        Some s \<Rightarrow> (let (s', global) = DccInformationSharing_trigger now lt s
                    in rmap (\<lambda>e. (e, [(now + ds_trigger_interval, SharingCallback)])) (onGlobalCbr global (e\<lparr>de_sharing := Some s'\<rparr>)))
      | None \<Rightarrow> Inr (e, []))"

definition run_limeric :: "int \<Rightarrow> time_point \<Rightarrow> DccEntity \<Rightarrow> (DccEntity \<times> (time_point \<times> DccCallback) list) result" where
  "run_limeric unset now e =
     (case fc_trc (de_flow e) of
        RateLimeric s \<Rightarrow>
          (let s = s\<lparr>ad_limeric := Limeric_calculate now (ad_limeric s)\<rparr>; s = LimericTransmitRateControl_update unset now s
           in Inr (e\<lparr>de_flow := (de_flow e)\<lparr>fc_trc := RateLimeric s\<rparr>\<rparr>, [(li_scheduled (ad_limeric s), LimericCallback)]))
      | _ \<Rightarrow> Inr (e, []))"

fun run_callback :: "int \<Rightarrow> DccCallback \<Rightarrow> time_point \<Rightarrow> LocationTable \<Rightarrow> DccEntity \<Rightarrow> (DccEntity \<times> (time_point \<times> DccCallback) list) result" where
  "run_callback unset FlowTriggerCallback now lt e = run_flow_trigger now e"
| "run_callback unset SharingCallback now lt e = run_sharing now lt e"
| "run_callback unset LimericCallback now lt e = run_limeric unset now e"

text \<open>Callbacks of the flow control carry its scope, the others none.\<close>

definition schedule_all :: "(time_point \<times> DccCallback) list \<Rightarrow> DccCallback ManualRuntime \<Rightarrow> DccCallback ManualRuntime" where
  "schedule_all cbs rt = fold (\<lambda>(tp, cb). ManualRuntime_schedule tp cb (if cb = FlowTriggerCallback then Some 1 else None)) cbs rt"

text \<open>What a callback does on a runtime whose clock is up to date.  Scheduling is the last thing it does, so a callback that is due at once is the
  next one of the loop that runs it.\<close>

definition dcc_exec :: "int \<Rightarrow> (DccCallback, DccClient) exec" where
  "dcc_exec unset sim cb tp r =
     (let now = mr_now (rn_runtime r); c = rn_client r
      in case run_callback unset cb now (dc_table c) (dc_entity c) of
           Inr (e, cbs) \<Rightarrow> r\<lparr>rn_client := c\<lparr>dc_entity := e\<rparr>, rn_runtime := schedule_all cbs (rn_runtime r)\<rparr>
         | Inl err \<Rightarrow> r\<lparr>rn_client := c\<lparr>dc_entity := (dc_entity c)\<lparr>de_error := Some err\<rparr>\<rparr>\<rparr>)"

section \<open>Invariants\<close>

text \<open>A state machine whose intervals stay in range under every update.\<close>

fun fsm_wf :: "StateMachine \<Rightarrow> bool" where
  "fsm_wf (FullyMeshed m) \<longleftrightarrow> True"
| "fsm_wf (Gradual m) \<longleftrightarrow> gs_current m < length (gs_states m) \<and> (\<forall>(l, i) \<in> set (gs_states m). 0 \<le> i \<and> i \<le> max_delay)"

lemma fsm_wf_ok: "fsm_wf m \<Longrightarrow> fsm_ok m"
proof (cases m)
  case (FullyMeshed m')
  then show ?thesis using fm_interval_range [of m'] by (simp add: fsm_ok_def max_delay_def msec_def)
next
  case (Gradual m')
  assume "fsm_wf m"
  then have "gs_states m' ! gs_current m' \<in> set (gs_states m')" "\<forall>(l, i) \<in> set (gs_states m'). 0 \<le> i \<and> i \<le> max_delay" using Gradual by simp_all
  then show ?thesis using Gradual by (fastforce simp: fsm_ok_def gs_transmission_interval_def split: prod.splits)
qed

lemma fsm_update_wf: "fsm_wf m \<Longrightarrow> \<exists>m'. StateMachine_update cbr m = Inr m' \<and> fsm_wf m'"
proof (cases m)
  case (FullyMeshed m')
  have "\<exists>x. FullyMeshedStateMachine_update cbr m' = Inr x"
    using fm_activate_total by (auto simp: FullyMeshedStateMachine_update_def Let_def split: FmState.splits)
  then show ?thesis using FullyMeshed by auto
next
  case (Gradual m')
  assume "fsm_wf m"
  then show ?thesis using Gradual by (auto simp: GradualStateMachine_update_def Let_def)
qed

fun rate_state_ok :: "int \<Rightarrow> RateState \<Rightarrow> bool" where
  "rate_state_ok now RateNone \<longleftrightarrow> True"
| "rate_state_ok now (RateReactive s) \<longleftrightarrow> reactive_ok now s \<and> fsm_wf (rc_fsm s)"
| "rate_state_ok now (RateBursty s) \<longleftrightarrow> bursty_ok now s \<and> fsm_wf (bu_fsm s)"
| "rate_state_ok now (RateLimeric s) \<longleftrightarrow> adaptive_ok now s \<and> lp_cbr_interval (li_params (ad_limeric s)) = msec 100"

lemma rate_keeps_machine:
  "trc_delay SingleReactiveTransmitRateControl now tx r = Inr (d, r') \<Longrightarrow> rc_fsm r' = rc_fsm r"
  "trc_notify SingleReactiveTransmitRateControl now tx r = Inr r' \<Longrightarrow> rc_fsm r' = rc_fsm r"
  "trc_delay BurstyTransmitRateControl now tx b = Inr (d, b') \<Longrightarrow> bu_fsm b' = bu_fsm b"
  "trc_notify BurstyTransmitRateControl now tx b = Inr b' \<Longrightarrow> bu_fsm b' = bu_fsm b"
  "trc_delay LimericTransmitRateControl now tx a = Inr (d, a') \<Longrightarrow> ad_limeric a' = ad_limeric a"
  "trc_notify LimericTransmitRateControl now tx a = Inr a' \<Longrightarrow> ad_limeric a' = ad_limeric a"
  by (auto simp: SingleReactiveTransmitRateControl_def BurstyTransmitRateControl_def LimericTransmitRateControl_def Bursty_delay_def rmap_ok_iff
      split: Profile.splits)


lemma rate_wait_simps:
  "trc_wait rate_control now tx RateNone = 0"
  "trc_wait rate_control now tx (RateReactive r) = trc_wait SingleReactiveTransmitRateControl now tx r"
  "trc_wait rate_control now tx (RateBursty b) = trc_wait BurstyTransmitRateControl now tx b"
  "trc_wait rate_control now tx (RateLimeric a) = trc_wait LimericTransmitRateControl now tx a"
  by (auto simp: trc_wait_def rate_control_def NoopTransmitRateControl_def rmap_ok_iff split: sum.splits prod.splits)

lemma rate_delay_total:
  "rate_state_ok now s \<Longrightarrow> \<exists>delay s'. rate_delay now tx s = Inr (delay, s') \<and> 0 \<le> delay \<and> delay \<le> max_delay \<and> rate_state_ok now s'"
  using reactive.delay_total [of now _ tx] bursty.delay_total [of now _ tx] adaptive.delay_total [of now _ tx]
    rate_keeps_machine(1,3,5) [of now tx]
  by (cases s) (fastforce simp: max_delay_def msec_def NoopTransmitRateControl_def)+

lemma rate_notify_total: "rate_state_ok now s \<Longrightarrow> tx_ok tx \<Longrightarrow> \<exists>s'. rate_notify now tx s = Inr s' \<and> rate_state_ok now s'"
  using reactive.notify_total [of now _ tx] bursty.notify_total [of now _ tx] adaptive.notify_total [of now _ tx] rate_keeps_machine(2,4,6) [of now tx]
  by (cases s) (fastforce simp: NoopTransmitRateControl_def)+

interpretation rate: transmit_rate_control rate_control rate_state_ok
proof unfold_locales
  fix now later :: int and s s' :: RateState and tx tx' :: Transmission and delay :: int
  assume ok: "rate_state_ok now s"
  show "\<exists>delay s'. trc_delay rate_control now tx s = Inr (delay, s') \<and> 0 \<le> delay \<and> delay \<le> max_delay \<and> rate_state_ok now s'"
    using rate_delay_total [OF ok] by (simp add: rate_control_def)
  show "\<exists>s'. trc_notify rate_control now tx s = Inr s' \<and> rate_state_ok now s'" if "tx_ok tx"
    using rate_notify_total [OF ok that] by (simp add: rate_control_def)
  show "rate_state_ok later s" if "now \<le> later"
    using ok that reactive.ok_later bursty.ok_later adaptive.ok_later by (cases s) auto
  show "trc_wait rate_control now tx' s' = trc_wait rate_control now tx' s" if "trc_delay rate_control now tx s = Inr (delay, s')"
    using ok that reactive.delay_stable [of now _ tx] bursty.delay_stable [of now _ tx] adaptive.delay_stable [of now _ tx]
    by (cases s) (auto simp: rate_control_def rate_wait_simps [unfolded rate_control_def] rmap_ok_iff)
  show "trc_wait rate_control (now + delay) tx s' = 0" if "trc_delay rate_control now tx s = Inr (delay, s')"
    using ok that reactive.delay_elapses [of now _ tx] bursty.delay_elapses [of now _ tx] adaptive.delay_elapses [of now _ tx]
    by (cases s) (auto simp: rate_control_def rate_wait_simps [unfolded rate_control_def] rmap_ok_iff)
qed


text \<open>What a trigger of the flow control schedules: at most one more trigger, within the longest delay, and only while a packet is left.\<close>

context transmit_rate_control
begin

lemma trigger_schedules:
  assumes "fc_wf fc" and "ok now (fc_trc fc)" and "FlowControl_trigger trc now fc = Inr fc'"
  shows "\<exists>ts. fc_triggers fc' = fc_triggers fc @ ts \<and> length ts \<le> 1 \<and> (\<forall>t \<in> set ts. now \<le> t \<and> t \<le> now + max_delay)
    \<and> length ts + queued_total fc' \<le> queued_total fc"
proof -
  define fc1 where "fc1 = drop_expired now fc"
  have fc1: "fc_wf fc1" "ok now (fc_trc fc1)" "fc_triggers fc1 = fc_triggers fc" using assms drop_expired_wf by (simp_all add: fc1_def)
  obtain fc2 where fc2: "rbind (dequeue trc now fc1) (send_pending trc now) = Inr fc2" "fc_wf fc2" "ok now (fc_trc fc2)" "fc_triggers fc2 = fc_triggers fc1"
      "queued_total fc2 = queued_total fc1 - 1"
    using dequeue_send_spec [OF fc1(1,2)] by blast
  obtain s' ts where s': "schedule_next trc now fc2 = Inr (fc2\<lparr>fc_trc := s', fc_triggers := fc_triggers fc2 @ ts\<rparr>)"
      "if fc_empty fc2 then ts = [] else \<exists>ac. is_next trc now (fc_trc fc2) (fc_queues fc2) ac \<and> ts = [now + front_wait trc now (fc_trc fc2) (queue_at ac (fc_queues fc2))]"
    using schedule_next_spec [OF fc2(2,3)] by blast
  have fc': "fc' = fc2\<lparr>fc_trc := s', fc_triggers := fc_triggers fc2 @ ts\<rparr>"
    using assms(3) fc2(1) s'(1) by (simp add: FlowControl_trigger_def fc1_def)
  have "length ts \<le> 1" "\<forall>t \<in> set ts. now \<le> t \<and> t \<le> now + max_delay"
    using s'(2) wait_range [OF fc2(3)] by (auto simp: front_wait_def split: if_splits)
  moreover have "length ts + queued_total fc2 \<le> queued_total fc"
  proof (cases "fc_empty fc2")
    case True
    then show ?thesis using s'(2) fc2(5) queued_total_drop [of now fc] by (simp add: fc1_def)
  next
    case False
    then have "0 < queued_total fc2" using queued_total_zero [OF fc2(2)] by simp
    then show ?thesis using s'(2) fc2(5) False queued_total_drop [of now fc] \<open>length ts \<le> 1\<close> by (simp add: fc1_def)
  qed
  ultimately show ?thesis using fc' fc2(4) fc1(3) by simp
qed

end

definition sharing_ok :: "DccInformationSharing \<Rightarrow> bool" where
  "sharing_ok s \<longleftrightarrow> in_unit (ds_cbr_local s) \<and> in_unit (ca_local_cbr0 (ds_aggregator s))"

fun processor_ok :: "ChannelProbeProcessor \<Rightarrow> bool" where
  "processor_ok HookedProcessor \<longleftrightarrow> True"
| "processor_ok (SmoothingProcessor p) \<longleftrightarrow> in_unit (scp_alpha p) \<and> in_unit (scp_channel_load p)"

definition entity_ok :: "time_point \<Rightarrow> DccEntity \<Rightarrow> bool" where
  "entity_ok now e \<longleftrightarrow> fc_wf (de_flow e) \<and> fc_triggers (de_flow e) = [] \<and> rate_state_ok now (fc_trc (de_flow e))
     \<and> (\<forall>s. de_sharing e = Some s \<longrightarrow> sharing_ok s) \<and> processor_ok (de_processor e) \<and> de_error e = None"

lemma hop_load_unit: "\<forall>x \<in> set xs. in_unit x \<Longrightarrow> in_unit (hop_load target xs)"
proof -
  assume xs: "\<forall>x \<in> set xs. in_unit x"
  have "in_unit (largest ys)" if "\<forall>x \<in> set ys. in_unit x" for ys
    using that largest_in(1) [of ys] largest_in(2) [of ys] by (cases "largest ys = 0") auto
  moreover have "\<forall>x \<in> set (remove1 a xs). in_unit x" for a using xs by (meson notin_set_remove1)
  ultimately have "in_unit (largest xs)" "in_unit (second_largest xs)" using xs unfolding second_largest_def by blast+
  then show ?thesis by (simp add: hop_load_def)
qed

lemma sharing_trigger_ok:
  assumes "sharing_ok s"
  shows "sharing_ok (fst (DccInformationSharing_trigger now lt s)) \<and> in_unit (snd (DccInformationSharing_trigger now lt s))"
proof -
  let ?fs = "recent_fields (ds_last_aggregation s) (map_range now lt)"
  have "in_unit (hop_load t (map local_cbr ?fs))" "in_unit (hop_load t (map neighbour_cbr ?fs))" for t
    using cbr_in_unit by (auto intro!: hop_load_unit)
  then show ?thesis using assms aggregate_correct [of "ds_last_aggregation s" now lt "ds_cbr_local s" "ds_cbr_target s" "ds_aggregator s"]
    by (auto simp: DccInformationSharing_trigger_def sharing_ok_def Let_def max_def)
qed

lemma global_cbr_ok:
  assumes "entity_ok now e" and "in_unit cbr"
  shows "\<exists>s. onGlobalCbr cbr e = Inr (e\<lparr>de_flow := (de_flow e)\<lparr>fc_trc := s\<rparr>\<rparr>) \<and> rate_state_ok now s"
proof -
  have "\<exists>s'. rate_onGlobalCbr cbr s = Inr s' \<and> rate_state_ok now s'" if "rate_state_ok now s" for s
  proof (cases s)
    case (RateReactive r)
    then show ?thesis using that fsm_update_wf [of "rc_fsm r" cbr] fsm_wf_ok by (auto simp: reactive_ok_def)
  next
    case (RateBursty b)
    then show ?thesis using that fsm_update_wf [of "bu_fsm b" cbr] fsm_wf_ok by (auto simp: bursty_ok_def)
  next
    case (RateLimeric a)
    then show ?thesis using that limeric_update_ok [of "ad_limeric a" cbr] assms(2)
      by (auto simp: adaptive_ok_def Limeric_update_cbr_def Let_def)
  qed simp
  then obtain s' where "rate_onGlobalCbr cbr (fc_trc (de_flow e)) = Inr s'" "rate_state_ok now s'" using assms(1) unfolding entity_ok_def by blast
  then show ?thesis by (intro exI [of _ s']) (simp add: onGlobalCbr_def)
qed


lemma load_update_ok:
  assumes "entity_ok now e" and "in_unit value"
  shows "\<exists>e'. DccEntity_receiveSignal value e = Inr e' \<and> entity_ok now e'"
proof -
  obtain p load where p: "ChannelProbeProcessor_indicate value (de_processor e) = (p, load)" by fastforce
  have "processor_ok p \<and> in_unit load"
    using p assms by (cases "de_processor e") (auto simp: entity_ok_def SmoothingChannelProbeProcessor_indicate_def Let_def)
  moreover define e1 where "e1 = e\<lparr>de_processor := p\<rparr>"
  ultimately have e1: "entity_ok now e1" "in_unit load" using assms(1) by (simp_all add: entity_ok_def)
  have "\<exists>e'. onLocalCbr load e1 = Inr e' \<and> entity_ok now e'"
  proof (cases "de_sharing e1")
    case None
    then show ?thesis using global_cbr_ok [OF e1] e1(1) by (auto simp: onLocalCbr_def entity_ok_def fc_wf_def)
  next
    case (Some s)
    then show ?thesis using e1 by (auto simp: onLocalCbr_def entity_ok_def update_local_cbr_def sharing_ok_def)
  qed
  then show ?thesis using assms(2) p by (simp add: DccEntity_receiveSignal_def reportLocalChannelLoad_def unit_clamp_id e1_def)
qed

text \<open>A callback never fails, keeps the entity in order, schedules callbacks within the longest delay, and those that are due at once are paid for by
  packets that left the queues.\<close>

definition callback_fine :: "time_point \<Rightarrow> DccEntity \<Rightarrow> DccEntity \<times> (time_point \<times> DccCallback) list \<Rightarrow> bool" where
  "callback_fine now e = (\<lambda>(e', cbs). entity_ok now e' \<and> (\<forall>(tp, cb) \<in> set cbs. now \<le> tp \<and> tp \<le> now + max_delay)
     \<and> length (filter (\<lambda>(tp, cb). tp \<le> now) cbs) + queued_total (de_flow e') \<le> queued_total (de_flow e))"

lemma flow_trigger_fine: "entity_ok now e \<Longrightarrow> \<exists>r. run_flow_trigger now e = Inr r \<and> callback_fine now e r"
proof -
  assume ok: "entity_ok now e"
  then have fc: "fc_wf (de_flow e)" "rate_state_ok now (fc_trc (de_flow e))" "fc_triggers (de_flow e) = []" by (simp_all add: entity_ok_def)
  obtain fc' where fc': "FlowControl_trigger rate_control now (de_flow e) = Inr fc'" "fc_ok fc'" "rate_state_ok now (fc_trc fc')"
    using rate.trigger_spec [OF fc(1,2)] by blast
  obtain ts where ts: "fc_triggers fc' = ts" "\<forall>t \<in> set ts. now \<le> t \<and> t \<le> now + max_delay" "length ts + queued_total fc' \<le> queued_total (de_flow e)"
    using rate.trigger_schedules [OF fc(1,2) fc'(1)] fc(3) by auto
  have "length (filter (\<lambda>(tp, cb). tp \<le> now) (map (\<lambda>t. (t, FlowTriggerCallback)) ts)) \<le> length ts" by (metis length_filter_le length_map)
  then have "length (filter (\<lambda>(tp, cb). tp \<le> now) (map (\<lambda>t. (t, FlowTriggerCallback)) ts)) + queued_total fc' \<le> queued_total (de_flow e)" using ts(3) by linarith
  moreover have "entity_ok now (e\<lparr>de_flow := fc'\<lparr>fc_triggers := []\<rparr>\<rparr>)" using ok fc' by (simp add: entity_ok_def fc_ok_def fc_wf_def)
  ultimately have "callback_fine now e (hand_over (e\<lparr>de_flow := fc'\<rparr>))"
    using ts(1,2) unfolding callback_fine_def hand_over_def by auto
  then show ?thesis using fc'(1) by (simp add: run_flow_trigger_def)
qed

lemma sharing_fine: "entity_ok now e \<Longrightarrow> \<exists>r. run_sharing now lt e = Inr r \<and> callback_fine now e r"
proof (cases "de_sharing e")
  case None
  then show "entity_ok now e \<Longrightarrow> ?thesis" by (simp add: run_sharing_def callback_fine_def)
next
  case (Some s)
  assume ok: "entity_ok now e"
  obtain s' global where t: "DccInformationSharing_trigger now lt s = (s', global)" by fastforce
  then have s': "sharing_ok s'" "in_unit global" using sharing_trigger_ok [of s now lt] ok Some by (auto simp: entity_ok_def)
  then have "entity_ok now (e\<lparr>de_sharing := Some s'\<rparr>)" using ok by (simp add: entity_ok_def)
  from global_cbr_ok [OF this s'(2)] obtain r where
    "onGlobalCbr global (e\<lparr>de_sharing := Some s'\<rparr>) = Inr (e\<lparr>de_sharing := Some s', de_flow := (de_flow e)\<lparr>fc_trc := r\<rparr>\<rparr>)" "rate_state_ok now r" by auto
  then show ?thesis using Some t ok s' by (auto simp: run_sharing_def callback_fine_def entity_ok_def fc_wf_def ds_trigger_interval_def max_delay_def msec_def)
qed

lemma limeric_fine: "entity_ok now e \<Longrightarrow> 0 \<le> now \<Longrightarrow> \<exists>r. run_limeric unset now e = Inr r \<and> callback_fine now e r"
proof (cases "fc_trc (de_flow e)")
  case (RateLimeric s)
  assume ok: "entity_ok now e" and now: "0 \<le> now"
  then have s: "adaptive_ok now s" "lp_cbr_interval (li_params (ad_limeric s)) = msec 100" using RateLimeric by (simp_all add: entity_ok_def)
  let ?l = "Limeric_calculate now (ad_limeric s)"
  have l: "limeric_ok ?l" "li_params ?l = li_params (ad_limeric s)" "li_scheduled ?l = limeric_time (li_params (ad_limeric s)) now"
    using s limeric_calculate_ok by (simp_all add: adaptive_ok_def Limeric_calculate_def Limeric_schedule_def Let_def)
  have "now + msec 100 \<le> li_scheduled ?l" "li_scheduled ?l < now + 3 * msec 100"
    using limeric_schedule_aligned [of "li_params (ad_limeric s)" now] s(2) now l(3) by (simp_all add: msec_def)
  moreover have "adaptive_ok now (LimericTransmitRateControl_update unset now (s\<lparr>ad_limeric := ?l\<rparr>))"
    using s(1) l(1) by (auto simp: adaptive_ok_def LimericTransmitRateControl_update_def LimericBudget_update_def Let_def split: option.splits)
  ultimately show ?thesis using RateLimeric ok s(2) l(2)
    by (auto simp: run_limeric_def callback_fine_def entity_ok_def fc_wf_def Let_def LimericTransmitRateControl_update_def max_delay_def msec_def)
qed (auto simp: run_limeric_def callback_fine_def)

lemma callback_total: "entity_ok now e \<Longrightarrow> 0 \<le> now \<Longrightarrow> \<exists>r. run_callback unset cb now lt e = Inr r \<and> callback_fine now e r"
  using flow_trigger_fine sharing_fine limeric_fine by (cases cb) simp_all


section \<open>The entity on the runtime\<close>

definition dcc_horizon :: time_point where "dcc_horizon = 2 ^ 62"

definition dcc_ok :: "DccRuntime \<Rightarrow> bool" where
  "dcc_ok r \<longleftrightarrow> runtime_wf r \<and> 0 \<le> mr_now (rn_runtime r) \<and> mr_now (rn_runtime r) \<le> dcc_horizon \<and> entity_ok (mr_now (rn_runtime r)) (dc_entity (rn_client r))"

definition dcc_potential :: "DccClient \<Rightarrow> nat" where "dcc_potential c = queued_total (de_flow (dc_entity c))"

lemma length_filter_emplace: "length (filter P (emplace e es)) = length (filter P (e # es))"
  by (induction e es rule: emplace.induct) auto

lemma schedule_all_keeps:
  "mr_now (schedule_all cbs rt) = mr_now rt"
  "queue_sorted (mr_queue rt) \<Longrightarrow> queue_sorted (mr_queue (schedule_all cbs rt))"
  "sc_deadline ` set (mr_queue (schedule_all cbs rt)) = sc_deadline ` set (mr_queue rt) \<union> fst ` set cbs"
  "length (filter (\<lambda>e. sc_deadline e \<le> now) (mr_queue (schedule_all cbs rt)))
     = length (filter (\<lambda>e. sc_deadline e \<le> now) (mr_queue rt)) + length (filter (\<lambda>(tp, cb). tp \<le> now) cbs)"
  by (induction cbs arbitrary: rt)
     (auto simp: schedule_all_def ManualRuntime_schedule_def emplace_sorted set_emplace length_filter_emplace split: if_splits)

lemma dcc_exec_fine:
  assumes "dcc_ok r"
  shows "\<exists>e cbs. dcc_exec unset sim cb tp r = r\<lparr>rn_client := (rn_client r)\<lparr>dc_entity := e\<rparr>, rn_runtime := schedule_all cbs (rn_runtime r)\<rparr>
    \<and> callback_fine (mr_now (rn_runtime r)) (dc_entity (rn_client r)) (e, cbs)"
proof -
  obtain e cbs where "run_callback unset cb (mr_now (rn_runtime r)) (dc_table (rn_client r)) (dc_entity (rn_client r)) = Inr (e, cbs)"
    "callback_fine (mr_now (rn_runtime r)) (dc_entity (rn_client r)) (e, cbs)"
    using callback_total [of "mr_now (rn_runtime r)" "dc_entity (rn_client r)" unset cb "dc_table (rn_client r)"] assms by (auto simp: dcc_ok_def)
  then show ?thesis by (intro exI [of _ e] exI [of _ cbs]) (simp add: dcc_exec_def Let_def)
qed

lemma schedule_all_wf:
  assumes "runtime_wf r" and "mr_now (rn_runtime r) \<le> dcc_horizon" and "\<forall>(tp, cb) \<in> set cbs. tp \<le> mr_now (rn_runtime r) + max_delay"
  shows "runtime_wf (r\<lparr>rn_client := c, rn_runtime := schedule_all cbs (rn_runtime r)\<rparr>)"
proof -
  have "x < time_point_max" if "x \<in> sc_deadline ` set (mr_queue (schedule_all cbs (rn_runtime r)))" for x
    using that assms unfolding schedule_all_keeps(3) by (fastforce simp: runtime_wf_def dcc_horizon_def max_delay_def msec_def time_point_max_def)
  then show ?thesis using assms(1) by (simp add: runtime_wf_def schedule_all_keeps(2))
qed

interpretation dcc: callbacks "dcc_exec unset" dcc_ok dcc_potential dcc_horizon for unset :: int
proof unfold_locales
  fix r :: DccRuntime and entry queue u l tp sim cb
  assume ok: "dcc_ok r"
  show "runtime_wf r" using ok by (simp add: dcc_ok_def)
  show "dcc_ok (r\<lparr>rn_runtime := (rn_runtime r)\<lparr>mr_queue := queue\<rparr>\<rparr>)" if "mr_queue (rn_runtime r) = entry # queue"
    using ok that by (auto simp: dcc_ok_def runtime_wf_def queue_sorted_def)
  show "dcc_ok (r\<lparr>rn_runtime := (rn_runtime r)\<lparr>mr_now := tp\<rparr>\<rparr>)" if "mr_now (rn_runtime r) \<le> tp" "tp \<le> dcc_horizon"
    using ok that rate.ok_later by (auto simp: dcc_ok_def runtime_wf_def entity_ok_def)
  obtain e cbs where e: "dcc_exec unset sim cb tp r = r\<lparr>rn_client := (rn_client r)\<lparr>dc_entity := e\<rparr>, rn_runtime := schedule_all cbs (rn_runtime r)\<rparr>"
    and f: "callback_fine (mr_now (rn_runtime r)) (dc_entity (rn_client r)) (e, cbs)" using dcc_exec_fine [OF ok] by blast
  show "dcc_ok (dcc_exec unset sim cb tp r)"
    unfolding e using ok f schedule_all_wf [of r cbs "(rn_client r)\<lparr>dc_entity := e\<rparr>"] by (auto simp: dcc_ok_def callback_fine_def schedule_all_keeps(1))
  show "mr_now (rn_runtime (dcc_exec unset sim cb tp r)) = mr_now (rn_runtime r) \<and> rn_timer (dcc_exec unset sim cb tp r) = rn_timer r
      \<and> rn_last (dcc_exec unset sim cb tp r) = rn_last r"
    unfolding e by (simp add: schedule_all_keeps(1))
  show "due (dcc_exec unset sim cb tp r) + dcc_potential (rn_client (dcc_exec unset sim cb tp r)) \<le> due r + dcc_potential (rn_client r)"
    unfolding e using f by (simp add: due_def schedule_all_keeps(1,4) dcc_potential_def callback_fine_def)
qed (simp_all add: dcc_ok_def runtime_wf_def)

section \<open>Properties\<close>

text \<open>C9: The DCC callbacks of a station are punctual: on a synchronised runtime the update event arrives exactly at the next deadline, the handler runs
  every flow control trigger, load aggregation and LIMERIC calculation due then without an error, returns, and leaves the runtime synchronised.\<close>

theorem dcc_callbacks_punctual:
  assumes "dcc_ok r" and "runtime_synced sim r" and "0 \<le> sim" and "mr_queue (rn_runtime r) \<noteq> []" and "ManualRuntime_next (rn_runtime r) \<le> dcc_horizon"
  shows "\<exists>sim' r'. rn_update r = Some sim' \<and> sim < sim' \<and> Timer_getCurrentTime (rn_timer r) sim' = ManualRuntime_next (rn_runtime r)
    \<and> Runtime_handleMessage (dcc_exec unset) sim' r = Some (Inr r') \<and> dcc_ok r' \<and> runtime_synced sim' r'"
  by (rule dcc.handle_synced [OF assms])


definition known_entity :: "string \<Rightarrow> string \<Rightarrow> DccEntityKind \<Rightarrow> bool" where
  "known_entity processor network kind \<longleftrightarrow> processor \<in> {''Local'', ''SmoothingLocal''} \<and> network \<in> {[], ''Null'', ''TwoHopChannelLoad''}
     \<and> (case kind of FsmDccEntity fsm trc \<Rightarrow> fsm \<in> {''FullyMeshed'', ''Gradual 500us'', ''Gradual 1ms''} \<and> trc \<in> {''Bursty'', ''StateMachine''} | _ \<Rightarrow> True)"

lemma initial_rate_ok:
  assumes "initializeTransmitRateControl now target kind = Inr (rate, cbs)" and "in_unit target" and "0 \<le> now"
  shows "rate_state_ok now rate \<and> (\<forall>(tp, cb) \<in> set cbs. now \<le> tp \<and> tp \<le> now + max_delay)"
proof (cases kind)
  case (FsmDccEntity fsm trc)
  have m: "fsm_wf m" if "initializeStateMachine fsm = Inr m" for m
    using that by (auto simp: initializeStateMachine_def GradualStateMachine_new_def etsiStates500us_def etsiStates1ms_def max_delay_def msec_def split: if_splits)
  obtain m where "initializeStateMachine fsm = Inr m" "fsm_initializeTransmitRateControl m trc = Inr rate" "cbs = []"
    using assms(1) FsmDccEntity by (auto simp: rmap_ok_iff rbind_ok_iff)
  then show ?thesis using m [of m] fsm_wf_ok [of m]
    by (auto simp: fsm_initializeTransmitRateControl_def reactive_ok_def bursty_ok_def last_tx_ok_def burst_ok_def BurstBudget_new_def T_Burst_def T_BurstPeriod_def
        max_delay_def msec_def split: if_splits)
next
  case (LimericDccEntity unset)
  let ?p = "limericDefaultParams\<lparr>lp_cbr_target := target\<rparr>"
  have p: "limeric_params_ok ?p" using limeric_default_ok assms(2) by (simp add: limeric_params_ok_def limericDefaultParams_def)
  have "lp_cbr_interval ?p = msec 100" by (simp add: limericDefaultParams_def)
  then have "now \<le> limeric_time ?p now" "limeric_time ?p now \<le> now + max_delay"
    using limeric_schedule_aligned [of ?p now] assms(3) by (simp_all add: msec_def max_delay_def)
  then show ?thesis using assms(1) LimericDccEntity limeric_new_ok [OF p, of now] \<open>lp_cbr_interval ?p = msec 100\<close>
    by (auto simp: adaptive_ok_def LimericBudget_new_def last_tx_ok_def Limeric_new_def Limeric_schedule_def Let_def)
next
  case NoRateControlDccEntity
  then show ?thesis using assms(1) by auto
qed

text \<open>An entity is set up exactly when its parameters name known parts; it starts in order, with its first callbacks within the longest delay.\<close>

theorem entity_set_up:
  assumes "0 \<le> now" and "in_unit uniform"
  shows "((\<exists>r. DccEntity_initialize now targetCbr processor uniform network kind queueLength = Inr r) \<longleftrightarrow> known_entity processor network kind)
    \<and> (\<forall>e cbs. DccEntity_initialize now targetCbr processor uniform network kind queueLength = Inr (e, cbs) \<longrightarrow>
      entity_ok now e \<and> (\<forall>(tp, cb) \<in> set cbs. now \<le> tp \<and> tp \<le> now + max_delay))"
proof (intro conjI allI impI)
  show "(\<exists>r. DccEntity_initialize now targetCbr processor uniform network kind queueLength = Inr r) \<longleftrightarrow> known_entity processor network kind"
    by (cases kind) (auto simp: DccEntity_initialize_def known_entity_def initializeChannelProbeProcessor_def initializeNetworkEntity_def initializeStateMachine_def
        fsm_initializeTransmitRateControl_def Let_def split_beta)
  fix e cbs
  assume e: "DccEntity_initialize now targetCbr processor uniform network kind queueLength = Inr (e, cbs)"
  let ?t = "unit_clamp targetCbr"
  obtain p sharing cbs1 rate cbs2 where init: "initializeChannelProbeProcessor processor = Inr p" "initializeNetworkEntity now ?t uniform network = Inr (sharing, cbs1)"
    "initializeTransmitRateControl now ?t kind = Inr (rate, cbs2)"
    "e = \<lparr>de_target_cbr = ?t, de_processor = p, de_sharing = sharing, de_flow = FlowControl_new rate queueLength, de_error = None\<rparr>" "cbs = cbs1 @ cbs2"
    using e by (auto simp: DccEntity_initialize_def Let_def rbind_ok_iff rmap_ok_iff)
  have r: "rate_state_ok now rate \<and> (\<forall>(tp, cb) \<in> set cbs2. now \<le> tp \<and> tp \<le> now + max_delay)" using initial_rate_ok [OF init(3)] assms(1) by simp
  have "0 \<le> trunc_int uniform" "trunc_int uniform \<le> 1" using assms(2) by (simp_all add: trunc_int_def floor_le_iff)
  then have s: "(\<forall>s. sharing = Some s \<longrightarrow> sharing_ok s) \<and> (\<forall>(tp, cb) \<in> set cbs1. now \<le> tp \<and> tp \<le> now + max_delay)"
    using init(2) assms(2)
    by (auto simp: initializeNetworkEntity_def DccInformationSharing_new_def sharing_ok_def CbrAggregator_new_def ds_trigger_interval_def max_delay_def msec_def
        unit_clamp_id split: if_splits)
  have p: "processor_ok p" using init(1) by (auto simp: initializeChannelProbeProcessor_def split: if_splits)
  have f: "fc_wf (FlowControl_new rate queueLength)" "fc_triggers (FlowControl_new rate queueLength) = []" "fc_trc (FlowControl_new rate queueLength) = rate"
    using new_ok [of rate queueLength] by (simp_all add: fc_ok_def FlowControl_new_def)
  show "entity_ok now e" using r s p f unfolding init(4) entity_ok_def by auto
  show "\<forall>(tp, cb) \<in> set cbs. now \<le> tp \<and> tp \<le> now + max_delay" using r s init(5) by auto
qed

text \<open>C28: In every run of the reception process that ends before 34000 seconds of simulated time, whatever the radio does, the channel loads it
  reports do not fail the assertion of the entity: the entity takes every load and stays in order.  (The limit keeps the length of a period,
  a number of 32 bits that counts 8 microseconds each, clear of its wrap-around after 34359 seconds, where a ratio above one would fail it.)\<close>

theorem radio_loads_accepted:
  assumes "rx_run evs (VanetRx_initialize t) = Inr (rx, loads)" and "0 \<le> t" and "sorted (t # map fst evs)" and "\<forall>e \<in> set evs. fst e < run_limit" and "t < run_limit"
    and "entity_ok now e"
  shows "\<exists>e'. rfold DccEntity_receiveSignal loads e = Inr e' \<and> entity_ok now e'"
proof -
  have "\<forall>l \<in> set loads. in_unit l" using reported_loads_in_range [OF assms(1-5)] by blast
  then show ?thesis using assms(6)
  proof (induction loads arbitrary: e)
    case (Cons l loads)
    then show ?case using load_update_ok [of now e l] by fastforce
  qed simp
qed


section \<open>Witnesses\<close>

definition example_dcc_entity :: DccEntity where
  "example_dcc_entity = \<lparr>de_target_cbr = 68/100, de_processor = HookedProcessor,
     de_sharing = Some \<lparr>ds_cbr_target = 68/100, ds_cbr_local = 0, ds_aggregator = CbrAggregator_new, ds_last_aggregation = 0\<rparr>,
     de_flow = FlowControl_new (RateReactive \<lparr>rc_fsm = FullyMeshed FullyMeshedStateMachine_new, rc_last_tx = None\<rparr>) 4, de_error = None\<rparr>"

lemma example_entity_ok: "entity_ok 0 example_dcc_entity"
  using new_ok [of "RateReactive \<lparr>rc_fsm = FullyMeshed FullyMeshedStateMachine_new, rc_last_tx = None\<rparr>" 4]
    fsm_wf_ok [of "FullyMeshed FullyMeshedStateMachine_new"]
  by (simp add: entity_ok_def example_dcc_entity_def fc_ok_def sharing_ok_def CbrAggregator_new_def reactive_ok_def last_tx_ok_def FlowControl_new_def)

definition example_dcc_runtime :: DccRuntime where
  "example_dcc_runtime = \<lparr>rn_timer = \<lparr>mTimebase = 0\<rparr>, rn_runtime = \<lparr>mr_now = 0, mr_queue = [\<lparr>sc_deadline = 100000, sc_callback = SharingCallback, sc_scope = None\<rparr>]\<rparr>,
     rn_update = Some (simtime_ms 100), rn_last = 0, rn_client = \<lparr>dc_entity = example_dcc_entity, dc_table = LocationTable_new 20\<rparr>\<rparr>"

lemma example_runtime_synced: "dcc_ok example_dcc_runtime" "runtime_synced 0 example_dcc_runtime"
proof -
  show "dcc_ok example_dcc_runtime" using example_entity_ok
    by (simp add: dcc_ok_def example_dcc_runtime_def runtime_wf_def queue_sorted_def time_point_max_def dcc_horizon_def)
  show "runtime_synced 0 example_dcc_runtime"
    by (simp add: runtime_synced_def example_dcc_runtime_def due_def convertSimTime_def ManualRuntime_next_def Timer_getCurrentTime_def Timer_getTimeFor_sim_def
        in_us_def simtime_us_def simtime_ms_def)
qed

theorem dcc_callbacks_punctual_witness:
  "\<exists>r'. Runtime_handleMessage (dcc_exec 0) (simtime_ms 100) example_dcc_runtime = Some (Inr r') \<and> runtime_synced (simtime_ms 100) r'"
  using dcc_callbacks_punctual [OF example_runtime_synced, of 0]
  by (auto simp: example_dcc_runtime_def ManualRuntime_next_def dcc_horizon_def)

theorem entity_set_up_witness:
  "\<exists>e cbs. DccEntity_initialize 0 (68/100) ''Local'' (1/2) ''TwoHopChannelLoad'' (FsmDccEntity ''FullyMeshed'' ''Bursty'') 0 = Inr (e, cbs) \<and> entity_ok 0 e"
  using entity_set_up [of 0 "1/2" "68/100" "''Local''" "''TwoHopChannelLoad''" "FsmDccEntity ''FullyMeshed'' ''Bursty''" 0] by (auto simp: known_entity_def)

theorem radio_loads_accepted_witness:
  "\<exists>rx loads e'. rx_run [(simtime_us 80, ReceptionStateChanged RECEPTION_STATE_IDLE), (simtime_ms 100, ChannelReport)] (VanetRx_initialize 0) = Inr (rx, loads)
     \<and> rfold DccEntity_receiveSignal loads example_dcc_entity = Inr e' \<and> entity_ok 0 e'"
proof -
  let ?evs = "[(simtime_us 80, ReceptionStateChanged RECEPTION_STATE_IDLE), (simtime_ms 100, ChannelReport)]"
  obtain rx loads where run: "rx_run ?evs (VanetRx_initialize 0) = Inr (rx, loads)" by (simp add: case_prod_beta)
  have "sorted (0 # map fst ?evs)" "\<forall>e \<in> set ?evs. fst e < run_limit" "0 < run_limit"
    by (simp_all add: simtime_us_def simtime_ms_def run_limit_def simtime_s_def)
  from radio_loads_accepted [OF run _ this example_entity_ok] run show ?thesis by auto
qed


end
