(* ===== verification/PacketBuffers.thy ===== *)
theory PacketBuffers
  imports GnCodec Runtimes "HOL-Library.Multiset"
begin

text \<open>
  Packets that wait in a GeoNetworking router, \<open>vanetza/geonet\<close>: the data unit \<open>ExtendedPdu\<close>, \<open>pending_packet\<close>, \<open>packet_buffer\<close> for packets without a next hop
  and \<open>cbf_packet_buffer\<close> for contention based forwarding, where a packet waits for a timer and is dropped when a copy of it arrives first.
  An action of a pending packet is a value of the type \<open>'a\<close> that the router interprets.  Byte counts are integers; the invariants show that they never leave the
  range of \<open>size_t\<close>.
\<close>

section \<open>Data units\<close>

text \<open>A secured message is given by its octets.\<close>

record 'h ExtendedPdu =
  ep_basic :: BasicHeader
  ep_common :: CommonHeader
  ep_extended :: 'h
  ep_secured :: "octets option"

type_synonym GbcPdu = "GbcGacHeader ExtendedPdu"
type_synonym ShbPdu = "ShbHeader ExtendedPdu"
type_synonym BeaconPdu = "LongPositionVector ExtendedPdu"

text \<open>\<open>variant\<close> is the alternative of \<open>HeaderVariant\<close> that \<open>extended_variant\<close> answers.\<close>

definition Pdu_serialize :: "('h \<Rightarrow> HeaderVariant) \<Rightarrow> 'h ExtendedPdu \<Rightarrow> octets" where
  "Pdu_serialize variant pdu =
     put_basic (ep_basic pdu) @ (case ep_secured pdu of Some m \<Rightarrow> m | None \<Rightarrow> put_common (ep_common pdu) @ put_extended (variant (ep_extended pdu)))"

definition Pdu_get_length :: "('h \<Rightarrow> HeaderVariant) \<Rightarrow> 'h ExtendedPdu \<Rightarrow> nat" where
  "Pdu_get_length variant pdu = 4 + (case ep_secured pdu of Some m \<Rightarrow> length m | None \<Rightarrow> 8 + extended_length (variant (ep_extended pdu)))"

section \<open>Pending packets\<close>

text \<open>The pointers to the data unit and the payload are null only in packets that have been moved from, which nothing uses any more.\<close>

record ('h, 'a) PendingPacket =
  pp_pdu :: "'h ExtendedPdu"
  pp_payload :: octets
  pp_action :: 'a

definition pp_length :: "('h \<Rightarrow> HeaderVariant) \<Rightarrow> ('h, 'a) PendingPacket \<Rightarrow> int" where
  "pp_length variant p = int (Pdu_get_length variant (pp_pdu p) + length (pp_payload p))"

definition clock_cast :: "real \<Rightarrow> int" where "clock_cast seconds = trunc_int (seconds * 1000000)"

definition clock_uncast :: "int \<Rightarrow> real" where "clock_uncast d = of_int d / 1000000"

definition set_lifetime :: "Lifetime \<Rightarrow> ('h, 'a) PendingPacket \<Rightarrow> ('h, 'a) PendingPacket" where
  "set_lifetime lt p = p\<lparr>pp_pdu := (pp_pdu p)\<lparr>ep_basic := (ep_basic (pp_pdu p))\<lparr>bh_lifetime := lt\<rparr>\<rparr>\<rparr>"

definition pp_reduce_lifetime :: "int \<Rightarrow> ('h, 'a) PendingPacket \<Rightarrow> int \<times> ('h, 'a) PendingPacket" where
  "pp_reduce_lifetime queuing_time p =
     (let packet_lifetime = clock_cast (Lifetime_decode (bh_lifetime (ep_basic (pp_pdu p))))
      in if queuing_time \<le> 0 then (packet_lifetime, p)
         else if queuing_time < packet_lifetime then
           (let remaining = packet_lifetime - queuing_time in (remaining, set_lifetime (Lifetime_encode (clock_uncast remaining)) p))
         else (0, set_lifetime (Lifetime_set Fifty_Milliseconds 0) p))"

text \<open>A secured packet keeps its payload in the secured message.\<close>

definition pp_duplicate :: "('h, 'a) PendingPacket \<Rightarrow> ('h, 'a) PendingPacket" where
  "pp_duplicate p = p\<lparr>pp_payload := (if ep_secured (pp_pdu p) \<noteq> None then [] else pp_payload p)\<rparr>"

section \<open>The packet buffer\<close>

record Expiry =
  ex_buffered_since :: time_point
  ex_expires_at :: time_point

definition Expiry_new :: "time_point \<Rightarrow> int \<Rightarrow> Expiry" where
  "Expiry_new now lifetime = \<lparr>ex_buffered_since = now, ex_expires_at = now + lifetime\<rparr>"

definition Expiry_is_expired :: "time_point \<Rightarrow> Expiry \<Rightarrow> bool" where
  "Expiry_is_expired now e \<longleftrightarrow> ex_expires_at e < now"

text \<open>The methods of \<open>packet_buffer::Data\<close> that the buffer calls while it holds the data.\<close>

record 'd DataInterface =
  da_length :: "'d \<Rightarrow> int"
  da_reduce_lifetime :: "int \<Rightarrow> 'd \<Rightarrow> int \<times> 'd"

record 'd PacketBuffer =
  pb_nodes :: "(Expiry \<times> 'd) list"
  pb_capacity :: int
  pb_stored :: int

definition PacketBuffer_new :: "int \<Rightarrow> 'd PacketBuffer" where
  "PacketBuffer_new capacity = \<lparr>pb_nodes = [], pb_capacity = capacity, pb_stored = 0\<rparr>"

definition pb_free :: "'d PacketBuffer \<Rightarrow> int" where "pb_free b = pb_capacity b - pb_stored b"

definition drop_head :: "'d DataInterface \<Rightarrow> 'd PacketBuffer \<Rightarrow> bool \<times> 'd PacketBuffer" where
  "drop_head da b =
     (case pb_nodes b of
        [] \<Rightarrow> (False, b)
      | (e, data) # nodes \<Rightarrow> (True, b\<lparr>pb_stored := pb_stored b - da_length da data, pb_nodes := nodes\<rparr>))"

fun pb_erase_expired :: "'d DataInterface \<Rightarrow> time_point \<Rightarrow> (Expiry \<times> 'd) list \<Rightarrow> int \<Rightarrow> (Expiry \<times> 'd) list \<times> int" where
  "pb_erase_expired da now [] stored = ([], stored)"
| "pb_erase_expired da now ((e, data) # nodes) stored =
     (if Expiry_is_expired now e then pb_erase_expired da now nodes (stored - da_length da data)
      else apfst ((#) (e, data)) (pb_erase_expired da now nodes stored))"

definition pb_drop_expired :: "'d DataInterface \<Rightarrow> time_point \<Rightarrow> 'd PacketBuffer \<Rightarrow> 'd PacketBuffer" where
  "pb_drop_expired da now b = (let (nodes, stored) = pb_erase_expired da now (pb_nodes b) (pb_stored b) in b\<lparr>pb_nodes := nodes, pb_stored := stored\<rparr>)"

function pb_drop :: "'d DataInterface \<Rightarrow> int \<Rightarrow> 'd PacketBuffer \<Rightarrow> bool \<times> 'd PacketBuffer" where
  "pb_drop da bytes b =
     (if pb_free b < bytes then (let (dropped, b') = drop_head da b in if dropped then pb_drop da bytes b' else (False, b'))
      else (True, b))"
  by pat_completeness auto

termination
  by (relation "measure (\<lambda>(da, bytes, b). length (pb_nodes b))") (auto simp: drop_head_def split: list.splits prod.splits)

declare pb_drop.simps [simp del]

definition PacketBuffer_push :: "'d DataInterface \<Rightarrow> 'd \<Rightarrow> time_point \<Rightarrow> 'd PacketBuffer \<Rightarrow> bool \<times> 'd PacketBuffer" where
  "PacketBuffer_push da data now b =
     (let b = pb_drop_expired da now b; (enough, b) = pb_drop da (da_length da data) b
      in if enough then
           (let (lifetime, data') = da_reduce_lifetime da 0 data
            in (True, b\<lparr>pb_stored := pb_stored b + da_length da data, pb_nodes := pb_nodes b @ [(Expiry_new now lifetime, data')]\<rparr>))
         else (False, b))"

text \<open>The loop of \<open>flush\<close> over the nodes taken out of the buffer; it answers the data to be processed, in order.  Processing may push data into the buffer,
  which is empty then, and does not reach the nodes of the loop.\<close>

fun flush_nodes :: "'d DataInterface \<Rightarrow> time_point \<Rightarrow> (Expiry \<times> 'd) list \<Rightarrow> 'd list" where
  "flush_nodes da now [] = []"
| "flush_nodes da now ((e, data) # nodes) =
     (if \<not> Expiry_is_expired now e then snd (da_reduce_lifetime da (now - ex_buffered_since e) data) # flush_nodes da now nodes
      else flush_nodes da now nodes)"

definition PacketBuffer_flush :: "'d DataInterface \<Rightarrow> time_point \<Rightarrow> 'd PacketBuffer \<Rightarrow> 'd list \<times> 'd PacketBuffer" where
  "PacketBuffer_flush da now b = (flush_nodes da now (pb_nodes b), b\<lparr>pb_nodes := [], pb_stored := 0\<rparr>)"

section \<open>The buffer for contention based forwarding\<close>

text \<open>What the parts of a router schedule on the runtime: the flush of this buffer, a repetition and a beacon.\<close>

datatype RouterCallback = CbfFlushCallback | RepetitionCallback nat | BeaconCallback

type_synonym RouterQueue = "RouterCallback ManualRuntime"

record 'a CbfPacket =
  cp_packet :: "(GbcGacHeader, 'a) PendingPacket"
  cp_sender :: MacAddress
  cp_counter :: "32 word"

definition CbfPacket_new :: "(GbcGacHeader, 'a) PendingPacket \<Rightarrow> MacAddress \<Rightarrow> 'a CbfPacket" where
  "CbfPacket_new packet sender = \<lparr>cp_packet = packet, cp_sender = sender, cp_counter = 1\<rparr>"

definition cp_source :: "'a CbfPacket \<Rightarrow> Address" where
  "cp_source c = pv_gn_addr (gbc_source_position (ep_extended (pp_pdu (cp_packet c))))"

definition cp_sequence_number :: "'a CbfPacket \<Rightarrow> SequenceNumber" where
  "cp_sequence_number c = gbc_sequence_number (ep_extended (pp_pdu (cp_packet c)))"

type_synonym CbfPacketIdentifier = "Address \<times> SequenceNumber"

definition cp_identifier :: "'a CbfPacket \<Rightarrow> CbfPacketIdentifier" where
  "cp_identifier c = (cp_source c, cp_sequence_number c)"

definition cp_length :: "'a CbfPacket \<Rightarrow> int" where "cp_length c = pp_length GbcVariant (cp_packet c)"

definition cp_reduce_lifetime :: "int \<Rightarrow> 'a CbfPacket \<Rightarrow> int \<times> 'a CbfPacket" where
  "cp_reduce_lifetime d c = (let (remaining, p) = pp_reduce_lifetime d (cp_packet c) in (remaining, c\<lparr>cp_packet := p\<rparr>))"

record CbfTimer =
  ct_expiry :: time_point
  ct_start :: time_point

definition CbfTimer_new :: "'c ManualRuntime \<Rightarrow> int \<Rightarrow> CbfTimer" where
  "CbfTimer_new rt timeout = \<lparr>ct_expiry = mr_now rt + timeout, ct_start = mr_now rt\<rparr>"

definition CbfTimer_less :: "CbfTimer \<Rightarrow> CbfTimer \<Rightarrow> bool" where
  "CbfTimer_less t u \<longleftrightarrow> ct_expiry t < ct_expiry u"

text \<open>An element of the list of packets is found by its iterator, a number; an element of the bimap holds timer, identifier and iterator, and the bimap
  lists its elements by timer, equal ones by insertion.\<close>

type_synonym timer_bimap = "(CbfTimer \<times> CbfPacketIdentifier \<times> nat) list"

record 'a CbfPacketBuffer =
  cb_packets :: "(nat \<times> 'a CbfPacket) list"
  cb_fresh :: nat
  cb_timers :: timer_bimap
  cb_capacity_bytes :: int
  cb_stored_bytes :: int

definition CbfPacketBuffer_new :: "int \<Rightarrow> 'a CbfPacketBuffer" where
  "CbfPacketBuffer_new bytes = \<lparr>cb_packets = [], cb_fresh = 0, cb_timers = [], cb_capacity_bytes = bytes, cb_stored_bytes = 0\<rparr>"

definition cbf_scope :: nat where "cbf_scope = 2"

definition timer_find :: "CbfPacketIdentifier \<Rightarrow> timer_bimap \<Rightarrow> (CbfTimer \<times> CbfPacketIdentifier \<times> nat) option" where
  "timer_find i ts = List.find (\<lambda>e. fst (snd e) = i) ts"

definition timer_erase :: "CbfPacketIdentifier \<Rightarrow> timer_bimap \<Rightarrow> timer_bimap" where
  "timer_erase i ts = filter (\<lambda>e. fst (snd e) \<noteq> i) ts"

fun timer_place :: "CbfTimer \<times> CbfPacketIdentifier \<times> nat \<Rightarrow> timer_bimap \<Rightarrow> timer_bimap" where
  "timer_place e [] = [e]"
| "timer_place e (x # xs) = (if \<not> CbfTimer_less (fst e) (fst x) then x # timer_place e xs else e # x # xs)"

text \<open>Insertion fails when the identifier is there already.\<close>

definition timer_insert :: "CbfTimer \<times> CbfPacketIdentifier \<times> nat \<Rightarrow> timer_bimap \<Rightarrow> timer_bimap option" where
  "timer_insert e ts = (if timer_find (fst (snd e)) ts \<noteq> None then None else Some (timer_place e ts))"

text \<open>Is the element with this identifier the first one?\<close>

definition timer_first :: "CbfPacketIdentifier \<Rightarrow> timer_bimap \<Rightarrow> bool" where
  "timer_first i ts = (case ts of [] \<Rightarrow> False | e # _ \<Rightarrow> fst (snd e) = i)"

text \<open>An iterator without an element would be undefined behaviour; the invariant rules it out.\<close>

definition dangling :: cerror where "dangling = LogicError ''dangling iterator''"

definition schedule_timer :: "'a CbfPacketBuffer \<Rightarrow> RouterQueue \<Rightarrow> RouterQueue result" where
  "schedule_timer b rt =
     (case cb_timers b of
        [] \<Rightarrow> Inl AssertionFailed
      | (t, i, h) # _ \<Rightarrow> Inr (ManualRuntime_schedule (ct_expiry t) CbfFlushCallback (Some cbf_scope) (ManualRuntime_cancel (Some cbf_scope) rt)))"

definition sizes_agree :: "'a CbfPacketBuffer \<Rightarrow> bool" where
  "sizes_agree b \<longleftrightarrow> length (cb_packets b) = length (cb_timers b)"

text \<open>Erasing an element that was found: its packet, its timer, and the reschedule when the timer was the scheduled one.\<close>

definition erase_found :: "CbfPacketIdentifier \<Rightarrow> nat \<Rightarrow> int \<Rightarrow> 'a CbfPacketBuffer \<times> RouterQueue \<Rightarrow> ('a CbfPacketBuffer \<times> RouterQueue) result" where
  "erase_found i h len s =
     (let (b, rt) = s;
          b' = b\<lparr>cb_stored_bytes := cb_stored_bytes b - len, cb_packets := filter (\<lambda>p. fst p \<noteq> h) (cb_packets b), cb_timers := timer_erase i (cb_timers b)\<rparr>
      in if timer_first i (cb_timers b) \<and> cb_timers b' \<noteq> [] then rmap (Pair b') (schedule_timer b' rt) else Inr (b', rt))"

definition try_drop :: "Address \<Rightarrow> SequenceNumber \<Rightarrow> 'a CbfPacketBuffer \<times> RouterQueue \<Rightarrow> (bool \<times> 'a CbfPacketBuffer \<times> RouterQueue) result" where
  "try_drop src sn s =
     (let (b, rt) = s
      in rbind (case timer_find (src, sn) (cb_timers b) of
                  None \<Rightarrow> Inr (False, b, rt)
                | Some (t, i, h) \<Rightarrow>
                    (case map_of (cb_packets b) h of
                       Some packet \<Rightarrow> rmap (Pair True) (erase_found i h (cp_length packet) (b, rt))
                     | None \<Rightarrow> Inl dangling))
           (\<lambda>(dropped, b, rt). if sizes_agree b then Inr (dropped, b, rt) else Inl AssertionFailed))"

text \<open>The loop that drops packets from the head until the new one fits.\<close>

fun head_drop :: "int \<Rightarrow> int \<Rightarrow> (nat \<times> 'a CbfPacket) list \<Rightarrow> timer_bimap \<Rightarrow> int \<times> (nat \<times> 'a CbfPacket) list \<times> timer_bimap" where
  "head_drop capacity stored [] ts = (stored, [], ts)"
| "head_drop capacity stored ((h, p) # ps) ts =
     (if stored > capacity then head_drop capacity (stored - cp_length p) ps (timer_erase (cp_identifier p) ts) else (stored, (h, p) # ps, ts))"

definition enqueue_packet :: "'a CbfPacket \<Rightarrow> int \<Rightarrow> 'a CbfPacketBuffer \<times> RouterQueue \<Rightarrow> ('a CbfPacketBuffer \<times> RouterQueue) result" where
  "enqueue_packet packet timeout s =
     (let (b, rt) = s
      in if timeout \<le> 0 then Inr (b, rt)
         else (let (stored, packets, timers) = head_drop (cb_capacity_bytes b) (cb_stored_bytes b + cp_length packet) (cb_packets b) (cb_timers b);
                   h = cb_fresh b; i = cp_identifier packet
               in case timer_insert (CbfTimer_new rt timeout, i, h) timers of
                    None \<Rightarrow> if length packets = length timers then Inl (RuntimeError ''Illegal insertion of duplicate CBF packet'') else Inl AssertionFailed
                  | Some timers' \<Rightarrow>
                      (let b' = b\<lparr>cb_packets := packets @ [(h, packet)], cb_fresh := h + 1, cb_timers := timers', cb_stored_bytes := stored\<rparr>
                       in rbind (if timer_first i timers' then schedule_timer b' rt else Inr rt)
                            (\<lambda>rt. if sizes_agree b' then Inr (b', rt) else Inl AssertionFailed))))"

text \<open>\<open>CbfPacketBuffer::reduce_lifetime\<close>: the packet with its remaining lifetime, and whether it stays valid.\<close>

definition reduce_queued :: "time_point \<Rightarrow> CbfTimer \<Rightarrow> 'a CbfPacket \<Rightarrow> bool \<times> 'a CbfPacket" where
  "reduce_queued now timer packet = (let (remaining, packet') = cp_reduce_lifetime (now - ct_start timer) packet in (remaining > 0, packet'))"

definition fetch_packet :: "Address \<Rightarrow> SequenceNumber \<Rightarrow> 'a CbfPacketBuffer \<times> RouterQueue \<Rightarrow> ('a CbfPacket option \<times> 'a CbfPacketBuffer \<times> RouterQueue) result" where
  "fetch_packet src sn s =
     (let (b, rt) = s
      in case timer_find (src, sn) (cb_timers b) of
           None \<Rightarrow> Inr (None, b, rt)
         | Some (t, i, h) \<Rightarrow>
             (case map_of (cb_packets b) h of
                Some packet \<Rightarrow>
                  (let (valid, packet') = reduce_queued (mr_now rt) t packet
                   in rmap (Pair (if valid then Some packet' else None)) (erase_found i h (cp_length packet') (b, rt)))
              | None \<Rightarrow> Inl dangling))"

definition find_packet :: "Address \<Rightarrow> SequenceNumber \<Rightarrow> 'a CbfPacketBuffer \<Rightarrow> 'a CbfPacket option" where
  "find_packet src sn b = (case timer_find (src, sn) (cb_timers b) of Some (t, i, h) \<Rightarrow> map_of (cb_packets b) h | None \<Rightarrow> None)"

text \<open>The loop of \<open>flush\<close> over the expired timers, in order; it answers the packets for the timer callback.\<close>

fun flush_expired :: "time_point \<Rightarrow> timer_bimap \<Rightarrow> 'a CbfPacketBuffer \<Rightarrow> ((GbcGacHeader, 'a) PendingPacket list \<times> 'a CbfPacketBuffer) result" where
  "flush_expired now [] b = Inr ([], b)"
| "flush_expired now ((t, i, h) # ts) b =
     (case map_of (cb_packets b) h of
        Some packet \<Rightarrow>
          (let (valid, packet') = reduce_queued now t packet;
               b' = b\<lparr>cb_stored_bytes := cb_stored_bytes b - cp_length packet', cb_packets := filter (\<lambda>p. fst p \<noteq> h) (cb_packets b),
                      cb_timers := timer_erase i (cb_timers b)\<rparr>
           in rmap (apfst (\<lambda>ps. if valid then cp_packet packet' # ps else ps)) (flush_expired now ts b'))
      | None \<Rightarrow> Inl dangling)"

definition CbfPacketBuffer_flush :: "'a CbfPacketBuffer \<times> RouterQueue \<Rightarrow> ((GbcGacHeader, 'a) PendingPacket list \<times> 'a CbfPacketBuffer \<times> RouterQueue) result" where
  "CbfPacketBuffer_flush s =
     (let (b, rt) = s; expired = takeWhile (\<lambda>e. ct_expiry (fst e) \<le> mr_now rt) (cb_timers b)
      in rbind (flush_expired (mr_now rt) expired b) (\<lambda>(ps, b).
           if cb_timers b \<noteq> [] then rmap (\<lambda>rt. (ps, b, rt)) (schedule_timer b rt) else Inr (ps, b, rt)))"


section \<open>The packet buffer keeps its bounds\<close>

definition nodes_bytes :: "'d DataInterface \<Rightarrow> (Expiry \<times> 'd) list \<Rightarrow> int" where
  "nodes_bytes da nodes = (\<Sum>(e, data) \<leftarrow> nodes. da_length da data)"

lemma nodes_bytes_simps [simp]:
  "nodes_bytes da [] = 0" "nodes_bytes da (n # ns) = da_length da (snd n) + nodes_bytes da ns" "nodes_bytes da (ns @ ms) = nodes_bytes da ns + nodes_bytes da ms"
  by (simp_all add: nodes_bytes_def split_beta)

definition pb_ok :: "'d DataInterface \<Rightarrow> 'd PacketBuffer \<Rightarrow> bool" where
  "pb_ok da b \<longleftrightarrow> pb_stored b = nodes_bytes da (pb_nodes b) \<and> pb_stored b \<le> pb_capacity b"

text \<open>What the buffer relies on: neither waiting nor flushing changes a length, and lifetimes that remain are not negative.\<close>

locale buffer_data =
  fixes da :: "'d DataInterface"
  assumes length_nonneg: "0 \<le> da_length da data"
    and reduce_length: "da_length da (snd (da_reduce_lifetime da d data)) = da_length da data"
    and remaining_nonneg: "0 \<le> fst (da_reduce_lifetime da d data)"
begin

lemma bytes_nonneg: "0 \<le> nodes_bytes da ns"
  by (induction ns) (simp_all add: length_nonneg)

lemma erase_expired:
  "pb_erase_expired da now ns stored
     = (filter (\<lambda>n. \<not> Expiry_is_expired now (fst n)) ns, stored - nodes_bytes da (filter (\<lambda>n. Expiry_is_expired now (fst n)) ns))"
  by (induction da now ns stored rule: pb_erase_expired.induct) simp_all

lemma bytes_split: "nodes_bytes da (filter P ns) + nodes_bytes da (filter (\<lambda>n. \<not> P n) ns) = nodes_bytes da ns"
  by (induction ns) simp_all

lemma expired_dropped:
  assumes "pb_ok da b"
  shows "pb_ok da (pb_drop_expired da now b) \<and> pb_nodes (pb_drop_expired da now b) = filter (\<lambda>n. \<not> Expiry_is_expired now (fst n)) (pb_nodes b)
    \<and> pb_capacity (pb_drop_expired da now b) = pb_capacity b"
proof -
  let ?dead = "filter (\<lambda>n. Expiry_is_expired now (fst n)) (pb_nodes b)"
  have "0 \<le> nodes_bytes da ?dead" by (rule bytes_nonneg)
  then show ?thesis using assms bytes_split [of "\<lambda>n. Expiry_is_expired now (fst n)" "pb_nodes b"]
    by (simp add: pb_ok_def pb_drop_expired_def erase_expired)
qed

text \<open>The loop drops the shortest prefix that makes room, or everything when the capacity is too small.\<close>

lemma drop_spec:
  assumes "pb_ok da b" and "0 \<le> pb_capacity b"
  shows "\<exists>k b'. pb_drop da bytes b = (bytes \<le> pb_capacity b' - pb_stored b', b') \<and> pb_ok da b' \<and> pb_nodes b' = drop k (pb_nodes b) \<and> pb_capacity b' = pb_capacity b
    \<and> (bytes \<le> pb_capacity b \<longrightarrow> bytes \<le> pb_capacity b' - pb_stored b')
    \<and> (\<forall>j<k. pb_capacity b < nodes_bytes da (drop j (pb_nodes b)) + bytes)"
  using assms
proof (induction "pb_nodes b" arbitrary: b)
  case Nil
  have "pb_drop da bytes b = (\<not> pb_free b < bytes, b)" using Nil(1) by (subst pb_drop.simps) (simp add: drop_head_def)
  then show ?case using Nil by (intro exI [of _ 0] exI [of _ b]) (auto simp: pb_free_def pb_ok_def)
next
  case (Cons n ns)
  show ?case
  proof (cases "pb_free b < bytes")
    case False
    then show ?thesis using Cons.prems by (intro exI [of _ 0] exI [of _ b]) (subst pb_drop.simps, simp add: pb_free_def)
  next
    case True
    define b1 where "b1 = b\<lparr>pb_stored := pb_stored b - da_length da (snd n), pb_nodes := ns\<rparr>"
    have b1: "pb_nodes b1 = ns" "pb_capacity b1 = pb_capacity b" "pb_nodes b = n # ns" using Cons(2) by (simp_all add: b1_def)
    have "drop_head da b = (True, b1)" using b1(3) by (simp add: drop_head_def b1_def split: prod.split)
    then have step: "pb_drop da bytes b = pb_drop da bytes b1" using True by (subst pb_drop.simps) simp
    have "pb_ok da b1" using Cons.prems b1(3) length_nonneg [of "snd n"] by (simp add: pb_ok_def b1_def)
    then obtain k b' where k: "pb_drop da bytes b1 = (bytes \<le> pb_capacity b' - pb_stored b', b')" "pb_ok da b'" "pb_nodes b' = drop k (pb_nodes b1)"
        "pb_capacity b' = pb_capacity b1" "bytes \<le> pb_capacity b1 \<longrightarrow> bytes \<le> pb_capacity b' - pb_stored b'"
        "\<forall>j<k. pb_capacity b1 < nodes_bytes da (drop j (pb_nodes b1)) + bytes"
      using Cons.hyps(1) [of b1] Cons.prems(2) b1 by auto
    have full: "pb_capacity b < nodes_bytes da (pb_nodes b) + bytes" using True Cons.prems(1) by (simp add: pb_free_def pb_ok_def)
    have "pb_capacity b < nodes_bytes da (drop j (pb_nodes b)) + bytes" if "j < Suc k" for j
      using that full k(6) b1 by (cases j) auto
    then show ?thesis using k(1-5) step b1 by (intro exI [of _ "Suc k"] exI [of _ b']) auto
  qed
qed

lemma push_spec:
  assumes "pb_ok da b" and "0 \<le> pb_capacity b"
  shows "\<exists>k b'. PacketBuffer_push da data now b = (da_length da data \<le> pb_capacity b, b') \<and> pb_ok da b' \<and> pb_capacity b' = pb_capacity b
    \<and> pb_nodes b' = drop k (filter (\<lambda>n. \<not> Expiry_is_expired now (fst n)) (pb_nodes b))
         @ (if da_length da data \<le> pb_capacity b
            then [(Expiry_new now (fst (da_reduce_lifetime da 0 data)), snd (da_reduce_lifetime da 0 data))] else [])
    \<and> (\<forall>j<k. pb_capacity b < nodes_bytes da (drop j (filter (\<lambda>n. \<not> Expiry_is_expired now (fst n)) (pb_nodes b))) + da_length da data)"
proof -
  let ?b1 = "pb_drop_expired da now b" and ?len = "da_length da data"
  have b1: "pb_ok da ?b1" "pb_nodes ?b1 = filter (\<lambda>n. \<not> Expiry_is_expired now (fst n)) (pb_nodes b)" "pb_capacity ?b1 = pb_capacity b"
    using expired_dropped [OF assms(1), of now] by auto
  obtain k b2 where k: "pb_drop da ?len ?b1 = (?len \<le> pb_capacity b2 - pb_stored b2, b2)" "pb_ok da b2" "pb_nodes b2 = drop k (pb_nodes ?b1)"
      "pb_capacity b2 = pb_capacity b" "?len \<le> pb_capacity b \<longrightarrow> ?len \<le> pb_capacity b2 - pb_stored b2"
      "\<forall>j<k. pb_capacity b < nodes_bytes da (drop j (pb_nodes ?b1)) + ?len"
    using drop_spec [OF b1(1), of ?len] assms(2) b1(3) by auto
  have "0 \<le> pb_stored b2" using k(2) bytes_nonneg by (simp add: pb_ok_def)
  then have enough: "?len \<le> pb_capacity b2 - pb_stored b2 \<longleftrightarrow> ?len \<le> pb_capacity b" using k(4,5) by auto
  show ?thesis
  proof (cases "?len \<le> pb_capacity b")
    case True
    let ?b3 = "b2\<lparr>pb_stored := pb_stored b2 + ?len, pb_nodes := pb_nodes b2 @ [(Expiry_new now (fst (da_reduce_lifetime da 0 data)), snd (da_reduce_lifetime da 0 data))]\<rparr>"
    have "PacketBuffer_push da data now b = (True, ?b3)" using k(1) enough True by (simp add: PacketBuffer_push_def Let_def split_beta)
    moreover have "pb_ok da ?b3" using k(2) enough True by (simp add: pb_ok_def reduce_length)
    ultimately show ?thesis using k(3,4,6) b1(2) True by (intro exI [of _ k] exI [of _ ?b3]) simp
  next
    case False
    then have "PacketBuffer_push da data now b = (False, b2)" using k(1) enough by (simp add: PacketBuffer_push_def Let_def)
    then show ?thesis using k(2-4,6) b1(2) False by (intro exI [of _ k] exI [of _ b2]) simp
  qed
qed

lemma emptied_ok: "0 \<le> pb_capacity b \<Longrightarrow> pb_ok da (snd (PacketBuffer_flush da now b))"
  by (simp add: PacketBuffer_flush_def pb_ok_def)

end


text \<open>The data of the router's buffers are pending packets.\<close>

definition PendingPacketBufferData :: "('h \<Rightarrow> HeaderVariant) \<Rightarrow> ('h, 'a) PendingPacket DataInterface" where
  "PendingPacketBufferData variant = \<lparr>da_length = pp_length variant, da_reduce_lifetime = pp_reduce_lifetime\<rparr>"

lemma Lifetime_decode_nonneg: "0 \<le> Lifetime_decode lt"
proof -
  have "0 \<le> base_unit (lifetime_base lt)" by (cases "lifetime_base lt") simp_all
  then show ?thesis unfolding Lifetime_decode_def by (intro mult_nonneg_nonneg) (rule of_nat_0_le_iff, assumption)
qed

lemma clock_cast_nonneg: "0 \<le> s \<Longrightarrow> 0 \<le> clock_cast s"
  by (simp add: clock_cast_def trunc_int_def)

lemma set_lifetime_keeps:
  "pp_length variant (set_lifetime lt p) = pp_length variant p" "ep_extended (pp_pdu (set_lifetime lt p)) = ep_extended (pp_pdu p)"
  by (simp_all add: pp_length_def Pdu_get_length_def set_lifetime_def split: option.split)

lemma pp_reduce_keeps:
  "pp_length variant (snd (pp_reduce_lifetime d p)) = pp_length variant p"
  "ep_extended (pp_pdu (snd (pp_reduce_lifetime d p))) = ep_extended (pp_pdu p)"
  "0 \<le> fst (pp_reduce_lifetime d p)"
  by (auto simp: pp_reduce_lifetime_def Let_def set_lifetime_keeps clock_cast_nonneg Lifetime_decode_nonneg)

interpretation pending: buffer_data "PendingPacketBufferData variant" for variant
  by unfold_locales (simp_all add: PendingPacketBufferData_def pp_reduce_keeps, simp add: pp_length_def)

section \<open>Invariant of the contention buffer\<close>

definition entries :: "(nat \<times> 'a CbfPacket) list \<Rightarrow> (CbfPacketIdentifier \<times> nat) list" where
  "entries ps = map (\<lambda>(h, p). (cp_identifier p, h)) ps"

definition packets_bytes :: "(nat \<times> 'a CbfPacket) list \<Rightarrow> int" where
  "packets_bytes ps = (\<Sum>(h, p) \<leftarrow> ps. cp_length p)"

text \<open>The bimap and the list hold the same packets, each once, and the bytes are counted; more than the capacity is stored for a single packet at most.\<close>

definition cbf_inv :: "'a CbfPacketBuffer \<Rightarrow> bool" where
  "cbf_inv b \<longleftrightarrow> mset (map snd (cb_timers b)) = mset (entries (cb_packets b)) \<and> distinct (map fst (entries (cb_packets b)))
     \<and> distinct (map fst (cb_packets b)) \<and> (\<forall>h \<in> set (map fst (cb_packets b)). h < cb_fresh b)
     \<and> sorted (map (ct_expiry \<circ> fst) (cb_timers b)) \<and> cb_stored_bytes b = packets_bytes (cb_packets b)
     \<and> (cb_stored_bytes b \<le> cb_capacity_bytes b \<or> length (cb_packets b) \<le> 1)"

definition scoped :: "RouterQueue \<Rightarrow> RouterCallback ScheduledCallback list" where
  "scoped rt = filter (\<lambda>e. sc_scope e = Some cbf_scope) (mr_queue rt)"

definition unscoped :: "RouterQueue \<Rightarrow> RouterCallback ScheduledCallback list" where
  "unscoped rt = filter (\<lambda>e. sc_scope e \<noteq> Some cbf_scope) (mr_queue rt)"

text \<open>The first timer is covered by the one callback of the buffer.\<close>

definition cbf_scheduled :: "'a CbfPacketBuffer \<Rightarrow> RouterQueue \<Rightarrow> bool" where
  "cbf_scheduled b rt \<longleftrightarrow> length (scoped rt) \<le> 1 \<and> (\<forall>e \<in> set (scoped rt). sc_callback e = CbfFlushCallback)
     \<and> (case cb_timers b of [] \<Rightarrow> True | (t, _) # _ \<Rightarrow> \<exists>e \<in> set (scoped rt). sc_deadline e \<le> ct_expiry t)"

definition cbf_ok :: "'a CbfPacketBuffer \<times> RouterQueue \<Rightarrow> bool" where
  "cbf_ok s \<longleftrightarrow> cbf_inv (fst s) \<and> cbf_scheduled (fst s) (snd s)"

definition buffered :: "CbfPacketIdentifier \<Rightarrow> 'a CbfPacketBuffer \<Rightarrow> bool" where
  "buffered i b \<longleftrightarrow> i \<in> fst ` set (entries (cb_packets b))"

lemma entries_simps [simp]:
  "entries [] = []" "entries ((h, p) # ps) = (cp_identifier p, h) # entries ps" "entries (ps @ qs) = entries ps @ entries qs" "length (entries ps) = length ps"
  "map snd (entries ps) = map fst ps"
  by (simp_all add: entries_def split_beta)

lemma packets_bytes_simps [simp]:
  "packets_bytes [] = 0" "packets_bytes ((h, p) # ps) = cp_length p + packets_bytes ps" "packets_bytes (ps @ qs) = packets_bytes ps + packets_bytes qs"
  by (simp_all add: packets_bytes_def)

lemma cp_length_pos: "0 < cp_length c"
  by (simp add: cp_length_def pp_length_def Pdu_get_length_def)

lemma packets_bytes_nonneg: "0 \<le> packets_bytes ps"
proof (induction ps)
  case (Cons x ps)
  then show ?case using cp_length_pos [of "snd x"] by (cases x) simp
qed simp

lemma cbf_sizes: "cbf_inv b \<Longrightarrow> length (cb_timers b) = length (cb_packets b)"
  unfolding cbf_inv_def by (metis entries_simps(4) length_map size_mset)

lemma timer_entries: "cbf_inv b \<Longrightarrow> set (map snd (cb_timers b)) = set (entries (cb_packets b))"
  unfolding cbf_inv_def by (metis mset_eq_setD)

lemma timer_find_Some: "timer_find i ts = Some (t, j, h) \<Longrightarrow> j = i \<and> (t, i, h) \<in> set ts"
  unfolding timer_find_def by (induction ts) (auto split: if_splits)

lemma timer_find_None: "timer_find i ts = None \<longleftrightarrow> i \<notin> fst ` set (map snd ts)"
  unfolding timer_find_def find_None_iff by force

lemma timer_packet:
  assumes "cbf_inv b" and "(t, i, h) \<in> set (cb_timers b)"
  shows "\<exists>p. map_of (cb_packets b) h = Some p \<and> cp_identifier p = i"
proof -
  have "(i, h) \<in> set (entries (cb_packets b))" using timer_entries [OF assms(1)] assms(2) by force
  then obtain p where "(h, p) \<in> set (cb_packets b)" "cp_identifier p = i" by (auto simp: entries_def)
  then show ?thesis using assms(1) by (auto simp: cbf_inv_def)
qed

lemma filter_handle:
  assumes "distinct (map fst ps)" and "distinct (map fst (entries ps))" and "(h, p) \<in> set ps"
  shows "filter (\<lambda>q. fst q \<noteq> h) ps = filter (\<lambda>q. cp_identifier (snd q) \<noteq> cp_identifier p) ps"
    and "packets_bytes (filter (\<lambda>q. fst q \<noteq> h) ps) = packets_bytes ps - cp_length p"
proof -
  have "fst q = h \<longleftrightarrow> cp_identifier (snd q) = cp_identifier p" if "q \<in> set ps" for q
    using that assms unfolding entries_def map_map by (metis (mono_tags, lifting) comp_apply eq_key_imp_eq_value fst_conv inj_on_eq_iff distinct_map prod.collapse snd_conv case_prod_beta)
  then show "filter (\<lambda>q. fst q \<noteq> h) ps = filter (\<lambda>q. cp_identifier (snd q) \<noteq> cp_identifier p) ps" by (simp cong: filter_cong)
  show "packets_bytes (filter (\<lambda>q. fst q \<noteq> h) ps) = packets_bytes ps - cp_length p"
    using assms(1,3)
  proof (induction ps)
    case (Cons x ps)
    show ?case
    proof (cases "fst x = h")
      case True
      then have "h \<notin> fst ` set ps" and x: "x = (h, p)" using Cons.prems by (cases x, force)+
      then have "filter (\<lambda>q. fst q \<noteq> h) ps = ps" by (auto simp: filter_id_conv)
      then show ?thesis using x by simp
    next
      case False
      then show ?thesis using Cons by (cases x) auto
    qed
  qed simp
qed


text \<open>The buffer without one of its packets.\<close>

definition erased :: "nat \<Rightarrow> 'a CbfPacket \<Rightarrow> 'a CbfPacketBuffer \<Rightarrow> 'a CbfPacketBuffer" where
  "erased h p b = b\<lparr>cb_stored_bytes := cb_stored_bytes b - cp_length p, cb_packets := filter (\<lambda>q. fst q \<noteq> h) (cb_packets b),
     cb_timers := timer_erase (cp_identifier p) (cb_timers b)\<rparr>"

lemma entries_filter: "entries (filter (\<lambda>q. P (cp_identifier (snd q))) ps) = filter (\<lambda>e. P (fst e)) (entries ps)"
  by (induction ps) (auto simp: entries_def)

lemma erased_inv:
  assumes "cbf_inv b" and "map_of (cb_packets b) h = Some p"
  shows "cbf_inv (erased h p b)"
proof -
  note inv = assms(1) [unfolded cbf_inv_def]
  have p: "(h, p) \<in> set (cb_packets b)" using assms(2) by (rule map_of_SomeD)
  note f = filter_handle [OF _ _ p]
  let ?P = "\<lambda>i. i \<noteq> cp_identifier p"
  have e: "entries (filter (\<lambda>q. fst q \<noteq> h) (cb_packets b)) = filter (\<lambda>e. ?P (fst e)) (entries (cb_packets b))"
    using f(1) inv entries_filter [of ?P "cb_packets b"] by simp
  have "mset (map snd (timer_erase (cp_identifier p) (cb_timers b))) = filter_mset (\<lambda>e. ?P (fst e)) (mset (map snd (cb_timers b)))"
    by (simp add: timer_erase_def filter_mset_image_mset flip: mset_filter)
  also have "\<dots> = mset (filter (\<lambda>e. ?P (fst e)) (entries (cb_packets b)))" using inv by simp
  finally have m: "mset (map snd (timer_erase (cp_identifier p) (cb_timers b))) = mset (entries (filter (\<lambda>q. fst q \<noteq> h) (cb_packets b)))" using e by simp
  have "length (cb_packets b) \<le> Suc 0 \<Longrightarrow> length (filter (\<lambda>q. fst q \<noteq> h) (cb_packets b)) \<le> Suc 0"
    using length_filter_le le_trans by blast
  then show ?thesis using inv m e f(2) cp_length_pos [of p]
    by (auto simp: cbf_inv_def erased_def distinct_map_filter timer_erase_def sorted_filter simp flip: comp_def)
qed

lemma filter_emplace_out: "\<not> P e \<Longrightarrow> filter P (emplace e es) = filter P es"
  by (induction e es rule: emplace.induct) auto

lemma filter_emplace_only: "P e \<Longrightarrow> filter P es = [] \<Longrightarrow> filter P (emplace e es) = [e]"
  by (induction e es rule: emplace.induct) (auto split: if_splits)

text \<open>What the operations keep of the runtime.\<close>

definition queue_kept :: "RouterQueue \<Rightarrow> RouterQueue \<Rightarrow> bool" where
  "queue_kept rt rt' \<longleftrightarrow> mr_now rt' = mr_now rt \<and> unscoped rt' = unscoped rt \<and> (queue_sorted (mr_queue rt) \<longrightarrow> queue_sorted (mr_queue rt'))"

lemma queue_kept_refl [simp]: "queue_kept rt rt"
  by (simp add: queue_kept_def)

lemma schedule_timer_ok:
  assumes "cb_timers b \<noteq> []"
  shows "\<exists>rt'. schedule_timer b rt = Inr rt' \<and> queue_kept rt rt' \<and> cbf_scheduled b rt'
    \<and> scoped rt' = [\<lparr>sc_deadline = ct_expiry (fst (hd (cb_timers b))), sc_callback = CbfFlushCallback, sc_scope = Some cbf_scope\<rparr>]"
proof -
  obtain t i h ts where ts: "cb_timers b = (t, i, h) # ts" using assms by (cases "cb_timers b") auto
  let ?e = "\<lparr>sc_deadline = ct_expiry t, sc_callback = CbfFlushCallback, sc_scope = Some cbf_scope\<rparr>"
  let ?rt = "ManualRuntime_schedule (ct_expiry t) CbfFlushCallback (Some cbf_scope) (ManualRuntime_cancel (Some cbf_scope) rt)"
  have s: "scoped ?rt = [?e]"
    unfolding scoped_def ManualRuntime_schedule_def ManualRuntime_cancel_def by (simp add: filter_emplace_only)
  have "unscoped ?rt = unscoped rt"
    unfolding unscoped_def ManualRuntime_schedule_def ManualRuntime_cancel_def by (simp add: filter_emplace_out)
  moreover have "queue_sorted (mr_queue ?rt)" if "queue_sorted (mr_queue rt)"
    using that by (simp add: ManualRuntime_schedule_def ManualRuntime_cancel_def emplace_sorted queue_sorted_filter)
  moreover have "mr_now ?rt = mr_now rt" by (simp add: ManualRuntime_schedule_def ManualRuntime_cancel_def)
  moreover have "cbf_scheduled b ?rt" unfolding cbf_scheduled_def s using ts by simp
  ultimately show ?thesis using ts s by (simp add: schedule_timer_def queue_kept_def)
qed

lemma timer_first_keeps:
  "\<not> timer_first i ts \<Longrightarrow> ts \<noteq> [] \<Longrightarrow> timer_erase i ts = hd ts # timer_erase i (tl ts)"
  by (cases ts) (auto simp: timer_first_def timer_erase_def)

lemma erase_found_ok:
  assumes "cbf_ok (b, rt)" and "map_of (cb_packets b) h = Some p" and "cp_length p' = cp_length p"
  shows "\<exists>rt'. erase_found (cp_identifier p) h (cp_length p') (b, rt) = Inr (erased h p b, rt') \<and> cbf_ok (erased h p b, rt') \<and> queue_kept rt rt'"
proof -
  let ?i = "cp_identifier p" and ?b = "erased h p b"
  have inv: "cbf_inv ?b" using erased_inv [OF _ assms(2)] assms(1) by (simp add: cbf_ok_def)
  have ts: "cb_timers ?b = timer_erase ?i (cb_timers b)" by (simp add: erased_def)
  have sched: "cbf_scheduled b rt" using assms(1) by (simp add: cbf_ok_def)
  show ?thesis
  proof (cases "timer_first ?i (cb_timers b) \<and> cb_timers ?b \<noteq> []")
    case True
    then obtain rt' where "schedule_timer ?b rt = Inr rt'" "queue_kept rt rt'" "cbf_scheduled ?b rt'" using schedule_timer_ok by blast
    then show ?thesis using True inv assms(3) by (intro exI [of _ rt']) (auto simp: erase_found_def erased_def [symmetric] cbf_ok_def Let_def)
  next
    case False
    have "cbf_scheduled ?b rt"
    proof (cases "timer_first ?i (cb_timers b) \<or> cb_timers b = []")
      case True
      then have "cb_timers ?b = []" using False ts by (auto simp: timer_erase_def)
      then show ?thesis using sched by (simp add: cbf_scheduled_def)
    next
      case f: False
      then have "cb_timers ?b = hd (cb_timers b) # timer_erase ?i (tl (cb_timers b))" using ts timer_first_keeps by auto
      then show ?thesis using sched f unfolding cbf_scheduled_def by (cases "cb_timers b") auto
    qed
    then show ?thesis using False inv assms(3) by (intro exI [of _ rt]) (auto simp: erase_found_def erased_def [symmetric] cbf_ok_def Let_def)
  qed
qed


definition without :: "CbfPacketIdentifier \<Rightarrow> 'a CbfPacketBuffer \<Rightarrow> 'a CbfPacketBuffer" where
  "without i b = b\<lparr>cb_packets := filter (\<lambda>q. cp_identifier (snd q) \<noteq> i) (cb_packets b), cb_timers := timer_erase i (cb_timers b),
     cb_stored_bytes := packets_bytes (filter (\<lambda>q. cp_identifier (snd q) \<noteq> i) (cb_packets b))\<rparr>"

lemma erased_without:
  assumes "cbf_inv b" and "map_of (cb_packets b) h = Some p"
  shows "erased h p b = without (cp_identifier p) b"
proof -
  have "filter (\<lambda>q. fst q \<noteq> h) (cb_packets b) = filter (\<lambda>q. cp_identifier (snd q) \<noteq> cp_identifier p) (cb_packets b)"
    "packets_bytes (filter (\<lambda>q. fst q \<noteq> h) (cb_packets b)) = packets_bytes (cb_packets b) - cp_length p"
    using filter_handle [OF _ _ map_of_SomeD [OF assms(2)]] assms(1) by (simp_all add: cbf_inv_def)
  then show ?thesis using assms(1) by (simp add: cbf_inv_def erased_def without_def)
qed

lemma buffered_iff: "buffered i b \<longleftrightarrow> (\<exists>q \<in> set (cb_packets b). cp_identifier (snd q) = i)"
  unfolding buffered_def entries_def image_set [symmetric] set_map image_image by (auto simp: split_beta image_iff)

lemma buffered_timer: "cbf_inv b \<Longrightarrow> timer_find i (cb_timers b) = None \<longleftrightarrow> \<not> buffered i b"
  unfolding timer_find_None timer_entries buffered_def by simp

lemma without_unbuffered:
  assumes "cbf_inv b" and "\<not> buffered i b"
  shows "without i b = b"
proof -
  have "filter (\<lambda>q. cp_identifier (snd q) \<noteq> i) (cb_packets b) = cb_packets b" using assms(2) by (auto simp: filter_id_conv buffered_iff)
  moreover have "timer_erase i (cb_timers b) = cb_timers b"
    using assms timer_entries [OF assms(1)] unfolding timer_erase_def filter_id_conv buffered_def by force
  ultimately show ?thesis using assms(1) by (simp add: without_def cbf_inv_def)
qed

lemma try_drop_ok:
  assumes "cbf_ok (b, rt)"
  shows "\<exists>rt'. try_drop src sn (b, rt) = Inr (buffered (src, sn) b, without (src, sn) b, rt') \<and> cbf_ok (without (src, sn) b, rt') \<and> queue_kept rt rt'"
proof (cases "timer_find (src, sn) (cb_timers b)")
  case None
  have inv: "cbf_inv b" using assms by (simp add: cbf_ok_def)
  have "\<not> buffered (src, sn) b" using None buffered_timer [OF inv] by simp
  moreover have "sizes_agree b" using cbf_sizes [OF inv] by (simp add: sizes_agree_def)
  ultimately show ?thesis using None assms without_unbuffered [OF inv] by (intro exI [of _ rt]) (simp add: try_drop_def)
next
  case (Some e)
  obtain t j h where e: "e = (t, j, h)" by (cases e) auto
  have inv: "cbf_inv b" using assms by (simp add: cbf_ok_def)
  have j: "j = (src, sn)" "(t, (src, sn), h) \<in> set (cb_timers b)" using timer_find_Some Some e by auto
  obtain p where p: "map_of (cb_packets b) h = Some p" "cp_identifier p = (src, sn)" using timer_packet [OF inv j(2)] by blast
  obtain rt' where rt': "erase_found (cp_identifier p) h (cp_length p) (b, rt) = Inr (erased h p b, rt')" "cbf_ok (erased h p b, rt')" "queue_kept rt rt'"
    using erase_found_ok [OF assms p(1) refl] by blast
  have "sizes_agree (erased h p b)" using cbf_sizes [of "erased h p b"] rt'(2) by (simp add: sizes_agree_def cbf_ok_def)
  moreover have "buffered (src, sn) b" using Some buffered_timer [OF inv, of "(src, sn)"] by simp
  ultimately show ?thesis using Some e j(1) p rt' erased_without [OF inv p(1)] by (intro exI [of _ rt']) (simp add: try_drop_def)
qed

text \<open>What \<open>fetch\<close> answers: the packet with the lifetime that is left, unless none is.\<close>

definition fetched :: "time_point \<Rightarrow> CbfPacketIdentifier \<Rightarrow> 'a CbfPacketBuffer \<Rightarrow> 'a CbfPacket option" where
  "fetched now i b =
     (case timer_find i (cb_timers b) of
        Some (t, j, h) \<Rightarrow> (case map_of (cb_packets b) h of
           Some p \<Rightarrow> if fst (reduce_queued now t p) then Some (snd (reduce_queued now t p)) else None | None \<Rightarrow> None)
      | None \<Rightarrow> None)"

lemma reduce_queued_keeps:
  "cp_length (snd (reduce_queued now t p)) = cp_length p" "cp_identifier (snd (reduce_queued now t p)) = cp_identifier p"
  "cp_sender (snd (reduce_queued now t p)) = cp_sender p" "cp_counter (snd (reduce_queued now t p)) = cp_counter p"
  by (simp_all add: reduce_queued_def cp_reduce_lifetime_def split_beta Let_def cp_length_def cp_identifier_def cp_source_def cp_sequence_number_def
      pp_reduce_keeps)

lemma fetch_ok:
  assumes "cbf_ok (b, rt)"
  shows "\<exists>rt'. fetch_packet src sn (b, rt) = Inr (fetched (mr_now rt) (src, sn) b, without (src, sn) b, rt') \<and> cbf_ok (without (src, sn) b, rt') \<and> queue_kept rt rt'"
proof (cases "timer_find (src, sn) (cb_timers b)")
  case None
  have inv: "cbf_inv b" using assms by (simp add: cbf_ok_def)
  have "\<not> buffered (src, sn) b" using None buffered_timer [OF inv] by simp
  then show ?thesis using None assms without_unbuffered [OF inv] by (intro exI [of _ rt]) (simp add: fetch_packet_def fetched_def)
next
  case (Some e)
  obtain t j h where e: "e = (t, j, h)" by (cases e) auto
  have inv: "cbf_inv b" using assms by (simp add: cbf_ok_def)
  have j: "j = (src, sn)" "(t, (src, sn), h) \<in> set (cb_timers b)" using timer_find_Some Some e by auto
  obtain p where p: "map_of (cb_packets b) h = Some p" "cp_identifier p = (src, sn)" using timer_packet [OF inv j(2)] by blast
  obtain rt' where rt': "erase_found (cp_identifier p) h (cp_length (snd (reduce_queued (mr_now rt) t p))) (b, rt) = Inr (erased h p b, rt')"
      "cbf_ok (erased h p b, rt')" "queue_kept rt rt'"
    using erase_found_ok [OF assms p(1) reduce_queued_keeps(1)] by blast
  then show ?thesis using Some e j(1) p erased_without [OF inv p(1)]
    by (intro exI [of _ rt']) (simp add: fetch_packet_def fetched_def Let_def split_beta)
qed


section \<open>Enqueueing\<close>

text \<open>The loop drops the shortest prefix of the list that makes room, or all of it.\<close>

lemma head_drop_spec:
  "\<exists>k. head_drop capacity stored ps ts
       = (stored - packets_bytes (take k ps), drop k ps, filter (\<lambda>e. fst (snd e) \<notin> fst ` set (entries (take k ps))) ts)
     \<and> (drop k ps = [] \<or> stored - packets_bytes (take k ps) \<le> capacity) \<and> (\<forall>j<k. capacity < stored - packets_bytes (take j ps))"
proof (induction capacity stored ps ts rule: head_drop.induct)
  case (2 capacity stored h p ps ts)
  show ?case
  proof (cases "stored > capacity")
    case True
    then obtain k where k: "head_drop capacity (stored - cp_length p) ps (timer_erase (cp_identifier p) ts)
        = (stored - cp_length p - packets_bytes (take k ps), drop k ps, filter (\<lambda>e. fst (snd e) \<notin> fst ` set (entries (take k ps))) (timer_erase (cp_identifier p) ts))"
        "drop k ps = [] \<or> stored - cp_length p - packets_bytes (take k ps) \<le> capacity"
        "\<forall>j<k. capacity < stored - cp_length p - packets_bytes (take j ps)"
      using 2 by blast
    have "capacity < stored - packets_bytes (take j ((h, p) # ps))" if "j < Suc k" for j
      using that k(3) True by (cases j) auto
    moreover have "filter (\<lambda>e. fst (snd e) \<notin> fst ` set (entries (take k ps))) (timer_erase (cp_identifier p) ts)
        = filter (\<lambda>e. fst (snd e) \<notin> fst ` set (entries (take (Suc k) ((h, p) # ps)))) ts"
      by (auto simp: timer_erase_def intro: filter_cong)
    ultimately show ?thesis using True k(1,2) by (intro exI [of _ "Suc k"]) (auto simp: algebra_simps)
  next
    case False
    then show ?thesis by (intro exI [of _ 0]) simp
  qed
qed (intro exI [of _ 0], simp)

lemma timer_place_mset: "mset (timer_place e ts) = add_mset e (mset ts)"
  by (induction e ts rule: timer_place.induct) auto

lemma timer_place_set: "set (timer_place e ts) = insert e (set ts)"
  by (induction e ts rule: timer_place.induct) auto

lemma timer_place_sorted:
  "sorted (map (ct_expiry \<circ> fst) ts) \<Longrightarrow> sorted (map (ct_expiry \<circ> fst) (timer_place e ts))"
proof (induction e ts rule: timer_place.induct)
  case (2 e x xs)
  then show ?case by (auto simp: CbfTimer_less_def timer_place_set)
qed simp

lemma timer_place_first:
  "\<not> timer_first i (timer_place (t, i, h) ts) \<Longrightarrow> \<exists>x xs. ts = x # xs \<and> timer_place (t, i, h) ts = x # timer_place (t, i, h) xs"
  by (cases ts) (auto simp: timer_first_def split: if_splits)

text \<open>A callback for the first timer is early enough for fewer timers.\<close>

lemma scheduled_fewer:
  assumes "cbf_scheduled b rt" and "sorted (map (ct_expiry \<circ> fst) (cb_timers b))" and "cb_timers b' \<noteq> [] \<longrightarrow> hd (cb_timers b') \<in> set (cb_timers b)"
  shows "cbf_scheduled b' rt"
proof (cases "cb_timers b'")
  case (Cons x xs)
  then obtain y ys where y: "cb_timers b = y # ys" "x \<in> set (y # ys)" using assms(3) by (cases "cb_timers b") auto
  then have "ct_expiry (fst y) \<le> ct_expiry (fst x)" using assms(2) by auto
  then show ?thesis using assms(1) y(1) Cons unfolding cbf_scheduled_def by (cases x; cases y) force
qed (use assms(1) in \<open>simp add: cbf_scheduled_def\<close>)

text \<open>The buffer after the drop of \<open>k\<close> packets from the head.\<close>

definition headless :: "nat \<Rightarrow> 'a CbfPacketBuffer \<Rightarrow> 'a CbfPacketBuffer" where
  "headless k b = b\<lparr>cb_packets := drop k (cb_packets b), cb_timers := filter (\<lambda>e. fst (snd e) \<notin> fst ` set (entries (take k (cb_packets b)))) (cb_timers b),
     cb_stored_bytes := packets_bytes (drop k (cb_packets b))\<rparr>"

lemma entries_drop: "entries (drop k ps) = drop k (entries ps)" "entries (take k ps) = take k (entries ps)"
  by (simp_all add: entries_def drop_map take_map)

lemma drop_distinct_filter: "distinct (map fst xs) \<Longrightarrow> filter (\<lambda>e. fst e \<notin> fst ` set (take k xs)) xs = drop k xs"
proof (induction xs arbitrary: k)
  case (Cons x xs)
  show ?case
  proof (cases k)
    case (Suc n)
    have "fst x \<notin> fst ` set xs" using Cons.prems by simp
    then have "filter (\<lambda>e. fst e \<noteq> fst x \<and> fst e \<notin> fst ` set (take n xs)) xs = filter (\<lambda>e. fst e \<notin> fst ` set (take n xs)) xs"
      by (intro filter_cong refl) (auto simp: image_iff)
    then show ?thesis using Cons Suc by simp
  qed simp
qed simp

lemma headless_entries:
  assumes "cbf_inv b"
  shows "mset (map snd (cb_timers (headless k b))) = mset (entries (cb_packets (headless k b)))"
proof -
  let ?P = "\<lambda>e. fst e \<notin> fst ` set (take k (entries (cb_packets b)))"
  have "mset (map snd (cb_timers (headless k b))) = filter_mset ?P (mset (map snd (cb_timers b)))"
    by (simp add: headless_def entries_drop filter_mset_image_mset flip: mset_filter)
  also have "\<dots> = mset (filter ?P (entries (cb_packets b)))" using assms by (simp add: cbf_inv_def)
  also have "\<dots> = mset (entries (cb_packets (headless k b)))"
    using assms drop_distinct_filter [of "entries (cb_packets b)" k] by (simp add: cbf_inv_def headless_def entries_drop)
  finally show ?thesis .
qed

lemma headless_keeps:
  assumes "cbf_inv b"
  shows "distinct (map fst (entries (cb_packets (headless k b))))" and "distinct (map fst (cb_packets (headless k b)))"
    and "\<forall>h \<in> set (map fst (cb_packets (headless k b))). h < cb_fresh b" and "sorted (map (ct_expiry \<circ> fst) (cb_timers (headless k b)))"
    and "\<not> buffered i b \<Longrightarrow> \<not> buffered i (headless k b)" and "length (cb_timers (headless k b)) = length (cb_packets (headless k b))"
proof -
  show "length (cb_timers (headless k b)) = length (cb_packets (headless k b))"
    using headless_entries [OF assms] by (metis entries_simps(4) length_map size_mset)
  show "\<forall>h \<in> set (map fst (cb_packets (headless k b))). h < cb_fresh b"
    using assms set_drop_subset [of k "cb_packets b"] by (auto simp: cbf_inv_def headless_def)
  show "\<not> buffered i b \<Longrightarrow> \<not> buffered i (headless k b)"
    using set_drop_subset [of k "cb_packets b"] by (auto simp: buffered_iff headless_def)
qed (use assms in \<open>auto simp: cbf_inv_def headless_def entries_drop sorted_filter distinct_drop simp flip: drop_map\<close>)


lemma enqueue_ok:
  assumes "cbf_ok (b, rt)" and "\<not> buffered (cp_identifier packet) b" and "0 < timeout"
  shows "\<exists>k b' rt'. enqueue_packet packet timeout (b, rt) = Inr (b', rt') \<and> cbf_ok (b', rt') \<and> queue_kept rt rt'
    \<and> cb_packets b' = drop k (cb_packets b) @ [(cb_fresh b, packet)] \<and> cb_capacity_bytes b' = cb_capacity_bytes b
    \<and> cb_timers b' = timer_place (CbfTimer_new rt timeout, cp_identifier packet, cb_fresh b) (cb_timers (headless k b))
    \<and> (\<forall>j<k. cb_capacity_bytes b < packets_bytes (drop j (cb_packets b)) + cp_length packet)"
proof -
  have inv: "cbf_inv b" and sched: "cbf_scheduled b rt" using assms(1) by (simp_all add: cbf_ok_def)
  let ?i = "cp_identifier packet" and ?h = "cb_fresh b" and ?ps = "cb_packets b"
  let ?stored = "cb_stored_bytes b + cp_length packet" and ?e = "(CbfTimer_new rt timeout, cp_identifier packet, cb_fresh b)"
  have bytes: "?stored - packets_bytes (take j ?ps) = packets_bytes (drop j ?ps) + cp_length packet" for j
    using inv packets_bytes_simps(3) [of "take j ?ps" "drop j ?ps"] by (simp add: cbf_inv_def)
  obtain k where k: "head_drop (cb_capacity_bytes b) ?stored ?ps (cb_timers b) = (packets_bytes (drop k ?ps) + cp_length packet, cb_packets (headless k b), cb_timers (headless k b))"
      "drop k ?ps = [] \<or> packets_bytes (drop k ?ps) + cp_length packet \<le> cb_capacity_bytes b"
      "\<forall>j<k. cb_capacity_bytes b < packets_bytes (drop j ?ps) + cp_length packet"
    using head_drop_spec [of "cb_capacity_bytes b" ?stored ?ps "cb_timers b"] by (auto simp: bytes headless_def)
  have "?i \<notin> fst ` set (entries (cb_packets (headless k b)))" using headless_keeps(5) [OF inv assms(2), of k] by (simp add: buffered_def)
  moreover have "set (map snd (cb_timers (headless k b))) = set (entries (cb_packets (headless k b)))" using headless_entries [OF inv] by (metis mset_eq_setD)
  ultimately have new: "timer_find ?i (cb_timers (headless k b)) = None" by (simp only: timer_find_None not_False_eq_True)
  define b' where "b' = b\<lparr>cb_packets := cb_packets (headless k b) @ [(?h, packet)], cb_fresh := Suc ?h, cb_timers := timer_place ?e (cb_timers (headless k b)),
    cb_stored_bytes := packets_bytes (drop k ?ps) + cp_length packet\<rparr>"
  have hp: "cb_packets (headless k b) = drop k ?ps" by (simp add: headless_def)
  have "?h \<notin> set (map fst (cb_packets (headless k b)))" using headless_keeps(3) [OF inv, of k] by blast
  then have inv': "cbf_inv b'"
    using headless_keeps(1-4) [OF inv, of k] headless_entries [OF inv, of k] k(2) \<open>?i \<notin> fst ` set (entries (cb_packets (headless k b)))\<close>
    by (auto simp: cbf_inv_def b'_def timer_place_mset timer_place_sorted hp)
  then have sizes: "sizes_agree b'" using cbf_sizes [of b'] by (simp add: sizes_agree_def)
  have sched': "\<exists>rt'. (if timer_first ?i (cb_timers b') then schedule_timer b' rt else Inr rt) = Inr rt' \<and> queue_kept rt rt' \<and> cbf_scheduled b' rt'"
  proof (cases "timer_first ?i (cb_timers b')")
    case True
    then have "cb_timers b' \<noteq> []" by (auto simp: timer_first_def)
    then show ?thesis using schedule_timer_ok [of b' rt] True by auto
  next
    case False
    then obtain x xs where x: "cb_timers (headless k b) = x # xs" "cb_timers b' = x # timer_place ?e xs" using timer_place_first by (fastforce simp: b'_def)
    have "x \<in> set (cb_timers b)" using arg_cong [OF x(1), of set] by (auto simp: headless_def)
    then have "cbf_scheduled b' rt" using scheduled_fewer [OF sched, of b'] inv x(2) by (simp add: cbf_inv_def)
    then show ?thesis using False by simp
  qed
  then obtain rt' where rt': "(if timer_first ?i (cb_timers b') then schedule_timer b' rt else Inr rt) = Inr rt'" "queue_kept rt rt'" "cbf_scheduled b' rt'" by blast
  have t': "cb_timers b' = timer_place ?e (cb_timers (headless k b))" by (simp add: b'_def)
  have "enqueue_packet packet timeout (b, rt) = Inr (b', rt')"
    using assms(3) k(1) new rt'(1) [unfolded t'] sizes by (simp add: enqueue_packet_def timer_insert_def Let_def b'_def [symmetric] split: if_splits)
  then show ?thesis using inv' rt'(2,3) k(3) by (intro exI [of _ k] exI [of _ b'] exI [of _ rt']) (simp add: cbf_ok_def b'_def hp)
qed


text \<open>A copy of a buffered packet is refused, whatever the loop drops before: unless it drops that packet itself.\<close>

lemma enqueue_duplicate:
  assumes "cbf_ok (b, rt)" and "buffered (cp_identifier packet) b" and "0 < timeout" and "cb_stored_bytes b + cp_length packet \<le> cb_capacity_bytes b"
  shows "enqueue_packet packet timeout (b, rt) = Inl (RuntimeError ''Illegal insertion of duplicate CBF packet'')"
proof -
  have inv: "cbf_inv b" using assms(1) by (simp add: cbf_ok_def)
  have "head_drop (cb_capacity_bytes b) (cb_stored_bytes b + cp_length packet) (cb_packets b) (cb_timers b)
      = (cb_stored_bytes b + cp_length packet, cb_packets b, cb_timers b)"
    using assms(4) by (cases "cb_packets b") (auto split: prod.split)
  moreover have "timer_find (cp_identifier packet) (cb_timers b) \<noteq> None" using assms(2) buffered_timer [OF inv] by simp
  ultimately show ?thesis using assms(3) cbf_sizes [OF inv] by (simp add: enqueue_packet_def timer_insert_def Let_def)
qed

section \<open>Flushing\<close>

definition flushed :: "time_point \<Rightarrow> timer_bimap \<Rightarrow> 'a CbfPacketBuffer \<Rightarrow> (GbcGacHeader, 'a) PendingPacket list" where
  "flushed now ts b = concat (map (\<lambda>(t, i, h). case map_of (cb_packets b) h of
     Some p \<Rightarrow> if fst (reduce_queued now t p) then [cp_packet (snd (reduce_queued now t p))] else [] | None \<Rightarrow> []) ts)"

text \<open>The handles of the timers are distinct.\<close>

lemma timer_handles: "cbf_inv b \<Longrightarrow> distinct (map (snd \<circ> snd) (cb_timers b))"
proof -
  assume inv: "cbf_inv b"
  have "mset (map snd (map snd (cb_timers b))) = mset (map snd (entries (cb_packets b)))" using inv by (simp only: cbf_inv_def mset_map)
  then have "mset (map (snd \<circ> snd) (cb_timers b)) = mset (map fst (cb_packets b))" by simp
  moreover have "distinct (map fst (cb_packets b))" using inv by (simp add: cbf_inv_def)
  ultimately show ?thesis using mset_eq_imp_distinct_iff by blast
qed

lemma timer_ids: "cbf_inv b \<Longrightarrow> distinct (map (fst \<circ> snd) (cb_timers b))"
proof -
  assume inv: "cbf_inv b"
  have "mset (map fst (map snd (cb_timers b))) = mset (map fst (entries (cb_packets b)))" using inv by (simp only: cbf_inv_def mset_map)
  then have "mset (map (fst \<circ> snd) (cb_timers b)) = mset (map fst (entries (cb_packets b)))" by simp
  moreover have "distinct (map fst (entries (cb_packets b)))" using inv by (simp add: cbf_inv_def)
  ultimately show ?thesis using mset_eq_imp_distinct_iff by blast
qed

lemma map_of_filter_other: "h' \<noteq> h \<Longrightarrow> map_of (filter (\<lambda>q. fst q \<noteq> h) ps) h' = map_of ps h'"
  by (induction ps) auto

lemma flush_expired_ok:
  assumes "cbf_inv b" and "cb_timers b = ts @ rest"
  shows "\<exists>b'. flush_expired now ts b = Inr (flushed now ts b, b') \<and> cbf_inv b' \<and> cb_timers b' = rest \<and> cb_capacity_bytes b' = cb_capacity_bytes b
    \<and> cb_packets b' = filter (\<lambda>q. cp_identifier (snd q) \<notin> set (map (fst \<circ> snd) ts)) (cb_packets b)"
  using assms
proof (induction ts arbitrary: b)
  case Nil
  then show ?case by (simp add: flushed_def)
next
  case (Cons e ts)
  obtain t i h where e: "e = (t, i, h)" by (cases e) auto
  have "(t, i, h) \<in> set (cb_timers b)" using Cons.prems(2) e by simp
  then obtain p where p: "map_of (cb_packets b) h = Some p" "cp_identifier p = i" using timer_packet [OF Cons.prems(1)] by blast
  have i: "i \<notin> set (map (fst \<circ> snd) (ts @ rest))" using timer_ids [OF Cons.prems(1)] Cons.prems(2) e by simp
  have h: "h \<notin> set (map (snd \<circ> snd) ts)" using timer_handles [OF Cons.prems(1)] Cons.prems(2) e by simp
  let ?b = "erased h p b"
  have "timer_erase i (ts @ rest) = ts @ rest" using i unfolding timer_erase_def filter_id_conv by (metis comp_apply in_set_conv_decomp list.set_map rev_image_eqI)
  then have ts: "cb_timers ?b = ts @ rest" using Cons.prems(2) e p(2) by (simp add: erased_def timer_erase_def)
  have packets: "cb_packets ?b = filter (\<lambda>q. cp_identifier (snd q) \<noteq> i) (cb_packets b)"
    using erased_without [OF Cons.prems(1) p(1)] p(2) by (simp add: without_def)
  have lookup: "map_of (cb_packets ?b) h' = map_of (cb_packets b) h'" if "h' \<noteq> h" for h'
    using that map_of_filter_other by (simp add: erased_def)
  obtain b' where b': "flush_expired now ts ?b = Inr (flushed now ts ?b, b')" "cbf_inv b'" "cb_timers b' = rest" "cb_capacity_bytes b' = cb_capacity_bytes ?b"
      "cb_packets b' = filter (\<lambda>q. cp_identifier (snd q) \<notin> set (map (fst \<circ> snd) ts)) (cb_packets ?b)"
    using Cons.IH [OF erased_inv [OF Cons.prems(1) p(1)] ts] by blast
  have same: "flushed now ts ?b = flushed now ts b"
    unfolding flushed_def using h lookup by (intro arg_cong [where f = concat] map_cong refl) (force split: prod.split)
  have "flush_expired now (e # ts) b = Inr (flushed now (e # ts) b, b')"
    using b'(1) p same e by (simp add: reduce_queued_keeps(1) erased_def flushed_def Let_def split_beta)
  moreover have "cb_packets b' = filter (\<lambda>q. cp_identifier (snd q) \<notin> set (map (fst \<circ> snd) (e # ts))) (cb_packets b)"
    using b'(5) packets e by (auto intro: filter_cong)
  ultimately show ?case using b'(2-4) by (intro exI [of _ b']) (simp add: erased_def)
qed


definition cbf_quiet :: "RouterQueue \<Rightarrow> bool" where
  "cbf_quiet rt \<longleftrightarrow> length (scoped rt) \<le> 1 \<and> (\<forall>e \<in> set (scoped rt). sc_callback e = CbfFlushCallback)"

lemma flush_ok:
  assumes "cbf_inv b" and "cbf_quiet rt"
  defines "expired \<equiv> takeWhile (\<lambda>e. ct_expiry (fst e) \<le> mr_now rt) (cb_timers b)"
  shows "\<exists>b' rt'. CbfPacketBuffer_flush (b, rt) = Inr (flushed (mr_now rt) expired b, b', rt') \<and> cbf_ok (b', rt') \<and> queue_kept rt rt'
    \<and> cb_timers b' = dropWhile (\<lambda>e. ct_expiry (fst e) \<le> mr_now rt) (cb_timers b) \<and> cb_capacity_bytes b' = cb_capacity_bytes b
    \<and> cb_packets b' = filter (\<lambda>q. cp_identifier (snd q) \<notin> set (map (fst \<circ> snd) expired)) (cb_packets b)
    \<and> (cb_timers b' \<noteq> [] \<longrightarrow> map sc_deadline (scoped rt') = [ct_expiry (fst (hd (cb_timers b')))])"
proof -
  obtain b' where b': "flush_expired (mr_now rt) expired b = Inr (flushed (mr_now rt) expired b, b')" "cbf_inv b'"
      "cb_timers b' = dropWhile (\<lambda>e. ct_expiry (fst e) \<le> mr_now rt) (cb_timers b)" "cb_capacity_bytes b' = cb_capacity_bytes b"
      "cb_packets b' = filter (\<lambda>q. cp_identifier (snd q) \<notin> set (map (fst \<circ> snd) expired)) (cb_packets b)"
    using flush_expired_ok [OF assms(1), of expired "dropWhile (\<lambda>e. ct_expiry (fst e) \<le> mr_now rt) (cb_timers b)"] by (auto simp: expired_def)
  show ?thesis
  proof (cases "cb_timers b' = []")
    case True
    then have "cbf_ok (b', rt)" using b'(2) assms(2) by (simp add: cbf_ok_def cbf_scheduled_def cbf_quiet_def)
    then show ?thesis using b' True by (intro exI [of _ b'] exI [of _ rt]) (simp add: CbfPacketBuffer_flush_def expired_def)
  next
    case False
    obtain rt' where "schedule_timer b' rt = Inr rt'" "queue_kept rt rt'" "cbf_scheduled b' rt'"
        "map sc_deadline (scoped rt') = [ct_expiry (fst (hd (cb_timers b')))]"
      using schedule_timer_ok [OF False, of rt] by auto
    then show ?thesis using b' False by (intro exI [of _ b'] exI [of _ rt']) (simp add: CbfPacketBuffer_flush_def expired_def cbf_ok_def)
  qed
qed

section \<open>Contention\<close>

text \<open>How a packet contends in its destination area: a copy of a buffered packet drops it, any other packet is buffered.\<close>

definition contend :: "'a CbfPacket \<Rightarrow> int \<Rightarrow> 'a CbfPacketBuffer \<times> RouterQueue \<Rightarrow> (bool \<times> 'a CbfPacketBuffer \<times> RouterQueue) result" where
  "contend packet timeout s =
     rbind (try_drop (cp_source packet) (cp_sequence_number packet) s)
       (\<lambda>(dropped, s). if dropped then Inr (True, s) else rmap (Pair False) (enqueue_packet packet timeout s))"

datatype 'a CbfEvent = CbfArrive "'a CbfPacket" int | CbfFetch Address SequenceNumber | CbfFire | CbfTime int

text \<open>The buffer's callback fires: the runtime has removed its entry.\<close>

fun cbf_step :: "'a CbfEvent \<Rightarrow> 'a CbfPacketBuffer \<times> RouterQueue \<Rightarrow> ('a CbfPacketBuffer \<times> RouterQueue) result" where
  "cbf_step (CbfArrive packet timeout) s = rmap snd (contend packet timeout s)"
| "cbf_step (CbfFetch src sn) s = rmap snd (fetch_packet src sn s)"
| "cbf_step CbfFire (b, rt) = rmap snd (CbfPacketBuffer_flush (b, rt\<lparr>mr_queue := unscoped rt\<rparr>))"
| "cbf_step (CbfTime d) (b, rt) = Inr (b, rt\<lparr>mr_now := mr_now rt + d\<rparr>)"

lemma not_buffered_without: "\<not> buffered i (without i b)"
  by (simp add: buffered_iff without_def)

lemma contend_ok:
  assumes "cbf_ok (b, rt)"
  shows "\<exists>b' rt'. contend packet timeout (b, rt) = Inr (buffered (cp_identifier packet) b, b', rt') \<and> cbf_ok (b', rt') \<and> queue_kept rt rt'
    \<and> (buffered (cp_identifier packet) b \<longrightarrow> b' = without (cp_identifier packet) b)"
proof -
  let ?i = "cp_identifier packet"
  have i: "?i = (cp_source packet, cp_sequence_number packet)" by (simp add: cp_identifier_def)
  obtain rt1 where 1: "try_drop (cp_source packet) (cp_sequence_number packet) (b, rt) = Inr (buffered ?i b, without ?i b, rt1)"
      "cbf_ok (without ?i b, rt1)" "queue_kept rt rt1"
    using try_drop_ok [OF assms, of "cp_source packet" "cp_sequence_number packet"] by (auto simp: i)
  show ?thesis
  proof (cases "buffered ?i b \<or> timeout \<le> 0")
    case True
    then show ?thesis using 1 by (intro exI [of _ "without ?i b"] exI [of _ rt1]) (auto simp: contend_def enqueue_packet_def)
  next
    case False
    then obtain b' rt' where "enqueue_packet packet timeout (without ?i b, rt1) = Inr (b', rt')" "cbf_ok (b', rt')" "queue_kept rt1 rt'"
      using enqueue_ok [OF 1(2) not_buffered_without, of timeout] by auto
    then show ?thesis using 1 False by (intro exI [of _ b'] exI [of _ rt']) (simp add: contend_def queue_kept_def)
  qed
qed

lemma cbf_step_ok: "cbf_ok s \<Longrightarrow> \<exists>s'. cbf_step ev s = Inr s' \<and> cbf_ok s'"
proof (cases ev)
  case (CbfArrive packet timeout)
  assume "cbf_ok s"
  then show ?thesis using CbfArrive contend_ok [of "fst s" "snd s" packet timeout] by auto
next
  case (CbfFetch src sn)
  assume "cbf_ok s"
  then show ?thesis using CbfFetch fetch_ok [of "fst s" "snd s" src sn] by auto
next
  case CbfFire
  assume ok: "cbf_ok s"
  have "cbf_quiet ((snd s)\<lparr>mr_queue := unscoped (snd s)\<rparr>)" by (simp add: cbf_quiet_def scoped_def unscoped_def)
  then show ?thesis using CbfFire ok flush_ok [of "fst s" "(snd s)\<lparr>mr_queue := unscoped (snd s)\<rparr>"] by (cases s) (auto simp: cbf_ok_def)
next
  case (CbfTime d)
  assume "cbf_ok s"
  then show ?thesis using CbfTime by (cases s) (auto simp: cbf_ok_def cbf_scheduled_def scoped_def split: list.splits)
qed


lemma sorted_takeWhile: "sorted (map f ts) \<Longrightarrow> e \<in> set ts \<Longrightarrow> f e \<le> c \<Longrightarrow> e \<in> set (takeWhile (\<lambda>x. f x \<le> c) ts)" for c :: int
  by (induction ts) force+

text \<open>The packet and the timer under an identifier.\<close>

definition waiting :: "CbfTimer \<Rightarrow> 'a CbfPacket \<Rightarrow> 'a CbfPacketBuffer \<Rightarrow> bool" where
  "waiting t p b \<longleftrightarrow> (\<exists>h. (t, cp_identifier p, h) \<in> set (cb_timers b) \<and> map_of (cb_packets b) h = Some p)"

lemma contend_waits:
  assumes "cbf_ok (b, rt)" and "\<not> buffered (cp_identifier packet) b" and "0 < timeout"
  shows "\<exists>b' rt'. contend packet timeout (b, rt) = Inr (False, b', rt') \<and> cbf_ok (b', rt') \<and> queue_kept rt rt' \<and> waiting (CbfTimer_new rt timeout) packet b'
    \<and> (\<exists>k. cb_packets b' = drop k (cb_packets b) @ [(cb_fresh b, packet)]) \<and> cb_capacity_bytes b' = cb_capacity_bytes b"
proof -
  have inv: "cbf_inv b" using assms(1) by (simp add: cbf_ok_def)
  obtain rt1 where 1: "try_drop (cp_source packet) (cp_sequence_number packet) (b, rt) = Inr (False, b, rt1)" "cbf_ok (b, rt1)" "queue_kept rt rt1"
    using try_drop_ok [OF assms(1), of "cp_source packet" "cp_sequence_number packet"] assms(2) without_unbuffered [OF inv assms(2)] by (auto simp: cp_identifier_def)
  obtain k b' rt' where 2: "enqueue_packet packet timeout (b, rt1) = Inr (b', rt')" "cbf_ok (b', rt')" "queue_kept rt1 rt'"
      "cb_packets b' = drop k (cb_packets b) @ [(cb_fresh b, packet)]"
      "cb_timers b' = timer_place (CbfTimer_new rt1 timeout, cp_identifier packet, cb_fresh b) (cb_timers (headless k b))" "cb_capacity_bytes b' = cb_capacity_bytes b"
    using enqueue_ok [OF 1(2) assms(2,3)] by blast
  have "distinct (map fst (cb_packets b'))" using 2(2) by (simp add: cbf_ok_def cbf_inv_def)
  then have "map_of (cb_packets b') (cb_fresh b) = Some packet" using 2(4) by (intro map_of_is_SomeI) auto
  moreover have "CbfTimer_new rt1 timeout = CbfTimer_new rt timeout" using 1(3) by (simp add: CbfTimer_new_def queue_kept_def)
  ultimately have "waiting (CbfTimer_new rt timeout) packet b'" unfolding waiting_def using 2(5) by (intro exI [of _ "cb_fresh b"]) (simp add: timer_place_set)
  then show ?thesis using 1 2(1-4,6) by (intro exI [of _ b'] exI [of _ rt']) (auto simp: contend_def queue_kept_def)
qed

lemma waiting_buffered: "waiting t p b \<Longrightarrow> buffered (cp_identifier p) b"
  by (force simp: waiting_def buffered_iff dest: map_of_SomeD)

lemma waiting_flushed:
  assumes "cbf_inv b" and "waiting t p b" and "ct_expiry t \<le> now" and "ct_start t < now" and "now - ct_start t < clock_cast (Lifetime_decode (bh_lifetime (ep_basic (pp_pdu (cp_packet p)))))"
  shows "snd (pp_reduce_lifetime (now - ct_start t) (cp_packet p)) \<in> set (flushed now (takeWhile (\<lambda>e. ct_expiry (fst e) \<le> now) (cb_timers b)) b)"
proof -
  obtain h where h: "(t, cp_identifier p, h) \<in> set (cb_timers b)" "map_of (cb_packets b) h = Some p" using assms(2) by (auto simp: waiting_def)
  have "sorted (map (\<lambda>e. ct_expiry (fst e)) (cb_timers b))" using assms(1) by (simp add: cbf_inv_def comp_def)
  then have m: "(t, cp_identifier p, h) \<in> set (takeWhile (\<lambda>e. ct_expiry (fst e) \<le> now) (cb_timers b))" using sorted_takeWhile [OF _ h(1)] assms(3) by simp
  have "fst (reduce_queued now t p)" "cp_packet (snd (reduce_queued now t p)) = snd (pp_reduce_lifetime (now - ct_start t) (cp_packet p))"
    using assms(4,5) by (auto simp: reduce_queued_def cp_reduce_lifetime_def pp_reduce_lifetime_def Let_def)
  then show ?thesis unfolding flushed_def set_concat set_map by (intro UN_I [OF imageI [OF m]]) (simp add: h(2))
qed

lemma fits_stored:
  assumes "cbf_inv b" and "cb_packets b = ps @ [(h, packet)]" and "cp_length packet \<le> cb_capacity_bytes b"
  shows "cb_stored_bytes b \<le> cb_capacity_bytes b"
  using assms by (cases ps) (auto simp: cbf_inv_def)

text \<open>A packet whose lifetime is over when its timer expires is not handed over.\<close>

lemma waiting_dropped:
  assumes "cbf_inv b" and "waiting t p b" and "ct_start t < now" and "clock_cast (Lifetime_decode (bh_lifetime (ep_basic (pp_pdu (cp_packet p))))) \<le> now - ct_start t"
    and "set ts \<subseteq> set (cb_timers b)" and "q \<in> set (flushed now ts b)"
  shows "ep_extended (pp_pdu q) \<noteq> ep_extended (pp_pdu (cp_packet p))"
proof
  assume same: "ep_extended (pp_pdu q) = ep_extended (pp_pdu (cp_packet p))"
  obtain t' i' h' p' where e: "(t', i', h') \<in> set (cb_timers b)" "map_of (cb_packets b) h' = Some p'" "fst (reduce_queued now t' p')"
    and q: "q = cp_packet (snd (reduce_queued now t' p'))"
  proof -
    obtain e where e: "e \<in> set ts" "q \<in> set (case e of (t, i, h) \<Rightarrow> case map_of (cb_packets b) h of
        Some p \<Rightarrow> if fst (reduce_queued now t p) then [cp_packet (snd (reduce_queued now t p))] else [] | None \<Rightarrow> [])"
      using assms(6) unfolding flushed_def set_concat set_map by blast
    moreover obtain t' i' h' where "e = (t', i', h')" by (cases e)
    ultimately show ?thesis using assms(5) that [of t' i' h'] by (cases "map_of (cb_packets b) h'") (auto split: if_splits)
  qed
  obtain h where h: "(t, cp_identifier p, h) \<in> set (cb_timers b)" "map_of (cb_packets b) h = Some p" using assms(2) by (auto simp: waiting_def)
  have "ep_extended (pp_pdu (cp_packet p')) = ep_extended (pp_pdu (cp_packet p))"
    using same pp_reduce_keeps(2) [of "now - ct_start t'" "cp_packet p'"] by (auto simp: q reduce_queued_def cp_reduce_lifetime_def split_beta Let_def)
  then have id: "cp_identifier p' = cp_identifier p" by (simp add: cp_identifier_def cp_source_def cp_sequence_number_def)
  have en: "(i', h') \<in> set (entries (cb_packets b))"
    using assms(1) imageI [OF e(1), of snd] by (metis cbf_inv_def image_set mset_eq_setD snd_conv)
  have "(cp_identifier p', h') \<in> set (entries (cb_packets b))" using map_of_SomeD [OF e(2)] by (force simp: entries_def)
  moreover have "distinct (map snd (entries (cb_packets b)))" using assms(1) by (simp add: cbf_inv_def)
  ultimately have "i' = cp_identifier p'" using en by (metis eq_key_imp_eq_value distinct_map inj_onD prod.inject snd_conv)
  then have "(t', i', h') = (t, cp_identifier p, h)"
    using timer_ids [OF assms(1)] e(1) h(1) id by (intro inj_onD [of "fst \<circ> snd" "set (cb_timers b)"]) (simp_all add: distinct_map)
  then have "fst (reduce_queued now t p)" using e(2,3) h(2) by simp
  then show False using assms(3,4) by (simp add: reduce_queued_def cp_reduce_lifetime_def pp_reduce_lifetime_def Let_def)
qed

text \<open>A packet that has waited keeps everything but its lifetime, which becomes the remaining one in the precision of the header field.\<close>

lemma reduced_lifetime:
  assumes "0 < d" and "d < clock_cast (Lifetime_decode (bh_lifetime (ep_basic (pp_pdu p))))"
  shows "\<exists>lt. snd (pp_reduce_lifetime d p) = set_lifetime lt p
    \<and> (let rest = clock_uncast (clock_cast (Lifetime_decode (bh_lifetime (ep_basic (pp_pdu p)))) - d) in \<bar>Lifetime_decode lt - rest\<bar> \<le> lifetime_step rest / 2)"
proof -
  let ?L = "Lifetime_decode (bh_lifetime (ep_basic (pp_pdu p)))"
  have "real_of_int (clock_cast ?L) \<le> 6300 * 1000000"
    using trunc_int_bounds [of 0 "?L * 1000000" "6300 * 1000000"] Lifetime_decode_le [of "bh_lifetime (ep_basic (pp_pdu p))"]
      Lifetime_decode_nonneg [of "bh_lifetime (ep_basic (pp_pdu p))"] by (simp add: clock_cast_def)
  then have "0 \<le> clock_uncast (clock_cast ?L - d)" "clock_uncast (clock_cast ?L - d) < 6350" using assms by (simp_all add: clock_uncast_def)
  from lifetime_rounded [OF this] show ?thesis
    using assms by (intro exI [of _ "Lifetime_encode (clock_uncast (clock_cast ?L - d))"]) (simp add: pp_reduce_lifetime_def Let_def)
qed

lemma waiting_expires:
  assumes "cbf_inv b" and "waiting t p b"
  shows "cp_identifier p \<in> set (map (fst \<circ> snd) (takeWhile (\<lambda>e. ct_expiry (fst e) \<le> now) (cb_timers b))) \<longleftrightarrow> ct_expiry t \<le> now"
proof -
  obtain h where h: "(t, cp_identifier p, h) \<in> set (cb_timers b)" using assms(2) by (auto simp: waiting_def)
  have s: "sorted (map (\<lambda>e. ct_expiry (fst e)) (cb_timers b))" using assms(1) by (simp add: cbf_inv_def comp_def)
  have "e = (t, cp_identifier p, h)" if "e \<in> set (cb_timers b)" "fst (snd e) = cp_identifier p" for e
    using timer_ids [OF assms(1)] that h by (intro inj_onD [of "fst \<circ> snd" "set (cb_timers b)"]) (simp_all add: distinct_map)
  then have "e = (t, cp_identifier p, h) \<and> ct_expiry (fst e) \<le> now"
    if "e \<in> set (takeWhile (\<lambda>e. ct_expiry (fst e) \<le> now) (cb_timers b))" "fst (snd e) = cp_identifier p" for e
    using set_takeWhileD [OF that(1)] that(2) by blast
  then show ?thesis using sorted_takeWhile [OF s h, of now] by (auto simp: image_iff) force+
qed

lemma buffered_filter: "cb_packets b' = filter (\<lambda>q. cp_identifier (snd q) \<notin> S) (cb_packets b) \<Longrightarrow> buffered i b' \<longleftrightarrow> buffered i b \<and> i \<notin> S"
  unfolding buffered_iff by (simp del: split_paired_Ex) blast

section \<open>Properties\<close>

text \<open>C12: Whatever arrives, is fetched or expires: the contention buffer raises no error, bimap and list stay in step, the bytes stored are those of the packets, and
  a callback is scheduled no later than the first timer expires.\<close>

theorem contention_buffer_run:
  assumes "0 \<le> bytes" and "scoped rt = []"
  shows "\<exists>b rt'. rfold cbf_step evs (CbfPacketBuffer_new bytes, rt) = Inr (b, rt') \<and> cbf_inv b \<and> cbf_scheduled b rt'"
proof -
  have "cbf_ok (CbfPacketBuffer_new bytes, rt)" using assms by (simp add: cbf_ok_def cbf_inv_def cbf_scheduled_def CbfPacketBuffer_new_def)
  moreover have "cbf_ok s \<Longrightarrow> \<exists>s'. rfold cbf_step evs s = Inr s' \<and> cbf_ok s'" for s
  proof (induction evs arbitrary: s)
    case (Cons ev evs)
    then obtain s1 where "cbf_step ev s = Inr s1" "cbf_ok s1" using cbf_step_ok by blast
    then show ?case using Cons.IH [of s1] by simp
  qed simp
  ultimately have "\<exists>s. rfold cbf_step evs (CbfPacketBuffer_new bytes, rt) = Inr s \<and> cbf_ok s" by blast
  then show ?thesis by (auto simp: cbf_ok_def)
qed

text \<open>C11: How contention is resolved for a packet that fits the capacity: a packet new to the buffer waits for its timer, with a callback no later than that, and the
  buffer stores no more than its capacity.  A copy that arrives in the meantime drops it; when the buffer is flushed without one, the packet stays
  until its timer has expired.  It is then handed over unchanged but for its lifetime, which is the remaining lifetime rounded to the step
  of the header field (50 ms, 1 s, 10 s or 100 s), if any lifetime is left; otherwise no packet with its header is handed over.\<close>

theorem contention_resolved:
  assumes "cbf_ok (b, rt)" and "\<not> buffered (cp_identifier packet) b" and "0 < timeout" and "cp_length packet \<le> cb_capacity_bytes b"
    and "lifetime = clock_cast (Lifetime_decode (bh_lifetime (ep_basic (pp_pdu (cp_packet packet)))))"
  shows "\<exists>b1 rt1. contend packet timeout (b, rt) = Inr (False, b1, rt1) \<and> (\<exists>e \<in> set (scoped rt1). sc_deadline e \<le> mr_now rt + timeout)
    \<and> cb_stored_bytes b1 \<le> cb_capacity_bytes b
    \<and> (\<forall>copy t d. cp_identifier copy = cp_identifier packet \<longrightarrow>
         (\<exists>b2 rt2. contend copy t (b1, rt1\<lparr>mr_now := mr_now rt + d\<rparr>) = Inr (True, b2, rt2) \<and> \<not> buffered (cp_identifier packet) b2))
    \<and> (\<forall>d. \<exists>ps b2 rt2. CbfPacketBuffer_flush (b1, rt1\<lparr>mr_now := mr_now rt + d, mr_queue := unscoped rt1\<rparr>) = Inr (ps, b2, rt2)
         \<and> (buffered (cp_identifier packet) b2 \<longleftrightarrow> d < timeout)
         \<and> (timeout \<le> d \<and> d < lifetime \<longrightarrow>
              (\<exists>lt. set_lifetime lt (cp_packet packet) \<in> set ps
                 \<and> \<bar>Lifetime_decode lt - clock_uncast (lifetime - d)\<bar> \<le> lifetime_step (clock_uncast (lifetime - d)) / 2))
         \<and> (timeout \<le> d \<and> lifetime \<le> d \<longrightarrow> (\<forall>q \<in> set ps. ep_extended (pp_pdu q) \<noteq> ep_extended (pp_pdu (cp_packet packet)))))"
proof -
  let ?i = "cp_identifier packet" and ?t = "CbfTimer_new rt timeout"
  obtain b1 rt1 k where 1: "contend packet timeout (b, rt) = Inr (False, b1, rt1)" "cbf_ok (b1, rt1)" "queue_kept rt rt1" "waiting ?t packet b1"
      "cb_packets b1 = drop k (cb_packets b) @ [(cb_fresh b, packet)]" "cb_capacity_bytes b1 = cb_capacity_bytes b"
    using contend_waits [OF assms(1-3)] by blast
  have inv: "cbf_inv b1" and sched: "cbf_scheduled b1 rt1" using 1(2) by (simp_all add: cbf_ok_def)
  have t: "ct_expiry ?t = mr_now rt + timeout" "ct_start ?t = mr_now rt" by (simp_all add: CbfTimer_new_def)
  have later: "cbf_ok (b1, rt1\<lparr>mr_now := mr_now rt + d\<rparr>)" for d using 1(2) by (auto simp: cbf_ok_def cbf_scheduled_def scoped_def split: list.splits)
  have "\<exists>e \<in> set (scoped rt1). sc_deadline e \<le> mr_now rt + timeout"
  proof -
    obtain h where h: "(?t, ?i, h) \<in> set (cb_timers b1)" using 1(4) by (auto simp: waiting_def)
    then obtain y ys where y: "cb_timers b1 = y # ys" by (cases "cb_timers b1") auto
    then have "ct_expiry (fst y) \<le> mr_now rt + timeout" using inv h t(1) by (auto simp: cbf_inv_def)
    then show ?thesis using sched y unfolding cbf_scheduled_def by (cases y) force
  qed
  moreover have "cb_stored_bytes b1 \<le> cb_capacity_bytes b" using fits_stored [OF inv 1(5)] assms(4) 1(6) by simp
  moreover have "\<exists>b2 rt2. contend copy s (b1, rt1\<lparr>mr_now := mr_now rt + d\<rparr>) = Inr (True, b2, rt2) \<and> \<not> buffered ?i b2"
    if "cp_identifier copy = ?i" for copy :: "'a CbfPacket" and s d
    using contend_ok [OF later, of copy s d] that waiting_buffered [OF 1(4)] not_buffered_without [of ?i b1] by auto
  moreover have "\<exists>ps b2 rt2. CbfPacketBuffer_flush (b1, rt1\<lparr>mr_now := mr_now rt + d, mr_queue := unscoped rt1\<rparr>) = Inr (ps, b2, rt2)
         \<and> (buffered ?i b2 \<longleftrightarrow> d < timeout)
         \<and> (timeout \<le> d \<and> d < lifetime \<longrightarrow> (\<exists>lt. set_lifetime lt (cp_packet packet) \<in> set ps
              \<and> \<bar>Lifetime_decode lt - clock_uncast (lifetime - d)\<bar> \<le> lifetime_step (clock_uncast (lifetime - d)) / 2))
         \<and> (timeout \<le> d \<and> lifetime \<le> d \<longrightarrow> (\<forall>q \<in> set ps. ep_extended (pp_pdu q) \<noteq> ep_extended (pp_pdu (cp_packet packet))))" for d
  proof -
    let ?rt = "rt1\<lparr>mr_now := mr_now rt + d, mr_queue := unscoped rt1\<rparr>" and ?ts = "takeWhile (\<lambda>e. ct_expiry (fst e) \<le> mr_now rt + d) (cb_timers b1)"
    have "cbf_quiet ?rt" by (simp add: cbf_quiet_def scoped_def unscoped_def)
    from flush_ok [OF inv this] obtain b2 rt2 where
      2: "CbfPacketBuffer_flush (b1, ?rt) = Inr (flushed (mr_now rt + d) ?ts b1, b2, rt2)"
        "cb_packets b2 = filter (\<lambda>q. cp_identifier (snd q) \<notin> set (map (fst \<circ> snd) ?ts)) (cb_packets b1)"
      by auto
    have "buffered ?i b2 \<longleftrightarrow> d < timeout"
      using waiting_expires [OF inv 1(4), of "mr_now rt + d"] waiting_buffered [OF 1(4)] t(1) buffered_filter [OF 2(2), of ?i] by auto
    moreover have "\<exists>lt. set_lifetime lt (cp_packet packet) \<in> set (flushed (mr_now rt + d) ?ts b1)
        \<and> \<bar>Lifetime_decode lt - clock_uncast (lifetime - d)\<bar> \<le> lifetime_step (clock_uncast (lifetime - d)) / 2" if "timeout \<le> d" "d < lifetime"
      using reduced_lifetime [of d "cp_packet packet"] waiting_flushed [OF inv 1(4), of "mr_now rt + d"] t that assms(3,5) by (auto simp: Let_def)
    moreover have "\<forall>q \<in> set (flushed (mr_now rt + d) ?ts b1). ep_extended (pp_pdu q) \<noteq> ep_extended (pp_pdu (cp_packet packet))" if "timeout \<le> d" "lifetime \<le> d"
      using waiting_dropped [OF inv 1(4), of "mr_now rt + d" ?ts] set_takeWhileD t that assms(3,5) by fastforce
    ultimately show ?thesis using 2(1) by blast
  qed
  ultimately show ?thesis using 1(1) by blast
qed


text \<open>C24: The forwarding buffers never hold more bytes than their capacity.  Pushing drops the expired packets, then as few packets from the head as make room, and
  appends the packet with its expiry when it fits at all; otherwise it reports failure.\<close>

theorem forward_buffer_push:
  assumes "pb_ok (PendingPacketBufferData variant) b" and "0 \<le> pb_capacity b"
  shows "let valid = filter (\<lambda>n. \<not> Expiry_is_expired now (fst n)) (pb_nodes b); lifetime = clock_cast (Lifetime_decode (bh_lifetime (ep_basic (pp_pdu packet))))
    in \<exists>k b'. PacketBuffer_push (PendingPacketBufferData variant) packet now b = (pp_length variant packet \<le> pb_capacity b, b')
    \<and> pb_ok (PendingPacketBufferData variant) b' \<and> pb_capacity b' = pb_capacity b
    \<and> pb_nodes b' = drop k valid
         @ (if pp_length variant packet \<le> pb_capacity b then [(\<lparr>ex_buffered_since = now, ex_expires_at = now + lifetime\<rparr>, packet)] else [])
    \<and> (\<forall>j<k. pb_capacity b < nodes_bytes (PendingPacketBufferData variant) (drop j valid) + pp_length variant packet)"
proof -
  have "da_length (PendingPacketBufferData variant) packet = pp_length variant packet"
    "da_reduce_lifetime (PendingPacketBufferData variant) 0 packet = (clock_cast (Lifetime_decode (bh_lifetime (ep_basic (pp_pdu packet)))), packet)"
    by (simp_all add: PendingPacketBufferData_def pp_reduce_lifetime_def Let_def)
  then show ?thesis using pending.push_spec [OF assms, of packet now] by (simp only: Let_def fst_conv snd_conv Expiry_new_def)
qed

text \<open>A packet that exceeds the capacity of the contention buffer is stored all the same, and alone.\<close>

theorem oversized_packet_stored:
  assumes "cbf_ok (b, rt)" and "\<not> buffered (cp_identifier packet) b" and "0 < timeout" and "cb_capacity_bytes b < cp_length packet"
  shows "\<exists>b' rt'. enqueue_packet packet timeout (b, rt) = Inr (b', rt') \<and> map snd (cb_packets b') = [packet] \<and> cb_capacity_bytes b' < cb_stored_bytes b'"
proof -
  obtain k b' rt' where 1: "enqueue_packet packet timeout (b, rt) = Inr (b', rt')" "cbf_inv b'" "cb_packets b' = drop k (cb_packets b) @ [(cb_fresh b, packet)]"
      "cb_capacity_bytes b' = cb_capacity_bytes b"
    using enqueue_ok [OF assms(1-3)] by (auto simp: cbf_ok_def)
  have "cb_stored_bytes b' = packets_bytes (drop k (cb_packets b)) + cp_length packet" using 1(2,3) by (simp add: cbf_inv_def)
  then have big: "cb_capacity_bytes b' < cb_stored_bytes b'" using packets_bytes_nonneg [of "drop k (cb_packets b)"] assms(4) 1(4) by simp
  then have "length (cb_packets b') \<le> 1" using 1(2) by (auto simp: cbf_inv_def)
  then show ?thesis using 1(1,3) big by (intro exI [of _ b'] exI [of _ rt']) simp
qed

lemma std_round_near: "of_int n - 1/2 \<le> x \<Longrightarrow> x < of_int n + 1/2 \<Longrightarrow> 0 \<le> x \<Longrightarrow> std_round x = n"
  unfolding std_round_def by (simp add: floor_eq_iff)

text \<open>A packet with the default lifetime of a minute does not age while it waits up to half a second, longer than any contention: the lifetime that is left is
  rounded to full seconds.\<close>

theorem short_wait_keeps_lifetime:
  assumes "bh_lifetime (ep_basic (pp_pdu p)) = Lifetime_set Ten_Seconds 6" and "0 < d" and "d \<le> 500000"
  shows "Lifetime_decode (bh_lifetime (ep_basic (pp_pdu (snd (pp_reduce_lifetime d p))))) = 60"
proof -
  have full: "clock_cast (Lifetime_decode (Lifetime_set Ten_Seconds 6)) = 60000000"
    by (simp add: Lifetime_set_decode clock_cast_def trunc_int_def)
  let ?x = "clock_uncast (60000000 - d)"
  have x: "60 - 1/2 \<le> ?x" "?x < 60 + 1/2" using assms(2,3) by (simp_all add: clock_uncast_def field_simps)
  then have "std_round ?x = 60" by (intro std_round_near) simp_all
  moreover have "Lifetime_encode ?x = Lifetime_set One_Second (lround_multiplier ?x)" using x by (simp add: Lifetime_encode_def)
  ultimately have "Lifetime_decode (Lifetime_encode ?x) = 60" by (simp add: Lifetime_set_decode lround_multiplier_def)
  moreover have "snd (pp_reduce_lifetime d p) = set_lifetime (Lifetime_encode ?x) p"
    using assms full by (simp add: pp_reduce_lifetime_def Let_def)
  ultimately show ?thesis by (simp add: set_lifetime_def)
qed

section \<open>Witnesses\<close>

definition example_gbc :: GbcGacHeader where
  "example_gbc = \<lparr>gbc_sequence_number = 7, gbc_reserved1 = 0, gbc_source_position = example_vector, gbc_geo_area_pos_latitude = 0, gbc_geo_area_pos_longitude = 0,
     gbc_distance_a = 100, gbc_distance_b = 100, gbc_angle = 0, gbc_reserved2 = 0\<rparr>"

definition example_gbc_pdu :: GbcPdu where
  "example_gbc_pdu = \<lparr>ep_basic = example_basic\<lparr>bh_lifetime := Lifetime_set Ten_Seconds 6\<rparr>, ep_common = example_common, ep_extended = example_gbc, ep_secured = None\<rparr>"

definition example_cbf_packet :: "unit CbfPacket" where
  "example_cbf_packet = CbfPacket_new \<lparr>pp_pdu = example_gbc_pdu, pp_payload = [1, 2, 3], pp_action = ()\<rparr> [2, 0, 0, 0, 0, 9]"


definition idle_queue :: RouterQueue where "idle_queue = \<lparr>mr_now = 1000, mr_queue = []\<rparr>"

lemma example_buffer_ok: "0 \<le> bytes \<Longrightarrow> cbf_ok (CbfPacketBuffer_new bytes, idle_queue)"
  by (simp add: cbf_ok_def cbf_inv_def cbf_scheduled_def CbfPacketBuffer_new_def idle_queue_def scoped_def)

lemma example_not_buffered: "\<not> buffered i (CbfPacketBuffer_new bytes)"
  by (simp add: buffered_iff CbfPacketBuffer_new_def)

theorem contention_buffer_run_witness:
  "\<exists>b rt. rfold cbf_step [CbfArrive example_cbf_packet 50, CbfTime 50, CbfFire] (CbfPacketBuffer_new 4096, idle_queue) = Inr (b, rt) \<and> cbf_inv b"
  using contention_buffer_run [of 4096 idle_queue "[CbfArrive example_cbf_packet 50, CbfTime 50, CbfFire]"] by (auto simp: idle_queue_def scoped_def)

theorem contention_resolved_witness:
  "\<exists>b rt. contend example_cbf_packet 50 (CbfPacketBuffer_new 4096, idle_queue) = Inr (False, b, rt) \<and> (\<exists>e \<in> set (scoped rt). sc_deadline e \<le> 1050)
     \<and> cb_stored_bytes b \<le> 4096
     \<and> (\<exists>ps b2 rt2. CbfPacketBuffer_flush (b, rt\<lparr>mr_now := 1000 + 60, mr_queue := unscoped rt\<rparr>) = Inr (ps, b2, rt2)
          \<and> (\<exists>lt. set_lifetime lt (cp_packet example_cbf_packet) \<in> set ps))"
proof -
  have life: "clock_cast (Lifetime_decode (bh_lifetime (ep_basic (pp_pdu (cp_packet example_cbf_packet))))) = 60000000"
    by (simp add: example_cbf_packet_def CbfPacket_new_def example_gbc_pdu_def Lifetime_set_decode clock_cast_def trunc_int_def)
  have "cp_length example_cbf_packet \<le> 4096"
    by (simp add: cp_length_def pp_length_def Pdu_get_length_def example_cbf_packet_def CbfPacket_new_def example_gbc_pdu_def)
  then have "cp_length example_cbf_packet \<le> cb_capacity_bytes (CbfPacketBuffer_new 4096 :: unit CbfPacketBuffer)" by (simp add: CbfPacketBuffer_new_def)
  from contention_resolved [OF example_buffer_ok example_not_buffered _ this life [symmetric], of 50] show ?thesis
    apply simp
    apply (elim exE conjE)
    subgoal premises prems for b rt
      using prems(1-3) prems(5) [rule_format, of 60] by (intro exI [of _ b] exI [of _ rt]) (auto simp: idle_queue_def CbfPacketBuffer_new_def)
    done
qed

theorem forward_buffer_push_witness:
  "\<exists>b. PacketBuffer_push (PendingPacketBufferData GbcVariant) (cp_packet example_cbf_packet) 1000 (PacketBuffer_new 4096) = (True, b) \<and> length (pb_nodes b) = 1"
  using forward_buffer_push [of GbcVariant "PacketBuffer_new 4096" 1000 "cp_packet example_cbf_packet"]
  by (auto simp: pb_ok_def PacketBuffer_new_def Let_def pp_length_def Pdu_get_length_def example_cbf_packet_def CbfPacket_new_def example_gbc_pdu_def)

theorem oversized_packet_stored_witness:
  "\<exists>b rt. enqueue_packet example_cbf_packet 50 (CbfPacketBuffer_new 10, idle_queue) = Inr (b, rt) \<and> cb_capacity_bytes b < cb_stored_bytes b"
  using oversized_packet_stored [OF example_buffer_ok example_not_buffered, of 10 50 example_cbf_packet]
  by (auto simp: CbfPacketBuffer_new_def cp_length_def pp_length_def Pdu_get_length_def example_cbf_packet_def CbfPacket_new_def example_gbc_pdu_def)

theorem short_wait_keeps_lifetime_witness:
  "Lifetime_decode (bh_lifetime (ep_basic (pp_pdu (snd (pp_reduce_lifetime 100000 (cp_packet example_cbf_packet)))))) = 60"
  by (rule short_wait_keeps_lifetime) (simp_all add: example_cbf_packet_def CbfPacket_new_def example_gbc_pdu_def)


end
