(* ===== verification/GnAreas.thy ===== *)
theory GnAreas
  imports GnCodec
begin

text \<open>
  Destination areas of GeoBroadcast packets, \<open>vanetza/geonet/areas\<close>, \<open>header_type\<close>, \<open>gbc_header\<close> and \<open>gbc_gac_header\<close>: shapes and whether a position lies in
  one, and how an area is written to and read from a header.  Lengths are metres, geodetic positions pairs of degrees, angles radians.  GeographicLib is a
  parameter.
\<close>

section \<open>Areas\<close>

type_synonym CartesianPosition = "real \<times> real"
type_synonym GeodeticPosition = "real \<times> real"

datatype AreaShape = Rectangle real real | Ellipse real real | Circle real

record Area =
  ar_shape :: AreaShape
  ar_position :: GeodeticPosition
  ar_angle :: real

text \<open>\<open>local_cartesian\<close>, east and north of the origin, and \<open>distance\<close> as the library computes them.\<close>

record GeographicLib =
  gl_local_cartesian :: "GeodeticPosition \<Rightarrow> GeodeticPosition \<Rightarrow> CartesianPosition"
  gl_distance :: "GeodeticPosition \<Rightarrow> GeodeticPosition \<Rightarrow> real"

fun geometric_function :: "AreaShape \<Rightarrow> CartesianPosition \<Rightarrow> real result" where
  "geometric_function (Circle r) (x, y) = (if r \<noteq> 0 then Inr (1 - (x / r) * (x / r) - (y / r) * (y / r)) else Inl AssertionFailed)"
| "geometric_function (Rectangle a b) (x, y) =
     (if a \<noteq> 0 \<and> b \<noteq> 0 then Inr (min (1 - (x / a) * (x / a)) (1 - (y / b) * (y / b))) else Inl AssertionFailed)"
| "geometric_function (Ellipse a b) (x, y) =
     (if a \<noteq> 0 \<and> b \<noteq> 0 then Inr (1 - (x / a) * (x / a) - (y / b) * (y / b)) else Inl AssertionFailed)"

definition outside_shape :: "AreaShape \<Rightarrow> CartesianPosition \<Rightarrow> bool result" where
  "outside_shape shape p = rmap (\<lambda>f. f < 0) (geometric_function shape p)"

definition cartesian_minus :: "CartesianPosition \<Rightarrow> CartesianPosition \<Rightarrow> CartesianPosition" where
  "cartesian_minus a b = (fst a - fst b, snd a - snd b)"

definition canonicalize :: "CartesianPosition \<Rightarrow> CartesianPosition \<Rightarrow> real \<Rightarrow> CartesianPosition" where
  "canonicalize point shape azimuth =
     (let moved = cartesian_minus point shape; zenith = pi / 2 - azimuth
      in (cos zenith * fst moved + sin zenith * snd moved, - sin zenith * fst moved + cos zenith * snd moved))"

fun shape_size :: "AreaShape \<Rightarrow> real" where
  "shape_size (Circle r) = pi * r * r"
| "shape_size (Rectangle a b) = 4 * a * b"
| "shape_size (Ellipse a b) = pi * a * b"

definition area_size :: "Area \<Rightarrow> real" where "area_size area = shape_size (ar_shape area)"

definition geo_distance :: "GeographicLib \<Rightarrow> GeodeticPosition \<Rightarrow> GeodeticPosition \<Rightarrow> real result" where
  "geo_distance gl p q = (if gl_distance gl p q \<ge> 0 then Inr (gl_distance gl p q) else Inl AssertionFailed)"

definition inside_or_at_border :: "GeographicLib \<Rightarrow> Area \<Rightarrow> GeodeticPosition \<Rightarrow> bool result" where
  "inside_or_at_border gl area pos =
     rmap Not (outside_shape (ar_shape area) (canonicalize (0, 0) (gl_local_cartesian gl (ar_position area) pos) (ar_angle area)))"

section \<open>Areas in headers\<close>

definition HT_GBC_Circle :: "8 word" where "HT_GBC_Circle = 0x40"

definition HT_GBC_Rect :: "8 word" where "HT_GBC_Rect = 0x41"

definition HT_GBC_Elip :: "8 word" where "HT_GBC_Elip = 0x42"

fun gbc_header_type :: "AreaShape \<Rightarrow> 8 word" where
  "gbc_header_type (Circle r) = HT_GBC_Circle"
| "gbc_header_type (Rectangle a b) = HT_GBC_Rect"
| "gbc_header_type (Ellipse a b) = HT_GBC_Elip"

text \<open>Tenths of microdegrees in 32 bits, metres and degrees in 16; conversions truncate.\<close>

definition to_geo_angle :: "real \<Rightarrow> 32 word" where "to_geo_angle degrees = word_of_int (trunc_int (degrees * 10 ^ 7))"

definition of_geo_angle :: "32 word \<Rightarrow> real" where "of_geo_angle w = of_int (sint w) / 10 ^ 7"

definition to_distance :: "real \<Rightarrow> 16 word" where "to_distance metres = word_of_int (trunc_int metres)"

definition of_distance :: "16 word \<Rightarrow> real" where "of_distance w = real (unat w)"

definition to_degrees :: "real \<Rightarrow> 16 word" where "to_degrees radians = word_of_int (trunc_int (radians * 180 / pi))"

definition of_degrees :: "16 word \<Rightarrow> real" where "of_degrees w = real (unat w) * pi / 180"

definition set_header_position :: "GeodeticPosition \<Rightarrow> GbcGacHeader \<Rightarrow> GbcGacHeader" where
  "set_header_position p h = h\<lparr>gbc_geo_area_pos_latitude := to_geo_angle (fst p), gbc_geo_area_pos_longitude := to_geo_angle (snd p)\<rparr>"

definition header_position :: "GbcGacHeader \<Rightarrow> GeodeticPosition" where
  "header_position h = (of_geo_angle (gbc_geo_area_pos_latitude h), of_geo_angle (gbc_geo_area_pos_longitude h))"

fun set_distances :: "AreaShape \<Rightarrow> GbcGacHeader \<Rightarrow> GbcGacHeader" where
  "set_distances (Circle r) h = h\<lparr>gbc_distance_a := to_distance r, gbc_distance_b := to_distance r\<rparr>"
| "set_distances (Rectangle a b) h = h\<lparr>gbc_distance_a := to_distance a, gbc_distance_b := to_distance b\<rparr>"
| "set_distances (Ellipse a b) h = h\<lparr>gbc_distance_a := to_distance a, gbc_distance_b := to_distance b\<rparr>"

definition set_destination :: "Area \<Rightarrow> GbcGacHeader \<Rightarrow> GbcGacHeader" where
  "set_destination area h = set_distances (ar_shape area) ((set_header_position (ar_position area) h)\<lparr>gbc_angle := to_degrees (ar_angle area)\<rparr>)"

fun get_distances :: "GbcGacHeader \<Rightarrow> AreaShape \<Rightarrow> AreaShape" where
  "get_distances h (Circle r) = Circle (of_distance (gbc_distance_a h))"
| "get_distances h (Rectangle a b) = Rectangle (of_distance (gbc_distance_a h)) (of_distance (gbc_distance_b h))"
| "get_distances h (Ellipse a b) = Ellipse (of_distance (gbc_distance_a h)) (of_distance (gbc_distance_b h))"

definition destination_of_shape :: "AreaShape \<Rightarrow> GbcGacHeader \<Rightarrow> Area" where
  "destination_of_shape shape h = \<lparr>ar_shape = get_distances h shape, ar_position = header_position h, ar_angle = of_degrees (gbc_angle h)\<rparr>"

definition destination :: "8 word \<Rightarrow> GbcGacHeader \<Rightarrow> Area result" where
  "destination ht h =
     (if ht = HT_GBC_Circle then Inr (destination_of_shape (Circle 1) h)
      else if ht = HT_GBC_Rect then Inr (destination_of_shape (Rectangle 1 1) h)
      else if ht = HT_GBC_Elip then Inr (destination_of_shape (Ellipse 1 1) h)
      else Inl (RuntimeError ''Invalid GBC header type''))"

definition vector_position :: "LongPositionVector \<Rightarrow> GeodeticPosition" where
  "vector_position pv = (of_geo_angle (pv_latitude pv), of_geo_angle (pv_longitude pv))"

section \<open>Membership\<close>

text \<open>The components of a position relative to the centre, in the direction of the azimuth and across it.\<close>

definition along :: "real \<Rightarrow> CartesianPosition \<Rightarrow> real" where "along azimuth p = sin azimuth * fst p + cos azimuth * snd p"

definition across :: "real \<Rightarrow> CartesianPosition \<Rightarrow> real" where "across azimuth p = cos azimuth * fst p - sin azimuth * snd p"

lemma canonicalize_components: "canonicalize (0, 0) p azimuth = (- along azimuth p, across azimuth p)"
  by (simp add: canonicalize_def cartesian_minus_def along_def across_def Let_def cos_diff sin_diff)

lemma components_length: "(along azimuth p)\<^sup>2 + (across azimuth p)\<^sup>2 = (fst p)\<^sup>2 + (snd p)\<^sup>2"
proof -
  have "(along azimuth p)\<^sup>2 + (across azimuth p)\<^sup>2 = ((sin azimuth)\<^sup>2 + (cos azimuth)\<^sup>2) * ((fst p)\<^sup>2 + (snd p)\<^sup>2)"
    unfolding along_def across_def by algebra
  then show ?thesis by simp
qed

lemma ratio_le: "a \<noteq> 0 \<Longrightarrow> x / a * (x / a) \<le> 1 \<longleftrightarrow> \<bar>x\<bar> \<le> \<bar>a\<bar>" for x a :: real
  using abs_square_le_1 [of "x / a"] by (simp add: power2_eq_square abs_divide)

lemma circle_le: "r \<noteq> 0 \<Longrightarrow> x / r * (x / r) + y / r * (y / r) \<le> 1 \<longleftrightarrow> x\<^sup>2 + y\<^sup>2 \<le> r\<^sup>2" for x y r :: real
  by (simp add: power2_eq_square divide_le_eq flip: add_divide_distrib)

lemma membership_by_shape:
  "inside_or_at_border gl area pos =
     (let p = gl_local_cartesian gl (ar_position area) pos; u = along (ar_angle area) p; v = across (ar_angle area) p
      in case ar_shape area of
           Circle r \<Rightarrow> if r = 0 then Inl AssertionFailed else Inr ((fst p)\<^sup>2 + (snd p)\<^sup>2 \<le> r\<^sup>2)
         | Rectangle a b \<Rightarrow> if a = 0 \<or> b = 0 then Inl AssertionFailed else Inr (\<bar>u\<bar> \<le> \<bar>a\<bar> \<and> \<bar>v\<bar> \<le> \<bar>b\<bar>)
         | Ellipse a b \<Rightarrow> if a = 0 \<or> b = 0 then Inl AssertionFailed else Inr ((u / a)\<^sup>2 + (v / b)\<^sup>2 \<le> 1))"
proof -
  let ?p = "gl_local_cartesian gl (ar_position area) pos"
  let ?u = "along (ar_angle area) ?p" and ?v = "across (ar_angle area) ?p"
  have inside: "inside_or_at_border gl area pos = rmap (\<lambda>f. 0 \<le> f) (geometric_function (ar_shape area) (- ?u, ?v))"
    by (cases "geometric_function (ar_shape area) (- ?u, ?v)") (simp_all add: inside_or_at_border_def outside_shape_def canonicalize_components not_less)
  show ?thesis
  proof (cases "ar_shape area")
    case (Rectangle a b)
    then show ?thesis using inside ratio_le [of a ?u] ratio_le [of b ?v] by (simp add: Let_def)
  next
    case (Ellipse a b)
    then show ?thesis using inside by (simp add: Let_def power2_eq_square algebra_simps)
  next
    case (Circle r)
    then show ?thesis using inside circle_le [of r ?u ?v] components_length [of "ar_angle area" ?p] by (simp add: Let_def algebra_simps)
  qed
qed

text \<open>C26: What the sizes of circles and ellipses mean: a circle holds the positions within its radius around the centre, whatever its angle; an ellipse has
  its long semi-axis \<open>a\<close> in the direction of the azimuth and its short one \<open>b\<close> across it.  For every shape, rectangles too, a size of zero
  fails an assertion, and nothing else does.\<close>

theorem area_membership:
  assumes "p = gl_local_cartesian gl (ar_position area) pos"
  shows "(\<forall>r. ar_shape area = Circle r \<and> r \<noteq> 0 \<longrightarrow> inside_or_at_border gl area pos = Inr ((fst p)\<^sup>2 + (snd p)\<^sup>2 \<le> r\<^sup>2))
    \<and> (\<forall>a b. ar_shape area = Ellipse a b \<and> a \<noteq> 0 \<and> b \<noteq> 0 \<longrightarrow>
         inside_or_at_border gl area pos = Inr ((along (ar_angle area) p / a)\<^sup>2 + (across (ar_angle area) p / b)\<^sup>2 \<le> 1))
    \<and> (inside_or_at_border gl area pos = Inl e \<longleftrightarrow>
         e = AssertionFailed \<and> (case ar_shape area of Circle r \<Rightarrow> r = 0 | Rectangle a b \<Rightarrow> a = 0 \<or> b = 0 | Ellipse a b \<Rightarrow> a = 0 \<or> b = 0))"
  unfolding membership_by_shape assms by (auto simp: Let_def split: AreaShape.splits)

text \<open>A rectangle reaches \<open>a\<close> in the direction of its azimuth and \<open>b\<close> across it: with the azimuth of the long side, \<open>a\<close> is the distance from the centre to
  the short side.\<close>

theorem rectangle_sides:
  assumes "ar_shape area = Rectangle a b" and "a \<noteq> 0" and "b \<noteq> 0" and "p = gl_local_cartesian gl (ar_position area) pos"
  shows "inside_or_at_border gl area pos = Inr (\<bar>along (ar_angle area) p\<bar> \<le> \<bar>a\<bar> \<and> \<bar>across (ar_angle area) p\<bar> \<le> \<bar>b\<bar>)"
  using assms by (simp add: membership_by_shape Let_def)

section \<open>Round trip\<close>

lemma trunc_close: "0 \<le> x \<Longrightarrow> 0 \<le> x - of_int (trunc_int x) \<and> x - of_int (trunc_int x) < 1" for x :: real
  by (simp add: trunc_int_def) linarith

lemma trunc_near: "\<bar>x - of_int (trunc_int x)\<bar> < 1" for x :: real
  by (simp add: trunc_int_def) linarith

lemma word16_roundtrip: "0 \<le> x \<Longrightarrow> x < 65536 \<Longrightarrow> real (unat (word_of_int (trunc_int x) :: 16 word)) = of_int (trunc_int x)"
proof -
  assume "0 \<le> x" and "x < 65536"
  then have n: "0 \<le> trunc_int x" "trunc_int x < 65536" by (simp_all add: trunc_int_def floor_less_iff)
  then have "unat (word_of_int (trunc_int x) :: 16 word) = nat (trunc_int x)" by (simp add: unsigned_of_int take_bit_int_eq_self)
  then show ?thesis using n by simp
qed

lemma geo_angle_roundtrip:
  assumes "\<bar>x\<bar> \<le> 180"
  shows "\<bar>of_geo_angle (to_geo_angle x) - x\<bar> < 1 / 10 ^ 7"
proof -
  have "- 1800000000 \<le> trunc_int (x * 10 ^ 7)" "trunc_int (x * 10 ^ 7) \<le> 1800000000"
    using trunc_int_bounds [of "- 1800000000" "x * 10 ^ 7" 1800000000] assms by simp_all
  then have "sint (word_of_int (trunc_int (x * 10 ^ 7)) :: 32 word) = trunc_int (x * 10 ^ 7)" by (simp add: signed_of_int signed_take_bit_int_eq_self)
  moreover have "\<bar>of_int (trunc_int (x * 10 ^ 7)) / 10 ^ 7 - x\<bar> = \<bar>x * 10 ^ 7 - of_int (trunc_int (x * 10 ^ 7))\<bar> / 10 ^ 7" by (simp add: field_simps)
  ultimately show ?thesis using trunc_near [of "x * 10 ^ 7"] by (simp add: of_geo_angle_def to_geo_angle_def)
qed


lemma distance_roundtrip: "0 \<le> d \<Longrightarrow> d < 65536 \<Longrightarrow> of_distance (to_distance d) \<le> d \<and> d < of_distance (to_distance d) + 1"
  using word16_roundtrip [of d] trunc_close [of d] by (simp add: of_distance_def to_distance_def)

lemma degrees_roundtrip:
  assumes "0 \<le> a" and "a * 180 / pi < 65536"
  shows "of_degrees (to_degrees a) \<le> a \<and> a < of_degrees (to_degrees a) + pi / 180"
proof -
  let ?d = "a * 180 / pi"
  have d: "0 \<le> ?d" using assms(1) by simp
  have w: "of_degrees (to_degrees a) = of_int (trunc_int ?d) * pi / 180" using word16_roundtrip [OF d assms(2)] by (simp add: of_degrees_def to_degrees_def)
  have t: "of_int (trunc_int ?d) \<le> ?d" "?d < of_int (trunc_int ?d) + 1" using trunc_close [OF d] by simp_all
  have "of_int (trunc_int ?d) * (pi / 180) \<le> ?d * (pi / 180)" by (rule mult_right_mono [OF t(1)]) simp
  moreover have "?d * (pi / 180) < (of_int (trunc_int ?d) + 1) * (pi / 180)" by (rule mult_strict_right_mono [OF t(2)]) simp
  moreover have "?d * (pi / 180) = a" by simp
  ultimately show ?thesis unfolding w by (simp add: algebra_simps)
qed

text \<open>A size is rounded down to metres.\<close>

definition metres_of :: "real \<Rightarrow> real \<Rightarrow> bool" where "metres_of d d' \<longleftrightarrow> d' \<le> d \<and> d < d' + 1"

fun shape_rounded :: "AreaShape \<Rightarrow> AreaShape \<Rightarrow> bool" where
  "shape_rounded (Circle r) (Circle r') \<longleftrightarrow> metres_of r r'"
| "shape_rounded (Rectangle a b) (Rectangle a' b') \<longleftrightarrow> metres_of a a' \<and> metres_of b b'"
| "shape_rounded (Ellipse a b) (Ellipse a' b') \<longleftrightarrow> metres_of a a' \<and> metres_of b b'"
| "shape_rounded s s' \<longleftrightarrow> False"

fun shape_fits :: "AreaShape \<Rightarrow> bool" where
  "shape_fits (Circle r) \<longleftrightarrow> 0 \<le> r \<and> r < 65536"
| "shape_fits (Rectangle a b) \<longleftrightarrow> 0 \<le> a \<and> a < 65536 \<and> 0 \<le> b \<and> b < 65536"
| "shape_fits (Ellipse a b) \<longleftrightarrow> 0 \<le> a \<and> a < 65536 \<and> 0 \<le> b \<and> b < 65536"

lemma shape_written: "shape_fits shape \<Longrightarrow> shape_rounded shape (get_distances (set_distances shape h) shape)"
  using distance_roundtrip by (cases shape) (auto simp: metres_of_def)

lemma destination_kind: "destination (gbc_header_type shape) h = Inr (destination_of_shape shape h)"
  by (cases shape) (simp_all add: destination_def destination_of_shape_def HT_GBC_Circle_def HT_GBC_Rect_def HT_GBC_Elip_def)

lemma set_distances_keeps:
  "header_position (set_distances shape h) = header_position h" "gbc_angle (set_distances shape h) = gbc_angle h"
  by (cases shape; simp add: header_position_def)+

section \<open>Properties\<close>

text \<open>C25: An area written into a header is read back by the header type that goes with its shape: the same kind of shape, with its sizes rounded down to metres, its angle
  to degrees, and its position to a tenth of a microdegree.\<close>

theorem destination_roundtrip:
  assumes "shape_fits (ar_shape area)" and "\<bar>fst (ar_position area)\<bar> \<le> 90" and "\<bar>snd (ar_position area)\<bar> \<le> 180"
    and "0 \<le> ar_angle area" and "ar_angle area * 180 / pi < 65536"
  shows "\<exists>area'. destination (gbc_header_type (ar_shape area)) (set_destination area h) = Inr area' \<and> shape_rounded (ar_shape area) (ar_shape area')
    \<and> \<bar>fst (ar_position area') - fst (ar_position area)\<bar> < 1 / 10 ^ 7 \<and> \<bar>snd (ar_position area') - snd (ar_position area)\<bar> < 1 / 10 ^ 7
    \<and> ar_angle area' \<le> ar_angle area \<and> ar_angle area < ar_angle area' + pi / 180"
proof -
  let ?h = "(set_header_position (ar_position area) h)\<lparr>gbc_angle := to_degrees (ar_angle area)\<rparr>"
  have "header_position ?h = (of_geo_angle (to_geo_angle (fst (ar_position area))), of_geo_angle (to_geo_angle (snd (ar_position area))))"
    by (simp add: header_position_def set_header_position_def)
  then show ?thesis
    using shape_written [OF assms(1), of ?h] geo_angle_roundtrip [of "fst (ar_position area)"] geo_angle_roundtrip [of "snd (ar_position area)"]
      degrees_roundtrip [OF assms(4,5)] assms(2,3)
    by (simp add: destination_kind set_destination_def destination_of_shape_def set_distances_keeps)
qed

text \<open>A size below one metre is written as zero.  No receiver can tell whether it is inside: the assertion on the size fails, whatever its position.\<close>

theorem small_area_asserts:
  assumes "ar_shape area = Circle r" and "0 \<le> r" and "r < 1"
  shows "rbind (destination (gbc_header_type (ar_shape area)) (set_destination area h)) (\<lambda>area'. inside_or_at_border gl area' pos) = Inl AssertionFailed"
proof -
  have "\<lfloor>r\<rfloor> = 0" using assms(2,3) by (simp add: floor_eq_iff)
  then have "to_distance r = 0" using assms(2) by (simp add: to_distance_def trunc_int_def)
  then have "get_distances (set_destination area h) (Circle r) = Circle 0" using assms(1) by (simp add: set_destination_def of_distance_def)
  then show ?thesis using assms(1) by (simp add: destination_kind [of "Circle r", simplified] destination_of_shape_def inside_or_at_border_def outside_shape_def
      canonicalize_components)
qed

section \<open>Witnesses\<close>

definition example_area :: Area where
  "example_area = \<lparr>ar_shape = Rectangle (401/2) 50, ar_position = (487/10, 114/10), ar_angle = pi / 4\<rparr>"

definition blank_gbc :: GbcGacHeader where
  "blank_gbc = \<lparr>gbc_sequence_number = 0, gbc_reserved1 = 0, gbc_source_position = example_vector, gbc_geo_area_pos_latitude = 0, gbc_geo_area_pos_longitude = 0,
     gbc_distance_a = 0, gbc_distance_b = 0, gbc_angle = 0, gbc_reserved2 = 0\<rparr>"

theorem destination_roundtrip_witness:
  "\<exists>area'. destination HT_GBC_Rect (set_destination example_area blank_gbc) = Inr area' \<and> shape_rounded (Rectangle (401/2) 50) (ar_shape area')"
  using destination_roundtrip [of example_area blank_gbc] by (auto simp: example_area_def)

text \<open>A flat earth, as good as any around the example.\<close>

definition flat_earth :: GeographicLib where
  "flat_earth = \<lparr>gl_local_cartesian = (\<lambda>o' p. ((snd p - snd o') * 73600, (fst p - fst o') * 111200)), gl_distance = (\<lambda>p q. \<bar>fst p - fst q\<bar> * 111200 + \<bar>snd p - snd q\<bar> * 73600)\<rparr>"

theorem area_membership_witness:
  "inside_or_at_border flat_earth \<lparr>ar_shape = Ellipse 200 100, ar_position = (48, 11), ar_angle = 0\<rparr> (48 + 1/1000, 11) = Inr True"
proof -
  let ?area = "\<lparr>ar_shape = Ellipse 200 100, ar_position = (48, 11), ar_angle = 0\<rparr>"
  have "gl_local_cartesian flat_earth (ar_position ?area) (48 + 1/1000, 11) = (0, 1112 / 10)" by (simp add: flat_earth_def)
  from area_membership [OF this [symmetric]] show ?thesis by (simp add: along_def across_def power2_eq_square)
qed

theorem small_area_asserts_witness:
  "rbind (destination HT_GBC_Circle (set_destination (example_area\<lparr>ar_shape := Circle (1/2)\<rparr>) blank_gbc)) (\<lambda>area. inside_or_at_border flat_earth area (0, 0))
     = Inl AssertionFailed"
  using small_area_asserts [of "example_area\<lparr>ar_shape := Circle (1/2)\<rparr>" "1/2" blank_gbc flat_earth "(0, 0)"] by simp

end
