(* ===== verification/Spec2Isabelle.thy ===== *)
theory Spec2Isabelle
  imports Stations TraciCore EnvGlobal Gemv2PathLoss DccEntities PacketBuffers GnAreas
begin

text \<open>
  A verification development for Artery, a simulation framework for vehicular (V2X) communication.

  \<^bold>\<open>The program.\<close>  Every simulated vehicle hosts a middleware (\<open>src/src/artery/application\<close>) that owns
  the station's clock, its vehicle data, its local dynamic map and a set of services.  At each update
  interval the middleware drops expired awareness entries and triggers its services in their order.
  The CA service sends cooperative awareness messages when the generation rules call for one and feeds
  received ones into the local dynamic map.  The DEN service keeps received event notifications and
  runs use cases that detect traffic jams or exchange impact reduction containers.  Services send
  through the middleware, which selects the channels a multi-channel policy assigns to the
  application and the network interface and port on each of them; received packets are dispatched to
  the listeners of their channel and port.  Stations announce their identities to a registry, and
  filter rules on identities decide which stations run which services.  The storyboard
  (\<open>src/src/artery/storyboard\<close>) tests conditions on all vehicles at each step of the traffic simulation
  and applies or removes effects on them, among them signals that use cases react to.  The traffic
  simulator SUMO is coupled by \<open>src/src/traci\<close>, which creates, moves and removes the simulated vehicles.
  The environment model (\<open>src/src/artery/envmod\<close>) computes what the sensors of a vehicle perceive, the
  propagation model GEMV2 (\<open>src/src/artery/inet/gemv2\<close>) the loss of radio links.  Below the middleware are
  GeoNetworking and congestion control of Vanetza (\<open>src/extern/vanetza\<close>), bound to the simulation by
  \<open>src/src/artery/networking\<close>.

  \<^bold>\<open>The theories and what they model.\<close>
  \<^item> \<open>Artery_Prelude\<close>: errors as values (\<open>cerror\<close>, the type \<open>result\<close> with \<open>rbind\<close> and \<open>rmap\<close>), simulation
    time in picoseconds, the C++ conversions the sources use, \<open>std::map\<close> as an ordered association list
    (\<open>omap\<close>), \<open>std::lower_bound\<close>, \<open>boost::circular_buffer\<close>; the locale \<open>keyed_store\<close>.
  \<^item> \<open>Timers\<close> (\<open>Timer\<close>): TAI time points and the reconstruction of a 16 bit time stamp.
  \<^item> \<open>Channels\<close> (\<open>utility/Channel\<close>, \<open>MultiChannelPolicy\<close>, \<open>XmlMultiChannelPolicy\<close>, \<open>NetworkInterface\<close>,
    \<open>NetworkInterfaceTable\<close>): channel numbers and ranks, the policy read from XML, interface selection.
  \<^item> \<open>SampleBuffers\<close> (\<open>SampleBuffer.h\<close>, \<open>Sampling.h\<close>, \<open>SampleBufferAlgorithm.h\<close>): sampling of values at an
    interval into a bounded buffer.
  \<^item> \<open>VehicleData\<close> (\<open>VehicleDataProvider\<close>, station types of \<open>VehicleMiddleware\<close>, \<open>utility/Geometry\<close>):
    position, speed, yaw rate, acceleration and the filtered curvature.
  \<^item> \<open>Messages\<close>: CAM, DENM and transport requests, with the fields the code sets and reads.
  \<^item> \<open>LocalDynMap\<close> (\<open>LocalDynamicMap\<close>): awareness entries with their expiry.
  \<^item> \<open>CaServices\<close> (\<open>CaService\<close>): generation rules, message contents, reception.
  \<^item> \<open>DenMemory\<close> (\<open>den/Memory\<close>, \<open>den/CauseCode.h\<close>, \<open>DenmObject\<close>): received DENMs by action identifier.
  \<^item> \<open>DenServices\<close> (\<open>DenService\<close>, \<open>den/UseCase\<close>, \<open>den/SuspendableUseCase\<close>, \<open>den/TrafficJamUseCase\<close>,
    \<open>den/ImpactReductionUseCase\<close>): the use cases and the service that owns them.
  \<^item> \<open>Identities\<close> (\<open>utility/Identity\<close>, \<open>IdentityRegistry\<close>, \<open>FilterRules\<close>).
  \<^item> \<open>Middlewares\<close> (\<open>Facilities\<close>, \<open>TransportDispatcher\<close>, \<open>ItsG5BaseService\<close>, \<open>Middleware\<close>).
  \<^item> \<open>Storyboards\<close> (\<open>src/src/artery/storyboard\<close>): conditions, time to collision, effects, effect stacks, the
    storyboard's update.
  \<^item> \<open>Stations\<close>: one vehicle with its middleware, CA and DEN service as a state machine over the events
    the simulator delivers.
  \<^item> \<open>TraciCaches\<close>, \<open>TraciSubscriptions\<close>, \<open>TraciNodes\<close>, \<open>TraciCore\<close> (\<open>src/src/traci\<close>): cached variables, subscriptions, the life
    cycle of nodes with and without delayed insertion, connection and stepping.
  \<^item> \<open>EnvObjects\<close>, \<open>EnvTracking\<close>, \<open>EnvPreselection\<close>, \<open>EnvGlobal\<close> (\<open>src/src/artery/envmod\<close>): objects and sensor cones,
    tracking of perceived objects, preselection of candidates, detection with line of sight, and the objects that the last
    detections of radars keep alive.
  \<^item> \<open>Gemv2Index\<close>, \<open>Gemv2Vehicles\<close>, \<open>Gemv2Buildings\<close>, \<open>Gemv2PathLoss\<close> (\<open>src/src/artery/inet/gemv2\<close>): indices and link classes,
    knife edges at vehicles, reflection at buildings and vehicles, diffraction at buildings, foliage and the path loss.
  \<^item> \<open>ChannelLoads\<close> (\<open>inet/VanetRx\<close>, INET's \<open>Rx\<close>, \<open>nic/ChannelLoadMeasurements\<close>): how busy the channel is.
  \<^item> \<open>DccMachines\<close>, \<open>DccRates\<close>, \<open>DccFlow\<close> (\<open>vanetza/dcc\<close>), \<open>DccEntities\<close> (\<open>networking/DccEntityBase\<close> and its subclasses):
    state machines and LIMERIC, budgets and rate controls, the queues of the flow control, and all of them
    on the runtime of a station.
  \<^item> \<open>Runtimes\<close> (\<open>vanetza/common/manual_runtime\<close>, \<open>networking/Runtime\<close>): scheduled callbacks and the event that drives them.
  \<^item> \<open>GnCodec\<close>, \<open>SoftStates\<close>, \<open>LocationTables\<close>, \<open>PacketBuffers\<close>, \<open>GnAreas\<close> (\<open>vanetza/geonet\<close>): values and headers with their octets,
    maps of expiring entries and duplicate packet lists, the location table with the sharing of channel loads,
    the forwarding buffers and contention based forwarding, destination areas.

  A struct or class is a record with the source's member names, an enumeration a datatype, a method
  the definition \<open>Class_method\<close> on the record; calls into other objects pass those objects in and
  return them updated.  Thrown exceptions and failed assertions are values of \<open>cerror\<close>.  Unsigned
  integers are words of their width; \<open>simTime()\<close> is an argument; doubles are exact real numbers, so
  rounding of floating point is outside the statements.  Pointers are natural numbers; what two maps
  keyed by pointers share is then visible as equal keys.

  \<^bold>\<open>Interfaces.\<close>  Each is a locale interpreted on the model's definitions: \<open>keyed_store\<close> (\<open>Artery_Prelude\<close>),
  what the users of \<open>std::map\<close> rely on; \<open>channel_policy\<close> (\<open>Channels\<close>), the ranked channel list of a policy;
  \<open>sampler_interface\<close> (\<open>SampleBuffers\<close>), what feeding a sampler promises, for both samplers; \<open>use_case\<close>
  (\<open>DenServices\<close>), the contract the DEN service relies on, for each use case and for their dispatch;
  \<open>listener_table\<close> (\<open>Middlewares\<close>), what the dispatcher relies on, for port and for promiscuous listeners;
  \<open>node_manager\<close> (\<open>TraciNodes\<close>), for both node managers; \<open>preselection\<close> (\<open>EnvPreselection\<close>), no object in the cone is
  missed; \<open>transmit_rate_control\<close> (\<open>DccRates\<close>), what the flow control relies on, for every rate control and their dispatch;
  \<open>callbacks\<close> (\<open>Runtimes\<close>), what the runtime relies on, for the DCC entity; \<open>codec\<close> (\<open>GnCodec\<close>), writing and reading, for every
  value and header; \<open>soft_state\<close> (\<open>SoftStates\<close>), expiring entries; \<open>buffer_data\<close> (\<open>PacketBuffers\<close>), what the forwarding buffer
  relies on, for pending packets.

  \<^bold>\<open>What the lemmas show.\<close>  For each component an invariant and that its operations keep it
  (\<open>ca_ok\<close>, \<open>ldm_ok\<close>, \<open>memory_ok\<close>, \<open>vdp_ok\<close>, \<open>use_case_ok\<close>, \<open>station_ok\<close>, \<open>fc_ok\<close>, \<open>entity_ok\<close>, \<open>ss_inv\<close>, \<open>cbf_inv\<close>), the behaviour
  of its operations on every branch, and the properties that make it correct: CAMs are spaced by the minimum interval
  and a station never stays silent for longer than the maximum interval (or one second, where its first message comes from a shorter
  maximum) and the distance of two triggers; a received CAM is found under its sender until it expires; the DENM memory holds the newest notification per event; a use case that detects sends
  exactly one notification; a packet reaches exactly the listeners of its port; stories are applied
  and removed as their conditions and limits say; the simulated nodes are the vehicles of the traffic simulation after every
  step; a sensor tracks what it sees for its validity period, and objects that left the simulation only while a radar
  that has yet to measure holds them; the flow control drains its queues at the rate the rate
  control permits; callbacks run at their deadlines; headers are read as they were written, and truncated ones are rejected; the location table holds the
  newest position; a packet in contention is dropped by a copy or handed over when its timer expires, with the lifetime that is left up to the
  step of its header field; an area is read back
  up to the resolution of its header.  The theorems on runs of a station, a runtime or a buffer compose them by induction.
  Where the code departs from its comments or intent a theorem states what it does.

  \<^bold>\<open>Bounds.\<close>  No fuel is used.  Functions are total by structural recursion or a measure, except for the loops that run
  callbacks or drop expired entries (\<open>trigger_loop\<close>, \<open>Runtime_schedule_update\<close>, \<open>ss_drop_expired\<close>): they are partial functions into
  \<open>option\<close>, and that they return is part of what is proved about them.  Where a
  theorem limits a time point (\<open>2 ^ 60\<close> microseconds, \<open>dcc_horizon\<close>) the bound is far beyond any simulation and keeps
  the 64 bit clock from wrapping; \<open>run_limit\<close> (34000 seconds) keeps the length of a period of the medium within its 32 bits.

  \<^bold>\<open>Parameters.\<close>  Code outside the repository is an argument of the definitions: the geodesic distance and projection of
  GeographicLib, regular expressions, the random number generators, \<open>boost::lexical_cast\<close>, the operations and R-trees of
  Boost.Geometry, clock parsing, the answers of the TraCI server.  So are the choices the C++ standard or a container
  leaves open: which of several earliest nodes a heap has on top, what the uninitialised members of the LIMERIC budget hold,
  and the byte order of the host.

  \<^bold>\<open>Not modelled.\<close>  The decisions of the GeoNetworking router (\<open>vanetza/geonet/router\<close>) beyond contention in the destination
  area, security and message serialisation by ASN.1 code; the lookup and wiring of OMNeT++ modules, among them
  \<open>networking/Router\<close>, the radio drivers (\<open>nic\<close>) and the adapters to Veins and SimuLTE; drawing (the GEMV2 visualiser, sensors,
  storyboard) and Python bindings; sockets and testbed coupling (\<open>testbed\<close>, \<open>transfusion\<close>, \<open>utility/Asio\<close>).
\<close>

end
